(* ===== verification/Prelude.thy ===== *)
theory Prelude
  imports Main "HOL-Library.AList" "HOL-Library.Multiset"
begin

text \<open>
  What every component of the development shares: reachable states of a step relation and the
  locale of inductive invariants, the list operations of JavaScript that the sources use
  (\<open>Array.prototype.find\<close>, \<open>findIndex\<close>, \<open>splice\<close>, \<open>new Set\<close>, \<open>join\<close>), numbers printed in decimal,
  and truth of optional strings. A JavaScript \<open>Map\<close> keeps its keys in insertion order, and
  \<open>set\<close> on a key that is present keeps the key's place, so a \<open>Map\<close> is an association list
  written with \<open>AList.update\<close> and read with \<open>map_of\<close>.
\<close>

section \<open>Reachable states and inductive invariants\<close>

inductive reach :: "('s \<Rightarrow> bool) \<Rightarrow> ('s \<Rightarrow> 's \<Rightarrow> bool) \<Rightarrow> 's \<Rightarrow> bool"
  for init step where
  reach_init: "init s \<Longrightarrow> reach init step s"
| reach_step: "reach init step s \<Longrightarrow> step s t \<Longrightarrow> reach init step t"

locale inductive_invariant =
  fixes init :: "'s \<Rightarrow> bool"
    and step :: "'s \<Rightarrow> 's \<Rightarrow> bool"
    and I :: "'s \<Rightarrow> bool"
  assumes inv_init: "init s \<Longrightarrow> I s"
    and inv_step: "I s \<Longrightarrow> step s t \<Longrightarrow> I t"
begin

lemma reach_inv: "reach init step s \<Longrightarrow> I s"
  by (induction rule: reach.induct) (auto intro: inv_init inv_step)

end

section \<open>Lists the way the sources use them\<close>

text \<open>\<open>Array.prototype.findIndex\<close>: \<open>None\<close> stands for \<open>-1\<close>.\<close>

fun find_index :: "('a \<Rightarrow> bool) \<Rightarrow> 'a list \<Rightarrow> nat option" where
  "find_index P [] = None"
| "find_index P (x # xs) = (if P x then Some 0 else map_option Suc (find_index P xs))"

lemma find_index_SomeD:
  "find_index P xs = Some i \<Longrightarrow> i < length xs \<and> P (xs ! i) \<and> (\<forall>k<i. \<not> P (xs ! k))"
proof (induction xs arbitrary: i)
  case Nil
  then show ?case by simp
next
  case (Cons x xs)
  show ?case
  proof (cases "P x")
    case True
    with Cons.prems show ?thesis by auto
  next
    case False
    with Cons.prems obtain k where "find_index P xs = Some k" "i = Suc k" by auto
    with Cons.IH [of k] False show ?thesis by (auto simp: nth_Cons split: nat.splits)
  qed
qed

lemma find_index_None: "find_index P xs = None \<longleftrightarrow> (\<forall>x\<in>set xs. \<not> P x)"
  by (induction xs) auto

lemma find_index_Some_iff: "(\<exists>i. find_index P xs = Some i) \<longleftrightarrow> (\<exists>x\<in>set xs. P x)"
  using find_index_None [of P xs] by (cases "find_index P xs") auto

text \<open>\<open>splice(i, 1)\<close> takes the element at \<open>i\<close> out of the list.\<close>

definition remove_at :: "nat \<Rightarrow> 'a list \<Rightarrow> 'a list" where
  "remove_at i xs = take i xs @ drop (Suc i) xs"

lemma length_remove_at [simp]: "i < length xs \<Longrightarrow> length (remove_at i xs) = length xs - 1"
  by (simp add: remove_at_def)

lemma split_at: "i < length xs \<Longrightarrow> xs = take i xs @ xs ! i # drop (Suc i) xs"
  by (rule id_take_nth_drop)

lemma set_remove_at_subset: "set (remove_at i xs) \<subseteq> set xs"
  by (auto simp: remove_at_def dest: in_set_takeD in_set_dropD)

lemma map_remove_at: "map f (remove_at i xs) = remove_at i (map f xs)"
  by (simp add: remove_at_def take_map drop_map)

lemma distinct_remove_at: "distinct xs \<Longrightarrow> distinct (remove_at i xs)"
  using distinct_append [of "take i xs" "drop i xs"] set_drop_subset_set_drop [of i "Suc i" xs]
  by (auto simp: remove_at_def)

lemma set_remove_at_nth: "i < length xs \<Longrightarrow> set xs = insert (xs ! i) (set (remove_at i xs))"
  by (subst split_at [of i xs]) (auto simp: remove_at_def)

lemma mset_remove_at: "i < length xs \<Longrightarrow> mset xs = add_mset (xs ! i) (mset (remove_at i xs))"
  by (subst split_at [of i xs]) (auto simp: remove_at_def)

lemma distinct_nth_notin_remove_at:
  "distinct xs \<Longrightarrow> i < length xs \<Longrightarrow> xs ! i \<notin> set (remove_at i xs)"
  using split_at [of i xs] by (metis distinct.simps(2) distinct_append not_distinct_conv_prefix
      remove_at_def set_append Un_iff disjoint_insert(1) list.simps(15) Int_commute)

text \<open>\<open>[...new Set(xs)]\<close>: the first occurrence of each element, in order.\<close>

fun uniq :: "'a list \<Rightarrow> 'a list" where
  "uniq [] = []"
| "uniq (x # xs) = x # filter (\<lambda>y. y \<noteq> x) (uniq xs)"

lemma set_uniq [simp]: "set (uniq xs) = set xs"
  by (induction xs) auto

lemma distinct_uniq [simp]: "distinct (uniq xs)"
  by (induction xs) auto

lemma uniq_eq_Nil [simp]: "uniq xs = [] \<longleftrightarrow> xs = []"
  by (cases xs) auto

text \<open>\<open>names.join(sep)\<close>.\<close>

fun join :: "string \<Rightarrow> string list \<Rightarrow> string" where
  "join sep [] = []"
| "join sep [x] = x"
| "join sep (x # y # xs) = x @ sep @ join sep (y # xs)"

section \<open>Maps in insertion order\<close>

lemma map_of_AList_update [simp]: "map_of (AList.update k v al) = (map_of al)(k \<mapsto> v)"
  by (simp add: update_conv')

lemma AList_update_keys_Some:
  "map_of al k = Some v \<Longrightarrow> map fst (AList.update k w al) = map fst al"
  by (induction al) (auto split: if_splits)

lemma AList_update_None: "map_of al k = None \<Longrightarrow> AList.update k w al = al @ [(k, w)]"
  by (induction al) (auto split: if_splits)

lemma map_of_map_values: "map_of (map (\<lambda>(k, v). (k, f v)) al) k = map_option f (map_of al k)"
  by (induction al) auto

lemma map_fst_map_values [simp]: "map fst (map (\<lambda>(k, v). (k, f v)) al) = map fst al"
  by (induction al) auto

text \<open>\<open>map.set(key(x), x)\<close> for every element: the values are elements, and every element has one with its key.\<close>

lemma updates_values: "set (map snd (fold (\<lambda>x. AList.update (key x) x) xs al)) \<subseteq> set xs \<union> set (map snd al)"
proof (induction xs arbitrary: al)
  case (Cons x xs)
  let ?al = "AList.update (key x) x al"
  have "set (map snd ?al) \<subseteq> insert x (set (map snd al))" by (induction al) auto
  moreover have eq: "fold (\<lambda>x. AList.update (key x) x) (x # xs) al = fold (\<lambda>x. AList.update (key x) x) xs ?al" by simp
  ultimately show ?case using Cons.IH [of ?al] unfolding eq list.set(2) by blast
qed simp

lemma updates_get:
  "x \<in> set xs \<or> (\<exists>y. map_of al (key x) = Some y \<and> key y = key x) \<Longrightarrow>
    \<exists>y. map_of (fold (\<lambda>x. AList.update (key x) x) xs al) (key x) = Some y \<and> key y = key x"
proof (induction xs arbitrary: al)
  case (Cons z xs)
  show ?case using Cons.IH [of "AList.update (key z) z al"] Cons.prems by (cases "key z = key x") auto
qed simp

text \<open>A sum over the entries changes by the entry that is written.\<close>

lemma sum_list_AList_update:
  fixes f :: "'k \<times> 'v \<Rightarrow> 'm::cancel_comm_monoid_add"
  shows "map_of al k = Some v \<Longrightarrow>
    sum_list (map f (AList.update k w al)) + f (k, v) = sum_list (map f al) + f (k, w)"
  by (induction al) (auto simp: ac_simps split: if_splits)

section \<open>Numbers and optional strings\<close>

text \<open>A number in a template literal: its decimal digits.\<close>

fun show_nat :: "nat \<Rightarrow> string" where
  "show_nat n =
     (if n < 10 then [char_of (48 + n)] else show_nat (n div 10) @ [char_of (48 + n mod 10)])"

declare show_nat.simps [simp del]

definition show_int :: "int \<Rightarrow> string" where
  "show_int i = (if i < 0 then ''-'' @ show_nat (nat (- i)) else show_nat (nat i))"

text \<open>
  \<open>Math.round(a / b)\<close> for a positive \<open>b\<close>: halves are rounded up, also for negative \<open>a\<close>.
\<close>

definition round_div :: "int \<Rightarrow> int \<Rightarrow> int" where
  "round_div a b = (2 * a + b) div (2 * b)"

text \<open>\<open>Boolean(s)\<close> of an optional string: absent and empty strings are false.\<close>

definition truthy :: "string option \<Rightarrow> bool" where
  "truthy s = (case s of None \<Rightarrow> False | Some t \<Rightarrow> t \<noteq> [])"

lemma truthy_simps [simp]: "\<not> truthy None" "truthy (Some t) \<longleftrightarrow> t \<noteq> []"
  by (simp_all add: truthy_def)

text \<open>\<open>a ?? b\<close> on optional values.\<close>

definition nullish :: "'a option \<Rightarrow> 'a option \<Rightarrow> 'a option" where
  "nullish a b = (case a of None \<Rightarrow> b | Some x \<Rightarrow> Some x)"

lemma nullish_simps [simp]: "nullish None b = b" "nullish (Some x) b = Some x"
  by (simp_all add: nullish_def)

end
