(* ===== verification/Queue_Types.thy ===== *)
theory Queue_Types
  imports Prelude
begin

text \<open>
  The data of the deployment queue: \<open>DeploymentJob\<close> of
  \<open>apps/dokploy/server/queues/queue-types.ts\<close> and the types, pure helpers and state of
  \<open>InMemoryQueue\<close> in \<open>apps/dokploy/server/queues/in-memory-queue.ts\<close>. The job id
  \<open>job-n\<close> is the number \<open>n\<close>. An object's absent or undefined property is \<open>None\<close>.
\<close>

section \<open>Job payloads\<close>

datatype job_type = Deploy | Redeploy

datatype application_type = App | Compose | App_Preview | Compose_Preview

datatype build_origin = Origin_Dokploy | Origin_Github_Actions | Origin_External

record pinned_image =
  ref :: string
  tag :: "string option"
  digest :: string

text \<open>
  The four variants of the union share these properties; a property that a variant does not
  have is absent. The queue reads and spreads payloads without looking at the variant, so the
  model keeps one record of optional properties, as the JavaScript object is.
\<close>

record deployment_job =
  jobType :: job_type
  applicationType :: application_type
  applicationId :: "string option"
  composeId :: "string option"
  previewDeploymentId :: "string option"
  titleLog :: string
  descriptionLog :: string
  job_server :: "bool option"
  serverId :: "string option"
  freshVolumes :: "bool option"
  pinnedImage :: "pinned_image option"
  buildOrigin :: "build_origin option"
  buildRunUrl :: "string option"
  deploymentId :: "string option"
  priority :: "bool option"
  priorityBy :: "string option"

definition LOCAL_PARTITION :: string where
  "LOCAL_PARTITION = ''__local__''"

text \<open>An optional string in a template literal: an absent one prints as \<open>undefined\<close>.\<close>

definition show_opt :: "string option \<Rightarrow> string" where
  "show_opt s = (case s of None \<Rightarrow> ''undefined'' | Some t \<Rightarrow> t)"

definition getPartition :: "deployment_job \<Rightarrow> string" where
  "getPartition d = (case serverId d of None \<Rightarrow> LOCAL_PARTITION | Some s \<Rightarrow> s)"

definition getGroup :: "deployment_job \<Rightarrow> string" where
  "getGroup d =
     (if applicationType d = Compose \<or> applicationType d = Compose_Preview
      then ''compose:'' @ show_opt (composeId d)
      else ''application:'' @ show_opt (applicationId d))"

definition withoutPriority :: "deployment_job \<Rightarrow> deployment_job" where
  "withoutPriority d = d\<lparr>priority := None, priorityBy := None\<rparr>"

text \<open>The key by which \<open>sameJobProfile\<close> compares pinned images.\<close>

definition pinned_key :: "deployment_job \<Rightarrow> string" where
  "pinned_key d =
     (case pinnedImage d of
        None \<Rightarrow> ''''
      | Some im \<Rightarrow> ref im @ ''|'' @ (case tag im of None \<Rightarrow> '''' | Some t \<Rightarrow> t) @ ''|'' @ digest im)"

definition sameJobProfile :: "deployment_job \<Rightarrow> deployment_job \<Rightarrow> bool \<Rightarrow> bool" where
  "sameJobProfile a b with_pinned \<longleftrightarrow>
     jobType a = jobType b \<and>
     (freshVolumes a = Some True) = (freshVolumes b = Some True) \<and>
     (priority a = Some True) = (priority b = Some True) \<and>
     (case priorityBy a of None \<Rightarrow> '''' | Some s \<Rightarrow> s) = (case priorityBy b of None \<Rightarrow> '''' | Some s \<Rightarrow> s) \<and>
     (\<not> with_pinned \<or> pinned_key a = pinned_key b)"

lemma sameJobProfile_refl [simp]: "sameJobProfile a a w"
  by (simp add: sameJobProfile_def)

lemma sameJobProfile_sym: "sameJobProfile a b w \<longleftrightarrow> sameJobProfile b a w"
  by (auto simp: sameJobProfile_def)

lemma sameJobProfile_trans: "sameJobProfile a b w \<Longrightarrow> sameJobProfile b c w \<Longrightarrow> sameJobProfile a c w"
  by (auto simp: sameJobProfile_def)

section \<open>Jobs, partitions and outcomes\<close>

datatype job_state = Waiting | Active

record internal_job =
  jid :: nat
  journalId :: string
  jdata :: deployment_job
  timestamp :: int
  processedOn :: "int option"
  finishedOn :: "int option"
  failedReason :: "string option"
  jstate :: job_state
  partition_key :: string
  group :: string
  jumped :: bool
  wentAheadOf :: nat
  released :: bool
  groupLockKept :: bool

text \<open>
  A partition. \<open>activeGroups\<close> is a JavaScript \<open>Set\<close> whose order is never read.
\<close>

record partition =
  waiting :: "internal_job list"
  activeGroups :: "string set"
  active :: "internal_job list"
  jumpedLast :: bool
  concurrency :: "nat option"

definition empty_partition :: partition where
  "empty_partition =
     \<lparr>waiting = [], activeGroups = {}, active = [], jumpedLast = False, concurrency = None\<rparr>"

lemma empty_partition_simps [simp]:
  "waiting empty_partition = []" "activeGroups empty_partition = {}"
  "active empty_partition = []" "jumpedLast empty_partition = False"
  "concurrency empty_partition = None"
  by (simp_all add: empty_partition_def)

datatype job_outcome = Cancelled | Failed

text \<open>How a processor ends: it completes, it reports an outcome, or it throws.\<close>

datatype processor_result = Completed | Reported job_outcome | Threw string

definition outcome_of :: "processor_result \<Rightarrow> job_outcome option" where
  "outcome_of r = (case r of Completed \<Rightarrow> None | Reported x \<Rightarrow> Some x | Threw m \<Rightarrow> Some Failed)"

datatype priority_reason = Nothing_Waiting | First_In_Line | Older_Same_Service | Priority_Busy

record priority_outcome =
  applied :: bool
  ahead :: nat
  reason :: "priority_reason option"

text \<open>A waiting job as it is reported; \<open>enqueuedAt\<close> is the time, not its ISO text.\<close>

record kept_waiting_job =
  kw_jobId :: nat
  kw_enqueuedAt :: int
  kw_type :: job_type

definition summarize :: "internal_job \<Rightarrow> kept_waiting_job" where
  "summarize j = \<lparr>kw_jobId = jid j, kw_enqueuedAt = timestamp j, kw_type = jobType (jdata j)\<rparr>"

record restored_job =
  rj_journalId :: string
  rj_data :: deployment_job
  rj_timestamp :: int

section \<open>The queue\<close>

text \<open>
  What the queue tells the outside: the journal's four calls, the payloads that left without
  running, the call of the processor, and the promises of \<open>waitForIdle\<close> it settles.
\<close>

datatype effect =
    J_Enqueued string deployment_job
  | J_Started string
  | J_Settled "string list"
  | J_Updated string deployment_job
  | Waiting_Dropped "deployment_job list"
  | Run_Processor nat
  | Idle_Wake nat

text \<open>
  The state of an \<open>InMemoryQueue\<close>. \<open>partitions\<close> is the \<open>Map\<close> in insertion order.
  \<open>draining\<close> lists the calls of \<open>drainPartition\<close> that wait for \<open>resolveConcurrency\<close>.
  \<open>late\<close> holds the jobs that \<open>releaseActive\<close> took out while their processor was still
  running: the pending \<open>runJob\<close> calls refer to them, and \<open>keptLocks\<close> is a map into the same
  objects, so the model stores the ids of its keys. \<open>holds\<close> are the release functions that
  \<open>holdIdleGroup\<close> handed out and that were not called yet (token, partition, group).
  \<open>out\<close> is the trace of effects, newest last. The last three fields say which options the
  queue was constructed with.
\<close>

record queue =
  partitions :: "(string \<times> partition) list"
  late :: "internal_job list"
  keptLocks :: "nat set"
  heldGroups :: "string set"
  holds :: "(nat \<times> string \<times> string) list"
  nextHold :: nat
  hasProcessor :: bool
  running :: bool
  paused :: bool
  seq :: nat
  idleWaiters :: "nat list"
  draining :: "string list"
  out :: "effect list"
  hasJournal :: bool
  hasUpdated :: bool
  hasDropHook :: bool

definition new_queue :: "bool \<Rightarrow> bool \<Rightarrow> bool \<Rightarrow> queue" where
  "new_queue journal updated dropHook =
     \<lparr>partitions = [], late = [], keptLocks = {}, heldGroups = {}, holds = [], nextHold = 0,
      hasProcessor = False, running = False, paused = False, seq = 0, idleWaiters = [],
      draining = [], out = [], hasJournal = journal, hasUpdated = updated, hasDropHook = dropHook\<rparr>"

end
