(* ===== verification/Queue_Schedule.thy ===== *)
theory Queue_Schedule
  imports Queue_Types
begin

text \<open>
  Scheduling inside one partition: which waiting job takes a free slot (\<open>pickNext\<close>), when a
  priority job may jump (\<open>jumpBlocked\<close>, \<open>startableBefore\<close>, \<open>freeSlots\<close>,
  \<open>assessPriority\<close>) and the loop of \<open>drainPartition\<close> that starts jobs. The lemmas show that
  the loop terminates, starts the jobs of one group in waiting order, keeps the concurrency
  limit, never leaves a free slot unused while a job could start, and lets at most one
  jumped job run.
\<close>

section \<open>Definitions\<close>

definition jumpBlocked :: "partition \<Rightarrow> bool" where
  "jumpBlocked p \<longleftrightarrow> jumpedLast p \<or> (\<exists>j\<in>set (active p). jumped j)"

definition startableBefore :: "partition \<Rightarrow> nat \<Rightarrow> nat" where
  "startableBefore p i =
     length (filter (\<lambda>j. group j \<notin> activeGroups p) (take i (waiting p)))"

definition hasOlderOfGroup :: "partition \<Rightarrow> nat \<Rightarrow> string \<Rightarrow> bool" where
  "hasOlderOfGroup p i g \<longleftrightarrow> (\<exists>j\<in>set (take i (waiting p)). group j = g)"

definition freeSlots :: "queue \<Rightarrow> partition \<Rightarrow> nat" where
  "freeSlots q p =
     (if \<not> running q \<or> paused q \<or> \<not> hasProcessor q then 0
      else (case concurrency p of None \<Rightarrow> 1 | Some c \<Rightarrow> c) - length (active p))"

definition no_jump :: "priority_reason \<Rightarrow> priority_outcome" where
  "no_jump r = \<lparr>applied = False, ahead = 0, reason = Some r\<rparr>"

definition assessPriority ::
  "queue \<Rightarrow> partition \<Rightarrow> nat \<Rightarrow> string \<Rightarrow> bool \<Rightarrow> priority_outcome" where
  "assessPriority q p i g othersBehind =
     (if i = 0 then no_jump (if othersBehind then First_In_Line else Nothing_Waiting)
      else if hasOlderOfGroup p i g then no_jump Older_Same_Service
      else let n = startableBefore p i - freeSlots q p in
        if n = 0 then no_jump First_In_Line
        else if jumpBlocked p then no_jump Priority_Busy
        else \<lparr>applied = True, ahead = n, reason = None\<rparr>)"

text \<open>
  The \<open>for\<close> loop of \<open>pickNext\<close> over the waiting list: \<open>i\<close> is the index, \<open>seen\<close> the groups of
  the jobs before it.
\<close>

fun find_flagged ::
  "string set \<Rightarrow> nat \<Rightarrow> nat \<Rightarrow> string set \<Rightarrow> internal_job list \<Rightarrow> nat option" where
  "find_flagged busy first i seen [] = None"
| "find_flagged busy first i seen (j # js) =
     (if first \<le> i \<and> priority (jdata j) = Some True \<and> group j \<notin> busy \<and> group j \<notin> seen
      then Some i
      else find_flagged busy first (Suc i) (insert (group j) seen) js)"

definition pickNext :: "partition \<Rightarrow> (nat \<times> bool) option" where
  "pickNext p =
     (case find_index (\<lambda>j. group j \<notin> activeGroups p) (waiting p) of
        None \<Rightarrow> None
      | Some first \<Rightarrow>
          (case (if jumpBlocked p then None
                 else find_flagged (activeGroups p) first 0 {} (waiting p)) of
             Some i \<Rightarrow> Some (i, first < i)
           | None \<Rightarrow> Some (first, False)))"

text \<open>
  One turn of the loop of \<open>drainPartition\<close>: the picked job leaves the waiting list, takes its
  group and a slot. \<open>clock\<close> gives the time that \<open>this.now()\<close> answers for each job.
\<close>

definition started_job :: "(nat \<Rightarrow> int) \<Rightarrow> partition \<Rightarrow> nat \<Rightarrow> bool \<Rightarrow> internal_job" where
  "started_job clock p i jump =
     (let j = waiting p ! i in
      j\<lparr>jumped := jump, wentAheadOf := (if jump then startableBefore p i else 0),
        jstate := Active, processedOn := Some (clock (jid j))\<rparr>)"

definition start_at :: "(nat \<Rightarrow> int) \<Rightarrow> partition \<Rightarrow> nat \<Rightarrow> bool \<Rightarrow> partition" where
  "start_at clock p i jump =
     (let j = started_job clock p i jump in
      p\<lparr>waiting := remove_at i (waiting p), jumpedLast := jump,
        activeGroups := insert (group j) (activeGroups p), active := active p @ [j]\<rparr>)"

section \<open>Which job is picked\<close>

lemma find_flagged_SomeD:
  assumes "find_flagged busy first i seen js = Some k"
  shows "i \<le> k \<and> k < i + length js \<and> first \<le> k \<and> priority (jdata (js ! (k - i))) = Some True
    \<and> group (js ! (k - i)) \<notin> busy \<and> group (js ! (k - i)) \<notin> seen
    \<and> (\<forall>m<k - i. group (js ! m) \<noteq> group (js ! (k - i)))"
  using assms
proof (induction js arbitrary: i seen)
  case Nil
  then show ?case by simp
next
  case (Cons j js)
  show ?case
  proof (cases "first \<le> i \<and> priority (jdata j) = Some True \<and> group j \<notin> busy \<and> group j \<notin> seen")
    case True
    with Cons.prems show ?thesis by auto
  next
    case False
    with Cons.prems have *: "find_flagged busy first (Suc i) (insert (group j) seen) js = Some k"
      by (auto split: if_splits)
    from Cons.IH [OF *] have "Suc i \<le> k" by simp
    then obtain m where m: "k - i = Suc m" "k - Suc i = m" by (metis Suc_diff_Suc Suc_le_lessD)
    from Cons.IH [OF *] show ?thesis by (auto simp: m nth_Cons split: nat.splits)
  qed
qed

lemma pickNext_None: "pickNext p = None \<longleftrightarrow> (\<forall>j\<in>set (waiting p). group j \<in> activeGroups p)"
  by (auto simp: pickNext_def find_index_None split: option.splits dest!: find_index_SomeD)

lemma pickNext_SomeD:
  assumes "pickNext p = Some (i, jump)"
  shows "i < length (waiting p) \<and> group (waiting p ! i) \<notin> activeGroups p
    \<and> (\<forall>k<i. group (waiting p ! k) \<noteq> group (waiting p ! i))
    \<and> (jump \<longrightarrow> \<not> jumpBlocked p \<and> priority (jdata (waiting p ! i)) = Some True)
    \<and> (\<not> jump \<longrightarrow> (\<forall>k<i. group (waiting p ! k) \<in> activeGroups p))
    \<and> (jump \<longrightarrow> (\<exists>k<i. group (waiting p ! k) \<notin> activeGroups p))"
proof -
  from assms obtain first where f: "find_index (\<lambda>j. group j \<notin> activeGroups p) (waiting p) = Some first"
    by (auto simp: pickNext_def split: option.splits)
  note first = find_index_SomeD [OF f]
  show ?thesis
  proof (cases "if jumpBlocked p then None
      else find_flagged (activeGroups p) first 0 {} (waiting p)")
    case None
    with assms f have "i = first" "\<not> jump" by (auto simp: pickNext_def)
    with first show ?thesis by metis
  next
    case (Some k)
    with assms f have ik: "i = k" "jump = (first < k)" by (auto simp: pickNext_def)
    from Some have "\<not> jumpBlocked p"
      and "find_flagged (activeGroups p) first 0 {} (waiting p) = Some k"
      by (auto split: if_splits)
    with find_flagged_SomeD [of "activeGroups p" first 0 "{}" "waiting p" k] first ik
    show ?thesis by auto
  qed
qed

lemma pickNext_length: "pickNext p = Some (i, jump) \<Longrightarrow> i < length (waiting p)"
  using pickNext_SomeD by blast

section \<open>The scheduling loop\<close>

function start_jobs ::
  "(nat \<Rightarrow> int) \<Rightarrow> nat \<Rightarrow> partition \<Rightarrow> partition \<times> internal_job list" where
  "start_jobs clock c p =
     (if length (active p) < c then
        (case pickNext p of
           None \<Rightarrow> (p, [])
         | Some (i, jump) \<Rightarrow>
             (let (p', js) = start_jobs clock c (start_at clock p i jump)
              in (p', started_job clock p i jump # js)))
      else (p, []))"
  by pat_completeness auto
termination
  by (relation "measure (\<lambda>(clock, c, p). length (waiting p))")
    (auto simp: start_at_def Let_def dest: pickNext_length)

declare start_jobs.simps [simp del]

lemma started_job_simps [simp]:
  "jid (started_job clock p i jump) = jid (waiting p ! i)"
  "journalId (started_job clock p i jump) = journalId (waiting p ! i)"
  "group (started_job clock p i jump) = group (waiting p ! i)"
  "jdata (started_job clock p i jump) = jdata (waiting p ! i)"
  "partition_key (started_job clock p i jump) = partition_key (waiting p ! i)"
  "released (started_job clock p i jump) = released (waiting p ! i)"
  "groupLockKept (started_job clock p i jump) = groupLockKept (waiting p ! i)"
  "jumped (started_job clock p i jump) = jump"
  "jstate (started_job clock p i jump) = Active"
  by (simp_all add: started_job_def Let_def)

lemma start_at_simps [simp]:
  "waiting (start_at clock p i jump) = remove_at i (waiting p)"
  "active (start_at clock p i jump) = active p @ [started_job clock p i jump]"
  "activeGroups (start_at clock p i jump) = insert (group (waiting p ! i)) (activeGroups p)"
  "jumpedLast (start_at clock p i jump) = jump"
  "concurrency (start_at clock p i jump) = concurrency p"
  by (simp_all add: start_at_def Let_def)

text \<open>The loop as an induction principle: it stops, or one more job is started.\<close>

lemma start_jobs_stop:
  assumes "\<not> length (active p) < c \<or> pickNext p = None"
  shows "start_jobs clock c p = (p, [])"
  using assms by (cases "pickNext p = None") (simp_all add: start_jobs.simps [of clock c p])

lemma start_jobs_step:
  assumes "length (active p) < c" and "pickNext p = Some (i, jump)"
  shows "start_jobs clock c p =
    (fst (start_jobs clock c (start_at clock p i jump)),
     started_job clock p i jump # snd (start_jobs clock c (start_at clock p i jump)))"
  using assms by (simp add: start_jobs.simps [of clock c p] split: prod.splits)

lemma start_jobs_induct [case_names stop step]:
  assumes stop: "\<And>p. \<not> length (active p) < c \<or> pickNext p = None \<Longrightarrow> P p p []"
    and step: "\<And>p i jump p' js. length (active p) < c \<Longrightarrow> pickNext p = Some (i, jump) \<Longrightarrow>
      P (start_at clock p i jump) p' js \<Longrightarrow> P p p' (started_job clock p i jump # js)"
  shows "P p (fst (start_jobs clock c p)) (snd (start_jobs clock c p))"
proof (induction "length (waiting p)" arbitrary: p rule: less_induct)
  case less
  show ?case
  proof (cases "length (active p) < c \<and> pickNext p \<noteq> None")
    case False
    then have "\<not> length (active p) < c \<or> pickNext p = None" by blast
    from start_jobs_stop [OF this] stop [OF this] show ?thesis by simp
  next
    case True
    then obtain i jump where pick: "pickNext p = Some (i, jump)" by auto
    with pickNext_length have "length (waiting (start_at clock p i jump)) < length (waiting p)"
      by (metis diff_less gr_implies_not0 length_greater_0_conv length_remove_at less_numeral_extra(1)
          list.size(3) start_at_simps(1))
    from less [OF this] True pick show ?thesis by (simp add: start_jobs_step step)
  qed
qed

lemma start_jobs_inv:
  assumes "\<And>p i jump. I p \<Longrightarrow> length (active p) < c \<Longrightarrow> pickNext p = Some (i, jump) \<Longrightarrow>
      I (start_at clock p i jump)"
    and "I p"
  shows "I (fst (start_jobs clock c p))"
proof -
  have "I p \<longrightarrow> I (fst (start_jobs clock c p))"
    by (rule start_jobs_induct [where P = "\<lambda>p p' js. I p \<longrightarrow> I p'"]) (auto intro: assms(1))
  with assms(2) show ?thesis by simp
qed

section \<open>What a run of the loop does to a partition\<close>

lemma start_jobs_active:
  "active (fst (start_jobs clock c p)) = active p @ snd (start_jobs clock c p)"
  by (rule start_jobs_induct [where P = "\<lambda>p p' js. active p' = active p @ js"]) auto

lemma start_jobs_capacity:
  "length (active (fst (start_jobs clock c p))) \<le> max (length (active p)) c"
  by (rule start_jobs_induct [where P = "\<lambda>p p' js. length (active p') \<le> max (length (active p)) c"])
    auto

lemma start_jobs_exhausts:
  "c \<le> length (active (fst (start_jobs clock c p))) \<or> pickNext (fst (start_jobs clock c p)) = None"
  by (rule start_jobs_induct
      [where P = "\<lambda>p p' js. c \<le> length (active p') \<or> pickNext p' = None"]) auto

lemma start_jobs_groups:
  "activeGroups (fst (start_jobs clock c p)) = activeGroups p \<union> group ` set (snd (start_jobs clock c p))
   \<and> distinct (map group (snd (start_jobs clock c p)))
   \<and> group ` set (snd (start_jobs clock c p)) \<inter> activeGroups p = {}"
  by (rule start_jobs_induct
      [where P = "\<lambda>p p' js. activeGroups p' = activeGroups p \<union> group ` set js
        \<and> distinct (map group js) \<and> group ` set js \<inter> activeGroups p = {}"])
    (auto dest!: pickNext_SomeD)

lemma filter_remove_at_none:
  assumes "i < length xs" and "\<not> P (xs ! i)"
  shows "filter P (remove_at i xs) = filter P xs"
  using assms split_at [of i xs] by (metis filter.simps(2) filter_append remove_at_def)

lemma filter_remove_at_first:
  assumes "i < length xs" and "P (xs ! i)" and "\<forall>k<i. \<not> P (xs ! k)"
  shows "filter P xs = xs ! i # filter P (remove_at i xs)"
proof -
  have "filter P (take i xs) = []"
    using assms(1,3) by (auto simp: filter_empty_conv in_set_conv_nth)
  then show ?thesis
    using assms(1,2) split_at [of i xs] unfolding remove_at_def
    by (metis append_Nil filter.simps(2) filter_append)
qed

text \<open>The jobs of one group leave the waiting list from the front, and at most one per run.\<close>

lemma start_jobs_fifo:
  "map jid (filter (\<lambda>j. group j = g) (waiting p)) =
     map jid (filter (\<lambda>j. group j = g) (snd (start_jobs clock c p))) @
     map jid (filter (\<lambda>j. group j = g) (waiting (fst (start_jobs clock c p))))"
proof (rule start_jobs_induct [where P = "\<lambda>p p' js.
    map jid (filter (\<lambda>j. group j = g) (waiting p)) =
      map jid (filter (\<lambda>j. group j = g) js) @ map jid (filter (\<lambda>j. group j = g) (waiting p'))"])
  fix p p' :: partition and i jump and js :: "internal_job list"
  assume pick: "pickNext p = Some (i, jump)"
    and IH: "map jid (filter (\<lambda>j. group j = g) (waiting (start_at clock p i jump))) =
      map jid (filter (\<lambda>j. group j = g) js) @ map jid (filter (\<lambda>j. group j = g) (waiting p'))"
  note d = pickNext_SomeD [OF pick]
  show "map jid (filter (\<lambda>j. group j = g) (waiting p)) =
      map jid (filter (\<lambda>j. group j = g) (started_job clock p i jump # js)) @
      map jid (filter (\<lambda>j. group j = g) (waiting p'))"
  proof (cases "group (waiting p ! i) = g")
    case True
    with d have "filter (\<lambda>j. group j = g) (waiting p) =
        waiting p ! i # filter (\<lambda>j. group j = g) (remove_at i (waiting p))"
      by (intro filter_remove_at_first) auto
    with IH True show ?thesis by simp
  next
    case False
    with d have "filter (\<lambda>j. group j = g) (remove_at i (waiting p)) =
        filter (\<lambda>j. group j = g) (waiting p)"
      by (intro filter_remove_at_none) auto
    with IH False show ?thesis by simp
  qed
qed simp

lemma start_jobs_waiting_subset:
  "set (waiting (fst (start_jobs clock c p))) \<subseteq> set (waiting p)"
  by (rule start_jobs_induct [where P = "\<lambda>p p' js. set (waiting p') \<subseteq> set (waiting p)"])
    (use set_remove_at_subset in \<open>fastforce+\<close>)

text \<open>Each started job is a waiting job with its bookkeeping fields written.\<close>

definition same_payload :: "internal_job \<Rightarrow> internal_job \<Rightarrow> bool" where
  "same_payload a b \<longleftrightarrow> jid a = jid b \<and> journalId a = journalId b \<and> jdata a = jdata b \<and>
     group a = group b \<and> partition_key a = partition_key b \<and> released a = released b \<and>
     groupLockKept a = groupLockKept b"

lemma start_jobs_started:
  "\<forall>j\<in>set (snd (start_jobs clock c p)). jstate j = Active \<and> (\<exists>w\<in>set (waiting p). same_payload j w)"
proof (rule start_jobs_induct [where P = "\<lambda>p p' js.
    \<forall>j\<in>set js. jstate j = Active \<and> (\<exists>w\<in>set (waiting p). same_payload j w)"])
  fix p p' :: partition and i jump and js :: "internal_job list"
  assume pick: "pickNext p = Some (i, jump)"
    and IH: "\<forall>j\<in>set js. jstate j = Active \<and>
      (\<exists>w\<in>set (waiting (start_at clock p i jump)). same_payload j w)"
  from pickNext_length [OF pick] have "waiting p ! i \<in> set (waiting p)" by simp
  then have "\<exists>w\<in>set (waiting p). same_payload (started_job clock p i jump) w"
    by (auto simp: same_payload_def)
  with IH set_remove_at_subset [of i "waiting p"]
  show "\<forall>j\<in>set (started_job clock p i jump # js). jstate j = Active \<and>
      (\<exists>w\<in>set (waiting p). same_payload j w)"
    by (auto 4 4)
qed simp

lemma start_jobs_mset:
  "mset (map jid (waiting p)) =
     mset (map jid (snd (start_jobs clock c p))) + mset (map jid (waiting (fst (start_jobs clock c p))))"
proof (rule start_jobs_induct [where P = "\<lambda>p p' js.
    mset (map jid (waiting p)) = mset (map jid js) + mset (map jid (waiting p'))"])
  fix p p' :: partition and i jump and js :: "internal_job list"
  assume pick: "pickNext p = Some (i, jump)"
    and IH: "mset (map jid (waiting (start_at clock p i jump))) = mset (map jid js) + mset (map jid (waiting p'))"
  from pickNext_length [OF pick]
  have "mset (waiting p) = add_mset (waiting p ! i) (mset (remove_at i (waiting p)))"
    by (simp add: mset_remove_at)
  with IH show "mset (map jid (waiting p)) =
      mset (map jid (started_job clock p i jump # js)) + mset (map jid (waiting p'))"
    by simp
qed simp

text \<open>One jump at a time, and none after a jump that is still in the way.\<close>

lemma start_jobs_jumps:
  "length (filter jumped (active p)) \<le> 1 \<Longrightarrow>
   length (filter jumped (active (fst (start_jobs clock c p)))) \<le> 1"
  by (rule start_jobs_inv [where I = "\<lambda>p. length (filter jumped (active p)) \<le> 1"])
    (auto dest!: pickNext_SomeD simp: jumpBlocked_def filter_empty_conv)

lemma start_jobs_blocked:
  "jumpBlocked p \<Longrightarrow> snd (start_jobs clock c p) = j # js \<Longrightarrow> \<not> jumped j"
proof (cases "pickNext p")
  case None
  then show "snd (start_jobs clock c p) = j # js \<Longrightarrow> \<not> jumped j" by (simp add: start_jobs_stop)
next
  case (Some pick)
  then obtain i jump where pick: "pickNext p = Some (i, jump)" by (cases pick) auto
  assume b: "jumpBlocked p" and js: "snd (start_jobs clock c p) = j # js"
  from js have "length (active p) < c" by (cases "length (active p) < c") (simp_all add: start_jobs_stop)
  from start_jobs_step [OF this pick] js have "j = started_job clock p i jump" by simp
  with pickNext_SomeD [OF pick] b show "\<not> jumped j" by auto
qed

end
