(* ===== verification/Queue_Ops.thy ===== *)
theory Queue_Ops
  imports Queue_Schedule
begin

text \<open>
  The methods of \<open>InMemoryQueue\<close> (\<open>apps/dokploy/server/queues/in-memory-queue.ts\<close>) on the
  whole queue state, one definition per method. JavaScript runs each method without interruption
  up to its first \<open>await\<close>, so an operation here is one atomic step. \<open>drainPartition\<close> is two:
  \<open>drain_begin\<close> up to the \<open>await\<close> of \<open>resolveConcurrency\<close>, and \<open>drain_resume\<close>, which
  runs when that promise settles and can therefore interleave with every other operation. The
  part of a processor that runs before its first \<open>await\<close> is taken not to call the queue.
\<close>

section \<open>Partitions, effects and journal hooks\<close>

definition set_part :: "string \<Rightarrow> partition \<Rightarrow> queue \<Rightarrow> queue" where
  "set_part key p q = q\<lparr>partitions := AList.update key p (partitions q)\<rparr>"

definition getPartitionState :: "string \<Rightarrow> queue \<Rightarrow> queue \<times> partition" where
  "getPartitionState key q =
     (case map_of (partitions q) key of
        Some p \<Rightarrow> (q, p)
      | None \<Rightarrow> (set_part key empty_partition q, empty_partition))"

definition emit :: "effect list \<Rightarrow> queue \<Rightarrow> queue" where
  "emit es q = q\<lparr>out := out q @ es\<rparr>"

definition settle :: "internal_job list \<Rightarrow> queue \<Rightarrow> queue" where
  "settle js q = (if \<not> hasJournal q \<or> js = [] then q else emit [J_Settled (map journalId js)] q)"

definition reportDropped :: "deployment_job list \<Rightarrow> queue \<Rightarrow> queue" where
  "reportDropped ds q = (if ds = [] \<or> \<not> hasDropHook q then q else emit [Waiting_Dropped ds] q)"

definition discard :: "internal_job list \<Rightarrow> queue \<Rightarrow> queue" where
  "discard js q = reportDropped (map jdata js) (settle js q)"

definition notify_updated :: "string \<Rightarrow> deployment_job \<Rightarrow> queue \<Rightarrow> queue" where
  "notify_updated j d q = (if hasJournal q \<and> hasUpdated q then emit [J_Updated j d] q else q)"

section \<open>Scheduling\<close>

definition drain_begin :: "string \<Rightarrow> queue \<Rightarrow> queue" where
  "drain_begin key q =
     (if map_of (partitions q) key = None \<or> \<not> hasProcessor q then q
      else q\<lparr>draining := draining q @ [key]\<rparr>)"

definition schedule :: "queue \<Rightarrow> queue" where
  "schedule q =
     (if \<not> running q \<or> paused q \<or> \<not> hasProcessor q then q
      else fold drain_begin (map fst (partitions q)) q)"

definition start_effects :: "bool \<Rightarrow> internal_job \<Rightarrow> effect list" where
  "start_effects journal j = (if journal then [J_Started (journalId j)] else []) @ [Run_Processor (jid j)]"

text \<open>
  \<open>drainPartition\<close> after \<open>resolveConcurrency(key)\<close> answered: what it does to its partition
  (\<open>go\<close> says that the queue runs and is not paused), with the jobs it starts, and the whole.
\<close>

definition drain_part ::
  "(nat \<Rightarrow> int) \<Rightarrow> nat \<Rightarrow> bool \<Rightarrow> partition \<Rightarrow> partition \<times> internal_job list" where
  "drain_part clock c go p =
     (let p = p\<lparr>concurrency := Some c\<rparr>;
          (p, js) = (if go then start_jobs clock c p else (p, []))
      in (if waiting p = [] then p\<lparr>jumpedLast := False\<rparr> else p, js))"

definition drain_resume :: "(nat \<Rightarrow> int) \<Rightarrow> string \<Rightarrow> nat \<Rightarrow> queue \<Rightarrow> queue" where
  "drain_resume clock key c q =
     (let q = q\<lparr>draining := remove1 key (draining q)\<rparr> in
      case map_of (partitions q) key of
        None \<Rightarrow> q
      | Some p \<Rightarrow>
          let (p, js) = drain_part clock (max 1 c) (running q \<and> \<not> paused q) p
          in emit (concat (map (start_effects (hasJournal q)) js)) (set_part key p q))"

text \<open>\<open>drainPartition\<close> when \<open>resolveConcurrency\<close> rejected: the call ends there.\<close>

definition drain_abort :: "string \<Rightarrow> queue \<Rightarrow> queue" where
  "drain_abort key q = q\<lparr>draining := remove1 key (draining q)\<rparr>"

definition process :: "queue \<Rightarrow> queue" where
  "process q = schedule (q\<lparr>hasProcessor := True, running := True\<rparr>)"

definition run :: "queue \<Rightarrow> queue" where
  "run q = schedule (q\<lparr>running := True\<rparr>)"

definition close :: "queue \<Rightarrow> queue" where
  "close q = q\<lparr>running := False\<rparr>"

definition pause :: "queue \<Rightarrow> queue" where
  "pause q = q\<lparr>paused := True\<rparr>"

definition resume :: "queue \<Rightarrow> queue" where
  "resume q = (if \<not> paused q then q else schedule (q\<lparr>paused := False\<rparr>))"

section \<open>Adding jobs\<close>

definition createJob :: "deployment_job \<Rightarrow> string \<Rightarrow> int \<Rightarrow> queue \<Rightarrow> queue \<times> internal_job" where
  "createJob d journal ts q =
     (q\<lparr>seq := Suc (seq q)\<rparr>,
      \<lparr>jid = Suc (seq q), journalId = journal, jdata = d, timestamp = ts, processedOn = None,
       finishedOn = None, failedReason = None, jstate = Waiting, partition_key = getPartition d,
       group = getGroup d, jumped = False, wentAheadOf = 0, released = False,
       groupLockKept = False\<rparr>)"

definition add :: "string \<Rightarrow> int \<Rightarrow> deployment_job \<Rightarrow> queue \<Rightarrow> queue \<times> nat \<times> priority_outcome option" where
  "add uuid now requested q =
     (let key = getPartition requested;
          (q, p) = getPartitionState key q;
          prio = (if priority requested = Some True
                  then Some (assessPriority q p (length (waiting p)) (getGroup requested) False)
                  else None);
          d = (case prio of
                 Some r \<Rightarrow> if reason r = Some Nothing_Waiting then withoutPriority requested else requested
               | None \<Rightarrow> requested);
          (q, job) = createJob d uuid now q;
          q = schedule (set_part key (p\<lparr>waiting := waiting p @ [job]\<rparr>) q)
      in (if hasJournal q then emit [J_Enqueued uuid d] q else q, jid job, prio))"

definition knownJournalIds :: "queue \<Rightarrow> string list" where
  "knownJournalIds q =
     concat (map (\<lambda>(k, p). map journalId (waiting p) @ map journalId (active p)) (partitions q))"

definition hasJournalId :: "string \<Rightarrow> queue \<Rightarrow> bool" where
  "hasJournalId j q \<longleftrightarrow> j \<in> set (knownJournalIds q)"

text \<open>The first loop of \<open>addRestored\<close>: new jobs by partition, in the order given.\<close>

fun restore_collect ::
  "restored_job list \<Rightarrow> string set \<Rightarrow> (string \<times> internal_job list) list \<Rightarrow> queue \<Rightarrow>
   (string \<times> internal_job list) list \<times> nat \<times> queue" where
  "restore_collect [] known byPartition q = (byPartition, 0, q)"
| "restore_collect (r # rs) known byPartition q =
     (if rj_journalId r \<in> known then restore_collect rs known byPartition q
      else
        let (q, job) = createJob (rj_data r) (rj_journalId r) (rj_timestamp r) q;
            js = (case map_of byPartition (partition_key job) of None \<Rightarrow> [] | Some js \<Rightarrow> js);
            (bp, n, q) = restore_collect rs (insert (rj_journalId r) known)
              (AList.update (partition_key job) (js @ [job]) byPartition) q
        in (bp, Suc n, q))"

text \<open>The second loop: each list goes in front of its partition's waiting jobs.\<close>

fun restore_place :: "(string \<times> internal_job list) list \<Rightarrow> queue \<Rightarrow> queue" where
  "restore_place [] q = q"
| "restore_place ((key, js) # rest) q =
     (let (q, p) = getPartitionState key q
      in restore_place rest (set_part key (p\<lparr>waiting := js @ waiting p\<rparr>) q))"

definition addRestored :: "restored_job list \<Rightarrow> queue \<Rightarrow> queue \<times> nat" where
  "addRestored jobs q =
     (let (byPartition, added, q) = restore_collect jobs (set (knownJournalIds q)) [] q;
          q = restore_place byPartition q
      in (if 0 < added then schedule q else q, added))"

section \<open>Priority on a waiting job\<close>

text \<open>The loop over the partitions that looks for a waiting job by its id.\<close>

fun find_waiting :: "nat \<Rightarrow> (string \<times> partition) list \<Rightarrow> (string \<times> partition \<times> nat) option" where
  "find_waiting i [] = None"
| "find_waiting i ((key, p) # ps) =
     (case find_index (\<lambda>j. jid j = i) (waiting p) of
        Some n \<Rightarrow> Some (key, p, n)
      | None \<Rightarrow> find_waiting i ps)"

definition flag_data :: "string option \<Rightarrow> deployment_job \<Rightarrow> deployment_job" where
  "flag_data by_user d =
     d\<lparr>priority := Some True, priorityBy := (if truthy by_user then by_user else priorityBy d)\<rparr>"

definition prioritize :: "nat \<Rightarrow> string option \<Rightarrow> queue \<Rightarrow> queue \<times> priority_outcome option" where
  "prioritize i by_user q =
     (case find_waiting i (partitions q) of
        None \<Rightarrow> (q, None)
      | Some (key, p, n) \<Rightarrow>
          let job = waiting p ! n;
              outcome = assessPriority q p n (group job) (1 < length (waiting p))
          in if n = 0 \<or> priority (jdata job) = Some True then (q, Some outcome)
             else let d = flag_data by_user (jdata job)
                  in (notify_updated (journalId job) d
                        (set_part key (p\<lparr>waiting := (waiting p)[n := job\<lparr>jdata := d\<rparr>]\<rparr>) q),
                      Some outcome))"

section \<open>Removing waiting jobs\<close>

definition removeWaitingJob :: "nat \<Rightarrow> queue \<Rightarrow> queue \<times> bool" where
  "removeWaitingJob i q =
     (case find_waiting i (partitions q) of
        None \<Rightarrow> (q, False)
      | Some (key, p, n) \<Rightarrow>
          (discard (filter (\<lambda>j. jid j = i) (waiting p))
             (set_part key (p\<lparr>waiting := filter (\<lambda>j. jid j \<noteq> i) (waiting p)\<rparr>) q), True))"

definition remove :: "nat \<Rightarrow> queue \<Rightarrow> queue" where
  "remove i q = fst (removeWaitingJob i q)"

definition map_waiting :: "(internal_job list \<Rightarrow> internal_job list) \<Rightarrow> queue \<Rightarrow> queue" where
  "map_waiting f q = q\<lparr>partitions := map (\<lambda>(k, p). (k, p\<lparr>waiting := f (waiting p)\<rparr>)) (partitions q)\<rparr>"

definition removeWaiting :: "(deployment_job \<Rightarrow> bool) \<Rightarrow> queue \<Rightarrow> queue \<times> nat" where
  "removeWaiting P q =
     (let dropped = concat (map (\<lambda>(k, p). filter (\<lambda>j. P (jdata j)) (waiting p)) (partitions q))
      in (discard dropped (map_waiting (filter (\<lambda>j. \<not> P (jdata j))) q), length dropped))"

definition clearWaiting :: "queue \<Rightarrow> queue \<times> nat" where
  "clearWaiting q =
     (let dropped = concat (map (\<lambda>(k, p). waiting p) (partitions q))
      in (discard dropped (map_waiting (\<lambda>js. []) q), length dropped))"

text \<open>The inner loop of \<open>keepOldestWaiting\<close>: survivors and duplicates of one partition.\<close>

fun keep_scan ::
  "(deployment_job \<Rightarrow> bool) \<Rightarrow> internal_job list \<Rightarrow> internal_job list \<Rightarrow>
   internal_job list \<times> internal_job list" where
  "keep_scan P survivors [] = (survivors, [])"
| "keep_scan P survivors (j # js) =
     (if \<not> P (jdata j) then keep_scan P survivors js
      else if \<exists>k\<in>set survivors. sameJobProfile (jdata k) (jdata j) True
        then let (s, gone) = keep_scan P survivors js in (s, j # gone)
      else keep_scan P (survivors @ [j]) js)"

definition without :: "internal_job list \<Rightarrow> internal_job list \<Rightarrow> internal_job list" where
  "without gone js = filter (\<lambda>j. jid j \<notin> jid ` set gone) js"

definition keepOldestWaiting ::
  "(deployment_job \<Rightarrow> bool) \<Rightarrow> queue \<Rightarrow> queue \<times> kept_waiting_job list \<times> kept_waiting_job list" where
  "keepOldestWaiting P q =
     (let scans = map (\<lambda>(k, p). keep_scan P [] (waiting p)) (partitions q);
          kept = concat (map fst scans);
          dropped = concat (map snd scans);
          q = map_waiting (\<lambda>js. without (snd (keep_scan P [] js)) js) q
      in (discard dropped q, map summarize kept, map summarize dropped))"

section \<open>Coalescing\<close>

text \<open>
  The inner loop of \<open>coalesceWaiting\<close> over one partition: the first match of the home
  partition becomes the target, every other match is dropped.
\<close>

fun coalesce_scan ::
  "(internal_job \<Rightarrow> bool) \<Rightarrow> bool \<Rightarrow> internal_job option \<Rightarrow> internal_job list \<Rightarrow>
   internal_job option \<times> internal_job list" where
  "coalesce_scan M home target [] = (target, [])"
| "coalesce_scan M home target (j # js) =
     (if \<not> M j then coalesce_scan M home target js
      else if target = None \<and> home then coalesce_scan M home (Some j) js
      else let (t, gone) = coalesce_scan M home target js in (t, j # gone))"

text \<open>The outer loop, the home partition first.\<close>

fun coalesce_parts ::
  "(internal_job \<Rightarrow> bool) \<Rightarrow> string \<Rightarrow> internal_job option \<Rightarrow> (string \<times> partition) list \<Rightarrow>
   internal_job option \<times> internal_job list" where
  "coalesce_parts M home target [] = (target, [])"
| "coalesce_parts M home target ((key, p) # ps) =
     (let (t, gone) = coalesce_scan M (key = home) target (waiting p);
          (t', rest) = coalesce_parts M home t ps
      in (t', gone @ rest))"

definition home_first :: "string \<Rightarrow> (string \<times> partition) list \<Rightarrow> (string \<times> partition) list" where
  "home_first home ps = filter (\<lambda>(k, p). k = home) ps @ filter (\<lambda>(k, p). k \<noteq> home) ps"

text \<open>Which registered deployment the merged payload carries.\<close>

definition kept_deployment ::
  "deployment_job \<Rightarrow> internal_job option \<Rightarrow> internal_job list \<Rightarrow> string option" where
  "kept_deployment incoming target dropped =
     nullish (deploymentId incoming)
       (nullish (Option.bind target (\<lambda>j. deploymentId (jdata j)))
          (case find truthy (map (\<lambda>j. deploymentId (jdata j)) dropped) of None \<Rightarrow> None | Some d \<Rightarrow> d))"

definition merged_payload :: "deployment_job \<Rightarrow> string option \<Rightarrow> deployment_job" where
  "merged_payload incoming kept =
     (if truthy kept \<and> \<not> truthy (deploymentId incoming) then incoming\<lparr>deploymentId := kept\<rparr>
      else incoming)"

definition lost_payload :: "string option \<Rightarrow> deployment_job \<Rightarrow> bool" where
  "lost_payload kept d \<longleftrightarrow> truthy (deploymentId d) \<and> deploymentId d \<noteq> kept"

definition set_payload :: "nat \<Rightarrow> deployment_job \<Rightarrow> internal_job list \<Rightarrow> internal_job list" where
  "set_payload i d js = map (\<lambda>j. if jid j = i then j\<lparr>jdata := d\<rparr> else j) js"

record coalesce_outcome =
  merged :: "kept_waiting_job option"
  removed :: "kept_waiting_job list"
  titles :: "string list"

definition coalesce_match :: "deployment_job \<Rightarrow> (deployment_job \<Rightarrow> bool) \<Rightarrow> internal_job \<Rightarrow> bool" where
  "coalesce_match incoming P j \<longleftrightarrow> P (jdata j) \<and> sameJobProfile (jdata j) incoming False"

definition coalesceWaiting ::
  "deployment_job \<Rightarrow> (deployment_job \<Rightarrow> bool) \<Rightarrow> queue \<Rightarrow> queue \<times> coalesce_outcome" where
  "coalesceWaiting incoming P q =
     (let home = getPartition incoming;
          (target, dropped) =
            coalesce_parts (coalesce_match incoming P) home None (home_first home (partitions q));
          q = map_waiting (without dropped) q;
          names = map (\<lambda>j. titleLog (jdata j)) dropped;
          kept = kept_deployment incoming target dropped;
          payload = merged_payload incoming kept;
          q = reportDropped (filter (lost_payload kept) (map jdata dropped)) (settle dropped q)
      in case target of
           None \<Rightarrow> (q, \<lparr>merged = None, removed = map summarize dropped, titles = names\<rparr>)
         | Some t \<Rightarrow>
             let q = reportDropped (filter (lost_payload kept) [jdata t]) q;
                 q = map_waiting (set_payload (jid t) payload) q;
                 q = notify_updated (journalId t) payload q
             in (q, \<lparr>merged = Some (summarize (t\<lparr>jdata := payload\<rparr>)),
                     removed = map summarize dropped, titles = titleLog (jdata t) # names\<rparr>))"

end
