(* ===== verification/Queue_Locks.thy ===== *)
theory Queue_Locks
  imports Queue_Ops
begin

text \<open>
  The methods of \<open>InMemoryQueue\<close> that end work or hold a service's group lock: the end of
  \<open>runJob\<close>, \<open>releaseActive\<close>, \<open>dropKeptGroupLock\<close>, \<open>holdIdleGroup\<close> and its release
  function, and the idle promises of a shutdown. The last section is the step relation of the
  queue: every public method, every suspended \<open>drainPartition\<close> and every running processor may
  move next.
\<close>

section \<open>Idle waiters\<close>

definition activeCount :: "queue \<Rightarrow> nat" where
  "activeCount q = sum_list (map (\<lambda>(k, p). length (active p)) (partitions q))"

definition wakeIdleWaiters :: "queue \<Rightarrow> queue" where
  "wakeIdleWaiters q =
     (if activeCount q \<noteq> 0 then q
      else emit (map Idle_Wake (idleWaiters q)) (q\<lparr>idleWaiters := []\<rparr>))"

definition waitForIdle :: "nat \<Rightarrow> queue \<Rightarrow> queue" where
  "waitForIdle w q =
     (if activeCount q = 0 then emit [Idle_Wake w] q else q\<lparr>idleWaiters := idleWaiters q @ [w]\<rparr>)"

definition idle_timeout :: "nat \<Rightarrow> queue \<Rightarrow> queue" where
  "idle_timeout w q = q\<lparr>idleWaiters := filter (\<lambda>x. x \<noteq> w) (idleWaiters q)\<rparr>"

section \<open>Looking up jobs\<close>

fun find_active :: "nat \<Rightarrow> (string \<times> partition) list \<Rightarrow> (string \<times> partition \<times> internal_job) option" where
  "find_active i [] = None"
| "find_active i ((key, p) # ps) =
     (case find (\<lambda>j. jid j = i) (active p) of
        Some j \<Rightarrow> Some (key, p, j)
      | None \<Rightarrow> find_active i ps)"

definition getJobs :: "bool \<Rightarrow> bool \<Rightarrow> queue \<Rightarrow> internal_job list" where
  "getJobs wantWaiting wantActive q =
     concat (map (\<lambda>(k, p). (if wantWaiting then waiting p else []) @ (if wantActive then active p else []))
       (partitions q))"

definition unlock_group :: "string \<Rightarrow> string \<Rightarrow> queue \<Rightarrow> queue" where
  "unlock_group key g q =
     (case map_of (partitions q) key of
        None \<Rightarrow> q
      | Some p \<Rightarrow> set_part key (p\<lparr>activeGroups := activeGroups p - {g}\<rparr>) q)"

section \<open>The end of a job\<close>

text \<open>
  The \<open>finally\<close> block of \<open>runJob\<close>. The job is either one that \<open>releaseActive\<close> took out
  before (\<open>late\<close>) or one that is still active; an id that is neither has no \<open>runJob\<close> call.
\<close>

definition finish_late :: "internal_job \<Rightarrow> queue \<Rightarrow> queue" where
  "finish_late j q =
     (let q = q\<lparr>late := filter (\<lambda>k. jid k \<noteq> jid j) (late q)\<rparr> in
      if groupLockKept j
      then drain_begin (partition_key j)
             (unlock_group (partition_key j) (group j) (q\<lparr>keptLocks := keptLocks q - {jid j}\<rparr>))
      else q)"

definition finish_active :: "internal_job \<Rightarrow> processor_result \<Rightarrow> queue \<Rightarrow> queue" where
  "finish_active j r q =
     (let key = partition_key j;
          q = (case map_of (partitions q) key of
                 None \<Rightarrow> q
               | Some p \<Rightarrow>
                   set_part key
                     (p\<lparr>active := filter (\<lambda>k. jid k \<noteq> jid j) (active p),
                        activeGroups := activeGroups p - {group j},
                        jumpedLast := (if jumped j \<and> outcome_of r \<noteq> None then False else jumpedLast p)\<rparr>) q)
      in drain_begin key (wakeIdleWaiters (settle [j] q)))"

definition finish :: "nat \<Rightarrow> processor_result \<Rightarrow> queue \<Rightarrow> queue" where
  "finish i r q =
     (case find (\<lambda>j. jid j = i) (late q) of
        Some j \<Rightarrow> finish_late j q
      | None \<Rightarrow>
          (case find_active i (partitions q) of
             None \<Rightarrow> q
           | Some (key, p, j) \<Rightarrow> finish_active j r q))"

section \<open>Release by the watchdog\<close>

definition released_job :: "int \<Rightarrow> bool \<Rightarrow> internal_job \<Rightarrow> internal_job" where
  "released_job now keep j =
     j\<lparr>released := True, finishedOn := Some now,
       failedReason := Some ''Released by the deployment watchdog'',
       groupLockKept := (keep \<or> groupLockKept j)\<rparr>"

definition releaseActive :: "int \<Rightarrow> nat \<Rightarrow> bool \<Rightarrow> queue \<Rightarrow> queue \<times> bool" where
  "releaseActive now i keep q =
     (case find_active i (partitions q) of
        None \<Rightarrow> (q, False)
      | Some (key, p, job) \<Rightarrow>
          let j = released_job now keep job;
              p = p\<lparr>active := filter (\<lambda>k. jid k \<noteq> i) (active p),
                    activeGroups := (if keep then activeGroups p else activeGroups p - {group j}),
                    jumpedLast := (if jumped j then False else jumpedLast p)\<rparr>;
              q = set_part key p q;
              q = q\<lparr>late := late q @ [j], keptLocks := (if keep then insert i (keptLocks q) else keptLocks q)\<rparr>
          in (drain_begin (partition_key j) (wakeIdleWaiters (settle [j] q)), True))"

definition kept_job :: "nat \<Rightarrow> queue \<Rightarrow> internal_job option" where
  "kept_job i q =
     (if i \<in> keptLocks q then find (\<lambda>j. jid j = i \<and> groupLockKept j) (late q) else None)"

definition hasKeptGroupLock :: "nat \<Rightarrow> queue \<Rightarrow> bool" where
  "hasKeptGroupLock i q \<longleftrightarrow> kept_job i q \<noteq> None"

definition dropKeptGroupLock :: "nat \<Rightarrow> queue \<Rightarrow> queue \<times> bool" where
  "dropKeptGroupLock i q =
     (case kept_job i q of
        None \<Rightarrow> (q, False)
      | Some j \<Rightarrow>
          let q = q\<lparr>late := map (\<lambda>k. if jid k = i then k\<lparr>groupLockKept := False\<rparr> else k) (late q),
                    keptLocks := keptLocks q - {i}\<rparr>
          in (drain_begin (partition_key j) (unlock_group (partition_key j) (group j) q), True))"

section \<open>Holding a group from outside\<close>

datatype hold_result = Held nat | Busy_Running | Busy_Waiting | Busy_Held

definition holdIdleGroup ::
  "string \<Rightarrow> string \<Rightarrow> (deployment_job \<Rightarrow> bool) \<Rightarrow> queue \<Rightarrow> queue \<times> hold_result" where
  "holdIdleGroup key g waitingBlocks q =
     (if g \<in> heldGroups q then (q, Busy_Held)
      else if \<exists>(k, p)\<in>set (partitions q). g \<in> activeGroups p then (q, Busy_Running)
      else if \<exists>(k, p)\<in>set (partitions q). \<exists>j\<in>set (waiting p). group j = g \<and> waitingBlocks (jdata j)
        then (q, Busy_Waiting)
      else
        let (q, p) = getPartitionState key q;
            q = set_part key (p\<lparr>activeGroups := insert g (activeGroups p)\<rparr>) q
        in (q\<lparr>heldGroups := insert g (heldGroups q),
              holds := holds q @ [(nextHold q, key, g)], nextHold := Suc (nextHold q)\<rparr>,
            Held (nextHold q)))"

definition release_hold :: "nat \<Rightarrow> queue \<Rightarrow> queue" where
  "release_hold t q =
     (case map_of (holds q) t of
        None \<Rightarrow> q
      | Some (key, g) \<Rightarrow>
          drain_begin key
            (unlock_group key g
              (q\<lparr>holds := filter (\<lambda>(t', x). t' \<noteq> t) (holds q),
                 heldGroups := heldGroups q - {g}\<rparr>)))"

section \<open>The queue as a transition system\<close>

text \<open>
  One rule per operation, in any order: requests, the watchdog, a processor that returns and a
  \<open>drainPartition\<close> that resumes with whatever limit \<open>resolveConcurrency\<close> answered.
\<close>

inductive queue_step :: "queue \<Rightarrow> queue \<Rightarrow> bool" where
  s_process: "queue_step q (process q)"
| s_run: "queue_step q (run q)"
| s_close: "queue_step q (close q)"
| s_pause: "queue_step q (pause q)"
| s_resume: "queue_step q (resume q)"
| s_add: "queue_step q (fst (add uuid now d q))"
| s_restore: "queue_step q (fst (addRestored rs q))"
| s_prioritize: "queue_step q (fst (prioritize i by_user q))"
| s_remove: "queue_step q (fst (removeWaitingJob i q))"
| s_removeWaiting: "queue_step q (fst (removeWaiting P q))"
| s_clear: "queue_step q (fst (clearWaiting q))"
| s_keepOldest: "queue_step q (fst (keepOldestWaiting P q))"
| s_coalesce: "queue_step q (fst (coalesceWaiting d P q))"
| s_finish: "queue_step q (finish i r q)"
| s_release: "queue_step q (fst (releaseActive now i keep q))"
| s_dropLock: "queue_step q (fst (dropKeptGroupLock i q))"
| s_hold: "queue_step q (fst (holdIdleGroup key g P q))"
| s_unhold: "queue_step q (release_hold t q)"
| s_drain: "key \<in> set (draining q) \<Longrightarrow> queue_step q (drain_resume clock key c q)"
| s_drainAbort: "key \<in> set (draining q) \<Longrightarrow> queue_step q (drain_abort key q)"
| s_waitIdle: "queue_step q (waitForIdle w q)"
| s_idleTimeout: "queue_step q (idle_timeout w q)"

definition queue_init :: "queue \<Rightarrow> bool" where
  "queue_init q \<longleftrightarrow> (\<exists>journal updated dropHook. q = new_queue journal updated dropHook)"

abbreviation queue_reachable :: "queue \<Rightarrow> bool" where
  "queue_reachable \<equiv> reach queue_init queue_step"

end
