(* ===== verification/Queue_Invariant.thy ===== *)
theory Queue_Invariant
  imports Queue_Locks
begin

text \<open>
  The invariant of the queue and its preservation by every operation. \<open>owners\<close> lists who holds
  a group of a partition: its active jobs, the released jobs that kept their lock, and the
  holds from outside. The invariant says that the set \<open>activeGroups\<close> is exactly the set of
  owners and that no group has two owners, that job ids are unique, that a waiting or active job
  is in the partition it names, and that at most one active job of a partition jumped.
\<close>

section \<open>The invariant\<close>

definition owners ::
  "internal_job list \<Rightarrow> (nat \<times> string \<times> string) list \<Rightarrow> string \<Rightarrow> partition \<Rightarrow> string list" where
  "owners lt hs k p =
     map group (active p) @
     map group (filter (\<lambda>j. groupLockKept j \<and> partition_key j = k) lt) @
     map (snd \<circ> snd) (filter (\<lambda>(t, k', g). k' = k) hs)"

definition waiting_ok :: "string \<Rightarrow> internal_job list \<Rightarrow> bool" where
  "waiting_ok k js \<longleftrightarrow> (\<forall>j\<in>set js. jstate j = Waiting \<and> partition_key j = k \<and>
     \<not> released j \<and> \<not> groupLockKept j)"

definition active_ok :: "string \<Rightarrow> internal_job list \<Rightarrow> bool" where
  "active_ok k js \<longleftrightarrow> (\<forall>j\<in>set js. jstate j = Active \<and> partition_key j = k \<and>
     \<not> released j \<and> \<not> groupLockKept j) \<and> length (filter jumped js) \<le> 1"

definition part_inv ::
  "internal_job list \<Rightarrow> (nat \<times> string \<times> string) list \<Rightarrow> string \<Rightarrow> partition \<Rightarrow> bool" where
  "part_inv lt hs k p \<longleftrightarrow> waiting_ok k (waiting p) \<and> active_ok k (active p) \<and>
     distinct (owners lt hs k p) \<and> activeGroups p = set (owners lt hs k p)"

definition part_ids :: "partition \<Rightarrow> nat multiset" where
  "part_ids p = mset (map jid (waiting p)) + mset (map jid (active p))"

definition job_ids :: "(string \<times> partition) list \<Rightarrow> internal_job list \<Rightarrow> nat multiset" where
  "job_ids ps lt = sum_list (map (\<lambda>(k, p). part_ids p) ps) + mset (map jid lt)"

definition ids_ok :: "nat multiset \<Rightarrow> nat \<Rightarrow> bool" where
  "ids_ok ids n \<longleftrightarrow> (\<forall>i. count ids i \<le> 1) \<and> (\<forall>i\<in>#ids. i \<le> n)"

definition late_inv :: "string set \<Rightarrow> internal_job list \<Rightarrow> nat set \<Rightarrow> bool" where
  "late_inv ks lt kept \<longleftrightarrow> (\<forall>j\<in>set lt. released j \<and> partition_key j \<in> ks) \<and>
     kept = jid ` {j \<in> set lt. groupLockKept j}"

definition holds_inv :: "string set \<Rightarrow> (nat \<times> string \<times> string) list \<Rightarrow> string set \<Rightarrow> nat \<Rightarrow> bool" where
  "holds_inv ks hs held n \<longleftrightarrow> distinct (map fst hs) \<and> (\<forall>(t, k, g)\<in>set hs. t < n \<and> k \<in> ks) \<and>
     distinct (map (snd \<circ> snd) hs) \<and> held = (snd \<circ> snd) ` set hs"

definition queue_inv :: "queue \<Rightarrow> bool" where
  "queue_inv q \<longleftrightarrow>
     distinct (map fst (partitions q)) \<and>
     (\<forall>k p. map_of (partitions q) k = Some p \<longrightarrow> part_inv (late q) (holds q) k p) \<and>
     ids_ok (job_ids (partitions q) (late q)) (seq q) \<and>
     late_inv (fst ` set (partitions q)) (late q) (keptLocks q) \<and>
     holds_inv (fst ` set (partitions q)) (holds q) (heldGroups q) (nextHold q)"

text \<open>The fields the invariant reads.\<close>

definition core :: "queue \<Rightarrow> (string \<times> partition) list \<times> internal_job list \<times> nat set \<times>
    string set \<times> (nat \<times> string \<times> string) list \<times> nat \<times> nat" where
  "core q = (partitions q, late q, keptLocks q, heldGroups q, holds q, nextHold q, seq q)"

lemma queue_inv_core: "core q' = core q \<Longrightarrow> queue_inv q' = queue_inv q"
  by (simp add: core_def queue_inv_def)

section \<open>Operations that leave the core alone\<close>

lemma core_emit [simp]: "core (emit es q) = core q"
  by (simp add: core_def emit_def)

lemma core_settle [simp]: "core (settle js q) = core q"
  by (simp add: settle_def)

lemma core_reportDropped [simp]: "core (reportDropped ds q) = core q"
  by (simp add: reportDropped_def)

lemma core_discard [simp]: "core (discard js q) = core q"
  by (simp add: discard_def)

lemma core_notify [simp]: "core (notify_updated j d q) = core q"
  by (simp add: notify_updated_def)

lemma core_drain_begin [simp]: "core (drain_begin k q) = core q"
  by (simp add: drain_begin_def core_def)

lemma core_fold_drain_begin [simp]: "core (fold drain_begin ks q) = core q"
  by (induction ks arbitrary: q) auto

lemma core_schedule [simp]: "core (schedule q) = core q"
  by (simp add: schedule_def)

lemma core_wake [simp]: "core (wakeIdleWaiters q) = core q"
  by (simp add: wakeIdleWaiters_def) (simp add: core_def)

lemma core_flags [simp]:
  "core (q\<lparr>running := b\<rparr>) = core q" "core (q\<lparr>paused := b\<rparr>) = core q"
  "core (q\<lparr>hasProcessor := b\<rparr>) = core q" "core (q\<lparr>draining := ds\<rparr>) = core q"
  "core (q\<lparr>idleWaiters := ws\<rparr>) = core q"
  by (simp_all add: core_def)

lemma core_process [simp]: "core (process q) = core q"
  by (simp add: process_def)

lemma core_simple_ops [simp]:
  "core (run q) = core q" "core (close q) = core q" "core (pause q) = core q"
  "core (resume q) = core q" "core (drain_abort k q) = core q"
  "core (waitForIdle w q) = core q" "core (idle_timeout w q) = core q"
  by (simp_all add: run_def close_def pause_def resume_def drain_abort_def waitForIdle_def
      idle_timeout_def)

lemma inv_frame [simp]:
  "queue_inv (emit es q) = queue_inv q" "queue_inv (settle js q) = queue_inv q"
  "queue_inv (reportDropped ds q) = queue_inv q" "queue_inv (discard js q) = queue_inv q"
  "queue_inv (notify_updated j d q) = queue_inv q" "queue_inv (drain_begin k q) = queue_inv q"
  "queue_inv (schedule q) = queue_inv q" "queue_inv (wakeIdleWaiters q) = queue_inv q"
  "queue_inv (process q) = queue_inv q" "queue_inv (run q) = queue_inv q"
  "queue_inv (close q) = queue_inv q" "queue_inv (pause q) = queue_inv q"
  "queue_inv (resume q) = queue_inv q" "queue_inv (drain_abort k q) = queue_inv q"
  "queue_inv (waitForIdle w q) = queue_inv q" "queue_inv (idle_timeout w q) = queue_inv q"
  by (rule queue_inv_core, simp)+

text \<open>The invariant of the fields after an operation, read off the fields before it.\<close>

lemma queue_invI:
  assumes "distinct (map fst ps)"
    and "\<And>k p. map_of ps k = Some p \<Longrightarrow> part_inv lt hs k p"
    and "ids_ok (job_ids ps lt) n"
    and "late_inv (fst ` set ps) lt kept"
    and "holds_inv (fst ` set ps) hs held nh"
    and "core q = (ps, lt, kept, held, hs, nh, n)"
  shows "queue_inv q"
  using assms by (simp add: core_def queue_inv_def)

lemma queue_invD:
  assumes "queue_inv q"
  shows "distinct (map fst (partitions q))"
    and "map_of (partitions q) k = Some p \<Longrightarrow> part_inv (late q) (holds q) k p"
    and "ids_ok (job_ids (partitions q) (late q)) (seq q)"
    and "late_inv (fst ` set (partitions q)) (late q) (keptLocks q)"
    and "holds_inv (fst ` set (partitions q)) (holds q) (heldGroups q) (nextHold q)"
  using assms by (auto simp: queue_inv_def)

section \<open>Ids\<close>

lemma ids_ok_subset: "ids_ok a n \<Longrightarrow> b \<subseteq># a \<Longrightarrow> n \<le> m \<Longrightarrow> ids_ok b m"
  unfolding ids_ok_def by (meson mset_subset_eq_count mset_subset_eqD le_trans)

lemma ids_ok_new: "ids_ok a n \<Longrightarrow> ids_ok (add_mset (Suc n) a) (Suc n)"
  unfolding ids_ok_def by (auto simp: count_eq_zero_iff dest: le_SucI)

lemma job_ids_update:
  "map_of ps k = Some p \<Longrightarrow> job_ids (AList.update k p' ps) lt + part_ids p = job_ids ps lt + part_ids p'"
  using sum_list_AList_update [of ps k p "\<lambda>(k, p). part_ids p" p']
  by (simp add: job_ids_def ac_simps)

lemma part_ids_empty [simp]: "part_ids empty_partition = {#}"
  by (simp add: part_ids_def)

lemma job_ids_new: "map_of ps k = None \<Longrightarrow> job_ids (AList.update k p ps) lt = job_ids ps lt + part_ids p"
  by (simp add: AList_update_None job_ids_def)

lemma part_ids_subset: "map_of ps k = Some p \<Longrightarrow> part_ids p \<subseteq># job_ids ps lt"
proof (induction ps)
  case (Cons x ps)
  show ?case
  proof (cases "fst x = k")
    case True
    with Cons.prems show ?thesis by (cases x) (auto simp: job_ids_def)
  next
    case False
    with Cons have "part_ids p \<subseteq># job_ids ps lt" by (cases x) auto
    then show ?thesis
      by (cases x) (simp add: job_ids_def add.assoc subset_mset.add_increasing)
  qed
qed simp

lemma job_ids_update_subset:
  assumes "map_of ps k = Some p" and "part_ids p' \<subseteq># part_ids p"
  shows "job_ids (AList.update k p' ps) lt \<subseteq># job_ids ps lt"
proof -
  from job_ids_update [OF assms(1), of p' lt] assms(2)
  have "job_ids (AList.update k p' ps) lt + part_ids p \<subseteq># job_ids ps lt + part_ids p"
    by (metis subset_mset.add_left_mono)
  then show ?thesis by simp
qed

section \<open>Writing one partition\<close>

lemma set_part_simps [simp]:
  "partitions (set_part k p q) = AList.update k p (partitions q)"
  "late (set_part k p q) = late q" "keptLocks (set_part k p q) = keptLocks q"
  "heldGroups (set_part k p q) = heldGroups q" "holds (set_part k p q) = holds q"
  "nextHold (set_part k p q) = nextHold q" "seq (set_part k p q) = seq q"
  "draining (set_part k p q) = draining q" "hasProcessor (set_part k p q) = hasProcessor q"
  "running (set_part k p q) = running q" "paused (set_part k p q) = paused q"
  "out (set_part k p q) = out q" "hasJournal (set_part k p q) = hasJournal q"
  "hasUpdated (set_part k p q) = hasUpdated q" "hasDropHook (set_part k p q) = hasDropHook q"
  "idleWaiters (set_part k p q) = idleWaiters q"
  by (simp_all add: set_part_def)

lemma keys_update_Some: "map_of ps k = Some p \<Longrightarrow> fst ` set (AList.update k p' ps) = fst ` set ps"
  by (metis AList_update_keys_Some image_set)

lemma inv_set_part:
  assumes inv: "queue_inv q" and p: "map_of (partitions q) k = Some p"
    and "part_inv (late q) (holds q) k p'" and "part_ids p' \<subseteq># part_ids p"
  shows "queue_inv (set_part k p' q)"
proof (rule queue_invI)
  note D = queue_invD [OF inv]
  show "core (set_part k p' q) = (AList.update k p' (partitions q), late q, keptLocks q,
      heldGroups q, holds q, nextHold q, seq q)"
    by (simp add: core_def)
  show "distinct (map fst (AList.update k p' (partitions q)))"
    using D(1) by (simp add: distinct_update)
  show "part_inv (late q) (holds q) k' r"
    if "map_of (AList.update k p' (partitions q)) k' = Some r" for k' r
    using that D(2) assms(3) by (auto split: if_splits)
  show "ids_ok (job_ids (AList.update k p' (partitions q)) (late q)) (seq q)"
    by (rule ids_ok_subset [OF D(3) job_ids_update_subset [OF p assms(4)]]) simp
  show "late_inv (fst ` set (AList.update k p' (partitions q))) (late q) (keptLocks q)"
    using D(4) by (simp add: keys_update_Some [OF p])
  show "holds_inv (fst ` set (AList.update k p' (partitions q))) (holds q) (heldGroups q) (nextHold q)"
    using D(5) by (simp add: keys_update_Some [OF p])
qed

text \<open>Only the waiting list of a partition is replaced.\<close>

lemma part_inv_waiting:
  "part_inv lt hs k p \<Longrightarrow> waiting_ok k js \<Longrightarrow> part_inv lt hs k (p\<lparr>waiting := js\<rparr>)"
  by (simp add: part_inv_def owners_def)

lemma part_invD:
  assumes "part_inv lt hs k p"
  shows "waiting_ok k (waiting p)" "active_ok k (active p)" "distinct (owners lt hs k p)"
    "activeGroups p = set (owners lt hs k p)"
  using assms by (auto simp: part_inv_def)

lemma inv_set_waiting:
  assumes "queue_inv q" "map_of (partitions q) k = Some p" "waiting_ok k js"
    and "mset (map jid js) \<subseteq># mset (map jid (waiting p))"
  shows "queue_inv (set_part k (p\<lparr>waiting := js\<rparr>) q)"
  using assms
  by (intro inv_set_part [OF assms(1,2)] part_inv_waiting queue_invD(2) [OF assms(1)])
    (simp_all add: part_ids_def)

lemma waiting_ok_filter: "waiting_ok k js \<Longrightarrow> waiting_ok k (filter P js)"
  by (simp add: waiting_ok_def)

lemma mset_map_filter_subset: "mset (map f (filter P js)) \<subseteq># mset (map f js)"
  by (induction js) (auto intro: subset_mset.order_trans mset_subset_eq_add_right)

lemma map_waiting_simps [simp]:
  "late (map_waiting f q) = late q" "keptLocks (map_waiting f q) = keptLocks q"
  "heldGroups (map_waiting f q) = heldGroups q" "holds (map_waiting f q) = holds q"
  "nextHold (map_waiting f q) = nextHold q" "seq (map_waiting f q) = seq q"
  "map fst (partitions (map_waiting f q)) = map fst (partitions q)"
  "fst ` set (partitions (map_waiting f q)) = fst ` set (partitions q)"
  "map_of (partitions (map_waiting f q)) k =
     map_option (\<lambda>p. p\<lparr>waiting := f (waiting p)\<rparr>) (map_of (partitions q) k)"
  by (auto simp: map_waiting_def map_of_map_values comp_def split_beta image_image)

lemma job_ids_map_waiting:
  assumes "\<And>k p. (k, p) \<in> set ps \<Longrightarrow> mset (map jid (f (waiting p))) \<subseteq># mset (map jid (waiting p))"
  shows "job_ids (map (\<lambda>(k, p). (k, p\<lparr>waiting := f (waiting p)\<rparr>)) ps) lt \<subseteq># job_ids ps lt"
proof -
  have "sum_list (map (\<lambda>(k, p). part_ids p) (map (\<lambda>(k, p). (k, p\<lparr>waiting := f (waiting p)\<rparr>)) ps))
      \<subseteq># sum_list (map (\<lambda>(k, p). part_ids p) ps)"
    using assms
  proof (induction ps)
    case (Cons x ps)
    then have "mset (map jid (f (waiting (snd x)))) \<subseteq># mset (map jid (waiting (snd x)))"
      by (cases x) auto
    with Cons show ?case by (cases x) (auto simp: part_ids_def intro!: subset_mset.add_mono)
  qed simp
  then show ?thesis by (simp add: job_ids_def)
qed

lemma inv_map_waiting:
  assumes inv: "queue_inv q"
    and f: "\<And>k js. waiting_ok k js \<Longrightarrow> waiting_ok k (f js)"
    and ids: "\<And>js. mset (map jid (f js)) \<subseteq># mset (map jid js)"
  shows "queue_inv (map_waiting f q)"
proof (rule queue_invI)
  note D = queue_invD [OF inv]
  show "core (map_waiting f q) = (partitions (map_waiting f q), late q, keptLocks q,
      heldGroups q, holds q, nextHold q, seq q)"
    by (simp add: core_def)
  show "part_inv (late q) (holds q) k r"
    if "map_of (partitions (map_waiting f q)) k = Some r" for k r
  proof -
    from that obtain p where p: "map_of (partitions q) k = Some p" "r = p\<lparr>waiting := f (waiting p)\<rparr>"
      by auto
    from f [OF part_invD(1) [OF D(2) [OF p(1)]]] D(2) [OF p(1)] p(2) show ?thesis
      by (simp add: part_inv_waiting)
  qed
  show "ids_ok (job_ids (partitions (map_waiting f q)) (late q)) (seq q)"
    using ids_ok_subset [OF D(3) job_ids_map_waiting [of "partitions q" f "late q"]] ids
    by (simp add: map_waiting_def)
qed (use queue_invD [OF inv] in simp_all)

section \<open>New partitions and new jobs\<close>

lemma part_inv_new:
  assumes "queue_inv q" and "map_of (partitions q) k = None"
  shows "part_inv (late q) (holds q) k empty_partition"
proof -
  from assms(2) have "k \<notin> fst ` set (partitions q)" by (simp add: map_of_eq_None_iff)
  with queue_invD(4,5) [OF assms(1)]
  have "filter (\<lambda>j. groupLockKept j \<and> partition_key j = k) (late q) = []"
    and "filter (\<lambda>(t, k', g). k' = k) (holds q) = []"
    by (auto simp: late_inv_def holds_inv_def filter_empty_conv)
  then show ?thesis by (simp add: part_inv_def owners_def waiting_ok_def active_ok_def)
qed

lemma inv_new_partition:
  assumes inv: "queue_inv q" and new: "map_of (partitions q) k = None"
  shows "queue_inv (set_part k empty_partition q)"
proof (rule queue_invI)
  note D = queue_invD [OF inv]
  show "core (set_part k empty_partition q) = (AList.update k empty_partition (partitions q), late q,
      keptLocks q, heldGroups q, holds q, nextHold q, seq q)"
    by (simp add: core_def)
  show "distinct (map fst (AList.update k empty_partition (partitions q)))"
    using D(1) by (simp add: distinct_update)
  show "part_inv (late q) (holds q) k' r"
    if "map_of (AList.update k empty_partition (partitions q)) k' = Some r" for k' r
    using that D(2) part_inv_new [OF inv new] by (auto split: if_splits)
  show "ids_ok (job_ids (AList.update k empty_partition (partitions q)) (late q)) (seq q)"
    using D(3) by (simp add: job_ids_new [OF new])
  show "late_inv (fst ` set (AList.update k empty_partition (partitions q))) (late q) (keptLocks q)"
    using D(4) by (auto simp: AList_update_None [OF new] late_inv_def)
  show "holds_inv (fst ` set (AList.update k empty_partition (partitions q))) (holds q) (heldGroups q) (nextHold q)"
    using D(5) by (auto simp: AList_update_None [OF new] holds_inv_def)
qed

lemma getPartitionState_inv:
  assumes "queue_inv q" and "getPartitionState k q = (q', p)"
  shows "queue_inv q'" "map_of (partitions q') k = Some p"
  using assms inv_new_partition [OF assms(1), of k]
  by (auto simp: getPartitionState_def split: option.splits)

lemma getPartitionState_frame:
  assumes "getPartitionState k q = (q', p)"
  shows "late q' = late q" "keptLocks q' = keptLocks q" "heldGroups q' = heldGroups q"
    "holds q' = holds q" "nextHold q' = nextHold q" "seq q' = seq q"
    "job_ids (partitions q') lt = job_ids (partitions q) lt"
  using assms by (auto simp: getPartitionState_def job_ids_new split: option.splits)

lemma part_ids_add_waiting: "part_ids (p\<lparr>waiting := xs @ ys\<rparr>) = part_ids (p\<lparr>waiting := ys\<rparr>) + mset (map jid xs)"
  by (simp add: part_ids_def)

text \<open>New jobs, with ids that are not in use, enter one partition.\<close>

lemma inv_add_waiting:
  assumes inv: "queue_inv q" and p: "map_of (partitions q) k = Some p"
    and ok: "waiting_ok k js" and js: "mset js' = mset js + mset (waiting p)"
    and ids: "ids_ok (job_ids (partitions q) (late q) + mset (map jid js)) n"
    and q': "core q' = (AList.update k (p\<lparr>waiting := js'\<rparr>) (partitions q), late q, keptLocks q,
      heldGroups q, holds q, nextHold q, n)"
  shows "queue_inv q'"
proof (rule queue_invI [OF _ _ _ _ _ q'])
  note D = queue_invD [OF inv]
  have set': "set js' = set js \<union> set (waiting p)"
    using js by (metis set_mset_mset set_mset_union)
  show "distinct (map fst (AList.update k (p\<lparr>waiting := js'\<rparr>) (partitions q)))"
    using D(1) by (simp add: distinct_update)
  show "part_inv (late q) (holds q) k' r"
    if "map_of (AList.update k (p\<lparr>waiting := js'\<rparr>) (partitions q)) k' = Some r" for k' r
  proof (cases "k' = k")
    case True
    have "waiting_ok k js'"
      using ok part_invD(1) [OF D(2) [OF p]] set' by (auto simp: waiting_ok_def)
    with True that D(2) [OF p] show ?thesis by (auto intro: part_inv_waiting)
  next
    case False
    with that D(2) show ?thesis by simp
  qed
  have "part_ids (p\<lparr>waiting := js'\<rparr>) = part_ids p + mset (map jid js)"
    using js by (simp add: part_ids_def ac_simps)
  with job_ids_update [OF p, of "p\<lparr>waiting := js'\<rparr>" "late q"]
  have "job_ids (AList.update k (p\<lparr>waiting := js'\<rparr>) (partitions q)) (late q) + part_ids p =
      (job_ids (partitions q) (late q) + mset (map jid js)) + part_ids p"
    by (simp add: ac_simps)
  then show "ids_ok (job_ids (AList.update k (p\<lparr>waiting := js'\<rparr>) (partitions q)) (late q)) n"
    using ids by (simp only: add_right_cancel)
  show "late_inv (fst ` set (AList.update k (p\<lparr>waiting := js'\<rparr>) (partitions q))) (late q) (keptLocks q)"
    using D(4) by (simp add: keys_update_Some [OF p])
  show "holds_inv (fst ` set (AList.update k (p\<lparr>waiting := js'\<rparr>) (partitions q))) (holds q)
      (heldGroups q) (nextHold q)"
    using D(5) by (simp add: keys_update_Some [OF p])
qed

end
