(* ===== verification/Queue_Preserved.thy ===== *)
theory Queue_Preserved
  imports Queue_Invariant
begin

text \<open>
  Every operation of the queue keeps the invariant, one lemma per operation, and the
  interpretation of the locale of inductive invariants on the queue's step relation.
\<close>

section \<open>Waiting jobs\<close>

lemma createJob_props:
  assumes "createJob d u ts q = (q', job)"
  shows "q' = q\<lparr>seq := Suc (seq q)\<rparr>" "jid job = Suc (seq q)" "journalId job = u" "jdata job = d"
    "partition_key job = getPartition d" "group job = getGroup d" "waiting_ok (getPartition d) [job]"
  using assms by (auto simp: createJob_def waiting_ok_def)

lemma inv_add:
  assumes inv: "queue_inv q"
  shows "queue_inv (fst (add u ts d q))"
proof -
  define key where "key = getPartition d"
  obtain q1 p where g: "getPartitionState key q = (q1, p)" by force
  note g1 = getPartitionState_inv [OF inv g]
  define prio where "prio = (if priority d = Some True
    then Some (assessPriority q1 p (length (waiting p)) (getGroup d) False) else None)"
  define d' where "d' = (case prio of
      Some r \<Rightarrow> if reason r = Some Nothing_Waiting then withoutPriority d else d | None \<Rightarrow> d)"
  obtain q2 job where c: "createJob d' u ts q1 = (q2, job)" by force
  note c1 = createJob_props [OF c]
  have key': "getPartition d' = key"
    by (simp add: d'_def key_def getPartition_def withoutPriority_def split: option.split)
  define q3 where "q3 = set_part key (p\<lparr>waiting := waiting p @ [job]\<rparr>) q2"
  have inv3: "queue_inv q3"
  proof (rule inv_add_waiting [OF g1])
    show "waiting_ok key [job]" using c1(7) by (simp add: key')
    show "mset (waiting p @ [job]) = mset [job] + mset (waiting p)" by simp
    show "ids_ok (job_ids (partitions q1) (late q1) + mset (map jid [job])) (Suc (seq q1))"
      using ids_ok_new [OF queue_invD(3) [OF g1(1)]] by (simp add: c1(2))
    show "core q3 = (AList.update key (p\<lparr>waiting := waiting p @ [job]\<rparr>) (partitions q1), late q1,
        keptLocks q1, heldGroups q1, holds q1, nextHold q1, Suc (seq q1))"
      by (simp add: q3_def core_def c1(1))
  qed
  have "queue_inv (fst (add u ts d q)) = queue_inv q3"
    unfolding add_def Let_def key_def [symmetric]
    by (simp add: g c q3_def flip: prio_def d'_def)
  with inv3 show ?thesis by simp
qed

lemma find_waiting_SomeD:
  assumes "find_waiting i ps = Some (k, p, n)" and "distinct (map fst ps)"
  shows "map_of ps k = Some p \<and> n < length (waiting p) \<and> jid (waiting p ! n) = i"
  using assms
proof (induction ps)
  case (Cons x ps)
  obtain k' p' where x: "x = (k', p')" by force
  show ?case
  proof (cases "find_index (\<lambda>j. jid j = i) (waiting p')")
    case None
    with Cons x have "map_of ps k = Some p \<and> n < length (waiting p) \<and> jid (waiting p ! n) = i" by auto
    moreover from this Cons.prems(2) x have "k \<noteq> k'"
      by (metis fst_conv image_eqI list.simps(9) distinct.simps(2) list.set_map map_of_SomeD)
    ultimately show ?thesis by (simp add: x)
  next
    case (Some m)
    with Cons.prems x find_index_SomeD [OF Some] show ?thesis by auto
  qed
qed simp

lemma inv_prioritize:
  assumes inv: "queue_inv q"
  shows "queue_inv (fst (prioritize i u q))"
proof (cases "find_waiting i (partitions q)")
  case None
  then show ?thesis using inv by (simp add: prioritize_def)
next
  case (Some r)
  then obtain k p n where f: "find_waiting i (partitions q) = Some (k, p, n)" by (cases r) auto
  note F = find_waiting_SomeD [OF f queue_invD(1) [OF inv]]
  let ?d = "flag_data u (jdata (waiting p ! n))"
  let ?js = "(waiting p)[n := (waiting p ! n)\<lparr>jdata := ?d\<rparr>]"
  have "waiting_ok k ?js"
    using part_invD(1) [OF queue_invD(2) [OF inv]] F
    by (auto simp: waiting_ok_def dest!: set_update_subset_insert [THEN subsetD])
  moreover have "map jid ?js = map jid (waiting p)"
    using F by (metis (no_types, lifting) internal_job.simps(1) internal_job.surjective
        internal_job.update_convs(3) list_update_id map_update)
  ultimately have "queue_inv (set_part k (p\<lparr>waiting := ?js\<rparr>) q)"
    using F by (intro inv_set_waiting [OF inv]) simp_all
  with inv f show ?thesis
    by (auto simp: prioritize_def Let_def)
qed

lemma inv_removeWaitingJob:
  assumes inv: "queue_inv q"
  shows "queue_inv (fst (removeWaitingJob i q))"
proof (cases "find_waiting i (partitions q)")
  case None
  then show ?thesis using inv by (simp add: removeWaitingJob_def)
next
  case (Some r)
  then obtain k p n where f: "find_waiting i (partitions q) = Some (k, p, n)" by (cases r) auto
  note F = find_waiting_SomeD [OF f queue_invD(1) [OF inv]]
  have "queue_inv (set_part k (p\<lparr>waiting := filter (\<lambda>j. jid j \<noteq> i) (waiting p)\<rparr>) q)"
    using F part_invD(1) [OF queue_invD(2) [OF inv]]
    by (intro inv_set_waiting [OF inv] waiting_ok_filter mset_map_filter_subset) auto
  with f show ?thesis by (simp add: removeWaitingJob_def)
qed

lemma inv_removeWaiting: "queue_inv q \<Longrightarrow> queue_inv (fst (removeWaiting P q))"
  by (simp add: removeWaiting_def Let_def)
    (intro inv_map_waiting waiting_ok_filter mset_map_filter_subset)

lemma inv_clearWaiting: "queue_inv q \<Longrightarrow> queue_inv (fst (clearWaiting q))"
  by (simp add: clearWaiting_def Let_def)
    (intro inv_map_waiting, simp_all add: waiting_ok_def)

lemma inv_keepOldest: "queue_inv q \<Longrightarrow> queue_inv (fst (keepOldestWaiting P q))"
  unfolding keepOldestWaiting_def Let_def without_def
  by simp
    (intro inv_map_waiting waiting_ok_filter mset_map_filter_subset)

lemma map_jid_set_payload [simp]: "map jid (set_payload i d js) = map jid js"
  by (simp add: set_payload_def)

lemma waiting_ok_set_payload: "waiting_ok k js \<Longrightarrow> waiting_ok k (set_payload i d js)"
  by (auto simp: waiting_ok_def set_payload_def)

lemma inv_coalesce:
  assumes "queue_inv q"
  shows "queue_inv (fst (coalesceWaiting d P q))"
proof -
  obtain t gone where cp: "coalesce_parts (coalesce_match d P) (getPartition d) None
      (home_first (getPartition d) (partitions q)) = (t, gone)" by force
  define q1 where "q1 = map_waiting (without gone) q"
  have 1: "queue_inv q1"
    unfolding q1_def without_def
    by (intro inv_map_waiting [OF assms] waiting_ok_filter mset_map_filter_subset)
  show ?thesis
  proof (cases t)
    case None
    with 1 show ?thesis
      by (simp add: coalesceWaiting_def Let_def cp flip: q1_def)
  next
    case (Some j)
    have "queue_inv (map_waiting (set_payload i x) (reportDropped a (reportDropped b (settle c q1))))" for i x a b c
      by (rule inv_map_waiting) (simp_all add: waiting_ok_set_payload 1)
    with Some show ?thesis
      by (simp add: coalesceWaiting_def Let_def cp flip: q1_def)
  qed
qed

section \<open>Restored jobs\<close>

definition bp_ids :: "(string \<times> internal_job list) list \<Rightarrow> nat multiset" where
  "bp_ids bp = sum_list (map (\<lambda>(k, js). mset (map jid js)) bp)"

definition bp_ok :: "(string \<times> internal_job list) list \<Rightarrow> bool" where
  "bp_ok bp \<longleftrightarrow> distinct (map fst bp) \<and> (\<forall>k js. map_of bp k = Some js \<longrightarrow> waiting_ok k js)"

lemma bp_ids_update:
  "bp_ids (AList.update k (js @ [j]) bp) = add_mset (jid j) (bp_ids bp)"
  if "js = (case map_of bp k of None \<Rightarrow> [] | Some js \<Rightarrow> js)"
proof (cases "map_of bp k")
  case None
  with that show ?thesis by (simp add: bp_ids_def AList_update_None)
next
  case (Some js')
  with that sum_list_AList_update [OF Some, of "\<lambda>(k, js). mset (map jid js)" "js @ [j]"]
  have "bp_ids (AList.update k (js @ [j]) bp) + mset (map jid js) =
      add_mset (jid j) (bp_ids bp) + mset (map jid js)"
    by (simp add: bp_ids_def)
  then show ?thesis by simp
qed

lemma bp_ok_update:
  assumes "bp_ok bp" and "js = (case map_of bp k of None \<Rightarrow> [] | Some js \<Rightarrow> js)" and "waiting_ok k [j]"
  shows "bp_ok (AList.update k (js @ [j]) bp)"
  using assms by (auto simp: bp_ok_def distinct_update waiting_ok_def split: option.splits if_splits)

lemma restore_collect_inv:
  assumes "restore_collect rs known bp q = (bp', n, q')" and "bp_ok bp"
    and "ids_ok (base + bp_ids bp) (seq q)"
  shows "bp_ok bp' \<and> ids_ok (base + bp_ids bp') (seq q') \<and> q' = q\<lparr>seq := seq q'\<rparr> \<and> seq q \<le> seq q'"
  using assms
proof (induction rs known bp q arbitrary: bp' n q' rule: restore_collect.induct)
  case (1 known bp q)
  then show ?case by simp
next
  case (2 r rs known bp q)
  show ?case
  proof (cases "rj_journalId r \<in> known")
    case True
    with 2 show ?thesis by simp
  next
    case False
    obtain q1 job where c: "createJob (rj_data r) (rj_journalId r) (rj_timestamp r) q = (q1, job)"
      by force
    note c1 = createJob_props [OF c]
    define js where "js = (case map_of bp (partition_key job) of None \<Rightarrow> [] | Some js \<Rightarrow> js)"
    define bp1 where "bp1 = AList.update (partition_key job) (js @ [job]) bp"
    obtain bp2 m q2 where rec: "restore_collect rs (insert (rj_journalId r) known) bp1 q1 = (bp2, m, q2)"
      by (metis prod_cases3)
    have res: "bp' = bp2" "q' = q2"
      using "2.prems"(1) False by (simp_all add: c rec flip: js_def bp1_def)
    have "bp_ok bp1"
      unfolding bp1_def using "2.prems"(2) js_def c1(5,7) by (intro bp_ok_update) simp_all
    moreover have "ids_ok (base + bp_ids bp1) (seq q1)"
      using ids_ok_new [OF "2.prems"(3)] by (simp add: bp1_def bp_ids_update [OF js_def] c1(1,2))
    ultimately have "bp_ok bp2 \<and> ids_ok (base + bp_ids bp2) (seq q2) \<and> q2 = q1\<lparr>seq := seq q2\<rparr> \<and> seq q1 \<le> seq q2"
      using "2.IH"(2) [OF False refl c [symmetric] js_def rec [unfolded bp1_def]]
      by (simp add: bp1_def)
    then show ?thesis by (auto simp: res c1(1))
  qed
qed

lemma inv_restore_place:
  assumes "queue_inv q" and "ids_ok (job_ids (partitions q) (late q) + bp_ids bp) (seq q)"
    and "\<forall>(k, js)\<in>set bp. waiting_ok k js"
  shows "queue_inv (restore_place bp q)"
  using assms
proof (induction bp arbitrary: q)
  case Nil
  then show ?case by simp
next
  case (Cons x bp)
  obtain k js where x: "x = (k, js)" by force
  obtain q1 p where g: "getPartitionState k q = (q1, p)" by force
  note g1 = getPartitionState_inv [OF Cons.prems(1) g] and fr = getPartitionState_frame [OF g]
  define q2 where "q2 = set_part k (p\<lparr>waiting := js @ waiting p\<rparr>) q1"
  have ids: "ids_ok (job_ids (partitions q1) (late q1) + mset (map jid js) + bp_ids bp) (seq q1)"
    using Cons.prems(2) by (simp add: x bp_ids_def fr ac_simps)
  have inv2: "queue_inv q2"
  proof (rule inv_add_waiting [OF g1])
    show "waiting_ok k js" using Cons.prems(3) by (simp add: x)
    show "mset (js @ waiting p) = mset js + mset (waiting p)" by simp
    show "ids_ok (job_ids (partitions q1) (late q1) + mset (map jid js)) (seq q1)"
      by (rule ids_ok_subset [OF ids]) simp_all
    show "core q2 = (AList.update k (p\<lparr>waiting := js @ waiting p\<rparr>) (partitions q1), late q1,
        keptLocks q1, heldGroups q1, holds q1, nextHold q1, seq q1)"
      by (simp add: q2_def core_def)
  qed
  have "job_ids (partitions q2) (late q2) + part_ids p =
      job_ids (partitions q1) (late q1) + mset (map jid js) + part_ids p"
    using job_ids_update [OF g1(2), of "p\<lparr>waiting := js @ waiting p\<rparr>" "late q1"]
    by (simp add: q2_def part_ids_def ac_simps)
  then have "job_ids (partitions q2) (late q2) = job_ids (partitions q1) (late q1) + mset (map jid js)"
    by simp
  with ids have "ids_ok (job_ids (partitions q2) (late q2) + bp_ids bp) (seq q2)"
    by (simp add: q2_def)
  with Cons.IH [OF inv2] Cons.prems(3) show ?case by (simp add: x g flip: q2_def)
qed

lemma queue_inv_seq:
  assumes "queue_inv q" and "seq q \<le> n"
  shows "queue_inv (q\<lparr>seq := n\<rparr>)"
  using assms ids_ok_subset [OF queue_invD(3) [OF assms(1)] subset_mset.order_refl, of n]
  by (auto simp: queue_inv_def)

lemma inv_addRestored:
  assumes inv: "queue_inv q"
  shows "queue_inv (fst (addRestored rs q))"
proof -
  obtain bp n q1 where c: "restore_collect rs (set (knownJournalIds q)) [] q = (bp, n, q1)"
    by (metis prod_cases3)
  have R: "bp_ok bp" "ids_ok (job_ids (partitions q) (late q) + bp_ids bp) (seq q1)"
    "q1 = q\<lparr>seq := seq q1\<rparr>" "seq q \<le> seq q1"
    using restore_collect_inv [OF c, of "job_ids (partitions q) (late q)"] queue_invD(3) [OF inv]
    by (auto simp: bp_ok_def bp_ids_def)
  have "queue_inv q1"
    using queue_inv_seq [OF inv R(4)] R(3) by simp
  moreover have "ids_ok (job_ids (partitions q1) (late q1) + bp_ids bp) (seq q1)"
    using R(2) by (subst R(3), subst (2) R(3)) simp
  moreover have "\<forall>(k, js)\<in>set bp. waiting_ok k js"
    using R(1) by (auto simp: bp_ok_def)
  ultimately have "queue_inv (restore_place bp q1)" by (rule inv_restore_place)
  then show ?thesis by (simp add: addRestored_def Let_def c)
qed

section \<open>Starting jobs\<close>

lemma start_jobs_part_inv:
  assumes "part_inv lt hs k p"
  shows "part_inv lt hs k (fst (start_jobs clock c p))"
proof (rule start_jobs_inv [where I = "part_inv lt hs k", OF _ assms])
  fix p i jump
  assume p: "part_inv lt hs k p" and pick: "pickNext p = Some (i, jump)"
  note d = pickNext_SomeD [OF pick] and D = part_invD [OF p]
  have w: "waiting p ! i \<in> set (waiting p)" using d by simp
  have own: "set (owners lt hs k (start_at clock p i jump)) = insert (group (waiting p ! i)) (set (owners lt hs k p))"
    by (auto simp: owners_def)
  have "waiting_ok k (remove_at i (waiting p))"
    using D(1) set_remove_at_subset by (fastforce simp: waiting_ok_def)
  moreover have "active_ok k (active p @ [started_job clock p i jump])"
    using D(1,2) w d by (auto simp: waiting_ok_def active_ok_def jumpBlocked_def filter_empty_conv)
  moreover have "distinct (owners lt hs k (start_at clock p i jump))"
    using D(3,4) d by (auto simp: owners_def)
  ultimately show "part_inv lt hs k (start_at clock p i jump)"
    using D(4) own by (simp add: part_inv_def)
qed

lemma start_jobs_part_ids: "part_ids (fst (start_jobs clock c p)) = part_ids p"
  using start_jobs_mset [of p clock c]
  by (simp add: part_ids_def start_jobs_active ac_simps flip: mset_map)

text \<open>What the loop does to the fields of its partition that the properties read.\<close>

lemma start_jobs_concurrency: "concurrency (fst (start_jobs clock c p)) = concurrency p"
  by (rule start_jobs_induct [where P = "\<lambda>p p' js. concurrency p' = concurrency p"]) auto

lemma drain_part_fields:
  fixes p :: partition and clock :: "nat \<Rightarrow> int" and c :: nat
  defines "s \<equiv> start_jobs clock c (p\<lparr>concurrency := Some c\<rparr>)"
  assumes d: "drain_part clock c go p = (p', js)"
  shows "js = (if go then snd s else [])" "waiting p' = (if go then waiting (fst s) else waiting p)"
    and "active p' = active p @ js" "activeGroups p' = activeGroups p \<union> group ` set js"
    and "concurrency p' = Some c"
proof -
  have "concurrency (fst s) = Some c" "active (fst s) = active p @ snd s"
    "activeGroups (fst s) = activeGroups p \<union> group ` set (snd s)"
    using start_jobs_groups [of clock c "p\<lparr>concurrency := Some c\<rparr>"]
    by (simp_all add: s_def start_jobs_concurrency start_jobs_active)
  moreover have "js = (if go then snd s else [])"
    "p' = (let r = (if go then fst s else p\<lparr>concurrency := Some c\<rparr>) in
      if waiting r = [] then r\<lparr>jumpedLast := False\<rparr> else r)"
    using d by (auto simp: drain_part_def s_def Let_def split: prod.splits if_splits)
  ultimately show "js = (if go then snd s else [])" "waiting p' = (if go then waiting (fst s) else waiting p)"
    "active p' = active p @ js" "activeGroups p' = activeGroups p \<union> group ` set js"
    "concurrency p' = Some c"
    by (simp_all add: Let_def)
qed

lemma part_inv_fields:
  assumes "waiting p' = waiting p" "active p' = active p" "activeGroups p' = activeGroups p"
  shows "part_inv lt hs k p' = part_inv lt hs k p" "part_ids p' = part_ids p"
  using assms by (simp_all add: part_inv_def owners_def part_ids_def)

lemma drain_part_inv:
  assumes "part_inv lt hs k p" and d: "drain_part clock c go p = (p', js)"
  shows "part_inv lt hs k p'" "part_ids p' = part_ids p"
proof -
  define r where "r = (if go then fst (start_jobs clock c (p\<lparr>concurrency := Some c\<rparr>)) else p\<lparr>concurrency := Some c\<rparr>)"
  have r: "p' = (if waiting r = [] then r\<lparr>jumpedLast := False\<rparr> else r)"
    using d by (auto simp: r_def drain_part_def Let_def split: prod.splits if_splits)
  have p0: "part_inv lt hs k (p\<lparr>concurrency := Some c\<rparr>)" "part_ids (p\<lparr>concurrency := Some c\<rparr>) = part_ids p"
    using assms(1) part_inv_fields [of "p\<lparr>concurrency := Some c\<rparr>" p] by simp_all
  have "part_inv lt hs k r" "part_ids r = part_ids p"
    using p0 by (simp_all add: r_def start_jobs_part_inv start_jobs_part_ids)
  moreover have "waiting p' = waiting r" "active p' = active r" "activeGroups p' = activeGroups r"
    by (simp_all add: r)
  then have "part_inv lt hs k p' = part_inv lt hs k r" "part_ids p' = part_ids r"
    by (rule part_inv_fields)+
  ultimately show "part_inv lt hs k p'" "part_ids p' = part_ids p" by simp_all
qed

lemma drain_resume_None: "map_of (partitions q) k = None \<Longrightarrow> drain_resume clock k c q = drain_abort k q"
  by (simp add: drain_resume_def drain_abort_def Let_def)

lemma drain_resume_Some:
  assumes "map_of (partitions q) k = Some p"
    and "drain_part clock (max 1 c) (running q \<and> \<not> paused q) p = (p', js)"
  shows "drain_resume clock k c q =
    emit (concat (map (start_effects (hasJournal q)) js)) (set_part k p' (drain_abort k q))"
  using assms by (simp add: drain_resume_def drain_abort_def Let_def)

lemma drain_abort_simps [simp]:
  "partitions (drain_abort k q) = partitions q" "late (drain_abort k q) = late q"
  "holds (drain_abort k q) = holds q"
  by (simp_all add: drain_abort_def)

lemma inv_drain_resume:
  assumes inv: "queue_inv q"
  shows "queue_inv (drain_resume clock k c q)"
proof (cases "map_of (partitions q) k")
  case None
  with inv show ?thesis by (simp add: drain_resume_None)
next
  case (Some p)
  obtain p' js where d: "drain_part clock (max 1 c) (running q \<and> \<not> paused q) p = (p', js)"
    by force
  note p' = drain_part_inv [OF queue_invD(2) [OF inv Some] d]
  have "queue_inv (drain_abort k q)" using inv by simp
  then have "queue_inv (set_part k p' (drain_abort k q))"
    by (rule inv_set_part [where p = p]) (simp_all add: Some p')
  with drain_resume_Some [OF Some d] show ?thesis by simp
qed

section \<open>The end of a job, the watchdog and holds\<close>

lemma find_SomeD: "find P xs = Some x \<Longrightarrow> x \<in> set xs \<and> P x"
  by (metis find_Some_iff nth_mem)

lemma find_active_SomeD:
  "find_active i ps = Some (k, p, j) \<Longrightarrow> (k, p) \<in> set ps \<and> j \<in> set (active p) \<and> jid j = i"
  by (induction ps) (auto split: option.splits dest!: find_SomeD)

lemma ids_distinct:
  assumes "ids_ok ids n" and "mset xs \<subseteq># ids"
  shows "distinct xs"
proof -
  have "count_list xs x \<le> 1" for x
    using assms mset_subset_eq_count [OF assms(2), of x]
    by (auto simp: ids_ok_def count_mset intro: order_trans)
  then show ?thesis
  proof (induction xs)
    case (Cons a xs)
    have "count_list xs x \<le> 1" for x using Cons.prems [of x] by (auto split: if_splits)
    moreover have "count_list xs a = 0" using Cons.prems [of a] by simp
    ultimately show ?case using Cons.IH by (simp add: count_list_0_iff)
  qed simp
qed

lemma mset_filter_key:
  "distinct (map f xs) \<Longrightarrow> x \<in> set xs \<Longrightarrow> mset xs = add_mset x (mset (filter (\<lambda>y. f y \<noteq> f x) xs))"
proof (induction xs)
  case (Cons a xs)
  show ?case
  proof (cases "x = a")
    case True
    with Cons.prems have "filter (\<lambda>y. f y \<noteq> f x) xs = xs"
      by (intro filter_True) (metis distinct.simps(2) image_eqI list.set_map list.simps(9))
    with True show ?thesis by simp
  next
    case False
    with Cons show ?thesis by (auto simp: image_iff)
  qed
qed simp

lemma kept_without:
  assumes "distinct (map jid lt)" "j \<in> set lt" "groupLockKept j"
  shows "mset (map group (filter (\<lambda>x. groupLockKept x \<and> partition_key x = k) lt)) =
    mset (map group (filter (\<lambda>x. jid x \<noteq> jid j \<and> groupLockKept x \<and> partition_key x = k) lt)) +
    (if k = partition_key j then {#group j#} else {#})"
  using assms
proof (induction lt)
  case (Cons a lt)
  show ?case
  proof (cases "a = j")
    case True
    with Cons.prems have "jid j \<notin> jid ` set lt" by simp
    then have "\<forall>x\<in>set lt. jid x \<noteq> jid j" by (metis image_eqI)
    then have "filter (\<lambda>x. jid x \<noteq> jid j \<and> groupLockKept x \<and> partition_key x = k) lt =
        filter (\<lambda>x. groupLockKept x \<and> partition_key x = k) lt"
      by (intro filter_cong) auto
    with True Cons.prems show ?thesis by auto
  next
    case False
    with Cons show ?thesis by (auto simp: image_iff)
  qed
qed simp

text \<open>One owner goes and the set loses its group, or the owners stay the same.\<close>

lemma part_inv_drop:
  assumes p: "part_inv lt hs k p"
    and own: "mset (owners lt hs k p) = add_mset g (mset (owners lt' hs' k p'))"
    and "waiting p' = waiting p" "active_ok k (active p')" "activeGroups p' = activeGroups p - {g}"
  shows "part_inv lt' hs' k p'"
proof -
  note D = part_invD [OF p]
  have "distinct (g # owners lt' hs' k p')"
    using own D(3) by (metis mset.simps(2) mset_eq_imp_distinct_iff)
  moreover have "set (owners lt hs k p) = insert g (set (owners lt' hs' k p'))"
    using own by (metis set_mset_add_mset_insert set_mset_mset)
  ultimately show ?thesis using D(1,4) assms(3-5) by (auto simp: part_inv_def)
qed

lemma part_inv_same:
  assumes p: "part_inv lt hs k p"
    and own: "mset (owners lt' hs' k p') = mset (owners lt hs k p)"
    and "waiting p' = waiting p" "active_ok k (active p')" "activeGroups p' = activeGroups p"
  shows "part_inv lt' hs' k p'"
  using part_invD [OF p] assms(3-5) mset_eq_imp_distinct_iff [OF own] mset_eq_setD [OF own]
  by (simp add: part_inv_def)

lemma job_ids_late: "job_ids ps lt = job_ids ps [] + mset (map jid lt)"
  by (simp add: job_ids_def)

lemma late_distinct: "queue_inv q \<Longrightarrow> distinct (map jid (late q))"
  using ids_distinct [OF queue_invD(3), of q "map jid (late q)"] by (simp add: job_ids_def)

lemma active_distinct:
  assumes "queue_inv q" "map_of (partitions q) k = Some p"
  shows "distinct (map jid (active p))"
proof -
  have "mset (map jid (active p)) \<subseteq># part_ids p" by (simp add: part_ids_def)
  also have "\<dots> \<subseteq># job_ids (partitions q) (late q)" by (rule part_ids_subset [OF assms(2)])
  finally show ?thesis by (rule ids_distinct [OF queue_invD(3) [OF assms(1)]])
qed

text \<open>The released jobs change and at most one kept lock goes with them.\<close>

lemma inv_drop_lock:
  assumes inv: "queue_inv q"
    and q': "core q' = (partitions (unlock_group key g q), lt', kept', held', hs', nextHold q, seq q)"
    and own: "\<And>k p. map_of (partitions q) k = Some p \<Longrightarrow>
      mset (owners (late q) (holds q) k p) =
        mset (owners lt' hs' k p) + (if k = key then {#g#} else {#})"
    and ids: "mset (map jid lt') \<subseteq># mset (map jid (late q))"
    and lt': "late_inv (fst ` set (partitions q)) lt' kept'"
    and hs': "holds_inv (fst ` set (partitions q)) hs' held' (nextHold q)"
  shows "queue_inv q'"
proof (rule queue_invI [OF _ _ _ _ _ q'])
  note D = queue_invD [OF inv]
  define ps where "ps = partitions (unlock_group key g q)"
  have keys: "map fst ps = map fst (partitions q)"
    by (auto simp: ps_def unlock_group_def AList_update_keys_Some split: option.splits)
  then have keys': "fst ` set ps = fst ` set (partitions q)" by (metis image_set)
  show "distinct (map fst (partitions (unlock_group key g q)))"
    using D(1) keys by (simp add: ps_def)
  show "part_inv lt' hs' k r" if "map_of (partitions (unlock_group key g q)) k = Some r" for k r
  proof (cases "k = key")
    case True
    with that obtain p where p: "map_of (partitions q) k = Some p"
      and r: "r = p\<lparr>activeGroups := activeGroups p - {g}\<rparr>"
      by (auto simp: unlock_group_def split: option.splits)
    show ?thesis
      by (rule part_inv_drop [OF D(2) [OF p], of g])
        (use own [OF p] True r part_invD(2) [OF D(2) [OF p]] in \<open>simp_all add: owners_def\<close>)
  next
    case False
    with that have p: "map_of (partitions q) k = Some r"
      by (auto simp: unlock_group_def split: option.splits)
    show ?thesis
      by (rule part_inv_same [OF D(2) [OF p]])
        (use own [OF p] False part_invD(2) [OF D(2) [OF p]] in simp_all)
  qed
  have "job_ids ps [] \<subseteq># job_ids (partitions q) []"
    by (auto simp: ps_def unlock_group_def part_ids_def split: option.splits
        intro!: job_ids_update_subset)
  then have "job_ids ps lt' \<subseteq># job_ids (partitions q) (late q)"
    unfolding job_ids_late [of ps lt'] job_ids_late [of "partitions q" "late q"]
    by (rule subset_mset.add_mono [OF _ ids])
  then show "ids_ok (job_ids (partitions (unlock_group key g q)) lt') (seq q)"
    unfolding ps_def by (rule ids_ok_subset [OF D(3)]) simp
  show "late_inv (fst ` set (partitions (unlock_group key g q))) lt' kept'"
    using lt' keys' by (simp add: ps_def)
  show "holds_inv (fst ` set (partitions (unlock_group key g q))) hs' held' (nextHold q)"
    using hs' keys' by (simp add: ps_def)
qed

lemma unlock_group_simps [simp]:
  "late (unlock_group k g q) = late q" "keptLocks (unlock_group k g q) = keptLocks q"
  "heldGroups (unlock_group k g q) = heldGroups q" "holds (unlock_group k g q) = holds q"
  "nextHold (unlock_group k g q) = nextHold q" "seq (unlock_group k g q) = seq q"
  by (auto simp: unlock_group_def split: option.splits)

lemma unlock_group_frame [simp]:
  "partitions (unlock_group k g (q\<lparr>late := lt, keptLocks := ks\<rparr>)) = partitions (unlock_group k g q)"
  "partitions (unlock_group k g (q\<lparr>heldGroups := hg, holds := hs\<rparr>)) = partitions (unlock_group k g q)"
  "partitions (unlock_group k g (q\<lparr>holds := hs, heldGroups := hg\<rparr>)) = partitions (unlock_group k g q)"
  by (simp_all add: unlock_group_def split: option.splits)

lemma late_unique:
  "distinct (map jid lt) \<Longrightarrow> j \<in> set lt \<Longrightarrow> i \<in> set lt \<Longrightarrow> jid i = jid j \<Longrightarrow> i = j"
  by (auto simp: distinct_map dest: inj_onD)

lemma inv_finish_late:
  assumes inv: "queue_inv q" and j: "j \<in> set (late q)"
  shows "queue_inv (finish_late j q)"
proof -
  note D = queue_invD [OF inv] and u = late_unique [OF late_distinct [OF inv] j]
  define lt' where "lt' = filter (\<lambda>k. jid k \<noteq> jid j) (late q)"
  have ids: "mset (map jid lt') \<subseteq># mset (map jid (late q))"
    unfolding lt'_def by (rule mset_map_filter_subset)
  have lt': "late_inv (fst ` set (partitions q)) lt' (keptLocks q - {jid j})"
    using D(4) u by (auto simp: late_inv_def lt'_def)
  show ?thesis
  proof (cases "groupLockKept j")
    case True
    have "mset (owners (late q) (holds q) k p) = mset (owners lt' (holds q) k p) +
        (if k = partition_key j then {#group j#} else {#})" for k p
      using kept_without [OF late_distinct [OF inv] j True, of k]
      by (simp add: owners_def lt'_def conj_commute conj_left_commute split: if_splits)
    from inv_drop_lock [OF inv _ this ids lt' D(5)]
    have "queue_inv (unlock_group (partition_key j) (group j)
        (q\<lparr>late := lt', keptLocks := keptLocks q - {jid j}\<rparr>))"
      by (simp add: core_def)
    with True show ?thesis by (simp add: finish_late_def lt'_def Let_def)
  next
    case False
    have "filter (\<lambda>x. groupLockKept x \<and> partition_key x = k) lt' =
        filter (\<lambda>x. groupLockKept x \<and> partition_key x = k) (late q)" for k
      using False u by (auto simp: lt'_def intro!: filter_cong)
    then have own: "owners lt' (holds q) k p = owners (late q) (holds q) k p" for k p
      by (simp add: owners_def)
    have "jid j \<notin> keptLocks q" using D(4) False u by (auto simp: late_inv_def)
    with lt' have "late_inv (fst ` set (partitions q)) lt' (keptLocks q)" by simp
    moreover have "ids_ok (job_ids (partitions q) lt') (seq q)"
      by (rule ids_ok_subset [OF D(3)])
        (use ids in \<open>simp_all add: job_ids_late [of _ lt'] job_ids_late [of _ "late q"]\<close>)
    moreover have "part_inv lt' (holds q) k p" if "map_of (partitions q) k = Some p" for k p
      using D(2) [OF that] by (simp add: part_inv_def own)
    ultimately have "queue_inv (q\<lparr>late := lt'\<rparr>)"
      using D(1,5) by (intro queue_invI) (auto simp: core_def)
    with False show ?thesis by (simp add: finish_late_def lt'_def Let_def)
  qed
qed

lemma kept_job_SomeD:
  "kept_job i q = Some j \<Longrightarrow> i \<in> keptLocks q \<and> j \<in> set (late q) \<and> jid j = i \<and> groupLockKept j"
  by (auto simp: kept_job_def dest!: find_SomeD split: if_splits)

lemma inv_dropKeptGroupLock:
  assumes inv: "queue_inv q"
  shows "queue_inv (fst (dropKeptGroupLock i q))"
proof (cases "kept_job i q")
  case None
  with inv show ?thesis by (simp add: dropKeptGroupLock_def)
next
  case (Some j)
  note j = kept_job_SomeD [OF Some] and D = queue_invD [OF inv]
  define lt' where "lt' = map (\<lambda>k. if jid k = i then k\<lparr>groupLockKept := False\<rparr> else k) (late q)"
  have ids: "map jid lt' = map jid (late q)" by (simp add: lt'_def)
  have lt': "late_inv (fst ` set (partitions q)) lt' (keptLocks q - {i})"
  proof -
    have "jid ` set (filter groupLockKept (map (\<lambda>k. if jid k = i then k\<lparr>groupLockKept := False\<rparr> else k) js)) =
        jid ` set (filter groupLockKept js) - {i}" for js
      by (induction js) auto
    from this [of "late q"]
    have "jid ` {j \<in> set lt'. groupLockKept j} = jid ` {j \<in> set (late q). groupLockKept j} - {i}"
      by (simp add: lt'_def)
    moreover have "\<forall>j\<in>set lt'. released j \<and> partition_key j \<in> fst ` set (partitions q)"
      using D(4) by (auto simp: late_inv_def lt'_def)
    ultimately show ?thesis using D(4) by (simp add: late_inv_def)
  qed
  have "map group (filter (\<lambda>x. groupLockKept x \<and> partition_key x = k)
        (map (\<lambda>k. if jid k = i then k\<lparr>groupLockKept := False\<rparr> else k) js)) =
      map group (filter (\<lambda>x. jid x \<noteq> i \<and> groupLockKept x \<and> partition_key x = k) js)" for k js
    by (induction js) auto
  then have "mset (map group (filter (\<lambda>x. groupLockKept x \<and> partition_key x = k) lt')) =
      mset (map group (filter (\<lambda>x. jid x \<noteq> i \<and> groupLockKept x \<and> partition_key x = k) (late q)))" for k
    unfolding lt'_def by (rule arg_cong)
  then have "mset (owners (late q) (holds q) k p) = mset (owners lt' (holds q) k p) +
      (if k = partition_key j then {#group j#} else {#})" for k p
    using kept_without [OF late_distinct [OF inv], of j k] j
    by (simp add: owners_def split: if_splits)
  from inv_drop_lock [OF inv _ this _ lt' D(5)]
  have "queue_inv (unlock_group (partition_key j) (group j)
      (q\<lparr>late := lt', keptLocks := keptLocks q - {i}\<rparr>))"
    by (simp add: core_def ids)
  with Some show ?thesis by (simp add: dropKeptGroupLock_def lt'_def Let_def)
qed

lemma inv_release_hold:
  assumes inv: "queue_inv q"
  shows "queue_inv (release_hold t q)"
proof (cases "map_of (holds q) t")
  case None
  with inv show ?thesis by (simp add: release_hold_def)
next
  case (Some kg)
  obtain key g where kg: "kg = (key, g)" by force
  with Some have t: "(t, key, g) \<in> set (holds q)" by (auto dest: map_of_SomeD)
  note D = queue_invD [OF inv]
  define hs' where "hs' = filter (\<lambda>(t', x). t' \<noteq> t) (holds q)"
  from D(5) have dist: "distinct (map fst (holds q))" "distinct (map (snd \<circ> snd) (holds q))"
    and held: "heldGroups q = (snd \<circ> snd) ` set (holds q)"
    by (simp_all add: holds_inv_def)
  have split: "mset (holds q) = add_mset (t, key, g) (mset hs')"
    using mset_filter_key [OF dist(1) t] by (simp add: hs'_def case_prod_unfold)
  have "mset (owners (late q) (holds q) k p) = mset (owners (late q) hs' k p) +
      (if k = key then {#g#} else {#})" for k p
  proof -
    have "image_mset (snd \<circ> snd) (filter_mset (\<lambda>(t, k', g). k' = k) (mset (holds q))) =
        image_mset (snd \<circ> snd) (filter_mset (\<lambda>(t, k', g). k' = k) (mset hs')) +
        (if k = key then {#g#} else {#})"
      by (simp add: split)
    then show ?thesis by (simp add: owners_def flip: mset_filter)
  qed
  moreover have "holds_inv (fst ` set (partitions q)) hs' (heldGroups q - {g}) (nextHold q)"
  proof -
    have "set (holds q) = insert (t, key, g) (set hs')"
      using split by (metis set_mset_add_mset_insert set_mset_mset)
    moreover have "distinct (map (snd \<circ> snd) ((t, key, g) # hs'))" "distinct (map fst ((t, key, g) # hs'))"
      using split dist by (metis mset.simps(2) mset_eq_imp_distinct_iff mset_map)+
    ultimately show ?thesis using D(5) held by (auto simp: holds_inv_def)
  qed
  ultimately have "queue_inv (unlock_group key g (q\<lparr>holds := hs', heldGroups := heldGroups q - {g}\<rparr>))"
    using D(4) by (intro inv_drop_lock [OF inv]) (auto simp: core_def)
  with Some kg show ?thesis by (simp add: release_hold_def hs'_def)
qed

text \<open>An active job leaves its partition; with \<open>keep\<close> a released job keeps its group.\<close>

lemma inv_leave_active:
  assumes inv: "queue_inv q" and p: "map_of (partitions q) k = Some p" and j: "j \<in> set (active p)"
    and p': "waiting p' = waiting p" "active p' = filter (\<lambda>x. jid x \<noteq> jid j) (active p)"
      "activeGroups p' = (if keep then activeGroups p else activeGroups p - {group j})"
    and lt': "lt' = late q @ js"
    and js: "js = [] \<and> \<not> keep \<or> js = [j'] \<and> released j' \<and> groupLockKept j' = keep \<and>
      jid j' = jid j \<and> group j' = group j \<and> partition_key j' = partition_key j"
    and kept': "kept' = (if keep then insert (jid j) (keptLocks q) else keptLocks q)"
    and q': "core q' = (AList.update k p' (partitions q), lt', kept', heldGroups q, holds q, nextHold q, seq q)"
  shows "queue_inv q'"
proof (rule queue_invI [OF _ _ _ _ _ q'])
  note D = queue_invD [OF inv]
  note P = D(2) [OF p]
  have jk: "partition_key j = k" using part_invD(2) [OF P] j by (auto simp: active_ok_def)
  have split: "mset (active p) = add_mset j (mset (active p'))"
    using mset_filter_key [OF active_distinct [OF inv p] j] p'(2) by simp
  have ok': "active_ok k (active p')"
  proof -
    have "length (filter jumped (filter P js)) \<le> length (filter jumped js)" for P js
      by (induction js) auto
    then have "length (filter jumped (active p')) \<le> length (filter jumped (active p))"
      unfolding p'(2) .
    with part_invD(2) [OF P] have "length (filter jumped (active p')) \<le> 1"
      by (simp add: active_ok_def)
    with part_invD(2) [OF P] show ?thesis by (simp add: active_ok_def p'(2))
  qed
  show "part_inv lt' (holds q) k' r" if "map_of (AList.update k p' (partitions q)) k' = Some r" for k' r
  proof (cases "k' = k")
    case True
    with that have r: "r = p'" by simp
    have own: "mset (owners (late q) (holds q) k p) + (if keep then {#group j#} else {#}) =
        add_mset (group j) (mset (owners lt' (holds q) k p'))"
      using js jk by (auto simp: owners_def split lt')
    show ?thesis
    proof (cases keep)
      case True
      show ?thesis unfolding r \<open>k' = k\<close>
        by (rule part_inv_same [OF P]) (use own True p' ok' in auto)
    next
      case False
      show ?thesis unfolding r \<open>k' = k\<close>
        by (rule part_inv_drop [OF P]) (use own False p' ok' in auto)
    qed
  next
    case False
    with that have r: "map_of (partitions q) k' = Some r" by simp
    have "owners lt' (holds q) k' r = owners (late q) (holds q) k' r"
      using js jk False by (auto simp: owners_def lt')
    with D(2) [OF r] show ?thesis by (simp add: part_inv_def)
  qed
  show "distinct (map fst (AList.update k p' (partitions q)))"
    using D(1) by (simp add: distinct_update)
  have "part_ids p = add_mset (jid j) (part_ids p')"
    by (simp add: part_ids_def p'(1) split)
  with job_ids_update [OF p, of p' "[]"]
  have "add_mset (jid j) (job_ids (AList.update k p' (partitions q)) []) + part_ids p' =
      job_ids (partitions q) [] + part_ids p'"
    by simp
  then have ids: "job_ids (partitions q) [] = add_mset (jid j) (job_ids (AList.update k p' (partitions q)) [])"
    by (simp only: add_right_cancel)
  have "job_ids (AList.update k p' (partitions q)) lt' \<subseteq># job_ids (partitions q) (late q)"
    unfolding job_ids_late [of _ lt'] job_ids_late [of _ "late q"] ids using js
    by (auto simp: lt')
  then show "ids_ok (job_ids (AList.update k p' (partitions q)) lt') (seq q)"
    by (rule ids_ok_subset [OF D(3)]) simp
  have "k \<in> fst ` set (partitions q)" using p by (force dest: map_of_SomeD)
  then have "\<forall>x\<in>set lt'. released x \<and> partition_key x \<in> fst ` set (partitions q)"
    using D(4) js jk unfolding lt' late_inv_def by (elim disjE) simp_all
  moreover have "{x \<in> set lt'. groupLockKept x} = (if keep then insert j' else id) {x \<in> set (late q). groupLockKept x}"
    using js unfolding lt' by auto
  then have "kept' = jid ` {x \<in> set lt'. groupLockKept x}"
    using D(4) js unfolding kept' late_inv_def by auto
  ultimately show "late_inv (fst ` set (AList.update k p' (partitions q))) lt' kept'"
    unfolding keys_update_Some [OF p] late_inv_def by blast
  show "holds_inv (fst ` set (AList.update k p' (partitions q))) (holds q) (heldGroups q) (nextHold q)"
    using D(5) by (simp add: keys_update_Some [OF p])
qed

lemma inv_finish_active:
  assumes inv: "queue_inv q" and f: "find_active i (partitions q) = Some (k, p, j)"
  shows "queue_inv (finish_active j r q)"
proof -
  from find_active_SomeD [OF f] have j: "(k, p) \<in> set (partitions q)" "j \<in> set (active p)" by auto
  from j(1) queue_invD(1) [OF inv] have p: "map_of (partitions q) k = Some p" by simp
  from part_invD(2) [OF queue_invD(2) [OF inv p]] j(2) have jk: "partition_key j = k"
    by (simp add: active_ok_def)
  define p' where "p' = p\<lparr>active := filter (\<lambda>k. jid k \<noteq> jid j) (active p),
    activeGroups := activeGroups p - {group j},
    jumpedLast := (if jumped j \<and> outcome_of r \<noteq> None then False else jumpedLast p)\<rparr>"
  have "queue_inv (set_part k p' q)"
    by (rule inv_leave_active [OF inv p j(2), where keep = False and js = "[]" and p' = p'
          and lt' = "late q" and kept' = "keptLocks q" and j' = j])
      (simp_all add: p'_def core_def)
  then show ?thesis by (simp add: finish_active_def jk p Let_def p'_def)
qed

lemma inv_finish: "queue_inv q \<Longrightarrow> queue_inv (finish i r q)"
  by (auto simp: finish_def split: option.splits prod.splits dest!: find_SomeD
      intro: inv_finish_late inv_finish_active)

lemma inv_releaseActive:
  assumes inv: "queue_inv q"
  shows "queue_inv (fst (releaseActive now i keep q))"
proof (cases "find_active i (partitions q)")
  case None
  with inv show ?thesis by (simp add: releaseActive_def)
next
  case (Some kpj)
  then obtain k p j where f: "find_active i (partitions q) = Some (k, p, j)" by (cases kpj) auto
  from find_active_SomeD [OF f] have j: "(k, p) \<in> set (partitions q)" "j \<in> set (active p)"
    and i: "i = jid j" by auto
  from j(1) queue_invD(1) [OF inv] have p: "map_of (partitions q) k = Some p" by simp
  from part_invD(2) [OF queue_invD(2) [OF inv p]] j(2)
  have nk: "partition_key j = k" "\<not> groupLockKept j"
    by (auto simp: active_ok_def)
  define p' where "p' = p\<lparr>active := filter (\<lambda>k. jid k \<noteq> i) (active p),
    activeGroups := (if keep then activeGroups p else activeGroups p - {group (released_job now keep j)}),
    jumpedLast := (if jumped (released_job now keep j) then False else jumpedLast p)\<rparr>"
  define q' where "q' = set_part k p' q\<lparr>late := late q @ [released_job now keep j],
    keptLocks := (if keep then insert i (keptLocks q) else keptLocks q)\<rparr>"
  have "queue_inv q'"
    by (rule inv_leave_active [OF inv p j(2), where keep = keep and js = "[released_job now keep j]"
          and p' = p' and j' = "released_job now keep j"])
      (use nk in \<open>simp_all add: p'_def q'_def core_def released_job_def i\<close>)
  then show ?thesis 
    by (simp add: releaseActive_def f Let_def p'_def q'_def split del: if_split cong: if_cong)
qed

lemma inv_holdIdleGroup:
  assumes inv: "queue_inv q"
  shows "queue_inv (fst (holdIdleGroup key g P q))"
proof (cases "g \<in> heldGroups q \<or> (\<exists>(k, p)\<in>set (partitions q). g \<in> activeGroups p) \<or>
    (\<exists>(k, p)\<in>set (partitions q). \<exists>j\<in>set (waiting p). group j = g \<and> P (jdata j))")
  case True
  with inv show ?thesis by (auto simp: holdIdleGroup_def)
next
  case False
  obtain q1 p where s: "getPartitionState key q = (q1, p)" by force
  note S = getPartitionState_inv [OF inv s] and F = getPartitionState_frame [OF s]
  note D = queue_invD [OF S(1)] and P = queue_invD(2) [OF S]
  have key: "key \<in> fst ` set (partitions q1)" using S(2) by (force dest: map_of_SomeD)
  have new: "g \<notin> activeGroups p"
    using s False by (fastforce simp: getPartitionState_def split: option.splits dest: map_of_SomeD)
  define q' where "q' = set_part key (p\<lparr>activeGroups := insert g (activeGroups p)\<rparr>) q1
    \<lparr>heldGroups := insert g (heldGroups q), holds := holds q @ [(nextHold q, key, g)],
     nextHold := Suc (nextHold q)\<rparr>"
  have "queue_inv q'"
  proof (rule queue_invI)
    show "core q' = (AList.update key (p\<lparr>activeGroups := insert g (activeGroups p)\<rparr>) (partitions q1),
        late q1, keptLocks q1, insert g (heldGroups q1), holds q1 @ [(nextHold q1, key, g)],
        Suc (nextHold q1), seq q1)"
      by (simp add: core_def q'_def F)
    show "part_inv (late q1) (holds q1 @ [(nextHold q1, key, g)]) k r"
      if "map_of (AList.update key (p\<lparr>activeGroups := insert g (activeGroups p)\<rparr>) (partitions q1)) k = Some r"
      for k r
    proof -
      have "owners lt (hs @ [(t, key, g)]) k r = owners lt hs k r @ (if k = key then [g] else [])"
        "owners lt hs k (r\<lparr>activeGroups := G\<rparr>) = owners lt hs k r" for lt hs t k r G
        by (simp_all add: owners_def)
      with that D(2) part_invD [OF P] new show ?thesis
        by (auto simp: part_inv_def split: if_splits)
    qed
    show "holds_inv (fst ` set (AList.update key (p\<lparr>activeGroups := insert g (activeGroups p)\<rparr>) (partitions q1)))
        (holds q1 @ [(nextHold q1, key, g)]) (insert g (heldGroups q1)) (Suc (nextHold q1))"
      using D(5) False F(3) key
      by (auto simp: holds_inv_def keys_update_Some [OF S(2)] intro: less_SucI)
    show "ids_ok (job_ids (AList.update key (p\<lparr>activeGroups := insert g (activeGroups p)\<rparr>) (partitions q1))
        (late q1)) (seq q1)"
      by (rule ids_ok_subset [OF D(3) job_ids_update_subset [OF S(2)]]) (simp_all add: part_ids_def)
  qed (use D(1,4) in \<open>simp_all add: distinct_update keys_update_Some [OF S(2)]\<close>)
  with False s show ?thesis by (auto simp: holdIdleGroup_def q'_def Let_def F)
qed

section \<open>Every step keeps the invariant\<close>

lemma queue_inv_init: "queue_init q \<Longrightarrow> queue_inv q"
  by (auto simp: queue_init_def new_queue_def queue_inv_def ids_ok_def job_ids_def late_inv_def
      holds_inv_def)

lemmas queue_op_invs = inv_add inv_addRestored inv_prioritize inv_removeWaitingJob inv_removeWaiting
  inv_clearWaiting inv_keepOldest inv_coalesce inv_finish inv_releaseActive inv_dropKeptGroupLock
  inv_holdIdleGroup inv_release_hold inv_drain_resume

lemma queue_inv_step: "queue_inv q \<Longrightarrow> queue_step q q' \<Longrightarrow> queue_inv q'"
  by (erule queue_step.cases) (simp_all add: queue_op_invs)

interpretation iq: inductive_invariant queue_init queue_step queue_inv
  by unfold_locales (auto intro: queue_inv_init queue_inv_step)

section \<open>Ids are unique across partitions\<close>

definition all_jobs :: "queue \<Rightarrow> internal_job list" where
  "all_jobs q = concat (map (\<lambda>(k, p). waiting p @ active p) (partitions q))"

lemma all_jobs_distinct:
  assumes "queue_inv q"
  shows "distinct (map jid (all_jobs q))"
proof -
  have "mset (map jid (concat (map (\<lambda>(k, p). waiting p @ active p) ps))) = job_ids ps []" for ps
    by (induction ps) (auto simp: job_ids_def part_ids_def)
  then have "mset (map jid (all_jobs q)) \<subseteq># job_ids (partitions q) (late q)"
    by (simp add: all_jobs_def job_ids_late [of _ "late q"])
  then show ?thesis by (rule ids_distinct [OF queue_invD(3) [OF assms]])
qed

lemma in_all_jobs:
  "map_of (partitions q) k = Some p \<Longrightarrow> j \<in> set (waiting p) \<or> j \<in> set (active p) \<Longrightarrow> j \<in> set (all_jobs q)"
  by (force simp: all_jobs_def dest!: map_of_SomeD)

lemma job_place:
  assumes "queue_inv q" "map_of (partitions q) k = Some p"
  shows "j \<in> set (waiting p) \<Longrightarrow> partition_key j = k \<and> jstate j = Waiting"
    and "j \<in> set (active p) \<Longrightarrow> partition_key j = k \<and> jstate j = Active"
  using part_invD(1,2) [OF queue_invD(2) [OF assms]] by (auto simp: waiting_ok_def active_ok_def)

lemma job_unique:
  assumes inv: "queue_inv q" and p: "map_of (partitions q) k = Some p" "map_of (partitions q) k' = Some p'"
    and j: "j \<in> set (waiting p) \<or> j \<in> set (active p)" and j': "j' \<in> set (waiting p') \<or> j' \<in> set (active p')"
    and eq: "jid j = jid j'"
  shows "j = j'" "k = k'" "p = p'"
proof -
  show "j = j'"
    using late_unique [OF all_jobs_distinct [OF inv] in_all_jobs [OF p(1) j] in_all_jobs [OF p(2) j']] eq
    by simp
  with job_place [OF inv p(1)] job_place [OF inv p(2)] j j' show "k = k'" by metis
  with p show "p = p'" by simp
qed

lemma find_active_place:
  assumes inv: "queue_inv q" and p: "map_of (partitions q) k = Some p" and j: "j \<in> set (active p)"
  shows "find_active (jid j) (partitions q) = Some (k, p, j)"
proof -
  have "find_active (jid j) ps \<noteq> None" if "(k, p) \<in> set ps" for ps
    using that j by (induction ps) (auto split: option.splits simp: find_None_iff)
  with p obtain k2 p2 j2 where f: "find_active (jid j) (partitions q) = Some (k2, p2, j2)"
    by (metis map_of_SomeD not_None_eq prod_cases3)
  from find_active_SomeD [OF f] have "map_of (partitions q) k2 = Some p2" "j2 \<in> set (active p2)" "jid j2 = jid j"
    using queue_invD(1) [OF inv] by simp_all
  then have "j = j2" "k = k2" "p = p2"
    using job_unique [OF inv p, of k2 p2 j j2] j by metis+
  with f show ?thesis by simp
qed

end
