(* ===== verification/Queue_Props.thy ===== *)
theory Queue_Props
  imports Queue_Preserved
begin

text \<open>
  The properties of the deployment queue: mutual exclusion per service and exactness of the
  group locks in every reachable state, the scheduling contract of one partition, and what
  the operations on waiting jobs do to the waiting lists and tell the journal.
\<close>

lemmas queue_reachable_inv = iq.reach_inv

lemma reach_new_queue: "queue_reachable (new_queue a b c)"
  by (rule reach_init) (auto simp: queue_init_def)

section \<open>Concrete runs for the witnesses\<close>

text \<open>
  Two deploys of one application and one of another, on the same server: added to a running
  queue with a limit of two, and scheduled once.
\<close>

definition sample_job :: "string \<Rightarrow> deployment_job" where
  "sample_job a = \<lparr>jobType = Deploy, applicationType = App, applicationId = Some a, composeId = None,
     previewDeploymentId = None, titleLog = ''t'', descriptionLog = '''', job_server = None, serverId = Some ''s'',
     freshVolumes = None, pinnedImage = None, buildOrigin = None, buildRunUrl = None,
     deploymentId = None, priority = None, priorityBy = None\<rparr>"

definition sample_added :: queue where
  "sample_added =
     fst (add ''c'' 3 (sample_job ''B'')
       (fst (add ''b'' 2 (sample_job ''A'')
         (fst (add ''a'' 1 (sample_job ''A'') (process (new_queue True True True)))))))"

definition sample_running :: queue where
  "sample_running = drain_resume (\<lambda>i. 10) ''s'' 2 sample_added"

lemma sample_added_reachable: "queue_reachable sample_added"
  unfolding sample_added_def
  by (rule reach_step, rule reach_step, rule reach_step, rule reach_step, rule reach_new_queue,
      rule s_process, (rule s_add)+)

lemma sample_added_draining: "''s'' \<in> set (draining sample_added)"
  by code_simp

lemma sample_running_reachable: "queue_reachable sample_running"
  unfolding sample_running_def
  by (rule reach_step, rule sample_added_reachable, rule s_drain, rule sample_added_draining)

definition part_of :: "string \<Rightarrow> queue \<Rightarrow> partition" where
  "part_of k q = (case map_of (partitions q) k of None \<Rightarrow> empty_partition | Some p \<Rightarrow> p)"

lemma sample_running_part:
  "map_of (partitions sample_running) ''s'' = Some (part_of ''s'' sample_running)"
  "map jid (active (part_of ''s'' sample_running)) = [1, 3]"
  "map jid (waiting (part_of ''s'' sample_running)) = [2]"
  by code_simp+

section \<open>Mutual exclusion\<close>

text \<open>
  C3. In every reachable state no service has two running jobs in one partition, every running job
  belongs to its partition, at most one of the partition's running jobs jumped the line, and every
  running job holds the lock of its group alone: the group is locked in the partition, no released
  job kept its lock and no hold is taken on it.
\<close>

theorem queue_mutual_exclusion:
  assumes "queue_reachable q" and "map_of (partitions q) k = Some p"
  shows "distinct (map group (active p)) \<and> length (filter jumped (active p)) \<le> 1 \<and>
    (\<forall>j\<in>set (active p). partition_key j = k \<and> jstate j = Active \<and> group j \<in> activeGroups p \<and>
       (\<forall>i\<in>set (late q). groupLockKept i \<and> partition_key i = k \<longrightarrow> group i \<noteq> group j) \<and>
       (\<forall>t. (t, k, group j) \<notin> set (holds q)))"
proof -
  have distinct: "distinct (owners (late q) (holds q) k p)" and groups: "activeGroups p = set (owners (late q) (holds q) k p)"
    and ok: "active_ok k (active p)"
    using part_invD(2-4) [OF queue_invD(2) [OF queue_reachable_inv [OF assms(1)] assms(2)]] by simp_all
  let ?held = "map (snd \<circ> snd) (filter (\<lambda>(t, k', g). k' = k) (holds q))"
  have "group i \<noteq> group j" if "j \<in> set (active p)" "i \<in> set (late q)" "groupLockKept i \<and> partition_key i = k" for i j
    using distinct that by (auto simp: owners_def disjoint_iff)
  moreover have "(t, k, group j) \<notin> set (holds q)" if j: "j \<in> set (active p)" for j t
  proof
    assume "(t, k, group j) \<in> set (holds q)"
    then have "(t, k, group j) \<in> set (filter (\<lambda>(t, k', g). k' = k) (holds q))" by simp
    then have "(snd \<circ> snd) (t, k, group j) \<in> set ?held" unfolding set_map by (rule imageI)
    then have "group j \<in> set ?held" by simp
    then show False using distinct j unfolding owners_def distinct_append by auto
  qed
  moreover have "group j \<in> activeGroups p" if "j \<in> set (active p)" for j
    using that by (simp add: groups owners_def)
  ultimately show ?thesis using distinct ok by (auto simp: active_ok_def owners_def)
qed

theorem queue_mutual_exclusion_witness:
  "distinct (map group (active (part_of ''s'' sample_running))) \<and>
   group ` set (active (part_of ''s'' sample_running)) \<subseteq> activeGroups (part_of ''s'' sample_running)"
  using queue_mutual_exclusion [OF sample_running_reachable sample_running_part(1)] by blast

text \<open>
  C23. In every reachable state the locked groups of a partition are exactly the groups of its
  running jobs, of the released jobs that kept their lock there and of the holds taken on it,
  and no group has two owners: no lock leaks and none is dropped under a second owner.
\<close>

theorem queue_locks_exact:
  assumes "queue_reachable q" and "map_of (partitions q) k = Some p"
  shows "activeGroups p = group ` set (active p)
      \<union> group ` {j \<in> set (late q). groupLockKept j \<and> partition_key j = k}
      \<union> {g. \<exists>t. (t, k, g) \<in> set (holds q)}
    \<and> distinct (owners (late q) (holds q) k p)"
proof -
  have "(snd \<circ> snd) ` set (filter (\<lambda>(t, k', g). k' = k) (holds q)) = {g. \<exists>t. (t, k, g) \<in> set (holds q)}"
    by (force simp: image_iff)
  then show ?thesis
    using part_invD(3,4) [OF queue_invD(2) [OF queue_reachable_inv [OF assms(1)] assms(2)]]
    by (simp add: owners_def image_comp Un_assoc)
qed

theorem queue_locks_exact_witness:
  "activeGroups (part_of ''s'' sample_running) = {''application:A'', ''application:B''}"
proof -
  have "late sample_running = []" "holds sample_running = []"
    and "map group (active (part_of ''s'' sample_running)) = [''application:A'', ''application:B'']"
    by code_simp+
  moreover from this(3) have "group ` set (active (part_of ''s'' sample_running)) = {''application:A'', ''application:B''}"
    by (metis image_set list.simps(15) set_empty2 list.set(1))
  ultimately show ?thesis
    using queue_locks_exact [OF sample_running_reachable sample_running_part(1)] by simp
qed

section \<open>Scheduling\<close>

text \<open>What a resumed \<open>drainPartition\<close> does to its partition, read off the queue.\<close>

definition drained :: "(nat \<Rightarrow> int) \<Rightarrow> nat \<Rightarrow> queue \<Rightarrow> string \<Rightarrow> partition \<times> internal_job list" where
  "drained clock c q k = drain_part clock (max 1 c) (running q \<and> \<not> paused q) (part_of k q)"

lemma drain_resume_part:
  assumes "map_of (partitions q) k = Some p"
  shows "map_of (partitions (drain_resume clock k c q)) k = Some (fst (drained clock c q k))"
    and "out (drain_resume clock k c q) =
      out q @ concat (map (start_effects (hasJournal q)) (snd (drained clock c q k)))"
  using assms drain_resume_Some [OF assms, of clock c "fst (drained clock c q k)" "snd (drained clock c q k)"]
  by (simp_all add: drained_def part_of_def emit_def drain_abort_def)

lemma emit_partitions [simp]: "partitions (emit es q) = partitions q"
  by (simp add: emit_def)

lemma drained_fields:
  assumes "map_of (partitions q) k = Some p"
  shows "snd (drained clock c q k) = (if running q \<and> \<not> paused q
      then snd (start_jobs clock (max 1 c) (p\<lparr>concurrency := Some (max 1 c)\<rparr>)) else [])"
    and "waiting (fst (drained clock c q k)) = (if running q \<and> \<not> paused q
      then waiting (fst (start_jobs clock (max 1 c) (p\<lparr>concurrency := Some (max 1 c)\<rparr>))) else waiting p)"
    and "active (fst (drained clock c q k)) = active p @ snd (drained clock c q k)"
    and "activeGroups (fst (drained clock c q k)) = activeGroups p \<union> group ` set (snd (drained clock c q k))"
proof -
  obtain p' js where d: "drain_part clock (max 1 c) (running q \<and> \<not> paused q) p = (p', js)"
    by force
  with assms have "drained clock c q k = (p', js)" by (simp add: drained_def part_of_def)
  then have e: "fst (drained clock c q k) = p'" "snd (drained clock c q k) = js" by simp_all
  show "snd (drained clock c q k) = (if running q \<and> \<not> paused q
      then snd (start_jobs clock (max 1 c) (p\<lparr>concurrency := Some (max 1 c)\<rparr>)) else [])"
    unfolding e by (rule drain_part_fields [OF d])
  show "waiting (fst (drained clock c q k)) = (if running q \<and> \<not> paused q
      then waiting (fst (start_jobs clock (max 1 c) (p\<lparr>concurrency := Some (max 1 c)\<rparr>))) else waiting p)"
    unfolding e by (rule drain_part_fields [OF d])
  show "active (fst (drained clock c q k)) = active p @ snd (drained clock c q k)"
    unfolding e by (rule drain_part_fields [OF d])
  show "activeGroups (fst (drained clock c q k)) = activeGroups p \<union> group ` set (snd (drained clock c q k))"
    unfolding e by (rule drain_part_fields [OF d])
qed

text \<open>
  A resumed \<open>drainPartition\<close> starts the jobs of each service in waiting order: the waiting
  jobs of a service, in order, are the jobs it starts followed by the jobs that keep waiting;
  at most one job of a service starts, none whose service is locked, and started jobs join the
  active list in the order they start.
\<close>

lemma drain_fifo_per_service:
  assumes "map_of (partitions q) k = Some p"
  shows "\<exists>p' js. map_of (partitions (drain_resume clock k c q)) k = Some p' \<and> active p' = active p @ js \<and>
    (\<forall>g. map jid (filter (\<lambda>j. group j = g) (waiting p)) =
      map jid (filter (\<lambda>j. group j = g) js) @ map jid (filter (\<lambda>j. group j = g) (waiting p'))) \<and>
    distinct (map group js) \<and> group ` set js \<inter> activeGroups p = {}"
proof (intro exI conjI)
  note f = drained_fields [OF assms, of clock c]
  let ?s = "start_jobs clock (max 1 c) (p\<lparr>concurrency := Some (max 1 c)\<rparr>)"
  show "map_of (partitions (drain_resume clock k c q)) k = Some (fst (drained clock c q k))"
    by (rule drain_resume_part [OF assms])
  show "active (fst (drained clock c q k)) = active p @ snd (drained clock c q k)"
    by (rule f)
  show "\<forall>g. map jid (filter (\<lambda>j. group j = g) (waiting p)) =
      map jid (filter (\<lambda>j. group j = g) (snd (drained clock c q k))) @
      map jid (filter (\<lambda>j. group j = g) (waiting (fst (drained clock c q k))))"
    using start_jobs_fifo [of _ "p\<lparr>concurrency := Some (max 1 c)\<rparr>" clock "max 1 c"]
    by (simp add: f)
  have js: "snd (drained clock c q k) = [] \<or> snd (drained clock c q k) = snd ?s"
    unfolding f(1) by simp
  then show "distinct (map group (snd (drained clock c q k)))"
    using start_jobs_groups [of clock "max 1 c" "p\<lparr>concurrency := Some (max 1 c)\<rparr>"]
    by (elim disjE) simp_all
  from js show "group ` set (snd (drained clock c q k)) \<inter> activeGroups p = {}"
    using start_jobs_groups [of clock "max 1 c" "p\<lparr>concurrency := Some (max 1 c)\<rparr>"]
    by (elim disjE) simp_all
qed

text \<open>
  C24. Scheduling keeps the limit and wastes no slot: after a resumed \<open>drainPartition\<close> of a
  running queue the partition runs at most the resolved limit (or what it ran before, when the
  limit was lowered), and if a slot is left then every waiting job's service is locked.
\<close>

theorem drain_work_conserving:
  assumes "map_of (partitions q) k = Some p" and "running q" and "\<not> paused q"
  shows "\<exists>p'. map_of (partitions (drain_resume clock k c q)) k = Some p' \<and>
    length (active p') \<le> max (length (active p)) (max 1 c) \<and>
    (max 1 c \<le> length (active p') \<or> (\<forall>j\<in>set (waiting p'). group j \<in> activeGroups p'))"
proof -
  note f = drained_fields [OF assms(1), of clock c]
  let ?p = "p\<lparr>concurrency := Some (max 1 c)\<rparr>"
  let ?s = "start_jobs clock (max 1 c) ?p"
  have s: "active (fst (drained clock c q k)) = active (fst ?s)"
    "waiting (fst (drained clock c q k)) = waiting (fst ?s)"
    "activeGroups (fst (drained clock c q k)) = activeGroups (fst ?s)"
    using f assms start_jobs_active [of clock "max 1 c" ?p] start_jobs_groups [of clock "max 1 c" ?p]
    by simp_all
  from start_jobs_capacity [of clock "max 1 c" ?p] start_jobs_exhausts [of "max 1 c" clock ?p]
  show ?thesis
    using drain_resume_part(1) [OF assms(1), of clock c] by (auto simp: s pickNext_None)
qed

theorem drain_work_conserving_witness:
  "\<exists>p'. map_of (partitions sample_running) ''s'' = Some p' \<and> length (active p') \<le> 2"
proof -
  have p: "map_of (partitions sample_added) ''s'' = Some (part_of ''s'' sample_added)"
    and a: "active (part_of ''s'' sample_added) = []" "running sample_added" "\<not> paused sample_added"
    by code_simp+
  from drain_work_conserving [OF p a(2,3), of "\<lambda>i. 10" 2] a(1) show ?thesis
    by (auto simp: sample_running_def)
qed

text \<open>
  Priority is bounded: a resumed \<open>drainPartition\<close> starts at most one job that jumps, none
  while a jumped job runs, and not as the first start when the last start was a jump.
\<close>

lemma drain_jumps_bounded:
  assumes "queue_reachable q" and "map_of (partitions q) k = Some p"
  shows "\<exists>p' js. map_of (partitions (drain_resume clock k c q)) k = Some p' \<and> active p' = active p @ js \<and>
    length (filter jumped (active p)) + length (filter jumped js) \<le> 1 \<and>
    (jumpBlocked p \<and> js \<noteq> [] \<longrightarrow> \<not> jumped (hd js))"
proof (intro exI conjI)
  note f = drained_fields [OF assms(2), of clock c]
  let ?p = "p\<lparr>concurrency := Some (max 1 c)\<rparr>"
  show p': "map_of (partitions (drain_resume clock k c q)) k = Some (fst (drained clock c q k))"
    by (rule drain_resume_part [OF assms(2)])
  show "active (fst (drained clock c q k)) = active p @ snd (drained clock c q k)" by (rule f)
  have "length (filter jumped (active p)) \<le> 1"
    using part_invD(2) [OF queue_invD(2) [OF queue_reachable_inv [OF assms(1)] assms(2)]]
    by (simp add: active_ok_def)
  then show "length (filter jumped (active p)) + length (filter jumped (snd (drained clock c q k))) \<le> 1"
    using start_jobs_jumps [of ?p clock "max 1 c"] start_jobs_active [of clock "max 1 c" ?p]
    by (simp add: f)
  show "jumpBlocked p \<and> snd (drained clock c q k) \<noteq> [] \<longrightarrow> \<not> jumped (hd (snd (drained clock c q k)))"
    using start_jobs_blocked [of ?p clock "max 1 c"]
    by (cases "snd (drained clock c q k)") (auto simp: f jumpBlocked_def split: if_splits)
qed

text \<open>
  \<open>pickNext\<close> picks a waiting job of an idle service with no older job of the same service
  before it; unless it jumps it is the first such job, and a jump needs the priority flag, no
  blocking jump, and a startable job that it goes ahead of. It picks nothing exactly when
  every waiting job's service is locked.
\<close>

lemma pickNext_correct:
  "case pickNext p of
     None \<Rightarrow> \<forall>j\<in>set (waiting p). group j \<in> activeGroups p
   | Some (i, jump) \<Rightarrow> i < length (waiting p) \<and> group (waiting p ! i) \<notin> activeGroups p \<and>
       \<not> hasOlderOfGroup p i (group (waiting p ! i)) \<and>
       (jump \<longrightarrow> \<not> jumpBlocked p \<and> priority (jdata (waiting p ! i)) = Some True \<and> 0 < startableBefore p i) \<and>
       (\<not> jump \<longrightarrow> startableBefore p i = 0)"
proof (cases "pickNext p")
  case None
  with pickNext_None [of p] show ?thesis by simp
next
  case (Some pick)
  then obtain i jump where pick: "pickNext p = Some (i, jump)" by (cases pick) auto
  note d = pickNext_SomeD [OF pick]
  have nth: "(\<exists>x\<in>set (take i (waiting p)). P x) \<longleftrightarrow> (\<exists>k<i. P (waiting p ! k))" for P
    using pickNext_length [OF pick] by (fastforce simp: in_set_conv_nth)
  have "\<not> hasOlderOfGroup p i (group (waiting p ! i))"
    using d by (auto simp: hasOlderOfGroup_def nth)
  moreover have "jump \<Longrightarrow> 0 < startableBefore p i"
    using d by (simp add: startableBefore_def filter_empty_conv nth)
  moreover have "\<not> jump \<Longrightarrow> startableBefore p i = 0"
    using d nth [of "\<lambda>j. group j \<notin> activeGroups p"] by (auto simp: startableBefore_def filter_empty_conv)
  ultimately show ?thesis using pick d by simp
qed

section \<open>The watchdog's release and late returns\<close>

lemma find_unique:
  "distinct (map f xs) \<Longrightarrow> x \<in> set xs \<Longrightarrow> find (\<lambda>y. f y = f x) xs = Some x"
  by (induction xs) (auto simp: image_iff)

text \<open>
  The late return of a job that the watchdog released without keeping its lock changes
  nothing: no partition, no lock, no journal call and no drain, whatever happened since.
\<close>

lemma late_return_changes_nothing:
  assumes "queue_reachable q" and "j \<in> set (late q)" and "\<not> groupLockKept j"
  shows "finish (jid j) r q = q\<lparr>late := filter (\<lambda>k. jid k \<noteq> jid j) (late q)\<rparr>"
  using find_unique [OF late_distinct [OF queue_reachable_inv [OF assms(1)]] assms(2)] assms(3)
  by (simp add: finish_def finish_late_def)

definition sample_released :: queue where
  "sample_released = fst (releaseActive 20 1 False sample_running)"

lemma sample_released_reachable: "queue_reachable sample_released"
  unfolding sample_released_def by (rule reach_step, rule sample_running_reachable, rule s_release)

lemma wake_out: "\<exists>es. out (wakeIdleWaiters q) = out q @ es \<and> partitions (wakeIdleWaiters q) = partitions q
    \<and> late (wakeIdleWaiters q) = late q"
  by (auto simp: wakeIdleWaiters_def emit_def)

lemma drain_begin_simps [simp]:
  "partitions (drain_begin k q) = partitions q" "out (drain_begin k q) = out q"
  "late (drain_begin k q) = late q"
  by (simp_all add: drain_begin_def)

lemma released_job_simps [simp]:
  "group (released_job now keep j) = group j" "partition_key (released_job now keep j) = partition_key j"
  "jumped (released_job now keep j) = jumped j" "journalId (released_job now keep j) = journalId j"
  by (simp_all add: released_job_def)

text \<open>
  \<open>releaseActive\<close> frees the slot of a running job and settles its journal row; its service
  stays locked exactly when \<open>keepGroupLock\<close> is asked, and no other job of the partition moves.
\<close>

lemma releaseActive_frees_slot:
  assumes "queue_reachable q" and "map_of (partitions q) k = Some p" and "j \<in> set (active p)"
    and "releaseActive now (jid j) keep q = (q', ok)"
  shows "ok \<and> (\<exists>p'. map_of (partitions q') k = Some p' \<and> waiting p' = waiting p \<and>
      active p' = filter (\<lambda>x. jid x \<noteq> jid j) (active p) \<and> length (active p) = Suc (length (active p')) \<and>
      (group j \<in> activeGroups p' \<longleftrightarrow> keep)) \<and>
    (hasJournal q \<longrightarrow> J_Settled [journalId j] \<in> set (out q'))"
proof -
  note inv = queue_reachable_inv [OF assms(1)]
  note f = find_active_place [OF inv assms(2,3)] and jp = conjunct1 [OF job_place(2) [OF inv assms(2,3)]]
  define p' where "p' = p\<lparr>active := filter (\<lambda>x. jid x \<noteq> jid j) (active p),
    activeGroups := (if keep then activeGroups p else activeGroups p - {group j}),
    jumpedLast := (if jumped j then False else jumpedLast p)\<rparr>"
  define q1 where "q1 = set_part k p' q\<lparr>late := late q @ [released_job now keep j],
    keptLocks := (if keep then insert (jid j) (keptLocks q) else keptLocks q)\<rparr>"
  have "releaseActive now (jid j) keep q =
      (drain_begin k (wakeIdleWaiters (settle [released_job now keep j] q1)), True)"
    unfolding releaseActive_def f q1_def p'_def Let_def option.case prod.case released_job_simps
      set_part_simps jp by (rule refl)
  with assms(4) have "q' = drain_begin k (wakeIdleWaiters (settle [released_job now keep j] q1))" "ok"
    by simp_all
  moreover have "hasJournal q1 = hasJournal q" "partitions q1 = AList.update k p' (partitions q)"
    by (simp_all add: q1_def)
  moreover have "group j \<in> activeGroups p"
    using part_invD(4) [OF queue_invD(2) [OF inv assms(2)]] assms(3) by (simp add: owners_def)
  moreover have "length (active p) = Suc (length (active p'))"
    using arg_cong [where f = size, OF mset_filter_key [OF active_distinct [OF inv assms(2)] assms(3)]]
    by (simp add: p'_def del: mset_filter)
  ultimately show ?thesis
    using wake_out [of "settle [released_job now keep j] q1"]
    by (auto simp: p'_def settle_def emit_def released_job_def)
qed

end
