(* ===== verification/Queue_Coalesce.thy ===== *)
theory Queue_Coalesce
  imports Queue_Props
begin

text \<open>
  What \<open>coalesceWaiting\<close>, \<open>keepOldestWaiting\<close>, \<open>addRestored\<close>, \<open>prioritize\<close> and
  \<open>holdIdleGroup\<close> of the deployment queue do, stated against reference definitions over the
  waiting lists, and the property that no job leaves the queue without the journal's knowledge.
\<close>

section \<open>Coalescing\<close>

lemma coalesce_scan_other:
  "t \<noteq> None \<or> \<not> home \<Longrightarrow> coalesce_scan M home t js = (t, filter M js)"
  by (induction js) auto

lemma coalesce_scan_home: "coalesce_scan M True None js = (find M js, tl (filter M js))"
  by (induction js) (auto simp: coalesce_scan_other)

lemma coalesce_parts_other:
  "t \<noteq> None \<or> home \<notin> fst ` set ps \<Longrightarrow>
   coalesce_parts M home t ps = (t, concat (map (\<lambda>(k, p). filter M (waiting p)) ps))"
  by (induction ps) (auto simp: coalesce_scan_other)

text \<open>The first match of the home partition, and what is dropped.\<close>

definition coalesce_target :: "(internal_job \<Rightarrow> bool) \<Rightarrow> string \<Rightarrow> queue \<Rightarrow> internal_job option" where
  "coalesce_target M home q = find M (waiting (part_of home q))"

definition coalesce_dropped :: "(internal_job \<Rightarrow> bool) \<Rightarrow> string \<Rightarrow> queue \<Rightarrow> internal_job list" where
  "coalesce_dropped M home q =
     tl (filter M (waiting (part_of home q))) @
     concat (map (\<lambda>(k, p). if k = home then [] else filter M (waiting p)) (partitions q))"

lemma filter_key: "distinct (map fst ps) \<Longrightarrow> filter (\<lambda>(k, p). k = h) ps =
    (case map_of ps h of None \<Rightarrow> [] | Some p \<Rightarrow> [(h, p)])"
  by (induction ps) (auto simp: filter_empty_conv split: option.splits, (force simp: map_of_eq_None_iff)+)

lemma coalesce_parts_home:
  assumes "distinct (map fst (partitions q))"
  shows "coalesce_parts M home None (home_first home (partitions q)) =
    (coalesce_target M home q, coalesce_dropped M home q)"
proof -
  have rest: "concat (map (\<lambda>(k, p). filter M (waiting p)) (filter (\<lambda>(k, p). k \<noteq> home) ps)) =
      concat (map (\<lambda>(k, p). if k = home then [] else filter M (waiting p)) ps)" for ps :: "(string \<times> partition) list"
    by (induction ps) auto
  have nohome: "home \<notin> fst ` set (filter (\<lambda>(k, p). k \<noteq> home) (partitions q))" by auto
  note other = coalesce_parts_other [OF disjI2 [OF nohome], of M]
  show ?thesis
  proof (cases "map_of (partitions q) home")
    case None
    then show ?thesis
      by (simp add: home_first_def filter_key [OF assms] other rest coalesce_target_def
          coalesce_dropped_def part_of_def)
  next
    case (Some p)
    then show ?thesis
      by (simp add: home_first_def filter_key [OF assms] coalesce_scan_home other rest
          coalesce_target_def coalesce_dropped_def part_of_def)
  qed
qed

lemma tl_filter_iff:
  "distinct js \<Longrightarrow> x \<in> set (tl (filter M js)) \<longleftrightarrow> x \<in> set js \<and> M x \<and> find M js \<noteq> Some x"
  by (induction js) auto

lemma waiting_distinct:
  assumes "queue_inv q" "map_of (partitions q) k = Some p"
  shows "distinct (map jid (waiting p))"
proof -
  have "mset (map jid (waiting p)) \<subseteq># part_ids p" by (simp add: part_ids_def)
  also have "\<dots> \<subseteq># job_ids (partitions q) (late q)" by (rule part_ids_subset [OF assms(2)])
  finally show ?thesis by (rule ids_distinct [OF queue_invD(3) [OF assms(1)]])
qed

text \<open>A waiting job is dropped when it matches and is not the target.\<close>

lemma coalesce_dropped_iff:
  assumes inv: "queue_inv q" and p: "map_of (partitions q) k = Some p" and j: "j \<in> set (waiting p)"
  shows "jid j \<in> jid ` set (coalesce_dropped M home q) \<longleftrightarrow> M j \<and> coalesce_target M home q \<noteq> Some j"
proof -
  note D = queue_invD [OF inv]
  have tgt: "x \<in> set (tl (filter M (waiting r))) \<longleftrightarrow> x \<in> set (waiting r) \<and> M x \<and> find M (waiting r) \<noteq> Some x"
    if "map_of (partitions q) h = Some r" for x h r
    using waiting_distinct [OF inv that] by (intro tl_filter_iff) (simp add: distinct_map)
  have mem: "x \<in> set (coalesce_dropped M home q) \<longleftrightarrow> M x \<and> coalesce_target M home q \<noteq> Some x \<and>
      (\<exists>h r. map_of (partitions q) h = Some r \<and> x \<in> set (waiting r))" for x
  proof -
    have away: "h = home" if "coalesce_target M home q = Some x" "map_of (partitions q) h = Some r"
      "x \<in> set (waiting r)" for h r
    proof (cases "map_of (partitions q) home")
      case None
      with that(1) show ?thesis by (simp add: coalesce_target_def part_of_def)
    next
      case (Some r')
      with that(1) have "x \<in> set (waiting r')"
        by (auto simp: coalesce_target_def part_of_def dest!: find_SomeD)
      with job_unique(2) [OF inv Some that(2), of x x] that(3) show ?thesis by simp
    qed
    have others: "x \<in> set (concat (map (\<lambda>(k, p). if k = home then [] else filter M (waiting p)) (partitions q)))
        \<longleftrightarrow> (\<exists>h r. map_of (partitions q) h = Some r \<and> h \<noteq> home \<and> x \<in> set (waiting r) \<and> M x)"
      using D(1) by (force split: if_splits dest: map_of_SomeD)
    have first: "x \<in> set (tl (filter M (waiting (part_of home q)))) \<longleftrightarrow>
        (\<exists>r. map_of (partitions q) home = Some r \<and> x \<in> set (waiting r) \<and> M x \<and> coalesce_target M home q \<noteq> Some x)"
      using tgt [of home _ x]
      by (cases "map_of (partitions q) home") (simp_all add: coalesce_target_def part_of_def)
    show ?thesis
      unfolding coalesce_dropped_def set_append Un_iff first others using away by blast
  qed
  show ?thesis
  proof
    assume "jid j \<in> jid ` set (coalesce_dropped M home q)"
    then obtain x h r where x: "jid j = jid x" "M x" "coalesce_target M home q \<noteq> Some x"
      and r: "map_of (partitions q) h = Some r" "x \<in> set (waiting r)"
      by (auto simp: mem)
    with job_unique(1) [OF inv p r(1), of j x] j show "M j \<and> coalesce_target M home q \<noteq> Some j" by auto
  qed (use mem [of j] p j in \<open>metis image_eqI\<close>)
qed

lemma without_dropped:
  assumes "queue_inv q" "map_of (partitions q) k = Some p"
  shows "without (coalesce_dropped M home q) (waiting p) =
    filter (\<lambda>j. \<not> M j \<or> coalesce_target M home q = Some j) (waiting p)"
  unfolding without_def using coalesce_dropped_iff [OF assms] by (intro filter_cong) auto

lemma report_settle_frame [simp]:
  "partitions (settle js q) = partitions q" "partitions (reportDropped ds q) = partitions q"
  "partitions (notify_updated j d q) = partitions q"
  by (simp_all add: settle_def reportDropped_def notify_updated_def)

lemma partitions_map_waiting:
  "map_of (partitions (map_waiting f q)) k = map_option (\<lambda>p. p\<lparr>waiting := f (waiting p)\<rparr>) (map_of (partitions q) k)"
  by simp

text \<open>The payload of the job that is left.\<close>

definition coalesce_payload ::
  "deployment_job \<Rightarrow> (internal_job \<Rightarrow> bool) \<Rightarrow> queue \<Rightarrow> deployment_job" where
  "coalesce_payload d M q =
     merged_payload d (kept_deployment d (coalesce_target M (getPartition d) q)
       (coalesce_dropped M (getPartition d) q))"

lemma coalesceWaiting_partitions:
  fixes d :: deployment_job and P :: "deployment_job \<Rightarrow> bool"
  assumes inv: "queue_inv q" and p: "map_of (partitions q) k = Some p"
  defines "M \<equiv> coalesce_match d P"
  defines "t \<equiv> coalesce_target M (getPartition d) q"
  shows "map_of (partitions (fst (coalesceWaiting d P q))) k =
    Some (p\<lparr>waiting := (case t of None \<Rightarrow> id | Some j \<Rightarrow> set_payload (jid j) (coalesce_payload d M q))
        (filter (\<lambda>j. \<not> M j \<or> t = Some j) (waiting p))\<rparr>)"
    and "merged (snd (coalesceWaiting d P q)) =
      map_option (\<lambda>j. summarize (j\<lparr>jdata := coalesce_payload d M q\<rparr>)) t"
  using p without_dropped [OF inv p, of M "getPartition d"]
  unfolding coalesceWaiting_def Let_def coalesce_parts_home [OF queue_invD(1) [OF inv]]
    M_def [symmetric] t_def [symmetric]
  by (simp_all add: coalesce_payload_def t_def split: option.splits)

text \<open>
  C13. \<open>coalesceWaiting\<close> leaves exactly one duplicate: in every partition the waiting jobs that do
  not match keep their order, in the incoming job's partition the oldest match keeps its id and
  its place and carries the merged payload, and every other match in any partition is gone.
  When the incoming job's partition has no match nothing is merged.
\<close>

theorem coalesce_leaves_one:
  assumes "queue_reachable q" and "map_of (partitions q) k = Some p"
    and "t = find (coalesce_match d P) (waiting (part_of (getPartition d) q))"
  shows "map_of (partitions (fst (coalesceWaiting d P q))) k = Some (p\<lparr>waiting :=
      map (\<lambda>j. if t = Some j then j\<lparr>jdata := coalesce_payload d (coalesce_match d P) q\<rparr> else j)
        (filter (\<lambda>j. \<not> coalesce_match d P j \<or> t = Some j) (waiting p))\<rparr>) \<and>
    (merged (snd (coalesceWaiting d P q)) = None \<longleftrightarrow> t = None)"
proof -
  note inv = queue_reachable_inv [OF assms(1)]
  note c = coalesceWaiting_partitions [OF inv assms(2), of d P]
  have t: "coalesce_target (coalesce_match d P) (getPartition d) q = t"
    by (simp add: coalesce_target_def assms(3))
  have "t = Some x \<Longrightarrow> j \<in> set (waiting p) \<Longrightarrow> jid j = jid x \<longleftrightarrow> j = x" for x j
  proof -
    assume x: "t = Some x" and j: "j \<in> set (waiting p)"
    then obtain r where "map_of (partitions q) (getPartition d) = Some r" "x \<in> set (waiting r)"
      using assms(3)
      by (cases "map_of (partitions q) (getPartition d)") (auto simp: part_of_def dest!: find_SomeD)
    with job_unique(1) [OF inv assms(2), of "getPartition d" r j x] j show ?thesis by auto
  qed
  then show ?thesis
    using c unfolding t by (cases t) (auto simp: set_payload_def intro!: map_cong)
qed

text \<open>
  Two pushes of one application and one of another wait behind a paused queue; the second push
  is a registered deployment.
\<close>

definition sample_waiting :: queue where
  "sample_waiting =
     fst (add ''c'' 3 (sample_job ''B'')
       (fst (add ''b'' 2 ((sample_job ''A'')\<lparr>deploymentId := Some ''dep''\<rparr>)
         (fst (add ''a'' 1 (sample_job ''A'') (pause (new_queue True True True)))))))"

lemma sample_waiting_reachable: "queue_reachable sample_waiting"
  unfolding sample_waiting_def
  by (rule reach_step, rule reach_step, rule reach_step, rule reach_step, rule reach_new_queue,
      rule s_pause, (rule s_add)+)

definition of_app :: "string \<Rightarrow> deployment_job \<Rightarrow> bool" where
  "of_app a d \<longleftrightarrow> applicationId d = Some a"

lemma sample_waiting_part:
  "map_of (partitions sample_waiting) ''s'' = Some (part_of ''s'' sample_waiting)"
  by code_simp

theorem coalesce_leaves_one_witness:
  "map jid (waiting (part_of ''s'' (fst (coalesceWaiting (sample_job ''A'') (of_app ''A'') sample_waiting)))) = [1, 3]"
proof -
  let ?M = "coalesce_match (sample_job ''A'') (of_app ''A'')"
  let ?w = "waiting (part_of ''s'' sample_waiting)"
  have g: "getPartition (sample_job ''A'') = ''s''" by code_simp
  have "map jid (filter (\<lambda>j. \<not> ?M j \<or> find ?M ?w = Some j) ?w) = [1, 3]" by code_simp
  moreover have "map jid (map (\<lambda>j. if c j then f j else j) xs) = map jid xs"
    if "\<And>j. jid (f j) = jid j" for c f xs
    using that by simp
  ultimately show ?thesis
    using coalesce_leaves_one [OF sample_waiting_reachable sample_waiting_part refl,
        of "sample_job ''A''" "of_app ''A''"] g
    by (simp add: part_of_def [of _ "fst _"] comp_def if_distrib [of jid] cong: if_cong)
qed

text \<open>What the trace gains.\<close>

definition news :: "queue \<Rightarrow> queue \<Rightarrow> effect list" where
  "news q q' = drop (length (out q)) (out q')"

lemma report_out [simp]:
  "out (reportDropped ds q) = out q @ (if ds = [] \<or> \<not> hasDropHook q then [] else [Waiting_Dropped ds])"
  "out (settle js q) = out q @ (if \<not> hasJournal q \<or> js = [] then [] else [J_Settled (map journalId js)])"
  "out (notify_updated i d q) = out q @ (if hasJournal q \<and> hasUpdated q then [J_Updated i d] else [])"
  "out (map_waiting f q) = out q"
  by (simp_all add: reportDropped_def settle_def notify_updated_def emit_def map_waiting_def)

lemma options_frame [simp]:
  "hasDropHook (settle js q) = hasDropHook q" "hasDropHook (map_waiting f q) = hasDropHook q"
  "hasDropHook (reportDropped ds q) = hasDropHook q" "hasJournal (map_waiting f q) = hasJournal q"
  "hasJournal (settle js q) = hasJournal q" "hasJournal (reportDropped ds q) = hasJournal q"
  by (simp_all add: reportDropped_def settle_def emit_def map_waiting_def)

lemma coalesce_reports:
  fixes d :: deployment_job and P :: "deployment_job \<Rightarrow> bool"
  assumes inv: "queue_inv q" and hook: "hasDropHook q"
  defines "M \<equiv> coalesce_match d P"
  defines "t \<equiv> coalesce_target M (getPartition d) q"
  defines "gone \<equiv> coalesce_dropped M (getPartition d) q"
  assumes j: "j \<in> set gone \<or> t = Some j" and lost: "lost_payload (kept_deployment d t gone) (jdata j)"
  shows "\<exists>ds. Waiting_Dropped ds \<in> set (news q (fst (coalesceWaiting d P q))) \<and> jdata j \<in> set ds"
proof -
  have "filter (lost_payload (kept_deployment d t gone)) (map jdata gone) \<noteq> []" if "j \<in> set gone"
    using that lost by (auto simp: filter_empty_conv)
  then show ?thesis
    using j lost hook unfolding coalesceWaiting_def Let_def
      coalesce_parts_home [OF queue_invD(1) [OF inv]] M_def [symmetric] t_def [symmetric] gone_def [symmetric]
    by (cases t) (auto simp: news_def)
qed

lemma dropped_in_all_jobs: "i \<in> set (coalesce_dropped M h q) \<Longrightarrow> i \<in> set (all_jobs q)"
proof -
  have "i \<in> set (waiting (part_of h q)) \<Longrightarrow> i \<in> set (all_jobs q)"
    by (cases "map_of (partitions q) h") (auto simp: part_of_def intro: in_all_jobs)
  moreover have "set (tl (filter M js)) \<subseteq> set js" for js
    by (cases "filter M js") (simp, metis filter_is_subset list.sel(3) set_subset_Cons subset_trans)
  ultimately show "i \<in> set (coalesce_dropped M h q) \<Longrightarrow> i \<in> set (all_jobs q)"
    by (force simp: coalesce_dropped_def all_jobs_def split: if_splits)
qed

text \<open>
  A registered deployment that waits is not lost by a merge: when the push is folded into a
  waiting job, or carries a registered deployment itself, then the id of every matching waiting
  job is the one of the payload that waits in its place (the merged one, or the push itself,
  which the caller enqueues when nothing was merged), or its payload is reported as dropped.
\<close>

lemma coalesce_keeps_registered:
  assumes "queue_reachable q" and "hasDropHook q"
    and "map_of (partitions q) k = Some p" and "j \<in> set (waiting p)" and "coalesce_match d P j"
    and "truthy (deploymentId (jdata j))"
    and "merged (snd (coalesceWaiting d P q)) \<noteq> None \<or> truthy (deploymentId d)"
  shows "deploymentId (if merged (snd (coalesceWaiting d P q)) = None then d
        else coalesce_payload d (coalesce_match d P) q) = deploymentId (jdata j) \<or>
    (\<exists>ds. Waiting_Dropped ds \<in> set (news q (fst (coalesceWaiting d P q))) \<and> jdata j \<in> set ds)"
proof -
  note inv = queue_reachable_inv [OF assms(1)]
  define M where "M = coalesce_match d P"
  define t where "t = coalesce_target M (getPartition d) q"
  define gone where "gone = coalesce_dropped M (getPartition d) q"
  have j: "\<exists>i. (i \<in> set gone \<or> t = Some i) \<and> i = j"
  proof (cases "t = Some j")
    case False
    with coalesce_dropped_iff [OF inv assms(3,4), of M "getPartition d"] assms(5)
    have "jid j \<in> jid ` set gone" by (simp add: M_def t_def gone_def)
    then obtain i where i: "i \<in> set gone" "jid i = jid j" by auto
    from i(1) have "i \<in> set (all_jobs q)" unfolding gone_def by (rule dropped_in_all_jobs)
    with late_unique [OF all_jobs_distinct [OF inv] in_all_jobs [OF assms(3)]] assms(4) i show ?thesis
      by auto
  qed auto
  show ?thesis
  proof (cases "lost_payload (kept_deployment d t gone) (jdata j)")
    case True
    with coalesce_reports [OF inv assms(2), of j d P] j show ?thesis by (simp add: M_def t_def gone_def)
  next
    case False
    then have k: "kept_deployment d t gone = deploymentId (jdata j)"
      using assms(6) by (auto simp: lost_payload_def)
    have "deploymentId (merged_payload d (kept_deployment d t gone)) = deploymentId (jdata j)"
      using k assms(6)
      by (cases "deploymentId d") (auto simp: merged_payload_def kept_deployment_def)
    moreover have "truthy (deploymentId d) \<Longrightarrow> deploymentId d = deploymentId (jdata j)"
      using k by (cases "deploymentId d") (auto simp: kept_deployment_def)
    ultimately show ?thesis
      using assms(7) by (auto simp: coalesce_payload_def M_def t_def gone_def)
  qed
qed

definition moved_job :: deployment_job where
  "moved_job = (sample_job ''A'')\<lparr>serverId := Some ''other''\<rparr>"

lemma find_first_truthy:
  "filter (\<lambda>j. truthy (f j)) js = j # rest \<Longrightarrow> find truthy (map f js) = Some (f j)"
  by (induction js) (auto split: if_splits)

text \<open>
  C38. A registered deployment is lost when its service moved to another server. Take a push without a deployment of
  its own, in any reachable queue whose partition for the push has no waiting job to fold it into. Nothing is
  merged; every waiting job that the push matches is taken out of the other partitions; and when one of those
  carries the registered deployment that all of them agree on, that deployment is neither carried by the push that is
  enqueued instead nor reported as dropped.
\<close>

theorem coalesce_loses_moved_deployment:
  assumes "queue_reachable q" and "deploymentId d = None"
    and "\<forall>j\<in>set (waiting (part_of (getPartition d) q)). \<not> coalesce_match d P j"
    and "map_of (partitions q) k = Some p" and "j \<in> set (waiting p)" and "coalesce_match d P j"
    and "truthy (deploymentId (jdata j))"
    and "\<forall>k' p' i. map_of (partitions q) k' = Some p' \<longrightarrow> i \<in> set (waiting p') \<longrightarrow> coalesce_match d P i \<longrightarrow>
      truthy (deploymentId (jdata i)) \<longrightarrow> deploymentId (jdata i) = deploymentId (jdata j)"
  shows "merged (snd (coalesceWaiting d P q)) = None \<and>
    (\<forall>k' p'. map_of (partitions (fst (coalesceWaiting d P q))) k' = Some p' \<longrightarrow> (\<forall>i\<in>set (waiting p'). jid i \<noteq> jid j)) \<and>
    (\<forall>ds. Waiting_Dropped ds \<notin> set (news q (fst (coalesceWaiting d P q))))"
proof -
  note inv = queue_reachable_inv [OF assms(1)]
  let ?M = "coalesce_match d P" and ?home = "getPartition d"
  let ?gone = "coalesce_dropped ?M ?home q"
  have target: "coalesce_target ?M ?home q = None" using assms(3) by (simp add: coalesce_target_def find_None_iff)
  have k: "k \<noteq> ?home" using assms(3-6) by (auto simp: part_of_def)
  have "j \<in> set ?gone" using assms(4-6) k by (force simp: coalesce_dropped_def dest: map_of_SomeD)
  moreover have agree: "deploymentId (jdata i) = deploymentId (jdata j)" if gone: "i \<in> set ?gone" and registered: "truthy (deploymentId (jdata i))" for i
  proof -
    have "filter ?M (waiting (part_of ?home q)) = []" using assms(3) by (simp add: filter_empty_conv)
    then obtain k' p' where member: "(k', p') \<in> set (partitions q)" and i: "i \<in> set (waiting p')" "?M i"
      using gone by (auto simp: coalesce_dropped_def split: if_splits)
    have "map_of (partitions q) k' = Some p'" using map_of_is_SomeI [OF queue_invD(1) [OF inv] member] .
    then have "\<exists>k' p'. map_of (partitions q) k' = Some p' \<and> i \<in> set (waiting p') \<and> ?M i" using i by blast
    then show ?thesis using assms(8) registered by blast
  qed
  ultimately obtain j0 rest where j0: "filter (\<lambda>j. truthy (deploymentId (jdata j))) ?gone = j0 # rest"
    using assms(7) by (cases "filter (\<lambda>j. truthy (deploymentId (jdata j))) ?gone") (auto simp: filter_empty_conv)
  have "j0 \<in> set ?gone \<and> truthy (deploymentId (jdata j0))" using arg_cong [OF j0, of set] by auto
  then have kept: "kept_deployment d None ?gone = deploymentId (jdata j)"
    using find_first_truthy [OF j0] agree by (simp add: kept_deployment_def assms(2) nullish_def)
  have quiet: "filter (lost_payload (kept_deployment d None ?gone)) (map jdata ?gone) = []"
    using agree unfolding kept by (auto simp: filter_empty_conv lost_payload_def)
  have "merged (snd (coalesceWaiting d P q)) = None"
    and "news q (fst (coalesceWaiting d P q)) = (if \<not> hasJournal q \<or> ?gone = [] then [] else [J_Settled (map journalId ?gone)])"
    unfolding coalesceWaiting_def Let_def coalesce_parts_home [OF queue_invD(1) [OF inv]] target
    using quiet by (simp_all add: news_def)
  moreover have "jid i \<noteq> jid j" if "map_of (partitions (fst (coalesceWaiting d P q))) k' = Some p'" "i \<in> set (waiting p')" for k' p' i
  proof -
    have "k' \<in> fst ` set (partitions q)"
      using that(1) unfolding coalesceWaiting_def Let_def coalesce_parts_home [OF queue_invD(1) [OF inv]] target
      by (force simp: map_waiting_def dest!: map_of_SomeD)
    then obtain r where r: "map_of (partitions q) k' = Some r" by (metis domD dom_map_of_conv_image_fst)
    have "waiting p' = filter (\<lambda>i. \<not> ?M i) (waiting r)"
      using coalesceWaiting_partitions(1) [OF inv r, of d P] that(1) target by simp
    then have i: "i \<in> set (waiting r)" "\<not> ?M i" using that(2) by auto
    with job_unique(1) [OF inv r assms(4), of i j] assms(5,6) show ?thesis by auto
  qed
  ultimately show ?thesis by (auto split: if_splits)
qed

theorem coalesce_loses_moved_deployment_witness:
  "(\<exists>j\<in>set (waiting (part_of ''s'' sample_waiting)). deploymentId (jdata j) = Some ''dep'') \<and>
   (\<forall>ds. Waiting_Dropped ds \<notin> set (news sample_waiting (fst (coalesceWaiting moved_job (of_app ''A'') sample_waiting))))"
proof -
  have "\<exists>j\<in>set (waiting (part_of ''s'' sample_waiting)). deploymentId (jdata j) = Some ''dep'' \<and> coalesce_match moved_job (of_app ''A'') j"
    by code_simp
  then obtain j where j: "j \<in> set (waiting (part_of ''s'' sample_waiting))" "deploymentId (jdata j) = Some ''dep''"
    "coalesce_match moved_job (of_app ''A'') j" by blast
  have none: "deploymentId moved_job = None" by code_simp
  have home: "\<forall>j\<in>set (waiting (part_of (getPartition moved_job) sample_waiting)). \<not> coalesce_match moved_job (of_app ''A'') j"
    by code_simp
  have all: "\<forall>(k, p)\<in>set (partitions sample_waiting). \<forall>i\<in>set (waiting p).
      truthy (deploymentId (jdata i)) \<longrightarrow> deploymentId (jdata i) = Some ''dep''"
    by code_simp
  have agree: "\<forall>k' p' i. map_of (partitions sample_waiting) k' = Some p' \<longrightarrow> i \<in> set (waiting p') \<longrightarrow>
      coalesce_match moved_job (of_app ''A'') i \<longrightarrow> truthy (deploymentId (jdata i)) \<longrightarrow> deploymentId (jdata i) = deploymentId (jdata j)"
    unfolding j(2) using all by (blast dest: map_of_SomeD)
  have "truthy (deploymentId (jdata j))" unfolding j(2) by code_simp
  from coalesce_loses_moved_deployment [OF sample_waiting_reachable none home sample_waiting_part j(1,3) this agree] j(1,2)
  show ?thesis by blast
qed

end
