(* ===== verification/Queue_Waiting.thy ===== *)
theory Queue_Waiting
  imports Queue_Coalesce
begin

text \<open>
  The other operations on waiting jobs: \<open>keepOldestWaiting\<close>, \<open>addRestored\<close>, \<open>prioritize\<close>,
  \<open>holdIdleGroup\<close>, and the property that no job leaves the queue without the journal knowing.
\<close>

section \<open>Keeping the oldest duplicate\<close>

definition twin :: "internal_job \<Rightarrow> internal_job \<Rightarrow> bool" where
  "twin a b \<longleftrightarrow> sameJobProfile (jdata a) (jdata b) True"

definition survivors_after :: "(deployment_job \<Rightarrow> bool) \<Rightarrow> internal_job list \<Rightarrow> internal_job \<Rightarrow> internal_job list" where
  "survivors_after P S j = (if P (jdata j) \<and> \<not> (\<exists>k\<in>set S. twin k j) then S @ [j] else S)"

lemma keep_scan_Cons:
  "set (snd (keep_scan P S (j # js))) =
    (if P (jdata j) \<and> (\<exists>k\<in>set S. twin k j) then {j} else {}) \<union>
    set (snd (keep_scan P (survivors_after P S j) js))"
  by (auto simp: survivors_after_def twin_def split: prod.splits)

lemma keep_scan_Nil: "snd (keep_scan P S []) = []"
  by simp

declare keep_scan.simps [simp del]

lemma keep_scan_gone: "set (snd (keep_scan P S js)) \<subseteq> set js"
proof (induction js arbitrary: S)
  case (Cons j js)
  from Cons [of "survivors_after P S j"] show ?case by (auto simp: keep_scan_Cons)
qed (simp add: keep_scan_Nil)

lemma keep_scan_older:
  "distinct js \<Longrightarrow> i < length js \<Longrightarrow> js ! i \<in> set (snd (keep_scan P S js)) \<Longrightarrow>
   P (jdata (js ! i)) \<and> ((\<exists>s\<in>set S. twin s (js ! i)) \<or>
     (\<exists>k<i. js ! k \<notin> set (snd (keep_scan P S js)) \<and> P (jdata (js ! k)) \<and> twin (js ! k) (js ! i)))"
proof (induction js arbitrary: S i)
  case (Cons j js)
  let ?g = "snd (keep_scan P S (j # js))"
  define S' where "S' = survivors_after P S j"
  note S'_def = S'_def [unfolded survivors_after_def]
  have g: "set ?g = (if P (jdata j) \<and> (\<exists>k\<in>set S. twin k j) then {j} else {}) \<union> set (snd (keep_scan P S' js))"
    by (simp only: keep_scan_Cons S'_def survivors_after_def)
  have notin: "j \<notin> set (snd (keep_scan P S' js))"
    using Cons.prems(1) keep_scan_gone [of P S' js] by auto
  show ?case
  proof (cases i)
    case 0
    with Cons.prems(3) notin g show ?thesis by (auto split: if_splits)
  next
    case (Suc m)
    have m: "m < length js" "js ! m \<in> set (snd (keep_scan P S' js))"
      using Suc Cons.prems g by (auto split: if_splits)
    from Cons.IH [OF _ m] Cons.prems(1)
    have P: "P (jdata (js ! m))"
      and "(\<exists>s\<in>set S'. twin s (js ! m)) \<or> (\<exists>k<m. js ! k \<notin> set (snd (keep_scan P S' js)) \<and>
        P (jdata (js ! k)) \<and> twin (js ! k) (js ! m))"
      by auto
    then consider (old) s where "s \<in> set S" "twin s (js ! m)"
      | (self) "S' = S @ [j]" "P (jdata j)" "\<not> (\<exists>k\<in>set S. twin k j)" "twin j (js ! m)"
      | (later) k where "k < m" "js ! k \<notin> set (snd (keep_scan P S' js))" "P (jdata (js ! k))"
          "twin (js ! k) (js ! m)"
      by (auto simp: S'_def split: if_splits)
    then show ?thesis
    proof cases
      case old
      with P Suc show ?thesis by auto
    next
      case self
      with notin g have "(j # js) ! 0 \<notin> set ?g" by (auto split: if_splits)
      with self P Suc show ?thesis by (intro conjI disjI2 exI [of _ 0]) auto
    next
      case later
      with Cons.prems(1) m have "(j # js) ! Suc k \<notin> set ?g"
        by (auto simp: g)
      with later P Suc show ?thesis by (intro conjI disjI2 exI [of _ "Suc k"]) auto
    qed
  qed
qed simp

lemma keep_scan_survivors:
  "distinct js \<Longrightarrow> sorted_wrt (\<lambda>a b. \<not> twin a b) S \<Longrightarrow>
   sorted_wrt (\<lambda>a b. \<not> twin a b)
     (S @ filter (\<lambda>j. P (jdata j) \<and> j \<notin> set (snd (keep_scan P S js))) js)"
proof (induction js arbitrary: S)
  case (Cons j js)
  define S' where "S' = survivors_after P S j"
  note S'_def = S'_def [unfolded survivors_after_def]
  have g: "set (snd (keep_scan P S (j # js))) =
      (if P (jdata j) \<and> (\<exists>k\<in>set S. twin k j) then {j} else {}) \<union> set (snd (keep_scan P S' js))"
    by (simp only: keep_scan_Cons S'_def survivors_after_def)
  have notin: "j \<notin> set (snd (keep_scan P S' js))"
    using Cons.prems(1) keep_scan_gone [of P S' js] by auto
  have rest: "filter (\<lambda>x. P (jdata x) \<and> x \<notin> set (snd (keep_scan P S (j # js)))) js =
      filter (\<lambda>x. P (jdata x) \<and> x \<notin> set (snd (keep_scan P S' js))) js"
    using Cons.prems(1) by (intro filter_cong) (auto simp: g)
  have split: "S @ filter (\<lambda>x. P (jdata x) \<and> x \<notin> set (snd (keep_scan P S (j # js)))) (j # js) =
      S' @ filter (\<lambda>x. P (jdata x) \<and> x \<notin> set (snd (keep_scan P S' js))) js"
    using notin by (simp only: filter.simps rest) (auto simp: g S'_def)
  have "sorted_wrt (\<lambda>a b. \<not> twin a b) S'"
    using Cons.prems(2) by (auto simp: S'_def sorted_wrt_append)
  with Cons.IH [of S'] Cons.prems(1) show ?case unfolding split by simp
qed simp

lemma keepOldest_partitions:
  "map_of (partitions q) k = Some p \<Longrightarrow> map_of (partitions (fst (keepOldestWaiting P q))) k =
    Some (p\<lparr>waiting := without (snd (keep_scan P [] (waiting p))) (waiting p)\<rparr>)"
  by (simp add: keepOldestWaiting_def Let_def discard_def)

lemma without_filter:
  assumes "distinct (map jid js)" "set gone \<subseteq> set js"
  shows "without gone js = filter (\<lambda>j. j \<notin> set gone) js"
  unfolding without_def
proof (rule filter_cong [OF refl])
  fix j
  assume "j \<in> set js"
  then show "(jid j \<notin> jid ` set gone) = (j \<notin> set gone)"
    using inj_on_image_mem_iff [of jid "set js" j "set gone"] assms by (simp add: distinct_map)
qed

text \<open>
  \<open>keepOldestWaiting\<close> keeps exactly the oldest of each group of duplicates of a partition:
  the waiting list is a sublist in the same order, every job that went matched and has an
  earlier matching job with the same profile that stayed, and no two matching jobs that stayed
  have the same profile.
\<close>

lemma keepOldest_correct:
  assumes "queue_reachable q" and "map_of (partitions q) k = Some p"
  shows "\<exists>p'. map_of (partitions (fst (keepOldestWaiting P q))) k = Some p' \<and>
    waiting p' = filter (\<lambda>j. j \<in> set (waiting p')) (waiting p) \<and>
    (\<forall>i<length (waiting p). waiting p ! i \<notin> set (waiting p') \<longrightarrow> P (jdata (waiting p ! i)) \<and>
      (\<exists>n<i. waiting p ! n \<in> set (waiting p') \<and> P (jdata (waiting p ! n)) \<and>
        sameJobProfile (jdata (waiting p ! n)) (jdata (waiting p ! i)) True)) \<and>
    sorted_wrt (\<lambda>a b. \<not> sameJobProfile (jdata a) (jdata b) True) (filter (\<lambda>j. P (jdata j)) (waiting p'))"
proof (intro exI conjI)
  let ?w = "waiting p" and ?gone = "snd (keep_scan P [] (waiting p))"
  have d: "distinct (map jid ?w)" by (rule waiting_distinct [OF queue_reachable_inv [OF assms(1)] assms(2)])
  then have dw: "distinct ?w" by (simp add: distinct_map)
  let ?p' = "p\<lparr>waiting := filter (\<lambda>j. j \<notin> set ?gone) ?w\<rparr>"
  show "map_of (partitions (fst (keepOldestWaiting P q))) k = Some ?p'"
    using keepOldest_partitions [OF assms(2), of P] without_filter [OF d keep_scan_gone [of P "[]" ?w]] by simp
  show "waiting ?p' = filter (\<lambda>j. j \<in> set (waiting ?p')) ?w"
    by (auto intro: filter_cong)
  show "\<forall>i<length ?w. ?w ! i \<notin> set (waiting ?p') \<longrightarrow> P (jdata (?w ! i)) \<and>
      (\<exists>n<i. ?w ! n \<in> set (waiting ?p') \<and> P (jdata (?w ! n)) \<and>
        sameJobProfile (jdata (?w ! n)) (jdata (?w ! i)) True)"
  proof (intro allI impI)
    fix i
    assume i: "i < length ?w" "?w ! i \<notin> set (waiting ?p')"
    then have "?w ! i \<in> set ?gone" by simp
    from keep_scan_older [OF dw i(1) this] obtain n where
      "P (jdata (?w ! i))" "n < i" "?w ! n \<notin> set ?gone" "P (jdata (?w ! n))" "twin (?w ! n) (?w ! i)"
      by auto
    with i(1) show "P (jdata (?w ! i)) \<and> (\<exists>n<i. ?w ! n \<in> set (waiting ?p') \<and> P (jdata (?w ! n)) \<and>
        sameJobProfile (jdata (?w ! n)) (jdata (?w ! i)) True)"
      by (auto simp: twin_def)
  qed
  show "sorted_wrt (\<lambda>a b. \<not> sameJobProfile (jdata a) (jdata b) True) (filter (\<lambda>j. P (jdata j)) (waiting ?p'))"
    using keep_scan_survivors [OF dw, of "[]" P] by (simp add: twin_def conj_commute)
qed

section \<open>Restored jobs\<close>

text \<open>The restored jobs whose journal id is new, each once, in order.\<close>

fun fresh_restored :: "string set \<Rightarrow> restored_job list \<Rightarrow> restored_job list" where
  "fresh_restored known [] = []"
| "fresh_restored known (r # rs) =
     (if rj_journalId r \<in> known then fresh_restored known rs
      else r # fresh_restored (insert (rj_journalId r) known) rs)"

definition list_at :: "'k \<Rightarrow> ('k \<times> 'a list) list \<Rightarrow> 'a list" where
  "list_at k al = (case map_of al k of None \<Rightarrow> [] | Some xs \<Rightarrow> xs)"

lemma list_at_update: "list_at k (AList.update k' xs al) = (if k = k' then xs else list_at k al)"
  by (simp add: list_at_def)

lemma restore_collect_spec:
  "restore_collect rs known bp q = (bp', n, q') \<Longrightarrow> distinct (map fst bp) \<Longrightarrow>
   distinct (map fst bp') \<and> n = length (fresh_restored known rs) \<and> partitions q' = partitions q \<and>
   map journalId (list_at k bp') = map journalId (list_at k bp) @
     map rj_journalId (filter (\<lambda>r. getPartition (rj_data r) = k) (fresh_restored known rs))"
proof (induction rs known bp q arbitrary: bp' n q' rule: restore_collect.induct)
  case (2 r rs known bp q)
  show ?case
  proof (cases "rj_journalId r \<in> known")
    case True
    then show ?thesis using 2(1) [OF True, of bp' n q'] 2(3,4) by simp
  next
    case False
    obtain q1 job where c: "createJob (rj_data r) (rj_journalId r) (rj_timestamp r) q = (q1, job)" by force
    then have job: "partition_key job = getPartition (rj_data r)" "journalId job = rj_journalId r"
      "partitions q1 = partitions q"
      by (auto simp: createJob_def)
    let ?bp = "AList.update (partition_key job) (list_at (partition_key job) bp @ [job]) bp"
    obtain n' where r: "restore_collect rs (insert (rj_journalId r) known) ?bp q1 = (bp', n', q')" "n = Suc n'"
      using 2(3) False by (auto simp: c list_at_def Let_def split: prod.splits)
    have "distinct (map fst ?bp)" using 2(4) by (simp add: distinct_update)
    from 2(2) [OF False refl c [symmetric] refl, folded list_at_def, OF r(1) this]
    have "distinct (map fst bp') \<and> n' = length (fresh_restored (insert (rj_journalId r) known) rs) \<and>
        partitions q' = partitions q1 \<and> map journalId (list_at k bp') = map journalId (list_at k ?bp) @
        map rj_journalId (filter (\<lambda>r. getPartition (rj_data r) = k) (fresh_restored (insert (rj_journalId r) known) rs))"
      by (simp add: list_at_def)
    then show ?thesis using r(2) False job by (simp add: list_at_update)
  qed
qed simp

lemma part_of_set_part: "part_of k (set_part k' p q) = (if k = k' then p else part_of k q)"
  by (simp add: part_of_def)

lemma getPartitionState_part:
  "getPartitionState k q = (q', p) \<Longrightarrow> p = part_of k q \<and> (\<forall>k'. part_of k' q' = part_of k' q)"
  by (cases "map_of (partitions q) k") (auto simp: getPartitionState_def part_of_def)

lemma restore_place_spec:
  "distinct (map fst bp) \<Longrightarrow> waiting (part_of k (restore_place bp q)) = list_at k bp @ waiting (part_of k q)"
proof (induction bp arbitrary: q)
  case (Cons x bp)
  obtain key js where x: "x = (key, js)" by force
  obtain q1 p where s: "getPartitionState key q = (q1, p)" by force
  note g = getPartitionState_part [OF s]
  have "key \<notin> fst ` set bp" using Cons.prems x by simp
  then have "map_of bp key = None" by (simp add: map_of_eq_None_iff)
  then have "list_at key bp = []" by (simp add: list_at_def)
  with Cons.IH [of "set_part key (p\<lparr>waiting := js @ waiting p\<rparr>) q1"] Cons.prems g show ?case
    by (simp add: x s part_of_set_part) (simp add: list_at_def)
qed (simp add: list_at_def)

lemma part_of_schedule [simp]: "part_of k (schedule q) = part_of k q"
  using core_schedule [of q] by (simp add: core_def part_of_def)

lemma addRestored_waiting:
  "map journalId (waiting (part_of k (fst (addRestored rs q)))) =
     map rj_journalId (filter (\<lambda>r. getPartition (rj_data r) = k) (fresh_restored (set (knownJournalIds q)) rs)) @
     map journalId (waiting (part_of k q))"
  "snd (addRestored rs q) = length (fresh_restored (set (knownJournalIds q)) rs)"
proof -
  obtain bp n q1 where c: "restore_collect rs (set (knownJournalIds q)) [] q = (bp, n, q1)"
    by (metis prod_cases3)
  note r = restore_collect_spec [OF c, of k] 
  from r have p: "part_of k q1 = part_of k q" by (simp add: part_of_def)
  show "snd (addRestored rs q) = length (fresh_restored (set (knownJournalIds q)) rs)"
    using r by (simp add: addRestored_def c Let_def)
  show "map journalId (waiting (part_of k (fst (addRestored rs q)))) =
     map rj_journalId (filter (\<lambda>r. getPartition (rj_data r) = k) (fresh_restored (set (knownJournalIds q)) rs)) @
     map journalId (waiting (part_of k q))"
    using conjunct1 [OF r] conjunct2 [OF conjunct2 [OF conjunct2 [OF r]]] restore_place_spec [of bp k q1]
    by (simp add: addRestored_def c p Let_def list_at_def [of k "[]"])
qed

lemma known_all_jobs: "set (knownJournalIds q) = journalId ` set (all_jobs q)"
  by (simp add: knownJournalIds_def all_jobs_def image_UN image_Un case_prod_unfold)

lemma all_jobs_part:
  assumes "distinct (map fst (partitions q))"
  shows "j \<in> set (all_jobs q) \<longleftrightarrow> (\<exists>k. j \<in> set (waiting (part_of k q)) \<or> j \<in> set (active (part_of k q)))"
proof
  assume "j \<in> set (all_jobs q)"
  then obtain k p where "(k, p) \<in> set (partitions q)" "j \<in> set (waiting p) \<or> j \<in> set (active p)"
    by (auto simp: all_jobs_def)
  with assms show "\<exists>k. j \<in> set (waiting (part_of k q)) \<or> j \<in> set (active (part_of k q))"
    by (intro exI [of _ k]) (simp add: part_of_def)
next
  assume "\<exists>k. j \<in> set (waiting (part_of k q)) \<or> j \<in> set (active (part_of k q))"
  then obtain k where "j \<in> set (waiting (part_of k q)) \<or> j \<in> set (active (part_of k q))" ..
  then show "j \<in> set (all_jobs q)"
    by (cases "map_of (partitions q) k") (auto simp: part_of_def intro: in_all_jobs)
qed

lemma known_part:
  assumes "distinct (map fst (partitions q))"
  shows "x \<in> set (knownJournalIds q) \<longleftrightarrow>
    (\<exists>k. x \<in> journalId ` set (waiting (part_of k q)) \<or> x \<in> journalId ` set (active (part_of k q)))"
  unfolding known_all_jobs using all_jobs_part [OF assms] by blast

lemma fresh_restored_none: "rj_journalId ` set rs \<subseteq> known \<Longrightarrow> fresh_restored known rs = []"
  by (induction rs) auto

lemma fresh_restored_ids: "rj_journalId ` set (fresh_restored known rs) = rj_journalId ` set rs - known"
  by (induction known rs rule: fresh_restored.induct) auto

lemma restore_place_active: "active (part_of k (restore_place bp q)) = active (part_of k q)"
proof (induction bp arbitrary: q)
  case (Cons x bp)
  obtain key js q1 p where x: "x = (key, js)" "getPartitionState key q = (q1, p)" by (metis surj_pair)
  with Cons.IH getPartitionState_part [OF x(2)] show ?case by (simp add: part_of_set_part)
qed simp

lemma addRestored_active: "active (part_of k (fst (addRestored rs q))) = active (part_of k q)"
proof -
  obtain bp n q1 where c: "restore_collect rs (set (knownJournalIds q)) [] q = (bp, n, q1)"
    by (metis prod_cases3)
  from restore_collect_spec [OF c] have "part_of k q1 = part_of k q" by (simp add: part_of_def)
  then show ?thesis by (simp add: addRestored_def c restore_place_active Let_def)
qed

text \<open>
  \<open>addRestored\<close> puts every restored job whose journal id is not queued or running in front
  of its partition's waiting jobs, in the order given and each id once, and says how many;
  afterwards every restored id is queued or running, so a second restore of the same jobs adds
  none.
\<close>

lemma addRestored_correct:
  assumes "queue_reachable q"
  shows "(\<forall>k. map journalId (waiting (part_of k (fst (addRestored rs q)))) =
      map rj_journalId (filter (\<lambda>r. getPartition (rj_data r) = k) (fresh_restored (set (knownJournalIds q)) rs)) @
      map journalId (waiting (part_of k q))) \<and>
    snd (addRestored rs q) = length (fresh_restored (set (knownJournalIds q)) rs) \<and>
    snd (addRestored rs (fst (addRestored rs q))) = 0"
proof (intro conjI allI addRestored_waiting)
  note inv = queue_reachable_inv [OF assms]
  let ?q = "fst (addRestored rs q)"
  have "active (part_of k ?q) = active (part_of k q)" for k
    by (rule addRestored_active)
  moreover have "rj_journalId r \<in> set (knownJournalIds ?q)" if "r \<in> set rs" for r
  proof (cases "rj_journalId r \<in> set (knownJournalIds q)")
    case True
    then obtain k where "rj_journalId r \<in> journalId ` set (waiting (part_of k q)) \<or>
        rj_journalId r \<in> journalId ` set (active (part_of k q))"
      unfolding known_part [OF queue_invD(1) [OF inv]] by blast
    moreover have "journalId ` set (waiting (part_of k q)) \<subseteq> journalId ` set (waiting (part_of k ?q))"
      using arg_cong [where f = set, OF addRestored_waiting(1) [of k rs q]] by auto
    ultimately have "rj_journalId r \<in> journalId ` set (waiting (part_of k ?q)) \<or>
        rj_journalId r \<in> journalId ` set (active (part_of k ?q))"
      unfolding addRestored_active by blast
    then show ?thesis
      unfolding known_part [OF queue_invD(1) [OF inv_addRestored [OF inv]]] by blast
  next
    case False
    with that have "rj_journalId r \<in> rj_journalId ` set (fresh_restored (set (knownJournalIds q)) rs)"
      by (simp add: fresh_restored_ids)
    then obtain f where f: "f \<in> set (fresh_restored (set (knownJournalIds q)) rs)" "rj_journalId f = rj_journalId r"
      by auto
    have "rj_journalId r \<in> set (map journalId (waiting (part_of (getPartition (rj_data f)) ?q)))"
      unfolding addRestored_waiting(1) set_append set_map using f
      by (intro UnI1) (auto intro: rev_image_eqI)
    then show ?thesis
      unfolding known_part [OF queue_invD(1) [OF inv_addRestored [OF inv]]] set_map by blast
  qed
  ultimately show "snd (addRestored rs ?q) = 0"
    by (simp add: addRestored_waiting(2) fresh_restored_none image_subset_iff)
qed

section \<open>Priority on a waiting job\<close>

definition flag_waiting :: "nat \<Rightarrow> string option \<Rightarrow> internal_job list \<Rightarrow> internal_job list" where
  "flag_waiting i by_user js =
     (case js of [] \<Rightarrow> [] | j # rest \<Rightarrow>
        j # map (\<lambda>w. if jid w = i \<and> priority (jdata w) \<noteq> Some True
                     then w\<lparr>jdata := flag_data by_user (jdata w)\<rparr> else w) rest)"

lemma flag_waiting_absent: "\<forall>j\<in>set js. jid j \<noteq> i \<Longrightarrow> flag_waiting i by_user js = js"
  by (cases js) (auto simp: flag_waiting_def intro: map_idI)

lemma length_flag_waiting [simp]: "length (flag_waiting i u js) = length js"
  by (cases js) (simp_all add: flag_waiting_def)

lemma flag_waiting_at:
  assumes "distinct (map jid js)" "n < length js"
  shows "flag_waiting (jid (js ! n)) u js = (if n = 0 \<or> priority (jdata (js ! n)) = Some True then js
    else js[n := (js ! n)\<lparr>jdata := flag_data u (jdata (js ! n))\<rparr>])"
proof (rule nth_equalityI)
  show "length (flag_waiting (jid (js ! n)) u js) = length (if n = 0 \<or> priority (jdata (js ! n)) = Some True
    then js else js[n := (js ! n)\<lparr>jdata := flag_data u (jdata (js ! n))\<rparr>])"
    by simp
  fix m
  assume "m < length (flag_waiting (jid (js ! n)) u js)"
  then have m: "m < length js" by simp
  with assms have "jid (js ! m) = jid (js ! n) \<longleftrightarrow> m = n"
    by (metis length_map nth_eq_iff_index_eq nth_map)
  with m assms(2) show "flag_waiting (jid (js ! n)) u js ! m = (if n = 0 \<or> priority (jdata (js ! n)) = Some True
    then js else js[n := (js ! n)\<lparr>jdata := flag_data u (jdata (js ! n))\<rparr>]) ! m"
    by (cases js; cases m; cases n) (auto simp: flag_waiting_def nth_list_update)
qed

lemma find_waiting_None:
  "find_waiting i ps = None \<longleftrightarrow> (\<forall>(k, p)\<in>set ps. \<forall>j\<in>set (waiting p). jid j \<noteq> i)"
  by (induction ps) (auto split: option.splits simp: find_index_None dest!: find_index_SomeD)

lemma prioritize_partitions:
  assumes "queue_inv q" and "map_of (partitions q) k = Some p"
  shows "map_of (partitions (fst (prioritize i u q))) k = Some (p\<lparr>waiting := flag_waiting i u (waiting p)\<rparr>) \<and>
    (snd (prioritize i u q) = None \<longleftrightarrow> (\<forall>(k, p)\<in>set (partitions q). \<forall>j\<in>set (waiting p). jid j \<noteq> i))"
proof -
  note inv = assms(1)
  show ?thesis
  proof (cases "find_waiting i (partitions q)")
    case None
    then have none: "\<forall>(k, p)\<in>set (partitions q). \<forall>j\<in>set (waiting p). jid j \<noteq> i"
      by (simp add: find_waiting_None)
    with assms(2) have "\<forall>j\<in>set (waiting p). jid j \<noteq> i" by (auto dest!: map_of_SomeD)
    with None none assms(2) show ?thesis by (simp add: prioritize_def flag_waiting_absent)
  next
    case (Some r)
    then obtain k2 p2 n where f: "find_waiting i (partitions q) = Some (k2, p2, n)" by (cases r) auto
    note F = find_waiting_SomeD [OF f queue_invD(1) [OF inv]]
    have some: "snd (prioritize i u q) \<noteq> None" by (simp add: prioritize_def f Let_def)
    from f have "\<not> (\<forall>(k, p)\<in>set (partitions q). \<forall>j\<in>set (waiting p). jid j \<noteq> i)"
      by (simp flip: find_waiting_None)
    moreover have "map_of (partitions (fst (prioritize i u q))) k = Some (p\<lparr>waiting := flag_waiting i u (waiting p)\<rparr>)"
    proof (cases "k = k2")
      case True
      with F assms(2) have p2: "p2 = p" by simp
      from F flag_waiting_at [OF waiting_distinct [OF inv assms(2)], of n u] p2 True assms(2) show ?thesis
        by (auto simp: prioritize_def f Let_def)
    next
      case False
      have "\<forall>j\<in>set (waiting p). jid j \<noteq> i"
      proof
        fix j
        assume j: "j \<in> set (waiting p)"
        from F have w: "waiting p2 ! n \<in> set (waiting p2)" "jid (waiting p2 ! n) = i" by auto
        from F job_unique(2) [OF inv assms(2), of k2 p2 j "waiting p2 ! n"] j w False
        show "jid j \<noteq> i" by auto
      qed
      with False F assms(2) show ?thesis
        by (auto simp: prioritize_def f Let_def flag_waiting_absent)
    qed
    ultimately show ?thesis using some by blast
  qed
qed

text \<open>
  \<open>prioritize\<close> answers nothing exactly when the id is not waiting. No job moves: in every
  partition the waiting list is the same but for the flag on that one job, which is set unless
  the job is first in its partition or already has it; running jobs and locks are untouched.
\<close>

lemma prioritize_keeps_places:
  assumes "queue_reachable q" and "map_of (partitions q) k = Some p"
  shows "map_of (partitions (fst (prioritize i u q))) k = Some (p\<lparr>waiting := flag_waiting i u (waiting p)\<rparr>) \<and>
    (snd (prioritize i u q) = None \<longleftrightarrow> (\<forall>(k, p)\<in>set (partitions q). \<forall>j\<in>set (waiting p). jid j \<noteq> i))"
  by (rule prioritize_partitions [OF queue_reachable_inv [OF assms(1)] assms(2)])

section \<open>Holding a group from outside\<close>

lemma reach_trans: "reach init step s \<Longrightarrow> reach (\<lambda>x. x = s) step t \<Longrightarrow> reach init step t"
  by (rotate_tac, induction rule: reach.induct) (auto intro: reach.intros)

text \<open>
  A group is held only while no job of it runs in any partition, and until the hold is
  released no job of the group runs in the partition it was taken on, whatever the queue does.
\<close>

lemma hold_excludes_jobs:
  assumes "queue_reachable q" and "holdIdleGroup key g P q = (q1, Held t)"
    and "reach (\<lambda>s. s = q1) queue_step q2" and "(t, key, g) \<in> set (holds q2)"
    and "map_of (partitions q2) key = Some p"
  shows "(\<forall>j\<in>set (active p). group j \<noteq> g) \<and>
    (\<forall>k r. map_of (partitions q) k = Some r \<longrightarrow> (\<forall>j\<in>set (active r). group j \<noteq> g))"
proof (intro conjI allI impI)
  have "queue_step q q1" using s_hold [of q key g P] assms(2) by simp
  with assms(1,3) have "queue_reachable q2" by (blast intro: reach_trans reach_step)
  from part_invD(3) [OF queue_invD(2) [OF queue_reachable_inv [OF this] assms(5)]]
  have "set (map group (active p)) \<inter> set (map (snd \<circ> snd) (filter (\<lambda>(t, k', g). k' = key) (holds q2))) = {}"
    unfolding owners_def distinct_append set_append by blast
  moreover have "g \<in> set (map (snd \<circ> snd) (filter (\<lambda>(t, k', g). k' = key) (holds q2)))"
    using assms(4) by (auto intro!: image_eqI [of _ _ "(t, key, g)"])
  ultimately show "\<forall>j\<in>set (active p). group j \<noteq> g" by (auto simp del: set_filter)
  show "\<forall>j\<in>set (active r). group j \<noteq> g" if "map_of (partitions q) k = Some r" for k r
  proof -
    from that assms(2) have "g \<notin> activeGroups r"
      by (auto simp: holdIdleGroup_def split: if_splits dest!: map_of_SomeD)
    with part_invD(4) [OF queue_invD(2) [OF queue_reachable_inv [OF assms(1)] that]] show ?thesis
      by (auto simp: owners_def)
  qed
qed

definition sample_held :: queue where
  "sample_held = fst (holdIdleGroup ''other'' ''application:A'' (\<lambda>d. False) sample_added)"

text \<open>
  A hold does not stop the jobs of its group in other partitions: with the group of an
  application held on one server, a waiting deploy of that application on another server starts.
\<close>

lemma hold_other_partition_starts:
  "''application:A'' \<in> heldGroups (drain_resume (\<lambda>i. 10) ''s'' 2 sample_held) \<and>
   ''application:A'' \<in> set (map group (active (part_of ''s'' (drain_resume (\<lambda>i. 10) ''s'' 2 sample_held))))"
  by code_simp

end
