(* ===== verification/Queue_Journal.thy ===== *)
theory Queue_Journal
  imports Queue_Waiting
begin

text \<open>
  No deployment disappears: a job that is waiting or running before a step of the queue is
  waiting or running after it, or the step told the journal that it is settled. The journal row
  of a job therefore exists as long as the job does, which is what the replay after a restart
  relies on.
\<close>

definition jobs_at :: "string \<Rightarrow> queue \<Rightarrow> string set" where
  "jobs_at k q = journalId ` set (waiting (part_of k q)) \<union> journalId ` set (active (part_of k q))"

definition settled_in :: "queue \<Rightarrow> queue \<Rightarrow> string set" where
  "settled_in q q' = {x. \<exists>ids. J_Settled ids \<in> set (news q q') \<and> x \<in> set ids}"

definition safe :: "queue \<Rightarrow> queue \<Rightarrow> bool" where
  "safe q q' \<longleftrightarrow> (\<forall>k. jobs_at k q \<subseteq> jobs_at k q' \<union> settled_in q q')"

lemma safe_superset: "(\<And>k. jobs_at k q \<subseteq> jobs_at k q') \<Longrightarrow> safe q q'"
  by (auto simp: safe_def)

lemma safe_same_part: "(\<And>k. part_of k q' = part_of k q) \<Longrightarrow> safe q q'"
  by (rule safe_superset) (simp add: jobs_at_def)

lemma part_of_core: "core q' = core q \<Longrightarrow> part_of k q' = part_of k q"
  by (simp add: core_def part_of_def)

lemma safe_core: "core q' = core q \<Longrightarrow> safe q q'"
  by (rule safe_same_part, rule part_of_core)

lemma part_of_frame [simp]:
  "part_of k (emit es q) = part_of k q" "part_of k (settle js q) = part_of k q"
  "part_of k (drain_begin k' q) = part_of k q" "part_of k (wakeIdleWaiters q) = part_of k q"
  "part_of k (discard js q) = part_of k q" "part_of k (notify_updated i d q) = part_of k q"
  "part_of k (drain_abort k' q) = part_of k q" "part_of k (reportDropped ds q) = part_of k q"
  by (rule part_of_core, simp)+

lemma part_of_late [simp]:
  "part_of k (q\<lparr>late := lt\<rparr>) = part_of k q" "part_of k (q\<lparr>keptLocks := ks\<rparr>) = part_of k q"
  "part_of k (q\<lparr>holds := hs\<rparr>) = part_of k q" "part_of k (q\<lparr>heldGroups := hg\<rparr>) = part_of k q"
  "part_of k (q\<lparr>nextHold := n\<rparr>) = part_of k q" "part_of k (q\<lparr>seq := n\<rparr>) = part_of k q"
  by (simp_all add: part_of_def)

section \<open>Steps that only add or keep jobs\<close>

lemma safe_add: "safe q (fst (add uuid now d q))"
proof -
  obtain q1 p where s: "getPartitionState (getPartition d) q = (q1, p)" by force
  note g = getPartitionState_part [OF s]
  have c: "createJob d' uuid now q1 = (q1\<lparr>seq := Suc (seq q1)\<rparr>, snd (createJob d' uuid now q1))" for d'
    by (simp add: createJob_def)
  have "\<exists>job. part_of k (fst (add uuid now d q)) =
      (if k = getPartition d then (part_of k q)\<lparr>waiting := waiting (part_of k q) @ [job]\<rparr> else part_of k q)" for k
    using g unfolding add_def Let_def s prod.case
    by (subst c) (auto simp: part_of_set_part)
  then show ?thesis
    by (intro safe_superset) (metis (no_types, lifting) jobs_at_def Un_mono image_mono order_refl
        partition.select_convs(3) partition.surjective partition.update_convs(1)
        partition.select_convs(1) set_append sup.cobounded1)
qed

lemma safe_addRestored: "safe q (fst (addRestored rs q))"
proof (rule safe_superset)
  fix k
  have "set (map journalId (waiting (part_of k q))) \<subseteq> set (map journalId (waiting (part_of k (fst (addRestored rs q)))))"
    unfolding addRestored_waiting(1) by (simp only: set_append Un_upper2)
  then show "jobs_at k q \<subseteq> jobs_at k (fst (addRestored rs q))"
    unfolding jobs_at_def addRestored_active by auto
qed

lemma part_of_map:
  assumes "\<And>p. map_of (partitions q) k = Some p \<Longrightarrow> map_of (partitions q') k = Some (f p)"
    and "map_of (partitions q) k = None \<Longrightarrow> map_of (partitions q') k = None"
    and "f empty_partition = empty_partition"
  shows "part_of k q' = f (part_of k q)"
  using assms by (cases "map_of (partitions q) k") (auto simp: part_of_def)

lemma journal_flag_waiting: "map journalId (flag_waiting i u js) = map journalId js"
  by (cases js) (auto simp: flag_waiting_def)

lemma jobs_at_Some: "map_of (partitions q) k = Some p \<Longrightarrow>
    jobs_at k q = journalId ` set (waiting p) \<union> journalId ` set (active p)"
  by (simp add: jobs_at_def part_of_def)

lemma jobs_at_None: "map_of (partitions q) k = None \<Longrightarrow> jobs_at k q = {}"
  by (simp add: jobs_at_def part_of_def)

lemma safeI:
  assumes "\<And>k p. map_of (partitions q) k = Some p \<Longrightarrow>
    \<exists>p'. map_of (partitions q') k = Some p' \<and>
      journalId ` set (waiting p) \<union> journalId ` set (active p) \<subseteq>
      journalId ` set (waiting p') \<union> journalId ` set (active p') \<union> settled_in q q'"
  shows "safe q q'"
  unfolding safe_def
proof
  fix k
  show "jobs_at k q \<subseteq> jobs_at k q' \<union> settled_in q q'"
  proof (cases "map_of (partitions q) k")
    case (Some p)
    with assms [OF Some] show ?thesis by (auto simp: jobs_at_Some)
  qed (simp add: jobs_at_None)
qed

lemma safe_prioritize: "queue_inv q \<Longrightarrow> safe q (fst (prioritize i u q))"
  using prioritize_partitions [of q] arg_cong [where f = set, OF journal_flag_waiting]
  by (intro safeI) fastforce

lemma unlock_jobs: "jobs_at k (unlock_group k' g q) = jobs_at k q"
  by (cases "map_of (partitions q) k'") (auto simp: unlock_group_def jobs_at_def part_of_def)

lemma safe_unlock:
  assumes "\<And>k. part_of k q1 = part_of k q" and "\<And>k. part_of k q' = part_of k (unlock_group k' g q1)"
  shows "safe q q'"
  using assms unlock_jobs [of _ k' g q1] by (intro safe_superset) (simp add: jobs_at_def)

lemma safe_finish_late: "safe q (finish_late j q)"
proof (cases "groupLockKept j")
  case True
  then show ?thesis
    by (intro safe_unlock [of "q\<lparr>late := filter (\<lambda>k. jid k \<noteq> jid j) (late q), keptLocks := keptLocks q - {jid j}\<rparr>"
          q _ "partition_key j" "group j"])
      (simp_all add: finish_late_def Let_def part_of_def)
next
  case False
  then show ?thesis by (intro safe_same_part) (simp add: finish_late_def Let_def)
qed

lemma safe_dropKept: "safe q (fst (dropKeptGroupLock i q))"
proof (cases "kept_job i q")
  case None
  then show ?thesis by (intro safe_same_part) (simp add: dropKeptGroupLock_def)
next
  case (Some j)
  then show ?thesis
    by (intro safe_unlock [of "q\<lparr>late := map (\<lambda>k. if jid k = i then k\<lparr>groupLockKept := False\<rparr> else k) (late q),
          keptLocks := keptLocks q - {i}\<rparr>" q _ "partition_key j" "group j"])
      (simp_all add: dropKeptGroupLock_def Let_def part_of_def)
qed

lemma safe_unhold: "safe q (release_hold t q)"
proof (cases "map_of (holds q) t")
  case None
  then show ?thesis by (intro safe_same_part) (simp add: release_hold_def)
next
  case (Some x)
  then show ?thesis
    by (intro safe_unlock [of "q\<lparr>holds := filter (\<lambda>(t', x). t' \<noteq> t) (holds q),
          heldGroups := heldGroups q - {snd x}\<rparr>" q _ "fst x" "snd x"])
      (simp_all add: release_hold_def part_of_def split: prod.splits)
qed

lemma safe_hold: "safe q (fst (holdIdleGroup key g P q))"
proof (cases "g \<in> heldGroups q \<or> (\<exists>(k, p)\<in>set (partitions q). g \<in> activeGroups p) \<or>
    (\<exists>(k, p)\<in>set (partitions q). \<exists>j\<in>set (waiting p). group j = g \<and> P (jdata j))")
  case True
  then show ?thesis by (intro safe_same_part) (auto simp: holdIdleGroup_def)
next
  case False
  obtain q1 p where s: "getPartitionState key q = (q1, p)" by force
  note g = getPartitionState_part [OF s]
  have "part_of k (fst (holdIdleGroup key g P q)) =
      (if k = key then (part_of key q)\<lparr>activeGroups := insert g (activeGroups (part_of key q))\<rparr> else part_of k q)" for k
    using False s g by (auto simp: holdIdleGroup_def Let_def part_of_set_part) 
  then show ?thesis by (intro safe_superset) (simp add: jobs_at_def)
qed

section \<open>Starting jobs\<close>

lemma start_jobs_journal:
  "journalId ` set (waiting p) =
     journalId ` set (snd (start_jobs clock c p)) \<union> journalId ` set (waiting (fst (start_jobs clock c p)))"
proof (rule start_jobs_induct [where P = "\<lambda>p p' js.
    journalId ` set (waiting p) = journalId ` set js \<union> journalId ` set (waiting p')"])
  fix p p' :: partition and i jump and js :: "internal_job list"
  assume pick: "pickNext p = Some (i, jump)"
    and IH: "journalId ` set (waiting (start_at clock p i jump)) = journalId ` set js \<union> journalId ` set (waiting p')"
  from set_remove_at_nth [OF pickNext_length [OF pick]]
  show "journalId ` set (waiting p) =
      journalId ` set (started_job clock p i jump # js) \<union> journalId ` set (waiting p')"
    using IH by simp
qed simp

lemma safe_drain: "safe q (drain_resume clock k c q)"
proof (cases "map_of (partitions q) k")
  case None
  then show ?thesis by (intro safe_same_part) (simp add: drain_resume_None)
next
  case (Some p)
  show ?thesis
  proof (rule safeI)
    fix h r
    assume r: "map_of (partitions q) h = Some r"
    show "\<exists>p'. map_of (partitions (drain_resume clock k c q)) h = Some p' \<and>
        journalId ` set (waiting r) \<union> journalId ` set (active r) \<subseteq>
        journalId ` set (waiting p') \<union> journalId ` set (active p') \<union> settled_in q (drain_resume clock k c q)"
    proof (cases "h = k")
      case True
      with r Some have "r = p" by simp
      have "journalId ` set (waiting p) \<subseteq> journalId ` set (waiting (fst (drained clock c q k))) \<union>
          journalId ` set (snd (drained clock c q k))"
        using drained_fields(1,2) [OF Some, of clock c]
          start_jobs_journal [of "p\<lparr>concurrency := Some (max 1 c)\<rparr>" clock "max 1 c"] by auto
      with True \<open>r = p\<close> drain_resume_part(1) [OF Some, of clock c] drained_fields(3) [OF Some, of clock c]
      show ?thesis by auto
    next
      case False
      obtain p' js where "drain_part clock (max 1 c) (running q \<and> \<not> paused q) p = (p', js)" by force
      from drain_resume_Some [OF Some this] False r show ?thesis by auto
    qed
  qed
qed

section \<open>Steps that take jobs out\<close>

lemma settled_discard:
  assumes "hasJournal q" "out q' = out q" "hasJournal q' = hasJournal q"
  shows "journalId ` set js \<subseteq> settled_in q (discard js q')"
  using assms by (auto simp: settled_in_def news_def discard_def)

lemma safe_removeWaitingJob:
  assumes "hasJournal q" "queue_inv q"
  shows "safe q (fst (removeWaitingJob i q))"
proof (cases "find_waiting i (partitions q)")
  case None
  then show ?thesis by (intro safe_same_part) (simp add: removeWaitingJob_def)
next
  case (Some r)
  then obtain k p n where f: "find_waiting i (partitions q) = Some (k, p, n)" by (cases r) auto
  note F = find_waiting_SomeD [OF f queue_invD(1) [OF assms(2)]]
  let ?gone = "filter (\<lambda>j. jid j = i) (waiting p)"
  let ?q = "set_part k (p\<lparr>waiting := filter (\<lambda>j. jid j \<noteq> i) (waiting p)\<rparr>) q"
  have "journalId ` set ?gone \<subseteq> settled_in q (discard ?gone ?q)"
    by (rule settled_discard) (simp_all add: assms)
  moreover have "fst (removeWaitingJob i q) = discard ?gone ?q"
    by (simp add: removeWaitingJob_def f)
  moreover have "part_of k q = p" using F by (simp add: part_of_def)
  ultimately show ?thesis
    by (auto simp: safe_def jobs_at_def part_of_set_part)
qed

lemma safe_map_waiting:
  assumes "\<And>k p. map_of (partitions q) k = Some p \<Longrightarrow>
      journalId ` set (waiting p) \<subseteq> journalId ` set (f (waiting p)) \<union> settled_in q q'"
    and "\<And>k p. map_of (partitions q) k = Some p \<Longrightarrow>
      map_of (partitions q') k = Some (p\<lparr>waiting := f (waiting p)\<rparr>)"
  shows "safe q q'"
proof (rule safeI)
  fix k p
  assume "map_of (partitions q) k = Some p"
  from assms(1,2) [OF this] show "\<exists>p'. map_of (partitions q') k = Some p' \<and>
      journalId ` set (waiting p) \<union> journalId ` set (active p) \<subseteq>
      journalId ` set (waiting p') \<union> journalId ` set (active p') \<union> settled_in q q'"
    by (intro exI conjI) auto
qed

lemma safe_discard_map:
  assumes "hasJournal q"
    and "\<And>k p. (k, p) \<in> set (partitions q) \<Longrightarrow> set (waiting p) \<subseteq> set (f (waiting p)) \<union> set gone"
  shows "safe q (discard gone (map_waiting f q))"
proof (rule safe_map_waiting [where f = f])
  fix k p
  assume p: "map_of (partitions q) k = Some p"
  have "journalId ` set gone \<subseteq> settled_in q (discard gone (map_waiting f q))"
    by (rule settled_discard) (simp_all add: assms)
  with assms(2) [OF map_of_SomeD [OF p]]
  show "journalId ` set (waiting p) \<subseteq> journalId ` set (f (waiting p)) \<union> settled_in q (discard gone (map_waiting f q))"
    by blast
  from p show "map_of (partitions (discard gone (map_waiting f q))) k = Some (p\<lparr>waiting := f (waiting p)\<rparr>)"
    by (simp add: discard_def)
qed

lemma safe_removeWaiting: "hasJournal q \<Longrightarrow> safe q (fst (removeWaiting P q))"
  unfolding removeWaiting_def Let_def fst_conv by (rule safe_discard_map) auto

lemma safe_clearWaiting: "hasJournal q \<Longrightarrow> safe q (fst (clearWaiting q))"
  unfolding clearWaiting_def Let_def fst_conv by (rule safe_discard_map) auto

lemma safe_keepOldest:
  assumes "hasJournal q" "queue_inv q"
  shows "safe q (fst (keepOldestWaiting P q))"
  unfolding keepOldestWaiting_def Let_def fst_conv
proof (rule safe_discard_map [OF assms(1)])
  fix k p
  assume p: "(k, p) \<in> set (partitions q)"
  with queue_invD(1) [OF assms(2)] have "map_of (partitions q) k = Some p" by simp
  from without_filter [OF waiting_distinct [OF assms(2) this] keep_scan_gone]
  have "set (waiting p) \<subseteq> set (without (snd (keep_scan P [] (waiting p))) (waiting p)) \<union>
      set (snd (keep_scan P [] (waiting p)))"
    by auto
  moreover have "set (snd (keep_scan P [] (waiting p))) \<subseteq>
      set (concat (map snd (map (\<lambda>(k, p). keep_scan P [] (waiting p)) (partitions q))))"
    using p by force
  ultimately show "set (waiting p) \<subseteq> set (without (snd (keep_scan P [] (waiting p))) (waiting p)) \<union>
      set (concat (map snd (map (\<lambda>(k, p). keep_scan P [] (waiting p)) (partitions q))))"
    by blast
qed

lemma journal_set_payload: "map journalId (set_payload i d js) = map journalId js"
  by (simp add: set_payload_def)

lemma coalesce_settles:
  fixes d :: deployment_job and P :: "deployment_job \<Rightarrow> bool"
  assumes "hasJournal q" "queue_inv q"
  shows "journalId ` set (coalesce_dropped (coalesce_match d P) (getPartition d) q) \<subseteq>
    settled_in q (fst (coalesceWaiting d P q))"
  using assms(1) unfolding coalesceWaiting_def Let_def coalesce_parts_home [OF queue_invD(1) [OF assms(2)]]
  by (auto simp: settled_in_def news_def split: option.splits)

lemma safe_coalesce:
  fixes d :: deployment_job and P :: "deployment_job \<Rightarrow> bool"
  assumes "hasJournal q" "queue_inv q"
  shows "safe q (fst (coalesceWaiting d P q))"
proof (rule safeI)
  fix k p
  assume p: "map_of (partitions q) k = Some p"
  define t where "t = coalesce_target (coalesce_match d P) (getPartition d) q"
  define w where "w = filter (\<lambda>j. \<not> coalesce_match d P j \<or> t = Some j) (waiting p)"
  have "journalId ` set (waiting p) \<subseteq> journalId ` set w \<union> settled_in q (fst (coalesceWaiting d P q))"
  proof -
    have "journalId j \<in> settled_in q (fst (coalesceWaiting d P q))" if "j \<in> set (waiting p)" "j \<notin> set w" for j
    proof -
      have "jid j \<in> jid ` set (coalesce_dropped (coalesce_match d P) (getPartition d) q)"
        using coalesce_dropped_iff [OF assms(2) p that(1)] that by (simp add: w_def t_def)
      then obtain i where i: "i \<in> set (coalesce_dropped (coalesce_match d P) (getPartition d) q)" "jid i = jid j"
        by auto
      with late_unique [OF all_jobs_distinct [OF assms(2)] in_all_jobs [OF p disjI1 [OF that(1)]]
          dropped_in_all_jobs [OF i(1)]] have "i = j" by simp
      with i(1) coalesce_settles [OF assms, of d P] show ?thesis by blast
    qed
    then show ?thesis by blast
  qed
  moreover have "set (map journalId (case t of None \<Rightarrow> w | Some j \<Rightarrow> set_payload (jid j) (coalesce_payload d (coalesce_match d P) q) w)) =
      journalId ` set w"
    by (cases t) (simp_all only: option.case journal_set_payload set_map)
  ultimately show "\<exists>p'. map_of (partitions (fst (coalesceWaiting d P q))) k = Some p' \<and>
      journalId ` set (waiting p) \<union> journalId ` set (active p) \<subseteq>
      journalId ` set (waiting p') \<union> journalId ` set (active p') \<union> settled_in q (fst (coalesceWaiting d P q))"
    using coalesceWaiting_partitions(1) [OF assms(2) p, of d P, folded t_def, folded w_def]
    by (cases t) auto
qed

section \<open>The end of a job\<close>

lemma settled_settle:
  "hasJournal q1 \<Longrightarrow> out q1 = out q \<Longrightarrow> journalId j \<in> settled_in q (drain_begin k (wakeIdleWaiters (settle [j] q1)))"
  using wake_out [of "settle [j] q1"] by (auto simp: settled_in_def news_def)

lemma safe_leave_active:
  assumes "queue_inv q" "map_of (partitions q) k = Some p" "j \<in> set (active p)"
    and ex: "\<exists>p'. map_of (partitions q') k = Some p' \<and> waiting p' = waiting p \<and>
      active p' = filter (\<lambda>x. jid x \<noteq> jid j) (active p)"
    and "\<And>h. h \<noteq> k \<Longrightarrow> map_of (partitions q') h = map_of (partitions q) h"
    and "journalId j \<in> settled_in q q'"
  shows "safe q q'"
proof (rule safeI)
  fix h r
  assume r: "map_of (partitions q) h = Some r"
  from ex obtain p' where p': "map_of (partitions q') k = Some p'" "waiting p' = waiting p"
    "active p' = filter (\<lambda>x. jid x \<noteq> jid j) (active p)" by blast
  show "\<exists>p'. map_of (partitions q') h = Some p' \<and>
      journalId ` set (waiting r) \<union> journalId ` set (active r) \<subseteq>
      journalId ` set (waiting p') \<union> journalId ` set (active p') \<union> settled_in q q'"
  proof (cases "h = k")
    case True
    have "set (active p) \<subseteq> insert j (set (active p'))"
      using late_unique [OF active_distinct [OF assms(1,2)] assms(3)] by (auto simp: p'(3))
    with True r p' assms(2,6) show ?thesis by auto
  next
    case False
    with r assms(5) show ?thesis by auto
  qed
qed

lemma safe_finish_active:
  assumes "hasJournal q" "queue_inv q" "map_of (partitions q) k = Some p" "j \<in> set (active p)"
  shows "safe q (finish_active j r q)"
proof -
  have jk: "partition_key j = k" using job_place(2) [OF assms(2-4)] ..
  have "journalId j \<in> settled_in q (finish_active j r q)"
    unfolding finish_active_def Let_def by (rule settled_settle) (simp_all add: assms jk)
  with assms wake_out show ?thesis
    by (intro safe_leave_active [OF assms(2-4)]) (simp_all add: finish_active_def Let_def jk)
qed

lemma safe_finish:
  assumes "hasJournal q" "queue_inv q"
  shows "safe q (finish i r q)"
proof (cases "find (\<lambda>j. jid j = i) (late q)")
  case None
  show ?thesis
  proof (cases "find_active i (partitions q)")
    case (Some x)
    then obtain k p j where f: "find_active i (partitions q) = Some (k, p, j)" by (cases x) auto
    from find_active_SomeD [OF f] queue_invD(1) [OF assms(2)]
    show ?thesis using None f safe_finish_active [OF assms, of k p j r] by (simp add: finish_def)
  qed (use None in \<open>simp add: finish_def safe_same_part\<close>)
qed (simp add: finish_def safe_finish_late)

lemma safe_release:
  assumes "hasJournal q" "queue_inv q"
  shows "safe q (fst (releaseActive now i keep q))"
proof (cases "find_active i (partitions q)")
  case None
  then show ?thesis by (simp add: releaseActive_def safe_same_part)
next
  case (Some x)
  then obtain k p j where f: "find_active i (partitions q) = Some (k, p, j)" by (cases x) auto
  from find_active_SomeD [OF f] queue_invD(1) [OF assms(2)]
  have p: "map_of (partitions q) k = Some p" "j \<in> set (active p)" "i = jid j" by auto
  have "journalId (released_job now keep j) \<in> settled_in q (fst (releaseActive now i keep q))"
    unfolding releaseActive_def f option.case prod.case Let_def fst_conv
    by (rule settled_settle) (simp_all add: assms)
  with wake_out show ?thesis
    by (intro safe_leave_active [OF assms(2) p(1,2)]) (simp_all add: releaseActive_def f Let_def p(3) f [unfolded p(3)])
qed

lemmas safe_ops = safe_add safe_addRestored safe_prioritize safe_removeWaitingJob safe_removeWaiting
  safe_clearWaiting safe_keepOldest safe_coalesce safe_finish safe_release safe_dropKept safe_hold
  safe_unhold safe_drain

lemma safe_step:
  assumes "queue_step q q'" "queue_inv q" "hasJournal q"
  shows "safe q q'"
  using assms by cases (simp_all add: safe_ops safe_core)

text \<open>
  C11. No job disappears: in every reachable state of a queue with a journal, each step leaves
  every waiting or running job in its partition, waiting or running, or tells the journal that
  the job is settled.
\<close>

theorem no_job_disappears:
  assumes "queue_reachable q" and "hasJournal q" and "queue_step q q'"
    and "j \<in> set (waiting (part_of k q)) \<or> j \<in> set (active (part_of k q))"
  shows "(\<exists>j'. (j' \<in> set (waiting (part_of k q')) \<or> j' \<in> set (active (part_of k q'))) \<and> journalId j' = journalId j) \<or>
    (\<exists>ids. J_Settled ids \<in> set (news q q') \<and> journalId j \<in> set ids)"
proof -
  have "journalId j \<in> jobs_at k q" using assms(4) by (auto simp: jobs_at_def)
  with safe_step [OF assms(3) queue_reachable_inv [OF assms(1)] assms(2)]
  have "journalId j \<in> jobs_at k q' \<union> settled_in q q'" by (auto simp: safe_def)
  then show ?thesis by (auto simp: jobs_at_def settled_in_def)
qed

theorem no_job_disappears_witness:
  "\<exists>ids. J_Settled ids \<in> set (news sample_waiting (fst (removeWaitingJob 2 sample_waiting))) \<and> ''b'' \<in> set ids"
proof -
  let ?j = "waiting (part_of ''s'' sample_waiting) ! 1"
  have "1 < length (waiting (part_of ''s'' sample_waiting))" "journalId ?j = ''b''" "hasJournal sample_waiting"
    and w: "map journalId (waiting (part_of ''s'' (fst (removeWaitingJob 2 sample_waiting)))) = [''a'', ''c'']"
      "active (part_of ''s'' (fst (removeWaitingJob 2 sample_waiting))) = []"
    by code_simp+
  with no_job_disappears [OF sample_waiting_reachable _ s_remove, of ?j "''s''" 2]
  show ?thesis using arg_cong [where f = set, OF w(1)] by (auto simp: image_iff)
qed

end
