(* ===== verification/Connection.thy ===== *)
theory Connection
  imports Prelude
begin

text \<open>
  The connection state machine of "Build on GitHub Actions":
  \<open>packages/server/src/services/gha-connect/state-machine.ts\<close>. \<open>reduceConnection\<close> is the
  source's reducer; a connection's history is the list of its events, newest last, and the
  properties are about every state a history can reach from \<open>not_connected\<close>. Dates are
  milliseconds since the epoch.
\<close>

section \<open>The reducer\<close>

datatype connection_state =
    Not_Connected | Proposed | Detected | Waiting_Release | Connected | Stale | Blocked | Disconnected

record state_view =
  state :: connection_state
  detail :: "string option"

datatype connection_event =
    Ev_Proposed
  | Ev_Proposal_Closed
  | Ev_Workflow_Detected
  | Ev_Connect
  | Ev_Release_Deployed
  | Ev_Release_Refused string bool
  | Ev_Stale string
  | Ev_Fresh bool
  | Ev_Token_Revoked
  | Ev_Token_Restored bool
  | Ev_Unblock bool

definition view :: "connection_state \<Rightarrow> string option \<Rightarrow> state_view" where
  "view s d = \<lparr>state = s, detail = d\<rparr>"

lemma view_simps [simp]: "state (view s d) = s" "detail (view s d) = d"
  by (simp_all add: view_def)

fun reduceConnection :: "state_view \<Rightarrow> connection_event \<Rightarrow> state_view" where
  "reduceConnection c Ev_Proposed =
     (if state c = Not_Connected then view Proposed None else c)"
| "reduceConnection c Ev_Proposal_Closed =
     (if state c = Proposed then view Not_Connected None else c)"
| "reduceConnection c Ev_Workflow_Detected =
     (if state c = Not_Connected \<or> state c = Proposed then view Detected None else c)"
| "reduceConnection c Ev_Connect =
     (if state c = Not_Connected \<or> state c = Proposed \<or> state c = Detected
      then view Waiting_Release None else c)"
| "reduceConnection c Ev_Release_Deployed =
     (if state c = Disconnected \<or> state c = Not_Connected \<or> state c = Proposed \<or> state c = Detected
      then c else view Connected None)"
| "reduceConnection c (Ev_Release_Refused message block) =
     (if \<not> block then c
      else if state c = Disconnected \<or> state c = Not_Connected \<or> state c = Proposed \<or> state c = Detected
      then c else view Blocked (Some message))"
| "reduceConnection c (Ev_Stale why) =
     (if state c = Waiting_Release \<or> state c = Connected \<or> state c = Stale
      then view Stale (Some why) else c)"
| "reduceConnection c (Ev_Fresh hasRelease) =
     (if state c = Stale then view (if hasRelease then Connected else Waiting_Release) None else c)"
| "reduceConnection c Ev_Token_Revoked =
     (if state c = Not_Connected then c else view Disconnected None)"
| "reduceConnection c (Ev_Token_Restored hasRelease) =
     (if state c = Disconnected then view (if hasRelease then Connected else Waiting_Release) None else c)"
| "reduceConnection c (Ev_Unblock hasRelease) =
     (if state c = Blocked then view (if hasRelease then Connected else Waiting_Release) None else c)"

section \<open>The text of a state\<close>

record describe_context =
  expectedSha :: "string option"
  deployedSha :: "string option"
  pullRequest :: "int option"
  lastReleaseAt :: "int option"
  lastReleaseSha :: "string option"
  ctx_now :: int

text \<open>\<open>sha.slice(0, 7)\<close>; an absent or empty sha gives the empty string.\<close>

definition short :: "string option \<Rightarrow> string" where
  "short sha = (case sha of None \<Rightarrow> '''' | Some s \<Rightarrow> take 7 s)"

definition ago :: "int \<Rightarrow> int \<Rightarrow> string" where
  "ago from now =
     (let minutes = max 0 (round_div (now - from) 60000) in
      if minutes < 1 then ''just now''
      else if minutes < 60
        then show_int minutes @ '' minute'' @ (if minutes = 1 then '''' else ''s'') @ '' ago''
      else let hours = round_div minutes 60 in
        if hours < 48 then show_int hours @ '' hour'' @ (if hours = 1 then '''' else ''s'') @ '' ago''
        else show_int (round_div hours 24) @ '' days ago'')"

definition stale_suffix :: "describe_context \<Rightarrow> string" where
  "stale_suffix x =
     (case lastReleaseAt x of
        Some t \<Rightarrow>
          if truthy (lastReleaseSha x)
          then '' Last release '' @ short (lastReleaseSha x) @ '', '' @ ago t (ctx_now x) @ ''.''
          else ''''
      | None \<Rightarrow> '''')"

definition describeState :: "state_view \<Rightarrow> describe_context \<Rightarrow> string option" where
  "describeState c x =
     (case state c of
        Not_Connected \<Rightarrow> None
      | Proposed \<Rightarrow>
          Some (case pullRequest x of
              Some n \<Rightarrow> if n \<noteq> 0 then ''Waiting for you to merge pull request #'' @ show_int n @ ''.''
                else ''Waiting for you to merge the pull request.''
            | None \<Rightarrow> ''Waiting for you to merge the pull request.'')
      | Detected \<Rightarrow> Some ''Workflow found. Waiting for a release.''
      | Waiting_Release \<Rightarrow>
          Some (if truthy (expectedSha x)
            then ''Waiting for GitHub Actions to publish '' @ short (expectedSha x) @ ''. Git autodeploy is off.''
            else ''Waiting for GitHub Actions to publish a release. Git autodeploy is off.'')
      | Connected \<Rightarrow> Some ''Deployed from GitHub Actions.''
      | Stale \<Rightarrow>
          Some ((case detail c of Some d \<Rightarrow> d
             | None \<Rightarrow> ''GitHub Actions has not published the latest commit.'') @ stale_suffix x)
      | Blocked \<Rightarrow> Some (case detail c of Some d \<Rightarrow> d | None \<Rightarrow> ''A release was refused.'')
      | Disconnected \<Rightarrow> Some ''GitHub access was lost. Reconnect.'')"

section \<open>Histories\<close>

text \<open>A connection with the events it has seen; it starts not connected.\<close>

definition conn_init :: "state_view \<times> connection_event list \<Rightarrow> bool" where
  "conn_init s \<longleftrightarrow> s = (view Not_Connected None, [])"

inductive conn_step :: "state_view \<times> connection_event list \<Rightarrow> state_view \<times> connection_event list \<Rightarrow> bool" where
  conn_event: "conn_step (c, h) (reduceConnection c e, h @ [e])"

inductive_cases conn_stepE: "conn_step s t"

abbreviation conn_reachable :: "state_view \<times> connection_event list \<Rightarrow> bool" where
  "conn_reachable \<equiv> reach conn_init conn_step"

fun release_known :: "connection_event \<Rightarrow> bool" where
  "release_known Ev_Release_Deployed = True"
| "release_known (Ev_Fresh r) = r"
| "release_known (Ev_Token_Restored r) = r"
| "release_known (Ev_Unblock r) = r"
| "release_known _ = False"

definition conn_inv :: "state_view \<times> connection_event list \<Rightarrow> bool" where
  "conn_inv = (\<lambda>(c, h).
     (detail c \<noteq> None \<longleftrightarrow> state c = Stale \<or> state c = Blocked) \<and>
     (state c = Connected \<longrightarrow> (\<exists>e\<in>set h. release_known e)) \<and>
     (state c \<in> {Waiting_Release, Connected, Stale, Blocked} \<longrightarrow>
        Ev_Connect \<in> set h \<or> (\<exists>r. Ev_Token_Restored r \<in> set h)))"

lemma conn_inv_step: "conn_inv (c, h) \<Longrightarrow> conn_inv (reduceConnection c e, h @ [e])"
  by (cases e; cases "state c") (auto simp: conn_inv_def)

interpretation ic: inductive_invariant conn_init conn_step conn_inv
proof
  show "conn_inv s" if "conn_init s" for s
    using that by (simp add: conn_init_def conn_inv_def)
  show "conn_inv t" if "conn_inv s" "conn_step s t" for s t
    using that by (elim conn_stepE) (simp add: conn_inv_step)
qed

text \<open>
  No history shows a connection as connected before some event said that a release exists,
  and none makes it live without the user's Connect or a restored token; a reason is stored
  exactly in the states that show one (stale and blocked), so it cannot outlive its cause.
\<close>

lemma connection_states_justified:
  assumes "conn_reachable (c, h)"
  shows "(state c = Connected \<longrightarrow> (\<exists>e\<in>set h. release_known e)) \<and>
    (state c \<in> {Waiting_Release, Connected, Stale, Blocked} \<longrightarrow>
       Ev_Connect \<in> set h \<or> (\<exists>r. Ev_Token_Restored r \<in> set h)) \<and>
    (detail c \<noteq> None \<longleftrightarrow> state c = Stale \<or> state c = Blocked)"
  using ic.reach_inv [OF assms] by (simp add: conn_inv_def)

lemma conn_reach_fold: "conn_reachable (c, h) \<Longrightarrow> conn_reachable (fold (\<lambda>e c. reduceConnection c e) es c, h @ es)"
proof (induction es arbitrary: c h)
  case (Cons e es)
  from Cons.IH [OF reach_step [OF Cons.prems conn_event [of c h e]]] show ?case by simp
qed simp

text \<open>
  A lost token is sticky: once it is revoked for a connection that exists, no event but a
  restored token changes the state, whatever releases, refusals or stale reports arrive.
\<close>

lemma disconnected_until_restored:
  assumes "state c \<noteq> Not_Connected" and "\<forall>e\<in>set es. \<forall>r. e \<noteq> Ev_Token_Restored r"
  shows "fold (\<lambda>e c. reduceConnection c e) es (reduceConnection c Ev_Token_Revoked) = view Disconnected None"
proof -
  have "fold (\<lambda>e c. reduceConnection c e) es (view Disconnected None) = view Disconnected None"
    using assms(2)
  proof (induction es)
    case (Cons e es)
    then have "reduceConnection (view Disconnected None) e = view Disconnected None"
      by (cases e) auto
    with Cons show ?case by simp
  qed simp
  with assms(1) show ?thesis by simp
qed

end
