(* ===== verification/Text.thy ===== *)
theory Text
  imports Prelude "HOL-Library.Sublist" "HOL-Library.Char_ord" "HOL-Library.List_Lexorder"
begin

text \<open>
  The string operations of JavaScript that the sources use: \<open>toLowerCase\<close>, \<open>trim\<close>, \<open>split\<close>,
  \<open>lastIndexOf\<close>, \<open>includes\<close>, \<open>startsWith\<close> and the character classes of the regular
  expressions. A string is a list of characters with codes below 256; the properties do not
  depend on characters outside that range. \<open>Sublist.prefix\<close>, \<open>suffix\<close> and \<open>sublist\<close> are
  \<open>startsWith\<close>, \<open>endsWith\<close> and \<open>includes\<close>. JSON values are the bodies of requests and payloads.
\<close>

section \<open>Characters\<close>

definition code :: "char \<Rightarrow> nat" where
  "code c = of_char c"

definition lower_char :: "char \<Rightarrow> char" where
  "lower_char c =
     (if 65 \<le> code c \<and> code c \<le> 90 \<or> 192 \<le> code c \<and> code c \<le> 222 \<and> code c \<noteq> 215
      then char_of (code c + 32) else c)"

definition toLowerCase :: "string \<Rightarrow> string" where
  "toLowerCase s = map lower_char s"

definition is_space :: "char \<Rightarrow> bool" where
  "is_space c \<longleftrightarrow> 9 \<le> code c \<and> code c \<le> 13 \<or> code c = 32 \<or> code c = 160"

definition is_digit :: "char \<Rightarrow> bool" where
  "is_digit c \<longleftrightarrow> 48 \<le> code c \<and> code c \<le> 57"

definition is_alnum :: "char \<Rightarrow> bool" where
  "is_alnum c \<longleftrightarrow> is_digit c \<or> 65 \<le> code c \<and> code c \<le> 90 \<or> 97 \<le> code c \<and> code c \<le> 122"

definition is_lower_hex :: "char \<Rightarrow> bool" where
  "is_lower_hex c \<longleftrightarrow> is_digit c \<or> 97 \<le> code c \<and> code c \<le> 102"

section \<open>Trimming and splitting\<close>

definition trim :: "string \<Rightarrow> string" where
  "trim s = rev (dropWhile is_space (rev (dropWhile is_space s)))"

text \<open>\<open>s.split(c)\<close> for one character; never empty.\<close>

fun split_on :: "char \<Rightarrow> string \<Rightarrow> string list" where
  "split_on c [] = [[]]"
| "split_on c (x # xs) =
     (if x = c then [] # split_on c xs
      else case split_on c xs of [] \<Rightarrow> [[x]] | p # ps \<Rightarrow> (x # p) # ps)"

definition before_first :: "char \<Rightarrow> string \<Rightarrow> string" where
  "before_first c s = takeWhile (\<lambda>x. x \<noteq> c) s"

text \<open>\<open>s.split(/\s+/)\<close> of a string that neither starts nor ends with white space.\<close>

fun words_from :: "string \<Rightarrow> string \<Rightarrow> string list" where
  "words_from acc [] = [rev acc]"
| "words_from acc (x # xs) =
     (if \<not> is_space x then words_from (x # acc) xs
      else if acc = [] then words_from [] xs
      else rev acc # words_from [] xs)"

definition split_spaces :: "string \<Rightarrow> string list" where
  "split_spaces s = words_from [] s"

text \<open>\<open>lastIndexOf\<close>, with \<open>-1\<close> when the character does not occur.\<close>

definition lastIndexOf :: "char \<Rightarrow> string \<Rightarrow> int" where
  "lastIndexOf c s =
     (case find_index (\<lambda>x. x = c) (rev s) of None \<Rightarrow> - 1 | Some i \<Rightarrow> int (length s) - 1 - int i)"

definition trimTrailingSlashes :: "string \<Rightarrow> string" where
  "trimTrailingSlashes s = rev (dropWhile (\<lambda>c. c = CHR ''/'') (rev s))"

section \<open>Facts\<close>

lemma split_on_not_Nil [simp]: "split_on c s \<noteq> []"
  by (induction s) (auto split: list.splits)

lemma hd_split_on: "hd (split_on c s) = before_first c s"
  by (induction s) (auto simp: before_first_def split: list.splits)

lemma split_on_none: "c \<notin> set s \<Longrightarrow> split_on c s = [s]"
  by (induction s) auto

lemma split_on_append: "split_on c (a @ c # b) = split_on c a @ split_on c b"
  by (induction a) (auto split: list.splits)

lemma set_before_first: "set (before_first c s) \<subseteq> set s"
  by (auto simp: before_first_def dest: set_takeWhileD)

lemma c_notin_before_first: "c \<notin> set (before_first c s)"
  by (auto simp: before_first_def dest: set_takeWhileD)

lemma set_trim: "set (trim s) \<subseteq> set s"
  unfolding trim_def by (metis set_dropWhileD set_rev subsetI)

lemma trim_id: "s \<noteq> [] \<Longrightarrow> \<not> is_space (hd s) \<Longrightarrow> \<not> is_space (last s) \<Longrightarrow> trim s = s"
proof -
  assume "s \<noteq> []" "\<not> is_space (hd s)" "\<not> is_space (last s)"
  then have "dropWhile is_space s = s" "dropWhile is_space (rev s) = rev s"
    by (simp_all add: dropWhile_eq_self_iff hd_rev)
  then show "trim s = s" by (simp add: trim_def)
qed

lemma words_from_append:
  "\<forall>x\<in>set w. \<not> is_space x \<Longrightarrow> words_from acc (w @ s) = words_from (rev w @ acc) s"
  by (induction w arbitrary: acc) auto

lemma words_from_space: "is_space x \<Longrightarrow> acc \<noteq> [] \<Longrightarrow> words_from acc (x # s) = rev acc # words_from [] s"
  by simp

lemma lastIndexOf_lt: "lastIndexOf c s < int (length s)"
  by (auto simp: lastIndexOf_def split: option.splits)

section \<open>JSON values\<close>

datatype json = J_Null | J_Bool bool | J_Num int | J_Str string | J_Arr "json list" | J_Obj "(string \<times> json) list"

text \<open>A property of an object that is not an array; absent is \<open>None\<close> (undefined).\<close>

fun obj_get :: "json \<Rightarrow> string \<Rightarrow> json option" where
  "obj_get (J_Obj fields) k = map_of fields k"
| "obj_get _ k = None"

fun is_obj :: "json \<Rightarrow> bool" where
  "is_obj (J_Obj fields) = True"
| "is_obj _ = False"

end
