(* ===== verification/Required_Checks.thy ===== *)
theory Required_Checks
  imports Prelude
begin

text \<open>
  The pass/fail rule of required GitHub checks and the loop that waits for them:
  \<open>packages/server/src/services/build-policy/required-checks.ts\<close>. The answers of GitHub, the
  clock and the cancellation check are arguments, one per poll. The locale \<open>check_judge\<close> is what
  the deploy gate relies on when it applies the same rule.
\<close>

section \<open>The rule\<close>

record check_run =
  cr_name :: string
  cr_status :: string
  cr_conclusion :: "string option"

datatype checks_state = Satisfied | Pending "string list" | Checks_Failed "string list"

definition passing_conclusions :: "string list" where
  "passing_conclusions = [''success'', ''neutral'', ''skipped'']"

definition latest_by_name :: "check_run list \<Rightarrow> (string \<times> check_run) list" where
  "latest_by_name runs = fold (\<lambda>r m. AList.update (cr_name r) r m) runs []"

definition check_waits :: "check_run option \<Rightarrow> bool" where
  "check_waits r = (case r of None \<Rightarrow> True | Some c \<Rightarrow> cr_status c \<noteq> ''completed'')"

definition conclusion_passes :: "string option \<Rightarrow> bool" where
  "conclusion_passes c = (case c of None \<Rightarrow> False | Some s \<Rightarrow> s \<noteq> [] \<and> s \<in> set passing_conclusions)"

definition check_fails :: "check_run option \<Rightarrow> bool" where
  "check_fails r = (case r of None \<Rightarrow> False
     | Some c \<Rightarrow> cr_status c = ''completed'' \<and> \<not> conclusion_passes (cr_conclusion c))"

text \<open>The loop over the required names: the failed ones and the ones still waited for.\<close>

fun scan_checks :: "(string \<times> check_run) list \<Rightarrow> string list \<Rightarrow> string list \<times> string list" where
  "scan_checks latest [] = ([], [])"
| "scan_checks latest (name # names) =
     (let (failed, waitingOn) = scan_checks latest names; r = map_of latest name in
      if check_waits r then (failed, name # waitingOn)
      else if check_fails r then (name # failed, waitingOn)
      else (failed, waitingOn))"

definition evaluateRequiredChecks :: "string list \<Rightarrow> check_run list \<Rightarrow> checks_state" where
  "evaluateRequiredChecks requiredChecks runs =
     (if requiredChecks = [] then Satisfied
      else let (failed, waitingOn) = scan_checks (latest_by_name runs) requiredChecks in
        if failed \<noteq> [] then Checks_Failed failed
        else if waitingOn \<noteq> [] then Pending waitingOn
        else Satisfied)"

section \<open>Waiting for the checks\<close>

datatype bp_code =
    NO_BUILD_SERVER | NO_REGISTRY | REGISTRY_NOT_ALLOWED | INVALID_IMAGE | INVALID_DIGEST
  | DIGEST_NOT_PUBLISHED | REQUIRED_CHECKS_FAILED | REQUIRED_CHECKS_TIMEOUT
  | REQUIRED_CHECKS_UNAVAILABLE | REQUIRED_CHECKS_UNSUPPORTED

text \<open>
  What ends a wait with an error: something a callback threw, or a \<open>BuildPolicyError\<close> with its
  code, its message and the check names of its details.
\<close>

datatype wait_error = Thrown string | Policy_Error bp_code string "string list"

record wait_input =
  w_required :: "string list"
  w_owner :: string
  w_repo :: string
  w_sha :: string
  w_timeoutMs :: int

text \<open>
  The world during a wait. \<open>e_cancel n\<close> is what the n-th \<open>assertNotCancelled\<close> throws, if it
  throws (never, when the callback is absent); \<open>e_runs n\<close> what the n-th \<open>listCheckRuns\<close> answers
  or throws; \<open>e_start\<close>, \<open>e_polled n\<close> and \<open>e_slept n\<close> the clock at the start, after the n-th
  poll and after the n-th sleep.
\<close>

record wait_env =
  e_cancel :: "nat \<Rightarrow> string option"
  e_runs :: "nat \<Rightarrow> string + check_run list"
  e_start :: int
  e_polled :: "nat \<Rightarrow> int"
  e_slept :: "nat \<Rightarrow> int"

definition repo_at :: "wait_input \<Rightarrow> string" where
  "repo_at w = w_owner w @ ''/'' @ w_repo w @ ''@'' @ w_sha w"

definition failed_error :: "wait_input \<Rightarrow> string list \<Rightarrow> wait_error" where
  "failed_error w failed = Policy_Error REQUIRED_CHECKS_FAILED
     (''Required GitHub checks failed on '' @ repo_at w @ '': '' @ join '', '' failed @ ''. '' @
      ''The deploy was stopped before the deploy step; the image, if any, stays in the registry.'') failed"

definition timeout_error :: "wait_input \<Rightarrow> string list \<Rightarrow> wait_error" where
  "timeout_error w names = Policy_Error REQUIRED_CHECKS_TIMEOUT
     (''Timed out after '' @ show_int (round_div (w_timeoutMs w) 1000) @
      ''s waiting for required GitHub checks on '' @ repo_at w @ '': '' @ join '', '' names @ '' never concluded.'')
     names"

definition wait_timed_out :: "wait_input \<Rightarrow> wait_env \<Rightarrow> string list \<Rightarrow> nat \<Rightarrow> wait_error + unit" where
  "wait_timed_out w e names n =
     (case e_cancel e n of Some err \<Rightarrow> Inl (Thrown err) | None \<Rightarrow> Inl (timeout_error w names))"

text \<open>
  The endless loop, with fuel: \<open>None\<close> means that the fuel ran out. It is entered with the number
  of the poll.
\<close>

fun wait_loop :: "nat \<Rightarrow> wait_input \<Rightarrow> wait_env \<Rightarrow> nat \<Rightarrow> (wait_error + unit) option" where
  "wait_loop 0 w e n = None"
| "wait_loop (Suc fuel) w e n =
     (case e_cancel e n of
        Some err \<Rightarrow> Some (Inl (Thrown err))
      | None \<Rightarrow>
          (case e_runs e n of
             Inl err \<Rightarrow> Some (Inl (Thrown err))
           | Inr runs \<Rightarrow>
               (case evaluateRequiredChecks (w_required w) runs of
                  Satisfied \<Rightarrow> Some (Inr ())
                | Checks_Failed failed \<Rightarrow> Some (Inl (failed_error w failed))
                | Pending names \<Rightarrow>
                    if w_timeoutMs w \<le> e_polled e n - e_start e then Some (wait_timed_out w e names (Suc n))
                    else if w_timeoutMs w \<le> e_slept e n - e_start e then Some (wait_timed_out w e names (Suc n))
                    else wait_loop fuel w e (Suc n))))"

definition waitForRequiredChecks :: "nat \<Rightarrow> wait_input \<Rightarrow> wait_env \<Rightarrow> (wait_error + unit) option" where
  "waitForRequiredChecks fuel w e = (if w_required w = [] then Some (Inr ()) else wait_loop fuel w e 0)"

section \<open>What the rule means\<close>

text \<open>The run that counts for a name: the last one in the list.\<close>

definition last_run :: "check_run list \<Rightarrow> string \<Rightarrow> check_run option" where
  "last_run runs name = find (\<lambda>r. cr_name r = name) (rev runs)"

lemma fold_latest: "map_of (fold (\<lambda>r m. AList.update (cr_name r) r m) runs m) name =
    (case last_run runs name of Some r \<Rightarrow> Some r | None \<Rightarrow> map_of m name)"
proof (induction runs rule: rev_induct)
  case (snoc r runs)
  then show ?case by (simp add: last_run_def)
qed (simp add: last_run_def)

lemma map_of_latest [simp]: "map_of (latest_by_name runs) name = last_run runs name"
  by (simp add: latest_by_name_def fold_latest split: option.splits)

lemma scan_checks_eq: "scan_checks (latest_by_name runs) names =
    (filter (\<lambda>n. check_fails (last_run runs n)) names, filter (\<lambda>n. check_waits (last_run runs n)) names)"
  by (induction names) (auto simp: check_waits_def check_fails_def split: option.splits)

lemma evaluate_eq: "evaluateRequiredChecks names runs =
    (if filter (\<lambda>n. check_fails (last_run runs n)) names \<noteq> []
     then Checks_Failed (filter (\<lambda>n. check_fails (last_run runs n)) names)
     else if filter (\<lambda>n. check_waits (last_run runs n)) names \<noteq> []
     then Pending (filter (\<lambda>n. check_waits (last_run runs n)) names)
     else Satisfied)"
  unfolding evaluateRequiredChecks_def scan_checks_eq Let_def prod.case by auto

definition check_passed :: "check_run list \<Rightarrow> string \<Rightarrow> bool" where
  "check_passed runs name = (case last_run runs name of None \<Rightarrow> False
     | Some r \<Rightarrow> cr_status r = ''completed'' \<and> cr_conclusion r \<in> {Some ''success'', Some ''neutral'', Some ''skipped''})"

lemma check_passed_iff:
  "check_passed runs n \<longleftrightarrow> \<not> check_waits (last_run runs n) \<and> \<not> check_fails (last_run runs n)"
  by (auto simp: check_passed_def check_waits_def check_fails_def conclusion_passes_def
      passing_conclusions_def split: option.splits)

text \<open>
  The required checks are satisfied exactly when the newest run of every required name
  completed with success, neutral or skipped; one completed run that did not pass fails the gate
  however many others are still running, and exactly those names are reported; otherwise exactly
  the names with no completed run are waited for.
\<close>

lemma evaluateRequiredChecks_correct:
  "(evaluateRequiredChecks names runs = Satisfied \<longleftrightarrow> (\<forall>n\<in>set names. check_passed runs n)) \<and>
   (\<forall>fs. evaluateRequiredChecks names runs = Checks_Failed fs \<longrightarrow>
      fs \<noteq> [] \<and> fs = filter (\<lambda>n. check_fails (last_run runs n)) names) \<and>
   (\<forall>ws. evaluateRequiredChecks names runs = Pending ws \<longrightarrow>
      ws \<noteq> [] \<and> ws = filter (\<lambda>n. check_waits (last_run runs n)) names \<and>
      (\<forall>n\<in>set names. check_waits (last_run runs n) \<or> check_passed runs n))"
  unfolding evaluate_eq check_passed_iff by (auto simp: filter_empty_conv split: if_splits)

section \<open>The wait ends\<close>

definition poll_goes_on :: "wait_input \<Rightarrow> wait_env \<Rightarrow> nat \<Rightarrow> bool" where
  "poll_goes_on w e n \<longleftrightarrow> e_cancel e n = None \<and>
     (\<exists>runs names. e_runs e n = Inr runs \<and> evaluateRequiredChecks (w_required w) runs = Pending names) \<and>
     \<not> w_timeoutMs w \<le> e_polled e n - e_start e \<and> \<not> w_timeoutMs w \<le> e_slept e n - e_start e"

lemma wait_loop_goes_on: "poll_goes_on w e n \<Longrightarrow> wait_loop (Suc fuel) w e n = wait_loop fuel w e (Suc n)"
  by (auto simp: poll_goes_on_def)

lemma wait_loop_stops: "\<not> poll_goes_on w e n \<Longrightarrow> wait_loop (Suc fuel) w e n \<noteq> None"
  by (auto simp: poll_goes_on_def split: option.splits sum.splits checks_state.splits)

lemma wait_loop_ends:
  "\<not> poll_goes_on w e (n + k) \<Longrightarrow> k < fuel \<Longrightarrow> wait_loop fuel w e n \<noteq> None"
proof (induction k arbitrary: n fuel)
  case 0
  then show ?case using wait_loop_stops [of w e n] by (cases fuel) auto
next
  case (Suc k)
  then obtain f where f: "fuel = Suc f" "k < f" by (cases fuel) auto
  show ?case
  proof (cases "poll_goes_on w e n")
    case True
    with Suc.IH [of "Suc n" f] Suc.prems f show ?thesis by (simp only: f wait_loop_goes_on) simp
  next
    case False
    with wait_loop_stops f show ?thesis by blast
  qed
qed

lemma wait_loop_ok:
  "wait_loop fuel w e n = Some (Inr ()) \<Longrightarrow>
   \<exists>m\<ge>n. e_cancel e m = None \<and> (\<exists>runs. e_runs e m = Inr runs \<and>
      evaluateRequiredChecks (w_required w) runs = Satisfied) \<and> (\<forall>i. n \<le> i \<and> i < m \<longrightarrow> poll_goes_on w e i)"
proof (induction fuel arbitrary: n)
  case (Suc fuel)
  show ?case
  proof (cases "poll_goes_on w e n")
    case True
    with Suc.prems have "wait_loop fuel w e (Suc n) = Some (Inr ())" by (simp only: wait_loop_goes_on)
    from Suc.IH [OF this] obtain m where m: "Suc n \<le> m" "e_cancel e m = None"
      "\<exists>runs. e_runs e m = Inr runs \<and> evaluateRequiredChecks (w_required w) runs = Satisfied"
      "\<forall>i. Suc n \<le> i \<and> i < m \<longrightarrow> poll_goes_on w e i" by blast
    from m(4) True have "\<forall>i. n \<le> i \<and> i < m \<longrightarrow> poll_goes_on w e i" by (metis Suc_leI le_neq_implies_less)
    with m show ?thesis by (intro exI [of _ m]) auto
  next
    case False
    with Suc.prems show ?thesis
      by (intro exI [of _ n])
        (auto simp: wait_timed_out_def poll_goes_on_def split: option.splits sum.splits checks_state.splits if_splits)
  qed
qed simp

text \<open>
  C34. A wait ends: once the clock shows the timeout after the n-th poll, \<open>n + 1\<close> polls are
  enough for \<open>waitForRequiredChecks\<close> to return or throw; and it returns only when no check is
  required or when a poll that nobody cancelled saw every required check passed.
\<close>

theorem waitForRequiredChecks_ends:
  assumes "w_timeoutMs w \<le> e_polled e n - e_start e" and "n < fuel"
  shows "\<exists>r. waitForRequiredChecks fuel w e = Some r \<and>
    (r = Inr () \<longrightarrow> w_required w = [] \<or> (\<exists>m runs. e_cancel e m = None \<and> e_runs e m = Inr runs \<and>
       (\<forall>c\<in>set (w_required w). check_passed runs c)))"
proof -
  have "\<not> poll_goes_on w e (0 + n)" using assms(1) by (simp add: poll_goes_on_def)
  from wait_loop_ends [OF this assms(2)] obtain r where r: "wait_loop fuel w e 0 = Some r" by auto
  have sat: "evaluateRequiredChecks (w_required w) runs = Satisfied \<Longrightarrow> \<forall>c\<in>set (w_required w). check_passed runs c"
    for runs
    unfolding evaluate_eq check_passed_iff by (auto simp: filter_empty_conv split: if_splits)
  show ?thesis
  proof (cases "w_required w = []")
    case False
    have "r = Inr () \<Longrightarrow> \<exists>m runs. e_cancel e m = None \<and> e_runs e m = Inr runs \<and>
        (\<forall>c\<in>set (w_required w). check_passed runs c)"
      using wait_loop_ok [of fuel w e 0] r sat by blast
    with False r show ?thesis by (simp add: waitForRequiredChecks_def)
  qed (simp add: waitForRequiredChecks_def)
qed

definition sample_wait :: wait_input where
  "sample_wait = \<lparr>w_required = [''ci''], w_owner = ''o'', w_repo = ''r'', w_sha = ''s'', w_timeoutMs = 1000\<rparr>"

definition sample_env :: wait_env where
  "sample_env = \<lparr>e_cancel = (\<lambda>n. None), e_runs = (\<lambda>n. Inr []), e_start = 0,
     e_polled = (\<lambda>n. 600 * int n), e_slept = (\<lambda>n. 600 * int n + 500)\<rparr>"

theorem waitForRequiredChecks_ends_witness: "\<exists>r. waitForRequiredChecks 3 sample_wait sample_env = Some r"
proof -
  have "w_timeoutMs sample_wait \<le> e_polled sample_env 2 - e_start sample_env"
    by (simp add: sample_wait_def sample_env_def)
  from waitForRequiredChecks_ends [OF this, of 3] show ?thesis by auto
qed

section \<open>The interface the deploy gate uses\<close>

text \<open>
  The gate judges single results and lists of names with one result each; it relies on this law
  of the rule and on no detail of its implementation.
\<close>

locale check_judge =
  fixes judge :: "string list \<Rightarrow> check_run list \<Rightarrow> checks_state"
    and fails :: "check_run option \<Rightarrow> bool"
    and waits :: "check_run option \<Rightarrow> bool"
  assumes judge_def: "judge names runs =
    (if filter (\<lambda>n. fails (last_run runs n)) names \<noteq> []
     then Checks_Failed (filter (\<lambda>n. fails (last_run runs n)) names)
     else if filter (\<lambda>n. waits (last_run runs n)) names \<noteq> []
     then Pending (filter (\<lambda>n. waits (last_run runs n)) names)
     else Satisfied)"
begin

lemma judge_single: "judge [n] [r] = (if cr_name r = n
    then if fails (Some r) then Checks_Failed [n] else if waits (Some r) then Pending [n] else Satisfied
    else if fails None then Checks_Failed [n] else if waits None then Pending [n] else Satisfied)"
  by (simp add: judge_def last_run_def)

lemma judge_failed: "judge names runs = Checks_Failed fs \<longleftrightarrow>
    fs = filter (\<lambda>n. fails (last_run runs n)) names \<and> fs \<noteq> []"
  by (auto simp: judge_def)

lemma judge_pending: "judge names runs = Pending ws \<longleftrightarrow>
    (\<forall>n\<in>set names. \<not> fails (last_run runs n)) \<and> ws = filter (\<lambda>n. waits (last_run runs n)) names \<and> ws \<noteq> []"
  by (auto simp: judge_def filter_empty_conv)

lemma judge_satisfied: "judge names runs = Satisfied \<longleftrightarrow>
    (\<forall>n\<in>set names. \<not> fails (last_run runs n) \<and> \<not> waits (last_run runs n))"
  by (auto simp: judge_def filter_empty_conv)

end

interpretation rc: check_judge evaluateRequiredChecks check_fails check_waits
  by unfold_locales (rule evaluate_eq)

end
