(* ===== verification/Image.thy ===== *)
theory Image
  imports Text Required_Checks
begin

text \<open>
  Image references, digests and the deploy-hook body of the build policy:
  \<open>packages/server/src/services/build-policy/image.ts\<close>, \<open>hook-body.ts\<close> and the projection of
  \<open>pinned-deploy.ts\<close> that the queue job carries. A failure is a \<open>BuildPolicyError\<close> with its code
  and message.
\<close>

section \<open>Digests and references\<close>

type_synonym bp_error = "bp_code \<times> string"

definition SHA_PLACEHOLDER :: string where
  "SHA_PLACEHOLDER = ''__DOKPLOY_BUILD_SHA__''"

definition DIGEST_MARKER :: string where
  "DIGEST_MARKER = ''__DOKPLOY_IMAGE_DIGEST__''"

definition valid_digest :: "string \<Rightarrow> bool" where
  "valid_digest s \<longleftrightarrow> take 7 s = ''sha256:'' \<and> length s = 71 \<and> list_all is_lower_hex (drop 7 s)"

definition isValidDigest :: "json option \<Rightarrow> bool" where
  "isValidDigest v = (case v of Some (J_Str s) \<Rightarrow> valid_digest s | _ \<Rightarrow> False)"

definition safe_ref_char :: "char \<Rightarrow> bool" where
  "safe_ref_char c \<longleftrightarrow> is_alnum c \<or> c \<in> set ''._:/@-''"

definition imageTagForSha :: "string \<Rightarrow> string option \<Rightarrow> string" where
  "imageTagForSha appName sha = appName @ '':'' @ (if truthy sha then the sha else SHA_PLACEHOLDER)"

definition splitRepositoryAndTag :: "string \<Rightarrow> string \<times> string option" where
  "splitRepositoryAndTag reference =
     (let lastSlash = lastIndexOf CHR ''/'' reference; lastColon = lastIndexOf CHR '':'' reference in
      if lastSlash < lastColon
      then (take (nat lastColon) reference, Some (drop (nat (lastColon + 1)) reference))
      else (reference, None))"

definition repositoryOf :: "string \<Rightarrow> string" where
  "repositoryOf reference = fst (splitRepositoryAndTag (hd (split_on CHR ''@'' reference)))"

definition registryHostOf :: "string \<Rightarrow> string option" where
  "registryHostOf reference =
     (if CHR ''/'' \<notin> set reference then None
      else let candidate = before_first CHR ''/'' reference in
        if CHR ''.'' \<notin> set candidate \<and> CHR '':'' \<notin> set candidate then None else Some candidate)"

definition buildDigestRef :: "string \<Rightarrow> string \<Rightarrow> bp_error + string" where
  "buildDigestRef reference digest =
     (if \<not> valid_digest digest then Inl (INVALID_DIGEST, ''Not a valid image digest: '' @ digest)
      else Inr (fst (splitRepositoryAndTag (hd (split_on CHR ''@'' reference))) @ ''@'' @ digest))"

definition assertSafeImageReference :: "string \<Rightarrow> bp_error + unit" where
  "assertSafeImageReference reference =
     (if reference = [] \<or> \<not> list_all safe_ref_char reference
      then Inl (INVALID_IMAGE, ''Not a valid image reference: '' @ reference) else Inr ())"

section \<open>The digest line of a build log\<close>

text \<open>
  \<open>split(/\r?\n/)\<close> and \<open>trim\<close>: the carriage return that the pattern eats is white space, which
  \<open>trim\<close> removes anyway.
\<close>

definition newline :: char where
  "newline = CHR 0x0A"

definition markerLines :: "string option \<Rightarrow> string list" where
  "markerLines log =
     (if \<not> truthy log then []
      else filter (\<lambda>line. prefix DIGEST_MARKER line) (map trim (split_on newline (the log))))"

text \<open>The loop from the last line to the first: the first line with a tag and a digest.\<close>

definition marker_parts :: "string \<Rightarrow> (string \<times> string) option" where
  "marker_parts line =
     (case split_spaces line of
        _ # tag # digest # _ \<Rightarrow> if tag \<noteq> [] \<and> valid_digest digest then Some (tag, digest) else None
      | _ \<Rightarrow> None)"

fun first_parts :: "string list \<Rightarrow> (string \<times> string) option" where
  "first_parts [] = None"
| "first_parts (line # lines) =
     (case marker_parts line of Some p \<Rightarrow> Some p | None \<Rightarrow> first_parts lines)"

definition lastMarkerParts :: "string option \<Rightarrow> (string \<times> string) option" where
  "lastMarkerParts log = first_parts (rev (markerLines log))"

definition parseImageDigestFromLog :: "string option \<Rightarrow> string option" where
  "parseImageDigestFromLog log = map_option snd (lastMarkerParts log)"

definition parseImageTagFromLog :: "string option \<Rightarrow> string option" where
  "parseImageTagFromLog log = map_option fst (lastMarkerParts log)"

section \<open>The deploy-hook body\<close>

record hook_image =
  hi_image :: string
  hi_tag :: "string option"
  hi_digest :: string
  hi_ref :: string

definition nullish_json :: "json option \<Rightarrow> bool" where
  "nullish_json v \<longleftrightarrow> v = None \<or> v = Some J_Null"

definition trimmed_string :: "json option \<Rightarrow> string option" where
  "trimmed_string v = (case v of Some (J_Str s) \<Rightarrow> if trim s = [] then None else Some (trim s) | _ \<Rightarrow> None)"

definition not_allowed_message :: "string \<Rightarrow> string \<Rightarrow> string list \<Rightarrow> string" where
  "not_allowed_message reference repository allowed =
     ''Deploy hook image \"'' @ reference @ ''\" resolves to repository \"'' @ repository @ ''\", '' @
     ''which is not this unit's own repository ('' @
     (if join '', '' allowed = [] then ''none configured'' else join '', '' allowed) @ '').''"

text \<open>\<open>None\<close> is the answer \<open>kind: "none"\<close>.\<close>

definition parseDeployHookImage :: "json \<Rightarrow> string list \<Rightarrow> bp_error + hook_image option" where
  "parseDeployHookImage body allowed =
     (if \<not> is_obj body then Inr None
      else if nullish_json (obj_get body ''image'') then Inr None
      else case trimmed_string (obj_get body ''image'') of
          None \<Rightarrow> Inl (INVALID_IMAGE, ''Deploy hook body has an `image` that is not a non-empty string.'')
        | Some reference \<Rightarrow>
            (case assertSafeImageReference reference of
               Inl e \<Rightarrow> Inl e
             | Inr _ \<Rightarrow>
                 (case obj_get body ''digest'' of
                    Some (J_Str digest) \<Rightarrow>
                      if \<not> valid_digest digest then Inl (INVALID_DIGEST,
                        ''Deploy hook body must carry a `digest` of the form sha256:<64 hex chars>; '' @
                        ''build-policy deploys are always by digest.'')
                      else let repository = repositoryOf reference in
                        if repository \<notin> set allowed
                        then Inl (REGISTRY_NOT_ALLOWED, not_allowed_message reference repository allowed)
                        else (case buildDigestRef reference digest of
                            Inl e \<Rightarrow> Inl e
                          | Inr r \<Rightarrow> Inr (Some
                              \<lparr>hi_image = reference,
                               hi_tag = nullish (trimmed_string (obj_get body ''tag''))
                                 (snd (splitRepositoryAndTag reference)),
                               hi_digest = digest, hi_ref = r\<rparr>))
                  | _ \<Rightarrow> Inl (INVALID_DIGEST,
                      ''Deploy hook body must carry a `digest` of the form sha256:<64 hex chars>; '' @
                      ''build-policy deploys are always by digest.''))))"

text \<open>What the queue job carries: ref, tag and digest.\<close>

definition toPinnedImageJob :: "hook_image option \<Rightarrow> (string \<times> string option \<times> string) option" where
  "toPinnedImageJob p = map_option (\<lambda>i. (hi_ref i, hi_tag i, hi_digest i)) p"

section \<open>Facts\<close>

lemma set_split_repo: "set (fst (splitRepositoryAndTag s)) \<subseteq> set s"
  by (auto simp: splitRepositoryAndTag_def Let_def dest: in_set_takeD)

lemma lower_hex_safe: "is_lower_hex c \<Longrightarrow> safe_ref_char c"
  by (auto simp: is_lower_hex_def safe_ref_char_def is_alnum_def)

lemma list_all_subset: "list_all P s \<Longrightarrow> set t \<subseteq> set s \<Longrightarrow> list_all P t"
  by (auto simp: list_all_iff)

lemma valid_digest_safe:
  assumes "valid_digest s"
  shows "list_all safe_ref_char s"
proof -
  have "s = ''sha256:'' @ drop 7 s" using assms by (metis append_take_drop_id valid_digest_def)
  moreover have "list_all safe_ref_char ''sha256:''" by code_simp
  moreover have "list_all safe_ref_char (drop 7 s)"
    using assms lower_hex_safe by (auto simp: valid_digest_def list_all_iff)
  ultimately show ?thesis by (metis list_all_append)
qed

text \<open>
  A deploy hook can only pin an image of the unit's own repository: whenever a body is
  accepted with an image, the reference that is deployed is one of the allowed repositories, an
  \<open>@\<close> and a well-formed sha256 digest, and holds no character outside the safe set.
\<close>

lemma hook_image_confined:
  assumes "parseDeployHookImage body allowed = Inr (Some i)"
  shows "\<exists>repo\<in>set allowed. hi_ref i = repo @ ''@'' @ hi_digest i \<and> valid_digest (hi_digest i) \<and>
    repositoryOf (hi_image i) = repo \<and> list_all safe_ref_char (hi_ref i)"
proof -
  from assms obtain digest where ref: "list_all safe_ref_char (hi_image i)"
    and d: "valid_digest digest" "hi_digest i = digest" "repositoryOf (hi_image i) \<in> set allowed"
    and r: "hi_ref i = repositoryOf (hi_image i) @ ''@'' @ digest"
    by (auto simp: parseDeployHookImage_def assertSafeImageReference_def buildDigestRef_def repositoryOf_def
        Let_def split: if_splits option.splits sum.splits json.splits)
  have "set (repositoryOf (hi_image i)) \<subseteq> set (hi_image i)"
    using set_split_repo set_before_first by (fastforce simp: repositoryOf_def hd_split_on)
  then have "list_all safe_ref_char (repositoryOf (hi_image i))" by (rule list_all_subset [OF ref])
  moreover have "list_all safe_ref_char ''@''" by code_simp
  ultimately have "list_all safe_ref_char (hi_ref i)"
    using valid_digest_safe [OF d(1)] by (simp add: r)
  with d r show ?thesis by blast
qed

definition sample_digest :: string where
  "sample_digest = ''sha256:'' @ replicate 64 CHR ''a''"

section \<open>Reading back the digest\<close>

lemma first_parts_append: "first_parts (xs @ ys) = (case first_parts xs of Some p \<Rightarrow> Some p | None \<Rightarrow> first_parts ys)"
  by (induction xs) (auto split: option.splits)

lemma hex_not_space: "is_lower_hex c \<Longrightarrow> \<not> is_space c"
  by (auto simp: is_lower_hex_def is_space_def is_digit_def)

lemma digest_no_space:
  assumes "valid_digest s"
  shows "\<forall>c\<in>set s. \<not> is_space c"
proof -
  have "s = ''sha256:'' @ drop 7 s" using assms by (metis append_take_drop_id valid_digest_def)
  moreover have "list_all (\<lambda>c. \<not> is_space c) ''sha256:''" by code_simp
  moreover have "list_all (\<lambda>c. \<not> is_space c) (drop 7 s)"
    using assms hex_not_space by (auto simp: valid_digest_def list_all_iff)
  ultimately show ?thesis by (metis list_all_append list_all_iff)
qed

definition digest_line :: "string \<Rightarrow> string \<Rightarrow> string" where
  "digest_line tag digest = DIGEST_MARKER @ '' '' @ tag @ '' '' @ digest"

lemma marker_line_parts:
  assumes "tag \<noteq> []" "\<forall>c\<in>set tag. \<not> is_space c" "valid_digest digest"
  shows "marker_parts (digest_line tag digest) = Some (tag, digest)"
    and "trim (digest_line tag digest) = digest_line tag digest"
    and "newline \<notin> set (digest_line tag digest)"
proof -
  have m: "\<forall>c\<in>set DIGEST_MARKER. \<not> is_space c" and sp: "is_space CHR '' ''"
    and nl: "is_space newline" "newline \<noteq> CHR '' ''" "DIGEST_MARKER \<noteq> []"
    by code_simp+
  note d = digest_no_space [OF assms(3)]
  have dne: "digest \<noteq> []" using assms(3) by (auto simp: valid_digest_def)
  have "split_spaces (digest_line tag digest) = [DIGEST_MARKER, tag, digest]"
    using m d assms(1,2) sp dne nl(3) words_from_append [of digest "[]" "[]"]
    by (simp add: split_spaces_def digest_line_def words_from_append)
  with assms show "marker_parts (digest_line tag digest) = Some (tag, digest)"
    by (simp add: marker_parts_def)
  have "hd (digest_line tag digest) = hd DIGEST_MARKER" "last (digest_line tag digest) = last digest"
    using nl(3) dne by (auto simp: digest_line_def)
  then show "trim (digest_line tag digest) = digest_line tag digest"
    using m d dne nl(3) by (intro trim_id) (auto simp: digest_line_def)
  show "newline \<notin> set (digest_line tag digest)"
    using m d assms(2) nl by (auto simp: digest_line_def)
qed

text \<open>
  The digest survives the log: when a build log ends with the line the build shell echoes
  for a tag without spaces and a valid digest, exactly that tag and digest are read back,
  whatever the log holds before it, other digest lines included.
\<close>

lemma digest_log_roundtrip:
  assumes "tag \<noteq> []" and "\<forall>c\<in>set tag. \<not> is_space c" and "valid_digest digest"
  shows "parseImageDigestFromLog (Some (log @ newline # digest_line tag digest)) = Some digest \<and>
    parseImageTagFromLog (Some (log @ newline # digest_line tag digest)) = Some tag"
proof -
  note l = marker_line_parts [OF assms]
  have "prefix DIGEST_MARKER (digest_line tag digest)" by (simp add: digest_line_def)
  then have "markerLines (Some (log @ newline # digest_line tag digest)) =
      filter (\<lambda>line. prefix DIGEST_MARKER line) (map trim (split_on newline log)) @ [digest_line tag digest]"
    by (simp add: markerLines_def split_on_append split_on_none l)
  then have "lastMarkerParts (Some (log @ newline # digest_line tag digest)) = Some (tag, digest)"
    by (simp add: lastMarkerParts_def l)
  then show ?thesis by (simp add: parseImageDigestFromLog_def parseImageTagFromLog_def)
qed

end
