(* ===== verification/Build_Policy.thy ===== *)
theory Build_Policy
  imports Text Required_Checks
begin

text \<open>
  The pure part of the build policy: which units come from github.com (\<open>source.ts\<close>), the paths a
  unit watches by default (\<open>watch-paths.ts\<close>) and the decision where a unit builds
  (\<open>policy.ts\<close>), all under \<open>packages/server/src/services/build-policy/\<close>. The URL class of the
  platform is a parameter: \<open>url_parser\<close> answers the host name and the path name of a URL, or
  nothing where \<open>new URL\<close> throws.
\<close>

section \<open>Sources\<close>

record url_parser =
  url_hostname :: "string \<Rightarrow> string option"
  url_pathname :: "string \<Rightarrow> string option"

definition GITHUB_HOSTS :: "string list" where
  "GITHUB_HOSTS = [''github.com'', ''www.github.com'']"

definition scp_user_char :: "char \<Rightarrow> bool" where
  "scp_user_char c \<longleftrightarrow> is_alnum c \<or> c \<in> set ''._-''"

definition scp_host_char :: "char \<Rightarrow> bool" where
  "scp_host_char c \<longleftrightarrow> is_alnum c \<or> c \<in> set ''.-''"

text \<open>The group of the pattern \<open>^[A-Za-z0-9._-]+@([A-Za-z0-9.-]+):\<close>.\<close>

definition scp_host :: "string \<Rightarrow> string option" where
  "scp_host url =
     (let user = takeWhile scp_user_char url in
      case drop (length user) url of
        c # rest \<Rightarrow>
          if user = [] \<or> c \<noteq> CHR ''@'' then None
          else let host = takeWhile scp_host_char rest in
            if host \<noteq> [] \<and> take 1 (drop (length host) rest) = '':'' then Some host else None
      | [] \<Rightarrow> None)"

definition extractHost :: "url_parser \<Rightarrow> string \<Rightarrow> string option" where
  "extractHost u rawUrl =
     (let url = trim rawUrl in
      if url = [] then None
      else case scp_host url of
          Some h \<Rightarrow> Some (toLowerCase h)
        | None \<Rightarrow> map_option toLowerCase (url_hostname u url))"

definition isGithubHostUrl :: "url_parser \<Rightarrow> string option \<Rightarrow> bool" where
  "isGithubHostUrl u url =
     (case url of None \<Rightarrow> False
      | Some s \<Rightarrow> (case extractHost u s of None \<Rightarrow> False | Some h \<Rightarrow> h \<in> set GITHUB_HOSTS))"

definition isGithubSourcedUnit :: "url_parser \<Rightarrow> string \<Rightarrow> string option \<Rightarrow> bool" where
  "isGithubSourcedUnit u sourceType customGitUrl =
     (if sourceType = ''github'' then True
      else if sourceType = ''git'' then isGithubHostUrl u customGitUrl
      else False)"

text \<open>\<open>None\<close> is a throw of \<open>new URL\<close>; \<open>Some None\<close> the answer \<open>null\<close>.\<close>

definition parseGithubOwnerRepo :: "url_parser \<Rightarrow> string option \<Rightarrow> (string \<times> string) option option" where
  "parseGithubOwnerRepo u url =
     (if \<not> isGithubHostUrl u url then Some None
      else let t = trim (the url);
               withoutSuffix = (if suffix ''.git'' t then take (length t - 4) t else t);
               path = (if sublist ''://'' withoutSuffix then url_pathname u withoutSuffix
                       else Some (case split_on CHR '':'' withoutSuffix of _ # p # _ \<Rightarrow> p | _ \<Rightarrow> ''''))
           in case path of
                None \<Rightarrow> None
              | Some p \<Rightarrow>
                  Some (case filter (\<lambda>s. s \<noteq> []) (split_on CHR ''/'' p) of
                      owner # repo # _ \<Rightarrow> Some (owner, repo)
                    | _ \<Rightarrow> None))"

record checks_unit =
  cu_unitName :: string
  cu_sourceType :: string
  cu_customGitUrl :: "string option"
  cu_githubId :: "string option"
  cu_owner :: "string option"
  cu_repository :: "string option"

definition unsupported_prefix :: "string \<Rightarrow> string" where
  "unsupported_prefix name = ''Required checks cannot be used on \"'' @ name @ ''\": ''"

datatype checks_support = Supported | Unsupported string | Support_Throws

definition describeRequiredChecksSupport :: "url_parser \<Rightarrow> checks_unit \<Rightarrow> checks_support" where
  "describeRequiredChecksSupport u x =
     (if \<not> isGithubSourcedUnit u (cu_sourceType x) (cu_customGitUrl x) then
        Unsupported (unsupported_prefix (cu_unitName x) @ ''they are read from the '' @
          ''GitHub checks and commit-statuses APIs, and this unit is not sourced '' @
          ''from github.com. Clear the required checks, or connect the unit to a '' @
          ''github.com repository.'')
      else if \<not> truthy (cu_githubId x) then
        Unsupported (unsupported_prefix (cu_unitName x) @ ''reading a commit's '' @
          ''checks needs an authenticated GitHub App installation, and this unit '' @
          ''is not connected to one. Connect a GitHub App provider on the unit's '' @
          ''Git tab, or clear the required checks.'')
      else if cu_sourceType x = ''github'' \<and> truthy (cu_owner x) \<and> truthy (cu_repository x) then Supported
      else case parseGithubOwnerRepo u (cu_customGitUrl x) of
          None \<Rightarrow> Support_Throws
        | Some (Some _) \<Rightarrow> Supported
        | Some None \<Rightarrow>
            Unsupported (unsupported_prefix (cu_unitName x) @ ''its owner and '' @
              ''repository could not be determined, so there is no commit to read '' @
              ''checks for. Reconnect the repository, or clear the required checks.''))"

definition assertRequiredChecksSupported ::
  "url_parser \<Rightarrow> checks_unit \<Rightarrow> string list option \<Rightarrow> (bp_code \<times> string) option + unit" where
  "assertRequiredChecksSupported u x requiredChecks =
     (let wanted = filter (\<lambda>c. trim c \<noteq> []) (case requiredChecks of None \<Rightarrow> [] | Some cs \<Rightarrow> cs) in
      if wanted = [] then Inr ()
      else case describeRequiredChecksSupport u x of
          Supported \<Rightarrow> Inr ()
        | Unsupported why \<Rightarrow> Inl (Some (REQUIRED_CHECKS_UNSUPPORTED, why))
        | Support_Throws \<Rightarrow> Inl None)"

text \<open>A patch: an absent field keeps the stored value, an explicit null is honoured as null.\<close>

record checks_patch =
  cp_unitName :: "string option"
  cp_sourceType :: "string option"
  cp_customGitUrl :: "string option option"
  cp_githubId :: "string option option"
  cp_owner :: "string option option"
  cp_repository :: "string option option"
  cp_requiredChecks :: "string list option"

definition pick :: "'a option \<Rightarrow> 'a \<Rightarrow> 'a" where
  "pick p c = (case p of Some v \<Rightarrow> v | None \<Rightarrow> c)"

definition assertRequiredChecksSupportedForUpdate ::
  "url_parser \<Rightarrow> checks_unit \<Rightarrow> checks_patch \<Rightarrow> (bp_code \<times> string) option + unit" where
  "assertRequiredChecksSupportedForUpdate u current patch =
     assertRequiredChecksSupported u
       \<lparr>cu_unitName = pick (cp_unitName patch) (cu_unitName current),
        cu_sourceType = pick (cp_sourceType patch) (cu_sourceType current),
        cu_customGitUrl = pick (cp_customGitUrl patch) (cu_customGitUrl current),
        cu_githubId = pick (cp_githubId patch) (cu_githubId current),
        cu_owner = pick (cp_owner patch) (cu_owner current),
        cu_repository = pick (cp_repository patch) (cu_repository current)\<rparr>
       (cp_requiredChecks patch)"

section \<open>Default watch paths\<close>

datatype unit_type = U_Application | U_Compose

record watch_input =
  wi_unitType :: unit_type
  wi_sourceType :: "string option"
  wi_buildPath :: "string option"
  wi_gitlabBuildPath :: "string option"
  wi_bitbucketBuildPath :: "string option"
  wi_giteaBuildPath :: "string option"
  wi_dropBuildPath :: "string option"
  wi_customGitBuildPath :: "string option"
  wi_dockerfile :: "string option"
  wi_dockerContextPath :: "string option"
  wi_composePath :: "string option"

definition buildPathForSource :: "watch_input \<Rightarrow> string option" where
  "buildPathForSource i =
     (case wi_sourceType i of
        None \<Rightarrow> wi_buildPath i
      | Some s \<Rightarrow>
          if s = ''github'' then wi_buildPath i
          else if s = ''gitlab'' then wi_gitlabBuildPath i
          else if s = ''bitbucket'' then wi_bitbucketBuildPath i
          else if s = ''gitea'' then wi_giteaBuildPath i
          else if s = ''drop'' then wi_dropBuildPath i
          else if s = ''git'' then wi_customGitBuildPath i
          else None)"

definition ROOT :: string where
  "ROOT = ''**''"

definition backslash :: char where
  "backslash = CHR 0x5C"

definition normalizeDir :: "string option \<Rightarrow> string option" where
  "normalizeDir value =
     (case value of
        None \<Rightarrow> None
      | Some v \<Rightarrow>
          let trimmed = trim v in
          if trimmed = [] then None
          else let s1 = map (\<lambda>c. if c = backslash then CHR ''/'' else c) trimmed;
                   s2 = (if prefix ''./'' s1 then drop 2 s1 else s1);
                   s3 = dropWhile (\<lambda>c. c = CHR ''/'') s2;
                   cleaned = trimTrailingSlashes s3
               in if cleaned = '''' \<or> cleaned = ''.'' then Some '''' else Some cleaned)"

definition dirnameOf :: "string option \<Rightarrow> string option" where
  "dirnameOf filePath =
     (case normalizeDir filePath of
        None \<Rightarrow> None
      | Some n \<Rightarrow>
          if n = '''' then Some ''''
          else let lastSlash = lastIndexOf CHR ''/'' n in
            Some (if lastSlash = - 1 then '''' else take (nat lastSlash) n))"

definition joinDirs :: "string \<Rightarrow> string \<Rightarrow> string" where
  "joinDirs base child = (if base = '''' then child else if child = '''' then base else base @ ''/'' @ child)"

definition dropContained :: "string list \<Rightarrow> string list" where
  "dropContained dirs = filter (\<lambda>dir. \<not> (\<exists>other\<in>set dirs. other \<noteq> dir \<and> prefix (other @ ''/'') dir)) dirs"

definition watch_candidates :: "watch_input \<Rightarrow> string option list" where
  "watch_candidates i =
     (if wi_unitType i = U_Compose then [dirnameOf (wi_composePath i)]
      else let buildPath = (case normalizeDir (buildPathForSource i) of None \<Rightarrow> '''' | Some p \<Rightarrow> p);
               dockerfileDir = dirnameOf (wi_dockerfile i)
           in [Some buildPath, map_option (joinDirs buildPath) dockerfileDir,
               normalizeDir (wi_dockerContextPath i)])"

definition deriveDefaultWatchPaths :: "watch_input \<Rightarrow> string list" where
  "deriveDefaultWatchPaths i =
     (let dirs = List.map_filter id (watch_candidates i) in
      if dirs = [] then [ROOT]
      else if '''' \<in> set dirs then [ROOT]
      else map (\<lambda>dir. dir @ ''/**'') (sort (dropContained (uniq dirs))))"

definition resolveWatchPaths :: "string list option \<Rightarrow> watch_input \<Rightarrow> string list \<times> bool" where
  "resolveWatchPaths current i =
     (case current of
        Some (p # ps) \<Rightarrow> (p # ps, False)
      | _ \<Rightarrow> (deriveDefaultWatchPaths i, True))"

section \<open>The decision\<close>

record bp_unit =
  bu_type :: unit_type
  bu_id :: string
  bu_name :: string
  bu_org :: string
  bu_sourceType :: string
  bu_customGitUrl :: "string option"

record bp_settings =
  enforceRemoteBuilds :: bool
  defaultBuildServerId :: "string option"
  defaultRegistryId :: "string option"
  requiredChecksTimeoutMinutes :: int

record break_glass =
  bg_auditId :: nat
  bg_actorEmail :: string
  bg_reason :: string

datatype local_reason =
  Not_Enforced | Not_Github | Excluded | Break_Glass | Compose_Build_Not_Relocatable

datatype bp_decision =
    Local local_reason "nat option"
  | Remote string string
  | Policy_Failure bp_code string

definition decideBuildPolicy ::
  "url_parser \<Rightarrow> bp_unit \<Rightarrow> bp_settings option \<Rightarrow> bool \<Rightarrow> break_glass option \<Rightarrow> bp_decision" where
  "decideBuildPolicy u x settings isExcluded breakGlass =
     (case settings of
        None \<Rightarrow> Local Not_Enforced None
      | Some s \<Rightarrow>
          if \<not> enforceRemoteBuilds s then Local Not_Enforced None
          else if \<not> isGithubSourcedUnit u (bu_sourceType x) (bu_customGitUrl x) then Local Not_Github None
          else if isExcluded then Local Excluded None
          else case breakGlass of
              Some g \<Rightarrow> Local Break_Glass (Some (bg_auditId g))
            | None \<Rightarrow>
                if bu_type x = U_Compose then Local Compose_Build_Not_Relocatable None
                else if \<not> truthy (defaultBuildServerId s) then
                  Policy_Failure NO_BUILD_SERVER
                    (''Enforced remote builds are on but this organization has no default build server. '' @
                     ''Set one in Settings, exclude this unit, or use the audited break-glass action. '' @
                     ''Falling back to a local build is deliberately not offered.'')
                else if \<not> truthy (defaultRegistryId s) then
                  Policy_Failure NO_REGISTRY
                    (''Enforced remote builds are on but this organization has no default registry, '' @
                     ''so a remote build could not be pushed or deployed by digest. Set one in Settings.'')
                else Remote (the (defaultBuildServerId s)) (the (defaultRegistryId s)))"

definition assertBuildPolicyOk :: "bp_decision \<Rightarrow> (bp_code \<times> string) + bp_decision" where
  "assertBuildPolicyOk d = (case d of Policy_Failure c m \<Rightarrow> Inl (c, m) | _ \<Rightarrow> Inr d)"

text \<open>
  While remote builds are enforced, a GitHub-sourced application builds locally only
  under an exclusion or a break-glass grant: otherwise its build goes to the organization's build
  server and registry, and where one of them is not set the deploy fails by name instead of
  falling back to a local build. With the policy off every unit builds locally.
\<close>

lemma policy_no_silent_local_build:
  "(settings = None \<or> \<not> enforceRemoteBuilds (the settings) \<longrightarrow>
      decideBuildPolicy u x settings ex g = Local Not_Enforced None) \<and>
   (\<forall>s. settings = Some s \<and> enforceRemoteBuilds s \<and> bu_type x = U_Application \<and>
      isGithubSourcedUnit u (bu_sourceType x) (bu_customGitUrl x) \<longrightarrow>
      (\<forall>r a. assertBuildPolicyOk (decideBuildPolicy u x settings ex g) = Inr (Local r a) \<longrightarrow>
         ex \<and> r = Excluded \<or> (\<exists>b. g = Some b \<and> a = Some (bg_auditId b) \<and> r = Break_Glass)) \<and>
      (\<not> ex \<and> g = None \<longrightarrow>
         (\<forall>srv reg. assertBuildPolicyOk (decideBuildPolicy u x settings ex g) = Inr (Remote srv reg) \<longleftrightarrow>
            defaultBuildServerId s = Some srv \<and> defaultRegistryId s = Some reg \<and> srv \<noteq> [] \<and> reg \<noteq> []) \<and>
         (\<not> truthy (defaultBuildServerId s) \<longrightarrow>
            (\<exists>m. assertBuildPolicyOk (decideBuildPolicy u x settings ex g) = Inl (NO_BUILD_SERVER, m)))))"
  by (cases settings)
    (auto simp: decideBuildPolicy_def assertBuildPolicyOk_def truthy_def split: option.splits if_splits)

definition sample_urls :: url_parser where
  "sample_urls = \<lparr>url_hostname = (\<lambda>s. Some ''github.com''), url_pathname = (\<lambda>s. Some ''/o/r'')\<rparr>"

definition sample_unit :: bp_unit where
  "sample_unit = \<lparr>bu_type = U_Application, bu_id = ''A'', bu_name = ''app'', bu_org = ''org'',
     bu_sourceType = ''github'', bu_customGitUrl = None\<rparr>"

definition sample_settings :: bp_settings where
  "sample_settings = \<lparr>enforceRemoteBuilds = True, defaultBuildServerId = Some ''srv'',
     defaultRegistryId = Some ''reg'', requiredChecksTimeoutMinutes = 5\<rparr>"

section \<open>The derived paths cover the build inputs\<close>

definition covers :: "string \<Rightarrow> string \<Rightarrow> bool" where
  "covers path dir \<longleftrightarrow> path = ROOT \<or> path = dir @ ''/**'' \<or> (\<exists>d. path = d @ ''/**'' \<and> prefix (d @ ''/'') dir)"

lemma dropContained_covers:
  "d \<in> set dirs \<Longrightarrow> \<exists>e\<in>set (dropContained dirs). e = d \<or> prefix (e @ ''/'') d"
proof (induction "length d" arbitrary: d rule: less_induct)
  case less
  show ?case
  proof (cases "d \<in> set (dropContained dirs)")
    case False
    with less.prems obtain e where e: "e \<in> set dirs" "prefix (e @ ''/'') d"
      by (auto simp: dropContained_def)
    from e(2) have "length e < length d" by (auto simp: prefix_def)
    from less.hyps [OF this e(1)] obtain f where f: "f \<in> set (dropContained dirs)" "f = e \<or> prefix (f @ ''/'') e"
      by blast
    from f(2) e(2) have "prefix (f @ ''/'') d" by (auto simp: prefix_def)
    with f(1) show ?thesis by blast
  qed blast
qed

lemma in_map_filter: "x \<in> set (List.map_filter id xs) \<longleftrightarrow> Some x \<in> set xs"
  by (induction xs) (auto simp: map_filter_simps split: option.splits)

text \<open>
  A derived watch path never hides a build input: every directory a unit builds from (its
  build path for its source type, the directory of its Dockerfile under it, an explicit context
  path, or the directory of its compose file) is the whole repository, watched itself or inside
  a watched directory; and no derived path lies inside another.
\<close>

lemma watch_paths_cover_inputs:
  "(\<forall>d. Some d \<in> set (watch_candidates i) \<longrightarrow> (\<exists>p\<in>set (deriveDefaultWatchPaths i). covers p d)) \<and>
   deriveDefaultWatchPaths i \<noteq> [] \<and>
   (\<forall>a b. a @ ''/**'' \<in> set (deriveDefaultWatchPaths i) \<and> b @ ''/**'' \<in> set (deriveDefaultWatchPaths i) \<longrightarrow>
      \<not> prefix (a @ ''/'') b)"
proof -
  let ?dirs = "List.map_filter id (watch_candidates i)"
  show ?thesis
  proof (cases "?dirs = [] \<or> '''' \<in> set ?dirs")
    case True
    then have r: "deriveDefaultWatchPaths i = [ROOT]"
      by (auto simp: deriveDefaultWatchPaths_def Let_def)
    show ?thesis unfolding r by (auto simp: covers_def ROOT_def prefix_def)
  next
    case False
    then have r: "deriveDefaultWatchPaths i = map (\<lambda>dir. dir @ ''/**'') (sort (dropContained (uniq ?dirs)))"
      by (simp add: deriveDefaultWatchPaths_def Let_def)
    have cover: "\<exists>p\<in>set (deriveDefaultWatchPaths i). covers p d" if "Some d \<in> set (watch_candidates i)" for d
      using dropContained_covers [of d "uniq ?dirs"] that by (force simp: r in_map_filter covers_def)
    moreover have "deriveDefaultWatchPaths i \<noteq> []"
    proof -
      from False obtain d where "d \<in> set ?dirs" by (cases ?dirs) auto
      with cover [of d] show ?thesis by (auto simp: in_map_filter)
    qed
    moreover have "\<not> prefix (a @ ''/'') b"
      if "a @ ''/**'' \<in> set (deriveDefaultWatchPaths i)" "b @ ''/**'' \<in> set (deriveDefaultWatchPaths i)" for a b
      using that by (auto simp: r dropContained_def prefix_def)
    ultimately show ?thesis by blast
  qed
qed

definition sample_watch :: watch_input where
  "sample_watch = \<lparr>wi_unitType = U_Application, wi_sourceType = Some ''gitlab'', wi_buildPath = Some ''old'',
     wi_gitlabBuildPath = Some ''./apps/web/'', wi_bitbucketBuildPath = None, wi_giteaBuildPath = None,
     wi_dropBuildPath = None, wi_customGitBuildPath = None, wi_dockerfile = Some ''docker/Dockerfile'',
     wi_dockerContextPath = None, wi_composePath = None\<rparr>"

end
