(* ===== verification/Policy_Store.thy ===== *)
theory Policy_Store
  imports Build_Policy
begin

text \<open>
  The stored part of the build policy: settings with the process-local enforcement cache
  (\<open>settings.ts\<close>), exclusions (\<open>exclusions.ts\<close>), the audit trail with the break-glass grants
  (\<open>audit.ts\<close>) and the resolution of a decision that spends a grant (\<open>resolve.ts\<close>), under
  \<open>packages/server/src/services/build-policy/\<close>. A table is the list of its rows in insertion
  order; the id column that the database generates is the next number. The flag of
  \<open>recordBuildPolicyAudit\<close> says whether its insert succeeds: the source swallows the failure.
\<close>

section \<open>The tables\<close>

datatype audit_action =
    Settings_Updated | Exclusion_Added | Exclusion_Removed | Break_Glass_Granted | Break_Glass_Consumed
  | Remote_Build_Enforced | Build_Server_Missing | Deploy_Coalesced | Deploy_Skipped
  | Required_Checks_Failed | Required_Checks_Timeout | Deploy_By_Digest

record audit_row =
  au_id :: nat
  au_org :: string
  au_action :: audit_action
  au_applicationId :: "string option"
  au_composeId :: "string option"
  au_actorId :: "string option"
  au_actorEmail :: "string option"
  au_reason :: "string option"
  au_metadata :: "(string \<times> json) list option"
  au_createdAt :: int
  au_consumedAt :: "int option"

record exclusion_row =
  ex_id :: nat
  ex_org :: string
  ex_applicationId :: "string option"
  ex_composeId :: "string option"
  ex_reason :: "string option"

record policy_db =
  settings_rows :: "(string \<times> bp_settings) list"
  exclusion_rows :: "exclusion_row list"
  audit_rows :: "audit_row list"
  next_id :: nat

section \<open>Audit and break-glass\<close>

record audit_input =
  ai_org :: string
  ai_action :: audit_action
  ai_applicationId :: "string option"
  ai_composeId :: "string option"
  ai_actorId :: "string option"
  ai_actorEmail :: "string option"
  ai_reason :: "string option"
  ai_metadata :: "(string \<times> json) list option"

definition insert_audit :: "int \<Rightarrow> audit_input \<Rightarrow> policy_db \<Rightarrow> policy_db \<times> audit_row" where
  "insert_audit now i db =
     (let row = \<lparr>au_id = next_id db, au_org = ai_org i, au_action = ai_action i,
          au_applicationId = ai_applicationId i, au_composeId = ai_composeId i,
          au_actorId = ai_actorId i, au_actorEmail = ai_actorEmail i, au_reason = ai_reason i,
          au_metadata = ai_metadata i, au_createdAt = now, au_consumedAt = None\<rparr>
      in (db\<lparr>audit_rows := audit_rows db @ [row], next_id := Suc (next_id db)\<rparr>, row))"

definition recordBuildPolicyAudit :: "bool \<Rightarrow> int \<Rightarrow> audit_input \<Rightarrow> policy_db \<Rightarrow> policy_db \<times> audit_row option" where
  "recordBuildPolicyAudit ok now i db =
     (if ok then let (db, row) = insert_audit now i db in (db, Some row) else (db, None))"

definition app_of :: "unit_type \<Rightarrow> string \<Rightarrow> string option" where
  "app_of t i = (if t = U_Application then Some i else None)"

definition compose_of :: "unit_type \<Rightarrow> string \<Rightarrow> string option" where
  "compose_of t i = (if t = U_Compose then Some i else None)"

definition grantBreakGlass ::
  "int \<Rightarrow> string \<Rightarrow> unit_type \<Rightarrow> string \<Rightarrow> string option \<Rightarrow> string \<Rightarrow> string \<Rightarrow> policy_db \<Rightarrow> policy_db \<times> audit_row" where
  "grantBreakGlass now org t i actorId actorEmail why db =
     insert_audit now
       \<lparr>ai_org = org, ai_action = Break_Glass_Granted, ai_applicationId = app_of t i,
        ai_composeId = compose_of t i, ai_actorId = actorId, ai_actorEmail = Some actorEmail,
        ai_reason = Some why, ai_metadata = None\<rparr> db"

definition unit_of_audit :: "unit_type \<Rightarrow> audit_row \<Rightarrow> string option" where
  "unit_of_audit t r = (if t = U_Application then au_applicationId r else au_composeId r)"

definition pending_grant :: "string \<Rightarrow> unit_type \<Rightarrow> string \<Rightarrow> audit_row \<Rightarrow> bool" where
  "pending_grant org t i r \<longleftrightarrow> au_org r = org \<and> au_action r = Break_Glass_Granted \<and>
     unit_of_audit t r = Some i \<and> au_consumedAt r = None"

text \<open>\<open>findFirst\<close> ordered by \<open>createdAt\<close> descending; of equal times the first row.\<close>

definition newest :: "audit_row list \<Rightarrow> audit_row option" where
  "newest rows = fold (\<lambda>r best. case best of None \<Rightarrow> Some r
     | Some b \<Rightarrow> if au_createdAt b < au_createdAt r then Some r else Some b) rows None"

definition findPendingBreakGlass :: "string \<Rightarrow> unit_type \<Rightarrow> string \<Rightarrow> policy_db \<Rightarrow> audit_row option" where
  "findPendingBreakGlass org t i db = newest (filter (pending_grant org t i) (audit_rows db))"

definition consumeBreakGlass ::
  "bool \<Rightarrow> int \<Rightarrow> audit_row \<Rightarrow> string \<Rightarrow> unit_type \<Rightarrow> string \<Rightarrow> (string \<times> json) list \<Rightarrow> policy_db \<Rightarrow> policy_db" where
  "consumeBreakGlass ok now grant org t i metadata db =
     (let db = db\<lparr>audit_rows :=
          map (\<lambda>r. if au_id r = au_id grant then r\<lparr>au_consumedAt := Some now\<rparr> else r) (audit_rows db)\<rparr>
      in fst (recordBuildPolicyAudit ok now
           \<lparr>ai_org = org, ai_action = Break_Glass_Consumed, ai_applicationId = app_of t i,
            ai_composeId = compose_of t i, ai_actorId = au_actorId grant,
            ai_actorEmail = au_actorEmail grant, ai_reason = au_reason grant,
            ai_metadata = Some ((''grantId'', J_Num (int (au_id grant))) # metadata)\<rparr> db))"

section \<open>Exclusions\<close>

definition unit_of_exclusion :: "unit_type \<Rightarrow> exclusion_row \<Rightarrow> string option" where
  "unit_of_exclusion t r = (if t = U_Application then ex_applicationId r else ex_composeId r)"

definition isUnitExcluded :: "string \<Rightarrow> unit_type \<Rightarrow> string \<Rightarrow> policy_db \<Rightarrow> bool" where
  "isUnitExcluded org t i db \<longleftrightarrow>
     (\<exists>r\<in>set (exclusion_rows db). ex_org r = org \<and> unit_of_exclusion t r = Some i)"

definition addBuildPolicyExclusion ::
  "string \<Rightarrow> string option \<Rightarrow> string option \<Rightarrow> string option \<Rightarrow> policy_db \<Rightarrow> policy_db \<times> exclusion_row" where
  "addBuildPolicyExclusion org appId compId why db =
     (let row = \<lparr>ex_id = next_id db, ex_org = org, ex_applicationId = appId, ex_composeId = compId,
          ex_reason = why\<rparr>
      in (db\<lparr>exclusion_rows := exclusion_rows db @ [row], next_id := Suc (next_id db)\<rparr>, row))"

definition removeBuildPolicyExclusion :: "string \<Rightarrow> nat \<Rightarrow> policy_db \<Rightarrow> policy_db \<times> exclusion_row option" where
  "removeBuildPolicyExclusion org i db =
     (db\<lparr>exclusion_rows := filter (\<lambda>r. \<not> (ex_org r = org \<and> ex_id r = i)) (exclusion_rows db)\<rparr>,
      find (\<lambda>r. ex_org r = org \<and> ex_id r = i) (exclusion_rows db))"

section \<open>Settings and the enforcement cache\<close>

definition findBuildPolicySettings :: "string \<Rightarrow> policy_db \<Rightarrow> bp_settings option" where
  "findBuildPolicySettings org db = map_of (settings_rows db) org"

definition ENFORCEMENT_CACHE_TTL_MS :: int where
  "ENFORCEMENT_CACHE_TTL_MS = 5000"

definition enforced_anywhere :: "policy_db \<Rightarrow> bool" where
  "enforced_anywhere db \<longleftrightarrow> (\<exists>(org, s)\<in>set (settings_rows db). enforceRemoteBuilds s)"

text \<open>The database and this process's cached answer with the time it was read.\<close>

record policy_process =
  pp_db :: policy_db
  pp_cache :: "(bool \<times> int) option"

definition clearBuildPolicyEnforcementCache :: "policy_process \<Rightarrow> policy_process" where
  "clearBuildPolicyEnforcementCache p = p\<lparr>pp_cache := None\<rparr>"

text \<open>The query is taken as one step with the stamp that follows it.\<close>

definition isBuildPolicyEnforcedAnywhere :: "int \<Rightarrow> policy_process \<Rightarrow> policy_process \<times> bool" where
  "isBuildPolicyEnforcedAnywhere now p =
     (case pp_cache p of
        Some (v, readAt) \<Rightarrow>
          if now - readAt < ENFORCEMENT_CACHE_TTL_MS then (p, v)
          else (p\<lparr>pp_cache := Some (enforced_anywhere (pp_db p), now)\<rparr>, enforced_anywhere (pp_db p))
      | None \<Rightarrow> (p\<lparr>pp_cache := Some (enforced_anywhere (pp_db p), now)\<rparr>, enforced_anywhere (pp_db p)))"

text \<open>An update sets the fields it names.\<close>

record settings_update =
  su_enforce :: "bool option"
  su_server :: "string option option"
  su_registry :: "string option option"
  su_timeout :: "int option"

definition DEFAULT_REQUIRED_CHECKS_TIMEOUT_MINUTES :: int where
  "DEFAULT_REQUIRED_CHECKS_TIMEOUT_MINUTES = 5"

text \<open>The column defaults of a new row: policy off, nothing set, the default timeout.\<close>

definition default_settings :: bp_settings where
  "default_settings = \<lparr>enforceRemoteBuilds = False, defaultBuildServerId = None, defaultRegistryId = None,
     requiredChecksTimeoutMinutes = DEFAULT_REQUIRED_CHECKS_TIMEOUT_MINUTES\<rparr>"

definition apply_update :: "settings_update \<Rightarrow> bp_settings \<Rightarrow> bp_settings" where
  "apply_update u s =
     \<lparr>enforceRemoteBuilds = pick (su_enforce u) (enforceRemoteBuilds s),
      defaultBuildServerId = pick (su_server u) (defaultBuildServerId s),
      defaultRegistryId = pick (su_registry u) (defaultRegistryId s),
      requiredChecksTimeoutMinutes = pick (su_timeout u) (requiredChecksTimeoutMinutes s)\<rparr>"

definition upsertBuildPolicySettings :: "string \<Rightarrow> settings_update \<Rightarrow> policy_process \<Rightarrow> policy_process \<times> bp_settings" where
  "upsertBuildPolicySettings org u p =
     (let db = pp_db p;
          s = apply_update u (case findBuildPolicySettings org db of None \<Rightarrow> default_settings | Some s \<Rightarrow> s)
      in (clearBuildPolicyEnforcementCache
            (p\<lparr>pp_db := db\<lparr>settings_rows := AList.update org s (settings_rows db)\<rparr>\<rparr>), s))"

definition requiredChecksTimeoutMs :: "bp_settings option \<Rightarrow> int" where
  "requiredChecksTimeoutMs s =
     (case s of None \<Rightarrow> DEFAULT_REQUIRED_CHECKS_TIMEOUT_MINUTES | Some x \<Rightarrow> requiredChecksTimeoutMinutes x) * 60000"

section \<open>Resolving a decision\<close>

definition glass_of :: "audit_row \<Rightarrow> break_glass" where
  "glass_of r = \<lparr>bg_auditId = au_id r,
     bg_actorEmail = (case au_actorEmail r of None \<Rightarrow> ''unknown'' | Some e \<Rightarrow> e),
     bg_reason = (case au_reason r of None \<Rightarrow> '''' | Some w \<Rightarrow> w)\<rparr>"

text \<open>Settings, decision and grant; nothing is written.\<close>

definition previewBuildPolicyDecision ::
  "url_parser \<Rightarrow> bp_unit \<Rightarrow> policy_db \<Rightarrow> bp_settings option \<times> bp_decision \<times> audit_row option" where
  "previewBuildPolicyDecision u x db =
     (let settings = findBuildPolicySettings (bu_org x) db in
      if \<not> (case settings of None \<Rightarrow> False | Some s \<Rightarrow> enforceRemoteBuilds s)
      then (settings, decideBuildPolicy u x settings False None, None)
      else let ex = isUnitExcluded (bu_org x) (bu_type x) (bu_id x) db;
               grant = findPendingBreakGlass (bu_org x) (bu_type x) (bu_id x) db
           in (settings, decideBuildPolicy u x settings ex (map_option glass_of grant), grant))"

definition unit_audit :: "bp_unit \<Rightarrow> audit_action \<Rightarrow> string option \<Rightarrow> (string \<times> json) list \<Rightarrow> audit_input" where
  "unit_audit x act why meta =
     \<lparr>ai_org = bu_org x, ai_action = act, ai_applicationId = app_of (bu_type x) (bu_id x),
      ai_composeId = compose_of (bu_type x) (bu_id x), ai_actorId = None, ai_actorEmail = None,
      ai_reason = why, ai_metadata = Some meta\<rparr>"

fun code_name :: "bp_code \<Rightarrow> string" where
  "code_name NO_BUILD_SERVER = ''NO_BUILD_SERVER''"
| "code_name NO_REGISTRY = ''NO_REGISTRY''"
| "code_name REGISTRY_NOT_ALLOWED = ''REGISTRY_NOT_ALLOWED''"
| "code_name INVALID_IMAGE = ''INVALID_IMAGE''"
| "code_name INVALID_DIGEST = ''INVALID_DIGEST''"
| "code_name DIGEST_NOT_PUBLISHED = ''DIGEST_NOT_PUBLISHED''"
| "code_name REQUIRED_CHECKS_FAILED = ''REQUIRED_CHECKS_FAILED''"
| "code_name REQUIRED_CHECKS_TIMEOUT = ''REQUIRED_CHECKS_TIMEOUT''"
| "code_name REQUIRED_CHECKS_UNAVAILABLE = ''REQUIRED_CHECKS_UNAVAILABLE''"
| "code_name REQUIRED_CHECKS_UNSUPPORTED = ''REQUIRED_CHECKS_UNSUPPORTED''"

text \<open>
  The grant is found in one statement and stamped in another one, which does not look whether it is spent by then:
  \<open>between\<close> is what other processes write to the tables in between.
\<close>

definition resolveBuildPolicy ::
  "url_parser \<Rightarrow> bool \<Rightarrow> int \<Rightarrow> bool \<Rightarrow> bp_unit \<Rightarrow> (policy_db \<Rightarrow> policy_db) \<Rightarrow> policy_db \<Rightarrow>
   policy_db \<times> bp_settings option \<times> bp_decision" where
  "resolveBuildPolicy u ok now consume x between db =
     (let (settings, decision, grant) = previewBuildPolicyDecision u x db;
          db = between db;
          db = (case (consume, grant, decision) of
                  (True, Some g, Local Break_Glass _) \<Rightarrow>
                    consumeBreakGlass ok now g (bu_org x) (bu_type x) (bu_id x)
                      [(''unitName'', J_Str (bu_name x))] db
                | _ \<Rightarrow> db);
          db = (case decision of
                  Policy_Failure c m \<Rightarrow>
                    fst (recordBuildPolicyAudit ok now (unit_audit x Build_Server_Missing (Some m)
                      [(''code'', J_Str (code_name c)), (''unitName'', J_Str (bu_name x))]) db)
                | Remote srv reg \<Rightarrow>
                    fst (recordBuildPolicyAudit ok now (unit_audit x Remote_Build_Enforced None
                      [(''unitName'', J_Str (bu_name x)), (''buildServerId'', J_Str srv), (''registryId'', J_Str reg)]) db)
                | Local _ _ \<Rightarrow> db)
      in (db, settings, decision))"

section \<open>A grant is spent once\<close>

lemma fold_newest:
  "fold (\<lambda>r best. case best of None \<Rightarrow> Some r
     | Some b \<Rightarrow> if au_createdAt b < au_createdAt r then Some r else Some b) rows best = Some r \<Longrightarrow>
   best = Some r \<or> r \<in> set rows"
  by (induction rows arbitrary: best) (auto split: option.splits if_splits)

lemma newest_SomeD: "newest rows = Some r \<Longrightarrow> r \<in> set rows"
  using fold_newest [of rows None r] by (auto simp: newest_def)

lemma findPending_SomeD:
  "findPendingBreakGlass org t i db = Some r \<Longrightarrow> r \<in> set (audit_rows db) \<and> pending_grant org t i r"
  by (auto simp: findPendingBreakGlass_def dest!: newest_SomeD)

definition db_ok :: "policy_db \<Rightarrow> bool" where
  "db_ok db \<longleftrightarrow> (\<forall>r\<in>set (audit_rows db). au_id r < next_id db) \<and> distinct (map au_id (audit_rows db))"

definition is_grant :: "nat \<Rightarrow> audit_row \<Rightarrow> bool" where
  "is_grant g r \<longleftrightarrow> au_id r = g \<and> au_action r = Break_Glass_Granted"

text \<open>No row can be used as the grant g any more.\<close>

definition grant_spent :: "nat \<Rightarrow> policy_db \<Rightarrow> bool" where
  "grant_spent g db \<longleftrightarrow> g < next_id db \<and> (\<forall>r\<in>set (audit_rows db). is_grant g r \<longrightarrow> au_consumedAt r \<noteq> None)"

lemma spent_insert: "grant_spent g db \<Longrightarrow> grant_spent g (fst (insert_audit now i db))"
  by (auto simp: grant_spent_def insert_audit_def is_grant_def Let_def)

lemma spent_record: "grant_spent g db \<Longrightarrow> grant_spent g (fst (recordBuildPolicyAudit ok now i db))"
  using spent_insert [of g db now i] by (auto simp: recordBuildPolicyAudit_def split: prod.splits)

lemma spent_mark:
  "grant_spent g db \<Longrightarrow> grant_spent g (db\<lparr>audit_rows :=
     map (\<lambda>r. if au_id r = k then r\<lparr>au_consumedAt := Some now\<rparr> else r) (audit_rows db)\<rparr>)"
  by (auto simp: grant_spent_def is_grant_def)

lemma spent_consume: "grant_spent g db \<Longrightarrow> grant_spent g (consumeBreakGlass ok now r org t i meta db)"
  unfolding consumeBreakGlass_def Let_def by (intro spent_record spent_mark)

lemma consume_spends:
  assumes "g < next_id db" "au_id r = g"
  shows "grant_spent g (consumeBreakGlass ok now r org t i meta db)"
  unfolding consumeBreakGlass_def Let_def
  by (rule spent_record) (use assms in \<open>auto simp: grant_spent_def is_grant_def\<close>)

text \<open>Writes of other processes: ids are not used twice, and no grant that was spent is ever unspent.\<close>

definition audit_writes :: "(policy_db \<Rightarrow> policy_db) \<Rightarrow> bool" where
  "audit_writes between \<longleftrightarrow> (\<forall>db. next_id db \<le> next_id (between db)) \<and>
     (\<forall>db g. grant_spent g db \<longrightarrow> grant_spent g (between db))"

lemma resolve_is_audit_write:
  "audit_writes between \<Longrightarrow> grant_spent g db \<Longrightarrow> grant_spent g (fst (resolveBuildPolicy u ok now consume x between db))"
  by (auto simp: audit_writes_def resolveBuildPolicy_def Let_def intro!: spent_record spent_consume
      split: prod.splits option.splits bp_decision.splits local_reason.splits bool.splits)

lemma decision_break_glass:
  assumes "previewBuildPolicyDecision u x db = (settings, Local Break_Glass a, grant)"
  shows "\<exists>r. grant = Some r \<and> a = Some (au_id r) \<and> r \<in> set (audit_rows db) \<and>
    pending_grant (bu_org x) (bu_type x) (bu_id x) r"
proof -
  have "\<exists>r. grant = Some r \<and> a = Some (au_id r) \<and> findPendingBreakGlass (bu_org x) (bu_type x) (bu_id x) db = Some r"
    using assms
    by (auto simp: previewBuildPolicyDecision_def decideBuildPolicy_def Let_def glass_of_def
        split: if_splits option.splits)
  then show ?thesis by (auto dest: findPending_SomeD)
qed

definition later_resolves ::
  "url_parser \<Rightarrow> (bool \<times> int \<times> bool \<times> bp_unit \<times> (policy_db \<Rightarrow> policy_db)) list \<Rightarrow> policy_db \<Rightarrow> policy_db" where
  "later_resolves u cs db = fold (\<lambda>(ok, now, consume, x, between) db. fst (resolveBuildPolicy u ok now consume x between db)) cs db"

lemma spent_later:
  "grant_spent g db \<Longrightarrow> \<forall>(ok, now, consume, x, between)\<in>set cs. audit_writes between \<Longrightarrow> grant_spent g (later_resolves u cs db)"
  by (induction cs arbitrary: db) (auto simp: later_resolves_def resolve_is_audit_write)

text \<open>
  C35. A break-glass grant authorises one local build: after a deploy that resolved to it has
  spent it, no later resolution, of any unit and in any order, is decided by the same grant
  again, whatever other processes write between the two statements of each of them (as long as they do
  not use ids twice and unspend no grant). A read-only preview writes nothing, so it never spends one.
\<close>

theorem break_glass_spent_once:
  assumes "db_ok db" and "resolveBuildPolicy u ok now True x between db = (db1, settings, Local Break_Glass (Some g))"
    and "audit_writes between" and "\<forall>(ok, now, consume, x, between)\<in>set cs. audit_writes between"
  shows "snd (snd (resolveBuildPolicy u ok2 now2 consume2 y between' (later_resolves u cs db1))) \<noteq> Local Break_Glass (Some g)"
proof
  assume again: "snd (snd (resolveBuildPolicy u ok2 now2 consume2 y between' (later_resolves u cs db1))) = Local Break_Glass (Some g)"
  obtain s d gr where p: "previewBuildPolicyDecision u x db = (s, d, gr)" by (metis prod_cases3)
  from assms(2) p have d: "d = Local Break_Glass (Some g)" by (auto simp: resolveBuildPolicy_def Let_def)
  from decision_break_glass [OF p [unfolded d]] obtain r where
    r: "gr = Some r" "au_id r = g" "r \<in> set (audit_rows db)" by auto
  have "g < next_id (between db)"
    using assms(1,3) r(2,3) unfolding db_ok_def audit_writes_def by (metis order_less_le_trans)
  then have "grant_spent g (consumeBreakGlass ok now r (bu_org x) (bu_type x) (bu_id x) [(''unitName'', J_Str (bu_name x))] (between db))"
    using r(2) by (rule consume_spends)
  then have "grant_spent g db1"
    using assms(2) p r(1) d by (auto simp: resolveBuildPolicy_def Let_def)
  then have spent: "grant_spent g (later_resolves u cs db1)" using assms(4) by (rule spent_later)
  obtain s2 d2 gr2 where p2: "previewBuildPolicyDecision u y (later_resolves u cs db1) = (s2, d2, gr2)"
    by (metis prod_cases3)
  from again p2 have "d2 = Local Break_Glass (Some g)" by (auto simp: resolveBuildPolicy_def Let_def)
  from decision_break_glass [OF p2 [unfolded this]] obtain r2 where
    "g = au_id r2" "r2 \<in> set (audit_rows (later_resolves u cs db1))"
    "pending_grant (bu_org y) (bu_type y) (bu_id y) r2" by auto
  with spent show False by (auto simp: grant_spent_def pending_grant_def is_grant_def)
qed

definition sample_db :: policy_db where
  "sample_db = fst (grantBreakGlass 1 ''org'' U_Application ''A'' None ''me'' ''now''
     \<lparr>settings_rows = [(''org'', sample_settings)], exclusion_rows = [], audit_rows = [], next_id = 0\<rparr>)"

theorem break_glass_spent_once_witness:
  "snd (snd (resolveBuildPolicy sample_urls True 3 True sample_unit
     id (fst (resolveBuildPolicy sample_urls True 2 True sample_unit id sample_db)))) \<noteq> Local Break_Glass (Some 0)"
proof -
  have ok: "db_ok sample_db" by code_simp
  have "snd (snd (resolveBuildPolicy sample_urls True 2 True sample_unit id sample_db)) = Local Break_Glass (Some 0)"
    by code_simp
  then have "resolveBuildPolicy sample_urls True 2 True sample_unit id sample_db =
      (fst (resolveBuildPolicy sample_urls True 2 True sample_unit id sample_db),
       fst (snd (resolveBuildPolicy sample_urls True 2 True sample_unit id sample_db)), Local Break_Glass (Some 0))"
    by (simp add: prod_eq_iff)
  from break_glass_spent_once [OF ok this, where cs = "[]" and between' = id] show ?thesis
    by (simp add: later_resolves_def audit_writes_def)
qed

section \<open>The cached answer is never older than its time to live\<close>

text \<open>
  The process with the history of the database, newest first: the time of each write and the
  answer that was right from then on. Another process writes the settings behind the cache.
\<close>

record policy_run =
  pr_proc :: policy_process
  pr_now :: int
  pr_hist :: "(int \<times> bool) list"

inductive policy_step :: "policy_run \<Rightarrow> policy_run \<Rightarrow> bool" where
  ps_tick: "0 \<le> d \<Longrightarrow> policy_step r (r\<lparr>pr_now := pr_now r + d\<rparr>)"
| ps_ask: "policy_step r (r\<lparr>pr_proc := fst (isBuildPolicyEnforcedAnywhere (pr_now r) (pr_proc r))\<rparr>)"
| ps_upsert: "policy_step r (r\<lparr>pr_proc := fst (upsertBuildPolicySettings org u (pr_proc r)),
    pr_hist := (pr_now r, enforced_anywhere (pp_db (fst (upsertBuildPolicySettings org u (pr_proc r))))) # pr_hist r\<rparr>)"
| ps_foreign: "policy_step r (r\<lparr>pr_proc := (pr_proc r)\<lparr>pp_db := db\<rparr>,
    pr_hist := (pr_now r, enforced_anywhere db) # pr_hist r\<rparr>)"

definition policy_init :: "policy_run \<Rightarrow> bool" where
  "policy_init r \<longleftrightarrow> pp_cache (pr_proc r) = None \<and> pr_hist r = [(pr_now r, enforced_anywhere (pp_db (pr_proc r)))]"

text \<open>The answer v was right at time t: it was written by then and not overwritten before t.\<close>

fun right_at :: "(int \<times> bool) list \<Rightarrow> bool \<Rightarrow> int \<Rightarrow> bool" where
  "right_at [] v t = False"
| "right_at ((w, b) # h) v t = (b = v \<and> w \<le> t \<or> t \<le> w \<and> right_at h v t)"

definition policy_inv :: "policy_run \<Rightarrow> bool" where
  "policy_inv r \<longleftrightarrow>
     (\<exists>w h. pr_hist r = (w, enforced_anywhere (pp_db (pr_proc r))) # h \<and> w \<le> pr_now r) \<and>
     (\<forall>v t. pp_cache (pr_proc r) = Some (v, t) \<longrightarrow> t \<le> pr_now r \<and> right_at (pr_hist r) v t)"

lemma policy_inv_now: "policy_inv r \<Longrightarrow> right_at (pr_hist r) (enforced_anywhere (pp_db (pr_proc r))) (pr_now r)"
  by (auto simp: policy_inv_def)

lemma policy_inv_step: "policy_inv r \<Longrightarrow> policy_step r s \<Longrightarrow> policy_inv s"
proof (erule policy_step.cases, goal_cases)
  case (1 d r')
  then show ?case by (fastforce simp: policy_inv_def)
next
  case (2 r')
  from policy_inv_now [OF 2(1)] 2 show ?case
    by (auto simp: policy_inv_def isBuildPolicyEnforcedAnywhere_def split: option.splits)
next
  case (3 r' org u)
  then show ?case
    by (auto simp: policy_inv_def upsertBuildPolicySettings_def clearBuildPolicyEnforcementCache_def Let_def)
next
  case (4 r' db)
  then show ?case by (auto simp: policy_inv_def)
qed

interpretation ip: inductive_invariant policy_init policy_step policy_inv
proof
  show "policy_inv r" if "policy_init r" for r using that by (auto simp: policy_init_def policy_inv_def)
qed (rule policy_inv_step)

text \<open>
  The enforcement answer is never staler than its time to live: whatever other processes
  write, the answer at any moment was the right one at some moment less than five seconds
  before; right after a settings update in the same process it is the current one.
\<close>

lemma enforcement_answer_fresh:
  assumes "reach policy_init policy_step r"
  shows "(\<exists>t. pr_now r - t < ENFORCEMENT_CACHE_TTL_MS \<and> t \<le> pr_now r \<and>
      right_at (pr_hist r) (snd (isBuildPolicyEnforcedAnywhere (pr_now r) (pr_proc r))) t) \<and>
    snd (isBuildPolicyEnforcedAnywhere now (fst (upsertBuildPolicySettings org u (pr_proc r)))) =
      enforced_anywhere (pp_db (fst (upsertBuildPolicySettings org u (pr_proc r))))"
proof
  note inv = ip.reach_inv [OF assms]
  show "\<exists>t. pr_now r - t < ENFORCEMENT_CACHE_TTL_MS \<and> t \<le> pr_now r \<and>
      right_at (pr_hist r) (snd (isBuildPolicyEnforcedAnywhere (pr_now r) (pr_proc r))) t"
  proof (cases "\<exists>v t. pp_cache (pr_proc r) = Some (v, t) \<and> pr_now r - t < ENFORCEMENT_CACHE_TTL_MS")
    case True
    with inv show ?thesis by (auto simp: policy_inv_def isBuildPolicyEnforcedAnywhere_def)
  next
    case False
    then have "snd (isBuildPolicyEnforcedAnywhere (pr_now r) (pr_proc r)) = enforced_anywhere (pp_db (pr_proc r))"
      by (auto simp: isBuildPolicyEnforcedAnywhere_def split: option.splits)
    with policy_inv_now [OF inv] show ?thesis
      by (intro exI [of _ "pr_now r"]) (simp add: ENFORCEMENT_CACHE_TTL_MS_def)
  qed
  show "snd (isBuildPolicyEnforcedAnywhere now (fst (upsertBuildPolicySettings org u (pr_proc r)))) =
      enforced_anywhere (pp_db (fst (upsertBuildPolicySettings org u (pr_proc r))))"
    by (simp add: isBuildPolicyEnforcedAnywhere_def upsertBuildPolicySettings_def
        clearBuildPolicyEnforcementCache_def Let_def)
qed

definition sample_run :: policy_run where
  "sample_run = \<lparr>pr_proc = \<lparr>pp_db = sample_db, pp_cache = None\<rparr>, pr_now = 0, pr_hist = [(0, True)]\<rparr>"

end
