(* ===== verification/Deploy_Push.thy ===== *)
theory Deploy_Push
  imports Queue_Waiting Policy_Store
begin

text \<open>
  What happens to a push before it is queued: the skip marker (\<open>skip-deploy.ts\<close>), coalescing with
  its audit (\<open>coalesce.ts\<close>) and the gate every deploy entry point calls (\<open>webhook.ts\<close>) of
  \<open>packages/server/src/services/build-policy/\<close>, \<open>shouldDeploy\<close> of
  \<open>packages/server/src/utils/watch-paths/should-deploy.ts\<close>, and the queue helpers of
  \<open>apps/dokploy/server/queues/queueSetup.ts\<close> that the gate is given. The matcher micromatch and
  the lookup of an environment's organization are parameters. The locale \<open>coalescing_queue\<close> is
  the interface between the gate and the queue.
\<close>

section \<open>The skip marker and the watch paths\<close>

definition SKIP_DEPLOY_MARKERS :: "string list" where
  "SKIP_DEPLOY_MARKERS = [''[skip deploy]'', ''[deploy skip]'', ''[no deploy]'']"

definition matchedSkipDeployMarker :: "string option \<Rightarrow> string option" where
  "matchedSkipDeployMarker message =
     (if \<not> truthy message then None
      else let haystack = toLowerCase (the message)
           in find (\<lambda>marker. sublist marker haystack) SKIP_DEPLOY_MARKERS)"

definition hasSkipDeployMarker :: "string option \<Rightarrow> bool" where
  "hasSkipDeployMarker message \<longleftrightarrow>
     (if \<not> truthy message then False
      else let haystack = toLowerCase (the message)
           in \<exists>marker\<in>set SKIP_DEPLOY_MARKERS. sublist marker haystack)"

type_synonym matcher = "string list \<Rightarrow> string list \<Rightarrow> string list"

definition shouldDeploy :: "matcher \<Rightarrow> string list option \<Rightarrow> string option list option \<Rightarrow> bool" where
  "shouldDeploy micromatch watchPaths modifiedFiles =
     (case watchPaths of
        None \<Rightarrow> True
      | Some [] \<Rightarrow> True
      | Some paths \<Rightarrow>
          let files = List.map_filter id (case modifiedFiles of None \<Rightarrow> [] | Some fs \<Rightarrow> fs)
          in micromatch files paths \<noteq> [])"

section \<open>Coalescing with its audit\<close>

definition isCoalescableDeployJob :: "unit_type \<Rightarrow> string \<Rightarrow> deployment_job \<Rightarrow> bool" where
  "isCoalescableDeployJob t unitId d \<longleftrightarrow>
     (if t = U_Application then applicationType d = App \<and> applicationId d = Some unitId
      else applicationType d = Compose \<and> composeId d = Some unitId)"

record coalesce_removal =
  rm_removed :: nat
  rm_titles :: "string list option"
  rm_merged :: "bool option"

text \<open>The callback answers a count or a record, or throws.\<close>

datatype removal_answer = Answer_Count nat | Answer_Record coalesce_removal | Answer_Throws string

definition normalize :: "removal_answer \<Rightarrow> coalesce_removal option" where
  "normalize a =
     (case a of
        Answer_Count n \<Rightarrow> Some \<lparr>rm_removed = n, rm_titles = None, rm_merged = None\<rparr>
      | Answer_Record r \<Rightarrow> Some r
      | Answer_Throws _ \<Rightarrow> None)"

record coalesce_entry =
  ce_org :: string
  ce_applicationId :: "string option"
  ce_composeId :: "string option"
  ce_removed :: nat
  ce_merged :: bool
  ce_unitType :: unit_type
  ce_unitName :: string
  ce_droppedTitles :: "string list option"

text \<open>
  The queue and the audit store are threaded; a throw of either callback is swallowed by the
  source, so the audit callback is a state function that stops where it threw.
\<close>

definition coalesceQueuedDeploy ::
  "unit_type \<Rightarrow> string \<Rightarrow> string \<Rightarrow> string \<Rightarrow> ('q \<Rightarrow> 'q \<times> removal_answer) \<Rightarrow>
   (coalesce_entry \<Rightarrow> 'a \<Rightarrow> 'a) \<Rightarrow> 'q \<Rightarrow> 'a \<Rightarrow> 'q \<times> 'a \<times> nat \<times> bool" where
  "coalesceQueuedDeploy t unitId unitName org dropWaiting recordAudit q a =
     (let (q, answer) = dropWaiting q in
      case normalize answer of
        None \<Rightarrow> (q, a, 0, False)
      | Some r \<Rightarrow>
          let m = (rm_merged r = Some True) in
          if rm_removed r = 0 \<and> \<not> m then (q, a, 0, False)
          else (q, recordAudit
                 \<lparr>ce_org = org, ce_applicationId = app_of t unitId, ce_composeId = compose_of t unitId,
                  ce_removed = rm_removed r, ce_merged = m, ce_unitType = t, ce_unitName = unitName,
                  ce_droppedTitles = (case rm_titles r of None \<Rightarrow> None | Some [] \<Rightarrow> None | Some ts \<Rightarrow> Some ts)\<rparr> a,
                rm_removed r, m))"

section \<open>The queue helpers\<close>

definition queue_coalesce :: "(deployment_job \<Rightarrow> bool) \<Rightarrow> deployment_job \<Rightarrow> queue \<Rightarrow> queue \<times> removal_answer" where
  "queue_coalesce matches incoming q =
     (let (q, r) = coalesceWaiting incoming matches q in
      (q, Answer_Record \<lparr>rm_removed = length (removed r), rm_titles = Some (titles r),
           rm_merged = Some (merged r \<noteq> None)\<rparr>))"

definition coalesceQueuedApplicationDeploys :: "string \<Rightarrow> deployment_job \<Rightarrow> queue \<Rightarrow> queue \<times> removal_answer" where
  "coalesceQueuedApplicationDeploys i incoming = queue_coalesce (isCoalescableDeployJob U_Application i) incoming"

definition coalesceQueuedComposeDeploys :: "string \<Rightarrow> deployment_job \<Rightarrow> queue \<Rightarrow> queue \<times> removal_answer" where
  "coalesceQueuedComposeDeploys i incoming = queue_coalesce (isCoalescableDeployJob U_Compose i) incoming"

section \<open>The gate\<close>

record gate_unit =
  gu_id :: string
  gu_name :: string
  gu_environmentId :: string
  gu_watchPaths :: "string list option"
  gu_inputs :: watch_input

datatype gate_result =
    Deploy_Now nat bool
  | Skip_Marker string
  | Skip_Watch_Paths string

record trail_row =
  tr_org :: string
  tr_actor :: string
  tr_impersonatedBy :: "string option"
  tr_entry :: coalesce_entry

record gate_state =
  gs_proc :: policy_process
  gs_trail :: "trail_row list"

record gate_env =
  ge_now :: int
  ge_auditOk :: bool
  ge_trailOk :: bool
  ge_findOrg :: "string \<Rightarrow> string option"
  ge_micromatch :: matcher
  ge_caller :: "(string \<times> string option) option"

definition with_db :: "(policy_db \<Rightarrow> policy_db) \<Rightarrow> gate_state \<Rightarrow> gate_state" where
  "with_db f s = s\<lparr>gs_proc := (gs_proc s)\<lparr>pp_db := f (pp_db (gs_proc s))\<rparr>\<rparr>"

definition findEnforcingOrganizationId :: "gate_env \<Rightarrow> string \<Rightarrow> gate_state \<Rightarrow> gate_state \<times> string option" where
  "findEnforcingOrganizationId e environmentId s =
     (let (proc, anywhere) = isBuildPolicyEnforcedAnywhere (ge_now e) (gs_proc s);
          s = s\<lparr>gs_proc := proc\<rparr>
      in if \<not> anywhere then (s, None)
         else case ge_findOrg e environmentId of
             None \<Rightarrow> (s, None)
           | Some org \<Rightarrow>
               if org = [] then (s, None)
               else (s, case findBuildPolicySettings org (pp_db proc) of
                   None \<Rightarrow> None
                 | Some x \<Rightarrow> if enforceRemoteBuilds x then Some org else None))"

definition skip_audit :: "gate_env \<Rightarrow> string \<Rightarrow> unit_type \<Rightarrow> gate_unit \<Rightarrow> string \<Rightarrow> (string \<times> json) list \<Rightarrow> gate_state \<Rightarrow> gate_state" where
  "skip_audit e org t x message meta =
     with_db (\<lambda>db. fst (recordBuildPolicyAudit (ge_auditOk e) (ge_now e)
       \<lparr>ai_org = org, ai_action = Deploy_Skipped, ai_applicationId = app_of t (gu_id x),
        ai_composeId = compose_of t (gu_id x), ai_actorId = None, ai_actorEmail = None,
        ai_reason = Some message, ai_metadata = Some ((''unitName'', J_Str (gu_name x)) # meta)\<rparr> db))"

definition AUDIT_CHANGED_FILES_LIMIT :: nat where
  "AUDIT_CHANGED_FILES_LIMIT = 50"

definition entry_meta :: "coalesce_entry \<Rightarrow> (string \<times> json) list" where
  "entry_meta c =
     [(''removed'', J_Num (int (ce_removed c)))] @
     (if ce_merged c then [(''merged'', J_Bool True)] else []) @
     [(''unitType'', J_Str (if ce_unitType c = U_Application then ''application'' else ''compose'')),
      (''unitName'', J_Str (ce_unitName c))] @
     (case ce_droppedTitles c of None \<Rightarrow> [] | Some ts \<Rightarrow> [(''droppedTitles'', J_Arr (map J_Str ts))])"

text \<open>The cancel trail first and on its own, without the titles, then the policy's audit.\<close>

definition gate_record :: "gate_env \<Rightarrow> coalesce_entry \<Rightarrow> gate_state \<Rightarrow> gate_state" where
  "gate_record e c s =
     (let s = (if ge_trailOk e then s\<lparr>gs_trail := gs_trail s @
            [\<lparr>tr_org = ce_org c, tr_actor = (case ge_caller e of None \<Rightarrow> ''system'' | Some (act, _) \<Rightarrow> act),
              tr_impersonatedBy = (case ge_caller e of None \<Rightarrow> None | Some (_, im) \<Rightarrow> im),
              tr_entry = c\<lparr>ce_droppedTitles := None\<rparr>\<rparr>]\<rparr> else s)
      in with_db (\<lambda>db. fst (recordBuildPolicyAudit (ge_auditOk e) (ge_now e)
           \<lparr>ai_org = ce_org c, ai_action = Deploy_Coalesced, ai_applicationId = ce_applicationId c,
            ai_composeId = ce_composeId c, ai_actorId = None, ai_actorEmail = None, ai_reason = None,
            ai_metadata = Some (entry_meta c)\<rparr> db)) s)"

definition buildPolicyDeployGate ::
  "gate_env \<Rightarrow> unit_type \<Rightarrow> gate_unit \<Rightarrow> string list option \<Rightarrow> string option \<Rightarrow>
   ('q \<Rightarrow> 'q \<times> removal_answer) \<Rightarrow> 'q \<Rightarrow> gate_state \<Rightarrow> 'q \<times> gate_state \<times> gate_result" where
  "buildPolicyDeployGate e t x changedFiles commitMessage dropWaiting q s =
     (let (s, enforcing) = findEnforcingOrganizationId e (gu_environmentId x) s in
      case enforcing of
        None \<Rightarrow> (q, s, Deploy_Now 0 False)
      | Some org \<Rightarrow>
          (case matchedSkipDeployMarker commitMessage of
             Some marker \<Rightarrow>
               let message = ''Deployment skipped: the commit message contains '' @ marker
               in (q, skip_audit e org t x message [(''marker'', J_Str marker)] s, Skip_Marker message)
           | None \<Rightarrow>
               let hasOwn = (case gu_watchPaths x of None \<Rightarrow> False | Some ps \<Rightarrow> ps \<noteq> []);
                   paths = fst (resolveWatchPaths (gu_watchPaths x) ((gu_inputs x)\<lparr>wi_unitType := t\<rparr>))
               in (case (hasOwn, changedFiles) of
                     (False, Some files) \<Rightarrow>
                       if \<not> shouldDeploy (ge_micromatch e) (Some paths) (Some (map Some files)) then
                         let message = ''Deployment skipped: no changed file matched the derived watch paths ('' @
                               join '', '' paths @ '')''
                         in (q, skip_audit e org t x message
                               [(''derivedWatchPaths'', J_Arr (map J_Str paths)),
                                (''changedFilesCount'', J_Num (int (length files))),
                                (''changedFilesTruncated'', J_Bool (AUDIT_CHANGED_FILES_LIMIT < length files)),
                                (''changedFiles'', J_Arr (map J_Str (take AUDIT_CHANGED_FILES_LIMIT files)))] s,
                             Skip_Watch_Paths message)
                       else let (q, s, n, m) = coalesceQueuedDeploy t (gu_id x) (gu_name x) org dropWaiting (gate_record e) q s
                            in (q, s, Deploy_Now n m)
                   | _ \<Rightarrow> let (q, s, n, m) = coalesceQueuedDeploy t (gu_id x) (gu_name x) org dropWaiting (gate_record e) q s
                            in (q, s, Deploy_Now n m))))"

section \<open>The gate touches the queue only for an enforcing organization\<close>

definition enforcing_org :: "gate_env \<Rightarrow> gate_unit \<Rightarrow> gate_state \<Rightarrow> string \<Rightarrow> bool" where
  "enforcing_org e x s org \<longleftrightarrow> ge_findOrg e (gu_environmentId x) = Some org \<and>
     (\<exists>st. findBuildPolicySettings org (pp_db (gs_proc s)) = Some st \<and> enforceRemoteBuilds st)"

lemma enforced_db: "pp_db (fst (isBuildPolicyEnforcedAnywhere now p)) = pp_db p"
  by (auto simp: isBuildPolicyEnforcedAnywhere_def split: option.splits)

lemma findEnforcing_Some:
  "findEnforcingOrganizationId e (gu_environmentId x) s = (s', Some org) \<Longrightarrow> enforcing_org e x s org"
  using enforced_db [of "ge_now e" "gs_proc s"]
  by (auto simp: findEnforcingOrganizationId_def enforcing_org_def Let_def
      split: prod.splits if_splits option.splits)

lemma findEnforcing_frame:
  "findEnforcingOrganizationId e env s = (s', r) \<Longrightarrow> pp_db (gs_proc s') = pp_db (gs_proc s) \<and> gs_trail s' = gs_trail s"
  using enforced_db [of "ge_now e" "gs_proc s"]
  by (auto simp: findEnforcingOrganizationId_def Let_def split: prod.splits if_splits option.splits)

text \<open>
  The gate is a no-op where nobody enforces: unless the unit's organization enforces remote
  builds the push is deployed as it is, no waiting job is touched and nothing is written but the
  cached answer; a push that is skipped (marker or watch paths) drops no waiting job either.
\<close>

lemma gate_noop_unless_enforcing:
  assumes "buildPolicyDeployGate e t x files msg dropWaiting q s = (q', s', r)"
  shows "((\<forall>org. \<not> enforcing_org e x s org) \<longrightarrow>
      q' = q \<and> r = Deploy_Now 0 False \<and> pp_db (gs_proc s') = pp_db (gs_proc s) \<and> gs_trail s' = gs_trail s) \<and>
    (\<forall>m. r = Skip_Marker m \<or> r = Skip_Watch_Paths m \<longrightarrow> q' = q) \<and>
    (matchedSkipDeployMarker msg \<noteq> None \<longrightarrow> q' = q)"
proof -
  obtain s1 o1 where f: "findEnforcingOrganizationId e (gu_environmentId x) s = (s1, o1)" by force
  show ?thesis
  proof (cases o1)
    case None
    with assms f findEnforcing_frame [OF f] show ?thesis by (simp add: buildPolicyDeployGate_def)
  next
    case (Some org)
    from findEnforcing_Some [OF f [unfolded Some]] have "enforcing_org e x s org" .
    moreover have "(\<forall>m. r = Skip_Marker m \<or> r = Skip_Watch_Paths m \<longrightarrow> q' = q) \<and>
        (matchedSkipDeployMarker msg \<noteq> None \<longrightarrow> q' = q)"
      using assms f Some
      by (auto simp: buildPolicyDeployGate_def Let_def split: prod.splits option.splits if_splits bool.splits)
    ultimately show ?thesis by blast
  qed
qed

section \<open>A burst of pushes leaves one waiting build\<close>

text \<open>
  What the entry points rely on when they fold a push in and enqueue it otherwise. \<open>same\<close> says
  that two pushes are duplicates of each other, \<open>dup d q\<close> counts the waiting duplicates of d.
\<close>

locale coalescing_queue =
  fixes inv :: "'q \<Rightarrow> bool"
    and ok :: "'p \<Rightarrow> bool"
    and same :: "'p \<Rightarrow> 'p \<Rightarrow> bool"
    and dup :: "'p \<Rightarrow> 'q \<Rightarrow> nat"
    and fold_in :: "'p \<Rightarrow> 'q \<Rightarrow> 'q \<times> bool"
    and enqueue :: "'p \<Rightarrow> 'q \<Rightarrow> 'q"
    and newest :: "'p \<Rightarrow> 'q \<Rightarrow> bool"
  assumes fold_inv: "inv q \<Longrightarrow> inv (fst (fold_in d q))"
    and fold_dup: "inv q \<Longrightarrow> ok d \<Longrightarrow> dup d (fst (fold_in d q)) = (if snd (fold_in d q) then 1 else 0)"
    and enqueue_inv: "inv q \<Longrightarrow> inv (enqueue d q)"
    and enqueue_dup: "inv q \<Longrightarrow> ok d \<Longrightarrow> dup d (enqueue d q) = Suc (dup d q)"
    and same_dup: "same d d' \<Longrightarrow> dup d q = dup d' q"
    and fold_newest: "inv q \<Longrightarrow> ok d \<Longrightarrow> newest d (fst (fold_in d q))"
    and enqueue_newest: "inv q \<Longrightarrow> ok d \<Longrightarrow> newest d q \<Longrightarrow> newest d (enqueue d q)"
begin

definition push :: "'p \<Rightarrow> 'q \<Rightarrow> 'q" where
  "push d q = (let (q', m) = fold_in d q in if m then q' else enqueue d q')"

lemma push_inv: "inv q \<Longrightarrow> inv (push d q)"
  using fold_inv [of q d] by (auto simp: push_def enqueue_inv split: prod.splits)

lemma push_one: "inv q \<Longrightarrow> ok d \<Longrightarrow> dup d (push d q) = 1"
  using fold_inv [of q d] fold_dup [of q d] enqueue_dup [of "fst (fold_in d q)" d]
  by (auto simp: push_def split: prod.splits)

lemma push_newest: "inv q \<Longrightarrow> ok d \<Longrightarrow> newest d (push d q)"
  using fold_newest [of q d] enqueue_newest [of "fst (fold_in d q)" d] fold_inv [of q d]
  by (auto simp: push_def split: prod.splits)

lemma pushes_inv: "inv q \<Longrightarrow> inv (fold push ds q)"
  by (induction ds arbitrary: q) (simp_all add: push_inv)

lemma burst_one:
  assumes "inv q" "ok d" "\<forall>x\<in>set ds. same x d"
  shows "dup d (push d (fold push ds q)) = 1" "newest d (push d (fold push ds q))"
    "x \<in> set ds \<Longrightarrow> dup x (push d (fold push ds q)) = 1"
proof -
  show one: "dup d (push d (fold push ds q)) = 1" and "newest d (push d (fold push ds q))"
    using pushes_inv [OF assms(1)] by (simp_all add: push_one push_newest assms(2))
  show "x \<in> set ds \<Longrightarrow> dup x (push d (fold push ds q)) = 1" using one same_dup [of x d] assms(3) by simp
qed

end

text \<open>The same on the model: the waiting plain deploys of a unit that a push would fold into.\<close>

definition all_waiting :: "queue \<Rightarrow> internal_job list" where
  "all_waiting q = concat (map (\<lambda>(k, p). waiting p) (partitions q))"

definition duplicates :: "(deployment_job \<Rightarrow> bool) \<Rightarrow> deployment_job \<Rightarrow> queue \<Rightarrow> nat" where
  "duplicates P d q = length (filter (coalesce_match d P) (all_waiting q))"

definition fold_push :: "(deployment_job \<Rightarrow> bool) \<Rightarrow> deployment_job \<Rightarrow> queue \<Rightarrow> queue \<times> bool" where
  "fold_push P d q = (fst (coalesceWaiting d P q), merged (snd (coalesceWaiting d P q)) \<noteq> None)"

definition plain_push :: "unit_type \<Rightarrow> string \<Rightarrow> deployment_job \<Rightarrow> bool" where
  "plain_push t i d \<longleftrightarrow> isCoalescableDeployJob t i d \<and> priority d \<noteq> Some True"

definition same_push :: "deployment_job \<Rightarrow> deployment_job \<Rightarrow> bool" where
  "same_push a b \<longleftrightarrow> sameJobProfile a b False"

text \<open>
  Every waiting deploy that the push would fold into carries the payload of the push, but for the registered
  deployment it may have taken over.
\<close>

definition carries :: "deployment_job \<Rightarrow> internal_job \<Rightarrow> bool" where
  "carries d j \<longleftrightarrow> jdata j = d\<lparr>deploymentId := deploymentId (jdata j)\<rparr>"

definition all_newest :: "(deployment_job \<Rightarrow> bool) \<Rightarrow> deployment_job \<Rightarrow> queue \<Rightarrow> bool" where
  "all_newest P d q \<longleftrightarrow> (\<forall>j\<in>set (filter (coalesce_match d P) (all_waiting q)). carries d j)"

lemma coalesce_payload_match:
  "isCoalescableDeployJob t i d \<Longrightarrow>
   isCoalescableDeployJob t i (coalesce_payload d M q) \<and> sameJobProfile (coalesce_payload d M q) d False"
  by (auto simp: coalesce_payload_def merged_payload_def isCoalescableDeployJob_def sameJobProfile_def)

lemma all_waiting_distinct:
  assumes inv: "queue_inv q"
  shows "distinct (all_waiting q)"
proof -
  have "mset (map jid (concat (map (\<lambda>(k, p). waiting p) ps))) \<subseteq># job_ids ps []" for ps
  proof (induction ps)
    case (Cons x ps)
    obtain k p where "x = (k, p)" by force
    moreover have "mset (map jid (waiting p)) \<subseteq># part_ids p" by (simp add: part_ids_def)
    ultimately show ?case
      using Cons by (auto simp: job_ids_def intro: subset_mset.add_mono)
  qed simp
  from this [of "partitions q"] have "mset (map jid (all_waiting q)) \<subseteq># job_ids (partitions q) (late q)"
    unfolding all_waiting_def job_ids_late [of _ "late q"] by (rule subset_mset.order_trans) simp
  from ids_distinct [OF queue_invD(3) [OF inv] this] show ?thesis by (simp add: distinct_map)
qed

lemma all_waiting_iff:
  assumes "queue_inv q"
  shows "j \<in> set (all_waiting q) \<longleftrightarrow> (\<exists>k p. map_of (partitions q) k = Some p \<and> j \<in> set (waiting p))"
  using queue_invD(1) [OF assms] by (force simp: all_waiting_def)

lemma map_waiting_all:
  "all_waiting (map_waiting f q) = concat (map (\<lambda>(k, p). f (waiting p)) (partitions q))"
  by (simp add: all_waiting_def map_waiting_def case_prod_unfold comp_def)

lemma all_waiting_frame:
  "partitions q' = partitions q \<Longrightarrow> all_waiting q' = all_waiting q"
  by (simp add: all_waiting_def)

lemma all_waiting_frames [simp]:
  "all_waiting (settle js q) = all_waiting q" "all_waiting (reportDropped ds q) = all_waiting q"
  "all_waiting (notify_updated i d q) = all_waiting q" "all_waiting (emit es q) = all_waiting q"
  by (rule all_waiting_frame, simp)+

text \<open>The waiting jobs after a merge: the others as they were, and the target with its payload.\<close>

lemma coalesce_all_waiting:
  fixes d :: deployment_job and P :: "deployment_job \<Rightarrow> bool"
  assumes inv: "queue_inv q"
  defines "M \<equiv> coalesce_match d P"
  defines "t \<equiv> coalesce_target M (getPartition d) q"
  shows "all_waiting (fst (coalesceWaiting d P q)) =
    (case t of None \<Rightarrow> id | Some j \<Rightarrow> set_payload (jid j) (coalesce_payload d M q))
      (filter (\<lambda>j. \<not> M j \<or> t = Some j) (all_waiting q))"
proof -
  let ?gone = "coalesce_dropped M (getPartition d) q"
  have w: "without ?gone (waiting p) = filter (\<lambda>j. \<not> M j \<or> t = Some j) (waiting p)"
    if "(k, p) \<in> set (partitions q)" for k p
    unfolding t_def using that queue_invD(1) [OF inv] by (intro without_dropped [OF inv]) simp
  have aw: "all_waiting (map_waiting (without ?gone) q) = filter (\<lambda>j. \<not> M j \<or> t = Some j) (all_waiting q)"
    unfolding map_waiting_all
    unfolding all_waiting_def filter_concat map_map
    by (rule arg_cong [where f = concat], rule map_cong) (auto simp: w)
  have sp: "all_waiting (map_waiting (set_payload i p) q') = set_payload i p (all_waiting q')" for i p q'
    unfolding map_waiting_all by (simp add: all_waiting_def set_payload_def map_concat comp_def case_prod_unfold)
  show ?thesis
    unfolding coalesceWaiting_def Let_def coalesce_parts_home [OF queue_invD(1) [OF inv]]
      M_def [symmetric] t_def [symmetric]
    using aw
    by (cases t)
      (simp_all add: sp coalesce_payload_def t_def [symmetric])
qed

lemma filter_target:
  assumes "distinct js" "t \<in> set js"
  shows "filter (\<lambda>j. Some t = Some j) js = [t]"
  using assms by (induction js) (auto simp: filter_empty_conv)

lemma fold_push_left:
  fixes ut i d q
  defines "t \<equiv> coalesce_target (coalesce_match d (isCoalescableDeployJob ut i)) (getPartition d) q"
  assumes inv: "queue_inv q" and ok: "plain_push ut i d"
  shows "filter (coalesce_match d (isCoalescableDeployJob ut i)) (all_waiting (fst (fold_push (isCoalescableDeployJob ut i) d q))) =
      (case t of None \<Rightarrow> []
       | Some x \<Rightarrow> [x\<lparr>jdata := coalesce_payload d (coalesce_match d (isCoalescableDeployJob ut i)) q\<rparr>])"
    and "snd (fold_push (isCoalescableDeployJob ut i) d q) \<longleftrightarrow> t \<noteq> None"
proof -
  let ?P = "isCoalescableDeployJob ut i"
  let ?M = "coalesce_match d ?P"
  have "(merged (snd (coalesceWaiting d ?P q)) \<noteq> None) = (t \<noteq> None)"
    unfolding coalesceWaiting_def Let_def coalesce_parts_home [OF queue_invD(1) [OF inv]] t_def [symmetric]
    by (cases t) simp_all
  then show "snd (fold_push ?P d q) \<longleftrightarrow> t \<noteq> None" by (simp add: fold_push_def)
  note aw = coalesce_all_waiting [OF inv, of d ?P, folded t_def]
  show "filter ?M (all_waiting (fst (fold_push ?P d q))) = (case t of None \<Rightarrow> [] | Some x \<Rightarrow> [x\<lparr>jdata := coalesce_payload d ?M q\<rparr>])"
  proof (cases t)
    case None
    then show ?thesis
      using aw by (simp add: fold_push_def filter_filter filter_empty_conv)
  next
    case (Some x)
    then have x: "?M x" "x \<in> set (all_waiting q)"
    proof -
      from Some obtain r where r: "map_of (partitions q) (getPartition d) = Some r" "x \<in> set (waiting r)" "?M x"
        by (cases "map_of (partitions q) (getPartition d)")
          (auto simp: t_def coalesce_target_def part_of_def dest!: find_SomeD)
      then show "?M x" "x \<in> set (all_waiting q)" by (auto simp: all_waiting_iff [OF inv])
    qed
    define w where "w = filter (\<lambda>j. \<not> ?M j \<or> Some x = Some j) (all_waiting q)"
    define u :: "internal_job \<Rightarrow> internal_job" where "u = (\<lambda>j. if jid j = jid x then j\<lparr>jdata := coalesce_payload d ?M q\<rparr> else j)"
    have ids: "distinct (map jid (all_waiting q))"
    proof -
      have "inj_on jid (set (all_jobs q))" using all_jobs_distinct [OF inv] by (simp add: distinct_map)
      moreover have "set (all_waiting q) \<subseteq> set (all_jobs q)" by (auto simp: all_waiting_def all_jobs_def)
      ultimately show ?thesis
        using all_waiting_distinct [OF inv] by (auto simp: distinct_map intro: inj_on_subset)
    qed
    have "?M (u j) \<longleftrightarrow> j = x" if "j \<in> set w" for j
    proof (cases "jid j = jid x")
      case True
      with that x late_unique [OF ids] have "j = x" by (auto simp: w_def)
      with ok coalesce_payload_match [of ut i d ?M q] show ?thesis
        by (simp add: u_def coalesce_match_def plain_push_def)
    next
      case False
      with that show ?thesis by (auto simp: u_def w_def)
    qed
    then have "filter ?M (map u w) = map u (filter (\<lambda>j. Some x = Some j) w)"
      by (simp add: filter_map comp_def eq_commute cong: filter_cong)
    also have "filter (\<lambda>j. Some x = Some j) w = [x]"
      using x all_waiting_distinct [OF inv] by (intro filter_target) (simp_all add: w_def)
    finally show ?thesis
      using aw Some by (simp add: fold_push_def w_def u_def set_payload_def)
  qed
qed

lemma fold_push_dup:
  assumes "queue_inv q" and "plain_push ut i d"
  shows "duplicates (isCoalescableDeployJob ut i) d (fst (fold_push (isCoalescableDeployJob ut i) d q)) =
    (if snd (fold_push (isCoalescableDeployJob ut i) d q) then 1 else 0)"
  using fold_push_left [OF assms] by (simp add: duplicates_def split: option.splits)

lemma carries_merged: "carries d (x\<lparr>jdata := coalesce_payload d M q\<rparr>)"
  by (simp add: carries_def coalesce_payload_def merged_payload_def)

lemma fold_push_newest:
  assumes "queue_inv q" and "plain_push ut i d"
  shows "all_newest (isCoalescableDeployJob ut i) d (fst (fold_push (isCoalescableDeployJob ut i) d q))"
  unfolding all_newest_def fold_push_left(1) [OF assms] by (auto simp: carries_merged split: option.splits)

lemma add_all_waiting:
  assumes inv: "queue_inv q" and "priority d \<noteq> Some True"
  shows "\<exists>job. jdata job = d \<and> mset (all_waiting (fst (add uuid now d q))) = add_mset job (mset (all_waiting q))"
proof -
  obtain q1 p where g: "getPartitionState (getPartition d) q = (q1, p)" by force
  note g1 = getPartitionState_inv [OF inv g]
  have aw1: "all_waiting q1 = all_waiting q"
    using g by (auto simp: getPartitionState_def all_waiting_def AList_update_None split: option.splits)
  obtain q2 job where c: "createJob d uuid now q1 = (q2, job)" by force
  note c1 = createJob_props [OF c]
  define q3 where "q3 = set_part (getPartition d) (p\<lparr>waiting := waiting p @ [job]\<rparr>) q2"
  have "mset (all_waiting q3) + mset (waiting p) = mset (all_waiting q2) + mset (waiting p @ [job])"
  proof -
    have eq: "mset (all_waiting r) = sum_list (map (\<lambda>(k, p). mset (waiting p)) (partitions r))" for r
      by (simp add: all_waiting_def mset_concat comp_def case_prod_unfold)
    have "map_of (partitions q2) (getPartition d) = Some p" using g1(2) c1(1) by simp
    from sum_list_AList_update [OF this, of "\<lambda>(k, p). mset (waiting p)" "p\<lparr>waiting := waiting p @ [job]\<rparr>"]
    show ?thesis by (simp add: eq q3_def)
  qed
  moreover have "all_waiting q2 = all_waiting q" using aw1 c1(1) by (simp add: all_waiting_def)
  ultimately have "mset (all_waiting q3) = add_mset job (mset (all_waiting q))"
    by (metis add_right_cancel mset_append mset_single_iff_right add_mset_add_single union_assoc union_commute mset.simps)
  moreover have "all_waiting (fst (add uuid now d q)) = all_waiting q3"
  proof -
    have "partitions (schedule q3) = partitions q3"
      using core_schedule [of q3] by (simp add: core_def)
    then show ?thesis
      using assms(2) by (simp add: add_def g c Let_def q3_def [symmetric] all_waiting_def)
  qed
  ultimately show ?thesis using c1(4) by auto
qed

lemma add_dup:
  assumes inv: "queue_inv q" and ok: "plain_push ut i d"
  shows "duplicates (isCoalescableDeployJob ut i) d (fst (add uuid now d q)) =
    Suc (duplicates (isCoalescableDeployJob ut i) d q)"
proof -
  let ?M = "coalesce_match d (isCoalescableDeployJob ut i)"
  obtain job where job: "jdata job = d"
    "mset (all_waiting (fst (add uuid now d q))) = add_mset job (mset (all_waiting q))"
    using add_all_waiting [OF inv, of d uuid now] ok by (auto simp: plain_push_def)
  have "size (filter_mset ?M (mset (all_waiting (fst (add uuid now d q))))) =
      Suc (size (filter_mset ?M (mset (all_waiting q))))"
    using ok job by (simp add: coalesce_match_def plain_push_def)
  then show ?thesis by (simp add: duplicates_def flip: size_mset)
qed

lemma add_newest:
  assumes inv: "queue_inv q" and ok: "plain_push ut i d" and newest: "all_newest (isCoalescableDeployJob ut i) d q"
  shows "all_newest (isCoalescableDeployJob ut i) d (fst (add uuid now d q))"
proof -
  obtain job where job: "jdata job = d" "mset (all_waiting (fst (add uuid now d q))) = add_mset job (mset (all_waiting q))"
    using add_all_waiting [OF inv, of d uuid now] ok by (auto simp: plain_push_def)
  from arg_cong [OF job(2), of set_mset] have "set (all_waiting (fst (add uuid now d q))) = insert job (set (all_waiting q))" by simp
  moreover have "carries d job" by (simp add: carries_def job(1))
  ultimately show ?thesis using newest by (auto simp: all_newest_def)
qed

interpretation cq: coalescing_queue queue_inv "plain_push ut i" same_push
    "duplicates (isCoalescableDeployJob ut i)" "fold_push (isCoalescableDeployJob ut i)"
    "\<lambda>d q. fst (add (uuid d) now d q)" "all_newest (isCoalescableDeployJob ut i)"
  for ut i uuid now
proof
  show "queue_inv (fst (fold_push (isCoalescableDeployJob ut i) d q))" if "queue_inv q" for q d
    using inv_coalesce [OF that] by (simp add: fold_push_def)
  show "duplicates (isCoalescableDeployJob ut i) d q = duplicates (isCoalescableDeployJob ut i) d' q"
    if "same_push d d'" for d d' q
  proof -
    have "sameJobProfile x d False = sameJobProfile x d' False" for x
      using that sameJobProfile_trans sameJobProfile_sym by (metis same_push_def)
    then have "coalesce_match d P = coalesce_match d' P" for P by (auto simp: coalesce_match_def)
    then show ?thesis by (simp add: duplicates_def)
  qed
qed (simp_all add: fold_push_dup inv_add add_dup fold_push_newest add_newest)

section \<open>An entry point\<close>

text \<open>
  The part of an application's deploy hook (\<open>apps/dokploy/pages/api/deploy/[refreshToken].ts\<close>)
  from the gate to the queue, on a self-hosted instance: a merged push is not enqueued. The handler awaits the gate,
  and the gate its audit, after the synchronous merge: \<open>between\<close> is what other requests and the workers do to the
  queue from the merge to the \<open>add\<close>. (What they do before the merge, while the gate reads the database, is in the
  queue that the merge finds.)
\<close>

definition gated_push ::
  "gate_env \<Rightarrow> gate_unit \<Rightarrow> string \<Rightarrow> string \<Rightarrow> int \<Rightarrow> deployment_job \<Rightarrow> (queue \<Rightarrow> queue) \<Rightarrow> queue \<Rightarrow> gate_state \<Rightarrow>
   queue \<times> gate_state \<times> gate_result" where
  "gated_push e x title uuid now d between q s =
     (let (q, s, r) = buildPolicyDeployGate e U_Application x None (Some title)
            (coalesceQueuedApplicationDeploys (gu_id x) d) q s;
          q = between q
      in case r of
           Deploy_Now n m \<Rightarrow> ((if m then q else fst (add uuid now d q)), s, r)
         | _ \<Rightarrow> (q, s, r))"

lemma queue_coalesce_fold:
  "queue_coalesce P d q = (fst (fold_push P d q), snd (queue_coalesce P d q))"
  "\<exists>r. snd (queue_coalesce P d q) = Answer_Record r \<and> rm_merged r = Some (snd (fold_push P d q))"
  by (simp_all add: queue_coalesce_def fold_push_def split: prod.splits)

lemma coalesceQueued_fold:
  assumes "coalesceQueuedDeploy t i nm org (queue_coalesce P d) rec q a = (q', a', n, m)"
  shows "q' = fst (fold_push P d q)" "m = snd (fold_push P d q)"
proof -
  obtain r where r: "snd (queue_coalesce P d q) = Answer_Record r" "rm_merged r = Some (snd (fold_push P d q))"
    using queue_coalesce_fold(2) by blast
  have "queue_coalesce P d q = (fst (fold_push P d q), Answer_Record r)"
    using queue_coalesce_fold(1) [of P d q] r(1) by simp
  with assms r(2) show "q' = fst (fold_push P d q)" "m = snd (fold_push P d q)"
    by (auto simp: coalesceQueuedDeploy_def normalize_def Let_def split: if_splits)
qed

lemma gate_is_fold:
  assumes "buildPolicyDeployGate e U_Application x None (Some title) (coalesceQueuedApplicationDeploys (gu_id x) d) q s =
      (q', s', Deploy_Now n m)"
    and "snd (findEnforcingOrganizationId e (gu_environmentId x) s) \<noteq> None"
  shows "q' = fst (fold_push (isCoalescableDeployJob U_Application (gu_id x)) d q)"
    and "m = snd (fold_push (isCoalescableDeployJob U_Application (gu_id x)) d q)"
proof -
  obtain s1 org where f: "findEnforcingOrganizationId e (gu_environmentId x) s = (s1, Some org)"
    using assms(2) by (cases "findEnforcingOrganizationId e (gu_environmentId x) s") auto
  from assms(1) obtain a' where "coalesceQueuedDeploy U_Application (gu_id x) (gu_name x) org
      (queue_coalesce (isCoalescableDeployJob U_Application (gu_id x)) d) (gate_record e) q s1 = (q', a', n, m)"
    by (auto simp: buildPolicyDeployGate_def f Let_def coalesceQueuedApplicationDeploys_def
        split: option.splits bool.splits prod.splits)
  from coalesceQueued_fold [OF this]
  show "q' = fst (fold_push (isCoalescableDeployJob U_Application (gu_id x)) d q)"
    and "m = snd (fold_push (isCoalescableDeployJob U_Application (gu_id x)) d q)" by auto
qed

text \<open>The waiting deploys that a push would fold into.\<close>

definition push_matches :: "gate_unit \<Rightarrow> deployment_job \<Rightarrow> queue \<Rightarrow> internal_job list" where
  "push_matches x d q = filter (coalesce_match d (isCoalescableDeployJob U_Application (gu_id x))) (all_waiting q)"

text \<open>A push that the gate let through, without anything in between.\<close>

definition push_once :: "gate_unit \<Rightarrow> (deployment_job \<Rightarrow> string) \<Rightarrow> int \<Rightarrow> deployment_job \<Rightarrow> queue \<Rightarrow> queue" where
  "push_once x u now d q =
     (let (q', r) = coalesceWaiting d (isCoalescableDeployJob U_Application (gu_id x)) q
      in if merged r \<noteq> None then q' else fst (add (u d) now d q'))"

lemma push_once_cq: "push_once x u now d q = cq.push U_Application (gu_id x) u now d q"
  by (simp add: push_once_def cq.push_def fold_push_def split: prod.split)

lemma queue_steps_reachable: "queue_step\<^sup>*\<^sup>* r r' \<Longrightarrow> queue_reachable r \<Longrightarrow> queue_reachable r'"
  by (induction rule: rtranclp_induct) (auto intro: reach_step)

text \<open>
  C22. N pushes make one build, the newest. The gate of an enforcing organization lets a plain push of an
  application through, while other requests and the workers step the queue between its merge and its add. The merge
  leaves at most one waiting deploy of the application with the push's profile, one exactly when the push was merged,
  and it carries the push's payload (but for the registered deployment it may have taken over). A push that was not
  merged waits in the queue under its own payload when the handler is done. If nobody queued or changed such a
  deploy in between, then at most one waits at the end, exactly one when the push was not merged or nothing took the
  merged one out, and it carries the push's payload. And any burst of such pushes, one after the other, leaves
  exactly one waiting deploy, with the payload of the last.
\<close>

theorem pushes_leave_one_build:
  assumes "queue_reachable q" and "plain_push U_Application (gu_id x) d"
    and "\<And>r. queue_reachable r \<Longrightarrow> queue_step\<^sup>*\<^sup>* r (between r)"
    and "gated_push e x title uuid now d between q s = (q', s', Deploy_Now n m)"
    and "snd (findEnforcingOrganizationId e (gu_environmentId x) s) \<noteq> None"
    and "\<forall>y\<in>set ds. same_push y d"
  shows "(\<exists>q1. q1 = fst (coalesceWaiting d (isCoalescableDeployJob U_Application (gu_id x)) q) \<and>
      length (push_matches x d q1) = (if m then 1 else 0) \<and> (\<forall>j\<in>set (push_matches x d q1). carries d j) \<and>
      (\<not> m \<longrightarrow> (\<exists>j\<in>set (push_matches x d q'). jdata j = d)) \<and>
      (mset (push_matches x d (between q1)) \<subseteq># mset (push_matches x d q1) \<longrightarrow>
         length (push_matches x d q') = (if m then length (push_matches x d (between q1)) else 1) \<and>
         length (push_matches x d q') \<le> 1 \<and> (\<forall>j\<in>set (push_matches x d q'). carries d j))) \<and>
    (let q2 = push_once x u now d (fold (push_once x u now) ds q) in
      length (push_matches x d q2) = 1 \<and> (\<forall>j\<in>set (push_matches x d q2). carries d j))"
proof -
  let ?P = "isCoalescableDeployJob U_Application (gu_id x)"
  define q1 where "q1 = fst (coalesceWaiting d ?P q)"
  note inv = queue_reachable_inv [OF assms(1)]
  obtain q0 where q0: "buildPolicyDeployGate e U_Application x None (Some title)
      (coalesceQueuedApplicationDeploys (gu_id x) d) q s = (q0, s', Deploy_Now n m)"
    "q' = (if m then between q0 else fst (add uuid now d (between q0)))"
    using assms(4) by (auto simp: gated_push_def Let_def split: prod.splits gate_result.splits if_splits)
  note folded = gate_is_fold [OF q0(1) assms(5)]
  have q1: "q0 = q1" "fst (fold_push ?P d q) = q1" using folded(1) by (simp_all add: fold_push_def q1_def)
  have one: "length (push_matches x d q1) = (if m then 1 else 0)"
    using fold_push_dup [OF inv assms(2)] q1(2) folded(2) by (simp add: duplicates_def push_matches_def)
  have carried: "\<forall>j\<in>set (push_matches x d q1). carries d j"
    using fold_push_newest [OF inv assms(2)] q1(2) unfolding all_newest_def push_matches_def by simp
  have reached: "queue_reachable q1" unfolding q1_def by (rule reach_step [OF assms(1) s_coalesce])
  have inv1: "queue_inv (between q1)"
    by (rule queue_reachable_inv [OF queue_steps_reachable [OF assms(3) [OF reached] reached]])
  have added: "\<exists>job. jdata job = d \<and> mset (push_matches x d q') = add_mset job (mset (push_matches x d (between q1)))" if "\<not> m"
  proof -
    have q': "q' = fst (add uuid now d (between q1))" using q0(2) q1(1) that by simp
    have plain: "priority d \<noteq> Some True" using assms(2) by (simp add: plain_push_def)
    obtain job where job: "jdata job = d" "mset (all_waiting q') = add_mset job (mset (all_waiting (between q1)))"
      using add_all_waiting [OF inv1 plain] unfolding q' by metis
    moreover have "coalesce_match d ?P job" using job(1) assms(2) by (simp add: coalesce_match_def plain_push_def)
    ultimately show ?thesis by (auto simp: push_matches_def)
  qed
  have alone: "length (push_matches x d q') = (if m then length (push_matches x d (between q1)) else 1) \<and>
      length (push_matches x d q') \<le> 1 \<and> (\<forall>j\<in>set (push_matches x d q'). carries d j)"
    if sub: "mset (push_matches x d (between q1)) \<subseteq># mset (push_matches x d q1)"
  proof (cases m)
    case True
    then have "q' = between q1" using q0(2) q1(1) by simp
    moreover have "length (push_matches x d (between q1)) \<le> 1" using size_mset_mono [OF sub] one True by simp
    moreover have "set (push_matches x d (between q1)) \<subseteq> set (push_matches x d q1)" using set_mset_mono [OF sub] by simp
    ultimately show ?thesis using True carried by auto
  next
    case False
    then obtain job where "jdata job = d" "mset (push_matches x d q') = add_mset job (mset (push_matches x d (between q1)))"
      using added by blast
    moreover have "push_matches x d (between q1) = []" using size_mset_mono [OF sub] one False by simp
    ultimately have "push_matches x d q' = [job]" "carries d job" by (simp_all add: carries_def)
    then show ?thesis using False by simp
  qed
  have waits: "\<exists>j\<in>set (push_matches x d q'). jdata j = d" if nm: "\<not> m"
  proof -
    obtain job where job: "jdata job = d" "mset (push_matches x d q') = add_mset job (mset (push_matches x d (between q1)))"
      using added [OF nm] by blast
    have "job \<in># mset (push_matches x d q')" unfolding job(2) by simp
    then show ?thesis using job(1) by auto
  qed
  have burst: "length (push_matches x d (push_once x u now d (fold (push_once x u now) ds q))) = 1 \<and>
      (\<forall>j\<in>set (push_matches x d (push_once x u now d (fold (push_once x u now) ds q))). carries d j)"
    using cq.burst_one(1,2) [OF inv assms(2,6), of u now]
    unfolding push_once_cq [abs_def] duplicates_def all_newest_def push_matches_def by blast
  have now_waits: "\<not> m \<longrightarrow> (\<exists>j\<in>set (push_matches x d q'). jdata j = d)" using waits by blast
  show ?thesis unfolding Let_def
    by (rule conjI [OF exI [of _ q1] burst])
      (intro conjI; (rule q1_def | rule one | rule carried | rule now_waits | rule impI, rule alone, assumption))
qed

definition sample_gate_unit :: gate_unit where
  "sample_gate_unit = \<lparr>gu_id = ''A'', gu_name = ''app'', gu_environmentId = ''env'', gu_watchPaths = None,
     gu_inputs = sample_watch\<rparr>"

definition sample_gate_env :: gate_env where
  "sample_gate_env = \<lparr>ge_now = 1, ge_auditOk = True, ge_trailOk = True, ge_findOrg = (\<lambda>_. Some ''org''),
     ge_micromatch = (\<lambda>fs ps. fs), ge_caller = None\<rparr>"

definition sample_gate_state :: gate_state where
  "sample_gate_state = \<lparr>gs_proc = \<lparr>pp_db = sample_db, pp_cache = None\<rparr>, gs_trail = []\<rparr>"

text \<open>Of two waiting deploys and a third push one is left, with the last payload; so after a burst of two more.\<close>

theorem pushes_leave_one_build_witness:
  "length (push_matches sample_gate_unit (sample_job ''A'')
      (fst (gated_push sample_gate_env sample_gate_unit ''t'' ''u'' 9 (sample_job ''A'') id sample_waiting sample_gate_state))) = 1 \<and>
   length (push_matches sample_gate_unit (sample_job ''A'') (push_once sample_gate_unit (\<lambda>_. ''u'') 9 (sample_job ''A'')
      (fold (push_once sample_gate_unit (\<lambda>_. ''u'') 9) [sample_job ''A''] sample_waiting))) = 1"
proof -
  let ?push = "gated_push sample_gate_env sample_gate_unit ''t'' ''u'' 9 (sample_job ''A'') id sample_waiting sample_gate_state"
  have r: "snd (snd ?push) = Deploy_Now 1 True" by code_simp
  then obtain q' s' where push: "?push = (q', s', Deploy_Now 1 True)" by (metis prod.collapse)
  have plain: "plain_push U_Application (gu_id sample_gate_unit) (sample_job ''A'')" by code_simp
  have same: "\<forall>y\<in>set [sample_job ''A'']. same_push y (sample_job ''A'')" by code_simp
  have enforcing: "snd (findEnforcingOrganizationId sample_gate_env (gu_environmentId sample_gate_unit) sample_gate_state) \<noteq> None"
    by code_simp
  from pushes_leave_one_build [OF sample_waiting_reachable plain _ push enforcing same, of "\<lambda>_. ''u''"]
  show ?thesis by (simp add: push Let_def)
qed

end
