(* ===== verification/Deploy_Gate.thy ===== *)
theory Deploy_Gate
  imports Required_Checks Text
begin

text \<open>
  The deploy gate of releases built on GitHub Actions:
  \<open>packages/server/src/services/gha-connect/deploy-gate.ts\<close>. It is a pure function of what
  GitHub reports for the release commit. A start time is the number of milliseconds the reported
  text parses to, \<open>None\<close> when it is null or does not parse. Ids are integers.
\<close>

section \<open>What GitHub reports\<close>

datatype check_kind = Check_Run | Commit_Status

record gate_check =
  k_name :: string
  k_kind :: check_kind
  k_status :: string
  k_conclusion :: "string option"
  k_id :: int
  k_startedAt :: "int option"
  k_appSlug :: "string option"
  k_appId :: "int option"
  k_runId :: "int option"
  k_checkSuiteId :: "int option"

record workflow_run =
  wr_id :: int
  wr_name :: string
  wr_path :: string
  wr_runAttempt :: int
  wr_status :: string
  wr_conclusion :: "string option"
  wr_startedAt :: "int option"
  wr_event :: string
  wr_headBranch :: "string option"
  wr_headRepository :: "string option"
  wr_headRepositoryId :: "int option"
  wr_checkSuiteId :: "int option"

record gate_trust =
  tr_branch :: string
  tr_repository :: string
  tr_repositoryId :: "int option"

datatype expected_source = From_Required | From_Last_Green | From_Fallback

record gate_expected =
  ex_source :: expected_source
  ex_names :: "string list"
  ex_appIds :: "(string \<times> int) list"

datatype gate_mode = Image_Mode | Checks_Mode | Workflows_Mode

datatype gate_decision =
    Gate_Deploy bool
  | Gate_Waiting string "string list"
  | Gate_Blocked string "string list" "string list" "string list"

text \<open>What an exclusion looks at: name, kind, app slug and run id.\<close>

type_synonym gate_exclusion = "string \<Rightarrow> check_kind \<Rightarrow> string option \<Rightarrow> int option \<Rightarrow> bool"

definition createDefaultExclusion :: "string option \<Rightarrow> int list \<Rightarrow> gate_exclusion" where
  "createDefaultExclusion appSlug excludedRunIds = (\<lambda>name kind slug runId.
     if prefix ''dokploy/'' (toLowerCase name) then True
     else if truthy appSlug \<and> slug = appSlug then True
     else (case runId of None \<Rightarrow> False | Some i \<Rightarrow> i \<in> set excludedRunIds))"

record gate_input =
  gi_mode :: gate_mode
  gi_now :: int
  gi_startedAt :: "int option"
  gi_timeoutMs :: int
  gi_expected :: "gate_expected option"
  gi_checks :: "gate_check list"
  gi_workflows :: "string list"
  gi_workflowRuns :: "workflow_run list"
  gi_excludedRunIds :: "int list"
  gi_trust :: gate_trust
  gi_appSlug :: "string option"
  gi_isExcluded :: "gate_exclusion option"

section \<open>Which results count\<close>

definition minutes :: "int \<Rightarrow> int" where
  "minutes ms = max 1 (round_div ms 60000)"

definition checkWord :: "string list \<Rightarrow> string \<Rightarrow> string" where
  "checkWord names noun = (if length names = 1 then noun else noun @ ''s'')"

definition isLater :: "int \<Rightarrow> int option \<Rightarrow> int \<Rightarrow> int option \<Rightarrow> bool" where
  "isLater ida ta idb tb =
     (case (ta, tb) of
        (Some a, Some b) \<Rightarrow> if a \<noteq> b then b < a else idb < ida
      | _ \<Rightarrow> idb < ida)"

definition withAttempt :: "workflow_run \<Rightarrow> int" where
  "withAttempt run = wr_id run * 1000 + min (wr_runAttempt run) 999"

definition later_run :: "workflow_run \<Rightarrow> workflow_run \<Rightarrow> bool" where
  "later_run a b = isLater (withAttempt a) (wr_startedAt a) (withAttempt b) (wr_startedAt b)"

definition later_check :: "gate_check \<Rightarrow> gate_check \<Rightarrow> bool" where
  "later_check a b = isLater (k_id a) (k_startedAt a) (k_id b) (k_startedAt b)"

datatype verdict = Passed | Failed | Running

definition verdictOf :: "string \<Rightarrow> string option \<Rightarrow> verdict" where
  "verdictOf status conclusion =
     (case evaluateRequiredChecks [''x''] [\<lparr>cr_name = ''x'', cr_status = status, cr_conclusion = conclusion\<rparr>] of
        Satisfied \<Rightarrow> Passed | Checks_Failed _ \<Rightarrow> Failed | Pending _ \<Rightarrow> Running)"

definition run_verdict :: "workflow_run \<Rightarrow> verdict" where
  "run_verdict run = verdictOf (wr_status run) (wr_conclusion run)"

definition fromTrustedRepository :: "workflow_run \<Rightarrow> gate_trust \<Rightarrow> bool" where
  "fromTrustedRepository run trust =
     (case (tr_repositoryId trust, wr_headRepositoryId run) of
        (Some t, Some r) \<Rightarrow> r = t
      | _ \<Rightarrow> (case wr_headRepository run of None \<Rightarrow> False
              | Some name \<Rightarrow> toLowerCase name = toLowerCase (tr_repository trust)))"

definition isTrustedRun :: "workflow_run \<Rightarrow> gate_trust \<Rightarrow> bool" where
  "isTrustedRun run trust \<longleftrightarrow>
     wr_event run \<in> set [''push'', ''workflow_dispatch''] \<and>
     wr_headBranch run = Some (tr_branch trust) \<and> fromTrustedRepository run trust"

definition workflowKey :: "workflow_run \<Rightarrow> string" where
  "workflowKey run = (if wr_path run \<noteq> [] then wr_path run else wr_name run)"

text \<open>
  Keeping the latest element of each key: the loops of \<open>latestTrustedRuns\<close> and \<open>resolveChecks\<close>.
  An element without a key does not count.
\<close>

definition keep_latest ::
  "('a \<Rightarrow> string option) \<Rightarrow> ('a \<Rightarrow> 'a \<Rightarrow> bool) \<Rightarrow> 'a \<Rightarrow> (string \<times> 'a) list \<Rightarrow> (string \<times> 'a) list" where
  "keep_latest key later x latest =
     (case key x of None \<Rightarrow> latest
      | Some k \<Rightarrow> (case map_of latest k of
            None \<Rightarrow> AList.update k x latest
          | Some known \<Rightarrow> if later x known then AList.update k x latest else latest))"

definition run_key :: "gate_trust \<Rightarrow> int list \<Rightarrow> workflow_run \<Rightarrow> string option" where
  "run_key trust excluded run =
     (if wr_id run \<in> set excluded \<or> \<not> isTrustedRun run trust then None else Some (workflowKey run))"

definition latestTrustedRuns :: "workflow_run list \<Rightarrow> gate_trust \<Rightarrow> int list \<Rightarrow> workflow_run list" where
  "latestTrustedRuns runs trust excluded =
     map snd (fold (keep_latest (run_key trust excluded) later_run) runs [])"

record resolved_check =
  rs_name :: string
  rs_kind :: check_kind
  rs_verdict :: verdict
  rs_appId :: "int option"
  rs_since :: "int option"

text \<open>The runs by id and by check suite: a later run of the list replaces an earlier one.\<close>

definition run_by_id :: "workflow_run list \<Rightarrow> (int \<times> workflow_run) list" where
  "run_by_id runs = fold (\<lambda>r m. AList.update (wr_id r) r m) runs []"

definition run_by_suite :: "workflow_run list \<Rightarrow> (int \<times> workflow_run) list" where
  "run_by_suite runs = fold (\<lambda>r m. case wr_checkSuiteId r of None \<Rightarrow> m | Some s \<Rightarrow> AList.update s r m) runs []"

definition run_of_check :: "workflow_run list \<Rightarrow> gate_check \<Rightarrow> workflow_run option" where
  "run_of_check runs c = nullish
     (case k_runId c of None \<Rightarrow> None | Some i \<Rightarrow> map_of (run_by_id runs) i)
     (case k_checkSuiteId c of None \<Rightarrow> None | Some s \<Rightarrow> map_of (run_by_suite runs) s)"

definition is_actions_check :: "gate_check \<Rightarrow> bool" where
  "is_actions_check c \<longleftrightarrow> k_appSlug c = Some ''github-actions'' \<or> k_runId c \<noteq> None"

definition app_key :: "gate_check \<Rightarrow> string" where
  "app_key c = (case k_appSlug c of Some s \<Rightarrow> s
     | None \<Rightarrow> (case k_appId c of Some i \<Rightarrow> show_int i | None \<Rightarrow> []))"

text \<open>The key a check is kept under; \<open>None\<close> when it is not a result of the commit.\<close>

definition check_key ::
  "workflow_run list \<Rightarrow> gate_trust \<Rightarrow> int list \<Rightarrow> gate_exclusion \<Rightarrow> gate_check \<Rightarrow> string option" where
  "check_key runs trust excluded isExcluded c =
     (if isExcluded (k_name c) (k_kind c) (k_appSlug c) (k_runId c) then None
      else if k_kind c = Commit_Status then Some (''status::'' @ k_name c)
      else if is_actions_check c then
        (case run_of_check runs c of None \<Rightarrow> None
         | Some run \<Rightarrow>
             if wr_id run \<in> set (map wr_id (latestTrustedRuns runs trust excluded))
             then Some (''wf:'' @ workflowKey run @ ''::'' @ k_name c) else None)
      else Some (''app:'' @ app_key c @ ''::'' @ k_name c))"

definition latest_checks ::
  "gate_check list \<Rightarrow> workflow_run list \<Rightarrow> gate_trust \<Rightarrow> int list \<Rightarrow> gate_exclusion \<Rightarrow> gate_check list" where
  "latest_checks checks runs trust excluded isExcluded =
     map snd (fold (keep_latest (check_key runs trust excluded isExcluded) later_check) checks [])"

definition resolve_check :: "gate_check \<Rightarrow> resolved_check" where
  "resolve_check c = \<lparr>rs_name = k_name c, rs_kind = k_kind c,
     rs_verdict = verdictOf (k_status c) (k_conclusion c), rs_appId = k_appId c, rs_since = k_startedAt c\<rparr>"

definition resolveChecks ::
  "gate_check list \<Rightarrow> workflow_run list \<Rightarrow> gate_trust \<Rightarrow> int list \<Rightarrow> gate_exclusion \<Rightarrow> resolved_check list" where
  "resolveChecks checks runs trust excluded isExcluded =
     (let latest = latest_checks checks runs trust excluded isExcluded;
          checkRunNames = map k_name (filter (\<lambda>c. k_kind c = Check_Run) latest) in
      map resolve_check
        (filter (\<lambda>c. \<not> (k_kind c = Commit_Status \<and> k_name c \<in> set checkRunNames)) latest))"

definition greenCheckRunNames ::
  "gate_check list \<Rightarrow> workflow_run list \<Rightarrow> gate_trust \<Rightarrow> int list \<Rightarrow> gate_exclusion \<Rightarrow> string list option" where
  "greenCheckRunNames checks runs trust excluded isExcluded =
     (let resolved = resolveChecks (filter (\<lambda>c. k_kind c = Check_Run) checks) runs trust excluded isExcluded in
      if resolved = [] then None
      else if \<exists>r\<in>set resolved. rs_verdict r \<noteq> Passed then None
      else if \<exists>run\<in>set (latestTrustedRuns runs trust excluded). run_verdict run \<noteq> Passed then None
      else Some (sort (uniq (map rs_name resolved))))"

section \<open>The decision\<close>

datatype noun = Check_Noun | Workflow_Noun

record gate_group =
  g_noun :: noun
  g_failed :: "string list"
  g_missing :: "string list"
  g_running :: "(string \<times> int option) list"

record gate_clock =
  c_now :: int
  c_gateStart :: int
  c_timeoutMs :: int

definition label :: "noun \<Rightarrow> string" where
  "label n = (if n = Check_Noun then ''Check'' else ''Workflow'')"

definition failed_part :: "gate_group \<Rightarrow> string" where
  "failed_part g = checkWord (g_failed g) (label (g_noun g)) @ '' '' @ join '', '' (g_failed g) @ '' failed''"

definition stuck :: "gate_clock \<Rightarrow> gate_group \<Rightarrow> (string \<times> int option) list" where
  "stuck clock g = filter (\<lambda>(name, since). c_timeoutMs clock \<le>
     c_now clock - (case since of None \<Rightarrow> c_gateStart clock | Some t \<Rightarrow> t)) (g_running g)"

definition gate_timed_out :: "gate_clock \<Rightarrow> bool" where
  "gate_timed_out clock \<longleftrightarrow> c_timeoutMs clock \<le> c_now clock - c_gateStart clock"

definition missing_part :: "gate_group \<Rightarrow> string" where
  "missing_part g = checkWord (g_missing g) (label (g_noun g)) @ '' '' @ join '', '' (g_missing g) @ '' '' @
     (if g_noun g = Check_Noun then ''never reported'' else ''never ran'')"

definition late_part :: "gate_clock \<Rightarrow> gate_group \<Rightarrow> string list \<Rightarrow> string" where
  "late_part clock g late = checkWord late (label (g_noun g)) @ '' '' @ join '', '' late @
     '' did not finish in '' @ show_int (minutes (c_timeoutMs clock)) @ '' minutes''"

definition group_parts :: "gate_clock \<Rightarrow> gate_group \<Rightarrow> string list" where
  "group_parts clock g =
     (let late = map fst (stuck clock g) in
      (if gate_timed_out clock \<and> g_missing g \<noteq> [] then [missing_part g] else []) @
      (if late \<noteq> [] then [late_part clock g late] else []))"

definition group_pending :: "gate_group \<Rightarrow> string list" where
  "group_pending g = g_missing g @ map fst (g_running g)"

definition decide :: "gate_group list \<Rightarrow> gate_clock \<Rightarrow> gate_decision" where
  "decide groups clock =
     (let failed = filter (\<lambda>g. g_failed g \<noteq> []) groups;
          pendingNames = uniq (concat (map group_pending groups));
          parts = concat (map (group_parts clock) groups) in
      if failed \<noteq> [] then
        Gate_Blocked (join ''; '' (map failed_part failed)) (uniq (concat (map g_failed failed))) [] []
      else if pendingNames = [] then Gate_Deploy False
      else if parts = [] then Gate_Waiting (''Waiting for '' @ join '', '' pendingNames) pendingNames
      else Gate_Blocked (join ''; '' parts) []
        (uniq (if gate_timed_out clock then concat (map g_missing groups) else []))
        (uniq (concat (map (\<lambda>g. map fst (stuck clock g)) groups))))"

definition baseName :: "string \<Rightarrow> string" where
  "baseName path = last (split_on (CHR ''/'') (before_first (CHR ''@'') path))"

definition is_workflow_file :: "string \<Rightarrow> bool" where
  "is_workflow_file wanted \<longleftrightarrow>
     suffix ''.yml'' (toLowerCase wanted) \<or> suffix ''.yaml'' (toLowerCase wanted)"

definition runMatches :: "workflow_run \<Rightarrow> string \<Rightarrow> bool" where
  "runMatches run wanted =
     (if is_workflow_file wanted then baseName (wr_path run) = wanted \<or> wr_path run = wanted
      else wr_name run = wanted)"

definition worst :: "verdict list \<Rightarrow> verdict" where
  "worst vs = (if Failed \<in> set vs then Failed else if Running \<in> set vs then Running else Passed)"

definition asLike :: "string \<Rightarrow> verdict \<Rightarrow> check_run" where
  "asLike name v = \<lparr>cr_name = name,
     cr_status = (if v = Running then ''in_progress'' else ''completed''),
     cr_conclusion = (case v of Failed \<Rightarrow> Some ''failure'' | Passed \<Rightarrow> Some ''success'' | Running \<Rightarrow> None)\<rparr>"

text \<open>The most recent start of what is still running.\<close>

definition latest_start :: "(verdict \<times> int option) list \<Rightarrow> int option" where
  "latest_start found =
     (let starts = List.map_filter snd (filter (\<lambda>f. fst f = Running) found) in
      if starts = [] then None else Some (Max (set starts)))"

definition waitFor :: "string list \<Rightarrow> (string \<Rightarrow> (verdict \<times> int option) list) \<Rightarrow> noun \<Rightarrow> gate_group" where
  "waitFor names results n =
     (let missing = filter (\<lambda>name. results name = []) names;
          present = filter (\<lambda>name. results name \<noteq> []) names;
          likes = map (\<lambda>name. asLike name (worst (map fst (results name)))) present;
          sinceOf = map (\<lambda>name. (name, latest_start (results name))) present;
          v = evaluateRequiredChecks (filter (\<lambda>name. name \<notin> set missing) names) likes in
      \<lparr>g_noun = n,
       g_failed = (case v of Checks_Failed failed \<Rightarrow> failed | _ \<Rightarrow> []),
       g_missing = missing,
       g_running = (case v of
           Pending waitingOn \<Rightarrow>
             map (\<lambda>name. (name, case map_of sinceOf name of None \<Rightarrow> None | Some s \<Rightarrow> s)) waitingOn
         | _ \<Rightarrow> [])\<rparr>)"

definition isExcluded_of :: "gate_input \<Rightarrow> gate_exclusion" where
  "isExcluded_of i = (case gi_isExcluded i of Some f \<Rightarrow> f
     | None \<Rightarrow> createDefaultExclusion (gi_appSlug i) (gi_excludedRunIds i))"

definition resolved_of :: "gate_input \<Rightarrow> resolved_check list" where
  "resolved_of i = resolveChecks (gi_checks i) (gi_workflowRuns i) (gi_trust i) (gi_excludedRunIds i) (isExcluded_of i)"

definition runs_of :: "gate_input \<Rightarrow> workflow_run list" where
  "runs_of i = latestTrustedRuns (gi_workflowRuns i) (gi_trust i) (gi_excludedRunIds i)"

text \<open>
  The pins are a map here. The source reads them off a plain object that it parsed, so a check named like an
  inherited property of objects (\<open>constructor\<close>) finds that property there, which is no app id of any result.
\<close>

definition app_pin :: "gate_input \<Rightarrow> string \<Rightarrow> int option" where
  "app_pin i name = (case gi_expected i of None \<Rightarrow> None | Some e \<Rightarrow> map_of (ex_appIds e) name)"

definition expected_names :: "gate_input \<Rightarrow> string list" where
  "expected_names i = (case gi_expected i of None \<Rightarrow> []
     | Some e \<Rightarrow> if ex_source e \<noteq> From_Fallback
         then filter (\<lambda>name. \<not> isExcluded_of i name Commit_Status None None) (uniq (ex_names e)) else [])"

text \<open>The results that answer for an expected name: all of that name, or those of the pinned app.\<close>

definition answers_of :: "gate_input \<Rightarrow> string \<Rightarrow> resolved_check list" where
  "answers_of i name = filter (\<lambda>r. rs_name r = name \<and>
     (case app_pin i name of None \<Rightarrow> True | Some a \<Rightarrow> rs_kind r = Check_Run \<and> rs_appId r = Some a))
     (resolved_of i)"

definition failed_runs_group :: "gate_input \<Rightarrow> gate_group" where
  "failed_runs_group i = \<lparr>g_noun = Workflow_Noun,
     g_failed = uniq (map wr_name (filter (\<lambda>r. run_verdict r = Failed) (runs_of i))),
     g_missing = [], g_running = []\<rparr>"

definition expected_group :: "gate_input \<Rightarrow> gate_group" where
  "expected_group i =
     (let names = expected_names i;
          g = waitFor names (\<lambda>name. map (\<lambda>r. (rs_verdict r, rs_since r)) (answers_of i name)) Check_Noun;
          otherFailed = uniq (map rs_name
            (filter (\<lambda>r. rs_verdict r = Failed \<and> rs_name r \<notin> set names) (resolved_of i))) in
      g\<lparr>g_failed := uniq (g_failed g @ otherFailed)\<rparr>)"

definition reported_checks_group :: "gate_input \<Rightarrow> gate_group" where
  "reported_checks_group i = \<lparr>g_noun = Check_Noun,
     g_failed = uniq (map rs_name (filter (\<lambda>r. rs_verdict r = Failed) (resolved_of i))),
     g_missing = [],
     g_running = map (\<lambda>r. (rs_name r, rs_since r)) (filter (\<lambda>r. rs_verdict r = Running) (resolved_of i))\<rparr>"

definition reported_runs_group :: "gate_input \<Rightarrow> gate_group" where
  "reported_runs_group i = \<lparr>g_noun = Workflow_Noun,
     g_failed = uniq (map wr_name (filter (\<lambda>r. run_verdict r = Failed) (runs_of i))),
     g_missing = [],
     g_running = map (\<lambda>r. (wr_name r, wr_startedAt r)) (filter (\<lambda>r. run_verdict r = Running) (runs_of i))\<rparr>"

definition evaluateChecks :: "gate_input \<Rightarrow> gate_clock \<Rightarrow> gate_decision" where
  "evaluateChecks i clock =
     (if expected_names i \<noteq> [] then decide [expected_group i, failed_runs_group i] clock
      else if resolved_of i = [] \<and> runs_of i = [] then
        (if gate_timed_out clock then
           Gate_Blocked (''No checks reported on this commit in '' @
             show_int (minutes (c_timeoutMs clock)) @ '' minutes'') [] [] []
         else Gate_Waiting ''Waiting for the first check to start'' [])
      else decide [reported_checks_group i, reported_runs_group i] clock)"

definition runs_for :: "gate_input \<Rightarrow> string \<Rightarrow> workflow_run list" where
  "runs_for i name = filter (\<lambda>run. runMatches run name) (runs_of i)"

definition evaluateWorkflows :: "gate_input \<Rightarrow> gate_clock \<Rightarrow> gate_decision" where
  "evaluateWorkflows i clock =
     (let wanted = uniq (gi_workflows i) in
      if wanted = [] then Gate_Blocked ''No workflow is chosen for the gate'' [] [] []
      else decide [waitFor wanted (\<lambda>name. map (\<lambda>run. (run_verdict run, wr_startedAt run)) (runs_for i name))
             Workflow_Noun] clock)"

definition clock_of :: "gate_input \<Rightarrow> gate_clock" where
  "clock_of i = \<lparr>c_now = gi_now i,
     c_gateStart = (case gi_startedAt i of None \<Rightarrow> gi_now i | Some t \<Rightarrow> t), c_timeoutMs = gi_timeoutMs i\<rparr>"

definition evaluateDeployGate :: "gate_input \<Rightarrow> gate_decision" where
  "evaluateDeployGate i =
     (case gi_mode i of
        Image_Mode \<Rightarrow> Gate_Deploy False
      | Workflows_Mode \<Rightarrow> evaluateWorkflows i (clock_of i)
      | Checks_Mode \<Rightarrow> evaluateChecks i (clock_of i))"

text \<open>The status line of the release; \<open>ellipsis\<close> is the character U+2026.\<close>

definition gate_text :: "gate_decision \<Rightarrow> string" where
  "gate_text d =
     (case d of
        Gate_Deploy overridden \<Rightarrow> if overridden then ''Deployed without waiting for CI'' else ''CI passed''
      | Gate_Waiting reason pendingNames \<Rightarrow>
          let shown = take 3 pendingNames; more = length pendingNames - length shown in
          if shown = [] then ''Waiting for CI''
          else ''Waiting for CI: '' @ join '', '' shown @
            (if 0 < more then '' and '' @ show_nat more @ '' more'' else [])
      | Gate_Blocked reason _ _ _ \<Rightarrow> reason)"

definition describeGateDecision :: "char \<Rightarrow> gate_decision \<Rightarrow> string" where
  "describeGateDecision ellipsis d =
     (let t = gate_text d in if 140 < length t then take 139 t @ [ellipsis] else t)"

section \<open>The latest result of each key\<close>

text \<open>
  What both loops rely on: of two elements at most one is later. An element that is kept comes
  from the list and has the key it is kept under; and where ``not later'' is transitive, no
  element of its key is later.
\<close>

locale latest_by_key =
  fixes key :: "'a \<Rightarrow> string option"
    and later :: "'a \<Rightarrow> 'a \<Rightarrow> bool"
  assumes later_asym: "later x y \<Longrightarrow> \<not> later y x"
begin

definition kept :: "'a list \<Rightarrow> (string \<times> 'a) list" where
  "kept xs = fold (keep_latest key later) xs []"

lemma kept_Nil [simp]: "kept [] = []"
  by (simp add: kept_def)

lemma kept_snoc: "kept (xs @ [x]) = keep_latest key later x (kept xs)"
  by (simp add: kept_def)

lemma distinct_kept: "distinct (map fst (kept xs))"
  by (induction xs rule: rev_induct)
    (auto simp: kept_snoc keep_latest_def distinct_update split: option.splits)

lemma kept_from: "map_of (kept xs) k = Some x \<Longrightarrow> x \<in> set xs \<and> key x = Some k"
proof (induction xs arbitrary: x rule: rev_induct)
  case (snoc y xs)
  then show ?case
    by (cases "key y"; cases "map_of (kept xs) (the (key y))")
      (auto simp: kept_snoc keep_latest_def split: if_splits)
qed simp

lemma kept_some: "x \<in> set xs \<Longrightarrow> key x = Some k \<Longrightarrow> \<exists>y. map_of (kept xs) k = Some y"
proof (induction xs arbitrary: x rule: rev_induct)
  case (snoc y xs)
  then show ?case
    by (cases "key y"; cases "map_of (kept xs) (the (key y))")
      (auto simp: kept_snoc keep_latest_def split: if_splits)
qed simp

lemma kept_latest:
  assumes "\<And>x y z. x \<in> set xs \<Longrightarrow> y \<in> set xs \<Longrightarrow> z \<in> set xs \<Longrightarrow>
      \<not> later y x \<Longrightarrow> \<not> later z y \<Longrightarrow> \<not> later z x"
    and "map_of (kept xs) k = Some x" and "y \<in> set xs" and "key y = Some k"
  shows "\<not> later y x"
  using assms
proof (induction xs arbitrary: x y rule: rev_induct)
  case (snoc z xs)
  have irr: "\<not> later x x" for x using later_asym [of x x] by blast
  have t: "\<not> later c a" if "a \<in> set xs" "b \<in> set xs" "c \<in> set xs" "\<not> later b a" "\<not> later c b" for a b c
    by (rule snoc.prems(1) [of a b c]) (use that in auto)
  show ?case
  proof (cases "key z = Some k")
    case False
    with snoc.prems have y: "y \<in> set xs" and x: "map_of (kept xs) k = Some x"
      by (auto simp: kept_snoc keep_latest_def split: option.splits if_splits)
    show ?thesis by (rule snoc.IH [OF t x y snoc.prems(4)])
  next
    case True
    show ?thesis
    proof (cases "map_of (kept xs) k")
      case None
      with True snoc.prems(2) have "x = z" by (simp add: kept_snoc keep_latest_def)
      moreover from None kept_some snoc.prems(3,4) have "y = z" by (metis Un_iff empty_iff list.set(1)
          list.simps(15) option.distinct(1) set_append singletonD)
      ultimately show ?thesis using irr by blast
    next
      case (Some w)
      with kept_from have w: "w \<in> set xs" by blast
      have xzw: "x = (if later z w then z else w)"
        using True Some snoc.prems(2) by (simp add: kept_snoc keep_latest_def split: if_splits)
      have nxw: "\<not> later w x" using xzw irr later_asym by (auto split: if_splits)
      consider "y = z" | "y \<in> set xs" using snoc.prems(3) by auto
      then show ?thesis
      proof cases
        case 1
        with xzw irr show ?thesis by (auto split: if_splits)
      next
        case 2
        from snoc.IH [OF t Some 2 snoc.prems(4)] have yw: "\<not> later y w" .
        have "x \<in> set (xs @ [z])" using xzw w by (auto split: if_splits)
        then show ?thesis by (rule snoc.prems(1)) (use w 2 nxw yw in auto)
      qed
    qed
  qed
qed simp

lemma set_kept: "x \<in> set (map snd (kept xs)) \<longleftrightarrow> (\<exists>k. map_of (kept xs) k = Some x)"
  using distinct_kept [of xs] by (force dest: map_of_SomeD)

end

lemma isLater_asym: "isLater a s b t \<Longrightarrow> \<not> isLater b t a s"
  by (auto simp: isLater_def split: option.splits if_splits)

interpretation lr: latest_by_key "run_key trust excluded" later_run for trust excluded
  by unfold_locales (auto simp: later_run_def dest: isLater_asym)

interpretation lc: latest_by_key "check_key runs trust excluded isExcluded" later_check
  for runs trust excluded isExcluded
  by unfold_locales (auto simp: later_check_def dest: isLater_asym)

lemma latestTrustedRuns_eq: "latestTrustedRuns runs trust excluded = map snd (lr.kept trust excluded runs)"
  by (simp add: latestTrustedRuns_def lr.kept_def)

lemma latest_checks_eq: "latest_checks checks runs trust excluded isExcluded =
    map snd (lc.kept runs trust excluded isExcluded checks)"
  by (simp add: latest_checks_def lc.kept_def)

section \<open>What the rule answers for single results and lists of names\<close>

lemma verdictOf_eq: "verdictOf status conclusion =
    (if status \<noteq> ''completed'' then Running else if conclusion_passes conclusion then Passed else Failed)"
  by (simp add: verdictOf_def rc.judge_single check_fails_def check_waits_def)

lemma last_run_likes: "n \<in> set ns \<Longrightarrow> last_run (map (\<lambda>n. asLike n (f n)) ns) n = Some (asLike n (f n))"
  by (induction ns rule: rev_induct) (auto simp: last_run_def asLike_def)

lemma check_fails_like: "check_fails (Some (asLike n v)) \<longleftrightarrow> v = Failed"
  by (cases v) (simp_all add: check_fails_def asLike_def conclusion_passes_def passing_conclusions_def)

lemma check_waits_like: "check_waits (Some (asLike n v)) \<longleftrightarrow> v = Running"
  by (cases v) (simp_all add: check_waits_def asLike_def)

lemma worst_cases:
  "worst vs = Failed \<longleftrightarrow> Failed \<in> set vs"
  "worst vs = Running \<longleftrightarrow> Running \<in> set vs \<and> Failed \<notin> set vs"
  by (auto simp: worst_def)

lemma worst_Passed: "worst vs = Passed \<longleftrightarrow> (\<forall>v\<in>set vs. v = Passed)"
proof -
  have "v = Passed \<longleftrightarrow> v \<noteq> Failed \<and> v \<noteq> Running" for v by (cases v) auto
  then show ?thesis by (auto simp: worst_def)
qed

definition answer_for :: "(string \<Rightarrow> (verdict \<times> int option) list) \<Rightarrow> string \<Rightarrow> verdict" where
  "answer_for results n = worst (map fst (results n))"

lemma waitFor_rule:
  "evaluateRequiredChecks (filter (\<lambda>n. n \<notin> set (filter (\<lambda>n. results n = []) names)) names)
      (map (\<lambda>n. asLike n (worst (map fst (results n)))) (filter (\<lambda>n. results n \<noteq> []) names)) =
   (let fs = filter (\<lambda>n. results n \<noteq> [] \<and> answer_for results n = Failed) names;
        ws = filter (\<lambda>n. results n \<noteq> [] \<and> answer_for results n = Running) names in
    if fs \<noteq> [] then Checks_Failed fs else if ws \<noteq> [] then Pending ws else Satisfied)"
proof -
  let ?likes = "map (\<lambda>n. asLike n (worst (map fst (results n)))) (filter (\<lambda>n. results n \<noteq> []) names)"
  have present: "filter (\<lambda>n. n \<notin> set (filter (\<lambda>n. results n = []) names)) names = filter (\<lambda>n. results n \<noteq> []) names"
    by (rule filter_cong) auto
  have like: "last_run ?likes n = Some (asLike n (answer_for results n))" if "n \<in> set names" "results n \<noteq> []" for n
    using that last_run_likes [of n "filter (\<lambda>n. results n \<noteq> []) names" "\<lambda>n. worst (map fst (results n))"]
    by (simp add: answer_for_def)
  have f: "filter (\<lambda>n. check_fails (last_run ?likes n)) (filter (\<lambda>n. results n \<noteq> []) names) =
      filter (\<lambda>n. results n \<noteq> [] \<and> answer_for results n = Failed) names"
    unfolding filter_filter by (rule filter_cong) (auto simp: like check_fails_like)
  have w: "filter (\<lambda>n. check_waits (last_run ?likes n)) (filter (\<lambda>n. results n \<noteq> []) names) =
      filter (\<lambda>n. results n \<noteq> [] \<and> answer_for results n = Running) names"
    unfolding filter_filter by (rule filter_cong) (auto simp: like check_waits_like)
  show ?thesis unfolding rc.judge_def present f w Let_def ..
qed

lemma waitFor_failed: "g_failed (waitFor names results n) =
    filter (\<lambda>n. results n \<noteq> [] \<and> answer_for results n = Failed) names"
  unfolding waitFor_def Let_def waitFor_rule by (auto split: if_splits)

lemma waitFor_missing: "g_missing (waitFor names results n) = filter (\<lambda>n. results n = []) names"
  by (simp add: waitFor_def Let_def)

lemma map_of_since: "x \<in> set ns \<Longrightarrow> map_of (map (\<lambda>n. (n, f n)) ns) x = Some (f x)"
  by (induction ns) auto

lemma waitFor_running: "g_running (waitFor names results n) =
    (if g_failed (waitFor names results n) \<noteq> [] then []
     else map (\<lambda>n. (n, latest_start (results n)))
       (filter (\<lambda>n. results n \<noteq> [] \<and> answer_for results n = Running) names))"
  unfolding waitFor_failed
  unfolding waitFor_def Let_def waitFor_rule by (auto simp: map_of_since)

lemma waitFor_pending_fst: "group_pending (waitFor names results n) = [] \<and> g_failed (waitFor names results n) = [] \<longleftrightarrow>
    (\<forall>n\<in>set names. results n \<noteq> [] \<and> (\<forall>r\<in>set (results n). fst r = Passed))"
proof -
  have "(\<forall>r\<in>set (results n). fst r = Passed) \<longleftrightarrow> answer_for results n = Passed" for n
    by (auto simp: answer_for_def worst_Passed)
  moreover have "answer_for results n = Passed \<longleftrightarrow> answer_for results n \<noteq> Failed \<and> answer_for results n \<noteq> Running" for n
    by (cases "answer_for results n") auto
  ultimately show ?thesis
    unfolding group_pending_def waitFor_missing waitFor_running waitFor_failed
    by (auto simp: filter_empty_conv)
qed

lemma decide_Deploy: "decide groups clock = Gate_Deploy b \<longleftrightarrow>
    \<not> b \<and> (\<forall>g\<in>set groups. g_failed g = [] \<and> group_pending g = [])"
  by (auto simp: decide_def Let_def filter_empty_conv concat_eq_Nil_conv)

end
