(* ===== verification/Gate_Props.thy ===== *)
theory Gate_Props
  imports Deploy_Gate
begin

text \<open>
  What the deploy gate guarantees: when exactly it lets a release go, whose results it counts,
  and that it does not wait for ever.
\<close>

section \<open>When the gate lets a release go\<close>

text \<open>
  C10. When the gate deploys. In the mode image always. In the mode workflows exactly when a
  workflow is chosen and every chosen one has a counted run and only passed ones. In the mode
  checks exactly when no counted workflow run failed and, with an expected set, every expected
  name is answered by passed results only and no other result failed, or, without one, something
  was reported and every result and every run passed.
\<close>

theorem gate_deploys_exactly_when:
  "evaluateDeployGate i = Gate_Deploy b \<longleftrightarrow> \<not> b \<and>
   (case gi_mode i of
      Image_Mode \<Rightarrow> True
    | Workflows_Mode \<Rightarrow> gi_workflows i \<noteq> [] \<and> (\<forall>w\<in>set (gi_workflows i). runs_for i w \<noteq> [] \<and>
        (\<forall>run\<in>set (runs_for i w). run_verdict run = Passed))
    | Checks_Mode \<Rightarrow> (\<forall>run\<in>set (runs_of i). run_verdict run \<noteq> Failed) \<and>
        (if expected_names i \<noteq> [] then
           (\<forall>n\<in>set (expected_names i). answers_of i n \<noteq> [] \<and> (\<forall>r\<in>set (answers_of i n). rs_verdict r = Passed)) \<and>
           (\<forall>r\<in>set (resolved_of i). rs_name r \<notin> set (expected_names i) \<longrightarrow> rs_verdict r \<noteq> Failed)
         else (resolved_of i \<noteq> [] \<or> runs_of i \<noteq> []) \<and> (\<forall>r\<in>set (resolved_of i). rs_verdict r = Passed) \<and>
           (\<forall>run\<in>set (runs_of i). run_verdict run = Passed)))"
proof (cases "gi_mode i")
  case Image_Mode
  then show ?thesis by (auto simp: evaluateDeployGate_def)
next
  case Workflows_Mode
  let ?res = "\<lambda>name. map (\<lambda>run. (run_verdict run, wr_startedAt run)) (runs_for i name)"
  show ?thesis
    using Workflows_Mode waitFor_pending_fst [of "uniq (gi_workflows i)" ?res Workflow_Noun]
    by (auto simp: evaluateDeployGate_def evaluateWorkflows_def Let_def decide_Deploy)
next
  case Checks_Mode
  have P: "v = Passed \<longleftrightarrow> v \<noteq> Failed \<and> v \<noteq> Running" for v by (cases v) auto
  show ?thesis
  proof (cases "expected_names i = []")
    case True
    with Checks_Mode show ?thesis
      by (auto simp: evaluateDeployGate_def evaluateChecks_def decide_Deploy group_pending_def
          reported_checks_group_def reported_runs_group_def filter_empty_conv P)
  next
    case False
    let ?res = "\<lambda>name. map (\<lambda>r. (rs_verdict r, rs_since r)) (answers_of i name)"
    have g: "g_failed (expected_group i) = [] \<and> group_pending (expected_group i) = [] \<longleftrightarrow>
      (\<forall>n\<in>set (expected_names i). answers_of i n \<noteq> [] \<and> (\<forall>r\<in>set (answers_of i n). rs_verdict r = Passed)) \<and>
      (\<forall>r\<in>set (resolved_of i). rs_name r \<notin> set (expected_names i) \<longrightarrow> rs_verdict r \<noteq> Failed)"
      using waitFor_pending_fst [of "expected_names i" ?res Check_Noun]
      by (auto simp: expected_group_def Let_def group_pending_def filter_empty_conv)
    have f: "g_failed (failed_runs_group i) = [] \<and> group_pending (failed_runs_group i) = [] \<longleftrightarrow>
      (\<forall>run\<in>set (runs_of i). run_verdict run \<noteq> Failed)"
      by (simp add: failed_runs_group_def group_pending_def filter_empty_conv)
    show ?thesis using False Checks_Mode g f
      by (simp add: evaluateDeployGate_def evaluateChecks_def decide_Deploy) blast
  qed
qed

text \<open>A release with one check of GitHub Actions and its run, waited for by name.\<close>

definition sample_check :: "string \<Rightarrow> string option \<Rightarrow> gate_check" where
  "sample_check status conclusion = \<lparr>k_name = ''test'', k_kind = Check_Run, k_status = status,
     k_conclusion = conclusion, k_id = 1, k_startedAt = Some 5000, k_appSlug = Some ''github-actions'',
     k_appId = Some 15368, k_runId = Some 7, k_checkSuiteId = Some 70\<rparr>"

definition sample_workflow_run :: "string \<Rightarrow> string option \<Rightarrow> workflow_run" where
  "sample_workflow_run status conclusion = \<lparr>wr_id = 7, wr_name = ''CI'', wr_path = ''.github/workflows/ci.yml'',
     wr_runAttempt = 1, wr_status = status, wr_conclusion = conclusion, wr_startedAt = Some 5000,
     wr_event = ''push'', wr_headBranch = Some ''main'', wr_headRepository = Some ''o/r'',
     wr_headRepositoryId = Some 9, wr_checkSuiteId = Some 70\<rparr>"

definition sample_gate :: "string \<Rightarrow> string option \<Rightarrow> gate_input" where
  "sample_gate status conclusion = \<lparr>gi_mode = Checks_Mode, gi_now = 6000, gi_startedAt = Some 1000,
     gi_timeoutMs = 2000, gi_expected = Some \<lparr>ex_source = From_Required, ex_names = [''test''], ex_appIds = []\<rparr>,
     gi_checks = [sample_check status conclusion], gi_workflows = [],
     gi_workflowRuns = [sample_workflow_run status conclusion], gi_excludedRunIds = [8],
     gi_trust = \<lparr>tr_branch = ''main'', tr_repository = ''o/r'', tr_repositoryId = Some 9\<rparr>,
     gi_appSlug = None, gi_isExcluded = None\<rparr>"

theorem gate_deploys_exactly_when_witness:
  "evaluateDeployGate (sample_gate ''completed'' (Some ''success'')) = Gate_Deploy False"
  unfolding gate_deploys_exactly_when by code_simp

section \<open>Whose results count\<close>

text \<open>All start times of the runs are known.\<close>

definition times_known :: "workflow_run list \<Rightarrow> bool" where
  "times_known runs \<longleftrightarrow> (\<forall>r\<in>set runs. wr_startedAt r \<noteq> None)"

lemma later_run_trans:
  assumes "wr_startedAt x \<noteq> None" "wr_startedAt y \<noteq> None" "wr_startedAt z \<noteq> None"
    and "\<not> later_run y x" "\<not> later_run z y"
  shows "\<not> later_run z x"
  using assms by (auto simp: later_run_def isLater_def split: if_splits)

lemma run_key_Some: "run_key trust excluded run = Some k \<longleftrightarrow>
    wr_id run \<notin> set excluded \<and> isTrustedRun run trust \<and> workflowKey run = k"
  by (auto simp: run_key_def)

lemma check_key_actions:
  assumes "check_key runs trust excluded isExcluded c = Some k" "k_kind c = Check_Run" "is_actions_check c"
  shows "\<exists>run. run_of_check runs c = Some run \<and> wr_id run \<in> wr_id ` set (latestTrustedRuns runs trust excluded)"
  using assms by (auto simp: check_key_def split: if_splits option.splits)

lemma check_key_included: "check_key runs trust excluded isExcluded c = Some k \<Longrightarrow>
    \<not> isExcluded (k_name c) (k_kind c) (k_appSlug c) (k_runId c)"
  by (auto simp: check_key_def split: if_splits)

text \<open>
  Whose results the gate counts. A workflow run counts only when GitHub reported it, it is
  not excluded, and it is a push or manual dispatch of the tracked branch from the connection's
  own repository; where all start times are known no other such run of its workflow is later, and
  every workflow with such a run has a counted one. A counted check is one of the reported ones
  and not excluded; a check of GitHub Actions counts only when the run behind it counts; and a
  commit status never counts beside a counted check run of the same name.
\<close>

lemma gate_counts_only_trusted:
  "(\<forall>run\<in>set (runs_of i). run \<in> set (gi_workflowRuns i) \<and> wr_id run \<notin> set (gi_excludedRunIds i) \<and>
      wr_event run \<in> {''push'', ''workflow_dispatch''} \<and> wr_headBranch run = Some (tr_branch (gi_trust i)) \<and>
      fromTrustedRepository run (gi_trust i)) \<and>
   (\<forall>run\<in>set (gi_workflowRuns i). wr_id run \<notin> set (gi_excludedRunIds i) \<and> isTrustedRun run (gi_trust i) \<longrightarrow>
      (\<exists>kept\<in>set (runs_of i). workflowKey kept = workflowKey run \<and>
         (times_known (gi_workflowRuns i) \<longrightarrow> \<not> later_run run kept))) \<and>
   (\<forall>r\<in>set (resolved_of i). \<exists>c\<in>set (gi_checks i). r = resolve_check c \<and>
      \<not> isExcluded_of i (k_name c) (k_kind c) (k_appSlug c) (k_runId c) \<and>
      (k_kind c = Check_Run \<and> is_actions_check c \<longrightarrow>
         (\<exists>run. run_of_check (gi_workflowRuns i) c = Some run \<and> wr_id run \<in> wr_id ` set (runs_of i)))) \<and>
   (\<forall>r\<in>set (resolved_of i). \<forall>r'\<in>set (resolved_of i).
      rs_kind r = Commit_Status \<and> rs_kind r' = Check_Run \<longrightarrow> rs_name r \<noteq> rs_name r')"
    (is "?trusted \<and> ?newest \<and> ?checks \<and> ?status")
proof (intro conjI)
  let ?kept = "lr.kept (gi_trust i) (gi_excludedRunIds i) (gi_workflowRuns i)"
  let ?R = "gi_workflowRuns i" and ?T = "gi_trust i" and ?E = "gi_excludedRunIds i" and ?X = "isExcluded_of i"
  have runs: "run \<in> set (runs_of i) \<longleftrightarrow> (\<exists>k. map_of ?kept k = Some run)" for run
    by (simp only: runs_of_def latestTrustedRuns_eq lr.set_kept)
  show ?trusted
  proof
    fix run assume "run \<in> set (runs_of i)"
    with runs obtain k where "map_of ?kept k = Some run" by blast
    from lr.kept_from [OF this] have "run \<in> set ?R" "wr_id run \<notin> set ?E" "isTrustedRun run ?T"
      by (simp_all add: run_key_Some)
    then show "run \<in> set ?R \<and> wr_id run \<notin> set ?E \<and> wr_event run \<in> {''push'', ''workflow_dispatch''} \<and>
      wr_headBranch run = Some (tr_branch ?T) \<and> fromTrustedRepository run ?T"
      by (simp add: isTrustedRun_def)
  qed
  show ?newest
  proof (intro ballI impI)
    fix run assume r: "run \<in> set ?R" and "wr_id run \<notin> set ?E \<and> isTrustedRun run ?T"
    then have k: "run_key ?T ?E run = Some (workflowKey run)" by (simp add: run_key_Some)
    from lr.kept_some [OF r k] obtain y where y: "map_of ?kept (workflowKey run) = Some y" by blast
    from lr.kept_from [OF y] have yk: "workflowKey y = workflowKey run" by (simp add: run_key_Some)
    have "\<not> later_run run y" if "times_known ?R"
    proof (rule lr.kept_latest [OF _ y r k])
      fix a b c assume "a \<in> set ?R" "b \<in> set ?R" "c \<in> set ?R" and n: "\<not> later_run b a" "\<not> later_run c b"
      with that show "\<not> later_run c a" by (intro later_run_trans [OF _ _ _ n]) (auto simp: times_known_def)
    qed
    with y yk runs show "\<exists>kept\<in>set (runs_of i). workflowKey kept = workflowKey run \<and>
         (times_known ?R \<longrightarrow> \<not> later_run run kept)" by blast
  qed
  have counted: "\<exists>k. c \<in> set (gi_checks i) \<and> check_key ?R ?T ?E ?X c = Some k"
    if "c \<in> set (latest_checks (gi_checks i) ?R ?T ?E ?X)" for c
    using that lc.kept_from unfolding latest_checks_eq lc.set_kept by blast
  show ?checks
  proof
    fix r assume "r \<in> set (resolved_of i)"
    then obtain c where c: "c \<in> set (latest_checks (gi_checks i) ?R ?T ?E ?X)" "r = resolve_check c"
      by (auto simp: resolved_of_def resolveChecks_def Let_def)
    from counted [OF c(1)] obtain k where k: "c \<in> set (gi_checks i)" "check_key ?R ?T ?E ?X c = Some k" by blast
    from check_key_actions [OF k(2)] check_key_included [OF k(2)] k(1) c(2)
    show "\<exists>c\<in>set (gi_checks i). r = resolve_check c \<and> \<not> ?X (k_name c) (k_kind c) (k_appSlug c) (k_runId c) \<and>
      (k_kind c = Check_Run \<and> is_actions_check c \<longrightarrow>
         (\<exists>run. run_of_check ?R c = Some run \<and> wr_id run \<in> wr_id ` set (runs_of i)))"
      unfolding runs_of_def by blast
  qed
  show ?status
    by (auto simp: resolved_of_def resolveChecks_def Let_def resolve_check_def)
qed

section \<open>The gate does not wait for ever\<close>

lemma stuck_iff: "x \<in> set (map fst (stuck clock g)) \<longleftrightarrow> (\<exists>s. (x, s) \<in> set (g_running g) \<and>
    c_timeoutMs clock \<le> c_now clock - (case s of None \<Rightarrow> c_gateStart clock | Some t \<Rightarrow> t))"
  by (force simp: stuck_def)

lemma decide_Waiting:
  assumes "decide groups clock = Gate_Waiting reason names"
  shows "names \<noteq> [] \<and> (\<forall>g\<in>set groups. g_failed g = []) \<and>
    (\<forall>n\<in>set names. \<exists>g\<in>set groups.
       n \<in> set (g_missing g) \<and> c_now clock - c_gateStart clock < c_timeoutMs clock \<or>
       (\<exists>s. (n, s) \<in> set (g_running g) \<and>
          c_now clock - (case s of None \<Rightarrow> c_gateStart clock | Some t \<Rightarrow> t) < c_timeoutMs clock))"
proof -
  from assms have f: "\<forall>g\<in>set groups. g_failed g = []"
    and p: "\<forall>g\<in>set groups. group_parts clock g = []"
    and n: "names = uniq (concat (map group_pending groups))" "names \<noteq> []"
    by (auto simp: decide_def Let_def filter_empty_conv concat_eq_Nil_conv split: if_splits)
  have late: "stuck clock g = []" "gate_timed_out clock \<longrightarrow> g_missing g = []" if "g \<in> set groups" for g
    using p that by (auto simp: group_parts_def Let_def split: if_splits)
  show ?thesis
  proof (intro conjI ballI)
    fix x assume "x \<in> set names"
    with n obtain g where g: "g \<in> set groups" "x \<in> set (g_missing g) \<or> x \<in> fst ` set (g_running g)"
      by (auto simp: group_pending_def)
    from late [OF g(1)] g stuck_iff [of x clock g]
    show "\<exists>g\<in>set groups. x \<in> set (g_missing g) \<and> c_now clock - c_gateStart clock < c_timeoutMs clock \<or>
       (\<exists>s. (x, s) \<in> set (g_running g) \<and>
          c_now clock - (case s of None \<Rightarrow> c_gateStart clock | Some t \<Rightarrow> t) < c_timeoutMs clock)"
      by (intro bexI [of _ g]) (force simp: gate_timed_out_def not_le)+
  qed (use f n in auto)
qed

lemma latest_start_Some: "latest_start found = Some t \<Longrightarrow> (Running, Some t) \<in> set found"
proof -
  assume a: "latest_start found = Some t"
  let ?starts = "List.map_filter snd (filter (\<lambda>f. fst f = Running) found)"
  from a have "?starts \<noteq> []" "t = Max (set ?starts)" by (auto simp: latest_start_def Let_def split: if_splits)
  then have "t \<in> set ?starts" using Max_in [of "set ?starts"] by simp
  then show ?thesis by (auto simp: List.map_filter_def)
qed

lemma waitFor_fresh: "(n, Some t) \<in> set (g_running (waitFor names results k)) \<Longrightarrow> (Running, Some t) \<in> set (results n)"
  by (auto simp: waitFor_running dest!: latest_start_Some [OF sym] split: if_splits)

text \<open>A counted result of the name that is running and started less than the timeout ago.\<close>

definition fresh_result :: "gate_input \<Rightarrow> string \<Rightarrow> bool" where
  "fresh_result i n \<longleftrightarrow>
     (\<exists>run\<in>set (runs_of i). run_verdict run = Running \<and> (n = wr_name run \<or> runMatches run n) \<and>
        (\<exists>s. wr_startedAt run = Some s \<and> gi_now i - s < gi_timeoutMs i)) \<or>
     (\<exists>r\<in>set (resolved_of i). rs_verdict r = Running \<and> rs_name r = n \<and>
        (\<exists>s. rs_since r = Some s \<and> gi_now i - s < gi_timeoutMs i))"

lemma waiting_fresh:
  assumes d: "decide groups (clock_of i) = Gate_Waiting reason names" and late: "gate_timed_out (clock_of i)"
    and g: "\<And>g n t. g \<in> set groups \<Longrightarrow> (n, Some t) \<in> set (g_running g) \<Longrightarrow>
      gi_now i - t < gi_timeoutMs i \<Longrightarrow> fresh_result i n"
  shows "names \<noteq> [] \<and> (\<forall>n\<in>set names. fresh_result i n)"
proof -
  from decide_Waiting [OF d] have ne: "names \<noteq> []" and w: "\<forall>n\<in>set names. \<exists>g\<in>set groups.
       n \<in> set (g_missing g) \<and> c_now (clock_of i) - c_gateStart (clock_of i) < c_timeoutMs (clock_of i) \<or>
       (\<exists>s. (n, s) \<in> set (g_running g) \<and>
          c_now (clock_of i) - (case s of None \<Rightarrow> c_gateStart (clock_of i) | Some t \<Rightarrow> t) < c_timeoutMs (clock_of i))"
    by blast+
  have "fresh_result i n" if "n \<in> set names" for n
  proof -
    from w that late obtain g' s where g': "g' \<in> set groups" "(n, s) \<in> set (g_running g')"
      "c_now (clock_of i) - (case s of None \<Rightarrow> c_gateStart (clock_of i) | Some t \<Rightarrow> t) < c_timeoutMs (clock_of i)"
      by (force simp: gate_timed_out_def)
    with late obtain t where "s = Some t" by (cases s) (auto simp: gate_timed_out_def)
    with g' g [of g' n t] show ?thesis by (simp add: clock_of_def)
  qed
  with ne show ?thesis by blast
qed

text \<open>
  The gate does not wait for ever. Once the timeout has passed since the gate began to wait,
  it answers ``waiting'' only for names each of which has a counted result that is running and
  that itself started less than the timeout ago; so with no such result it deploys or blocks.
\<close>

lemma gate_waits_bounded:
  assumes "evaluateDeployGate i = Gate_Waiting reason names"
    and "gi_startedAt i = Some t" and "gi_timeoutMs i \<le> gi_now i - t"
  shows "names \<noteq> [] \<and> (\<forall>n\<in>set names. fresh_result i n)"
proof -
  have late: "gate_timed_out (clock_of i)" using assms(2,3) by (simp add: gate_timed_out_def clock_of_def)
  show ?thesis
  proof (cases "gi_mode i")
    case Image_Mode
    with assms(1) show ?thesis by (simp add: evaluateDeployGate_def)
  next
    case Workflows_Mode
    let ?res = "\<lambda>name. map (\<lambda>run. (run_verdict run, wr_startedAt run)) (runs_for i name)"
    let ?g = "waitFor (uniq (gi_workflows i)) ?res Workflow_Noun"
    have "decide [?g] (clock_of i) = Gate_Waiting reason names"
      using assms(1) Workflows_Mode by (auto simp: evaluateDeployGate_def evaluateWorkflows_def Let_def split: if_splits)
    then show ?thesis
    proof (rule waiting_fresh [OF _ late])
      fix g n s assume "g \<in> set [?g]" "(n, Some s) \<in> set (g_running g)" "gi_now i - s < gi_timeoutMs i"
      moreover from this have "(Running, Some s) \<in> set (?res n)" by (intro waitFor_fresh) auto
      ultimately show "fresh_result i n" by (force simp: fresh_result_def runs_for_def)
    qed
  next
    case Checks_Mode
    let ?res = "\<lambda>name. map (\<lambda>r. (rs_verdict r, rs_since r)) (answers_of i name)"
    consider "expected_names i \<noteq> []" "decide [expected_group i, failed_runs_group i] (clock_of i) = Gate_Waiting reason names"
      | "decide [reported_checks_group i, reported_runs_group i] (clock_of i) = Gate_Waiting reason names"
      using assms(1) Checks_Mode late by (auto simp: evaluateDeployGate_def evaluateChecks_def split: if_splits)
    then show ?thesis
    proof cases
      case 1
      from this(2) show ?thesis
      proof (rule waiting_fresh [OF _ late])
        fix g n s assume a: "g \<in> set [expected_group i, failed_runs_group i]" "(n, Some s) \<in> set (g_running g)"
          "gi_now i - s < gi_timeoutMs i"
        then have "(n, Some s) \<in> set (g_running (waitFor (expected_names i) ?res Check_Noun))"
          by (auto simp: expected_group_def failed_runs_group_def Let_def)
        from waitFor_fresh [OF this] a(3) show "fresh_result i n"
          by (force simp: fresh_result_def answers_of_def)
      qed
    next
      case 2
      then show ?thesis
      proof (rule waiting_fresh [OF _ late])
        fix g n s assume "g \<in> set [reported_checks_group i, reported_runs_group i]" "(n, Some s) \<in> set (g_running g)"
          "gi_now i - s < gi_timeoutMs i"
        then show "fresh_result i n"
          by (force simp: fresh_result_def reported_checks_group_def reported_runs_group_def)
      qed
    qed
  qed
qed

end
