(* ===== verification/Gha_Store.thy ===== *)
theory Gha_Store
  imports Deploy_Gate Connection
begin

text \<open>
  The stored connections and releases of ``Build on GitHub Actions'' and every write to them:
  \<open>services/gha-connect/store.ts\<close>, \<open>deploy-gate-store.ts\<close>, \<open>deploy-gate-settings.ts\<close> and
  \<open>processed.ts\<close> of \<open>packages/server/src\<close>. A transaction is one function on the two tables; the
  clock of a write (\<open>new Date()\<close>) is its last argument. An update is a map over the rows that
  satisfy its \<open>where\<close>; a select with \<open>limit 1\<close> takes the first matching row in the order asked for.
\<close>

section \<open>The tables\<close>

datatype release_status = St_Accepted | St_Deployed | St_Failed | St_Noop | St_Verified | St_Superseded

datatype release_gate_state = GS_Waiting | GS_Blocked | GS_Passed | GS_Overridden

datatype delivery = Pull | Push

record gate_override =
  ov_by :: string
  ov_at :: int
  ov_reason :: "string option"

record processed_entry =
  pe_runId :: int
  pe_attempt :: int
  pe_outcome :: string
  pe_at :: int

datatype service_type = Service_Application | Service_Compose

datatype protection_mode = Protect_Environment | Protect_Repository_Secret

datatype manifest_source = From_Artifact | From_Job_Log

record conn_row =
  cn_organizationId :: string
  cn_serviceType :: service_type
  cn_serviceId :: string
  cn_githubConnectionId :: string
  cn_repoId :: int
  cn_repoFullName :: string
  cn_workflowPath :: string
  cn_trackedBranch :: string
  cn_environment :: string
  cn_serviceKey :: string
  cn_protectionMode :: protection_mode
  cn_registryPrefix :: "string option"
  cn_registryId :: "string option"
  cn_registryProbeHost :: "string option"
  cn_state :: connection_state
  cn_stateDetail :: "string option"
  cn_stateSince :: int
  cn_expectedSha :: "string option"
  cn_lastError :: "string option"
  cn_gateMode :: gate_mode
  cn_gateWorkflows :: "string list"
  cn_gateTimeoutMinutes :: int
  cn_gateStartedAt :: "int option"
  cn_gateVersion :: int
  cn_gateBlocked :: bool
  cn_deployedSha :: "string option"
  cn_deployedRunId :: "int option"
  cn_deployedRunAttempt :: "int option"
  cn_deployedDigests :: "string list option"
  cn_deployedAt :: "int option"
  cn_processed :: "processed_entry list"
  cn_previousSource :: "json option"
  cn_lastActivityAt :: "int option"
  cn_lastRunSeenId :: "int option"
  cn_createdAt :: int

record release_image =
  ri_name :: string
  ri_composeService :: string
  ri_ref :: string

record release_row =
  rl_releaseId :: string
  rl_connectionId :: string
  rl_manifestReleaseId :: string
  rl_sha :: string
  rl_runId :: int
  rl_runAttempt :: int
  rl_delivery :: delivery
  rl_status :: release_status
  rl_manifestSource :: manifest_source
  rl_githubDeploymentId :: "int option"
  rl_images :: "release_image list"
  rl_digests :: "string list"
  rl_sourceBackup :: "json option"
  rl_gateState :: "release_gate_state option"
  rl_gateReason :: "string option"
  rl_gateCheckedAt :: "int option"
  rl_gateExpected :: "gate_expected option"
  rl_gateOverride :: "gate_override option"
  rl_pinned :: bool
  rl_createdAt :: int
  rl_settledAt :: "int option"

record gha_db =
  db_conns :: "string \<rightharpoonup> conn_row"
  db_releases :: "release_row list"

definition update_conn :: "string \<Rightarrow> (conn_row \<Rightarrow> conn_row) \<Rightarrow> gha_db \<Rightarrow> gha_db" where
  "update_conn c f db = (case db_conns db c of None \<Rightarrow> db
     | Some row \<Rightarrow> db\<lparr>db_conns := (db_conns db)(c \<mapsto> f row)\<rparr>)"

definition update_releases :: "(release_row \<Rightarrow> bool) \<Rightarrow> (release_row \<Rightarrow> release_row) \<Rightarrow> gha_db \<Rightarrow> gha_db" where
  "update_releases P f db = db\<lparr>db_releases := map (\<lambda>r. if P r then f r else r) (db_releases db)\<rparr>"

section \<open>Connection events and history: store.ts\<close>

definition applyConnectionEvent ::
  "string \<Rightarrow> connection_event \<Rightarrow> string option option \<Rightarrow> int \<Rightarrow> gha_db \<Rightarrow> state_view option \<times> gha_db" where
  "applyConnectionEvent c event note now db =
     (case db_conns db c of None \<Rightarrow> (None, db)
      | Some row \<Rightarrow>
          let after = reduceConnection (view (cn_state row) (cn_stateDetail row)) event in
          (Some after, update_conn c (\<lambda>row. row\<lparr>cn_state := state after, cn_stateDetail := detail after,
             cn_stateSince := (if state after \<noteq> cn_state row then now else cn_stateSince row),
             cn_lastError := (case note of None \<Rightarrow> cn_lastError row | Some n \<Rightarrow> n)\<rparr>) db))"

definition wasProcessed :: "processed_entry list \<Rightarrow> int \<Rightarrow> int \<Rightarrow> bool" where
  "wasProcessed processed runId attempt =
     list_ex (\<lambda>p. pe_runId p = runId \<and> pe_attempt p = attempt) processed"

definition mergeProcessed :: "processed_entry list \<Rightarrow> processed_entry list \<Rightarrow> processed_entry list" where
  "mergeProcessed existing added = take 50 (added @ existing)"

definition recordProcessedRuns :: "string \<Rightarrow> processed_entry list \<Rightarrow> int \<Rightarrow> gha_db \<Rightarrow> gha_db" where
  "recordProcessedRuns c entries now db = update_conn c
     (\<lambda>row. row\<lparr>cn_processed := mergeProcessed (cn_processed row) entries, cn_lastActivityAt := Some now\<rparr>) db"

definition touchConnectionActivity :: "string \<Rightarrow> int \<Rightarrow> gha_db \<Rightarrow> gha_db" where
  "touchConnectionActivity c now db = update_conn c (\<lambda>row. row\<lparr>cn_lastActivityAt := Some now\<rparr>) db"

record release_input =
  in_connectionId :: string
  in_manifestReleaseId :: string
  in_sha :: string
  in_runId :: int
  in_runAttempt :: int
  in_delivery :: delivery
  in_status :: release_status
  in_githubDeploymentId :: "int option"
  in_images :: "release_image list"
  in_digests :: "string list"
  in_manifestSource :: "manifest_source option"
  in_sourceBackup :: "json option"

definition new_release :: "string \<Rightarrow> release_input \<Rightarrow> int \<Rightarrow> release_row" where
  "new_release rid i now = \<lparr>rl_releaseId = rid, rl_connectionId = in_connectionId i,
     rl_manifestReleaseId = in_manifestReleaseId i, rl_sha = in_sha i, rl_runId = in_runId i,
     rl_runAttempt = in_runAttempt i, rl_delivery = in_delivery i, rl_status = in_status i,
     rl_manifestSource = (case in_manifestSource i of None \<Rightarrow> From_Artifact | Some s \<Rightarrow> s),
     rl_githubDeploymentId = in_githubDeploymentId i, rl_images = in_images i, rl_digests = in_digests i,
     rl_sourceBackup = in_sourceBackup i,
     rl_gateState = None, rl_gateReason = None, rl_gateCheckedAt = None, rl_gateExpected = None,
     rl_gateOverride = None, rl_pinned = False, rl_createdAt = now,
     rl_settledAt = (if in_status i = St_Accepted then None else Some now)\<rparr>"

definition same_run :: "string \<Rightarrow> int \<Rightarrow> int \<Rightarrow> release_row \<Rightarrow> bool" where
  "same_run c runId attempt r \<longleftrightarrow> rl_connectionId r = c \<and> rl_runId r = runId \<and> rl_runAttempt r = attempt"

text \<open>
  \<open>rid\<close> is the generated key of the row. A row of the same connection, run and attempt keeps the
  insert from doing anything.
\<close>

definition recordRelease :: "string \<Rightarrow> release_input \<Rightarrow> int \<Rightarrow> gha_db \<Rightarrow> gha_db" where
  "recordRelease rid i now db =
     (if list_ex (same_run (in_connectionId i) (in_runId i) (in_runAttempt i)) (db_releases db) then db
      else db\<lparr>db_releases := db_releases db @ [new_release rid i now]\<rparr>)"

definition of_deployment :: "string \<Rightarrow> int \<Rightarrow> release_row \<Rightarrow> bool" where
  "of_deployment c d r \<longleftrightarrow> rl_connectionId r = c \<and> rl_githubDeploymentId r = Some d"

definition findReleaseByDeployment :: "string \<Rightarrow> int \<Rightarrow> gha_db \<Rightarrow> release_row option" where
  "findReleaseByDeployment c d db = find (of_deployment c d) (db_releases db)"

definition set_deployed :: "string \<Rightarrow> int \<Rightarrow> int \<Rightarrow> string list \<Rightarrow> int \<Rightarrow> conn_row \<Rightarrow> conn_row" where
  "set_deployed sha runId attempt digests now row = row\<lparr>cn_deployedSha := Some sha,
     cn_deployedRunId := Some runId, cn_deployedRunAttempt := Some attempt,
     cn_deployedDigests := Some digests, cn_deployedAt := Some now, cn_lastActivityAt := Some now\<rparr>"

text \<open>\<open>deployed\<close> says whether the outcome is \<open>deployed\<close> or \<open>failed\<close>.\<close>

definition settleRelease :: "string \<Rightarrow> int \<Rightarrow> bool \<Rightarrow> int \<Rightarrow> gha_db \<Rightarrow> gha_db" where
  "settleRelease c d deployed now db =
     (case find (of_deployment c d) (db_releases db) of None \<Rightarrow> db
      | Some release \<Rightarrow>
          let db' = update_releases (\<lambda>r. rl_releaseId r = rl_releaseId release)
                (\<lambda>r. r\<lparr>rl_status := (if deployed then St_Deployed else St_Failed), rl_settledAt := Some now\<rparr>) db in
          if deployed then update_conn c
            (set_deployed (rl_sha release) (rl_runId release) (rl_runAttempt release) (rl_digests release) now) db'
          else db')"

definition recordVerifiedRelease :: "string \<Rightarrow> release_input \<Rightarrow> int \<Rightarrow> gha_db \<Rightarrow> gha_db" where
  "recordVerifiedRelease rid i now db = update_conn (in_connectionId i)
     (set_deployed (in_sha i) (in_runId i) (in_runAttempt i) (in_digests i) now)
     (recordRelease rid (i\<lparr>in_status := (if in_status i = St_Noop then St_Noop else St_Verified)\<rparr>) now db)"

definition accepted_of :: "string \<Rightarrow> release_row \<Rightarrow> bool" where
  "accepted_of c r \<longleftrightarrow> rl_connectionId r = c \<and> rl_status r = St_Accepted"

definition listPendingReleases :: "string \<Rightarrow> gha_db \<Rightarrow> release_row list" where
  "listPendingReleases c db =
     rev (sort_key rl_runId (sort_key rl_runAttempt (filter (accepted_of c) (db_releases db))))"

definition supersedeReleases :: "string \<Rightarrow> string list \<Rightarrow> int \<Rightarrow> gha_db \<Rightarrow> gha_db" where
  "supersedeReleases c releaseIds now db =
     (if releaseIds = [] then db
      else update_releases (\<lambda>r. accepted_of c r \<and> rl_releaseId r \<in> set releaseIds)
        (\<lambda>r. r\<lparr>rl_status := St_Superseded, rl_settledAt := Some now\<rparr>) db)"

definition failAcceptedRelease :: "string \<Rightarrow> string \<Rightarrow> int \<Rightarrow> gha_db \<Rightarrow> gha_db" where
  "failAcceptedRelease c rid now db = update_releases (\<lambda>r. accepted_of c r \<and> rl_releaseId r = rid)
     (\<lambda>r. r\<lparr>rl_status := St_Failed, rl_settledAt := Some now\<rparr>) db"

section \<open>What the gate writes: deploy-gate-store.ts\<close>

datatype gate_start = Start_Mark | Start_Clear | Start_Keep

datatype conn_change = Conn_Block | Conn_Unblock | Conn_Keep

record gate_outcome =
  go_gateState :: release_gate_state
  go_gateReason :: "string option"
  go_checkedAt :: int
  go_previousCheckedAt :: "int option"
  go_gateVersion :: int
  go_gateExpected :: "gate_expected option"
  go_gateStart :: gate_start
  go_connection :: conn_change
  go_hasRelease :: bool

definition unblock_row :: "bool \<Rightarrow> int \<Rightarrow> conn_row \<Rightarrow> conn_row" where
  "unblock_row hasRelease now row =
     (if \<not> cn_gateBlocked row then row
      else if cn_state row \<noteq> Blocked then row\<lparr>cn_gateBlocked := False\<rparr>
      else let after = reduceConnection (view (cn_state row) (cn_stateDetail row)) (Ev_Unblock hasRelease) in
        row\<lparr>cn_state := state after, cn_stateDetail := detail after, cn_stateSince := now,
            cn_lastError := None, cn_gateBlocked := False\<rparr>)"

definition unblockGateInTransaction :: "string \<Rightarrow> bool \<Rightarrow> int \<Rightarrow> gha_db \<Rightarrow> gha_db" where
  "unblockGateInTransaction c hasRelease now db = update_conn c (unblock_row hasRelease now) db"

definition block_row :: "string \<Rightarrow> int \<Rightarrow> conn_row \<Rightarrow> conn_row" where
  "block_row reason now row =
     (if cn_state row = Blocked \<and> \<not> cn_gateBlocked row then row
      else let after = reduceConnection (view (cn_state row) (cn_stateDetail row)) (Ev_Release_Refused reason True) in
        if state after \<noteq> Blocked then row
        else row\<lparr>cn_state := state after, cn_stateDetail := detail after,
          cn_stateSince := (if cn_state row \<noteq> Blocked then now else cn_stateSince row),
          cn_lastError := Some reason, cn_gateBlocked := True\<rparr>)"

definition blockGateInTransaction :: "string \<Rightarrow> string \<Rightarrow> int \<Rightarrow> gha_db \<Rightarrow> gha_db" where
  "blockGateInTransaction c reason now db = update_conn c (block_row reason now) db"

definition clearGateStart :: "string \<Rightarrow> gha_db \<Rightarrow> gha_db" where
  "clearGateStart c db = update_conn c
     (\<lambda>row. if cn_gateStartedAt row \<noteq> None then row\<lparr>cn_gateStartedAt := None\<rparr> else row) db"

definition evaluated_row :: "string \<Rightarrow> gate_outcome \<Rightarrow> release_row \<Rightarrow> bool" where
  "evaluated_row rid o' r \<longleftrightarrow> rl_releaseId r = rid \<and> rl_status r = St_Accepted \<and>
     rl_gateState r \<noteq> Some GS_Overridden \<and> rl_gateCheckedAt r = go_previousCheckedAt o'"

definition write_outcome :: "gate_outcome \<Rightarrow> release_row \<Rightarrow> release_row" where
  "write_outcome o' r = r\<lparr>rl_gateState := Some (go_gateState o'), rl_gateReason := go_gateReason o',
     rl_gateCheckedAt := Some (go_checkedAt o'),
     rl_gateExpected := nullish (go_gateExpected o') (rl_gateExpected r)\<rparr>"

definition outcome_effects :: "string \<Rightarrow> gate_outcome \<Rightarrow> int \<Rightarrow> gha_db \<Rightarrow> gha_db" where
  "outcome_effects c o' now db =
     (let db1 = (if go_gateStart o' \<noteq> Start_Keep
            then update_conn c (\<lambda>row. row\<lparr>cn_gateStartedAt :=
              (if go_gateStart o' = Start_Mark then Some (go_checkedAt o') else None)\<rparr>) db
            else db) in
      case go_connection o' of
        Conn_Block \<Rightarrow> blockGateInTransaction c
          (case go_gateReason o' of None \<Rightarrow> ''Blocked by the deploy gate'' | Some r \<Rightarrow> r) now db1
      | Conn_Unblock \<Rightarrow> unblockGateInTransaction c (go_hasRelease o') now db1
      | Conn_Keep \<Rightarrow> db1)"

definition recordGateOutcome :: "string \<Rightarrow> string \<Rightarrow> gate_outcome \<Rightarrow> int \<Rightarrow> gha_db \<Rightarrow> bool \<times> gha_db" where
  "recordGateOutcome c rid o' now db =
     (case db_conns db c of None \<Rightarrow> (False, db)
      | Some owner \<Rightarrow>
          if cn_gateVersion owner \<noteq> go_gateVersion o' then (False, db)
          else if \<not> list_ex (evaluated_row rid o') (db_releases db) then (False, db)
          else (True, outcome_effects c o' now (update_releases (evaluated_row rid o') (write_outcome o') db)))"

section \<open>Settings and Deploy anyway\<close>

record gate_settings =
  se_gateMode :: gate_mode
  se_gateWorkflows :: "string list"
  se_gateTimeoutMinutes :: int

definition gateChangeWeakens :: "gate_settings \<Rightarrow> gate_settings \<Rightarrow> bool" where
  "gateChangeWeakens old after =
     (if se_gateMode after = Image_Mode \<and> se_gateMode old \<noteq> Image_Mode then True
      else if se_gateMode old \<noteq> Image_Mode \<and> se_gateMode after \<noteq> Image_Mode \<and>
        se_gateMode after \<noteq> se_gateMode old then True
      else if list_ex (\<lambda>name. name \<notin> set (se_gateWorkflows after)) (se_gateWorkflows old) then True
      else se_gateTimeoutMinutes old < se_gateTimeoutMinutes after)"

text \<open>Which parts of a change start the gate over: everything, the timer.\<close>

definition gateChangeRestarts :: "gate_settings \<Rightarrow> gate_settings \<Rightarrow> bool \<times> bool" where
  "gateChangeRestarts old after =
     (let full = (se_gateMode after \<noteq> se_gateMode old \<or>
            se_gateMode after = Workflows_Mode \<and>
            join [CHR 0x0A] (sort (se_gateWorkflows after)) \<noteq> join [CHR 0x0A] (sort (se_gateWorkflows old)));
          timer = (se_gateTimeoutMinutes old < se_gateTimeoutMinutes after) in
      (full, full \<or> timer))"

definition settings_of :: "conn_row \<Rightarrow> gate_settings" where
  "settings_of row = \<lparr>se_gateMode = cn_gateMode row, se_gateWorkflows = cn_gateWorkflows row,
     se_gateTimeoutMinutes = cn_gateTimeoutMinutes row\<rparr>"

definition not_overridden :: "string \<Rightarrow> release_row \<Rightarrow> bool" where
  "not_overridden c r \<longleftrightarrow> accepted_of c r \<and> rl_gateState r \<noteq> Some GS_Overridden"

definition forget_gate :: "bool \<Rightarrow> release_row \<Rightarrow> release_row" where
  "forget_gate full r =
     (if full then r\<lparr>rl_gateState := None, rl_gateReason := None, rl_gateCheckedAt := None, rl_gateExpected := None\<rparr>
      else r\<lparr>rl_gateCheckedAt := None\<rparr>)"

definition updateGateSettings ::
  "string \<Rightarrow> gate_mode option \<Rightarrow> string list option \<Rightarrow> int option \<Rightarrow> int \<Rightarrow> gha_db \<Rightarrow>
   (gate_settings \<times> gate_settings \<times> bool) option \<times> gha_db" where
  "updateGateSettings c mode workflows timeout now db =
     (case db_conns db c of None \<Rightarrow> (None, db)
      | Some row \<Rightarrow>
          let old = settings_of row;
              after = \<lparr>se_gateMode = the (nullish mode (Some (se_gateMode old))),
                se_gateWorkflows = the (nullish workflows (Some (se_gateWorkflows old))),
                se_gateTimeoutMinutes = the (nullish timeout (Some (se_gateTimeoutMinutes old)))\<rparr>;
              (full, timer) = gateChangeRestarts old after;
              db1 = update_conn c (\<lambda>row. row\<lparr>cn_gateMode := se_gateMode after,
                cn_gateWorkflows := se_gateWorkflows after, cn_gateTimeoutMinutes := se_gateTimeoutMinutes after,
                cn_gateVersion := cn_gateVersion row + 1,
                cn_gateStartedAt := (if timer then None else cn_gateStartedAt row)\<rparr>) db;
              db2 = (if timer then unblockGateInTransaction c (cn_deployedSha row \<noteq> None) now
                  (update_releases (not_overridden c) (forget_gate full) db1) else db1) in
          (Some (old, after, timer), db2))"

text \<open>The newest row by creation time; of two rows created at one time the first in the table.\<close>

definition newest_created :: "release_row list \<Rightarrow> release_row option" where
  "newest_created rs = (case rev (sort_key rl_createdAt (rev rs)) of [] \<Rightarrow> None | r # _ \<Rightarrow> Some r)"

definition findGatedRelease :: "string \<Rightarrow> gha_db \<Rightarrow> release_row option" where
  "findGatedRelease c db = newest_created (filter (accepted_of c) (db_releases db))"

datatype override_result =
    Override_Ok string string
  | Override_None
  | Override_Conflict string string

definition overrideGate :: "string \<Rightarrow> string \<Rightarrow> gate_override \<Rightarrow> int \<Rightarrow> gha_db \<Rightarrow> override_result \<times> gha_db" where
  "overrideGate c rid ov now db =
     (case findGatedRelease c db of None \<Rightarrow> (Override_None, db)
      | Some newest \<Rightarrow>
          if rl_releaseId newest \<noteq> rid then (Override_Conflict (rl_releaseId newest) (rl_sha newest), db)
          else let db1 = update_releases (\<lambda>r. rl_releaseId r = rl_releaseId newest)
                  (\<lambda>r. r\<lparr>rl_gateState := Some GS_Overridden,
                     rl_gateReason := Some (''Deployed anyway by '' @ ov_by ov),
                     rl_gateCheckedAt := Some (ov_at ov), rl_gateOverride := Some ov\<rparr>) db;
                hasRelease = (case db_conns db c of None \<Rightarrow> False | Some row \<Rightarrow> cn_deployedSha row \<noteq> None);
                db2 = update_conn c (\<lambda>row. row\<lparr>cn_gateStartedAt := None, cn_lastActivityAt := Some now,
                  cn_gateVersion := cn_gateVersion row + 1\<rparr>) db1 in
            (Override_Ok (rl_releaseId newest) (rl_sha newest), unblockGateInTransaction c hasRelease now db2))"

end
