(* ===== verification/Gha_Steps.thy ===== *)
theory Gha_Steps
  imports Gha_Store
begin

text \<open>
  Every history of writes to the stored connections and releases: the step relation of the
  operations of \<open>Gha_Store\<close>, with the keys the database generates fresh, and what holds in every
  state it reaches.
\<close>

section \<open>The writes\<close>

definition release_ids :: "gha_db \<Rightarrow> string set" where
  "release_ids db = rl_releaseId ` set (db_releases db)"

inductive gha_step :: "gha_db \<Rightarrow> gha_db \<Rightarrow> bool" where
  step_event: "gha_step db (snd (applyConnectionEvent c ev nt now db))"
| step_processed: "gha_step db (recordProcessedRuns c entries now db)"
| step_touch: "gha_step db (touchConnectionActivity c now db)"
| step_record: "rid \<notin> release_ids db \<Longrightarrow> gha_step db (recordRelease rid i now db)"
| step_verified: "rid \<notin> release_ids db \<Longrightarrow> gha_step db (recordVerifiedRelease rid i now db)"
| step_settle: "gha_step db (settleRelease c d deployed now db)"
| step_supersede: "gha_step db (supersedeReleases c ids now db)"
| step_fail: "gha_step db (failAcceptedRelease c rid now db)"
| step_clear: "gha_step db (clearGateStart c db)"
| step_outcome: "go_gateState o' \<noteq> GS_Overridden \<Longrightarrow> gha_step db (snd (recordGateOutcome c rid o' now db))"
| step_settings: "gha_step db (snd (updateGateSettings c mode workflows timeout now db))"
| step_override: "gha_step db (snd (overrideGate c rid ov now db))"

inductive_cases gha_stepE: "gha_step db db'"

definition gha_init :: "gha_db \<Rightarrow> bool" where
  "gha_init db \<longleftrightarrow> db_releases db = []"

section \<open>How the writes change the releases\<close>

lemma releases_update_conn [simp]: "db_releases (update_conn c f db) = db_releases db"
  by (simp add: update_conn_def split: option.splits)

lemma conns_update_releases [simp]: "db_conns (update_releases P f db) = db_conns db"
  by (simp add: update_releases_def)

lemma releases_update_releases [simp]:
  "db_releases (update_releases P f db) = map (\<lambda>r. if P r then f r else r) (db_releases db)"
  by (simp add: update_releases_def)

lemma conns_update_conn: "db_conns (update_conn c f db) k =
    (if k = c then map_option f (db_conns db c) else db_conns db k)"
  by (auto simp: update_conn_def split: option.splits)

lemma releases_event [simp]: "db_releases (snd (applyConnectionEvent c ev nt now db)) = db_releases db"
  by (simp add: applyConnectionEvent_def Let_def split: option.splits)

lemma releases_conn_ops [simp]:
  "db_releases (recordProcessedRuns c entries now db) = db_releases db"
  "db_releases (touchConnectionActivity c now db) = db_releases db"
  "db_releases (clearGateStart c db) = db_releases db"
  "db_releases (unblockGateInTransaction c h now db) = db_releases db"
  "db_releases (blockGateInTransaction c reason now db) = db_releases db"
  by (simp_all add: recordProcessedRuns_def touchConnectionActivity_def clearGateStart_def
      unblockGateInTransaction_def blockGateInTransaction_def)

lemma releases_effects [simp]: "db_releases (outcome_effects c o' now db) = db_releases db"
  by (simp add: outcome_effects_def Let_def split: conn_change.splits)

lemma releases_recordVerified: "db_releases (recordVerifiedRelease rid i now db) =
    db_releases (recordRelease rid (i\<lparr>in_status := (if in_status i = St_Noop then St_Noop else St_Verified)\<rparr>) now db)"
  by (simp add: recordVerifiedRelease_def)

text \<open>A write that maps the rows and keeps their keys.\<close>

definition row_key :: "release_row \<Rightarrow> string \<times> string \<times> int \<times> int" where
  "row_key r = (rl_releaseId r, rl_connectionId r, rl_runId r, rl_runAttempt r)"

text \<open>The writes of existing rows: which row, and how. \<open>None\<close>: nothing is written.\<close>

definition settle_row :: "bool \<Rightarrow> int \<Rightarrow> release_row \<Rightarrow> release_row" where
  "settle_row deployed now r = r\<lparr>rl_status := (if deployed then St_Deployed else St_Failed), rl_settledAt := Some now\<rparr>"

definition override_row :: "gate_override \<Rightarrow> release_row \<Rightarrow> release_row" where
  "override_row ov r = r\<lparr>rl_gateState := Some GS_Overridden,
     rl_gateReason := Some (''Deployed anyway by '' @ ov_by ov),
     rl_gateCheckedAt := Some (ov_at ov), rl_gateOverride := Some ov\<rparr>"

definition supersede_row :: "int \<Rightarrow> release_row \<Rightarrow> release_row" where
  "supersede_row now r = r\<lparr>rl_status := St_Superseded, rl_settledAt := Some now\<rparr>"

text \<open>How one write can change a row that exists.\<close>

inductive row_change :: "release_row \<Rightarrow> release_row \<Rightarrow> bool" where
  rc_same: "row_change r r"
| rc_settle: "row_change r (settle_row deployed now r)"
| rc_supersede: "rl_status r = St_Accepted \<Longrightarrow> row_change r (supersede_row now r)"
| rc_fail: "rl_status r = St_Accepted \<Longrightarrow> row_change r (settle_row False now r)"
| rc_outcome: "rl_status r = St_Accepted \<Longrightarrow> rl_gateState r \<noteq> Some GS_Overridden \<Longrightarrow>
    go_gateState o' \<noteq> GS_Overridden \<Longrightarrow> row_change r (write_outcome o' r)"
| rc_forget: "rl_status r = St_Accepted \<Longrightarrow> rl_gateState r \<noteq> Some GS_Overridden \<Longrightarrow> row_change r (forget_gate full r)"
| rc_override: "rl_status r = St_Accepted \<Longrightarrow> row_change r (override_row ov r)"

lemma row_change_key: "row_change r r' \<Longrightarrow> row_key r' = row_key r"
  by (induction rule: row_change.induct)
    (simp_all add: row_key_def settle_row_def supersede_row_def write_outcome_def forget_gate_def override_row_def)

text \<open>
  Every write maps the rows that exist by \<open>row_change\<close>, and appends at most one new row, of a
  fresh key and a run no row has.
\<close>

definition releases_change :: "gha_db \<Rightarrow> gha_db \<Rightarrow> bool" where
  "releases_change db db' \<longleftrightarrow> list_all2 row_change (db_releases db) (db_releases db') \<or>
     (\<exists>rid i now. rid \<notin> release_ids db \<and>
        \<not> list_ex (same_run (in_connectionId i) (in_runId i) (in_runAttempt i)) (db_releases db) \<and>
        db_releases db' = db_releases db @ [new_release rid i now])"

lemma list_all2_map_rows: "(\<And>r. r \<in> set xs \<Longrightarrow> row_change r (f r)) \<Longrightarrow> list_all2 row_change xs (map f xs)"
  by (induction xs) auto

lemma change_same: "db_releases db' = db_releases db \<Longrightarrow> releases_change db db'"
  using list_all2_map_rows [of "db_releases db" id] by (auto simp: releases_change_def intro: rc_same)

lemma change_map: "(\<And>r. r \<in> set (db_releases db) \<Longrightarrow> P r \<Longrightarrow> row_change r (f r)) \<Longrightarrow>
    db_releases db' = map (\<lambda>r. if P r then f r else r) (db_releases db) \<Longrightarrow> releases_change db db'"
  unfolding releases_change_def by (auto intro!: list_all2_map_rows rc_same)

lemma change_record: "rid \<notin> release_ids db \<Longrightarrow> db_releases db' = db_releases (recordRelease rid i now db) \<Longrightarrow>
    releases_change db db'"
  by (cases "list_ex (same_run (in_connectionId i) (in_runId i) (in_runAttempt i)) (db_releases db)")
    (simp add: recordRelease_def change_same, auto simp: recordRelease_def releases_change_def)

definition ids_unique :: "gha_db \<Rightarrow> bool" where
  "ids_unique db \<longleftrightarrow> distinct (map rl_releaseId (db_releases db))"

lemma ids_uniqueD: "ids_unique db \<Longrightarrow> r \<in> set (db_releases db) \<Longrightarrow> r' \<in> set (db_releases db) \<Longrightarrow>
    rl_releaseId r = rl_releaseId r' \<Longrightarrow> r = r'"
  by (auto simp: ids_unique_def distinct_map dest: inj_onD)

lemma newest_created_in: "newest_created rs = Some r \<Longrightarrow> r \<in> set rs"
proof -
  assume "newest_created rs = Some r"
  then obtain rest where "rev (sort_key rl_createdAt (rev rs)) = r # rest"
    by (auto simp: newest_created_def split: list.splits)
  then have "r \<in> set (rev (sort_key rl_createdAt (rev rs)))" by (metis list.set_intros(1))
  then show ?thesis by simp
qed

lemma findGated_accepted: "findGatedRelease c db = Some r \<Longrightarrow> r \<in> set (db_releases db) \<and> accepted_of c r"
  using newest_created_in by (fastforce simp: findGatedRelease_def)

lemma change_outcome: "go_gateState o' \<noteq> GS_Overridden \<Longrightarrow>
    releases_change db (snd (recordGateOutcome c rid o' now db))"
proof (cases "fst (recordGateOutcome c rid o' now db)")
  case True
  then have e: "db_releases (snd (recordGateOutcome c rid o' now db)) =
      map (\<lambda>r. if evaluated_row rid o' r then write_outcome o' r else r) (db_releases db)"
    by (auto simp: recordGateOutcome_def split: option.splits if_splits)
  assume "go_gateState o' \<noteq> GS_Overridden"
  then show ?thesis by (intro change_map [OF _ e]) (auto simp: evaluated_row_def intro: rc_outcome)
next
  case False
  then have "snd (recordGateOutcome c rid o' now db) = db"
    by (auto simp: recordGateOutcome_def split: option.splits if_splits)
  then show ?thesis by (simp add: change_same)
qed

lemma change_settings: "releases_change db (snd (updateGateSettings c mode workflows timeout now db))"
proof -
  have "db_releases (snd (updateGateSettings c mode workflows timeout now db)) = db_releases db \<or>
    (\<exists>full. db_releases (snd (updateGateSettings c mode workflows timeout now db)) =
       map (\<lambda>r. if not_overridden c r then forget_gate full r else r) (db_releases db))"
    by (auto simp: updateGateSettings_def Let_def split: option.splits prod.splits)
  then show ?thesis
  proof
    assume "\<exists>full. db_releases (snd (updateGateSettings c mode workflows timeout now db)) =
       map (\<lambda>r. if not_overridden c r then forget_gate full r else r) (db_releases db)"
    then obtain full where "db_releases (snd (updateGateSettings c mode workflows timeout now db)) =
       map (\<lambda>r. if not_overridden c r then forget_gate full r else r) (db_releases db)" by blast
    then show ?thesis by (rule change_map [rotated]) (auto simp: not_overridden_def accepted_of_def intro: rc_forget)
  qed (rule change_same)
qed

lemma change_override: "ids_unique db \<Longrightarrow> releases_change db (snd (overrideGate c rid ov now db))"
proof (cases "findGatedRelease c db")
  case None
  then show ?thesis by (simp add: overrideGate_def change_same)
next
  case (Some newest)
  assume u: "ids_unique db"
  from findGated_accepted [OF Some] have n: "newest \<in> set (db_releases db)" "rl_status newest = St_Accepted"
    by (simp_all add: accepted_of_def)
  show ?thesis
  proof (cases "rl_releaseId newest = rid")
    case True
    with Some have e: "db_releases (snd (overrideGate c rid ov now db)) =
      map (\<lambda>r. if rl_releaseId r = rl_releaseId newest then override_row ov r else r) (db_releases db)"
      by (simp add: overrideGate_def Let_def override_row_def)
    show ?thesis by (rule change_map [OF _ e]) (use ids_uniqueD [OF u _ n(1)] n(2) in \<open>auto intro: rc_override\<close>)
  qed (simp add: overrideGate_def Some change_same)
qed

lemma change_settle: "releases_change db (settleRelease c d deployed now db)"
proof (cases "find (of_deployment c d) (db_releases db)")
  case None
  then show ?thesis by (simp add: settleRelease_def change_same)
next
  case (Some release)
  then have "db_releases (settleRelease c d deployed now db) =
    map (\<lambda>r. if rl_releaseId r = rl_releaseId release then settle_row deployed now r else r) (db_releases db)"
    by (simp add: settleRelease_def Let_def settle_row_def)
  then show ?thesis by (rule change_map [rotated]) (rule rc_settle)
qed

lemma gha_step_change: "gha_step db db' \<Longrightarrow> ids_unique db \<Longrightarrow> releases_change db db'"
proof (induction rule: gha_step.induct)
  case (step_record rid db i now)
  then show ?case by (auto intro: change_record)
next
  case (step_verified rid db i now)
  then show ?case by (intro change_record [OF _ releases_recordVerified])
next
  case (step_supersede db c ids now)
  show ?case
  proof (cases "ids = []")
    case False
    then show ?thesis
      by (intro change_map [where P = "\<lambda>r. accepted_of c r \<and> rl_releaseId r \<in> set ids" and f = "supersede_row now"])
        (auto simp: supersedeReleases_def accepted_of_def supersede_row_def intro: rc_supersede [unfolded supersede_row_def])
  qed (simp add: supersedeReleases_def change_same)
next
  case (step_fail db c rid now)
  show ?case
    by (intro change_map [where P = "\<lambda>r. accepted_of c r \<and> rl_releaseId r = rid" and f = "settle_row False now"])
      (auto simp: failAcceptedRelease_def accepted_of_def settle_row_def intro: rc_fail [unfolded settle_row_def, simplified])
qed (simp_all add: change_same change_outcome change_settings change_override change_settle)

section \<open>What holds in every history\<close>

text \<open>
  A settled row has a settling time and an accepted one has none; a release that goes out without
  its checks says who let it.
\<close>

definition row_ok :: "release_row \<Rightarrow> bool" where
  "row_ok r \<longleftrightarrow> (rl_settledAt r = None \<longleftrightarrow> rl_status r = St_Accepted) \<and>
     (rl_gateState r = Some GS_Overridden \<longleftrightarrow> rl_gateOverride r \<noteq> None) \<and>
     (\<forall>ov. rl_gateOverride r = Some ov \<longrightarrow> rl_gateReason r = Some (''Deployed anyway by '' @ ov_by ov))"

definition run_of :: "release_row \<Rightarrow> string \<times> int \<times> int" where
  "run_of r = (rl_connectionId r, rl_runId r, rl_runAttempt r)"

definition gha_inv :: "gha_db \<Rightarrow> bool" where
  "gha_inv db \<longleftrightarrow> ids_unique db \<and> distinct (map run_of (db_releases db)) \<and> (\<forall>r\<in>set (db_releases db). row_ok r)"

lemma row_change_ok: "row_change r r' \<Longrightarrow> row_ok r \<Longrightarrow> row_ok r'"
proof (induction rule: row_change.induct)
  case (rc_outcome r o')
  then show ?case by (cases "go_gateState o'") (auto simp: row_ok_def write_outcome_def)
qed (auto simp: row_ok_def settle_row_def supersede_row_def forget_gate_def override_row_def)

lemma row_ok_new: "row_ok (new_release rid i now)"
  by (simp add: row_ok_def new_release_def)

lemma list_all2_rows:
  "list_all2 row_change xs ys \<Longrightarrow> map rl_releaseId ys = map rl_releaseId xs \<and> map run_of ys = map run_of xs \<and>
    ((\<forall>r\<in>set xs. row_ok r) \<longrightarrow> (\<forall>r\<in>set ys. row_ok r))"
  by (induction rule: list_all2_induct)
    (auto dest: row_change_key row_change_ok simp: row_key_def run_of_def)

lemma gha_inv_step: "gha_inv db \<Longrightarrow> gha_step db db' \<Longrightarrow> gha_inv db'"
proof -
  assume i: "gha_inv db" and s: "gha_step db db'"
  then have "releases_change db db'" using gha_step_change by (simp add: gha_inv_def)
  then consider "list_all2 row_change (db_releases db) (db_releases db')"
    | rid ri now where "rid \<notin> release_ids db"
      "\<not> list_ex (same_run (in_connectionId ri) (in_runId ri) (in_runAttempt ri)) (db_releases db)"
      "db_releases db' = db_releases db @ [new_release rid ri now]"
    unfolding releases_change_def by blast
  then show ?thesis
  proof cases
    case 1
    from list_all2_rows [OF this] i show ?thesis by (simp add: gha_inv_def ids_unique_def)
  next
    case 2
    then have "run_of (new_release rid ri now) \<notin> run_of ` set (db_releases db)"
      by (auto simp: list_ex_iff same_run_def run_of_def new_release_def)
    moreover have "rl_releaseId (new_release rid ri now) \<notin> rl_releaseId ` set (db_releases db)"
      using 2(1) by (simp add: release_ids_def new_release_def)
    ultimately show ?thesis using i 2(3) by (simp add: gha_inv_def ids_unique_def row_ok_new)
  qed
qed

interpretation ig: inductive_invariant gha_init gha_step gha_inv
  by unfold_locales (simp add: gha_init_def gha_inv_def ids_unique_def, rule gha_inv_step)

end
