(* ===== verification/Gha_Props.thy ===== *)
theory Gha_Props
  imports Gha_Steps
begin

text \<open>
  What the stored releases and the gate's writes guarantee over every history: sound rows, a
  Deploy anyway that lasts, evaluations that are discarded when they are out of date, and blocks
  the gate did not set.
\<close>

section \<open>Sound rows\<close>

text \<open>
  C26. In every state that the writes can reach, a release has a settling time exactly when it is
  no longer accepted; a release that goes out without its checks is exactly one that records who
  let it out, and says so in its reason; and of each connection, run and attempt there is at most
  one release.
\<close>

theorem release_rows_sound:
  assumes "reach gha_init gha_step db" and "r \<in> set (db_releases db)"
  shows "(rl_settledAt r = None \<longleftrightarrow> rl_status r = St_Accepted) \<and>
    (rl_gateState r = Some GS_Overridden \<longleftrightarrow> (\<exists>ov. rl_gateOverride r = Some ov \<and>
       rl_gateReason r = Some (''Deployed anyway by '' @ ov_by ov))) \<and>
    (\<forall>r'\<in>set (db_releases db). rl_connectionId r' = rl_connectionId r \<and> rl_runId r' = rl_runId r \<and>
       rl_runAttempt r' = rl_runAttempt r \<longrightarrow> r' = r)"
proof -
  from ig.reach_inv [OF assms(1)] have inv: "gha_inv db" .
  with assms(2) have "row_ok r" by (simp add: gha_inv_def)
  moreover have "r' = r" if "r' \<in> set (db_releases db)" "run_of r' = run_of r" for r'
    using inv that assms(2) by (auto simp: gha_inv_def distinct_map dest: inj_onD)
  ultimately show ?thesis by (auto simp: row_ok_def run_of_def)
qed

definition sample_conn :: conn_row where
  "sample_conn = \<lparr>cn_organizationId = ''org'', cn_serviceType = Service_Application, cn_serviceId = ''app'',
     cn_githubConnectionId = ''gc'', cn_repoId = 9, cn_repoFullName = ''o/r'',
     cn_workflowPath = ''.github/workflows/dokploy.yml'', cn_trackedBranch = ''main'',
     cn_environment = ''production'', cn_serviceKey = ''web'', cn_protectionMode = Protect_Environment,
     cn_registryPrefix = None, cn_registryId = None, cn_registryProbeHost = None, cn_state = Connected, cn_stateDetail = None,
     cn_stateSince = 0, cn_expectedSha = None, cn_lastError = None, cn_gateMode = Checks_Mode, cn_gateWorkflows = [],
     cn_gateTimeoutMinutes = 60, cn_gateStartedAt = None, cn_gateVersion = 0, cn_gateBlocked = False,
     cn_deployedSha = Some ''old'', cn_deployedRunId = Some 1, cn_deployedRunAttempt = Some 1,
     cn_deployedDigests = Some [], cn_deployedAt = Some 0, cn_processed = [], cn_previousSource = None,
     cn_lastActivityAt = None, cn_lastRunSeenId = None, cn_createdAt = 0\<rparr>"

definition sample_input :: release_input where
  "sample_input = \<lparr>in_connectionId = ''c'', in_manifestReleaseId = ''gh-2.1'', in_sha = ''new'',
     in_runId = 2, in_runAttempt = 1, in_delivery = Pull, in_status = St_Accepted,
     in_githubDeploymentId = Some 20, in_images = [], in_digests = [],
     in_manifestSource = None, in_sourceBackup = None\<rparr>"

definition empty_db :: gha_db where
  "empty_db = \<lparr>db_conns = [''c'' \<mapsto> sample_conn], db_releases = []\<rparr>"

definition recorded_db :: gha_db where
  "recorded_db = recordRelease ''r1'' sample_input 100 empty_db"

definition sample_override :: gate_override where
  "sample_override = \<lparr>ov_by = ''ann'', ov_at = 200, ov_reason = None\<rparr>"

definition overridden_db :: gha_db where
  "overridden_db = snd (overrideGate ''c'' ''r1'' sample_override 200 recorded_db)"

lemma reach_recorded: "reach gha_init gha_step recorded_db"
proof -
  have "reach gha_init gha_step empty_db" by (rule reach_init) (simp add: gha_init_def empty_db_def)
  then show ?thesis unfolding recorded_db_def
    by (rule reach_step) (rule step_record, simp add: release_ids_def empty_db_def)
qed

lemma reach_overridden: "reach gha_init gha_step overridden_db"
  unfolding overridden_db_def by (rule reach_step [OF reach_recorded]) (rule step_override)

lemma overridden_row: "db_releases overridden_db = [override_row sample_override (new_release ''r1'' sample_input 100)]"
  by (simp add: overridden_db_def recorded_db_def recordRelease_def empty_db_def overrideGate_def findGatedRelease_def
      accepted_of_def new_release_def sample_input_def newest_created_def override_row_def Let_def)

theorem release_rows_sound_witness:
  "\<exists>ov. rl_gateOverride (hd (db_releases overridden_db)) = Some ov \<and> ov_by ov = ''ann''"
proof -
  let ?r = "override_row sample_override (new_release ''r1'' sample_input 100)"
  have "?r \<in> set (db_releases overridden_db)" by (simp add: overridden_row)
  from release_rows_sound [OF reach_overridden this]
  have "\<exists>ov. rl_gateOverride ?r = Some ov" by (auto simp: override_row_def)
  then show ?thesis by (simp add: overridden_row override_row_def sample_override_def)
qed

section \<open>Deploy anyway lasts\<close>

lemma row_change_overridden:
  "row_change r r' \<Longrightarrow> rl_gateState r = Some GS_Overridden \<Longrightarrow> rl_gateState r' = Some GS_Overridden"
  by (induction rule: row_change.induct) (auto simp: settle_row_def supersede_row_def override_row_def)

lemma list_all2_in: "list_all2 R xs ys \<Longrightarrow> x \<in> set xs \<Longrightarrow> \<exists>y\<in>set ys. R x y"
  by (induction rule: list_all2_induct) auto

lemma step_overridden:
  assumes "gha_inv db" "gha_step db db'" "r \<in> set (db_releases db)" "rl_gateState r = Some GS_Overridden"
  shows "\<exists>r'\<in>set (db_releases db'). rl_releaseId r' = rl_releaseId r \<and> rl_gateState r' = Some GS_Overridden"
proof -
  from assms(1,2) gha_step_change have "releases_change db db'" by (simp add: gha_inv_def)
  then consider "list_all2 row_change (db_releases db) (db_releases db')" | "r \<in> set (db_releases db')"
    using assms(3) by (auto simp: releases_change_def)
  then show ?thesis
  proof cases
    case 1
    from list_all2_in [OF this assms(3)] obtain r' where "r' \<in> set (db_releases db')" "row_change r r'" by blast
    with row_change_overridden row_change_key assms(4) show ?thesis by (metis prod.inject row_key_def)
  next
    case 2
    with assms(4) show ?thesis by blast
  qed
qed

text \<open>
  C25. A Deploy anyway lasts: once a release is overridden, no evaluation of the gate, no change
  of the settings and no other write makes it wait again, in any later history.
\<close>

theorem override_sticks:
  assumes "reach gha_init gha_step db" and "gha_step\<^sup>*\<^sup>* db db'"
    and "r \<in> set (db_releases db)" and "rl_gateState r = Some GS_Overridden"
  shows "\<exists>r'\<in>set (db_releases db'). rl_releaseId r' = rl_releaseId r \<and> rl_gateState r' = Some GS_Overridden"
  using assms(2)
proof (induction rule: rtranclp_induct)
  case base
  with assms show ?case by blast
next
  case (step y z)
  from step.hyps(1) have "reach gha_init gha_step y"
    by (induction rule: rtranclp_induct) (auto intro: assms(1) reach_step)
  then have "gha_inv y" by (rule ig.reach_inv)
  with step_overridden [OF _ step.hyps(2)] step.IH show ?case by metis
qed

theorem override_sticks_witness:
  "\<exists>r'\<in>set (db_releases (snd (updateGateSettings ''c'' (Some Workflows_Mode) None None 300 overridden_db))).
     rl_releaseId r' = ''r1'' \<and> rl_gateState r' = Some GS_Overridden"
proof -
  let ?r = "override_row sample_override (new_release ''r1'' sample_input 100)"
  have "?r \<in> set (db_releases overridden_db)" "rl_gateState ?r = Some GS_Overridden" "rl_releaseId ?r = ''r1''"
    by (simp_all add: overridden_row) (simp_all add: override_row_def new_release_def)
  moreover have "gha_step\<^sup>*\<^sup>* overridden_db (snd (updateGateSettings ''c'' (Some Workflows_Mode) None None 300 overridden_db))"
    by (rule r_into_rtranclp) (rule step_settings)
  ultimately show ?thesis using override_sticks [OF reach_overridden] by metis
qed

section \<open>Evaluations that are out of date\<close>

definition conns_le :: "gha_db \<Rightarrow> gha_db \<Rightarrow> bool" where
  "conns_le db db' \<longleftrightarrow> (\<forall>c row. db_conns db c = Some row \<longrightarrow>
     (\<exists>row'. db_conns db' c = Some row' \<and> cn_gateVersion row \<le> cn_gateVersion row'))"

lemma conns_le_refl [simp]: "conns_le db db"
  by (simp add: conns_le_def)

lemma conns_le_trans: "conns_le a b \<Longrightarrow> conns_le b c \<Longrightarrow> conns_le a c"
  unfolding conns_le_def by (meson order_trans)

lemma conns_le_update: "(\<And>row. cn_gateVersion row \<le> cn_gateVersion (f row)) \<Longrightarrow> conns_le db (update_conn c f db)"
  by (auto simp: conns_le_def conns_update_conn)

lemma conns_le_same: "db_conns db' = db_conns db \<Longrightarrow> conns_le db db'"
  by (simp add: conns_le_def)

lemma version_rows [simp]:
  "cn_gateVersion (unblock_row h now row) = cn_gateVersion row"
  "cn_gateVersion (block_row reason now row) = cn_gateVersion row"
  "cn_gateVersion (set_deployed sha i a ds now row) = cn_gateVersion row"
  by (simp_all add: unblock_row_def block_row_def set_deployed_def Let_def)

lemma conns_le_unblock: "conns_le db (unblockGateInTransaction c h now db)"
  by (simp add: unblockGateInTransaction_def conns_le_update)

lemma conns_le_effects: "conns_le db (outcome_effects c o' now db)"
proof -
  let ?db = "if go_gateStart o' \<noteq> Start_Keep
    then update_conn c (\<lambda>row. row\<lparr>cn_gateStartedAt := (if go_gateStart o' = Start_Mark then Some (go_checkedAt o') else None)\<rparr>) db
    else db"
  have "conns_le db ?db" by (simp add: conns_le_update)
  moreover have "conns_le ?db (outcome_effects c o' now db)"
    by (cases "go_connection o'")
      (simp_all add: outcome_effects_def Let_def blockGateInTransaction_def unblockGateInTransaction_def conns_le_update)
  ultimately show ?thesis by (rule conns_le_trans)
qed

lemma conns_record [simp]: "db_conns (recordRelease rid i now db) = db_conns db"
  by (simp add: recordRelease_def)

lemma override_conns: "fst (overrideGate c rid ov now db) = Override_Ok a b \<Longrightarrow> db_conns db c = Some row \<Longrightarrow>
    \<exists>row'. db_conns (snd (overrideGate c rid ov now db)) c = Some row' \<and> cn_gateVersion row' = cn_gateVersion row + 1"
  by (auto simp: overrideGate_def Let_def unblockGateInTransaction_def conns_update_conn split: option.splits if_splits)

lemma conns_le_override: "conns_le db (snd (overrideGate c rid ov now db))"
  by (auto simp: overrideGate_def Let_def unblockGateInTransaction_def conns_le_def conns_update_conn split: option.splits)

lemma conns_le_settings: "conns_le db (snd (updateGateSettings c mode workflows timeout now db))"
  by (auto simp: updateGateSettings_def Let_def unblockGateInTransaction_def conns_le_def conns_update_conn
      split: option.splits prod.splits)

lemma settings_conns: "db_conns db c = Some row \<Longrightarrow>
    \<exists>row'. db_conns (snd (updateGateSettings c mode workflows timeout now db)) c = Some row' \<and>
      cn_gateVersion row' = cn_gateVersion row + 1"
  by (auto simp: updateGateSettings_def Let_def unblockGateInTransaction_def conns_update_conn split: prod.splits)

lemma step_versions: "gha_step db db' \<Longrightarrow> conns_le db db'"
proof (induction rule: gha_step.induct)
  case (step_event db c ev nt now)
  then show ?case by (auto simp: applyConnectionEvent_def Let_def conns_le_update split: option.splits)
next
  case (step_verified rid db i now)
  then show ?case by (auto simp: recordVerifiedRelease_def intro!: conns_le_trans [OF conns_le_same conns_le_update])
next
  case (step_settle db c d deployed now)
  show ?case
    by (cases deployed) (auto simp: settleRelease_def Let_def conns_le_same split: option.splits
        intro!: conns_le_trans [OF conns_le_same conns_le_update])
next
  case (step_outcome o' db c rid now)
  show ?case
    by (auto simp: recordGateOutcome_def split: option.splits intro!: conns_le_trans [OF conns_le_same conns_le_effects])
qed (simp_all add: conns_le_update conns_le_override conns_le_settings conns_le_same recordProcessedRuns_def
    touchConnectionActivity_def clearGateStart_def supersedeReleases_def failAcceptedRelease_def)

lemma steps_versions: "gha_step\<^sup>*\<^sup>* db db' \<Longrightarrow> conns_le db db'"
  by (induction rule: rtranclp_induct) (auto intro: conns_le_trans step_versions)

text \<open>
  C20. An evaluation that read its inputs before a settings change or a Deploy anyway of its
  connection is discarded: whatever happens between, writing it answers no and changes nothing.
\<close>

theorem stale_evaluation_discarded:
  assumes "db_conns db c = Some row" and "go_gateVersion o' \<le> cn_gateVersion row"
    and "changed = snd (updateGateSettings c mode workflows timeout now db) \<or>
      fst (overrideGate c rid' ov now db) = Override_Ok a b \<and> changed = snd (overrideGate c rid' ov now db)"
    and "gha_step\<^sup>*\<^sup>* changed later"
  shows "recordGateOutcome c rid o' now' later = (False, later)"
proof -
  from assms(1,3) obtain row' where r: "db_conns changed c = Some row'" "cn_gateVersion row' = cn_gateVersion row + 1"
    using settings_conns override_conns by metis
  with steps_versions [OF assms(4)] obtain row'' where "db_conns later c = Some row''"
    "cn_gateVersion row + 1 \<le> cn_gateVersion row''"
    unfolding conns_le_def by metis
  with assms(2) show ?thesis by (simp add: recordGateOutcome_def)
qed

definition sample_outcome :: gate_outcome where
  "sample_outcome = \<lparr>go_gateState = GS_Passed, go_gateReason = None, go_checkedAt = 150,
     go_previousCheckedAt = None, go_gateVersion = 0, go_gateExpected = None, go_gateStart = Start_Clear,
     go_connection = Conn_Unblock, go_hasRelease = True\<rparr>"

theorem stale_evaluation_discarded_witness:
  "fst (recordGateOutcome ''c'' ''r1'' sample_outcome 400
      (snd (updateGateSettings ''c'' (Some Workflows_Mode) None None 300 recorded_db))) = False \<and>
   fst (recordGateOutcome ''c'' ''r1'' sample_outcome 400 recorded_db)"
proof -
  have c: "db_conns recorded_db ''c'' = Some sample_conn" by (simp add: recorded_db_def empty_db_def)
  have v: "go_gateVersion sample_outcome \<le> cn_gateVersion sample_conn"
    by (simp add: sample_outcome_def sample_conn_def)
  have "fst (recordGateOutcome ''c'' ''r1'' sample_outcome 400
      (snd (updateGateSettings ''c'' (Some Workflows_Mode) None None 300 recorded_db))) = False"
    using stale_evaluation_discarded [OF c v disjI1 [OF refl] rtranclp.rtrancl_refl] by simp
  moreover have "fst (recordGateOutcome ''c'' ''r1'' sample_outcome 400 recorded_db)"
    by (simp add: recordGateOutcome_def c recorded_db_def recordRelease_def empty_db_def evaluated_row_def
        new_release_def sample_input_def sample_outcome_def sample_conn_def)
  ultimately show ?thesis by blast
qed

section \<open>Blocks the gate did not set\<close>

definition foreign_block :: "conn_row \<Rightarrow> bool" where
  "foreign_block row \<longleftrightarrow> cn_state row = Blocked \<and> \<not> cn_gateBlocked row"

definition block_kept :: "gha_db \<Rightarrow> gha_db \<Rightarrow> string \<Rightarrow> bool" where
  "block_kept db db' c \<longleftrightarrow> (\<forall>row. db_conns db c = Some row \<and> foreign_block row \<longrightarrow>
     (\<exists>row'. db_conns db' c = Some row' \<and> foreign_block row' \<and> cn_stateDetail row' = cn_stateDetail row \<and>
        cn_lastError row' = cn_lastError row))"

lemma block_kept_effects: "block_kept db (outcome_effects c' o' now db) c"
  by (cases "go_connection o'")
    (auto simp: block_kept_def foreign_block_def outcome_effects_def Let_def blockGateInTransaction_def
      unblockGateInTransaction_def conns_update_conn block_row_def unblock_row_def)

lemma block_kept_outcome: "block_kept db (snd (recordGateOutcome c' rid o' now db)) c"
  using block_kept_effects [of "update_releases (evaluated_row rid o') (write_outcome o') db" c' o' now c]
  by (auto simp: recordGateOutcome_def block_kept_def split: option.splits)

lemma block_kept_settings: "block_kept db (snd (updateGateSettings c' mode workflows timeout now db)) c"
  by (auto simp: updateGateSettings_def Let_def unblockGateInTransaction_def block_kept_def foreign_block_def
      conns_update_conn unblock_row_def split: option.splits prod.splits)

lemma block_kept_override: "block_kept db (snd (overrideGate c' rid ov now db)) c"
  by (auto simp: overrideGate_def Let_def unblockGateInTransaction_def block_kept_def foreign_block_def
      conns_update_conn unblock_row_def split: option.splits)

text \<open>
  A connection that is Blocked for a reason that is not the gate's stays Blocked, for the
  same reason, through an evaluation of the gate, a change of its settings and a Deploy anyway.
\<close>

lemma gate_keeps_foreign_block:
  assumes "db_conns db c = Some row" and "foreign_block row"
    and "db' \<in> {snd (recordGateOutcome c' rid o' now db), snd (overrideGate c' rid ov now db),
      snd (updateGateSettings c' mode workflows timeout now db)}"
  shows "\<exists>row'. db_conns db' c = Some row' \<and> foreign_block row' \<and>
    cn_stateDetail row' = cn_stateDetail row \<and> cn_lastError row' = cn_lastError row"
proof -
  have "block_kept db db' c"
    using assms(3) by (auto intro: block_kept_outcome block_kept_settings block_kept_override)
  with assms(1,2) show ?thesis by (simp add: block_kept_def)
qed

definition refused_db :: gha_db where
  "refused_db = snd (applyConnectionEvent ''c'' (Ev_Release_Refused ''bad digest'' True) None 120 recorded_db)"

lemma refused_conn: "db_conns refused_db ''c'' =
    Some (sample_conn\<lparr>cn_state := Blocked, cn_stateDetail := Some ''bad digest'', cn_stateSince := 120\<rparr>)"
  by (simp add: refused_db_def applyConnectionEvent_def recorded_db_def empty_db_def update_conn_def
      sample_conn_def)

text \<open>The gate waits for a check that failed, then the check is re-run and passes.\<close>

definition failed_outcome :: gate_outcome where
  "failed_outcome = \<lparr>go_gateState = GS_Blocked, go_gateReason = Some ''Check test failed'', go_checkedAt = 110,
     go_previousCheckedAt = None, go_gateVersion = 0, go_gateExpected = None, go_gateStart = Start_Keep,
     go_connection = Conn_Block, go_hasRelease = True\<rparr>"

definition passed_outcome :: gate_outcome where
  "passed_outcome = sample_outcome\<lparr>go_previousCheckedAt := Some 110\<rparr>"

definition gate_blocked_db :: gha_db where
  "gate_blocked_db = snd (recordGateOutcome ''c'' ''r1'' failed_outcome 110 recorded_db)"

definition refused_while_blocked_db :: gha_db where
  "refused_while_blocked_db =
     snd (applyConnectionEvent ''c'' (Ev_Release_Refused ''bad digest'' True) None 120 gate_blocked_db)"

lemma gate_blocked_parts:
  "db_conns gate_blocked_db ''c'' = Some (sample_conn\<lparr>cn_state := Blocked, cn_stateDetail := Some ''Check test failed'',
     cn_stateSince := 110, cn_lastError := Some ''Check test failed'', cn_gateBlocked := True\<rparr>)"
  "db_releases gate_blocked_db = [write_outcome failed_outcome (new_release ''r1'' sample_input 100)]"
  by (simp_all add: gate_blocked_db_def recordGateOutcome_def recorded_db_def empty_db_def recordRelease_def
      evaluated_row_def new_release_def sample_input_def failed_outcome_def sample_conn_def outcome_effects_def
      blockGateInTransaction_def block_row_def update_conn_def update_releases_def)

text \<open>
  C39. A release that is refused and should block a live connection does block it with the refusal's reason. Whether
  the next applied evaluation that unblocks lifts this block depends on what came before the refusal: a connection
  that the gate was not blocking stays Blocked with that reason, and one that the gate was blocking is Connected
  again, or waits for a release, as if nothing had been refused.
\<close>

theorem gate_lifts_a_refusal:
  assumes "db_conns db c = Some row" and "cn_state row \<in> {Waiting_Release, Connected, Stale, Blocked}"
    and "db1 = snd (applyConnectionEvent c (Ev_Release_Refused reason True) note t db)"
    and "recordGateOutcome c rid o' now db1 = (True, db2)" and "go_connection o' = Conn_Unblock"
  shows "\<exists>row1 row2. db_conns db1 c = Some row1 \<and> cn_state row1 = Blocked \<and> cn_stateDetail row1 = Some reason \<and>
    db_conns db2 c = Some row2 \<and>
    (if cn_gateBlocked row
     then cn_state row2 = (if go_hasRelease o' then Connected else Waiting_Release) \<and> cn_stateDetail row2 = None
     else cn_state row2 = Blocked \<and> cn_stateDetail row2 = Some reason)"
proof -
  have after: "reduceConnection (view (cn_state row) (cn_stateDetail row)) (Ev_Release_Refused reason True) = view Blocked (Some reason)"
    using assms(2) by auto
  let ?row1 = "row\<lparr>cn_state := Blocked, cn_stateDetail := Some reason,
    cn_stateSince := (if Blocked \<noteq> cn_state row then t else cn_stateSince row),
    cn_lastError := (case note of None \<Rightarrow> cn_lastError row | Some n \<Rightarrow> n)\<rparr>"
  have row1: "db_conns db1 c = Some ?row1"
    unfolding assms(3) applyConnectionEvent_def using assms(1) after by (simp add: update_conn_def Let_def)
  have "db2 = outcome_effects c o' now (update_releases (evaluated_row rid o') (write_outcome o') db1)"
    using assms(4) row1 by (auto simp: recordGateOutcome_def split: if_splits)
  then have row2: "db_conns db2 c = Some (unblock_row (go_hasRelease o') now
      (if go_gateStart o' \<noteq> Start_Keep
       then ?row1\<lparr>cn_gateStartedAt := (if go_gateStart o' = Start_Mark then Some (go_checkedAt o') else None)\<rparr> else ?row1))"
    using row1 assms(5) by (simp add: outcome_effects_def Let_def unblockGateInTransaction_def conns_update_conn update_releases_def)
  show ?thesis
    by (intro exI conjI, rule row1, simp, simp, rule row2) (simp add: unblock_row_def)
qed

theorem gate_lifts_a_refusal_witness:
  "\<exists>row. db_conns (snd (recordGateOutcome ''c'' ''r1'' passed_outcome 150 refused_while_blocked_db)) ''c'' = Some row \<and>
     cn_state row = Connected"
proof -
  let ?row = "sample_conn\<lparr>cn_state := Blocked, cn_stateDetail := Some ''Check test failed'',
     cn_stateSince := 110, cn_lastError := Some ''Check test failed'', cn_gateBlocked := True\<rparr>"
  have c: "db_conns refused_while_blocked_db ''c'' = Some (sample_conn\<lparr>cn_state := Blocked,
      cn_stateDetail := Some ''bad digest'', cn_stateSince := 110, cn_lastError := Some ''Check test failed'',
      cn_gateBlocked := True\<rparr>)"
    by (simp add: refused_while_blocked_db_def applyConnectionEvent_def gate_blocked_parts update_conn_def sample_conn_def)
  have r: "db_releases refused_while_blocked_db = [write_outcome failed_outcome (new_release ''r1'' sample_input 100)]"
    by (simp add: refused_while_blocked_db_def gate_blocked_parts)
  have "evaluated_row ''r1'' passed_outcome (write_outcome failed_outcome (new_release ''r1'' sample_input 100))"
    by (simp add: evaluated_row_def write_outcome_def failed_outcome_def new_release_def sample_input_def
        passed_outcome_def)
  then have applied: "fst (recordGateOutcome ''c'' ''r1'' passed_outcome 150 refused_while_blocked_db) = True"
    by (simp add: c r recordGateOutcome_def passed_outcome_def sample_outcome_def sample_conn_def)
  have live: "cn_state ?row \<in> {Waiting_Release, Connected, Stale, Blocked}" by simp
  have recorded: "recordGateOutcome ''c'' ''r1'' passed_outcome 150 refused_while_blocked_db =
      (True, snd (recordGateOutcome ''c'' ''r1'' passed_outcome 150 refused_while_blocked_db))"
    by (metis applied prod.collapse)
  have unblocks: "go_connection passed_outcome = Conn_Unblock" "go_hasRelease passed_outcome"
    by (simp_all add: passed_outcome_def sample_outcome_def)
  from gate_lifts_a_refusal [OF gate_blocked_parts(1) live refused_while_blocked_db_def recorded unblocks(1)] unblocks(2)
  show ?thesis by auto
qed

end
