(* ===== verification/Gate_Step.thy ===== *)
theory Gate_Step
  imports Gha_Props Gate_Props
begin

text \<open>
  The step between accepting a release and deploying it: \<open>runDeployGate\<close> of
  \<open>services/gha-connect/deploy-gate-step.ts\<close> and \<open>loadExpectedCheckSet\<close> of
  \<open>deploy-gate-github.ts\<close>. The reads of GitHub are arguments; the store is an argument too, and
  the locale \<open>gate_store\<close> states what the step relies on, which the model of the database keeps.
\<close>

section \<open>Reads of GitHub\<close>

datatype api_failure =
    Api_Not_Modified | Api_Not_Found | Api_Unauthorized | Api_Forbidden string
  | Api_Rate_Limited int | Api_Error int

datatype read_stage = Stage_Protection | Stage_History

datatype 'a gate_read = Read_Ok 'a | Read_Failed api_failure "read_stage option"

record expected_input =
  xi_branch :: string
  xi_repositoryId :: "int option"
  xi_sha :: string
  xi_workflowPath :: string
  xi_appSlug :: "string option"
  xi_isExcluded :: "gate_exclusion option"

record gate_github =
  gh_loadExpectedCheckSet :: "expected_input \<Rightarrow> gate_expected gate_read"
  gh_loadCommitChecks :: "string \<Rightarrow> gate_check list gate_read"
  gh_loadWorkflowRuns :: "string \<Rightarrow> workflow_run list gate_read"

definition releaseWorkflowRunIds :: "workflow_run list \<Rightarrow> string \<Rightarrow> int list" where
  "releaseWorkflowRunIds runs workflowPath = map wr_id (filter (\<lambda>r. wr_path r = workflowPath) runs)"

subsection \<open>What ``all checks'' means\<close>

record required_read =
  rq_names :: "string list"
  rq_appIds :: "(string \<times> int) list"

definition exclusion_for :: "expected_input \<Rightarrow> int list \<Rightarrow> gate_exclusion" where
  "exclusion_for i runIds = (case xi_isExcluded i of Some f \<Rightarrow> f
     | None \<Rightarrow> createDefaultExclusion (xi_appSlug i) runIds)"

text \<open>The loop over the last commits of the branch: the first green one gives the names.\<close>

fun last_green ::
  "(string \<Rightarrow> gate_check list gate_read) \<Rightarrow> (string \<Rightarrow> workflow_run list gate_read) \<Rightarrow> gate_trust \<Rightarrow>
   expected_input \<Rightarrow> string list \<Rightarrow> gate_expected gate_read" where
  "last_green checksOf runsOf trust i [] =
     Read_Ok \<lparr>ex_source = From_Fallback, ex_names = [], ex_appIds = []\<rparr>"
| "last_green checksOf runsOf trust i (sha # shas) =
     (if sha = xi_sha i then last_green checksOf runsOf trust i shas
      else case checksOf sha of
          Read_Failed f _ \<Rightarrow>
            if f = Api_Not_Found then last_green checksOf runsOf trust i shas
            else Read_Failed f (Some Stage_History)
        | Read_Ok checks \<Rightarrow>
            (case runsOf sha of
               Read_Failed f _ \<Rightarrow>
                 if f = Api_Not_Found then last_green checksOf runsOf trust i shas
                 else Read_Failed f (Some Stage_History)
             | Read_Ok runs \<Rightarrow>
                 let excluded = releaseWorkflowRunIds runs (xi_workflowPath i) in
                 (case greenCheckRunNames checks runs trust excluded (exclusion_for i excluded) of
                    Some names \<Rightarrow> Read_Ok \<lparr>ex_source = From_Last_Green, ex_names = names, ex_appIds = []\<rparr>
                  | None \<Rightarrow> last_green checksOf runsOf trust i shas)))"

text \<open>
  \<open>required\<close> and \<open>recent\<close> are the answers of \<open>loadRequiredChecks\<close> and \<open>loadRecentCommits\<close>,
  \<open>repository\<close> the \<open>owner/name\<close> of the repository that is read.
\<close>

definition loadExpectedCheckSet ::
  "required_read gate_read \<Rightarrow> string list gate_read \<Rightarrow> (string \<Rightarrow> gate_check list gate_read) \<Rightarrow>
   (string \<Rightarrow> workflow_run list gate_read) \<Rightarrow> string \<Rightarrow> expected_input \<Rightarrow> gate_expected gate_read" where
  "loadExpectedCheckSet required recent checksOf runsOf repository i =
     (let trust = \<lparr>tr_branch = xi_branch i, tr_repository = repository, tr_repositoryId = xi_repositoryId i\<rparr> in
      case required of
        Read_Failed f _ \<Rightarrow> Read_Failed f (Some Stage_Protection)
      | Read_Ok rq \<Rightarrow>
          let names = filter (\<lambda>name. \<not> exclusion_for i [] name Commit_Status None None) (rq_names rq) in
          if names \<noteq> [] then
            Read_Ok \<lparr>ex_source = From_Required, ex_names = sort names,
              ex_appIds = List.map_filter (\<lambda>name. map_option (Pair name) (map_of (rq_appIds rq) name)) names\<rparr>
          else (case recent of
              Read_Failed f _ \<Rightarrow>
                if f = Api_Not_Found then Read_Ok \<lparr>ex_source = From_Fallback, ex_names = [], ex_appIds = []\<rparr>
                else Read_Failed f (Some Stage_History)
            | Read_Ok shas \<Rightarrow> last_green checksOf runsOf trust i shas))"

section \<open>The step\<close>

record gate_connection =
  gc_ghaConnectionId :: string
  gc_state :: connection_state
  gc_gateBlocked :: bool
  gc_repoFullName :: string
  gc_repoId :: int
  gc_gateVersion :: int
  gc_trackedBranch :: string
  gc_workflowPath :: string
  gc_gateMode :: gate_mode
  gc_gateWorkflows :: "string list"
  gc_gateTimeoutMinutes :: int
  gc_gateStartedAt :: "int option"
  gc_deployedSha :: "string option"

record gate_release =
  gr_releaseId :: string
  gr_sha :: string
  gr_runId :: int
  gr_createdAt :: int
  gr_gateState :: "release_gate_state option"
  gr_gateExpected :: "gate_expected option"
  gr_gateCheckedAt :: "int option"

definition blockedBy :: "string \<Rightarrow> gate_decision" where
  "blockedBy reason = Gate_Blocked reason [] [] []"

fun is_access_failure :: "api_failure \<Rightarrow> bool" where
  "is_access_failure Api_Unauthorized = True"
| "is_access_failure (Api_Forbidden message) = True"
| "is_access_failure _ = False"

definition failureDecision :: "api_failure \<Rightarrow> read_stage option \<Rightarrow> bool \<Rightarrow> int \<Rightarrow> gate_decision" where
  "failureDecision failure stage timedOut minutes' =
     (if is_access_failure failure then
        blockedBy ''GitHub did not let Dokploy read the checks. Reconnect GitHub.''
      else if timedOut then blockedBy (''GitHub could not be read for '' @ show_int minutes' @ '' minutes'')
      else Gate_Waiting (if stage = Some Stage_Protection then ''could not read branch protection, retrying''
                         else ''GitHub could not be read, trying again'') [])"

text \<open>A start before the release existed belongs to an older release.\<close>

definition gate_started :: "gate_connection \<Rightarrow> gate_release \<Rightarrow> int option" where
  "gate_started c r = (case gc_gateStartedAt c of None \<Rightarrow> None
     | Some t \<Rightarrow> if gr_createdAt r \<le> t then Some t else None)"

definition timeout_ms :: "gate_connection \<Rightarrow> int" where
  "timeout_ms c = gc_gateTimeoutMinutes c * 60000"

definition read_failed :: "gate_connection \<Rightarrow> gate_release \<Rightarrow> int \<Rightarrow> api_failure \<Rightarrow> read_stage option \<Rightarrow> gate_decision" where
  "read_failed c r now f stage = failureDecision f stage
     (case gate_started c r of None \<Rightarrow> False | Some t \<Rightarrow> timeout_ms c \<le> now - t) (gc_gateTimeoutMinutes c)"

text \<open>
  The reads, in their order: the runs, and in the mode checks the expected set, unless the release
  has one, and the checks of the commit. The answer is the decision of a failed read, or what was
  read: the runs, the expected set, the checks. The second component is the set that was learned.
\<close>

definition expected_input_of :: "gate_connection \<Rightarrow> gate_release \<Rightarrow> string option \<Rightarrow> gate_exclusion option \<Rightarrow> expected_input" where
  "expected_input_of c r appSlug isExcluded = \<lparr>xi_branch = gc_trackedBranch c, xi_repositoryId = Some (gc_repoId c),
     xi_sha = gr_sha r, xi_workflowPath = gc_workflowPath c, xi_appSlug = appSlug, xi_isExcluded = isExcluded\<rparr>"

definition read_checks ::
  "gate_connection \<Rightarrow> gate_release \<Rightarrow> gate_github \<Rightarrow> int \<Rightarrow> workflow_run list \<Rightarrow> gate_expected option \<Rightarrow>
   gate_decision + workflow_run list \<times> gate_expected option \<times> gate_check list" where
  "read_checks c r gh now runs expected =
     (case gh_loadCommitChecks gh (gr_sha r) of
        Read_Failed f stage \<Rightarrow> Inl (read_failed c r now f stage)
      | Read_Ok checks \<Rightarrow> Inr (runs, expected, checks))"

definition gate_reads ::
  "gate_connection \<Rightarrow> gate_release \<Rightarrow> gate_github \<Rightarrow> int \<Rightarrow> string option \<Rightarrow> gate_exclusion option \<Rightarrow>
   (gate_decision + workflow_run list \<times> gate_expected option \<times> gate_check list) \<times> gate_expected option" where
  "gate_reads c r gh now appSlug isExcluded =
     (case gh_loadWorkflowRuns gh (gr_sha r) of
        Read_Failed f stage \<Rightarrow> (Inl (read_failed c r now f stage), None)
      | Read_Ok runs \<Rightarrow>
          if gc_gateMode c \<noteq> Checks_Mode then (Inr (runs, gr_gateExpected r, []), None)
          else case gr_gateExpected r of
              Some e \<Rightarrow> (read_checks c r gh now runs (Some e), None)
            | None \<Rightarrow>
                (case gh_loadExpectedCheckSet gh (expected_input_of c r appSlug isExcluded) of
                   Read_Failed f stage \<Rightarrow> (Inl (read_failed c r now f stage), None)
                 | Read_Ok e \<Rightarrow> (read_checks c r gh now runs (Some e), Some e)))"

definition step_input ::
  "gate_connection \<Rightarrow> gate_release \<Rightarrow> int \<Rightarrow> string option \<Rightarrow> gate_exclusion option \<Rightarrow>
   workflow_run list \<times> gate_expected option \<times> gate_check list \<Rightarrow> gate_input" where
  "step_input c r now appSlug isExcluded reads =
     (let (runs, expected, checks) = reads;
          excluded = gr_runId r # releaseWorkflowRunIds runs (gc_workflowPath c) in
      \<lparr>gi_mode = gc_gateMode c, gi_now = now, gi_startedAt = gate_started c r, gi_timeoutMs = timeout_ms c,
       gi_expected = expected, gi_checks = checks, gi_workflows = gc_gateWorkflows c,
       gi_workflowRuns = runs, gi_excludedRunIds = excluded,
       gi_trust = \<lparr>tr_branch = gc_trackedBranch c, tr_repository = gc_repoFullName c,
         tr_repositoryId = Some (gc_repoId c)\<rparr>,
       gi_appSlug = appSlug,
       gi_isExcluded = Some (case isExcluded of Some f \<Rightarrow> f | None \<Rightarrow> createDefaultExclusion appSlug excluded)\<rparr>)"

definition gate_state_of :: "gate_decision \<Rightarrow> release_gate_state" where
  "gate_state_of d = (case d of Gate_Deploy _ \<Rightarrow> GS_Passed | Gate_Waiting _ _ \<Rightarrow> GS_Waiting
     | Gate_Blocked _ _ _ _ \<Rightarrow> GS_Blocked)"

definition decision_reason :: "gate_decision \<Rightarrow> string option" where
  "decision_reason d = (case d of Gate_Deploy _ \<Rightarrow> None | Gate_Waiting reason _ \<Rightarrow> Some reason
     | Gate_Blocked reason _ _ _ \<Rightarrow> Some reason)"

definition outcome_of_decision ::
  "gate_connection \<Rightarrow> gate_release \<Rightarrow> int \<Rightarrow> gate_expected option \<Rightarrow> gate_decision \<Rightarrow> gate_outcome" where
  "outcome_of_decision c r now learned d =
     (let foreignBlock = (gc_state c = Blocked \<and> \<not> gc_gateBlocked c) in
      \<lparr>go_gateState = gate_state_of d, go_gateReason = decision_reason d, go_checkedAt = now,
       go_previousCheckedAt = gr_gateCheckedAt r, go_gateVersion = gc_gateVersion c,
       go_gateExpected = learned,
       go_gateStart = (case d of
           Gate_Deploy _ \<Rightarrow> Start_Clear
         | Gate_Waiting _ _ \<Rightarrow> if gate_started c r = None then Start_Mark else Start_Keep
         | Gate_Blocked _ _ _ _ \<Rightarrow> Start_Keep),
       go_connection = (case d of
           Gate_Blocked _ _ _ _ \<Rightarrow> if foreignBlock then Conn_Keep else Conn_Block
         | _ \<Rightarrow> if gc_gateBlocked c then Conn_Unblock else Conn_Keep),
       go_hasRelease = (gc_deployedSha c \<noteq> None)\<rparr>)"

definition step_decision ::
  "gate_connection \<Rightarrow> gate_release \<Rightarrow> gate_github \<Rightarrow> int \<Rightarrow> string option \<Rightarrow> gate_exclusion option \<Rightarrow>
   gate_decision \<times> gate_expected option" where
  "step_decision c r gh now appSlug isExcluded =
     (let (reads, learned) = gate_reads c r gh now appSlug isExcluded in
      (case reads of Inl d \<Rightarrow> d | Inr x \<Rightarrow> evaluateDeployGate (step_input c r now appSlug isExcluded x), learned))"

definition runDeployGate ::
  "(string \<Rightarrow> string \<Rightarrow> gate_outcome \<Rightarrow> 'db \<Rightarrow> bool \<times> 'db) \<Rightarrow> gate_connection \<Rightarrow> gate_release \<Rightarrow> gate_github \<Rightarrow> int \<Rightarrow>
   string option \<Rightarrow> gate_exclusion option \<Rightarrow> 'db \<Rightarrow> gate_decision \<times> 'db" where
  "runDeployGate record_outcome c r gh now appSlug isExcluded db =
     (if gc_gateMode c = Image_Mode then (Gate_Deploy False, db)
      else if gr_gateState r = Some GS_Overridden then (Gate_Deploy True, db)
      else let (d, learned) = step_decision c r gh now appSlug isExcluded;
               (recorded, db') = record_outcome (gc_ghaConnectionId c) (gr_releaseId r)
                 (outcome_of_decision c r now learned d) db in
        if \<not> recorded then (Gate_Waiting ''Checking again'' [], db') else (d, db'))"

section \<open>What the step relies on and what it guarantees\<close>

text \<open>
  The contract of \<open>recordGateOutcome\<close>: an outcome that is refused changes nothing, and one that
  is recorded was evaluated with the current version and is what the release says afterwards.
\<close>

locale gate_store =
  fixes record_outcome :: "string \<Rightarrow> string \<Rightarrow> gate_outcome \<Rightarrow> 'db \<Rightarrow> bool \<times> 'db"
    and version_of :: "'db \<Rightarrow> string \<Rightarrow> int option"
    and says :: "'db \<Rightarrow> string \<Rightarrow> release_gate_state \<Rightarrow> bool"
  assumes refused_same: "record_outcome c rid o' db = (False, db') \<Longrightarrow> db' = db"
    and recorded_current: "record_outcome c rid o' db = (True, db') \<Longrightarrow> version_of db c = Some (go_gateVersion o')"
    and recorded_says: "record_outcome c rid o' db = (True, db') \<Longrightarrow> says db' rid (go_gateState o')"
begin

lemma step_deploys:
  assumes "runDeployGate record_outcome c r gh now appSlug ex db = (Gate_Deploy b, db')"
    and "gc_gateMode c \<noteq> Image_Mode" and "gr_gateState r \<noteq> Some GS_Overridden"
  shows "fst (step_decision c r gh now appSlug ex) = Gate_Deploy b \<and>
    version_of db (gc_ghaConnectionId c) = Some (gc_gateVersion c) \<and> says db' (gr_releaseId r) GS_Passed"
proof -
  obtain d learned where d: "step_decision c r gh now appSlug ex = (d, learned)" by fastforce
  let ?o = "outcome_of_decision c r now learned d"
  obtain recorded db1 where rec: "record_outcome (gc_ghaConnectionId c) (gr_releaseId r) ?o db = (recorded, db1)"
    by fastforce
  from assms d rec have r: "recorded" "d = Gate_Deploy b" "db1 = db'"
    by (auto simp: runDeployGate_def split: if_splits)
  with rec have "record_outcome (gc_ghaConnectionId c) (gr_releaseId r) ?o db = (True, db')" by simp
  from recorded_current [OF this] recorded_says [OF this] d r(2) show ?thesis
    by (simp add: outcome_of_decision_def Let_def gate_state_of_def)
qed

lemma step_refused:
  assumes "runDeployGate record_outcome c r gh now appSlug ex db = (d, db')"
    and "gc_gateMode c \<noteq> Image_Mode" and "gr_gateState r \<noteq> Some GS_Overridden"
    and "version_of db (gc_ghaConnectionId c) \<noteq> Some (gc_gateVersion c)"
  shows "d = Gate_Waiting ''Checking again'' [] \<and> db' = db"
proof -
  obtain d' learned where d: "step_decision c r gh now appSlug ex = (d', learned)" by fastforce
  let ?o = "outcome_of_decision c r now learned d'"
  obtain recorded db1 where rec: "record_outcome (gc_ghaConnectionId c) (gr_releaseId r) ?o db = (recorded, db1)"
    by fastforce
  with recorded_current [of "gc_ghaConnectionId c" "gr_releaseId r" ?o db db1] assms(4) have "\<not> recorded"
    by (auto simp: outcome_of_decision_def Let_def)
  with rec refused_same assms(1-3) d show ?thesis by (auto simp: runDeployGate_def)
qed

end

definition record_at :: "int \<Rightarrow> string \<Rightarrow> string \<Rightarrow> gate_outcome \<Rightarrow> gha_db \<Rightarrow> bool \<times> gha_db" where
  "record_at t c rid o' db = recordGateOutcome c rid o' t db"

definition stored_version :: "gha_db \<Rightarrow> string \<Rightarrow> int option" where
  "stored_version db c = map_option cn_gateVersion (db_conns db c)"

definition stored_says :: "gha_db \<Rightarrow> string \<Rightarrow> release_gate_state \<Rightarrow> bool" where
  "stored_says db rid s \<longleftrightarrow> (\<exists>r\<in>set (db_releases db). rl_releaseId r = rid \<and> rl_status r = St_Accepted \<and>
     rl_gateState r = Some s)"

lemma outcome_recorded: "recordGateOutcome c rid o' t db = (True, db') \<Longrightarrow>
    stored_version db c = Some (go_gateVersion o') \<and> stored_says db' rid (go_gateState o')"
proof -
  assume a: "recordGateOutcome c rid o' t db = (True, db')"
  then have v: "stored_version db c = Some (go_gateVersion o')"
    and ex: "list_ex (evaluated_row rid o') (db_releases db)"
    and db': "db_releases db' = map (\<lambda>r. if evaluated_row rid o' r then write_outcome o' r else r) (db_releases db)"
    by (auto simp: recordGateOutcome_def stored_version_def split: option.splits if_splits)
  from ex obtain r where "r \<in> set (db_releases db)" "evaluated_row rid o' r" by (auto simp: list_ex_iff)
  moreover from this db' have "write_outcome o' r \<in> set (db_releases db')" by force
  ultimately have "stored_says db' rid (go_gateState o')"
    unfolding stored_says_def by (intro bexI [of _ "write_outcome o' r"]) (auto simp: write_outcome_def evaluated_row_def)
  with v show ?thesis by blast
qed

lemma outcome_refused: "recordGateOutcome c rid o' t db = (False, db') \<Longrightarrow> db' = db"
  by (auto simp: recordGateOutcome_def split: option.splits if_splits)

interpretation gs: gate_store "record_at t" stored_version stored_says for t
  by unfold_locales (auto simp: record_at_def dest: outcome_recorded outcome_refused)

lemma gate_never_overrides: "evaluateDeployGate i = Gate_Deploy b \<Longrightarrow> \<not> b"
  by (auto simp: evaluateDeployGate_def evaluateChecks_def evaluateWorkflows_def Let_def decide_Deploy
      split: gate_mode.splits if_splits)

lemma failure_never_deploys: "failureDecision f stage late m \<noteq> Gate_Deploy b"
  by (simp add: failureDecision_def blockedBy_def)

lemma step_decision_Deploy:
  assumes "fst (step_decision c r gh now appSlug ex) = Gate_Deploy b"
  shows "\<exists>x learned. gate_reads c r gh now appSlug ex = (Inr x, learned) \<and>
    evaluateDeployGate (step_input c r now appSlug ex x) = Gate_Deploy b"
proof -
  obtain y learned where y: "gate_reads c r gh now appSlug ex = (y, learned)" by fastforce
  show ?thesis
  proof (cases y)
    case (Inl d)
    with y have "\<exists>f stage. d = read_failed c r now f stage"
      by (auto simp: gate_reads_def read_checks_def split: gate_read.splits if_splits option.splits)
    then have "d \<noteq> Gate_Deploy b" by (auto simp: read_failed_def failure_never_deploys)
    with Inl y assms show ?thesis by (simp add: step_decision_def)
  next
    case (Inr x)
    with y assms show ?thesis by (simp add: step_decision_def)
  qed
qed

text \<open>
  C4. The step says deploy in three cases only: the gate is off; the release was told to deploy
  anyway; or every read of GitHub succeeded, the gate passes on what was read, the connection's
  settings are still the ones the evaluation read, and the release is accepted and recorded as
  passed. A failed read, an evaluation that was overtaken or a release that is no longer accepted
  never deploys.
\<close>

theorem step_deploys_only_when:
  assumes "runDeployGate (record_at t) c r gh now appSlug ex db = (Gate_Deploy b, db')"
  shows "gc_gateMode c = Image_Mode \<and> db' = db \<or>
    gr_gateState r = Some GS_Overridden \<and> b \<and> db' = db \<or>
    \<not> b \<and> (\<exists>x learned. gate_reads c r gh now appSlug ex = (Inr x, learned) \<and>
      evaluateDeployGate (step_input c r now appSlug ex x) = Gate_Deploy False) \<and>
    stored_version db (gc_ghaConnectionId c) = Some (gc_gateVersion c) \<and>
    stored_says db' (gr_releaseId r) GS_Passed"
proof (cases "gc_gateMode c = Image_Mode \<or> gr_gateState r = Some GS_Overridden")
  case True
  with assms show ?thesis by (auto simp: runDeployGate_def split: if_splits)
next
  case False
  with gs.step_deploys [OF assms] have s: "fst (step_decision c r gh now appSlug ex) = Gate_Deploy b"
    "stored_version db (gc_ghaConnectionId c) = Some (gc_gateVersion c)" "stored_says db' (gr_releaseId r) GS_Passed"
    by blast+
  from step_decision_Deploy [OF s(1)] gate_never_overrides s show ?thesis by fastforce
qed

definition sample_gc :: gate_connection where
  "sample_gc = \<lparr>gc_ghaConnectionId = ''c'', gc_state = Connected, gc_gateBlocked = False, gc_repoFullName = ''o/r'',
     gc_repoId = 9, gc_gateVersion = 0, gc_trackedBranch = ''main'',
     gc_workflowPath = ''.github/workflows/dokploy.yml'', gc_gateMode = Checks_Mode, gc_gateWorkflows = [],
     gc_gateTimeoutMinutes = 60, gc_gateStartedAt = None, gc_deployedSha = Some ''old''\<rparr>"

definition sample_gr :: gate_release where
  "sample_gr = \<lparr>gr_releaseId = ''r1'', gr_sha = ''new'', gr_runId = 2, gr_createdAt = 100, gr_gateState = None,
     gr_gateExpected = Some \<lparr>ex_source = From_Required, ex_names = [''test''], ex_appIds = []\<rparr>,
     gr_gateCheckedAt = None\<rparr>"

definition sample_github :: gate_github where
  "sample_github = \<lparr>gh_loadExpectedCheckSet = (\<lambda>i. Read_Failed (Api_Error 500) None),
     gh_loadCommitChecks = (\<lambda>sha. Read_Ok [sample_check ''completed'' (Some ''success'')]),
     gh_loadWorkflowRuns = (\<lambda>sha. Read_Ok [sample_workflow_run ''completed'' (Some ''success'')])\<rparr>"

lemma sample_step: "fst (runDeployGate (record_at 150) sample_gc sample_gr sample_github 150 None None recorded_db) =
    Gate_Deploy False"
  by code_simp

theorem step_deploys_only_when_witness:
  "stored_says (snd (runDeployGate (record_at 150) sample_gc sample_gr sample_github 150 None None recorded_db)) ''r1'' GS_Passed"
proof -
  let ?run = "runDeployGate (record_at 150) sample_gc sample_gr sample_github 150 None None recorded_db"
  have run: "?run = (Gate_Deploy False, snd ?run)" by (metis prod.collapse sample_step)
  from step_deploys_only_when [OF run] show ?thesis by (simp add: sample_gc_def sample_gr_def)
qed

end
