(* ===== verification/Payload.thy ===== *)
theory Payload
  imports Image Gha_Store
begin

text \<open>
  What a GitHub Deployment may say: \<open>services/github-deployments/payload.ts\<close>, the run links of
  \<open>services/build-origin-shared.ts\<close> and the wake-up records of
  \<open>services/gha-connect/wake-payload.ts\<close>. \<open>JSON.parse\<close> and \<open>new URL\<close> of the platform are
  arguments, which answer \<open>None\<close> where the platform throws.
\<close>

section \<open>Images pinned by digest\<close>

definition lower_alnum :: "char \<Rightarrow> bool" where
  "lower_alnum c \<longleftrightarrow> is_digit c \<or> 97 \<le> code c \<and> code c \<le> 122"

definition segment_separator :: "string \<Rightarrow> bool" where
  "segment_separator s \<longleftrightarrow> s = ''.'' \<or> s = ''_'' \<or> s = ''__'' \<or> s \<noteq> [] \<and> list_all (\<lambda>c. c = CHR ''-'') s"

text \<open>The characters after an alphanumeric one: \<open>sep\<close> is the separator that is being read.\<close>

fun segment_rest :: "string \<Rightarrow> string \<Rightarrow> bool" where
  "segment_rest sep [] \<longleftrightarrow> sep = []"
| "segment_rest sep (c # cs) \<longleftrightarrow>
     (if lower_alnum c then (sep = [] \<or> segment_separator sep) \<and> segment_rest [] cs
      else segment_rest (sep @ [c]) cs)"

fun valid_segment :: "string \<Rightarrow> bool" where
  "valid_segment [] \<longleftrightarrow> False"
| "valid_segment (c # cs) \<longleftrightarrow> lower_alnum c \<and> segment_rest [] cs"

definition valid_host :: "string \<Rightarrow> bool" where
  "valid_host h =
     (let name = before_first CHR '':'' h; port = drop (length name) h in
      name \<noteq> [] \<and> lower_alnum (hd name) \<and> lower_alnum (last name) \<and>
      list_all (\<lambda>c. lower_alnum c \<or> c = CHR ''.'' \<or> c = CHR ''-'') name \<and>
      (port = [] \<or> 2 \<le> length port \<and> length port \<le> 6 \<and> list_all is_digit (tl port)))"

definition valid_repository :: "string \<Rightarrow> bool" where
  "valid_repository r =
     (let parts = split_on CHR ''/'' r in
      list_all valid_segment parts \<or>
      2 \<le> length parts \<and> valid_host (hd parts) \<and> list_all valid_segment (tl parts))"

record pinned_ref =
  pin_image :: string
  pin_repository :: string
  pin_digest :: string

definition drop_tag :: "string \<Rightarrow> string" where
  "drop_tag r = (if lastIndexOf CHR ''/'' r < lastIndexOf CHR '':'' r
     then take (nat (lastIndexOf CHR '':'' r)) r else r)"

definition parsePinnedImage :: "json option \<Rightarrow> pinned_ref option" where
  "parsePinnedImage v =
     (case v of Some (J_Str raw) \<Rightarrow>
        let t = trim raw in
        if t = [] \<or> 512 < length t then None
        else (case split_on CHR ''@'' t of
            [named, digest] \<Rightarrow>
              if named = [] \<or> \<not> valid_digest digest then None
              else let repository = drop_tag named in
                if \<not> valid_repository repository then None
                else Some \<lparr>pin_image = repository @ ''@'' @ digest, pin_repository = repository, pin_digest = digest\<rparr>
          | _ \<Rightarrow> None)
      | _ \<Rightarrow> None)"

section \<open>Links to a run\<close>

record web_url =
  wu_protocol :: string
  wu_hostname :: string
  wu_username :: string
  wu_password :: string
  wu_port :: string
  wu_pathname :: string

definition digits_upto :: "nat \<Rightarrow> string \<Rightarrow> bool" where
  "digits_upto n s \<longleftrightarrow> s \<noteq> [] \<and> length s \<le> n \<and> list_all is_digit s"

definition url_owner :: "string \<Rightarrow> bool" where
  "url_owner s \<longleftrightarrow> s \<noteq> [] \<and> length s \<le> 39 \<and> is_alnum (hd s) \<and> list_all (\<lambda>c. is_alnum c \<or> c = CHR ''-'') s"

definition url_repo :: "string \<Rightarrow> bool" where
  "url_repo s \<longleftrightarrow> s \<noteq> [] \<and> length s \<le> 100 \<and> list_all (\<lambda>c. is_alnum c \<or> c \<in> set ''._-'') s"

text \<open>The path of a run link, as the parts between its slashes; a trailing slash is an empty part.\<close>

definition run_path_parts :: "string \<Rightarrow> (string \<times> string \<times> string \<times> string option) option" where
  "run_path_parts path =
     (case split_on CHR ''/'' path of
        first # owner # repo # actions # runs # runId # tail_parts \<Rightarrow>
          let tail_parts = (if tail_parts \<noteq> [] \<and> last tail_parts = [] then butlast tail_parts else tail_parts);
              attempt = (case tail_parts of [k, n] \<Rightarrow> if k = ''attempts'' then Some n else None | _ \<Rightarrow> None) in
          if first = [] \<and> url_owner owner \<and> url_repo repo \<and> actions = ''actions'' \<and> runs = ''runs'' \<and>
             digits_upto 20 runId \<and>
             (case tail_parts of [] \<Rightarrow> True
              | [k, n] \<Rightarrow> k = ''attempts'' \<and> digits_upto 6 n \<or> k = ''job'' \<and> digits_upto 20 n
              | _ \<Rightarrow> False)
          then Some (owner, repo, runId, attempt) else None
      | _ \<Rightarrow> None)"

definition clean_link_char :: "char \<Rightarrow> bool" where
  "clean_link_char c \<longleftrightarrow> 32 < code c \<and> code c \<noteq> 127 \<and> code c \<noteq> 92"

definition drop_last_slash :: "string \<Rightarrow> string" where
  "drop_last_slash s = (if s \<noteq> [] \<and> last s = CHR ''/'' then butlast s else s)"

definition normalizeBuildRunUrl :: "(string \<Rightarrow> web_url option) \<Rightarrow> json option \<Rightarrow> string option" where
  "normalizeBuildRunUrl new_url v =
     (case v of Some (J_Str s) \<Rightarrow>
        let raw = trim s in
        if raw = [] \<or> 300 < length raw \<or> \<not> list_all clean_link_char raw then None
        else (case new_url raw of None \<Rightarrow> None
          | Some u \<Rightarrow>
              if wu_protocol u \<noteq> ''https:'' \<or> wu_hostname u \<noteq> ''github.com'' then None
              else if wu_username u \<noteq> [] \<or> wu_password u \<noteq> [] \<or> wu_port u \<noteq> [] then None
              else if run_path_parts (wu_pathname u) = None then None
              else Some (''https://github.com'' @ drop_last_slash (wu_pathname u)))
      | _ \<Rightarrow> None)"

record run_link =
  rk_repository :: string
  rk_runId :: string
  rk_attempt :: "string option"

text \<open>A normalised link is \<open>https://github.com\<close>, 18 characters, and the path.\<close>

definition parseBuildRunUrl :: "(string \<Rightarrow> web_url option) \<Rightarrow> json option \<Rightarrow> run_link option" where
  "parseBuildRunUrl new_url v =
     (case normalizeBuildRunUrl new_url v of None \<Rightarrow> None
      | Some url \<Rightarrow> map_option (\<lambda>(owner, repo, runId, attempt).
          \<lparr>rk_repository = owner @ ''/'' @ repo, rk_runId = runId, rk_attempt = attempt\<rparr>)
          (run_path_parts (drop 18 url)))"

definition watchedRunUrl :: "(string \<Rightarrow> web_url option) \<Rightarrow> json option \<Rightarrow> string \<Rightarrow> string \<Rightarrow> string option" where
  "watchedRunUrl new_url v owner repo =
     (case parseBuildRunUrl new_url v of None \<Rightarrow> None
      | Some parts \<Rightarrow>
          if toLowerCase (rk_repository parts) \<noteq> toLowerCase (owner @ ''/'' @ repo) then None
          else normalizeBuildRunUrl new_url v)"

section \<open>The payload of a plain deployment\<close>

record release_context =
  rc_connectionId :: string
  rc_gateVersion :: "int option"
  rc_serviceKey :: string
  rc_manifestReleaseId :: string
  rc_sha :: string
  rc_runId :: int
  rc_runAttempt :: int
  rc_delivery :: delivery
  rc_images :: "release_image list"

record deploy_payload =
  dp_image :: string
  dp_repository :: string
  dp_digest :: string
  dp_buildRunUrl :: "string option"
  dp_extraImages :: "(string \<times> string) list"
  dp_release :: "release_context option"

text \<open>What the tick does with one new deployment.\<close>

datatype classified =
    C_Ignore string
  | C_Invalid string "string option"
  | C_Deploy deploy_payload
  | C_Superseded
  | C_Hold string

definition as_object :: "json option \<Rightarrow> json option" where
  "as_object v = (case v of Some j \<Rightarrow> if is_obj j then Some j else None | None \<Rightarrow> None)"

definition readDeploymentPayload :: "(string \<Rightarrow> json option) \<Rightarrow> json option \<Rightarrow> json option" where
  "readDeploymentPayload parse_json raw =
     (case raw of
        Some (J_Str s) \<Rightarrow> if 65536 < length s then None else as_object (parse_json s)
      | _ \<Rightarrow> as_object raw)"

definition field :: "json option \<Rightarrow> string \<Rightarrow> json option" where
  "field v k = (case v of None \<Rightarrow> None | Some j \<Rightarrow> obj_get j k)"

definition json_nullish :: "json option \<Rightarrow> json option \<Rightarrow> json option" where
  "json_nullish a b = (if nullish_json a then b else a)"

definition parseDeploymentPayload ::
  "(string \<Rightarrow> json option) \<Rightarrow> (string \<Rightarrow> web_url option) \<Rightarrow> json option \<Rightarrow> string \<Rightarrow> string \<Rightarrow> string \<Rightarrow> classified" where
  "parseDeploymentPayload parse_json new_url raw serviceId owner repo =
     (case as_object (field (readDeploymentPayload parse_json raw) ''dokploy'') of
        None \<Rightarrow> C_Ignore ''no dokploy payload''
      | Some dokploy \<Rightarrow>
          if obj_get dokploy ''serviceId'' \<noteq> Some (J_Str serviceId) then C_Ignore ''payload names another service''
          else (case parsePinnedImage (obj_get dokploy ''image'') of
              None \<Rightarrow> C_Invalid (''dokploy.image must be <repository>@sha256:<64 hex>; '' @
                ''an image that is not pinned by digest is never deployed'') None
            | Some pinned \<Rightarrow> C_Deploy
                \<lparr>dp_image = pin_image pinned, dp_repository = pin_repository pinned, dp_digest = pin_digest pinned,
                 dp_buildRunUrl = watchedRunUrl new_url
                   (json_nullish (obj_get dokploy ''runUrl'') (obj_get dokploy ''buildRunUrl'')) owner repo,
                 dp_extraImages = [], dp_release = None\<rparr>))"

section \<open>Wake-up records\<close>

definition valid_key :: "string \<Rightarrow> bool" where
  "valid_key s \<longleftrightarrow> s \<noteq> [] \<and> length s \<le> 63 \<and> lower_alnum (hd s) \<and>
     list_all (\<lambda>c. lower_alnum c \<or> c \<in> set ''._-'') s"

definition TASK_PREFIX :: string where
  "TASK_PREFIX = ''dokploy:''"

definition parseDeploymentTask :: "string option \<Rightarrow> string option" where
  "parseDeploymentTask task =
     (case task of None \<Rightarrow> None
      | Some t \<Rightarrow> if \<not> prefix TASK_PREFIX t then None
          else if valid_key (drop (length TASK_PREFIX) t) then Some (drop (length TASK_PREFIX) t) else None)"

definition decimal_value :: "string \<Rightarrow> int" where
  "decimal_value s = foldl (\<lambda>n c. 10 * n + (int (code c) - 48)) 0 s"

text \<open>
  \<open>Number.isSafeInteger\<close>: the absolute value is at most \<open>2^53 - 1\<close>. A decimal string of up to 18
  digits above that bound is rounded by \<open>Number\<close>, and stays above it.
\<close>

definition max_safe :: int where
  "max_safe = 9007199254740991"

definition positiveInteger :: "json option \<Rightarrow> int option" where
  "positiveInteger v =
     (let n = (case v of
          Some (J_Num n) \<Rightarrow> Some n
        | Some (J_Str s) \<Rightarrow> if digits_upto 18 s then Some (decimal_value s) else None
        | _ \<Rightarrow> None) in
      case n of Some n \<Rightarrow> if 1 \<le> n \<and> n \<le> max_safe then Some n else None | None \<Rightarrow> None)"

definition hintText :: "json option \<Rightarrow> string option" where
  "hintText v =
     (case v of
        Some (J_Str s) \<Rightarrow> if s \<noteq> [] \<and> length s \<le> 120 \<and> list_all (\<lambda>c. 32 \<le> code c \<and> code c \<le> 126) s
          then Some s else None
      | _ \<Rightarrow> None)"

record wake =
  wk_runId :: int
  wk_runAttempt :: int
  wk_job :: "string option"
  wk_runner :: "string option"

definition parseWakePayload :: "(string \<Rightarrow> json option) \<Rightarrow> json option \<Rightarrow> string + wake" where
  "parseWakePayload parse_json raw =
     (case readDeploymentPayload parse_json raw of
        None \<Rightarrow> Inl ''The payload is not a JSON object''
      | Some payload \<Rightarrow>
          if obj_get payload ''schema'' \<noteq> Some (J_Str ''dokploy.deployment/v1'')
          then Inl ''The payload names another schema''
          else if obj_get payload ''artifact'' \<noteq> Some (J_Str ''dokploy-release'')
          then Inl ''The payload names another artifact''
          else (case positiveInteger (obj_get payload ''run_id'') of
              None \<Rightarrow> Inl ''run_id and run_attempt must be positive integers''
            | Some runId \<Rightarrow>
                (case positiveInteger (obj_get payload ''run_attempt'') of
                   None \<Rightarrow> Inl ''run_id and run_attempt must be positive integers''
                 | Some runAttempt \<Rightarrow> Inr \<lparr>wk_runId = runId, wk_runAttempt = runAttempt,
                     wk_job = hintText (obj_get payload ''job''), wk_runner = hintText (obj_get payload ''runner'')\<rparr>)))"

section \<open>Facts\<close>

lemma pinned_form:
  assumes "parsePinnedImage v = Some p"
  shows "pin_image p = pin_repository p @ ''@'' @ pin_digest p \<and> valid_digest (pin_digest p) \<and>
    valid_repository (pin_repository p)"
  using assms by (auto simp: parsePinnedImage_def Let_def split: option.splits json.splits list.splits if_splits)

lemma payload_deploys_pinned:
  assumes "parseDeploymentPayload pj nu raw sid owner repo = C_Deploy p"
  shows "dp_image p = dp_repository p @ ''@'' @ dp_digest p \<and> valid_digest (dp_digest p) \<and>
    valid_repository (dp_repository p) \<and> dp_release p = None"
  using assms pinned_form
  by (fastforce simp: parseDeploymentPayload_def split: option.splits if_splits)

lemma payload_names_service:
  assumes "parseDeploymentPayload pj nu raw sid owner repo = C_Deploy p \<or>
    parseDeploymentPayload pj nu raw sid owner repo = C_Invalid reason st"
  shows "\<exists>o'. as_object (field (readDeploymentPayload pj raw) ''dokploy'') = Some o' \<and>
    obj_get o' ''serviceId'' = Some (J_Str sid)"
  using assms by (auto simp: parseDeploymentPayload_def split: option.splits if_splits)

lemma payload_kinds:
  "parseDeploymentPayload pj nu raw sid owner repo \<noteq> C_Superseded"
  "parseDeploymentPayload pj nu raw sid owner repo \<noteq> C_Hold r"
  by (auto simp: parseDeploymentPayload_def split: option.splits)

end
