(* ===== verification/Effect_Log.thy ===== *)
theory Effect_Log
  imports Prelude
begin

text \<open>
  Code that talks to the outside, as a function on what it has done so far. The state holds the list
  of effects, newest last; a record that extends it adds what the process remembers. A step returns
  a value or fails with a message (a throw), and an answer of the outside is a function of the
  effects so far, so other writers may do anything between two steps.
\<close>

section \<open>Steps that may fail\<close>

record 'e effect_state =
  tk_log :: "'e list"

type_synonym ('e, 'm, 'a) logged =
  "('e, 'm) effect_state_scheme \<Rightarrow> (string + 'a) \<times> ('e, 'm) effect_state_scheme"

definition give :: "'a \<Rightarrow> ('e, 'm, 'a) logged" where
  "give x s = (Inr x, s)"

definition fail_with :: "string \<Rightarrow> ('e, 'm, 'a) logged" where
  "fail_with message s = (Inl message, s)"

definition andThen :: "('e, 'm, 'a) logged \<Rightarrow> ('a \<Rightarrow> ('e, 'm, 'b) logged) \<Rightarrow> ('e, 'm, 'b) logged" where
  "andThen m f s = (case m s of (Inl message, s') \<Rightarrow> (Inl message, s') | (Inr x, s') \<Rightarrow> f x s')"

definition act :: "'e \<Rightarrow> ('e, 'm, unit) logged" where
  "act eff s = (Inr (), s\<lparr>tk_log := tk_log s @ [eff]\<rparr>)"

definition ask :: "('e list \<Rightarrow> 'a) \<Rightarrow> ('e, 'm, 'a) logged" where
  "ask oracle s = (Inr (oracle (tk_log s)), s)"

definition change :: "(('e, 'm) effect_state_scheme \<Rightarrow> ('e, 'm) effect_state_scheme) \<Rightarrow> ('e, 'm, unit) logged" where
  "change f s = (Inr (), f s)"

text \<open>\<open>m.catch(() => {})\<close>, and \<open>try\<close> with a handler for the message.\<close>

definition attempt :: "('e, 'm, 'a) logged \<Rightarrow> ('e, 'm, unit) logged" where
  "attempt m s = (Inr (), snd (m s))"

definition rescue :: "('e, 'm, 'a) logged \<Rightarrow> (string \<Rightarrow> ('e, 'm, 'a) logged) \<Rightarrow> ('e, 'm, 'a) logged" where
  "rescue m handler s = (case m s of (Inl message, s') \<Rightarrow> handler message s' | (Inr x, s') \<Rightarrow> (Inr x, s'))"

text \<open>\<open>try m finally n\<close>, and a loop over a list that ends at the first failure.\<close>

definition ensure :: "('e, 'm, 'a) logged \<Rightarrow> ('e, 'm, unit) logged \<Rightarrow> ('e, 'm, 'a) logged" where
  "ensure m n s = (case m s of (r, t) \<Rightarrow> case n t of (Inl message, u) \<Rightarrow> (Inl message, u) | (Inr x, u) \<Rightarrow> (r, u))"

fun for_each :: "'x list \<Rightarrow> ('x \<Rightarrow> ('e, 'm, unit) logged) \<Rightarrow> ('e, 'm, unit) logged" where
  "for_each [] f = give ()"
| "for_each (x # xs) f = andThen (f x) (\<lambda>_. for_each xs f)"

text \<open>The state, without the list of effects, read by the process itself.\<close>

definition look :: "(('e, 'm) effect_state_scheme \<Rightarrow> 'a) \<Rightarrow> ('e, 'm, 'a) logged" where
  "look f s = (Inr (f s), s)"

section \<open>What a step adds to the effects\<close>

text \<open>
  A step only ever adds to the list of effects. \<open>does m E Q\<close>: whatever the environment answers, the
  effects added by \<open>m\<close> satisfy \<open>E\<close> when it fails and, with its result, \<open>Q\<close> when it returns. The rules
  are applied backwards, from the end of a sequence of steps.
\<close>

named_theorems does_intro

definition does ::
  "('e, 'm, 'a) logged \<Rightarrow> ('e list \<Rightarrow> bool) \<Rightarrow> ('a \<Rightarrow> 'e list \<Rightarrow> bool) \<Rightarrow> bool" where
  "does m E Q \<longleftrightarrow> (\<forall>s. \<exists>es. tk_log (snd (m s)) = tk_log s @ es \<and>
     (case fst (m s) of Inl message \<Rightarrow> E es | Inr x \<Rightarrow> Q x es))"

lemma doesD: "does m E Q \<Longrightarrow> \<exists>es. tk_log (snd (m s)) = tk_log s @ es \<and>
    (case fst (m s) of Inl message \<Rightarrow> E es | Inr x \<Rightarrow> Q x es)"
  by (simp add: does_def)

lemma does_give [does_intro]: "Q x [] \<Longrightarrow> does (give x) E Q"
  by (simp add: does_def give_def)

lemma does_fail [does_intro]: "E [] \<Longrightarrow> does (fail_with message) E Q"
  by (simp add: does_def fail_with_def)

lemma does_act [does_intro]: "Q () [eff] \<Longrightarrow> does (act eff) E Q"
  by (simp add: does_def act_def)

lemma does_ask [does_intro]: "(\<And>h. Q (f h) []) \<Longrightarrow> does (ask f) E Q"
  by (simp add: does_def ask_def)

lemma does_change: "(\<And>s. tk_log (f s) = tk_log s) \<Longrightarrow> Q () [] \<Longrightarrow> does (change f) E Q"
  by (simp add: does_def change_def)

lemma does_andThen [does_intro]:
  assumes "does m E (\<lambda>x es. does (f x) (\<lambda>fs. E (es @ fs)) (\<lambda>y fs. Q y (es @ fs)))"
  shows "does (andThen m f) E Q"
  unfolding does_def
proof
  fix s
  obtain r t where m: "m s = (r, t)" by fastforce
  obtain es where es: "tk_log t = tk_log s @ es"
    and r: "case r of Inl message \<Rightarrow> E es | Inr x \<Rightarrow> does (f x) (\<lambda>fs. E (es @ fs)) (\<lambda>y fs. Q y (es @ fs))"
    using doesD [OF assms, of s] m by auto
  show "\<exists>es. tk_log (snd (andThen m f s)) = tk_log s @ es \<and>
      (case fst (andThen m f s) of Inl message \<Rightarrow> E es | Inr x \<Rightarrow> Q x es)"
  proof (cases r)
    case (Inl message)
    with m es r show ?thesis by (simp add: andThen_def)
  next
    case (Inr x)
    with r have "does (f x) (\<lambda>fs. E (es @ fs)) (\<lambda>y fs. Q y (es @ fs))" by simp
    then obtain fs where "tk_log (snd (f x t)) = tk_log t @ fs"
      "case fst (f x t) of Inl message \<Rightarrow> E (es @ fs) | Inr y \<Rightarrow> Q y (es @ fs)"
      unfolding does_def by blast
    with m es Inr show ?thesis by (auto simp: andThen_def)
  qed
qed

lemma does_attempt [does_intro]: "does m (\<lambda>es. Q () es) (\<lambda>_ es. Q () es) \<Longrightarrow> does (attempt m) E Q"
  unfolding does_def attempt_def by (fastforce split: sum.splits)

lemma does_rescue:
  assumes "does m (\<lambda>es. \<forall>message. does (handler message) (\<lambda>fs. E (es @ fs)) (\<lambda>y fs. Q y (es @ fs))) Q"
  shows "does (rescue m handler) E Q"
  unfolding does_def
proof
  fix s
  obtain r t where m: "m s = (r, t)" by fastforce
  show "\<exists>es. tk_log (snd (rescue m handler s)) = tk_log s @ es \<and>
      (case fst (rescue m handler s) of Inl message \<Rightarrow> E es | Inr x \<Rightarrow> Q x es)"
  proof (cases r)
    case (Inl message)
    with m doesD [OF assms, of s] obtain es where es: "tk_log t = tk_log s @ es"
      "does (handler message) (\<lambda>fs. E (es @ fs)) (\<lambda>y fs. Q y (es @ fs))" by auto
    from doesD [OF this(2), of t] obtain fs where "tk_log (snd (handler message t)) = tk_log t @ fs"
      "case fst (handler message t) of Inl message \<Rightarrow> E (es @ fs) | Inr y \<Rightarrow> Q y (es @ fs)" by blast
    with m Inl es show ?thesis by (auto simp: rescue_def)
  next
    case (Inr x)
    with m doesD [OF assms, of s] show ?thesis by (auto simp: rescue_def)
  qed
qed

lemma does_if [does_intro]: "(b \<Longrightarrow> does m E Q) \<Longrightarrow> (\<not> b \<Longrightarrow> does n E Q) \<Longrightarrow> does (if b then m else n) E Q"
  by simp

lemma does_option [does_intro]: "(v = None \<Longrightarrow> does m E Q) \<Longrightarrow> (\<And>x. v = Some x \<Longrightarrow> does (f x) E Q) \<Longrightarrow>
    does (case v of None \<Rightarrow> m | Some x \<Rightarrow> f x) E Q"
  by (cases v) auto

lemma does_mono:
  assumes "does m E Q" and "\<And>es. E es \<Longrightarrow> E' es" and "\<And>x es. Q x es \<Longrightarrow> Q' x es"
  shows "does m E' Q'"
  unfolding does_def
proof
  fix s
  show "\<exists>es. tk_log (snd (m s)) = tk_log s @ es \<and> (case fst (m s) of Inl message \<Rightarrow> E' es | Inr x \<Rightarrow> Q' x es)"
    using assms(1) [unfolded does_def, rule_format, of s] assms(2,3) by (cases "fst (m s)") auto
qed

lemma does_conj:
  assumes "does m E Q" and "does m E' Q'"
  shows "does m (\<lambda>es. E es \<and> E' es) (\<lambda>x es. Q x es \<and> Q' x es)"
  unfolding does_def
proof
  fix s
  show "\<exists>es. tk_log (snd (m s)) = tk_log s @ es \<and>
      (case fst (m s) of Inl message \<Rightarrow> E es \<and> E' es | Inr x \<Rightarrow> Q x es \<and> Q' x es)"
    using assms [unfolded does_def, rule_format, of s] by (cases "fst (m s)") auto
qed

lemma does_look: "(\<And>s. Q (f s) []) \<Longrightarrow> does (look f) E Q"
  by (simp add: does_def look_def)

lemma does_ensure:
  assumes "does m (\<lambda>es. does n (\<lambda>fs. E (es @ fs)) (\<lambda>_ fs. E (es @ fs)))
    (\<lambda>x es. does n (\<lambda>fs. E (es @ fs)) (\<lambda>_ fs. Q x (es @ fs)))"
  shows "does (ensure m n) E Q"
  unfolding does_def
proof
  fix s
  obtain r t where m: "m s = (r, t)" by fastforce
  obtain w u where n: "n t = (w, u)" by fastforce
  from doesD [OF assms, of s] m obtain es where es: "tk_log t = tk_log s @ es"
    and r: "case r of Inl message \<Rightarrow> does n (\<lambda>fs. E (es @ fs)) (\<lambda>_ fs. E (es @ fs))
       | Inr x \<Rightarrow> does n (\<lambda>fs. E (es @ fs)) (\<lambda>_ fs. Q x (es @ fs))" by auto
  show "\<exists>es. tk_log (snd (ensure m n s)) = tk_log s @ es \<and>
      (case fst (ensure m n s) of Inl message \<Rightarrow> E es | Inr x \<Rightarrow> Q x es)"
  proof (cases r)
    case (Inl message)
    with r have "does n (\<lambda>fs. E (es @ fs)) (\<lambda>_ fs. E (es @ fs))" by simp
    from doesD [OF this, of t] n m es Inl show ?thesis by (auto simp: ensure_def split: sum.splits)
  next
    case (Inr x)
    with r have "does n (\<lambda>fs. E (es @ fs)) (\<lambda>_ fs. Q x (es @ fs))" by simp
    from doesD [OF this, of t] n m es Inr show ?thesis by (auto simp: ensure_def split: sum.splits)
  qed
qed

section \<open>What a step keeps of the state\<close>

text \<open>
  \<open>runs P m E Q\<close>: from a state with \<open>P\<close>, \<open>m\<close> ends in \<open>E\<close> when it fails and in \<open>Q\<close>, with its result, when
  it returns. \<open>keeps J m\<close> is the case of an invariant.
\<close>

definition runs ::
  "(('e, 'm) effect_state_scheme \<Rightarrow> bool) \<Rightarrow> ('e, 'm, 'a) logged \<Rightarrow> (('e, 'm) effect_state_scheme \<Rightarrow> bool) \<Rightarrow>
   ('a \<Rightarrow> ('e, 'm) effect_state_scheme \<Rightarrow> bool) \<Rightarrow> bool" where
  "runs P m E Q \<longleftrightarrow> (\<forall>s. P s \<longrightarrow> (case m s of (Inl message, t) \<Rightarrow> E t | (Inr x, t) \<Rightarrow> Q x t))"

definition keeps :: "(('e, 'm) effect_state_scheme \<Rightarrow> bool) \<Rightarrow> ('e, 'm, 'a) logged \<Rightarrow> bool" where
  "keeps J m \<longleftrightarrow> (\<forall>s. J s \<longrightarrow> J (snd (m s)))"

lemma runs_keeps: "runs J m J (\<lambda>_. J) \<longleftrightarrow> keeps J m"
proof -
  have "(case m s of (Inl message, t) \<Rightarrow> J t | (Inr x, t) \<Rightarrow> J t) \<longleftrightarrow> J (snd (m s))" for s
    by (cases "m s"; cases "fst (m s)") auto
  then show ?thesis by (simp add: runs_def keeps_def)
qed

lemma runs_mono:
  "runs P m E Q \<Longrightarrow> (\<And>s. P' s \<Longrightarrow> P s) \<Longrightarrow> (\<And>s. E s \<Longrightarrow> E' s) \<Longrightarrow> (\<And>x s. Q x s \<Longrightarrow> Q' x s) \<Longrightarrow> runs P' m E' Q'"
  unfolding runs_def by (fastforce split: prod.splits sum.splits)

lemma runs_give: "(\<And>s. P s \<Longrightarrow> Q x s) \<Longrightarrow> runs P (give x) E Q"
  by (simp add: runs_def give_def)

lemma runs_fail: "(\<And>s. P s \<Longrightarrow> E s) \<Longrightarrow> runs P (fail_with message) E Q"
  by (simp add: runs_def fail_with_def)

lemma runs_act: "(\<And>s. P s \<Longrightarrow> Q () (s\<lparr>tk_log := tk_log s @ [eff]\<rparr>)) \<Longrightarrow> runs P (act eff) E Q"
  by (simp add: runs_def act_def)

lemma runs_ask: "(\<And>s. P s \<Longrightarrow> Q (f (tk_log s)) s) \<Longrightarrow> runs P (ask f) E Q"
  by (simp add: runs_def ask_def)

lemma runs_look: "(\<And>s. P s \<Longrightarrow> Q (f s) s) \<Longrightarrow> runs P (look f) E Q"
  by (simp add: runs_def look_def)

lemma runs_change: "(\<And>s. P s \<Longrightarrow> Q () (f s)) \<Longrightarrow> runs P (change f) E Q"
  by (simp add: runs_def change_def)

lemma runs_andThen: "runs P m E R \<Longrightarrow> (\<And>x. runs (R x) (f x) E Q) \<Longrightarrow> runs P (andThen m f) E Q"
  unfolding runs_def andThen_def by (auto split: prod.splits sum.splits) fastforce+

lemma runsD: "runs P m E Q \<Longrightarrow> P s \<Longrightarrow> m s = (Inl message, t) \<Longrightarrow> E t"
  "runs P m E Q \<Longrightarrow> P s \<Longrightarrow> m s = (Inr x, t) \<Longrightarrow> Q x t"
  unfolding runs_def by force+

lemma runsI:
  assumes "\<And>s message t. P s \<Longrightarrow> m s = (Inl message, t) \<Longrightarrow> E t"
    and "\<And>s x t. P s \<Longrightarrow> m s = (Inr x, t) \<Longrightarrow> Q x t"
  shows "runs P m E Q"
  unfolding runs_def using assms by (auto split: prod.split sum.split)

lemma runs_state: "runs P m R (\<lambda>_. R) \<longleftrightarrow> (\<forall>s. P s \<longrightarrow> R (snd (m s)))"
proof -
  have "(case m s of (Inl message, t) \<Rightarrow> R t | (Inr x, t) \<Rightarrow> R t) \<longleftrightarrow> R (snd (m s))" for s
    by (cases "m s"; cases "fst (m s)") auto
  then show ?thesis by (simp add: runs_def)
qed

lemma snd_ensure: "snd (ensure m n s) = snd (n (snd (m s)))"
  by (simp add: ensure_def split: prod.split sum.split)

lemma runs_ensure: "runs P m R (\<lambda>_. R) \<Longrightarrow> runs R n E (\<lambda>_. E) \<Longrightarrow> runs P (ensure m n) E (\<lambda>_. E)"
  by (simp add: runs_state snd_ensure)

lemma andThen_assoc: "andThen (andThen m f) g = andThen m (\<lambda>x. andThen (f x) g)"
  by (rule ext) (simp add: andThen_def split: prod.split sum.split)

lemma runs_each: "(\<And>s. P s \<Longrightarrow> runs (\<lambda>t. t = s) m E Q) \<Longrightarrow> runs P m E Q"
  by (simp add: runs_def)

lemma runs_rescue:
  assumes "runs P m R Q" and "\<And>message. runs R (handler message) E Q"
  shows "runs P (rescue m handler) E Q"
proof (rule runsI)
  fix s message t assume s: "P s" and m: "rescue m handler s = (Inl message, t)"
  then obtain w u where "m s = (Inl w, u)" "handler w u = (Inl message, t)"
    by (auto simp: rescue_def split: prod.splits sum.splits)
  with s show "E t" using runsD(1) [OF assms(1)] runsD(1) [OF assms(2)] by blast
next
  fix s x t assume s: "P s" and m: "rescue m handler s = (Inr x, t)"
  show "Q x t"
  proof (cases "m s")
    case (Pair r u)
    show ?thesis
    proof (cases r)
      case (Inl w)
      with Pair m have "handler w u = (Inr x, t)" by (simp add: rescue_def)
      moreover have "R u" using runsD(1) [OF assms(1) s] Pair Inl by blast
      ultimately show ?thesis using runsD(2) [OF assms(2)] by blast
    next
      case (Inr y)
      with Pair m have "m s = (Inr x, t)" by (simp add: rescue_def)
      then show ?thesis using runsD(2) [OF assms(1) s] by blast
    qed
  qed
qed

lemma runs_attempt: "runs P m (Q ()) (\<lambda>_. Q ()) \<Longrightarrow> runs P (attempt m) E Q"
proof (rule runsI)
  fix s x t assume *: "runs P m (Q ()) (\<lambda>_. Q ())" "P s" "attempt m s = (Inr x, t)"
  then show "Q x t" using runsD [OF *(1,2)] by (cases "m s"; cases "fst (m s)") (auto simp: attempt_def)
qed (simp add: attempt_def)

lemma runs_if: "(b \<Longrightarrow> runs P m E Q) \<Longrightarrow> (\<not> b \<Longrightarrow> runs P n E Q) \<Longrightarrow> runs P (if b then m else n) E Q"
  by simp

lemma runs_option: "(v = None \<Longrightarrow> runs P m E Q) \<Longrightarrow> (\<And>x. v = Some x \<Longrightarrow> runs P (f x) E Q) \<Longrightarrow>
    runs P (case v of None \<Rightarrow> m | Some x \<Rightarrow> f x) E Q"
  by (cases v) auto

text \<open>A loop over a list, with what is left to do in the invariant.\<close>

lemma runs_for_each:
  assumes "\<And>x xs. runs (I (x # xs)) (f x) E (\<lambda>_. I xs)"
  shows "runs (I xs) (for_each xs f) E (\<lambda>_. I [])"
proof (induction xs)
  case Nil
  then show ?case by (simp add: runs_give)
next
  case (Cons x xs)
  have "runs (I (x # xs)) (andThen (f x) (\<lambda>_. for_each xs f)) E (\<lambda>_. I [])"
    by (rule runs_andThen [OF assms]) (rule Cons.IH)
  then show ?case by simp
qed

lemma runs_keeps_weaken: "keeps J m \<Longrightarrow> (\<And>s. P s \<Longrightarrow> J s) \<Longrightarrow> (\<And>s. J s \<Longrightarrow> E s) \<Longrightarrow> (\<And>x s. J s \<Longrightarrow> Q x s) \<Longrightarrow> runs P m E Q"
  using runs_mono [of J m J "\<lambda>_. J" P E Q] by (simp add: runs_keeps)

lemma keepsD: "keeps J m \<Longrightarrow> J s \<Longrightarrow> m s = (x, t) \<Longrightarrow> J t"
  unfolding keeps_def by force

lemma runs_also:
  assumes "runs P m E Q" and "keeps A m"
  shows "runs (\<lambda>s. P s \<and> A s) m E (\<lambda>x s. Q x s \<and> A s)"
proof (rule runsI)
  fix s message t assume "P s \<and> A s" "m s = (Inl message, t)"
  then show "E t" using runsD(1) [OF assms(1)] by blast
next
  fix s x t assume s: "P s \<and> A s" and m: "m s = (Inr x, t)"
  then show "Q x t \<and> A t" using runsD(2) [OF assms(1) _ m] keepsD [OF assms(2) _ m] by blast
qed

lemma keeps_give [intro]: "keeps J (give x)"
  by (simp add: keeps_def give_def)

lemma keeps_fail [intro]: "keeps J (fail_with message)"
  by (simp add: keeps_def fail_with_def)

lemma keeps_ask [intro]: "keeps J (ask f)"
  by (simp add: keeps_def ask_def)

lemma keeps_look [intro]: "keeps J (look f)"
  by (simp add: keeps_def look_def)

lemma keeps_act: "(\<And>s. J s \<Longrightarrow> J (s\<lparr>tk_log := tk_log s @ [eff]\<rparr>)) \<Longrightarrow> keeps J (act eff)"
  by (simp add: keeps_def act_def)

lemma keeps_change: "(\<And>s. J s \<Longrightarrow> J (f s)) \<Longrightarrow> keeps J (change f)"
  by (simp add: keeps_def change_def)

lemma keeps_andThen [intro]: "keeps J m \<Longrightarrow> (\<And>x. keeps J (f x)) \<Longrightarrow> keeps J (andThen m f)"
  unfolding keeps_def andThen_def by (auto split: prod.splits sum.splits)

lemma keeps_attempt [intro]: "keeps J m \<Longrightarrow> keeps J (attempt m)"
  unfolding keeps_def attempt_def by auto

lemma keeps_ensure [intro]: "keeps J m \<Longrightarrow> keeps J n \<Longrightarrow> keeps J (ensure m n)"
  unfolding keeps_def ensure_def by (auto split: prod.splits sum.splits)

lemma keeps_rescue [intro]: "keeps J m \<Longrightarrow> (\<And>message. keeps J (handler message)) \<Longrightarrow> keeps J (rescue m handler)"
  unfolding keeps_def rescue_def by (auto split: prod.splits sum.splits)

lemma keeps_for_each [intro]: "(\<And>x. x \<in> set xs \<Longrightarrow> keeps J (f x)) \<Longrightarrow> keeps J (for_each xs f)"
  by (induction xs) auto

lemma keeps_if [intro]: "(b \<Longrightarrow> keeps J m) \<Longrightarrow> (\<not> b \<Longrightarrow> keeps J n) \<Longrightarrow> keeps J (if b then m else n)"
  by simp

lemma keeps_option [intro]: "(v = None \<Longrightarrow> keeps J m) \<Longrightarrow> (\<And>x. v = Some x \<Longrightarrow> keeps J (f x)) \<Longrightarrow>
    keeps J (case v of None \<Rightarrow> m | Some x \<Rightarrow> f x)"
  by (cases v) auto

section \<open>What a step is sure to do\<close>

text \<open>\<open>surely m P\<close>: whether it fails or returns, \<open>m\<close> adds an effect with \<open>P\<close>.\<close>

definition extends :: "'e list \<Rightarrow> ('e, 'm) effect_state_scheme \<Rightarrow> bool" where
  "extends h s \<longleftrightarrow> (\<exists>es. tk_log s = h @ es)"

lemma does_extends: "(\<And>h. keeps (extends h) m) \<Longrightarrow> does m (\<lambda>_. True) (\<lambda>_ _. True)"
  unfolding does_def keeps_def extends_def by (auto split: sum.split)

definition sees :: "('e \<Rightarrow> bool) \<Rightarrow> 'e list \<Rightarrow> bool" where
  "sees P es \<longleftrightarrow> (\<exists>x\<in>set es. P x)"

lemma sees_simps [simp]: "\<not> sees P []" "sees P (x # es) \<longleftrightarrow> P x \<or> sees P es" "sees P (es @ fs) \<longleftrightarrow> sees P es \<or> sees P fs"
  by (auto simp: sees_def)

abbreviation surely :: "('e, 'm, 'a) logged \<Rightarrow> ('e \<Rightarrow> bool) \<Rightarrow> bool" where
  "surely m P \<equiv> does m (sees P) (\<lambda>_. sees P)"

lemma surely_log:
  assumes "surely m P"
  shows "\<exists>es. tk_log (snd (m s)) = tk_log s @ es \<and> sees P es"
  using doesD [OF assms, of s] by (cases "fst (m s)") auto

lemma extends_act [intro]: "keeps (extends h) (act x)"
  by (rule keeps_act) (auto simp: extends_def)

lemma extends_change: "(\<And>s. tk_log (f s) = tk_log s) \<Longrightarrow> keeps (extends h) (change f)"
  by (rule keeps_change) (simp add: extends_def)

lemma surely_first: "surely m P \<Longrightarrow> (\<And>y h. keeps (extends h) (f y)) \<Longrightarrow> surely (andThen m f) P"
  by (rule does_andThen, erule does_mono) (auto intro: does_mono [OF does_extends])

lemma does_total:
  assumes "\<And>h. keeps (extends h) m" and "\<And>s. \<exists>y. fst (m s) = Inr y"
  shows "does m (\<lambda>_. False) (\<lambda>_ _. True)"
  unfolding does_def
proof
  fix s
  obtain y where "fst (m s) = Inr y" using assms(2) by blast
  moreover have "extends (tk_log s) (snd (m s))" using assms(1) [of "tk_log s"] by (simp add: keeps_def extends_def)
  ultimately show "\<exists>es. tk_log (snd (m s)) = tk_log s @ es \<and> (case fst (m s) of Inl message \<Rightarrow> False | Inr x \<Rightarrow> True)"
    by (simp add: extends_def)
qed

lemma surely_later:
  assumes "\<And>h. keeps (extends h) m" and "\<And>y. surely (f y) P" and "\<And>s. \<exists>y. fst (m s) = Inr y"
  shows "surely (andThen m f) P"
  by (rule does_andThen, rule does_mono [OF does_total [OF assms(1,3)]]) (auto intro: does_mono [OF assms(2)])

lemma andThen_give: "andThen (give x) f = f x"
  by (rule ext) (simp add: andThen_def give_def)

text \<open>In a loop whose body never fails, what one element does is done.\<close>

lemma surely_for_each:
  assumes "y \<in> set ys" and "surely (f y) P" and "\<And>z h. keeps (extends h) (f z)"
  shows "surely (for_each ys (\<lambda>z. attempt (f z))) P"
  using assms(1)
proof (induction ys)
  case (Cons z ys)
  have rest: "keeps (extends h) (for_each zs (\<lambda>z. attempt (f z)))" for h zs
    by (intro keeps_for_each keeps_attempt assms(3))
  show ?case
  proof (cases "z = y")
    case True
    have "surely (attempt (f y)) P" by (rule does_attempt) (rule assms(2))
    then show ?thesis unfolding for_each.simps True by (rule surely_first) (rule rest)
  next
    case False
    with Cons have "surely (for_each ys (\<lambda>z. attempt (f z))) P" by simp
    then show ?thesis unfolding for_each.simps
      by (intro surely_later) (auto intro: assms(3) simp: attempt_def)
  qed
qed simp

lemma surely_ensure: "(\<And>h. keeps (extends h) m) \<Longrightarrow> surely n P \<Longrightarrow> surely (ensure m n) P"
  by (rule does_ensure, rule does_mono [OF does_extends]) (auto elim: does_mono)

lemma andThen_look: "andThen (look f) g s = g (f s) s"
  by (simp add: andThen_def look_def)

section \<open>What every effect comes after\<close>

text \<open>\<open>backed_by B h\<close>: each effect of the history is backed, by \<open>B\<close>, by the effects before it.\<close>

definition backed_by :: "('e \<Rightarrow> 'e list \<Rightarrow> bool) \<Rightarrow> 'e list \<Rightarrow> bool" where
  "backed_by B h \<longleftrightarrow> (\<forall>h1 x h2. h = h1 @ x # h2 \<longrightarrow> B x h1)"

lemma backed_by_Nil [simp]: "backed_by B []"
  by (simp add: backed_by_def)

lemma backed_byD: "backed_by B h \<Longrightarrow> h = h1 @ x # h2 \<Longrightarrow> B x h1"
  by (simp add: backed_by_def)

lemma backed_by_snoc: "backed_by B (h @ [x]) \<longleftrightarrow> backed_by B h \<and> B x h"
proof
  assume *: "backed_by B (h @ [x])"
  have "B y h1" if "h = h1 @ y # h2" for h1 y h2
    using * that unfolding backed_by_def by simp
  with * show "backed_by B h \<and> B x h" unfolding backed_by_def by blast
next
  assume *: "backed_by B h \<and> B x h"
  show "backed_by B (h @ [x])"
    unfolding backed_by_def
  proof (intro allI impI)
    fix h1 y h2 assume eq: "h @ [x] = h1 @ y # h2"
    show "B y h1"
    proof (cases h2 rule: rev_exhaust)
      case Nil
      with eq * show ?thesis by simp
    next
      case (snoc h3 z)
      with eq have "h = h1 @ y # h3" by simp
      with * show ?thesis by (simp add: backed_by_def)
    qed
  qed
qed

end
