(* ===== verification/Poll_Core.thy ===== *)
theory Poll_Core
  imports Payload Effect_Log
begin

text \<open>
  What every poll of a watch is made of: the listing and the rate limits of
  \<open>services/github-deployments/github-api.ts\<close> and the data, statuses and back-off of
  \<open>poll-core.ts\<close>. Everything outside (GitHub, the database row of the watch, the start of a
  deploy, the clock) answers through an environment whose answers may depend on everything the tick
  did before, so other writers may do anything between two steps. A tick is a function on what it
  has done so far, the list of its effects, and it may fail with a message (a throw). The dashboard
  and service links that go out with a status are left out.
\<close>

section \<open>Reading deployments\<close>

datatype deployment_state = D_In_Progress | D_Success | D_Failure | D_Error | D_Inactive | D_Queued

text \<open>\<open>created_at\<close> is the time it parses to; \<open>sha\<close> and \<open>task\<close> are absent or a string.\<close>

record github_deployment =
  gd_id :: int
  gd_sha :: "string option"
  gd_created_at :: "int option"
  gd_task :: "string option"
  gd_environment :: "string option"
  gd_payload :: "json option"

datatype list_result =
    L_Not_Modified
  | L_Ok "github_deployment list" "string option"
  | L_Rate_Limited int
  | L_Unauthorized
  | L_Forbidden string
  | L_Not_Found
  | L_Error int

text \<open>
  When the next request may go out. The header values are the numbers they read as, \<open>None\<close> when
  absent or not a number; \<open>limited\<close> says whether the body mentions a rate limit or abuse.
\<close>

definition rateLimitRetryAt ::
  "int \<Rightarrow> int option \<Rightarrow> int option \<Rightarrow> int option \<Rightarrow> bool \<Rightarrow> int \<Rightarrow> int option" where
  "rateLimitRetryAt status retryAfter remaining reset limited now =
     (if status \<noteq> 403 \<and> status \<noteq> 429 then None
      else case retryAfter of
          Some s \<Rightarrow> Some (now + min 3600000 (max 1 s * 1000))
        | None \<Rightarrow>
            if remaining = Some 0 \<and> reset \<noteq> None
            then Some (min (now + 3600000) (max (now + 1000) (the reset * 1000 + 1000)))
            else if status = 429 \<or> limited then Some (now + 60000) else None)"

text \<open>
  The walk over the pages: \<open>fetch page etag\<close> is the answer for one page. \<open>left\<close> is the number of
  pages that may still be asked for.
\<close>

fun list_pages ::
  "(nat \<Rightarrow> string option \<Rightarrow> list_result) \<Rightarrow> int option \<Rightarrow> nat \<Rightarrow> nat \<Rightarrow> string option \<Rightarrow>
   github_deployment list \<Rightarrow> string option \<Rightarrow> list_result" where
  "list_pages fetch lastSeen 0 page etag found firstEtag = L_Ok found firstEtag"
| "list_pages fetch lastSeen (Suc left) page etag found firstEtag =
     (case fetch page (if page = 1 then etag else None) of
        L_Ok ds tag \<Rightarrow>
          let firstEtag = (if page = 1 then tag else firstEtag);
              reached = (case lastSeen of None \<Rightarrow> True | Some s \<Rightarrow> list_ex (\<lambda>d. gd_id d \<le> s) ds) in
          if reached \<or> length ds < 30 then L_Ok (found @ ds) firstEtag
          else list_pages fetch lastSeen left (Suc page) etag (found @ ds) firstEtag
      | other \<Rightarrow> other)"

definition listDeployments ::
  "(nat \<Rightarrow> string option \<Rightarrow> list_result) \<Rightarrow> string option \<Rightarrow> int option \<Rightarrow> nat option \<Rightarrow> list_result" where
  "listDeployments fetch etag lastSeen maxPages =
     list_pages fetch lastSeen (max 1 (case maxPages of None \<Rightarrow> 5 | Some n \<Rightarrow> n)) 1 etag [] None"

definition selectNewDeployments :: "github_deployment list \<Rightarrow> int \<Rightarrow> github_deployment list" where
  "selectNewDeployments ds lastSeen = sort_key gd_id (filter (\<lambda>d. lastSeen < gd_id d) ds)"

definition maxDeploymentId :: "github_deployment list \<Rightarrow> int" where
  "maxDeploymentId ds = fold (\<lambda>d m. if m < gd_id d then gd_id d else m) ds 0"

definition short_text :: "nat \<Rightarrow> string \<Rightarrow> string" where
  "short_text limit t = (if length t \<le> limit then t else take (limit - 3) t @ ''...'')"

section \<open>The watch, the environment and the effects\<close>

record watch_row =
  w_watchId :: string
  w_serviceId :: string
  w_connectionId :: string
  w_owner_name :: string
  w_repo_name :: string
  w_environment :: string
  w_enabled :: bool
  w_lastSeen :: "int option"
  w_etag :: "string option"
  w_inflight :: "int option"
  w_inflightStartedAt :: "int option"
  w_ghaConnectionId :: "string option"

text \<open>An absent field of a patch is \<open>None\<close>; \<open>Some None\<close> writes null.\<close>

record watch_patch =
  wp_lastSeen :: "int option"
  wp_etag :: "string option option"
  wp_inflight :: "int option option"
  wp_inflightStartedAt :: "int option option"
  wp_lastError :: "string option option"
  wp_lastCheckedAt :: "int option"

definition no_patch :: watch_patch where
  "no_patch = \<lparr>wp_lastSeen = None, wp_etag = None, wp_inflight = None, wp_inflightStartedAt = None,
     wp_lastError = None, wp_lastCheckedAt = None\<rparr>"

definition error_patch :: "string option \<Rightarrow> watch_patch" where
  "error_patch message = no_patch\<lparr>wp_lastError := Some message\<rparr>"

definition checked_patch :: "int \<Rightarrow> string option \<Rightarrow> watch_patch" where
  "checked_patch now message = no_patch\<lparr>wp_lastCheckedAt := Some now, wp_lastError := Some message\<rparr>"

datatype inflight_state = In_Running | In_Done | In_Error | In_Cancelled | In_Missing

datatype end_state = End_Done | End_Error | End_Cancelled | End_Timeout | End_Lost

datatype status_answer = Status_Ok | Status_Refused int "int option"

datatype start_outcome = Start_Started | Start_Stale | Start_Rejected string | Start_Throws string

text \<open>
  A status posted and its answer; a key blocked until a time; a connection marked revoked; a patch of
  the watch, the cursor it compares and whether it was written; a start with the payload, the cursor
  that goes with it and its outcome; the end of a deploy announced; a line logged; a call of the
  database that failed; and the effects of a connection's own tick.
\<close>

datatype 'x poll_effect =
    Post_Status int deployment_state string status_answer
  | Block_Key string int
  | Mark_Revoked string
  | Patch_Watch watch_patch "int option option" bool
  | Start_Deploy int deploy_payload "int option" start_outcome
  | Deploy_Ended end_state
  | Log_Line string
  | Call_Failed string
  | Conn 'x

record 'x tick_env =
  te_now :: "'x poll_effect list \<Rightarrow> int"
  te_throws :: "'x poll_effect list \<Rightarrow> string option"
  te_token :: "'x poll_effect list \<Rightarrow> string option"
  te_blocked :: "'x poll_effect list \<Rightarrow> string \<Rightarrow> int option"
  te_status :: "'x poll_effect list \<Rightarrow> status_answer"
  te_written :: "'x poll_effect list \<Rightarrow> bool"
  te_start :: "'x poll_effect list \<Rightarrow> start_outcome"
  te_inflight :: "'x poll_effect list \<Rightarrow> inflight_state"
  te_page :: "'x poll_effect list \<Rightarrow> nat \<Rightarrow> string option \<Rightarrow> list_result"
  te_describe :: "string \<Rightarrow> nat \<Rightarrow> string"

text \<open>
  The attempt counters live in the process and outlive the tick; \<open>tk_progress\<close> is where the stored
  cursor stands when the pass ends.
\<close>

record 'x tick_state = "'x poll_effect effect_state" +
  tk_statusAttempts :: "string \<Rightarrow> nat option"
  tk_startAttempts :: "string \<Rightarrow> nat option"
  tk_progress :: "int option"

section \<open>Calls that may fail\<close>

type_synonym ('x, 'm, 'a) tick = "('x, 'm) tick_state_scheme \<Rightarrow> (string + 'a) \<times> ('x, 'm) tick_state_scheme"

text \<open>A call of the database or of the host: it fails, or goes on.\<close>

definition call :: "('x, 'e) tick_env_scheme \<Rightarrow> ('x, 'm, unit) tick" where
  "call e = andThen (ask (te_throws e)) (\<lambda>t. case t of None \<Rightarrow> give ()
     | Some message \<Rightarrow> andThen (act (Call_Failed message)) (\<lambda>_. fail_with message))"

definition connectionKey :: "string \<Rightarrow> string" where
  "connectionKey c = ''connection:'' @ c"

definition watchKey :: "string \<Rightarrow> string" where
  "watchKey w = ''watch:'' @ w"

text \<open>A patch that compares the cursor says whether it was written; one that does not always is.\<close>

definition patchWatch :: "('x, 'e) tick_env_scheme \<Rightarrow> watch_patch \<Rightarrow> int option option \<Rightarrow> ('x, 'm, bool) tick" where
  "patchWatch e p ifCursor = andThen (call e) (\<lambda>_.
     andThen (ask (\<lambda>h. ifCursor = None \<or> te_written e h)) (\<lambda>ok.
     andThen (act (Patch_Watch p ifCursor ok)) (\<lambda>_. give ok)))"

definition patch_watch :: "('x, 'e) tick_env_scheme \<Rightarrow> watch_patch \<Rightarrow> ('x, 'm, unit) tick" where
  "patch_watch e p = andThen (patchWatch e p None) (\<lambda>_. give ())"

section \<open>Posting a status\<close>

definition state_name :: "deployment_state \<Rightarrow> string" where
  "state_name d = (case d of D_In_Progress \<Rightarrow> ''in_progress'' | D_Success \<Rightarrow> ''success'' | D_Failure \<Rightarrow> ''failure''
     | D_Error \<Rightarrow> ''error'' | D_Inactive \<Rightarrow> ''inactive'' | D_Queued \<Rightarrow> ''queued'')"

definition statusRetryDelay :: "nat \<Rightarrow> int" where
  "statusRetryDelay attempts = min 300000 (30000 * 2 ^ (attempts - 1))"

definition statusProblem :: "int \<Rightarrow> string" where
  "statusProblem status =
     (if 0 < status then ''GitHub did not accept the deployment status (HTTP '' @ show_int status @ '').''
      else ''GitHub could not be reached to report the deployment status.'')"

datatype settled = Settled "string option" | Not_Settled

definition status_key :: "watch_row \<Rightarrow> int \<Rightarrow> deployment_state \<Rightarrow> string" where
  "status_key w d st = w_watchId w @ '':'' @ show_int d @ '':'' @ state_name st"

definition set_statusAttempts :: "string \<Rightarrow> nat option \<Rightarrow> ('x, 'm, unit) tick" where
  "set_statusAttempts k n = change (\<lambda>s. s\<lparr>tk_statusAttempts := (tk_statusAttempts s)(k := n)\<rparr>)"

definition set_startAttempts :: "string \<Rightarrow> nat option \<Rightarrow> ('x, 'm, unit) tick" where
  "set_startAttempts k n = change (\<lambda>s. s\<lparr>tk_startAttempts := (tk_startAttempts s)(k := n)\<rparr>)"

text \<open>The attempts so far, with this one.\<close>

definition next_attempt :: "(('x, 'm) tick_state_scheme \<Rightarrow> string \<Rightarrow> nat option) \<Rightarrow> string \<Rightarrow> ('x, 'm, nat) tick" where
  "next_attempt counters k s = (Inr ((case counters s k of None \<Rightarrow> 0 | Some n \<Rightarrow> n) + 1), s)"

definition status_refused ::
  "('x, 'e) tick_env_scheme \<Rightarrow> watch_row \<Rightarrow> string \<Rightarrow> int \<Rightarrow> int option \<Rightarrow> ('x, 'm, settled) tick" where
  "status_refused e w key status limited =
     (if limited \<noteq> None \<and> limited \<noteq> Some 0
      then andThen (act (Block_Key (connectionKey (w_connectionId w)) (the limited))) (\<lambda>_. give Not_Settled)
      else if status = 401
      then andThen (call e) (\<lambda>_. andThen (act (Mark_Revoked (w_connectionId w))) (\<lambda>_. give Not_Settled))
      else if status = 404 \<or> status = 410 \<or> status = 422
      then andThen (set_statusAttempts key None) (\<lambda>_. give (Settled None))
      else andThen (next_attempt tk_statusAttempts key) (\<lambda>attempts.
        if 5 \<le> attempts
        then andThen (set_statusAttempts key None) (\<lambda>_. give (Settled (Some (statusProblem status))))
        else andThen (set_statusAttempts key (Some attempts)) (\<lambda>_.
          andThen (ask (te_now e)) (\<lambda>now.
          andThen (act (Block_Key (watchKey (w_watchId w)) (now + statusRetryDelay attempts))) (\<lambda>_.
          give Not_Settled)))))"

definition postStatus ::
  "('x, 'e) tick_env_scheme \<Rightarrow> watch_row \<Rightarrow> int \<Rightarrow> deployment_state \<Rightarrow> string \<Rightarrow> ('x, 'm, settled) tick" where
  "postStatus e w d st txt =
     andThen (ask (te_status e)) (\<lambda>answer.
     andThen (act (Post_Status d st txt answer)) (\<lambda>_.
     case answer of
       Status_Ok \<Rightarrow> andThen (set_statusAttempts (status_key w d st) None) (\<lambda>_. give (Settled None))
     | Status_Refused status limited \<Rightarrow> status_refused e w (status_key w d st) status limited))"

definition end_text :: "end_state \<Rightarrow> string" where
  "end_text x = (case x of
       End_Done \<Rightarrow> ''Deployed by Dokploy''
     | End_Error \<Rightarrow> ''Dokploy deployment failed; see the Dokploy dashboard''
     | End_Cancelled \<Rightarrow> ''The Dokploy deployment was cancelled''
     | End_Timeout \<Rightarrow> ''Dokploy did not finish this deployment in time''
     | End_Lost \<Rightarrow> ''Dokploy has no record of this deployment'')"

definition reportEnd :: "('x, 'e) tick_env_scheme \<Rightarrow> watch_row \<Rightarrow> int \<Rightarrow> end_state \<Rightarrow> ('x, 'm, settled) tick" where
  "reportEnd e w d x = postStatus e w d (if x = End_Done then D_Success else D_Failure) (end_text x)"

section \<open>What a step adds to the effects\<close>

lemma does_set_status [does_intro]: "Q () [] \<Longrightarrow> does (set_statusAttempts k n) E Q"
  unfolding set_statusAttempts_def by (rule does_change) simp_all

lemma does_set_start [does_intro]: "Q () [] \<Longrightarrow> does (set_startAttempts k n) E Q"
  unfolding set_startAttempts_def by (rule does_change) simp_all

lemma does_next_attempt [does_intro]: "(\<And>n. Q n []) \<Longrightarrow> does (next_attempt c k) E Q"
  by (simp add: does_def next_attempt_def)

lemma does_settled [does_intro]: "(\<And>p. v = Settled p \<Longrightarrow> does (f p) E Q) \<Longrightarrow> (v = Not_Settled \<Longrightarrow> does m E Q) \<Longrightarrow>
    does (case v of Settled p \<Rightarrow> f p | Not_Settled \<Rightarrow> m) E Q"
  by (cases v) auto

lemma does_call [does_intro]: "Q () [] \<Longrightarrow> (\<And>message. E [Call_Failed message]) \<Longrightarrow> does (call e) E Q"
  unfolding call_def by (intro does_intro) auto

lemma does_patchWatch [does_intro]:
  assumes "\<And>ok. (c = None \<Longrightarrow> ok) \<Longrightarrow> Q ok [Patch_Watch p c ok]" and "\<And>message. E [Call_Failed message]"
  shows "does (patchWatch e p c) E Q"
  unfolding patchWatch_def by (intro does_intro) (auto intro: assms)

lemma does_patch_watch [does_intro]:
  "Q () [Patch_Watch p None True] \<Longrightarrow> (\<And>message. E [Call_Failed message]) \<Longrightarrow> does (patch_watch e p) E Q"
  unfolding patch_watch_def by (intro does_intro) auto

text \<open>Effects beside a status: a block, a revoked token, a failed call.\<close>

fun backing_off :: "'x poll_effect \<Rightarrow> bool" where
  "backing_off (Block_Key k t) = True"
| "backing_off (Mark_Revoked c) = True"
| "backing_off (Call_Failed message) = True"
| "backing_off _ = False"

text \<open>An answer after which a status may count as posted: not a rate limit, not a lost token.\<close>

fun may_settle :: "status_answer \<Rightarrow> bool" where
  "may_settle Status_Ok = True"
| "may_settle (Status_Refused status limited) \<longleftrightarrow> (limited = None \<or> limited = Some 0) \<and> status \<noteq> 401"

lemma does_postStatus [does_intro]:
  assumes "\<And>a es r. list_all backing_off es \<Longrightarrow> (r \<noteq> Not_Settled \<Longrightarrow> may_settle a) \<Longrightarrow> Q r (Post_Status d st txt a # es)"
    and "\<And>a es. list_all backing_off es \<Longrightarrow> E (Post_Status d st txt a # es)"
  shows "does (postStatus e w d st txt) E Q"
  unfolding postStatus_def
proof (intro does_intro)
  fix answer
  show "does (case answer of
          Status_Ok \<Rightarrow> andThen (set_statusAttempts (status_key w d st) None) (\<lambda>_. give (Settled None))
        | Status_Refused status limited \<Rightarrow> status_refused e w (status_key w d st) status limited)
        (\<lambda>fs. E ([] @ [Post_Status d st txt answer] @ fs)) (\<lambda>y fs. Q y ([] @ [Post_Status d st txt answer] @ fs))"
    by (cases answer) (auto simp: status_refused_def intro!: does_intro assms)
qed

end
