(* ===== verification/Poll_Tick.thy ===== *)
theory Poll_Tick
  imports Poll_Core
begin

text \<open>
  One tick of a watch: \<open>prepareTick\<close>, \<open>handleFresh\<close> and \<open>pollWatch\<close> of
  \<open>services/github-deployments/poll-core.ts\<close>. \<open>handleFresh\<close> walks the new deployments, oldest first;
  what a watch wants done with each of them is the map \<open>classified\<close>.
\<close>

section \<open>Up to the list of deployments\<close>

record tick_input =
  ti_now :: int
  ti_deployments :: "github_deployment list"
  ti_etag :: "string option"
  ti_lastSeen :: int
  ti_notModified :: bool

record prepare_options =
  po_continueOnNotModified :: bool
  po_isNewOnBaseline :: "(github_deployment \<Rightarrow> bool) option"

definition no_options :: prepare_options where
  "no_options = \<lparr>po_continueOnNotModified = False, po_isNewOnBaseline = None\<rparr>"

definition still_blocked :: "int \<Rightarrow> int option \<Rightarrow> bool" where
  "still_blocked now until = (case until of None \<Rightarrow> False | Some t \<Rightarrow> now < t)"

definition inflight_end :: "int \<Rightarrow> watch_row \<Rightarrow> inflight_state \<Rightarrow> end_state option" where
  "inflight_end now w found =
     (let age = now - (case w_inflightStartedAt w of None \<Rightarrow> now | Some t \<Rightarrow> t) in
      case found of
        In_Running \<Rightarrow> if 5400000 < age then Some End_Timeout else None
      | In_Missing \<Rightarrow> if 600000 < age then Some End_Lost else None
      | In_Done \<Rightarrow> Some End_Done
      | In_Error \<Rightarrow> Some End_Error
      | In_Cancelled \<Rightarrow> Some End_Cancelled)"

definition report_inflight :: "('x, 'e) tick_env_scheme \<Rightarrow> watch_row \<Rightarrow> int \<Rightarrow> int \<Rightarrow> ('x, 'm, unit) tick" where
  "report_inflight e w now d =
     andThen (call e) (\<lambda>_. andThen (ask (te_inflight e)) (\<lambda>found.
     case inflight_end now w found of
       None \<Rightarrow> give ()
     | Some x \<Rightarrow>
         andThen (if w_ghaConnectionId w \<noteq> None then andThen (call e) (\<lambda>_. act (Deploy_Ended x)) else give ()) (\<lambda>_.
         andThen (reportEnd e w d x) (\<lambda>reported.
         case reported of
           Not_Settled \<Rightarrow> give ()
         | Settled problem \<Rightarrow> patch_watch e
             (no_patch\<lparr>wp_inflight := Some None, wp_inflightStartedAt := Some None, wp_lastError := Some problem\<rparr>)))))"

text \<open>The answers of the list that end the tick.\<close>

definition list_failed :: "('x, 'e) tick_env_scheme \<Rightarrow> watch_row \<Rightarrow> int \<Rightarrow> list_result \<Rightarrow> ('x, 'm, unit) tick" where
  "list_failed e w now r =
     (case r of
        L_Rate_Limited retryAt \<Rightarrow> andThen (act (Block_Key (connectionKey (w_connectionId w)) retryAt)) (\<lambda>_.
          act (Log_Line (''github deployments: rate limited, pausing connection '' @ w_connectionId w @ '' for '' @
            show_int (- ((now - retryAt) div 1000)) @ ''s'')))
      | L_Unauthorized \<Rightarrow> andThen (call e) (\<lambda>_. act (Mark_Revoked (w_connectionId w)))
      | L_Forbidden message \<Rightarrow> andThen (patch_watch e (error_patch (Some message))) (\<lambda>_.
          act (Block_Key (watchKey (w_watchId w)) (now + 300000)))
      | L_Not_Found \<Rightarrow> andThen (patch_watch e (error_patch (Some (''GitHub cannot find '' @ w_owner_name w @ ''/'' @
            w_repo_name w @ '', or the connected account cannot see it.'')))) (\<lambda>_.
          act (Block_Key (watchKey (w_watchId w)) (now + 300000)))
      | L_Error status \<Rightarrow> andThen (patch_watch e (error_patch (Some (''GitHub answered with an error'' @
            (if status \<noteq> 0 then '' (HTTP '' @ show_int status @ '')'' else '''') @ ''.'')))) (\<lambda>_.
          act (Block_Key (watchKey (w_watchId w)) (now + 20000 * 3)))
      | _ \<Rightarrow> give ())"

definition first_cursor_patch :: "int \<Rightarrow> int \<Rightarrow> watch_patch" where
  "first_cursor_patch now cursor = (checked_patch now None)\<lparr>wp_lastSeen := Some cursor\<rparr>"

text \<open>The first poll: remember where the history ends.\<close>

definition baseline ::
  "('x, 'e) tick_env_scheme \<Rightarrow> int \<Rightarrow> prepare_options \<Rightarrow> github_deployment list \<Rightarrow> string option \<Rightarrow>
   ('x, 'm, tick_input option) tick" where
  "baseline e now opts ds tag =
     (let wanted = (case po_isNewOnBaseline opts of None \<Rightarrow> [] | Some f \<Rightarrow> filter f ds) in
      if wanted = [] then
        andThen (patchWatch e ((first_cursor_patch now (maxDeploymentId ds))\<lparr>wp_etag := Some tag\<rparr>) (Some None))
          (\<lambda>_. give None)
      else let cursor = Min (set (map gd_id wanted)) - 1 in
        andThen (patchWatch e (first_cursor_patch now cursor) (Some None)) (\<lambda>written.
        give (if \<not> written then None else Some
          \<lparr>ti_now = now, ti_deployments = ds, ti_etag = tag, ti_lastSeen = cursor, ti_notModified = False\<rparr>)))"

definition after_list ::
  "('x, 'e) tick_env_scheme \<Rightarrow> watch_row \<Rightarrow> int \<Rightarrow> prepare_options \<Rightarrow> list_result \<Rightarrow>
   ('x, 'm, tick_input option) tick" where
  "after_list e w now opts r =
     (case r of
        L_Not_Modified \<Rightarrow> andThen (patchWatch e (checked_patch now None) (Some (w_lastSeen w))) (\<lambda>_.
          give (case w_lastSeen w of
              Some seen \<Rightarrow> if po_continueOnNotModified opts
                then Some \<lparr>ti_now = now, ti_deployments = [], ti_etag = w_etag w, ti_lastSeen = seen, ti_notModified = True\<rparr>
                else None
            | None \<Rightarrow> None))
      | L_Ok ds tag \<Rightarrow>
          (case w_lastSeen w of
             None \<Rightarrow> baseline e now opts ds tag
           | Some seen \<Rightarrow> give (Some
               \<lparr>ti_now = now, ti_deployments = ds, ti_etag = tag, ti_lastSeen = seen, ti_notModified = False\<rparr>))
      | _ \<Rightarrow> andThen (list_failed e w now r) (\<lambda>_. give None))"

definition no_token_text :: string where
  "no_token_text = ''The GitHub connection is missing or was revoked. Connect GitHub again.''"

definition prepareTick ::
  "('x, 'e) tick_env_scheme \<Rightarrow> watch_row \<Rightarrow> prepare_options \<Rightarrow> ('x, 'm, tick_input option) tick" where
  "prepareTick e w opts =
     (if \<not> w_enabled w then give None
      else andThen (ask (te_now e)) (\<lambda>now.
        andThen (ask (\<lambda>h. still_blocked now (te_blocked e h (watchKey (w_watchId w))) \<or>
            still_blocked now (te_blocked e h (connectionKey (w_connectionId w))))) (\<lambda>stop.
        if stop then give None
        else andThen (call e) (\<lambda>_. andThen (ask (te_token e)) (\<lambda>token.
          if \<not> truthy token then
            andThen (patch_watch e (error_patch (Some no_token_text))) (\<lambda>_.
            andThen (act (Block_Key (watchKey (w_watchId w)) (now + 300000))) (\<lambda>_. give None))
          else case w_inflight w of
              Some d \<Rightarrow> andThen (report_inflight e w now d) (\<lambda>_. give None)
            | None \<Rightarrow>
                andThen (ask (\<lambda>h. listDeployments (te_page e h) (w_etag w) (w_lastSeen w) None)) (\<lambda>r.
                after_list e w now opts r))))))"

section \<open>The walk over the new deployments\<close>

datatype pass_step = Pass_Stop | Pass_On int "string option"

definition cursor_patch :: "int \<Rightarrow> watch_patch" where
  "cursor_patch d = no_patch\<lparr>wp_lastSeen := Some d\<rparr>"

text \<open>
  Compare-and-set on the cursor this pass stands at: the pass goes on past the deployment, or stops
  because the watch was reset.
\<close>

definition advance ::
  "('x, 'e) tick_env_scheme \<Rightarrow> int \<Rightarrow> int \<Rightarrow> string option \<Rightarrow> ('x, 'm, pass_step) tick" where
  "advance e d cursor problem =
     andThen (patchWatch e (cursor_patch d) (Some (Some cursor))) (\<lambda>written.
     if \<not> written then give Pass_Stop
     else andThen (change (\<lambda>s. s\<lparr>tk_progress := Some (max cursor d)\<rparr>)) (\<lambda>_.
       give (Pass_On (max cursor d) problem)))"

definition answer ::
  "('x, 'e) tick_env_scheme \<Rightarrow> watch_row \<Rightarrow> int \<Rightarrow> deployment_state \<Rightarrow> string \<Rightarrow> int \<Rightarrow> string option \<Rightarrow>
   ('x, 'm, pass_step) tick" where
  "answer e w d st txt cursor problem =
     andThen (postStatus e w d st txt) (\<lambda>r. case r of
       Not_Settled \<Rightarrow> give Pass_Stop
     | Settled _ \<Rightarrow> advance e d cursor problem)"

definition unreadable_text :: string where
  "unreadable_text = ''Dokploy could not read the payload of this deployment''"

definition superseded_text :: string where
  "superseded_text = ''Superseded by a newer deployment; Dokploy deployed the newest only''"

definition rejected_text :: string where
  "rejected_text = ''Dokploy rejected this deployment; see the Dokploy dashboard''"

definition not_queued_text :: string where
  "not_queued_text = ''Dokploy could not queue this deployment; see the Dokploy dashboard''"

definition accepted_text :: string where
  "accepted_text = ''Dokploy accepted the deployment''"

definition attempt_key :: "watch_row \<Rightarrow> int \<Rightarrow> string" where
  "attempt_key w d = w_watchId w @ '':'' @ show_int d"

definition start_failed ::
  "('x, 'e) tick_env_scheme \<Rightarrow> watch_row \<Rightarrow> int \<Rightarrow> string \<Rightarrow> int \<Rightarrow> ('x, 'm, pass_step) tick" where
  "start_failed e w d message cursor =
     andThen (next_attempt tk_startAttempts (attempt_key w d)) (\<lambda>attempts.
     andThen (set_startAttempts (attempt_key w d) (Some attempts)) (\<lambda>_.
     if attempts < 3 then fail_with message
     else andThen (set_startAttempts (attempt_key w d) None) (\<lambda>_.
       answer e w d D_Failure not_queued_text cursor
         (Some (''Deployment #'' @ show_int d @ '' could not be queued: '' @ te_describe e message 120)))))"

definition start_new ::
  "('x, 'e) tick_env_scheme \<Rightarrow> watch_row \<Rightarrow> int \<Rightarrow> int \<Rightarrow> deploy_payload \<Rightarrow> int \<Rightarrow> ('x, 'm, pass_step) tick" where
  "start_new e w now d p cursor =
     andThen (ask (te_start e)) (\<lambda>outcome.
     andThen (act (Start_Deploy d p (Some cursor) outcome)) (\<lambda>_.
     case outcome of
       Start_Throws message \<Rightarrow> start_failed e w d message cursor
     | _ \<Rightarrow> andThen (set_startAttempts (attempt_key w d) None) (\<lambda>_.
         case outcome of
           Start_Rejected reason \<Rightarrow> answer e w d D_Failure rejected_text cursor
             (Some (''Deployment #'' @ show_int d @ '' was rejected: '' @ short_text 200 reason))
         | Start_Started \<Rightarrow> andThen (postStatus e w d D_In_Progress accepted_text) (\<lambda>_.
             andThen (patch_watch e (checked_patch now None)) (\<lambda>_. give Pass_Stop))
         | _ \<Rightarrow> give Pass_Stop)))"

definition handle_one ::
  "('x, 'e) tick_env_scheme \<Rightarrow> watch_row \<Rightarrow> int \<Rightarrow> (int \<Rightarrow> classified option) \<Rightarrow> int option \<Rightarrow> int \<Rightarrow> int \<Rightarrow>
   string option \<Rightarrow> ('x, 'm, pass_step) tick" where
  "handle_one e w now classified target d cursor problem =
     (case classified d of
        None \<Rightarrow> advance e d cursor problem
      | Some (C_Ignore reason) \<Rightarrow> advance e d cursor problem
      | Some (C_Hold reason) \<Rightarrow>
          andThen (patch_watch e (checked_patch now (Some (short_text 200 reason)))) (\<lambda>_. give Pass_Stop)
      | Some (C_Invalid reason st) \<Rightarrow>
          answer e w d D_Failure (case st of None \<Rightarrow> unreadable_text | Some t \<Rightarrow> t) cursor
            (Some (''Deployment #'' @ show_int d @ '': '' @ short_text 200 reason))
      | Some C_Superseded \<Rightarrow> answer e w d D_Inactive superseded_text cursor problem
      | Some (C_Deploy p) \<Rightarrow>
          if Some d \<noteq> target then answer e w d D_Inactive superseded_text cursor problem
          else start_new e w now d p cursor)"

text \<open>\<open>None\<close>: the pass returned early.\<close>

fun handle_each ::
  "('x, 'e) tick_env_scheme \<Rightarrow> watch_row \<Rightarrow> int \<Rightarrow> (int \<Rightarrow> classified option) \<Rightarrow> int option \<Rightarrow> int list \<Rightarrow> int \<Rightarrow>
   string option \<Rightarrow> ('x, 'm, (int \<times> string option) option) tick" where
  "handle_each e w now classified target [] cursor problem = give (Some (cursor, problem))"
| "handle_each e w now classified target (d # ds) cursor problem =
     andThen (handle_one e w now classified target d cursor problem) (\<lambda>r. case r of
       Pass_Stop \<Rightarrow> give None
     | Pass_On cursor' problem' \<Rightarrow> handle_each e w now classified target ds cursor' problem')"

definition handleFresh ::
  "('x, 'e) tick_env_scheme \<Rightarrow> watch_row \<Rightarrow> tick_input \<Rightarrow> github_deployment list \<Rightarrow> (int \<Rightarrow> classified option) \<Rightarrow>
   int option \<Rightarrow> ('x, 'm, unit) tick" where
  "handleFresh e w t fresh classified target =
     andThen (handle_each e w (ti_now t) classified target (map gd_id fresh) (ti_lastSeen t) None) (\<lambda>r. case r of
       None \<Rightarrow> give ()
     | Some (cursor, problem) \<Rightarrow>
         andThen (patchWatch e ((checked_patch (ti_now t) problem)\<lparr>wp_etag := Some (ti_etag t)\<rparr>) (Some (Some cursor)))
           (\<lambda>_. give ()))"

section \<open>A plain watch\<close>

text \<open>\<open>JSON.parse\<close> and \<open>new URL\<close> of the platform.\<close>

record platform =
  pf_json :: "string \<Rightarrow> json option"
  pf_url :: "string \<Rightarrow> web_url option"

definition classify :: "platform \<Rightarrow> watch_row \<Rightarrow> github_deployment \<Rightarrow> classified" where
  "classify pf w d = parseDeploymentPayload (pf_json pf) (pf_url pf) (gd_payload d) (w_serviceId w)
     (w_owner_name w) (w_repo_name w)"

text \<open>\<open>new Map\<close> of pairs: the last pair of a key counts.\<close>

definition classify_all :: "platform \<Rightarrow> watch_row \<Rightarrow> github_deployment list \<Rightarrow> int \<Rightarrow> classified option" where
  "classify_all pf w fresh = map_of (rev (map (\<lambda>d. (gd_id d, classify pf w d)) fresh))"

definition is_deploy :: "classified option \<Rightarrow> bool" where
  "is_deploy c = (case c of Some (C_Deploy p) \<Rightarrow> True | _ \<Rightarrow> False)"

definition newest_deploy :: "(int \<Rightarrow> classified option) \<Rightarrow> github_deployment list \<Rightarrow> int option" where
  "newest_deploy classified fresh =
     fold (\<lambda>d target. if is_deploy (classified (gd_id d)) then Some (gd_id d) else target) fresh None"

definition pollWatchInner :: "platform \<Rightarrow> ('x, 'e) tick_env_scheme \<Rightarrow> watch_row \<Rightarrow> ('x, 'm, unit) tick" where
  "pollWatchInner pf e w =
     andThen (prepareTick e w no_options) (\<lambda>t. case t of
       None \<Rightarrow> give ()
     | Some t \<Rightarrow>
         let fresh = selectNewDeployments (ti_deployments t) (ti_lastSeen t);
             classified = classify_all pf w fresh in
         handleFresh e w t fresh classified (newest_deploy classified fresh))"

text \<open>A failed tick is logged and shown, and the watch backs off; it never fails itself.\<close>

definition recover :: "('x, 'e) tick_env_scheme \<Rightarrow> watch_row \<Rightarrow> string \<Rightarrow> string \<Rightarrow> ('x, 'm, unit) tick" where
  "recover e w what message =
     andThen (act (Log_Line (what @ '': watch '' @ w_watchId w @ '' failed: '' @ te_describe e message 160))) (\<lambda>_.
     andThen (attempt (patch_watch e (error_patch (Some (te_describe e message 160))))) (\<lambda>_.
     andThen (ask (te_now e)) (\<lambda>now. act (Block_Key (watchKey (w_watchId w)) (now + 300000)))))"

definition pollWatch :: "platform \<Rightarrow> ('x, 'e) tick_env_scheme \<Rightarrow> watch_row \<Rightarrow> ('x, 'm, unit) tick" where
  "pollWatch pf e w = rescue (pollWatchInner pf e w) (recover e w ''github deployments'')"

end
