(* ===== verification/Poll_Props.thy ===== *)
theory Poll_Props
  imports Poll_Tick
begin

text \<open>
  What a tick guarantees, whatever the environment answers: a plain watch starts only the newest
  readable deployment of its own service, and the stored cursor passes the new deployments in their
  order, each one only when it needs no answer or was answered.
\<close>

section \<open>What to look at in the effects\<close>

text \<open>The cursor values a pass wrote, the starts it tried, the deployments it answered.\<close>

fun cursor_write :: "'x poll_effect \<Rightarrow> int option" where
  "cursor_write (Patch_Watch p (Some (Some c)) True) = wp_lastSeen p"
| "cursor_write _ = None"

definition cursors :: "'x poll_effect list \<Rightarrow> int list" where
  "cursors es = List.map_filter cursor_write es"

type_synonym start_try = "int \<times> deploy_payload \<times> int option \<times> start_outcome"

fun start_try :: "'x poll_effect \<Rightarrow> start_try option" where
  "start_try (Start_Deploy d p c outcome) = Some (d, p, c, outcome)"
| "start_try _ = None"

definition starts :: "'x poll_effect list \<Rightarrow> start_try list" where
  "starts es = List.map_filter start_try es"

fun posts_for :: "int \<Rightarrow> 'x poll_effect \<Rightarrow> bool" where
  "posts_for d (Post_Status d' st txt a) \<longleftrightarrow> d' = d \<and> may_settle a"
| "posts_for d _ \<longleftrightarrow> False"

definition answered :: "int \<Rightarrow> 'x poll_effect list \<Rightarrow> bool" where
  "answered d es = list_ex (posts_for d) es"

fun saves_etag :: "'x poll_effect \<Rightarrow> bool" where
  "saves_etag (Patch_Watch p c ok) \<longleftrightarrow> wp_etag p \<noteq> None"
| "saves_etag _ \<longleftrightarrow> False"

fun quiet :: "classified option \<Rightarrow> bool" where
  "quiet None = True"
| "quiet (Some (C_Ignore reason)) = True"
| "quiet _ = False"

fun holds :: "classified option \<Rightarrow> bool" where
  "holds (Some (C_Hold reason)) = True"
| "holds _ = False"

lemma map_filter_snoc: "List.map_filter f (xs @ ys) = List.map_filter f xs @ List.map_filter f ys"
  by (simp add: List.map_filter_def)

lemma look_append [simp]:
  "cursors (xs @ ys) = cursors xs @ cursors ys" "starts (xs @ ys) = starts xs @ starts ys"
  "answered d (xs @ ys) \<longleftrightarrow> answered d xs \<or> answered d ys"
  by (simp_all add: cursors_def starts_def answered_def map_filter_snoc)

lemma look_Nil [simp]: "cursors [] = []" "starts [] = []" "\<not> answered d []"
  by (simp_all add: cursors_def starts_def answered_def List.map_filter_def)

lemma look_Cons [simp]:
  "cursors (x # xs) = (case cursor_write x of None \<Rightarrow> cursors xs | Some c \<Rightarrow> c # cursors xs)"
  "starts (x # xs) = (case start_try x of None \<Rightarrow> starts xs | Some c \<Rightarrow> c # starts xs)"
  "answered d (x # xs) \<longleftrightarrow> posts_for d x \<or> answered d xs"
  by (auto simp: cursors_def starts_def answered_def List.map_filter_def split: option.split)

lemma backing_off_look [simp]:
  "list_all backing_off es \<Longrightarrow> cursors es = []" "list_all backing_off es \<Longrightarrow> starts es = []"
  "list_all backing_off es \<Longrightarrow> \<not> list_ex saves_etag es"
  by (induction es) (auto elim!: backing_off.elims)

lemma cursor_write_plain [simp]:
  "cursor_write (Patch_Watch p None ok) = None" "cursor_write (Patch_Watch p c False) = None"
  by (cases ok; simp) (cases "(Patch_Watch p c False :: 'x poll_effect, c)" rule: prod.exhaust, auto elim: cursor_write.elims)

lemma patch_fields [simp]:
  "wp_lastSeen (cursor_patch d) = Some d" "wp_etag (cursor_patch d) = None"
  "wp_lastSeen (checked_patch now m) = None" "wp_etag (checked_patch now m) = None"
  "wp_lastSeen (error_patch m') = None" "wp_etag (error_patch m') = None" "wp_lastSeen no_patch = None" "wp_etag no_patch = None"
  by (simp_all add: cursor_patch_def checked_patch_def error_patch_def no_patch_def)

section \<open>One deployment\<close>

definition start_ok :: "(int \<Rightarrow> classified option) \<Rightarrow> int option \<Rightarrow> int \<Rightarrow> int \<Rightarrow> start_try list \<Rightarrow> bool" where
  "start_ok classified target d cursor ts \<longleftrightarrow> ts = [] \<or>
     (\<exists>p outcome. ts = [(d, p, Some cursor, outcome)] \<and> target = Some d \<and> classified d = Some (C_Deploy p))"

definition passed :: "(int \<Rightarrow> classified option) \<Rightarrow> int \<Rightarrow> 'x poll_effect list \<Rightarrow> bool" where
  "passed classified d es \<longleftrightarrow> cursors es = [d] \<and> (quiet (classified d) \<or> answered d es) \<and> \<not> holds (classified d) \<and>
     (\<forall>(d', p, c, outcome)\<in>set (starts es). outcome \<noteq> Start_Started)"

lemma does_advance:
  assumes "\<And>message. E [Call_Failed message]" and "Q Pass_Stop [Patch_Watch (cursor_patch d) (Some (Some cursor)) False]"
    and "Q (Pass_On (max cursor d) problem) [Patch_Watch (cursor_patch d) (Some (Some cursor)) True]"
  shows "does (advance e d cursor problem) E Q"
  unfolding advance_def by (intro does_intro does_change) (auto intro: assms)

lemma does_answer:
  assumes "\<And>a es message. list_all backing_off es \<Longrightarrow> E (Post_Status d st txt a # es)"
    and "\<And>a es. list_all backing_off es \<Longrightarrow> Q Pass_Stop (Post_Status d st txt a # es)"
    and "\<And>a es. list_all backing_off es \<Longrightarrow> may_settle a \<Longrightarrow> Q Pass_Stop (Post_Status d st txt a # es @ [Patch_Watch (cursor_patch d) (Some (Some cursor)) False])"
    and "\<And>a es. list_all backing_off es \<Longrightarrow> may_settle a \<Longrightarrow> Q (Pass_On (max cursor d) problem)
      (Post_Status d st txt a # es @ [Patch_Watch (cursor_patch d) (Some (Some cursor)) True])"
  shows "does (answer e w d st txt cursor problem) E Q"
  unfolding answer_def
  by (intro does_intro does_advance) (use assms in \<open>auto simp: list_all_append\<close>)

definition one_fails :: "(int \<Rightarrow> classified option) \<Rightarrow> int option \<Rightarrow> int \<Rightarrow> int \<Rightarrow> 'x poll_effect list \<Rightarrow> bool" where
  "one_fails classified target d cursor es \<longleftrightarrow>
     cursors es = [] \<and> start_ok classified target d cursor (starts es) \<and> \<not> list_ex saves_etag es"

definition one_done ::
  "(int \<Rightarrow> classified option) \<Rightarrow> int option \<Rightarrow> int \<Rightarrow> int \<Rightarrow> pass_step \<Rightarrow> 'x poll_effect list \<Rightarrow> bool" where
  "one_done classified target d cursor r es \<longleftrightarrow>
     (case r of
        Pass_Stop \<Rightarrow> one_fails classified target d cursor es
      | Pass_On cursor' problem \<Rightarrow> cursor' = max cursor d \<and> passed classified d es \<and>
          start_ok classified target d cursor (starts es) \<and> \<not> list_ex saves_etag es)"

lemmas one_defs = one_fails_def one_done_def passed_def start_ok_def

lemma answer_one:
  assumes "\<not> holds (classified d)"
  shows "does (answer e w d st txt cursor problem) (one_fails classified target d cursor) (one_done classified target d cursor)"
  by (rule does_answer) (use assms in \<open>auto simp: one_defs\<close>)

text \<open>An answer after the start was tried.\<close>

lemma answer_after_start:
  assumes "classified d = Some (C_Deploy p)" and "target = Some d" and "outcome \<noteq> Start_Started"
  shows "does (answer e w d st txt cursor problem)
    (\<lambda>es. one_fails classified target d cursor (Start_Deploy d p (Some cursor) outcome # es))
    (\<lambda>r es. one_done classified target d cursor r (Start_Deploy d p (Some cursor) outcome # es))"
  by (rule does_answer) (use assms in \<open>auto simp: one_defs\<close>)

lemma start_new_ok:
  assumes c: "classified d = Some (C_Deploy p)" and t: "target = Some d"
  shows "does (start_new e w now d p cursor) (one_fails classified target d cursor) (one_done classified target d cursor)"
  unfolding start_new_def
proof (rule does_andThen, rule does_ask, rule does_andThen, rule does_act, goal_cases)
  case (1 h)
  show ?case
  proof (cases "te_start e h")
    case Start_Started
    with c t show ?thesis by (auto simp: one_defs intro!: does_intro)
  next
    case Start_Stale
    with c t show ?thesis by (auto simp: one_defs intro!: does_intro)
  next
    case (Start_Rejected reason)
    show ?thesis
      unfolding Start_Rejected start_outcome.case append_Nil append_Cons
      by (intro does_intro, rule does_mono [OF answer_after_start [where classified = classified and target = target and d = d and p = p and outcome = "Start_Rejected reason", OF c t]]) simp_all
  next
    case (Start_Throws message)
    have fails: "one_fails classified target d cursor [Start_Deploy d p (Some cursor) (Start_Throws message)]"
      using c t by (simp add: one_defs)
    show ?thesis
      unfolding Start_Throws start_outcome.case append_Nil append_Cons start_failed_def
      by (intro does_intro; (rule does_mono [OF answer_after_start [where classified = classified and target = target and d = d and p = p and outcome = "Start_Throws message", OF c t]])?) (simp_all add: fails)
  qed
qed

lemma handle_one_ok:
  "does (handle_one e w now classified target d cursor problem)
     (one_fails classified target d cursor) (one_done classified target d cursor)"
proof (cases "classified d")
  case None
  then show ?thesis by (auto simp: handle_one_def one_defs intro!: does_advance)
next
  case (Some c)
  show ?thesis
  proof (cases c)
    case (C_Deploy p)
    with Some show ?thesis by (auto simp: handle_one_def intro: start_new_ok answer_one)
  next
    case (C_Invalid reason st)
    with Some show ?thesis by (auto simp: handle_one_def intro: answer_one)
  next
    case C_Superseded
    with Some show ?thesis by (auto simp: handle_one_def intro: answer_one)
  qed (use Some in \<open>auto simp: handle_one_def one_defs intro!: does_intro does_advance\<close>)
qed

section \<open>The pass\<close>

text \<open>
  \<open>before\<close> a start: every deployment older than it was passed. \<open>Started\<close>: nothing else was.
\<close>

definition starts_in_order ::
  "(int \<Rightarrow> classified option) \<Rightarrow> int option \<Rightarrow> int list \<Rightarrow> int \<Rightarrow> int list \<Rightarrow> start_try list \<Rightarrow> bool" where
  "starts_in_order classified target ds cursor written ts \<longleftrightarrow>
     (\<forall>(d, p, c, outcome)\<in>set ts. target = Some d \<and> classified d = Some (C_Deploy p) \<and>
        (\<exists>before rest. ds = before @ d # rest \<and> prefix before written \<and> c = Some (foldl max cursor before) \<and>
          (outcome = Start_Started \<longrightarrow> written = before)))"

definition pass_ok ::
  "(int \<Rightarrow> classified option) \<Rightarrow> int option \<Rightarrow> int list \<Rightarrow> int \<Rightarrow> 'x poll_effect list \<Rightarrow> bool" where
  "pass_ok classified target ds cursor es \<longleftrightarrow>
     prefix (cursors es) ds \<and>
     (\<forall>d\<in>set (cursors es). (quiet (classified d) \<or> answered d es) \<and> \<not> holds (classified d)) \<and>
     starts_in_order classified target ds cursor (cursors es) (starts es)"

lemma pass_ok_Cons:
  assumes "passed classified d es" and "start_ok classified target d cursor (starts es)"
    and "pass_ok classified target ds (max cursor d) fs"
  shows "pass_ok classified target (d # ds) cursor (es @ fs)"
proof -
  have "starts_in_order classified target (d # ds) cursor (d # cursors fs) (starts es)"
    using assms(1,2) by (auto simp: starts_in_order_def start_ok_def passed_def) (rule exI [of _ "[]"], simp)+
  moreover have "starts_in_order classified target (d # ds) cursor (d # cursors fs) (starts fs)"
    unfolding starts_in_order_def
  proof clarify
    fix d' p c outcome
    assume "(d', p, c, outcome) \<in> set (starts fs)"
    with assms(3) obtain before rest where "target = Some d'" "classified d' = Some (C_Deploy p)"
      "ds = before @ d' # rest" "prefix before (cursors fs)" "c = Some (foldl max (max cursor d) before)"
      "outcome = Start_Started \<longrightarrow> cursors fs = before"
      unfolding pass_ok_def starts_in_order_def by fastforce
    then show "target = Some d' \<and> classified d' = Some (C_Deploy p) \<and>
        (\<exists>before rest. d # ds = before @ d' # rest \<and> prefix before (d # cursors fs) \<and> c = Some (foldl max cursor before) \<and>
          (outcome = Start_Started \<longrightarrow> d # cursors fs = before))"
      by (intro conjI) (assumption | rule exI [of _ "d # before"], rule exI [of _ rest], simp)+
  qed
  ultimately have "starts_in_order classified target (d # ds) cursor (d # cursors fs) (starts es @ starts fs)"
    by (auto simp: starts_in_order_def)
  with assms show ?thesis by (auto simp: pass_ok_def passed_def)
qed

lemma pass_ok_stop:
  assumes "one_fails classified target d cursor es"
  shows "pass_ok classified target (d # ds) cursor es"
  using assms by (auto simp: pass_ok_def one_fails_def start_ok_def starts_in_order_def intro!: exI [of _ "[]"])

lemma handle_each_ok:
  "does (handle_each e w now classified target ds cursor problem)
     (\<lambda>es. pass_ok classified target ds cursor es \<and> \<not> list_ex saves_etag es)
     (\<lambda>r es. pass_ok classified target ds cursor es \<and> \<not> list_ex saves_etag es \<and> (r = None \<or> cursors es = ds))"
proof (induction ds arbitrary: cursor problem)
  case Nil
  then show ?case by (auto simp: pass_ok_def starts_in_order_def intro!: does_intro)
next
  case (Cons d ds)
  show ?case
    unfolding handle_each.simps
  proof (rule does_andThen, rule does_mono [OF handle_one_ok], goal_cases)
    case (1 es)
    then show ?case by (auto simp: one_fails_def intro: pass_ok_stop)
  next
    case (2 r es)
    show ?case
    proof (cases r)
      case Pass_Stop
      with 2 show ?thesis by (auto simp: one_done_def one_fails_def intro!: does_intro pass_ok_stop)
    next
      case (Pass_On cursor' problem')
      with 2 have step: "passed classified d es" "start_ok classified target d cursor (starts es)"
        "\<not> list_ex saves_etag es" "cursor' = max cursor d" "cursors es = [d]"
        by (auto simp: one_done_def passed_def)
      show ?thesis
        unfolding Pass_On pass_step.case
        by (rule does_mono [OF Cons.IH [of cursor' problem']]) (use step pass_ok_Cons in auto)
    qed
  qed
qed

definition pass_spec :: "(int \<Rightarrow> classified option) \<Rightarrow> int option \<Rightarrow> int list \<Rightarrow> int \<Rightarrow> 'x poll_effect list \<Rightarrow> bool" where
  "pass_spec classified target ds cursor es \<longleftrightarrow>
     pass_ok classified target ds cursor es \<and> (list_ex saves_etag es \<longrightarrow> cursors es = ds)"

lemma pass_spec_snoc:
  assumes "cursor_write x = None" and "start_try x = None" and "\<And>d. \<not> posts_for d x"
    and "pass_ok classified target ds c es" and "saves_etag x \<or> list_ex saves_etag es \<Longrightarrow> cursors es = ds"
  shows "pass_spec classified target ds c (es @ [x])"
  using assms by (simp add: pass_spec_def pass_ok_def)

lemma handleFresh_ok:
  "does (handleFresh e w t fresh classified target)
     (pass_spec classified target (map gd_id fresh) (ti_lastSeen t))
     (\<lambda>_. pass_spec classified target (map gd_id fresh) (ti_lastSeen t))"
  unfolding handleFresh_def
proof (rule does_andThen, rule does_mono [OF handle_each_ok], goal_cases)
  case (1 es)
  then show ?case by (simp add: pass_spec_def)
next
  case (2 r es)
  show ?case
  proof (cases r)
    case None
    with 2 show ?thesis by (auto simp: pass_spec_def intro!: does_intro)
  next
    case (Some x)
    then obtain cursor problem where r: "r = Some (cursor, problem)" by (cases x) auto
    have w: "cursor_write (Patch_Watch ((checked_patch (ti_now t) problem)\<lparr>wp_etag := Some (ti_etag t)\<rparr>) (Some (Some cursor)) ok
        :: 'a poll_effect) = None" for ok
      by (cases ok) simp_all
    from r 2 show ?thesis by (auto simp: w intro!: does_intro pass_spec_snoc)
  qed
qed

text \<open>
  C9. A pass moves the stored cursor in order. The cursor values it writes are the first ids of the
  new deployments, oldest first and none left out; each one passed needed no answer or was sent a
  status that was not turned down by a rate limit or for a lost token, and no deployment on hold is
  passed. A start is tried only for the target, with the cursor that stands when everything before it
  was passed; once it started, the pass moves no further. The etag of the list is saved only when
  every new deployment was passed, so that a later ``not modified'' hides none.
\<close>

theorem pass_moves_in_order:
  "\<exists>es. tk_log (snd (handleFresh e w t fresh classified target s)) = tk_log s @ es \<and>
     prefix (cursors es) (map gd_id fresh) \<and>
     (\<forall>d\<in>set (cursors es). (quiet (classified d) \<or> answered d es) \<and> \<not> holds (classified d)) \<and>
     starts_in_order classified target (map gd_id fresh) (ti_lastSeen t) (cursors es) (starts es) \<and>
     (list_ex saves_etag es \<longrightarrow> cursors es = map gd_id fresh)"
  using doesD [OF handleFresh_ok [of e w t fresh classified target], of s]
  by (auto simp: pass_spec_def pass_ok_def split: sum.splits)

definition sample_tick_env :: "unit tick_env" where
  "sample_tick_env = \<lparr>te_now = (\<lambda>h. 100), te_throws = (\<lambda>h. None), te_token = (\<lambda>h. Some ''t''), te_blocked = (\<lambda>h k. None),
     te_status = (\<lambda>h. Status_Ok), te_written = (\<lambda>h. True), te_start = (\<lambda>h. Start_Started),
     te_inflight = (\<lambda>h. In_Missing), te_page = (\<lambda>h n tag. L_Error 500), te_describe = (\<lambda>m n. m)\<rparr>"

definition sample_tick_state :: "unit tick_state" where
  "sample_tick_state = \<lparr>tk_log = [], tk_statusAttempts = (\<lambda>k. None), tk_startAttempts = (\<lambda>k. None), tk_progress = None\<rparr>"

definition sample_watch :: watch_row where
  "sample_watch = \<lparr>w_watchId = ''w'', w_serviceId = ''s'', w_connectionId = ''c'', w_owner_name = ''o'', w_repo_name = ''r'',
     w_environment = ''production'', w_enabled = True, w_lastSeen = Some 10, w_etag = None, w_inflight = None,
     w_inflightStartedAt = None, w_ghaConnectionId = None\<rparr>"

definition sample_deployment :: "int \<Rightarrow> json option \<Rightarrow> github_deployment" where
  "sample_deployment d payload = \<lparr>gd_id = d, gd_sha = None, gd_created_at = None, gd_task = None,
     gd_environment = None, gd_payload = payload\<rparr>"

definition sample_input :: tick_input where
  "sample_input = \<lparr>ti_now = 100, ti_deployments = [], ti_etag = Some ''e'', ti_lastSeen = 10, ti_notModified = False\<rparr>"

theorem pass_moves_in_order_witness:
  "\<exists>es. tk_log (snd (handleFresh sample_tick_env sample_watch sample_input
      [sample_deployment 11 None, sample_deployment 12 None]
      (\<lambda>d. if d = 12 then Some (C_Invalid ''bad'' None) else None) None sample_tick_state)) = es \<and>
    list_ex saves_etag es \<and> cursors es = [11, 12]"
proof -
  let ?s = "handleFresh sample_tick_env sample_watch sample_input [sample_deployment 11 None, sample_deployment 12 None]
      (\<lambda>d. if d = 12 then Some (C_Invalid ''bad'' None) else None) None sample_tick_state"
  have "list_ex saves_etag (tk_log (snd ?s))" by code_simp
  moreover have "tk_log sample_tick_state = []" "map gd_id [sample_deployment 11 None, sample_deployment 12 None] = [11, 12]"
    by (simp_all add: sample_tick_state_def sample_deployment_def)
  ultimately show ?thesis
    using pass_moves_in_order [of sample_tick_env sample_watch sample_input
        "[sample_deployment 11 None, sample_deployment 12 None]"
        "\<lambda>d. if d = 12 then Some (C_Invalid ''bad'' None) else None" None sample_tick_state] by auto
qed

section \<open>A whole tick of a plain watch\<close>

lemma does_list_failed: "does (list_failed e w now r) (\<lambda>es. starts es = []) (\<lambda>_ es. starts es = [])"
  unfolding list_failed_def by (cases r) (auto intro!: does_intro)

lemma does_report_inflight: "does (report_inflight e w now d) (\<lambda>es. starts es = []) (\<lambda>_ es. starts es = [])"
  unfolding report_inflight_def reportEnd_def by (intro does_intro) auto

definition tick_ready :: "('x, 'e) tick_env_scheme \<Rightarrow> watch_row \<Rightarrow> tick_input \<Rightarrow> bool" where
  "tick_ready e w t \<longleftrightarrow> w_enabled w \<and> w_inflight w = None \<and> w_lastSeen w = Some (ti_lastSeen t) \<and>
     (\<exists>h. listDeployments (te_page e h) (w_etag w) (w_lastSeen w) None = L_Ok (ti_deployments t) (ti_etag t))"

lemma does_after_list:
  assumes "w_enabled w" and "w_inflight w = None" and "r = listDeployments (te_page e h) (w_etag w) (w_lastSeen w) None"
  shows "does (after_list e w now no_options r) (\<lambda>es. starts es = [])
    (\<lambda>t es. starts es = [] \<and> (case t of None \<Rightarrow> True | Some t \<Rightarrow> tick_ready e w t))"
proof (cases r)
  case L_Not_Modified
  then show ?thesis
    by (auto simp: after_list_def no_options_def intro!: does_intro split: option.splits)
next
  case (L_Ok ds tag)
  have "tick_ready e w \<lparr>ti_now = now, ti_deployments = ds, ti_etag = tag, ti_lastSeen = seen, ti_notModified = False\<rparr>"
    if "w_lastSeen w = Some seen" for seen
    using that assms L_Ok by (auto simp: tick_ready_def)
  then show ?thesis
    by (auto simp: L_Ok after_list_def no_options_def baseline_def intro!: does_intro)
qed (auto simp: after_list_def intro!: does_intro does_mono [OF does_list_failed])

lemma does_prepareTick:
  "does (prepareTick e w no_options) (\<lambda>es. starts es = [])
     (\<lambda>t es. starts es = [] \<and> (case t of None \<Rightarrow> True | Some t \<Rightarrow> tick_ready e w t))"
  unfolding prepareTick_def
  by (intro does_intro does_mono [OF does_report_inflight] does_mono [OF does_after_list]) auto

lemma does_recover: "does (recover e w what message) (\<lambda>es. starts es = []) (\<lambda>_ es. starts es = [])"
  unfolding recover_def by (intro does_intro) auto

lemma newest_deploy_Some:
  assumes "newest_deploy c ds = Some d" and "sorted (map gd_id ds)"
  shows "is_deploy (c d) \<and> (\<exists>x\<in>set ds. gd_id x = d) \<and> (\<forall>x\<in>set ds. is_deploy (c (gd_id x)) \<longrightarrow> gd_id x \<le> d)"
  using assms
proof (induction ds rule: rev_induct)
  case Nil
  then show ?case by (simp add: newest_deploy_def)
next
  case (snoc x ds)
  show ?case
  proof (cases "is_deploy (c (gd_id x))")
    case True
    with snoc.prems show ?thesis by (auto simp: newest_deploy_def sorted_append)
  next
    case False
    with snoc show ?thesis by (auto simp: newest_deploy_def sorted_append)
  qed
qed

lemma classify_all_in: "classify_all pf w fresh d = Some c \<Longrightarrow> \<exists>x\<in>set fresh. gd_id x = d \<and> classify pf w x = c"
  by (auto simp: classify_all_def dest!: map_of_SomeD)

lemma classify_all_distinct:
  assumes "distinct (map gd_id fresh)" and "x \<in> set fresh"
  shows "classify_all pf w fresh (gd_id x) = Some (classify pf w x)"
proof -
  have "distinct (map fst (rev (map (\<lambda>d. (gd_id d, classify pf w d)) fresh)))"
    using assms(1) by (simp add: rev_map [symmetric] comp_def)
  with assms(2) show ?thesis by (auto simp: classify_all_def intro!: map_of_is_SomeI)
qed

lemma select_new: "set (selectNewDeployments ds seen) = {d \<in> set ds. seen < gd_id d}"
  "sorted (map gd_id (selectNewDeployments ds seen))"
  "distinct (map gd_id ds) \<Longrightarrow> distinct (map gd_id (selectNewDeployments ds seen))"
  by (auto simp: selectNewDeployments_def distinct_map inj_on_def)

text \<open>What a start in a tick tells about the list that the tick read.\<close>

definition newest_of_list :: "platform \<Rightarrow> ('x, 'e) tick_env_scheme \<Rightarrow> watch_row \<Rightarrow> start_try \<Rightarrow> bool" where
  "newest_of_list pf e w t = (case t of (d, p, c, outcome) \<Rightarrow>
     w_enabled w \<and> w_inflight w = None \<and>
     (\<exists>h ds tag seen. w_lastSeen w = Some seen \<and>
        listDeployments (te_page e h) (w_etag w) (w_lastSeen w) None = L_Ok ds tag \<and>
        seen < d \<and> (\<exists>x\<in>set ds. gd_id x = d \<and> classify pf w x = C_Deploy p) \<and>
        (distinct (map gd_id ds) \<longrightarrow> (\<forall>x\<in>set ds. d < gd_id x \<longrightarrow> \<not> is_deploy (Some (classify pf w x))))))"

lemma pass_newest:
  assumes ready: "tick_ready e w t" and fresh: "fresh = selectNewDeployments (ti_deployments t) (ti_lastSeen t)"
    and ok: "starts_in_order (classify_all pf w fresh) (newest_deploy (classify_all pf w fresh) fresh) ds c written ts"
    and x: "x \<in> set ts"
  shows "newest_of_list pf e w x"
proof -
  obtain d p c' outcome where x': "x = (d, p, c', outcome)" by (cases x) auto
  let ?c = "classify_all pf w fresh"
  from ok x x' have d: "newest_deploy ?c fresh = Some d" "?c d = Some (C_Deploy p)"
    by (auto simp: starts_in_order_def)
  have sorted: "sorted (map gd_id fresh)" by (simp add: fresh select_new)
  from classify_all_in [OF d(2)] obtain y where y: "y \<in> set fresh" "gd_id y = d" "classify pf w y = C_Deploy p" by blast
  have newer: "\<not> is_deploy (Some (classify pf w z))"
    if "distinct (map gd_id (ti_deployments t))" "z \<in> set (ti_deployments t)" "d < gd_id z" for z
  proof -
    have "z \<in> set fresh" using that y by (auto simp: fresh select_new)
    moreover have "?c (gd_id z) = Some (classify pf w z)"
      using that(1) \<open>z \<in> set fresh\<close> by (intro classify_all_distinct) (simp_all add: fresh select_new)
    ultimately show ?thesis using newest_deploy_Some [OF d(1) sorted] that(3) by force
  qed
  from ready y newer show ?thesis
    unfolding x' newest_of_list_def tick_ready_def by (fastforce simp: fresh select_new)
qed

lemma pollWatchInner_ok:
  "does (pollWatchInner pf e w) (\<lambda>es. list_all (newest_of_list pf e w) (starts es))
     (\<lambda>_ es. list_all (newest_of_list pf e w) (starts es))"
  unfolding pollWatchInner_def
proof (rule does_andThen, rule does_mono [OF does_prepareTick], goal_cases)
  case (2 r es)
  show ?case
  proof (cases r)
    case (Some t)
    let ?fresh = "selectNewDeployments (ti_deployments t) (ti_lastSeen t)"
    let ?c = "classify_all pf w ?fresh"
    have "list_all (newest_of_list pf e w) (starts fs)"
      if "pass_spec ?c (newest_deploy ?c ?fresh) (map gd_id ?fresh) (ti_lastSeen t) fs" for fs :: "'a poll_effect list"
      using that 2 Some pass_newest [of e w t ?fresh] by (auto simp: pass_spec_def pass_ok_def list_all_iff)
    with 2 Some show ?thesis
      by (auto simp: Let_def intro!: does_mono [OF handleFresh_ok])
  qed (use 2 in \<open>auto intro!: does_intro\<close>)
qed simp

text \<open>
  A tick of a plain watch starts only the newest readable deployment of its own service. Every
  start it tries is of a deployment in the list it read, newer than the cursor of the watch, whose
  payload names the watch's service and carries an image pinned by a well-formed digest; no newer
  deployment of the list does. And it starts nothing while the watch is disabled, has never been
  baselined or has a deployment on its way. This holds whatever the environment answers, failures
  included.
\<close>

lemma poll_starts_newest:
  assumes "t \<in> set (starts (drop (length (tk_log s)) (tk_log (snd (pollWatch pf e w s)))))"
  shows "newest_of_list pf e w t \<and> (case t of (d, p, c, outcome) \<Rightarrow>
    dp_image p = dp_repository p @ ''@'' @ dp_digest p \<and> valid_digest (dp_digest p) \<and> valid_repository (dp_repository p))"
proof -
  have "does (pollWatch pf e w) (\<lambda>es. list_all (newest_of_list pf e w) (starts es))
     (\<lambda>_ es. list_all (newest_of_list pf e w) (starts es))"
    unfolding pollWatch_def
    by (rule does_rescue, rule does_mono [OF pollWatchInner_ok]) (auto intro!: does_mono [OF does_recover])
  from doesD [OF this, of s] obtain es where "tk_log (snd (pollWatch pf e w s)) = tk_log s @ es"
    "list_all (newest_of_list pf e w) (starts es)" by (auto split: sum.splits)
  with assms have t: "newest_of_list pf e w t" by (auto simp: list_all_iff)
  moreover obtain d p c outcome where "t = (d, p, c, outcome)" by (cases t) auto
  ultimately show ?thesis
    using payload_deploys_pinned by (fastforce simp: newest_of_list_def classify_def)
qed

definition sample_payload :: "string \<Rightarrow> json option" where
  "sample_payload service = Some (J_Obj [(''dokploy'', J_Obj [(''serviceId'', J_Str service),
     (''image'', J_Str (''ghcr.io/o/app@'' @ sample_digest))])])"

definition sample_list_env :: "unit tick_env" where
  "sample_list_env = sample_tick_env\<lparr>te_page := (\<lambda>h n tag. L_Ok [sample_deployment 13 (sample_payload ''other''),
     sample_deployment 12 (sample_payload ''s''), sample_deployment 11 (sample_payload ''s'')] None)\<rparr>"

definition sample_platform :: platform where
  "sample_platform = \<lparr>pf_json = (\<lambda>s. None), pf_url = (\<lambda>s. None)\<rparr>"

end
