(* ===== verification/Release_Rules.thy ===== *)
theory Release_Rules
  imports Payload
begin

text \<open>
  The rules a release is judged by, each a pure function of
  \<open>packages/server/src/services/gha-connect/\<close>: which images a connection may deploy
  (\<open>namespace.ts\<close>), whether the environment still allows only the tracked branch
  (\<open>environment-policy.ts\<close>), whether a release is newer than what runs (\<open>ordering.ts\<close>), whether
  every service of a release announced itself (\<open>completeness.ts\<close>) and whether GitHub Actions fell
  behind the branch (\<open>stale.ts\<close>).
\<close>

section \<open>Refusals\<close>

datatype refusal_code =
    Run_Missing | Run_Path | Run_Branch | Run_Event | Run_Repository | Run_Failed
  | Artifact_Missing | Artifact_Expired | Artifact_Binding | Artifact_Unreadable
  | Manifest_Invalid | Manifest_Schema | Manifest_Migrations | Manifest_Binding | Manifest_Masked
  | Image_Namespace | Image_Repository | Image_Unverified
  | Policy_Wider | Policy_Unreadable
  | Not_On_Branch | Ordering_Behind | Ordering_Lower_Attempt | Ordering_Older_Run

section \<open>Images\<close>

definition lower :: "string \<Rightarrow> string" where
  "lower s = toLowerCase (trim s)"

definition normalizePrefix :: "string \<Rightarrow> string" where
  "normalizePrefix p = trimTrailingSlashes (lower p)"

definition allowedNamespaces :: "string \<Rightarrow> string \<Rightarrow> string option \<Rightarrow> string list" where
  "allowedNamespaces owner repo registryPrefix =
     (''ghcr.io/'' @ lower owner @ ''/'' @ lower repo @ ''/'') #
     (if truthy registryPrefix then [normalizePrefix (the registryPrefix) @ ''/'' @ lower repo @ ''/''] else [])"

definition canonicalRepository :: "string \<Rightarrow> string \<Rightarrow> string option \<Rightarrow> string option" where
  "canonicalRepository repository owner registryPrefix =
     (if \<not> truthy registryPrefix then None
      else let p = normalizePrefix (the registryPrefix) @ ''/''; r = lower repository in
        if \<not> prefix p r then None else Some (''ghcr.io/'' @ lower owner @ ''/'' @ drop (length p) r))"

text \<open>\<open>None\<close> is the answer \<open>ok: true\<close>.\<close>

definition checkImageRepository :: "string \<Rightarrow> string list \<Rightarrow> string list \<Rightarrow> (refusal_code \<times> string) option" where
  "checkImageRepository repository namespaces currentRepositories =
     (let r = lower repository in
      case List.find (\<lambda>ns. prefix ns r) namespaces of
        None \<Rightarrow> Some (Image_Namespace,
          repository @ '' is outside this connection's registry namespace ('' @ join '', '' namespaces @ '')'')
      | Some ns \<Rightarrow>
          if prefix ''preview/'' (drop (length ns) r) then Some (Image_Namespace,
            repository @ '' belongs to pull request previews, which a service release never uses'')
          else if currentRepositories \<noteq> [] \<and> r \<notin> set (map lower currentRepositories) then Some (Image_Repository,
            repository @ '' is not an image this service runs ('' @ join '', '' currentRepositories @ '')'')
          else None)"

definition splitRepository :: "string \<Rightarrow> (string \<times> string) option" where
  "splitRepository repository =
     (let host = before_first CHR ''/'' repository in
      if host = [] \<or> host = repository then None
      else if CHR ''.'' \<notin> set host \<and> CHR '':'' \<notin> set host \<and> host \<noteq> ''localhost'' then None
      else Some (toLowerCase host, drop (length host + 1) repository))"

section \<open>The environment\<close>

record environment_policy =
  ep_customBranchPolicies :: bool
  ep_protectedBranches :: bool
  ep_policies :: "(string \<times> string) list"

text \<open>A policy is its name and its type; \<open>None\<close> is the answer \<open>ok: true\<close>.\<close>

definition evaluateEnvironmentPolicy :: "environment_policy \<Rightarrow> string \<Rightarrow> string option" where
  "evaluateEnvironmentPolicy p trackedBranch =
     (if \<not> ep_customBranchPolicies p then
        Some (if ep_protectedBranches p
          then ''The environment allows every protected branch, not only the tracked branch''
          else ''The environment allows every branch'')
      else case ep_policies p of
          [(name, type)] \<Rightarrow>
            if type \<noteq> ''branch'' \<or> name \<noteq> trackedBranch
            then Some (''The environment allows '' @ name @ '' ('' @ type @ ''), not only '' @ trackedBranch)
            else None
        | _ \<Rightarrow> Some ''The environment must allow exactly one deployment branch, the tracked branch'')"

section \<open>Ordering\<close>

datatype compare_status = Ahead | Behind | Identical | Diverged

record release_stamp =
  rs_sha :: string
  rs_runId :: int
  rs_attempt :: int
  rs_digests :: "string list"

datatype ordering_decision = Order_Accept bool | Order_Refuse refusal_code string

text \<open>\<open>None\<close>: the throw for two commits without their compare status.\<close>

definition decideOrdering ::
  "release_stamp option \<Rightarrow> release_stamp \<Rightarrow> compare_status option \<Rightarrow> bool \<Rightarrow> bool \<Rightarrow> ordering_decision option" where
  "decideOrdering deployed candidate deployedToCandidate reachable allowBehind =
     (if \<not> reachable then Some (Order_Refuse Not_On_Branch ''The release commit is not on the tracked branch'')
      else case deployed of
          None \<Rightarrow> Some (Order_Accept False)
        | Some d \<Rightarrow>
            if rs_sha d = rs_sha candidate then
              let noop = (rs_digests d = rs_digests candidate) in
              if rs_runId candidate = rs_runId d then
                if rs_attempt d < rs_attempt candidate then Some (Order_Accept noop)
                else if rs_attempt candidate = rs_attempt d \<and> noop then Some (Order_Accept True)
                else Some (Order_Refuse Ordering_Lower_Attempt ''A later attempt of this run was already released'')
              else if rs_runId d < rs_runId candidate then Some (Order_Accept noop)
              else Some (Order_Refuse Ordering_Older_Run ''A later run of this commit was already released'')
            else (case deployedToCandidate of
                None \<Rightarrow> None
              | Some c \<Rightarrow>
                  if c = Behind \<or> c = Identical then
                    if allowBehind then Some (Order_Accept False)
                    else Some (Order_Refuse Ordering_Behind ''The release commit is older than the deployed commit'')
                  else Some (Order_Accept False)))"

section \<open>Complete releases\<close>

datatype completeness = Complete | Incomplete "string list" bool

record seen_deployment =
  sd_task :: "string option"
  sd_payload :: "json option"

definition announces :: "(string \<Rightarrow> json option) \<Rightarrow> int \<Rightarrow> int \<Rightarrow> seen_deployment \<Rightarrow> string option" where
  "announces parse_json runId runAttempt d =
     (case parseDeploymentTask (sd_task d) of None \<Rightarrow> None
      | Some key \<Rightarrow> (case parseWakePayload parse_json (sd_payload d) of Inl e \<Rightarrow> None
          | Inr w \<Rightarrow> if wk_runId w = runId \<and> wk_runAttempt w = runAttempt then Some key else None))"

definition checkReleaseComplete ::
  "(string \<Rightarrow> json option) \<Rightarrow> string \<Rightarrow> string list \<Rightarrow> int \<Rightarrow> int \<Rightarrow> seen_deployment list \<Rightarrow> int \<Rightarrow> int option \<Rightarrow>
   int option \<Rightarrow> completeness" where
  "checkReleaseComplete parse_json ownKey releaseServices runId runAttempt ds now runEndedAt timeoutMs =
     (let seen = List.map_filter (announces parse_json runId runAttempt) ds;
          missing = filter (\<lambda>key. key \<noteq> ownKey \<and> key \<notin> set seen) releaseServices in
      if missing = [] then Complete
      else Incomplete missing (case runEndedAt of None \<Rightarrow> False
        | Some t \<Rightarrow> (case timeoutMs of None \<Rightarrow> 900000 | Some x \<Rightarrow> x) < now - t))"

section \<open>Stale\<close>

record stale_run =
  sr_status :: string
  sr_conclusion :: "string option"
  sr_createdAt :: int
  sr_startedAt :: "int option"
  sr_endedAt :: "int option"

record stale_input =
  si_now :: int
  si_trackedBranch :: string
  si_branchExists :: bool
  si_branchHead :: "string option"
  si_lastReleaseSha :: "string option"
  si_deployedOnBranch :: "bool option"
  si_workflowPresent :: "bool option"
  si_workflowFile :: string
  si_runsForHead :: "stale_run list"
  si_recentFinishedRuns :: "stale_run list"

text \<open>Twice the median, which is a whole number: the tolerance is \<open>2 * median\<close>.\<close>

definition twice_median :: "int list \<Rightarrow> int" where
  "twice_median values =
     (if values = [] then 0
      else let sorted = sort values; mid = length sorted div 2 in
        if odd (length sorted) then 2 * sorted ! mid else sorted ! (mid - 1) + sorted ! mid)"

definition stale_minutes :: "int \<Rightarrow> int" where
  "stale_minutes ms = max 1 (round_div ms 60000)"

definition run_durations :: "stale_run list \<Rightarrow> int list" where
  "run_durations runs = List.map_filter (\<lambda>r. case (sr_startedAt r, sr_endedAt r) of
     (Some a, Some b) \<Rightarrow> Some (b - a) | _ \<Rightarrow> None) (take 5 runs)"

text \<open>The reason, or \<open>None\<close> when the service is not stale.\<close>

definition judge_newest :: "stale_input \<Rightarrow> stale_run \<Rightarrow> string option" where
  "judge_newest i newest =
     (if sr_status newest \<noteq> ''completed'' then
        let waiting = si_now i - sr_createdAt newest in
        if sr_startedAt newest = None \<and> 1800000 < waiting
        then Some (''Queued for '' @ show_int (stale_minutes waiting) @ '' minutes, is a runner online?'')
        else None
      else if sr_conclusion newest \<noteq> Some ''success'' then None
      else let tolerance = max 900000 (twice_median (run_durations (si_recentFinishedRuns i)));
               endedAt = (case sr_endedAt newest of None \<Rightarrow> sr_createdAt newest | Some t \<Rightarrow> t) in
        if tolerance < si_now i - endedAt
        then Some (''GitHub Actions has not published commit '' @ short (si_branchHead i) @ ''.'')
        else None)"

definition evaluateStale :: "stale_input \<Rightarrow> string option" where
  "evaluateStale i =
     (if \<not> si_branchExists i then Some (''Branch '' @ si_trackedBranch i @ '' was deleted or renamed.'')
      else if si_workflowPresent i = Some False
      then Some (last (split_on CHR ''/'' (si_workflowFile i)) @ '' was removed from '' @ si_trackedBranch i @ ''.'')
      else if si_deployedOnBranch i = Some False then Some ''The deployed commit is no longer on the branch.''
      else if \<not> truthy (si_branchHead i) \<or> si_branchHead i = si_lastReleaseSha i then None
      else case si_runsForHead i of
          [] \<Rightarrow> None
        | newest # _ \<Rightarrow> judge_newest i newest)"

section \<open>What the rules guarantee\<close>

lemma checkImageRepository_None:
  assumes "checkImageRepository repository namespaces current = None"
  shows "\<exists>ns\<in>set namespaces. prefix ns (lower repository) \<and> \<not> prefix ''preview/'' (drop (length ns) (lower repository)) \<and>
    (current = [] \<or> lower repository \<in> set (map lower current))"
  using assms find_Some_iff [of "\<lambda>ns. prefix ns (lower repository)" namespaces]
  by (auto simp: checkImageRepository_def Let_def split: option.splits if_splits) (metis nth_mem)+

lemma evaluateEnvironmentPolicy_None:
  "evaluateEnvironmentPolicy p branch = None \<longleftrightarrow> ep_customBranchPolicies p \<and> ep_policies p = [(branch, ''branch'')]"
  by (auto simp: evaluateEnvironmentPolicy_def split: list.splits)

text \<open>
  On a branch without force pushes the commits form a line, \<open>position\<close> says where, and GitHub's
  compare status follows from it.
\<close>

definition compare_by :: "(string \<Rightarrow> nat) \<Rightarrow> string \<Rightarrow> string \<Rightarrow> compare_status" where
  "compare_by position old new =
     (if position old < position new then Ahead else if position new < position old then Behind else Identical)"

definition not_before :: "(string \<Rightarrow> nat) \<Rightarrow> release_stamp \<Rightarrow> release_stamp \<Rightarrow> bool" where
  "not_before position d c \<longleftrightarrow>
     position (rs_sha d) < position (rs_sha c) \<or>
     rs_sha d = rs_sha c \<and> (rs_runId d < rs_runId c \<or> rs_runId d = rs_runId c \<and>
       (rs_attempt d < rs_attempt c \<or> rs_attempt d = rs_attempt c \<and> rs_digests d = rs_digests c))"

lemma ordering_accepts:
  assumes "position (rs_sha d) = position (rs_sha c) \<Longrightarrow> rs_sha d = rs_sha c"
  shows "(\<exists>noop. decideOrdering (Some d) c (Some (compare_by position (rs_sha d) (rs_sha c))) True False =
      Some (Order_Accept noop)) \<longleftrightarrow> not_before position d c"
proof -
  have "position (rs_sha d) = position (rs_sha c) \<longleftrightarrow> rs_sha d = rs_sha c" using assms by auto
  then show ?thesis by (auto simp: decideOrdering_def not_before_def compare_by_def Let_def)
qed

lemma not_before_trans: "not_before p a b \<Longrightarrow> not_before p b c \<Longrightarrow> not_before p a c"
  unfolding not_before_def by auto

end
