(* ===== verification/Log_Manifest.thy ===== *)
theory Log_Manifest
  imports Text
begin

text \<open>
  The second source of a release manifest, the log of the release job:
  \<open>services/gha-connect/log-manifest.ts\<close>. A text is the list of its code points, so that nothing is
  lost outside of the first 256; its bytes are its UTF-8 encoding. Text with a lone surrogate, which
  has no encoding, is left out.
\<close>

section \<open>UTF-8\<close>

type_synonym unicode = "nat list"

definition scalar :: "nat \<Rightarrow> bool" where
  "scalar c \<longleftrightarrow> c < 0xD800 \<or> 0xE000 \<le> c \<and> c < 0x110000"

definition utf8_char :: "nat \<Rightarrow> nat list" where
  "utf8_char c =
     (if c < 0x80 then [c]
      else if c < 0x800 then [0xC0 + c div 64, 0x80 + c mod 64]
      else if c < 0x10000 then [0xE0 + c div 4096, 0x80 + c div 64 mod 64, 0x80 + c mod 64]
      else [0xF0 + c div 262144, 0x80 + c div 4096 mod 64, 0x80 + c div 64 mod 64, 0x80 + c mod 64])"

definition utf8 :: "unicode \<Rightarrow> nat list" where
  "utf8 t = concat (map utf8_char t)"

definition tail_byte :: "nat \<Rightarrow> bool" where
  "tail_byte b \<longleftrightarrow> 0x80 \<le> b \<and> b < 0xC0"

text \<open>The first character of a byte sequence and what follows it; \<open>None\<close> when it is not well-formed.\<close>

fun utf8_first :: "nat list \<Rightarrow> (nat \<times> nat list) option" where
  "utf8_first [] = None"
| "utf8_first (a # bs) =
     (if a < 0x80 then Some (a, bs)
      else case bs of
          b # bs2 \<Rightarrow>
            if 0xC2 \<le> a \<and> a < 0xE0 \<and> tail_byte b then Some ((a - 0xC0) * 64 + (b - 0x80), bs2)
            else (case bs2 of
                c # bs3 \<Rightarrow>
                  let v = (a - 0xE0) * 4096 + (b - 0x80) * 64 + (c - 0x80) in
                  if 0xE0 \<le> a \<and> a < 0xF0 \<and> tail_byte b \<and> tail_byte c \<and> 0x800 \<le> v \<and> scalar v then Some (v, bs3)
                  else (case bs3 of
                      d # bs4 \<Rightarrow>
                        let v = (a - 0xF0) * 262144 + (b - 0x80) * 4096 + (c - 0x80) * 64 + (d - 0x80) in
                        if 0xF0 \<le> a \<and> a < 0xF8 \<and> tail_byte b \<and> tail_byte c \<and> tail_byte d \<and> 0x10000 \<le> v \<and> scalar v
                        then Some (v, bs4) else None
                    | [] \<Rightarrow> None)
              | [] \<Rightarrow> None)
        | [] \<Rightarrow> None)"

text \<open>The whole sequence, \<open>n\<close> characters at most; a character takes a byte or more.\<close>

fun utf8_decode_upto :: "nat \<Rightarrow> nat list \<Rightarrow> unicode option" where
  "utf8_decode_upto n [] = Some []"
| "utf8_decode_upto 0 (b # bs) = None"
| "utf8_decode_upto (Suc n) (b # bs) =
     (case utf8_first (b # bs) of None \<Rightarrow> None
      | Some (c, rest) \<Rightarrow> map_option ((#) c) (utf8_decode_upto n rest))"

definition utf8_decode :: "nat list \<Rightarrow> unicode option" where
  "utf8_decode bs = utf8_decode_upto (length bs) bs"

lemma utf8_first_char:
  assumes "scalar c"
  shows "utf8_first (utf8_char c @ rest) = Some (c, rest)"
proof -
  consider "c < 0x80" | "0x80 \<le> c" "c < 0x800" | "0x800 \<le> c" "c < 0x10000" | "0x10000 \<le> c" by linarith
  then show ?thesis
  proof cases
    case 1
    then show ?thesis by (simp add: utf8_char_def)
  next
    case 2
    then obtain p q where pq: "c div 64 = p" "c mod 64 = q" "2 \<le> p" "p < 32" "q < 64" "p * 64 + q = c"
      using div_mult_mod_eq [of c 64] by fastforce
    with 2 show ?thesis by (simp add: utf8_char_def tail_byte_def)
  next
    case 3
    have "64 * (c div 64) + c mod 64 = c" "64 * (c div 4096) + c div 64 mod 64 = c div 64"
      using mult_div_mod_eq [of 64 "c div 64"] by (simp_all add: div_mult2_eq [symmetric])
    then have "4096 * (c div 4096) + 64 * (c div 64 mod 64) + c mod 64 = c" by linarith
    moreover have "c div 4096 < 16" using 3 by auto
    ultimately show ?thesis
      using 3 assms by (simp add: utf8_char_def tail_byte_def Let_def add.commute mult.commute)
  next
    case 4
    have "64 * (c div 64) + c mod 64 = c" "64 * (c div 4096) + c div 64 mod 64 = c div 64"
      "64 * (c div 262144) + c div 4096 mod 64 = c div 4096"
      using mult_div_mod_eq [of 64 "c div 64"] mult_div_mod_eq [of 64 "c div 4096"]
      by (simp_all add: div_mult2_eq [symmetric])
    then have "262144 * (c div 262144) + 4096 * (c div 4096 mod 64) + 64 * (c div 64 mod 64) + c mod 64 = c" by linarith
    moreover have "c div 262144 < 8" using 4 assms by (auto simp: scalar_def)
    ultimately show ?thesis
      using 4 assms by (simp add: utf8_char_def tail_byte_def Let_def add.commute mult.commute)
  qed
qed

lemma utf8_char_not_Nil [simp]: "utf8_char c \<noteq> []"
  by (simp add: utf8_char_def)

lemma utf8_decode_utf8_upto:
  "\<forall>c\<in>set t. scalar c \<Longrightarrow> length t \<le> n \<Longrightarrow> utf8_decode_upto n (utf8 t) = Some t"
proof (induction t arbitrary: n)
  case Nil
  then show ?case by (simp add: utf8_def)
next
  case (Cons c t)
  then obtain m where n: "n = Suc m" "length t \<le> m" by (cases n) auto
  obtain b bs where b: "utf8 (c # t) = b # bs" by (cases "utf8 (c # t)") (auto simp: utf8_def)
  have "utf8_first (b # bs) = Some (c, utf8 t)"
    using utf8_first_char [of c "utf8 t"] Cons.prems b by (simp add: utf8_def)
  with Cons n b show ?case by simp
qed

lemma length_utf8: "length t \<le> length (utf8 t)"
proof (induction t)
  case (Cons c t)
  have "1 \<le> length (utf8_char c)" by (simp add: utf8_char_def)
  with Cons show ?case by (simp add: utf8_def)
qed simp

lemma utf8_roundtrip: "\<forall>c\<in>set t. scalar c \<Longrightarrow> utf8_decode (utf8 t) = Some t"
  by (simp add: utf8_decode_def utf8_decode_utf8_upto length_utf8)

lemma utf8_bytes: "\<forall>c\<in>set t. scalar c \<Longrightarrow> \<forall>b\<in>set (utf8 t). b < 256"
proof -
  have "\<forall>b\<in>set (utf8_char c). b < 256" if "scalar c" for c
    using that by (auto simp: utf8_char_def scalar_def)
  then show "\<forall>c\<in>set t. scalar c \<Longrightarrow> ?thesis" by (auto simp: utf8_def)
qed

section \<open>The payload\<close>

text \<open>One letter per nibble, \<open>g\<close> is 0 and \<open>v\<close> is 15.\<close>

definition encodeMarkerPayload :: "unicode \<Rightarrow> unicode" where
  "encodeMarkerPayload t = concat (map (\<lambda>b. [103 + b div 16, 103 + b mod 16]) (utf8 t))"

definition nibble :: "nat \<Rightarrow> bool" where
  "nibble c \<longleftrightarrow> 103 \<le> c \<and> c \<le> 118"

fun payload_bytes :: "unicode \<Rightarrow> nat list" where
  "payload_bytes (a # b # rest) = ((a - 103) * 16 + (b - 103)) # payload_bytes rest"
| "payload_bytes _ = []"

text \<open>
  Decoding bytes that are not well-formed UTF-8 puts replacement characters, which encode to other
  bytes, so the comparison with the payload then fails: it is \<open>None\<close> at once here.
\<close>

definition decodeMarkerPayload :: "unicode \<Rightarrow> unicode option" where
  "decodeMarkerPayload payload =
     (if payload = [] \<or> odd (length payload) then None
      else if \<not> list_all nibble payload then None
      else case utf8_decode (payload_bytes payload) of
          None \<Rightarrow> None
        | Some t \<Rightarrow> if encodeMarkerPayload t = payload then Some t else None)"

section \<open>Marker lines\<close>

definition ascii :: "string \<Rightarrow> unicode" where
  "ascii s = map code s"

definition LOG_MARKER :: unicode where
  "LOG_MARKER = ascii ''dokploy-release/v1 ''"

definition MANIFEST_MAX_BYTES :: int where
  "MANIFEST_MAX_BYTES = 65536"

text \<open>\<open>split("\n")\<close>.\<close>

fun split_lines :: "unicode \<Rightarrow> unicode list" where
  "split_lines [] = [[]]"
| "split_lines (c # cs) =
     (if c = 10 then [] # split_lines cs
      else case split_lines cs of [] \<Rightarrow> [[c]] | l # ls \<Rightarrow> (c # l) # ls)"

definition digit_code :: "nat \<Rightarrow> bool" where
  "digit_code c \<longleftrightarrow> 48 \<le> c \<and> c \<le> 57"

text \<open>The time stamp GitHub puts in front of a line; \<open>d\<close> in the shape stands for a digit.\<close>

definition has_shape :: "string \<Rightarrow> unicode \<Rightarrow> bool" where
  "has_shape shape cs = list_all2 (\<lambda>s c. if s = CHR ''d'' then digit_code c else c = code s) shape cs"

definition drop_timestamp :: "unicode \<Rightarrow> unicode" where
  "drop_timestamp line =
     (let rest = drop 19 line;
          fraction = takeWhile digit_code (drop 1 rest);
          after = (if take 1 rest = [46] \<and> fraction \<noteq> [] then drop (length fraction + 1) rest else rest) in
      if has_shape ''dddd-dd-ddTdd:dd:dd'' (take 19 line) \<and> prefix (ascii ''Z '') after then drop 2 after else line)"

definition drop_bom :: "unicode \<Rightarrow> unicode" where
  "drop_bom line = (if take 1 line = [0xFEFF] then drop 1 line else line)"

definition drop_cr :: "unicode \<Rightarrow> unicode" where
  "drop_cr line = (if line \<noteq> [] \<and> last line = 13 then butlast line else line)"

definition clean_line :: "unicode \<Rightarrow> unicode" where
  "clean_line raw = drop_cr (drop_timestamp (drop_bom raw))"

datatype marker_line = Marker_Text unicode | Marker_Masked | Marker_Bad

definition read_marker :: "unicode \<Rightarrow> marker_line" where
  "read_marker encoded =
     (if encoded = [] \<or> 2 * MANIFEST_MAX_BYTES < int (length encoded) then Marker_Bad
      else if 42 \<in> set encoded \<and> list_all (\<lambda>c. nibble c \<or> c = 42) encoded then Marker_Masked
      else case decodeMarkerPayload encoded of None \<Rightarrow> Marker_Bad | Some t \<Rightarrow> Marker_Text t)"

definition log_marker_lines :: "unicode \<Rightarrow> marker_line list" where
  "log_marker_lines log = List.map_filter (\<lambda>raw.
     let line = clean_line raw in
     if prefix LOG_MARKER line then Some (read_marker (drop (length LOG_MARKER) line)) else None) (split_lines log)"

datatype log_failure = Log_None | Log_Ambiguous | Log_Invalid | Log_Masked

fun marker_text :: "marker_line \<Rightarrow> unicode option" where
  "marker_text (Marker_Text t) = Some t"
| "marker_text _ = None"

definition extractLogManifest :: "unicode list \<Rightarrow> log_failure + unicode" where
  "extractLogManifest logs =
     (let found = concat (map log_marker_lines logs);
          texts = uniq (List.map_filter marker_text found) in
      if Marker_Masked \<in> set found then Inl Log_Masked
      else if Marker_Bad \<in> set found then Inl Log_Invalid
      else case texts of [] \<Rightarrow> Inl Log_None | [t] \<Rightarrow> Inr t | _ \<Rightarrow> Inl Log_Ambiguous)"

section \<open>Which jobs are read\<close>

record job_info =
  ji_id :: int
  ji_runId :: "int option"
  ji_attempt :: "int option"
  ji_name :: string
  ji_status :: string
  ji_conclusion :: "string option"
  ji_headSha :: "string option"
  ji_runnerName :: "string option"
  ji_stepNames :: "string list"

record job_hint =
  jh_job :: "string option"
  jh_runner :: "string option"

record release_jobs =
  rj_preferred :: "job_info list"
  rj_rest :: "job_info list"
  rj_overCap :: bool

definition MAX_LOG_JOBS :: nat where
  "MAX_LOG_JOBS = 10"

definition agrees :: "'a option \<Rightarrow> 'a \<Rightarrow> bool" where
  "agrees v x \<longleftrightarrow> v = None \<or> v = Some x"

definition successful_job :: "int \<Rightarrow> int \<Rightarrow> string \<Rightarrow> job_info \<Rightarrow> bool" where
  "successful_job runId attempt headSha j \<longleftrightarrow>
     ji_status j = ''completed'' \<and> ji_conclusion j = Some ''success'' \<and> agrees (ji_runId j) runId \<and>
     agrees (ji_attempt j) attempt \<and> agrees (ji_headSha j) headSha"

definition mentions_release :: "string \<Rightarrow> bool" where
  "mentions_release s \<longleftrightarrow> sublist ''dokploy'' (toLowerCase s) \<or> sublist ''release'' (toLowerCase s)"

definition release_like :: "job_info \<Rightarrow> bool" where
  "release_like j \<longleftrightarrow> mentions_release (ji_name j) \<or> list_ex mentions_release (ji_stepNames j)"

definition hinted_jobs :: "job_info list \<Rightarrow> string option \<Rightarrow> job_hint option \<Rightarrow> job_info list" where
  "hinted_jobs successful releaseJobName hint =
     (if truthy releaseJobName then filter (\<lambda>j. Some (ji_name j) = releaseJobName) successful
      else let runner = Option.bind hint jh_runner; name = Option.bind hint jh_job;
               by_runner = (if truthy runner then filter (\<lambda>j. ji_runnerName j = runner) successful else []) in
        if by_runner = [] \<and> truthy name then filter (\<lambda>j. Some (ji_name j) = name) successful else by_runner)"

definition releaseJobs ::
  "job_info list \<Rightarrow> int \<Rightarrow> int \<Rightarrow> string \<Rightarrow> string option \<Rightarrow> job_hint option \<Rightarrow> release_jobs" where
  "releaseJobs jobs runId attempt headSha releaseJobName hint =
     (let successful = filter (successful_job runId attempt headSha) jobs;
          preferred = hinted_jobs successful releaseJobName hint;
          others = filter (\<lambda>j. ji_id j \<notin> set (map ji_id preferred)) successful in
      \<lparr>rj_preferred = take MAX_LOG_JOBS preferred,
       rj_rest = filter release_like others @ filter (\<lambda>j. \<not> release_like j) others,
       rj_overCap = (MAX_LOG_JOBS < length successful)\<rparr>)"

section \<open>What is read back\<close>

lemma payload_roundtrip:
  assumes "\<forall>b\<in>set bs. b < 256"
  shows "payload_bytes (concat (map (\<lambda>b. [103 + b div 16, 103 + b mod 16]) bs)) = bs"
    and "list_all nibble (concat (map (\<lambda>b. [103 + b div 16, 103 + b mod 16]) bs))"
    and "length (concat (map (\<lambda>b. [103 + b div 16, 103 + b mod 16]) bs)) = 2 * length bs"
  using assms by (induction bs) (auto simp: nibble_def)

lemma utf8_Nil [simp]: "utf8 t = [] \<longleftrightarrow> t = []"
  by (cases t) (auto simp: utf8_def)

lemma decode_encode:
  assumes "\<forall>c\<in>set t. scalar c" and "t \<noteq> []"
  shows "decodeMarkerPayload (encodeMarkerPayload t) = Some t"
proof -
  note p = payload_roundtrip [OF utf8_bytes [OF assms(1)]]
  have "encodeMarkerPayload t \<noteq> []"
    using p(3) assms(2) by (metis encodeMarkerPayload_def length_0_conv mult_eq_0_iff utf8_Nil zero_neq_numeral)
  with p utf8_roundtrip [OF assms(1)] show ?thesis
    by (simp add: decodeMarkerPayload_def encodeMarkerPayload_def)
qed

lemma decode_sound: "decodeMarkerPayload payload = Some t \<Longrightarrow> encodeMarkerPayload t = payload"
  by (auto simp: decodeMarkerPayload_def split: if_splits option.splits)

lemma split_lines_not_Nil [simp]: "split_lines l \<noteq> []"
  by (induction l) (auto split: list.splits)

lemma split_lines_append: "split_lines (a @ 10 # b) = split_lines a @ split_lines b"
  by (induction a) (auto split: list.splits)

lemma split_lines_one: "10 \<notin> set l \<Longrightarrow> split_lines l = [l]"
  by (induction l) auto

lemma map_filter_append: "List.map_filter f (xs @ ys) = List.map_filter f xs @ List.map_filter f ys"
  by (simp add: List.map_filter_def)

text \<open>What the action prints: the marker and the payload, perhaps after a time stamp.\<close>

definition printed_line :: "unicode \<Rightarrow> unicode \<Rightarrow> unicode" where
  "printed_line stamp t = stamp @ LOG_MARKER @ encodeMarkerPayload t"

definition time_stamp :: "unicode \<Rightarrow> bool" where
  "time_stamp stamp \<longleftrightarrow> stamp = [] \<or>
     (\<exists>front fraction. length front = 19 \<and> has_shape ''dddd-dd-ddTdd:dd:dd'' front \<and> list_all digit_code fraction \<and>
        fraction \<noteq> [] \<and> stamp = front @ 46 # fraction @ [90, 32])"

lemma marker_code: "LOG_MARKER = [100, 111, 107, 112, 108, 111, 121, 45, 114, 101, 108, 101, 97, 115, 101, 47, 118, 49, 32]"
  by code_simp

lemma drop_timestamp_stamp:
  assumes "time_stamp stamp" and "prefix LOG_MARKER rest"
  shows "drop_timestamp (stamp @ rest) = rest"
proof (cases "stamp = []")
  case True
  from assms(2) obtain zs where "rest = LOG_MARKER @ zs" by (auto simp: prefix_def)
  then have "take 19 rest = LOG_MARKER" by (simp add: marker_code)
  moreover have "\<not> has_shape ''dddd-dd-ddTdd:dd:dd'' LOG_MARKER" by code_simp
  ultimately show ?thesis using True by (simp add: drop_timestamp_def)
next
  case False
  with assms(1) obtain front fraction where f: "length front = 19" "has_shape ''dddd-dd-ddTdd:dd:dd'' front"
    "list_all digit_code fraction" "fraction \<noteq> []" "stamp = front @ 46 # fraction @ [90, 32]"
    by (auto simp: time_stamp_def)
  have "takeWhile digit_code (fraction @ 90 # 32 # rest) = fraction"
    using f(3) by (simp add: list_all_iff takeWhile_append2 digit_code_def)
  moreover have "ascii ''Z '' = [90, 32]" by code_simp
  ultimately show ?thesis using f by (simp add: drop_timestamp_def Let_def)
qed

lemma clean_printed:
  assumes "time_stamp stamp" and "\<forall>c\<in>set t. scalar c" and "t \<noteq> []"
  shows "clean_line (printed_line stamp t) = LOG_MARKER @ encodeMarkerPayload t"
proof -
  note p = payload_roundtrip [OF utf8_bytes [OF assms(2)]]
  have ne: "encodeMarkerPayload t \<noteq> []"
    using p(3) assms(3) by (metis encodeMarkerPayload_def length_0_conv mult_eq_0_iff utf8_Nil zero_neq_numeral)
  have "nibble (last (encodeMarkerPayload t))" using p(2) ne by (metis encodeMarkerPayload_def last_in_set list_all_iff)
  then have cr: "last (encodeMarkerPayload t) \<noteq> 13" by (auto simp: nibble_def)
  have hd: "take 1 (printed_line stamp t) \<noteq> [0xFEFF]"
  proof (cases "stamp = []")
    case True
    then show ?thesis by (simp add: printed_line_def marker_code)
  next
    case False
    with assms(1) obtain front rest where "length front = 19" "has_shape ''dddd-dd-ddTdd:dd:dd'' front" "stamp = front @ rest"
      by (auto simp: time_stamp_def)
    then obtain c front' where "stamp = c # front'" "digit_code c" by (cases front) (auto simp: has_shape_def)
    then show ?thesis by (auto simp: printed_line_def digit_code_def)
  qed
  then have "drop_bom (printed_line stamp t) = stamp @ LOG_MARKER @ encodeMarkerPayload t"
    by (simp add: drop_bom_def printed_line_def)
  with drop_timestamp_stamp [OF assms(1), of "LOG_MARKER @ encodeMarkerPayload t"] ne cr show ?thesis
    by (simp add: clean_line_def drop_cr_def)
qed

text \<open>
  C37. The manifest survives the log: when the log of the release job holds one line that the action
  printed for a manifest text, with or without the time stamp of the runner, and no other marker line
  before or after it, exactly that text is read back, whatever characters it has.
\<close>

theorem log_manifest_roundtrip:
  assumes "\<forall>c\<in>set t. scalar c" and "t \<noteq> []" and "int (length (utf8 t)) \<le> MANIFEST_MAX_BYTES"
    and "time_stamp stamp" and "10 \<notin> set stamp"
    and "log_marker_lines before = []" and "log_marker_lines after = []"
  shows "extractLogManifest [before @ 10 # printed_line stamp t @ 10 # after] = Inr t"
proof -
  note p = payload_roundtrip [OF utf8_bytes [OF assms(1)]]
  have nib: "\<forall>c\<in>set (encodeMarkerPayload t). nibble c" using p(2) by (simp add: encodeMarkerPayload_def list_all_iff)
  then have no: "10 \<notin> set (encodeMarkerPayload t)" "42 \<notin> set (encodeMarkerPayload t)" by (auto simp: nibble_def)
  have l: "length (encodeMarkerPayload t) = 2 * length (utf8 t)" using p(3) by (simp add: encodeMarkerPayload_def)
  have len: "encodeMarkerPayload t \<noteq> []" "int (length (encodeMarkerPayload t)) \<le> 2 * MANIFEST_MAX_BYTES"
    using l assms(2,3) by auto
  have "10 \<notin> set (printed_line stamp t)" using no assms(5) by (auto simp: printed_line_def marker_code)
  then have lines: "split_lines (before @ 10 # printed_line stamp t @ 10 # after) =
      split_lines before @ printed_line stamp t # split_lines after"
    by (simp add: split_lines_append split_lines_one)
  have "read_marker (encodeMarkerPayload t) = Marker_Text t"
    using len no decode_encode [OF assms(1,2)] by (simp add: read_marker_def)
  with clean_printed [OF assms(4,1,2)] assms(6,7)
  have "log_marker_lines (before @ 10 # printed_line stamp t @ 10 # after) = [Marker_Text t]"
    by (simp add: log_marker_lines_def lines map_filter_append List.map_filter_simps Let_def)
  then show ?thesis by (simp add: extractLogManifest_def Let_def List.map_filter_simps)
qed

theorem log_manifest_roundtrip_witness:
  "extractLogManifest [ascii ''build'' @ 10 # printed_line [] [123, 233, 8364, 128640, 125] @ 10 # ascii ''done''] =
     Inr [123, 233, 8364, 128640, 125]"
proof (rule log_manifest_roundtrip)
  show "\<forall>c\<in>set [123, 233, 8364, 128640, 125]. scalar c" by (simp add: scalar_def)
  show "int (length (utf8 [123, 233, 8364, 128640, 125])) \<le> MANIFEST_MAX_BYTES"
    by (simp add: utf8_def utf8_char_def MANIFEST_MAX_BYTES_def)
  have "ascii ''build'' = [98, 117, 105, 108, 100]" "ascii ''done'' = [100, 111, 110, 101]" "ascii ''Z '' = [90, 32]"
    by code_simp+
  then show "log_marker_lines (ascii ''build'') = []" "log_marker_lines (ascii ''done'') = []"
    by (simp_all add: log_marker_lines_def clean_line_def drop_timestamp_def drop_bom_def drop_cr_def marker_code
        has_shape_def digit_code_def List.map_filter_simps Let_def)
qed (simp_all add: time_stamp_def)

end
