(* ===== verification/Manifest.thy ===== *)
theory Manifest
  imports Release_Rules Log_Manifest
begin

text \<open>
  The release manifest \<open>dokploy.release/v1\<close>: \<open>services/gha-connect/manifest.ts\<close>. \<open>JSON.parse\<close> is an
  argument, on the code points of a text. A number that is not whole is not a JSON value here; the
  code refuses one wherever it looks at a number.
\<close>

section \<open>The manifest\<close>

record manifest_image =
  mi_name :: string
  mi_composeService :: string
  mi_ref :: string
  mi_repository :: string
  mi_digest :: string

record manifest_service =
  ms_key :: string
  ms_images :: "manifest_image list"
  ms_composePath :: "string option"

record release_manifest =
  rm_schema :: string
  rm_sha :: string
  rm_delivery :: delivery
  rm_releaseId :: string
  rm_releaseServices :: "string list"
  rm_ref :: string
  rm_runId :: string
  rm_runAttempt :: int
  rm_environment :: string
  rm_services :: "manifest_service list"

datatype manifest_failure = Invalid_Json | Unknown_Schema | Invalid_Manifest | Migrations_Unsupported

type_synonym manifest_error = "manifest_failure \<times> string"

section \<open>Parsing\<close>

definition as_string :: "json option \<Rightarrow> (string \<Rightarrow> bool) \<Rightarrow> string option" where
  "as_string v pattern = (case v of Some (J_Str s) \<Rightarrow> if pattern s then Some s else None | _ \<Rightarrow> None)"

definition starts_with_then :: "(char \<Rightarrow> bool) \<Rightarrow> (char \<Rightarrow> bool) \<Rightarrow> nat \<Rightarrow> string \<Rightarrow> bool" where
  "starts_with_then first others n s \<longleftrightarrow> s \<noteq> [] \<and> length s \<le> n \<and> first (hd s) \<and> list_all others (tl s)"

definition sha_pattern :: "string \<Rightarrow> bool" where
  "sha_pattern s \<longleftrightarrow> length s = 40 \<and> list_all is_lower_hex s"

definition name_char :: "char \<Rightarrow> bool" where
  "name_char c \<longleftrightarrow> is_alnum c \<or> c \<in> set ''._-''"

definition release_id_pattern :: "string \<Rightarrow> bool" where
  "release_id_pattern s \<longleftrightarrow> s \<noteq> [] \<and> length s \<le> 128 \<and> list_all name_char s"

definition compose_service_pattern :: "string \<Rightarrow> bool" where
  "compose_service_pattern = starts_with_then is_alnum name_char 128"

definition compose_path_pattern :: "string \<Rightarrow> bool" where
  "compose_path_pattern = starts_with_then (\<lambda>c. is_alnum c \<or> c = CHR ''.'' \<or> c = CHR ''_'')
     (\<lambda>c. name_char c \<or> c = CHR ''/'') 255"

text \<open>The major version of a schema name; \<open>None\<close> when it is not one.\<close>

definition schema_major :: "string \<Rightarrow> string option" where
  "schema_major s =
     (let rest = drop 17 s; major = takeWhile is_digit rest; more' = drop (length major) rest in
      if take 17 s = ''dokploy.release/v'' \<and> major \<noteq> [] \<and>
        (more' = [] \<or> hd more' = CHR ''.'' \<and> tl more' \<noteq> [] \<and> list_all is_digit (tl more'))
      then Some major else None)"

definition parseImage :: "json \<Rightarrow> string \<Rightarrow> string + manifest_image" where
  "parseImage value where' =
     (if \<not> is_obj value then Inl (where' @ '' must be an object'')
      else case as_string (obj_get value ''name'') compose_service_pattern of
          None \<Rightarrow> Inl (where' @ ''.name is missing or malformed'')
        | Some name \<Rightarrow>
            (case as_string (obj_get value ''composeService'') compose_service_pattern of
               None \<Rightarrow> Inl (where' @ ''.composeService is missing or malformed'')
             | Some composeService \<Rightarrow>
                 (case parsePinnedImage (obj_get value ''ref'') of
                    None \<Rightarrow> Inl (where' @ ''.ref must be <repository>@sha256:<64 hex>; '' @
                      ''an image that is not pinned by digest is never deployed'')
                  | Some pinned \<Rightarrow>
                      if obj_get value ''ref'' \<noteq> Some (J_Str (pin_image pinned))
                      then Inl (where' @ ''.ref must not carry a tag'')
                      else Inr \<lparr>mi_name = name, mi_composeService = composeService, mi_ref = pin_image pinned,
                        mi_repository = pin_repository pinned, mi_digest = pin_digest pinned\<rparr>)))"

definition bad :: "string \<Rightarrow> manifest_error + 'a" where
  "bad message = Inl (Invalid_Manifest, message)"

fun parse_images :: "string \<Rightarrow> nat \<Rightarrow> manifest_image list \<Rightarrow> json list \<Rightarrow> manifest_error + manifest_image list" where
  "parse_images where' i images [] = Inr images"
| "parse_images where' i images (v # vs) =
     (case parseImage v (where' @ ''.images['' @ show_nat i @ '']'') of
        Inl message \<Rightarrow> bad message
      | Inr img \<Rightarrow>
          if list_ex (\<lambda>x. mi_composeService x = mi_composeService img) images
          then bad (where' @ '' has two images for '' @ mi_composeService img)
          else parse_images where' (Suc i) (images @ [img]) vs)"

text \<open>The compose file of a service: \<open>Inr None\<close> when it names none.\<close>

definition parse_compose :: "string \<Rightarrow> json option \<Rightarrow> manifest_error + string option" where
  "parse_compose where' v =
     (if nullish_json v then Inr None
      else case as_string (field (as_object v) ''path'') compose_path_pattern of
          Some path \<Rightarrow> if sublist ''..'' path then bad (where' @ ''.compose.path is malformed'') else Inr (Some path)
        | None \<Rightarrow> bad (where' @ ''.compose.path is malformed''))"

definition parse_service :: "string \<Rightarrow> string list \<Rightarrow> json \<Rightarrow> manifest_error + manifest_service" where
  "parse_service where' keys entry =
     (if \<not> is_obj entry then bad (where' @ '' must be an object'')
      else case as_string (obj_get entry ''key'') valid_key of
          None \<Rightarrow> bad (where' @ ''.key is missing or malformed'')
        | Some key \<Rightarrow>
            if key \<in> set keys then bad (where' @ ''.key '' @ key @ '' appears twice'')
            else if \<not> nullish_json (obj_get entry ''migrations'')
            then Inl (Migrations_Unsupported,
              where' @ '' asks for a migration command; this Dokploy does not run migrations yet'')
            else (case obj_get entry ''images'' of
                Some (J_Arr (v # vs)) \<Rightarrow>
                  (case parse_images where' 0 [] (v # vs) of
                     Inl e \<Rightarrow> Inl e
                   | Inr images \<Rightarrow>
                       (case parse_compose where' (obj_get entry ''compose'') of
                          Inl e \<Rightarrow> Inl e
                        | Inr path \<Rightarrow> Inr \<lparr>ms_key = key, ms_images = images, ms_composePath = path\<rparr>))
              | _ \<Rightarrow> bad (where' @ ''.images must list at least one image'')))"

definition MANIFEST_MAX_IMAGES :: nat where
  "MANIFEST_MAX_IMAGES = 64"

definition image_count :: "manifest_service list \<Rightarrow> nat" where
  "image_count services = sum_list (map (\<lambda>s. length (ms_images s)) services)"

fun parse_services :: "nat \<Rightarrow> manifest_service list \<Rightarrow> json list \<Rightarrow> manifest_error + manifest_service list" where
  "parse_services i services [] = Inr services"
| "parse_services i services (v # vs) =
     (case parse_service (''services['' @ show_nat i @ '']'') (map ms_key services) v of
        Inl e \<Rightarrow> Inl e
      | Inr service \<Rightarrow>
          if MANIFEST_MAX_IMAGES < image_count (services @ [service])
          then bad (''The manifest names more than 64 images'')
          else parse_services (Suc i) (services @ [service]) vs)"

fun parse_keys :: "string list \<Rightarrow> json list \<Rightarrow> manifest_error + string list" where
  "parse_keys found [] = Inr found"
| "parse_keys found (v # vs) =
     (case as_string (Some v) valid_key of
        None \<Rightarrow> bad ''release.services has a malformed key''
      | Some key \<Rightarrow>
          if key \<in> set found then bad (''release.services repeats '' @ key)
          else parse_keys (found @ [key]) vs)"

definition parse_delivery :: "json option \<Rightarrow> delivery option" where
  "parse_delivery v =
     (if v = Some (J_Str ''pull'') then Some Pull else if v = Some (J_Str ''push'') then Some Push else None)"

definition parse_release :: "json \<Rightarrow> manifest_error + string \<times> string list" where
  "parse_release root =
     (case as_string (field (as_object (obj_get root ''release'')) ''id'') release_id_pattern of
        None \<Rightarrow> bad ''release.id is missing or malformed''
      | Some releaseId \<Rightarrow>
          (case field (as_object (obj_get root ''release'')) ''services'' of
             Some (J_Arr (v # vs)) \<Rightarrow> (case parse_keys [] (v # vs) of Inl e \<Rightarrow> Inl e | Inr keys \<Rightarrow> Inr (releaseId, keys))
           | _ \<Rightarrow> bad ''release.services must list at least one key''))"

definition ref_pattern :: "string \<Rightarrow> bool" where
  "ref_pattern s \<longleftrightarrow> prefix ''refs/heads/'' s \<and> length s \<le> 300"

definition parse_source :: "json \<Rightarrow> manifest_error + string \<times> string \<times> int" where
  "parse_source root =
     (let source = as_object (obj_get root ''source'') in
      if field source ''forge'' \<noteq> Some (J_Str ''github'') then bad ''source must name forge github and a branch ref''
      else case as_string (field source ''ref'') ref_pattern of
          None \<Rightarrow> bad ''source must name forge github and a branch ref''
        | Some r \<Rightarrow>
            (case as_string (field source ''runId'') (digits_upto 18) of
               None \<Rightarrow> bad ''source.runId must be a decimal string''
             | Some runId \<Rightarrow>
                 (case field source ''runAttempt'' of
                    Some (J_Num n) \<Rightarrow>
                      if 1 \<le> n \<and> n \<le> max_safe then Inr (r, runId, n)
                      else bad ''source.runAttempt must be a positive integer''
                  | _ \<Rightarrow> bad ''source.runAttempt must be a positive integer'')))"

definition parse_root :: "json \<Rightarrow> string \<Rightarrow> manifest_error + release_manifest" where
  "parse_root root schema =
     (case as_string (obj_get root ''sha'') sha_pattern of
        None \<Rightarrow> bad ''sha must be a 40 character lowercase hex''
      | Some sha \<Rightarrow>
      (case parse_delivery (obj_get root ''delivery'') of
        None \<Rightarrow> bad ''delivery must be \"pull\" or \"push\"''
      | Some del \<Rightarrow>
      (case parse_release root of Inl e \<Rightarrow> Inl e
      | Inr (releaseId, releaseServices) \<Rightarrow>
      (case parse_source root of Inl e \<Rightarrow> Inl e
      | Inr (r, runId, runAttempt) \<Rightarrow>
      (case as_string (obj_get root ''environment'') (\<lambda>s. s \<noteq> [] \<and> length s \<le> 255) of
        None \<Rightarrow> bad ''environment is missing or too long''
      | Some environment \<Rightarrow>
      (case obj_get root ''services'' of
        Some (J_Arr (v # vs)) \<Rightarrow>
          (case parse_services 0 [] (v # vs) of Inl e \<Rightarrow> Inl e
           | Inr services \<Rightarrow>
               if join [newline] (sort releaseServices) \<noteq> join [newline] (sort (map ms_key services))
               then bad ''release.services and services[].key must match''
               else Inr \<lparr>rm_schema = schema, rm_sha = sha, rm_delivery = del, rm_releaseId = releaseId,
                 rm_releaseServices = releaseServices, rm_ref = r, rm_runId = runId, rm_runAttempt = runAttempt,
                 rm_environment = environment, rm_services = services\<rparr>)
      | _ \<Rightarrow> bad ''services must list at least one service''))))))"

definition parse_manifest_json :: "json \<Rightarrow> manifest_error + release_manifest" where
  "parse_manifest_json raw =
     (if \<not> is_obj raw then bad ''The manifest must be a JSON object''
      else case obj_get raw ''schema'' of
          Some (J_Str s) \<Rightarrow>
            if schema_major s \<noteq> Some ''1'' then Inl (Unknown_Schema,
              ''Unsupported manifest schema '' @ take 40 s @ ''; this Dokploy reads dokploy.release/v1'')
            else parse_root raw s
        | _ \<Rightarrow> Inl (Unknown_Schema, ''The manifest has no schema field''))"

definition parseReleaseManifest :: "(unicode \<Rightarrow> json option) \<Rightarrow> unicode \<Rightarrow> manifest_error + release_manifest" where
  "parseReleaseManifest parse_json input =
     (if MANIFEST_MAX_BYTES < int (length (utf8 input)) then bad ''The manifest is larger than 64 KiB''
      else case parse_json input of
          None \<Rightarrow> Inl (Invalid_Json, ''The manifest is not valid JSON'')
        | Some raw \<Rightarrow> parse_manifest_json raw)"

section \<open>What a parsed manifest is\<close>

definition image_ok :: "manifest_image \<Rightarrow> bool" where
  "image_ok x \<longleftrightarrow> mi_ref x = mi_repository x @ ''@'' @ mi_digest x \<and> valid_digest (mi_digest x) \<and>
     valid_repository (mi_repository x)"

definition service_ok :: "manifest_service \<Rightarrow> bool" where
  "service_ok s \<longleftrightarrow> valid_key (ms_key s) \<and> ms_images s \<noteq> [] \<and> list_all image_ok (ms_images s) \<and>
     distinct (map mi_composeService (ms_images s))"

lemma bad_not_Inr [simp]: "bad m \<noteq> Inr x"
  by (simp add: bad_def)

lemma parseImage_ok: "parseImage v w = Inr x \<Longrightarrow> image_ok x"
  by (auto simp: parseImage_def image_ok_def dest!: pinned_form split: option.splits if_splits)

lemma parse_images_ok:
  "parse_images w i images vs = Inr xs \<Longrightarrow> list_all image_ok images \<Longrightarrow> distinct (map mi_composeService images) \<Longrightarrow>
     list_all image_ok xs \<and> distinct (map mi_composeService xs) \<and> length xs = length images + length vs"
proof (induction vs arbitrary: i images)
  case (Cons v vs)
  then obtain x where x: "parseImage v (w @ ''.images['' @ show_nat i @ '']'') = Inr x"
    "\<not> list_ex (\<lambda>y. mi_composeService y = mi_composeService x) images"
    "parse_images w (Suc i) (images @ [x]) vs = Inr xs"
    by (auto split: sum.splits if_splits)
  from x(2) have "distinct (map mi_composeService (images @ [x]))" "list_all image_ok (images @ [x])"
    using Cons.prems(2,3) parseImage_ok [OF x(1)] by (auto simp: list_ex_iff)
  from Cons.IH [OF x(3) this(2,1)] show ?case by simp
qed auto

lemma as_string_Some: "as_string v P = Some s \<Longrightarrow> v = Some (J_Str s) \<and> P s"
  by (auto simp: as_string_def split: option.splits json.splits if_splits)

lemma parse_service_ok: "parse_service w keys entry = Inr s \<Longrightarrow> service_ok s \<and> ms_key s \<notin> set keys"
  by (auto simp: parse_service_def service_ok_def simp del: parse_images.simps dest!: parse_images_ok as_string_Some
      split: option.splits sum.splits json.splits list.splits if_splits)

lemma parse_services_ok:
  "parse_services i services vs = Inr xs \<Longrightarrow> list_all service_ok services \<Longrightarrow> distinct (map ms_key services) \<Longrightarrow>
     image_count services \<le> MANIFEST_MAX_IMAGES \<Longrightarrow>
     list_all service_ok xs \<and> distinct (map ms_key xs) \<and> image_count xs \<le> MANIFEST_MAX_IMAGES"
proof (induction vs arbitrary: i services)
  case (Cons v vs)
  then obtain x where x: "parse_service (''services['' @ show_nat i @ '']'') (map ms_key services) v = Inr x"
    "image_count (services @ [x]) \<le> MANIFEST_MAX_IMAGES" "parse_services (Suc i) (services @ [x]) vs = Inr xs"
    by (auto split: sum.splits if_splits)
  from Cons.IH [OF x(3)] Cons.prems parse_service_ok [OF x(1)] x(2) show ?case by auto
qed auto

lemma parse_manifest_ok:
  assumes "parseReleaseManifest parse_json input = Inr m"
  shows "list_all service_ok (rm_services m) \<and> distinct (map ms_key (rm_services m)) \<and>
    image_count (rm_services m) \<le> MANIFEST_MAX_IMAGES \<and> sha_pattern (rm_sha m)"
proof -
  from assms obtain root schema vs where "as_string (obj_get root ''sha'') sha_pattern = Some (rm_sha m)"
    "parse_services 0 [] vs = Inr (rm_services m)"
    by (auto simp: parseReleaseManifest_def parse_manifest_json_def parse_root_def simp del: parse_services.simps
        split: option.splits sum.splits json.splits list.splits if_splits prod.splits)
  with parse_services_ok [of 0 "[]" vs "rm_services m"] show ?thesis
    by (auto simp: image_count_def MANIFEST_MAX_IMAGES_def dest: as_string_Some)
qed

end
