(* ===== verification/Zip.thy ===== *)
theory Zip
  imports Prelude "HOL-Library.Word"
begin

text \<open>
  \<open>services/gha-connect/zip.ts\<close>: one named entry out of an untrusted zip archive. The archive is a
  list of bytes; a read of a little-endian number outside of it is \<open>None\<close>, the \<open>RangeError\<close> of a
  \<open>Buffer\<close>, so that the properties can say that none ever happens. \<open>inflateRawSync\<close> and \<open>crc32\<close>
  of \<open>node:zlib\<close> are arguments. A file name is compared as its UTF-8 bytes.
\<close>

section \<open>Reads\<close>

type_synonym byte = "8 word"

definition byte_at :: "byte list \<Rightarrow> int \<Rightarrow> byte option" where
  "byte_at buf i = (if 0 \<le> i \<and> i < int (length buf) then Some (buf ! nat i) else None)"

definition readUInt16LE :: "byte list \<Rightarrow> int \<Rightarrow> int option" where
  "readUInt16LE buf i =
     (case (byte_at buf i, byte_at buf (i + 1)) of
        (Some a, Some b) \<Rightarrow> Some (uint a + 256 * uint b)
      | _ \<Rightarrow> None)"

definition readUInt32LE :: "byte list \<Rightarrow> int \<Rightarrow> int option" where
  "readUInt32LE buf i =
     (case (readUInt16LE buf i, readUInt16LE buf (i + 2)) of
        (Some lo, Some hi) \<Rightarrow> Some (lo + 65536 * hi)
      | _ \<Rightarrow> None)"

text \<open>\<open>toString\<close> and \<open>subarray\<close> stop at the end of the buffer.\<close>

definition slice :: "byte list \<Rightarrow> int \<Rightarrow> int \<Rightarrow> byte list" where
  "slice buf start n =
     (if int (length buf) \<le> start then []
      else take (nat (min n (int (length buf) - start))) (drop (nat start) buf))"

section \<open>The reader\<close>

datatype zip_read = Zip_Ok "byte list" | Zip_Refused string

definition EOCD :: int where "EOCD = 0x06054b50"

definition CENTRAL :: int where "CENTRAL = 0x02014b50"

definition LOCAL :: int where "LOCAL = 0x04034b50"

text \<open>The search from the end of the archive, down to \<open>lowest\<close>; the inner \<open>None\<close> is \<open>-1\<close>.\<close>

fun find_eocd :: "byte list \<Rightarrow> int \<Rightarrow> nat \<Rightarrow> nat option option" where
  "find_eocd buf lowest 0 =
     (case readUInt32LE buf 0 of None \<Rightarrow> None | Some v \<Rightarrow> Some (if v = EOCD then Some 0 else None))"
| "find_eocd buf lowest (Suc i) =
     (case readUInt32LE buf (int (Suc i)) of
        None \<Rightarrow> None
      | Some v \<Rightarrow>
          if v = EOCD then Some (Some (Suc i))
          else if int (Suc i) \<le> lowest then Some None
          else find_eocd buf lowest i)"

record zip_codec =
  zc_inflate :: "byte list \<Rightarrow> int \<Rightarrow> byte list option"
  zc_crc32 :: "byte list \<Rightarrow> int"

record zip_entry =
  ze_flags :: int
  ze_method :: int
  ze_crc :: int
  ze_compressed :: int
  ze_size :: int
  ze_nameLength :: int
  ze_extraLength :: int
  ze_commentLength :: int
  ze_localOffset :: int

text \<open>The fixed part of one directory record; \<open>None\<close> is a \<open>RangeError\<close>.\<close>

definition read_central :: "byte list \<Rightarrow> int \<Rightarrow> zip_entry option" where
  "read_central buf pos =
     Option.bind (readUInt16LE buf (pos + 8)) (\<lambda>flags.
     Option.bind (readUInt16LE buf (pos + 10)) (\<lambda>method.
     Option.bind (readUInt32LE buf (pos + 16)) (\<lambda>crc.
     Option.bind (readUInt32LE buf (pos + 20)) (\<lambda>compressed.
     Option.bind (readUInt32LE buf (pos + 24)) (\<lambda>size.
     Option.bind (readUInt16LE buf (pos + 28)) (\<lambda>nameLength.
     Option.bind (readUInt16LE buf (pos + 30)) (\<lambda>extraLength.
     Option.bind (readUInt16LE buf (pos + 32)) (\<lambda>commentLength.
     Option.bind (readUInt32LE buf (pos + 42)) (\<lambda>localOffset.
     Some \<lparr>ze_flags = flags, ze_method = method, ze_crc = crc, ze_compressed = compressed, ze_size = size,
       ze_nameLength = nameLength, ze_extraLength = extraLength, ze_commentLength = commentLength,
       ze_localOffset = localOffset\<rparr>)))))))))"

text \<open>The bytes of the entry, by its method.\<close>

definition unpack :: "zip_codec \<Rightarrow> zip_entry \<Rightarrow> byte list \<Rightarrow> int \<Rightarrow> zip_read" where
  "unpack codec e raw maxBytes =
     (let checked = (\<lambda>bytes.
        if int (length bytes) \<noteq> ze_size e then Zip_Refused ''The entry size does not match''
        else if zc_crc32 codec bytes \<noteq> ze_crc e then Zip_Refused ''The entry checksum does not match''
        else Zip_Ok bytes) in
      if ze_method e = 0 then checked raw
      else if ze_method e = 8 then
        (case zc_inflate codec raw maxBytes of
           None \<Rightarrow> Zip_Refused ''The entry could not be inflated within the size limit''
         | Some bytes \<Rightarrow> checked bytes)
      else Zip_Refused ''The entry uses an unsupported compression method'')"

definition read_local :: "zip_codec \<Rightarrow> byte list \<Rightarrow> byte list \<Rightarrow> int \<Rightarrow> zip_entry \<Rightarrow> zip_read option" where
  "read_local codec buf name maxBytes e =
     (if odd (ze_flags e) then Some (Zip_Refused ''Encrypted entries are not accepted'')
      else if ze_compressed e = 0xffffffff \<or> ze_size e = 0xffffffff
      then Some (Zip_Refused ''zip64 entries are not accepted'')
      else if maxBytes < ze_size e then Some (Zip_Refused ''The entry is larger than allowed'')
      else if int (length buf) < ze_localOffset e + 30 then Some (Zip_Refused ''The entry header is damaged'')
      else Option.bind (readUInt32LE buf (ze_localOffset e)) (\<lambda>sig.
        if sig \<noteq> LOCAL then Some (Zip_Refused ''The entry header is damaged'')
        else Option.bind (readUInt16LE buf (ze_localOffset e + 26)) (\<lambda>localNameLength.
          if slice buf (ze_localOffset e + 30) localNameLength \<noteq> name
          then Some (Zip_Refused ''The entry header names another file'')
          else Option.bind (readUInt16LE buf (ze_localOffset e + 28)) (\<lambda>localExtra.
            let dataStart = ze_localOffset e + 30 + localNameLength + localExtra in
            if int (length buf) < dataStart + ze_compressed e then Some (Zip_Refused ''The entry data is out of range'')
            else Some (unpack codec e (slice buf dataStart (ze_compressed e)) maxBytes)))))"

text \<open>The walk over the directory: \<open>n\<close> records are left, the next one is at \<open>pos\<close>.\<close>

fun walk_directory :: "zip_codec \<Rightarrow> byte list \<Rightarrow> byte list \<Rightarrow> int \<Rightarrow> nat \<Rightarrow> int \<Rightarrow> zip_read option" where
  "walk_directory codec buf name maxBytes 0 pos = 
     Some (Zip_Refused (''The archive has no entry named '' @ map (\<lambda>b. char_of (unat b)) name))"
| "walk_directory codec buf name maxBytes (Suc n) pos =
     (if int (length buf) < pos + 46 then Some (Zip_Refused ''The directory is damaged'')
      else Option.bind (readUInt32LE buf pos) (\<lambda>sig.
        if sig \<noteq> CENTRAL then Some (Zip_Refused ''The directory is damaged'')
        else Option.bind (read_central buf pos) (\<lambda>e.
          if slice buf (pos + 46) (ze_nameLength e) \<noteq> name
          then walk_directory codec buf name maxBytes n
            (pos + (46 + ze_nameLength e + ze_extraLength e + ze_commentLength e))
          else read_local codec buf name maxBytes e)))"

definition readZipEntry :: "zip_codec \<Rightarrow> byte list \<Rightarrow> byte list \<Rightarrow> int \<Rightarrow> zip_read option" where
  "readZipEntry codec buf name maxBytes =
     (if length buf < 22 then Some (Zip_Refused ''The archive is too small to be a zip'')
      else Option.bind (find_eocd buf (max 0 (int (length buf) - 22 - 0xffff)) (length buf - 22)) (\<lambda>found. case found of
          None \<Rightarrow> Some (Zip_Refused ''The archive has no end-of-directory record'')
        | Some place \<Rightarrow>
            let eocd = int place in
            Option.bind (readUInt16LE buf (eocd + 10)) (\<lambda>entries.
            Option.bind (readUInt32LE buf (eocd + 12)) (\<lambda>directorySize.
            Option.bind (readUInt32LE buf (eocd + 16)) (\<lambda>pos.
            if entries = 0xffff \<or> directorySize = 0xffffffff \<or> pos = 0xffffffff
            then Some (Zip_Refused ''zip64 archives are not accepted'')
            else if eocd < pos + directorySize then Some (Zip_Refused ''The directory is out of range'')
            else walk_directory codec buf name maxBytes (nat entries) pos)))))"

section \<open>Facts\<close>

lemma read16_in: "0 \<le> i \<Longrightarrow> i + 2 \<le> int (length buf) \<Longrightarrow> \<exists>v. readUInt16LE buf i = Some v"
  by (simp add: readUInt16LE_def byte_at_def)

lemma read32_in: "0 \<le> i \<Longrightarrow> i + 4 \<le> int (length buf) \<Longrightarrow> \<exists>v. readUInt32LE buf i = Some v"
  using read16_in [of i buf] read16_in [of "i + 2" buf] by (auto simp: readUInt32LE_def)

lemma read16_nonneg: "readUInt16LE buf i = Some v \<Longrightarrow> 0 \<le> v"
  by (auto simp: readUInt16LE_def split: option.splits)

lemma read32_nonneg: "readUInt32LE buf i = Some v \<Longrightarrow> 0 \<le> v"
  by (auto simp: readUInt32LE_def split: option.splits dest!: read16_nonneg)

lemma read_central_in:
  assumes "0 \<le> pos" and "pos + 46 \<le> int (length buf)"
  shows "\<exists>e. read_central buf pos = Some e"
proof -
  have "\<exists>v. readUInt16LE buf (pos + 8) = Some v" "\<exists>v. readUInt16LE buf (pos + 10) = Some v"
    "\<exists>v. readUInt32LE buf (pos + 16) = Some v" "\<exists>v. readUInt32LE buf (pos + 20) = Some v"
    "\<exists>v. readUInt32LE buf (pos + 24) = Some v" "\<exists>v. readUInt16LE buf (pos + 28) = Some v"
    "\<exists>v. readUInt16LE buf (pos + 30) = Some v" "\<exists>v. readUInt16LE buf (pos + 32) = Some v"
    "\<exists>v. readUInt32LE buf (pos + 42) = Some v"
    using assms by (auto intro!: read16_in read32_in)
  then show ?thesis by (auto simp: read_central_def)
qed

lemma read_central_nonneg:
  "read_central buf pos = Some e \<Longrightarrow>
     0 \<le> ze_nameLength e \<and> 0 \<le> ze_extraLength e \<and> 0 \<le> ze_commentLength e \<and> 0 \<le> ze_localOffset e"
  by (auto simp: read_central_def bind_eq_Some_conv dest!: read16_nonneg read32_nonneg)

lemma find_eocd_in:
  "i + 22 \<le> length buf \<Longrightarrow> \<exists>r. find_eocd buf lowest i = Some r \<and> (\<forall>j. r = Some j \<longrightarrow> j \<le> i)"
proof (induction i)
  case 0
  with read32_in [of 0 buf] show ?case by auto
next
  case (Suc i)
  with read32_in [of "int (Suc i)" buf] show ?case by auto
qed

lemma read_local_in: "0 \<le> ze_localOffset e \<Longrightarrow> \<exists>r. read_local codec buf name maxBytes e = Some r"
proof (cases "int (length buf) < ze_localOffset e + 30")
  case False
  assume "0 \<le> ze_localOffset e"
  with False have "\<exists>v. readUInt32LE buf (ze_localOffset e) = Some v" "\<exists>v. readUInt16LE buf (ze_localOffset e + 26) = Some v"
    "\<exists>v. readUInt16LE buf (ze_localOffset e + 28) = Some v"
    by (auto intro!: read16_in read32_in)
  then show ?thesis by (auto simp: read_local_def Let_def)
qed (auto simp: read_local_def)

lemma walk_in: "0 \<le> pos \<Longrightarrow> \<exists>r. walk_directory codec buf name maxBytes n pos = Some r"
proof (induction n arbitrary: pos)
  case (Suc n)
  show ?case
  proof (cases "int (length buf) < pos + 46")
    case False
    with Suc.prems obtain v e where v: "readUInt32LE buf pos = Some v" and e: "read_central buf pos = Some e"
      using read32_in [of pos buf] read_central_in [of pos buf] by auto
    from read_central_nonneg [OF e] Suc.prems
    have "0 \<le> pos + (46 + ze_nameLength e + ze_extraLength e + ze_commentLength e)" by simp
    from Suc.IH [OF this] read_local_in [of e codec buf name maxBytes] read_central_nonneg [OF e] False v e
    show ?thesis by auto
  qed simp
qed simp

text \<open>What was found: where the header and the data of the entry lie.\<close>

definition entry_in :: "zip_codec \<Rightarrow> byte list \<Rightarrow> byte list \<Rightarrow> int \<Rightarrow> byte list \<Rightarrow> bool" where
  "entry_in codec buf name maxBytes bytes \<longleftrightarrow>
     (\<exists>pos e start. pos + 46 \<le> int (length buf) \<and> readUInt32LE buf pos = Some CENTRAL \<and> read_central buf pos = Some e \<and>
        slice buf (pos + 46) (ze_nameLength e) = name \<and> even (ze_flags e) \<and>
        readUInt32LE buf (ze_localOffset e) = Some LOCAL \<and>
        ze_localOffset e + 30 \<le> start \<and> start + ze_compressed e \<le> int (length buf) \<and>
        (ze_method e = 0 \<and> bytes = slice buf start (ze_compressed e) \<or>
         ze_method e = 8 \<and> zc_inflate codec (slice buf start (ze_compressed e)) maxBytes = Some bytes) \<and>
        int (length bytes) = ze_size e \<and> int (length bytes) \<le> maxBytes \<and> zc_crc32 codec bytes = ze_crc e)"

lemma unpack_Ok:
  "unpack codec e raw maxBytes = Zip_Ok bytes \<Longrightarrow>
     int (length bytes) = ze_size e \<and> zc_crc32 codec bytes = ze_crc e \<and>
     (ze_method e = 0 \<and> bytes = raw \<or> ze_method e = 8 \<and> zc_inflate codec raw maxBytes = Some bytes)"
  by (auto simp: unpack_def Let_def split: if_splits option.splits)

lemma read_local_Ok:
  assumes "read_local codec buf name maxBytes e = Some (Zip_Ok bytes)"
  shows "even (ze_flags e) \<and> readUInt32LE buf (ze_localOffset e) = Some LOCAL \<and> ze_size e \<le> maxBytes \<and>
    (\<exists>start. ze_localOffset e + 30 \<le> start \<and> start + ze_compressed e \<le> int (length buf) \<and>
      unpack codec e (slice buf start (ze_compressed e)) maxBytes = Zip_Ok bytes)"
proof -
  from assms obtain n x where nx: "readUInt16LE buf (ze_localOffset e + 26) = Some n" "readUInt16LE buf (ze_localOffset e + 28) = Some x"
    and "even (ze_flags e)" "readUInt32LE buf (ze_localOffset e) = Some LOCAL" "ze_size e \<le> maxBytes"
    "ze_localOffset e + 30 + n + x + ze_compressed e \<le> int (length buf)"
    "unpack codec e (slice buf (ze_localOffset e + 30 + n + x) (ze_compressed e)) maxBytes = Zip_Ok bytes"
    by (auto simp: read_local_def Let_def bind_eq_Some_conv not_less split: if_splits)
  moreover from nx have "0 \<le> n" "0 \<le> x" by (auto dest: read16_nonneg)
  ultimately show ?thesis by (intro conjI exI [of _ "ze_localOffset e + 30 + n + x"]) auto
qed

lemma walk_Ok:
  assumes "walk_directory codec buf name maxBytes n pos = Some (Zip_Ok bytes)"
  shows "entry_in codec buf name maxBytes bytes"
  using assms
proof (induction n arbitrary: pos)
  case (Suc n)
  from Suc.prems obtain e where in_buf: "pos + 46 \<le> int (length buf)"
    and e: "readUInt32LE buf pos = Some CENTRAL" "read_central buf pos = Some e"
    by (auto simp: bind_eq_Some_conv split: if_splits)
  show ?case
  proof (cases "slice buf (pos + 46) (ze_nameLength e) = name")
    case True
    with Suc.prems in_buf e have "read_local codec buf name maxBytes e = Some (Zip_Ok bytes)" by simp
    from read_local_Ok [OF this] obtain start where "even (ze_flags e)" "readUInt32LE buf (ze_localOffset e) = Some LOCAL"
      "ze_size e \<le> maxBytes" "ze_localOffset e + 30 \<le> start" "start + ze_compressed e \<le> int (length buf)"
      and u: "unpack codec e (slice buf start (ze_compressed e)) maxBytes = Zip_Ok bytes" by blast
    with unpack_Ok [OF u] in_buf e True show ?thesis
      unfolding entry_in_def by (intro exI [of _ pos] exI [of _ e] exI [of _ start]) simp
  next
    case False
    with Suc.prems in_buf e have "walk_directory codec buf name maxBytes n
        (pos + (46 + ze_nameLength e + ze_extraLength e + ze_commentLength e)) = Some (Zip_Ok bytes)" by simp
    then show ?thesis by (rule Suc.IH)
  qed
qed simp

lemma zip_read_ok:
  "\<exists>r. readZipEntry codec buf name maxBytes = Some r \<and>
     (case r of Zip_Refused reason \<Rightarrow> True | Zip_Ok bytes \<Rightarrow> entry_in codec buf name maxBytes bytes)"
proof -
  have walk: "\<exists>r. walk_directory codec buf name maxBytes n pos = Some r \<and>
     (case r of Zip_Refused reason \<Rightarrow> True | Zip_Ok bytes \<Rightarrow> entry_in codec buf name maxBytes bytes)"
    if "0 \<le> pos" for n pos
    using walk_in [OF that, of codec buf name maxBytes n] walk_Ok by (auto split: zip_read.splits)
  show ?thesis
  proof (cases "length buf < 22")
    case False
    then obtain r where r: "find_eocd buf (max 0 (int (length buf) - 22 - 0xffff)) (length buf - 22) = Some r"
      and le: "\<And>j. r = Some j \<Longrightarrow> j \<le> length buf - 22"
      using find_eocd_in [of "length buf - 22" buf] by auto
    show ?thesis
    proof (cases r)
      case (Some eocd)
      with le False have in_buf: "int eocd + 22 \<le> int (length buf)" by fastforce
      then obtain entries size pos where "readUInt16LE buf (int eocd + 10) = Some entries"
        "readUInt32LE buf (int eocd + 12) = Some size" and pos: "readUInt32LE buf (int eocd + 16) = Some pos"
        using read16_in [of "int eocd + 10" buf] read32_in [of "int eocd + 12" buf] read32_in [of "int eocd + 16" buf] by auto
      with r Some False have "readZipEntry codec buf name maxBytes =
          (if entries = 0xffff \<or> size = 0xffffffff \<or> pos = 0xffffffff
           then Some (Zip_Refused ''zip64 archives are not accepted'')
           else if int eocd < pos + size then Some (Zip_Refused ''The directory is out of range'')
           else walk_directory codec buf name maxBytes (nat entries) pos)"
        by (simp add: readZipEntry_def Let_def)
      then show ?thesis using walk [OF read32_nonneg [OF pos], of "nat entries"] by (simp split: if_splits)
    qed (use r False in \<open>simp add: readZipEntry_def\<close>)
  qed (simp add: readZipEntry_def)
qed

text \<open>
  C36. Whatever bytes an archive holds, reading an entry never reads outside of it: no read of a
  number throws, the search for the directory and the walk over it end, and the answer is either a
  refusal or the bytes of an entry with exactly the name asked for, whose header and data lie in the
  archive, which is not encrypted, no larger than allowed, and matches its size and checksum.
\<close>

theorem zip_read_in_bounds:
  "\<exists>r. readZipEntry codec buf name maxBytes = Some r \<and>
     (case r of Zip_Refused reason \<Rightarrow> True | Zip_Ok bytes \<Rightarrow> entry_in codec buf name maxBytes bytes)"
  by (rule zip_read_ok)

text \<open>An archive as a zip writer stores it, and what the reader makes of it.\<close>

definition put16 :: "int \<Rightarrow> byte list" where
  "put16 n = [word_of_int n, word_of_int (n div 256)]"

definition put32 :: "int \<Rightarrow> byte list" where
  "put32 n = put16 n @ put16 (n div 65536)"

definition stored_zip :: "byte list \<Rightarrow> byte list \<Rightarrow> int \<Rightarrow> byte list" where
  "stored_zip name data crc =
     (let size = int (length data);
          fixed = put16 20 @ put16 0 @ put16 0 @ put32 0 @ put32 crc @ put32 size @ put32 size @
            put16 (int (length name)) @ put16 0;
          front = put32 LOCAL @ fixed @ name @ data;
          central = put32 CENTRAL @ put16 20 @ fixed @ put16 0 @ put16 0 @ put16 0 @ put32 0 @ put32 0 @ name in
      front @ central @ put32 EOCD @ put16 0 @ put16 0 @ put16 1 @ put16 1 @ put32 (int (length central)) @
        put32 (int (length front)) @ put16 0)"

lemma stored_zip_read_back:
  "readZipEntry \<lparr>zc_inflate = (\<lambda>raw n. None), zc_crc32 = (\<lambda>bytes. 77)\<rparr> (stored_zip [97, 98] [1, 2, 3] 77) [97, 98] 10 =
     Some (Zip_Ok [1, 2, 3])"
  "readZipEntry \<lparr>zc_inflate = (\<lambda>raw n. None), zc_crc32 = (\<lambda>bytes. 77)\<rparr> (stored_zip [97, 98] [1, 2, 3] 76) [97, 98] 10 =
     Some (Zip_Refused ''The entry checksum does not match'')"
  by code_simp+

end
