(* ===== verification/Acceptance.thy ===== *)
theory Acceptance
  imports Manifest Zip Gate_Step
begin

text \<open>
  Should Dokploy deploy what GitHub says was released? \<open>services/gha-connect/acceptance.ts\<close>: the six
  rules, in order, over a run attempt. GitHub (\<open>ActionsApi\<close>), the registry (\<open>RegistryProbe\<close>), the
  clock, \<open>JSON.parse\<close>, the platform's decoding of UTF-8 and \<open>node:zlib\<close> are arguments; the code
  writes nothing, so their answers are functions. A date is the time it parses to, \<open>None\<close> when it is
  absent or does not parse.
\<close>

section \<open>What is read\<close>

type_synonym 'a api_result = "api_failure + 'a"

record run_info =
  ru_id :: int
  ru_path :: string
  ru_headBranch :: "string option"
  ru_headSha :: string
  ru_event :: string
  ru_status :: string
  ru_conclusion :: "string option"
  ru_repositoryId :: "int option"
  ru_headRepositoryId :: "int option"
  ru_htmlUrl :: string
  ru_updatedAt :: "int option"

record artifact_info =
  ar_id :: int
  ar_name :: string
  ar_expired :: bool
  ar_sizeInBytes :: int
  ar_workflowRunId :: "int option"
  ar_workflowRunRepositoryId :: "int option"
  ar_workflowRunHeadRepositoryId :: "int option"

record actions_api =
  aa_branchHead :: "string \<Rightarrow> string api_result"
  aa_runAttempt :: "int \<Rightarrow> int \<Rightarrow> run_info api_result"
  aa_artifacts :: "int \<Rightarrow> string \<Rightarrow> artifact_info list api_result"
  aa_downloadArtifact :: "int \<Rightarrow> int \<Rightarrow> byte list api_result"
  aa_runJobs :: "int \<Rightarrow> int \<Rightarrow> job_info list api_result"
  aa_jobLog :: "int \<Rightarrow> int \<Rightarrow> unicode api_result"
  aa_compare :: "string \<Rightarrow> string \<Rightarrow> compare_status api_result"
  aa_environmentPolicy :: "string \<Rightarrow> environment_policy api_result"

datatype probe_result =
    Probe_Ok "string option"
  | Probe_Not_Found
  | Probe_Unreachable int
  | Probe_Denied int string

record accept_env =
  ae_api :: actions_api
  ae_probe :: "string \<Rightarrow> string \<Rightarrow> string \<Rightarrow> probe_result"
  ae_now :: int
  ae_json :: "unicode \<Rightarrow> json option"
  ae_text :: "byte list \<Rightarrow> unicode"
  ae_codec :: zip_codec

record connection_facts =
  cf_repoId :: int
  cf_workflowPath :: string
  cf_trackedBranch :: string
  cf_environment :: string
  cf_serviceKey :: string
  cf_owner :: string
  cf_repo :: string
  cf_protectionMode :: protection_mode
  cf_registryPrefix :: "string option"
  cf_registryProbeHost :: "string option"
  cf_deployed :: "release_stamp option"
  cf_currentRepositories :: "string list"
  cf_allowBehind :: bool
  cf_releaseJobName :: "string option"

record accepted_release =
  al_runId :: int
  al_runAttempt :: int
  al_runUrl :: string
  al_sha :: string
  al_releaseId :: string
  al_delivery :: delivery
  al_environment :: string
  al_serviceKey :: string
  al_images :: "manifest_image list"
  al_composePath :: "string option"
  al_releaseServices :: "string list"
  al_canonical :: "(string \<times> string) list"
  al_runEndedAt :: "int option"
  al_manifestSource :: manifest_source

section \<open>Answers\<close>

text \<open>\<open>Acc_Throws\<close> is a throw of the ordering rule or a \<open>RangeError\<close>; it never happens.\<close>

datatype acceptance_result =
    Acc_Pending string
  | Acc_Retry api_failure
  | Acc_Ignored string
  | Acc_Refused refusal_code string bool bool
  | Acc_Superseded string
  | Acc_Noop accepted_release
  | Acc_Accepted accepted_release
  | Acc_Throws

definition blocking :: "refusal_code \<Rightarrow> bool" where
  "blocking code' \<longleftrightarrow> code' \<in> {Manifest_Invalid, Manifest_Schema, Manifest_Migrations, Manifest_Binding, Image_Namespace,
     Image_Repository, Image_Unverified, Policy_Wider, Policy_Unreadable}"

definition refuse_with :: "refusal_code \<Rightarrow> string \<Rightarrow> bool \<Rightarrow> acceptance_result" where
  "refuse_with code' message recheck = Acc_Refused code' message (blocking code') recheck"

definition refuse :: "refusal_code \<Rightarrow> string \<Rightarrow> acceptance_result" where
  "refuse code' message = refuse_with code' message (code' = Policy_Wider \<or> code' = Policy_Unreadable)"

definition needs :: "'a api_result \<Rightarrow> acceptance_result \<Rightarrow> acceptance_result + 'a" where
  "needs r onMissing = (case r of Inr x \<Rightarrow> Inr x
     | Inl f \<Rightarrow> Inl (if f = Api_Not_Found then onMissing else Acc_Retry f))"

definition digestsOf :: "manifest_image list \<Rightarrow> string list" where
  "digestsOf images = sort (map mi_digest images)"

section \<open>Rule 1: the run\<close>

definition if_empty :: "string \<Rightarrow> string \<Rightarrow> string" where
  "if_empty s t = (if s = [] then t else s)"

definition rule_run :: "accept_env \<Rightarrow> connection_facts \<Rightarrow> int \<Rightarrow> int \<Rightarrow> acceptance_result + run_info" where
  "rule_run e c runId runAttempt =
     (case needs (aa_runAttempt (ae_api e) runId runAttempt) (refuse Run_Missing ''GitHub has no such run attempt'') of
        Inl r \<Rightarrow> Inl r
      | Inr run \<Rightarrow>
          if ru_path run \<noteq> cf_workflowPath c
          then Inl (refuse Run_Path (''The run belongs to '' @ if_empty (ru_path run) ''another workflow''))
          else if ru_headBranch run \<noteq> Some (cf_trackedBranch c)
          then Inl (refuse Run_Branch ''The run is not on the tracked branch'')
          else if ru_event run \<noteq> ''push'' \<and> ru_event run \<noteq> ''workflow_dispatch''
          then Inl (refuse Run_Event (''A '' @ if_empty (ru_event run) ''unknown'' @ '' run is never released''))
          else if ru_repositoryId run \<noteq> Some (cf_repoId c) \<or> ru_headRepositoryId run \<noteq> Some (cf_repoId c)
          then Inl (refuse Run_Repository ''The run comes from another repository'')
          else if ru_status run \<noteq> ''completed'' then Inl (Acc_Pending (''The run is '' @ ru_status run))
          else if ru_conclusion run \<noteq> Some ''success''
          then Inl (refuse Run_Failed (''The run concluded '' @
            (case ru_conclusion run of None \<Rightarrow> ''without a result'' | Some x \<Rightarrow> x)))
          else Inr run)"

section \<open>Rule 2: where the manifest is read\<close>

datatype manifest_read = Read_Text unicode | No_Manifest acceptance_result bool

definition artifact_name :: string where
  "artifact_name = ''dokploy-release''"

definition unavailable :: "refusal_code \<Rightarrow> string \<Rightarrow> manifest_read" where
  "unavailable code' message = No_Manifest (refuse code' message) True"

fun falls_back :: "api_failure \<Rightarrow> bool" where
  "falls_back (Api_Rate_Limited t) = False"
| "falls_back Api_Unauthorized = False"
| "falls_back _ = True"

definition transient :: "api_failure \<Rightarrow> manifest_read" where
  "transient f = No_Manifest (Acc_Retry f) (falls_back f)"

definition newest_artifact :: "artifact_info list \<Rightarrow> artifact_info option" where
  "newest_artifact as =
     (case sort_key (\<lambda>a. - ar_id a) (filter (\<lambda>a. ar_name a = artifact_name) as) of [] \<Rightarrow> None | a # _ \<Rightarrow> Some a)"

definition entry_name :: "byte list" where
  "entry_name = map (\<lambda>ch. word_of_nat (code ch)) (artifact_name @ ''.json'')"

text \<open>\<open>None\<close> is a \<open>RangeError\<close> of the zip reader.\<close>

definition read_zip_text :: "accept_env \<Rightarrow> byte list \<Rightarrow> manifest_read option" where
  "read_zip_text e bytes =
     (case readZipEntry (ae_codec e) bytes entry_name MANIFEST_MAX_BYTES of
        None \<Rightarrow> None
      | Some (Zip_Refused reason) \<Rightarrow> Some (unavailable Artifact_Unreadable reason)
      | Some (Zip_Ok entry) \<Rightarrow> Some (Read_Text (ae_text e entry)))"

definition readArtifactManifest :: "accept_env \<Rightarrow> connection_facts \<Rightarrow> int \<Rightarrow> manifest_read option" where
  "readArtifactManifest e c runId =
     (case aa_artifacts (ae_api e) runId artifact_name of
        Inl f \<Rightarrow> Some (if f = Api_Not_Found then unavailable Artifact_Missing ''The run has no release artifact''
          else transient f)
      | Inr listing \<Rightarrow>
          (case newest_artifact listing of
             None \<Rightarrow> Some (unavailable Artifact_Missing ''The run has no release artifact'')
           | Some a \<Rightarrow>
               if ar_expired a then Some (unavailable Artifact_Expired ''The release artifact has expired'')
               else if ar_workflowRunId a \<noteq> Some runId \<or> ar_workflowRunRepositoryId a \<noteq> Some (cf_repoId c) \<or>
                 ar_workflowRunHeadRepositoryId a \<noteq> Some (cf_repoId c)
               then Some (No_Manifest (refuse Artifact_Binding
                 ''The release artifact was not uploaded by this run of this repository'') False)
               else if 2 * MANIFEST_MAX_BYTES < ar_sizeInBytes a
               then Some (unavailable Artifact_Unreadable ''The release artifact is too large'')
               else (case aa_downloadArtifact (ae_api e) (ar_id a) (2 * MANIFEST_MAX_BYTES) of
                   Inl f \<Rightarrow> Some (if f = Api_Not_Found then unavailable Artifact_Expired ''The release artifact is gone''
                     else transient f)
                 | Inr bytes \<Rightarrow> read_zip_text e bytes)))"

datatype log_read = Log_Found unicode | Log_Absent bool | Log_Result acceptance_result

text \<open>One group of jobs, read whole: the logs, whether some log is missing, and the budget that is left.\<close>

fun read_logs ::
  "accept_env \<Rightarrow> nat \<Rightarrow> bool \<Rightarrow> unicode list \<Rightarrow> job_info list \<Rightarrow> acceptance_result + unicode list \<times> bool \<times> nat" where
  "read_logs e budget incomplete logs [] = Inr (logs, incomplete, budget)"
| "read_logs e 0 incomplete logs (j # js) = Inr (logs, True, 0)"
| "read_logs e (Suc budget) incomplete logs (j # js) =
     (case aa_jobLog (ae_api e) (ji_id j) (16 * 1024 * 1024) of
        Inr log \<Rightarrow> read_logs e budget incomplete (logs @ [log]) js
      | Inl f \<Rightarrow>
          if f = Api_Error 413 then read_logs e budget incomplete logs js
          else if f = Api_Not_Found then read_logs e budget True logs js
          else Inl (Acc_Retry f))"

definition masked_text :: string where
  "masked_text = ''The runner masked part of the manifest in the job log: a repository, environment or organization secret has a value that appears in it. '' @
     ''That includes a short secret (a port, a PIN, a word) that happens to occur in the encoded text. '' @
     ''Move values that are image digests, registry hosts, repository names or service keys out of secrets, and avoid very short secrets (keep only real credentials there), then run the release again.''"

definition log_verdict :: "log_failure \<Rightarrow> log_read option" where
  "log_verdict f = (case f of Log_None \<Rightarrow> None
     | Log_Masked \<Rightarrow> Some (Log_Result (refuse Manifest_Masked masked_text))
     | Log_Invalid \<Rightarrow> Some (Log_Result (refuse Manifest_Invalid ''A manifest marker line of the job log is not a valid payload''))
     | Log_Ambiguous \<Rightarrow> Some (Log_Result (refuse Manifest_Invalid ''The job log carries more than one manifest'')))"

text \<open>The groups one after the other; the first that holds a marker decides.\<close>

fun read_groups :: "accept_env \<Rightarrow> nat \<Rightarrow> bool \<Rightarrow> job_info list list \<Rightarrow> log_read" where
  "read_groups e budget incomplete [] = Log_Absent incomplete"
| "read_groups e budget incomplete (g # gs) =
     (case read_logs e budget incomplete [] g of
        Inl r \<Rightarrow> Log_Result r
      | Inr (logs, incomplete', budget') \<Rightarrow>
          (case extractLogManifest logs of
             Inr t \<Rightarrow> Log_Found t
           | Inl f \<Rightarrow> (case log_verdict f of Some r \<Rightarrow> r | None \<Rightarrow> read_groups e budget' incomplete' gs)))"

definition readJobLogManifest ::
  "accept_env \<Rightarrow> connection_facts \<Rightarrow> run_info \<Rightarrow> int \<Rightarrow> job_hint option \<Rightarrow> log_read" where
  "readJobLogManifest e c run runAttempt hint =
     (case aa_runJobs (ae_api e) (ru_id run) runAttempt of
        Inl f \<Rightarrow> if f = Api_Not_Found then Log_Absent True else Log_Result (Acc_Retry f)
      | Inr jobs \<Rightarrow>
          let j = releaseJobs jobs (ru_id run) runAttempt (ru_headSha run) (cf_releaseJobName c) hint in
          read_groups e MAX_LOG_JOBS (rj_preferred j @ rj_rest j = [] \<or> rj_overCap j) [rj_preferred j, rj_rest j])"

definition LOG_GRACE_MS :: int where
  "LOG_GRACE_MS = 600000"

text \<open>The manifest of the log, or what is answered instead of it.\<close>

definition manifest_from_log ::
  "accept_env \<Rightarrow> connection_facts \<Rightarrow> run_info \<Rightarrow> int \<Rightarrow> job_hint option \<Rightarrow> acceptance_result \<Rightarrow>
   acceptance_result + manifest_error + release_manifest" where
  "manifest_from_log e c run runAttempt hint instead =
     (case readJobLogManifest e c run runAttempt hint of
        Log_Found t \<Rightarrow> Inr (parseReleaseManifest (ae_json e) t)
      | Log_Result r \<Rightarrow> Inl r
      | Log_Absent incomplete \<Rightarrow>
          if (case ru_updatedAt run of None \<Rightarrow> False | Some t \<Rightarrow> ae_now e - t < LOG_GRACE_MS)
          then Inl (Acc_Retry (Api_Error 404))
          else (case instead of
              Acc_Refused code' message block recheck \<Rightarrow>
                Inl (if incomplete then refuse_with code' message True else instead)
            | _ \<Rightarrow> Inl instead))"

text \<open>The artifact of an older attempt is left behind by a re-run whose upload failed.\<close>

definition older_attempt :: "manifest_error + release_manifest \<Rightarrow> int \<Rightarrow> int \<Rightarrow> int option" where
  "older_attempt parsed runId runAttempt = (case parsed of
       Inr m \<Rightarrow> if rm_runId m = show_int runId \<and> rm_runAttempt m < runAttempt then Some (rm_runAttempt m) else None
     | Inl e \<Rightarrow> None)"

definition rule_source ::
  "accept_env \<Rightarrow> connection_facts \<Rightarrow> run_info \<Rightarrow> int \<Rightarrow> int \<Rightarrow> job_hint option \<Rightarrow>
   acceptance_result + (manifest_error + release_manifest) \<times> manifest_source" where
  "rule_source e c run runId runAttempt hint =
     (let from_log = (\<lambda>instead. map_sum id (\<lambda>p. (p, From_Job_Log)) (manifest_from_log e c run runAttempt hint instead)) in
      case readArtifactManifest e c runId of
        None \<Rightarrow> Inl Acc_Throws
      | Some (Read_Text t) \<Rightarrow>
          let parsed = parseReleaseManifest (ae_json e) t in
          (case older_attempt parsed runId runAttempt of
             Some n \<Rightarrow> from_log (refuse Artifact_Binding (''The release artifact is from attempt '' @ show_int n @
               '' of this run, not attempt '' @ show_int runAttempt))
           | None \<Rightarrow> Inr (parsed, From_Artifact))
      | Some (No_Manifest r fallback) \<Rightarrow> if \<not> fallback then Inl r else from_log r)"

section \<open>Rule 3: the manifest describes this run\<close>

definition parse_refusal :: "manifest_error \<Rightarrow> acceptance_result" where
  "parse_refusal err = (case err of (kind, message) \<Rightarrow>
     refuse (if kind = Unknown_Schema then Manifest_Schema
       else if kind = Migrations_Unsupported then Manifest_Migrations else Manifest_Invalid) message)"

definition rule_manifest ::
  "connection_facts \<Rightarrow> run_info \<Rightarrow> int \<Rightarrow> int \<Rightarrow> manifest_error + release_manifest \<Rightarrow>
   acceptance_result + release_manifest \<times> manifest_service" where
  "rule_manifest c run runId runAttempt parsed =
     (case parsed of
        Inl err \<Rightarrow> Inl (parse_refusal err)
      | Inr m \<Rightarrow>
          if rm_runId m = show_int runId \<and> runAttempt < rm_runAttempt m
          then Inl (Acc_Superseded (''Attempt '' @ show_int (rm_runAttempt m) @ '' of this run replaced attempt '' @ show_int runAttempt))
          else if rm_sha m \<noteq> ru_headSha run \<or> rm_runId m \<noteq> show_int runId \<or> rm_runAttempt m \<noteq> runAttempt \<or>
            rm_ref m \<noteq> ''refs/heads/'' @ cf_trackedBranch c \<or> rm_environment m \<noteq> cf_environment c
          then Inl (refuse Manifest_Binding ''The manifest does not describe this run, commit, branch and environment'')
          else (case List.find (\<lambda>x. ms_key x = cf_serviceKey c) (rm_services m) of
              None \<Rightarrow> Inl (Acc_Ignored (''The release does not include '' @ cf_serviceKey c))
            | Some service \<Rightarrow> Inr (m, service)))"

section \<open>Rule 4: the images\<close>

definition namespaces_of :: "connection_facts \<Rightarrow> string list" where
  "namespaces_of c = allowedNamespaces (cf_owner c) (cf_repo c) (cf_registryPrefix c)"

definition image_allowed :: "connection_facts \<Rightarrow> manifest_image \<Rightarrow> (refusal_code \<times> string) option" where
  "image_allowed c x = checkImageRepository (mi_repository x) (namespaces_of c) (cf_currentRepositories c)"

fun first_refusal :: "('a \<Rightarrow> acceptance_result option) \<Rightarrow> 'a list \<Rightarrow> acceptance_result option" where
  "first_refusal f [] = None"
| "first_refusal f (x # xs) = (case f x of None \<Rightarrow> first_refusal f xs | Some r \<Rightarrow> Some r)"

definition canonical_of :: "connection_facts \<Rightarrow> manifest_image \<Rightarrow> string option" where
  "canonical_of c x = canonicalRepository (mi_repository x) (cf_owner c) (cf_registryPrefix c)"

definition probe_host :: "connection_facts \<Rightarrow> manifest_image \<Rightarrow> string \<Rightarrow> string" where
  "probe_host c x host = (if truthy (cf_registryProbeHost c) \<and> truthy (canonical_of c x) then the (cf_registryProbeHost c) else host)"

definition ref_start :: "manifest_image \<Rightarrow> string" where
  "ref_start x = mi_repository x @ ''@'' @ take 19 (mi_digest x)"

definition image_served :: "accept_env \<Rightarrow> connection_facts \<Rightarrow> manifest_image \<Rightarrow> acceptance_result option" where
  "image_served e c x =
     (case splitRepository (mi_repository x) of
        None \<Rightarrow> Some (refuse Image_Namespace (mi_repository x @ '' has no registry host''))
      | Some (host, name) \<Rightarrow>
          (case ae_probe e (probe_host c x host) name (mi_digest x) of
             Probe_Unreachable status \<Rightarrow> Some (Acc_Retry (Api_Error status))
           | Probe_Denied status reason \<Rightarrow> Some (refuse_with Image_Unverified
               (''The registry would not show '' @ ref_start x @ '': '' @ reason) True)
           | Probe_Not_Found \<Rightarrow> Some (refuse Image_Unverified (''The registry does not serve '' @ ref_start x))
           | Probe_Ok digest \<Rightarrow>
               if digest \<noteq> Some (mi_digest x)
               then Some (refuse Image_Unverified (''The registry does not serve '' @ ref_start x)) else None))"

definition rule_images :: "accept_env \<Rightarrow> connection_facts \<Rightarrow> manifest_image list \<Rightarrow> acceptance_result option" where
  "rule_images e c images =
     (case first_refusal (\<lambda>x. map_option (\<lambda>(code', message). refuse code' message) (image_allowed c x)) images of
        Some r \<Rightarrow> Some r
      | None \<Rightarrow> first_refusal (image_served e c) images)"

section \<open>Rule 5: the environment\<close>

definition rule_policy :: "accept_env \<Rightarrow> connection_facts \<Rightarrow> acceptance_result option" where
  "rule_policy e c =
     (if cf_protectionMode c \<noteq> Protect_Environment then None
      else case aa_environmentPolicy (ae_api e) (cf_environment c) of
          Inr p \<Rightarrow> map_option (refuse Policy_Wider) (evaluateEnvironmentPolicy p (cf_trackedBranch c))
        | Inl f \<Rightarrow> Some
            (if f = Api_Not_Found
             then refuse Policy_Unreadable (''The GitHub environment '' @ cf_environment c @ '' does not exist'')
             else if falls_back f then refuse Policy_Unreadable
               ''GitHub would not show the deployment branch policy of the environment''
             else Acc_Retry f))"

section \<open>Rule 6: ordering\<close>

text \<open>Whether the release commit is on the tracked branch.\<close>

definition on_branch :: "accept_env \<Rightarrow> connection_facts \<Rightarrow> string \<Rightarrow> acceptance_result + bool" where
  "on_branch e c sha =
     (case needs (aa_branchHead (ae_api e) (cf_trackedBranch c))
         (refuse Not_On_Branch ''The tracked branch no longer exists'') of
        Inl r \<Rightarrow> Inl r
      | Inr head \<Rightarrow>
          if sha = head then Inr True
          else map_sum id (\<lambda>st. st = Ahead \<or> st = Identical)
            (needs (aa_compare (ae_api e) sha head) (refuse Not_On_Branch ''The release commit is unknown to GitHub'')))"

definition compare_deployed :: "accept_env \<Rightarrow> connection_facts \<Rightarrow> string \<Rightarrow> bool \<Rightarrow> acceptance_result + compare_status option" where
  "compare_deployed e c sha reachable =
     (case cf_deployed c of
        None \<Rightarrow> Inr None
      | Some d \<Rightarrow>
          if rs_sha d = sha then Inr None
          else (case aa_compare (ae_api e) (rs_sha d) sha of
              Inr st \<Rightarrow> Inr (Some st)
            | Inl f \<Rightarrow>
                if f \<noteq> Api_Not_Found then Inl (Acc_Retry f)
                else if \<not> reachable then Inl (refuse_with Not_On_Branch
                  ''The deployed commit and the release commit are both unknown to the tracked branch'' True)
                else Inr (Some Diverged)))"

definition rule_ordering :: "accept_env \<Rightarrow> connection_facts \<Rightarrow> release_stamp \<Rightarrow> acceptance_result + bool" where
  "rule_ordering e c candidate =
     (case on_branch e c (rs_sha candidate) of Inl r \<Rightarrow> Inl r
      | Inr reachable \<Rightarrow>
          (case compare_deployed e c (rs_sha candidate) reachable of Inl r \<Rightarrow> Inl r
           | Inr st \<Rightarrow>
               (case decideOrdering (cf_deployed c) candidate st reachable (cf_allowBehind c) of
                  None \<Rightarrow> Inl Acc_Throws
                | Some (Order_Refuse code' message) \<Rightarrow> Inl (refuse code' message)
                | Some (Order_Accept noop) \<Rightarrow> Inr noop)))"

section \<open>The whole decision\<close>

definition stamp_of :: "release_manifest \<Rightarrow> manifest_service \<Rightarrow> int \<Rightarrow> int \<Rightarrow> release_stamp" where
  "stamp_of m service runId runAttempt =
     \<lparr>rs_sha = rm_sha m, rs_runId = runId, rs_attempt = runAttempt, rs_digests = digestsOf (ms_images service)\<rparr>"

definition release_of ::
  "connection_facts \<Rightarrow> run_info \<Rightarrow> int \<Rightarrow> int \<Rightarrow> release_manifest \<Rightarrow> manifest_service \<Rightarrow> manifest_source \<Rightarrow> accepted_release" where
  "release_of c run runId runAttempt m service source =
     \<lparr>al_runId = runId, al_runAttempt = runAttempt, al_runUrl = ru_htmlUrl run, al_sha = rm_sha m,
      al_releaseId = rm_releaseId m, al_delivery = rm_delivery m, al_environment = rm_environment m,
      al_serviceKey = cf_serviceKey c, al_images = ms_images service, al_composePath = ms_composePath service,
      al_releaseServices = rm_releaseServices m,
      al_canonical = List.map_filter (\<lambda>x. case canonical_of c x of None \<Rightarrow> None
        | Some r \<Rightarrow> if r = [] then None else Some (mi_repository x, r)) (ms_images service),
      al_runEndedAt = (if ru_updatedAt run = Some 0 then None else ru_updatedAt run),
      al_manifestSource = source\<rparr>"

text \<open>Rules 4 to 6, for the service of the manifest.\<close>

definition judge_service ::
  "accept_env \<Rightarrow> connection_facts \<Rightarrow> run_info \<Rightarrow> int \<Rightarrow> int \<Rightarrow> release_manifest \<Rightarrow> manifest_service \<Rightarrow> manifest_source \<Rightarrow>
   acceptance_result" where
  "judge_service e c run runId runAttempt m service source =
     (case rule_images e c (ms_images service) of Some r \<Rightarrow> r
      | None \<Rightarrow>
          (case rule_policy e c of Some r \<Rightarrow> r
           | None \<Rightarrow>
               (case rule_ordering e c (stamp_of m service runId runAttempt) of Inl r \<Rightarrow> r
                | Inr noop \<Rightarrow>
                    let release = release_of c run runId runAttempt m service source in
                    if noop then Acc_Noop release else Acc_Accepted release)))"

definition acceptRelease ::
  "accept_env \<Rightarrow> connection_facts \<Rightarrow> int \<Rightarrow> int \<Rightarrow> job_hint option \<Rightarrow> acceptance_result" where
  "acceptRelease e c runId runAttempt hint =
     (case rule_run e c runId runAttempt of Inl r \<Rightarrow> r
      | Inr run \<Rightarrow>
          (case rule_source e c run runId runAttempt hint of Inl r \<Rightarrow> r
           | Inr (parsed, source) \<Rightarrow>
               (case rule_manifest c run runId runAttempt parsed of Inl r \<Rightarrow> r
                | Inr (m, service) \<Rightarrow> judge_service e c run runId runAttempt m service source)))"

end
