(* ===== verification/Release_Poll.thy ===== *)
theory Release_Poll
  imports Poll_Props Acceptance
begin

text \<open>
  One tick of a watch that a connection owns: \<open>services/gha-connect/poll.ts\<close>. The first step,
  \<open>discover\<close>, judges the runs behind the new deployments and keeps what it accepts; the second,
  \<open>settle_tick\<close>, sends the newest kept release through the deploy gate and starts it. The database is
  part of the environment; acceptance and the gate are the models of their own theories.
\<close>

section \<open>Data\<close>

record connection_record =
  cr_connectionId :: string
  cr_createdAt :: int
  cr_facts :: connection_facts
  cr_processed :: "processed_entry list"
  cr_gate :: gate_connection

record pending_release =
  pr_releaseId :: string
  pr_manifestReleaseId :: string
  pr_sha :: string
  pr_runId :: int
  pr_runAttempt :: int
  pr_delivery :: delivery
  pr_githubDeploymentId :: "int option"
  pr_images :: "release_image list"
  pr_createdAt :: int
  pr_gateState :: "release_gate_state option"
  pr_gateExpected :: "gate_expected option"
  pr_gateCheckedAt :: "int option"

datatype conn_effect =
    Applied_Event connection_event "string option option"
  | Verified_Run int int acceptance_result
  | Recorded_Processed "processed_entry list"
  | Recorded_Accepted accepted_release int
  | Recorded_Push accepted_release int
  | Recorded_Noop accepted_release int
  | Superseded_Releases "string list"
  | Cleared_Start
  | Failed_Release string
  | Gate_Said pending_release gate_connection gate_decision
  | Backup_Begun string

type_synonym conn_log = "conn_effect poll_effect list"

text \<open>
  \<open>ce_takeVerification\<close> and \<open>ce_backup\<close> are absent or present as in the code; a backup that runs
  outside of the tick answers \<open>None\<close> until it is done.
\<close>

record conn_env = "conn_effect tick_env" +
  ce_record :: "conn_log \<Rightarrow> connection_record option"
  ce_pending :: "conn_log \<Rightarrow> pending_release list"
  ce_accept_env :: "conn_log \<Rightarrow> accept_env"
  ce_takeVerification :: "(conn_log \<Rightarrow> bool) option"
  ce_github :: "conn_log \<Rightarrow> gate_github"
  ce_recorded :: "conn_log \<Rightarrow> gate_outcome \<Rightarrow> bool"
  ce_backup :: "(conn_log \<Rightarrow> string \<Rightarrow> (bool \<times> string) option) option"
  ce_json :: "string \<Rightarrow> json option"
  ce_ellipsis :: char

text \<open>What a tick remembers for the next one, in memory only.\<close>

record conn_state = "conn_effect tick_state" +
  cs_recheckSeen :: "string \<Rightarrow> int option"
  cs_recheckAfter :: "string \<Rightarrow> int option"
  cs_startFailures :: "string \<Rightarrow> nat option"
  cs_backedUp :: "string \<Rightarrow> bool"
  cs_backupRuns :: "string \<Rightarrow> bool"
  cs_lastGateStatus :: "string \<Rightarrow> string option"

type_synonym 'a conn_tick = "conn_state \<Rightarrow> (string + 'a) \<times> conn_state"

text \<open>A write of the database: it fails, or it is done.\<close>

definition save :: "conn_env \<Rightarrow> conn_effect \<Rightarrow> unit conn_tick" where
  "save e x = andThen (call e) (\<lambda>_. act (Conn x))"

section \<open>Step 1: the runs behind the new deployments\<close>

record candidate =
  cd_deployment :: github_deployment
  cd_runId :: int
  cd_attempt :: int
  cd_hint :: job_hint

record discovery =
  dc_classified :: "int \<Rightarrow> classified option"
  dc_handled :: "processed_entry list"
  dc_verified :: nat
  dc_settled :: bool
  dc_held :: "string option"

definition classify_as :: "int \<Rightarrow> classified \<Rightarrow> discovery \<Rightarrow> discovery" where
  "classify_as d c st = st\<lparr>dc_classified := (dc_classified st)(d \<mapsto> c)\<rparr>"

definition hold_with :: "int \<Rightarrow> string \<Rightarrow> discovery \<Rightarrow> discovery" where
  "hold_with d reason st = classify_as d (C_Hold reason) (st\<lparr>dc_held := Some reason\<rparr>)"

definition handled_as :: "int \<Rightarrow> candidate \<Rightarrow> string \<Rightarrow> classified \<Rightarrow> discovery \<Rightarrow> discovery" where
  "handled_as now c outcome how st = classify_as (gd_id (cd_deployment c)) how
     (st\<lparr>dc_handled := dc_handled st @ [\<lparr>pe_runId = cd_runId c, pe_attempt = cd_attempt c, pe_outcome = outcome, pe_at = now\<rparr>]\<rparr>)"

text \<open>The local decisions: whose wake-up it is, whether it is readable, whether it is a repeat.\<close>

fun local_decisions ::
  "(string \<Rightarrow> json option) \<Rightarrow> connection_record \<Rightarrow> github_deployment list \<Rightarrow> (int \<times> int) list \<Rightarrow>
   (int \<Rightarrow> classified option) \<Rightarrow> candidate list \<Rightarrow> (int \<Rightarrow> classified option) \<times> candidate list" where
  "local_decisions parse_json r [] seen cl found = (cl, found)"
| "local_decisions parse_json r (d # ds) seen cl found =
     (if parseDeploymentTask (gd_task d) \<noteq> Some (cf_serviceKey (cr_facts r))
      then local_decisions parse_json r ds seen (cl(gd_id d \<mapsto> C_Ignore ''not a release of this service'')) found
      else case parseWakePayload parse_json (gd_payload d) of
          Inl reason \<Rightarrow> local_decisions parse_json r ds seen (cl(gd_id d \<mapsto> C_Invalid reason (Some unreadable_text))) found
        | Inr wk \<Rightarrow>
            if (wk_runId wk, wk_runAttempt wk) \<in> set seen \<or> wasProcessed (cr_processed r) (wk_runId wk) (wk_runAttempt wk)
            then local_decisions parse_json r ds seen (cl(gd_id d \<mapsto> C_Ignore ''already handled'')) found
            else local_decisions parse_json r ds ((wk_runId wk, wk_runAttempt wk) # seen) cl
              (found @ [\<lparr>cd_deployment = d, cd_runId = wk_runId wk, cd_attempt = wk_runAttempt wk,
                 cd_hint = \<lparr>jh_job = wk_job wk, jh_runner = wk_runner wk\<rparr>\<rparr>]))"

definition run_memo :: "connection_record \<Rightarrow> candidate \<Rightarrow> string" where
  "run_memo r c = cr_connectionId r @ '':'' @ show_int (cd_runId c) @ '':'' @ show_int (cd_attempt c)"

definition not_posted_text :: string where
  "not_posted_text = ''The status could not be posted yet.''"

definition posted_then ::
  "conn_env \<Rightarrow> watch_row \<Rightarrow> candidate \<Rightarrow> deployment_state \<Rightarrow> string \<Rightarrow> discovery \<Rightarrow> discovery conn_tick \<Rightarrow> discovery conn_tick" where
  "posted_then e w c st txt dc goon = andThen (postStatus e w (gd_id (cd_deployment c)) st txt) (\<lambda>r. case r of
     Not_Settled \<Rightarrow> give (hold_with (gd_id (cd_deployment c)) not_posted_text dc)
   | Settled problem \<Rightarrow> goon)"

text \<open>How long a deployment waits: since GitHub made it, or since it was first asked about.\<close>

definition deployment_age :: "candidate \<Rightarrow> string \<Rightarrow> int \<Rightarrow> int conn_tick" where
  "deployment_age c key now =
     (case gd_created_at (cd_deployment c) of
        Some t \<Rightarrow> give (max 0 (now - t))
      | None \<Rightarrow> andThen (look (\<lambda>s. case cs_recheckSeen s key of None \<Rightarrow> now | Some t \<Rightarrow> t)) (\<lambda>first.
          andThen (change (\<lambda>s. s\<lparr>cs_recheckSeen := (cs_recheckSeen s)(key \<mapsto> first)\<rparr>)) (\<lambda>_. give (now - first))))"

definition refused_text :: string where
  "refused_text = ''Dokploy refused this release; see the Dokploy dashboard''"

definition run_failed_text :: string where
  "run_failed_text = ''The run did not succeed, so Dokploy released nothing''"

definition refusal_name :: "refusal_code \<Rightarrow> string" where
  "refusal_name code' = (case code' of
       Run_Missing \<Rightarrow> ''run-missing'' | Run_Path \<Rightarrow> ''run-path'' | Run_Branch \<Rightarrow> ''run-branch'' | Run_Event \<Rightarrow> ''run-event''
     | Run_Repository \<Rightarrow> ''run-repository'' | Run_Failed \<Rightarrow> ''run-failed'' | Artifact_Missing \<Rightarrow> ''artifact-missing''
     | Artifact_Expired \<Rightarrow> ''artifact-expired'' | Artifact_Binding \<Rightarrow> ''artifact-binding''
     | Artifact_Unreadable \<Rightarrow> ''artifact-unreadable'' | Manifest_Invalid \<Rightarrow> ''manifest-invalid''
     | Manifest_Schema \<Rightarrow> ''manifest-schema'' | Manifest_Migrations \<Rightarrow> ''manifest-migrations''
     | Manifest_Binding \<Rightarrow> ''manifest-binding'' | Manifest_Masked \<Rightarrow> ''manifest-masked''
     | Image_Namespace \<Rightarrow> ''image-namespace'' | Image_Repository \<Rightarrow> ''image-repository''
     | Image_Unverified \<Rightarrow> ''image-unverified'' | Policy_Wider \<Rightarrow> ''policy-wider''
     | Policy_Unreadable \<Rightarrow> ''policy-unreadable'' | Not_On_Branch \<Rightarrow> ''not-on-branch''
     | Ordering_Behind \<Rightarrow> ''ordering-behind'' | Ordering_Lower_Attempt \<Rightarrow> ''ordering-lower-attempt''
     | Ordering_Older_Run \<Rightarrow> ''ordering-older-run'')"

definition set_recheckAfter :: "string \<Rightarrow> int option \<Rightarrow> unit conn_tick" where
  "set_recheckAfter key t = change (\<lambda>s. s\<lparr>cs_recheckAfter := (cs_recheckAfter s)(key := t)\<rparr>)"

definition judged_refused ::
  "conn_env \<Rightarrow> watch_row \<Rightarrow> connection_record \<Rightarrow> int \<Rightarrow> candidate \<Rightarrow> refusal_code \<Rightarrow> string \<Rightarrow> bool \<Rightarrow> bool \<Rightarrow>
   discovery \<Rightarrow> discovery conn_tick" where
  "judged_refused e w r now c code' message block recheck st =
     andThen (if block then save e (Applied_Event (Ev_Release_Refused message True) None) else give ()) (\<lambda>_.
     if recheck then
       andThen (deployment_age c (run_memo r c) now) (\<lambda>age.
       if age < 86400000 then
         andThen (set_recheckAfter (run_memo r c) (Some (now + 300000))) (\<lambda>_.
           give (hold_with (gd_id (cd_deployment c)) message st))
       else
         andThen (set_recheckAfter (run_memo r c) None) (\<lambda>_.
         andThen (change (\<lambda>s. s\<lparr>cs_recheckSeen := (cs_recheckSeen s)(run_memo r c := None)\<rparr>)) (\<lambda>_.
         posted_then e w c D_Failure refused_text st (give (handled_as now c ''recheck-expired'' (C_Ignore message) st)))))
     else posted_then e w c D_Failure (if code' = Run_Failed then run_failed_text else refused_text) st
       (give (handled_as now c (refusal_name code') (C_Ignore message) st)))"

section \<open>Releases that will never go out\<close>

definition notNewerThan :: "pending_release \<Rightarrow> int \<Rightarrow> int \<Rightarrow> bool" where
  "notNewerThan p runId att \<longleftrightarrow> pr_runId p < runId \<or> pr_runId p = runId \<and> pr_runAttempt p \<le> att"

definition forget_status :: "pending_release \<Rightarrow> unit conn_tick" where
  "forget_status p = change (\<lambda>s. s\<lparr>cs_lastGateStatus := (cs_lastGateStatus s)(pr_releaseId p := None)\<rparr>)"

fun answer_inactive :: "conn_env \<Rightarrow> watch_row \<Rightarrow> pending_release list \<Rightarrow> unit conn_tick" where
  "answer_inactive e w [] = give ()"
| "answer_inactive e w (p # ps) =
     andThen (forget_status p) (\<lambda>_.
     andThen (case pr_githubDeploymentId p of None \<Rightarrow> give (Settled None)
       | Some d \<Rightarrow> postStatus e w d D_Inactive superseded_text) (\<lambda>_.
     answer_inactive e w ps))"

definition retire :: "conn_env \<Rightarrow> watch_row \<Rightarrow> pending_release list \<Rightarrow> unit conn_tick" where
  "retire e w ps =
     (if ps = [] then give ()
      else andThen (answer_inactive e w ps) (\<lambda>_.
        andThen (save e (Superseded_Releases (map pr_releaseId ps))) (\<lambda>_. save e Cleared_Start)))"

definition load_pending :: "conn_env \<Rightarrow> pending_release list conn_tick" where
  "load_pending e = andThen (call e) (\<lambda>_. ask (\<lambda>h. filter (\<lambda>p. pr_delivery p = Pull) (ce_pending e h)))"

definition retireNotNewerThan :: "conn_env \<Rightarrow> watch_row \<Rightarrow> accepted_release \<Rightarrow> unit conn_tick" where
  "retireNotNewerThan e w a = andThen (load_pending e) (\<lambda>ps.
     retire e w (filter (\<lambda>p. notNewerThan p (al_runId a) (al_runAttempt a)) ps))"

section \<open>Step 1, continued\<close>

definition settled_now :: "discovery \<Rightarrow> discovery" where
  "settled_now st = st\<lparr>dc_settled := True\<rparr>"

definition judged_noop ::
  "conn_env \<Rightarrow> watch_row \<Rightarrow> int \<Rightarrow> candidate \<Rightarrow> accepted_release \<Rightarrow> discovery \<Rightarrow> discovery conn_tick" where
  "judged_noop e w now c a st =
     posted_then e w c D_Success ''Dokploy already runs this release'' st
       (andThen (save e (Recorded_Noop a (gd_id (cd_deployment c)))) (\<lambda>_.
        andThen (retireNotNewerThan e w a) (\<lambda>_.
        andThen (if al_delivery a = Pull then save e (Applied_Event Ev_Release_Deployed None) else give ()) (\<lambda>_.
        give (settled_now (handled_as now c ''noop'' (C_Ignore ''already deployed'') st))))))"

definition judged_push ::
  "conn_env \<Rightarrow> watch_row \<Rightarrow> int \<Rightarrow> candidate \<Rightarrow> accepted_release \<Rightarrow> discovery \<Rightarrow> discovery conn_tick" where
  "judged_push e w now c a st =
     posted_then e w c D_Success ''Dokploy verified this release; the workflow deployed it'' st
       (andThen (save e (Recorded_Push a (gd_id (cd_deployment c)))) (\<lambda>_.
        andThen (retireNotNewerThan e w a) (\<lambda>_.
        give (settled_now (handled_as now c ''verified-push'' (C_Ignore ''verified'') st)))))"

definition seen_of :: "github_deployment \<Rightarrow> seen_deployment" where
  "seen_of d = \<lparr>sd_task = gd_task d, sd_payload = gd_payload d\<rparr>"

definition judged_pull ::
  "conn_env \<Rightarrow> watch_row \<Rightarrow> tick_input \<Rightarrow> connection_record \<Rightarrow> candidate \<Rightarrow> accepted_release \<Rightarrow> discovery \<Rightarrow>
   discovery conn_tick" where
  "judged_pull e w t r c a st =
     (case checkReleaseComplete (ce_json e) (cf_serviceKey (cr_facts r)) (al_releaseServices a) (al_runId a) (al_runAttempt a)
        (map seen_of (ti_deployments t)) (ti_now t) (al_runEndedAt a) None of
        Incomplete missing timedOut \<Rightarrow>
          if \<not> timedOut then give (hold_with (gd_id (cd_deployment c))
            (''Waiting for the other services of this release: '' @ join '', '' missing @ ''.'') st)
          else let message = ''The release is incomplete: no Deployment for '' @ join '', '' missing @ '' after 15 minutes.'' in
            andThen (save e (Applied_Event (Ev_Release_Refused message True) None)) (\<lambda>_.
            posted_then e w c D_Failure refused_text st
              (give (handled_as (ti_now t) c ''release-incomplete'' (C_Ignore message) st)))
      | Complete \<Rightarrow> andThen (save e (Recorded_Accepted a (gd_id (cd_deployment c)))) (\<lambda>_.
          give (settled_now (handled_as (ti_now t) c ''accepted'' (C_Ignore ''accepted; waiting for the deploy gate'') st))))"

definition judged_retry ::
  "conn_env \<Rightarrow> watch_row \<Rightarrow> int \<Rightarrow> candidate \<Rightarrow> api_failure \<Rightarrow> discovery \<Rightarrow> discovery conn_tick" where
  "judged_retry e w now c cause st =
     andThen (case cause of
         Api_Rate_Limited retryAt \<Rightarrow> act (Block_Key (connectionKey (w_connectionId w)) retryAt)
       | Api_Unauthorized \<Rightarrow> andThen (call e) (\<lambda>_. act (Mark_Revoked (w_connectionId w)))
       | _ \<Rightarrow> act (Block_Key (watchKey (w_watchId w)) (now + 3 * 20000))) (\<lambda>_.
     give (hold_with (gd_id (cd_deployment c)) ''GitHub could not be asked; trying again soon.'' st))"

text \<open>A throw of acceptance, which never happens, is a failed tick.\<close>

definition judged ::
  "conn_env \<Rightarrow> watch_row \<Rightarrow> tick_input \<Rightarrow> connection_record \<Rightarrow> candidate \<Rightarrow> acceptance_result \<Rightarrow> discovery \<Rightarrow>
   discovery conn_tick" where
  "judged e w t r c result st =
     (case result of
        Acc_Pending reason \<Rightarrow> give (hold_with (gd_id (cd_deployment c)) reason st)
      | Acc_Retry cause \<Rightarrow> judged_retry e w (ti_now t) c cause st
      | Acc_Superseded reason \<Rightarrow> give (handled_as (ti_now t) c ''superseded'' C_Superseded st)
      | Acc_Ignored reason \<Rightarrow> give (handled_as (ti_now t) c ''ignored'' (C_Ignore reason) st)
      | Acc_Refused code' message block recheck \<Rightarrow> judged_refused e w r (ti_now t) c code' message block recheck st
      | Acc_Noop a \<Rightarrow> judged_noop e w (ti_now t) c a st
      | Acc_Accepted a \<Rightarrow> if al_delivery a = Push then judged_push e w (ti_now t) c a st else judged_pull e w t r c a st
      | Acc_Throws \<Rightarrow> fail_with ''acceptance failed'')"

definition may_verify :: "conn_env \<Rightarrow> discovery \<Rightarrow> bool conn_tick" where
  "may_verify e st = (case ce_takeVerification e of None \<Rightarrow> give (dc_verified st < 5) | Some f \<Rightarrow> ask f)"

text \<open>One candidate, newest first; after a settled or a held one the rest is not verified.\<close>

definition judge_candidate ::
  "conn_env \<Rightarrow> watch_row \<Rightarrow> tick_input \<Rightarrow> connection_record \<Rightarrow> candidate \<Rightarrow> discovery \<Rightarrow> discovery conn_tick" where
  "judge_candidate e w t r c st =
     (let d = gd_id (cd_deployment c) in
      if dc_settled st then give (classify_as d C_Superseded st)
      else case dc_held st of Some reason \<Rightarrow> give (classify_as d (C_Hold reason) st)
      | None \<Rightarrow>
        andThen (look (\<lambda>s. cs_recheckAfter s (run_memo r c))) (\<lambda>retryAt.
        if still_blocked (ti_now t) retryAt
        then give (hold_with d ''GitHub-side settings still refuse this release; asking again later.'' st)
        else andThen (may_verify e st) (\<lambda>may.
          if \<not> may then give (hold_with d ''More runs are waiting to be checked; the rest are checked on the next tick.'' st)
          else andThen (ask (\<lambda>h. acceptRelease (ce_accept_env e h) (cr_facts r) (cd_runId c) (cd_attempt c) (Some (cd_hint c))))
            (\<lambda>result. andThen (act (Conn (Verified_Run (cd_runId c) (cd_attempt c) result))) (\<lambda>_.
              judged e w t r c result (st\<lparr>dc_verified := Suc (dc_verified st)\<rparr>))))))"

fun judge_all ::
  "conn_env \<Rightarrow> watch_row \<Rightarrow> tick_input \<Rightarrow> connection_record \<Rightarrow> candidate list \<Rightarrow> discovery \<Rightarrow> discovery conn_tick" where
  "judge_all e w t r [] st = give st"
| "judge_all e w t r (c # cs) st = andThen (judge_candidate e w t r c st) (judge_all e w t r cs)"

definition first_discovery :: "(int \<Rightarrow> classified option) \<Rightarrow> discovery" where
  "first_discovery cl = \<lparr>dc_classified = cl, dc_handled = [], dc_verified = 0, dc_settled = False, dc_held = None\<rparr>"

definition discover ::
  "conn_env \<Rightarrow> watch_row \<Rightarrow> tick_input \<Rightarrow> connection_record \<Rightarrow> unit conn_tick" where
  "discover e w t r =
     (let fresh = selectNewDeployments (ti_deployments t) (ti_lastSeen t);
          (cl, found) = local_decisions (ce_json e) r fresh [] (\<lambda>d. None) [] in
      andThen (judge_all e w t r (sort_key (\<lambda>c. - gd_id (cd_deployment c)) found) (first_discovery cl)) (\<lambda>st.
      andThen (if dc_handled st \<noteq> [] then save e (Recorded_Processed (dc_handled st)) else give ()) (\<lambda>_.
      handleFresh e w t fresh (dc_classified st) None)))"

section \<open>Step 2: the newest kept release\<close>

definition newestFirst :: "pending_release list \<Rightarrow> pending_release list" where
  "newestFirst ps = sort_key (\<lambda>p. - pr_runId p) (sort_key (\<lambda>p. - pr_runAttempt p) ps)"

definition toGateRelease :: "pending_release \<Rightarrow> gate_release" where
  "toGateRelease p = \<lparr>gr_releaseId = pr_releaseId p, gr_sha = pr_sha p, gr_runId = pr_runId p,
     gr_createdAt = pr_createdAt p, gr_gateState = pr_gateState p, gr_gateExpected = pr_gateExpected p,
     gr_gateCheckedAt = pr_gateCheckedAt p\<rparr>"

definition pinned_of :: "release_image \<Rightarrow> pinned_ref option" where
  "pinned_of i = parsePinnedImage (Some (J_Str (ri_ref i)))"

definition context_of :: "connection_record \<Rightarrow> pending_release \<Rightarrow> release_context" where
  "context_of r p = \<lparr>rc_connectionId = cr_connectionId r, rc_gateVersion = Some (gc_gateVersion (cr_gate r)),
     rc_serviceKey = cf_serviceKey (cr_facts r), rc_manifestReleaseId = pr_manifestReleaseId p, rc_sha = pr_sha p,
     rc_runId = pr_runId p, rc_runAttempt = pr_runAttempt p, rc_delivery = pr_delivery p, rc_images = pr_images p\<rparr>"

text \<open>\<open>None\<close>: some image is not pinned, or there is none.\<close>

definition releasePayload :: "connection_record \<Rightarrow> pending_release \<Rightarrow> string \<Rightarrow> deploy_payload option" where
  "releasePayload r p runUrl =
     (let parsed = map pinned_of (pr_images p) in
      if parsed = [] \<or> None \<in> set parsed then None
      else let primary = the (hd parsed) in Some
        \<lparr>dp_image = pin_image primary, dp_repository = pin_repository primary, dp_digest = pin_digest primary,
         dp_buildRunUrl = Some runUrl,
         dp_extraImages = map (\<lambda>x. (pin_repository (the x), pin_digest (the x))) (tl parsed),
         dp_release = Some (context_of r p)\<rparr>)"

text \<open>A status is posted only when it says something new for the release.\<close>

definition announce :: "conn_env \<Rightarrow> watch_row \<Rightarrow> pending_release \<Rightarrow> deployment_state \<Rightarrow> string \<Rightarrow> unit conn_tick" where
  "announce e w p st txt =
     (case pr_githubDeploymentId p of None \<Rightarrow> give ()
      | Some d \<Rightarrow>
        andThen (look (\<lambda>s. cs_lastGateStatus s (pr_releaseId p))) (\<lambda>last_memo.
        if last_memo = Some (state_name st @ '':'' @ txt) then give ()
        else andThen (postStatus e w d st txt) (\<lambda>posted. case posted of
            Not_Settled \<Rightarrow> give ()
          | Settled problem \<Rightarrow> change (\<lambda>s. s\<lparr>cs_lastGateStatus :=
              (cs_lastGateStatus s)(pr_releaseId p \<mapsto> state_name st @ '':'' @ txt)\<rparr>))))"

definition release_name :: "pending_release \<Rightarrow> string" where
  "release_name p = ''Release '' @ take 7 (pr_sha p)"

definition reject :: "conn_env \<Rightarrow> watch_row \<Rightarrow> pending_release \<Rightarrow> int \<Rightarrow> string \<Rightarrow> unit conn_tick" where
  "reject e w p d reason =
     andThen (save e (Failed_Release (pr_releaseId p))) (\<lambda>_.
     andThen (save e (Applied_Event (Ev_Release_Refused reason True) (Some (Some reason)))) (\<lambda>_.
     andThen (postStatus e w d D_Failure rejected_text) (\<lambda>_.
     patch_watch e (error_patch (Some (release_name p @ '' was rejected: '' @ take 180 reason))))))"

definition set_startFailures :: "string \<Rightarrow> nat option \<Rightarrow> unit conn_tick" where
  "set_startFailures k n = change (\<lambda>s. s\<lparr>cs_startFailures := (cs_startFailures s)(k := n)\<rparr>)"

text \<open>A start that throws is tried on three ticks, then the release is given up.\<close>

definition release_start_failed ::
  "conn_env \<Rightarrow> watch_row \<Rightarrow> pending_release \<Rightarrow> int \<Rightarrow> string \<Rightarrow> string \<Rightarrow> unit conn_tick" where
  "release_start_failed e w p d key message =
     andThen (next_attempt cs_startFailures key) (\<lambda>attempts.
     andThen (set_startFailures key (Some attempts)) (\<lambda>_.
     if attempts < 3 then fail_with message
     else andThen (set_startFailures key None) (\<lambda>_.
       andThen (save e (Failed_Release (pr_releaseId p))) (\<lambda>_.
       andThen (postStatus e w d D_Failure not_queued_text) (\<lambda>_.
       patch_watch e (error_patch (Some (release_name p @ '' could not be queued: '' @ te_describe e message 120))))))))"

definition start_key :: "watch_row \<Rightarrow> pending_release \<Rightarrow> string" where
  "start_key w p = w_watchId w @ '':'' @ pr_releaseId p"

definition run_release ::
  "conn_env \<Rightarrow> watch_row \<Rightarrow> int \<Rightarrow> pending_release \<Rightarrow> int \<Rightarrow> deploy_payload \<Rightarrow> unit conn_tick" where
  "run_release e w now p d payload =
     andThen (ask (te_start e)) (\<lambda>outcome.
     andThen (act (Start_Deploy d payload (w_lastSeen w) outcome)) (\<lambda>_.
     case outcome of
       Start_Throws message \<Rightarrow> release_start_failed e w p d (start_key w p) message
     | Start_Stale \<Rightarrow> set_startFailures (start_key w p) None
     | Start_Rejected reason \<Rightarrow> andThen (set_startFailures (start_key w p) None) (\<lambda>_. reject e w p d reason)
     | Start_Started \<Rightarrow> andThen (set_startFailures (start_key w p) None) (\<lambda>_.
         andThen (forget_status p) (\<lambda>_.
         andThen (postStatus e w d D_In_Progress accepted_text) (\<lambda>_.
         patch_watch e (checked_patch now None))))))"

text \<open>
  The backup before the first release runs beside the ticks: the release goes on when it is done and
  succeeded.
\<close>

definition set_backupRuns :: "string \<Rightarrow> bool \<Rightarrow> unit conn_tick" where
  "set_backupRuns rid b = change (\<lambda>s. s\<lparr>cs_backupRuns := (cs_backupRuns s)(rid := b)\<rparr>)"

definition backup_running ::
  "conn_env \<Rightarrow> watch_row \<Rightarrow> int \<Rightarrow> string \<Rightarrow> (bool \<times> string) option \<Rightarrow> bool conn_tick" where
  "backup_running e w now rid result =
     (case result of None \<Rightarrow> give False
      | Some (ok, note') \<Rightarrow>
          andThen (set_backupRuns rid False) (\<lambda>_.
          if \<not> ok then
            andThen (patch_watch e (error_patch (Some note'))) (\<lambda>_.
            andThen (act (Block_Key (watchKey (w_watchId w)) (now + 120000))) (\<lambda>_. give False))
          else andThen (change (\<lambda>s. s\<lparr>cs_backedUp := (cs_backedUp s)(rid := True)\<rparr>)) (\<lambda>_. give True)))"

definition backup_done ::
  "conn_env \<Rightarrow> watch_row \<Rightarrow> int \<Rightarrow> connection_record \<Rightarrow> pending_release \<Rightarrow> bool conn_tick" where
  "backup_done e w now r p =
     (case ce_backup e of None \<Rightarrow> give True
      | Some result \<Rightarrow>
        andThen (look (\<lambda>s. cs_backedUp s (pr_releaseId p))) (\<lambda>backed.
        if cf_deployed (cr_facts r) \<noteq> None \<or> backed then give True
        else andThen (look (\<lambda>s. cs_backupRuns s (pr_releaseId p))) (\<lambda>running.
          if \<not> running then
            andThen (set_backupRuns (pr_releaseId p) True) (\<lambda>_.
            andThen (act (Conn (Backup_Begun (pr_releaseId p)))) (\<lambda>_.
            andThen (patch_watch e (error_patch (Some ''Backing up before the first release.''))) (\<lambda>_. give False)))
          else andThen (ask (\<lambda>h. result h (pr_releaseId p))) (backup_running e w now (pr_releaseId p)))))"

definition run_url :: "watch_row \<Rightarrow> pending_release \<Rightarrow> string" where
  "run_url w p = ''https://github.com/'' @ w_owner_name w @ ''/'' @ w_repo_name w @ ''/actions/runs/'' @ show_int (pr_runId p)"

definition startRelease ::
  "conn_env \<Rightarrow> watch_row \<Rightarrow> int \<Rightarrow> connection_record \<Rightarrow> pending_release \<Rightarrow> int \<Rightarrow> unit conn_tick" where
  "startRelease e w now r p d =
     (case releasePayload r p (run_url w p) of
        None \<Rightarrow> reject e w p d ''The accepted release has an image that is not pinned by digest.''
      | Some payload \<Rightarrow> andThen (backup_done e w now r p) (\<lambda>ready.
          if \<not> ready then give () else run_release e w now p d payload))"

text \<open>A block that is not the gate's, or a lost token.\<close>

definition foreign_stop :: "gate_connection \<Rightarrow> bool" where
  "foreign_stop c \<longleftrightarrow> gc_state c = Blocked \<and> \<not> gc_gateBlocked c \<or> gc_state c = Disconnected"

definition gate_answer :: "conn_env \<Rightarrow> connection_record \<Rightarrow> pending_release \<Rightarrow> conn_log \<Rightarrow> gate_decision" where
  "gate_answer e r p h = fst (runDeployGate (\<lambda>c rid outcome u. (ce_recorded e h outcome, u)) (cr_gate r) (toGateRelease p)
     (ce_github e h) (te_now e h) None None ())"

text \<open>The gate writes its outcome only when it is on and the release was not overridden.\<close>

definition ask_gate :: "conn_env \<Rightarrow> connection_record \<Rightarrow> pending_release \<Rightarrow> gate_decision conn_tick" where
  "ask_gate e r p =
     andThen (if gc_gateMode (cr_gate r) = Image_Mode \<or> pr_gateState p = Some GS_Overridden then give () else call e) (\<lambda>_.
     andThen (ask (gate_answer e r p)) (\<lambda>d.
     andThen (act (Conn (Gate_Said p (cr_gate r) d))) (\<lambda>_. give d)))"

definition settle_newest ::
  "conn_env \<Rightarrow> watch_row \<Rightarrow> int \<Rightarrow> connection_record \<Rightarrow> pending_release \<Rightarrow> unit conn_tick" where
  "settle_newest e w now r p =
     (if foreign_stop (cr_gate r) then give ()
      else case pr_githubDeploymentId p of
          None \<Rightarrow> save e (Failed_Release (pr_releaseId p))
        | Some d \<Rightarrow> andThen (ask_gate e r p) (\<lambda>decision. case decision of
            Gate_Waiting reason names \<Rightarrow> announce e w p D_Queued (describeGateDecision (ce_ellipsis e) decision)
          | Gate_Blocked reason failed missing timedOut \<Rightarrow>
              announce e w p D_Failure (describeGateDecision (ce_ellipsis e) decision)
          | Gate_Deploy overridden \<Rightarrow> startRelease e w now r p d))"

definition too_old :: "connection_record \<Rightarrow> pending_release \<Rightarrow> bool" where
  "too_old r p = (case cf_deployed (cr_facts r) of None \<Rightarrow> False
     | Some d \<Rightarrow> notNewerThan p (rs_runId d) (rs_attempt d))"

definition settle_tick :: "conn_env \<Rightarrow> watch_row \<Rightarrow> int \<Rightarrow> unit conn_tick" where
  "settle_tick e w now =
     andThen (load_pending e) (\<lambda>waiting.
     if waiting = [] then give ()
     else andThen (call e) (\<lambda>_. andThen (ask (ce_record e)) (\<lambda>found. case found of
         None \<Rightarrow> give ()
       | Some r \<Rightarrow>
           andThen (retire e w (filter (too_old r) waiting)) (\<lambda>_.
           case newestFirst (filter (\<lambda>p. \<not> too_old r p) waiting) of
             [] \<Rightarrow> give ()
           | newest # older \<Rightarrow> andThen (retire e w older) (\<lambda>_. settle_newest e w now r newest)))))"

section \<open>The tick\<close>

definition new_on_baseline :: "connection_record \<Rightarrow> github_deployment \<Rightarrow> bool" where
  "new_on_baseline r d \<longleftrightarrow> parseDeploymentTask (gd_task d) = Some (cf_serviceKey (cr_facts r)) \<and>
     (case gd_created_at d of None \<Rightarrow> False | Some t \<Rightarrow> cr_createdAt r \<le> t)"

definition watch_paused :: "conn_env \<Rightarrow> watch_row \<Rightarrow> bool conn_tick" where
  "watch_paused e w = andThen (ask (te_now e)) (\<lambda>now. ask (\<lambda>h.
     still_blocked now (te_blocked e h (connectionKey (w_connectionId w))) \<or>
     still_blocked now (te_blocked e h (watchKey (w_watchId w)))))"

definition pollConnectionInner :: "conn_env \<Rightarrow> watch_row \<Rightarrow> unit conn_tick" where
  "pollConnectionInner e w =
     andThen (call e) (\<lambda>_. andThen (ask (ce_record e)) (\<lambda>found. case found of
       None \<Rightarrow> give ()
     | Some r \<Rightarrow>
         andThen (prepareTick e w \<lparr>po_continueOnNotModified = True, po_isNewOnBaseline = Some (new_on_baseline r)\<rparr>) (\<lambda>t.
         case t of
           None \<Rightarrow> give ()
         | Some t \<Rightarrow>
             andThen (change (\<lambda>s. s\<lparr>tk_progress := Some (ti_lastSeen t)\<rparr>)) (\<lambda>_.
             andThen (discover e w t r) (\<lambda>_.
             andThen (watch_paused e w) (\<lambda>paused.
             if paused then give ()
             else andThen (look tk_progress) (\<lambda>cursor.
               settle_tick e (w\<lparr>w_lastSeen := cursor\<rparr>) (ti_now t))))))))"

definition pollConnectionWatch :: "conn_env \<Rightarrow> watch_row \<Rightarrow> unit conn_tick" where
  "pollConnectionWatch e w = rescue (pollConnectionInner e w) (recover e w ''gha connection'')"

end
