(* ===== verification/Acceptance_Props.thy ===== *)
theory Acceptance_Props
  imports Acceptance
begin

text \<open>
  What the acceptance of releases guarantees: what an accepted release is, which runs can block a
  connection, and that releases never go back on a branch that only grows.
\<close>

section \<open>The facts an accepted release rests on\<close>

definition proven_run :: "accept_env \<Rightarrow> connection_facts \<Rightarrow> int \<Rightarrow> int \<Rightarrow> run_info \<Rightarrow> bool" where
  "proven_run e c runId runAttempt run \<longleftrightarrow>
     aa_runAttempt (ae_api e) runId runAttempt = Inr run \<and>
     ru_path run = cf_workflowPath c \<and> ru_headBranch run = Some (cf_trackedBranch c) \<and>
     ru_event run \<in> {''push'', ''workflow_dispatch''} \<and>
     ru_repositoryId run = Some (cf_repoId c) \<and> ru_headRepositoryId run = Some (cf_repoId c) \<and>
     ru_status run = ''completed'' \<and> ru_conclusion run = Some ''success''"

definition image_proven :: "accept_env \<Rightarrow> connection_facts \<Rightarrow> manifest_image \<Rightarrow> bool" where
  "image_proven e c x \<longleftrightarrow>
     image_ok x \<and>
     (\<exists>ns\<in>set (namespaces_of c). prefix ns (lower (mi_repository x)) \<and>
        \<not> prefix ''preview/'' (drop (length ns) (lower (mi_repository x)))) \<and>
     (cf_currentRepositories c = [] \<or> lower (mi_repository x) \<in> set (map lower (cf_currentRepositories c))) \<and>
     (\<exists>host name. splitRepository (mi_repository x) = Some (host, name) \<and>
        ae_probe e (probe_host c x host) name (mi_digest x) = Probe_Ok (Some (mi_digest x)))"

definition environment_locked :: "accept_env \<Rightarrow> connection_facts \<Rightarrow> bool" where
  "environment_locked e c \<longleftrightarrow> cf_protectionMode c \<noteq> Protect_Environment \<or>
     (\<exists>p. aa_environmentPolicy (ae_api e) (cf_environment c) = Inr p \<and> ep_customBranchPolicies p \<and>
        ep_policies p = [(cf_trackedBranch c, ''branch'')])"

definition reachable_from_branch :: "accept_env \<Rightarrow> connection_facts \<Rightarrow> string \<Rightarrow> bool" where
  "reachable_from_branch e c sha \<longleftrightarrow>
     (\<exists>head. aa_branchHead (ae_api e) (cf_trackedBranch c) = Inr head \<and>
        (sha = head \<or> aa_compare (ae_api e) sha head \<in> {Inr Ahead, Inr Identical}))"

text \<open>Not older than what runs: a later or equal attempt of the same commit, or a commit that is not behind.\<close>

definition not_older :: "accept_env \<Rightarrow> connection_facts \<Rightarrow> accepted_release \<Rightarrow> bool" where
  "not_older e c r \<longleftrightarrow> cf_allowBehind c \<or>
     (case cf_deployed c of None \<Rightarrow> True
      | Some d \<Rightarrow>
          if rs_sha d = al_sha r
          then rs_runId d < al_runId r \<or> rs_runId d = al_runId r \<and> rs_attempt d \<le> al_runAttempt r
          else aa_compare (ae_api e) (rs_sha d) (al_sha r) \<in> {Inr Ahead, Inr Diverged, Inl Api_Not_Found})"

text \<open>What the manifest says of the run, and where its text was read.\<close>

definition manifest_binds :: "connection_facts \<Rightarrow> run_info \<Rightarrow> int \<Rightarrow> int \<Rightarrow> release_manifest \<Rightarrow> bool" where
  "manifest_binds c run runId runAttempt m \<longleftrightarrow>
     rm_sha m = ru_headSha run \<and> rm_runId m = show_int runId \<and> rm_runAttempt m = runAttempt \<and>
     rm_ref m = ''refs/heads/'' @ cf_trackedBranch c \<and> rm_environment m = cf_environment c"

definition uploaded_by :: "connection_facts \<Rightarrow> int \<Rightarrow> artifact_info \<Rightarrow> bool" where
  "uploaded_by c runId a \<longleftrightarrow> ar_workflowRunId a = Some runId \<and>
     ar_workflowRunRepositoryId a = Some (cf_repoId c) \<and> ar_workflowRunHeadRepositoryId a = Some (cf_repoId c)"

definition release_artifact :: "artifact_info list \<Rightarrow> artifact_info \<Rightarrow> bool" where
  "release_artifact listing a \<longleftrightarrow> a \<in> set listing \<and> ar_name a = ''dokploy-release'' \<and>
     (\<forall>b\<in>set listing. ar_name b = ''dokploy-release'' \<longrightarrow> ar_id b \<le> ar_id a)"

fun text_proven :: "accept_env \<Rightarrow> connection_facts \<Rightarrow> run_info \<Rightarrow> int \<Rightarrow> int \<Rightarrow> manifest_source \<Rightarrow> unicode \<Rightarrow> bool" where
  "text_proven e c run runId runAttempt From_Artifact t \<longleftrightarrow>
     (\<exists>listing a bytes entry. aa_artifacts (ae_api e) runId ''dokploy-release'' = Inr listing \<and>
        release_artifact listing a \<and> \<not> ar_expired a \<and> uploaded_by c runId a \<and>
        ar_sizeInBytes a \<le> 2 * MANIFEST_MAX_BYTES \<and>
        aa_downloadArtifact (ae_api e) (ar_id a) (2 * MANIFEST_MAX_BYTES) = Inr bytes \<and>
        readZipEntry (ae_codec e) bytes entry_name MANIFEST_MAX_BYTES = Some (Zip_Ok entry) \<and> t = ae_text e entry)"
| "text_proven e c run runId runAttempt From_Job_Log t \<longleftrightarrow>
     (\<exists>jobs logs. aa_runJobs (ae_api e) (ru_id run) runAttempt = Inr jobs \<and> extractLogManifest logs = Inr t \<and>
        (\<forall>l\<in>set logs. \<exists>j\<in>set jobs. successful_job (ru_id run) runAttempt (ru_headSha run) j \<and>
           aa_jobLog (ae_api e) (ji_id j) (16 * 1024 * 1024) = Inr l)) \<and>
     (\<forall>listing. aa_artifacts (ae_api e) runId ''dokploy-release'' = Inr listing \<longrightarrow>
        (\<forall>a. release_artifact listing a \<longrightarrow> (\<exists>b. release_artifact listing b \<and> (ar_expired b \<or> uploaded_by c runId b))))"

lemma rule_run_proven: "rule_run e c runId runAttempt = Inr run \<longleftrightarrow> proven_run e c runId runAttempt run"
  by (auto simp: rule_run_def proven_run_def needs_def split: sum.splits if_splits)

text \<open>Every answer but the last step's declines; only a refusal may block.\<close>

fun declines :: "acceptance_result \<Rightarrow> bool" where
  "declines (Acc_Noop r) = False"
| "declines (Acc_Accepted r) = False"
| "declines Acc_Throws = False"
| "declines _ = True"

fun blocks :: "acceptance_result \<Rightarrow> bool" where
  "blocks (Acc_Refused code' message block recheck) = block"
| "blocks _ = False"

lemma declines_refuse [simp]: "declines (refuse_with c m r)" "declines (refuse c m)"
  by (simp_all add: refuse_def refuse_with_def)

lemma blocks_refuse [simp]: "blocks (refuse_with c m r) = blocking c" "blocks (refuse c m) = blocking c"
  by (simp_all add: refuse_def refuse_with_def)

lemma needs_Inl: "needs x m = Inl r \<Longrightarrow> r = m \<or> (\<exists>f. r = Acc_Retry f)"
  by (auto simp: needs_def split: sum.splits if_splits)

lemma rule_run_Inl: "rule_run e c runId runAttempt = Inl r \<Longrightarrow> declines r \<and> \<not> blocks r"
  by (auto simp: rule_run_def blocking_def dest!: needs_Inl split: sum.splits if_splits)

lemma artifact_declines:
  "\<exists>x. readArtifactManifest e c runId = Some x \<and> (\<forall>r fallback. x = No_Manifest r fallback \<longrightarrow> declines r)"
proof -
  have zip: "\<exists>x. read_zip_text e bytes = Some x \<and> (\<forall>r fallback. x = No_Manifest r fallback \<longrightarrow> declines r)" for bytes
  proof -
    obtain r where "readZipEntry (ae_codec e) bytes entry_name MANIFEST_MAX_BYTES = Some r"
      using zip_read_ok [of "ae_codec e" bytes entry_name MANIFEST_MAX_BYTES] by blast
    then show ?thesis by (cases r) (simp_all add: read_zip_text_def unavailable_def)
  qed
  show ?thesis
    using zip by (auto simp: readArtifactManifest_def unavailable_def transient_def split: sum.splits option.splits)
qed

lemma read_logs_Inl: "read_logs e budget incomplete logs js = Inl r \<Longrightarrow> declines r"
  by (induction e budget incomplete logs js rule: read_logs.induct) (auto split: sum.splits if_splits)

lemma read_groups_Result: "read_groups e budget incomplete gs = Log_Result r \<Longrightarrow> declines r"
proof (induction gs arbitrary: budget incomplete)
  case (Cons g gs)
  show ?case
  proof (cases "read_logs e budget incomplete [] g")
    case (Inl x)
    with Cons.prems read_logs_Inl [OF Inl] show ?thesis by simp
  next
    case (Inr x)
    then obtain logs inc bud where x: "read_logs e budget incomplete [] g = Inr (logs, inc, bud)" by (cases x) auto
    with Cons show ?thesis
      by (auto simp: log_verdict_def split: sum.splits log_failure.splits)
  qed
qed simp

lemma manifest_from_log_Inl:
  assumes "manifest_from_log e c run runAttempt hint instead = Inl r" and "declines instead"
  shows "declines r"
proof -
  have "declines x" if "readJobLogManifest e c run runAttempt hint = Log_Result x" for x
    using that by (auto simp: readJobLogManifest_def Let_def simp del: read_groups.simps
        dest: read_groups_Result split: sum.splits if_splits)
  with assms show ?thesis
    by (auto simp: manifest_from_log_def split: log_read.splits if_splits acceptance_result.splits)
qed

lemma rule_source_Inl: "rule_source e c run runId runAttempt hint = Inl r \<Longrightarrow> declines r"
  using artifact_declines [of e c runId]
  by (auto simp: rule_source_def Let_def map_sum_def dest!: manifest_from_log_Inl
      split: manifest_read.splits if_splits option.splits sum.splits)

lemma rule_manifest_Inl: "rule_manifest c run runId runAttempt parsed = Inl r \<Longrightarrow> declines r"
  by (auto simp: rule_manifest_def parse_refusal_def split: sum.splits prod.splits if_splits option.splits)

lemma first_refusal_None: "first_refusal f xs = None \<longleftrightarrow> (\<forall>x\<in>set xs. f x = None)"
  by (induction xs) (auto split: option.splits)

lemma first_refusal_Some: "first_refusal f xs = Some r \<Longrightarrow> \<exists>x\<in>set xs. f x = Some r"
  by (induction xs) (auto split: option.splits)

lemma image_served_Some: "image_served e c x = Some r \<Longrightarrow> declines r"
  by (auto simp: image_served_def split: option.splits probe_result.splits if_splits)

lemma rule_images_Some: "rule_images e c images = Some r \<Longrightarrow> declines r"
  by (auto simp: rule_images_def dest!: first_refusal_Some dest: image_served_Some split: option.splits)

lemma rule_policy_Some: "rule_policy e c = Some r \<Longrightarrow> declines r"
  by (auto simp: rule_policy_def split: if_splits sum.splits)

lemma rule_ordering_Inl:
  assumes "rule_ordering e c s = Inl r"
  shows "declines r"
proof (cases "on_branch e c (rs_sha s)")
  case (Inl x)
  then have "declines x" by (auto simp: on_branch_def map_sum_def dest!: needs_Inl split: sum.splits if_splits)
  with Inl assms show ?thesis by (simp add: rule_ordering_def)
next
  case (Inr reachable)
  show ?thesis
  proof (cases "compare_deployed e c (rs_sha s) reachable")
    case (Inl x)
    then have "declines x" by (auto simp: compare_deployed_def split: option.splits sum.splits if_splits)
    with Inl Inr assms show ?thesis by (simp add: rule_ordering_def)
  next
    case st: (Inr st)
    then have "decideOrdering (cf_deployed c) s st reachable (cf_allowBehind c) \<noteq> None"
      by (auto simp: compare_deployed_def decideOrdering_def Let_def split: option.splits sum.splits if_splits)
    with st Inr assms show ?thesis
      by (auto simp: rule_ordering_def split: option.splits ordering_decision.splits)
  qed
qed

lemma image_served_None:
  "image_served e c x = None \<Longrightarrow> \<exists>host name. splitRepository (mi_repository x) = Some (host, name) \<and>
     ae_probe e (probe_host c x host) name (mi_digest x) = Probe_Ok (Some (mi_digest x))"
  by (auto simp: image_served_def split: option.splits probe_result.splits if_splits)

lemma rule_images_None:
  assumes "rule_images e c images = None" and "list_all image_ok images"
  shows "\<forall>x\<in>set images. image_proven e c x"
proof
  fix x
  assume x: "x \<in> set images"
  with assms have a: "image_allowed c x = None" and s: "image_served e c x = None"
    by (auto simp: rule_images_def first_refusal_None split: option.splits)
  from checkImageRepository_None [OF a [unfolded image_allowed_def]] image_served_None [OF s] x assms(2)
  show "image_proven e c x" unfolding image_proven_def by (auto simp: list_all_iff)
qed

lemma rule_policy_None: "rule_policy e c = None \<Longrightarrow> environment_locked e c"
  by (auto simp: rule_policy_def environment_locked_def evaluateEnvironmentPolicy_None split: if_splits sum.splits)

lemma rule_ordering_Inr:
  assumes "rule_ordering e c s = Inr noop"
  shows "reachable_from_branch e c (rs_sha s)"
    and "\<lbrakk>\<not> cf_allowBehind c; cf_deployed c = Some d\<rbrakk> \<Longrightarrow>
      (if rs_sha d = rs_sha s then rs_runId d < rs_runId s \<or> rs_runId d = rs_runId s \<and> rs_attempt d \<le> rs_attempt s
       else aa_compare (ae_api e) (rs_sha d) (rs_sha s) \<in> {Inr Ahead, Inr Diverged, Inl Api_Not_Found})"
proof -
  from assms obtain reachable st where r: "on_branch e c (rs_sha s) = Inr reachable"
    and st: "compare_deployed e c (rs_sha s) reachable = Inr st"
    and o': "decideOrdering (cf_deployed c) s st reachable (cf_allowBehind c) = Some (Order_Accept noop)"
    by (auto simp: rule_ordering_def split: sum.splits option.splits ordering_decision.splits)
  from o' have reachable by (simp add: decideOrdering_def split: if_splits)
  with r show "reachable_from_branch e c (rs_sha s)"
    by (auto simp: on_branch_def needs_def reachable_from_branch_def split: sum.splits if_splits)
  assume nb: "\<not> cf_allowBehind c" and d: "cf_deployed c = Some d"
  show "if rs_sha d = rs_sha s then rs_runId d < rs_runId s \<or> rs_runId d = rs_runId s \<and> rs_attempt d \<le> rs_attempt s
       else aa_compare (ae_api e) (rs_sha d) (rs_sha s) \<in> {Inr Ahead, Inr Diverged, Inl Api_Not_Found}"
  proof (cases "rs_sha d = rs_sha s")
    case True
    with o' d nb show ?thesis by (auto simp: decideOrdering_def Let_def split: if_splits)
  next
    case False
    then obtain x where x: "st = Some x" "x \<noteq> Behind" "x \<noteq> Identical"
      using o' d nb by (auto simp: decideOrdering_def Let_def split: if_splits option.splits)
    with st d False show ?thesis
      by (cases x) (auto simp: compare_deployed_def split: sum.splits if_splits)
  qed
qed

lemma newest_is_release: "newest_artifact listing = Some a \<Longrightarrow> release_artifact listing a"
proof -
  let ?named = "filter (\<lambda>a. ar_name a = artifact_name) listing"
  assume "newest_artifact listing = Some a"
  then obtain as where as: "sort_key (\<lambda>a. - ar_id a) ?named = a # as"
    by (auto simp: newest_artifact_def split: list.splits)
  then have "sorted (map (\<lambda>a. - ar_id a) (a # as))" by (metis sorted_sort_key)
  moreover have "set ?named = set (a # as)" using as by (metis set_sort)
  ultimately have "a \<in> set ?named" "\<forall>b\<in>set ?named. ar_id b \<le> ar_id a" by auto
  then show ?thesis by (auto simp: release_artifact_def artifact_name_def)
qed

lemma no_release_artifact: "newest_artifact listing = None \<Longrightarrow> \<not> release_artifact listing a"
proof -
  assume none: "newest_artifact listing = None"
  have "filter (\<lambda>a. ar_name a = artifact_name) listing = []"
  proof (rule ccontr)
    assume "filter (\<lambda>a. ar_name a = artifact_name) listing \<noteq> []"
    then have "sort_key (\<lambda>a. - ar_id a) (filter (\<lambda>a. ar_name a = artifact_name) listing) \<noteq> []"
      by (metis length_0_conv length_sort)
    then show False using none by (auto simp: newest_artifact_def split: list.splits)
  qed
  then show ?thesis by (auto simp: release_artifact_def artifact_name_def filter_empty_conv)
qed

lemma artifact_text:
  assumes "readArtifactManifest e c runId = Some (Read_Text t)"
  shows "text_proven e c run runId runAttempt From_Artifact t"
proof -
  obtain listing a bytes where listing: "aa_artifacts (ae_api e) runId artifact_name = Inr listing"
    and a: "newest_artifact listing = Some a" "\<not> ar_expired a" "uploaded_by c runId a"
      "ar_sizeInBytes a \<le> 2 * MANIFEST_MAX_BYTES"
    and bytes: "aa_downloadArtifact (ae_api e) (ar_id a) (2 * MANIFEST_MAX_BYTES) = Inr bytes" "read_zip_text e bytes = Some (Read_Text t)"
    using assms
    by (auto simp: readArtifactManifest_def unavailable_def transient_def uploaded_by_def split: sum.splits option.splits if_splits)
  obtain entry where "readZipEntry (ae_codec e) bytes entry_name MANIFEST_MAX_BYTES = Some (Zip_Ok entry)" "t = ae_text e entry"
    using bytes(2) by (auto simp: read_zip_text_def unavailable_def split: option.splits zip_read.splits)
  then show ?thesis
    using listing a(2-4) bytes(1) newest_is_release [OF a(1)] unfolding text_proven.simps artifact_name_def by blast
qed

text \<open>The artifact of another run is never passed over in favour of a log.\<close>

lemma artifact_passed_over:
  assumes "readArtifactManifest e c runId = Some x" "\<And>r. x \<noteq> No_Manifest r False"
    and "aa_artifacts (ae_api e) runId ''dokploy-release'' = Inr listing" "release_artifact listing a"
  shows "\<exists>b. release_artifact listing b \<and> (ar_expired b \<or> uploaded_by c runId b)"
proof (cases "newest_artifact listing")
  case None
  then show ?thesis using no_release_artifact assms(4) by blast
next
  case (Some b)
  have "ar_expired b \<or> uploaded_by c runId b"
    using assms(1-3) Some by (auto simp: readArtifactManifest_def artifact_name_def uploaded_by_def split: if_splits)
  then show ?thesis using newest_is_release [OF Some] by blast
qed

lemma read_logs_from:
  "read_logs e budget incomplete logs js = Inr (logs', x) \<Longrightarrow> l \<in> set logs' \<Longrightarrow>
     l \<in> set logs \<or> (\<exists>j\<in>set js. aa_jobLog (ae_api e) (ji_id j) (16 * 1024 * 1024) = Inr l)"
  by (induction e budget incomplete logs js rule: read_logs.induct) (auto split: sum.splits if_splits)

lemma read_groups_from:
  "read_groups e budget incomplete gs = Log_Found t \<Longrightarrow> \<exists>logs. extractLogManifest logs = Inr t \<and>
     (\<forall>l\<in>set logs. \<exists>j\<in>set (concat gs). aa_jobLog (ae_api e) (ji_id j) (16 * 1024 * 1024) = Inr l)"
proof (induction gs arbitrary: budget incomplete)
  case (Cons g gs)
  then obtain logs inc bud where g: "read_logs e budget incomplete [] g = Inr (logs, inc, bud)"
    by (cases "read_logs e budget incomplete [] g") auto
  show ?case
  proof (cases "extractLogManifest logs")
    case (Inr u)
    then have "u = t" using Cons.prems g by simp
    then show ?thesis using Inr read_logs_from [OF g] by fastforce
  next
    case (Inl f)
    then have "read_groups e bud inc gs = Log_Found t"
      using Cons.prems g by (cases f) (auto simp: log_verdict_def)
    then show ?thesis using Cons.IH by fastforce
  qed
qed simp

lemma release_jobs_successful:
  "j \<in> set (rj_preferred (releaseJobs jobs i n sha name hint)) \<union> set (rj_rest (releaseJobs jobs i n sha name hint)) \<Longrightarrow>
     j \<in> set jobs \<and> successful_job i n sha j"
  by (auto simp: releaseJobs_def hinted_jobs_def Let_def dest!: in_set_takeD split: if_splits)

lemma log_text:
  assumes "readJobLogManifest e c run runAttempt hint = Log_Found t"
  shows "\<exists>jobs logs. aa_runJobs (ae_api e) (ru_id run) runAttempt = Inr jobs \<and> extractLogManifest logs = Inr t \<and>
     (\<forall>l\<in>set logs. \<exists>j\<in>set jobs. successful_job (ru_id run) runAttempt (ru_headSha run) j \<and>
        aa_jobLog (ae_api e) (ji_id j) (16 * 1024 * 1024) = Inr l)"
proof -
  obtain jobs budget incomplete where jobs: "aa_runJobs (ae_api e) (ru_id run) runAttempt = Inr jobs"
    and read: "read_groups e budget incomplete
      [rj_preferred (releaseJobs jobs (ru_id run) runAttempt (ru_headSha run) (cf_releaseJobName c) hint),
       rj_rest (releaseJobs jobs (ru_id run) runAttempt (ru_headSha run) (cf_releaseJobName c) hint)] = Log_Found t"
    using assms by (auto simp: readJobLogManifest_def Let_def simp del: read_groups.simps split: sum.splits if_splits)
  let ?jobs = "releaseJobs jobs (ru_id run) runAttempt (ru_headSha run) (cf_releaseJobName c) hint"
  obtain logs where logs: "extractLogManifest logs = Inr t"
    and each: "\<forall>l\<in>set logs. \<exists>j\<in>set (concat [rj_preferred ?jobs, rj_rest ?jobs]). aa_jobLog (ae_api e) (ji_id j) (16 * 1024 * 1024) = Inr l"
    using read_groups_from [OF read] by (elim exE conjE)
  have from_jobs: "\<exists>j\<in>set jobs. successful_job (ru_id run) runAttempt (ru_headSha run) j \<and>
      aa_jobLog (ae_api e) (ji_id j) (16 * 1024 * 1024) = Inr l" if l: "l \<in> set logs" for l
  proof -
    obtain j where j: "j \<in> set (concat [rj_preferred ?jobs, rj_rest ?jobs])" "aa_jobLog (ae_api e) (ji_id j) (16 * 1024 * 1024) = Inr l"
      using each l by (meson bspec)
    then have "j \<in> set (rj_preferred ?jobs) \<union> set (rj_rest ?jobs)" by simp
    from release_jobs_successful [OF this] j(2) show ?thesis by (intro bexI [of _ j]) simp_all
  qed
  show ?thesis by (intro exI conjI ballI) (fact jobs, fact logs, fact from_jobs)
qed

lemma rule_source_proven:
  assumes "rule_source e c run runId runAttempt hint = Inr (parsed, source)"
  shows "\<exists>t. text_proven e c run runId runAttempt source t \<and> parsed = parseReleaseManifest (ae_json e) t"
proof -
  obtain x where x: "readArtifactManifest e c runId = Some x" and going: "\<And>r. x \<noteq> No_Manifest r False"
    using assms by (auto simp: rule_source_def split: option.splits manifest_read.splits if_splits)
  consider t where "x = Read_Text t" "source = From_Artifact" "parsed = parseReleaseManifest (ae_json e) t"
    | instead where "source = From_Job_Log" "manifest_from_log e c run runAttempt hint instead = Inr parsed"
    using assms x going
    by (auto simp: rule_source_def Let_def map_sum_def split: manifest_read.splits option.splits if_splits sum.splits)
  then show ?thesis
  proof cases
    case 1
    then show ?thesis using artifact_text x by blast
  next
    case 2
    then obtain t where "readJobLogManifest e c run runAttempt hint = Log_Found t" "parsed = parseReleaseManifest (ae_json e) t"
      by (auto simp: manifest_from_log_def split: log_read.splits if_splits acceptance_result.splits)
    then show ?thesis using log_text artifact_passed_over [OF x going] 2(1) by (auto intro!: exI [of _ t])
  qed
qed

text \<open>
  C2. A release is accepted (or found to be what already runs) only when every rule holds. Its run is a
  successful push or manual run of the connection's own workflow, on the tracked branch, of this
  repository and no fork. Its manifest was read from the newest release artifact of the run, which has
  not expired, was uploaded by this run of this repository and is not too large, or from the logs of
  successful jobs of this attempt and commit; it describes this run, this attempt, the run's commit, the
  tracked branch and the connection's environment, and lists the service. The release deploys at least one
  image, and every image is pinned by digest, lies in the connection's namespace and outside of previews,
  stays in a repository the service runs, and is served by the registry under that digest. The GitHub
  environment allows the tracked branch only, and the commit is on the branch and not older than what runs.
\<close>

theorem accepted_release_proven:
  assumes "acceptRelease e c runId runAttempt hint \<in> {Acc_Accepted r, Acc_Noop r}"
  shows "(\<exists>run t m service. proven_run e c runId runAttempt run \<and> al_sha r = ru_headSha run \<and>
      text_proven e c run runId runAttempt (al_manifestSource r) t \<and> parseReleaseManifest (ae_json e) t = Inr m \<and>
      manifest_binds c run runId runAttempt m \<and> service \<in> set (rm_services m) \<and> ms_key service = cf_serviceKey c \<and>
      al_images r = ms_images service) \<and>
    al_runId r = runId \<and> al_runAttempt r = runAttempt \<and> al_environment r = cf_environment c \<and>
    al_serviceKey r = cf_serviceKey c \<and> al_images r \<noteq> [] \<and> (\<forall>x\<in>set (al_images r). image_proven e c x) \<and>
    environment_locked e c \<and> reachable_from_branch e c (al_sha r) \<and> not_older e c r"
proof -
  obtain run where run: "rule_run e c runId runAttempt = Inr run"
    using assms rule_run_Inl [of e c runId runAttempt]
    by (cases "rule_run e c runId runAttempt") (auto simp: acceptRelease_def)
  obtain parsed source where src: "rule_source e c run runId runAttempt hint = Inr (parsed, source)"
    using assms run rule_source_Inl [of e c run runId runAttempt hint]
    by (cases "rule_source e c run runId runAttempt hint") (auto simp: acceptRelease_def)
  obtain m service where man: "rule_manifest c run runId runAttempt parsed = Inr (m, service)"
    using assms run src rule_manifest_Inl [of c run runId runAttempt parsed]
    by (cases "rule_manifest c run runId runAttempt parsed") (auto simp: acceptRelease_def)
  let ?s = "stamp_of m service runId runAttempt"
  have images: "rule_images e c (ms_images service) = None"
    using assms run src man rule_images_Some [of e c "ms_images service"]
    by (cases "rule_images e c (ms_images service)") (auto simp: acceptRelease_def judge_service_def)
  have policy: "rule_policy e c = None"
    using assms run src man images rule_policy_Some [of e c]
    by (cases "rule_policy e c") (auto simp: acceptRelease_def judge_service_def)
  obtain noop where order: "rule_ordering e c ?s = Inr noop"
    using assms run src man images policy rule_ordering_Inl [of e c ?s]
    by (cases "rule_ordering e c ?s") (auto simp: acceptRelease_def judge_service_def)
  have r: "r = release_of c run runId runAttempt m service source"
    using assms run src man images policy order
    by (auto simp: acceptRelease_def judge_service_def Let_def split: if_splits)
  obtain t where proven: "text_proven e c run runId runAttempt source t" and of_text: "parsed = parseReleaseManifest (ae_json e) t"
    using rule_source_proven [OF src] by blast
  from man of_text have parsed: "parseReleaseManifest (ae_json e) t = Inr m"
    and found: "List.find (\<lambda>x. ms_key x = cf_serviceKey c) (rm_services m) = Some service"
    and binding: "manifest_binds c run runId runAttempt m"
    by (auto simp: rule_manifest_def manifest_binds_def split: sum.splits if_splits option.splits)
  from found have service: "service \<in> set (rm_services m)" "ms_key service = cf_serviceKey c" by (auto simp: find_Some_iff)
  with parse_manifest_ok [OF parsed] have "service_ok service" by (auto simp: list_all_iff)
  then have ok: "ms_images service \<noteq> []" "list_all image_ok (ms_images service)" by (auto simp: service_ok_def)
  have "not_older e c r"
    using rule_ordering_Inr(2) [OF order] by (auto simp: not_older_def r release_of_def stamp_of_def split: option.splits)
  moreover have "reachable_from_branch e c (al_sha r)"
    using rule_ordering_Inr(1) [OF order] by (simp add: r release_of_def stamp_of_def)
  moreover have "proven_run e c runId runAttempt run" using run by (simp add: rule_run_proven)
  ultimately show ?thesis
    using rule_images_None [OF images ok(2)] ok(1) rule_policy_None [OF policy] binding proven parsed service
    unfolding r release_of_def manifest_binds_def by (auto simp del: text_proven.simps)
qed

text \<open>
  C21. Only a proven run can block a connection: when a release is refused in a way that blocks the
  service, its run is a successful run of the connection's own workflow on the tracked branch. Whoever
  may create a GitHub Deployment can name any other run and blocks nothing. And whatever GitHub, the
  registry and the archive hold, the decision never throws.
\<close>

theorem only_proven_runs_block:
  "acceptRelease e c runId runAttempt hint \<noteq> Acc_Throws \<and>
   (blocks (acceptRelease e c runId runAttempt hint) \<longrightarrow> (\<exists>run. proven_run e c runId runAttempt run))"
proof (cases "rule_run e c runId runAttempt")
  case (Inl r)
  with rule_run_Inl [OF Inl] show ?thesis by (auto simp: acceptRelease_def)
next
  case run: (Inr run)
  have "acceptRelease e c runId runAttempt hint \<noteq> Acc_Throws"
    using run
    by (auto simp: acceptRelease_def judge_service_def Let_def
        dest!: rule_source_Inl rule_manifest_Inl rule_images_Some rule_policy_Some rule_ordering_Inl
        split: sum.splits prod.splits option.splits if_splits)
  with run rule_run_proven [of e c runId runAttempt run] show ?thesis by auto
qed

section \<open>A release that is accepted, and one that blocks\<close>

definition sample_sha :: string where
  "sample_sha = replicate 40 CHR ''c''"

definition sample_run :: run_info where
  "sample_run = \<lparr>ru_id = 7, ru_path = ''.github/workflows/dokploy.yml'', ru_headBranch = Some ''main'', ru_headSha = sample_sha,
     ru_event = ''push'', ru_status = ''completed'', ru_conclusion = Some ''success'', ru_repositoryId = Some 9,
     ru_headRepositoryId = Some 9, ru_htmlUrl = ''https://github.com/o/r/actions/runs/7'', ru_updatedAt = Some 100\<rparr>"

definition sample_artifact :: artifact_info where
  "sample_artifact = \<lparr>ar_id = 3, ar_name = ''dokploy-release'', ar_expired = False, ar_sizeInBytes = 300,
     ar_workflowRunId = Some 7, ar_workflowRunRepositoryId = Some 9, ar_workflowRunHeadRepositoryId = Some 9\<rparr>"

definition sample_manifest :: json where
  "sample_manifest = J_Obj [
     (''schema'', J_Str ''dokploy.release/v1''), (''sha'', J_Str sample_sha), (''delivery'', J_Str ''pull''),
     (''release'', J_Obj [(''id'', J_Str ''7-1''), (''services'', J_Arr [J_Str ''web''])]),
     (''source'', J_Obj [(''forge'', J_Str ''github''), (''ref'', J_Str ''refs/heads/main''), (''runId'', J_Str ''7''),
        (''runAttempt'', J_Num 1)]),
     (''environment'', J_Str ''production''),
     (''services'', J_Arr [J_Obj [(''key'', J_Str ''web''), (''images'', J_Arr [J_Obj [(''name'', J_Str ''web''),
        (''composeService'', J_Str ''web''), (''ref'', J_Str (''ghcr.io/o/r/web@'' @ sample_digest))]])]])]"

definition sample_accept_env :: "json option \<Rightarrow> accept_env" where
  "sample_accept_env manifest = \<lparr>
     ae_api = \<lparr>aa_branchHead = (\<lambda>b. Inr sample_sha), aa_runAttempt = (\<lambda>r a. Inr sample_run),
       aa_artifacts = (\<lambda>r n. Inr [sample_artifact]), aa_downloadArtifact = (\<lambda>a n. Inr (stored_zip entry_name [123] 77)),
       aa_runJobs = (\<lambda>r a. Inl Api_Not_Found), aa_jobLog = (\<lambda>j n. Inl Api_Not_Found),
       aa_compare = (\<lambda>a b. Inr Ahead), aa_environmentPolicy = (\<lambda>x. Inr \<lparr>ep_customBranchPolicies = True,
         ep_protectedBranches = False, ep_policies = [(''main'', ''branch'')]\<rparr>)\<rparr>,
     ae_probe = (\<lambda>host name digest. Probe_Ok (Some digest)), ae_now = 200, ae_json = (\<lambda>t. manifest), ae_text = (\<lambda>b. []),
     ae_codec = \<lparr>zc_inflate = (\<lambda>raw n. None), zc_crc32 = (\<lambda>bytes. 77)\<rparr>\<rparr>"

definition sample_facts :: connection_facts where
  "sample_facts = \<lparr>cf_repoId = 9, cf_workflowPath = ''.github/workflows/dokploy.yml'', cf_trackedBranch = ''main'',
     cf_environment = ''production'', cf_serviceKey = ''web'', cf_owner = ''o'', cf_repo = ''r'',
     cf_protectionMode = Protect_Environment, cf_registryPrefix = None, cf_registryProbeHost = None,
     cf_deployed = Some \<lparr>rs_sha = replicate 40 CHR ''b'', rs_runId = 6, rs_attempt = 1, rs_digests = []\<rparr>,
     cf_currentRepositories = [''ghcr.io/o/r/web''], cf_allowBehind = False, cf_releaseJobName = None\<rparr>"

definition accepted_of_result :: "acceptance_result \<Rightarrow> accepted_release option" where
  "accepted_of_result x = (case x of Acc_Accepted r \<Rightarrow> Some r | _ \<Rightarrow> None)"

lemma sample_accepted: "map_option al_sha (accepted_of_result
    (acceptRelease (sample_accept_env (Some sample_manifest)) sample_facts 7 1 None)) = Some sample_sha"
  by code_simp

theorem accepted_release_proven_witness:
  "\<exists>r. acceptRelease (sample_accept_env (Some sample_manifest)) sample_facts 7 1 None = Acc_Accepted r \<and>
     (\<exists>x\<in>set (al_images r). image_proven (sample_accept_env (Some sample_manifest)) sample_facts x)"
proof -
  let ?a = "acceptRelease (sample_accept_env (Some sample_manifest)) sample_facts 7 1 None"
  obtain r where r: "?a = Acc_Accepted r"
    using sample_accepted by (cases ?a) (simp_all add: accepted_of_result_def)
  then have "?a \<in> {Acc_Accepted r, Acc_Noop r}" by simp
  from accepted_release_proven [OF this] r show ?thesis by (cases "al_images r") auto
qed

lemma sample_blocked: "blocks (acceptRelease (sample_accept_env (Some (J_Obj []))) sample_facts 7 1 None)"
  by code_simp

theorem only_proven_runs_block_witness:
  "blocks (acceptRelease (sample_accept_env (Some (J_Obj []))) sample_facts 7 1 None) \<and>
   (\<exists>run. proven_run (sample_accept_env (Some (J_Obj []))) sample_facts 7 1 run)"
  using only_proven_runs_block [of "sample_accept_env (Some (J_Obj []))" sample_facts 7 1 None] sample_blocked by blast

section \<open>Releases never go back\<close>

text \<open>
  A history of releases on a branch without force pushes: each is offered to the ordering rule, with
  the compare status that its place on the branch gives and whether it is on the branch at all, and
  what is accepted is what runs from then on; a release that matches what runs is recorded like a deploy.
\<close>

definition offer ::
  "(string \<Rightarrow> nat) \<Rightarrow> release_stamp option \<Rightarrow> release_stamp \<times> bool \<Rightarrow> release_stamp option" where
  "offer position deployed x =
     (case decideOrdering deployed (fst x)
        (map_option (\<lambda>d. compare_by position (rs_sha d) (rs_sha (fst x))) deployed) (snd x) False of
        Some (Order_Accept _) \<Rightarrow> Some (fst x)
      | _ \<Rightarrow> deployed)"

lemma offer_Some:
  assumes "position (rs_sha d) = position (rs_sha (fst x)) \<Longrightarrow> rs_sha d = rs_sha (fst x)"
  shows "\<exists>e. offer position (Some d) x = Some e \<and> (e = d \<or> e = fst x \<and> not_before position d e)"
proof (cases "snd x")
  case True
  show ?thesis
  proof (cases "\<exists>noop. decideOrdering (Some d) (fst x) (Some (compare_by position (rs_sha d) (rs_sha (fst x)))) True False =
      Some (Order_Accept noop)")
    case acc: True
    have "not_before position d (fst x)" using acc ordering_accepts [where position = position, OF assms] by blast
    with acc True show ?thesis by (auto simp: offer_def)
  next
    case False
    then show ?thesis
      using True by (auto simp: offer_def split: option.splits ordering_decision.splits)
  qed
qed (simp add: offer_def decideOrdering_def)

text \<open>
  C14. Releases never go back. On a branch whose commits form a line, a release is accepted over the
  one that runs exactly when its commit comes later on the branch, or it is the same commit from a
  later run, a later attempt of the run, or the same attempt with the same digests; so after any
  sequence of releases, replayed and repeated ones included, what runs is what ran or comes later.
\<close>

theorem releases_never_regress:
  assumes "inj_on position (rs_sha ` (insert d (insert c (fst ` set xs))))"
  shows "((\<exists>noop. decideOrdering (Some d) c (Some (compare_by position (rs_sha d) (rs_sha c))) True False =
      Some (Order_Accept noop)) \<longleftrightarrow> not_before position d c) \<and>
    (\<exists>e. foldl (offer position) (Some d) xs = Some e \<and> (e = d \<or> not_before position d e))"
proof (intro conjI)
  let ?all = "insert d (insert c (fst ` set xs))"
  have same: "rs_sha a = rs_sha b" if "position (rs_sha a) = position (rs_sha b)" "a \<in> ?all" "b \<in> ?all" for a b
    using assms that by (meson imageI inj_onD)
  have "set ys \<subseteq> set xs \<Longrightarrow> \<exists>e. foldl (offer position) (Some d) ys = Some e \<and> e \<in> ?all \<and> (e = d \<or> not_before position d e)" for ys
  proof (induction ys rule: rev_induct)
    case (snoc x ys)
    then obtain e where e: "foldl (offer position) (Some d) ys = Some e" "e \<in> ?all" "e = d \<or> not_before position d e" by auto
    have x: "fst x \<in> ?all" using snoc.prems by auto
    from offer_Some [of position e x] same [OF _ e(2) x] obtain e' where
      "offer position (Some e) x = Some e'" "e' = e \<or> e' = fst x \<and> not_before position e e'" by blast
    with e x show ?case by (auto dest: not_before_trans)
  qed simp
  then show "\<exists>e. foldl (offer position) (Some d) xs = Some e \<and> (e = d \<or> not_before position d e)" by blast
  show "(\<exists>noop. decideOrdering (Some d) c (Some (compare_by position (rs_sha d) (rs_sha c))) True False =
      Some (Order_Accept noop)) \<longleftrightarrow> not_before position d c"
    by (rule ordering_accepts) (rule same, simp_all)
qed

definition sample_stamp :: "string \<Rightarrow> int \<Rightarrow> release_stamp" where
  "sample_stamp sha run = \<lparr>rs_sha = sha, rs_runId = run, rs_attempt = 1, rs_digests = []\<rparr>"

theorem releases_never_regress_witness:
  "\<exists>e. foldl (offer length) (Some (sample_stamp ''a'' 1)) [(sample_stamp ''ab'' 3, True), (sample_stamp ''a'' 2, True)] = Some e \<and>
     not_before length (sample_stamp ''a'' 1) e"
proof -
  let ?d = "sample_stamp ''a'' 1" and ?xs = "[(sample_stamp ''ab'' 3, True), (sample_stamp ''a'' 2, True)]"
  have inj: "inj_on length (rs_sha ` (insert ?d (insert ?d (fst ` set ?xs))))"
    by (simp add: sample_stamp_def inj_on_def)
  have "foldl (offer length) (Some ?d) ?xs \<noteq> Some ?d" by code_simp
  with releases_never_regress [OF inj] show ?thesis by auto
qed

end
