(* ===== verification/Release_Props.thy ===== *)
theory Release_Props
  imports Release_Poll Acceptance_Props "HOL-Library.Multiset"
begin

text \<open>
  What a tick of a connection guarantees, whatever GitHub, the database and the queue answer: a run is
  kept only as acceptance judged it in this tick, and only the newest kept release is started, after
  the gate let it go.
\<close>

section \<open>What to look at in the effects\<close>

fun verified_run :: "conn_effect poll_effect \<Rightarrow> (int \<times> int \<times> acceptance_result) option" where
  "verified_run (Conn (Verified_Run runId att result)) = Some (runId, att, result)"
| "verified_run _ = None"

fun kept_as :: "conn_effect poll_effect \<Rightarrow> acceptance_result option" where
  "kept_as (Conn (Recorded_Accepted a d)) = Some (if al_delivery a = Pull then Acc_Accepted a else Acc_Throws)"
| "kept_as (Conn (Recorded_Push a d)) = Some (if al_delivery a = Push then Acc_Accepted a else Acc_Throws)"
| "kept_as (Conn (Recorded_Noop a d)) = Some (Acc_Noop a)"
| "kept_as _ = None"

definition verified :: "conn_log \<Rightarrow> (int \<times> int \<times> acceptance_result) list" where
  "verified es = List.map_filter verified_run es"

text \<open>For each record of a release, the judgement that calls for it.\<close>

definition kept :: "conn_log \<Rightarrow> acceptance_result list" where
  "kept es = List.map_filter kept_as es"

definition calm :: "conn_effect poll_effect \<Rightarrow> bool" where
  "calm x \<longleftrightarrow> start_try x = None \<and> verified_run x = None \<and> kept_as x = None"

lemma calm_simps [simp]:
  "calm (Post_Status d st txt a)" "calm (Block_Key k u)" "calm (Mark_Revoked cid)" "calm (Patch_Watch p cur ok)"
  "calm (Deploy_Ended x)" "calm (Log_Line l)" "calm (Call_Failed m)" "\<not> calm (Start_Deploy d pl c1 outcome)"
  "calm (Conn (Applied_Event ev n))" "calm (Conn (Recorded_Processed ps))" "calm (Conn (Superseded_Releases ids))"
  "calm (Conn Cleared_Start)" "calm (Conn (Failed_Release rid))" "calm (Conn (Gate_Said pr g gd))"
  "calm (Conn (Backup_Begun rid))" "\<not> calm (Conn (Verified_Run i j res))"
  by (simp_all add: calm_def)

lemma keeps_append [simp]: "kept (xs @ ys) = kept xs @ kept ys" "verified (xs @ ys) = verified xs @ verified ys"
  by (simp_all add: kept_def verified_def map_filter_snoc)

lemma keeps_Nil [simp]: "kept [] = []" "verified [] = []"
  by (simp_all add: kept_def verified_def List.map_filter_def)

lemma keeps_Cons [simp]:
  "kept (x # xs) = (case kept_as x of None \<Rightarrow> kept xs | Some a \<Rightarrow> a # kept xs)"
  "verified (x # xs) = (case verified_run x of None \<Rightarrow> verified xs | Some a \<Rightarrow> a # verified xs)"
  by (simp_all add: kept_def verified_def List.map_filter_def split: option.split)

lemma calm_look [simp]:
  "list_all calm es \<Longrightarrow> kept es = []" "list_all calm es \<Longrightarrow> verified es = []" "list_all calm es \<Longrightarrow> starts es = []"
  by (induction es) (auto simp: calm_def)

lemma backing_calm [simp]: "list_all backing_off es \<Longrightarrow> list_all calm es"
  by (induction es) (auto elim!: backing_off.elims)

section \<open>Steps that keep and start nothing\<close>

named_theorems quietly_intro

definition quietly :: "'a conn_tick \<Rightarrow> bool" where
  "quietly m \<longleftrightarrow> does m (list_all calm) (\<lambda>_. list_all calm)"

lemma quietlyD: "quietly m \<Longrightarrow> (\<And>es. list_all calm es \<Longrightarrow> E es) \<Longrightarrow> (\<And>x es. list_all calm es \<Longrightarrow> Q x es) \<Longrightarrow>
    does m E Q"
  unfolding quietly_def by (rule does_mono)

lemma quietly_andThen [quietly_intro]: "quietly m \<Longrightarrow> (\<And>x. quietly (f x)) \<Longrightarrow> quietly (andThen m f)"
  unfolding quietly_def by (rule does_andThen, erule does_mono) (auto intro: does_mono)

lemma quietly_basic [quietly_intro]:
  "quietly (give x)" "quietly (fail_with message)" "quietly (ask f)" "quietly (look g)" "quietly (next_attempt cs k)"
  "quietly (set_statusAttempts k n)" "quietly (call e)" "quietly (patchWatch e p c)" "quietly (patch_watch e p)"
  "quietly (postStatus e w d st txt)"
  by (auto simp: quietly_def intro!: does_intro does_look)

lemma quietly_change [quietly_intro]: "(\<And>s. tk_log (f s) = tk_log s) \<Longrightarrow> quietly (change f)"
  unfolding quietly_def by (rule does_change) simp_all

lemma quietly_act [quietly_intro]: "calm x \<Longrightarrow> quietly (act x)"
  by (auto simp: quietly_def intro!: does_intro)

lemma quietly_save [quietly_intro]: "calm (Conn x) \<Longrightarrow> quietly (save e x)"
  unfolding save_def by (intro quietly_intro)

lemma quietly_if [quietly_intro]: "(b \<Longrightarrow> quietly m) \<Longrightarrow> (\<not> b \<Longrightarrow> quietly n) \<Longrightarrow> quietly (if b then m else n)"
  by simp

lemma quietly_option [quietly_intro]: "quietly m \<Longrightarrow> (\<And>x. v = Some x \<Longrightarrow> quietly (f x)) \<Longrightarrow>
    quietly (case v of None \<Rightarrow> m | Some x \<Rightarrow> f x)"
  by (cases v) auto

lemma quietly_settled [quietly_intro]: "(\<And>p. quietly (f p)) \<Longrightarrow> quietly m \<Longrightarrow>
    quietly (case v of Settled p \<Rightarrow> f p | Not_Settled \<Rightarrow> m)"
  by (cases v) auto

lemma quietly_pair [quietly_intro]: "(\<And>x y. quietly (f x y)) \<Longrightarrow> quietly (case v of (x, y) \<Rightarrow> f x y)"
  by (cases v) auto

lemma quietly_attempt [quietly_intro]: "quietly m \<Longrightarrow> quietly (attempt m)"
  unfolding quietly_def by (rule does_attempt)

lemma quietly_recover [quietly_intro]: "quietly (recover e w what message)"
  unfolding recover_def by (intro quietly_intro calm_simps)

lemma quietly_list_failed [quietly_intro]: "quietly (list_failed e w now r)"
  unfolding list_failed_def by (cases r) (auto intro!: quietly_intro)

lemma quietly_prepareTick [quietly_intro]: "quietly (prepareTick e w opts)"
proof -
  have "quietly (report_inflight e w now d)" for now d
    unfolding report_inflight_def reportEnd_def by (intro quietly_intro calm_simps)
  moreover have "quietly (after_list e w now opts r)" for now r
    unfolding after_list_def baseline_def Let_def by (cases r) (auto intro!: quietly_intro)
  ultimately show ?thesis unfolding prepareTick_def by (intro quietly_intro calm_simps)
qed

text \<open>Without a target the pass over the new deployments starts nothing.\<close>

lemma quietly_handle_one: "quietly (handle_one e w now classified None d cursor problem)"
proof -
  have advance: "quietly (advance e d cursor problem)" for problem
    unfolding advance_def by (intro quietly_intro) simp
  have "quietly (answer e w d st message cursor problem)" for st message problem
    unfolding answer_def by (intro quietly_intro advance)
  with advance show ?thesis
    unfolding handle_one_def by (auto intro!: quietly_intro split: option.split classified.split)
qed

lemma quietly_handle_each: "quietly (handle_each e w now classified None ds cursor problem)"
proof (induction ds arbitrary: cursor problem)
  case (Cons d ds)
  then show ?case by (auto intro!: quietly_intro quietly_handle_one split: pass_step.split)
qed (simp add: quietly_intro)

lemma quietly_handleFresh [quietly_intro]: "quietly (handleFresh e w t fresh classified None)"
  unfolding handleFresh_def by (intro quietly_intro quietly_handle_each)

lemma quietly_retire [quietly_intro]: "quietly (retire e w ps)"
proof -
  have "quietly (forget_status p)" for p
    unfolding forget_status_def by (intro quietly_intro) simp
  then have "quietly (answer_inactive e w ps)"
    by (induction ps) (auto intro!: quietly_intro)
  then show ?thesis unfolding retire_def by (intro quietly_intro calm_simps)
qed

lemma quietly_retireNotNewerThan [quietly_intro]: "quietly (retireNotNewerThan e w a)"
  unfolding retireNotNewerThan_def load_pending_def by (intro quietly_intro)

section \<open>What is kept was judged\<close>

definition judged_in :: "conn_env \<Rightarrow> connection_record \<Rightarrow> int \<times> int \<times> acceptance_result \<Rightarrow> bool" where
  "judged_in e r v = (case v of (runId, att, result) \<Rightarrow>
     \<exists>h hint. result = acceptRelease (ce_accept_env e h) (cr_facts r) runId att hint)"

text \<open>The effects of judging some of the candidates, from a discovery on.\<close>

definition judging :: "conn_env \<Rightarrow> connection_record \<Rightarrow> discovery \<Rightarrow> conn_log \<Rightarrow> bool" where
  "judging e r st es \<longleftrightarrow> starts es = [] \<and> length (kept es) \<le> 1 \<and>
     (dc_settled st \<longrightarrow> kept es = [] \<and> verified es = []) \<and>
     set (kept es) \<subseteq> (\<lambda>(runId, att, result). result) ` set (verified es) - {Acc_Throws} \<and>
     list_all (judged_in e r) (verified es) \<and>
     (ce_takeVerification e = None \<longrightarrow> dc_verified st + length (verified es) \<le> max 5 (dc_verified st))"

definition judged_to :: "conn_env \<Rightarrow> connection_record \<Rightarrow> discovery \<Rightarrow> discovery \<Rightarrow> conn_log \<Rightarrow> bool" where
  "judged_to e r st st' es \<longleftrightarrow> judging e r st es \<and> dc_verified st' = dc_verified st + length (verified es) \<and>
     (dc_settled st \<or> kept es \<noteq> [] \<longrightarrow> dc_settled st')"

lemma judging_append:
  assumes "judged_to e r st st' es" and "judging e r st' fs"
  shows "judging e r st (es @ fs)"
  using assms by (cases "kept es") (auto simp: judged_to_def judging_def max_def split: if_splits)

lemma judged_to_append:
  "judged_to e r st st' es \<Longrightarrow> judged_to e r st' st'' fs \<Longrightarrow> judged_to e r st st'' (es @ fs)"
  using judging_append [of e r st st' es fs] by (auto simp: judged_to_def)


lemma does_save: "Q () [Conn x] \<Longrightarrow> (\<And>message. E [Call_Failed message]) \<Longrightarrow> does (save e x) E Q"
  unfolding save_def by (intro does_intro) auto

text \<open>A quiet step after an accepted judgement, which ends in a discovery that is settled if it must be.\<close>

definition after_verified :: "conn_env \<Rightarrow> connection_record \<Rightarrow> discovery \<Rightarrow> acceptance_result \<Rightarrow> conn_log \<Rightarrow> bool" where
  "after_verified e r st result es \<longleftrightarrow> starts es = [] \<and> verified es = [] \<and> (kept es = [] \<or> kept es = [result] \<and> result \<noteq> Acc_Throws)"

definition verified_to ::
  "conn_env \<Rightarrow> connection_record \<Rightarrow> discovery \<Rightarrow> acceptance_result \<Rightarrow> discovery \<Rightarrow> conn_log \<Rightarrow> bool" where
  "verified_to e r st result st' es \<longleftrightarrow> after_verified e r st result es \<and> dc_verified st' = dc_verified st \<and>
     (dc_settled st \<or> kept es \<noteq> [] \<longrightarrow> dc_settled st')"

lemma discovery_fields [simp]:
  "dc_verified (classify_as d c st) = dc_verified st" "dc_settled (classify_as d c st) = dc_settled st"
  "dc_verified (hold_with d reason st) = dc_verified st" "dc_settled (hold_with d reason st) = dc_settled st"
  "dc_verified (handled_as now cd out how st) = dc_verified st" "dc_settled (handled_as now cd out how st) = dc_settled st"
  "dc_verified (settled_now st) = dc_verified st" "dc_settled (settled_now st)"
  by (simp_all add: classify_as_def hold_with_def handled_as_def settled_now_def)

lemma verified_to_calm: "list_all calm es \<Longrightarrow> dc_verified st' = dc_verified st \<Longrightarrow> (dc_settled st \<Longrightarrow> dc_settled st') \<Longrightarrow>
    verified_to e r st result st' es"
  by (simp add: verified_to_def after_verified_def)

lemma after_verified_calm: "list_all calm es \<Longrightarrow> after_verified e r st result es"
  by (simp add: after_verified_def)

text \<open>The effects before the record of a release and after it are calm.\<close>

lemma does_posted_then:
  assumes "\<And>es. list_all calm es \<Longrightarrow> does goon (\<lambda>fs. after_verified e' r st result (es @ fs)) (\<lambda>st' fs. verified_to e' r st result st' (es @ fs))"
  shows "does (posted_then e w c s msg st goon) (after_verified e' r st result) (verified_to e' r st result)"
  unfolding posted_then_def
  by (intro does_intro)
    (use assms [of "Post_Status (gd_id (cd_deployment c)) s msg a # es" for a es]
      in \<open>auto intro!: verified_to_calm after_verified_calm\<close>)

definition settles :: "discovery \<Rightarrow> discovery conn_tick \<Rightarrow> bool" where
  "settles st n \<longleftrightarrow> does n (list_all calm)
     (\<lambda>st' es. list_all calm es \<and> dc_verified st' = dc_verified st \<and> dc_settled st')"

lemma settles_give: "dc_verified st' = dc_verified st \<Longrightarrow> dc_settled st' \<Longrightarrow> settles st (give st')"
  by (auto simp: settles_def intro!: does_intro)

lemma settles_andThen: "quietly m \<Longrightarrow> settles st n \<Longrightarrow> settles st (andThen m (\<lambda>_. n))"
  unfolding settles_def by (rule does_andThen, erule quietlyD) (auto elim!: does_mono)

lemma does_keep:
  assumes "kept_as (Conn x) = Some result" and "result \<noteq> Acc_Throws" and "verified_run (Conn x) = None" and "settles st n" and "list_all calm es"
  shows "does (andThen (save e x) (\<lambda>_. n))
    (\<lambda>fs. after_verified e' r st result (es @ fs)) (\<lambda>st' fs. verified_to e' r st result st' (es @ fs))"
  by (rule does_andThen, rule does_save, rule does_mono [OF assms(4) [unfolded settles_def]])
     (use assms in \<open>auto simp: verified_to_def after_verified_def\<close>)

definition goes :: "discovery \<Rightarrow> discovery conn_tick \<Rightarrow> bool" where
  "goes st m \<longleftrightarrow> does m (list_all calm)
     (\<lambda>st' es. list_all calm es \<and> dc_verified st' = dc_verified st \<and> (dc_settled st \<longrightarrow> dc_settled st'))"

named_theorems goes_intro

lemma goes_give [goes_intro]: "dc_verified st' = dc_verified st \<Longrightarrow> (dc_settled st \<Longrightarrow> dc_settled st') \<Longrightarrow> goes st (give st')"
  by (auto simp: goes_def intro!: does_intro)

lemma goes_fail [goes_intro]: "goes st (fail_with message)"
  by (auto simp: goes_def intro!: does_intro)

lemma goes_andThen [goes_intro]: "quietly m \<Longrightarrow> (\<And>x. goes st (f x)) \<Longrightarrow> goes st (andThen m f)"
  unfolding goes_def by (rule does_andThen, erule quietlyD) (auto intro: does_mono)

lemma goes_if [goes_intro]: "(b \<Longrightarrow> goes st m) \<Longrightarrow> (\<not> b \<Longrightarrow> goes st n) \<Longrightarrow> goes st (if b then m else n)"
  by simp

lemma goes_posted [goes_intro]: "goes st goon \<Longrightarrow> goes st (posted_then e w c s msg st goon)"
  unfolding posted_then_def
  by (rule goes_andThen) (auto intro!: quietly_intro goes_intro split: settled.split)

lemma goes_ok: "goes st m \<Longrightarrow> does m (after_verified e r st result) (verified_to e r st result)"
  unfolding goes_def by (erule does_mono) (auto intro!: verified_to_calm after_verified_calm)

lemma quietly_deployment_age: "quietly (deployment_age c key now)"
  unfolding deployment_age_def by (auto intro!: quietly_intro split: option.split)

lemma goes_refused: "goes st (judged_refused e w r now c code' message block recheck st)"
  unfolding judged_refused_def set_recheckAfter_def
  by (auto intro!: goes_intro quietly_intro quietly_deployment_age)

lemma goes_retry: "goes st (judged_retry e w now c cause st)"
  unfolding judged_retry_def by (auto intro!: goes_intro quietly_intro split: api_failure.split)

lemma does_judged:
  "does (judged e w t r c result st) (after_verified e r st result) (verified_to e r st result)"
proof (cases result)
  case (Acc_Refused code' message block recheck)
  then show ?thesis by (simp add: judged_def goes_ok goes_refused)
next
  case (Acc_Retry cause)
  then show ?thesis by (simp add: judged_def goes_ok goes_retry)
next
  case (Acc_Noop a)
  then show ?thesis
    by (auto simp: judged_def judged_noop_def intro!: does_posted_then does_keep settles_andThen settles_give quietly_intro)
next
  case (Acc_Accepted a)
  show ?thesis
  proof (cases "al_delivery a = Push")
    case True
    with Acc_Accepted show ?thesis
      by (auto simp: judged_def judged_push_def intro!: does_posted_then does_keep settles_andThen settles_give quietly_intro)
  next
    case False
    then have pull: "al_delivery a = Pull" by (cases "al_delivery a") auto
    show ?thesis
    proof (cases "checkReleaseComplete (ce_json e) (cf_serviceKey (cr_facts r)) (al_releaseServices a) (al_runId a)
        (al_runAttempt a) (map seen_of (ti_deployments t)) (ti_now t) (al_runEndedAt a) None")
      case Complete
      have "does (andThen (save e (Recorded_Accepted a (gd_id (cd_deployment c)))) (\<lambda>_. give st'))
          (after_verified e r st (Acc_Accepted a)) (verified_to e r st (Acc_Accepted a))"
        if "dc_verified st' = dc_verified st" "dc_settled st'" for st'
        using does_keep [of "Recorded_Accepted a (gd_id (cd_deployment c))" "Acc_Accepted a" st "give st'" "[]" e e r] that pull
        by (simp add: settles_give)
      with Acc_Accepted False Complete show ?thesis
        by (simp add: judged_def judged_pull_def)
    next
      case (Incomplete missing timedOut)
      with Acc_Accepted False show ?thesis
        by (auto simp: judged_def judged_pull_def Let_def intro!: goes_ok goes_intro quietly_intro)
    qed
  qed
qed (auto simp: judged_def intro!: goes_ok goes_intro)

text \<open>One candidate, and all of them.\<close>

lemma judged_to_same: "dc_verified st' = dc_verified st \<Longrightarrow> (dc_settled st \<Longrightarrow> dc_settled st') \<Longrightarrow> list_all calm es \<Longrightarrow>
    judged_to e r st st' es"
  by (auto simp: judged_to_def judging_def)

lemma judged_to_goes: "goes st m \<Longrightarrow> does m (judging e r st) (judged_to e r st)"
  unfolding goes_def
  by (erule does_mono) (auto intro!: judged_to_same, auto simp: judging_def)

lemma judging_verified:
  assumes "\<not> dc_settled st" and "judged_in e r (runId, att, result)" and "ce_takeVerification e = None \<Longrightarrow> dc_verified st < 5"
    and "after_verified e r st1 result fs"
  shows "judging e r st (Conn (Verified_Run runId att result) # fs)"
  using assms by (auto simp: judging_def after_verified_def)

lemma judge_candidate_ok:
  "does (judge_candidate e w t r c st) (judging e r st) (judged_to e r st)"
proof (cases "dc_settled st \<or> dc_held st \<noteq> None")
  case True
  then show ?thesis
    by (auto simp: judge_candidate_def Let_def intro!: judged_to_goes goes_intro)
next
  case False
  then have st: "\<not> dc_settled st" "dc_held st = None" by auto
  let ?st = "st\<lparr>dc_verified := Suc (dc_verified st)\<rparr>"
  have may: "does (may_verify e st) (\<lambda>es. False) (\<lambda>may es. es = [] \<and> (may \<and> ce_takeVerification e = None \<longrightarrow> dc_verified st < 5))"
    unfolding may_verify_def by (auto intro!: does_intro split: option.split)
  have run: "does (judged e w t r c result ?st)
      (\<lambda>fs. judging e r st (Conn (Verified_Run runId att result) # fs))
      (\<lambda>st' fs. judged_to e r st st' (Conn (Verified_Run runId att result) # fs))"
    if "judged_in e r (runId, att, result)" "ce_takeVerification e = None \<Longrightarrow> dc_verified st < 5" for runId att result
  proof (rule does_mono [OF does_judged [of e w t r c result ?st]], goal_cases)
    case (1 es)
    with that st show ?case by (intro judging_verified)
  next
    case (2 st' es)
    then have "judging e r st (Conn (Verified_Run runId att result) # es)"
      using that st unfolding verified_to_def by (intro judging_verified) auto
    with 2 st show ?case by (auto simp: judged_to_def verified_to_def after_verified_def)
  qed
  have held: "does (give (hold_with d reason st) :: discovery conn_tick) (judging e r st) (judged_to e r st)" for d reason
    by (intro judged_to_goes goes_intro) simp_all
  have asked: "judged_in e r (i, j, acceptRelease (ce_accept_env e h) (cr_facts r) i j hint)" for h i j hint
    unfolding judged_in_def prod.case by blast
  have verify: "does (andThen (ask (\<lambda>h. acceptRelease (ce_accept_env e h) (cr_facts r) (cd_runId c) (cd_attempt c) (Some (cd_hint c))))
      (\<lambda>result. andThen (act (Conn (Verified_Run (cd_runId c) (cd_attempt c) result))) (\<lambda>_. judged e w t r c result ?st)))
      (judging e r st) (judged_to e r st)"
    if "ce_takeVerification e = None \<Longrightarrow> dc_verified st < 5"
    by (intro does_intro, unfold append_Nil append_Cons, rule run) (blast intro: asked that)+
  have checked: "does (andThen (may_verify e st) (\<lambda>may. if \<not> may then give (hold_with d reason st)
      else andThen (ask (\<lambda>h. acceptRelease (ce_accept_env e h) (cr_facts r) (cd_runId c) (cd_attempt c) (Some (cd_hint c))))
        (\<lambda>result. andThen (act (Conn (Verified_Run (cd_runId c) (cd_attempt c) result))) (\<lambda>_. judged e w t r c result ?st))))
      (judging e r st) (judged_to e r st)" for d reason
    by (rule does_andThen, rule does_mono [OF may]) (auto intro: held verify)
  show ?thesis
    unfolding judge_candidate_def Let_def
    by (auto simp: st intro!: does_andThen [OF does_look] held checked)
qed

lemma judge_all_ok: "does (judge_all e w t r cs st) (judging e r st) (judged_to e r st)"
proof (induction cs arbitrary: st)
  case Nil
  then show ?case by (auto intro!: judged_to_goes goes_intro)
next
  case (Cons c cs)
  show ?case
    unfolding judge_all.simps
    by (rule does_andThen, rule does_mono [OF judge_candidate_ok])
      (auto intro!: does_mono [OF Cons.IH] intro: judging_append judged_to_append)
qed

definition discovered :: "conn_env \<Rightarrow> connection_record \<Rightarrow> conn_log \<Rightarrow> bool" where
  "discovered e r es \<longleftrightarrow> starts es = [] \<and> length (kept es) \<le> 1 \<and>
     set (kept es) \<subseteq> (\<lambda>(runId, att, result). result) ` set (verified es) - {Acc_Throws} \<and>
     list_all (judged_in e r) (verified es) \<and> (ce_takeVerification e = None \<longrightarrow> length (verified es) \<le> 5)"

lemma discover_ok: "does (discover e w t r) (discovered e r) (\<lambda>_. discovered e r)"
proof -
  have first: "discovered e r (es @ fs)" if "judging e r (first_discovery cl) es" "list_all calm fs" for cl es fs
    using that by (auto simp: judging_def discovered_def first_discovery_def max_def split: if_splits)
  have "does (andThen (judge_all e w t r cs (first_discovery cl)) (\<lambda>st.
      andThen (if dc_handled st \<noteq> [] then save e (Recorded_Processed (dc_handled st)) else give ()) (\<lambda>_.
      handleFresh e w t fresh (dc_classified st) None))) (discovered e r) (\<lambda>_. discovered e r)" for cs cl fresh
  proof (rule does_andThen, rule does_mono [OF judge_all_ok], goal_cases)
    case (1 es)
    then show ?case using first [of cl es "[]"] by simp
  next
    case (2 st es)
    then have "judging e r (first_discovery cl) es" by (simp add: judged_to_def)
    then show ?case by (auto intro!: quietlyD quietly_intro first)
  qed
  then show ?thesis by (simp add: discover_def Let_def split: prod.split)
qed

section \<open>What is started was let go\<close>

definition only_start :: "(conn_log \<Rightarrow> int \<Rightarrow> deploy_payload \<Rightarrow> bool) \<Rightarrow> conn_log \<Rightarrow> bool" where
  "only_start P es \<longleftrightarrow> list_all calm es \<or>
     (\<exists>pre d payload c outcome post. es = pre @ Start_Deploy d payload c outcome # post \<and>
        list_all calm pre \<and> list_all calm post \<and> P pre d payload)"

lemma only_start_calm [simp]: "list_all calm es \<Longrightarrow> only_start P es"
  by (simp add: only_start_def)

lemma only_start_before:
  assumes "only_start P es" and "list_all calm xs" and "\<And>pre d payload. P pre d payload \<Longrightarrow> Q (xs @ pre) d payload"
  shows "only_start Q (xs @ es)"
proof (cases "list_all calm es")
  case False
  with assms(1) obtain pre d payload c outcome post where "es = pre @ Start_Deploy d payload c outcome # post"
    "list_all calm pre" "list_all calm post" "P pre d payload" unfolding only_start_def by blast
  then have "xs @ es = (xs @ pre) @ Start_Deploy d payload c outcome # post \<and> list_all calm (xs @ pre) \<and>
      list_all calm post \<and> Q (xs @ pre) d payload"
    using assms(2,3) by simp
  then show ?thesis unfolding only_start_def by blast
qed (use assms(2) in simp)

definition starts_only :: "(conn_log \<Rightarrow> int \<Rightarrow> deploy_payload \<Rightarrow> bool) \<Rightarrow> unit conn_tick \<Rightarrow> bool" where
  "starts_only P m \<longleftrightarrow> does m (only_start P) (\<lambda>_. only_start P)"

lemma starts_only_quiet: "quietly m \<Longrightarrow> starts_only P m"
  unfolding starts_only_def by (erule quietlyD) simp_all

lemma starts_only_after:
  assumes "does m (list_all calm) (\<lambda>x es. list_all calm es \<and> R x es)"
    and "\<And>x es. list_all calm es \<Longrightarrow> R x es \<Longrightarrow> starts_only (\<lambda>pre. P (es @ pre)) (f x)"
  shows "starts_only P (andThen m f)"
  unfolding starts_only_def
proof (rule does_andThen, rule does_mono [OF assms(1)], goal_cases)
  case (2 x es)
  then have "starts_only (\<lambda>pre. P (es @ pre)) (f x)" by (intro assms(2)) simp_all
  then show ?case
    unfolding starts_only_def by (rule does_mono) (use 2 in \<open>auto intro: only_start_before\<close>)
qed simp

lemma starts_only_quietly:
  assumes "quietly m" and "\<And>x es. list_all calm es \<Longrightarrow> starts_only (\<lambda>pre. P (es @ pre)) (f x)"
  shows "starts_only P (andThen m f)"
  by (rule starts_only_after [where R = "\<lambda>_ _. True"]) (use assms in \<open>auto simp: quietly_def\<close>)

lemma starts_only_run_release:
  assumes "P [] d payload"
  shows "starts_only P (run_release e w now p d payload)"
proof -
  have *: "quietly (reject e w p d reason)" "quietly (release_start_failed e w p d key message)"
    "quietly (forget_status p)" "quietly (set_startFailures k n)" for reason key message k n
    unfolding reject_def release_start_failed_def forget_status_def set_startFailures_def
    by (auto intro!: quietly_intro)
  have quiet: "quietly (case outcome of
       Start_Throws message \<Rightarrow> release_start_failed e w p d (start_key w p) message
     | Start_Stale \<Rightarrow> set_startFailures (start_key w p) None
     | Start_Rejected reason \<Rightarrow> andThen (set_startFailures (start_key w p) None) (\<lambda>_. reject e w p d reason)
     | Start_Started \<Rightarrow> andThen (set_startFailures (start_key w p) None) (\<lambda>_.
         andThen (forget_status p) (\<lambda>_.
         andThen (postStatus e w d D_In_Progress accepted_text) (\<lambda>_.
         patch_watch e (checked_patch now None)))))" for outcome
    by (cases outcome) (auto intro!: quietly_intro *)
  have "only_start P (Start_Deploy d payload c outcome # es)" if "list_all calm es" for c outcome es
    unfolding only_start_def using that assms by (intro disjI2 exI [of _ "[]"]) auto
  then show ?thesis
    unfolding starts_only_def run_release_def by (auto intro!: does_intro quietlyD [OF quiet])
qed

lemma quietly_backup_done: "quietly (backup_done e w now r p)"
  unfolding backup_done_def backup_running_def set_backupRuns_def
  by (auto intro!: quietly_intro split: option.split)

lemma starts_only_startRelease:
  assumes "\<And>pre payload. list_all calm pre \<Longrightarrow> releasePayload r p (run_url w p) = Some payload \<Longrightarrow> P pre d payload"
  shows "starts_only P (startRelease e w now r p d)"
proof (cases "releasePayload r p (run_url w p)")
  case None
  then show ?thesis
    by (auto simp: startRelease_def reject_def intro!: starts_only_quiet quietly_intro)
next
  case (Some payload)
  have "starts_only P (andThen (backup_done e w now r p) (\<lambda>ready. if \<not> ready then give () else run_release e w now p d payload))"
    by (rule starts_only_quietly [OF quietly_backup_done])
      (auto intro!: starts_only_quiet quietly_intro starts_only_run_release assms Some)
  with Some show ?thesis by (simp add: startRelease_def)
qed

definition let_go :: "conn_env \<Rightarrow> watch_row \<Rightarrow> connection_record \<Rightarrow> pending_release \<Rightarrow> conn_log \<Rightarrow> int \<Rightarrow> deploy_payload \<Rightarrow> bool" where
  "let_go e w r p pre d payload \<longleftrightarrow> pr_githubDeploymentId p = Some d \<and> releasePayload r p (run_url w p) = Some payload \<and>
     \<not> foreign_stop (cr_gate r) \<and>
     (\<exists>b h. gate_answer e r p h = Gate_Deploy b \<and> Conn (Gate_Said p (cr_gate r) (Gate_Deploy b)) \<in> set pre)"

lemma quietly_announce: "quietly (announce e w p st message)"
  unfolding announce_def by (auto intro!: quietly_intro split: option.split)

lemma starts_only_settle_newest: "starts_only (let_go e w r p) (settle_newest e w now r p)"
proof (cases "foreign_stop (cr_gate r) \<or> pr_githubDeploymentId p = None")
  case True
  then show ?thesis
    by (auto simp: settle_newest_def intro!: starts_only_quiet quietly_intro split: option.split)
next
  case False
  then obtain d where d: "pr_githubDeploymentId p = Some d" "\<not> foreign_stop (cr_gate r)" by auto
  have asked: "does (ask_gate e r p) (list_all calm)
      (\<lambda>x es. list_all calm es \<and> Conn (Gate_Said p (cr_gate r) x) \<in> set es \<and> (\<exists>h. x = gate_answer e r p h))"
    unfolding ask_gate_def by (auto intro!: does_intro)
  have next_step: "starts_only (\<lambda>pre. let_go e w r p (es @ pre)) (case x of
        Gate_Waiting reason names \<Rightarrow> announce e w p D_Queued (describeGateDecision (ce_ellipsis e) x)
      | Gate_Blocked reason failed missing timedOut \<Rightarrow> announce e w p D_Failure (describeGateDecision (ce_ellipsis e) x)
      | Gate_Deploy overridden \<Rightarrow> startRelease e w now r p d)"
    if "Conn (Gate_Said p (cr_gate r) x) \<in> set es \<and> (\<exists>h. x = gate_answer e r p h)" for x es
  proof (cases x)
    case (Gate_Deploy b)
    with that d show ?thesis
      by (auto simp: let_go_def intro!: starts_only_startRelease) metis
  qed (auto intro!: starts_only_quiet quietly_announce)
  show ?thesis
    using d by (auto simp: settle_newest_def intro!: starts_only_after [OF asked] next_step)
qed

definition was_superseded :: "pending_release \<Rightarrow> conn_log \<Rightarrow> bool" where
  "was_superseded p es \<longleftrightarrow> (\<exists>ids. Conn (Superseded_Releases ids) \<in> set es \<and> pr_releaseId p \<in> set ids)"

lemma does_retire: "does (retire e w ps) (list_all calm) (\<lambda>_ es. list_all calm es \<and> (\<forall>p\<in>set ps. was_superseded p es))"
proof (cases "ps = []")
  case False
  have "does (andThen (save e (Superseded_Releases (map pr_releaseId ps))) (\<lambda>_. save e Cleared_Start)) (list_all calm)
      (\<lambda>_ es. list_all calm es \<and> (\<forall>p\<in>set ps. was_superseded p es))"
    by (intro does_intro does_save) (auto simp: was_superseded_def)
  moreover have "quietly (answer_inactive e w ps)"
  proof (induction ps)
    case (Cons p ps)
    then show ?case unfolding answer_inactive.simps forget_status_def by (intro quietly_intro) simp_all
  qed (simp add: quietly_intro)
  ultimately show ?thesis
    using False unfolding retire_def if_not_P [OF False]
    by (intro does_andThen [of "answer_inactive e w ps"])
      (rule quietlyD; auto simp: was_superseded_def elim!: does_mono)
qed (auto simp: retire_def intro!: does_intro)

lemma newestFirst_sorted:
  assumes "newestFirst ps = p # older"
  shows "mset ps = add_mset p (mset older)" and "\<And>q. q \<in> set ps \<Longrightarrow> notNewerThan q (pr_runId p) (pr_runAttempt p)"
proof -
  show "mset ps = add_mset p (mset older)"
    using arg_cong [OF assms, of mset] by (simp add: newestFirst_def)
  let ?ks = "map (\<lambda>p. - pr_runId p) (p # older)"
  have sorted: "sorted ?ks" unfolding assms [symmetric] newestFirst_def by (rule sorted_sort_key)
  fix q assume q: "q \<in> set ps"
  then have "q \<in> set (newestFirst ps)" by (simp add: newestFirst_def)
  with assms have mem: "q = p \<or> q \<in> set older" by auto
  with sorted have le: "pr_runId q \<le> pr_runId p" by auto
  have att: "pr_runAttempt q \<le> pr_runAttempt p" if "pr_runId q = pr_runId p"
  proof -
    let ?same = "filter (\<lambda>x. - pr_runId x = - pr_runId p)"
    have "?same (newestFirst ps) = ?same (sort_key (\<lambda>p. - pr_runAttempt p) ps)"
      unfolding newestFirst_def by (rule sort_key_stable)
    moreover have "sorted (map (\<lambda>p. - pr_runAttempt p) (?same (sort_key (\<lambda>p. - pr_runAttempt p) ps)))"
      by (intro sorted_filter) (rule sorted_sort_key)
    ultimately have "sorted (map (\<lambda>p. - pr_runAttempt p) (p # ?same older))" by (simp add: assms)
    with mem that show ?thesis by auto
  qed
  from le att show "notNewerThan q (pr_runId p) (pr_runAttempt p)" by (auto simp: notNewerThan_def)
qed

text \<open>The choice among the kept releases that were read.\<close>

definition chosen_newest :: "connection_record \<Rightarrow> pending_release list \<Rightarrow> pending_release \<Rightarrow> conn_log \<Rightarrow> bool" where
  "chosen_newest r waiting p pre \<longleftrightarrow> p \<in> set waiting \<and> \<not> too_old r p \<and>
     (\<forall>q\<in>set waiting. too_old r q \<or> notNewerThan q (pr_runId p) (pr_runAttempt p)) \<and>
     (\<forall>q\<in>set (remove1 p waiting). was_superseded q pre)"

lemma chosen_newestI:
  assumes first: "newestFirst (filter (\<lambda>p. \<not> too_old r p) waiting) = p # older"
    and old: "\<forall>q\<in>set (filter (too_old r) waiting). was_superseded q pre" and rest: "\<forall>q\<in>set older. was_superseded q pre"
  shows "chosen_newest r waiting p pre"
proof -
  note live = newestFirst_sorted [OF first]
  have "set (filter (\<lambda>p. \<not> too_old r p) waiting) = insert p (set older)"
    using arg_cong [OF live(1), of set_mset] by simp
  then have p: "p \<in> set waiting" "\<not> too_old r p" by auto
  have "mset waiting = mset (filter (too_old r) waiting) + mset (filter (\<lambda>p. \<not> too_old r p) waiting)"
    by (simp add: multiset_partition [symmetric])
  also have "\<dots> = add_mset p (mset (filter (too_old r) waiting @ older))" using live(1) by simp
  finally have "mset waiting = add_mset p (mset (filter (too_old r) waiting @ older))" .
  then have "mset (remove1 p waiting) = mset (filter (too_old r) waiting @ older)"
    unfolding mset_remove1 by (simp only: add_mset_remove_trivial)
  then have "set (remove1 p waiting) = set (filter (too_old r) waiting @ older)" by (rule mset_eq_setD)
  then have "set (remove1 p waiting) = set (filter (too_old r) waiting) \<union> set older" by (simp only: set_append)
  then have "\<forall>q\<in>set (remove1 p waiting). was_superseded q pre" using old rest by blast
  moreover have "\<forall>q\<in>set waiting. too_old r q \<or> notNewerThan q (pr_runId p) (pr_runAttempt p)"
    using live(2) by auto
  ultimately show ?thesis unfolding chosen_newest_def using p by blast
qed

definition released :: "conn_env \<Rightarrow> watch_row \<Rightarrow> conn_log \<Rightarrow> int \<Rightarrow> deploy_payload \<Rightarrow> bool" where
  "released e w pre d payload \<longleftrightarrow> (\<exists>r p h1 h2. ce_record e h2 = Some r \<and>
     chosen_newest r (filter (\<lambda>p. pr_delivery p = Pull) (ce_pending e h1)) p pre \<and> let_go e w r p pre d payload)"

lemma superseded_more: "was_superseded q es \<Longrightarrow> was_superseded q (xs @ es @ ys)"
  by (auto simp: was_superseded_def)

lemma chosen_newest_more: "chosen_newest r waiting p pre \<Longrightarrow> chosen_newest r waiting p (xs @ pre)"
  unfolding chosen_newest_def using superseded_more [of _ pre xs "[]"] by auto

lemma let_go_more: "let_go e w r p pre d payload \<Longrightarrow> let_go e w r p (xs @ pre) d payload"
  unfolding let_go_def by auto

lemma released_more: "released e w pre d payload \<Longrightarrow> released e w (xs @ pre) d payload"
  unfolding released_def by (blast intro: chosen_newest_more let_go_more)

lemma starts_only_mono: "starts_only P m \<Longrightarrow> (\<And>pre d payload. P pre d payload \<Longrightarrow> Q pre d payload) \<Longrightarrow> starts_only Q m"
  unfolding starts_only_def by (erule does_mono) (use only_start_before [of P _ "[]" Q] in auto)

lemma starts_only_settle: "starts_only (released e w) (settle_tick e w now)"
proof -
  have loaded: "does (load_pending e) (list_all calm)
      (\<lambda>waiting es. list_all calm es \<and> (\<exists>h. waiting = filter (\<lambda>p. pr_delivery p = Pull) (ce_pending e h)))"
    unfolding load_pending_def by (auto intro!: does_intro)
  have found: "does (andThen (call e) (\<lambda>_. ask (ce_record e))) (list_all calm)
      (\<lambda>found es. list_all calm es \<and> (\<exists>h. found = ce_record e h))"
    by (auto intro!: does_intro)
  have newest: "starts_only (\<lambda>pre. released e w (es @ pre)) (case newestFirst (filter (\<lambda>p. \<not> too_old r p) waiting) of
        [] \<Rightarrow> give () | p # older \<Rightarrow> andThen (retire e w older) (\<lambda>_. settle_newest e w now r p))"
    if old: "\<forall>q\<in>set (filter (too_old r) waiting). was_superseded q es" and r: "ce_record e h2 = Some r"
      and waiting: "waiting = filter (\<lambda>p. pr_delivery p = Pull) (ce_pending e h1)" for es r waiting h1 h2
  proof (cases "newestFirst (filter (\<lambda>p. \<not> too_old r p) waiting)")
    case Nil
    then show ?thesis by (auto intro!: starts_only_quiet quietly_intro)
  next
    case (Cons p older)
    have "released e w (es @ fs @ pre) d payload"
      if "\<forall>q\<in>set older. was_superseded q fs" "let_go e w r p pre d payload" for fs pre d payload
    proof -
      have "chosen_newest r waiting p (es @ fs @ pre)"
        using old that(1) superseded_more [of _ es "[]"] superseded_more [of _ fs es pre]
        by (intro chosen_newestI [OF Cons]) (auto simp: was_superseded_def)
      moreover have "let_go e w r p (es @ fs @ pre) d payload"
        using that(2) by (auto simp: let_go_def)
      ultimately show ?thesis using r waiting unfolding released_def by blast
    qed
    then show ?thesis
      using Cons by (auto intro!: starts_only_after [OF does_retire] starts_only_mono [OF starts_only_settle_newest])
  qed
  have assoc: "andThen (call e) (\<lambda>_. andThen (ask (ce_record e)) f) = andThen (andThen (call e) (\<lambda>_. ask (ce_record e))) f" for f
    by (auto simp: andThen_def fun_eq_iff split: prod.split sum.split)
  show ?thesis
    unfolding settle_tick_def assoc
  proof (rule starts_only_after [OF loaded], goal_cases)
    case (1 waiting es)
    then obtain h1 where h1: "waiting = filter (\<lambda>p. pr_delivery p = Pull) (ce_pending e h1)" by blast
    show ?case
    proof (cases "waiting = []")
      case False
      show ?thesis
        unfolding if_not_P [OF False]
      proof (rule starts_only_after [OF found], goal_cases)
        case (1 v fs)
        show ?case
        proof (cases v)
          case (Some r)
          with 1 obtain h2 where h2: "ce_record e h2 = Some r" by auto
          show ?thesis
            unfolding Some option.case
            by (rule starts_only_after [OF does_retire], rule starts_only_mono [OF newest [OF _ h2 h1]])
               (auto simp: was_superseded_def intro: released_more)
        qed (auto intro!: starts_only_quiet quietly_intro)
      qed
    qed (auto intro!: starts_only_quiet quietly_intro)
  qed
qed

section \<open>The tick\<close>

lemma only_start_keeps: "only_start P es \<Longrightarrow> kept es = [] \<and> verified es = []"
  unfolding only_start_def by auto

definition tick_started :: "conn_env \<Rightarrow> watch_row \<Rightarrow> conn_log \<Rightarrow> bool" where
  "tick_started e w es \<longleftrightarrow> starts es = [] \<or>
     (\<exists>pre d payload c outcome post. es = pre @ Start_Deploy d payload c outcome # post \<and>
        starts pre = [] \<and> starts post = [] \<and> released e w pre d payload)"

definition tick_kept :: "conn_env \<Rightarrow> conn_log \<Rightarrow> bool" where
  "tick_kept e es \<longleftrightarrow> kept es = [] \<and> verified es = [] \<or>
     (\<exists>r h. ce_record e h = Some r \<and> length (kept es) \<le> 1 \<and>
        set (kept es) \<subseteq> (\<lambda>(runId, att, result). result) ` set (verified es) - {Acc_Throws} \<and>
        list_all (judged_in e r) (verified es) \<and> (ce_takeVerification e = None \<longrightarrow> length (verified es) \<le> 5))"

definition tick_ok :: "conn_env \<Rightarrow> watch_row \<Rightarrow> conn_log \<Rightarrow> bool" where
  "tick_ok e w es \<longleftrightarrow> tick_started e w es \<and> tick_kept e es"

lemma tick_ok_calm: "list_all calm es \<Longrightarrow> tick_ok e w es"
  by (simp add: tick_ok_def tick_started_def tick_kept_def)

lemma tick_started_append:
  assumes "starts es = []" and "only_start (released e w) fs"
  shows "tick_started e w (es @ fs)"
proof (cases "list_all calm fs")
  case False
  with assms(2) obtain pre d payload c outcome post where fs: "fs = pre @ Start_Deploy d payload c outcome # post"
    "list_all calm pre" "list_all calm post" "released e w pre d payload" unfolding only_start_def by blast
  have "es @ fs = (es @ pre) @ Start_Deploy d payload c outcome # post" using fs(1) by simp
  moreover have "starts (es @ pre) = []" "starts post = []" using assms(1) fs(2,3) by simp_all
  moreover have "released e w (es @ pre) d payload" using fs(4) by (rule released_more)
  ultimately show ?thesis unfolding tick_started_def by blast
qed (use assms(1) in \<open>simp add: tick_started_def\<close>)

lemma tick_ok_append:
  assumes "list_all calm ds" and "discovered e r es" and "ce_record e h = Some r" and "only_start (released e w) fs"
  shows "tick_ok e w (ds @ es @ fs)"
proof -
  have "tick_started e w ((ds @ es) @ fs)"
    using assms by (intro tick_started_append) (simp_all add: discovered_def)
  moreover have "tick_kept e (ds @ es @ fs)"
    using assms only_start_keeps [OF assms(4)] unfolding tick_kept_def discovered_def by auto
  ultimately show ?thesis by (simp add: tick_ok_def)
qed

lemma released_cursor: "released e (w\<lparr>w_lastSeen := c\<rparr>) = released e w"
  by (simp add: released_def let_go_def run_url_def fun_eq_iff)

lemma pollConnectionInner_ok: "does (pollConnectionInner e w) (tick_ok e w) (\<lambda>_. tick_ok e w)"
proof -
  have paused: "quietly (watch_paused e w)" unfolding watch_paused_def by (intro quietly_intro)
  have step: "starts_only (\<lambda>pre. released e w (es @ pre)) (settle_tick e (w\<lparr>w_lastSeen := c\<rparr>) now)" for es c now
    by (rule starts_only_mono [OF starts_only_settle]) (simp add: released_cursor released_more)
  have look: "starts_only (\<lambda>pre. released e w (es @ pre)) (andThen (look tk_progress)
      (\<lambda>cursor. settle_tick e (w\<lparr>w_lastSeen := cursor\<rparr>) now))" for es now
    by (rule starts_only_quietly, rule quietly_basic) (use step [of "es @ fs" for fs] in simp)
  have "starts_only (released e w) (andThen (watch_paused e w) (\<lambda>paused. if paused then give ()
      else andThen (look tk_progress) (\<lambda>cursor. settle_tick e (w\<lparr>w_lastSeen := cursor\<rparr>) now)))" for now
    by (rule starts_only_quietly [OF paused]) (auto intro: starts_only_quiet quietly_basic look)
  note settled = this [unfolded starts_only_def]
  have main: "does (andThen (change (\<lambda>s. s\<lparr>tk_progress := Some (ti_lastSeen t)\<rparr>)) (\<lambda>_.
      andThen (discover e w t r) (\<lambda>_. andThen (watch_paused e w) (\<lambda>paused. if paused then give ()
        else andThen (look tk_progress) (\<lambda>cursor. settle_tick e (w\<lparr>w_lastSeen := cursor\<rparr>) (ti_now t))))))
      (\<lambda>fs. tick_ok e w (es @ fs)) (\<lambda>_ fs. tick_ok e w (es @ fs))"
    if "list_all calm es" "ce_record e h = Some r" for t r h es
  proof (rule does_andThen, rule does_change, simp, simp, rule does_andThen, rule does_mono [OF discover_ok], goal_cases)
    case (1 fs)
    with that show ?case using tick_ok_append [of es e r fs h w "[]"] by simp
  next
    case (2 x fs)
    with that show ?case by (auto intro!: does_mono [OF settled] tick_ok_append)
  qed
  show ?thesis
    unfolding pollConnectionInner_def
  proof (rule does_andThen, rule does_call, rule does_andThen, rule does_ask, goal_cases)
    case (1 h)
    show ?case
    proof (cases "ce_record e h")
      case (Some r)
      note r = Some
      show ?thesis
        unfolding Some option.case append_Nil
      proof (rule does_andThen, rule quietlyD [OF quietly_prepareTick], goal_cases)
        case (2 v es)
        show ?case
        proof (cases v)
          case (Some t)
          with main [OF 2 r] show ?thesis by simp
        qed (use 2 in \<open>auto intro!: does_intro tick_ok_calm\<close>)
      qed (rule tick_ok_calm)
    qed (auto intro!: does_intro tick_ok_calm)
  qed (rule tick_ok_calm, simp)
qed

lemma pollConnectionWatch_log:
  "\<exists>es. tk_log (snd (pollConnectionWatch e w s)) = tk_log s @ es \<and> tick_ok e w es"
proof -
  have "does (pollConnectionWatch e w) (tick_ok e w) (\<lambda>_. tick_ok e w)"
    unfolding pollConnectionWatch_def
  proof (rule does_rescue, rule does_mono [OF pollConnectionInner_ok], goal_cases)
    case (1 es)
    have "tick_ok e w (es @ fs)" if "list_all calm fs" for fs
    proof -
      have "tick_started e w (es @ fs)"
        using 1 that unfolding tick_ok_def tick_started_def by (fastforce simp: append_assoc)
      moreover have "tick_kept e (es @ fs)" using 1 that unfolding tick_ok_def tick_kept_def by simp
      ultimately show ?thesis by (simp add: tick_ok_def)
    qed
    then show ?case by (auto intro: quietlyD [OF quietly_recover])
  qed
  from doesD [OF this, of s] show ?thesis by (auto split: sum.splits)
qed

section \<open>The answers a judgement rests on\<close>

text \<open>
  A run is verified against the answers given at that point of the tick, with the connection as it was read
  earlier in the tick; a record of a release comes after the judgement it rests on.
\<close>

definition answered :: "conn_env \<Rightarrow> conn_log \<Rightarrow> conn_log \<Rightarrow> conn_effect poll_effect \<Rightarrow> bool" where
  "answered e b h x \<longleftrightarrow>
     (\<forall>i j res. verified_run x = Some (i, j, res) \<longrightarrow> (\<exists>h0 r hint. prefix b h0 \<and> prefix h0 h \<and> ce_record e h0 = Some r \<and>
        acceptRelease (ce_accept_env e h) (cr_facts r) i j hint = res)) \<and>
     (\<forall>res. kept_as x = Some res \<longrightarrow> res \<noteq> Acc_Throws \<and> (\<exists>pre i j mid. h = b @ pre @ Conn (Verified_Run i j res) # mid))"

inductive honest :: "conn_env \<Rightarrow> conn_log \<Rightarrow> conn_log \<Rightarrow> bool" for e b where
  honest_start: "honest e b b"
| honest_step: "honest e b h \<Longrightarrow> answered e b h x \<Longrightarrow> honest e b (h @ [x])"

lemma honest_prefix: "honest e b h \<Longrightarrow> prefix b h"
  by (induction rule: honest.induct) simp_all

lemma honest_at: "honest e b h \<Longrightarrow> h = b @ pre @ x # post \<Longrightarrow> answered e b (b @ pre) x"
proof (induction arbitrary: post rule: honest.induct)
  case (honest_step h y)
  then show ?case by (cases post rule: rev_cases) auto
qed simp

definition mild :: "conn_effect poll_effect \<Rightarrow> bool" where
  "mild x \<longleftrightarrow> verified_run x = None \<and> kept_as x = None"

lemma mild_calm: "list_all calm es \<Longrightarrow> list_all mild es"
  by (auto simp: list_all_iff calm_def mild_def)

lemma mild_only_start: "only_start P es \<Longrightarrow> list_all mild es"
  unfolding only_start_def by (auto simp: mild_calm) (simp add: mild_def)

lemma honest_mild: "honest e b h \<Longrightarrow> list_all mild es \<Longrightarrow> honest e b (h @ es)"
proof (induction es rule: rev_induct)
  case (snoc x es)
  then have "honest e b ((h @ es) @ [x])" by (intro honest_step) (auto simp: answered_def mild_def)
  then show ?case by simp
qed simp

lemma honest_kept:
  assumes "honest e b (b @ pre @ Conn (Verified_Run i j res) # mid)" "res \<noteq> Acc_Throws"
    and "list_all (\<lambda>x. verified_run x = None \<and> (kept_as x = None \<or> kept_as x = Some res)) es"
  shows "honest e b (b @ pre @ Conn (Verified_Run i j res) # mid @ es)"
  using assms(3)
proof (induction es rule: rev_induct)
  case (snoc x es)
  then have "honest e b ((b @ pre @ Conn (Verified_Run i j res) # mid @ es) @ [x])"
    using assms(2) by (intro honest_step) (simp, unfold answered_def list_all_append, use assms(2) in fastforce)
  then show ?case by simp
qed (use assms(1) in simp)

text \<open>Steps that keep a log honest, once it has grown beyond \<open>h0\<close>.\<close>

definition truthful :: "conn_env \<Rightarrow> conn_log \<Rightarrow> conn_log \<Rightarrow> 'a conn_tick \<Rightarrow> bool" where
  "truthful e b h0 m \<longleftrightarrow> (\<forall>s. honest e b (tk_log s) \<and> prefix h0 (tk_log s) \<longrightarrow>
     honest e b (tk_log (snd (m s))) \<and> prefix h0 (tk_log (snd (m s))))"

lemma truthful_does:
  assumes "does m (list_all mild) (\<lambda>_. list_all mild)"
  shows "truthful e b h0 m"
  unfolding truthful_def
proof (intro allI impI)
  fix s :: conn_state
  assume s: "honest e b (tk_log s) \<and> prefix h0 (tk_log s)"
  obtain es where "tk_log (snd (m s)) = tk_log s @ es" "list_all mild es"
    using doesD [OF assms, of s] by (auto split: sum.splits)
  then show "honest e b (tk_log (snd (m s))) \<and> prefix h0 (tk_log (snd (m s)))"
    using s honest_mild [of e b "tk_log s" es] by simp
qed

lemma truthful_quietly: "quietly m \<Longrightarrow> truthful e b h0 m"
  unfolding quietly_def by (rule truthful_does, erule does_mono) (simp_all add: mild_calm)

lemma truthful_starts_only: "starts_only P m \<Longrightarrow> truthful e b h0 m"
  unfolding starts_only_def by (rule truthful_does, erule does_mono) (simp_all add: mild_only_start)

lemma truthful_andThen: "truthful e b h0 m \<Longrightarrow> (\<And>x. truthful e b h0 (f x)) \<Longrightarrow> truthful e b h0 (andThen m f)"
  by (fastforce simp: truthful_def andThen_def split: sum.splits prod.splits)

lemma kept_each:
  "verified es = [] \<Longrightarrow> kept es = [] \<or> kept es = [res] \<Longrightarrow>
     list_all (\<lambda>x. verified_run x = None \<and> (kept_as x = None \<or> kept_as x = Some res)) es"
  by (induction es) (auto split: option.splits)

lemma kept_none: "verified es = [] \<Longrightarrow> kept es = [] \<Longrightarrow> list_all mild es"
  by (induction es) (auto simp: mild_def split: option.splits)

lemma judged_after: "does (judged e w t r c result st) (after_verified e r st result) (\<lambda>_. after_verified e r st result)"
  by (rule does_mono [OF does_judged]) (simp_all add: verified_to_def)

lemma truthful_verified:
  assumes "prefix b h0" "ce_record e h0 = Some r"
  shows "truthful e b h0 (andThen (ask (\<lambda>h. acceptRelease (ce_accept_env e h) (cr_facts r) i j hint))
    (\<lambda>result. andThen (act (Conn (Verified_Run i j result))) (\<lambda>_. judged e' w t r' c result st)))"
  unfolding truthful_def
proof (intro allI impI)
  fix s :: conn_state
  let ?h = "tk_log s" and ?res = "acceptRelease (ce_accept_env e (tk_log s)) (cr_facts r) i j hint"
  let ?v = "Conn (Verified_Run i j ?res) :: conn_effect poll_effect"
  let ?s = "s\<lparr>tk_log := tk_log s @ [?v]\<rparr>"
  assume s: "honest e b ?h \<and> prefix h0 ?h"
  obtain pre where pre: "?h = b @ pre" using s honest_prefix [of e b ?h] unfolding prefix_def by blast
  have "answered e b ?h ?v"
    unfolding answered_def using assms s by auto
  with s have first: "honest e b (b @ pre @ [?v])" using honest_step [of e b ?h ?v] pre by simp
  obtain es where es: "tk_log (snd (judged e' w t r' c ?res st ?s)) = tk_log ?s @ es" "after_verified e' r' st ?res es"
    using doesD [OF judged_after [of e' w t r' c ?res st], of ?s] by (elim exE conjE) (simp split: sum.splits)
  have quiet: "verified es = []" "kept es = [] \<or> kept es = [?res] \<and> ?res \<noteq> Acc_Throws" using es(2) by (simp_all add: after_verified_def)
  have all: "list_all (\<lambda>x. verified_run x = None \<and> (kept_as x = None \<or> kept_as x = Some ?res)) es"
    using quiet by (intro kept_each) auto
  have "honest e b (b @ pre @ ?v # [] @ es)"
  proof (cases "?res = Acc_Throws")
    case True
    then have "list_all mild es" using quiet by (intro kept_none) simp_all
    then show ?thesis using honest_mild [OF first] by simp
  next
    case False
    from honest_kept [OF _ False all, of e b pre i j "[]"] first show ?thesis by simp
  qed
  then show "honest e b (tk_log (snd (andThen (ask (\<lambda>h. acceptRelease (ce_accept_env e h) (cr_facts r) i j hint))
      (\<lambda>result. andThen (act (Conn (Verified_Run i j result))) (\<lambda>_. judged e' w t r' c result st)) s))) \<and>
    prefix h0 (tk_log (snd (andThen (ask (\<lambda>h. acceptRelease (ce_accept_env e h) (cr_facts r) i j hint))
      (\<lambda>result. andThen (act (Conn (Verified_Run i j result))) (\<lambda>_. judged e' w t r' c result st)) s)))"
    using es(1) pre prefix_order.trans [of h0 ?h "?h @ ?v # es"] s by (simp add: andThen_def ask_def act_def)
qed

lemma truthful_if: "(c \<Longrightarrow> truthful e b h0 m) \<Longrightarrow> (\<not> c \<Longrightarrow> truthful e b h0 n) \<Longrightarrow> truthful e b h0 (if c then m else n)"
  by simp

lemma truthful_give: "truthful e b h0 (give x)" "truthful e b h0 (look f)" "truthful e b h0 (call e)"
  by (intro truthful_quietly quietly_intro)+

lemma truthful_discover:
  assumes "prefix b h0" "ce_record e h0 = Some r"
  shows "truthful e b h0 (discover e w t r)"
proof -
  have may: "quietly (may_verify e st)" for st
    unfolding may_verify_def by (auto intro!: quietly_intro split: option.split)
  have candidate: "truthful e b h0 (judge_candidate e w t r c st)" for c st
    unfolding judge_candidate_def Let_def
    by (intro truthful_if truthful_give truthful_andThen truthful_quietly [OF may] truthful_verified [OF assms])
      (simp add: truthful_give truthful_andThen truthful_quietly [OF may] truthful_verified [OF assms] split: option.split)
  have judge: "truthful e b h0 (judge_all e w t r cs st)" for cs st
    by (induction cs arbitrary: st) (simp_all add: truthful_give truthful_andThen candidate)
  have handled: "truthful e b h0 (if p then save e (Recorded_Processed ps) else give ())" for p ps
    by (intro truthful_quietly quietly_intro) simp
  show ?thesis
    unfolding discover_def Let_def split_def
    by (intro truthful_andThen judge handled truthful_quietly [OF quietly_handleFresh])
qed

lemma truthful_inner: "honest e b (tk_log s) \<Longrightarrow> honest e b (tk_log (snd (pollConnectionInner e w s)))"
proof -
  have body: "truthful e b h0 (case found of None \<Rightarrow> give ()
     | Some r \<Rightarrow> andThen (prepareTick e w \<lparr>po_continueOnNotModified = True, po_isNewOnBaseline = Some (new_on_baseline r)\<rparr>) (\<lambda>t.
         case t of None \<Rightarrow> give ()
         | Some t \<Rightarrow> andThen (change (\<lambda>s. s\<lparr>tk_progress := Some (ti_lastSeen t)\<rparr>)) (\<lambda>_.
             andThen (discover e w t r) (\<lambda>_. andThen (watch_paused e w) (\<lambda>paused.
             if paused then give () else andThen (look tk_progress) (\<lambda>cursor.
               settle_tick e (w\<lparr>w_lastSeen := cursor\<rparr>) (ti_now t)))))))"
    if "prefix b h0" "found = ce_record e h0" for h0 found
  proof (cases found)
    case (Some r)
    have paused: "truthful e b h0 (watch_paused e w)"
      unfolding watch_paused_def by (intro truthful_quietly quietly_intro)
    have changed: "truthful e b h0 (change (\<lambda>s. s\<lparr>tk_progress := p\<rparr>))" for p
      by (intro truthful_quietly quietly_change) simp
    have rest: "truthful e b h0 (case t of None \<Rightarrow> give ()
         | Some t \<Rightarrow> andThen (change (\<lambda>s. s\<lparr>tk_progress := Some (ti_lastSeen t)\<rparr>)) (\<lambda>_.
             andThen (discover e w t r) (\<lambda>_. andThen (watch_paused e w) (\<lambda>paused.
             if paused then give () else andThen (look tk_progress) (\<lambda>cursor.
               settle_tick e (w\<lparr>w_lastSeen := cursor\<rparr>) (ti_now t))))))" for t
      using that Some
      by (cases t) (simp add: truthful_give, simp only: option.case,
        intro truthful_andThen changed paused truthful_if truthful_give truthful_discover truthful_starts_only [OF starts_only_settle], simp_all)
    show ?thesis unfolding Some option.case by (intro truthful_andThen truthful_quietly [OF quietly_prepareTick] rest)
  qed (simp add: truthful_give)
  assume s: "honest e b (tk_log s)"
  obtain out s' where called: "call e s = (out, s')" by (cases "call e s")
  have s': "honest e b (tk_log s')"
    using truthful_give(3) [of e b "[]"] s called unfolding truthful_def by (metis Nil_prefix snd_conv)
  then show ?thesis
    using body [OF honest_prefix [OF s'] refl] called
    by (auto simp: pollConnectionInner_def andThen_def [of "call e"] andThen_def [of "ask f" for f] ask_def truthful_def split: sum.split)
qed

lemma pollConnectionWatch_honest: "honest e (tk_log s) (tk_log (snd (pollConnectionWatch e w s)))"
proof -
  let ?b = "tk_log s"
  obtain out s' where inner: "pollConnectionInner e w s = (out, s')" by (cases "pollConnectionInner e w s")
  have s': "honest e ?b (tk_log s')" using truthful_inner [of e ?b s w] honest_start inner by simp
  show ?thesis
  proof (cases out)
    case (Inl message)
    have "truthful e ?b [] (recover e w ''gha connection'' message)" by (intro truthful_quietly quietly_recover)
    then show ?thesis using s' inner Inl by (simp add: pollConnectionWatch_def rescue_def truthful_def)
  qed (use s' inner in \<open>simp add: pollConnectionWatch_def rescue_def\<close>)
qed

section \<open>The claims\<close>

lemma starts_Nil_only: "starts pre' = [] \<Longrightarrow> starts post' = [] \<Longrightarrow>
    pre @ Start_Deploy d pl c x # post = pre' @ Start_Deploy d' pl' c' x' # post' \<Longrightarrow>
    pre = pre' \<and> d = d' \<and> pl = pl' \<and> post = post'"
  by (induction pre arbitrary: pre') (auto simp: Cons_eq_append_conv append_eq_Cons_conv split: option.splits)

lemma releasePayload_pinned:
  assumes "releasePayload r p url = Some payload"
  shows "valid_digest (dp_digest payload) \<and> (\<forall>i\<in>set (pr_images p). pinned_of i \<noteq> None)"
proof -
  from assms have all: "None \<notin> set (map pinned_of (pr_images p))" and some: "pr_images p \<noteq> []"
    and payload: "dp_digest payload = pin_digest (the (hd (map pinned_of (pr_images p))))"
    by (auto simp: releasePayload_def Let_def simp del: set_map split: if_splits)
  from all have "pinned_of i \<noteq> None" if "i \<in> set (pr_images p)" for i using that by force
  with some have pinned: "\<forall>i\<in>set (pr_images p). pinned_of i \<noteq> None" "pr_images p \<noteq> []" by blast+
  then obtain i x where "hd (map pinned_of (pr_images p)) = Some x" "pinned_of i = Some x"
    by (cases "pr_images p") auto
  with pinned payload pinned_form [of "Some (J_Str (ri_ref i))" x] show ?thesis by (auto simp: pinned_of_def)
qed

text \<open>
  C1. Whatever GitHub, the database and the queue answer, a tick of a connection starts at most one
  release. The one it starts was among the accepted pull releases read in this tick and is the newest
  of them by run and attempt that is newer than what runs; before it starts, every other one was
  superseded and the deploy gate had answered deploy for it with the connection's current settings;
  the connection is neither disconnected nor blocked for a reason that is not the gate's; and every
  image of the release is pinned by digest.
\<close>

theorem release_started_only_when:
  assumes "tk_log (snd (pollConnectionWatch e w s)) = tk_log s @ pre @ Start_Deploy d payload c outcome # post"
  shows "starts pre = [] \<and> starts post = [] \<and>
    (\<exists>r p waiting h1 h2 h3 b. ce_record e h2 = Some r \<and> waiting = filter (\<lambda>p. pr_delivery p = Pull) (ce_pending e h1) \<and>
      p \<in> set waiting \<and> \<not> too_old r p \<and>
      (\<forall>q\<in>set waiting. too_old r q \<or> notNewerThan q (pr_runId p) (pr_runAttempt p)) \<and>
      (\<forall>q\<in>set (remove1 p waiting). was_superseded q pre) \<and>
      \<not> foreign_stop (cr_gate r) \<and>
      gate_answer e r p h3 = Gate_Deploy b \<and> Conn (Gate_Said p (cr_gate r) (Gate_Deploy b)) \<in> set pre \<and>
      pr_githubDeploymentId p = Some d \<and> releasePayload r p (run_url w p) = Some payload \<and>
      valid_digest (dp_digest payload) \<and> (\<forall>i\<in>set (pr_images p). pinned_of i \<noteq> None))"
proof -
  from pollConnectionWatch_log [of e w s] assms have "tick_started e w (pre @ Start_Deploy d payload c outcome # post)"
    by (auto simp: tick_ok_def)
  then obtain pre' d' payload' c' outcome' post' where
    eq: "pre @ Start_Deploy d payload c outcome # post = pre' @ Start_Deploy d' payload' c' outcome' # post'"
    and none: "starts pre' = []" "starts post' = []" and rel: "released e w pre' d' payload'"
    unfolding tick_started_def by auto
  from starts_Nil_only [OF none eq] none rel
  have quiet: "starts pre = []" "starts post = []" and "released e w pre d payload" by simp_all
  then obtain r p h1 h2 where "ce_record e h2 = Some r"
    "chosen_newest r (filter (\<lambda>p. pr_delivery p = Pull) (ce_pending e h1)) p pre" "let_go e w r p pre d payload"
    unfolding released_def by blast
  with quiet releasePayload_pinned show ?thesis unfolding chosen_newest_def let_go_def by blast
qed

text \<open>
  A result that was judged in the tick that began at \<open>b\<close>: its run was verified there, against the answers that
  were given until then, for the connection as the tick had read it.
\<close>

definition judged_before :: "conn_env \<Rightarrow> conn_log \<Rightarrow> conn_log \<Rightarrow> acceptance_result \<Rightarrow> bool" where
  "judged_before e b pre res \<longleftrightarrow> (\<exists>early i j mid h0 r hint. pre = early @ Conn (Verified_Run i j res) # mid \<and>
     prefix b h0 \<and> prefix h0 (b @ early) \<and> ce_record e h0 = Some r \<and>
     acceptRelease (ce_accept_env e (b @ early)) (cr_facts r) i j hint = res)"

lemma judged_beforeI:
  assumes "honest e b (b @ es)" "es = pre @ x # post" "kept_as x = Some res"
  shows "res \<noteq> Acc_Throws \<and> judged_before e b pre res"
proof -
  have "answered e b (b @ pre) x" using assms(1,2) honest_at by blast
  then obtain early i j mid where pre: "res \<noteq> Acc_Throws" "pre = early @ Conn (Verified_Run i j res) # mid"
    using assms(3) by (auto simp: answered_def)
  then have "answered e b (b @ early) (Conn (Verified_Run i j res))"
    using honest_at [OF assms(1), of early "Conn (Verified_Run i j res)" "mid @ x # post"] assms(2) by simp
  then obtain h0 r hint where "prefix (b :: conn_log) h0" "prefix h0 (b @ early)" "ce_record e h0 = Some r"
    "acceptRelease (ce_accept_env e (b @ early)) (cr_facts r) i j hint = res"
    unfolding answered_def by auto
  then show ?thesis using pre unfolding judged_before_def by blast
qed

text \<open>
  C12. A tick keeps a release only as acceptance judged it in the same tick: what it stores as
  accepted is a pull release, and what it stores as pushed a push release, that acceptance accepted,
  and what it stores as already running acceptance called so. The judgement precedes the record in the
  tick, it rests on what GitHub and the database answer at that point of the tick, and on the
  connection as this tick read it. The tick stores at most one release, and without a shared budget it
  verifies at most five runs.
\<close>

theorem tick_keeps_accepted:
  "\<exists>es. tk_log (snd (pollConnectionWatch e w s)) = tk_log s @ es \<and>
    length (kept es) \<le> 1 \<and> (ce_takeVerification e = None \<longrightarrow> length (verified es) \<le> 5) \<and>
    (\<forall>pre a d post. es = pre @ Conn (Recorded_Accepted a d) # post \<longrightarrow>
      al_delivery a = Pull \<and> judged_before e (tk_log s) pre (Acc_Accepted a)) \<and>
    (\<forall>pre a d post. es = pre @ Conn (Recorded_Push a d) # post \<longrightarrow>
      al_delivery a = Push \<and> judged_before e (tk_log s) pre (Acc_Accepted a)) \<and>
    (\<forall>pre a d post. es = pre @ Conn (Recorded_Noop a d) # post \<longrightarrow> judged_before e (tk_log s) pre (Acc_Noop a))"
proof -
  obtain es where es: "tk_log (snd (pollConnectionWatch e w s)) = tk_log s @ es" "tick_kept e es"
    using pollConnectionWatch_log [of e w s] by (auto simp: tick_ok_def)
  have honest: "honest e (tk_log s) (tk_log s @ es)" using pollConnectionWatch_honest [of e s w] es(1) by simp
  show ?thesis
  proof (intro exI [of _ es] conjI allI impI)
    fix pre a d post
    assume at: "es = pre @ Conn (Recorded_Accepted a d) # post"
    have k: "(if al_delivery a = Pull then Acc_Accepted a else Acc_Throws) \<noteq> Acc_Throws \<and>
        judged_before e (tk_log s) pre (if al_delivery a = Pull then Acc_Accepted a else Acc_Throws)"
      by (rule judged_beforeI [OF honest at]) simp
    then show "al_delivery a = Pull" by (auto split: if_splits)
    with k show "judged_before e (tk_log s) pre (Acc_Accepted a)" by simp
  next
    fix pre a d post
    assume at: "es = pre @ Conn (Recorded_Push a d) # post"
    have k: "(if al_delivery a = Push then Acc_Accepted a else Acc_Throws) \<noteq> Acc_Throws \<and>
        judged_before e (tk_log s) pre (if al_delivery a = Push then Acc_Accepted a else Acc_Throws)"
      by (rule judged_beforeI [OF honest at]) simp
    then show "al_delivery a = Push" by (auto split: if_splits)
    with k show "judged_before e (tk_log s) pre (Acc_Accepted a)" by simp
  next
    fix pre a d post
    assume "es = pre @ Conn (Recorded_Noop a d) # post"
    from judged_beforeI [OF honest this] show "judged_before e (tk_log s) pre (Acc_Noop a)" by simp
  qed (use es in \<open>auto simp: tick_kept_def\<close>)
qed

section \<open>A tick that accepts and starts a release\<close>

definition sample_wake :: github_deployment where
  "sample_wake = (sample_deployment 12 (Some (J_Obj [(''schema'', J_Str ''dokploy.deployment/v1''),
     (''artifact'', J_Str ''dokploy-release''), (''run_id'', J_Num 7), (''run_attempt'', J_Num 1)])))
       \<lparr>gd_task := Some ''dokploy:web''\<rparr>"

definition sample_pending :: pending_release where
  "sample_pending = \<lparr>pr_releaseId = ''r1'', pr_manifestReleaseId = ''8-1'', pr_sha = ''new'', pr_runId = 8, pr_runAttempt = 1,
     pr_delivery = Pull, pr_githubDeploymentId = Some 13,
     pr_images = [\<lparr>ri_name = ''web'', ri_composeService = ''web'', ri_ref = ''ghcr.io/o/r/web@'' @ sample_digest\<rparr>],
     pr_createdAt = 100, pr_gateState = None,
     pr_gateExpected = Some \<lparr>ex_source = From_Required, ex_names = [''test''], ex_appIds = []\<rparr>, pr_gateCheckedAt = None\<rparr>"

definition sample_record :: connection_record where
  "sample_record = \<lparr>cr_connectionId = ''c'', cr_createdAt = 50, cr_facts = sample_facts, cr_processed = [], cr_gate = sample_gc\<rparr>"

definition sample_conn_env :: conn_env where
  "sample_conn_env = \<lparr>te_now = (\<lambda>h. 150), te_throws = (\<lambda>h. None), te_token = (\<lambda>h. Some ''t''), te_blocked = (\<lambda>h k. None),
     te_status = (\<lambda>h. Status_Ok), te_written = (\<lambda>h. True), te_start = (\<lambda>h. Start_Started),
     te_inflight = (\<lambda>h. In_Missing), te_page = (\<lambda>h n tag. L_Ok [sample_wake] None), te_describe = (\<lambda>m n. m),
     ce_record = (\<lambda>h. Some sample_record), ce_pending = (\<lambda>h. [sample_pending]),
     ce_accept_env = (\<lambda>h. sample_accept_env (Some sample_manifest)), ce_takeVerification = None,
     ce_github = (\<lambda>h. sample_github), ce_recorded = (\<lambda>h outcome. True), ce_backup = None, ce_json = (\<lambda>t. None),
     ce_ellipsis = CHR ''.''\<rparr>"

definition sample_conn_state :: conn_state where
  "sample_conn_state = \<lparr>tk_log = [], tk_statusAttempts = (\<lambda>k. None), tk_startAttempts = (\<lambda>k. None), tk_progress = None,
     cs_recheckSeen = (\<lambda>k. None), cs_recheckAfter = (\<lambda>k. None), cs_startFailures = (\<lambda>k. None), cs_backedUp = (\<lambda>k. False),
     cs_backupRuns = (\<lambda>k. False), cs_lastGateStatus = (\<lambda>k. None)\<rparr>"

definition sample_tick_log :: conn_log where
  "sample_tick_log = tk_log (snd (pollConnectionWatch sample_conn_env sample_watch sample_conn_state))"

fun is_start :: "conn_effect poll_effect \<Rightarrow> bool" where
  "is_start (Start_Deploy d payload c outcome) = (d = 13)"
| "is_start _ = False"

fun stores_accepted :: "conn_effect poll_effect \<Rightarrow> bool" where
  "stores_accepted (Conn (Recorded_Accepted a d)) = True"
| "stores_accepted _ = False"

lemma sample_tick: "list_ex is_start sample_tick_log \<and> list_ex stores_accepted sample_tick_log"
  by code_simp

lemma sample_answer: "fst (runDeployGate (\<lambda>c rid outcome u. (True, u)) sample_gc (toGateRelease sample_pending) sample_github 150
    None None ()) = Gate_Deploy False"
  by code_simp

theorem release_started_only_when_witness:
  "\<exists>pre payload. Conn (Gate_Said sample_pending sample_gc (Gate_Deploy False)) \<in> set pre \<and>
     releasePayload sample_record sample_pending (run_url sample_watch sample_pending) = Some payload"
proof -
  from sample_tick obtain pre x post where split: "sample_tick_log = pre @ x # post" "is_start x"
    by (metis list_ex_iff split_list)
  then obtain d payload c outcome where x: "x = Start_Deploy d payload c outcome" by (cases x) auto
  have log: "tk_log (snd (pollConnectionWatch sample_conn_env sample_watch sample_conn_state)) =
      tk_log sample_conn_state @ pre @ Start_Deploy d payload c outcome # post"
    using split x by (simp add: sample_tick_log_def sample_conn_state_def)
  have fixed: "ce_record sample_conn_env h = Some sample_record" "ce_pending sample_conn_env h = [sample_pending]" for h
    by (simp_all add: sample_conn_env_def)
  have gate: "cr_gate sample_record = sample_gc" by (simp add: sample_record_def)
  have answer: "gate_answer sample_conn_env sample_record sample_pending h = Gate_Deploy False" for h
    using sample_answer by (simp add: gate_answer_def gate sample_conn_env_def)
  from release_started_only_when [OF log] show ?thesis
    by (auto simp: fixed gate answer split: if_splits)
qed

theorem tick_keeps_accepted_witness:
  "\<exists>a i j hint. al_delivery a = Pull \<and>
     acceptRelease (sample_accept_env (Some sample_manifest)) sample_facts i j hint = Acc_Accepted a"
proof -
  from sample_tick obtain x where "x \<in> set sample_tick_log" "stores_accepted x" by (auto simp: list_ex_iff)
  then obtain a d where "Conn (Recorded_Accepted a d) \<in> set sample_tick_log" by (auto elim!: stores_accepted.elims)
  then obtain pre post where at: "sample_tick_log = pre @ Conn (Recorded_Accepted a d) # post" by (meson split_list)
  have "tk_log (snd (pollConnectionWatch sample_conn_env sample_watch sample_conn_state)) = sample_tick_log"
    "tk_log sample_conn_state = []"
    by (simp_all add: sample_conn_state_def sample_tick_log_def)
  then have "al_delivery a = Pull \<and> judged_before sample_conn_env [] pre (Acc_Accepted a)"
    using tick_keeps_accepted [of sample_conn_env sample_watch sample_conn_state] at by auto
  moreover have "ce_record sample_conn_env h = Some sample_record" "ce_accept_env sample_conn_env h = sample_accept_env (Some sample_manifest)"
    "cr_facts sample_record = sample_facts" for h
    by (simp_all add: sample_conn_env_def sample_record_def)
  ultimately show ?thesis unfolding judged_before_def by auto
qed

end
