(* ===== verification/Deployment_Row.thy ===== *)
theory Deployment_Row
  imports Text Queue_Types
begin

text \<open>
  The rows of the \<open>deployment\<close> table (\<open>db/schema/deployment.ts\<close>) and every guarded write of them
  outside the run of a deploy: the registration of a GitHub build and its take-over
  (\<open>services/external-build.ts\<close>, \<open>services/live-build-claim.ts\<close>, the writes of
  \<open>services/github-run-poller-deps.ts\<close>), the cancel (\<open>services/deployment-cancel.ts\<close>), the
  watchdog's failure (\<open>services/deployment-watchdog.ts\<close>), the ends a deploy flow records
  (\<open>services/deployment.ts\<close>, \<open>services/deployment-error-message.ts\<close>), the restart
  (\<open>services/deployment-queue-journal.ts\<close>, \<open>utils/startup/cancel-deployments.ts\<close>) and the runs of
  schedules (\<open>utils/schedules/run-status.ts\<close>). A statement of SQL is one function on the table;
  where a function of the source makes several, other writers act in between: \<open>env i\<close> is what they
  did before its \<open>i\<close>-th statement.
\<close>

section \<open>Rows and statements\<close>

datatype deployment_status = Dep_Running | Dep_Done | Dep_Error | Dep_Cancelled

datatype run_status = Run_Queued | Run_In_Progress | Run_Deploy_Queued | Run_Completed

text \<open>
  A finish time is written as an ISO instant that ends in \<open>Z\<close>, or, as a mark that a cancelled run of a
  schedule has ended, as the same kind of instant with the offset \<open>+00:00\<close>: never equal as texts.
\<close>

datatype finish_time = At_Z int | At_Offset int

text \<open>The times that are only compared as instants are the numbers their texts parse to.\<close>

record deployment =
  dp_id :: string
  dp_title :: string
  dp_description :: "string option"
  dp_status :: "deployment_status option"
  dp_logPath :: string
  dp_pid :: "string option"
  dp_applicationId :: "string option"
  dp_composeId :: "string option"
  dp_previewDeploymentId :: "string option"
  dp_scheduleId :: "string option"
  dp_backupId :: "string option"
  dp_volumeBackupId :: "string option"
  dp_serverId :: "string option"
  dp_buildServerId :: "string option"
  dp_createdAt :: "int option"
  dp_startedAt :: "int option"
  dp_finishedAt :: "finish_time option"
  dp_errorMessage :: "string option"
  dp_buildOrigin :: "build_origin option"
  dp_buildRunUrl :: "string option"
  dp_buildRunId :: "string option"
  dp_buildRepository :: "string option"
  dp_buildCommitSha :: "string option"
  dp_buildRunStatus :: "run_status option"
  dp_buildRunStep :: "string option"
  dp_externalBuildOnly :: bool
  dp_deployQueuedAt :: "int option"
  dp_deployStartedAt :: "int option"

type_synonym table = "deployment list"

text \<open>\<open>update(...).set(f).where(P).returning()\<close>: the new table and the rows that were written.\<close>

definition update_where :: "(deployment \<Rightarrow> bool) \<Rightarrow> (deployment \<Rightarrow> deployment) \<Rightarrow> table \<Rightarrow> table \<times> table" where
  "update_where P f t = (map (\<lambda>r. if P r then f r else r) t, map f (filter P t))"

definition row_of :: "string \<Rightarrow> table \<Rightarrow> deployment option" where
  "row_of i t = find (\<lambda>r. dp_id r = i) t"

text \<open>A comparison with a null is not true, neither for \<open>inArray\<close> nor for \<open>notInArray\<close> and \<open>ne\<close>.\<close>

definition status_in :: "deployment_status list \<Rightarrow> deployment \<Rightarrow> bool" where
  "status_in xs r = (case dp_status r of None \<Rightarrow> False | Some x \<Rightarrow> x \<in> set xs)"

definition status_not_in :: "deployment_status list \<Rightarrow> deployment \<Rightarrow> bool" where
  "status_not_in xs r = (case dp_status r of None \<Rightarrow> False | Some x \<Rightarrow> x \<notin> set xs)"

definition ends_as :: "deployment_status \<Rightarrow> int \<Rightarrow> deployment \<Rightarrow> deployment" where
  "ends_as st now r = r\<lparr>dp_status := Some st, dp_finishedAt := Some (At_Z now)\<rparr>"

datatype service_kind = Kind_Application | Kind_Compose

definition owner_of :: "service_kind \<Rightarrow> deployment \<Rightarrow> string option" where
  "owner_of k r = (case k of Kind_Application \<Rightarrow> dp_applicationId r | Kind_Compose \<Rightarrow> dp_composeId r)"

text \<open>\<open>s || t || null\<close> on optional texts: an empty text counts as absent.\<close>

definition first_truthy :: "string option \<Rightarrow> string option \<Rightarrow> string option" where
  "first_truthy a b = (if truthy a then a else if truthy b then b else None)"

section \<open>A row that waits for its GitHub run\<close>

definition openRegisteredRow :: "string \<Rightarrow> deployment \<Rightarrow> bool" where
  "openRegisteredRow i r \<longleftrightarrow> dp_id r = i \<and> dp_status r = Some Dep_Running \<and>
     dp_buildOrigin r = Some Origin_Github_Actions \<and> dp_externalBuildOnly r"

definition notWaitingForGithubRun :: "deployment \<Rightarrow> bool" where
  "notWaitingForGithubRun r \<longleftrightarrow> \<not> dp_externalBuildOnly r"

record live_claim =
  lc_deploymentId :: string
  lc_kind :: service_kind
  lc_serviceId :: string
  lc_logHost :: "string option"

definition canContinueLiveBuild :: "deployment \<Rightarrow> live_claim \<Rightarrow> bool" where
  "canContinueLiveBuild r c \<longleftrightarrow> dp_status r = Some Dep_Running \<and>
     dp_buildOrigin r = Some Origin_Github_Actions \<and> dp_externalBuildOnly r \<and> dp_logPath r \<noteq> [] \<and>
     owner_of (lc_kind c) r = Some (lc_serviceId c) \<and>
     first_truthy (dp_buildServerId r) (dp_serverId r) = first_truthy (lc_logHost c) None"

definition endQueuedLiveBuild :: "int \<Rightarrow> string \<Rightarrow> deployment_status \<Rightarrow> string \<Rightarrow> table \<Rightarrow> table \<times> bool" where
  "endQueuedLiveBuild now i st message t =
     (let (t', changed) = update_where (\<lambda>r. openRegisteredRow i r \<and> dp_deployQueuedAt r \<noteq> None)
        (\<lambda>r. (ends_as st now r)\<lparr>dp_errorMessage := Some message, dp_buildRunStatus := Some Run_Completed,
           dp_buildRunStep := None\<rparr>) t
      in (t', changed \<noteq> []))"

definition other_host_message :: string where
  "other_host_message = ''The deploy wrote its log on another host than the one this deployment was registered on, so it created its own deployment.''"

definition claimed_description :: "string option \<Rightarrow> deployment \<Rightarrow> string option" where
  "claimed_description d r =
     (let extra = map_option trim d in
      if truthy extra \<and> extra \<noteq> dp_description r
      then Some (join '' - '' (filter (\<lambda>s. s \<noteq> []) (map the (filter (\<lambda>s. s \<noteq> None)
        [map_option trim (dp_description r), extra]))))
      else None)"

definition take_over :: "int \<Rightarrow> string option \<Rightarrow> deployment \<Rightarrow> deployment" where
  "take_over now d r = r\<lparr>dp_externalBuildOnly := False, dp_buildRunStatus := Some Run_Completed,
     dp_buildRunStep := None, dp_deployStartedAt := Some now,
     dp_description := (case d of None \<Rightarrow> dp_description r | Some x \<Rightarrow> if x = [] then dp_description r else Some x)\<rparr>"

definition take_over_row ::
  "int \<Rightarrow> string \<Rightarrow> service_kind \<Rightarrow> string \<Rightarrow> string option \<Rightarrow> table \<Rightarrow> table \<times> deployment option" where
  "take_over_row now i k service d t =
     (let (t', changed) = update_where (\<lambda>r. openRegisteredRow i r \<and> owner_of k r = Some service)
        (take_over now d) t
      in (t', case changed of [] \<Rightarrow> None | r # rs \<Rightarrow> Some r))"

definition claimLiveGithubBuild ::
  "(nat \<Rightarrow> table \<Rightarrow> table) \<Rightarrow> int \<Rightarrow> live_claim \<Rightarrow> string option \<Rightarrow> table \<Rightarrow> table \<times> deployment option" where
  "claimLiveGithubBuild env now c details t0 =
     (let t = env 0 t0 in
      case row_of (lc_deploymentId c) t of
        None \<Rightarrow> (t, None)
      | Some r \<Rightarrow>
          if \<not> canContinueLiveBuild r c then
            (if dp_deployQueuedAt r \<noteq> None \<and> dp_status r = Some Dep_Running \<and>
                dp_buildOrigin r = Some Origin_Github_Actions \<and> dp_externalBuildOnly r \<and>
                owner_of (lc_kind c) r = Some (lc_serviceId c)
             then (fst (endQueuedLiveBuild now (lc_deploymentId c) Dep_Error other_host_message (env 1 t)), None)
             else (t, None))
          else
            take_over_row now (lc_deploymentId c) (lc_kind c) (lc_serviceId c) (claimed_description details r) (env 1 t))"

datatype api_error = Bad_Request string | Conflict string

definition kind_name :: "service_kind \<Rightarrow> string" where
  "kind_name k = (case k of Kind_Application \<Rightarrow> ''application'' | Kind_Compose \<Rightarrow> ''compose'')"

definition send_the_id :: string where
  "send_the_id = ''Send the deploymentId that deployment.registerExternalBuild returned for this service, or leave it out.''"

definition assertLiveBuildReference :: "service_kind \<Rightarrow> string \<Rightarrow> string \<Rightarrow> table \<Rightarrow> api_error + unit" where
  "assertLiveBuildReference k service i t =
     (case row_of i t of
        None \<Rightarrow> Inl (Bad_Request (''deploymentId '' @ i @ '' does not exist. '' @ send_the_id))
      | Some r \<Rightarrow> if owner_of k r \<noteq> Some service
          then Inl (Bad_Request (''deploymentId '' @ i @ '' does not belong to this '' @ kind_name k @ ''. '' @ send_the_id))
          else Inr ())"

definition mark_queued :: "int \<Rightarrow> string \<Rightarrow> service_kind \<Rightarrow> string \<Rightarrow> table \<Rightarrow> table \<times> bool" where
  "mark_queued now i k service t =
     (let (t', changed) = update_where (\<lambda>r. openRegisteredRow i r \<and> owner_of k r = Some service)
        (\<lambda>r. r\<lparr>dp_deployQueuedAt := Some now, dp_buildRunStatus := Some Run_Deploy_Queued\<rparr>) t
      in (t', changed \<noteq> []))"

definition requestLiveBuildDeploy ::
  "(nat \<Rightarrow> table \<Rightarrow> table) \<Rightarrow> int \<Rightarrow> service_kind \<Rightarrow> string \<Rightarrow> string \<Rightarrow> table \<Rightarrow> table \<times> (api_error + unit)" where
  "requestLiveBuildDeploy env now k service i t0 =
     (let t = env 0 t0 in
      case assertLiveBuildReference k service i t of
        Inl e \<Rightarrow> (t, Inl e)
      | Inr u \<Rightarrow>
          let (t', marked) = mark_queued now i k service (env 1 t)
          in (t', if \<not> marked
                  then Inl (Conflict (''deploymentId '' @ i @ '' can no longer be continued: it ended or a deploy already took it over. Retry without deploymentId; the deploy creates its own deployment.''))
                  else Inr ()))"

definition withdrawLiveBuildDeploy :: "string \<Rightarrow> table \<Rightarrow> table" where
  "withdrawLiveBuildDeploy i t = fst (update_where (openRegisteredRow i)
     (\<lambda>r. r\<lparr>dp_deployQueuedAt := None, dp_buildRunStatus := Some Run_In_Progress\<rparr>) t)"

section \<open>What the run poller writes\<close>

definition stillWaiting :: "string \<Rightarrow> deployment \<Rightarrow> bool" where
  "stillWaiting i r \<longleftrightarrow> openRegisteredRow i r \<and> dp_deployQueuedAt r = None"

definition runStillGoing :: "string \<Rightarrow> deployment \<Rightarrow> bool" where
  "runStillGoing i r \<longleftrightarrow> stillWaiting i r \<and>
     (dp_buildRunStatus r = Some Run_Queued \<or> dp_buildRunStatus r = Some Run_In_Progress)"

definition setProgress :: "string \<Rightarrow> run_status \<Rightarrow> string option \<Rightarrow> table \<Rightarrow> table \<times> bool" where
  "setProgress i st step t =
     (let (t', changed) = update_where (runStillGoing i)
        (\<lambda>r. r\<lparr>dp_buildRunStatus := Some st, dp_buildRunStep := step\<rparr>) t in (t', changed \<noteq> []))"

definition markRunFinished :: "string \<Rightarrow> table \<Rightarrow> table \<times> bool" where
  "markRunFinished i t =
     (let (t', changed) = update_where (stillWaiting i)
        (\<lambda>r. r\<lparr>dp_buildRunStatus := Some Run_Completed, dp_buildRunStep := None\<rparr>) t in (t', changed \<noteq> []))"

definition ended_row :: "deployment_status \<Rightarrow> string \<Rightarrow> int \<Rightarrow> deployment \<Rightarrow> deployment" where
  "ended_row st message now r = (ends_as st now r)\<lparr>dp_errorMessage := Some message,
     dp_buildRunStatus := Some Run_Completed, dp_buildRunStep := None\<rparr>"

definition endRow :: "int \<Rightarrow> string \<Rightarrow> deployment_status \<Rightarrow> string \<Rightarrow> bool \<Rightarrow> table \<Rightarrow> table \<times> bool" where
  "endRow now i st message deployQueued t =
     (let (t', changed) = update_where (if deployQueued then openRegisteredRow i else stillWaiting i)
        (ended_row st message now) t in (t', changed \<noteq> []))"

text \<open>The row that \<open>finishExternalBuild\<close> was given was read before; the update looks again.\<close>

definition finishExternalBuild ::
  "int \<Rightarrow> deployment \<Rightarrow> deployment_status \<Rightarrow> string \<Rightarrow> table \<Rightarrow> table \<times> (api_error + deployment_status option)" where
  "finishExternalBuild now d st message t =
     (if dp_buildOrigin d \<noteq> Some Origin_Github_Actions
      then (t, Inl (Bad_Request ''This deployment was not built by GitHub Actions.''))
      else if dp_deployQueuedAt d \<noteq> None \<and> dp_status d = Some Dep_Running
      then (t, Inl (Conflict ''A deploy was already requested for this deployment and waits in the Dokploy queue, so it cannot be finished. It ends when that deploy runs or is removed from the queue.''))
      else let (t', changed) = update_where (stillWaiting (dp_id d)) (ended_row st message now) t
        in (t', Inr (if changed = [] then None else Some st)))"

section \<open>Registration\<close>

text \<open>
  The partial unique index \<open>deployment_external_build_run_unique\<close>: the service (application before
  compose) and the run link, over the registered rows; a null is never equal to anything.
\<close>

definition same_registration :: "deployment \<Rightarrow> deployment \<Rightarrow> bool" where
  "same_registration a b \<longleftrightarrow> dp_externalBuildOnly a \<and> dp_externalBuildOnly b \<and>
     nullish (dp_applicationId a) (dp_composeId a) \<noteq> None \<and> dp_buildRunUrl a \<noteq> None \<and>
     nullish (dp_applicationId a) (dp_composeId a) = nullish (dp_applicationId b) (dp_composeId b) \<and>
     dp_buildRunUrl a = dp_buildRunUrl b"

text \<open>An insert the index or the primary key refuses leaves the table as it was.\<close>

definition insert_row :: "deployment \<Rightarrow> table \<Rightarrow> table option" where
  "insert_row r t =
     (if list_ex (\<lambda>x. dp_id x = dp_id r \<or> same_registration r x) t then None else Some (t @ [r]))"

record build_target =
  bt_kind :: service_kind
  bt_serviceId :: string
  bt_serverId :: "string option"
  bt_buildServerId :: "string option"

record registration =
  rg_buildRunUrl :: string
  rg_buildRunId :: string
  rg_buildRepository :: string
  rg_buildCommitSha :: string
  rg_title :: string
  rg_description :: string

definition findExisting :: "build_target \<Rightarrow> string \<Rightarrow> table \<Rightarrow> deployment option" where
  "findExisting g url t =
     (let found = filter (\<lambda>r. owner_of (bt_kind g) r = Some (bt_serviceId g) \<and>
            dp_buildOrigin r = Some Origin_Github_Actions \<and> dp_buildRunUrl r = Some url \<and>
            (dp_externalBuildOnly r \<or> status_in [Dep_Running, Dep_Done] r)) t
      in case rev (sort_key (\<lambda>r. case dp_createdAt r of None \<Rightarrow> 0 | Some c \<Rightarrow> c) found) of
           [] \<Rightarrow> None | r # rs \<Rightarrow> Some r)"

definition registered_row :: "string \<Rightarrow> string \<Rightarrow> int \<Rightarrow> build_target \<Rightarrow> registration \<Rightarrow> deployment" where
  "registered_row i logPath now g x =
     \<lparr>dp_id = i, dp_title = rg_title x, dp_description = Some (rg_description x),
      dp_status = Some Dep_Running, dp_logPath = logPath, dp_pid = None,
      dp_applicationId = (if bt_kind g = Kind_Application then Some (bt_serviceId g) else None),
      dp_composeId = (if bt_kind g = Kind_Compose then Some (bt_serviceId g) else None),
      dp_previewDeploymentId = None, dp_scheduleId = None, dp_backupId = None, dp_volumeBackupId = None,
      dp_serverId = bt_serverId g,
      dp_buildServerId = (if truthy (bt_buildServerId g) then bt_buildServerId g else None),
      dp_createdAt = Some now, dp_startedAt = Some now, dp_finishedAt = None, dp_errorMessage = None,
      dp_buildOrigin = Some Origin_Github_Actions, dp_buildRunUrl = Some (rg_buildRunUrl x),
      dp_buildRunId = Some (rg_buildRunId x), dp_buildRepository = Some (rg_buildRepository x),
      dp_buildCommitSha = Some (rg_buildCommitSha x),
      dp_buildRunStatus = Some Run_Queued, dp_buildRunStep = None, dp_externalBuildOnly = True,
      dp_deployQueuedAt = None, dp_deployStartedAt = None\<rparr>"

text \<open>
  The part of \<open>registerExternalBuild\<close> that runs alone per service and link: the row that is there, or
  a new one, or the row another process inserted meanwhile. \<open>None\<close> is the throw of the refused insert.
  Pruning the oldest rows of the service is what \<open>prune\<close> does to the table.
\<close>

definition registerExternalBuild ::
  "(nat \<Rightarrow> table \<Rightarrow> table) \<Rightarrow> (table \<Rightarrow> table) \<Rightarrow> int \<Rightarrow> string \<Rightarrow> string \<Rightarrow> build_target \<Rightarrow> registration \<Rightarrow>
   table \<Rightarrow> table \<times> (string \<times> bool) option" where
  "registerExternalBuild env prune now i logPath g x t0 =
     (let t = env 0 t0 in
      case findExisting g (rg_buildRunUrl x) t of
        Some r \<Rightarrow> (t, Some (dp_id r, False))
      | None \<Rightarrow>
          let t = env 1 (prune t) in
          case insert_row (registered_row i logPath now g x) t of
            Some t' \<Rightarrow> (t', Some (i, True))
          | None \<Rightarrow>
              let t = env 2 t in
              (t, map_option (\<lambda>r. (dp_id r, False)) (findExisting g (rg_buildRunUrl x) t)))"

end
