(* ===== verification/Deployment_Ends.thy ===== *)
theory Deployment_Ends
  imports Deployment_Row
begin

text \<open>
  How deployments end, beside the GitHub rows of \<open>Deployment_Row\<close>: the claim of a cancel, the watchdog's
  failure, the writes of a deploy flow (refused once the watchdog released its job), the sweep at
  start-up, and the cancellable runs of schedules.
\<close>

section \<open>Cancel and watchdog\<close>

definition claim_cancel :: "int \<Rightarrow> string \<Rightarrow> table \<Rightarrow> table \<times> bool" where
  "claim_cancel now i t =
     (let (t', changed) = update_where (\<lambda>r. dp_id r = i \<and> dp_status r = Some Dep_Running)
        (ends_as Dep_Cancelled now) t in (t', changed \<noteq> []))"

definition cancel_external :: "int \<Rightarrow> string \<Rightarrow> table \<Rightarrow> table \<times> bool" where
  "cancel_external now i t =
     (let (t', changed) = update_where
        (\<lambda>r. dp_id r = i \<and> dp_status r = Some Dep_Running \<and> dp_externalBuildOnly r)
        (ended_row Dep_Cancelled ''Cancelled by user. The GitHub Actions run itself is not stopped.'' now) t
      in (t', changed \<noteq> []))"

datatype mark_outcome = Flipped | Already_Error | Unchanged

definition fail_row :: "int \<Rightarrow> string \<Rightarrow> string \<Rightarrow> bool \<Rightarrow> table \<Rightarrow> table \<times> bool" where
  "fail_row now i message claimedCancel t =
     (let (t', changed) = update_where
        (\<lambda>r. dp_id r = i \<and> status_in (if claimedCancel then [Dep_Running, Dep_Cancelled] else [Dep_Running]) r)
        (\<lambda>r. (ends_as Dep_Error now r)\<lparr>dp_errorMessage := Some message\<rparr>) t
      in (t', changed \<noteq> []))"

definition add_reason :: "string \<Rightarrow> string \<Rightarrow> table \<Rightarrow> table" where
  "add_reason i message t = fst (update_where
     (\<lambda>r. dp_id r = i \<and> dp_status r = Some Dep_Error \<and> dp_errorMessage r = None)
     (\<lambda>r. r\<lparr>dp_errorMessage := Some message\<rparr>) t)"

definition markDeploymentFailedByWatchdog ::
  "(nat \<Rightarrow> table \<Rightarrow> table) \<Rightarrow> int \<Rightarrow> string \<Rightarrow> string \<Rightarrow> bool \<Rightarrow> table \<Rightarrow> table \<times> mark_outcome" where
  "markDeploymentFailedByWatchdog env now i message claimedCancel t0 =
     (let (t, flipped) = fail_row now i message claimedCancel (env 0 t0)
      in if flipped then (t, Flipped)
         else let t = env 1 t in
           case row_of i t of
             None \<Rightarrow> (t, Unchanged)
           | Some r \<Rightarrow>
               if dp_status r \<noteq> Some Dep_Error then (t, Unchanged)
               else if truthy (dp_errorMessage r) then (t, Already_Error)
               else (add_reason i message (env 2 t), Already_Error))"

section \<open>Which rows the watchdog and a start-up look at\<close>

definition deployRowsOnly :: "deployment \<Rightarrow> bool" where
  "deployRowsOnly r \<longleftrightarrow>
     (dp_applicationId r \<noteq> None \<or> dp_composeId r \<noteq> None \<or> dp_previewDeploymentId r \<noteq> None) \<and>
     dp_scheduleId r = None \<and> dp_backupId r = None \<and> dp_volumeBackupId r = None"

definition by_created :: "deployment \<Rightarrow> int" where
  "by_created r = (case dp_createdAt r of None \<Rightarrow> 0 | Some c \<Rightarrow> c)"

definition listRunningDeployDeployments :: "table \<Rightarrow> table" where
  "listRunningDeployDeployments t = sort_key by_created
     (filter (\<lambda>r. dp_status r = Some Dep_Running \<and> deployRowsOnly r \<and> notWaitingForGithubRun r) t)"

definition listLatestDeploysOf :: "string option \<Rightarrow> string option \<Rightarrow> string option \<Rightarrow> table \<Rightarrow> table" where
  "listLatestDeploysOf app cmp prev t =
     (let owner = (if truthy prev then Some (\<lambda>r. dp_previewDeploymentId r = prev)
            else if truthy cmp then Some (\<lambda>r. dp_composeId r = cmp)
            else if truthy app then Some (\<lambda>r. dp_applicationId r = app) else None)
      in case owner of
           None \<Rightarrow> []
         | Some P \<Rightarrow> take 3 (rev (sort_key by_created
             (filter (\<lambda>r. P r \<and> deployRowsOnly r \<and> notWaitingForGithubRun r) t))))"

definition countOtherRunningDeploys :: "string \<Rightarrow> string option \<Rightarrow> table \<Rightarrow> nat" where
  "countOtherRunningDeploys i server t = length (filter (\<lambda>r. dp_status r = Some Dep_Running \<and>
     dp_id r \<noteq> i \<and> deployRowsOnly r \<and> notWaitingForGithubRun r \<and>
     (if truthy server then dp_serverId r = server else dp_serverId r = None)) t)"

section \<open>The writes of a deploy flow\<close>

text \<open>
  \<open>skip\<close> is the answer of \<open>skipWriteOfReleasedJob\<close>: the watchdog released the job or the deployment.
\<close>

definition updateDeploymentStatus :: "bool \<Rightarrow> int \<Rightarrow> string \<Rightarrow> deployment_status \<Rightarrow> table \<Rightarrow> table" where
  "updateDeploymentStatus skip now i st t =
     (if skip then t
      else fst (update_where (\<lambda>r. dp_id r = i)
        (\<lambda>r. r\<lparr>dp_status := Some st,
           dp_finishedAt := (if st = Dep_Done \<or> st = Dep_Error then Some (At_Z now) else None)\<rparr>) t))"

definition markDeploymentDoneUnlessCancelled :: "bool \<Rightarrow> int \<Rightarrow> string \<Rightarrow> table \<Rightarrow> table \<times> bool" where
  "markDeploymentDoneUnlessCancelled skip now i t =
     (if skip then (t, False)
      else let (t', changed) = update_where
          (\<lambda>r. dp_id r = i \<and> status_not_in [Dep_Cancelled, Dep_Error] r) (ends_as Dep_Done now) t
        in (t', changed \<noteq> []))"

definition recordUnwrittenErrorLog :: "bool \<Rightarrow> string \<Rightarrow> string \<Rightarrow> table \<Rightarrow> table" where
  "recordUnwrittenErrorLog skip i redacted t =
     (if skip then t
      else fst (update_where (\<lambda>r. dp_id r = i \<and> dp_errorMessage r = None)
        (\<lambda>r. r\<lparr>dp_errorMessage := Some redacted\<rparr>) t))"

definition recordVaultFailureReason :: "bool \<Rightarrow> string \<Rightarrow> string option \<Rightarrow> table \<Rightarrow> table" where
  "recordVaultFailureReason skip i redacted t =
     (case redacted of
        None \<Rightarrow> t
      | Some message \<Rightarrow> if message = [] \<or> skip then t
          else fst (update_where (\<lambda>r. dp_id r = i \<and> dp_status r = Some Dep_Error)
            (\<lambda>r. r\<lparr>dp_errorMessage := Some message\<rparr>) t))"

section \<open>The restart of the process\<close>

text \<open>The rows of a job that was active, as \<open>runningDeploymentsOf\<close> selects them by the owner \<open>P\<close>.\<close>

definition markInterrupted :: "int \<Rightarrow> string \<Rightarrow> (deployment \<Rightarrow> bool) \<Rightarrow> table \<Rightarrow> table \<times> nat" where
  "markInterrupted now message P t =
     (let (t', changed) = update_where
        (\<lambda>r. dp_status r = Some Dep_Running \<and> notWaitingForGithubRun r \<and> P r \<and>
           dp_scheduleId r = None \<and> dp_backupId r = None \<and> dp_volumeBackupId r = None)
        (\<lambda>r. (ends_as Dep_Error now r)\<lparr>dp_errorMessage := Some message\<rparr>) t
      in (t', length changed))"

text \<open>\<open>onServer s\<close> says whether schedule \<open>s\<close> runs on the Dokploy server itself.\<close>

definition initCancelDeployments :: "(string \<Rightarrow> bool) \<Rightarrow> table \<Rightarrow> table" where
  "initCancelDeployments onServer t =
     (let ids = map dp_id (filter (\<lambda>r. (case dp_scheduleId r of None \<Rightarrow> True | Some s \<Rightarrow> s = [] \<or> onServer s))
            (filter (\<lambda>r. dp_status r = Some Dep_Running \<and> notWaitingForGithubRun r) t))
      in if ids = [] then t
         else fst (update_where (\<lambda>r. dp_id r \<in> set ids) (\<lambda>r. r\<lparr>dp_status := Some Dep_Cancelled\<rparr>) t))"

section \<open>Runs of schedules\<close>

definition supersede_runs :: "int \<Rightarrow> string \<Rightarrow> table \<Rightarrow> table" where
  "supersede_runs now schedule t = fst (update_where
     (\<lambda>r. dp_scheduleId r = Some schedule \<and> dp_status r = Some Dep_Running)
     (\<lambda>r. (ends_as Dep_Error now r)\<lparr>dp_errorMessage := Some ''Superseded by a new run of this schedule.''\<rparr>) t)"

definition claimScheduleRunCancel :: "int \<Rightarrow> string \<Rightarrow> table \<Rightarrow> table \<times> finish_time option" where
  "claimScheduleRunCancel now i t =
     (let (t', changed) = update_where (\<lambda>r. dp_id r = i \<and> dp_status r = Some Dep_Running)
        (ends_as Dep_Cancelled now) t
      in (t', if changed \<noteq> [] then Some (At_Z now) else None))"

definition revertScheduleRunCancel :: "string \<Rightarrow> finish_time \<Rightarrow> table \<Rightarrow> table \<times> bool" where
  "revertScheduleRunCancel i claim t =
     (let (t', changed) = update_where
        (\<lambda>r. dp_id r = i \<and> dp_status r = Some Dep_Cancelled \<and> dp_finishedAt r = Some claim)
        (\<lambda>r. r\<lparr>dp_status := Some Dep_Running, dp_finishedAt := None\<rparr>) t
      in (t', changed \<noteq> []))"

definition markCancelledRunEnded :: "int \<Rightarrow> string \<Rightarrow> table \<Rightarrow> table \<times> bool" where
  "markCancelledRunEnded now i t =
     (let (t', changed) = update_where (\<lambda>r. dp_id r = i \<and> dp_status r = Some Dep_Cancelled)
        (\<lambda>r. r\<lparr>dp_finishedAt := Some (At_Offset now)\<rparr>) t
      in (t', changed \<noteq> []))"

definition endScheduleRunCancelled :: "int \<Rightarrow> string \<Rightarrow> table \<Rightarrow> table" where
  "endScheduleRunCancelled now i t = fst (update_where
     (\<lambda>r. dp_id r = i \<and> status_in [Dep_Running, Dep_Cancelled] r)
     (\<lambda>r. r\<lparr>dp_status := Some Dep_Cancelled, dp_finishedAt := Some (At_Offset now)\<rparr>) t)"

datatype run_end = Recorded | Run_Was_Cancelled | Missing

definition record_end :: "int \<Rightarrow> string \<Rightarrow> deployment_status \<Rightarrow> table \<Rightarrow> table \<times> bool" where
  "record_end now i st t =
     (let (t', changed) = update_where (\<lambda>r. dp_id r = i \<and> status_not_in [Dep_Cancelled] r) (ends_as st now) t
      in (t', changed \<noteq> []))"

text \<open>Two tries; before each of the four statements other writers may act.\<close>

fun finish_tries ::
  "(nat \<Rightarrow> table \<Rightarrow> table) \<Rightarrow> int \<Rightarrow> string \<Rightarrow> deployment_status \<Rightarrow> nat \<Rightarrow> nat \<Rightarrow> table \<Rightarrow> table \<times> run_end" where
  "finish_tries env now i st k 0 t = (t, Missing)"
| "finish_tries env now i st k (Suc left) t =
     (let (t, recorded) = record_end now i st (env k t) in
      if recorded then (t, Recorded)
      else let (t, marked) = markCancelledRunEnded now i (env (Suc k) t) in
        if marked then (t, Run_Was_Cancelled)
        else finish_tries env now i st (k + 2) left t)"

definition finishScheduleRun ::
  "(nat \<Rightarrow> table \<Rightarrow> table) \<Rightarrow> int \<Rightarrow> string \<Rightarrow> deployment_status \<Rightarrow> table \<Rightarrow> table \<times> run_end" where
  "finishScheduleRun env now i st t = finish_tries env now i st 0 2 t"

end
