(* ===== verification/Deployment_Life.thy ===== *)
theory Deployment_Life
  imports Deployment_Ends
begin

text \<open>
  The life of deployment rows under all their writers at once. A step is one statement of the
  database, in any order. The state adds two sets that no code reads: the ids ever used (ids are
  \<open>nanoid\<close>s, never given twice) and the ids a deploy of this instance owns, because it created the row
  or took it over. The rows of a GitHub build are proved final once ended, taken over at most once and
  one per run; a schedule's run that has ended never runs again.
\<close>

section \<open>Statements on the table\<close>

lemma row_of_update:
  assumes "\<And>r. dp_id (f r) = dp_id r"
  shows "row_of i (fst (update_where P f t)) = map_option (\<lambda>r. if P r then f r else r) (row_of i t)"
  unfolding row_of_def update_where_def by (induction t) (auto simp: assms)

lemma written_iff: "snd (update_where P f t) \<noteq> [] \<longleftrightarrow> (\<exists>r\<in>set t. P r)"
  by (auto simp: update_where_def filter_empty_conv)

lemma set_update: "r' \<in> set (fst (update_where P f t)) \<longleftrightarrow> (\<exists>r\<in>set t. r' = (if P r then f r else r))"
  by (auto simp: update_where_def)

lemma ids_update: "(\<And>r. dp_id (f r) = dp_id r) \<Longrightarrow> map dp_id (fst (update_where P f t)) = map dp_id t"
  by (simp add: update_where_def)

lemma row_of_mem: "row_of i t = Some r \<Longrightarrow> r \<in> set t \<and> dp_id r = i"
  by (metis (mono_tags, lifting) find_Some_iff nth_mem row_of_def)

lemma row_of_distinct: "distinct (map dp_id t) \<Longrightarrow> r \<in> set t \<Longrightarrow> row_of (dp_id r) t = Some r"
  unfolding row_of_def by (induction t) (auto simp: rev_image_eqI)

section \<open>What a statement may do to a row\<close>

text \<open>
  A row keeps its service and its run; it may stop being a registered row but never become one; and a
  registered row that is not running is left as it is.
\<close>

definition evolves :: "deployment \<Rightarrow> deployment \<Rightarrow> bool" where
  "evolves r r' \<longleftrightarrow> dp_id r' = dp_id r \<and> dp_applicationId r' = dp_applicationId r \<and>
     dp_composeId r' = dp_composeId r \<and> dp_buildRunUrl r' = dp_buildRunUrl r \<and>
     (dp_externalBuildOnly r' \<longrightarrow> dp_externalBuildOnly r) \<and>
     (dp_externalBuildOnly r \<and> dp_status r \<noteq> Some Dep_Running \<longrightarrow>
        dp_status r' = dp_status r \<and> dp_errorMessage r' = dp_errorMessage r \<and> dp_externalBuildOnly r' \<and>
        dp_deployStartedAt r' = dp_deployStartedAt r)"

lemma evolves_refl [simp]: "evolves r r"
  by (simp add: evolves_def)

lemma evolves_trans:
  assumes "evolves a b" and "evolves b c"
  shows "evolves a c"
  using assms unfolding evolves_def by metis

record life =
  lf_rows :: table
  lf_used :: "string set"
  lf_owned :: "string set"

text \<open>Every row of the new table evolved from a row of the old one.\<close>

definition only_evolves :: "table \<Rightarrow> table \<Rightarrow> bool" where
  "only_evolves t t' \<longleftrightarrow> map dp_id t' = map dp_id t \<and> (\<forall>k<length t. evolves (t ! k) (t' ! k))"

lemma only_evolves_update:
  assumes "\<And>r. r \<in> set t \<Longrightarrow> P r \<Longrightarrow> evolves r (f r)"
  shows "only_evolves t (fst (update_where P f t))"
proof -
  have "dp_id (f r) = dp_id r" if "r \<in> set t" "P r" for r
    using assms [OF that] by (simp add: evolves_def)
  then have "map dp_id (fst (update_where P f t)) = map dp_id t"
    by (simp add: update_where_def)
  moreover have "evolves (t ! k) (fst (update_where P f t) ! k)" if "k < length t" for k
    using that assms [OF nth_mem [OF that]] by (simp add: update_where_def)
  ultimately show ?thesis by (simp add: only_evolves_def)
qed

lemma only_evolves_refl [simp]: "only_evolves t t"
  by (simp add: only_evolves_def)

lemma only_evolves_row:
  assumes "only_evolves t t'" and "r' \<in> set t'"
  shows "\<exists>r\<in>set t. evolves r r'"
proof -
  obtain k where "k < length t'" "r' = t' ! k" using assms(2) by (auto simp: in_set_conv_nth)
  moreover have "length t' = length t" using assms(1) by (metis length_map only_evolves_def)
  ultimately show ?thesis using assms(1) by (auto simp: only_evolves_def)
qed

section \<open>The writers\<close>

inductive life_step :: "life \<Rightarrow> life \<Rightarrow> bool" where
  l_register: "i \<notin> lf_used s \<Longrightarrow> insert_row (registered_row i logPath now g x) (lf_rows s) = Some t \<Longrightarrow>
    life_step s (s\<lparr>lf_rows := t, lf_used := insert i (lf_used s)\<rparr>)"
| l_create: "dp_id r \<notin> lf_used s \<Longrightarrow> \<not> dp_externalBuildOnly r \<Longrightarrow> insert_row r (lf_rows s) = Some t \<Longrightarrow>
    life_step s (s\<lparr>lf_rows := t, lf_used := insert (dp_id r) (lf_used s), lf_owned := insert (dp_id r) (lf_owned s)\<rparr>)"
| l_delete: "life_step s (s\<lparr>lf_rows := filter P (lf_rows s)\<rparr>)"
| l_take_over: "take_over_row now i k service d (lf_rows s) = (t, taken) \<Longrightarrow>
    life_step s (s\<lparr>lf_rows := t, lf_owned := (if taken = None then lf_owned s else insert i (lf_owned s))\<rparr>)"
| l_end_queued: "life_step s (s\<lparr>lf_rows := fst (endQueuedLiveBuild now i st message (lf_rows s))\<rparr>)"
| l_mark_queued: "life_step s (s\<lparr>lf_rows := fst (mark_queued now i k service (lf_rows s))\<rparr>)"
| l_withdraw: "life_step s (s\<lparr>lf_rows := withdrawLiveBuildDeploy i (lf_rows s)\<rparr>)"
| l_progress: "life_step s (s\<lparr>lf_rows := fst (setProgress i rst step (lf_rows s))\<rparr>)"
| l_run_finished: "life_step s (s\<lparr>lf_rows := fst (markRunFinished i (lf_rows s))\<rparr>)"
| l_end_row: "life_step s (s\<lparr>lf_rows := fst (endRow now i st message queued (lf_rows s))\<rparr>)"
| l_finish_external: "life_step s (s\<lparr>lf_rows := fst (finishExternalBuild now d st message (lf_rows s))\<rparr>)"
| l_cancel: "life_step s (s\<lparr>lf_rows := fst (claim_cancel now i (lf_rows s))\<rparr>)"
| l_cancel_external: "life_step s (s\<lparr>lf_rows := fst (cancel_external now i (lf_rows s))\<rparr>)"
| l_interrupted: "life_step s (s\<lparr>lf_rows := fst (markInterrupted now message P (lf_rows s))\<rparr>)"
| l_startup: "life_step s (s\<lparr>lf_rows := initCancelDeployments onServer (lf_rows s)\<rparr>)"
| l_supersede: "life_step s (s\<lparr>lf_rows := supersede_runs now schedule (lf_rows s)\<rparr>)"
| l_watchdog: "i \<in> lf_owned s \<Longrightarrow>
    life_step s (s\<lparr>lf_rows := fst (fail_row now i message claimed (lf_rows s))\<rparr>)"
| l_reason: "i \<in> lf_owned s \<Longrightarrow> life_step s (s\<lparr>lf_rows := add_reason i message (lf_rows s)\<rparr>)"
| l_status: "i \<in> lf_owned s \<Longrightarrow> life_step s (s\<lparr>lf_rows := updateDeploymentStatus skip now i st (lf_rows s)\<rparr>)"
| l_done: "i \<in> lf_owned s \<Longrightarrow>
    life_step s (s\<lparr>lf_rows := fst (markDeploymentDoneUnlessCancelled skip now i (lf_rows s))\<rparr>)"
| l_unwritten: "i \<in> lf_owned s \<Longrightarrow> life_step s (s\<lparr>lf_rows := recordUnwrittenErrorLog skip i message (lf_rows s)\<rparr>)"
| l_vault: "i \<in> lf_owned s \<Longrightarrow> life_step s (s\<lparr>lf_rows := recordVaultFailureReason skip i redacted (lf_rows s)\<rparr>)"
| l_claim_run: "i \<in> lf_owned s \<Longrightarrow> life_step s (s\<lparr>lf_rows := fst (claimScheduleRunCancel now i (lf_rows s))\<rparr>)"
| l_revert_run: "i \<in> lf_owned s \<Longrightarrow> life_step s (s\<lparr>lf_rows := fst (revertScheduleRunCancel i claim (lf_rows s))\<rparr>)"
| l_run_ended: "i \<in> lf_owned s \<Longrightarrow> life_step s (s\<lparr>lf_rows := fst (markCancelledRunEnded now i (lf_rows s))\<rparr>)"
| l_run_cancelled: "i \<in> lf_owned s \<Longrightarrow> life_step s (s\<lparr>lf_rows := endScheduleRunCancelled now i (lf_rows s)\<rparr>)"
| l_record_end: "i \<in> lf_owned s \<Longrightarrow> life_step s (s\<lparr>lf_rows := fst (record_end now i st (lf_rows s))\<rparr>)"

definition life_init :: "life \<Rightarrow> bool" where
  "life_init s \<longleftrightarrow> lf_rows s = [] \<and> lf_used s = {} \<and> lf_owned s = {}"

abbreviation life_reachable :: "life \<Rightarrow> bool" where
  "life_reachable \<equiv> reach life_init life_step"

definition life_inv :: "life \<Rightarrow> bool" where
  "life_inv s \<longleftrightarrow> distinct (map dp_id (lf_rows s)) \<and> dp_id ` set (lf_rows s) \<subseteq> lf_used s \<and>
     lf_owned s \<subseteq> lf_used s \<and>
     (\<forall>r\<in>set (lf_rows s). dp_id r \<in> lf_owned s \<longrightarrow> \<not> dp_externalBuildOnly r) \<and>
     (\<forall>k<length (lf_rows s). \<forall>l<length (lf_rows s).
        same_registration (lf_rows s ! k) (lf_rows s ! l) \<longrightarrow> k = l)"

section \<open>Each writer keeps to it\<close>

lemma life_inv_evolves:
  assumes I: "life_inv s" and ev: "only_evolves (lf_rows s) t" and u: "U \<subseteq> lf_used s"
    and own: "\<And>r. r \<in> set t \<Longrightarrow> dp_id r \<in> U \<Longrightarrow> dp_id r \<notin> lf_owned s \<Longrightarrow> \<not> dp_externalBuildOnly r"
  shows "life_inv (s\<lparr>lf_rows := t, lf_owned := U\<rparr>)"
proof -
  have len: "length t = length (lf_rows s)" and ids: "map dp_id t = map dp_id (lf_rows s)"
    using ev by (auto simp: only_evolves_def dest: map_eq_imp_length_eq)
  from ids have set_ids: "dp_id ` set t = dp_id ` set (lf_rows s)" by (metis set_map)
  have reg: "k = l" if "k < length t" "l < length t" "same_registration (t ! k) (t ! l)" for k l
  proof -
    have "evolves (lf_rows s ! k) (t ! k)" "evolves (lf_rows s ! l) (t ! l)"
      using ev that len by (auto simp: only_evolves_def)
    with that(3) have "same_registration (lf_rows s ! k) (lf_rows s ! l)"
      by (auto simp: evolves_def same_registration_def)
    with I that len show ?thesis by (auto simp: life_inv_def)
  qed
  have own': "\<not> dp_externalBuildOnly r'" if "r' \<in> set t" "dp_id r' \<in> U" for r'
  proof (cases "dp_id r' \<in> lf_owned s")
    case True
    from only_evolves_row [OF ev that(1)] obtain r where "r \<in> set (lf_rows s)" "evolves r r'" by blast
    with True I show ?thesis by (auto simp: evolves_def life_inv_def)
  next
    case False
    with own that show ?thesis by blast
  qed
  from I have "distinct (map dp_id t)" "dp_id ` set t \<subseteq> lf_used s"
    by (simp_all add: life_inv_def ids set_ids)
  with u reg own' show ?thesis by (simp add: life_inv_def)
qed

named_theorems keeps_rows

lemmas row_guards = openRegisteredRow_def stillWaiting_def runStillGoing_def status_in_def status_not_in_def
  notWaitingForGithubRun_def

lemma keeps_waiting [keeps_rows]:
  "only_evolves t (fst (endQueuedLiveBuild now i st message t))"
  "only_evolves t (fst (mark_queued now i k service t))"
  "only_evolves t (withdrawLiveBuildDeploy i t)"
  "only_evolves t (fst (setProgress i rst step t))"
  "only_evolves t (fst (markRunFinished i t))"
  "only_evolves t (fst (endRow now i st message queued t))"
  "only_evolves t (fst (finishExternalBuild now d st message t))"
  "only_evolves t (fst (take_over_row now i k service desc t))"
  unfolding endQueuedLiveBuild_def mark_queued_def withdrawLiveBuildDeploy_def setProgress_def markRunFinished_def
    endRow_def finishExternalBuild_def take_over_row_def case_prod_beta Let_def
  by (auto intro!: only_evolves_update simp: evolves_def row_guards ends_as_def ended_row_def take_over_def
      split: if_splits)

lemma keeps_running [keeps_rows]:
  "only_evolves t (fst (claim_cancel now i t))"
  "only_evolves t (fst (cancel_external now i t))"
  "only_evolves t (fst (markInterrupted now message P t))"
  "only_evolves t (supersede_runs now schedule t)"
  unfolding claim_cancel_def cancel_external_def markInterrupted_def supersede_runs_def case_prod_beta Let_def
  by (auto intro!: only_evolves_update simp: evolves_def row_guards ends_as_def ended_row_def)

lemma keeps_startup [keeps_rows]:
  assumes "distinct (map dp_id t)"
  shows "only_evolves t (initCancelDeployments onServer t)"
proof -
  define ids where "ids = map dp_id (filter (\<lambda>r. (case dp_scheduleId r of None \<Rightarrow> True | Some s \<Rightarrow> s = [] \<or> onServer s))
    (filter (\<lambda>r. dp_status r = Some Dep_Running \<and> notWaitingForGithubRun r) t))"
  have running: "dp_status r = Some Dep_Running" if "r \<in> set t" "dp_id r \<in> set ids" for r
  proof -
    from that(2) obtain r' where r': "r' \<in> set t" "dp_id r' = dp_id r" "dp_status r' = Some Dep_Running"
      by (auto simp: ids_def)
    with assms that(1) have "r' = r" by (auto simp: distinct_map inj_on_def)
    with r' show ?thesis by simp
  qed
  have "only_evolves t (fst (update_where (\<lambda>r. dp_id r \<in> set ids) (\<lambda>r. r\<lparr>dp_status := Some Dep_Cancelled\<rparr>) t))"
    by (rule only_evolves_update) (simp add: evolves_def running)
  then show ?thesis unfolding initCancelDeployments_def Let_def ids_def [symmetric] by simp
qed

text \<open>The writes that name a row of their own: the row of that id is not a registered one.\<close>

definition not_registered :: "string \<Rightarrow> table \<Rightarrow> bool" where
  "not_registered i t \<longleftrightarrow> (\<forall>r\<in>set t. dp_id r = i \<longrightarrow> \<not> dp_externalBuildOnly r)"

lemma only_evolves_own:
  assumes "not_registered i t" and "\<And>r. P r \<Longrightarrow> dp_id r = i"
    and "\<And>r. \<not> dp_externalBuildOnly r \<Longrightarrow> evolves r (f r)"
  shows "only_evolves t (fst (update_where P f t))"
  using assms by (intro only_evolves_update) (auto simp: not_registered_def)

lemma keeps_own [keeps_rows]:
  assumes "not_registered i t"
  shows "only_evolves t (fst (fail_row now i message claimed t))"
    and "only_evolves t (add_reason i message t)"
    and "only_evolves t (updateDeploymentStatus skip now i st t)"
    and "only_evolves t (fst (markDeploymentDoneUnlessCancelled skip now i t))"
    and "only_evolves t (recordUnwrittenErrorLog skip i message t)"
    and "only_evolves t (recordVaultFailureReason skip i redacted t)"
    and "only_evolves t (fst (claimScheduleRunCancel now i t))"
    and "only_evolves t (fst (revertScheduleRunCancel i claim t))"
    and "only_evolves t (fst (markCancelledRunEnded now i t))"
    and "only_evolves t (endScheduleRunCancelled now i t)"
    and "only_evolves t (fst (record_end now i st t))"
  unfolding fail_row_def add_reason_def updateDeploymentStatus_def markDeploymentDoneUnlessCancelled_def
    recordUnwrittenErrorLog_def recordVaultFailureReason_def claimScheduleRunCancel_def revertScheduleRunCancel_def
    markCancelledRunEnded_def endScheduleRunCancelled_def record_end_def case_prod_beta Let_def
  by (auto intro!: only_evolves_own [OF assms] simp: evolves_def ends_as_def split: option.splits)

lemma taken_over:
  "take_over_row now i k service d t = (t', Some r) \<Longrightarrow> \<exists>x\<in>set t. openRegisteredRow i x \<and> owner_of k x = Some service \<and> r = take_over now d x"
  by (auto simp: take_over_row_def update_where_def Let_def filter_eq_Cons_iff map_eq_Cons_conv split: list.splits)

lemma taken_over_row:
  assumes "take_over_row now i k service d t = (t', Some r)" and "distinct (map dp_id t)" and "x \<in> set t'" and "dp_id x = i"
  shows "\<not> dp_externalBuildOnly x"
proof -
  from taken_over [OF assms(1)] obtain y where y: "y \<in> set t" "openRegisteredRow i y" "owner_of k y = Some service" by blast
  from assms(1) have t': "t' = fst (update_where (\<lambda>r. openRegisteredRow i r \<and> owner_of k r = Some service) (take_over now d) t)"
    by (simp add: take_over_row_def case_prod_beta Let_def)
  from assms(3) obtain z where z: "z \<in> set t"
    "x = (if openRegisteredRow i z \<and> owner_of k z = Some service then take_over now d z else z)"
    unfolding t' set_update by blast
  have "dp_id z = i" using z(2) assms(4) by (auto simp: take_over_def split: if_splits)
  with y z(1) assms(2) have "z = y" by (auto simp: distinct_map inj_on_def openRegisteredRow_def)
  with y z(2) show ?thesis by (simp add: take_over_def)
qed

lemma not_registered_owned: "life_inv s \<Longrightarrow> i \<in> lf_owned s \<Longrightarrow> not_registered i (lf_rows s)"
  by (auto simp: life_inv_def not_registered_def)

lemma life_inv_same_owner:
  "life_inv s \<Longrightarrow> only_evolves (lf_rows s) t \<Longrightarrow> life_inv (s\<lparr>lf_rows := t\<rparr>)"
  using life_inv_evolves [of s t "lf_owned s"] by (simp add: life_inv_def)

lemma life_inv_insert:
  assumes I: "life_inv s" and fresh: "dp_id r \<notin> lf_used s" and ins: "insert_row r (lf_rows s) = Some t"
    and U: "U = lf_owned s \<or> U = insert (dp_id r) (lf_owned s) \<and> \<not> dp_externalBuildOnly r"
  shows "life_inv (s\<lparr>lf_rows := t, lf_used := insert (dp_id r) (lf_used s), lf_owned := U\<rparr>)"
proof -
  from ins have t: "t = lf_rows s @ [r]" and new: "\<forall>x\<in>set (lf_rows s). \<not> same_registration r x"
    by (auto simp: insert_row_def list_ex_iff split: if_splits)
  have sym: "same_registration x r \<Longrightarrow> same_registration r x" for x by (auto simp: same_registration_def)
  have reg: "k = l" if "k < length t" "l < length t" "same_registration (t ! k) (t ! l)" for k l
    using that I new sym nth_mem unfolding t life_inv_def
    by (auto simp: nth_append less_Suc_eq split: if_splits) 
  have "distinct (map dp_id t)" "dp_id ` set t \<subseteq> insert (dp_id r) (lf_used s)" "U \<subseteq> insert (dp_id r) (lf_used s)"
    using I fresh U by (auto simp: life_inv_def t)
  moreover have "\<not> dp_externalBuildOnly x" if "x \<in> set t" "dp_id x \<in> U" for x
    using that I U fresh by (auto simp: life_inv_def t)
  ultimately show ?thesis using reg by (simp add: life_inv_def)
qed

lemma life_inv_step:
  assumes "life_inv s" and "life_step s s'"
  shows "life_inv s'"
  using assms(2)
proof cases
  case (l_register i logPath now g x t)
  then show ?thesis
    using life_inv_insert [OF assms(1), of "registered_row i logPath now g x" t "lf_owned s"]
    by (simp add: registered_row_def)
next
  case (l_create r t)
  then show ?thesis using life_inv_insert [OF assms(1) l_create(2,4), of "insert (dp_id r) (lf_owned s)"] by simp
next
  case (l_delete P)
  have "distinct (map dp_id (filter P (lf_rows s)))" using assms(1) by (simp add: life_inv_def distinct_map_filter)
  moreover have "k = l" if "k < length (filter P (lf_rows s))" "l < length (filter P (lf_rows s))"
    "same_registration (filter P (lf_rows s) ! k) (filter P (lf_rows s) ! l)" for k l
  proof -
    have "filter P (lf_rows s) ! k \<in> set (lf_rows s)" "filter P (lf_rows s) ! l \<in> set (lf_rows s)"
      using that nth_mem by fastforce+
    then obtain k' l' where kl: "k' < length (lf_rows s)" "l' < length (lf_rows s)"
      "filter P (lf_rows s) ! k = lf_rows s ! k'" "filter P (lf_rows s) ! l = lf_rows s ! l'"
      by (metis in_set_conv_nth)
    with that assms(1) have "k' = l'" by (simp add: life_inv_def)
    with kl have eq: "filter P (lf_rows s) ! k = filter P (lf_rows s) ! l" by simp
    have "distinct (filter P (lf_rows s))" using assms(1) by (simp add: life_inv_def distinct_map)
    with eq that show ?thesis by (simp add: nth_eq_iff_index_eq)
  qed
  moreover have "dp_id ` set (filter P (lf_rows s)) \<subseteq> lf_used s" using assms(1) by (auto simp: life_inv_def)
  moreover have "\<forall>r\<in>set (filter P (lf_rows s)). dp_id r \<in> lf_owned s \<longrightarrow> \<not> dp_externalBuildOnly r"
    using assms(1) by (simp add: life_inv_def)
  moreover have "lf_owned s \<subseteq> lf_used s" using assms(1) by (simp add: life_inv_def)
  ultimately show ?thesis unfolding l_delete by (simp add: life_inv_def)
next
  case (l_take_over now i k service d t taken)
  have ev: "only_evolves (lf_rows s) t" using keeps_waiting(8) [of "lf_rows s" now i k service d] l_take_over(2) by simp
  show ?thesis
  proof (cases taken)
    case None
    with l_take_over(1) life_inv_same_owner [OF assms(1) ev] show ?thesis by simp
  next
    case (Some r)
    with taken_over [of now i k service d "lf_rows s" t r] l_take_over(2) obtain x where
      "x \<in> set (lf_rows s)" "dp_id x = i" by (auto simp: openRegisteredRow_def)
    with assms(1) have "i \<in> lf_used s" "lf_owned s \<subseteq> lf_used s" by (auto simp: life_inv_def)
    then have U: "insert i (lf_owned s) \<subseteq> lf_used s" by simp
    have "distinct (map dp_id (lf_rows s))" using assms(1) by (simp add: life_inv_def)
    with Some l_take_over(2) taken_over_row have "\<not> dp_externalBuildOnly r'" if "r' \<in> set t" "dp_id r' = i" for r'
      using that by blast
    then have "life_inv (s\<lparr>lf_rows := t, lf_owned := insert i (lf_owned s)\<rparr>)"
      by (intro life_inv_evolves [OF assms(1) ev U]) auto
    with Some l_take_over(1) show ?thesis by simp
  qed
next
  case (l_startup onServer)
  from assms(1) have "distinct (map dp_id (lf_rows s))" by (simp add: life_inv_def)
  with l_startup show ?thesis by (simp add: life_inv_same_owner assms(1) keeps_startup)
qed (simp_all add: life_inv_same_owner [OF assms(1)] keeps_waiting keeps_running
    keeps_own [OF not_registered_owned [OF assms(1)]])

interpretation life: inductive_invariant life_init life_step life_inv
proof
  show "life_inv s" if "life_init s" for s using that by (simp add: life_init_def life_inv_def)
  show "life_inv t" if "life_inv s" "life_step s t" for s t using that by (rule life_inv_step)
qed

text \<open>What a step does to the row of an id: it is new, gone, or evolved.\<close>

lemma life_step_row:
  assumes "life_inv s" and "life_step s s'" and "row_of i (lf_rows s') = Some r'" and "i \<in> lf_used s"
  shows "\<exists>r. row_of i (lf_rows s) = Some r \<and> evolves r r'"
proof -
  have evolved: "\<exists>r. row_of i (lf_rows s) = Some r \<and> evolves r r'" if "only_evolves (lf_rows s) (lf_rows s')"
  proof -
    from row_of_mem [OF assms(3)] only_evolves_row [OF that] obtain r where
      r: "r \<in> set (lf_rows s)" "evolves r r'" "dp_id r' = i" by blast
    then have "dp_id r = i" by (simp add: evolves_def)
    with r row_of_distinct [of "lf_rows s" r] assms(1) show ?thesis by (auto simp: life_inv_def)
  qed
  have inserted: "\<exists>r. row_of i (lf_rows s) = Some r \<and> evolves r r'"
    if "insert_row x (lf_rows s) = Some (lf_rows s')" "dp_id x \<notin> lf_used s" for x
  proof -
    from that(1) have "lf_rows s' = lf_rows s @ [x]" by (simp add: insert_row_def split: if_splits)
    with row_of_mem [OF assms(3)] that(2) assms(4) have "r' \<in> set (lf_rows s)" "dp_id r' = i" by auto
    with row_of_distinct [of "lf_rows s" r'] assms(1) show ?thesis by (auto simp: life_inv_def)
  qed
  from assms(2) show ?thesis
  proof cases
    case (l_register j logPath now g x t)
    then show ?thesis using inserted [of "registered_row j logPath now g x"] by (simp add: registered_row_def)
  next
    case (l_create r t)
    then show ?thesis using inserted [of r] by simp
  next
    case (l_delete P)
    with row_of_mem [OF assms(3)] have "r' \<in> set (lf_rows s)" "dp_id r' = i" by auto
    with row_of_distinct [of "lf_rows s" r'] assms(1) show ?thesis by (auto simp: life_inv_def)
  next
    case (l_take_over now j k service d t taken)
    then show ?thesis using evolved keeps_waiting(8) [of "lf_rows s" now j k service d] by simp
  next
    case (l_startup onServer)
    from assms(1) have "distinct (map dp_id (lf_rows s))" by (simp add: life_inv_def)
    with l_startup show ?thesis by (simp add: evolved keeps_startup)
  qed (simp_all add: evolved keeps_waiting keeps_running keeps_own [OF not_registered_owned [OF assms(1)]])
qed

lemma life_step_used: "life_step s s' \<Longrightarrow> lf_used s \<subseteq> lf_used s' \<and> lf_owned s \<subseteq> lf_owned s'"
  by (cases rule: life_step.cases) auto

end
