(* ===== verification/Deployment_Props.thy ===== *)
theory Deployment_Props
  imports Deployment_Life
begin

text \<open>
  What the guarded writes of the deployment rows are for. A row registered for a GitHub build is there
  once per run, is taken over by at most one deploy, and keeps its end; a run of a schedule that has
  ended is never brought back to running by a cancel that came too late.
\<close>

section \<open>Any number of steps\<close>

lemma life_steps_inv: "life_step\<^sup>*\<^sup>* s s' \<Longrightarrow> life_inv s \<Longrightarrow> life_inv s' \<and> lf_used s \<subseteq> lf_used s' \<and> lf_owned s \<subseteq> lf_owned s'"
proof (induction rule: rtranclp_induct)
  case (step y z)
  with life_inv_step life_step_used [OF step.hyps(2)] show ?case by blast
qed simp

lemma life_steps_row:
  assumes "life_step\<^sup>*\<^sup>* s s'" and "life_inv s" and "row_of i (lf_rows s') = Some r'" and "i \<in> lf_used s"
  shows "\<exists>r. row_of i (lf_rows s) = Some r \<and> evolves r r'"
  using assms
proof (induction arbitrary: r' rule: rtranclp_induct)
  case base
  then show ?case by auto
next
  case (step y z)
  have y: "life_inv y" "i \<in> lf_used y" using life_steps_inv [OF step.hyps(1) step.prems(1)] step.prems(3) by auto
  from life_step_row [OF y(1) step.hyps(2) step.prems(2) y(2)] obtain ry where
    ry: "row_of i (lf_rows y) = Some ry" "evolves ry r'" by blast
  from step.IH [OF step.prems(1) ry(1) step.prems(3)] ry(2) show ?case by (blast intro: evolves_trans)
qed

lemma row_used: "life_inv s \<Longrightarrow> row_of i (lf_rows s) = Some r \<Longrightarrow> i \<in> lf_used s"
  by (auto simp: life_inv_def dest!: row_of_mem)

section \<open>A concrete run\<close>

definition sample_target :: build_target where
  "sample_target = \<lparr>bt_kind = Kind_Application, bt_serviceId = ''app'', bt_serverId = None, bt_buildServerId = None\<rparr>"

definition sample_registration :: registration where
  "sample_registration = \<lparr>rg_buildRunUrl = ''u'', rg_buildRunId = ''1'', rg_buildRepository = ''o/r'',
     rg_buildCommitSha = ''abcdef0'', rg_title = ''t'', rg_description = ''''\<rparr>"

definition sample_row :: deployment where
  "sample_row = registered_row ''d'' ''/log'' 0 sample_target sample_registration"

definition sample_life :: life where
  "sample_life = \<lparr>lf_rows = [sample_row], lf_used = {''d''}, lf_owned = {}\<rparr>"

lemma sample_life_reachable: "life_reachable sample_life"
proof -
  have "life_reachable \<lparr>lf_rows = [], lf_used = {}, lf_owned = {}\<rparr>"
    by (rule reach_init) (simp add: life_init_def)
  moreover have "life_step \<lparr>lf_rows = [], lf_used = {}, lf_owned = {}\<rparr> sample_life"
    using l_register [of "''d''" "\<lparr>lf_rows = [], lf_used = {}, lf_owned = {}\<rparr>" "''/log''" 0 sample_target
        sample_registration "[sample_row]"] by (simp add: insert_row_def sample_row_def sample_life_def)
  ultimately show ?thesis by (rule reach_step)
qed

definition sample_claim :: live_claim where
  "sample_claim = \<lparr>lc_deploymentId = ''d'', lc_kind = Kind_Application, lc_serviceId = ''app'', lc_logHost = None\<rparr>"

section \<open>Taking a registered row over\<close>

text \<open>What other writers may do between two statements of a function: any number of steps.\<close>

definition interferes :: "(nat \<Rightarrow> table \<Rightarrow> table) \<Rightarrow> bool" where
  "interferes env \<longleftrightarrow> (\<forall>k s. life_reachable s \<longrightarrow> (\<exists>s'. life_step\<^sup>*\<^sup>* s s' \<and> lf_rows s' = env k (lf_rows s)))"

lemma reach_steps: "life_step\<^sup>*\<^sup>* s s' \<Longrightarrow> life_reachable s \<Longrightarrow> life_reachable s'"
  by (induction rule: rtranclp_induct) (auto intro: reach_step)

lemma interfered:
  assumes "interferes env" and "life_reachable s"
  obtains s' where "life_step\<^sup>*\<^sup>* s s'" "lf_rows s' = env k (lf_rows s)" "life_reachable s'" "lf_owned s \<subseteq> lf_owned s'"
  using assms life_steps_inv [OF _ life.reach_inv [OF assms(2)]] reach_steps
  unfolding interferes_def by metis

lemma owned_not_taken_over:
  assumes "life_reachable s" and "i \<in> lf_owned s"
  shows "snd (take_over_row now i k service d (lf_rows s)) = None"
proof (rule ccontr)
  assume "snd (take_over_row now i k service d (lf_rows s)) \<noteq> None"
  then obtain t r where "take_over_row now i k service d (lf_rows s) = (t, Some r)" by (metis option.exhaust prod.collapse)
  from taken_over [OF this] obtain x where "x \<in> set (lf_rows s)" "openRegisteredRow i x" by blast
  with not_registered_owned [OF life.reach_inv [OF assms(1)] assms(2)] show False
    by (auto simp: not_registered_def openRegisteredRow_def)
qed

lemma claim_returns:
  "claimLiveGithubBuild env now c d t = (t', Some r) \<Longrightarrow>
    \<exists>desc. take_over_row now (lc_deploymentId c) (lc_kind c) (lc_serviceId c) desc (env 1 (env 0 t)) = (t', Some r)"
  by (auto simp: claimLiveGithubBuild_def Let_def split: option.splits if_splits)

lemma row_of_unique: "distinct (map dp_id t) \<Longrightarrow> x \<in> set t \<Longrightarrow> dp_id x = i \<Longrightarrow> row_of i t = Some x"
  using row_of_distinct by blast

text \<open>
  C17. Of any number of deploys that claim a registered row, at most one takes it over. While a deploy
  claims a row, any number of other writers, other claims included, may act before each of its two
  statements. If the claim gets the row, then at the moment of its guarded UPDATE the row was open, no
  deploy had taken it over (\<open>externalBuildOnly\<close>), and it belonged to the service that the claim named; no
  deploy owned it when the claim began; the row is returned as it was taken over; and from then on, whatever
  the writers do, the UPDATE of no claim, begun before or after, takes the row again.
\<close>

theorem row_taken_over_once:
  assumes "life_reachable s" and "interferes env" and "claimLiveGithubBuild env now c d (lf_rows s) = (t, Some r)"
  shows "(\<exists>x. row_of (lc_deploymentId c) (env 1 (env 0 (lf_rows s))) = Some x \<and> dp_externalBuildOnly x \<and>
        dp_status x = Some Dep_Running \<and> dp_buildOrigin x = Some Origin_Github_Actions \<and>
        owner_of (lc_kind c) x = Some (lc_serviceId c)) \<and>
    lc_deploymentId c \<notin> lf_owned s \<and> row_of (lc_deploymentId c) t = Some r \<and> \<not> dp_externalBuildOnly r \<and>
    owner_of (lc_kind c) r = Some (lc_serviceId c) \<and> dp_status r = Some Dep_Running \<and> dp_deployStartedAt r = Some now \<and>
    (\<exists>s'. life_step\<^sup>*\<^sup>* s s' \<and> lf_rows s' = t \<and> lc_deploymentId c \<in> lf_owned s' \<and>
      (\<forall>s'' now' k service d'. life_step\<^sup>*\<^sup>* s' s'' \<longrightarrow>
        snd (take_over_row now' (lc_deploymentId c) k service d' (lf_rows s'')) = None))"
proof -
  let ?i = "lc_deploymentId c"
  from claim_returns assms(3) obtain desc where
    took: "take_over_row now ?i (lc_kind c) (lc_serviceId c) desc (env 1 (env 0 (lf_rows s))) = (t, Some r)" by blast
  obtain s1 where s1: "life_step\<^sup>*\<^sup>* s s1" "lf_rows s1 = env 0 (lf_rows s)" "life_reachable s1" "lf_owned s \<subseteq> lf_owned s1"
    using interfered [OF assms(2,1)] .
  obtain s2 where s2: "life_step\<^sup>*\<^sup>* s1 s2" "lf_rows s2 = env 1 (env 0 (lf_rows s))" "life_reachable s2" "lf_owned s1 \<subseteq> lf_owned s2"
    using interfered [OF assms(2) s1(3), of 1] s1(2) by metis
  let ?s = "s2\<lparr>lf_rows := t, lf_owned := insert ?i (lf_owned s2)\<rparr>"
  have free: "?i \<notin> lf_owned s" using owned_not_taken_over [OF s2(3), of ?i] took s1(4) s2(4) unfolding s2(2)
    by (metis option.distinct(1) snd_conv subset_iff)
  obtain x where x: "x \<in> set (lf_rows s2)" "openRegisteredRow ?i x"
    "owner_of (lc_kind c) x = Some (lc_serviceId c)" "r = take_over now desc x" using taken_over [OF took] s2(2) by auto
  have owner: "owner_of (lc_kind c) r = owner_of (lc_kind c) x"
    using x(4) by (simp add: take_over_def owner_of_def split: service_kind.splits)
  have step: "life_step s2 ?s"
    using l_take_over [of now ?i "lc_kind c" "lc_serviceId c" desc s2 t "Some r"] took by (simp add: s2(2))
  have steps: "life_step\<^sup>*\<^sup>* s ?s" using s1(1) s2(1) step by (meson rtranclp.rtrancl_into_rtrancl rtranclp_trans)
  have distinct: "distinct (map dp_id (lf_rows s2))" "distinct (map dp_id t)"
    using life.reach_inv [OF s2(3)] life.reach_inv [OF reach_steps [OF steps assms(1)]] by (simp_all add: life_inv_def)
  have at: "row_of ?i (env 1 (env 0 (lf_rows s))) = Some x"
    using row_of_unique [OF distinct(1) x(1)] x(2) by (simp add: openRegisteredRow_def s2(2))
  have returned: "row_of ?i t = Some r"
  proof (rule row_of_unique [OF distinct(2)])
    have "t = fst (update_where (\<lambda>r. openRegisteredRow ?i r \<and> owner_of (lc_kind c) r = Some (lc_serviceId c)) (take_over now desc) (lf_rows s2))"
      using took by (simp add: take_over_row_def case_prod_beta Let_def s2(2))
    then show "r \<in> set t" using x by (force simp: set_update)
    show "dp_id r = ?i" using x by (simp add: take_over_def openRegisteredRow_def)
  qed
  have after: "snd (take_over_row now' ?i k service d' (lf_rows s'')) = None" if "life_step\<^sup>*\<^sup>* ?s s''" for s'' now' k service d'
  proof (rule owned_not_taken_over)
    show "life_reachable s''" using reach_steps [OF that reach_steps [OF steps assms(1)]] .
    show "?i \<in> lf_owned s''" using life_steps_inv [OF that life.reach_inv [OF reach_steps [OF steps assms(1)]]] by auto
  qed
  have "\<exists>s'. life_step\<^sup>*\<^sup>* s s' \<and> lf_rows s' = t \<and> ?i \<in> lf_owned s' \<and>
      (\<forall>s'' now' k service d'. life_step\<^sup>*\<^sup>* s' s'' \<longrightarrow> snd (take_over_row now' ?i k service d' (lf_rows s'')) = None)"
    by (intro exI [of _ ?s] conjI allI impI steps after) simp_all
  then show ?thesis
    using at x(2-4) free returned owner by (auto simp: take_over_def openRegisteredRow_def)
qed

theorem row_taken_over_once_witness:
  "\<exists>t r. claimLiveGithubBuild (\<lambda>k t. t) 5 sample_claim None (lf_rows sample_life) = (t, Some r) \<and>
     (\<exists>x. row_of ''d'' (lf_rows sample_life) = Some x \<and> dp_externalBuildOnly x) \<and> dp_deployStartedAt r = Some 5"
proof -
  obtain t res where c: "claimLiveGithubBuild (\<lambda>k t. t) 5 sample_claim None (lf_rows sample_life) = (t, res)" by fastforce
  have "res \<noteq> None" using c
    by (auto simp: claimLiveGithubBuild_def sample_life_def sample_claim_def sample_row_def registered_row_def
        sample_target_def sample_registration_def row_of_def canContinueLiveBuild_def owner_of_def first_truthy_def
        take_over_row_def update_where_def openRegisteredRow_def)
  then obtain r where r: "res = Some r" by auto
  have "interferes (\<lambda>k t. t)" by (auto simp: interferes_def)
  from row_taken_over_once [OF sample_life_reachable this c [unfolded r]] show ?thesis
    using c r by (auto simp: sample_claim_def)
qed

text \<open>
  C33. The end of a build that never deployed is final. Once a registered row has left the status
  running (failed, cancelled or timed out on GitHub's side, closed by a person or by the queue), no
  writer of the table, in any order, changes its status or its message, hands it to a deploy or starts
  a deploy on it; it can only be deleted.
\<close>

theorem ended_build_row_final:
  assumes "life_reachable s" and "row_of i (lf_rows s) = Some r"
    and "dp_externalBuildOnly r" and "dp_status r \<noteq> Some Dep_Running" and "life_step\<^sup>*\<^sup>* s s'"
  shows "case row_of i (lf_rows s') of
      None \<Rightarrow> True
    | Some r' \<Rightarrow> dp_status r' = dp_status r \<and> dp_errorMessage r' = dp_errorMessage r \<and>
        dp_externalBuildOnly r' \<and> dp_deployStartedAt r' = dp_deployStartedAt r"
proof (cases "row_of i (lf_rows s')")
  case None
  then show ?thesis by simp
next
  case (Some r')
  from life_steps_row [OF assms(5) life.reach_inv [OF assms(1)] Some
      row_used [OF life.reach_inv [OF assms(1)] assms(2)]] assms(2)
  have "evolves r r'" by simp
  with Some assms(3,4) show ?thesis by (simp add: evolves_def)
qed

theorem ended_build_row_final_witness:
  "\<exists>s s'. life_reachable s \<and> life_step\<^sup>*\<^sup>* s s' \<and>
     (case row_of ''d'' (lf_rows s') of None \<Rightarrow> False | Some r \<Rightarrow> dp_status r = Some Dep_Cancelled)"
proof -
  define s where "s = sample_life\<lparr>lf_rows := fst (cancel_external 1 ''d'' (lf_rows sample_life))\<rparr>"
  define s' where "s' = s\<lparr>lf_rows := fst (endRow 2 ''d'' Dep_Error ''late'' False (lf_rows s))\<rparr>"
  have reach: "life_reachable s" unfolding s_def
    by (rule reach_step [OF sample_life_reachable l_cancel_external])
  have steps: "life_step\<^sup>*\<^sup>* s s'" unfolding s'_def by (rule r_into_rtranclp) (rule l_end_row)
  define r where "r = ended_row Dep_Cancelled ''Cancelled by user. The GitHub Actions run itself is not stopped.'' 1 sample_row"
  have row: "row_of ''d'' (lf_rows s) = Some r"
    by (simp add: s_def r_def sample_life_def cancel_external_def update_where_def row_of_def sample_row_def
        registered_row_def ended_row_def ends_as_def)
  have ended: "dp_externalBuildOnly r" "dp_status r \<noteq> Some Dep_Running"
    by (simp_all add: r_def ended_row_def ends_as_def sample_row_def registered_row_def)
  have "row_of ''d'' (lf_rows s') \<noteq> None"
    by (simp add: s'_def s_def sample_life_def cancel_external_def endRow_def update_where_def row_of_def sample_row_def
        registered_row_def ended_row_def ends_as_def)
  then obtain r' where r': "row_of ''d'' (lf_rows s') = Some r'" by blast
  have "dp_status r' = dp_status r" using ended_build_row_final [OF reach row ended steps] r' by simp
  moreover have "dp_status r = Some Dep_Cancelled" by (simp add: r_def ended_row_def ends_as_def)
  ultimately show ?thesis using reach steps r' by fastforce
qed

section \<open>One row per run\<close>

lemma last_of_sorted:
  "sort_key f xs = rs @ [r] \<Longrightarrow> r \<in> set xs"
  by (metis in_set_conv_decomp set_sort)

lemma findExisting_Some:
  "findExisting g url t = Some r \<Longrightarrow> r \<in> set t \<and> owner_of (bt_kind g) r = Some (bt_serviceId g) \<and>
     dp_buildOrigin r = Some Origin_Github_Actions \<and> dp_buildRunUrl r = Some url"
  by (auto simp: findExisting_def Let_def split: list.splits dest!: last_of_sorted)

lemma findExisting_registered:
  assumes "r \<in> set t" and "owner_of (bt_kind g) r = Some (bt_serviceId g)"
    and "dp_buildOrigin r = Some Origin_Github_Actions" and "dp_buildRunUrl r = Some url" and "dp_externalBuildOnly r"
  shows "findExisting g url t \<noteq> None"
proof -
  let ?P = "\<lambda>r. owner_of (bt_kind g) r = Some (bt_serviceId g) \<and>
            dp_buildOrigin r = Some Origin_Github_Actions \<and> dp_buildRunUrl r = Some url \<and>
            (dp_externalBuildOnly r \<or> status_in [Dep_Running, Dep_Done] r)"
  let ?f = "\<lambda>r. case dp_createdAt r of None \<Rightarrow> 0 | Some c \<Rightarrow> c"
  have "r \<in> set (rev (sort_key ?f (filter ?P t)))" using assms by simp
  then obtain x xs where "rev (sort_key ?f (filter ?P t)) = x # xs" by (cases "rev (sort_key ?f (filter ?P t))") auto
  then show ?thesis by (simp add: findExisting_def Let_def)
qed

text \<open>
  One row per run. Whatever the writers did, two registered rows of the same service and run
  link are one row; and registering a run whose row is there answers with a row of that service and that
  run and writes nothing, however often the workflow repeats the call.
\<close>

lemma one_row_per_run:
  assumes "life_reachable s" and "r \<in> set (lf_rows s)" and "dp_externalBuildOnly r"
    and "owner_of (bt_kind g) r = Some (bt_serviceId g)" and "dp_buildOrigin r = Some Origin_Github_Actions"
    and "dp_buildRunUrl r = Some (rg_buildRunUrl x)"
  shows "(\<forall>r'\<in>set (lf_rows s). same_registration r r' \<longrightarrow> r' = r) \<and>
    (\<exists>r'\<in>set (lf_rows s). owner_of (bt_kind g) r' = Some (bt_serviceId g) \<and>
       dp_buildRunUrl r' = Some (rg_buildRunUrl x) \<and>
       registerExternalBuild (\<lambda>k t. t) prune now i logPath g x (lf_rows s) = (lf_rows s, Some (dp_id r', False)))"
proof
  from life.reach_inv [OF assms(1)] have one: "\<forall>k<length (lf_rows s). \<forall>l<length (lf_rows s).
      same_registration (lf_rows s ! k) (lf_rows s ! l) \<longrightarrow> k = l" by (simp add: life_inv_def)
  show "\<forall>r'\<in>set (lf_rows s). same_registration r r' \<longrightarrow> r' = r"
  proof (intro ballI impI)
    fix r' assume "r' \<in> set (lf_rows s)" "same_registration r r'"
    moreover from this(1) obtain l where "l < length (lf_rows s)" "r' = lf_rows s ! l" by (auto simp: in_set_conv_nth)
    moreover from assms(2) obtain k where "k < length (lf_rows s)" "r = lf_rows s ! k" by (auto simp: in_set_conv_nth)
    ultimately show "r' = r" using one by auto
  qed
  from findExisting_registered [OF assms(2,4-6,3)] obtain r' where f: "findExisting g (rg_buildRunUrl x) (lf_rows s) = Some r'"
    by blast
  with findExisting_Some [OF f]
  show "\<exists>r'\<in>set (lf_rows s). owner_of (bt_kind g) r' = Some (bt_serviceId g) \<and>
       dp_buildRunUrl r' = Some (rg_buildRunUrl x) \<and>
       registerExternalBuild (\<lambda>k t. t) prune now i logPath g x (lf_rows s) = (lf_rows s, Some (dp_id r', False))"
    by (intro bexI [of _ r']) (auto simp: registerExternalBuild_def Let_def)
qed

section \<open>Runs of schedules\<close>

text \<open>
  One run of a schedule, its writers and the tokens their claims were given. \<open>rs_ended\<close>, which no code
  reads, says that the run itself has written its end.
\<close>

record run_state =
  rs_rows :: table
  rs_tokens :: "finish_time set"
  rs_ended :: bool

inductive run_step :: "string \<Rightarrow> run_state \<Rightarrow> run_state \<Rightarrow> bool" for i where
  r_claim: "claimScheduleRunCancel now i (rs_rows s) = (t, token) \<Longrightarrow>
    run_step i s (s\<lparr>rs_rows := t, rs_tokens := rs_tokens s \<union> set_option token\<rparr>)"
| r_revert: "token \<in> rs_tokens s \<Longrightarrow>
    run_step i s (s\<lparr>rs_rows := fst (revertScheduleRunCancel i token (rs_rows s))\<rparr>)"
| r_record: "st = Dep_Done \<or> st = Dep_Error \<Longrightarrow> record_end now i st (rs_rows s) = (t, wrote) \<Longrightarrow>
    run_step i s (s\<lparr>rs_rows := t, rs_ended := (rs_ended s \<or> wrote)\<rparr>)"
| r_mark: "markCancelledRunEnded now i (rs_rows s) = (t, wrote) \<Longrightarrow>
    run_step i s (s\<lparr>rs_rows := t, rs_ended := (rs_ended s \<or> wrote)\<rparr>)"
| r_cancelled: "run_step i s (s\<lparr>rs_rows := endScheduleRunCancelled now i (rs_rows s),
    rs_ended := (rs_ended s \<or> (\<exists>r\<in>set (rs_rows s). dp_id r = i \<and> status_in [Dep_Running, Dep_Cancelled] r))\<rparr>)"
| r_supersede: "run_step i s (s\<lparr>rs_rows := supersede_runs now schedule (rs_rows s)\<rparr>)"
| r_startup: "run_step i s (s\<lparr>rs_rows := initCancelDeployments onServer (rs_rows s)\<rparr>)"
| r_delete: "run_step i s (s\<lparr>rs_rows := filter P (rs_rows s)\<rparr>)"

definition run_init :: "string \<Rightarrow> run_state \<Rightarrow> bool" where
  "run_init i s \<longleftrightarrow> distinct (map dp_id (rs_rows s)) \<and> rs_tokens s = {} \<and> \<not> rs_ended s"

definition run_over :: "deployment \<Rightarrow> bool" where
  "run_over r \<longleftrightarrow> dp_status r = Some Dep_Done \<or> dp_status r = Some Dep_Error \<or>
     dp_status r = Some Dep_Cancelled \<and> (\<exists>n. dp_finishedAt r = Some (At_Offset n))"

definition run_inv :: "string \<Rightarrow> run_state \<Rightarrow> bool" where
  "run_inv i s \<longleftrightarrow> distinct (map dp_id (rs_rows s)) \<and> rs_tokens s \<subseteq> range At_Z \<and>
     (rs_ended s \<longrightarrow> (\<forall>r\<in>set (rs_rows s). dp_id r = i \<longrightarrow> run_over r))"

lemma run_over_update:
  assumes "\<forall>r\<in>set t. dp_id r = i \<longrightarrow> run_over r" and "\<And>r. dp_id (f r) = dp_id r"
    and "\<And>r. P r \<Longrightarrow> run_over r \<Longrightarrow> run_over (f r)"
  shows "\<forall>r\<in>set (fst (update_where P f t)). dp_id r = i \<longrightarrow> run_over r"
  using assms by (auto simp: set_update split: if_splits)

lemmas run_writes = claimScheduleRunCancel_def revertScheduleRunCancel_def record_end_def markCancelledRunEnded_def
  endScheduleRunCancelled_def supersede_runs_def case_prod_beta Let_def

text \<open>A write of the run's own end reaches the row of the id, and leaves it over.\<close>

lemma own_end_over:
  assumes "distinct (map dp_id t)" and "\<exists>r\<in>set t. P r" and "\<And>r. P r \<Longrightarrow> dp_id r = i"
    and "\<And>r. dp_id (f r) = dp_id r" and "\<And>r. P r \<Longrightarrow> run_over (f r)"
  shows "\<forall>r\<in>set (fst (update_where P f t)). dp_id r = i \<longrightarrow> run_over r"
proof (intro ballI impI)
  fix r assume "r \<in> set (fst (update_where P f t))" "dp_id r = i"
  then obtain x where x: "x \<in> set t" "r = (if P x then f x else x)" by (auto simp: set_update)
  from assms(2) obtain y where "y \<in> set t" "P y" by blast
  moreover have "dp_id x = i" using x \<open>dp_id r = i\<close> assms(4) by (auto split: if_splits)
  ultimately have "x = y" using assms(1,3) x(1) by (auto simp: distinct_map inj_on_def)
  with x \<open>P y\<close> assms(5) show "run_over r" by simp
qed

lemma run_inv_plain:
  assumes "run_inv i s" and "\<And>r. dp_id (f r) = dp_id r" and "\<And>r. P r \<Longrightarrow> run_over r \<Longrightarrow> run_over (f r)"
    and "T \<subseteq> range At_Z"
  shows "run_inv i (s\<lparr>rs_rows := fst (update_where P f (rs_rows s)), rs_tokens := T\<rparr>)"
  using assms run_over_update [of "rs_rows s" i f P] by (simp add: run_inv_def ids_update)

lemma run_inv_end:
  assumes "run_inv i s" and "\<And>r. dp_id (f r) = dp_id r" and "\<And>r. P r \<Longrightarrow> dp_id r = i \<and> run_over (f r)"
    and "wrote \<longleftrightarrow> (\<exists>r\<in>set (rs_rows s). P r)"
  shows "run_inv i (s\<lparr>rs_rows := fst (update_where P f (rs_rows s)), rs_ended := (rs_ended s \<or> wrote)\<rparr>)"
  using assms run_over_update [of "rs_rows s" i f P] own_end_over [of "rs_rows s" P i f]
  by (auto simp: run_inv_def ids_update)

lemma run_inv_step:
  assumes "run_inv i s" and "run_step i s s'"
  shows "run_inv i s'"
  using assms(2)
proof cases
  case (r_claim now t token)
  define T where "T = rs_tokens s \<union> set_option token"
  have "T \<subseteq> range At_Z" using assms(1) r_claim(2) by (auto simp: T_def run_inv_def run_writes split: if_splits)
  then show ?thesis unfolding r_claim(1) T_def [symmetric]
    using r_claim(2) run_inv_plain [OF assms(1), of "ends_as Dep_Cancelled now" "\<lambda>r. dp_id r = i \<and> dp_status r = Some Dep_Running" T]
    by (auto simp: run_writes ends_as_def run_over_def)
next
  case (r_revert token)
  with assms(1) obtain n where "token = At_Z n" by (auto simp: run_inv_def)
  with r_revert run_inv_plain [OF assms(1), of "\<lambda>r. r\<lparr>dp_status := Some Dep_Running, dp_finishedAt := None\<rparr>"
      "\<lambda>r. dp_id r = i \<and> dp_status r = Some Dep_Cancelled \<and> dp_finishedAt r = Some token" "rs_tokens s"] assms(1)
  show ?thesis by (auto simp: run_writes run_over_def run_inv_def)
next
  case (r_record st now t wrote)
  have "run_over (ends_as st now r)" for r using r_record(2) by (auto simp: run_over_def ends_as_def)
  moreover have "wrote \<longleftrightarrow> (\<exists>r\<in>set (rs_rows s). dp_id r = i \<and> status_not_in [Dep_Cancelled] r)"
    using r_record(3) written_iff by (auto simp: run_writes)
  ultimately show ?thesis using r_record(1,3) run_inv_end [OF assms(1), of "ends_as st now"
      "\<lambda>r. dp_id r = i \<and> status_not_in [Dep_Cancelled] r" wrote] by (auto simp: run_writes ends_as_def)
next
  case (r_mark now t wrote)
  have "wrote \<longleftrightarrow> (\<exists>r\<in>set (rs_rows s). dp_id r = i \<and> dp_status r = Some Dep_Cancelled)"
    using r_mark(2) written_iff by (auto simp: run_writes)
  then show ?thesis using r_mark run_inv_end [OF assms(1), of "\<lambda>r. r\<lparr>dp_finishedAt := Some (At_Offset now)\<rparr>"
      "\<lambda>r. dp_id r = i \<and> dp_status r = Some Dep_Cancelled" wrote] by (auto simp: run_writes run_over_def)
next
  case (r_cancelled now)
  show ?thesis unfolding r_cancelled endScheduleRunCancelled_def
    by (rule run_inv_end [OF assms(1)]) (auto simp: run_over_def)
next
  case (r_supersede now schedule)
  with run_inv_plain [OF assms(1), of "\<lambda>r. (ends_as Dep_Error now r)\<lparr>dp_errorMessage := Some ''Superseded by a new run of this schedule.''\<rparr>"
      "\<lambda>r. dp_scheduleId r = Some schedule \<and> dp_status r = Some Dep_Running" "rs_tokens s"] assms(1)
  show ?thesis by (simp add: run_writes ends_as_def run_over_def run_inv_def)
next
  case (r_delete P)
  with assms(1) show ?thesis by (auto simp: run_inv_def distinct_map_filter)
next
  case (r_startup onServer)
  define ids where "ids = map dp_id (filter (\<lambda>r. (case dp_scheduleId r of None \<Rightarrow> True | Some s \<Rightarrow> s = [] \<or> onServer s))
    (filter (\<lambda>r. dp_status r = Some Dep_Running \<and> notWaitingForGithubRun r) (rs_rows s)))"
  have "dp_status r = Some Dep_Running" if "r \<in> set (rs_rows s)" "dp_id r \<in> set ids" for r
  proof -
    from that(2) obtain r' where r': "r' \<in> set (rs_rows s)" "dp_id r' = dp_id r" "dp_status r' = Some Dep_Running"
      by (auto simp: ids_def)
    with assms(1) that(1) have "r' = r" by (auto simp: run_inv_def distinct_map inj_on_def)
    with r' show ?thesis by simp
  qed
  then have "\<not> run_over r" if "r \<in> set (rs_rows s)" "dp_id r \<in> set ids" for r
    using that by (simp add: run_over_def)
  then have "run_over r" if "rs_ended s" "r \<in> set (fst (update_where (\<lambda>r. dp_id r \<in> set ids)
      (\<lambda>r. r\<lparr>dp_status := Some Dep_Cancelled\<rparr>) (rs_rows s)))" "dp_id r = i" for r
    using that assms(1) by (auto simp: run_inv_def set_update split: if_splits)
  then have "run_inv i (s\<lparr>rs_rows := fst (update_where (\<lambda>r. dp_id r \<in> set ids) (\<lambda>r. r\<lparr>dp_status := Some Dep_Cancelled\<rparr>) (rs_rows s))\<rparr>)"
    using assms(1) by (simp add: run_inv_def ids_update)
  then show ?thesis using assms(1) unfolding r_startup initCancelDeployments_def Let_def ids_def [symmetric] by simp
qed

interpretation run: inductive_invariant "run_init i" "run_step i" "run_inv i" for i
proof
  show "run_inv i s" if "run_init i s" for s using that by (simp add: run_init_def run_inv_def)
  show "run_inv i t" if "run_inv i s" "run_step i s t" for s t using that by (rule run_inv_step)
qed

abbreviation run_reachable :: "string \<Rightarrow> run_state \<Rightarrow> bool" where
  "run_reachable i \<equiv> reach (run_init i) (run_step i)"

definition run_interferes :: "string \<Rightarrow> (nat \<Rightarrow> table \<Rightarrow> table) \<Rightarrow> bool" where
  "run_interferes i env \<longleftrightarrow> (\<forall>k s. run_reachable i s \<longrightarrow> (\<exists>s'. (run_step i)\<^sup>*\<^sup>* s s' \<and> rs_rows s' = env k (rs_rows s)))"

lemma run_reach_steps: "(run_step i)\<^sup>*\<^sup>* s s' \<Longrightarrow> run_reachable i s \<Longrightarrow> run_reachable i s'"
  by (induction rule: rtranclp_induct) (auto intro: reach_step)

lemma ended_steps: "(run_step i)\<^sup>*\<^sup>* s s' \<Longrightarrow> rs_ended s \<Longrightarrow> rs_ended s'"
proof (induction rule: rtranclp_induct)
  case (step y z)
  from step.hyps(2) have "rs_ended y \<longrightarrow> rs_ended z" by cases auto
  with step show ?case by blast
qed simp

lemma finish_tries_ends:
  assumes "run_interferes i env" and "st = Dep_Done \<or> st = Dep_Error" and "run_reachable i s"
    and "finish_tries env now i st k n (rs_rows s) = (t, res)" and "res \<noteq> Missing"
  shows "\<exists>s'. (run_step i)\<^sup>*\<^sup>* s s' \<and> rs_rows s' = t \<and> rs_ended s'"
  using assms(3-5)
proof (induction n arbitrary: s k)
  case 0
  then show ?case by simp
next
  case (Suc n)
  obtain s1 where s1: "(run_step i)\<^sup>*\<^sup>* s s1" "rs_rows s1 = env k (rs_rows s)"
    using assms(1) Suc.prems(1) unfolding run_interferes_def by blast
  obtain t2 wrote where rec: "record_end now i st (rs_rows s1) = (t2, wrote)" by fastforce
  define s2 where "s2 = s1\<lparr>rs_rows := t2, rs_ended := (rs_ended s1 \<or> wrote)\<rparr>"
  have "run_step i s1 s2" unfolding s2_def by (rule r_record [OF assms(2) rec])
  with s1(1) have s2: "(run_step i)\<^sup>*\<^sup>* s s2" by simp
  show ?case
  proof (cases wrote)
    case True
    with Suc.prems(2) rec s1(2) have "t = t2" by simp
    with s2 True show ?thesis by (auto simp: s2_def)
  next
    case False
    obtain s3 where s3: "(run_step i)\<^sup>*\<^sup>* s2 s3" "rs_rows s3 = env (Suc k) (rs_rows s2)"
      using assms(1) run_reach_steps [OF s2 Suc.prems(1)] unfolding run_interferes_def by blast
    obtain t4 marked where mark: "markCancelledRunEnded now i (rs_rows s3) = (t4, marked)" by fastforce
    define s4 where "s4 = s3\<lparr>rs_rows := t4, rs_ended := (rs_ended s3 \<or> marked)\<rparr>"
    have "run_step i s3 s4" unfolding s4_def by (rule r_mark [OF mark])
    with s2 s3(1) have s4: "(run_step i)\<^sup>*\<^sup>* s s4" by (meson rtranclp.rtrancl_into_rtrancl rtranclp_trans)
    have rows3: "rs_rows s3 = env (Suc k) t2" using s3(2) by (simp add: s2_def)
    show ?thesis
    proof (cases marked)
      case True
      with Suc.prems(2) rec mark False s1(2) rows3 have "t = t4" by simp
      with s4 True show ?thesis by (auto simp: s4_def)
    next
      case False
      have "finish_tries env now i st (k + 2) n (rs_rows s4) = (t, res)"
        using Suc.prems(2) rec mark False \<open>\<not> wrote\<close> s1(2) rows3 by (simp add: s4_def)
      from Suc.IH [OF run_reach_steps [OF s4 Suc.prems(1)] this Suc.prems(3)] obtain s5 where
        "(run_step i)\<^sup>*\<^sup>* s4 s5" "rs_rows s5 = t" "rs_ended s5" by blast
      with rtranclp_trans [OF s4] show ?thesis by blast
    qed
  qed
qed

text \<open>
  A run of a schedule that has ended never runs again. A cancel claims the run before it kills
  anything and takes the claim back when the kill fails, with any other writer in between. Once the run
  has recorded its end, in either of its two tries, no later step puts it back to running: the take-back
  looks for the finish time its claim wrote, which the end has moved off.
\<close>

lemma ended_run_never_runs:
  assumes "run_reachable i s" and "run_interferes i env" and "st = Dep_Done \<or> st = Dep_Error"
    and "finishScheduleRun env now i st (rs_rows s) = (t, res)" and "res \<noteq> Missing"
  shows "\<exists>s'. (run_step i)\<^sup>*\<^sup>* s s' \<and> rs_rows s' = t \<and>
     (\<forall>s''. (run_step i)\<^sup>*\<^sup>* s' s'' \<longrightarrow> (\<forall>r\<in>set (rs_rows s''). dp_id r = i \<longrightarrow> dp_status r \<in> {Some Dep_Done, Some Dep_Error, Some Dep_Cancelled}))"
proof -
  from finish_tries_ends [OF assms(2,3,1) assms(4) [unfolded finishScheduleRun_def] assms(5)] obtain s' where
    s': "(run_step i)\<^sup>*\<^sup>* s s'" "rs_rows s' = t" "rs_ended s'" by blast
  have "dp_status r \<in> {Some Dep_Done, Some Dep_Error, Some Dep_Cancelled}"
    if "(run_step i)\<^sup>*\<^sup>* s' s''" "r \<in> set (rs_rows s'')" "dp_id r = i" for s'' r
  proof -
    have "run_reachable i s''" using run_reach_steps [OF that(1) run_reach_steps [OF s'(1) assms(1)]] .
    from run.reach_inv [OF this] ended_steps [OF that(1) s'(3)] that show ?thesis
      by (auto simp: run_inv_def run_over_def)
  qed
  with s' show ?thesis by blast
qed

definition sample_run :: run_state where
  "sample_run = \<lparr>rs_rows = [sample_row\<lparr>dp_scheduleId := Some ''s'', dp_externalBuildOnly := False\<rparr>], rs_tokens = {}, rs_ended = False\<rparr>"

text \<open>
  The other answer, \<open>Missing\<close>, is meant for a row that is gone. Two cancels that are both taken back, one
  around each try, make it the answer for a run whose row is there and still says running.
\<close>

definition flapping :: "nat \<Rightarrow> table \<Rightarrow> table" where
  "flapping k t = (if k = 0 \<or> k = 2 then fst (claimScheduleRunCancel (int k) ''d'' t)
     else fst (revertScheduleRunCancel ''d'' (At_Z (int k - 1)) t))"

lemma finish_misses_a_present_run:
  "finishScheduleRun flapping 9 ''d'' Dep_Done (rs_rows sample_run) = (rs_rows sample_run, Missing) \<and>
     map dp_status (rs_rows sample_run) = [Some Dep_Running]"
  by (simp add: finishScheduleRun_def numeral_2_eq_2 flapping_def claimScheduleRunCancel_def revertScheduleRunCancel_def
      record_end_def markCancelledRunEnded_def update_where_def sample_run_def sample_row_def registered_row_def
      status_not_in_def ends_as_def)

end
