(* ===== verification/Watchdog_Config.thy ===== *)
theory Watchdog_Config
  imports Deployment_Ends
begin

text \<open>
  The settings and the decision rules of the watchdog of stuck deployments
  (\<open>packages/server/src/utils/deployments/watchdog-config.ts\<close>) and the stop of the work of one
  deployment (\<open>apps/dokploy/server/queues/deployment-stop.ts\<close>). Durations are whole milliseconds and
  minutes.
\<close>

section \<open>Settings\<close>

definition DEFAULT_IDLE_MINUTES :: int where "DEFAULT_IDLE_MINUTES = 20"
definition MIN_IDLE_MINUTES :: int where "MIN_IDLE_MINUTES = 15"
definition DEFAULT_MAX_MINUTES :: int where "DEFAULT_MAX_MINUTES = 180"
definition MIN_MAX_MINUTES :: int where "MIN_MAX_MINUTES = 15"
definition MAX_IDLE_MINUTES :: int where "MAX_IDLE_MINUTES = 24 * 60"
definition MAX_MAX_MINUTES :: int where "MAX_MAX_MINUTES = 7 * 24 * 60"
definition MINUTE_MS :: int where "MINUTE_MS = 60000"

lemmas watchdog_limits = DEFAULT_IDLE_MINUTES_def MIN_IDLE_MINUTES_def DEFAULT_MAX_MINUTES_def MIN_MAX_MINUTES_def
  MAX_IDLE_MINUTES_def MAX_MAX_MINUTES_def

record exclusion =
  ex_type :: service_kind
  ex_id :: string
  ex_reason :: "string option"

record watchdog_config =
  wc_enabled :: bool
  wc_idleMinutes :: int
  wc_maxMinutes :: int
  wc_exclusions :: "exclusion list"

text \<open>The stored row: a limit that is absent or not a finite number is \<open>None\<close>, else its floor.\<close>

record stored_settings =
  ss_enabled :: "bool option"
  ss_idleMinutes :: "int option"
  ss_maxMinutes :: "int option"
  ss_exclusions :: "json option"

definition clampMinutes :: "int option \<Rightarrow> int \<Rightarrow> int \<Rightarrow> int \<Rightarrow> int" where
  "clampMinutes v fallback lo hi = (case v of None \<Rightarrow> fallback | Some n \<Rightarrow> min hi (max lo n))"

definition exclusion_type :: "json \<Rightarrow> service_kind option" where
  "exclusion_type j = (case obj_get j ''type'' of
       Some (J_Str s) \<Rightarrow> if s = ''application'' then Some Kind_Application
         else if s = ''compose'' then Some Kind_Compose else None
     | _ \<Rightarrow> None)"

definition exclusion_id :: "json \<Rightarrow> string option" where
  "exclusion_id j = (case obj_get j ''id'' of Some (J_Str s) \<Rightarrow> if s = [] then None else Some s | _ \<Rightarrow> None)"

definition exclusion_reason :: "json \<Rightarrow> string option" where
  "exclusion_reason j = (case obj_get j ''reason'' of
       Some (J_Str s) \<Rightarrow> if s = [] then None else Some (take 300 s) | _ \<Rightarrow> None)"

definition parse_exclusion :: "json \<Rightarrow> exclusion option" where
  "parse_exclusion j = (case (exclusion_type j, exclusion_id j) of
       (Some k, Some i) \<Rightarrow> Some \<lparr>ex_type = k, ex_id = i, ex_reason = exclusion_reason j\<rparr>
     | _ \<Rightarrow> None)"

definition parseExclusions :: "json option \<Rightarrow> exclusion list" where
  "parseExclusions v = (case v of Some (J_Arr xs) \<Rightarrow> List.map_filter parse_exclusion xs | _ \<Rightarrow> [])"

definition resolveWatchdogConfig :: "stored_settings option \<Rightarrow> watchdog_config" where
  "resolveWatchdogConfig s =
     (let idle = clampMinutes (Option.bind s ss_idleMinutes) DEFAULT_IDLE_MINUTES MIN_IDLE_MINUTES MAX_IDLE_MINUTES;
          wall = clampMinutes (Option.bind s ss_maxMinutes) DEFAULT_MAX_MINUTES MIN_MAX_MINUTES MAX_MAX_MINUTES
      in \<lparr>wc_enabled = (case Option.bind s ss_enabled of None \<Rightarrow> True | Some b \<Rightarrow> b),
          wc_idleMinutes = idle, wc_maxMinutes = max wall idle,
          wc_exclusions = parseExclusions (Option.bind s ss_exclusions)\<rparr>)"

text \<open>\<open>service\<close> is the application and the compose of the deployment.\<close>

definition isWatchdogExcluded :: "exclusion list \<Rightarrow> string option \<times> string option \<Rightarrow> bool" where
  "isWatchdogExcluded xs service = list_ex (\<lambda>x.
     ex_type x = Kind_Application \<and> Some (ex_id x) = fst service \<or>
     ex_type x = Kind_Compose \<and> Some (ex_id x) = snd service) xs"

section \<open>The limits\<close>

datatype trigger_kind = Idle | Wall

record trigger =
  tr_kind :: trigger_kind
  tr_minutes :: int
  tr_observedMinutes :: int

definition evaluateWatchdog :: "watchdog_config \<Rightarrow> int \<Rightarrow> int option \<Rightarrow> trigger option" where
  "evaluateWatchdog c runningMs idleMs =
     (if runningMs > wc_maxMinutes c * MINUTE_MS
      then Some \<lparr>tr_kind = Wall, tr_minutes = wc_maxMinutes c, tr_observedMinutes = runningMs div MINUTE_MS\<rparr>
      else case idleMs of
          None \<Rightarrow> None
        | Some ms \<Rightarrow> if ms > wc_idleMinutes c * MINUTE_MS
            then Some \<lparr>tr_kind = Idle, tr_minutes = wc_idleMinutes c, tr_observedMinutes = ms div MINUTE_MS\<rparr>
            else None)"

definition WATCHDOG_SETTINGS_LOCATION :: string where
  "WATCHDOG_SETTINGS_LOCATION = ''Settings > Deployments > Stuck Deployment Watchdog''"

definition watchdogTriggerLine :: "trigger \<Rightarrow> string" where
  "watchdogTriggerLine t =
     (if tr_kind t = Idle then ''Watchdog: no log output for '' @ show_int (tr_minutes t) @ '' min''
      else ''Deployment watchdog: stopped after '' @ show_int (tr_observedMinutes t) @
        '' min, over the wall limit of '' @ show_int (tr_minutes t) @ '' min ('' @ WATCHDOG_SETTINGS_LOCATION @
        ''). The wall limit applies even while a deploy keeps printing progress; raise it if long builds are expected.'')"

definition WATCHDOG_FAILED_LINE :: string where
  "WATCHDOG_FAILED_LINE = ''Watchdog: marked failed''"

section \<open>Stopping the work\<close>

datatype stop_method = Stop_Launcher | Stop_Pid | Stop_Generic | Stop_None

record stop_result =
  st_method :: stop_method
  st_notRunning :: bool
  st_claimedCancelled :: bool
  st_warning :: "string option"
  st_retryable :: bool

text \<open>
  What the launcher answers: no launcher runs this deployment, the deployment was no longer running, or
  it was claimed as cancelled, with a warning and whether the generic stop is still needed.
\<close>

datatype launcher_answer = No_Launcher | Launcher_Not_Running | Launcher_Cancelled "string option" bool

text \<open>A plain decimal pid of at least 2.\<close>

definition valid_pid :: "string \<Rightarrow> bool" where
  "valid_pid p \<longleftrightarrow> (case p of
       [] \<Rightarrow> False
     | c # cs \<Rightarrow> if cs = [] then is_digit c \<and> c \<noteq> CHR ''0'' \<and> c \<noteq> CHR ''1''
         else is_digit c \<and> c \<noteq> CHR ''0'' \<and> list_all is_digit cs)"

definition nothing_stopped :: "bool \<Rightarrow> string \<Rightarrow> bool \<Rightarrow> stop_result" where
  "nothing_stopped claimed warning retry = \<lparr>st_method = Stop_None, st_notRunning = False,
     st_claimedCancelled = claimed, st_warning = Some warning, st_retryable = retry\<rparr>"

definition stopped_by :: "stop_method \<Rightarrow> bool \<Rightarrow> string option \<Rightarrow> stop_result" where
  "stopped_by m claimed warning = \<lparr>st_method = m, st_notRunning = False,
     st_claimedCancelled = claimed, st_warning = warning, st_retryable = False\<rparr>"

definition others_warning :: "service_kind \<Rightarrow> nat \<Rightarrow> string" where
  "others_warning kind others = ''The '' @ kind_name kind @ '' build has no process handle and '' @
     show_nat others @ '' other deploy'' @ (if others = 1 then '' runs'' else ''s run'') @
     '' on the same host, so it was not signalled; it may keep running there until it ends.''"

text \<open>
  The dependencies as arguments: the launcher's answer, the message of a failed \<open>kill\<close>, the kind of the
  service of a preview, the number of other deploys on the host.
\<close>

definition generic_stop :: "service_kind \<Rightarrow> nat \<Rightarrow> deployment \<Rightarrow> bool \<Rightarrow> string option \<Rightarrow> stop_result" where
  "generic_stop previewKind others r claimed warning =
     (let kind = (if truthy (dp_previewDeploymentId r) then previewKind
            else if truthy (dp_composeId r) then Kind_Compose else Kind_Application)
      in if 0 < others then nothing_stopped claimed (others_warning kind others) True
         else stopped_by Stop_Generic claimed warning)"

definition stopDeploymentWork ::
  "launcher_answer \<Rightarrow> (string \<Rightarrow> string option) \<Rightarrow> service_kind \<Rightarrow> nat \<Rightarrow> bool \<Rightarrow> deployment \<Rightarrow> stop_result" where
  "stopDeploymentWork launcher kill previewKind others launcherOnly r =
     (if truthy (dp_previewDeploymentId r) \<and> truthy (dp_buildServerId r)
      then nothing_stopped False ''A preview deployment built on a build server cannot be stopped individually, so it was not signalled; its queue slot is released if it does not end by itself.'' False
      else
        let go = (\<lambda>claimed warning.
          if launcherOnly
          then nothing_stopped claimed (case warning of Some w \<Rightarrow> w | None \<Rightarrow>
            ''No queue job runs this deployment, so no process was signalled; only its record was closed.'') False
          else case dp_pid r of
              Some p \<Rightarrow> if valid_pid p
                then (case kill p of
                    None \<Rightarrow> stopped_by Stop_Pid claimed warning
                  | Some why \<Rightarrow> nothing_stopped claimed (''Could not signal process '' @ p @ '': '' @ why) False)
                else generic_stop previewKind others r claimed warning
            | None \<Rightarrow> generic_stop previewKind others r claimed warning)
        in case launcher of
            Launcher_Not_Running \<Rightarrow> \<lparr>st_method = Stop_None, st_notRunning = True, st_claimedCancelled = False,
              st_warning = None, st_retryable = False\<rparr>
          | Launcher_Cancelled w more_needed \<Rightarrow>
              if \<not> more_needed then stopped_by Stop_Launcher True w else go True w
          | No_Launcher \<Rightarrow> go False None)"

end
