(* ===== verification/Watchdog.thy ===== *)
theory Watchdog
  imports Watchdog_Config Effect_Log Queue_Ops
begin

text \<open>
  The watchdog of stuck deployments, \<open>apps/dokploy/server/queues/deployment-watchdog.ts\<close>: one sweep
  over the running deploys, what it remembers between sweeps, and the three steps of failing one (stop
  the work, wait for the job to end, close the row and free the slot). The queue, the database, the
  hosts and the clock answer through an environment. A job is an \<open>internal_job\<close> of the queue. The
  checks of the rows, which the source runs concurrently, run one after the other here: each touches
  only the entries of its own row, and what it asks may depend on everything that happened before.
\<close>

section \<open>The jobs of a deployment\<close>

record service_ref =
  sv_applicationId :: "string option"
  sv_composeId :: "string option"
  sv_previewDeploymentId :: "string option"

definition jobServiceOf :: "deployment_job \<Rightarrow> service_ref" where
  "jobServiceOf d = \<lparr>sv_applicationId = applicationId d, sv_composeId = composeId d,
     sv_previewDeploymentId = previewDeploymentId d\<rparr>"

definition serviceRefOf :: "deployment \<Rightarrow> service_ref" where
  "serviceRefOf r = \<lparr>sv_applicationId = dp_applicationId r, sv_composeId = dp_composeId r,
     sv_previewDeploymentId = dp_previewDeploymentId r\<rparr>"

definition job_runs :: "deployment \<Rightarrow> internal_job \<Rightarrow> bool" where
  "job_runs r j =
     (let s = jobServiceOf (jdata j) in
      if truthy (dp_previewDeploymentId r) then sv_previewDeploymentId s = dp_previewDeploymentId r
      else if truthy (sv_previewDeploymentId s) then False
      else if truthy (dp_composeId r) then sv_composeId s = dp_composeId r
      else if truthy (dp_applicationId r) then sv_applicationId s = dp_applicationId r
      else False)"

definition jobsOfService :: "deployment \<Rightarrow> internal_job list \<Rightarrow> internal_job list" where
  "jobsOfService r jobs = filter (job_runs r) jobs"

text \<open>The job whose start created the row, or took it over: with one minute of slack.\<close>

definition findJobOf :: "deployment \<Rightarrow> internal_job list \<Rightarrow> internal_job option" where
  "findJobOf r jobs = find (\<lambda>j. case processedOn j of
       None \<Rightarrow> True
     | Some started \<Rightarrow> (case nullish (dp_deployStartedAt r) (dp_createdAt r) of
           None \<Rightarrow> True | Some created \<Rightarrow> created \<ge> started - MINUTE_MS))
     (jobsOfService r jobs)"

definition deployStartOf :: "deployment \<Rightarrow> int option" where
  "deployStartOf r = nullish (dp_deployStartedAt r) (nullish (dp_startedAt r) (dp_createdAt r))"

definition running_ms :: "deployment \<Rightarrow> int \<Rightarrow> int" where
  "running_ms r now = (case deployStartOf r of None \<Rightarrow> 0 | Some s \<Rightarrow> now - s)"

section \<open>What it remembers, and what it does\<close>

record kept_lock =
  kl_row :: "deployment option"
  kl_service :: service_ref
  kl_host :: "string option"
  kl_since :: int
  kl_boundMs :: int

record pending_stop =
  ps_row :: deployment
  ps_trigger :: trigger
  ps_stop :: stop_result
  ps_host :: "string option"
  ps_jobId :: "nat option"
  ps_stoppedAt :: int

record service_context =
  sc_organizationId :: string
  sc_appName :: string
  sc_type :: service_kind
  sc_serviceId :: string

datatype audit_entry =
    Audit_Failed trigger stop_method bool bool bool "string option"
  | Audit_Lock_Dropped nat int
  | Audit_Hung_Job nat int bool

text \<open>
  The effects: what was read and what it answered, and what was done. A line is appended to the log of
  a row on its host; a stop says whether only the launcher may be used; a failure is marked with the
  message and whether the stop claimed the row.
\<close>

datatype wd_effect =
    Call_Threw string
  | Config_Read watchdog_config
  | Jobs_Read "internal_job list"
  | Running_Read "deployment list"
  | Clock_Read int
  | Status_Read string "deployment_status option"
  | Idle_Read string "int option"
  | Service_Read string "(string option \<times> string option) option"
  | Latest_Read service_ref "deployment list"
  | Host_Read string "string option option"
  | Context_Read service_ref "service_context option"
  | Log_Appended "string option" string string
  | Stopped string bool stop_result
  | Marked_Failed string string bool mark_outcome
  | Service_Failed service_ref
  | Notified string string
  | Audited service_context "string option" audit_entry
  | Marked_Released string
  | Slot_Released nat bool bool
  | Lock_Read nat bool
  | Lock_Dropped nat bool

record wd_env =
  we_throws :: "wd_effect list \<Rightarrow> string option"
  we_now :: "wd_effect list \<Rightarrow> int"
  we_config :: "wd_effect list \<Rightarrow> watchdog_config"
  we_jobs :: "wd_effect list \<Rightarrow> internal_job list"
  we_running :: "wd_effect list \<Rightarrow> deployment list"
  we_status :: "wd_effect list \<Rightarrow> deployment_status option"
  we_idle :: "wd_effect list \<Rightarrow> int option"
  we_service :: "wd_effect list \<Rightarrow> (string option \<times> string option) option"
  we_latest :: "wd_effect list \<Rightarrow> deployment list"
  we_host :: "wd_effect list \<Rightarrow> string option option"
  we_context :: "wd_effect list \<Rightarrow> service_context option"
  we_stop :: "wd_effect list \<Rightarrow> stop_result"
  we_mark :: "wd_effect list \<Rightarrow> mark_outcome"
  we_release :: "wd_effect list \<Rightarrow> bool"
  we_hasLock :: "wd_effect list \<Rightarrow> bool"
  we_dropLock :: "wd_effect list \<Rightarrow> bool"
  we_graceMs :: int
  we_wedgedMs :: int

record wd_state = "wd_effect effect_state" +
  wd_pending :: "(string \<times> pending_stop) list"
  wd_kept :: "(nat \<times> kept_lock) list"
  wd_suspects :: "(string \<times> int) list"
  wd_silent :: "string list"
  wd_sweeping :: bool

type_synonym 'a wd = "wd_state \<Rightarrow> (string + 'a) \<times> wd_state"

definition STOP_RELEASE_GRACE_MS :: int where "STOP_RELEASE_GRACE_MS = 10 * MINUTE_MS"
definition WEDGED_AFTER_FINISH_MS :: int where "WEDGED_AFTER_FINISH_MS = 5 * MINUTE_MS"
definition GROUP_LOCK_MIN_BOUND_MINUTES :: int where "GROUP_LOCK_MIN_BOUND_MINUTES = 180"

section \<open>Calls\<close>

definition wd_call :: "wd_env \<Rightarrow> unit wd" where
  "wd_call e = andThen (ask (we_throws e)) (\<lambda>t. case t of None \<Rightarrow> give ()
     | Some message \<Rightarrow> andThen (act (Call_Threw message)) (\<lambda>_. fail_with message))"

text \<open>A call with an answer that becomes part of its effect, and one that answers at once.\<close>

definition reads :: "wd_env \<Rightarrow> (wd_effect list \<Rightarrow> 'a) \<Rightarrow> ('a \<Rightarrow> wd_effect) \<Rightarrow> 'a wd" where
  "reads e answer eff = andThen (wd_call e) (\<lambda>_. andThen (ask answer) (\<lambda>x. andThen (act (eff x)) (\<lambda>_. give x)))"

definition reads_now :: "(wd_effect list \<Rightarrow> 'a) \<Rightarrow> ('a \<Rightarrow> wd_effect) \<Rightarrow> 'a wd" where
  "reads_now answer eff = andThen (ask answer) (\<lambda>x. andThen (act (eff x)) (\<lambda>_. give x))"

definition does_call :: "wd_env \<Rightarrow> wd_effect \<Rightarrow> unit wd" where
  "does_call e eff = andThen (wd_call e) (\<lambda>_. act eff)"

definition clock :: "wd_env \<Rightarrow> int wd" where
  "clock e = reads_now (we_now e) Clock_Read"

definition read_status :: "wd_env \<Rightarrow> string \<Rightarrow> deployment_status option wd" where
  "read_status e i = reads e (we_status e) (Status_Read i)"

definition read_idle :: "wd_env \<Rightarrow> deployment \<Rightarrow> int option wd" where
  "read_idle e r = reads e (we_idle e) (Idle_Read (dp_id r))"

definition append_log :: "wd_env \<Rightarrow> string option \<Rightarrow> deployment \<Rightarrow> string \<Rightarrow> unit wd" where
  "append_log e host r line = does_call e (Log_Appended host (dp_logPath r) line)"

definition load_context :: "wd_env \<Rightarrow> service_ref \<Rightarrow> service_context option wd" where
  "load_context e s = reads e (we_context e) (Context_Read s)"

definition hostOf :: "wd_env \<Rightarrow> deployment \<Rightarrow> string option wd" where
  "hostOf e r = andThen (reads e (we_host e) (Host_Read (dp_id r))) (\<lambda>h.
     give (case h of Some known \<Rightarrow> known
       | None \<Rightarrow> if truthy (dp_buildServerId r) then dp_buildServerId r else dp_serverId r))"

definition audit :: "wd_env \<Rightarrow> deployment option \<Rightarrow> service_context \<Rightarrow> audit_entry \<Rightarrow> unit wd" where
  "audit e r c entry = does_call e (Audited c (map_option dp_id r) entry)"

definition fail_service :: "wd_env \<Rightarrow> service_ref \<Rightarrow> unit wd" where
  "fail_service e s = attempt (does_call e (Service_Failed s))"

section \<open>Closing a deployment\<close>

text \<open>The line of the trigger without the full stop at its end.\<close>

definition reason_text :: "trigger \<Rightarrow> string" where
  "reason_text t = (let l = watchdogTriggerLine t in if l \<noteq> [] \<and> last l = CHR ''.'' then butlast l else l)"

definition failed_message :: "trigger \<Rightarrow> string" where
  "failed_message t = reason_text t @ ''. The deployment was stopped and marked failed by the watchdog.''"

definition slot_line :: "bool \<Rightarrow> string" where
  "slot_line lockKept =
     (if lockKept
      then ''Watchdog: nothing could stop the process, so the queue slot was released for other services; this service stays locked (no new deploy of it starts) until the old process ends or Dokploy restarts''
      else ''Watchdog: the deployment did not end after it was stopped; its queue slot was released'')"

definition wd_finish :: "wd_env \<Rightarrow> pending_stop \<Rightarrow> bool \<Rightarrow> bool \<Rightarrow> unit wd" where
  "wd_finish e p slotReleased lockKept =
     (let r = ps_row p; t = ps_trigger p in
      andThen (reads e (we_mark e)
        (Marked_Failed (dp_id r) (failed_message t) (st_claimedCancelled (ps_stop p)))) (\<lambda>outcome.
      if outcome = Unchanged then give ()
      else andThen (if slotReleased
          then andThen (fail_service e (serviceRefOf r)) (\<lambda>_. append_log e (ps_host p) r (slot_line lockKept))
          else give ()) (\<lambda>_.
        andThen (append_log e (ps_host p) r WATCHDOG_FAILED_LINE) (\<lambda>_.
        andThen (load_context e (serviceRefOf r)) (\<lambda>context.
        case context of
          None \<Rightarrow> give ()
        | Some c \<Rightarrow>
            andThen (if outcome = Flipped
              then does_call e (Notified (dp_id r) (reason_text t @ ''; marked failed'')) else give ()) (\<lambda>_.
            audit e (Some r) c (Audit_Failed t (st_method (ps_stop p)) slotReleased lockKept
              (outcome = Flipped) (if truthy (st_warning (ps_stop p)) then st_warning (ps_stop p) else None))))))))"

text \<open>A stop that throws is a stop that signalled nothing.\<close>

definition safeStop :: "wd_env \<Rightarrow> deployment \<Rightarrow> bool \<Rightarrow> stop_result wd" where
  "safeStop e r launcherOnly =
     rescue (reads e (we_stop e) (Stopped (dp_id r) launcherOnly)) (\<lambda>message.
       andThen (act (Stopped (dp_id r) launcherOnly (nothing_stopped False (''Could not stop the work: '' @ message) False)))
         (\<lambda>_. give (nothing_stopped False (''Could not stop the work: '' @ message) False)))"

definition set_pending :: "string \<Rightarrow> pending_stop \<Rightarrow> unit wd" where
  "set_pending i p = change (\<lambda>s. s\<lparr>wd_pending := AList.update i p (wd_pending s)\<rparr>)"

text \<open>The trigger once more, right before anything is touched.\<close>

definition confirm :: "wd_env \<Rightarrow> deployment \<Rightarrow> trigger \<Rightarrow> watchdog_config \<Rightarrow> trigger option wd" where
  "confirm e r t c =
     (if tr_kind t = Wall then give (Some t)
      else andThen (if deployStartOf r = None then give 0
          else andThen (clock e) (\<lambda>now. give (running_ms r now))) (\<lambda>runningMs.
        andThen (read_idle e r) (\<lambda>idle. give (evaluateWatchdog c runningMs idle))))"

definition stopAndTrack :: "wd_env \<Rightarrow> deployment \<Rightarrow> trigger \<Rightarrow> watchdog_config \<Rightarrow> unit wd" where
  "stopAndTrack e r t c =
     andThen (read_status e (dp_id r)) (\<lambda>status.
     if status \<noteq> Some Dep_Running then give ()
     else andThen (confirm e r t c) (\<lambda>confirmed. case confirmed of
       None \<Rightarrow> give ()
     | Some t \<Rightarrow>
        andThen (reads e (we_jobs e) Jobs_Read) (\<lambda>jobs.
        let job = findJobOf r jobs in
        if job = None \<and> jobsOfService r jobs \<noteq> [] then give ()
        else andThen (hostOf e r) (\<lambda>host.
          andThen (append_log e host r (watchdogTriggerLine t)) (\<lambda>_.
          andThen (safeStop e r (job = None)) (\<lambda>stop.
          andThen (if truthy (st_warning stop)
            then append_log e host r (''Watchdog: '' @ the (st_warning stop)) else give ()) (\<lambda>_.
          andThen (clock e) (\<lambda>now.
          let p = \<lparr>ps_row = r, ps_trigger = t, ps_stop = stop, ps_host = host,
                   ps_jobId = map_option jid job, ps_stoppedAt = now\<rparr> in
          if job = None \<or> st_notRunning stop then wd_finish e p False False
          else set_pending (dp_id r) p))))))))"

section \<open>Freeing the slot\<close>

definition releaseSlot ::
  "wd_env \<Rightarrow> internal_job \<Rightarrow> bool \<Rightarrow> deployment option \<Rightarrow> service_ref \<Rightarrow> string option \<Rightarrow> watchdog_config \<Rightarrow> unit wd" where
  "releaseSlot e j keep r service host c =
     andThen (reads_now (we_release e) (Slot_Released (jid j) keep)) (\<lambda>released.
     if \<not> released \<or> \<not> keep then give ()
     else andThen (clock e) (\<lambda>now.
       change (\<lambda>s. s\<lparr>wd_kept := AList.update (jid j)
         \<lparr>kl_row = r, kl_service = service, kl_host = host, kl_since = now,
          kl_boundMs = max (2 * wc_maxMinutes c) GROUP_LOCK_MIN_BOUND_MINUTES * MINUTE_MS\<rparr> (wd_kept s)\<rparr>)))"

text \<open>The entry as it is after the retry; it is also written back, since both are one object.\<close>

definition retryStop :: "wd_env \<Rightarrow> pending_stop \<Rightarrow> pending_stop wd" where
  "retryStop e p =
     (let r = ps_row p in
      andThen (read_status e (dp_id r)) (\<lambda>status.
      if status \<noteq> Some Dep_Running then give p
      else andThen (safeStop e r False) (\<lambda>stop.
        if st_method stop = Stop_None \<and> \<not> st_notRunning stop
        then (let p' = p\<lparr>ps_stop := (ps_stop p)\<lparr>st_retryable := st_retryable stop\<rparr>\<rparr> in
          andThen (set_pending (dp_id r) p') (\<lambda>_. give p'))
        else andThen (clock e) (\<lambda>now.
          let p' = p\<lparr>ps_stop := stop\<lparr>st_claimedCancelled := (st_claimedCancelled (ps_stop p) \<or> st_claimedCancelled stop)\<rparr>,
                     ps_stoppedAt := now\<rparr> in
          andThen (set_pending (dp_id r) p') (\<lambda>_.
          andThen (append_log e (ps_host p) r ''Watchdog: the other deploys on the host had ended, so the build was stopped now'')
            (\<lambda>_. give p'))))))"

definition settle_end :: "wd_env \<Rightarrow> pending_stop \<Rightarrow> internal_job option \<Rightarrow> watchdog_config \<Rightarrow> unit wd" where
  "settle_end e p job c =
     (let r = ps_row p; keep = (st_method (ps_stop p) = Stop_None) in
      andThen (change (\<lambda>s. s\<lparr>wd_pending := AList.delete (dp_id r) (wd_pending s)\<rparr>)) (\<lambda>_.
      andThen (if job \<noteq> None then act (Marked_Released (dp_id r)) else give ()) (\<lambda>_.
      ensure (wd_finish e p (job \<noteq> None) (job \<noteq> None \<and> keep))
        (case job of None \<Rightarrow> give ()
         | Some j \<Rightarrow> releaseSlot e j keep (Some r) (serviceRefOf r) (ps_host p) c))))"

definition settle_stop :: "wd_env \<Rightarrow> internal_job list \<Rightarrow> watchdog_config \<Rightarrow> pending_stop \<Rightarrow> unit wd" where
  "settle_stop e jobs c p =
     (let job = find (\<lambda>j. Some (jid j) = ps_jobId p) jobs in
      andThen (if job \<noteq> None \<and> st_method (ps_stop p) = Stop_None \<and> st_retryable (ps_stop p) \<and> \<not> st_notRunning (ps_stop p)
        then retryStop e p else give p) (\<lambda>p.
      andThen (if job \<noteq> None then andThen (clock e) (\<lambda>now. give (now - ps_stoppedAt p < we_graceMs e)) else give False) (\<lambda>wait.
      if wait then give () else settle_end e p job c)))"

section \<open>Locks kept for too long\<close>

definition drop_lock :: "wd_env \<Rightarrow> nat \<times> kept_lock \<Rightarrow> unit wd" where
  "drop_lock e entry =
     (let j = fst entry; k = snd entry;
          forget = change (\<lambda>s. s\<lparr>wd_kept := AList.delete j (wd_kept s)\<rparr>) in
      andThen (reads_now (we_hasLock e) (Lock_Read j)) (\<lambda>has.
      if \<not> has then forget
      else andThen (clock e) (\<lambda>now.
        let heldMs = now - kl_since k in
        if heldMs < kl_boundMs k then give ()
        else andThen forget (\<lambda>_.
          andThen (reads_now (we_dropLock e) (Lock_Dropped j)) (\<lambda>dropped.
          if \<not> dropped then give ()
          else let heldMinutes = heldMs div MINUTE_MS in
            attempt (andThen (case kl_row k of None \<Rightarrow> give ()
                | Some r \<Rightarrow> append_log e (kl_host k) r (''Watchdog: the old process had not ended '' @ show_int heldMinutes @
                    '' min after its queue slot was released, so the lock on this service was dropped; new deploys of it can start now (the old process may still be running)''))
              (\<lambda>_. andThen (load_context e (kl_service k)) (\<lambda>context. case context of
                None \<Rightarrow> give () | Some cx \<Rightarrow> audit e (kl_row k) cx (Audit_Lock_Dropped j heldMinutes)))))))))"

definition dropExpiredLocks :: "wd_env \<Rightarrow> unit wd" where
  "dropExpiredLocks e = andThen (look wd_kept) (\<lambda>entries. for_each entries (drop_lock e))"

section \<open>Jobs that hang without a deployment\<close>

definition finish_instant :: "finish_time option \<Rightarrow> int option" where
  "finish_instant f = map_option (\<lambda>x. case x of At_Z n \<Rightarrow> n | At_Offset n \<Rightarrow> n) f"

definition mine_of :: "int \<Rightarrow> deployment list \<Rightarrow> deployment option" where
  "mine_of started latest = find (\<lambda>r. (case nullish (dp_deployStartedAt r) (dp_createdAt r) of None \<Rightarrow> 0 | Some c \<Rightarrow> c)
     \<ge> started - MINUTE_MS) latest"

text \<open>The clock is only read when the answer depends on it.\<close>

definition is_hung :: "wd_env \<Rightarrow> watchdog_config \<Rightarrow> int \<Rightarrow> deployment option \<Rightarrow> bool wd" where
  "is_hung e c started mine = (case mine of
       Some r \<Rightarrow> (case finish_instant (dp_finishedAt r) of
           Some ended \<Rightarrow> if dp_status r = Some Dep_Running then give False
             else andThen (clock e) (\<lambda>now. give (now - ended > we_wedgedMs e))
         | None \<Rightarrow> give False)
     | None \<Rightarrow> andThen (clock e) (\<lambda>now. give (now - started > wc_maxMinutes c * MINUTE_MS)))"

definition release_hung :: "wd_env \<Rightarrow> watchdog_config \<Rightarrow> internal_job \<Rightarrow> int \<Rightarrow> bool \<Rightarrow> unit wd" where
  "release_hung e c j started keep =
     (let service = jobServiceOf (jdata j) in
      ensure (attempt (andThen (fail_service e service) (\<lambda>_.
          andThen (load_context e service) (\<lambda>context. case context of
            None \<Rightarrow> give ()
          | Some cx \<Rightarrow> andThen (clock e) (\<lambda>now.
              audit e None cx (Audit_Hung_Job (jid j) ((now - started) div MINUTE_MS) keep))))))
        (releaseSlot e j keep None service None c))"

definition hung_job :: "wd_env \<Rightarrow> deployment list \<Rightarrow> watchdog_config \<Rightarrow> nat option list \<Rightarrow> internal_job \<Rightarrow> unit wd" where
  "hung_job e running_rows c tracked j =
     (let service = jobServiceOf (jdata j) in
      if Some (jid j) \<in> set tracked then give ()
      else case processedOn j of
        None \<Rightarrow> give ()
      | Some started \<Rightarrow>
          if list_ex (\<lambda>r. findJobOf r [j] \<noteq> None) running_rows then give ()
          else if isWatchdogExcluded (wc_exclusions c) (sv_applicationId service, sv_composeId service) then give ()
          else andThen (reads e (we_latest e) (Latest_Read service)) (\<lambda>latest.
            let mine = mine_of started latest in
            andThen (is_hung e c started mine) (\<lambda>hung.
            if \<not> hung then give () else release_hung e c j started (mine = None))))"

definition releaseHungJobs :: "wd_env \<Rightarrow> internal_job list \<Rightarrow> deployment list \<Rightarrow> watchdog_config \<Rightarrow> unit wd" where
  "releaseHungJobs e jobs running_rows c =
     andThen (look (\<lambda>s. map (ps_jobId \<circ> snd) (wd_pending s))) (\<lambda>tracked.
     for_each jobs (hung_job e running_rows c tracked))"

section \<open>One sweep\<close>

text \<open>Silence has to be seen on two sweeps; the first one only makes the row a suspect.\<close>

definition suspect :: "string \<Rightarrow> int \<Rightarrow> trigger \<Rightarrow> bool wd" where
  "suspect i now t =
     (if tr_kind t = Wall then give True
      else andThen (change (\<lambda>s. s\<lparr>wd_silent := i # wd_silent s\<rparr>)) (\<lambda>_.
        andThen (look (\<lambda>s. map_of (wd_suspects s) i)) (\<lambda>seen. case seen of
          Some since \<Rightarrow> give True
        | None \<Rightarrow> andThen (change (\<lambda>s. s\<lparr>wd_suspects := AList.update i now (wd_suspects s)\<rparr>)) (\<lambda>_. give False))))"

definition find_trigger :: "wd_env \<Rightarrow> watchdog_config \<Rightarrow> deployment \<Rightarrow> int \<Rightarrow> trigger option wd" where
  "find_trigger e c r now =
     (case evaluateWatchdog c (running_ms r now) None of
        Some t \<Rightarrow> give (Some t)
      | None \<Rightarrow> andThen (read_idle e r) (\<lambda>idle. give (evaluateWatchdog c (running_ms r now) idle)))"

definition check_row :: "wd_env \<Rightarrow> watchdog_config \<Rightarrow> internal_job list \<Rightarrow> int \<Rightarrow> deployment \<Rightarrow> unit wd" where
  "check_row e c jobs now r =
     andThen (look (\<lambda>s. map_of (wd_pending s) (dp_id r))) (\<lambda>stopped.
     if stopped \<noteq> None then give ()
     else attempt (andThen (reads e (we_service e) (Service_Read (dp_id r))) (\<lambda>service. case service of
       None \<Rightarrow> give ()
     | Some sv \<Rightarrow>
        if isWatchdogExcluded (wc_exclusions c) sv then give ()
        else if findJobOf r jobs = None \<and> jobsOfService r jobs \<noteq> [] then give ()
        else andThen (find_trigger e c r now) (\<lambda>t. case t of
          None \<Rightarrow> give ()
        | Some t \<Rightarrow> andThen (suspect (dp_id r) now t) (\<lambda>go.
            if \<not> go then give ()
            else andThen (change (\<lambda>s. s\<lparr>wd_suspects := AList.delete (dp_id r) (wd_suspects s)\<rparr>)) (\<lambda>_.
              stopAndTrack e r t c))))))"

definition sweepOnce :: "wd_env \<Rightarrow> unit wd" where
  "sweepOnce e =
     andThen (reads e (we_config e) Config_Read) (\<lambda>c.
     andThen (reads e (we_jobs e) Jobs_Read) (\<lambda>jobs.
     andThen (look (\<lambda>s. map snd (wd_pending s))) (\<lambda>stops.
     andThen (for_each stops (\<lambda>p. attempt (settle_stop e jobs c p))) (\<lambda>_.
     andThen (dropExpiredLocks e) (\<lambda>_.
     if \<not> wc_enabled c then give ()
     else andThen (reads e (we_running e) Running_Read) (\<lambda>rows.
       andThen (clock e) (\<lambda>now.
       andThen (change (\<lambda>s. s\<lparr>wd_silent := []\<rparr>)) (\<lambda>_.
       andThen (for_each rows (check_row e c jobs now)) (\<lambda>_.
       andThen (change (\<lambda>s. s\<lparr>wd_suspects := filter (\<lambda>(i, t). i \<in> set (wd_silent s)) (wd_suspects s)\<rparr>)) (\<lambda>_.
       releaseHungJobs e jobs rows c))))))))))"

text \<open>A sweep while another one runs does nothing; whatever fails, the next one can run.\<close>

definition sweep :: "wd_env \<Rightarrow> unit wd" where
  "sweep e = andThen (look wd_sweeping) (\<lambda>busy.
     if busy then give ()
     else andThen (change (\<lambda>s. s\<lparr>wd_sweeping := True\<rparr>)) (\<lambda>_.
       ensure (attempt (sweepOnce e)) (change (\<lambda>s. s\<lparr>wd_sweeping := False\<rparr>))))"

end
