(* ===== verification/Watchdog_Steps.thy ===== *)
theory Watchdog_Steps
  imports Watchdog
begin

text \<open>
  What each part of a sweep adds to the history. A stop is justified by what was read before it: the row
  was listed, its service read and not excluded, its status read again as running, and it was past the
  wall limit or silent on two sweeps. The invariant carries the evidence of what the watchdog remembers
  (suspects and pending stops), and every part keeps it.
\<close>

section \<open>A read\<close>

lemma runs_reads_now:
  "(\<And>x s. P s \<Longrightarrow> Q x (s\<lparr>tk_log := tk_log s @ [eff x]\<rparr>)) \<Longrightarrow> runs P (reads_now f eff) E Q"
  by (simp add: runs_def reads_now_def andThen_def ask_def act_def give_def)

lemma runs_reads:
  assumes "keeps P (wd_call e)" and "\<And>s. P s \<Longrightarrow> E s"
    and "\<And>x s. P s \<Longrightarrow> Q x (s\<lparr>tk_log := tk_log s @ [eff x]\<rparr>)"
  shows "runs P (reads e f eff) E Q"
proof -
  have "runs P (wd_call e) E (\<lambda>_. P)" using assms(1,2) by (auto intro: runs_keeps_weaken)
  moreover have "runs P (andThen (ask f) (\<lambda>x. andThen (act (eff x)) (\<lambda>_. give x))) E Q"
    using assms(3) by (simp add: runs_def andThen_def ask_def act_def give_def)
  ultimately show ?thesis unfolding reads_def by (rule runs_andThen)
qed

section \<open>Evidence\<close>

definition last_status :: "string \<Rightarrow> wd_effect list \<Rightarrow> deployment_status option option" where
  "last_status d h = fold (\<lambda>x acc. case x of Status_Read i s \<Rightarrow> if i = d then Some s else acc | _ \<Rightarrow> acc) h None"

definition silent_read :: "watchdog_config \<Rightarrow> string \<Rightarrow> wd_effect list \<Rightarrow> bool" where
  "silent_read c d h \<longleftrightarrow> (\<exists>ms. Idle_Read d (Some ms) \<in> set h \<and> wc_idleMinutes c * MINUTE_MS < ms)"

definition seen_silent :: "string \<Rightarrow> wd_effect list \<Rightarrow> bool" where
  "seen_silent d h \<longleftrightarrow> (\<exists>c. Config_Read c \<in> set h \<and> silent_read c d h)"

definition past_wall :: "watchdog_config \<Rightarrow> deployment \<Rightarrow> wd_effect list \<Rightarrow> bool" where
  "past_wall c r h \<longleftrightarrow> (\<exists>now start. Clock_Read now \<in> set h \<and> deployStartOf r = Some start \<and>
     wc_maxMinutes c * MINUTE_MS < now - start)"

definition silent_twice :: "watchdog_config \<Rightarrow> string \<Rightarrow> wd_effect list \<Rightarrow> bool" where
  "silent_twice c d h \<longleftrightarrow> (\<exists>h1 h2. h = h1 @ Config_Read c # h2 \<and> seen_silent d h1 \<and> silent_read c d h2)"

text \<open>The row was listed and its service is not excluded by the settings read before.\<close>

definition watchable :: "watchdog_config \<Rightarrow> deployment \<Rightarrow> wd_effect list \<Rightarrow> bool" where
  "watchable c r h \<longleftrightarrow> (\<exists>rows sv. Config_Read c \<in> set h \<and> Running_Read rows \<in> set h \<and> r \<in> set rows \<and>
     Service_Read (dp_id r) (Some sv) \<in> set h \<and> \<not> isWatchdogExcluded (wc_exclusions c) sv)"

definition seen_stuck :: "string \<Rightarrow> wd_effect list \<Rightarrow> bool" where
  "seen_stuck d h \<longleftrightarrow> (\<exists>c r. dp_id r = d \<and> watchable c r h \<and> (past_wall c r h \<or> silent_twice c d h))"

text \<open>A stop of the row that claimed it as cancelled.\<close>

definition claimed_stop :: "string \<Rightarrow> wd_effect list \<Rightarrow> bool" where
  "claimed_stop d h \<longleftrightarrow> (\<exists>l r. Stopped d l r \<in> set h \<and> st_claimedCancelled r)"

text \<open>What has to be true of the history before an effect.\<close>

fun backed :: "wd_effect \<Rightarrow> wd_effect list \<Rightarrow> bool" where
  "backed (Stopped d l r) h \<longleftrightarrow> seen_stuck d h \<and> last_status d h = Some (Some Dep_Running)"
| "backed (Marked_Failed d message claimed outcome) h \<longleftrightarrow> (claimed \<longrightarrow> claimed_stop d h)"
| "backed _ h \<longleftrightarrow> True"

definition justified :: "wd_effect list \<Rightarrow> bool" where
  "justified h \<longleftrightarrow> backed_by backed h"

fun is_stop :: "wd_effect \<Rightarrow> bool" where
  "is_stop (Stopped d l r) = True"
| "is_stop (Marked_Failed d message claimed outcome) = claimed"
| "is_stop _ = False"

lemma silent_mono: "silent_read c d h \<Longrightarrow> silent_read c d (h @ es)"
  by (auto simp: silent_read_def)

lemma seen_silent_mono: "seen_silent d h \<Longrightarrow> seen_silent d (h @ es)"
  by (auto simp: seen_silent_def silent_read_def)

lemma silent_twice_mono: "silent_twice c d h \<Longrightarrow> silent_twice c d (h @ es)"
  unfolding silent_twice_def by (metis append.assoc append_Cons silent_mono)

lemma past_wall_mono: "past_wall c r h \<Longrightarrow> past_wall c r (h @ es)"
  by (auto simp: past_wall_def)

lemma watchable_mono: "watchable c r h \<Longrightarrow> watchable c r (h @ es)"
  by (auto simp: watchable_def)

lemma seen_stuck_mono: "seen_stuck d h \<Longrightarrow> seen_stuck d (h @ es)"
  unfolding seen_stuck_def using watchable_mono past_wall_mono silent_twice_mono by blast

lemma claimed_stop_mono: "claimed_stop d h \<Longrightarrow> claimed_stop d (h @ es)"
  by (auto simp: claimed_stop_def)

lemma justified_snoc: "justified (h @ [x]) \<longleftrightarrow> justified h \<and> backed x h"
  by (simp add: justified_def backed_by_snoc)

lemma backed_neutral: "\<not> is_stop x \<Longrightarrow> backed x h"
  by (cases x) auto

lemma justified_neutral: "justified h \<Longrightarrow> \<not> is_stop x \<Longrightarrow> justified (h @ [x])"
  by (simp add: justified_snoc backed_neutral)

lemma justified_stop:
  "justified h \<Longrightarrow> seen_stuck d h \<Longrightarrow> last_status d h = Some (Some Dep_Running) \<Longrightarrow> justified (h @ [Stopped d l r])"
  by (simp add: justified_snoc)

lemma last_status_snoc: "last_status d (h @ [x]) =
    (case x of Status_Read i s \<Rightarrow> if i = d then Some s else last_status d h | _ \<Rightarrow> last_status d h)"
  by (cases x) (simp_all add: last_status_def)

section \<open>The invariant\<close>

text \<open>
  The first of the two histories is the one before the sweep that is going on: the rows still to be
  checked are suspects only because an earlier sweep saw them silent. The second is a history that is
  only added to.
\<close>

definition remembers :: "wd_effect list \<times> wd_effect list \<Rightarrow> string set \<Rightarrow> wd_state \<Rightarrow> bool" where
  "remembers h1 todo s \<longleftrightarrow> justified (tk_log s) \<and> (\<exists>es. tk_log s = snd h1 @ es) \<and>
     (\<forall>d\<in>fst ` set (wd_suspects s). seen_silent d (tk_log s) \<and> (d \<in> todo \<longrightarrow> seen_silent d (fst h1))) \<and>
     (\<forall>(d, p)\<in>set (wd_pending s). d = dp_id (ps_row p) \<and> seen_stuck d (tk_log s) \<and>
        (st_claimedCancelled (ps_stop p) \<longrightarrow> claimed_stop d (tk_log s)))"

lemma remembers_more:
  assumes "remembers h1 todo s" and "justified (tk_log s @ [x])"
  shows "remembers h1 todo (s\<lparr>tk_log := tk_log s @ [x]\<rparr>)"
  using assms seen_silent_mono seen_stuck_mono claimed_stop_mono by (fastforce simp: remembers_def)

lemma remembers_act:
  assumes "remembers h1 todo s" and "\<not> is_stop x"
  shows "remembers h1 todo (s\<lparr>tk_log := tk_log s @ [x]\<rparr>)"
  using assms by (intro remembers_more justified_neutral) (simp_all add: remembers_def)

lemma keeps_neutral [intro]: "\<not> is_stop x \<Longrightarrow> keeps (remembers h1 todo) (act x)"
  by (rule keeps_act) (rule remembers_act)

lemma keeps_wd_call [intro]: "keeps (remembers h1 todo) (wd_call e)"
  unfolding wd_call_def by (intro keeps_andThen keeps_option keeps_neutral) auto

lemma keeps_reads [intro]: "(\<And>x. \<not> is_stop (eff x)) \<Longrightarrow> keeps (remembers h1 todo) (reads e f eff)"
  unfolding reads_def by (intro keeps_andThen keeps_neutral) auto

lemma keeps_reads_now [intro]: "(\<And>x. \<not> is_stop (eff x)) \<Longrightarrow> keeps (remembers h1 todo) (reads_now f eff)"
  unfolding reads_now_def by (intro keeps_andThen keeps_neutral) auto

lemma keeps_does_call [intro]: "\<not> is_stop x \<Longrightarrow> keeps (remembers h1 todo) (does_call e x)"
  unfolding does_call_def by (intro keeps_andThen keeps_neutral) auto

lemma keeps_calls [intro]:
  "keeps (remembers h1 todo) (clock e)" "keeps (remembers h1 todo) (read_status e i)"
  "keeps (remembers h1 todo) (read_idle e r)" "keeps (remembers h1 todo) (append_log e host r line)"
  "keeps (remembers h1 todo) (load_context e sv)" "keeps (remembers h1 todo) (hostOf e r)"
  "keeps (remembers h1 todo) (audit e row cx entry)" "keeps (remembers h1 todo) (fail_service e sv)"
  unfolding clock_def read_status_def read_idle_def append_log_def load_context_def hostOf_def audit_def fail_service_def
  by (auto intro!: keeps_andThen keeps_attempt keeps_reads keeps_reads_now keeps_does_call keeps_give split: option.splits)

lemma keeps_kept [intro]: "keeps (remembers h1 todo) (change (\<lambda>s. wd_kept_update (g s) s))"
  by (rule keeps_change) (simp add: remembers_def)

lemma keeps_releaseSlot [intro]: "keeps (remembers h1 todo) (releaseSlot e j k r sv host c)"
  unfolding releaseSlot_def by (intro keeps_andThen keeps_if keeps_calls keeps_reads_now keeps_give keeps_kept) auto

lemma keeps_drop_lock [intro]: "keeps (remembers h1 todo) (drop_lock e entry)"
  unfolding drop_lock_def Let_def
  by (intro keeps_andThen keeps_if keeps_option keeps_calls keeps_reads_now keeps_give keeps_kept keeps_attempt) auto

lemma keeps_dropExpiredLocks [intro]: "keeps (remembers h1 todo) (dropExpiredLocks e)"
  unfolding dropExpiredLocks_def by (intro keeps_andThen keeps_look keeps_for_each keeps_drop_lock)

lemma keeps_hung_job [intro]: "keeps (remembers h1 todo) (hung_job e rows c tracked j)"
  unfolding hung_job_def release_hung_def is_hung_def Let_def
  by (intro keeps_andThen keeps_if keeps_option keeps_calls keeps_reads keeps_give keeps_attempt keeps_ensure keeps_releaseSlot) auto

lemma keeps_releaseHungJobs [intro]: "keeps (remembers h1 todo) (releaseHungJobs e jobs rows c)"
  unfolding releaseHungJobs_def by (intro keeps_andThen keeps_look keeps_for_each keeps_hung_job)

section \<open>Stopping\<close>

text \<open>Ready to stop the row: the evidence is there and the last status read of it is running.\<close>

definition ready :: "wd_effect list \<times> wd_effect list \<Rightarrow> string set \<Rightarrow> string \<Rightarrow> bool \<Rightarrow> wd_state \<Rightarrow> bool" where
  "ready h1 todo d q s \<longleftrightarrow> remembers h1 todo s \<and> seen_stuck d (tk_log s) \<and> (q \<longrightarrow> claimed_stop d (tk_log s)) \<and>
     last_status d (tk_log s) = Some (Some Dep_Running)"

fun is_status :: "wd_effect \<Rightarrow> bool" where
  "is_status (Status_Read i s) = True"
| "is_status _ = False"

lemma last_status_neutral: "\<not> is_status x \<Longrightarrow> last_status d (h @ [x]) = last_status d h"
  by (cases x) (auto simp: last_status_snoc)

lemma keeps_ready_act: "\<not> is_stop x \<Longrightarrow> \<not> is_status x \<Longrightarrow> keeps (ready h1 todo d q) (act x)"
  by (rule keeps_act) (auto simp: ready_def remembers_act seen_stuck_mono claimed_stop_mono last_status_neutral)

lemma keeps_ready_call [intro]: "keeps (ready h1 todo d q) (wd_call e)"
  unfolding wd_call_def by (intro keeps_andThen keeps_option keeps_ready_act) auto

lemma keeps_ready_reads [intro]: "(\<And>x. \<not> is_stop (eff x) \<and> \<not> is_status (eff x)) \<Longrightarrow> keeps (ready h1 todo d q) (reads e f eff)"
  unfolding reads_def by (intro keeps_andThen keeps_ready_act) auto

lemma keeps_ready_host [intro]: "keeps (ready h1 todo d q) (hostOf e r)"
  unfolding hostOf_def by (intro keeps_andThen keeps_ready_reads) (auto split: option.splits)

lemma keeps_ready_log [intro]: "keeps (ready h1 todo d q) (append_log e host r line)"
  unfolding append_log_def does_call_def by (intro keeps_andThen keeps_ready_act) auto

lemma ready_remembers: "ready h1 todo d q s \<Longrightarrow> remembers h1 todo s"
  by (simp add: ready_def)

lemma runs_ready:
  assumes "keeps (ready h1 todo d q) m"
  shows "runs (ready h1 todo d q) m (remembers h1 todo) (\<lambda>_. ready h1 todo d q)"
proof -
  from assms have "runs (ready h1 todo d q) m (ready h1 todo d q) (\<lambda>_. ready h1 todo d q)" by (simp add: runs_keeps)
  then show ?thesis by (rule runs_mono) (auto intro: ready_remembers)
qed

lemma ready_stop: "ready h1 todo d q s \<Longrightarrow> remembers h1 todo (s\<lparr>tk_log := tk_log s @ [Stopped d l r]\<rparr>)"
proof -
  assume s: "ready h1 todo d q s"
  then have r: "remembers h1 todo s" by (rule ready_remembers)
  have "justified (tk_log s @ [Stopped d l r])" using s r by (simp add: justified_stop ready_def remembers_def)
  with r show ?thesis by (rule remembers_more)
qed

text \<open>After the stop the evidence is still there.\<close>

definition shown :: "wd_effect list \<times> wd_effect list \<Rightarrow> string set \<Rightarrow> string \<Rightarrow> bool \<Rightarrow> wd_state \<Rightarrow> bool" where
  "shown h1 todo d q s \<longleftrightarrow> remembers h1 todo s \<and> seen_stuck d (tk_log s) \<and> (q \<longrightarrow> claimed_stop d (tk_log s))"

lemma keeps_shown_act: "\<not> is_stop x \<Longrightarrow> keeps (shown h1 todo d q) (act x)"
  by (rule keeps_act) (auto simp: shown_def remembers_act seen_stuck_mono claimed_stop_mono)

lemma ready_shown:
  assumes "ready h1 todo d q s"
  shows "shown h1 todo d (q \<or> st_claimedCancelled r) (s\<lparr>tk_log := tk_log s @ [Stopped d l r]\<rparr>)"
proof -
  have "claimed_stop d (tk_log s @ [Stopped d l r])" if "q \<or> st_claimedCancelled r"
    using that assms claimed_stop_mono by (auto simp: ready_def claimed_stop_def)
  with assms ready_stop [OF assms, of l r] seen_stuck_mono show ?thesis by (auto simp: shown_def ready_def)
qed

lemma runs_safeStop:
  assumes "d = dp_id r"
  shows "runs (ready h1 todo d q) (safeStop e r l) (remembers h1 todo) (\<lambda>stop. shown h1 todo d (q \<or> st_claimedCancelled stop))"
proof -
  have "runs (ready h1 todo d q) (reads e (we_stop e) (Stopped (dp_id r) l)) (ready h1 todo d q)
      (\<lambda>stop. shown h1 todo d (q \<or> st_claimedCancelled stop))"
    by (rule runs_reads) (auto simp: assms intro: ready_shown)
  moreover have "runs (ready h1 todo d q) (andThen (act (Stopped (dp_id r) l x)) (\<lambda>_. give x)) (remembers h1 todo)
      (\<lambda>stop. shown h1 todo d (q \<or> st_claimedCancelled stop))" for x
    by (rule runs_andThen [where R = "\<lambda>_. shown h1 todo d (q \<or> st_claimedCancelled x)"], rule runs_act)
      (auto simp: assms intro: ready_shown runs_give)
  ultimately show ?thesis
    unfolding safeStop_def by (rule runs_rescue)
qed

lemma keeps_shown_call [intro]: "keeps (shown h1 todo d q) (wd_call e)"
  unfolding wd_call_def by (intro keeps_andThen keeps_option keeps_shown_act) auto

lemma keeps_shown [intro]: "keeps (shown h1 todo d q) (append_log e host r line)" "keeps (shown h1 todo d q) (clock e)"
  unfolding append_log_def does_call_def clock_def reads_now_def by (intro keeps_andThen keeps_shown_act; auto)+

lemma shown_remembers: "shown h1 todo d q s \<Longrightarrow> remembers h1 todo s"
  by (simp add: shown_def)

lemma runs_shown: "keeps (shown h1 todo d q) m \<Longrightarrow> runs (shown h1 todo d q) m (remembers h1 todo) (\<lambda>_. shown h1 todo d q)"
  by (erule runs_keeps_weaken) (auto intro: shown_remembers)

lemma remembers_pending:
  assumes "shown h1 todo (dp_id (ps_row p)) (st_claimedCancelled (ps_stop p)) s"
  shows "shown h1 todo (dp_id (ps_row p)) (st_claimedCancelled (ps_stop p))
    (s\<lparr>wd_pending := AList.update (dp_id (ps_row p)) p (wd_pending s)\<rparr>)"
proof -
  have "set (AList.update k v xs) \<subseteq> insert (k, v) (set xs)" for k v and xs :: "(string \<times> pending_stop) list"
    by (induction xs) auto
  with assms show ?thesis by (fastforce simp: shown_def remembers_def)
qed

text \<open>Closing a row says the stop claimed it only when it did.\<close>

lemma runs_finish:
  assumes "d = dp_id (ps_row p)" and "q = st_claimedCancelled (ps_stop p)"
  shows "runs (shown h1 todo d q) (wd_finish e p a b) (remembers h1 todo) (\<lambda>_. remembers h1 todo)"
proof -
  have mark: "runs (shown h1 todo d q) (reads e (we_mark e)
        (Marked_Failed (dp_id (ps_row p)) (failed_message (ps_trigger p)) (st_claimedCancelled (ps_stop p))))
      (remembers h1 todo) (\<lambda>_. remembers h1 todo)"
  proof (rule runs_reads [OF keeps_shown_call shown_remembers])
    fix x s assume s: "shown h1 todo d q s"
    let ?eff = "Marked_Failed (dp_id (ps_row p)) (failed_message (ps_trigger p)) (st_claimedCancelled (ps_stop p)) x"
    have "justified (tk_log s @ [?eff])" using s assms by (auto simp: justified_snoc shown_def remembers_def)
    with shown_remembers [OF s] show "remembers h1 todo (s\<lparr>tk_log := tk_log s @ [?eff]\<rparr>)" by (rule remembers_more)
  qed
  show ?thesis unfolding wd_finish_def Let_def
    by (rule runs_andThen [OF mark], subst runs_keeps,
        intro keeps_andThen keeps_if keeps_option keeps_calls keeps_reads keeps_does_call keeps_give) auto
qed

text \<open>Reading the status makes a row with evidence ready, when it says running.\<close>

lemma runs_status:
  "runs (shown h1 todo d q) (read_status e d) (remembers h1 todo)
     (\<lambda>st s. shown h1 todo d q s \<and> (st = Some Dep_Running \<longrightarrow> ready h1 todo d q s))"
  unfolding read_status_def
  by (rule runs_reads) (auto simp: shown_remembers shown_def ready_def remembers_act seen_stuck_mono claimed_stop_mono last_status_snoc)

section \<open>Confirming and stopping\<close>

text \<open>What the sweep knows of a row before it stops it, in a sweep that began at \<open>h1\<close> with settings \<open>c\<close>.\<close>

definition armed :: "wd_effect list \<times> wd_effect list \<Rightarrow> string set \<Rightarrow> watchdog_config \<Rightarrow> deployment \<Rightarrow> trigger \<Rightarrow> wd_state \<Rightarrow> bool" where
  "armed h1 todo c r t s \<longleftrightarrow> remembers h1 todo s \<and> watchable c r (tk_log s) \<and>
     (\<exists>es. tk_log s = fst h1 @ Config_Read c # es) \<and>
     (tr_kind t = Wall \<longrightarrow> past_wall c r (tk_log s)) \<and> (tr_kind t = Idle \<longrightarrow> seen_silent (dp_id r) (fst h1))"

lemma armed_act:
  assumes "armed h1 todo c r t s" and "\<not> is_stop x"
  shows "armed h1 todo c r t (s\<lparr>tk_log := tk_log s @ [x]\<rparr>)"
proof -
  from assms(1) obtain es where "tk_log s = fst h1 @ Config_Read c # es" by (auto simp: armed_def)
  then have "\<exists>es. tk_log s @ [x] = fst h1 @ Config_Read c # es" by simp
  moreover have "remembers h1 todo (s\<lparr>tk_log := tk_log s @ [x]\<rparr>)"
    using assms by (intro remembers_act) (simp_all add: armed_def)
  ultimately show ?thesis using assms(1) watchable_mono [of c r "tk_log s" "[x]"] past_wall_mono [of c r "tk_log s" "[x]"]
    by (simp add: armed_def)
qed

definition confirmed_running :: "string \<Rightarrow> wd_state \<Rightarrow> bool" where
  "confirmed_running d s \<longleftrightarrow> last_status d (tk_log s) = Some (Some Dep_Running)"

definition aimed :: "wd_effect list \<times> wd_effect list \<Rightarrow> string set \<Rightarrow> watchdog_config \<Rightarrow> deployment \<Rightarrow> trigger \<Rightarrow> wd_state \<Rightarrow> bool" where
  "aimed h1 todo c r t s \<longleftrightarrow> armed h1 todo c r t s \<and> confirmed_running (dp_id r) s"

lemma keeps_aimed_act: "\<not> is_stop x \<Longrightarrow> \<not> is_status x \<Longrightarrow> keeps (aimed h1 todo c r t) (act x)"
  by (rule keeps_act) (simp add: aimed_def armed_act confirmed_running_def last_status_neutral)

lemma aimed_remembers: "aimed h1 todo c r t s \<Longrightarrow> remembers h1 todo s"
  by (simp add: aimed_def armed_def)

lemma keeps_aimed_call: "keeps (aimed h1 todo c r t) (wd_call e)"
  unfolding wd_call_def by (intro keeps_andThen keeps_option keeps_aimed_act) auto

lemma runs_aimed: "keeps (aimed h1 todo c r t) m \<Longrightarrow> runs (aimed h1 todo c r t) m (remembers h1 todo) (\<lambda>_. aimed h1 todo c r t)"
  by (erule runs_keeps_weaken) (auto intro: aimed_remembers)

lemma aimed_wall: "aimed h1 todo c r t s \<Longrightarrow> past_wall c r (tk_log s) \<Longrightarrow> ready h1 todo (dp_id r) False s"
  by (auto simp: aimed_def armed_def confirmed_running_def ready_def seen_stuck_def)

lemma aimed_idle: "aimed h1 todo c r t s \<Longrightarrow> tr_kind t = Idle \<Longrightarrow> tk_log s = fst h1 @ Config_Read c # es \<Longrightarrow>
    silent_read c (dp_id r) es \<Longrightarrow> ready h1 todo (dp_id r) False s"
  unfolding aimed_def armed_def confirmed_running_def ready_def seen_stuck_def silent_twice_def by blast

text \<open>The clock of the confirmation, with the duration that follows from it.\<close>

definition timed :: "wd_effect list \<times> wd_effect list \<Rightarrow> string set \<Rightarrow> watchdog_config \<Rightarrow> deployment \<Rightarrow> trigger \<Rightarrow> int \<Rightarrow> wd_state \<Rightarrow> bool" where
  "timed h1 todo c r t ms s \<longleftrightarrow> aimed h1 todo c r t s \<and> (wc_maxMinutes c * MINUTE_MS < ms \<longrightarrow> past_wall c r (tk_log s))"

lemma keeps_timed_act: "\<not> is_stop x \<Longrightarrow> \<not> is_status x \<Longrightarrow> keeps (timed h1 todo c r t ms) (act x)"
  by (rule keeps_act) (auto simp: timed_def aimed_def armed_act confirmed_running_def last_status_neutral past_wall_mono)

lemma runs_running_ms:
  assumes "0 \<le> wc_maxMinutes c"
  shows "runs (aimed h1 todo c r t) (if deployStartOf r = None then give 0
      else andThen (clock e) (\<lambda>now. give (running_ms r now))) (remembers h1 todo) (timed h1 todo c r t)"
proof (rule runs_if)
  assume "deployStartOf r = None"
  show "runs (aimed h1 todo c r t) (give 0) (remembers h1 todo) (timed h1 todo c r t)"
    using assms by (intro runs_give) (auto simp: timed_def MINUTE_MS_def)
next
  assume "deployStartOf r \<noteq> None"
  then obtain start where start: "deployStartOf r = Some start" by blast
  have "runs (aimed h1 todo c r t) (clock e) (remembers h1 todo) (\<lambda>now s. aimed h1 todo c r t s \<and> Clock_Read now \<in> set (tk_log s))"
    unfolding clock_def
    by (rule runs_reads_now) (simp add: aimed_def armed_act confirmed_running_def last_status_neutral)
  then show "runs (aimed h1 todo c r t) (andThen (clock e) (\<lambda>now. give (running_ms r now))) (remembers h1 todo) (timed h1 todo c r t)"
    using start by (elim runs_andThen, intro runs_give) (auto simp: timed_def past_wall_def running_ms_def)
qed

lemma runs_confirm:
  assumes "0 \<le> wc_maxMinutes c"
  shows "runs (aimed h1 todo c r t) (confirm e r t c) (remembers h1 todo)
    (\<lambda>res s. remembers h1 todo s \<and> (res \<noteq> None \<longrightarrow> ready h1 todo (dp_id r) False s))"
proof (cases "tr_kind t")
  case Wall
  have "ready h1 todo (dp_id r) False s" if "aimed h1 todo c r t s" for s
  proof -
    from that Wall have "past_wall c r (tk_log s)" by (simp add: aimed_def armed_def)
    with that show ?thesis by (rule aimed_wall)
  qed
  with Wall show ?thesis by (auto simp: confirm_def intro!: runs_give dest: ready_remembers)
next
  case Idle
  let ?d = "dp_id r"
  have idle: "runs (timed h1 todo c r t ms) (read_idle e r) (remembers h1 todo)
      (\<lambda>idle s. timed h1 todo c r t ms s \<and> Idle_Read ?d idle \<in> set (drop (Suc (length (fst h1))) (tk_log s)))" for ms
    unfolding read_idle_def
  proof (rule runs_reads)
    show "keeps (timed h1 todo c r t ms) (wd_call e)"
      unfolding wd_call_def by (intro keeps_andThen keeps_option keeps_timed_act) auto
    show "timed h1 todo c r t ms s \<Longrightarrow> remembers h1 todo s" for s by (auto simp: timed_def dest: aimed_remembers)
    fix x s assume s: "timed h1 todo c r t ms s"
    with keeps_timed_act [of "Idle_Read ?d x" h1 todo c r t ms]
    have "timed h1 todo c r t ms (s\<lparr>tk_log := tk_log s @ [Idle_Read ?d x]\<rparr>)" by (simp add: keeps_def act_def)
    moreover from s obtain es where "tk_log s = fst h1 @ Config_Read c # es" by (auto simp: timed_def aimed_def armed_def)
    ultimately show "timed h1 todo c r t ms (s\<lparr>tk_log := tk_log s @ [Idle_Read ?d x]\<rparr>) \<and>
        Idle_Read ?d x \<in> set (drop (Suc (length (fst h1))) (tk_log (s\<lparr>tk_log := tk_log s @ [Idle_Read ?d x]\<rparr>)))" by simp
  qed
  have fin: "remembers h1 todo s \<and> (evaluateWatchdog c ms idle \<noteq> None \<longrightarrow> ready h1 todo ?d False s)"
    if s: "timed h1 todo c r t ms s" "Idle_Read ?d idle \<in> set (drop (Suc (length (fst h1))) (tk_log s))" for ms idle s
  proof (intro conjI impI)
    show "remembers h1 todo s" using s(1) by (auto simp: timed_def dest: aimed_remembers)
    assume ev: "evaluateWatchdog c ms idle \<noteq> None"
    from s(1) obtain es where es: "tk_log s = fst h1 @ Config_Read c # es" by (auto simp: timed_def aimed_def armed_def)
    show "ready h1 todo ?d False s"
    proof (cases "wc_maxMinutes c * MINUTE_MS < ms")
      case True
      with s(1) show ?thesis by (auto simp: timed_def intro: aimed_wall)
    next
      case False
      with ev obtain x where "idle = Some x" "wc_idleMinutes c * MINUTE_MS < x"
        by (auto simp: evaluateWatchdog_def split: option.splits if_splits)
      with s(2) es have "silent_read c ?d es" by (auto simp: silent_read_def)
      with s(1) Idle es show ?thesis by (auto simp: timed_def intro: aimed_idle)
    qed
  qed
  have "confirm e r t c = andThen (if deployStartOf r = None then give 0
      else andThen (clock e) (\<lambda>now. give (running_ms r now)))
      (\<lambda>ms. andThen (read_idle e r) (\<lambda>idle. give (evaluateWatchdog c ms idle)))"
    using Idle by (simp add: confirm_def)
  moreover have "runs (aimed h1 todo c r t) \<dots> (remembers h1 todo)
    (\<lambda>res s. remembers h1 todo s \<and> (res \<noteq> None \<longrightarrow> ready h1 todo ?d False s))"
    by (rule runs_andThen [OF runs_running_ms [OF assms]], rule runs_andThen [OF idle], rule runs_give) (use fin in blast)
  ultimately show ?thesis by simp
qed

lemma keeps_ready_jobs: "keeps (ready h1 todo d q) (reads e (we_jobs e) Jobs_Read)"
  by (rule keeps_ready_reads) simp

lemma runs_track:
  assumes "d = dp_id (ps_row p)" and "q = st_claimedCancelled (ps_stop p)"
  shows "runs (shown h1 todo d q) (if b then wd_finish e p x y else set_pending d p)
     (remembers h1 todo) (\<lambda>_. remembers h1 todo)"
  unfolding set_pending_def assms
  by (rule runs_if, rule runs_finish [OF refl refl], rule runs_change, rule shown_remembers, rule remembers_pending)

lemma runs_stopAndTrack:
  assumes "0 \<le> wc_maxMinutes c"
  shows "runs (armed h1 todo c r t) (stopAndTrack e r t c) (remembers h1 todo) (\<lambda>_. remembers h1 todo)"
proof -
  let ?d = "dp_id r" and ?E = "remembers h1 todo"
  have status: "runs (armed h1 todo c r t) (read_status e ?d) ?E
      (\<lambda>st s. armed h1 todo c r t s \<and> (st = Some Dep_Running \<longrightarrow> confirmed_running ?d s))"
    unfolding read_status_def
  proof (rule runs_reads)
    show "keeps (armed h1 todo c r t) (wd_call e)"
      unfolding wd_call_def by (intro keeps_andThen keeps_option keeps_act armed_act) auto
    show "armed h1 todo c r t s \<Longrightarrow> remembers h1 todo s" for s by (simp add: armed_def)
  qed (simp add: armed_act confirmed_running_def last_status_snoc)
  have stop: "runs (ready h1 todo ?d False) (andThen (reads e (we_jobs e) Jobs_Read) (\<lambda>jobs.
        let job = findJobOf r jobs in
        if job = None \<and> jobsOfService r jobs \<noteq> [] then give ()
        else andThen (hostOf e r) (\<lambda>host.
          andThen (append_log e host r (watchdogTriggerLine t')) (\<lambda>_.
          andThen (safeStop e r (job = None)) (\<lambda>stop.
          andThen (if truthy (st_warning stop)
            then append_log e host r (''Watchdog: '' @ the (st_warning stop)) else give ()) (\<lambda>_.
          andThen (clock e) (\<lambda>now.
          let p = \<lparr>ps_row = r, ps_trigger = t', ps_stop = stop, ps_host = host,
                   ps_jobId = map_option jid job, ps_stoppedAt = now\<rparr> in
          if job = None \<or> st_notRunning stop then wd_finish e p False False
          else set_pending ?d p)))))))
      ?E (\<lambda>_. ?E)" for t'
    unfolding Let_def
    by (rule runs_andThen [OF runs_ready [OF keeps_ready_jobs]], rule runs_if, rule runs_give, rule ready_remembers, assumption,
        rule runs_andThen [OF runs_ready [OF keeps_ready_host]], rule runs_andThen [OF runs_ready [OF keeps_ready_log]],
        rule runs_andThen [OF runs_safeStop [OF refl]],
        rule runs_andThen [OF runs_shown [OF keeps_if [OF keeps_shown(1) keeps_give]]],
        rule runs_andThen [OF runs_shown [OF keeps_shown(2)]], rule runs_track) simp_all
  have go: "runs (\<lambda>s. armed h1 todo c r t s \<and> (st = Some Dep_Running \<longrightarrow> confirmed_running ?d s))
      (if st \<noteq> Some Dep_Running then give () else andThen (confirm e r t c) (\<lambda>confirmed. case confirmed of
         None \<Rightarrow> give () | Some t' \<Rightarrow> f t')) ?E (\<lambda>_. ?E)"
    if f: "\<And>t'. runs (ready h1 todo ?d False) (f t') ?E (\<lambda>_. ?E)" for st f
  proof (rule runs_if)
    assume "\<not> st \<noteq> Some Dep_Running"
    then have pre: "(\<lambda>s. armed h1 todo c r t s \<and> (st = Some Dep_Running \<longrightarrow> confirmed_running ?d s)) = aimed h1 todo c r t"
      by (auto simp: aimed_def)
    show "runs (\<lambda>s. armed h1 todo c r t s \<and> (st = Some Dep_Running \<longrightarrow> confirmed_running ?d s))
        (andThen (confirm e r t c) (\<lambda>confirmed. case confirmed of None \<Rightarrow> give () | Some t' \<Rightarrow> f t')) ?E (\<lambda>_. ?E)"
      unfolding pre
    proof (rule runs_andThen [OF runs_confirm [OF assms]], rule runs_option)
      fix confirmed :: "trigger option" and t'
      assume "confirmed = Some t'"
      with f [of t'] show "runs (\<lambda>s. remembers h1 todo s \<and> (confirmed \<noteq> None \<longrightarrow> ready h1 todo ?d False s)) (f t') ?E (\<lambda>_. ?E)"
        by (auto elim: runs_mono)
    qed (simp add: runs_give)
  qed (auto intro!: runs_give simp: armed_def)
  show ?thesis unfolding stopAndTrack_def by (rule runs_andThen [OF status go [OF stop]])
qed

section \<open>Following up\<close>

lemma runs_retryStop:
  assumes "d = dp_id (ps_row p)" and "q = st_claimedCancelled (ps_stop p)"
  shows "runs (shown h1 todo d q) (retryStop e p) (remembers h1 todo)
     (\<lambda>p' s. shown h1 todo d (st_claimedCancelled (ps_stop p')) s \<and> ps_row p' = ps_row p)"
proof -
  let ?E = "remembers h1 todo" and ?Q = "\<lambda>p' s. shown h1 todo d (st_claimedCancelled (ps_stop p')) s \<and> ps_row p' = ps_row p"
  let ?f = "\<lambda>stop. p\<lparr>ps_stop := (ps_stop p)\<lparr>st_retryable := st_retryable stop\<rparr>\<rparr>"
  let ?g = "\<lambda>stop now. p\<lparr>ps_stop := stop\<lparr>st_claimedCancelled := (st_claimedCancelled (ps_stop p) \<or> st_claimedCancelled stop)\<rparr>,
      ps_stoppedAt := now\<rparr>"
  have pend: "runs (shown h1 todo d q') (set_pending d p') ?E (\<lambda>_. shown h1 todo d q')"
    if "ps_row p' = ps_row p" "q' = st_claimedCancelled (ps_stop p')" for p' q'
    unfolding set_pending_def by (rule runs_change) (use remembers_pending [of h1 todo p'] that assms in simp)
  have given: "runs (shown h1 todo d q') (give p') ?E ?Q" if "ps_row p' = ps_row p" "q' = st_claimedCancelled (ps_stop p')" for p' q'
    using that by (simp add: runs_give)
  have weaker: "runs (shown h1 todo d (q \<or> x)) m ?E ?Q" if "runs (shown h1 todo d q) m ?E ?Q" for m x
    using that by (rule runs_mono) (auto simp: shown_def)
  have kept: "runs (shown h1 todo d (q \<or> st_claimedCancelled stop))
      (andThen (set_pending d (?f stop)) (\<lambda>_. give (?f stop))) ?E ?Q" for stop
    by (rule weaker, rule runs_andThen [OF pend], simp, simp add: assms, rule given) (simp_all add: assms)
  have renewed: "runs (shown h1 todo d (q \<or> st_claimedCancelled stop))
      (andThen (clock e) (\<lambda>now. andThen (set_pending d (?g stop now)) (\<lambda>_.
          andThen (append_log e (ps_host p) (ps_row p) line) (\<lambda>_. give (?g stop now))))) ?E ?Q" for stop line
    by (rule runs_andThen [OF runs_shown [OF keeps_shown(2)]], rule runs_andThen [OF pend], simp, simp add: assms,
        rule runs_andThen [OF runs_shown [OF keeps_shown(1)]], rule given) (simp_all add: assms)
  have stop: "runs (ready h1 todo d q) (andThen (safeStop e (ps_row p) False) (\<lambda>stop.
        if st_method stop = Stop_None \<and> \<not> st_notRunning stop
        then andThen (set_pending d (?f stop)) (\<lambda>_. give (?f stop))
        else andThen (clock e) (\<lambda>now. andThen (set_pending d (?g stop now)) (\<lambda>_.
          andThen (append_log e (ps_host p) (ps_row p) line) (\<lambda>_. give (?g stop now)))))) ?E ?Q" for line
    by (rule runs_andThen [OF runs_safeStop [OF assms(1)]], rule runs_if, rule kept, rule renewed)
  have go: "runs (\<lambda>s. shown h1 todo d q s \<and> (st = Some Dep_Running \<longrightarrow> ready h1 todo d q s))
      (if st \<noteq> Some Dep_Running then give p else m) ?E ?Q" if "runs (ready h1 todo d q) m ?E ?Q" for st :: "deployment_status option" and m
    using that assms by (cases "st = Some Dep_Running") (auto elim: runs_mono intro!: runs_give)
  show ?thesis unfolding retryStop_def Let_def assms(1) [symmetric]
    by (rule runs_andThen [OF runs_status go [OF stop]])
qed

lemma remembers_delete: "remembers h1 todo s \<Longrightarrow> remembers h1 todo (s\<lparr>wd_pending := AList.delete d (wd_pending s)\<rparr>)"
  unfolding remembers_def by (auto simp: AList.delete_eq)

lemma shown_delete: "shown h1 todo d q s \<Longrightarrow> shown h1 todo d q (s\<lparr>wd_pending := AList.delete i (wd_pending s)\<rparr>)"
  by (simp add: shown_def remembers_delete)

lemma runs_settle_end:
  assumes "d = dp_id (ps_row p)" and "q = st_claimedCancelled (ps_stop p)"
  shows "runs (shown h1 todo d q) (settle_end e p job c) (remembers h1 todo) (\<lambda>_. remembers h1 todo)"
proof -
  let ?E = "remembers h1 todo"
  have del: "runs (shown h1 todo d q) (change (\<lambda>s. s\<lparr>wd_pending := AList.delete (dp_id (ps_row p)) (wd_pending s)\<rparr>))
      ?E (\<lambda>_. shown h1 todo d q)"
    by (rule runs_change) (rule shown_delete)
  have mark: "runs (shown h1 todo d q) (if job \<noteq> None then act (Marked_Released (dp_id (ps_row p))) else give ())
      ?E (\<lambda>_. shown h1 todo d q)"
    by (rule runs_shown, rule keeps_if, rule keeps_shown_act) auto
  have slot: "runs ?E (case job of None \<Rightarrow> give () | Some j \<Rightarrow> releaseSlot e j k r sv host c) ?E (\<lambda>_. ?E)" for k r sv host
    by (subst runs_keeps, rule keeps_option) auto
  show ?thesis unfolding settle_end_def Let_def
    by (rule runs_andThen [OF del], rule runs_andThen [OF mark], rule runs_ensure [OF runs_finish [OF assms] slot])
qed

lemma runs_settle_stop:
  assumes "d = dp_id (ps_row p)" and "q = st_claimedCancelled (ps_stop p)"
  shows "runs (shown h1 todo d q) (settle_stop e jobs c p) (remembers h1 todo) (\<lambda>_. remembers h1 todo)"
proof -
  let ?E = "remembers h1 todo" and ?Q = "\<lambda>p' s. shown h1 todo d (st_claimedCancelled (ps_stop p')) s \<and> ps_row p' = ps_row p"
  have retry: "runs (shown h1 todo d q) (if b then retryStop e p else give p) ?E ?Q" for b
    by (rule runs_if, rule runs_retryStop [OF assms], rule runs_give) (simp add: assms)
  have rest: "runs (?Q p') (andThen (if b then andThen (clock e) (\<lambda>now. give (f now)) else give False)
      (\<lambda>wait. if wait then give () else settle_end e p' job c)) ?E (\<lambda>_. ?E)" for b f p' job
  proof (cases "ps_row p' = ps_row p")
    case True
    let ?q = "st_claimedCancelled (ps_stop p')"
    have wait: "runs (shown h1 todo d ?q) (if b then andThen (clock e) (\<lambda>now. give (f now)) else give False) ?E (\<lambda>_. shown h1 todo d ?q)"
      by (rule runs_shown, intro keeps_if keeps_andThen keeps_shown keeps_give)
    have "runs (shown h1 todo d ?q) (andThen (if b then andThen (clock e) (\<lambda>now. give (f now)) else give False)
        (\<lambda>wait. if wait then give () else settle_end e p' job c)) ?E (\<lambda>_. ?E)"
      by (rule runs_andThen [OF wait], rule runs_if, rule runs_give, erule shown_remembers, rule runs_settle_end) (simp_all add: assms True)
    then show ?thesis by (rule runs_mono) auto
  qed (simp add: runs_def)
  show ?thesis unfolding settle_stop_def Let_def
  proof (rule runs_andThen [where R = ?Q])
    show "runs (shown h1 todo d q) (if b then retryStop e p else give p) ?E ?Q" for b by (rule retry)
    show "runs (?Q p') (andThen (if b then andThen (clock e) (\<lambda>now. give (now - ps_stoppedAt p' < we_graceMs e)) else give False)
      (\<lambda>wait. if wait then give () else settle_end e p' job c)) ?E (\<lambda>_. ?E)" for b p' job by (rule rest)
  qed
qed

section \<open>The check of a row\<close>

lemma remembers_subset:
  assumes "remembers b T' s" and "T \<subseteq> T'"
  shows "remembers b T s"
proof -
  have "d \<in> T \<longrightarrow> seen_silent d (fst b)" if "d \<in> fst ` set (wd_suspects s)" for d
    using that assms unfolding remembers_def by blast
  with assms(1) show ?thesis by (simp add: remembers_def)
qed

lemma remembers_suspects:
  assumes "remembers b T' s" and "T \<subseteq> T'"
    and "\<And>d. d \<in> fst ` set xs \<Longrightarrow> d \<in> fst ` set (wd_suspects s) \<or> d \<notin> T \<and> seen_silent d (tk_log s)"
  shows "remembers b T (s\<lparr>wd_suspects := xs\<rparr>)"
proof -
  have "seen_silent d (tk_log s) \<and> (d \<in> T \<longrightarrow> seen_silent d (fst b))" if "d \<in> fst ` set xs" for d
    using assms(3) [OF that] assms(1,2) unfolding remembers_def by blast
  with assms(1) show ?thesis unfolding remembers_def by simp
qed

text \<open>A row listed by the sweep, whose service was read and is not excluded.\<close>

definition listed :: "wd_effect list \<times> wd_effect list \<Rightarrow> string set \<Rightarrow> watchdog_config \<Rightarrow> deployment \<Rightarrow> wd_state \<Rightarrow> bool" where
  "listed b T c r s \<longleftrightarrow> remembers b (insert (dp_id r) T) s \<and> watchable c r (tk_log s)"

lemma listed_remembers: "listed b T c r s \<Longrightarrow> remembers b T s"
  unfolding listed_def using remembers_subset by blast

lemma keeps_listed_act: "\<not> is_stop x \<Longrightarrow> keeps (listed b T c r) (act x)"
  by (rule keeps_act) (simp add: listed_def remembers_act watchable_mono)

lemma keeps_listed_call: "keeps (listed b T c r) (wd_call e)"
  unfolding wd_call_def by (intro keeps_andThen keeps_option keeps_listed_act) auto

definition triggered :: "watchdog_config \<Rightarrow> deployment \<Rightarrow> trigger option \<Rightarrow> wd_effect list \<Rightarrow> bool" where
  "triggered c r t h \<longleftrightarrow> (\<forall>t'. t = Some t' \<longrightarrow>
     (tr_kind t' = Wall \<longrightarrow> past_wall c r h) \<and> (tr_kind t' = Idle \<longrightarrow> seen_silent (dp_id r) h))"

lemma evaluate_wall:
  assumes "evaluateWatchdog c (running_ms r now) idle = Some t" and "tr_kind t = Wall" and "0 \<le> wc_maxMinutes c"
    and "Clock_Read now \<in> set h"
  shows "past_wall c r h"
proof -
  have "wc_maxMinutes c * MINUTE_MS < running_ms r now"
    using assms(1,2) by (auto simp: evaluateWatchdog_def split: if_splits option.splits)
  moreover have "0 \<le> wc_maxMinutes c * MINUTE_MS" using assms(3) by (simp add: MINUTE_MS_def)
  ultimately obtain start where "deployStartOf r = Some start" "running_ms r now = now - start"
    by (auto simp: running_ms_def split: option.splits)
  with \<open>wc_maxMinutes c * MINUTE_MS < running_ms r now\<close> assms(4) show ?thesis by (auto simp: past_wall_def)
qed

lemma runs_find_trigger:
  assumes "0 \<le> wc_maxMinutes c" and "Clock_Read now \<in> set (snd b)"
  shows "runs (listed b T c r) (find_trigger e c r now) (remembers b T)
    (\<lambda>t s. listed b T c r s \<and> triggered c r t (tk_log s))"
proof -
  have clk: "Clock_Read now \<in> set (tk_log s)" if "listed b T c r s" for s
    using that assms(2) by (auto simp: listed_def remembers_def)
  have idle: "runs (listed b T c r) (read_idle e r) (remembers b T)
      (\<lambda>idle s. listed b T c r s \<and> Idle_Read (dp_id r) idle \<in> set (tk_log s))"
    unfolding read_idle_def
  proof (rule runs_reads [OF keeps_listed_call])
    show "listed b T c r s \<Longrightarrow> remembers b T s" for s by (rule listed_remembers)
  qed (simp add: listed_def remembers_act watchable_mono)
  have fin: "triggered c r (evaluateWatchdog c (running_ms r now) idle) (tk_log s)"
    if s: "listed b T c r s" "Idle_Read (dp_id r) idle \<in> set (tk_log s)" for idle s
    unfolding triggered_def
  proof (intro allI impI conjI)
    fix t' assume t': "evaluateWatchdog c (running_ms r now) idle = Some t'"
    show "past_wall c r (tk_log s)" if "tr_kind t' = Wall" using evaluate_wall [OF t' that assms(1) clk [OF s(1)]] .
    assume "tr_kind t' = Idle"
    with t' obtain ms where "idle = Some ms" "wc_idleMinutes c * MINUTE_MS < ms"
      by (auto simp: evaluateWatchdog_def split: if_splits option.splits)
    with s show "seen_silent (dp_id r) (tk_log s)" by (auto simp: seen_silent_def silent_read_def listed_def watchable_def)
  qed
  have wall: "triggered c r (Some t) (tk_log s)"
    if "evaluateWatchdog c (running_ms r now) None = Some t" "listed b T c r s" for t s
  proof -
    from that(1) have "tr_kind t = Wall" by (auto simp: evaluateWatchdog_def split: if_splits)
    with evaluate_wall [OF that(1) this assms(1) clk [OF that(2)]] show ?thesis by (simp add: triggered_def)
  qed
  show ?thesis unfolding find_trigger_def
    by (rule runs_option, rule runs_andThen [OF idle], rule runs_give, use fin in blast, rule runs_give, use wall in blast)
qed

lemma runs_suspect:
  assumes "dp_id r \<notin> T"
  shows "runs (\<lambda>s. listed b T c r s \<and> triggered c r (Some t) (tk_log s)) (suspect (dp_id r) now t) (remembers b T)
    (\<lambda>go s. remembers b T s \<and> (go \<longrightarrow> watchable c r (tk_log s) \<and> (tr_kind t = Wall \<longrightarrow> past_wall c r (tk_log s)) \<and>
       (tr_kind t = Idle \<longrightarrow> seen_silent (dp_id r) (fst b))))"
proof (cases "tr_kind t")
  case Wall
  then show ?thesis by (auto simp: suspect_def listed_remembers triggered_def listed_def intro!: runs_give intro: remembers_subset)
next
  case Idle
  let ?P = "\<lambda>s. listed b T c r s \<and> triggered c r (Some t) (tk_log s)"
  have note_it: "runs ?P (change (\<lambda>s. s\<lparr>wd_silent := dp_id r # wd_silent s\<rparr>)) (remembers b T) (\<lambda>_. ?P)"
    by (rule runs_change) (simp add: listed_def remembers_def)
  have seen: "runs ?P (look (\<lambda>s. map_of (wd_suspects s) (dp_id r))) (remembers b T)
      (\<lambda>seen s. ?P s \<and> (seen \<noteq> None \<longrightarrow> seen_silent (dp_id r) (fst b)))"
    by (rule runs_look) (fastforce simp: listed_def remembers_def dest: map_of_SomeD)
  have add: "runs (\<lambda>s. ?P s \<and> x) (change (\<lambda>s. s\<lparr>wd_suspects := AList.update (dp_id r) now (wd_suspects s)\<rparr>)) (remembers b T) (\<lambda>_. remembers b T)" for x
  proof (rule runs_change)
    fix s assume s: "?P s \<and> x"
    have keys: "fst ` set (AList.update (dp_id r) now (wd_suspects s)) = insert (dp_id r) (fst ` set (wd_suspects s))"
      by (simp add: dom_update flip: dom_map_of_conv_image_fst) 
    show "remembers b T (s\<lparr>wd_suspects := AList.update (dp_id r) now (wd_suspects s)\<rparr>)"
    proof (rule remembers_suspects [of b "insert (dp_id r) T"])
      show "remembers b (insert (dp_id r) T) s" using s by (simp add: listed_def)
      fix d assume "d \<in> fst ` set (AList.update (dp_id r) now (wd_suspects s))"
      with keys assms s Idle show "d \<in> fst ` set (wd_suspects s) \<or> d \<notin> T \<and> seen_silent d (tk_log s)"
        by (auto simp: triggered_def)
    qed blast
  qed
  have "suspect (dp_id r) now t = andThen (change (\<lambda>s. s\<lparr>wd_silent := dp_id r # wd_silent s\<rparr>)) (\<lambda>_.
        andThen (look (\<lambda>s. map_of (wd_suspects s) (dp_id r))) (\<lambda>seen. case seen of
          Some since \<Rightarrow> give True
        | None \<Rightarrow> andThen (change (\<lambda>s. s\<lparr>wd_suspects := AList.update (dp_id r) now (wd_suspects s)\<rparr>)) (\<lambda>_. give False)))"
    using Idle by (simp add: suspect_def)
  moreover have "runs ?P \<dots> (remembers b T)
    (\<lambda>go s. remembers b T s \<and> (go \<longrightarrow> watchable c r (tk_log s) \<and> (tr_kind t = Wall \<longrightarrow> past_wall c r (tk_log s)) \<and>
       (tr_kind t = Idle \<longrightarrow> seen_silent (dp_id r) (fst b))))"
    by (rule runs_andThen [OF note_it], rule runs_andThen [OF seen], rule runs_option, rule runs_andThen [OF add], rule runs_give, simp,
        rule runs_give) (auto simp: Idle listed_def intro: remembers_subset)
  ultimately show ?thesis by simp
qed

lemma runs_check_row:
  assumes c: "0 \<le> wc_maxMinutes c" and clk: "Clock_Read now \<in> set (snd b)"
    and rows: "Running_Read rows \<in> set (snd b)" "r \<in> set rows" and cfg: "snd b = fst b @ Config_Read c # es"
    and T: "dp_id r \<notin> T"
  shows "runs (remembers b (insert (dp_id r) T)) (check_row e c jobs now r) E (\<lambda>_. remembers b T)"
proof -
  let ?P = "remembers b (insert (dp_id r) T)" and ?E = "remembers b T"
  have weak: "?P s \<Longrightarrow> ?E s" for s using remembers_subset by blast
  have service: "runs ?P (reads e (we_service e) (Service_Read (dp_id r))) ?E
      (\<lambda>sv s. ?P s \<and> Service_Read (dp_id r) sv \<in> set (tk_log s))"
    by (rule runs_reads) (auto simp: remembers_act intro: weak)
  have cand: "listed b T c r s" if "?P s" "Service_Read (dp_id r) (Some sv) \<in> set (tk_log s)"
    "\<not> isWatchdogExcluded (wc_exclusions c) sv" for s sv
  proof -
    from that(1) obtain fs where "tk_log s = snd b @ fs" by (auto simp: remembers_def)
    with rows(1) cfg have "Running_Read rows \<in> set (tk_log s)" "Config_Read c \<in> set (tk_log s)" by auto
    with that rows(2) show ?thesis unfolding listed_def watchable_def by blast
  qed
  have arm: "runs (\<lambda>s. ?E s \<and> (go \<longrightarrow> watchable c r (tk_log s) \<and> (tr_kind t = Wall \<longrightarrow> past_wall c r (tk_log s)) \<and>
       (tr_kind t = Idle \<longrightarrow> seen_silent (dp_id r) (fst b))))
      (if \<not> go then give () else andThen (change (\<lambda>s. s\<lparr>wd_suspects := AList.delete (dp_id r) (wd_suspects s)\<rparr>)) (\<lambda>_.
         stopAndTrack e r t c)) ?E (\<lambda>_. ?E)" for go t
  proof (rule runs_if)
    assume go: "\<not> \<not> go"
    show "runs (\<lambda>s. ?E s \<and> (go \<longrightarrow> watchable c r (tk_log s) \<and> (tr_kind t = Wall \<longrightarrow> past_wall c r (tk_log s)) \<and>
       (tr_kind t = Idle \<longrightarrow> seen_silent (dp_id r) (fst b))))
      (andThen (change (\<lambda>s. s\<lparr>wd_suspects := AList.delete (dp_id r) (wd_suspects s)\<rparr>)) (\<lambda>_. stopAndTrack e r t c)) ?E (\<lambda>_. ?E)"
    proof (rule runs_andThen [OF _ runs_stopAndTrack [OF c]], rule runs_change)
      fix s assume s: "?E s \<and> (go \<longrightarrow> watchable c r (tk_log s) \<and> (tr_kind t = Wall \<longrightarrow> past_wall c r (tk_log s)) \<and>
         (tr_kind t = Idle \<longrightarrow> seen_silent (dp_id r) (fst b)))"
      then obtain fs where "tk_log s = snd b @ fs" by (auto simp: remembers_def)
      with cfg have ex: "\<exists>es. tk_log s = fst b @ Config_Read c # es" by auto
      have "remembers b T (s\<lparr>wd_suspects := AList.delete (dp_id r) (wd_suspects s)\<rparr>)"
        by (rule remembers_suspects [of b T]) (use s in \<open>auto simp: AList.delete_eq\<close>)
      with s go ex show "armed b T c r t (s\<lparr>wd_suspects := AList.delete (dp_id r) (wd_suspects s)\<rparr>)"
        by (simp add: armed_def)
    qed
  qed (simp add: runs_give)
  have inner: "runs (listed b T c r) (andThen (find_trigger e c r now) (\<lambda>t. case t of
          None \<Rightarrow> give ()
        | Some t \<Rightarrow> andThen (suspect (dp_id r) now t) (\<lambda>go.
            if \<not> go then give ()
            else andThen (change (\<lambda>s. s\<lparr>wd_suspects := AList.delete (dp_id r) (wd_suspects s)\<rparr>)) (\<lambda>_.
              stopAndTrack e r t c)))) ?E (\<lambda>_. ?E)"
  proof (rule runs_andThen [OF runs_find_trigger [OF c clk]], rule runs_option)
    show "runs (\<lambda>s. listed b T c r s \<and> triggered c r t (tk_log s)) (give ()) ?E (\<lambda>_. ?E)" for t :: "trigger option"
      by (rule runs_give) (auto intro: listed_remembers)
    fix t :: "trigger option" and t' assume "t = Some t'"
    then show "runs (\<lambda>s. listed b T c r s \<and> triggered c r t (tk_log s)) (andThen (suspect (dp_id r) now t') (\<lambda>go.
            if \<not> go then give ()
            else andThen (change (\<lambda>s. s\<lparr>wd_suspects := AList.delete (dp_id r) (wd_suspects s)\<rparr>)) (\<lambda>_.
              stopAndTrack e r t' c))) ?E (\<lambda>_. ?E)"
      using runs_andThen [OF runs_suspect [OF T] arm] by simp
  qed
  have body: "runs (\<lambda>s. ?P s \<and> Service_Read (dp_id r) sv \<in> set (tk_log s)) (case sv of None \<Rightarrow> give () | Some x \<Rightarrow>
      if isWatchdogExcluded (wc_exclusions c) x then give () else if q then give () else f) ?E (\<lambda>_. ?E)"
    if "runs (listed b T c r) f ?E (\<lambda>_. ?E)" for sv q f
  proof (cases sv)
    case None
    then show ?thesis by (auto intro!: runs_give intro: weak)
  next
    case (Some x)
    have "runs (\<lambda>s. ?P s \<and> Service_Read (dp_id r) (Some x) \<in> set (tk_log s)) f ?E (\<lambda>_. ?E)"
      if "\<not> isWatchdogExcluded (wc_exclusions c) x"
      by (rule runs_mono [OF \<open>runs (listed b T c r) f ?E (\<lambda>_. ?E)\<close>]) (use cand that in blast)+
    with Some show ?thesis by (auto intro!: runs_give runs_if intro: weak)
  qed
  show ?thesis unfolding check_row_def
    by (rule runs_andThen [where R = "\<lambda>_. ?P"], rule runs_look, assumption, rule runs_if, rule runs_give, rule weak, assumption,
        rule runs_attempt, rule runs_andThen [OF service body [OF inner]])
qed

end
