(* ===== verification/Watchdog_Props.thy ===== *)
theory Watchdog_Props
  imports Watchdog_Steps Deployment_Props
begin

text \<open>
  What the watchdog is trusted with. A stop is issued only for a deploy that was seen past a limit, read
  again right before, and not excluded; a person's cancel is never turned into a failure; a slot whose
  job did not end is freed by the first sweep after the grace period, whatever fails on the way, and a
  kept lock by the first one after its bound.
\<close>

section \<open>The limits stay within bounds\<close>

lemma clampMinutes_bounds: "lo \<le> hi \<Longrightarrow> lo \<le> d \<Longrightarrow> d \<le> hi \<Longrightarrow> lo \<le> clampMinutes v d lo hi \<and> clampMinutes v d lo hi \<le> hi"
  by (auto simp: clampMinutes_def split: option.splits)

text \<open>
  C40. Whatever is stored, the limits in force are usable: the idle limit is between 15 minutes and
  a day, the wall limit between the idle limit and a week, and every element of the stored list that
  names a service excludes exactly that service, whatever else the list holds.
\<close>

theorem watchdog_config_sound:
  fixes s :: "stored_settings option"
  defines "c \<equiv> resolveWatchdogConfig s"
  shows "MIN_IDLE_MINUTES \<le> wc_idleMinutes c \<and> wc_idleMinutes c \<le> MAX_IDLE_MINUTES \<and>
    wc_idleMinutes c \<le> wc_maxMinutes c \<and> MIN_MAX_MINUTES \<le> wc_maxMinutes c \<and> wc_maxMinutes c \<le> MAX_MAX_MINUTES \<and>
    (\<forall>svc. isWatchdogExcluded (wc_exclusions c) svc \<longleftrightarrow>
       (\<exists>xs j i. Option.bind s ss_exclusions = Some (J_Arr xs) \<and> j \<in> set xs \<and> exclusion_id j = Some i \<and>
          (exclusion_type j = Some Kind_Application \<and> fst svc = Some i \<or>
           exclusion_type j = Some Kind_Compose \<and> snd svc = Some i)))"
proof -
  have idle: "MIN_IDLE_MINUTES \<le> wc_idleMinutes c \<and> wc_idleMinutes c \<le> MAX_IDLE_MINUTES"
    unfolding c_def resolveWatchdogConfig_def Let_def watchdog_config.simps
    by (rule clampMinutes_bounds) (simp_all add: watchdog_limits)
  have wall: "MIN_MAX_MINUTES \<le> clampMinutes v DEFAULT_MAX_MINUTES MIN_MAX_MINUTES MAX_MAX_MINUTES \<and>
      clampMinutes v DEFAULT_MAX_MINUTES MIN_MAX_MINUTES MAX_MAX_MINUTES \<le> MAX_MAX_MINUTES" for v
    by (rule clampMinutes_bounds) (simp_all add: watchdog_limits)
  have mx: "wc_idleMinutes c \<le> wc_maxMinutes c \<and> MIN_MAX_MINUTES \<le> wc_maxMinutes c \<and> wc_maxMinutes c \<le> MAX_MAX_MINUTES"
    using idle wall [of "Option.bind s ss_maxMinutes"] unfolding c_def resolveWatchdogConfig_def Let_def
    by (auto simp: watchdog_limits max_def)
  have ex: "isWatchdogExcluded (wc_exclusions c) svc \<longleftrightarrow>
       (\<exists>xs j i. Option.bind s ss_exclusions = Some (J_Arr xs) \<and> j \<in> set xs \<and> exclusion_id j = Some i \<and>
          (exclusion_type j = Some Kind_Application \<and> fst svc = Some i \<or>
           exclusion_type j = Some Kind_Compose \<and> snd svc = Some i))" for svc
  proof -
    have "wc_exclusions c = parseExclusions (Option.bind s ss_exclusions)"
      by (simp add: c_def resolveWatchdogConfig_def Let_def)
    moreover have "isWatchdogExcluded (parseExclusions v) svc \<longleftrightarrow>
       (\<exists>xs j i. v = Some (J_Arr xs) \<and> j \<in> set xs \<and> exclusion_id j = Some i \<and>
          (exclusion_type j = Some Kind_Application \<and> fst svc = Some i \<or>
           exclusion_type j = Some Kind_Compose \<and> snd svc = Some i))" for v
    proof (cases "\<exists>xs. v = Some (J_Arr xs)")
      case True
      then obtain xs where v: "v = Some (J_Arr xs)" by blast
      have one: "(case parse_exclusion j of None \<Rightarrow> False | Some x \<Rightarrow>
            ex_type x = Kind_Application \<and> Some (ex_id x) = fst svc \<or> ex_type x = Kind_Compose \<and> Some (ex_id x) = snd svc) \<longleftrightarrow>
          (\<exists>i. exclusion_id j = Some i \<and> (exclusion_type j = Some Kind_Application \<and> fst svc = Some i \<or>
             exclusion_type j = Some Kind_Compose \<and> snd svc = Some i))" for j
        by (cases "exclusion_type j"; cases "exclusion_id j") (auto simp: parse_exclusion_def)
      have mf: "list_ex P (List.map_filter f ys) \<longleftrightarrow> (\<exists>y\<in>set ys. case f y of None \<Rightarrow> False | Some x \<Rightarrow> P x)" for P f ys
        by (induction ys) (auto simp: List.map_filter_simps split: option.splits)
      show ?thesis unfolding v isWatchdogExcluded_def parseExclusions_def option.case json.case mf one by auto
    next
      case False
      then show ?thesis by (auto simp: parseExclusions_def isWatchdogExcluded_def split: option.splits json.splits)
    qed
    ultimately show ?thesis by simp
  qed
  from idle mx ex show ?thesis by blast
qed

section \<open>Only a seen_stuck deployment is stopped\<close>

definition wd_init :: "wd_state \<Rightarrow> bool" where
  "wd_init s \<longleftrightarrow> tk_log s = [] \<and> wd_pending s = [] \<and> wd_kept s = [] \<and> wd_suspects s = [] \<and> \<not> wd_sweeping s"

definition sweep_step :: "wd_env \<Rightarrow> wd_state \<Rightarrow> wd_state \<Rightarrow> bool" where
  "sweep_step e s s' \<longleftrightarrow> s' = snd (sweep e s)"

text \<open>Settings come from the stored row; a listing names each deployment once.\<close>

definition sound_env :: "wd_env \<Rightarrow> bool" where
  "sound_env e \<longleftrightarrow> (\<forall>h. \<exists>stored. we_config e h = resolveWatchdogConfig stored) \<and> (\<forall>h. distinct (map dp_id (we_running e h)))"

definition wd_inv :: "wd_state \<Rightarrow> bool" where
  "wd_inv s \<longleftrightarrow> remembers ([], []) {} s"

lemma sound_config: "sound_env e \<Longrightarrow> 0 \<le> wc_maxMinutes (we_config e h)"
proof -
  assume "sound_env e"
  then obtain stored where c: "we_config e h = resolveWatchdogConfig stored" by (auto simp: sound_env_def)
  have "MIN_MAX_MINUTES \<le> clampMinutes v DEFAULT_MAX_MINUTES MIN_MAX_MINUTES MAX_MAX_MINUTES" for v
    using clampMinutes_bounds [of MIN_MAX_MINUTES MAX_MAX_MINUTES DEFAULT_MAX_MINUTES v] by (simp add: watchdog_limits)
  then have "15 \<le> clampMinutes (Option.bind stored ss_maxMinutes) DEFAULT_MAX_MINUTES MIN_MAX_MINUTES MAX_MAX_MINUTES"
    by (metis MIN_MAX_MINUTES_def)
  then show ?thesis unfolding c resolveWatchdogConfig_def Let_def by simp
qed

text \<open>The evidence of a base that is longer counts for a shorter one.\<close>

lemma remembers_base:
  assumes "remembers (h1, g) T s"
  shows "remembers ([], []) {} s"
  using assms by (simp add: remembers_def)

lemma runs_reads_answer:
  assumes "keeps P (wd_call e)" and "\<And>s. P s \<Longrightarrow> E s"
    and "\<And>x s. P s \<Longrightarrow> x = f (tk_log s) \<Longrightarrow> Q x (s\<lparr>tk_log := tk_log s @ [eff x]\<rparr>)"
  shows "runs P (reads e f eff) E Q"
proof -
  have "runs P (wd_call e) E (\<lambda>_. P)" using assms(1,2) by (auto intro: runs_keeps_weaken)
  moreover have "runs P (andThen (ask f) (\<lambda>x. andThen (act (eff x)) (\<lambda>_. give x))) E Q"
    using assms(3) by (simp add: runs_def andThen_def ask_def act_def give_def)
  ultimately show ?thesis unfolding reads_def by (rule runs_andThen)
qed

lemma settle_all:
  assumes "\<forall>p\<in>set ps. seen_stuck (dp_id (ps_row p)) (snd b) \<and>
    (st_claimedCancelled (ps_stop p) \<longrightarrow> claimed_stop (dp_id (ps_row p)) (snd b))"
  shows "keeps (remembers b T) (for_each ps (\<lambda>p. attempt (settle_stop e jobs c p)))"
proof (intro keeps_for_each keeps_attempt)
  fix p assume p: "p \<in> set ps"
  have "shown b T (dp_id (ps_row p)) (st_claimedCancelled (ps_stop p)) s" if "remembers b T s" for s
  proof -
    from that obtain es where "tk_log s = snd b @ es" by (auto simp: remembers_def)
    with that assms p show ?thesis by (auto simp: shown_def seen_stuck_mono claimed_stop_mono)
  qed
  then have "runs (remembers b T) (settle_stop e jobs c p) (remembers b T) (\<lambda>_. remembers b T)"
    by (intro runs_mono [OF runs_settle_stop [OF refl refl]]) auto
  then show "keeps (remembers b T) (settle_stop e jobs c p)" by (simp add: runs_keeps)
qed

lemma remembers_here: "remembers b T s \<Longrightarrow> remembers (fst b, tk_log s) T s"
  by (simp add: remembers_def)

lemma remembers_silent: "remembers b T (s\<lparr>wd_silent := x\<rparr>) = remembers b T s"
  by (simp add: remembers_def)

lemma keeps_change_todo [intro]:
  "keeps (remembers b T) (change (\<lambda>s. wd_silent_update (g s) s))"
  "keeps (remembers b T) (change (\<lambda>s. wd_sweeping_update (k s) s))"
  by (rule keeps_change, simp add: remembers_def)+

lemma keeps_filter_suspects: "keeps (remembers b T) (change (\<lambda>s. s\<lparr>wd_suspects := filter (P s) (wd_suspects s)\<rparr>))"
  by (rule keeps_change) (auto simp: remembers_def)

text \<open>The checks of all rows, from a history that holds the listing and the clock of the sweep.\<close>

lemma check_rows:
  assumes "0 \<le> wc_maxMinutes c" and "Clock_Read now \<in> set g" and "Running_Read rows \<in> set g"
    and "g = h1 @ Config_Read c # es" and "distinct (map dp_id rows)"
  shows "runs (remembers (h1, g) (dp_id ` set rows)) (for_each rows (check_row e c jobs now)) E (\<lambda>_. remembers (h1, g) {})"
proof -
  define I where "I rs s \<longleftrightarrow> set rs \<subseteq> set rows \<and> distinct (map dp_id rs) \<and> remembers (h1, g) (dp_id ` set rs) s"
    for rs :: "deployment list" and s
  have "runs (I rs) (for_each rs (check_row e c jobs now)) E (\<lambda>_. I [])" for rs
  proof (rule runs_for_each)
    fix r rs
    show "runs (I (r # rs)) (check_row e c jobs now r) E (\<lambda>_. I rs)"
    proof (cases "set (r # rs) \<subseteq> set rows \<and> distinct (map dp_id (r # rs))")
      case True
      have "runs (remembers (h1, g) (insert (dp_id r) (dp_id ` set rs))) (check_row e c jobs now r) E (\<lambda>_. remembers (h1, g) (dp_id ` set rs))"
        by (rule runs_check_row) (use assms True in auto)
      with True show ?thesis unfolding I_def [abs_def] by (auto elim: runs_mono)
    qed (auto simp: runs_def I_def)
  qed
  then show ?thesis by (rule runs_mono [of "I rows"]) (use assms(5) in \<open>auto simp: I_def\<close>)
qed

lemma sweepOnce_inv:
  assumes e: "sound_env e"
  shows "keeps wd_inv (sweepOnce e)"
proof -
  have "runs (\<lambda>t. t = s) (sweepOnce e) wd_inv (\<lambda>_. wd_inv)" if s: "wd_inv s" for s
  proof -
    let ?h = "tk_log s"
    have inv: "remembers b T t \<Longrightarrow> wd_inv t" for b T t by (cases b) (auto simp: wd_inv_def dest: remembers_base)
    have start: "remembers (?h, ?h) UNIV s" using s by (simp add: wd_inv_def remembers_def)
    have E: "remembers b T t \<Longrightarrow> wd_inv t" for b T t by (rule inv)
    define from_sweep where "from_sweep c t \<longleftrightarrow> 0 \<le> wc_maxMinutes c \<and> (\<exists>es. tk_log t = ?h @ Config_Read c # es) \<and>
      remembers (?h, tk_log t) UNIV t" for c t
    have act: "from_sweep c (t\<lparr>tk_log := tk_log t @ [x]\<rparr>)" if "from_sweep c t" "\<not> is_stop x" for c t x
      using that remembers_act [of "(?h, tk_log t)" UNIV t x] remembers_here [of "(?h, tk_log t)" UNIV "t\<lparr>tk_log := tk_log t @ [x]\<rparr>"]
      by (auto simp: from_sweep_def)
    have call: "keeps (from_sweep c) (wd_call e)" for c
      unfolding wd_call_def by (intro keeps_andThen keeps_option keeps_act act) auto
    have fs_inv: "from_sweep c t \<Longrightarrow> wd_inv t" for c t by (auto simp: from_sweep_def intro: inv)
    have config: "runs (\<lambda>t. t = s) (reads e (we_config e) Config_Read) wd_inv from_sweep"
    proof -
      have "from_sweep (we_config e ?h) (s\<lparr>tk_log := ?h @ [Config_Read (we_config e ?h)]\<rparr>)"
        using remembers_act [OF start, of "Config_Read (we_config e ?h)"] sound_config [OF e]
          remembers_here [of "(?h, ?h)" UNIV "s\<lparr>tk_log := ?h @ [Config_Read (we_config e ?h)]\<rparr>"]
        by (simp add: from_sweep_def)
      moreover have "wd_inv (s\<lparr>tk_log := ?h @ [Call_Threw m]\<rparr>)" for m
        using remembers_act [OF start, of "Call_Threw m"] inv by simp
      ultimately show ?thesis
        by (auto simp: runs_def reads_def wd_call_def andThen_def ask_def act_def give_def fail_with_def split: option.splits)
    qed
    have jobs: "runs (from_sweep c) (reads e (we_jobs e) Jobs_Read) wd_inv (\<lambda>_. from_sweep c)" for c
      by (rule runs_reads [OF call]) (auto intro: fs_inv act)
    have stops: "runs (from_sweep c) (andThen (look (\<lambda>s. map snd (wd_pending s))) (\<lambda>ps.
        for_each ps (\<lambda>p. attempt (settle_stop e js c p)))) wd_inv (\<lambda>_. from_sweep c)" for c js
    proof (rule runs_each)
      fix t assume t: "from_sweep c t"
      let ?b = "(?h, tk_log t)"
      have loop: "keeps (remembers ?b UNIV) (for_each (map snd (wd_pending t)) (\<lambda>p. attempt (settle_stop e js c p)))"
        by (rule settle_all) (use t in \<open>force simp: from_sweep_def remembers_def\<close>)
      have after: "from_sweep c u" if "remembers ?b UNIV u" for u
      proof -
        from that obtain es where "tk_log u = tk_log t @ es" by (auto simp: remembers_def)
        with t that remembers_here [OF that] show ?thesis by (auto simp: from_sweep_def)
      qed
      have "runs (remembers ?b UNIV) (for_each (map snd (wd_pending t)) (\<lambda>p. attempt (settle_stop e js c p))) wd_inv (\<lambda>_. from_sweep c)"
        by (rule runs_keeps_weaken [OF loop]) (auto intro: fs_inv after)
      with t show "runs (\<lambda>u. u = t) (andThen (look (\<lambda>s. map snd (wd_pending s))) (\<lambda>ps.
        for_each ps (\<lambda>p. attempt (settle_stop e js c p)))) wd_inv (\<lambda>_. from_sweep c)"
        by (auto simp: runs_def look_def andThen_def from_sweep_def)
    qed
    have locks: "runs (from_sweep c) (dropExpiredLocks e) wd_inv (\<lambda>_. from_sweep c)" for c
    proof (rule runs_each)
      fix t assume t: "from_sweep c t"
      have "from_sweep c u" if "remembers (?h, tk_log t) UNIV u" for u
      proof -
        from that obtain es where "tk_log u = tk_log t @ es" by (auto simp: remembers_def)
        with t that remembers_here [OF that] show ?thesis by (auto simp: from_sweep_def)
      qed
      then show "runs (\<lambda>u. u = t) (dropExpiredLocks e) wd_inv (\<lambda>_. from_sweep c)"
        by (intro runs_keeps_weaken [OF keeps_dropExpiredLocks [of "(?h, tk_log t)" UNIV e]]) (use t in \<open>auto simp: from_sweep_def intro: inv\<close>)
    qed
    have listing: "runs (from_sweep c) (reads e (we_running e) Running_Read) wd_inv
        (\<lambda>rows t. from_sweep c t \<and> distinct (map dp_id rows) \<and> Running_Read rows \<in> set (tk_log t))" for c
      by (rule runs_reads_answer [OF call]) (use e in \<open>auto simp: sound_env_def intro: fs_inv act\<close>)
    have clk: "runs (\<lambda>t. from_sweep c t \<and> distinct (map dp_id rows) \<and> Running_Read rows \<in> set (tk_log t)) (clock e) wd_inv
        (\<lambda>now t. from_sweep c t \<and> distinct (map dp_id rows) \<and> Running_Read rows \<in> set (tk_log t) \<and> Clock_Read now \<in> set (tk_log t))" for c rows
      unfolding clock_def by (rule runs_reads_now) (auto intro: act)
    have checks: "runs (\<lambda>t. from_sweep c t \<and> distinct (map dp_id rows) \<and> Running_Read rows \<in> set (tk_log t) \<and> Clock_Read now \<in> set (tk_log t))
        (andThen (change (\<lambda>s. s\<lparr>wd_silent := []\<rparr>)) (\<lambda>_. for_each rows (check_row e c js now))) wd_inv (\<lambda>_. wd_inv)" for c rows now js
    proof (rule runs_each)
      fix t assume t: "from_sweep c t \<and> distinct (map dp_id rows) \<and> Running_Read rows \<in> set (tk_log t) \<and> Clock_Read now \<in> set (tk_log t)"
      then obtain es where es: "tk_log t = ?h @ Config_Read c # es" by (auto simp: from_sweep_def)
      let ?u = "t\<lparr>wd_silent := []\<rparr>"
      have here: "remembers (?h, tk_log t) (dp_id ` set rows) ?u"
        using t remembers_subset [of "(?h, tk_log t)" UNIV t] by (simp add: from_sweep_def remembers_silent)
      have loop: "runs (remembers (?h, tk_log t) (dp_id ` set rows)) (for_each rows (check_row e c js now)) wd_inv (\<lambda>_. remembers (?h, tk_log t) {})"
        by (rule check_rows) (use t es in \<open>auto simp: from_sweep_def\<close>)
      have second: "runs (\<lambda>u. u = ?u) (for_each rows (check_row e c js now)) wd_inv (\<lambda>_. wd_inv)"
        by (rule runs_mono [OF loop]) (use here in \<open>auto intro: inv\<close>)
      have first: "runs (\<lambda>u. u = t) (change (\<lambda>s. s\<lparr>wd_silent := []\<rparr>)) wd_inv (\<lambda>_ u. u = ?u)"
        by (rule runs_change) simp
      show "runs (\<lambda>u. u = t) (andThen (change (\<lambda>s. s\<lparr>wd_silent := []\<rparr>)) (\<lambda>_. for_each rows (check_row e c js now))) wd_inv (\<lambda>_. wd_inv)"
        by (rule runs_andThen [OF first second])
    qed
    have rest: "runs wd_inv (andThen (change (\<lambda>s. s\<lparr>wd_suspects := filter (\<lambda>(i, t). i \<in> set (wd_silent s)) (wd_suspects s)\<rparr>)) (\<lambda>_.
        releaseHungJobs e js rows c)) wd_inv (\<lambda>_. wd_inv)" for js rows c
      unfolding wd_inv_def [abs_def] runs_keeps by (intro keeps_andThen keeps_filter_suspects keeps_releaseHungJobs)
    show ?thesis unfolding sweepOnce_def
      by (rule runs_andThen [OF config], rule runs_andThen [OF jobs], subst andThen_assoc [symmetric],
          rule runs_andThen [OF stops], rule runs_andThen [OF locks], rule runs_if, rule runs_give, erule fs_inv,
          rule runs_andThen [OF listing], rule runs_andThen [OF clk], subst andThen_assoc [symmetric],
          rule runs_andThen [OF checks], rule rest)
  qed
  then have "runs wd_inv (sweepOnce e) wd_inv (\<lambda>_. wd_inv)" by (rule runs_each)
  then show ?thesis by (simp add: runs_keeps)
qed

lemma sweep_inv: "sound_env e \<Longrightarrow> keeps wd_inv (sweep e)"
  unfolding sweep_def
  by (intro keeps_andThen keeps_look keeps_if keeps_give keeps_ensure keeps_attempt sweepOnce_inv)
    (simp_all add: wd_inv_def [abs_def] keeps_change_todo)

lemma sweeps_justified:
  assumes "sound_env e" and "reach wd_init (sweep_step e) s"
  shows "justified (tk_log s)"
proof -
  have "wd_inv s" using assms(2)
  proof (induction rule: reach.induct)
    case (reach_init s)
    then show ?case by (simp add: wd_init_def wd_inv_def remembers_def justified_def)
  next
    case (reach_step s t)
    with sweep_inv [OF assms(1)] show ?case by (simp add: sweep_step_def keeps_def)
  qed
  then show ?thesis by (simp add: wd_inv_def remembers_def)
qed

text \<open>A deploy that was started at 0 and is still running at 100000000, with the default settings.\<close>

definition stuck_row :: deployment where
  "stuck_row = sample_row\<lparr>dp_externalBuildOnly := False, dp_deployStartedAt := Some 0\<rparr>"

definition stuck_env :: wd_env where
  "stuck_env = \<lparr>we_throws = \<lambda>_. None, we_now = \<lambda>_. 100000000, we_config = \<lambda>_. resolveWatchdogConfig None,
     we_jobs = \<lambda>_. [], we_running = \<lambda>_. [stuck_row], we_status = \<lambda>_. Some Dep_Running, we_idle = \<lambda>_. None,
     we_service = \<lambda>_. Some (Some ''app'', None), we_latest = \<lambda>_. [], we_host = \<lambda>_. None, we_context = \<lambda>_. None,
     we_stop = \<lambda>_. stopped_by Stop_Pid False None, we_mark = \<lambda>_. Flipped, we_release = \<lambda>_. True,
     we_hasLock = \<lambda>_. True, we_dropLock = \<lambda>_. True, we_graceMs = STOP_RELEASE_GRACE_MS, we_wedgedMs = WEDGED_AFTER_FINISH_MS\<rparr>"

definition fresh_watchdog :: wd_state where
  "fresh_watchdog = \<lparr>tk_log = [], wd_pending = [], wd_kept = [], wd_suspects = [], wd_silent = [], wd_sweeping = False\<rparr>"

definition stuck_trigger :: trigger where
  "stuck_trigger = \<lparr>tr_kind = Wall, tr_minutes = 180, tr_observedMinutes = 1666\<rparr>"

lemma stuck_env_sound: "sound_env stuck_env"
  by (auto simp: sound_env_def stuck_env_def)

lemma stuck_reached: "reach wd_init (sweep_step stuck_env) (snd (sweep stuck_env fresh_watchdog))"
proof (rule reach_step)
  show "reach wd_init (sweep_step stuck_env) fresh_watchdog" by (rule reach_init) (simp add: wd_init_def fresh_watchdog_def)
qed (simp add: sweep_step_def)

lemma stuck_sweep_log: "\<exists>h h2. tk_log (snd (sweep stuck_env fresh_watchdog)) =
    h @ [Stopped ''d'' True (stopped_by Stop_Pid False None), Clock_Read 100000000,
      Marked_Failed ''d'' (failed_message stuck_trigger) False Flipped] @ h2"
proof -
  let ?l = "tk_log (snd (sweep stuck_env fresh_watchdog))"
  have "drop 9 ?l = [Stopped ''d'' True (stopped_by Stop_Pid False None), Clock_Read 100000000,
      Marked_Failed ''d'' (failed_message stuck_trigger) False Flipped] @ drop 12 ?l"
    by code_simp
  then show ?thesis by (metis append_take_drop_id)
qed

text \<open>
  C15. Only a seen_stuck deployment is stopped. In the history of any number of sweeps, whatever the
  database, the hosts and the queue answer and wherever a call fails, every stop of a deployment comes
  after this: it was listed as running, its service was read and is not excluded by the settings read,
  the last status read of it is running, and it was past the wall limit, or its log was seen silent for
  longer than the limit both in an earlier sweep and again in the one that decided to stop it.
\<close>

theorem only_stuck_stopped:
  assumes "sound_env e" and "reach wd_init (sweep_step e) s" and "tk_log s = h @ Stopped d l r # h2"
  shows "seen_stuck d h \<and> last_status d h = Some (Some Dep_Running)"
  using backed_byD [OF sweeps_justified [OF assms(1,2), unfolded justified_def] assms(3)] by simp

theorem only_stuck_stopped_witness:
  "\<exists>h. seen_stuck ''d'' h \<and> last_status ''d'' h = Some (Some Dep_Running) \<and>
     Running_Read [stuck_row] \<in> set (tk_log (snd (sweep stuck_env fresh_watchdog)))"
proof -
  obtain h h2 where "tk_log (snd (sweep stuck_env fresh_watchdog)) = h @ Stopped ''d'' True (stopped_by Stop_Pid False None) # h2"
    using stuck_sweep_log by auto
  moreover have "tk_log (snd (sweep stuck_env fresh_watchdog)) ! 2 = Running_Read [stuck_row]"
    "2 < length (tk_log (snd (sweep stuck_env fresh_watchdog)))" by code_simp+
  ultimately show ?thesis using only_stuck_stopped [OF stuck_env_sound stuck_reached] by (metis nth_mem)
qed

section \<open>A person's cancel stands\<close>

text \<open>
  A person's cancel stands. The watchdog closes a row as one it claimed itself only after a
  stop of that row that did claim it; otherwise, on a row that a person cancelled (and that no other
  writer closed as failed in between), its write changes nothing and answers so.
\<close>

lemma person_cancel_stands:
  assumes "sound_env e" and "reach wd_init (sweep_step e) s"
    and "tk_log s = h @ Marked_Failed d message claimed outcome # h2" and "\<not> claimed_stop d h"
    and "\<forall>r\<in>set (env 0 t). dp_id r = d \<longrightarrow> dp_status r = Some Dep_Cancelled"
    and "\<forall>r\<in>set (env 1 (env 0 t)). dp_id r = d \<longrightarrow> dp_status r \<noteq> Some Dep_Error"
  shows "markDeploymentFailedByWatchdog env now d message claimed t = (env 1 (env 0 t), Unchanged)"
proof -
  have "\<not> claimed" using backed_byD [OF sweeps_justified [OF assms(1,2), unfolded justified_def] assms(3)] assms(4) by simp
  have none: "\<not> (dp_id r = d \<and> status_in [Dep_Running] r)" if "r \<in> set (env 0 t)" for r
    using assms(5) that by (auto simp: status_in_def)
  then have "map (\<lambda>r. if dp_id r = d \<and> status_in [Dep_Running] r then f r else r) (env 0 t) = env 0 t" for f
    by (intro map_idI) auto
  with none \<open>\<not> claimed\<close> have "fail_row now d message claimed (env 0 t) = (env 0 t, False)"
    by (auto simp: fail_row_def update_where_def filter_empty_conv)
  moreover have "dp_status r \<noteq> Some Dep_Error" if "row_of d (env 1 (env 0 t)) = Some r" for r
    using that assms(6) by (auto simp: row_of_def find_Some_iff)
  ultimately show ?thesis by (simp add: markDeploymentFailedByWatchdog_def Let_def split: option.split)
qed

end
