(* ===== verification/Watchdog_Live.thy ===== *)
theory Watchdog_Live
  imports Watchdog_Props
begin

text \<open>
  What a sweep gets done, whatever fails on the way: the slot of a stopped deploy that did not end is
  freed once its grace period is over, and a kept lock is dropped when its bound is over and not before.
\<close>

section \<open>A sweep adds to the history\<close>

lemma extends_call [intro]: "keeps (extends h) (wd_call e)"
  unfolding wd_call_def by (intro keeps_andThen keeps_option extends_act keeps_ask keeps_give keeps_fail)

lemma extends_reads [intro]: "keeps (extends h) (reads e f eff)" "keeps (extends h) (reads_now f eff)"
  "keeps (extends h) (does_call e x)"
  unfolding reads_def reads_now_def does_call_def by (intro keeps_andThen extends_act extends_call keeps_ask keeps_give)+

lemma extends_calls [intro]:
  "keeps (extends h) (clock e)" "keeps (extends h) (read_status e i)" "keeps (extends h) (read_idle e r)"
  "keeps (extends h) (append_log e host r line)" "keeps (extends h) (load_context e sv)" "keeps (extends h) (hostOf e r)"
  "keeps (extends h) (audit e row cx entry)" "keeps (extends h) (fail_service e sv)"
  unfolding clock_def read_status_def read_idle_def append_log_def load_context_def hostOf_def audit_def fail_service_def
  by (intro keeps_andThen keeps_attempt extends_reads keeps_give)+

lemma extends_finish [intro]: "keeps (extends h) (wd_finish e p a b)"
  unfolding wd_finish_def Let_def
  by (intro keeps_andThen keeps_if keeps_option extends_calls extends_reads keeps_give)

lemma extends_stop [intro]: "keeps (extends h) (safeStop e r l)"
  unfolding safeStop_def by (rule keeps_rescue) (intro extends_reads keeps_andThen extends_act keeps_give)+

lemma extends_release [intro]: "keeps (extends h) (releaseSlot e j k r sv host c)"
  unfolding releaseSlot_def
  by (intro keeps_andThen keeps_if extends_calls extends_reads keeps_give extends_change) simp

lemma extends_retry [intro]: "keeps (extends h) (retryStop e p)"
  unfolding retryStop_def Let_def set_pending_def
  by (intro keeps_andThen keeps_if extends_calls extends_stop keeps_give extends_change) simp_all

lemma extends_settle_end [intro]: "keeps (extends h) (settle_end e p job c)"
  unfolding settle_end_def Let_def
  by (intro keeps_andThen keeps_ensure keeps_if keeps_option extends_finish extends_release extends_act keeps_give extends_change) simp

lemma extends_settle [intro]: "keeps (extends h) (settle_stop e jobs c p)"
  unfolding settle_stop_def Let_def
  by (intro keeps_andThen keeps_if extends_retry extends_calls extends_settle_end keeps_give)

lemma extends_locks [intro]: "keeps (extends h) (dropExpiredLocks e)"
  unfolding dropExpiredLocks_def drop_lock_def Let_def
  by (intro keeps_andThen keeps_look keeps_for_each keeps_if keeps_option keeps_attempt extends_calls extends_reads keeps_give extends_change) simp_all

lemma extends_check_row [intro]: "keeps (extends h) (check_row e c jobs now r)"
  unfolding check_row_def find_trigger_def suspect_def stopAndTrack_def confirm_def set_pending_def Let_def
  by (intro keeps_andThen keeps_look keeps_if keeps_option keeps_attempt extends_calls extends_reads extends_stop extends_finish
      keeps_give extends_change) simp_all

lemma extends_hung [intro]: "keeps (extends h) (releaseHungJobs e jobs rows c)"
  unfolding releaseHungJobs_def hung_job_def release_hung_def is_hung_def Let_def
  by (intro keeps_andThen keeps_look keeps_for_each keeps_if keeps_option keeps_attempt keeps_ensure extends_calls extends_reads
      extends_release keeps_give)

section \<open>The slot of a deploy that did not end\<close>

lemma does_reads_now: "(\<And>h. Q (f h) [eff (f h)]) \<Longrightarrow> does (reads_now f eff) E Q"
  unfolding reads_now_def by (intro does_intro) simp

definition due :: "wd_env \<Rightarrow> pending_stop \<Rightarrow> bool" where
  "due e p \<longleftrightarrow> (\<forall>h. we_graceMs e \<le> we_now e h - ps_stoppedAt p) \<and>
     \<not> (st_method (ps_stop p) = Stop_None \<and> st_retryable (ps_stop p) \<and> \<not> st_notRunning (ps_stop p))"

fun frees :: "nat \<Rightarrow> bool \<Rightarrow> wd_effect \<Rightarrow> bool" where
  "frees i k (Slot_Released j k' ok) \<longleftrightarrow> i = j \<and> k = k'"
| "frees i k _ \<longleftrightarrow> False"

lemma releaseSlot_frees: "surely (releaseSlot e j k r sv host c) (frees (jid j) k)"
  unfolding releaseSlot_def
proof (rule surely_first)
  show "surely (reads_now (we_release e) (Slot_Released (jid j) k)) (frees (jid j) k)" by (rule does_reads_now) simp
qed (intro keeps_if keeps_andThen extends_calls keeps_give extends_change, simp)

lemma settle_end_frees:
  "surely (settle_end e p (Some j) c) (frees (jid j) (st_method (ps_stop p) = Stop_None))"
  unfolding settle_end_def Let_def option.case
proof (rule surely_later)
  show "surely (andThen (if Some j \<noteq> None then act (Marked_Released (dp_id (ps_row p))) else give ()) (\<lambda>_.
      ensure (wd_finish e p (Some j \<noteq> None) (Some j \<noteq> None \<and> st_method (ps_stop p) = Stop_None))
        (releaseSlot e j (st_method (ps_stop p) = Stop_None) (Some (ps_row p)) (serviceRefOf (ps_row p)) (ps_host p) c)))
      (frees (jid j) (st_method (ps_stop p) = Stop_None))"
    by (rule surely_later) (auto intro!: surely_ensure releaseSlot_frees simp: act_def)
qed (auto intro: extends_change simp: change_def)

lemma settle_frees:
  assumes "due e p" and "ps_jobId p = Some i" and "\<exists>j\<in>set jobs. jid j = i"
  shows "surely (settle_stop e jobs c p) (frees i (st_method (ps_stop p) = Stop_None))"
proof -
  obtain j where j: "find (\<lambda>j. Some (jid j) = ps_jobId p) jobs = Some j"
    using assms(2,3) by (metis (mono_tags, lifting) find_None_iff not_None_eq)
  then have i: "jid j = i" using assms(2) by (auto simp: find_Some_iff)
  let ?keep = "st_method (ps_stop p) = Stop_None"
  have "does (andThen (clock e) (\<lambda>now. give (now - ps_stoppedAt p < we_graceMs e))) (\<lambda>_. False) (\<lambda>wait _. \<not> wait)"
    unfolding clock_def by (rule does_andThen, rule does_reads_now, rule does_give) (use assms(1) in \<open>simp add: due_def not_less\<close>)
  then have "surely (andThen (andThen (clock e) (\<lambda>now. give (now - ps_stoppedAt p < we_graceMs e)))
      (\<lambda>wait. if wait then give () else settle_end e p (Some j) c)) (frees i ?keep)"
    by (rule does_andThen [OF does_mono]) (auto intro: does_mono [OF settle_end_frees [of e p j c]] simp: i)
  then show ?thesis
    using assms(1) unfolding settle_stop_def Let_def j due_def by (subst if_not_P) (auto simp: andThen_give)
qed

lemma andThen_reads: "we_throws e (tk_log s) = None \<Longrightarrow>
    andThen (reads e f eff) g s = g (f (tk_log s)) (s\<lparr>tk_log := tk_log s @ [eff (f (tk_log s))]\<rparr>)"
  by (simp add: reads_def wd_call_def andThen_def ask_def act_def give_def)

lemma sweep_frees:
  assumes "\<not> wd_sweeping s" and "(d, p) \<in> set (wd_pending s)" and "ps_jobId p = Some i" and "due e p"
    and c: "we_throws e (tk_log s) = None" "c = we_config e (tk_log s)"
    and jobs: "we_throws e (tk_log s @ [Config_Read c]) = None" "\<exists>j\<in>set (we_jobs e (tk_log s @ [Config_Read c])). jid j = i"
  shows "\<exists>es. tk_log (snd (sweep e s)) = tk_log s @ es \<and> sees (frees i (st_method (ps_stop p) = Stop_None)) es"
proof -
  let ?P = "frees i (st_method (ps_stop p) = Stop_None)"
  define js where "js = we_jobs e (tk_log s @ [Config_Read c])"
  define rest where "rest u = andThen (dropExpiredLocks e) (\<lambda>_.
     if \<not> wc_enabled c then give ()
     else andThen (reads e (we_running e) Running_Read) (\<lambda>rows.
       andThen (clock e) (\<lambda>now.
       andThen (change (\<lambda>s. s\<lparr>wd_silent := []\<rparr>)) (\<lambda>_.
       andThen (for_each rows (check_row e c js now)) (\<lambda>_.
       andThen (change (\<lambda>s. s\<lparr>wd_suspects := filter (\<lambda>(i, t). i \<in> set (wd_silent s)) (wd_suspects s)\<rparr>)) (\<lambda>_.
       releaseHungJobs e js rows c))))))" for u :: unit
  define s1 where "s1 = s\<lparr>wd_sweeping := True, tk_log := tk_log s @ [Config_Read c, Jobs_Read js]\<rparr>"
  have once: "sweepOnce e (s\<lparr>wd_sweeping := True\<rparr>) =
      andThen (for_each (map snd (wd_pending s1)) (\<lambda>p. attempt (settle_stop e js c p))) rest s1"
    using c jobs by (simp add: sweepOnce_def rest_def [abs_def] s1_def js_def andThen_reads andThen_look split del: if_split cong: if_cong)
  have "surely (settle_stop e js c p) ?P"
    using assms(3,4) jobs(2) by (intro settle_frees) (simp_all add: js_def)
  then have "surely (for_each (map snd (wd_pending s1)) (\<lambda>p. attempt (settle_stop e js c p))) ?P"
    using assms(2) by (intro surely_for_each [of p] extends_settle) (force simp: s1_def)
  then have "surely (andThen (for_each (map snd (wd_pending s1)) (\<lambda>p. attempt (settle_stop e js c p))) rest) ?P"
    unfolding rest_def
    by (rule surely_first)
      (intro keeps_andThen keeps_if keeps_for_each keeps_give extends_locks extends_reads extends_calls extends_check_row extends_hung extends_change; simp)
  from surely_log [OF this, of s1] obtain es where
    "tk_log (snd (sweepOnce e (s\<lparr>wd_sweeping := True\<rparr>))) = tk_log s1 @ es" "sees ?P es"
    unfolding once by blast
  moreover have "tk_log (snd (sweep e s)) = tk_log (snd (sweepOnce e (s\<lparr>wd_sweeping := True\<rparr>)))"
    using assms(1) by (simp add: sweep_def andThen_def look_def change_def ensure_def attempt_def)
  ultimately show ?thesis by (simp add: s1_def)
qed

section \<open>Locks that were kept\<close>

text \<open>A kept lock: it is there and nothing was done to it since \<open>h\<close>, or it is gone and dropped.\<close>

definition still_kept :: "nat \<Rightarrow> kept_lock \<Rightarrow> wd_effect list \<Rightarrow> wd_state \<Rightarrow> bool" where
  "still_kept j k h s \<longleftrightarrow> map_of (wd_kept s) j = Some k \<and> (\<exists>es. tk_log s = h @ es \<and> (\<forall>ok. Lock_Dropped j ok \<notin> set es))"

definition now_dropped :: "nat \<Rightarrow> wd_effect list \<Rightarrow> wd_state \<Rightarrow> bool" where
  "now_dropped j h s \<longleftrightarrow> map_of (wd_kept s) j = None \<and> (\<exists>es ok. tk_log s = h @ es \<and> Lock_Dropped j ok \<in> set es)"

text \<open>What both say of an effect that drops no lock of \<open>j\<close> and of a change of the other entries.\<close>

definition about :: "nat \<Rightarrow> (wd_state \<Rightarrow> bool) \<Rightarrow> bool" where
  "about j J \<longleftrightarrow> (\<forall>s x. J s \<longrightarrow> (\<forall>ok. x \<noteq> Lock_Dropped j ok) \<longrightarrow> J (s\<lparr>tk_log := tk_log s @ [x]\<rparr>)) \<and>
     (\<forall>s i. J s \<longrightarrow> i \<noteq> j \<longrightarrow> J (s\<lparr>wd_kept := AList.delete i (wd_kept s)\<rparr>))"

lemma about_kept: "about j (still_kept j k h)" "about j (now_dropped j h)"
  unfolding about_def still_kept_def now_dropped_def by (auto simp: AList.delete_conv)

lemma about_act: "about j J \<Longrightarrow> (\<And>ok. x \<noteq> Lock_Dropped j ok) \<Longrightarrow> keeps J (act x)"
  by (rule keeps_act) (simp add: about_def)

lemma about_calls:
  assumes "about j J"
  shows "keeps J (wd_call e)" "keeps J (clock e)" "keeps J (append_log e host r line)" "keeps J (load_context e sv)"
    "keeps J (audit e row cx entry)" "keeps J (reads_now (we_hasLock e) (Lock_Read i))"
proof -
  show call: "keeps J (wd_call e)" unfolding wd_call_def by (intro keeps_andThen keeps_option keeps_ask keeps_give keeps_fail about_act [OF assms]) simp
  show "keeps J (clock e)" "keeps J (append_log e host r line)" "keeps J (load_context e sv)" "keeps J (audit e row cx entry)"
    "keeps J (reads_now (we_hasLock e) (Lock_Read i))"
    unfolding clock_def append_log_def load_context_def audit_def reads_def reads_now_def does_call_def
    by (intro keeps_andThen keeps_ask keeps_give call about_act [OF assms]; simp)+
qed

text \<open>The entry of another lock does nothing to this one.\<close>

lemma drop_other:
  assumes "about j J" and "fst entry \<noteq> j"
  shows "keeps J (drop_lock e entry)"
proof -
  have forget: "keeps J (change (\<lambda>s. s\<lparr>wd_kept := AList.delete (fst entry) (wd_kept s)\<rparr>))"
    by (rule keeps_change) (use assms in \<open>simp add: about_def\<close>)
  have dropped: "keeps J (reads_now (we_dropLock e) (Lock_Dropped (fst entry)))"
    unfolding reads_now_def by (intro keeps_andThen keeps_ask keeps_give about_act [OF assms(1)]) (use assms(2) in simp)
  show ?thesis unfolding drop_lock_def Let_def
    by (intro keeps_andThen keeps_if keeps_option keeps_attempt keeps_give about_calls [OF assms(1)] forget dropped)
qed

text \<open>The entry itself: held on before its bound, dropped from then on.\<close>

lemma keep_early:
  assumes "\<forall>h. we_hasLock e h" and "\<forall>h. we_now e h - kl_since k < kl_boundMs k"
  shows "keeps (still_kept j k h) (drop_lock e (j, k))"
  unfolding keeps_def
proof (intro allI impI)
  fix s assume "still_kept j k h s"
  then obtain es where "map_of (wd_kept s) j = Some k" "tk_log s = h @ es" "\<forall>ok. Lock_Dropped j ok \<notin> set es"
    by (auto simp: still_kept_def)
  with assms show "still_kept j k h (snd (drop_lock e (j, k) s))"
    by (simp add: drop_lock_def Let_def reads_now_def clock_def andThen_def ask_def act_def give_def still_kept_def)
qed

lemma drop_late:
  assumes "\<forall>h. we_hasLock e h" and "\<forall>h. kl_boundMs k \<le> we_now e h - kl_since k"
  shows "runs (still_kept j k h) (drop_lock e (j, k)) (now_dropped j h) (\<lambda>_. now_dropped j h)"
  unfolding runs_state
proof (intro allI impI)
  fix s assume "still_kept j k h s"
  then obtain es where es: "tk_log s = h @ es" by (auto simp: still_kept_def)
  let ?now = "we_now e (h @ es @ [Lock_Read j True])"
  let ?s = "s\<lparr>wd_kept := AList.delete j (wd_kept s), tk_log := h @ es @ [Lock_Read j True, Clock_Read ?now]\<rparr>"
  have nb: "\<not> we_now e x - kl_since k < kl_boundMs k" for x using assms(2) by (simp add: not_less)
  define n where "n dropped = (if \<not> dropped then give () else
      let heldMinutes = (?now - kl_since k) div MINUTE_MS in
        attempt (andThen (case kl_row k of None \<Rightarrow> give ()
            | Some r \<Rightarrow> append_log e (kl_host k) r (''Watchdog: the old process had not ended '' @ show_int heldMinutes @
                '' min after its queue slot was released, so the lock on this service was dropped; new deploys of it can start now (the old process may still be running)''))
          (\<lambda>_. andThen (load_context e (kl_service k)) (\<lambda>context. case context of
            None \<Rightarrow> give () | Some cx \<Rightarrow> audit e (kl_row k) cx (Audit_Lock_Dropped j heldMinutes)))))" for dropped
  have n: "keeps (now_dropped j h) (n dropped)" for dropped
    unfolding n_def Let_def
    by (intro keeps_if keeps_andThen keeps_option keeps_attempt keeps_give about_calls [OF about_kept(2)])
  have "drop_lock e (j, k) s = andThen (reads_now (we_dropLock e) (Lock_Dropped j)) n ?s"
    using assms(1) nb es [symmetric]
    by (simp add: drop_lock_def Let_def n_def [abs_def] reads_now_def clock_def andThen_def ask_def act_def give_def change_def es)
  moreover have "now_dropped j h (snd (reads_now (we_dropLock e) (Lock_Dropped j) ?s))"
    by (auto simp: reads_now_def andThen_def ask_def act_def give_def now_dropped_def AList.delete_conv)
  ultimately show "now_dropped j h (snd (drop_lock e (j, k) s))"
    using n by (auto simp: andThen_def keeps_def reads_now_def ask_def act_def give_def)
qed

section \<open>The claims\<close>

definition hung_stop :: pending_stop where
  "hung_stop = \<lparr>ps_row = stuck_row, ps_trigger = stuck_trigger, ps_stop = stopped_by Stop_Pid False None,
     ps_host = None, ps_jobId = Some 7, ps_stoppedAt = 0\<rparr>"

definition job_7 :: internal_job where
  "job_7 = \<lparr>jid = 7, journalId = ''x'', jdata = \<lparr>jobType = Deploy, applicationType = App, applicationId = Some ''app'',
       composeId = None, previewDeploymentId = None, titleLog = ''t'', descriptionLog = [], job_server = None, serverId = Some ''s'',
       freshVolumes = None, pinnedImage = None, buildOrigin = None, buildRunUrl = None,
       deploymentId = None, priority = None, priorityBy = None\<rparr>,
     timestamp = 0, processedOn = Some 0, finishedOn = None, failedReason = None, jstate = Active, partition_key = ''s'',
     group = ''g'', jumped = False, wentAheadOf = 0, released = False, groupLockKept = False\<rparr>"

text \<open>A sweep in which every call after the list of jobs fails.\<close>

definition broken_env :: wd_env where
  "broken_env = stuck_env\<lparr>we_throws := \<lambda>h. if length h < 2 then None else Some ''down'', we_jobs := \<lambda>_. [job_7]\<rparr>"

definition waiting_watchdog :: wd_state where
  "waiting_watchdog = fresh_watchdog\<lparr>wd_pending := [(''d'', hung_stop)]\<rparr>"

text \<open>
  C16. A hung slot is freed. When the deploy of a job was stopped, the job is still there and its
  grace period is over, the next sweep frees its slot, also when the row cannot be closed, a log line
  cannot be written, or any other read or write after the list of jobs fails. The lock of the service
  is kept exactly when nothing could be signalled.
\<close>

theorem hung_slot_freed:
  assumes "\<not> wd_sweeping s" and "(d, p) \<in> set (wd_pending s)" and "ps_jobId p = Some i"
    and "\<forall>h. we_graceMs e \<le> we_now e h - ps_stoppedAt p"
    and "\<not> (st_method (ps_stop p) = Stop_None \<and> st_retryable (ps_stop p) \<and> \<not> st_notRunning (ps_stop p))"
    and "we_throws e (tk_log s) = None" and "we_throws e (tk_log s @ [Config_Read (we_config e (tk_log s))]) = None"
    and "\<exists>j\<in>set (we_jobs e (tk_log s @ [Config_Read (we_config e (tk_log s))])). jid j = i"
  shows "\<exists>es ok. tk_log (snd (sweep e s)) = tk_log s @ es \<and>
    Slot_Released i (st_method (ps_stop p) = Stop_None) ok \<in> set es"
proof -
  obtain es x where es: "tk_log (snd (sweep e s)) = tk_log s @ es" "x \<in> set es" "frees i (st_method (ps_stop p) = Stop_None) x"
    using sweep_frees [OF assms(1-3) _ assms(6) refl assms(7,8)] assms(4,5) by (auto simp: due_def sees_def)
  from es(3) obtain ok where "x = Slot_Released i (st_method (ps_stop p) = Stop_None) ok" by (cases x) auto
  with es show ?thesis by blast
qed

theorem hung_slot_freed_witness:
  "\<exists>es ok. tk_log (snd (sweep broken_env waiting_watchdog)) = es \<and> Slot_Released 7 False ok \<in> set es"
  using hung_slot_freed [of waiting_watchdog "''d''" hung_stop 7 broken_env]
  by (simp add: waiting_watchdog_def fresh_watchdog_def hung_stop_def broken_env_def stuck_env_def stopped_by_def
      STOP_RELEASE_GRACE_MS_def MINUTE_MS_def job_7_def)

text \<open>
  A lock that a release kept is dropped when its bound is over and not before. While the lock
  is held, the check of the kept locks leaves it alone as long as its bound is not over; once it is, the
  check drops it and forgets it, whatever fails on the way.
\<close>

lemma kept_lock_dropped_when_due:
  assumes "distinct (map fst (wd_kept s))" and "(j, k) \<in> set (wd_kept s)" and "\<forall>h. we_hasLock e h"
  shows "((\<forall>h. we_now e h - kl_since k < kl_boundMs k) \<longrightarrow> still_kept j k (tk_log s) (snd (dropExpiredLocks e s))) \<and>
    ((\<forall>h. kl_boundMs k \<le> we_now e h - kl_since k) \<longrightarrow> now_dropped j (tk_log s) (snd (dropExpiredLocks e s)))"
proof -
  let ?h = "tk_log s"
  obtain xs ys where xs: "wd_kept s = xs @ (j, k) # ys" using assms(2) by (meson split_list)
  have others: "fst x \<noteq> j" if "x \<in> set xs \<union> set ys" for x using assms(1) that by (auto simp: xs)
  have start: "still_kept j k ?h s" using assms(1,2) by (simp add: still_kept_def)
  have dropped: "snd (dropExpiredLocks e s) = snd (for_each (xs @ (j, k) # ys) (drop_lock e) s)"
    by (simp add: dropExpiredLocks_def andThen_look xs)
  have rest: "keeps J (for_each zs (drop_lock e))" if "about j J" "set zs \<subseteq> set xs \<union> set ys" for zs J
    using that others by (intro keeps_for_each drop_other) auto
  have early: "keeps (still_kept j k ?h) (for_each (xs @ (j, k) # ys) (drop_lock e))" if "\<forall>h. we_now e h - kl_since k < kl_boundMs k"
    by (rule keeps_for_each) (use others about_kept(1) keep_early [OF assms(3) that] drop_other in fastforce)
  have late: "runs (still_kept j k ?h) (for_each (xs @ (j, k) # ys) (drop_lock e)) (now_dropped j ?h) (\<lambda>_. now_dropped j ?h)"
    if "\<forall>h. kl_boundMs k \<le> we_now e h - kl_since k"
  proof -
    have last: "runs (still_kept j k ?h) (for_each ((j, k) # ys) (drop_lock e)) (now_dropped j ?h) (\<lambda>_. now_dropped j ?h)"
      unfolding for_each.simps
      by (rule runs_andThen [OF drop_late [OF assms(3) that]], subst runs_keeps, rule rest [OF about_kept(2)]) simp
    have never: "fst (drop_lock e x u) \<noteq> Inl m" for x u m
      by (simp add: drop_lock_def Let_def andThen_def reads_now_def clock_def ask_def act_def give_def change_def attempt_def)
    have first: "runs (still_kept j k ?h) (drop_lock e x) (now_dropped j ?h) (\<lambda>_. still_kept j k ?h)" if "fst x \<noteq> j" for x
    proof (rule runsI)
      fix u m t assume "drop_lock e x u = (Inl m, t)"
      with never [of x u m] show "now_dropped j ?h t" by simp
    next
      fix u r t assume "still_kept j k ?h u" "drop_lock e x u = (Inr r, t)"
      with drop_other [OF about_kept(1) that] show "still_kept j k ?h t" by (metis keeps_def snd_conv)
    qed
    have "runs (still_kept j k ?h) (for_each (zs @ (j, k) # ys) (drop_lock e)) (now_dropped j ?h) (\<lambda>_. now_dropped j ?h)"
      if "\<forall>z\<in>set zs. fst z \<noteq> j" for zs
      using that
    proof (induction zs)
      case (Cons z zs)
      show ?case unfolding append_Cons for_each.simps by (rule runs_andThen [OF first]) (use Cons in auto)
    qed (simp only: append_Nil last)
    then show ?thesis using others by blast
  qed
  show ?thesis unfolding dropped using early late start by (auto simp: keeps_def runs_state)
qed

definition held_lock :: kept_lock where
  "held_lock = \<lparr>kl_row = Some stuck_row, kl_service = serviceRefOf stuck_row, kl_host = None, kl_since = 0,
     kl_boundMs = GROUP_LOCK_MIN_BOUND_MINUTES * MINUTE_MS\<rparr>"

end
