(* ===== verification/Github_Run.thy ===== *)
theory Github_Run
  imports Deployment_Row Effect_Log
begin

text \<open>
  The follow-up of the GitHub run behind a registered deployment row: what its jobs say
  (\<open>services/github-run-progress.ts\<close>) and the poller that writes it to the row and its log
  (\<open>services/github-run-poller.ts\<close>). GitHub, the hosts, the database and the clock answer through an
  environment. The character \<open>U+203A\<close> of the step lines is written as the three bytes of its encoding;
  the other separator, \<open>U+00B7\<close>, is one character.
\<close>

section \<open>What the jobs of a run say\<close>

definition GITHUB_LOG_PREFIX :: string where
  "GITHUB_LOG_PREFIX = ''[GitHub Actions]''"

record job_step =
  gt_name :: string
  gt_number :: "int option"
  gt_status :: string
  gt_conclusion :: "string option"
  gt_started :: "int option"
  gt_completed :: "int option"

record run_job =
  gj_name :: string
  gj_status :: string
  gj_conclusion :: "string option"
  gj_steps :: "job_step list"

datatype run_conclusion = Con_Success | Con_Failure | Con_Cancelled | Con_Skipped

definition isNoiseStep :: "string \<Rightarrow> bool" where
  "isNoiseStep n \<longleftrightarrow> n = ''Set up job'' \<or> n = ''Complete job'' \<or> prefix ''Post '' n"

definition FAILED_CONCLUSIONS :: "string list" where
  "FAILED_CONCLUSIONS = [''failure'', ''timed_out'', ''startup_failure'', ''action_required'']"

text \<open>Times are milliseconds; a text that is no time is \<open>None\<close>. \<open>Math.round\<close> rounds half up.\<close>

definition secondsBetween :: "int option \<Rightarrow> int option \<Rightarrow> int option" where
  "secondsBetween a b = (case (a, b) of
       (Some s, Some e) \<Rightarrow> if e < s then None else Some ((e - s + 500) div 1000)
     | _ \<Rightarrow> None)"

definition pad2 :: "int \<Rightarrow> string" where
  "pad2 n = (let d = show_int n in replicate (2 - length d) (CHR ''0'') @ d)"

definition formatRunDuration :: "int \<Rightarrow> string" where
  "formatRunDuration seconds =
     (if seconds < 60 then show_int seconds @ ''s''
      else let minutes = seconds div 60 in
        if minutes < 60 then show_int minutes @ ''m'' @ pad2 (seconds mod 60) @ ''s''
        else show_int (minutes div 60) @ ''h'' @ pad2 (minutes mod 60) @ ''m'')"

definition stepLabelPrefix :: "string \<Rightarrow> string \<Rightarrow> string" where
  "stepLabelPrefix job st = GITHUB_LOG_PREFIX @ '' '' @ job @ '' '' @ [CHR 0xE2, CHR 0x80, CHR 0xBA] @ '' '' @ st"

definition relevantSteps :: "run_job \<Rightarrow> job_step list" where
  "relevantSteps j = sort_key (\<lambda>t. case gt_number t of None \<Rightarrow> 0 | Some n \<Rightarrow> n)
     (filter (\<lambda>t. \<not> isNoiseStep (gt_name t)) (gj_steps j))"

definition stepLines :: "run_job \<Rightarrow> job_step \<Rightarrow> string list" where
  "stepLines j t =
     (if gt_status t \<noteq> ''in_progress'' \<and> gt_status t \<noteq> ''completed'' then []
      else if gt_conclusion t = Some ''skipped'' then []
      else let base = stepLabelPrefix (gj_name j) (gt_name t); started = base @ '' started'' in
        if gt_status t \<noteq> ''completed'' then [started]
        else let duration = map_option formatRunDuration (secondsBetween (gt_started t) (gt_completed t)) in
          case gt_conclusion t of
            Some c \<Rightarrow> if c = ''success''
              then [started, base @ (case duration of None \<Rightarrow> '' completed'' | Some d \<Rightarrow> '' completed in '' @ d)]
              else let word = (if c \<in> set FAILED_CONCLUSIONS then ''failed'' else ''cancelled'') in
                [started, base @ '' '' @ word @ (case duration of None \<Rightarrow> [] | Some d \<Rightarrow> '' after '' @ d)]
          | None \<Rightarrow> [started, base @ (case duration of None \<Rightarrow> '' completed'' | Some d \<Rightarrow> '' completed in '' @ d)])"

definition runConclusionOf :: "run_job list \<Rightarrow> run_conclusion" where
  "runConclusionOf jobs =
     (if \<exists>j\<in>set jobs. (case gj_conclusion j of None \<Rightarrow> [] | Some c \<Rightarrow> c) \<in> set FAILED_CONCLUSIONS then Con_Failure
      else if \<exists>j\<in>set jobs. gj_conclusion j = Some ''cancelled'' then Con_Cancelled
      else if jobs \<noteq> [] \<and> (\<forall>j\<in>set jobs. gj_conclusion j = Some ''skipped'') then Con_Skipped
      else Con_Success)"

text \<open>\<open>lastIndexOf\<close> of a list, at least 0.\<close>

definition last_done :: "job_step list \<Rightarrow> nat" where
  "last_done ts = (case find_index (\<lambda>t. gt_status t = ''completed'') (rev ts) of
       None \<Rightarrow> 0 | Some i \<Rightarrow> length ts - 1 - i)"

definition middle_dot :: string where
  "middle_dot = '' '' @ [CHR 0xB7] @ '' ''"

definition currentStepLabel :: "run_job list \<Rightarrow> string option" where
  "currentStepLabel jobs =
     (case find (\<lambda>j. gj_status j = ''in_progress'') jobs of
        Some j \<Rightarrow>
          (let ts = relevantSteps j in
           if ts = [] then Some (gj_name j @ middle_dot @ ''starting'')
           else let at = (case find_index (\<lambda>t. gt_status t = ''in_progress'') ts of Some i \<Rightarrow> i | None \<Rightarrow> last_done ts) in
             if at < length ts
             then Some (gj_name j @ middle_dot @ gt_name (ts ! at) @ '' ('' @ show_nat (at + 1) @ ''/'' @ show_nat (length ts) @ '')'')
             else None)
      | None \<Rightarrow> map_option (\<lambda>j. gj_name j @ middle_dot @ ''waiting to start'')
          (find (\<lambda>j. gj_status j = ''queued'' \<or> gj_status j = ''waiting'') jobs))"

text \<open>The lines that are not in the log yet, each once.\<close>

fun new_lines :: "string list \<Rightarrow> string list \<Rightarrow> string list" where
  "new_lines seen [] = []"
| "new_lines seen (l # ls) = (if l \<in> set seen then new_lines seen ls else l # new_lines (l # seen) ls)"

definition run_lines :: "run_job list \<Rightarrow> string list" where
  "run_lines jobs = concat (map (\<lambda>j. concat (map (stepLines j) (relevantSteps j))) jobs)"

record run_progress =
  rp_status :: run_status
  rp_conclusion :: "run_conclusion option"
  rp_step :: "string option"
  rp_newLines :: "string list"

definition mapRunJobs :: "run_job list \<Rightarrow> string list \<Rightarrow> run_progress" where
  "mapRunJobs jobs already =
     (let finished = (jobs \<noteq> [] \<and> (\<forall>j\<in>set jobs. gj_status j = ''completed''));
          started = (\<exists>j\<in>set jobs. gj_status j = ''in_progress'' \<or> gj_status j = ''completed'')
      in \<lparr>rp_status = (if finished then Run_Completed else if started then Run_In_Progress else Run_Queued),
          rp_conclusion = (if finished then Some (runConclusionOf jobs) else None),
          rp_step = (if finished then None else currentStepLabel jobs),
          rp_newLines = new_lines already (run_lines jobs)\<rparr>)"

text \<open>\<open>split(/\r?\n/)\<close>, then the trimmed lines that are not empty.\<close>

definition without_cr :: "string \<Rightarrow> string" where
  "without_cr l = (if l \<noteq> [] \<and> last l = CHR 13 then butlast l else l)"

definition loggedLinesOf :: "string \<Rightarrow> string list" where
  "loggedLinesOf t = filter (\<lambda>l. l \<noteq> []) (map (\<lambda>l. trim (without_cr l)) (split_on (CHR 10) t))"

definition externalBuildOutcome :: "run_conclusion \<Rightarrow> string option \<Rightarrow> string option \<Rightarrow> deployment_status \<times> string" where
  "externalBuildOutcome c runId message =
     (let number = (if truthy runId then '' #'' @ the runId else []);
          verb = (if c = Con_Failure then ''failed'' else if c = Con_Cancelled then ''was cancelled'' else ''was skipped'');
          detail = (case message of None \<Rightarrow> [] | Some m \<Rightarrow> if trim m = [] then [] else '' '' @ take 1000 (trim m))
      in if c = Con_Skipped
         then (Dep_Cancelled, if detail \<noteq> [] then ''Build skipped ('' @ trim detail @ '')'' else ''Build skipped'')
         else (if c = Con_Failure then Dep_Error else Dep_Cancelled,
           ''GitHub Actions run'' @ number @ '' '' @ verb @ ''.'' @ detail @ '' The run has the details.''))"

end
