(* ===== verification/Github_Poller.thy ===== *)
theory Github_Poller
  imports Github_Run
begin

text \<open>
  The poller of registered deployment rows, \<open>services/github-run-poller.ts\<close>: one pass over the live
  rows, what it remembers of each between passes, and the listing of \<open>github-run-poller-deps.ts\<close>. The
  effects name what was asked for and what was answered; a call that throws is its own effect. The
  remembered state of a row is one object in the source: here it is passed on and written back.
\<close>

section \<open>Limits\<close>

definition POLL_INTERVAL_MS :: int where "POLL_INTERVAL_MS = 15000"
definition UNAUTHENTICATED_POLL_INTERVAL_MS :: int where "UNAUTHENTICATED_POLL_INTERVAL_MS = 60000"
definition UNREADABLE_POLL_INTERVAL_MS :: int where "UNREADABLE_POLL_INTERVAL_MS = 5 * 60000"
definition MAX_BACKOFF_MS :: int where "MAX_BACKOFF_MS = 15 * 60000"
definition MAX_LIVE_ROW_AGE_MS :: int where "MAX_LIVE_ROW_AGE_MS = 6 * 60 * 60000"
definition DEPLOY_TAKEOVER_GRACE_MS :: int where "DEPLOY_TAKEOVER_GRACE_MS = 10 * 60000"
definition MAX_READS_PER_PASS :: nat where "MAX_READS_PER_PASS = 25"
definition DEPLOY_QUEUED_BACKSTOP_MS :: int where "DEPLOY_QUEUED_BACKSTOP_MS = 24 * 60 * 60000"

definition RUN_UNREADABLE_LINE :: string where
  "RUN_UNREADABLE_LINE = GITHUB_LOG_PREFIX @ '' Dokploy cannot read this run, so the steps are not shown here. Connect GitHub in Settings to see them, or open the run.''"

definition GITHUB_RUN_STEP_UNREADABLE :: string where
  "GITHUB_RUN_STEP_UNREADABLE = ''steps not readable''"

section \<open>Reads, memory and effects\<close>

text \<open>The rows the poller follows, as \<open>listLiveRows\<close> reads them.\<close>

definition live_row :: "deployment \<Rightarrow> bool" where
  "live_row r \<longleftrightarrow> dp_status r = Some Dep_Running \<and> dp_buildOrigin r = Some Origin_Github_Actions \<and>
     dp_externalBuildOnly r \<and> truthy (dp_buildRunId r) \<and> truthy (dp_buildRepository r)"

definition listLiveRows :: "table \<Rightarrow> table" where
  "listLiveRows t = sort_key (\<lambda>r. case dp_createdAt r of None \<Rightarrow> 0 | Some c \<Rightarrow> c) (filter live_row t)"

record run_read =
  rr_jobs :: "run_job list"
  rr_run :: "(string option \<times> string option) option"
  rr_authenticated :: bool
  rr_remaining :: "int option"
  rr_resetAt :: "int option"

datatype fetch_result = Fetch_Ok run_read | Fetch_Unreadable | Fetch_Backoff int

record row_state =
  gs_nextPollAt :: int
  gs_logged :: "string list option"
  gs_lastStatus :: "run_status option"
  gs_lastStep :: "string option"
  gs_finishedAt :: "int option"
  gs_lastReadAt :: int

datatype line_kind = Step_Lines | Unreadable_Line | Finished_Line | End_Lines

datatype gp_effect =
    Gp_Threw string
  | Gp_Listed "deployment list"
  | Gp_Clock int
  | Fetch_Asked string
  | Fetch_Answered string fetch_result
  | Log_Text string string
  | Lines_Appended line_kind string "string list"
  | Progress_Set string run_status "string option" bool
  | Finish_Marked string bool
  | End_Asked string deployment_status string bool
  | End_Answered string bool

record gp_env =
  ge_throws :: "gp_effect list \<Rightarrow> string option"
  ge_now :: "gp_effect list \<Rightarrow> int"
  ge_rows :: "gp_effect list \<Rightarrow> deployment list"
  ge_fetch :: "gp_effect list \<Rightarrow> fetch_result"
  ge_log :: "gp_effect list \<Rightarrow> string \<Rightarrow> string"
  ge_progress :: "gp_effect list \<Rightarrow> bool"
  ge_marked :: "gp_effect list \<Rightarrow> bool"
  ge_ended :: "gp_effect list \<Rightarrow> bool"

record gp_state = "gp_effect effect_state" +
  gp_states :: "(string \<times> row_state) list"
  gp_reads :: nat
  gp_running :: bool

type_synonym 'a gp = "gp_state \<Rightarrow> (string + 'a) \<times> gp_state"

definition gp_call :: "gp_env \<Rightarrow> unit gp" where
  "gp_call e = andThen (ask (ge_throws e)) (\<lambda>t. case t of None \<Rightarrow> give ()
     | Some message \<Rightarrow> andThen (act (Gp_Threw message)) (\<lambda>_. fail_with message))"

definition gp_reads_from :: "gp_env \<Rightarrow> (gp_effect list \<Rightarrow> 'a) \<Rightarrow> ('a \<Rightarrow> gp_effect) \<Rightarrow> 'a gp" where
  "gp_reads_from e answer eff = andThen (gp_call e) (\<lambda>_. andThen (ask answer) (\<lambda>x. andThen (act (eff x)) (\<lambda>_. give x)))"

section \<open>The state of a row\<close>

definition fresh_state :: "deployment \<Rightarrow> row_state" where
  "fresh_state r = \<lparr>gs_nextPollAt = 0, gs_logged = None, gs_lastStatus = dp_buildRunStatus r,
     gs_lastStep = dp_buildRunStep r, gs_finishedAt = None, gs_lastReadAt = 0\<rparr>"

definition stateOf :: "deployment \<Rightarrow> row_state gp" where
  "stateOf r = andThen (look (\<lambda>s. map_of (gp_states s) (dp_id r))) (\<lambda>known. case known of
       Some st \<Rightarrow> give st
     | None \<Rightarrow> andThen (change (\<lambda>s. s\<lparr>gp_states := (dp_id r, fresh_state r) # gp_states s\<rparr>)) (\<lambda>_. give (fresh_state r)))"

text \<open>Writing to the object of a row: seen by the table as long as it holds the object.\<close>

definition keep_state :: "string \<Rightarrow> row_state \<Rightarrow> unit gp" where
  "keep_state d st = change (\<lambda>s. s\<lparr>gp_states := AList.map_entry d (\<lambda>_. st) (gp_states s)\<rparr>)"

definition forget_row :: "string \<Rightarrow> unit gp" where
  "forget_row d = change (\<lambda>s. s\<lparr>gp_states := AList.delete d (gp_states s)\<rparr>)"

definition loggedLines :: "gp_env \<Rightarrow> deployment \<Rightarrow> row_state \<Rightarrow> (string list \<times> row_state) gp" where
  "loggedLines e r st = (case gs_logged st of
       Some ls \<Rightarrow> give (ls, st)
     | None \<Rightarrow> andThen (gp_reads_from e (\<lambda>h. ge_log e h (dp_id r)) (Log_Text (dp_id r))) (\<lambda>t.
         let ls = loggedLinesOf t; st = st\<lparr>gs_logged := Some ls\<rparr> in
         andThen (keep_state (dp_id r) st) (\<lambda>_. give (ls, st))))"

text \<open>
  An append that throws wrote nothing here. (A real append that fails half way may have written some of the lines;
  the next pass may then write them again.)
\<close>

definition writeLines :: "gp_env \<Rightarrow> line_kind \<Rightarrow> deployment \<Rightarrow> row_state \<Rightarrow> string list \<Rightarrow> row_state gp" where
  "writeLines e k r st new =
     (if new = [] then give st
      else andThen (andThen (gp_call e) (\<lambda>_. act (Lines_Appended k (dp_id r) new))) (\<lambda>_.
        andThen (loggedLines e r st) (\<lambda>(ls, st).
        let st = st\<lparr>gs_logged := Some (ls @ new)\<rparr> in
        andThen (keep_state (dp_id r) st) (\<lambda>_. give st))))"

definition set_progress :: "gp_env \<Rightarrow> string \<Rightarrow> run_status \<Rightarrow> string option \<Rightarrow> bool gp" where
  "set_progress e d st step = gp_reads_from e (ge_progress e) (Progress_Set d st step)"

definition openRunLine :: "deployment \<Rightarrow> string list" where
  "openRunLine r = (if truthy (dp_buildRunUrl r) then [GITHUB_LOG_PREFIX @ '' Open the run: '' @ the (dp_buildRunUrl r)] else [])"

definition run_id :: "deployment \<Rightarrow> string" where
  "run_id r = (case dp_buildRunId r of None \<Rightarrow> [] | Some i \<Rightarrow> i)"

text \<open>The request is an effect of its own: a call that throws was made.\<close>

definition endBecause :: "gp_env \<Rightarrow> deployment \<Rightarrow> row_state \<Rightarrow> deployment_status \<Rightarrow> string \<Rightarrow> bool \<Rightarrow> string list \<Rightarrow> unit gp" where
  "endBecause e r st status message deployQueued new =
     andThen (act (End_Asked (dp_id r) status message deployQueued)) (\<lambda>_.
     andThen (gp_reads_from e (ge_ended e) (End_Answered (dp_id r))) (\<lambda>ended.
     andThen (forget_row (dp_id r)) (\<lambda>_.
     if ended then andThen (writeLines e End_Lines r st new) (\<lambda>_. give ()) else give ())))"

definition conclusionOfRun :: "(string option \<times> string option) option \<Rightarrow> run_conclusion \<Rightarrow> run_conclusion" where
  "conclusionOfRun run fromJobs = (case Option.bind run snd of
       None \<Rightarrow> fromJobs
     | Some c \<Rightarrow>
         if c = ''success'' then Con_Success
         else if c \<in> set FAILED_CONCLUSIONS then Con_Failure
         else if c = ''cancelled'' then Con_Cancelled
         else if c = ''skipped'' \<or> c = ''neutral''
           then (if fromJobs = Con_Failure \<or> fromJobs = Con_Cancelled then fromJobs else Con_Skipped)
         else fromJobs)"

section \<open>One row\<close>

definition row_started :: "deployment \<Rightarrow> int \<Rightarrow> int" where
  "row_started r now = (case nullish (dp_startedAt r) (dp_createdAt r) of None \<Rightarrow> now | Some t \<Rightarrow> t)"

definition end_with :: "gp_env \<Rightarrow> deployment \<Rightarrow> row_state \<Rightarrow> string \<Rightarrow> bool \<Rightarrow> unit gp" where
  "end_with e r st message deployQueued =
     endBecause e r st Dep_Error message deployQueued ((GITHUB_LOG_PREFIX @ '' '' @ message) # openRunLine r)"

definition never_started :: "deployment \<Rightarrow> string" where
  "never_started r = ''GitHub Actions run #'' @ run_id r @ '': the deploy that was queued for this deployment never started within 24 hours.''"

definition not_taken_over :: "deployment \<Rightarrow> string" where
  "not_taken_over r = ''GitHub Actions run #'' @ run_id r @ '' finished without deploying: no deploy took over this deployment within 6 hours.''"

definition not_deployed :: "deployment \<Rightarrow> string" where
  "not_deployed r = ''GitHub Actions run #'' @ run_id r @ '' finished without deploying to Dokploy. Open the run for details.''"

definition unreadable_row :: "gp_env \<Rightarrow> deployment \<Rightarrow> row_state \<Rightarrow> unit gp" where
  "unreadable_row e r st =
     andThen (loggedLines e r st) (\<lambda>(ls, st).
     andThen (if RUN_UNREADABLE_LINE \<in> set ls then give st else writeLines e Unreadable_Line r st [RUN_UNREADABLE_LINE]) (\<lambda>st.
     if gs_lastStep st \<noteq> None then give ()
     else andThen (set_progress e (dp_id r) Run_In_Progress (Some GITHUB_RUN_STEP_UNREADABLE)) (\<lambda>still.
       if \<not> still then forget_row (dp_id r)
       else keep_state (dp_id r) (st\<lparr>gs_lastStatus := Some Run_In_Progress, gs_lastStep := Some GITHUB_RUN_STEP_UNREADABLE\<rparr>))))"

definition next_poll :: "int \<Rightarrow> run_read \<Rightarrow> int" where
  "next_poll now x =
     (let at = now + (if rr_authenticated x then POLL_INTERVAL_MS else UNAUTHENTICATED_POLL_INTERVAL_MS)
      in case (rr_remaining x, rr_resetAt x) of
           (Some n, Some reset) \<Rightarrow> if n < 5 then max at (min reset (now + MAX_BACKOFF_MS)) else at
         | _ \<Rightarrow> at)"

definition run_is_over :: "run_progress \<Rightarrow> run_read \<Rightarrow> bool" where
  "run_is_over p x \<longleftrightarrow> rp_status p = Run_Completed \<and> (case rr_run x of None \<Rightarrow> True | Some (s, c) \<Rightarrow> s = Some ''completed'')"

definition going_row :: "gp_env \<Rightarrow> deployment \<Rightarrow> row_state \<Rightarrow> run_progress \<Rightarrow> unit gp" where
  "going_row e r st p =
     (let status = (if rp_status p = Run_Completed then Run_In_Progress else rp_status p) in
      if Some status = gs_lastStatus st \<and> rp_step p = gs_lastStep st then give ()
      else andThen (set_progress e (dp_id r) (if status = Run_Queued then Run_Queued else Run_In_Progress) (rp_step p)) (\<lambda>still.
        if \<not> still then forget_row (dp_id r)
        else keep_state (dp_id r) (st\<lparr>gs_lastStatus := Some status, gs_lastStep := rp_step p\<rparr>)))"

text \<open>\<open>errorMessage.replace(" The run has the details.", "")\<close>: the first occurrence.\<close>

fun drop_first :: "string \<Rightarrow> string \<Rightarrow> string" where
  "drop_first p [] = []"
| "drop_first p (c # s) = (if prefix p (c # s) then drop (length p) (c # s) else c # drop_first p s)"

definition over_row :: "gp_env \<Rightarrow> deployment \<Rightarrow> row_state \<Rightarrow> int \<Rightarrow> run_conclusion \<Rightarrow> unit gp" where
  "over_row e r st now c =
     (if c \<noteq> Con_Success
      then (let (status, message) = externalBuildOutcome c (dp_buildRunId r) None in
        endBecause e r st status message False
          ((GITHUB_LOG_PREFIX @ '' '' @ drop_first '' The run has the details.'' message) # openRunLine r))
      else andThen (gp_reads_from e (ge_marked e) (Finish_Marked (dp_id r))) (\<lambda>marked.
        if \<not> marked then forget_row (dp_id r)
        else let st = st\<lparr>gs_finishedAt := Some now\<rparr> in
          andThen (keep_state (dp_id r) st) (\<lambda>_.
          andThen (writeLines e Finished_Line r st
            [GITHUB_LOG_PREFIX @ '' Run #'' @ run_id r @ '' finished. Waiting for the workflow's deploy to take it over.''])
            (\<lambda>_. give ()))))"

definition read_row :: "gp_env \<Rightarrow> deployment \<Rightarrow> row_state \<Rightarrow> int \<Rightarrow> run_read \<Rightarrow> unit gp" where
  "read_row e r st now x =
     (let st = st\<lparr>gs_nextPollAt := next_poll now x\<rparr> in
      andThen (keep_state (dp_id r) st) (\<lambda>_.
      andThen (loggedLines e r st) (\<lambda>(ls, st).
      let p = mapRunJobs (rr_jobs x) ls in
      andThen (writeLines e Step_Lines r st (rp_newLines p)) (\<lambda>st.
      if \<not> run_is_over p x then going_row e r st p
      else over_row e r st now (conclusionOfRun (rr_run x) (case rp_conclusion p of None \<Rightarrow> Con_Success | Some c \<Rightarrow> c))))))"

definition fetch_row :: "gp_env \<Rightarrow> deployment \<Rightarrow> row_state \<Rightarrow> int \<Rightarrow> unit gp" where
  "fetch_row e r st now =
     (let st = st\<lparr>gs_lastReadAt := now\<rparr>; d = dp_id r in
      andThen (change (\<lambda>s. s\<lparr>gp_reads := gp_reads s - 1\<rparr>)) (\<lambda>_.
      andThen (keep_state d st) (\<lambda>_.
      andThen (act (Fetch_Asked d)) (\<lambda>_.
      andThen (gp_reads_from e (ge_fetch e) (Fetch_Answered d)) (\<lambda>x. case x of
        Fetch_Backoff ms \<Rightarrow> keep_state d (st\<lparr>gs_nextPollAt := now + min ms MAX_BACKOFF_MS\<rparr>)
      | Fetch_Unreadable \<Rightarrow>
          (let st = st\<lparr>gs_nextPollAt := now + UNREADABLE_POLL_INTERVAL_MS\<rparr> in
           andThen (keep_state d st) (\<lambda>_. unreadable_row e r st))
      | Fetch_Ok y \<Rightarrow> read_row e r st now y)))))"

definition pollRow :: "gp_env \<Rightarrow> int \<Rightarrow> deployment \<Rightarrow> unit gp" where
  "pollRow e now r =
     andThen (stateOf r) (\<lambda>st.
     case dp_deployQueuedAt r of
       Some queued \<Rightarrow>
         if now - queued \<le> DEPLOY_QUEUED_BACKSTOP_MS then give ()
         else end_with e r st (never_started r) True
     | None \<Rightarrow>
         if now - row_started r now > MAX_LIVE_ROW_AGE_MS then end_with e r st (not_taken_over r) False
         else if dp_buildRunStatus r = Some Run_Completed \<or> gs_finishedAt st \<noteq> None
         then (let finished = (case gs_finishedAt st of None \<Rightarrow> now | Some t \<Rightarrow> t); st = st\<lparr>gs_finishedAt := Some finished\<rparr> in
           andThen (keep_state (dp_id r) st) (\<lambda>_.
           if now - finished < DEPLOY_TAKEOVER_GRACE_MS then give ()
           else end_with e r st (not_deployed r) False))
         else if now < gs_nextPollAt st then give ()
         else andThen (look gp_reads) (\<lambda>left. if left = 0 then give () else fetch_row e r st now))"

section \<open>One pass\<close>

definition last_read :: "gp_state \<Rightarrow> deployment \<Rightarrow> int" where
  "last_read s r = (case map_of (gp_states s) (dp_id r) of None \<Rightarrow> 0 | Some st \<Rightarrow> gs_lastReadAt st)"

definition poll_pass :: "gp_env \<Rightarrow> unit gp" where
  "poll_pass e =
     andThen (gp_reads_from e (ge_rows e) Gp_Listed) (\<lambda>rows.
     andThen (change (\<lambda>s. s\<lparr>gp_states := filter (\<lambda>(d, st). d \<in> dp_id ` set rows) (gp_states s)\<rparr>)) (\<lambda>_.
     andThen (ask (ge_now e)) (\<lambda>now.
     andThen (act (Gp_Clock now)) (\<lambda>_.
     andThen (change (\<lambda>s. s\<lparr>gp_reads := MAX_READS_PER_PASS\<rparr>)) (\<lambda>_.
     andThen (look (\<lambda>s. sort_key (last_read s) rows)) (\<lambda>ordered.
     for_each ordered (\<lambda>r. attempt (pollRow e now r))))))))"

definition poll :: "gp_env \<Rightarrow> unit gp" where
  "poll e = andThen (look gp_running) (\<lambda>busy.
     if busy then give ()
     else andThen (change (\<lambda>s. s\<lparr>gp_running := True\<rparr>)) (\<lambda>_.
       ensure (attempt (poll_pass e)) (change (\<lambda>s. s\<lparr>gp_running := False\<rparr>))))"

end
