(* ===== verification/Github_Poller_Steps.thy ===== *)
theory Github_Poller_Steps
  imports Github_Poller
begin

text \<open>
  What each part of a pass adds to the history and keeps of the memory. A request to end a row is backed
  by the listing and the clock of its pass and by its age, its queued deploy, or what GitHub said; a
  batch of step lines holds each line once and none that was appended before.
\<close>

section \<open>The lines of a run\<close>

lemma new_lines_fresh: "distinct (new_lines seen ls) \<and> set (new_lines seen ls) = set ls - set seen"
  by (induction seen ls rule: new_lines.induct) auto

lemma new_lines_done: "set ls \<subseteq> set seen \<Longrightarrow> new_lines seen ls = []"
  by (induction seen ls rule: new_lines.induct) auto

section \<open>Evidence\<close>

definition run_says :: "run_read \<Rightarrow> run_conclusion \<Rightarrow> bool" where
  "run_says x c \<longleftrightarrow> rr_jobs x \<noteq> [] \<and> (\<forall>j\<in>set (rr_jobs x). gj_status j = ''completed'') \<and>
     (\<forall>st k. rr_run x = Some (st, k) \<longrightarrow> st = Some ''completed'') \<and>
     conclusionOfRun (rr_run x) (runConclusionOf (rr_jobs x)) = c"

text \<open>A row was seen finished at a time: by its stored state or by what GitHub said of its run.\<close>

definition finish_seen :: "string \<Rightarrow> int \<Rightarrow> gp_effect list \<Rightarrow> bool" where
  "finish_seen d t h \<longleftrightarrow> Gp_Clock t \<in> set h \<and>
     ((\<exists>rows r. Gp_Listed rows \<in> set h \<and> r \<in> set rows \<and> dp_id r = d \<and> dp_buildRunStatus r = Some Run_Completed) \<or>
      (\<exists>x. Fetch_Answered d (Fetch_Ok x) \<in> set h \<and> run_says x Con_Success))"

definition may_end :: "deployment \<Rightarrow> int \<Rightarrow> deployment_status \<Rightarrow> string \<Rightarrow> bool \<Rightarrow> gp_effect list \<Rightarrow> bool" where
  "may_end r now status message q h \<longleftrightarrow> (case dp_deployQueuedAt r of
       Some queued \<Rightarrow> q \<and> status = Dep_Error \<and> DEPLOY_QUEUED_BACKSTOP_MS < now - queued
     | None \<Rightarrow> \<not> q \<and>
        (status = Dep_Error \<and> MAX_LIVE_ROW_AGE_MS < now - row_started r now \<or>
         status = Dep_Error \<and> (\<exists>t. finish_seen (dp_id r) t h \<and> DEPLOY_TAKEOVER_GRACE_MS \<le> now - t) \<or>
         (\<exists>x c. Fetch_Answered (dp_id r) (Fetch_Ok x) \<in> set h \<and> run_says x c \<and> c \<noteq> Con_Success \<and>
            (status, message) = externalBuildOutcome c (dp_buildRunId r) None)))"

text \<open>The lines that a log read back must hold: those that are lines of their own.\<close>

definition own_line :: "string \<Rightarrow> bool" where
  "own_line l \<longleftrightarrow> l \<noteq> [] \<and> trim l = l \<and> CHR 10 \<notin> set l"

definition was_appended :: "string \<Rightarrow> string \<Rightarrow> gp_effect list \<Rightarrow> bool" where
  "was_appended d l h \<longleftrightarrow> (\<exists>k ls. Lines_Appended k d ls \<in> set h \<and> l \<in> set ls)"

text \<open>The log that is read back holds what was appended to it.\<close>

definition log_kept :: "gp_env \<Rightarrow> bool" where
  "log_kept e \<longleftrightarrow> (\<forall>h d l. was_appended d l h \<longrightarrow> own_line l \<longrightarrow> l \<in> set (loggedLinesOf (ge_log e h d)))"

fun gp_backed :: "bool \<Rightarrow> gp_effect \<Rightarrow> gp_effect list \<Rightarrow> bool" where
  "gp_backed K (End_Asked d status message q) h \<longleftrightarrow> (\<exists>rows now r. Gp_Listed rows \<in> set h \<and> Gp_Clock now \<in> set h \<and>
     r \<in> set rows \<and> dp_id r = d \<and> may_end r now status message q h)"
| "gp_backed K (Lines_Appended k d ls) h \<longleftrightarrow> k = Step_Lines \<longrightarrow>
     distinct ls \<and> (K \<longrightarrow> (\<forall>l\<in>set ls. own_line l \<longrightarrow> \<not> was_appended d l h))"
| "gp_backed K _ h \<longleftrightarrow> True"

fun neutral :: "gp_effect \<Rightarrow> bool" where
  "neutral (End_Asked d status message q) = False"
| "neutral (Lines_Appended k d ls) = False"
| "neutral _ = True"

lemma neutral_backed: "neutral x \<Longrightarrow> gp_backed K x h"
  by (cases x) auto

lemma was_appended_neutral: "neutral x \<Longrightarrow> was_appended d l (h @ [x]) \<longleftrightarrow> was_appended d l h"
  by (cases x) (auto simp: was_appended_def)

lemma was_appended_lines: "was_appended d l (h @ [Lines_Appended k i ls]) \<longleftrightarrow> was_appended d l h \<or> i = d \<and> l \<in> set ls"
  by (auto simp: was_appended_def)

lemma was_appended_end: "was_appended d l (h @ [End_Asked i st m q]) \<longleftrightarrow> was_appended d l h"
  by (auto simp: was_appended_def)

section \<open>The invariant\<close>

text \<open>
  The memory of a row is fine: it was finished when it was seen so, and the lines known to be in the log
  hold the lines appended (under \<open>K\<close>: the log read back holds them too).
\<close>

definition fine :: "bool \<Rightarrow> string \<Rightarrow> row_state \<Rightarrow> gp_effect list \<Rightarrow> bool" where
  "fine K d st h \<longleftrightarrow> (\<forall>t. gs_finishedAt st = Some t \<longrightarrow> finish_seen d t h) \<and>
     (K \<longrightarrow> (\<forall>ls l. gs_logged st = Some ls \<longrightarrow> was_appended d l h \<longrightarrow> own_line l \<longrightarrow> l \<in> set ls))"

definition gp_inv :: "bool \<Rightarrow> gp_state \<Rightarrow> bool" where
  "gp_inv K s \<longleftrightarrow> backed_by (gp_backed K) (tk_log s) \<and>
     (\<forall>d st. map_of (gp_states s) d = Some st \<longrightarrow> fine K d st (tk_log s))"

lemma finish_seen_mono: "finish_seen d t h \<Longrightarrow> finish_seen d t (h @ es)"
  unfolding finish_seen_def by auto

lemma fine_neutral: "fine K d st h \<Longrightarrow> neutral x \<Longrightarrow> fine K d st (h @ [x])"
  by (simp add: fine_def was_appended_neutral finish_seen_mono)

lemma fine_end: "fine K d st h \<Longrightarrow> fine K d st (h @ [End_Asked i s m q])"
  by (simp add: fine_def was_appended_end finish_seen_mono)

lemma fine_lines: "fine K d st h \<Longrightarrow> d \<noteq> i \<Longrightarrow> fine K d st (h @ [Lines_Appended k i ls])"
  by (simp add: fine_def was_appended_lines finish_seen_mono)

text \<open>In a pass, with its listing and its clock; and at a row of it, whose memory is passed on.\<close>

definition in_pass :: "bool \<Rightarrow> deployment list \<Rightarrow> int \<Rightarrow> gp_state \<Rightarrow> bool" where
  "in_pass K rows now s \<longleftrightarrow> gp_inv K s \<and> Gp_Listed rows \<in> set (tk_log s) \<and> Gp_Clock now \<in> set (tk_log s)"

definition at_row :: "bool \<Rightarrow> deployment list \<Rightarrow> int \<Rightarrow> string \<Rightarrow> row_state \<Rightarrow> gp_state \<Rightarrow> bool" where
  "at_row K rows now d st s \<longleftrightarrow> in_pass K rows now s \<and> fine K d st (tk_log s) \<and>
     (\<forall>st'. map_of (gp_states s) d = Some st' \<longrightarrow> st' = st)"

lemma at_row_in_pass: "at_row K rows now d st s \<Longrightarrow> in_pass K rows now s"
  by (simp add: at_row_def)

lemma gp_inv_neutral: "gp_inv K s \<Longrightarrow> neutral x \<Longrightarrow> gp_inv K (s\<lparr>tk_log := tk_log s @ [x]\<rparr>)"
  by (simp add: gp_inv_def backed_by_snoc neutral_backed fine_neutral)

lemma in_pass_neutral: "in_pass K rows now s \<Longrightarrow> neutral x \<Longrightarrow> in_pass K rows now (s\<lparr>tk_log := tk_log s @ [x]\<rparr>)"
  by (simp add: in_pass_def gp_inv_neutral)

lemma at_row_neutral: "at_row K rows now d st s \<Longrightarrow> neutral x \<Longrightarrow> at_row K rows now d st (s\<lparr>tk_log := tk_log s @ [x]\<rparr>)"
  by (simp add: at_row_def in_pass_neutral fine_neutral)

lemma keeps_in_pass_call [intro]: "keeps (in_pass K rows now) (gp_call e)"
  unfolding gp_call_def by (intro keeps_andThen keeps_option keeps_ask keeps_give keeps_fail keeps_act in_pass_neutral) auto

lemma keeps_at_row_call [intro]: "keeps (at_row K rows now d st) (gp_call e)"
  unfolding gp_call_def by (intro keeps_andThen keeps_option keeps_ask keeps_give keeps_fail keeps_act at_row_neutral) auto

text \<open>A call that answers: what its answer says becomes part of the history.\<close>

lemma runs_at_row_read:
  assumes "\<And>x. neutral (eff x)"
  shows "runs (at_row K rows now d st) (gp_reads_from e f eff) (in_pass K rows now)
    (\<lambda>x s. at_row K rows now d st s \<and> eff x \<in> set (tk_log s) \<and> (\<exists>h. x = f h \<and> (\<forall>l. was_appended d l (tk_log s) \<longrightarrow> was_appended d l h)))"
proof -
  have call: "runs (at_row K rows now d st) (gp_call e) (in_pass K rows now) (\<lambda>_. at_row K rows now d st)"
    by (rule runs_keeps_weaken [OF keeps_at_row_call]) (auto intro: at_row_in_pass)
  have rest: "runs (at_row K rows now d st) (andThen (ask f) (\<lambda>x. andThen (act (eff x)) (\<lambda>_. give x))) (in_pass K rows now)
    (\<lambda>x s. at_row K rows now d st s \<and> eff x \<in> set (tk_log s) \<and> (\<exists>h. x = f h \<and> (\<forall>l. was_appended d l (tk_log s) \<longrightarrow> was_appended d l h)))"
    unfolding runs_def
  proof (intro allI impI)
    fix s assume s: "at_row K rows now d st s"
    let ?x = "f (tk_log s)"
    have "\<exists>h. ?x = f h \<and> (\<forall>l. was_appended d l (tk_log s @ [eff ?x]) \<longrightarrow> was_appended d l h)"
      using was_appended_neutral [OF assms] by blast
    with at_row_neutral [OF s assms [of ?x]]
    show "case andThen (ask f) (\<lambda>x. andThen (act (eff x)) (\<lambda>_. give x)) s of (Inl message, t) \<Rightarrow> in_pass K rows now t
        | (Inr x, t) \<Rightarrow> at_row K rows now d st t \<and> eff x \<in> set (tk_log t) \<and>
            (\<exists>h. x = f h \<and> (\<forall>l. was_appended d l (tk_log t) \<longrightarrow> was_appended d l h))"
      by (simp add: andThen_def ask_def act_def give_def)
  qed
  show ?thesis unfolding gp_reads_from_def by (rule runs_andThen [OF call rest])
qed

lemma at_row_keep:
  assumes "at_row K rows now d st s" and "fine K d st' (tk_log s)"
  shows "at_row K rows now d st' (s\<lparr>gp_states := AList.map_entry d (\<lambda>_. st') (gp_states s)\<rparr>)"
  using assms unfolding at_row_def in_pass_def gp_inv_def
  by (auto simp: AList.map_of_map_entry split: option.splits if_splits)

lemma runs_keep_state:
  assumes "\<And>s. at_row K rows now d st s \<Longrightarrow> fine K d st' (tk_log s)"
  shows "runs (at_row K rows now d st) (keep_state d st') E (\<lambda>_. at_row K rows now d st')"
  unfolding keep_state_def by (rule runs_change) (blast intro: at_row_keep assms)

lemma runs_forget:
  "runs (at_row K rows now d st) (forget_row d) E (\<lambda>_. at_row K rows now d st)"
  unfolding forget_row_def
  by (rule runs_change) (auto simp: at_row_def in_pass_def gp_inv_def AList.delete_conv split: if_splits)

lemma at_row_fine: "at_row K rows now d st s \<Longrightarrow> fine K d st (tk_log s)"
  by (simp add: at_row_def)

text \<open>A change of the memory that keeps what \<open>fine\<close> speaks about.\<close>

lemma fine_same: "fine K d st h \<Longrightarrow> gs_logged st' = gs_logged st \<Longrightarrow> gs_finishedAt st' = gs_finishedAt st \<Longrightarrow> fine K d st' h"
  by (simp add: fine_def)

section \<open>The log of a row\<close>

lemma runs_keep_state_to:
  assumes "\<And>s. P s \<Longrightarrow> at_row K rows now d st s \<and> fine K d st' (tk_log s)"
  shows "runs P (keep_state d st') E (\<lambda>_. at_row K rows now d st')"
  unfolding keep_state_def by (rule runs_change) (blast dest: assms intro: at_row_keep)

lemma runs_logged:
  assumes "d = dp_id r" and "K \<longrightarrow> log_kept e"
  shows "runs (at_row K rows now d st) (loggedLines e r st) (in_pass K rows now)
    (\<lambda>(ls, st') s. at_row K rows now d st' s \<and> st' = st\<lparr>gs_logged := Some ls\<rparr>)"
proof (cases "gs_logged st")
  case (Some ls)
  then show ?thesis by (simp add: loggedLines_def runs_give)
next
  case None
  let ?st = "\<lambda>t. st\<lparr>gs_logged := Some (loggedLinesOf t)\<rparr>"
  have keep: "runs (\<lambda>s. at_row K rows now d st s \<and> Log_Text d t \<in> set (tk_log s) \<and>
        (\<exists>h. t = ge_log e h d \<and> (\<forall>l. was_appended d l (tk_log s) \<longrightarrow> was_appended d l h)))
      (keep_state d (?st t)) (in_pass K rows now) (\<lambda>_. at_row K rows now d (?st t))" for t
  proof (rule runs_keep_state_to)
    fix s assume s: "at_row K rows now d st s \<and> Log_Text d t \<in> set (tk_log s) \<and>
        (\<exists>h. t = ge_log e h d \<and> (\<forall>l. was_appended d l (tk_log s) \<longrightarrow> was_appended d l h))"
    then have "K \<longrightarrow> was_appended d l (tk_log s) \<longrightarrow> own_line l \<longrightarrow> l \<in> set (loggedLinesOf t)" for l
      using assms(2) by (auto simp: log_kept_def)
    with s show "at_row K rows now d st s \<and> fine K d (?st t) (tk_log s)" by (auto simp: at_row_def fine_def)
  qed
  have rest: "runs (at_row K rows now d (?st t)) (give (loggedLinesOf t, ?st t)) (in_pass K rows now)
      (\<lambda>(ls, st') s. at_row K rows now d st' s \<and> st' = st\<lparr>gs_logged := Some ls\<rparr>)" for t
    by (rule runs_give) simp
  show ?thesis unfolding loggedLines_def None option.case Let_def assms(1) [symmetric]
    by (rule runs_andThen [OF runs_at_row_read], simp, rule runs_andThen [OF keep rest])
qed

text \<open>Between the append and the note of it, the memory lacks the new lines only.\<close>

definition appended_now :: "bool \<Rightarrow> deployment list \<Rightarrow> int \<Rightarrow> string \<Rightarrow> row_state \<Rightarrow> string list \<Rightarrow> gp_state \<Rightarrow> bool" where
  "appended_now K rows now d st new s \<longleftrightarrow> backed_by (gp_backed K) (tk_log s) \<and>
     Gp_Listed rows \<in> set (tk_log s) \<and> Gp_Clock now \<in> set (tk_log s) \<and>
     (\<forall>i st'. map_of (gp_states s) i = Some st' \<longrightarrow> (if i = d then st' = st else fine K i st' (tk_log s))) \<and>
     (\<forall>t. gs_finishedAt st = Some t \<longrightarrow> finish_seen d t (tk_log s)) \<and>
     (K \<longrightarrow> (\<forall>ls l. gs_logged st = Some ls \<longrightarrow> was_appended d l (tk_log s) \<longrightarrow> own_line l \<longrightarrow> l \<in> set ls \<union> set new))"

lemma appended_now_act:
  assumes "at_row K rows now d st s"
    and "k = Step_Lines \<longrightarrow> distinct new \<and> (K \<longrightarrow> (\<forall>l\<in>set new. own_line l \<longrightarrow> \<not> was_appended d l (tk_log s)))"
  shows "appended_now K rows now d st new (s\<lparr>tk_log := tk_log s @ [Lines_Appended k d new]\<rparr>)"
proof -
  have "backed_by (gp_backed K) (tk_log s @ [Lines_Appended k d new])"
    using assms by (simp add: backed_by_snoc at_row_def in_pass_def gp_inv_def)
  moreover have "fine K i st' (tk_log s @ [Lines_Appended k d new])" if "map_of (gp_states s) i = Some st'" "i \<noteq> d" for i st'
    using assms(1) that by (auto simp: at_row_def in_pass_def gp_inv_def intro: fine_lines)
  ultimately show ?thesis using assms(1)
    by (auto simp: appended_now_def at_row_def in_pass_def fine_def finish_seen_mono was_appended_lines)
qed

lemma appended_now_note:
  assumes "appended_now K rows now d st new s" and "gs_logged st = Some ls"
  shows "at_row K rows now d (st\<lparr>gs_logged := Some (ls @ new)\<rparr>)
    (s\<lparr>gp_states := AList.map_entry d (\<lambda>_. st\<lparr>gs_logged := Some (ls @ new)\<rparr>) (gp_states s)\<rparr>)"
proof -
  have "fine K d (st\<lparr>gs_logged := Some (ls @ new)\<rparr>) (tk_log s)" using assms by (auto simp: appended_now_def fine_def)
  with assms(1) show ?thesis
    by (auto simp: appended_now_def at_row_def in_pass_def gp_inv_def AList.map_of_map_entry split: option.splits if_splits)
qed

lemma appended_now_unread: "appended_now K rows now d st new s \<Longrightarrow> gs_logged st = None \<Longrightarrow> at_row K rows now d st s"
proof -
  assume s: "appended_now K rows now d st new s" and none: "gs_logged st = None"
  then have here: "fine K d st (tk_log s)" by (simp add: appended_now_def fine_def)
  have "fine K i st' (tk_log s)" if "map_of (gp_states s) i = Some st'" for i st'
    using s here that by (cases "i = d") (auto simp: appended_now_def)
  with s here show ?thesis by (auto simp: appended_now_def at_row_def in_pass_def gp_inv_def)
qed

lemma runs_write:
  assumes "d = dp_id r" and "K \<longrightarrow> log_kept e"
  shows "runs (\<lambda>s. at_row K rows now d st s \<and>
      (k = Step_Lines \<longrightarrow> distinct new \<and> (K \<longrightarrow> (\<forall>l\<in>set new. own_line l \<longrightarrow> \<not> was_appended d l (tk_log s)))))
    (writeLines e k r st new) (in_pass K rows now)
    (\<lambda>st' s. at_row K rows now d st' s \<and> (\<exists>x. st' = st\<lparr>gs_logged := x\<rparr>))"
proof (cases "new = []")
  case True
  have "\<exists>x. st = st\<lparr>gs_logged := x\<rparr>" by (rule exI [of _ "gs_logged st"]) simp
  with True show ?thesis by (simp add: writeLines_def runs_give)
next
  case False
  let ?P = "\<lambda>s. at_row K rows now d st s \<and>
      (k = Step_Lines \<longrightarrow> distinct new \<and> (K \<longrightarrow> (\<forall>l\<in>set new. own_line l \<longrightarrow> \<not> was_appended d l (tk_log s))))"
  let ?M = "appended_now K rows now d st new"
  let ?Q = "\<lambda>st' s. at_row K rows now d st' s \<and> (\<exists>x. st' = st\<lparr>gs_logged := x\<rparr>)"
  have "keeps ?P (gp_call e)" unfolding gp_call_def
    by (intro keeps_andThen keeps_option keeps_ask keeps_give keeps_fail keeps_act)
      (simp add: at_row_neutral was_appended_neutral)
  then have call: "runs ?P (gp_call e) (in_pass K rows now) (\<lambda>_. ?P)"
    by (rule runs_keeps_weaken) (auto intro: at_row_in_pass)
  have lines: "runs ?P (act (Lines_Appended k d new)) (in_pass K rows now) (\<lambda>_. ?M)"
    by (rule runs_act) (blast intro: appended_now_act)
  have note_it: "runs (\<lambda>s. ?M s \<and> gs_logged st = Some ls \<or> at_row K rows now d st' s \<and> st' = st\<lparr>gs_logged := Some ls\<rparr>)
      (andThen (keep_state d (st\<lparr>gs_logged := Some (ls @ new)\<rparr>)) (\<lambda>_. give (st\<lparr>gs_logged := Some (ls @ new)\<rparr>))) (in_pass K rows now) ?Q"
    for ls st'
  proof (rule runs_andThen [where R = "\<lambda>_. at_row K rows now d (st\<lparr>gs_logged := Some (ls @ new)\<rparr>)"])
    show "runs (\<lambda>s. ?M s \<and> gs_logged st = Some ls \<or> at_row K rows now d st' s \<and> st' = st\<lparr>gs_logged := Some ls\<rparr>)
      (keep_state d (st\<lparr>gs_logged := Some (ls @ new)\<rparr>)) (in_pass K rows now) (\<lambda>_. at_row K rows now d (st\<lparr>gs_logged := Some (ls @ new)\<rparr>))"
      unfolding keep_state_def
    proof (rule runs_change)
      fix s assume "?M s \<and> gs_logged st = Some ls \<or> at_row K rows now d st' s \<and> st' = st\<lparr>gs_logged := Some ls\<rparr>"
      then show "at_row K rows now d (st\<lparr>gs_logged := Some (ls @ new)\<rparr>)
          (s\<lparr>gp_states := AList.map_entry d (\<lambda>_. st\<lparr>gs_logged := Some (ls @ new)\<rparr>) (gp_states s)\<rparr>)"
      proof
        assume "?M s \<and> gs_logged st = Some ls"
        then show ?thesis by (blast intro: appended_now_note)
      next
        assume *: "at_row K rows now d st' s \<and> st' = st\<lparr>gs_logged := Some ls\<rparr>"
        then have "fine K d (st\<lparr>gs_logged := Some (ls @ new)\<rparr>) (tk_log s)" by (auto simp: at_row_def fine_def)
        with * show ?thesis by (blast intro: at_row_keep)
      qed
    qed
  qed (rule runs_give, blast)
  have found: "runs ?M (loggedLines e r st) (in_pass K rows now)
      (\<lambda>(ls, st') s. st' = st\<lparr>gs_logged := Some ls\<rparr> \<and> (?M s \<and> gs_logged st = Some ls \<or> at_row K rows now d st' s \<and> st' = st\<lparr>gs_logged := Some ls\<rparr>))"
  proof (cases "gs_logged st")
    case (Some ls)
    then have "st = st\<lparr>gs_logged := Some ls\<rparr>" by simp
    with Some show ?thesis by (auto simp: loggedLines_def intro: runs_give)
  next
    case None
    show ?thesis
      by (rule runs_mono [OF runs_logged [OF assms]]) (auto intro: appended_now_unread simp: None)
  qed
  have rest: "runs ?M (andThen (loggedLines e r st) (\<lambda>(ls, st). andThen (keep_state d (st\<lparr>gs_logged := Some (ls @ new)\<rparr>))
      (\<lambda>_. give (st\<lparr>gs_logged := Some (ls @ new)\<rparr>)))) (in_pass K rows now) ?Q"
  proof (rule runs_andThen [OF found])
    fix x :: "string list \<times> row_state"
    obtain ls st' where x: "x = (ls, st')" by fastforce
    show "runs ((\<lambda>(ls, st') s. st' = st\<lparr>gs_logged := Some ls\<rparr> \<and> (?M s \<and> gs_logged st = Some ls \<or> at_row K rows now d st' s \<and> st' = st\<lparr>gs_logged := Some ls\<rparr>)) x)
      (case x of (ls, st) \<Rightarrow> andThen (keep_state d (st\<lparr>gs_logged := Some (ls @ new)\<rparr>))
        (\<lambda>_. give (st\<lparr>gs_logged := Some (ls @ new)\<rparr>))) (in_pass K rows now) ?Q"
    proof (cases "st' = st\<lparr>gs_logged := Some ls\<rparr>")
      case True
      have eq: "st'\<lparr>gs_logged := Some (ls @ new)\<rparr> = st\<lparr>gs_logged := Some (ls @ new)\<rparr>" by (simp add: True)
      show ?thesis unfolding x prod.case eq by (rule runs_mono [OF note_it]) auto
    qed (simp add: x runs_def)
  qed
  show ?thesis using False unfolding writeLines_def Let_def assms(1) [symmetric]
    by (simp add: runs_andThen [OF runs_andThen [OF call lines] rest])
qed

section \<open>The end of a row\<close>

lemma runs_end:
  assumes "d = dp_id r" and "K \<longrightarrow> log_kept e" and "r \<in> set rows"
  shows "runs (\<lambda>s. at_row K rows now d st s \<and> may_end r now status message q (tk_log s))
    (endBecause e r st status message q new) (in_pass K rows now) (\<lambda>_. in_pass K rows now)"
proof -
  have asked: "runs (\<lambda>s. at_row K rows now d st s \<and> may_end r now status message q (tk_log s))
      (act (End_Asked d status message q)) (in_pass K rows now) (\<lambda>_. at_row K rows now d st)"
  proof (rule runs_act)
    fix s assume s: "at_row K rows now d st s \<and> may_end r now status message q (tk_log s)"
    with assms(1,3) have "gp_backed K (End_Asked d status message q) (tk_log s)"
      by (auto simp: at_row_def in_pass_def)
    with s show "at_row K rows now d st (s\<lparr>tk_log := tk_log s @ [End_Asked d status message q]\<rparr>)"
      by (auto simp: at_row_def in_pass_def gp_inv_def backed_by_snoc fine_end)
  qed
  have answered: "runs (at_row K rows now d st) (gp_reads_from e (ge_ended e) (End_Answered d)) (in_pass K rows now)
      (\<lambda>_. at_row K rows now d st)"
    by (rule runs_mono [OF runs_at_row_read]) auto
  have new: "runs (at_row K rows now d st) (andThen (writeLines e End_Lines r st new) (\<lambda>_. give ())) (in_pass K rows now)
      (\<lambda>_. in_pass K rows now)"
  proof (rule runs_andThen [where R = "\<lambda>st' s. at_row K rows now d st' s"])
    show "runs (at_row K rows now d st) (writeLines e End_Lines r st new) (in_pass K rows now) (\<lambda>st' s. at_row K rows now d st' s)"
      by (rule runs_mono [OF runs_write [OF assms(1,2)]]) auto
  qed (rule runs_give, erule at_row_in_pass)
  show ?thesis unfolding endBecause_def assms(1) [symmetric]
    by (rule runs_andThen [OF asked], rule runs_andThen [OF answered], rule runs_andThen [OF runs_forget],
        rule runs_if, rule new, rule runs_give, erule at_row_in_pass)
qed

section \<open>One row\<close>

lemma runs_progress:
  "runs (at_row K rows now d st) (set_progress e d status step) (in_pass K rows now) (\<lambda>_. at_row K rows now d st)"
  unfolding set_progress_def by (rule runs_mono [OF runs_at_row_read]) auto

text \<open>What is left of a pass over a row ends within the pass, whatever it did.\<close>

lemma runs_done: "runs P m E (\<lambda>_. at_row K rows now d st) \<Longrightarrow> runs P m E (\<lambda>_. in_pass K rows now)"
  by (erule runs_mono) (auto intro: at_row_in_pass)

lemma runs_keep_same:
  assumes "gs_logged st' = gs_logged st" and "gs_finishedAt st' = gs_finishedAt st"
  shows "runs (at_row K rows now d st) (keep_state d st') E (\<lambda>_. at_row K rows now d st')"
  by (rule runs_keep_state) (use assms in \<open>blast intro: fine_same at_row_fine\<close>)

lemma runs_going:
  assumes "d = dp_id r"
  shows "runs (at_row K rows now d st) (going_row e r st p) (in_pass K rows now) (\<lambda>_. in_pass K rows now)"
  unfolding going_row_def Let_def assms [symmetric]
  by (intro runs_if runs_give, erule at_row_in_pass, rule runs_andThen [OF runs_progress], rule runs_if,
      rule runs_done [OF runs_forget], rule runs_done [OF runs_keep_same]) simp_all

lemma runs_unreadable:
  assumes "d = dp_id r" and "K \<longrightarrow> log_kept e"
  shows "runs (at_row K rows now d st) (unreadable_row e r st) (in_pass K rows now) (\<lambda>_. in_pass K rows now)"
proof -
  have rest: "runs (at_row K rows now d st') (if gs_lastStep st' \<noteq> None then give ()
     else andThen (set_progress e d Run_In_Progress step) (\<lambda>still.
       if \<not> still then forget_row d
       else keep_state d (st'\<lparr>gs_lastStatus := Some Run_In_Progress, gs_lastStep := step\<rparr>))) (in_pass K rows now) (\<lambda>_. in_pass K rows now)"
    for st' step
    by (intro runs_if runs_give, erule at_row_in_pass, rule runs_andThen [OF runs_progress], rule runs_if,
        rule runs_done [OF runs_forget], rule runs_done [OF runs_keep_same]) simp_all
  have line: "runs (at_row K rows now d st') (if b then give st' else writeLines e Unreadable_Line r st' new)
      (in_pass K rows now) (\<lambda>st s. at_row K rows now d st s)" for b st' new
    by (rule runs_if, rule runs_give, assumption, rule runs_mono [OF runs_write [OF assms]]) auto
  show ?thesis unfolding unreadable_row_def assms(1) [symmetric]
  proof (rule runs_andThen [OF runs_logged [OF assms]])
    fix x :: "string list \<times> row_state"
    obtain ls st' where x: "x = (ls, st')" by fastforce
    have "runs (at_row K rows now d st') (case x of (ls, st) \<Rightarrow>
        andThen (if RUN_UNREADABLE_LINE \<in> set ls then give st else writeLines e Unreadable_Line r st [RUN_UNREADABLE_LINE]) (\<lambda>st.
         if gs_lastStep st \<noteq> None then give ()
         else andThen (set_progress e d Run_In_Progress (Some GITHUB_RUN_STEP_UNREADABLE)) (\<lambda>still.
           if \<not> still then forget_row d
           else keep_state d (st\<lparr>gs_lastStatus := Some Run_In_Progress, gs_lastStep := Some GITHUB_RUN_STEP_UNREADABLE\<rparr>))))
        (in_pass K rows now) (\<lambda>_. in_pass K rows now)"
      unfolding x prod.case by (rule runs_andThen [OF line]) (rule rest)
    then show "runs ((\<lambda>(ls, st') s. at_row K rows now d st' s \<and> st' = st\<lparr>gs_logged := Some ls\<rparr>) x) (case x of (ls, st) \<Rightarrow>
        andThen (if RUN_UNREADABLE_LINE \<in> set ls then give st else writeLines e Unreadable_Line r st [RUN_UNREADABLE_LINE]) (\<lambda>st.
         if gs_lastStep st \<noteq> None then give ()
         else andThen (set_progress e d Run_In_Progress (Some GITHUB_RUN_STEP_UNREADABLE)) (\<lambda>still.
           if \<not> still then forget_row d
           else keep_state d (st\<lparr>gs_lastStatus := Some Run_In_Progress, gs_lastStep := Some GITHUB_RUN_STEP_UNREADABLE\<rparr>))))
        (in_pass K rows now) (\<lambda>_. in_pass K rows now)"
      by (rule runs_mono) (auto simp: x)
  qed
qed

lemma runs_over:
  assumes "d = dp_id r" and "K \<longrightarrow> log_kept e" and "r \<in> set rows" and "dp_deployQueuedAt r = None" and "run_says x c"
  shows "runs (\<lambda>s. at_row K rows now d st s \<and> Fetch_Answered d (Fetch_Ok x) \<in> set (tk_log s)) (over_row e r st now c)
    (in_pass K rows now) (\<lambda>_. in_pass K rows now)"
proof (cases "c = Con_Success")
  case False
  obtain status message where out: "externalBuildOutcome c (dp_buildRunId r) None = (status, message)" by fastforce
  have "may_end r now status message False h" if "Fetch_Answered d (Fetch_Ok x) \<in> set h" for h
  proof -
    have "\<exists>x c. Fetch_Answered (dp_id r) (Fetch_Ok x) \<in> set h \<and> run_says x c \<and> c \<noteq> Con_Success \<and>
        (status, message) = externalBuildOutcome c (dp_buildRunId r) None"
      using that False out assms by (intro exI [of _ x] exI [of _ c]) simp
    with assms(4) show ?thesis unfolding may_end_def by simp
  qed
  then show ?thesis using False unfolding over_row_def out
    by (auto intro!: runs_mono [OF runs_end [OF assms(1-3)]] simp: out)
next
  case True
  let ?P = "\<lambda>s. at_row K rows now d st s \<and> Fetch_Answered d (Fetch_Ok x) \<in> set (tk_log s)"
  have "keeps ?P (gp_reads_from e (ge_marked e) (Finish_Marked d))"
    unfolding gp_reads_from_def gp_call_def
    by (intro keeps_andThen keeps_option keeps_ask keeps_give keeps_fail keeps_act) (auto intro: at_row_neutral)
  then have marked: "runs ?P (gp_reads_from e (ge_marked e) (Finish_Marked d)) (in_pass K rows now) (\<lambda>_. ?P)"
    by (rule runs_keeps_weaken) (auto intro: at_row_in_pass)
  let ?st = "st\<lparr>gs_finishedAt := Some now\<rparr>"
  have keep: "runs ?P (keep_state d ?st) (in_pass K rows now) (\<lambda>_. at_row K rows now d ?st)"
  proof (rule runs_keep_state_to)
    fix s assume s: "?P s"
    with assms(5) True have "finish_seen d now (tk_log s)" by (auto simp: finish_seen_def at_row_def in_pass_def)
    with s show "at_row K rows now d st s \<and> fine K d ?st (tk_log s)" by (auto simp: at_row_def fine_def)
  qed
  have line: "runs (at_row K rows now d ?st) (andThen (writeLines e Finished_Line r ?st new) (\<lambda>_. give ()))
      (in_pass K rows now) (\<lambda>_. in_pass K rows now)" for new
  proof (rule runs_andThen [where R = "\<lambda>st' s. at_row K rows now d st' s"])
    show "runs (at_row K rows now d ?st) (writeLines e Finished_Line r ?st new) (in_pass K rows now) (\<lambda>st' s. at_row K rows now d st' s)"
      by (rule runs_mono [OF runs_write [OF assms(1,2)]]) auto
  qed (rule runs_give, erule at_row_in_pass)
  have forget: "runs ?P (forget_row d) (in_pass K rows now) (\<lambda>_. in_pass K rows now)"
    by (rule runs_mono [OF runs_forget]) (auto intro: at_row_in_pass)
  show ?thesis using True unfolding over_row_def Let_def assms(1) [symmetric]
    by simp (rule runs_andThen [OF marked], rule runs_if [OF forget], rule runs_andThen [OF keep line])
qed

text \<open>What is in the history stays in it.\<close>

lemma has_call: "keeps (\<lambda>s. x \<in> set (tk_log s)) (gp_call e)"
  unfolding gp_call_def by (intro keeps_andThen keeps_option keeps_ask keeps_give keeps_fail keeps_act) simp

lemma has_reads: "keeps (\<lambda>s. x \<in> set (tk_log s)) (gp_reads_from e f eff)"
  unfolding gp_reads_from_def by (intro keeps_andThen has_call keeps_ask keeps_give keeps_act) simp

lemma keeps_has:
  "keeps (\<lambda>s. x \<in> set (tk_log s)) (keep_state d st)"
  "keeps (\<lambda>s. x \<in> set (tk_log s)) (loggedLines e r st)"
  "keeps (\<lambda>s. x \<in> set (tk_log s)) (writeLines e k r st new)"
proof -
  show keep: "keeps (\<lambda>s. x \<in> set (tk_log s)) (keep_state d st)" for d st
    unfolding keep_state_def by (rule keeps_change) simp
  show known: "keeps (\<lambda>s. x \<in> set (tk_log s)) (loggedLines e r st)"
    unfolding loggedLines_def Let_def by (intro keeps_option keeps_give keeps_andThen has_reads keep)
  have "keeps (\<lambda>s. x \<in> set (tk_log s)) (case y of (ls, st) \<Rightarrow>
      andThen (keep_state (dp_id r) (st\<lparr>gs_logged := Some (ls @ new)\<rparr>)) (\<lambda>_. give (st\<lparr>gs_logged := Some (ls @ new)\<rparr>)))" for y
    by (cases y) (auto intro: keep)
  then show "keeps (\<lambda>s. x \<in> set (tk_log s)) (writeLines e k r st new)"
    unfolding writeLines_def Let_def
    by (intro keeps_if keeps_give keeps_andThen has_call known keeps_act) auto
qed

lemma run_is_over_says: "run_is_over (mapRunJobs (rr_jobs x) ls) x \<Longrightarrow>
    run_says x (conclusionOfRun (rr_run x) (case rp_conclusion (mapRunJobs (rr_jobs x) ls) of None \<Rightarrow> Con_Success | Some c \<Rightarrow> c))"
  by (auto simp: run_is_over_def mapRunJobs_def run_says_def Let_def split: if_splits option.splits)

lemma runs_read_row:
  assumes "d = dp_id r" and "K \<longrightarrow> log_kept e" and "r \<in> set rows" and "dp_deployQueuedAt r = None"
  shows "runs (\<lambda>s. at_row K rows now d st s \<and> Fetch_Answered d (Fetch_Ok x) \<in> set (tk_log s)) (read_row e r st now x)
    (in_pass K rows now) (\<lambda>_. in_pass K rows now)"
proof -
  let ?A = "\<lambda>s. Fetch_Answered d (Fetch_Ok x) \<in> set (tk_log s)"
  let ?st = "st\<lparr>gs_nextPollAt := next_poll now x\<rparr>"
  let ?E = "in_pass K rows now" and ?R = "at_row K rows now d"
  define p where "p ls = mapRunJobs (rr_jobs x) ls" for ls
  define rest where "rest ls st = (if \<not> run_is_over (p ls) x then going_row e r st (p ls)
      else over_row e r st now (conclusionOfRun (rr_run x) (case rp_conclusion (p ls) of None \<Rightarrow> Con_Success | Some c \<Rightarrow> c)))" for ls st
  have keep: "runs (\<lambda>s. ?R st s \<and> ?A s) (keep_state d ?st) ?E (\<lambda>_ s. ?R ?st s \<and> ?A s)"
    by (rule runs_also [OF runs_keep_same]) (simp_all add: keeps_has)
  have known: "runs (\<lambda>s. ?R ?st s \<and> ?A s) (loggedLines e r ?st) ?E
      (\<lambda>(ls, st') s. (?R st' s \<and> st' = ?st\<lparr>gs_logged := Some ls\<rparr>) \<and> ?A s)"
    by (rule runs_mono [OF runs_also [OF runs_logged [OF assms(1,2)] keeps_has(2)]]) auto
  have new: "runs (\<lambda>s. (?R st' s \<and> gs_logged st' = Some ls) \<and> ?A s) (writeLines e Step_Lines r st' (rp_newLines (p ls))) ?E
      (\<lambda>st'' s. ?R st'' s \<and> ?A s)" for ls st'
  proof (rule runs_mono [OF runs_also [OF runs_write [OF assms(1,2)] keeps_has(3)]])
    fix s assume s: "(?R st' s \<and> gs_logged st' = Some ls) \<and> ?A s"
    then have "K \<longrightarrow> (\<forall>l\<in>set (rp_newLines (p ls)). own_line l \<longrightarrow> \<not> was_appended d l (tk_log s))"
      using new_lines_fresh [of ls "run_lines (rr_jobs x)"] by (auto simp: p_def mapRunJobs_def Let_def at_row_def fine_def)
    then show "(?R st' s \<and> (Step_Lines = Step_Lines \<longrightarrow> distinct (rp_newLines (p ls)) \<and>
        (K \<longrightarrow> (\<forall>l\<in>set (rp_newLines (p ls)). own_line l \<longrightarrow> \<not> was_appended d l (tk_log s))))) \<and> ?A s"
      using s new_lines_fresh [of ls "run_lines (rr_jobs x)"] by (simp add: p_def mapRunJobs_def Let_def)
  qed auto
  have over: "runs (\<lambda>s. ?R st'' s \<and> ?A s) (rest ls st'') ?E (\<lambda>_. ?E)" for ls st''
    unfolding rest_def
  proof (rule runs_if)
    show "runs (\<lambda>s. ?R st'' s \<and> ?A s) (going_row e r st'' (p ls)) ?E (\<lambda>_. ?E)"
      by (rule runs_mono [OF runs_going [OF assms(1)]]) auto
    assume "\<not> \<not> run_is_over (p ls) x"
    then show "runs (\<lambda>s. ?R st'' s \<and> ?A s) (over_row e r st'' now
        (conclusionOfRun (rr_run x) (case rp_conclusion (p ls) of None \<Rightarrow> Con_Success | Some c \<Rightarrow> c))) ?E (\<lambda>_. ?E)"
      by (intro runs_over assms) (simp add: p_def run_is_over_says)
  qed
  show ?thesis unfolding read_row_def Let_def assms(1) [symmetric] p_def [symmetric]
  proof (rule runs_andThen [OF keep], rule runs_andThen [OF known])
    fix y :: "string list \<times> row_state"
    obtain ls st' where y: "y = (ls, st')" by fastforce
    have "runs (\<lambda>s. (?R st' s \<and> gs_logged st' = Some ls) \<and> ?A s)
        (andThen (writeLines e Step_Lines r st' (rp_newLines (p ls))) (rest ls)) ?E (\<lambda>_. ?E)"
      by (rule runs_andThen [OF new over])
    then show "runs ((\<lambda>(ls, st') s. (?R st' s \<and> st' = ?st\<lparr>gs_logged := Some ls\<rparr>) \<and> ?A s) y)
        (case y of (ls, st) \<Rightarrow> andThen (writeLines e Step_Lines r st (rp_newLines (p ls))) (\<lambda>st.
          if \<not> run_is_over (p ls) x then going_row e r st (p ls)
          else over_row e r st now (conclusionOfRun (rr_run x) (case rp_conclusion (p ls) of None \<Rightarrow> Con_Success | Some c \<Rightarrow> c))))
        ?E (\<lambda>_. ?E)"
      unfolding rest_def [abs_def] y prod.case by (rule runs_mono) auto
  qed
qed

lemma runs_fetch_row:
  assumes "d = dp_id r" and "K \<longrightarrow> log_kept e" and "r \<in> set rows" and "dp_deployQueuedAt r = None"
  shows "runs (at_row K rows now d st) (fetch_row e r st now) (in_pass K rows now) (\<lambda>_. in_pass K rows now)"
proof -
  let ?st = "st\<lparr>gs_lastReadAt := now\<rparr>" and ?E = "in_pass K rows now" and ?R = "at_row K rows now d"
  have budget: "runs (?R st) (change (\<lambda>s. s\<lparr>gp_reads := gp_reads s - 1\<rparr>)) ?E (\<lambda>_. ?R st)"
    by (rule runs_change) (simp add: at_row_def in_pass_def gp_inv_def)
  have keep: "runs (?R st) (keep_state d ?st) ?E (\<lambda>_. ?R ?st)" by (rule runs_keep_same) simp_all
  have asked: "runs (?R ?st) (act (Fetch_Asked d)) ?E (\<lambda>_. ?R ?st)" by (rule runs_act) (simp add: at_row_neutral)
  have answer: "runs (?R ?st) (gp_reads_from e (ge_fetch e) (Fetch_Answered d)) ?E (\<lambda>x s. ?R ?st s \<and> Fetch_Answered d x \<in> set (tk_log s))"
    by (rule runs_mono [OF runs_at_row_read]) auto
  have rest: "runs (\<lambda>s. ?R ?st s \<and> Fetch_Answered d x \<in> set (tk_log s)) (case x of
        Fetch_Backoff ms \<Rightarrow> keep_state d (?st\<lparr>gs_nextPollAt := now + min ms MAX_BACKOFF_MS\<rparr>)
      | Fetch_Unreadable \<Rightarrow> andThen (keep_state d (?st\<lparr>gs_nextPollAt := now + UNREADABLE_POLL_INTERVAL_MS\<rparr>)) (\<lambda>_.
           unreadable_row e r (?st\<lparr>gs_nextPollAt := now + UNREADABLE_POLL_INTERVAL_MS\<rparr>))
      | Fetch_Ok y \<Rightarrow> read_row e r ?st now y) ?E (\<lambda>_. ?E)" for x
  proof (cases x)
    case (Fetch_Ok y)
    then show ?thesis by (simp add: runs_read_row [OF assms])
  next
    case Fetch_Unreadable
    have "runs (?R ?st) (andThen (keep_state d (?st\<lparr>gs_nextPollAt := now + UNREADABLE_POLL_INTERVAL_MS\<rparr>)) (\<lambda>_.
           unreadable_row e r (?st\<lparr>gs_nextPollAt := now + UNREADABLE_POLL_INTERVAL_MS\<rparr>))) ?E (\<lambda>_. ?E)"
      by (rule runs_andThen [OF runs_keep_same runs_unreadable [OF assms(1,2)]]) simp_all
    then show ?thesis unfolding Fetch_Unreadable by (auto elim: runs_mono)
  next
    case (Fetch_Backoff ms)
    have "runs (?R ?st) (keep_state d (?st\<lparr>gs_nextPollAt := now + min ms MAX_BACKOFF_MS\<rparr>)) ?E (\<lambda>_. ?E)"
      by (rule runs_done [OF runs_keep_same]) simp_all
    then show ?thesis unfolding Fetch_Backoff by (auto elim: runs_mono)
  qed
  show ?thesis unfolding fetch_row_def Let_def assms(1) [symmetric]
    by (rule runs_andThen [OF budget], rule runs_andThen [OF keep], rule runs_andThen [OF asked],
        rule runs_andThen [OF answer rest])
qed

lemma runs_stateOf:
  assumes "d = dp_id r"
  shows "runs (in_pass K rows now) (stateOf r) (in_pass K rows now) (\<lambda>st. at_row K rows now d st)"
proof -
  have known: "runs (in_pass K rows now) (look (\<lambda>s. map_of (gp_states s) d)) (in_pass K rows now)
      (\<lambda>k s. in_pass K rows now s \<and> k = map_of (gp_states s) d)"
    by (rule runs_look) simp
  have "at_row K rows now d (fresh_state r) (s\<lparr>gp_states := (d, fresh_state r) # gp_states s\<rparr>)"
    if "in_pass K rows now s" for s
    using that by (auto simp: at_row_def in_pass_def gp_inv_def fine_def fresh_state_def)
  then have new: "runs (\<lambda>s. in_pass K rows now s \<and> None = map_of (gp_states s) d)
      (andThen (change (\<lambda>s. s\<lparr>gp_states := (d, fresh_state r) # gp_states s\<rparr>)) (\<lambda>_. give (fresh_state r))) (in_pass K rows now)
      (\<lambda>st. at_row K rows now d st)"
    by (simp add: runs_def andThen_def change_def give_def)
  have old: "runs (\<lambda>s. in_pass K rows now s \<and> Some st = map_of (gp_states s) d) (give st) (in_pass K rows now)
      (\<lambda>st. at_row K rows now d st)" for st
    by (rule runs_give) (auto simp: at_row_def in_pass_def gp_inv_def)
  show ?thesis unfolding stateOf_def assms [symmetric]
    by (rule runs_andThen [OF known]) (auto intro: new old split: option.split)
qed

lemma runs_pollRow:
  assumes "r \<in> set rows" and "K \<longrightarrow> log_kept e"
  shows "runs (in_pass K rows now) (pollRow e now r) (in_pass K rows now) (\<lambda>_. in_pass K rows now)"
proof -
  let ?d = "dp_id r" and ?E = "in_pass K rows now"
  have done_: "runs (at_row K rows now ?d st) (give ()) ?E (\<lambda>_. ?E)" for st by (rule runs_give) (rule at_row_in_pass)
  have ends: "runs (at_row K rows now ?d st) (end_with e r st message q) ?E (\<lambda>_. ?E)"
    if "\<And>s. at_row K rows now ?d st s \<Longrightarrow> may_end r now Dep_Error message q (tk_log s)" for st message q
    unfolding end_with_def by (rule runs_mono [OF runs_end [OF refl assms(2,1)]]) (use that in auto)
  have queued: "runs (at_row K rows now ?d st) (if now - t \<le> DEPLOY_QUEUED_BACKSTOP_MS then give () else end_with e r st m True) ?E (\<lambda>_. ?E)"
    if "dp_deployQueuedAt r = Some t" for st t m
    by (rule runs_if, rule done_, rule ends) (use that in \<open>simp add: may_end_def\<close>)
  have live: "runs (at_row K rows now ?d st)
      (if now - row_started r now > MAX_LIVE_ROW_AGE_MS then end_with e r st m1 False
       else if dp_buildRunStatus r = Some Run_Completed \<or> gs_finishedAt st \<noteq> None
       then andThen (keep_state ?d (st\<lparr>gs_finishedAt := Some (case gs_finishedAt st of None \<Rightarrow> now | Some t \<Rightarrow> t)\<rparr>)) (\<lambda>_.
           if now - (case gs_finishedAt st of None \<Rightarrow> now | Some t \<Rightarrow> t) < DEPLOY_TAKEOVER_GRACE_MS then give ()
           else end_with e r (st\<lparr>gs_finishedAt := Some (case gs_finishedAt st of None \<Rightarrow> now | Some t \<Rightarrow> t)\<rparr>) m2 False)
       else if now < gs_nextPollAt st then give ()
       else andThen (look gp_reads) (\<lambda>left. if left = 0 then give () else fetch_row e r st now)) ?E (\<lambda>_. ?E)"
    if none: "dp_deployQueuedAt r = None" for st m1 m2
  proof (intro runs_if)
    show "runs (at_row K rows now ?d st) (end_with e r st m1 False) ?E (\<lambda>_. ?E)" if "now - row_started r now > MAX_LIVE_ROW_AGE_MS"
      by (rule ends) (use that none in \<open>simp add: may_end_def\<close>)
    let ?f = "case gs_finishedAt st of None \<Rightarrow> now | Some t \<Rightarrow> t"
    let ?st = "st\<lparr>gs_finishedAt := Some ?f\<rparr>"
    assume fin: "dp_buildRunStatus r = Some Run_Completed \<or> gs_finishedAt st \<noteq> None"
    have "fine K ?d ?st (tk_log s)" if s: "at_row K rows now ?d st s" for s
    proof (cases "gs_finishedAt st")
      case None
      with fin s assms(1) have "finish_seen ?d now (tk_log s)" by (auto simp: finish_seen_def at_row_def in_pass_def)
      with None s show ?thesis by (simp add: at_row_def fine_def)
    qed (use s in \<open>simp add: at_row_def fine_def\<close>)
    then have keep: "runs (at_row K rows now ?d st) (keep_state ?d ?st) ?E (\<lambda>_. at_row K rows now ?d ?st)"
      by (rule runs_keep_state)
    have grace: "runs (at_row K rows now ?d ?st) (if now - ?f < DEPLOY_TAKEOVER_GRACE_MS then give () else end_with e r ?st m2 False) ?E (\<lambda>_. ?E)"
    proof (rule runs_if, rule done_, rule ends)
      fix s assume s: "at_row K rows now ?d ?st s" and "\<not> now - ?f < DEPLOY_TAKEOVER_GRACE_MS"
      then have "finish_seen ?d ?f (tk_log s)" "DEPLOY_TAKEOVER_GRACE_MS \<le> now - ?f" by (auto simp: at_row_def fine_def)
      with none show "may_end r now Dep_Error m2 False (tk_log s)" unfolding may_end_def by auto
    qed
    show "runs (at_row K rows now ?d st) (andThen (keep_state ?d ?st) (\<lambda>_.
        if now - ?f < DEPLOY_TAKEOVER_GRACE_MS then give () else end_with e r ?st m2 False)) ?E (\<lambda>_. ?E)"
      by (rule runs_andThen [OF keep grace])
  next
    have left: "runs (at_row K rows now ?d st) (look gp_reads) ?E (\<lambda>_. at_row K rows now ?d st)" by (rule runs_look)
    show "runs (at_row K rows now ?d st) (andThen (look gp_reads) (\<lambda>left. if left = 0 then give () else fetch_row e r st now)) ?E (\<lambda>_. ?E)"
      by (rule runs_andThen [OF left], rule runs_if, rule done_, rule runs_fetch_row [OF refl assms(2,1) none])
  qed (rule done_)
  show ?thesis unfolding pollRow_def Let_def
    by (rule runs_andThen [OF runs_stateOf [OF refl]]) (rule runs_option, rule live, assumption, rule queued, assumption)
qed

end
