(* ===== verification/Github_Poller_Props.thy ===== *)
theory Github_Poller_Props
  imports Github_Poller_Steps Deployment_Props
begin

text \<open>
  What the poller of registered rows is trusted with, over every history of passes and restarts: it ends
  a row only when its time is over or GitHub said that its run did not succeed, writes no step line twice,
  reads GitHub at most 25 times a pass, the rows read longest ago first, and asks for the end of every
  row whose time is over whatever else fails.
\<close>

section \<open>Histories\<close>

definition gp_init :: "gp_state \<Rightarrow> bool" where
  "gp_init s \<longleftrightarrow> tk_log s = [] \<and> gp_states s = [] \<and> \<not> gp_running s"

text \<open>A pass, or a restart of the process: what it remembers is gone.\<close>

definition gp_step :: "gp_env \<Rightarrow> gp_state \<Rightarrow> gp_state \<Rightarrow> bool" where
  "gp_step e s s' \<longleftrightarrow> s' = snd (poll e s) \<or> s' = s\<lparr>gp_states := [], gp_running := False\<rparr>"

lemma map_of_filter_keys: "map_of (filter (\<lambda>(k, v). k \<in> A) xs) d = (if d \<in> A then map_of xs d else None)"
  by (induction xs) auto

lemma runs_rows:
  assumes "K \<longrightarrow> log_kept e" and "set rs \<subseteq> set rows"
  shows "keeps (in_pass K rows now) (for_each rs (\<lambda>r. attempt (pollRow e now r)))"
proof (intro keeps_for_each keeps_attempt)
  fix r assume "r \<in> set rs"
  with assms(2) have "r \<in> set rows" by blast
  with runs_pollRow [of r rows K e now] assms(1) show "keeps (in_pass K rows now) (pollRow e now r)" by (simp add: runs_keeps)
qed

lemma gp_inv_states:
  assumes "gp_inv K s" and "\<And>d st. map_of xs d = Some st \<Longrightarrow> map_of (gp_states s) d = Some st"
  shows "gp_inv K (s\<lparr>gp_states := xs\<rparr>)"
  using assms by (simp add: gp_inv_def)

lemma keeps_poll_pass:
  assumes "K \<longrightarrow> log_kept e"
  shows "keeps (gp_inv K) (poll_pass e)"
proof -
  let ?I = "gp_inv K"
  have call: "keeps ?I (gp_call e)"
    unfolding gp_call_def by (intro keeps_andThen keeps_option keeps_ask keeps_give keeps_fail keeps_act gp_inv_neutral) auto
  have listed: "runs ?I (gp_reads_from e (ge_rows e) Gp_Listed) ?I (\<lambda>rows s. ?I s \<and> Gp_Listed rows \<in> set (tk_log s))"
    unfolding gp_reads_from_def
  proof (rule runs_andThen [where R = "\<lambda>_. ?I"])
    show "runs ?I (gp_call e) ?I (\<lambda>_. ?I)" using call by (simp add: runs_keeps)
    have "gp_inv K (s\<lparr>tk_log := tk_log s @ [Gp_Listed x]\<rparr>)" if "?I s" for s x using gp_inv_neutral [OF that, of "Gp_Listed x"] by simp
    then show "runs ?I (andThen (ask (ge_rows e)) (\<lambda>x. andThen (act (Gp_Listed x)) (\<lambda>_. give x))) ?I (\<lambda>rows s. ?I s \<and> Gp_Listed rows \<in> set (tk_log s))"
      by (simp add: runs_def andThen_def ask_def act_def give_def)
  qed
  have filtered: "runs (\<lambda>s. ?I s \<and> Gp_Listed rows \<in> set (tk_log s))
      (change (\<lambda>s. s\<lparr>gp_states := filter (\<lambda>(d, st). d \<in> dp_id ` set rows) (gp_states s)\<rparr>)) ?I
      (\<lambda>_ s. ?I s \<and> Gp_Listed rows \<in> set (tk_log s))" for rows
    by (rule runs_change) (auto intro!: gp_inv_states simp: map_of_filter_keys split: if_splits)
  have asked: "runs (\<lambda>s. ?I s \<and> Gp_Listed rows \<in> set (tk_log s)) (ask (ge_now e)) ?I (\<lambda>_ s. ?I s \<and> Gp_Listed rows \<in> set (tk_log s))" for rows
    by (rule runs_ask)
  have clocked: "runs (\<lambda>s. ?I s \<and> Gp_Listed rows \<in> set (tk_log s)) (act (Gp_Clock now)) ?I (\<lambda>_. in_pass K rows now)" for rows now
    by (rule runs_act) (auto simp: in_pass_def gp_inv_neutral)
  have budget: "runs (in_pass K rows now) (change (\<lambda>s. s\<lparr>gp_reads := MAX_READS_PER_PASS\<rparr>)) ?I (\<lambda>_. in_pass K rows now)" for rows now
    by (rule runs_change) (simp add: in_pass_def gp_inv_def)
  have ordered: "runs (in_pass K rows now) (look (\<lambda>s. sort_key (last_read s) rows)) ?I
      (\<lambda>rs s. in_pass K rows now s \<and> set rs = set rows)" for rows now
    by (rule runs_look) simp
  have rest: "runs (\<lambda>s. in_pass K rows now s \<and> set rs = set rows) (for_each rs (\<lambda>r. attempt (pollRow e now r))) ?I (\<lambda>_. ?I)"
    for rows now rs
  proof (cases "set rs = set rows")
    case True
    have "keeps (in_pass K rows now) (for_each rs (\<lambda>r. attempt (pollRow e now r)))" by (rule runs_rows) (use assms True in auto)
    then show ?thesis by (rule runs_keeps_weaken) (auto simp: in_pass_def)
  qed (simp add: runs_def)
  have "runs ?I (poll_pass e) ?I (\<lambda>_. ?I)"
    unfolding poll_pass_def
    by (rule runs_andThen [OF listed], rule runs_andThen [OF filtered], rule runs_andThen [OF asked],
        rule runs_andThen [OF clocked], rule runs_andThen [OF budget], rule runs_andThen [OF ordered rest])
  then show ?thesis by (simp add: runs_keeps)
qed

lemma keeps_poll: "K \<longrightarrow> log_kept e \<Longrightarrow> keeps (gp_inv K) (poll e)"
  unfolding poll_def
  by (intro keeps_andThen keeps_look keeps_if keeps_give keeps_ensure keeps_attempt keeps_poll_pass keeps_change)
    (simp_all add: gp_inv_def)

lemma gp_reach_inv:
  assumes "reach gp_init (gp_step e) s" and "K \<longrightarrow> log_kept e"
  shows "backed_by (gp_backed K) (tk_log s)"
proof -
  have "gp_inv K s" using assms(1)
  proof (induction rule: reach.induct)
    case (reach_init s)
    then show ?case by (simp add: gp_init_def gp_inv_def)
  next
    case (reach_step s t)
    from reach_step(2) consider "t = snd (poll e s)" | "t = s\<lparr>gp_states := [], gp_running := False\<rparr>" by (auto simp: gp_step_def)
    then show ?case
    proof cases
      case 1
      with reach_step keeps_poll [OF assms(2)] show ?thesis by (simp add: keeps_def)
    next
      case 2
      with reach_step show ?thesis by (simp add: gp_inv_def)
    qed
  qed
  then show ?thesis by (simp add: gp_inv_def)
qed

section \<open>Concrete runs for the witnesses\<close>

definition fresh_poller :: gp_state where
  "fresh_poller = \<lparr>tk_log = [], gp_states = [], gp_reads = 0, gp_running = False\<rparr>"

lemma fresh_reached: "reach gp_init (gp_step e) fresh_poller"
  by (rule reach_init) (simp add: gp_init_def fresh_poller_def)

lemma reach_poll: "reach gp_init (gp_step e) s \<Longrightarrow> reach gp_init (gp_step e) (snd (poll e s))"
  by (erule reach_step) (simp add: gp_step_def)

text \<open>One row, registered at 0; at 25200000 it is seven hours old.\<close>

definition old_env :: gp_env where
  "old_env = \<lparr>ge_throws = \<lambda>_. None, ge_now = \<lambda>_. 25200000, ge_rows = \<lambda>_. [sample_row], ge_fetch = \<lambda>_. Fetch_Unreadable,
     ge_log = \<lambda>_ _. [], ge_progress = \<lambda>_. True, ge_marked = \<lambda>_. True, ge_ended = \<lambda>_. True\<rparr>"

text \<open>A log that is read back as it was written, and a run whose step is done at the second read.\<close>

definition lines_of :: "string \<Rightarrow> gp_effect \<Rightarrow> string list" where
  "lines_of d x = (case x of Lines_Appended k i ls \<Rightarrow> if i = d then ls else [] | _ \<Rightarrow> [])"

definition written_log :: "gp_effect list \<Rightarrow> string \<Rightarrow> string" where
  "written_log h d = concat (map (\<lambda>l. l @ [CHR 10]) (concat (map (lines_of d) h)))"

definition first_read :: "gp_effect list \<Rightarrow> bool" where
  "first_read h \<longleftrightarrow> list_all (\<lambda>x. case x of Fetch_Answered d y \<Rightarrow> False | _ \<Rightarrow> True) h"

definition build_job :: "bool \<Rightarrow> run_job" where
  "build_job over = \<lparr>gj_name = ''build'', gj_status = ''in_progress'', gj_conclusion = None,
     gj_steps = [\<lparr>gt_name = ''Build'', gt_number = Some 1, gt_status = (if over then ''completed'' else ''in_progress''),
       gt_conclusion = (if over then Some ''success'' else None), gt_started = Some 0, gt_completed = (if over then Some 133000 else None)\<rparr>]\<rparr>"

definition build_env :: gp_env where
  "build_env = \<lparr>ge_throws = \<lambda>_. None, ge_now = \<lambda>h. if first_read h then 0 else 60000, ge_rows = \<lambda>_. [sample_row],
     ge_fetch = \<lambda>h. Fetch_Ok \<lparr>rr_jobs = [build_job (\<not> first_read h)], rr_run = None, rr_authenticated = True,
       rr_remaining = None, rr_resetAt = None\<rparr>,
     ge_log = written_log, ge_progress = \<lambda>_. True, ge_marked = \<lambda>_. True, ge_ended = \<lambda>_. True\<rparr>"

lemma own_line_read:
  assumes "l \<in> set ls" and "own_line l"
  shows "l \<in> set (loggedLinesOf (concat (map (\<lambda>l. l @ [CHR 10]) ls)))"
  using assms(1)
proof (induction ls)
  case (Cons x xs)
  have split: "split_on (CHR 10) (x @ CHR 10 # t) = split_on (CHR 10) x @ split_on (CHR 10) t" for t by (rule split_on_append)
  show ?case
  proof (cases "l = x")
    case True
    have "last l \<noteq> CHR 13"
    proof
      assume cr: "last l = CHR 13"
      have l: "l \<noteq> []" "trim l = l" using assms(2) by (simp_all add: own_line_def)
      then have "\<not> is_space (last l)"
        unfolding trim_def by (metis hd_dropWhile last_rev rev_is_Nil_conv rev_rev_ident)
      with cr show False by (simp add: is_space_def code_def)
    qed
    then have "without_cr l = l" by (simp add: without_cr_def)
    then show ?thesis using assms(2) True by (simp add: loggedLinesOf_def split split_on_none own_line_def)
  next
    case False
    with Cons show ?thesis by (auto simp: loggedLinesOf_def split)
  qed
qed simp

lemma build_log_kept: "log_kept build_env"
proof -
  have "l \<in> set (concat (map (lines_of d) h))" if "was_appended d l h" for d l h
    using that by (force simp: was_appended_def lines_of_def)
  then show ?thesis using own_line_read by (auto simp: log_kept_def build_env_def written_log_def)
qed

section \<open>The claims\<close>

text \<open>
  C18. A registered row is ended only when it may be. Whatever GitHub, the hosts and the database answer and
  however often the process restarts, the poller asks for the end of a row only after it listed it, and
  then only when: a deploy of it was accepted more than 24 hours ago and never started; or no deploy was
  accepted and the row is older than 6 hours; or its run was seen finished at least 10 minutes before; or
  GitHub said that the run is over and did not succeed, and then with the status and message of that
  conclusion.
\<close>

theorem build_row_ended_only_when:
  assumes "reach gp_init (gp_step e) s" and "tk_log s = h @ End_Asked d status message q # h2"
  shows "\<exists>rows now r. Gp_Listed rows \<in> set h \<and> Gp_Clock now \<in> set h \<and> r \<in> set rows \<and> dp_id r = d \<and>
    may_end r now status message q h"
  using backed_byD [OF gp_reach_inv [OF assms(1), of False] assms(2)] by simp

lemma log_at: "take 1 (drop n l) = [x] \<Longrightarrow> l = take n l @ x # drop (Suc n) l"
  by (metis One_nat_def append_Cons append_Nil append_take_drop_id drop_drop plus_1_eq_Suc)

lemma log_before: "take 1 (drop n l) = [x] \<Longrightarrow> n < m \<Longrightarrow> x \<in> set (take m l)"
proof -
  assume x: "take 1 (drop n l) = [x]" and n: "n < m"
  then have "take 1 (drop n (take m l)) = [x]" by (simp add: drop_take min_def)
  then show ?thesis by (metis in_set_dropD in_set_takeD list.set_intros(1))
qed

theorem build_row_ended_only_when_witness:
  "\<exists>rows now r. Gp_Listed rows \<in> set (tk_log (snd (poll old_env fresh_poller))) \<and> r \<in> set rows \<and> dp_id r = ''d'' \<and>
     may_end r now Dep_Error (not_taken_over sample_row) False (take 2 (tk_log (snd (poll old_env fresh_poller))))"
proof -
  let ?l = "tk_log (snd (poll old_env fresh_poller))"
  have "take 1 (drop 2 ?l) = [End_Asked ''d'' Dep_Error (not_taken_over sample_row) False]" by code_simp
  then have "?l = take 2 ?l @ End_Asked ''d'' Dep_Error (not_taken_over sample_row) False # drop (Suc 2) ?l" by (rule log_at)
  from build_row_ended_only_when [OF reach_poll [OF fresh_reached] this] show ?thesis by (meson in_set_takeD)
qed

text \<open>
  C31. No step line is written twice. As long as the log that is read back holds what was appended to it, a
  batch of step lines names each line once and none that any earlier append to the log of that row wrote,
  over any number of passes and restarts.
\<close>

theorem step_line_written_once:
  assumes "log_kept e" and "reach gp_init (gp_step e) s" and "tk_log s = h @ Lines_Appended Step_Lines d ls # h2"
    and "Lines_Appended k d ls' \<in> set h" and "l \<in> set ls" and "own_line l"
  shows "l \<notin> set ls' \<and> distinct ls"
  using backed_byD [OF gp_reach_inv [OF assms(2), of True] assms(3)] assms(1,4-6) by (auto simp: was_appended_def)

definition build_line :: "string \<Rightarrow> string" where
  "build_line w = stepLabelPrefix ''build'' ''Build'' @ w"

theorem step_line_written_once_witness:
  "build_line '' completed in 2m13s'' \<notin> set [build_line '' started''] \<and>
   Lines_Appended Step_Lines ''d'' [build_line '' completed in 2m13s''] \<in> set (tk_log (snd (poll build_env (snd (poll build_env fresh_poller)))))"
proof -
  let ?l = "tk_log (snd (poll build_env (snd (poll build_env fresh_poller))))"
  have "take 1 (drop 11 ?l) = [Lines_Appended Step_Lines ''d'' [build_line '' completed in 2m13s'']]" by code_simp
  then have log: "?l = take 11 ?l @ Lines_Appended Step_Lines ''d'' [build_line '' completed in 2m13s''] # drop (Suc 11) ?l"
    by (rule log_at)
  have "take 1 (drop 5 ?l) = [Lines_Appended Step_Lines ''d'' [build_line '' started'']]" by code_simp
  then have earlier: "Lines_Appended Step_Lines ''d'' [build_line '' started''] \<in> set (take 11 ?l)" by (rule log_before) simp
  have "own_line (build_line '' completed in 2m13s'')" by code_simp
  then show ?thesis
    using step_line_written_once [OF build_log_kept reach_poll [OF reach_poll [OF fresh_reached]] log earlier] log
    by (metis in_set_conv_decomp list.set_intros(1))
qed

section \<open>What a pass is sure to do\<close>

lemma extends_gp_call [intro]: "keeps (extends h) (gp_call e)"
  unfolding gp_call_def by (intro keeps_andThen keeps_option extends_act keeps_ask keeps_give keeps_fail)

lemma extends_gp_read [intro]: "keeps (extends h) (gp_reads_from e f eff)"
  unfolding gp_reads_from_def by (intro keeps_andThen extends_act extends_gp_call keeps_ask keeps_give)

lemma extends_memory [intro]:
  "keeps (extends h) (keep_state d st)" "keeps (extends h) (forget_row d)" "keeps (extends h) (stateOf r)"
  unfolding keep_state_def forget_row_def stateOf_def
  by (intro keeps_andThen keeps_look keeps_option keeps_give extends_change; simp)+

lemma keeps_pair: "(\<And>a b. keeps J (f a b)) \<Longrightarrow> keeps J (case x of (a, b) \<Rightarrow> f a b)"
  by (cases x) simp

lemma extends_log [intro]: "keeps (extends h) (loggedLines e r st)" "keeps (extends h) (writeLines e k r st new)"
  unfolding writeLines_def loggedLines_def Let_def
  by (intro keeps_if keeps_pair keeps_option keeps_andThen keeps_give extends_gp_read extends_gp_call extends_act extends_memory)+

lemma extends_end [intro]: "keeps (extends h) (endBecause e r st status message q new)"
  unfolding endBecause_def by (intro keeps_andThen keeps_if keeps_give extends_act extends_gp_read extends_memory extends_log)

lemma extends_reading [intro]: "keeps (extends h) (unreadable_row e r st)" "keeps (extends h) (read_row e r st now x)"
proof -
  show "keeps (extends h) (unreadable_row e r st)"
    unfolding unreadable_row_def set_progress_def
    by (intro keeps_andThen keeps_pair keeps_if keeps_give extends_gp_read extends_memory extends_log)
  have over: "keeps (extends h) (over_row e r st now c)" for st c
    unfolding over_row_def Let_def
    by (intro keeps_andThen keeps_pair keeps_if keeps_give extends_gp_read extends_memory extends_log extends_end)
  have going: "keeps (extends h) (going_row e r st p)" for st p
    unfolding going_row_def set_progress_def Let_def
    by (intro keeps_andThen keeps_if keeps_give extends_gp_read extends_memory)
  show "keeps (extends h) (read_row e r st now x)"
    unfolding read_row_def Let_def
    by (intro keeps_andThen keeps_pair keeps_if extends_memory extends_log going over)
qed

lemma extends_row [intro]: "keeps (extends h) (pollRow e now r)"
proof -
  have fetch: "keeps (extends h) (fetch_row e r st now)" for st
    unfolding fetch_row_def Let_def
    by (intro keeps_andThen extends_change extends_memory extends_act extends_gp_read)
      (auto intro!: keeps_andThen extends_memory extends_reading split: fetch_result.split)
  show ?thesis unfolding pollRow_def end_with_def Let_def
    by (intro keeps_andThen keeps_option keeps_if keeps_give keeps_look extends_memory extends_end fetch)
qed

definition overdue :: "deployment \<Rightarrow> int \<Rightarrow> bool" where
  "overdue r now \<longleftrightarrow> (case dp_deployQueuedAt r of
       Some queued \<Rightarrow> DEPLOY_QUEUED_BACKSTOP_MS < now - queued
     | None \<Rightarrow> MAX_LIVE_ROW_AGE_MS < now - row_started r now)"

fun asks_end :: "string \<Rightarrow> gp_effect \<Rightarrow> bool" where
  "asks_end d (End_Asked i status message q) \<longleftrightarrow> i = d \<and> status = Dep_Error"
| "asks_end d _ \<longleftrightarrow> False"

lemma end_asks: "surely (end_with e r st message q) (asks_end (dp_id r))"
  unfolding end_with_def endBecause_def
  by (rule surely_first) (auto intro!: does_act keeps_andThen keeps_if keeps_give)

lemma overdue_asks:
  assumes "overdue r now"
  shows "surely (pollRow e now r) (asks_end (dp_id r))"
  unfolding pollRow_def
proof (rule surely_later)
  show "keeps (extends h) (stateOf r)" for h by (rule extends_memory)
  show "\<exists>y. fst (stateOf r s) = Inr y" for s
    by (simp add: stateOf_def andThen_def look_def give_def change_def split: option.split)
qed (use assms end_asks in \<open>auto simp: overdue_def split: option.split\<close>)

text \<open>
  The pass after its listing and its clock.
\<close>

definition pass_start :: "gp_env \<Rightarrow> gp_state \<Rightarrow> gp_state" where
  "pass_start e s = (let rows = ge_rows e (tk_log s); h = tk_log s @ [Gp_Listed rows] in
     s\<lparr>gp_states := filter (\<lambda>(d, st). d \<in> dp_id ` set rows) (gp_states s),
       tk_log := h @ [Gp_Clock (ge_now e h)], gp_reads := MAX_READS_PER_PASS\<rparr>)"

definition pass_now :: "gp_env \<Rightarrow> gp_state \<Rightarrow> int" where
  "pass_now e s = ge_now e (tk_log s @ [Gp_Listed (ge_rows e (tk_log s))])"

definition pass_order :: "gp_env \<Rightarrow> gp_state \<Rightarrow> deployment list" where
  "pass_order e s = sort_key (last_read (pass_start e s)) (ge_rows e (tk_log s))"

lemma poll_pass_unfold:
  assumes "ge_throws e (tk_log s) = None"
  shows "poll_pass e s = for_each (pass_order e s) (\<lambda>r. attempt (pollRow e (pass_now e s) r)) (pass_start e s)"
  using assms
  by (simp add: poll_pass_def pass_order_def pass_start_def pass_now_def Let_def gp_reads_from_def gp_call_def andThen_def ask_def
      act_def give_def change_def look_def)

lemma poll_unfold:
  assumes "\<not> gp_running s" and "ge_throws e (tk_log s) = None"
  shows "tk_log (snd (poll e s)) = tk_log (snd (for_each (pass_order e s) (\<lambda>r. attempt (pollRow e (pass_now e s) r))
     (pass_start e (s\<lparr>gp_running := True\<rparr>))))"
proof -
  have "last_read (pass_start e (s\<lparr>gp_running := True\<rparr>)) = last_read (pass_start e s)"
    by (rule ext) (simp add: last_read_def pass_start_def Let_def)
  then have same: "pass_order e (s\<lparr>gp_running := True\<rparr>) = pass_order e s" "pass_now e (s\<lparr>gp_running := True\<rparr>) = pass_now e s"
    by (simp_all add: pass_order_def pass_now_def)
  have "tk_log (snd (poll e s)) = tk_log (snd (poll_pass e (s\<lparr>gp_running := True\<rparr>)))"
    using assms(1) by (simp add: poll_def andThen_def look_def change_def ensure_def attempt_def)
  with poll_pass_unfold [of e "s\<lparr>gp_running := True\<rparr>"] assms(2) show ?thesis by (simp add: same)
qed

text \<open>
  C19. A row whose time is over is ended. Take a pass that begins while no other pass runs and whose listing of
  the rows succeeds. It asks for the end, as an error, of every listed row that no deploy was accepted for and that
  is older than 6 hours, and of every listed row whose deploy was accepted more than 24 hours ago, whatever fails
  for it or for any other row after the listing, and however many rows there are. (A row whose deploy was accepted
  in the last 24 hours is not over, however old it is.)
\<close>

theorem overdue_row_ended:
  assumes "\<not> gp_running s" and "ge_throws e (tk_log s) = None" and "r \<in> set (ge_rows e (tk_log s))"
    and "now = ge_now e (tk_log s @ [Gp_Listed (ge_rows e (tk_log s))])"
    and "dp_deployQueuedAt r = None \<and> MAX_LIVE_ROW_AGE_MS < now - row_started r now
      \<or> (\<exists>queued. dp_deployQueuedAt r = Some queued \<and> DEPLOY_QUEUED_BACKSTOP_MS < now - queued)"
  shows "\<exists>es message q. tk_log (snd (poll e s)) = tk_log s @ es \<and> End_Asked (dp_id r) Dep_Error message q \<in> set es"
proof -
  have r: "r \<in> set (pass_order e s)" using assms(3) by (simp add: pass_order_def)
  have over: "overdue r (pass_now e s)"
    using assms(5) unfolding pass_now_def assms(4) [symmetric] overdue_def by (elim disjE) auto
  have "surely (for_each (pass_order e s) (\<lambda>r. attempt (pollRow e (pass_now e s) r))) (asks_end (dp_id r))"
    by (rule surely_for_each [OF r]) (rule overdue_asks [OF over], rule extends_row)
  from surely_log [OF this, of "pass_start e (s\<lparr>gp_running := True\<rparr>)"]
  obtain es x where es: "tk_log (snd (poll e s)) = tk_log (pass_start e (s\<lparr>gp_running := True\<rparr>)) @ es" "x \<in> set es" "asks_end (dp_id r) x"
    unfolding poll_unfold [OF assms(1,2)] sees_def by blast
  from es(3) obtain message q where "x = End_Asked (dp_id r) Dep_Error message q" by (cases x) auto
  with es show ?thesis by (auto simp: pass_start_def Let_def)
qed

theorem overdue_row_ended_witness:
  "\<exists>es message q. tk_log (snd (poll old_env fresh_poller)) = es \<and> End_Asked ''d'' Dep_Error message q \<in> set es"
proof -
  have row: "dp_id sample_row = ''d''" "dp_deployQueuedAt sample_row = None"
    "MAX_LIVE_ROW_AGE_MS < 25200000 - row_started sample_row 25200000"
    by (simp_all add: sample_row_def registered_row_def row_started_def MAX_LIVE_ROW_AGE_MS_def nullish_def)
  have "\<not> gp_running fresh_poller" "ge_throws old_env (tk_log fresh_poller) = None"
    "sample_row \<in> set (ge_rows old_env (tk_log fresh_poller))"
    "25200000 = ge_now old_env (tk_log fresh_poller @ [Gp_Listed (ge_rows old_env (tk_log fresh_poller))])"
    and start: "tk_log fresh_poller = []"
    by (simp_all add: fresh_poller_def old_env_def)
  from overdue_row_ended [OF this(1-4) disjI1 [OF conjI [OF row(2,3)]]] show ?thesis
    unfolding row(1) start by simp
qed

section \<open>The reads of a pass\<close>

fun is_fetch :: "gp_effect \<Rightarrow> bool" where
  "is_fetch (Fetch_Asked d) = True"
| "is_fetch _ = False"

text \<open>What the work on row \<open>d\<close> may do to the state: \<open>J\<close> is closed under it.\<close>

definition row_closed :: "string \<Rightarrow> (gp_state \<Rightarrow> bool) \<Rightarrow> bool" where
  "row_closed d J \<longleftrightarrow>
     (\<forall>s x. J s \<longrightarrow> \<not> is_fetch x \<longrightarrow> J (s\<lparr>tk_log := tk_log s @ [x]\<rparr>)) \<and>
     (\<forall>s f. J s \<longrightarrow> J (s\<lparr>gp_states := AList.map_entry d f (gp_states s)\<rparr>)) \<and>
     (\<forall>s. J s \<longrightarrow> J (s\<lparr>gp_states := AList.delete d (gp_states s)\<rparr>)) \<and>
     (\<forall>s st. J s \<longrightarrow> J (s\<lparr>gp_states := (d, st) # gp_states s\<rparr>)) \<and>
     (\<forall>s f. J s \<longrightarrow> gp_reads s \<noteq> 0 \<longrightarrow> J (s\<lparr>gp_reads := gp_reads s - 1, gp_states := AList.map_entry d f (gp_states s),
        tk_log := tk_log s @ [Fetch_Asked d]\<rparr>))"

lemma closed_act: "row_closed d J \<Longrightarrow> \<not> is_fetch x \<Longrightarrow> keeps J (act x)"
  by (rule keeps_act) (simp add: row_closed_def)

lemma closed_call: "row_closed d J \<Longrightarrow> keeps J (gp_call e)"
  unfolding gp_call_def by (intro keeps_andThen keeps_option keeps_ask keeps_give keeps_fail closed_act) auto

lemma closed_read: "row_closed d J \<Longrightarrow> (\<And>x. \<not> is_fetch (eff x)) \<Longrightarrow> keeps J (gp_reads_from e f eff)"
  unfolding gp_reads_from_def by (intro keeps_andThen keeps_ask keeps_give closed_call closed_act)

lemma closed_memory:
  assumes "row_closed (dp_id r) J"
  shows "keeps J (keep_state (dp_id r) st)" "keeps J (forget_row (dp_id r))" "keeps J (stateOf r)"
proof -
  show "keeps J (keep_state (dp_id r) st)" unfolding keep_state_def by (rule keeps_change) (use assms in \<open>simp add: row_closed_def\<close>)
  show "keeps J (forget_row (dp_id r))" unfolding forget_row_def by (rule keeps_change) (use assms in \<open>simp add: row_closed_def\<close>)
  have "keeps J (change (\<lambda>s. s\<lparr>gp_states := (dp_id r, fresh_state r) # gp_states s\<rparr>))"
    by (rule keeps_change) (use assms in \<open>simp add: row_closed_def\<close>)
  then show "keeps J (stateOf r)" unfolding stateOf_def by (intro keeps_andThen keeps_look keeps_option keeps_give)
qed

lemma closed_log:
  assumes "row_closed (dp_id r) J"
  shows "keeps J (loggedLines e r st)" "keeps J (writeLines e k r st new)" "keeps J (endBecause e r st status message q new)"
proof -
  show known: "keeps J (loggedLines e r st)" for st unfolding loggedLines_def Let_def
    by (intro keeps_option keeps_give keeps_andThen closed_read [OF assms] closed_memory [OF assms]) simp
  show new: "keeps J (writeLines e k r st new)" for k st new unfolding writeLines_def Let_def
    by (intro keeps_if keeps_pair keeps_give keeps_andThen known closed_call [OF assms] closed_act [OF assms] closed_memory [OF assms]) simp_all
  show "keeps J (endBecause e r st status message q new)" unfolding endBecause_def
    by (intro keeps_if keeps_give keeps_andThen new closed_read [OF assms] closed_act [OF assms] closed_memory [OF assms]) simp_all
qed

lemma closed_read_row:
  assumes "row_closed (dp_id r) J"
  shows "keeps J (read_row e r st now x)" "keeps J (unreadable_row e r st)"
proof -
  have progress: "keeps J (set_progress e (dp_id r) status step)" for status step
    unfolding set_progress_def by (rule closed_read [OF assms]) simp
  show "keeps J (unreadable_row e r st)" unfolding unreadable_row_def
    by (intro keeps_andThen keeps_pair keeps_if keeps_give progress closed_memory [OF assms] closed_log [OF assms])
  have over: "keeps J (over_row e r st now c)" for st c unfolding over_row_def Let_def
    by (intro keeps_andThen keeps_pair keeps_if keeps_give closed_read [OF assms] closed_memory [OF assms] closed_log [OF assms]) simp
  have going: "keeps J (going_row e r st p)" for st p unfolding going_row_def Let_def
    by (intro keeps_andThen keeps_if keeps_give progress closed_memory [OF assms])
  show "keeps J (read_row e r st now x)" unfolding read_row_def Let_def
    by (intro keeps_andThen keeps_pair keeps_if closed_memory [OF assms] closed_log [OF assms] going over)
qed

lemma andThen_change: "andThen (change f) g s = g () (f s)"
  by (simp add: andThen_def change_def)

lemma andThen_act: "andThen (act x) g s = g () (s\<lparr>tk_log := tk_log s @ [x]\<rparr>)"
  by (simp add: andThen_def act_def)

lemma andThen_keep: "andThen (keep_state d st) g s = g () (s\<lparr>gp_states := AList.map_entry d (\<lambda>_. st) (gp_states s)\<rparr>)"
  by (simp add: keep_state_def andThen_change)

text \<open>What follows the request of a read.\<close>

definition fetch_rest :: "gp_env \<Rightarrow> deployment \<Rightarrow> row_state \<Rightarrow> int \<Rightarrow> unit gp" where
  "fetch_rest e r st now = andThen (gp_reads_from e (ge_fetch e) (Fetch_Answered (dp_id r))) (\<lambda>x. case x of
        Fetch_Backoff ms \<Rightarrow> keep_state (dp_id r) (st\<lparr>gs_nextPollAt := now + min ms MAX_BACKOFF_MS\<rparr>)
      | Fetch_Unreadable \<Rightarrow> andThen (keep_state (dp_id r) (st\<lparr>gs_nextPollAt := now + UNREADABLE_POLL_INTERVAL_MS\<rparr>)) (\<lambda>_.
           unreadable_row e r (st\<lparr>gs_nextPollAt := now + UNREADABLE_POLL_INTERVAL_MS\<rparr>))
      | Fetch_Ok y \<Rightarrow> read_row e r st now y)"

lemma fetch_row_eq: "fetch_row e r st now s = fetch_rest e r (st\<lparr>gs_lastReadAt := now\<rparr>) now
    (s\<lparr>gp_reads := gp_reads s - 1, gp_states := AList.map_entry (dp_id r) (\<lambda>_. st\<lparr>gs_lastReadAt := now\<rparr>) (gp_states s),
       tk_log := tk_log s @ [Fetch_Asked (dp_id r)]\<rparr>)"
  by (simp add: fetch_row_def fetch_rest_def Let_def andThen_change andThen_act andThen_keep)

lemma closed_fetch:
  assumes "row_closed (dp_id r) J"
  shows "keeps (\<lambda>s. J s) (andThen (look gp_reads) (\<lambda>left. if left = 0 then give () else fetch_row e r st now))"
proof -
  have rest: "keeps J (fetch_rest e r st now)" for st unfolding fetch_rest_def
    by (intro keeps_andThen closed_read [OF assms], simp)
      (auto intro!: keeps_andThen closed_memory [OF assms] closed_read_row [OF assms] split: fetch_result.split)
  have "J (snd (fetch_row e r st now s))" if "J s" "gp_reads s \<noteq> 0" for s
    using rest that assms by (simp add: fetch_row_eq keeps_def row_closed_def)
  then show ?thesis by (simp add: keeps_def andThen_look give_def)
qed

lemma closed_row:
  assumes "row_closed (dp_id r) J"
  shows "keeps J (pollRow e now r)"
  unfolding pollRow_def end_with_def Let_def
  by (intro keeps_andThen [where m = "stateOf r"] keeps_option keeps_if keeps_give closed_fetch [OF assms] closed_memory [OF assms]
      closed_log [OF assms])
    (intro keeps_andThen keeps_if keeps_give closed_memory [OF assms] closed_log [OF assms])?

text \<open>The reads since \<open>h\<close> and the ones left are 25, and were of rows of \<open>D\<close>.\<close>

definition spent :: "gp_effect list \<Rightarrow> string set \<Rightarrow> gp_state \<Rightarrow> bool" where
  "spent h D s \<longleftrightarrow> (\<exists>es. tk_log s = h @ es \<and> length (filter is_fetch es) + gp_reads s = MAX_READS_PER_PASS \<and>
     (\<forall>d. Fetch_Asked d \<in> set es \<longrightarrow> d \<in> D))"

lemma spent_closed: "d \<in> D \<Longrightarrow> row_closed d (spent h D)"
proof -
  assume d: "d \<in> D"
  have "spent h D (s\<lparr>tk_log := tk_log s @ [x]\<rparr>)" if "spent h D s" "\<not> is_fetch x" for s x
    using that by (fastforce simp: spent_def)
  moreover have "spent h D (s\<lparr>gp_reads := gp_reads s - 1, gp_states := xs, tk_log := tk_log s @ [Fetch_Asked d]\<rparr>)"
    if s: "spent h D s" "gp_reads s \<noteq> 0" for s xs
  proof -
    obtain es where "tk_log s = h @ es" "length (filter is_fetch es) + gp_reads s = MAX_READS_PER_PASS"
      "\<forall>d. Fetch_Asked d \<in> set es \<longrightarrow> d \<in> D" using s(1) by (auto simp: spent_def)
    with d s(2) show ?thesis unfolding spent_def by (intro exI [of _ "es @ [Fetch_Asked d]"]) auto
  qed
  ultimately show ?thesis by (simp add: row_closed_def spent_def)
qed

lemma other_closed: "i \<noteq> d \<Longrightarrow> row_closed d (\<lambda>s. map_of (gp_states s) i = v)"
  by (simp add: row_closed_def AList.map_of_map_entry AList.delete_conv)

text \<open>A row that is read as soon as there is a read left.\<close>

definition due_read :: "deployment \<Rightarrow> row_state option \<Rightarrow> int \<Rightarrow> bool" where
  "due_read r st now \<longleftrightarrow> dp_deployQueuedAt r = None \<and> now - row_started r now \<le> MAX_LIVE_ROW_AGE_MS \<and>
     dp_buildRunStatus r \<noteq> Some Run_Completed \<and>
     (case st of None \<Rightarrow> 0 \<le> now | Some x \<Rightarrow> gs_finishedAt x = None \<and> gs_nextPollAt x \<le> now)"

lemma due_fetches:
  assumes "due_read r (map_of (gp_states s) (dp_id r)) now" and "gp_reads s \<noteq> 0"
  shows "\<exists>es. tk_log (snd (pollRow e now r s)) = tk_log s @ es \<and> Fetch_Asked (dp_id r) \<in> set es"
proof -
  obtain st s1 where st: "stateOf r s = (Inr st, s1)" "tk_log s1 = tk_log s" "gp_reads s1 = gp_reads s"
    "gs_finishedAt st = None" "gs_nextPollAt st \<le> now"
  proof (cases "map_of (gp_states s) (dp_id r)")
    case None
    with assms(1) that [of "fresh_state r"] show ?thesis
      by (simp add: stateOf_def andThen_look andThen_change give_def fresh_state_def due_read_def)
  next
    case (Some x)
    with assms(1) that [of x] show ?thesis by (simp add: stateOf_def andThen_look give_def due_read_def)
  qed
  have run: "pollRow e now r s = fetch_row e r st now s1"
    using assms st by (simp add: pollRow_def due_read_def andThen_def look_def)
  have "keeps (extends h) (fetch_rest e r st now)" for h st
    unfolding fetch_rest_def
    by (intro keeps_andThen extends_gp_read) (auto intro!: keeps_andThen extends_memory extends_reading split: fetch_result.split)
  then have "extends (tk_log s @ [Fetch_Asked (dp_id r)]) (snd (fetch_row e r st now s1))"
    unfolding fetch_row_eq keeps_def using st(2) by (auto simp: extends_def [of _ "_\<lparr>tk_log := _\<rparr>"])
  then have "\<exists>es. tk_log (snd (fetch_row e r st now s1)) = (tk_log s @ [Fetch_Asked (dp_id r)]) @ es"
    by (simp add: extends_def)
  then show ?thesis unfolding run by auto
qed

lemma for_each_append: "for_each (xs @ ys) f = andThen (for_each xs f) (\<lambda>_. for_each ys f)"
  by (induction xs) (simp_all add: andThen_give andThen_assoc)

lemma never_fails: "fst (for_each xs (\<lambda>r. attempt (m r)) s) = Inr ()"
  by (induction xs arbitrary: s) (simp_all add: give_def andThen_def attempt_def)

lemma snd_andThen_each: "snd (andThen (for_each xs (\<lambda>r. attempt (m r))) f s) = snd (f () (snd (for_each xs (\<lambda>r. attempt (m r)) s)))"
proof -
  obtain u where "for_each xs (\<lambda>r. attempt (m r)) s = (Inr (), u)" using never_fails [of xs m s] by (cases "for_each xs (\<lambda>r. attempt (m r)) s") auto
  then show ?thesis by (simp add: andThen_def)
qed

text \<open>
  C32. A pass reads GitHub at most 25 times, and no row is held back by rows read after it: a row that is due
  is read in the pass, unless the 25 reads of the pass were all of rows that were last read no later than
  it.
\<close>

theorem reads_bounded_and_fair:
  assumes "\<not> gp_running s" and "ge_throws e (tk_log s) = None" and "rows = ge_rows e (tk_log s)"
    and "now = ge_now e (tk_log s @ [Gp_Listed rows])" and "distinct (map dp_id rows)"
    and "r \<in> set rows" and "due_read r (map_of (gp_states s) (dp_id r)) now"
  shows "\<exists>es. tk_log (snd (poll e s)) = tk_log s @ es \<and> length (filter is_fetch es) \<le> MAX_READS_PER_PASS \<and>
    (Fetch_Asked (dp_id r) \<in> set es \<or>
     length (filter is_fetch es) = MAX_READS_PER_PASS \<and>
     (\<forall>d. Fetch_Asked d \<in> set es \<longrightarrow> (\<exists>r'\<in>set rows. d = dp_id r' \<and> last_read s r' \<le> last_read s r)))"
proof -
  let ?f = "\<lambda>r. attempt (pollRow e now r)" and ?s0 = "pass_start e (s\<lparr>gp_running := True\<rparr>)"
  let ?h = "tk_log ?s0"
  have now: "now = pass_now e s" using assms(3,4) by (simp add: pass_now_def)
  have same: "last_read (pass_start e s) r' = last_read s r'" if "r' \<in> set rows" for r'
    using that assms(3) by (simp add: last_read_def pass_start_def Let_def map_of_filter_keys)
  obtain pre post where order: "pass_order e s = pre @ r # post"
    using assms(3,6) split_list [of r "pass_order e s"] by (auto simp: pass_order_def)
  have rows: "set pre \<union> {r} \<union> set post = set rows" using order assms(3) by (metis pass_order_def set_sort set_append set_simps(2) Un_insert_right Un_commute insert_is_Un)
  have "sorted (map (last_read (pass_start e s)) (pre @ r # post))" unfolding order [symmetric] pass_order_def by (rule sorted_sort_key)
  then have earlier: "last_read s r' \<le> last_read s r" if "r' \<in> set pre" for r'
  proof -
    from \<open>sorted (map (last_read (pass_start e s)) (pre @ r # post))\<close> that
    have "last_read (pass_start e s) r' \<le> last_read (pass_start e s) r" by (simp add: sorted_append)
    moreover have "r' \<in> set rows" using rows that by blast
    ultimately show ?thesis using same assms(6) by simp
  qed
  have keys: "distinct (map dp_id (pre @ r # post))"
    using assms(3,5) unfolding order [symmetric] pass_order_def by (simp add: distinct_map)
  have loop: "keeps J (for_each rs ?f)" if "\<And>r. r \<in> set rs \<Longrightarrow> row_closed (dp_id r) J" for J rs
    using that by (intro keeps_for_each keeps_attempt closed_row)
  let ?s1 = "snd (for_each pre ?f ?s0)" and ?s2 = "snd (for_each (pre @ r # post) ?f ?s0)"
  have start: "spent ?h D ?s0" for D by (simp add: spent_def pass_start_def Let_def)
  have s1: "spent ?h (dp_id ` set pre) ?s1"
    using loop [of pre "spent ?h (dp_id ` set pre)"] start spent_closed by (auto simp: keeps_def)
  have s2: "spent ?h UNIV ?s2"
    using loop [of "pre @ r # post" "spent ?h UNIV"] start spent_closed by (auto simp: keeps_def)
  have entry: "map_of (gp_states ?s1) (dp_id r) = map_of (gp_states s) (dp_id r)"
  proof -
    have "map_of (gp_states ?s0) (dp_id r) = map_of (gp_states s) (dp_id r)"
      using assms(3,6) by (simp add: pass_start_def Let_def map_of_filter_keys)
    moreover have "dp_id r' \<noteq> dp_id r" if "r' \<in> set pre" for r'
      using keys imageI [OF that, of dp_id] by auto
    ultimately show ?thesis
      using loop [of pre "\<lambda>u. map_of (gp_states u) (dp_id r) = map_of (gp_states s) (dp_id r)"] other_closed
      unfolding keeps_def by metis
  qed
  have log: "tk_log (snd (poll e s)) = tk_log ?s2" using poll_unfold [OF assms(1,2)] order now by simp
  have h: "?h = tk_log s @ [Gp_Listed rows, Gp_Clock now]" using assms(3,4) by (simp add: pass_start_def Let_def)
  from s2 obtain es where es: "tk_log ?s2 = ?h @ es" "length (filter is_fetch es) \<le> MAX_READS_PER_PASS" by (auto simp: spent_def)
  have split: "?s2 = snd (for_each (r # post) ?f ?s1)" by (simp add: for_each_append snd_andThen_each)
  have "keeps (extends k) (for_each rs ?f)" for k rs by (intro keeps_for_each keeps_attempt extends_row)
  then have grows: "\<exists>fs. tk_log (snd (for_each rs ?f u)) = tk_log u @ fs" for rs u
    unfolding keeps_def extends_def by (metis append_Nil2)
  show ?thesis
  proof (cases "gp_reads ?s1 = 0")
    case False
    obtain fs where fs: "tk_log (snd (pollRow e now r ?s1)) = tk_log ?s1 @ fs" "Fetch_Asked (dp_id r) \<in> set fs"
      using due_fetches [of r ?s1 now e] False assms(7) entry by auto
    have "?s2 = snd (for_each post ?f (snd (pollRow e now r ?s1)))"
      unfolding split by (simp add: andThen_def attempt_def)
    then obtain gs where gs: "tk_log ?s2 = tk_log ?s1 @ fs @ gs" using grows [of post "snd (pollRow e now r ?s1)"] fs(1) by auto
    obtain es1 where "tk_log ?s1 = ?h @ es1" using s1 by (auto simp: spent_def)
    with gs es(1) have "es = es1 @ fs @ gs" by simp
    with fs(2) have "Fetch_Asked (dp_id r) \<in> set es" by simp
    with es show ?thesis unfolding log h by (intro exI [of _ "[Gp_Listed rows, Gp_Clock now] @ es"]) simp
  next
    case True
    from s1 True obtain es1 where es1: "tk_log ?s1 = ?h @ es1" "length (filter is_fetch es1) = MAX_READS_PER_PASS"
      "\<forall>d. Fetch_Asked d \<in> set es1 \<longrightarrow> d \<in> dp_id ` set pre" by (auto simp: spent_def)
    obtain fs where "tk_log ?s2 = tk_log ?s1 @ fs" using grows [of "r # post" ?s1] unfolding split by blast
    with es1(1) es(1) have eq: "es = es1 @ fs" by simp
    with es(2) es1(2) have none: "filter is_fetch fs = []" by simp
    have "\<exists>r'\<in>set rows. d = dp_id r' \<and> last_read s r' \<le> last_read s r" if "Fetch_Asked d \<in> set es" for d
    proof -
      from none that eq have "Fetch_Asked d \<in> set es1" by (auto simp: filter_empty_conv)
      with es1(3) obtain r' where "r' \<in> set pre" "d = dp_id r'" by blast
      with earlier rows show ?thesis by blast
    qed
    with es es1(2) eq none show ?thesis unfolding log h by (intro exI [of _ "[Gp_Listed rows, Gp_Clock now] @ es"]) simp
  qed
qed

theorem reads_bounded_and_fair_witness:
  "\<exists>es. tk_log (snd (poll build_env fresh_poller)) = es \<and> length (filter is_fetch es) \<le> MAX_READS_PER_PASS \<and>
     Fetch_Asked ''d'' \<in> set es"
proof -
  have start: "\<not> gp_running fresh_poller" "ge_throws build_env (tk_log fresh_poller) = None"
    "[sample_row] = ge_rows build_env (tk_log fresh_poller)" "0 = ge_now build_env (tk_log fresh_poller @ [Gp_Listed [sample_row]])"
    "distinct (map dp_id [sample_row])" "sample_row \<in> set [sample_row]"
    by (simp_all add: fresh_poller_def build_env_def first_read_def)
  have "due_read sample_row (map_of (gp_states fresh_poller) (dp_id sample_row)) 0"
    by (simp add: due_read_def sample_row_def registered_row_def row_started_def MAX_LIVE_ROW_AGE_MS_def nullish_def fresh_poller_def)
  from reads_bounded_and_fair [OF start this] obtain es where es: "tk_log (snd (poll build_env fresh_poller)) = tk_log fresh_poller @ es"
    "length (filter is_fetch es) \<le> MAX_READS_PER_PASS" by blast
  have "list_ex (\<lambda>x. x = Fetch_Asked ''d'') (tk_log (snd (poll build_env fresh_poller)))" by code_simp
  with es show ?thesis by (auto simp: fresh_poller_def list_ex_iff)
qed

end
