(* ===== verification/Compose_Vars.thy ===== *)
theory Compose_Vars
  imports Text
begin

text \<open>
  The variables of a compose file, the first part of
  \<open>packages/server/src/utils/volume-backups/compose-volumes.ts\<close>: the references the regular
  expression \<open>VARIABLE\<close> finds, the value a text has (\<open>interpolateComposeValue\<close>), the values of an
  env file that refer to each other (\<open>resolveEnvironmentReferences\<close>), and the rules for a text that
  cannot be resolved. An object of strings is the list of its own properties in insertion order.
  \<open>String.prototype.replace\<close> with the expression is a map over the pieces of the text.
\<close>

section \<open>Objects of strings\<close>

type_synonym vars = "(string \<times> string) list"

text \<open>
  \<open>object[key] = value\<close> with a string value. Assigning a string to \<open>__proto__\<close> of an ordinary object
  is ignored: it makes no property of that name.
\<close>

definition set_property :: "string \<Rightarrow> string \<Rightarrow> vars \<Rightarrow> vars" where
  "set_property k v o' = (if k = ''__proto__'' then o' else AList.update k v o')"

section \<open>The references in a text\<close>

datatype var_operator = Or_Default bool | Or_Alternative bool | Or_Error bool

datatype piece = Plain char | Escaped | Bare string | Braced string "(var_operator \<times> string) option"

definition var_start :: "char \<Rightarrow> bool" where
  "var_start c \<longleftrightarrow> is_alnum c \<and> \<not> is_digit c \<or> c = CHR ''_''"

definition var_char :: "char \<Rightarrow> bool" where
  "var_char c \<longleftrightarrow> is_alnum c \<or> c = CHR ''_''"

definition name_of :: "string \<Rightarrow> string" where
  "name_of s = (if s \<noteq> [] \<and> var_start (hd s) then takeWhile var_char s else [])"

definition starts_with :: "char \<Rightarrow> string \<Rightarrow> bool" where
  "starts_with c s \<longleftrightarrow> s \<noteq> [] \<and> hd s = c"

definition no_brace :: "char \<Rightarrow> bool" where
  "no_brace c \<longleftrightarrow> c \<noteq> CHR ''{'' \<and> c \<noteq> CHR ''}''"

definition operator_at :: "string \<Rightarrow> (var_operator \<times> string) option" where
  "operator_at s =
     (let colon = starts_with (CHR '':'') s; t = (if colon then tl s else s)
      in if starts_with (CHR ''-'') t then Some (Or_Default colon, tl t)
         else if starts_with (CHR ''+'') t then Some (Or_Alternative colon, tl t)
         else if starts_with (CHR ''?'') t then Some (Or_Error colon, tl t)
         else None)"

text \<open>The text after an operator, up to where \<open>(?:[^{}]|\{[^{}]*\})*\<close> stops.\<close>

function argument :: "string \<Rightarrow> string \<times> string" where
  "argument [] = ([], [])"
| "argument (c # cs) =
     (if c = CHR ''}'' then ([], c # cs)
      else if c = CHR ''{''
      then let inner = takeWhile no_brace cs; rest = dropWhile no_brace cs
           in if starts_with (CHR ''}'') rest
              then let (a, r) = argument (tl rest) in (c # inner @ CHR ''}'' # a, r)
              else ([], c # cs)
      else let (a, r) = argument cs in (c # a, r))"
  by pat_completeness auto
termination
  by (relation "measure length")
    (auto simp: less_Suc_eq_le intro: order_trans [OF _ length_dropWhile_le] diff_le_self order_trans)

definition braced_match :: "string \<Rightarrow> (piece \<times> string) option" where
  "braced_match s =
     (let key = name_of s; t = drop (length key) s
      in if key = [] then None
         else if starts_with (CHR ''}'') t then Some (Braced key None, tl t)
         else case operator_at t of None \<Rightarrow> None
           | Some (oper, u) \<Rightarrow> (let (arg, v) = argument u
               in if starts_with (CHR ''}'') v then Some (Braced key (Some (oper, arg)), tl v) else None))"

text \<open>The match of \<open>VARIABLE\<close> that starts_with at the start of the text.\<close>

definition variable_match :: "string \<Rightarrow> (piece \<times> string) option" where
  "variable_match s =
     (if \<not> starts_with (CHR ''$'') s then None
      else if starts_with (CHR ''$'') (tl s) then Some (Escaped, tl (tl s))
      else if starts_with (CHR ''{'') (tl s) then braced_match (tl (tl s))
      else let key = name_of (tl s)
           in if key = [] then None else Some (Bare key, drop (length key) (tl s)))"

subsection \<open>Every piece is text that was there\<close>

fun operator_text :: "var_operator \<Rightarrow> string" where
  "operator_text (Or_Default colon) = (if colon then '':-'' else ''-'')"
| "operator_text (Or_Alternative colon) = (if colon then '':+'' else ''+'')"
| "operator_text (Or_Error colon) = (if colon then '':?'' else ''?'')"

fun piece_text :: "piece \<Rightarrow> string" where
  "piece_text (Plain c) = [c]"
| "piece_text Escaped = ''$$''"
| "piece_text (Bare key) = ''$'' @ key"
| "piece_text (Braced key None) = ''${'' @ key @ ''}''"
| "piece_text (Braced key (Some (oper, arg))) = ''${'' @ key @ operator_text oper @ arg @ ''}''"

lemma starts_with_iff: "starts_with c s \<longleftrightarrow> (\<exists>t. s = c # t)"
  by (cases s) (auto simp: starts_with_def)

lemma startsE: "starts_with c s \<Longrightarrow> s = c # tl s"
  by (auto simp: starts_with_iff)

lemma name_of_split: "s = name_of s @ drop (length (name_of s)) s"
  by (auto simp: name_of_def dropWhile_eq_drop [symmetric])

lemma operator_at_split: "operator_at s = Some (oper, t) \<Longrightarrow> s = operator_text oper @ t"
  by (auto simp: operator_at_def Let_def starts_with_iff split: if_splits)

lemma argument_split: "argument s = (a, r) \<Longrightarrow> s = a @ r"
proof (induction s arbitrary: a r rule: argument.induct)
  case (2 c cs)
  show ?case
  proof (cases "c = CHR ''{'' \<and> starts_with (CHR ''}'') (dropWhile no_brace cs)")
    case True
    obtain a' r' where inner: "argument (tl (dropWhile no_brace cs)) = (a', r')" by fastforce
    have "tl (dropWhile no_brace cs) = a' @ r'" using 2(1) True inner by fastforce
    moreover have "cs = takeWhile no_brace cs @ CHR ''}'' # tl (dropWhile no_brace cs)"
      using startsE [OF conjunct2 [OF True]] takeWhile_dropWhile_id [of no_brace cs] by argo
    ultimately have "cs = takeWhile no_brace cs @ CHR ''}'' # a' @ r'" by simp
    then show ?thesis using "2.prems" True inner by (auto simp: Let_def)
  next
    case False
    then show ?thesis using 2 by (auto simp: Let_def split: if_splits prod.splits)
  qed
qed simp

lemma braced_match_split: "braced_match s = Some (p, t) \<Longrightarrow> piece_text p @ t = ''${'' @ s"
proof -
  assume found: "braced_match s = Some (p, t)"
  let ?key = "name_of s"
  let ?t = "drop (length ?key) s"
  have s: "s = ?key @ ?t" by (rule name_of_split)
  show "piece_text p @ t = ''${'' @ s"
  proof (cases "starts_with (CHR ''}'') ?t")
    case True
    then have "p = Braced ?key None" "t = tl ?t" using found by (auto simp: braced_match_def Let_def split: if_splits)
    moreover have "?key @ CHR ''}'' # tl ?t = s" using s startsE [OF True] by metis
    ultimately show ?thesis by simp
  next
    case False
    then obtain oper u arg v where oper: "operator_at ?t = Some (oper, u)" and arg: "argument u = (arg, v)"
      and v: "starts_with (CHR ''}'') v" and p: "p = Braced ?key (Some (oper, arg))" "t = tl v"
      using found by (auto simp: braced_match_def Let_def split: if_splits option.splits prod.splits)
    have "?t = operator_text oper @ arg @ CHR ''}'' # t"
      using operator_at_split [OF oper] argument_split [OF arg] startsE [OF v] p by metis
    then have "?key @ operator_text oper @ arg @ CHR ''}'' # t = s" using s by metis
    then show ?thesis using p by simp
  qed
qed

lemma variable_match_split: "variable_match s = Some (p, t) \<Longrightarrow> piece_text p @ t = s"
proof -
  assume found: "variable_match s = Some (p, t)"
  then have s: "s = CHR ''$'' # tl s" by (auto simp: variable_match_def startsE split: if_splits)
  show "piece_text p @ t = s"
  proof (cases "starts_with (CHR ''$'') (tl s) \<or> \<not> starts_with (CHR ''{'') (tl s)")
    case True
    have "tl s = name_of (tl s) @ drop (length (name_of (tl s))) (tl s)" by (rule name_of_split)
    with True found s startsE [of "CHR ''$''" "tl s"] show ?thesis
      by (auto simp: variable_match_def Let_def split: if_splits)
  next
    case False
    then have "piece_text p @ t = ''${'' @ tl (tl s)"
      using found by (auto simp: variable_match_def Let_def split: if_splits dest: braced_match_split)
    moreover have "tl s = CHR ''{'' # tl (tl s)" using False by (auto intro: startsE)
    ultimately show ?thesis using s by (metis append_Cons append_Nil)
  qed
qed

lemma piece_text_length: "0 < length (piece_text p)"
  by (cases p rule: piece_text.cases) auto

lemma variable_match_shorter: "variable_match s = Some (p, t) \<Longrightarrow> length t < length s"
  using variable_match_split [of s p t] piece_text_length [of p] by (metis length_append less_add_same_cancel2)

function pieces :: "string \<Rightarrow> piece list" where
  "pieces [] = []"
| "pieces (c # cs) = (case variable_match (c # cs) of
      Some (p, rest) \<Rightarrow> p # pieces rest | None \<Rightarrow> Plain c # pieces cs)"
  by pat_completeness auto
termination by (relation "measure length") (auto dest: variable_match_shorter)

lemma pieces_text: "concat (map piece_text (pieces s)) = s"
  by (induction s rule: pieces.induct) (auto split: option.splits dest: variable_match_split)

lemma piece_arg_shorter:
  assumes "Braced key (Some (oper, arg)) \<in> set (pieces s)" shows "length arg < length s"
proof -
  obtain as bs where "pieces s = as @ Braced key (Some (oper, arg)) # bs" using split_list [OF assms] by blast
  then have "s = concat (map piece_text as) @ ''${'' @ key @ operator_text oper @ arg @ ''}'' @ concat (map piece_text bs)"
    using pieces_text [of s] by simp
  then have "length s = length (concat (map piece_text as) @ ''${'' @ key @ operator_text oper @ arg @ ''}''
      @ concat (map piece_text bs))" by (rule arg_cong)
  then show ?thesis by simp
qed

section \<open>The value of a text\<close>

definition escaped_dollar :: char where "escaped_dollar = CHR 0x00"
definition unknown_mark :: char where "unknown_mark = CHR 0x01"
definition unresolved_mark :: char where "unresolved_mark = CHR 0x02"

text \<open>The variables a check knows: none at all (\<open>env: null\<close>), and whether any may come from elsewhere.\<close>

record var_source =
  vs_env :: "vars option"
  vs_strict :: bool

definition some_text :: "string option \<Rightarrow> bool" where
  "some_text v \<longleftrightarrow> v \<noteq> None \<and> v \<noteq> Some []"

text \<open>The value of a reference from the variable's value and the operator's argument; None is refused.\<close>

fun reference_value :: "string option \<Rightarrow> (var_operator \<times> string option) option \<Rightarrow> string option" where
  "reference_value v None = Some (case v of None \<Rightarrow> [] | Some t \<Rightarrow> t)"
| "reference_value v (Some (Or_Default True, alt)) = (if some_text v then v else alt)"
| "reference_value v (Some (Or_Default False, alt)) = (if v \<noteq> None then v else alt)"
| "reference_value v (Some (Or_Alternative True, alt)) = (if some_text v then alt else Some [])"
| "reference_value v (Some (Or_Alternative False, alt)) = (if v \<noteq> None then alt else Some [])"
| "reference_value v (Some (Or_Error True, alt)) = (if some_text v then v else None)"
| "reference_value v (Some (Or_Error False, alt)) = v"

definition known :: "var_source \<Rightarrow> string \<Rightarrow> string option" where
  "known src key = Option.bind (vs_env src) (\<lambda>env. map_of env key)"

definition trusted :: "var_source \<Rightarrow> bool" where
  "trusted src \<longleftrightarrow> vs_env src \<noteq> None \<and> \<not> vs_strict src"

definition cannot_be_known :: "string \<Rightarrow> bool" where
  "cannot_be_known t \<longleftrightarrow> CHR ''$'' \<in> set t \<or> unknown_mark \<in> set t \<or> unresolved_mark \<in> set t"

definition joined_value :: "string option list \<Rightarrow> string option" where
  "joined_value vs =
     (if None \<in> set vs \<or> cannot_be_known (concat (map the vs)) then None
      else Some (map (\<lambda>c. if c = escaped_dollar then CHR ''$'' else c) (concat (map the vs))))"

function interpolateComposeValue :: "var_source \<Rightarrow> string \<Rightarrow> string option" where
  "interpolateComposeValue src text =
     (if CHR ''$'' \<notin> set text then Some text
      else joined_value (map (\<lambda>p. case p of
          Plain c \<Rightarrow> Some [c]
        | Escaped \<Rightarrow> Some [escaped_dollar]
        | Bare key \<Rightarrow> if trusted src then reference_value (known src key) None else None
        | Braced key None \<Rightarrow> if trusted src then reference_value (known src key) None else None
        | Braced key (Some (oper, arg)) \<Rightarrow>
            if trusted src then reference_value (known src key) (Some (oper, interpolateComposeValue src arg)) else None)
        (pieces text)))"
  by pat_completeness auto
termination by (relation "measure (\<lambda>(src, text). length text)") (auto dest: piece_arg_shorter)

declare interpolateComposeValue.simps [simp del]

subsection \<open>What is not known does not decide a value\<close>

text \<open>
  A completion of an environment: the variables that are known have their value, those that hold a mark
  are set to some text, and no others are set.
\<close>

definition marked :: "string \<Rightarrow> bool" where
  "marked t \<longleftrightarrow> unknown_mark \<in> set t \<or> unresolved_mark \<in> set t"

definition completes :: "vars \<Rightarrow> vars \<Rightarrow> bool" where
  "completes env full \<longleftrightarrow> (\<forall>key. case map_of env key of
      None \<Rightarrow> map_of full key = None
    | Some t \<Rightarrow> if marked t then some_text (map_of full key) else map_of full key = Some t)"

lemma completes_known:
  assumes "completes env full"
  shows "map_of env key = None \<longleftrightarrow> map_of full key = None"
    "some_text (map_of env key) \<longleftrightarrow> some_text (map_of full key)"
    "map_of env key = Some t \<Longrightarrow> \<not> marked t \<Longrightarrow> map_of full key = Some t"
  using assms [unfolded completes_def, THEN spec, of key]
  by (auto simp: some_text_def marked_def split: option.splits if_splits)

lemma reference_value_completed:
  assumes "completes env full"
    and "reference_value (map_of env key) (map_option (map_prod id alt) oa) = Some t" "\<not> marked t"
    and "\<And>oper arg u. oa = Some (oper, arg) \<Longrightarrow> alt arg = Some u \<Longrightarrow> alt' arg = Some u"
  shows "reference_value (map_of full key) (map_option (map_prod id alt') oa) = Some t"
proof -
  note fits = completes_known [OF assms(1), of key]
  have fixed: "map_of env key = Some u \<Longrightarrow> \<not> marked u \<Longrightarrow> map_of full key = Some u" for u by (rule fits(3))
  have unset: "map_of env key = None \<Longrightarrow> map_of full key = None" using fits(1) by simp
  show ?thesis
  proof (cases oa)
    case None
    then show ?thesis using assms(2,3) fixed unset by (auto split: option.splits)
  next
    case (Some x)
    then obtain oper arg where oa: "oa = Some (oper, arg)" by (cases x) auto
    have alt: "alt arg = Some u \<Longrightarrow> alt' arg = Some u" for u using assms(4) oa by simp
    show ?thesis
    proof (cases oper)
      case (Or_Default b)
      then show ?thesis using assms(2,3) oa fixed unset alt fits(2) by (cases b) (auto split: if_splits)
    next
      case (Or_Alternative b)
      then show ?thesis using assms(2,3) oa alt fits(1,2) by (cases b) (auto split: if_splits)
    next
      case (Or_Error b)
      then show ?thesis using assms(2,3) oa fixed fits(2) by (cases b) (auto split: if_splits)
    qed
  qed
qed

text \<open>The value of one piece, with the argument of its operator as it is interpolated.\<close>

fun piece_value :: "var_source \<Rightarrow> (string \<Rightarrow> string option) \<Rightarrow> piece \<Rightarrow> string option" where
  "piece_value src rec (Plain c) = Some [c]"
| "piece_value src rec Escaped = Some [escaped_dollar]"
| "piece_value src rec (Bare key) = (if trusted src then reference_value (known src key) None else None)"
| "piece_value src rec (Braced key oa) =
     (if trusted src then reference_value (known src key) (map_option (map_prod id rec) oa) else None)"

lemma interpolate_pieces:
  "interpolateComposeValue src text = (if CHR ''$'' \<notin> set text then Some text
     else joined_value (map (piece_value src (interpolateComposeValue src)) (pieces text)))"
proof -
  have "(case p of Plain c \<Rightarrow> Some [c] | Escaped \<Rightarrow> Some [escaped_dollar]
        | Bare key \<Rightarrow> if trusted src then reference_value (known src key) None else None
        | Braced key None \<Rightarrow> if trusted src then reference_value (known src key) None else None
        | Braced key (Some (oper, arg)) \<Rightarrow>
            if trusted src then reference_value (known src key) (Some (oper, interpolateComposeValue src arg)) else None)
     = piece_value src (interpolateComposeValue src) p" for p
    by (auto split: piece.splits option.splits)
  then show ?thesis by (subst interpolateComposeValue.simps) presburger
qed

lemma joined_value_parts:
  assumes "joined_value (map f ps) = Some r" and "p \<in> set ps"
  shows "\<exists>t. f p = Some t \<and> \<not> cannot_be_known t"
proof -
  have "None \<notin> f ` set ps" "\<not> cannot_be_known (concat (map the (map f ps)))"
    using assms(1) by (auto simp: joined_value_def split: if_splits)
  then have "f p \<noteq> None" using assms(2) by (metis image_eqI)
  then obtain t where "f p = Some t" by blast
  moreover have "set (the (f p)) \<subseteq> set (concat (map the (map f ps)))" using assms(2) by auto
  ultimately show ?thesis using \<open>\<not> cannot_be_known _\<close> by (auto simp: cannot_be_known_def subset_iff)
qed

lemma joined_value_same:
  assumes "joined_value (map f ps) = Some r" "\<And>p t. p \<in> set ps \<Longrightarrow> f p = Some t \<Longrightarrow> \<not> cannot_be_known t \<Longrightarrow> g p = Some t"
  shows "joined_value (map g ps) = Some r"
proof -
  have "f p = g p" if "p \<in> set ps" for p
    using joined_value_parts [OF assms(1) that] assms(2) [OF that] by auto
  then have "map f ps = map g ps" by (rule map_cong [OF refl])
  then show ?thesis using assms(1) by argo
qed

lemma interpolate_completed:
  assumes "completes env full"
  shows "interpolateComposeValue \<lparr>vs_env = Some env, vs_strict = False\<rparr> v = Some r \<Longrightarrow>
    interpolateComposeValue \<lparr>vs_env = Some full, vs_strict = False\<rparr> v = Some r"
proof (induction v arbitrary: r rule: measure_induct_rule [of length])
  case (less v)
  show ?case
  proof (cases "CHR ''$'' \<in> set v")
    case True
    let ?f = "\<lambda>e. piece_value \<lparr>vs_env = Some e, vs_strict = False\<rparr>
      (interpolateComposeValue \<lparr>vs_env = Some e, vs_strict = False\<rparr>)"
    have "joined_value (map (?f env) (pieces v)) = Some r"
      using less.prems True interpolate_pieces [of _ v] by simp
    then have "joined_value (map (?f full) (pieces v)) = Some r"
    proof (rule joined_value_same)
      fix p t
      assume p: "p \<in> set (pieces v)" and t: "?f env p = Some t" "\<not> cannot_be_known t"
      from t(2) have "\<not> marked t" by (auto simp: cannot_be_known_def marked_def)
      show "?f full p = Some t"
      proof (cases p)
        case (Bare key)
        then show ?thesis
          using t reference_value_completed [OF assms, of key _ None t] \<open>\<not> marked t\<close> by (simp add: trusted_def known_def)
      next
        case (Braced key oa)
        have "interpolateComposeValue \<lparr>vs_env = Some env, vs_strict = False\<rparr> arg = Some u \<Longrightarrow>
            interpolateComposeValue \<lparr>vs_env = Some full, vs_strict = False\<rparr> arg = Some u"
          if "oa = Some (oper, arg)" for oper arg u
          using less.IH p that Braced piece_arg_shorter by blast
        then show ?thesis
          using t Braced \<open>\<not> marked t\<close> by (auto simp: trusted_def known_def intro!: reference_value_completed [OF assms])
      qed (use t in auto)
    qed
    then show ?thesis using True interpolate_pieces [of _ v] by simp
  next
    case False
    then show ?thesis using less.prems interpolate_pieces [of _ v] by simp
  qed
qed

section \<open>Values that refer to each other\<close>

function expand :: "vars \<Rightarrow> string list \<Rightarrow> vars \<Rightarrow> string \<Rightarrow> string" where
  "expand env unknownNames resolved txt =
     concat (map (\<lambda>p. case p of
         Plain c \<Rightarrow> [c]
       | Escaped \<Rightarrow> ''$''
       | Bare key \<Rightarrow>
           if key \<in> set unknownNames then [unknown_mark]
           else (case map_of resolved key of Some current \<Rightarrow> current
             | None \<Rightarrow> if map_of env key \<noteq> None then [unresolved_mark] else [])
       | Braced key None \<Rightarrow>
           if key \<in> set unknownNames then [unknown_mark]
           else (case map_of resolved key of Some current \<Rightarrow> current
             | None \<Rightarrow> if map_of env key \<noteq> None then [unresolved_mark] else [])
       | Braced key (Some (oper, arg)) \<Rightarrow>
           if key \<in> set unknownNames then [unknown_mark]
           else (case map_of resolved key of
               Some current \<Rightarrow> (case oper of
                   Or_Default True \<Rightarrow> if current \<noteq> [] then current else expand env unknownNames resolved arg
                 | Or_Alternative True \<Rightarrow> if current \<noteq> [] then expand env unknownNames resolved arg else []
                 | Or_Alternative False \<Rightarrow> expand env unknownNames resolved arg
                 | _ \<Rightarrow> current)
             | None \<Rightarrow> if map_of env key \<noteq> None then [unresolved_mark]
                 else (case oper of
                     Or_Default _ \<Rightarrow> expand env unknownNames resolved arg
                   | Or_Error _ \<Rightarrow> [unresolved_mark]
                   | Or_Alternative _ \<Rightarrow> [])))
       (pieces txt))"
  by pat_completeness auto
termination by (relation "measure (\<lambda>(_, _, _, txt). length txt)") (auto dest: piece_arg_shorter)

declare expand.simps [simp del]

definition resolve_entry :: "vars \<Rightarrow> string list \<Rightarrow> string \<times> string \<Rightarrow> vars \<Rightarrow> vars" where
  "resolve_entry env unknownNames e resolved =
     (let t = expand env unknownNames resolved (snd e)
      in set_property (fst e) (if unresolved_mark \<in> set t then [unresolved_mark] else t) resolved)"

definition resolveEnvironmentReferences :: "vars \<Rightarrow> string list \<Rightarrow> vars" where
  "resolveEnvironmentReferences env unknownNames = fold (resolve_entry env unknownNames) env []"

subsection \<open>The resolved values stand\<close>

definition reference_expansion ::
  "vars \<Rightarrow> string list \<Rightarrow> vars \<Rightarrow> (string \<Rightarrow> string) \<Rightarrow> string \<Rightarrow> (var_operator \<times> string) option \<Rightarrow> string" where
  "reference_expansion env un resolved rec key oa =
     (if key \<in> set un then [unknown_mark]
      else case map_of resolved key of
          Some current \<Rightarrow> (case oa of
              Some (Or_Default True, arg) \<Rightarrow> if current \<noteq> [] then current else rec arg
            | Some (Or_Alternative True, arg) \<Rightarrow> if current \<noteq> [] then rec arg else []
            | Some (Or_Alternative False, arg) \<Rightarrow> rec arg
            | _ \<Rightarrow> current)
        | None \<Rightarrow> if map_of env key \<noteq> None then [unresolved_mark]
            else (case oa of
                Some (Or_Default _, arg) \<Rightarrow> rec arg
              | Some (Or_Error _, arg) \<Rightarrow> [unresolved_mark]
              | _ \<Rightarrow> []))"

fun piece_expansion :: "vars \<Rightarrow> string list \<Rightarrow> vars \<Rightarrow> (string \<Rightarrow> string) \<Rightarrow> piece \<Rightarrow> string" where
  "piece_expansion env un resolved rec (Plain c) = [c]"
| "piece_expansion env un resolved rec Escaped = ''$''"
| "piece_expansion env un resolved rec (Bare key) = reference_expansion env un resolved rec key None"
| "piece_expansion env un resolved rec (Braced key oa) = reference_expansion env un resolved rec key oa"

lemma reference_expansion_more:
  assumes "unresolved_mark \<notin> set (reference_expansion env un resolved rec key oa)"
    and "\<And>t. map_of resolved key = Some t \<Longrightarrow> map_of resolved' key = Some t"
    and "map_of env key = None \<Longrightarrow> map_of resolved' key = None"
    and "\<And>oper a. oa = Some (oper, a) \<Longrightarrow> unresolved_mark \<notin> set (rec a) \<Longrightarrow> rec' a = rec a"
  shows "reference_expansion env un resolved' rec' key oa = reference_expansion env un resolved rec key oa"
proof (cases "map_of resolved key")
  case None
  show ?thesis
  proof (cases oa)
    case None
    with \<open>map_of resolved key = None\<close> show ?thesis
      using assms(1,3) by (auto simp: reference_expansion_def split: if_splits)
  next
    case (Some x)
    moreover obtain oper a where "x = (oper, a)" by fastforce
    ultimately show ?thesis using \<open>map_of resolved key = None\<close> assms(1,3) assms(4) [of oper a]
      by (cases oper) (auto simp: reference_expansion_def split: if_splits)
  qed
next
  case (Some t)
  then have t: "map_of resolved' key = Some t" by (rule assms(2))
  show ?thesis
  proof (cases oa)
    case None
    with t Some show ?thesis by (simp add: reference_expansion_def)
  next
    case (Some x)
    moreover obtain oper a where "x = (oper, a)" by fastforce
    ultimately show ?thesis using t \<open>map_of resolved key = Some t\<close> assms(1) assms(4) [of oper a]
      by (cases oper) (auto simp: reference_expansion_def split: if_splits bool.splits)
  qed
qed

lemma expand_pieces:
  "expand env un resolved v = concat (map (piece_expansion env un resolved (expand env un resolved)) (pieces v))"
proof (subst expand.simps, rule arg_cong [where f = concat], rule map_cong [OF refl])
  fix p assume "p \<in> set (pieces v)"
  show "(case p of Plain c \<Rightarrow> [c] | Escaped \<Rightarrow> ''$''
      | Bare key \<Rightarrow> if key \<in> set un then [unknown_mark]
          else (case map_of resolved key of Some current \<Rightarrow> current
            | None \<Rightarrow> if map_of env key \<noteq> None then [unresolved_mark] else [])
      | Braced key None \<Rightarrow> if key \<in> set un then [unknown_mark]
          else (case map_of resolved key of Some current \<Rightarrow> current
            | None \<Rightarrow> if map_of env key \<noteq> None then [unresolved_mark] else [])
      | Braced key (Some (oper, arg)) \<Rightarrow>
          if key \<in> set un then [unknown_mark]
          else (case map_of resolved key of
              Some current \<Rightarrow> (case oper of
                  Or_Default True \<Rightarrow> if current \<noteq> [] then current else expand env un resolved arg
                | Or_Alternative True \<Rightarrow> if current \<noteq> [] then expand env un resolved arg else []
                | Or_Alternative False \<Rightarrow> expand env un resolved arg
                | _ \<Rightarrow> current)
            | None \<Rightarrow> if map_of env key \<noteq> None then [unresolved_mark]
                else (case oper of
                    Or_Default _ \<Rightarrow> expand env un resolved arg
                  | Or_Error _ \<Rightarrow> [unresolved_mark]
                  | Or_Alternative _ \<Rightarrow> [])))
    = piece_expansion env un resolved (expand env un resolved) p"
    by (cases p rule: piece_text.cases)
      (auto simp: reference_expansion_def split: option.split var_operator.split)
qed

lemma expand_in_more:
  assumes "map_of resolved \<subseteq>\<^sub>m map_of resolved'" and "dom (map_of resolved') \<subseteq> dom (map_of env)"
  shows "unresolved_mark \<notin> set (expand env un resolved v) \<Longrightarrow> expand env un resolved' v = expand env un resolved v"
proof (induction v rule: measure_induct_rule [of length])
  case (less v)
  let ?f = "\<lambda>r. piece_expansion env un r (expand env un r)"
  have "?f resolved' p = ?f resolved p" if p: "p \<in> set (pieces v)" for p
  proof -
    have clean: "unresolved_mark \<notin> set (?f resolved p)"
      using less.prems p by (subst (asm) expand_pieces) auto
    have keeps: "map_of resolved key = Some t \<Longrightarrow> map_of resolved' key = Some t" for key t
      using assms(1) by (auto simp: map_le_def dom_def)
    have none: "map_of env key = None \<Longrightarrow> map_of resolved' key = None" for key
      using assms(2) by (auto simp: dom_def subset_iff)
    have arg: "unresolved_mark \<notin> set (expand env un resolved a) \<Longrightarrow> expand env un resolved' a = expand env un resolved a"
      if "p = Braced key (Some (oper, a))" for key oper a
      using less.IH piece_arg_shorter p that by blast
    show ?thesis
    proof (cases p)
      case (Bare key)
      then show ?thesis using clean keeps none by (auto intro!: reference_expansion_more)
    next
      case (Braced key oa)
      then show ?thesis using clean keeps none arg by (auto intro!: reference_expansion_more)
    qed simp_all
  qed
  then show ?case by (subst (1 2) expand_pieces) (simp cong: map_cong)
qed

lemma resolve_entry_other: "key \<noteq> fst e \<Longrightarrow> map_of (resolve_entry env un e resolved) key = map_of resolved key"
  by (auto simp: resolve_entry_def set_property_def Let_def update_conv')

lemma resolve_entries_other:
  "key \<notin> fst ` set es \<Longrightarrow> map_of (fold (resolve_entry env un) es resolved) key = map_of resolved key"
  by (induction es arbitrary: resolved) (auto simp: resolve_entry_other)

lemma resolve_entries_dom:
  "dom (map_of resolved) \<subseteq> A \<Longrightarrow> fst ` set es \<subseteq> A \<Longrightarrow> dom (map_of (fold (resolve_entry env un) es resolved)) \<subseteq> A"
proof (induction es arbitrary: resolved)
  case (Cons e es)
  have "dom (map_of (resolve_entry env un e resolved)) \<subseteq> insert (fst e) (dom (map_of resolved))"
    using resolve_entry_other [of _ e env un resolved] by (auto simp: dom_def)
  then have "dom (map_of (resolve_entry env un e resolved)) \<subseteq> A" using Cons.prems by auto
  then show ?case using Cons.IH Cons.prems(2) by simp
qed simp

text \<open>
  C28. The values an env file resolves to are the values its own text has: every value that could be
  followed is the expansion of what is written, under the final values of all the variables, so a
  reference never sees an outdated or half-expanded value.
\<close>

theorem resolved_values_stand:
  assumes "distinct (map fst env)" and "(key, v) \<in> set env"
    and "map_of (resolveEnvironmentReferences env un) key = Some w" and "w \<noteq> [unresolved_mark]"
  shows "w = expand env un (resolveEnvironmentReferences env un) v"
proof -
  obtain as bs where env: "env = as @ (key, v) # bs" using split_list [OF assms(2)] by blast
  define before where "before = fold (resolve_entry env un) as []"
  define final where "final = resolveEnvironmentReferences env un"
  have final: "final = fold (resolve_entry env un) bs (resolve_entry env un (key, v) before)"
    unfolding final_def resolveEnvironmentReferences_def before_def by (subst (2) env) simp
  have apart: "key \<notin> fst ` set as" "key \<notin> fst ` set bs" "fst ` set as \<inter> fst ` set bs = {}"
    using assms(1) env by auto
  have "map_of before key = None" unfolding before_def using apart(1) by (simp add: resolve_entries_other)
  moreover have "map_of final key = map_of (resolve_entry env un (key, v) before) key"
    unfolding final using apart(2) by (rule resolve_entries_other)
  ultimately have w: "w = expand env un before v" "unresolved_mark \<notin> set (expand env un before v)"
    using assms(3,4) by (auto simp: final_def [symmetric] resolve_entry_def set_property_def Let_def update_conv' split: if_splits)
  have "dom (map_of before) \<subseteq> fst ` set as" unfolding before_def by (rule resolve_entries_dom) auto
  then have "map_of final k = map_of before k" if "k \<in> dom (map_of before)" for k
  proof -
    have "k \<in> fst ` set as" using that \<open>dom (map_of before) \<subseteq> _\<close> by blast
    then have "k \<noteq> key" "k \<notin> fst ` set bs" using apart by blast+
    then show ?thesis unfolding final by (simp add: resolve_entries_other resolve_entry_other)
  qed
  then have "map_of before \<subseteq>\<^sub>m map_of final" by (simp add: map_le_def)
  moreover have "dom (map_of final) \<subseteq> dom (map_of env)"
    unfolding final_def resolveEnvironmentReferences_def by (rule resolve_entries_dom) (auto simp: dom_map_of_conv_image_fst)
  ultimately show ?thesis using w expand_in_more [of before final env un v] by (simp add: final_def)
qed

lemma resolved_values_stand_witness:
  "''/srv/data'' = expand [(''ROOT'', ''/srv''), (''DIR'', ''${ROOT}/${NAME:-data}'')] []
     (resolveEnvironmentReferences [(''ROOT'', ''/srv''), (''DIR'', ''${ROOT}/${NAME:-data}'')] [])
     ''${ROOT}/${NAME:-data}''"
proof (rule resolved_values_stand)
  show "map_of (resolveEnvironmentReferences [(''ROOT'', ''/srv''), (''DIR'', ''${ROOT}/${NAME:-data}'')] []) ''DIR''
      = Some ''/srv/data''" by code_simp
qed simp_all

section \<open>Texts that cannot be resolved\<close>

text \<open>The names \<open>\$\{?([A-Za-z_][A-Za-z0-9_]*)\<close> finds; a name holds no \<open>$\<close>, so matches never overlap.\<close>

fun named_variables :: "string \<Rightarrow> string list" where
  "named_variables [] = []"
| "named_variables (c # cs) =
     (let key = (if c = CHR ''$'' then name_of (if starts_with (CHR ''{'') cs then tl cs else cs) else [])
      in (if key = [] then [] else [key]) @ named_variables cs)"

definition referencesUnresolvedVariable :: "var_source \<Rightarrow> string \<Rightarrow> bool" where
  "referencesUnresolvedVariable src txt \<longleftrightarrow> trusted src \<and>
     (\<exists>key\<in>set (named_variables txt). case known src key of None \<Rightarrow> False | Some v \<Rightarrow> unresolved_mark \<in> set v)"

text \<open>The index of the first variable that is not an escaped dollar.\<close>

function first_variable :: "nat \<Rightarrow> string \<Rightarrow> nat option" where
  "first_variable i [] = None"
| "first_variable i (c # cs) = (case variable_match (c # cs) of
      None \<Rightarrow> first_variable (i + 1) cs
    | Some (p, rest) \<Rightarrow> if p = Escaped then first_variable (i + 2) rest else Some i)"
  by pat_completeness auto
termination by (relation "measure (\<lambda>(i, s). length s)") (auto dest: variable_match_shorter)

definition firstVariableIndex :: "string \<Rightarrow> nat option" where
  "firstVariableIndex raw = first_variable 0 raw"

text \<open>\<open>replaceAll("$$", "$")\<close>.\<close>

fun undouble :: "string \<Rightarrow> string" where
  "undouble [] = []"
| "undouble (c # cs) =
     (if c = CHR ''$'' then c # (if starts_with (CHR ''$'') cs then undouble (tl cs) else undouble cs) else c # undouble cs)"

text \<open>\<open>/\.\.(?:[/}$]|$)/\<close>.\<close>

fun unresolvedSourceClimbs :: "string \<Rightarrow> bool" where
  "unresolvedSourceClimbs [] = False"
| "unresolvedSourceClimbs (c # cs) \<longleftrightarrow>
     c = CHR ''.'' \<and> starts_with (CHR ''.'') cs
       \<and> (tl cs = [] \<or> hd (tl cs) \<in> {CHR ''/'', CHR ''}'', CHR ''$''})
     \<or> unresolvedSourceClimbs cs"

text \<open>The value that is known of a variable: without its marks, and unset when it was nothing but marks.\<close>

definition known_text :: "var_source \<Rightarrow> string \<Rightarrow> string option" where
  "known_text src key = (if \<not> trusted src then None else case known src key of
      None \<Rightarrow> None
    | Some current \<Rightarrow>
        let stripped = filter (\<lambda>c. c \<noteq> unresolved_mark) (filter (\<lambda>c. c \<noteq> unknown_mark) current)
        in if stripped = [] \<and> current \<noteq> [] then None else Some stripped)"

function substituteVariables :: "var_source \<Rightarrow> string \<Rightarrow> string" where
  "substituteVariables src txt =
     concat (map (\<lambda>p. case p of
         Plain c \<Rightarrow> [c]
       | Escaped \<Rightarrow> ''$''
       | Bare key \<Rightarrow> (case known_text src key of None \<Rightarrow> [] | Some v \<Rightarrow> v)
       | Braced key None \<Rightarrow> (case known_text src key of None \<Rightarrow> [] | Some v \<Rightarrow> v)
       | Braced key (Some (oper, arg)) \<Rightarrow> (case oper of
             Or_Default True \<Rightarrow> if some_text (known_text src key) then the (known_text src key) else substituteVariables src arg
           | Or_Default False \<Rightarrow> (case known_text src key of None \<Rightarrow> substituteVariables src arg | Some v \<Rightarrow> v)
           | Or_Alternative _ \<Rightarrow> substituteVariables src arg
           | Or_Error _ \<Rightarrow> (case known_text src key of None \<Rightarrow> [] | Some v \<Rightarrow> v)))
       (pieces txt))"
  by pat_completeness auto
termination by (relation "measure (\<lambda>(_, txt). length txt)") (auto dest: piece_arg_shorter)

declare substituteVariables.simps [simp del]

text \<open>\<open>SOLE_DEFAULT\<close>: one variable with a literal default and nothing else.\<close>

definition sole_default :: "string \<Rightarrow> string option" where
  "sole_default raw =
     (if \<not> prefix ''${'' raw then None
      else let s = tl (tl raw); key = name_of s; t = drop (length key) s;
               u = (if starts_with (CHR '':'') t then tl t else t)
           in if key \<noteq> [] \<and> starts_with (CHR ''-'') u \<and> tl u \<noteq> [] \<and> last u = CHR ''}''
                 \<and> (\<forall>c\<in>set (butlast (tl u)). c \<notin> {CHR ''$'', CHR ''{'', CHR ''}''})
              then Some (butlast (tl u)) else None)"

end
