(* ===== verification/Compose_Dotenv.thy ===== *)
theory Compose_Dotenv
  imports Compose_Vars
begin

text \<open>
  The \<open>.env\<close> file of a compose project as \<open>docker compose\<close> reads it, \<open>parseDotenvVariables\<close> of
  \<open>packages/server/src/utils/volume-backups/compose-volumes.ts\<close>. The position in the text is the text
  that is left. A byte order mark and white space beyond Latin-1 have no character here. The round trip
  at the end: values in single quotes come back as they are, through the references as well.
\<close>

section \<open>Lines\<close>

abbreviation line_feed :: char where "line_feed \<equiv> CHR 0x0A"

text \<open>\<open>/^\s*(?:#.*)?$/\<close>: nothing or a comment.\<close>

definition blank_or_comment :: "string \<Rightarrow> bool" where
  "blank_or_comment line \<longleftrightarrow> dropWhile is_space line = [] \<or> starts_with (CHR ''#'') (dropWhile is_space line)"

definition key_char :: "char \<Rightarrow> bool" where
  "key_char c \<longleftrightarrow> is_alnum c \<or> c = CHR ''_'' \<or> c = CHR ''.'' \<or> c = CHR ''-''"

text \<open>\<open>([A-Za-z0-9_.-]+)\s*=\s*(.*)$\<close>.\<close>

definition key_and_rest :: "string \<Rightarrow> (string \<times> string) option" where
  "key_and_rest s =
     (let key = takeWhile key_char s; t = dropWhile is_space (dropWhile key_char s)
      in if key \<noteq> [] \<and> starts_with (CHR ''='') t then Some (key, dropWhile is_space (tl t)) else None)"

definition assignment :: "string \<Rightarrow> (string \<times> string) option" where
  "assignment line =
     (let s = dropWhile is_space line; exported = drop 6 s
      in case (if prefix ''export'' s \<and> exported \<noteq> [] \<and> is_space (hd exported)
               then key_and_rest (dropWhile is_space exported) else None) of
          Some a \<Rightarrow> Some a
        | None \<Rightarrow> key_and_rest s)"

section \<open>Values\<close>

definition MAX_DOTENV_VALUE_LINES :: nat where "MAX_DOTENV_VALUE_LINES = 200"

text \<open>The text up to the closing double quote, and what follows the quote.\<close>

fun double_quoted :: "string \<Rightarrow> (string \<times> string) option" where
  "double_quoted [] = None"
| "double_quoted (c # cs) =
     (if c = CHR 92
      then (case cs of [] \<Rightarrow> None | d # ds \<Rightarrow> map_option (map_prod (\<lambda>i. c # d # i) id) (double_quoted ds))
      else if c = CHR 34 then Some ([], cs)
      else map_option (map_prod ((#) c) id) (double_quoted cs))"

definition single_quoted :: "string \<Rightarrow> (string \<times> string) option" where
  "single_quoted s =
     (if CHR 39 \<in> set s then Some (takeWhile (\<lambda>c. c \<noteq> CHR 39) s, tl (dropWhile (\<lambda>c. c \<noteq> CHR 39) s)) else None)"

definition escape_chars :: string where
  "escape_chars = [CHR 92, CHR 34, CHR ''n'', CHR ''r'', CHR ''t'']"

text \<open>\<open>/\\[^\\"nrt]/\<close>.\<close>

fun uncertain_escape :: "string \<Rightarrow> bool" where
  "uncertain_escape [] = False"
| "uncertain_escape (c # cs) \<longleftrightarrow> c = CHR 92 \<and> cs \<noteq> [] \<and> hd cs \<notin> set escape_chars \<or> uncertain_escape cs"

fun unescape :: "string \<Rightarrow> string" where
  "unescape [] = []"
| "unescape [c] = [c]"
| "unescape (c # d # cs) =
     (if c = CHR 92 \<and> d \<in> set escape_chars
      then (if d = CHR ''n'' then line_feed else if d = CHR ''r'' then CHR 0x0D else if d = CHR ''t'' then CHR 0x09 else d)
        # unescape cs
      else c # unescape (d # cs))"

definition double_dollars :: "string \<Rightarrow> string" where
  "double_dollars s = concat (map (\<lambda>c. if c = CHR ''$'' then ''$$'' else [c]) s)"

definition trim_end :: "string \<Rightarrow> string" where
  "trim_end s = rev (dropWhile is_space (rev s))"

text \<open>The text before the first \<open>c d\<close>.\<close>

fun before_pair :: "char \<Rightarrow> char \<Rightarrow> string \<Rightarrow> string" where
  "before_pair c d [] = []"
| "before_pair c d (x # xs) = (if x = c \<and> starts_with d xs then [] else x # before_pair c d xs)"

text \<open>
  The value of a line from the text after the equals sign and the text after the line, with the text
  that is left after the last line of the value; None when the file is not understood.
\<close>

definition dotenv_value :: "string \<Rightarrow> string \<Rightarrow> (string \<times> string) option" where
  "dotenv_value rest left =
     (if starts_with (CHR 39) rest \<or> starts_with (CHR 34) rest
      then (case (if starts_with (CHR 39) rest then single_quoted (tl rest @ left) else double_quoted (tl rest @ left)) of
          None \<Rightarrow> None
        | Some (inner, follows) \<Rightarrow>
            if MAX_DOTENV_VALUE_LINES < length (split_on line_feed inner) then None
            else if \<not> blank_or_comment (before_first line_feed follows) then None
            else Some (if starts_with (CHR 39) rest then double_dollars inner
                else if uncertain_escape inner then [unresolved_mark] else unescape inner,
              dropWhile (\<lambda>c. c \<noteq> line_feed) follows))
      else if starts_with (CHR ''`'') rest then None
      else if starts_with (CHR ''#'') rest \<or> sublist [CHR 0x09, CHR ''#''] rest then Some ([unresolved_mark], left)
      else Some (trim_end (before_pair (CHR '' '') (CHR ''#'') rest), left))"

section \<open>The file\<close>

definition add_variable :: "string \<Rightarrow> string \<Rightarrow> vars \<Rightarrow> vars option" where
  "add_variable key v vs =
     (if key = ''COMPOSE_ENV_FILES'' then None
      else if name_of key = key \<and> key \<noteq> []
      then (if map_of vs key \<noteq> None then None else Some (set_property key v vs))
      else Some vs)"

lemma single_quoted_shorter: "single_quoted s = Some (i, f) \<Longrightarrow> length f \<le> length s"
  using length_dropWhile_le [of "\<lambda>c. c \<noteq> CHR 39" s] by (auto simp: single_quoted_def split: if_splits)

lemma double_quoted_shorter: "double_quoted s = Some (i, f) \<Longrightarrow> length f \<le> length s"
  by (induction s arbitrary: i f rule: double_quoted.induct) (fastforce split: if_splits list.splits)+

lemma dotenv_value_shorter:
  assumes "dotenv_value rest left = Some (v, t)" shows "length t \<le> length rest + length left"
proof (cases "starts_with (CHR 39) rest \<or> starts_with (CHR 34) rest")
  case True
  then obtain i f where "single_quoted (tl rest @ left) = Some (i, f) \<or> double_quoted (tl rest @ left) = Some (i, f)"
    and t: "t = dropWhile (\<lambda>c. c \<noteq> line_feed) f"
    using assms by (auto simp: dotenv_value_def split: option.splits if_splits prod.splits)
  then have "length f \<le> length (tl rest @ left)" using single_quoted_shorter double_quoted_shorter by blast
  then show ?thesis unfolding t using length_dropWhile_le [of "\<lambda>c. c \<noteq> line_feed" f] by simp
next
  case False
  then show ?thesis using assms by (auto simp: dotenv_value_def split: if_splits)
qed

lemma key_and_rest_shorter:
  assumes "key_and_rest s = Some (k, r)" shows "length r \<le> length s"
proof -
  let ?t = "dropWhile is_space (dropWhile key_char s)"
  have "r = dropWhile is_space (tl ?t)" using assms by (auto simp: key_and_rest_def Let_def split: if_splits)
  then have "length r \<le> length ?t" using length_dropWhile_le [of is_space "tl ?t"] by simp
  also have "\<dots> \<le> length s" by (rule order_trans [OF length_dropWhile_le length_dropWhile_le])
  finally show ?thesis .
qed

lemma assignment_shorter:
  assumes "assignment l = Some (k, r)" shows "length r \<le> length l"
proof -
  let ?s = "dropWhile is_space l"
  have "key_and_rest (dropWhile is_space (drop 6 ?s)) = Some (k, r) \<or> key_and_rest ?s = Some (k, r)"
    using assms by (auto simp: assignment_def Let_def split: option.splits if_splits)
  moreover have "length (dropWhile is_space (drop 6 ?s)) \<le> length ?s"
    using length_dropWhile_le [of is_space "drop 6 ?s"] by simp
  moreover have "length ?s \<le> length l" by (rule length_dropWhile_le)
  ultimately show ?thesis using key_and_rest_shorter [of _ k r] by fastforce
qed

function dotenv_lines :: "vars \<Rightarrow> string \<Rightarrow> vars option" where
  "dotenv_lines vs src =
     (let line = before_first line_feed src; left = dropWhile (\<lambda>c. c \<noteq> line_feed) src
      in if blank_or_comment line
         then (if left = [] then Some vs else dotenv_lines vs (tl left))
         else (case assignment line of
             None \<Rightarrow> None
           | Some (key, rest) \<Rightarrow> (case dotenv_value rest left of
                 None \<Rightarrow> None
               | Some (v, t) \<Rightarrow> (case add_variable key v vs of
                     None \<Rightarrow> None
                   | Some vs' \<Rightarrow> if t = [] then Some vs' else dotenv_lines vs' (tl t)))))"
  by pat_completeness auto
termination
proof (relation "measure (\<lambda>(vs, src). length src)", goal_cases)
  case (2 vs src line left)
  have "length left \<le> length src" unfolding 2(2) by (rule length_dropWhile_le)
  moreover have "left \<noteq> []" using 2 by simp
  ultimately show ?case by (cases left) simp_all
next
  case (3 vs src line left a key rest b v t vs')
  have "length src = length line + length left"
    unfolding 3(1,2) before_first_def by (metis length_append takeWhile_dropWhile_id)
  then have "length t \<le> length src" using dotenv_value_shorter [of rest left v t] assignment_shorter [of line key rest] 3 by simp
  then show ?case using 3 by (cases t) auto
qed simp

declare dotenv_lines.simps [simp del]

definition UNCERTAIN_DOTENV_RANGES :: "(nat \<times> nat) list" where
  "UNCERTAIN_DOTENV_RANGES = [(0x00, 0x08), (0x0b, 0x0c), (0x0e, 0x1f), (0x7f, 0xa0)]"

definition uncertain_char :: "char \<Rightarrow> bool" where
  "uncertain_char c \<longleftrightarrow> (\<exists>(a, b)\<in>set UNCERTAIN_DOTENV_RANGES. a \<le> code c \<and> code c \<le> b)"

fun lone_return :: "string \<Rightarrow> bool" where
  "lone_return [] = False"
| "lone_return (c # cs) \<longleftrightarrow> c = CHR 0x0D \<and> \<not> starts_with line_feed cs \<or> lone_return cs"

fun join_returns :: "string \<Rightarrow> string" where
  "join_returns [] = []"
| "join_returns (c # cs) = (if c = CHR 0x0D \<and> starts_with line_feed cs then join_returns cs else c # join_returns cs)"

definition parseDotenvVariables :: "string \<Rightarrow> vars option" where
  "parseDotenvVariables s =
     (if lone_return s then None
      else let source = join_returns s
           in if \<exists>c\<in>set source. uncertain_char c then None else dotenv_lines [] source)"

section \<open>Values in single quotes come back\<close>

definition dotenv_line :: "string \<times> string \<Rightarrow> string" where
  "dotenv_line e = fst e @ ''='' @ CHR 39 # snd e @ [CHR 39, line_feed]"

definition variable_name :: "string \<Rightarrow> bool" where
  "variable_name k \<longleftrightarrow> k \<noteq> [] \<and> name_of k = k \<and> k \<noteq> ''COMPOSE_ENV_FILES'' \<and> k \<noteq> ''__proto__''"

definition quotable :: "string \<Rightarrow> bool" where
  "quotable v \<longleftrightarrow> (\<forall>c\<in>set v. \<not> uncertain_char c \<and> c \<noteq> CHR 39 \<and> c \<noteq> CHR 0x0D)
     \<and> length (split_on line_feed v) \<le> MAX_DOTENV_VALUE_LINES"

lemma variable_name_chars:
  assumes "variable_name k"
  obtains c cs where "k = c # cs" "var_start c" "\<forall>d\<in>set k. var_char d"
proof -
  obtain c cs where k: "k = c # cs" using assms by (cases k) (auto simp: variable_name_def)
  have "name_of k = k" using assms by (simp add: variable_name_def)
  then have "var_start c" "takeWhile var_char k = k" using k by (auto simp: name_of_def split: if_splits)
  then show thesis using that k by (metis set_takeWhileD)
qed

lemma update_new: "k \<notin> fst ` set al \<Longrightarrow> AList.update k v al = al @ [(k, v)]"
  by (induction al) auto

lemma var_char_no_space: "var_char c \<Longrightarrow> \<not> is_space c \<and> c \<noteq> CHR ''#'' \<and> c \<noteq> CHR ''='' \<and> c \<noteq> line_feed \<and> key_char c"
  by (auto simp: var_char_def key_char_def is_space_def is_alnum_def is_digit_def code_def)

lemma passes_through:
  "\<forall>x\<in>set a. P x \<Longrightarrow> takeWhile P (a @ s) = a @ takeWhile P s"
  "\<forall>x\<in>set a. P x \<Longrightarrow> dropWhile P (a @ s) = dropWhile P s"
  by (induction a) auto

lemma assignment_plain:
  "dropWhile is_space l = l \<Longrightarrow> (prefix ''export'' l \<Longrightarrow> \<not> is_space (hd (drop 6 l))) \<Longrightarrow> assignment l = key_and_rest l"
  by (auto simp: assignment_def Let_def)

lemma assignment_quoted:
  assumes "variable_name k" shows "assignment (k @ ''='' @ CHR 39 # s) = Some (k, CHR 39 # s)"
proof -
  obtain c cs where k: "k = c # cs" "\<forall>d\<in>set k. var_char d" by (rule variable_name_chars [OF assms])
  let ?l = "k @ ''='' @ CHR 39 # s"
  have start: "dropWhile is_space ?l = ?l" using k var_char_no_space [of c] by simp
  have key: "takeWhile key_char ?l = k" "dropWhile key_char ?l = ''='' @ CHR 39 # s"
    using k(2) var_char_no_space by (simp_all add: passes_through key_char_def is_alnum_def is_digit_def code_def)
  have sign: "\<not> is_space (CHR ''='')" "\<not> is_space (CHR 39)" by (simp_all add: is_space_def code_def)
  have whole: "key_and_rest ?l = Some (k, CHR 39 # s)"
  proof -
    have "dropWhile is_space (''='' @ CHR 39 # s) = ''='' @ CHR 39 # s" "dropWhile is_space (CHR 39 # s) = CHR 39 # s"
      using sign by simp_all
    then show ?thesis using k(1) unfolding key_and_rest_def Let_def key by (simp add: starts_with_def)
  qed
  have "\<not> is_space (hd (drop 6 ?l))" if exported: "prefix ''export'' ?l" 
  proof (cases "6 < length k")
    case True
    then have "hd (drop 6 ?l) = k ! 6" by (simp add: hd_drop_conv_nth nth_append)
    then show ?thesis using True k(2) var_char_no_space nth_mem by metis
  next
    case False
    have "length k = 6"
    proof (rule ccontr)
      assume "length k \<noteq> 6"
      then have short: "length k < 6" using False by simp
      have "?l ! length k = CHR ''=''" by (simp add: nth_append)
      moreover have "?l ! length k = ''export'' ! length k"
      proof -
        obtain z where "?l = ''export'' @ z" by (rule prefixE [OF exported])
        then have "?l ! length k = (''export'' @ z) ! length k" by (rule arg_cong)
        then show ?thesis using short by (simp only: nth_append) simp
      qed
      moreover have "''export'' ! length k \<noteq> CHR ''=''"
        using short by (auto simp: less_Suc_eq numeral_eq_Suc)
      ultimately show False by simp
    qed
    then have "drop 6 ?l = ''='' @ CHR 39 # s" by (simp only: drop_append) simp
    then show ?thesis using sign by simp
  qed
  then show ?thesis using assignment_plain [OF start] whole by metis
qed

lemma dotenv_line_read:
  assumes "variable_name k" "quotable v" "k \<notin> fst ` set vs"
  shows "dotenv_lines vs (dotenv_line (k, v) @ s) = dotenv_lines (vs @ [(k, double_dollars v)]) s"
proof -
  obtain c cs where k: "k = c # cs" "var_start c" "\<forall>d\<in>set k. var_char d" by (rule variable_name_chars [OF assms(1)])
  let ?src = "dotenv_line (k, v) @ s"
  let ?inner = "v @ [CHR 39, line_feed] @ s"
  let ?rest = "before_first line_feed ?inner"
  let ?left = "dropWhile (\<lambda>c. c \<noteq> line_feed) ?inner"
  have "line_feed \<notin> set k" using k(3) var_char_no_space by blast
  then have line: "before_first line_feed ?src = k @ ''='' @ CHR 39 # ?rest"
    and left: "dropWhile (\<lambda>c. c \<noteq> line_feed) ?src = ?left"
  proof -
    have "\<forall>c\<in>set (k @ ''='' @ [CHR 39]). c \<noteq> line_feed" using \<open>line_feed \<notin> set k\<close> by auto
    then show "before_first line_feed ?src = k @ ''='' @ CHR 39 # ?rest" "dropWhile (\<lambda>c. c \<noteq> line_feed) ?src = ?left"
      using passes_through [of "k @ ''='' @ [CHR 39]" "\<lambda>c. c \<noteq> line_feed" ?inner]
      by (simp_all add: dotenv_line_def before_first_def)
  qed
  have "\<not> blank_or_comment (before_first line_feed ?src)"
  proof -
    have "before_first line_feed ?src = c # cs @ ''='' @ CHR 39 # ?rest" using line k(1) by simp
    then show ?thesis using k var_char_no_space [of c] by (simp add: blank_or_comment_def starts_with_def)
  qed
  moreover have "assignment (before_first line_feed ?src) = Some (k, CHR 39 # ?rest)"
    unfolding line by (rule assignment_quoted [OF assms(1)])
  moreover have "dotenv_value (CHR 39 # ?rest) ?left = Some (double_dollars v, line_feed # s)"
  proof -
    have whole: "?rest @ ?left = ?inner" by (simp add: before_first_def)
    have "\<forall>c\<in>set v. c \<noteq> CHR 39" using assms(2) by (auto simp: quotable_def)
    then have "single_quoted ?inner = Some (v, line_feed # s)"
      by (simp add: single_quoted_def passes_through)
    then show ?thesis
      using assms(2) whole by (simp add: dotenv_value_def starts_with_def quotable_def blank_or_comment_def before_first_def)
  qed
  moreover have "add_variable k (double_dollars v) vs = Some (vs @ [(k, double_dollars v)])"
    using assms(1,3) by (auto simp: add_variable_def variable_name_def set_property_def map_of_eq_None_iff update_new)
  ultimately show ?thesis
    by (subst dotenv_lines.simps) (simp add: left Let_def)
qed

lemma dotenv_file_read:
  "\<forall>e\<in>set env. variable_name (fst e) \<and> quotable (snd e) \<Longrightarrow> distinct (map fst vs @ map fst env) \<Longrightarrow>
    dotenv_lines vs (concat (map dotenv_line env)) = Some (vs @ map (\<lambda>e. (fst e, double_dollars (snd e))) env)"
proof (induction env arbitrary: vs)
  case Nil
  then show ?case by (simp add: dotenv_lines.simps blank_or_comment_def before_first_def)
next
  case (Cons e env)
  have "dotenv_lines vs (concat (map dotenv_line (e # env)))
      = dotenv_lines (vs @ [(fst e, double_dollars (snd e))]) (concat (map dotenv_line env))"
    using dotenv_line_read [of "fst e" "snd e" vs] Cons.prems by (simp add: image_iff)
  also have "\<dots> = Some ((vs @ [(fst e, double_dollars (snd e))]) @ map (\<lambda>e. (fst e, double_dollars (snd e))) env)"
    using Cons.prems by (intro Cons.IH) auto
  finally show ?case by simp
qed

lemma pieces_doubled: "pieces (double_dollars v) = map (\<lambda>c. if c = CHR ''$'' then Escaped else Plain c) v"
  by (induction v) (simp_all add: double_dollars_def variable_match_def starts_with_def)

lemma expand_doubled: "expand env un resolved (double_dollars v) = v"
proof -
  have "concat (map (\<lambda>c. piece_expansion env un resolved (expand env un resolved) (if c = CHR ''$'' then Escaped else Plain c)) v) = v"
    by (induction v) auto
  then show ?thesis by (subst expand_pieces) (simp add: pieces_doubled comp_def)
qed

lemma resolve_doubled:
  "\<forall>e\<in>set es. variable_name (fst e) \<and> quotable (snd e) \<Longrightarrow> distinct (map fst resolved @ map fst es) \<Longrightarrow>
    fold (resolve_entry env un) (map (\<lambda>e. (fst e, double_dollars (snd e))) es) resolved = resolved @ es"
proof (induction es arbitrary: resolved)
  case (Cons e es)
  have "\<not> uncertain_char unresolved_mark \<Longrightarrow> False"
    by (simp add: uncertain_char_def UNCERTAIN_DOTENV_RANGES_def code_def unresolved_mark_def)
  then have "unresolved_mark \<notin> set (snd e)" using Cons.prems(1) by (auto simp: quotable_def)
  moreover have "AList.update (fst e) (snd e) resolved = resolved @ [e]"
    using Cons.prems(2) by (cases e) (simp add: update_new)
  ultimately have "resolve_entry env un (fst e, double_dollars (snd e)) resolved = resolved @ [e]"
    using Cons.prems(1) by (simp add: resolve_entry_def expand_doubled set_property_def variable_name_def)
  then show ?case using Cons by simp
qed simp

lemma parse_clean:
  assumes "\<forall>c\<in>set s. \<not> uncertain_char c \<and> c \<noteq> CHR 0x0D" shows "parseDotenvVariables s = dotenv_lines [] s"
proof -
  have "\<not> lone_return s" "join_returns s = s" using assms by (induction s) auto
  then show ?thesis using assms by (simp add: parseDotenvVariables_def)
qed

lemma line_clean:
  assumes "variable_name (fst e)" "quotable (snd e)" "c \<in> set (dotenv_line e)"
  shows "\<not> uncertain_char c \<and> c \<noteq> CHR 0x0D"
proof -
  obtain d ds where "\<forall>d\<in>set (fst e). var_char d" by (rule variable_name_chars [OF assms(1)])
  then have key: "c \<in> set (fst e) \<Longrightarrow> var_char c" by blast
  have names: "\<not> uncertain_char d \<and> d \<noteq> CHR 0x0D" if "var_char d" for d
  proof -
    have "code (CHR ''_'') = 95" "code (CHR 0x0D) = 13" by (simp_all add: code_def)
    moreover from this(1) have "48 \<le> code d \<and> code d \<le> 122"
      using that by (auto simp: var_char_def is_alnum_def is_digit_def)
    ultimately show ?thesis by (auto simp: uncertain_char_def UNCERTAIN_DOTENV_RANGES_def)
  qed
  have "code (CHR ''='') = 61" "code (CHR 39) = 39" "code line_feed = 10" by (simp_all add: code_def)
  then have signs: "\<not> uncertain_char d \<and> d \<noteq> CHR 0x0D" if "d \<in> {CHR ''='', CHR 39, line_feed}" for d
    using that by (elim insertE emptyE) (simp_all add: uncertain_char_def UNCERTAIN_DOTENV_RANGES_def)
  have "c \<in> set (fst e) \<or> c \<in> set (snd e) \<or> c \<in> {CHR ''='', CHR 39, line_feed}"
    using assms(3) by (auto simp: dotenv_line_def)
  then show ?thesis
  proof (elim disjE)
    assume "c \<in> set (snd e)"
    then show ?thesis using assms(2) by (simp add: quotable_def)
  qed (rule names [OF key] signs, assumption)+
qed

text \<open>
  C29. Round trip of an env file: variables whose values are written in single quotes are read back and
  resolved to exactly the values that were written, dollars, comment signs, spaces and line breaks included.
\<close>

theorem quoted_values_come_back:
  assumes "\<forall>e\<in>set env. variable_name (fst e) \<and> quotable (snd e)" and "distinct (map fst env)"
  shows "map_option (\<lambda>vs. resolveEnvironmentReferences vs []) (parseDotenvVariables (concat (map dotenv_line env))) = Some env"
proof -
  have "\<forall>c\<in>set (concat (map dotenv_line env)). \<not> uncertain_char c \<and> c \<noteq> CHR 0x0D"
    using assms(1) line_clean by fastforce
  then have "parseDotenvVariables (concat (map dotenv_line env)) = Some (map (\<lambda>e. (fst e, double_dollars (snd e))) env)"
    using parse_clean dotenv_file_read [of env "[]"] assms by simp
  then show ?thesis using resolve_doubled [of env "[]"] assms by (simp add: resolveEnvironmentReferences_def)
qed

lemma quoted_values_come_back_witness:
  "map_option (\<lambda>vs. resolveEnvironmentReferences vs [])
     (parseDotenvVariables (concat (map dotenv_line [(''A'', ''$B # x''), (''B'', ''1'')])))
   = Some [(''A'', ''$B # x''), (''B'', ''1'')]"
proof (rule quoted_values_come_back)
  show "\<forall>e\<in>set [(''A'', ''$B # x''), (''B'', ''1'')]. variable_name (fst e) \<and> quotable (snd e)" by code_simp
qed simp

end
