(* ===== verification/Compose_Paths.thy ===== *)
theory Compose_Paths
  imports Compose_Vars
begin

text \<open>
  Where a host path of a compose file leads, from
  \<open>packages/server/src/utils/volume-backups/compose-volumes.ts\<close>: \<open>posix.resolve\<close> as a walk over the
  segments of the path, the \<open>/proc\<close> links, how a path relates to the directory in which Docker keeps
  every volume (\<open>dockerVolumesDirectoryReach\<close>), and what is known of a path with a variable in it that
  cannot be resolved. The first lemmas give the meaning over segments.
\<close>

section \<open>Paths\<close>

abbreviation slash :: char where "slash \<equiv> CHR ''/''"

text \<open>\<open>path.replace(/\\/g, "/")\<close>.\<close>

definition slashes :: "string \<Rightarrow> string" where
  "slashes p = map (\<lambda>c. if c = CHR 92 then slash else c) p"

fun walk :: "string list \<Rightarrow> string list \<Rightarrow> string list" where
  "walk st [] = st"
| "walk st (s # ss) =
     (if s = [] \<or> s = ''.'' then walk st ss
      else if s = ''..'' then walk (butlast st) ss
      else walk (st @ [s]) ss)"

definition segments_of :: "string \<Rightarrow> string list" where
  "segments_of p = walk [] (split_on slash p)"

text \<open>\<open>posix.resolve("/", p)\<close>, and \<open>posix.resolve(base, p)\<close> for an absolute base.\<close>

definition resolve_root :: "string \<Rightarrow> string" where
  "resolve_root p = ''/'' @ join ''/'' (segments_of p)"

definition posix_resolve :: "string \<Rightarrow> string \<Rightarrow> string" where
  "posix_resolve base p = resolve_root (if starts_with slash p then p else base @ ''/'' @ p)"

text \<open>\<open>/^[./~]/\<close> or \<open>/^[A-Za-z]:/\<close>.\<close>

definition isFilePathSource :: "string \<Rightarrow> bool" where
  "isFilePathSource s \<longleftrightarrow>
     s \<noteq> [] \<and> (hd s \<in> {CHR ''.'', slash, CHR ''~''}
       \<or> is_alnum (hd s) \<and> \<not> is_digit (hd s) \<and> starts_with (CHR '':'') (tl s))"

section \<open>Docker's volume storage\<close>

definition DOCKER_VOLUMES_DIRECTORY :: string where
  "DOCKER_VOLUMES_DIRECTORY = ''/var/lib/docker/volumes''"

definition DOCKER_ROOT_DIRECTORY :: string where
  "DOCKER_ROOT_DIRECTORY = ''/var/lib/docker''"

text \<open>\<open>PROC_LINK\<close> on \<open>/\<close> and the segments joined; a segment is not empty and holds no slash.\<close>

fun proc_link :: "string list \<Rightarrow> bool" where
  "proc_link [a, pid, l] \<longleftrightarrow> a = ''proc'' \<and> l \<in> {''root'', ''cwd''}"
| "proc_link [a, pid, t, tid, l] \<longleftrightarrow> a = ''proc'' \<and> t = ''task'' \<and> l \<in> {''root'', ''cwd''}"
| "proc_link st \<longleftrightarrow> False"

fun walks_through_proc_link :: "string list \<Rightarrow> string list \<Rightarrow> bool" where
  "walks_through_proc_link st [] = False"
| "walks_through_proc_link st (s # ss) =
     (if s = [] \<or> s = ''.'' then walks_through_proc_link st ss
      else if s = ''..'' then walks_through_proc_link (butlast st) ss
      else proc_link (st @ [s]) \<or> walks_through_proc_link (st @ [s]) ss)"

definition passesThroughProcLink :: "string \<Rightarrow> bool" where
  "passesThroughProcLink p = walks_through_proc_link [] (split_on slash p)"

datatype storage_reach = Inside | Parent

definition reachOfAbsolutePath :: "string \<Rightarrow> storage_reach option" where
  "reachOfAbsolutePath candidate =
     (if candidate = DOCKER_VOLUMES_DIRECTORY \<or> prefix (DOCKER_VOLUMES_DIRECTORY @ ''/'') candidate then Some Inside
      else if candidate = ''/'' \<or> prefix (candidate @ ''/'') DOCKER_VOLUMES_DIRECTORY then Some Parent
      else None)"

text \<open>All the absolute paths a bind source can mean, and those of them that count for the parent rule.\<close>

definition bindSourceInputs :: "string \<Rightarrow> string list \<Rightarrow> string list \<times> string list" where
  "bindSourceInputs path baseDirs =
     (let normalized = slashes path
      in if starts_with (CHR ''~'') normalized
         then let rest = ''.'' @ tl normalized;
                  parentInputs = map (\<lambda>home. home @ ''/'' @ rest) [''/root'', ''/home/user/a'']
              in ((''/'' @ rest) # parentInputs, parentInputs)
         else if starts_with slash normalized then ([normalized], [normalized])
         else let parentInputs = map (\<lambda>base. base @ ''/'' @ normalized) baseDirs
              in ((''/'' @ normalized) # parentInputs, parentInputs))"

definition dockerVolumesDirectoryReach :: "string \<Rightarrow> string list \<Rightarrow> storage_reach option" where
  "dockerVolumesDirectoryReach path baseDirs =
     (let (inputs, parentInputs) = bindSourceInputs path baseDirs
      in if \<exists>i\<in>set inputs. reachOfAbsolutePath (resolve_root i) = Some Inside then Some Inside
         else if \<exists>i\<in>set parentInputs. passesThroughProcLink i \<or> reachOfAbsolutePath (resolve_root i) = Some Parent
         then Some Parent
         else None)"

section \<open>A source with a variable that cannot be resolved\<close>

definition unresolvedSourceReachesDockerVolumes :: "string \<Rightarrow> string list \<Rightarrow> bool" where
  "unresolvedSourceReachesDockerVolumes rawSource baseDirs =
     (case firstVariableIndex rawSource of
        None \<Rightarrow> False
      | Some i \<Rightarrow>
          let written = undouble (take i rawSource);
              pre = take (nat (lastIndexOf slash written + 1)) written
          in isFilePathSource pre
             \<and> (dockerVolumesDirectoryReach pre baseDirs = Some Inside
                \<or> (\<exists>i\<in>set (snd (bindSourceInputs pre baseDirs)). resolve_root i = DOCKER_ROOT_DIRECTORY)))"

text \<open>None when the source is not one variable with a literal default.\<close>

definition soleDefaultReach :: "string \<Rightarrow> string list \<Rightarrow> storage_reach option option" where
  "soleDefaultReach rawSource baseDirs = (case sole_default rawSource of
      None \<Rightarrow> None
    | Some fallback \<Rightarrow>
        Some (if isFilePathSource fallback then dockerVolumesDirectoryReach fallback baseDirs else None))"

section \<open>The meaning over segments\<close>

definition storage :: "string list" where
  "storage = [''var'', ''lib'', ''docker'', ''volumes'']"

definition proper_segment :: "string \<Rightarrow> bool" where
  "proper_segment s \<longleftrightarrow> s \<noteq> [] \<and> slash \<notin> set s"

lemma split_on_clean: "s \<in> set (split_on c t) \<Longrightarrow> c \<notin> set s"
proof (induction t arbitrary: s)
  case (Cons x xs)
  obtain p ps where rest: "split_on c xs = p # ps" by (cases "split_on c xs") auto
  show ?case
  proof (cases "s \<in> set (split_on c xs)")
    case True
    then show ?thesis by (rule Cons.IH)
  next
    case False
    then have "s = [] \<or> s = x # p \<and> x \<noteq> c" using Cons.prems rest by (simp split: if_splits)
    moreover have "c \<notin> set p" using Cons.IH [of p] rest by simp
    ultimately show ?thesis by auto
  qed
qed simp

lemma walk_proper:
  "\<forall>s\<in>set st. proper_segment s \<Longrightarrow> \<forall>s\<in>set ss. slash \<notin> set s \<Longrightarrow> \<forall>s\<in>set (walk st ss). proper_segment s"
proof (induction ss arbitrary: st)
  case (Cons s ss)
  have rest: "\<forall>s\<in>set ss. slash \<notin> set s" and s: "slash \<notin> set s" using Cons.prems(2) by simp_all
  consider "s = [] \<or> s = ''.''" | "s = ''..''" | "s \<noteq> []" "s \<noteq> ''.''" "s \<noteq> ''..''" by blast
  then show ?case
  proof cases
    case 1
    then have "walk st (s # ss) = walk st ss" by auto
    then show ?thesis using Cons.IH [OF Cons.prems(1) rest] by argo
  next
    case 2
    have "\<forall>s\<in>set (butlast st). proper_segment s" using Cons.prems(1) in_set_butlastD by fast
    moreover have "walk st (s # ss) = walk (butlast st) ss" using 2 by simp
    ultimately show ?thesis using Cons.IH [of "butlast st"] rest by argo
  next
    case 3
    then have "proper_segment s" using s by (simp add: proper_segment_def)
    then have "\<forall>s\<in>set (st @ [s]). proper_segment s" using Cons.prems(1) by auto
    moreover have "walk st (s # ss) = walk (st @ [s]) ss" using 3 by simp
    ultimately show ?thesis using Cons.IH [of "st @ [s]"] rest by argo
  qed
qed simp

lemma segments_proper: "s \<in> set (segments_of p) \<Longrightarrow> proper_segment s"
  unfolding segments_of_def using walk_proper [of "[]" "split_on slash p"] split_on_clean by fastforce

text \<open>A path of proper segments, as text; its segments can be read off it.\<close>

fun path_text :: "string list \<Rightarrow> string" where
  "path_text [] = []"
| "path_text (s # ss) = slash # s @ path_text ss"

lemma slash_join: "ss \<noteq> [] \<Longrightarrow> ''/'' @ join ''/'' ss = path_text ss"
  by (induction ss rule: induct_list012) auto

lemma path_text_starts: "path_text ss = [] \<or> hd (path_text ss) = slash"
  by (cases ss) auto

lemma segment_prefix:
  assumes "slash \<notin> set s" "slash \<notin> set t" "x = [] \<or> hd x = slash" "y = [] \<or> hd y = slash" "s @ x = t @ y"
  shows "s = t \<and> x = y"
proof -
  have first: "takeWhile (\<lambda>c. c \<noteq> slash) (u @ z) = u" if "slash \<notin> set u" "z = [] \<or> hd z = slash" for u z :: string
  proof -
    have "takeWhile (\<lambda>c. c \<noteq> slash) z = []" using that(2) by (cases z) auto
    moreover have "\<And>c. c \<in> set u \<Longrightarrow> c \<noteq> slash" using that(1) by auto
    ultimately show ?thesis by (simp add: takeWhile_append2)
  qed
  have "s = t" using first [OF assms(1,3)] first [OF assms(2,4)] assms(5) by metis
  then show ?thesis using assms(5) by simp
qed

lemma path_text_prefix:
  "\<forall>s\<in>set ss. proper_segment s \<Longrightarrow> \<forall>s\<in>set ts. proper_segment s \<Longrightarrow>
    (path_text ss = path_text ts \<or> prefix (path_text ss @ ''/'') (path_text ts)) \<longleftrightarrow> prefix ss ts"
proof (induction ss arbitrary: ts)
  case Nil
  then show ?case by (cases ts) (auto simp: prefix_def)
next
  case (Cons s ss)
  show ?case
  proof (cases ts)
    case Nil
    then show ?thesis by (auto simp: prefix_def)
  next
    case t: (Cons t ts')
    have head: "s @ x = t @ y \<longleftrightarrow> s = t \<and> x = y" if "x = [] \<or> hd x = slash" "y = [] \<or> hd y = slash" for x y
      using segment_prefix [of s t x y] Cons.prems t that by (auto simp: proper_segment_def)
    let ?p = "path_text ss" and ?q = "path_text ts'"
    have "t @ ?q = (s @ ?p @ ''/'') @ z \<longleftrightarrow> s = t \<and> ?q = (?p @ ''/'') @ z" for z
    proof -
      have "hd ((?p @ ''/'') @ z) = slash" using path_text_starts [of ss] by (cases "?p = []") auto
      then show ?thesis using head [of "(?p @ ''/'') @ z" ?q] path_text_starts [of ts'] by auto
    qed
    then have "prefix (s @ ?p @ ''/'') (t @ ?q) \<longleftrightarrow> s = t \<and> prefix (?p @ ''/'') ?q"
      unfolding prefix_def by simp
    moreover have "s @ ?p = t @ ?q \<longleftrightarrow> s = t \<and> ?p = ?q" using head path_text_starts by blast
    ultimately have "path_text (s # ss) = path_text ts \<or> prefix (path_text (s # ss) @ ''/'') (path_text ts) \<longleftrightarrow>
        s = t \<and> (?p = ?q \<or> prefix (?p @ ''/'') ?q)"
      by (auto simp: t)
    then show ?thesis using Cons.IH [of ts'] Cons.prems t by auto
  qed
qed

lemma storage_text: "DOCKER_VOLUMES_DIRECTORY = path_text storage"
  by (simp add: DOCKER_VOLUMES_DIRECTORY_def storage_def)

lemma storage_proper: "\<forall>s\<in>set storage. proper_segment s"
  by (auto simp: storage_def proper_segment_def)

lemma reach_of_segments:
  "reachOfAbsolutePath (resolve_root p) =
     (if prefix storage (segments_of p) then Some Inside
      else if prefix (segments_of p) storage then Some Parent else None)"
proof (cases "segments_of p = []")
  case True
  then show ?thesis
    by (simp add: reachOfAbsolutePath_def resolve_root_def DOCKER_VOLUMES_DIRECTORY_def storage_def)
next
  case False
  have proper: "\<forall>s\<in>set (segments_of p). proper_segment s" using segments_proper by blast
  have shown: "resolve_root p = path_text (segments_of p)" unfolding resolve_root_def by (rule slash_join [OF False])
  have root: "path_text (segments_of p) \<noteq> ''/''"
    using False proper by (cases "segments_of p") (auto simp: proper_segment_def)
  have inside: "path_text (segments_of p) = path_text storage \<or> prefix (path_text storage @ ''/'') (path_text (segments_of p))
      \<longleftrightarrow> prefix storage (segments_of p)"
    using path_text_prefix [OF storage_proper proper] by metis
  have parent: "path_text storage = path_text (segments_of p) \<or> prefix (path_text (segments_of p) @ ''/'') (path_text storage)
      \<longleftrightarrow> prefix (segments_of p) storage"
    using path_text_prefix [OF proper storage_proper] by metis
  show ?thesis unfolding reachOfAbsolutePath_def shown storage_text using inside parent root by auto
qed

text \<open>
  What a path can mean on the host: an absolute path means itself, a path under \<open>~\<close> a path under the home of
  root or of a user, and a relative one a path from each of the directories the command may run in. A path that is
  not absolute is read from the root directory too, for a base that is not known.
\<close>

inductive can_mean :: "string list \<Rightarrow> string \<Rightarrow> string \<Rightarrow> bool" for bases where
  of_root: "can_mean bases (CHR ''/'' # p) (CHR ''/'' # p)"
| of_home: "home \<in> {''/root'', ''/home/user/a''} \<Longrightarrow> can_mean bases (CHR ''~'' # p) (home @ ''/.'' @ p)"
| of_base: "base \<in> set bases \<Longrightarrow> p = [] \<or> hd p \<notin> {CHR ''/'', CHR ''~''} \<Longrightarrow> can_mean bases p (base @ ''/'' @ p)"

fun from_root :: "string \<Rightarrow> string" where
  "from_root (CHR ''/'' # p) = CHR ''/'' # p"
| "from_root (CHR ''~'' # p) = ''/.'' @ p"
| "from_root p = CHR ''/'' # p"

lemma from_root_relative: "p = [] \<or> hd p \<notin> {CHR ''/'', CHR ''~''} \<Longrightarrow> from_root p = CHR ''/'' # p"
  by (cases p rule: from_root.cases) auto

lemma can_mean_inputs:
  "i \<in> set (snd (bindSourceInputs path baseDirs)) \<longleftrightarrow> can_mean baseDirs (slashes path) i"
  "i \<in> set (fst (bindSourceInputs path baseDirs)) \<longleftrightarrow> can_mean baseDirs (slashes path) i \<or> i = from_root (slashes path)"
proof -
  let ?p = "slashes path"
  consider q where "?p = CHR ''/'' # q" | q where "?p = CHR ''~'' # q" | "?p = [] \<or> hd ?p \<notin> {CHR ''/'', CHR ''~''}"
    by (cases ?p) auto
  then have "(i \<in> set (snd (bindSourceInputs path baseDirs)) \<longleftrightarrow> can_mean baseDirs ?p i) \<and>
      (i \<in> set (fst (bindSourceInputs path baseDirs)) \<longleftrightarrow> can_mean baseDirs ?p i \<or> i = from_root ?p)"
  proof cases
    case 3
    then have "\<not> starts_with (CHR ''~'') ?p" "\<not> starts_with slash ?p" by (cases ?p; simp add: starts_with_def)+
    moreover have "can_mean baseDirs ?p i \<longleftrightarrow> (\<exists>base\<in>set baseDirs. i = base @ ''/'' @ ?p)"
      using 3 by (auto simp: can_mean.simps)
    ultimately show ?thesis using from_root_relative [OF 3] by (auto simp: bindSourceInputs_def Let_def)
  qed (auto simp: bindSourceInputs_def Let_def starts_with_def can_mean.simps)
  then show "i \<in> set (snd (bindSourceInputs path baseDirs)) \<longleftrightarrow> can_mean baseDirs ?p i"
    "i \<in> set (fst (bindSourceInputs path baseDirs)) \<longleftrightarrow> can_mean baseDirs ?p i \<or> i = from_root ?p" by blast+
qed

text \<open>
  C27. A host path passes the check exactly when no path it can mean (itself when it is absolute, under the homes
  when it starts with \<open>~\<close>, from every base directory when it is relative) lies in Docker's volume storage, contains
  the storage or walks through a \<open>/proc\<close> link, and the path read from the root directory does not lie in the storage
  (but may contain it, for a path that is not absolute: \<open>.\<close> is not refused for that reading); \<open>lies in\<close> and
  \<open>contains\<close> are prefixes of the lists of segments that resolving the path leaves.
\<close>

theorem path_passes_iff:
  "dockerVolumesDirectoryReach path baseDirs = None \<longleftrightarrow>
     \<not> prefix storage (segments_of (from_root (slashes path)))
     \<and> (\<forall>i. can_mean baseDirs (slashes path) i \<longrightarrow>
          \<not> prefix storage (segments_of i) \<and> \<not> prefix (segments_of i) storage \<and> \<not> passesThroughProcLink i)"
proof -
  obtain inputs parents where inputs: "bindSourceInputs path baseDirs = (inputs, parents)" by fastforce
  have "reachOfAbsolutePath (resolve_root i) = Some Inside \<longleftrightarrow> prefix storage (segments_of i)"
    "reachOfAbsolutePath (resolve_root i) = Some Parent \<longleftrightarrow> prefix (segments_of i) storage \<and> \<not> prefix storage (segments_of i)" for i
    by (simp_all add: reach_of_segments)
  then show ?thesis
    using can_mean_inputs [of _ path baseDirs] by (auto simp: dockerVolumesDirectoryReach_def inputs)
qed

text \<open>A directory beside the file passes, and one that climbs to a parent of the storage does not.\<close>

theorem path_passes_iff_witness:
  "\<not> prefix (segments_of ''/srv/app/data'') storage \<and> dockerVolumesDirectoryReach ''../../var'' [''/srv/app''] \<noteq> None"
proof -
  have relative: "can_mean [''/srv/app''] (slashes ''data'') (''/srv/app'' @ ''/'' @ slashes ''data'')"
    "can_mean [''/srv/app''] (slashes ''../../var'') (''/srv/app'' @ ''/'' @ slashes ''../../var'')"
    by (intro of_base; code_simp)+
  have "dockerVolumesDirectoryReach ''data'' [''/srv/app''] = None" by code_simp
  then have "\<not> prefix (segments_of (''/srv/app'' @ ''/'' @ slashes ''data'')) storage"
    using path_passes_iff [of "''data''" "[''/srv/app'']"] relative(1) by blast
  moreover have "prefix (segments_of (''/srv/app'' @ ''/'' @ slashes ''../../var'')) storage" by code_simp
  then have "dockerVolumesDirectoryReach ''../../var'' [''/srv/app''] \<noteq> None"
    using path_passes_iff [of "''../../var''" "[''/srv/app'']"] relative(2) by blast
  ultimately show ?thesis by (simp add: slashes_def)
qed

end
