(* ===== verification/Compose_Volumes.thy ===== *)
theory Compose_Volumes
  imports Compose_Paths
begin

text \<open>
  The Docker volumes and host paths a set of compose files uses, the rest of
  \<open>packages/server/src/utils/volume-backups/compose-volumes.ts\<close>. A compose file is the value its YAML
  parses to; an object is the list of its own properties in JavaScript's order. What the source collects
  in shared arrays and sets is passed on in the record \<open>mounted\<close>, a \<open>Set\<close> as the list of its members
  in insertion order.
\<close>

section \<open>What is collected\<close>

record mounted =
  mt_keys :: "string list"
  mt_unresolved :: "string list"
  mt_forbidden :: "string list"
  mt_forbiddenParents :: "string list"
  mt_anyKey :: bool

record volume_options =
  vo_source :: var_source
  vo_appName :: string
  vo_baseDirs :: "string list"
  vo_commandVolumes :: "string list"
  vo_declared :: bool

definition quoted :: "string \<Rightarrow> string" where
  "quoted s = CHR 34 # s @ [CHR 34]"

definition add_new :: "'a \<Rightarrow> 'a list \<Rightarrow> 'a list" where
  "add_new x xs = (if x \<in> set xs then xs else xs @ [x])"

definition add_unresolved :: "string \<Rightarrow> mounted \<Rightarrow> mounted" where
  "add_unresolved t m = m\<lparr>mt_unresolved := mt_unresolved m @ [t]\<rparr>"

definition add_forbidden :: "string \<Rightarrow> mounted \<Rightarrow> mounted" where
  "add_forbidden t m = m\<lparr>mt_forbidden := mt_forbidden m @ [t]\<rparr>"

definition add_parent :: "string \<Rightarrow> mounted \<Rightarrow> mounted" where
  "add_parent t m = m\<lparr>mt_forbiddenParents := mt_forbiddenParents m @ [t]\<rparr>"

definition add_key :: "string \<Rightarrow> mounted \<Rightarrow> mounted" where
  "add_key k m = m\<lparr>mt_keys := add_new k (mt_keys m)\<rparr>"

definition interpolated :: "volume_options \<Rightarrow> string \<Rightarrow> string option" where
  "interpolated o' t = interpolateComposeValue (vo_source o') t"

section \<open>The checks of a host path\<close>

definition add_reach :: "storage_reach option \<Rightarrow> string \<Rightarrow> mounted \<Rightarrow> mounted" where
  "add_reach r t m = (case r of None \<Rightarrow> m | Some Inside \<Rightarrow> add_forbidden t m | Some Parent \<Rightarrow> add_parent t m)"

definition checkResolvedPath :: "volume_options \<Rightarrow> string \<Rightarrow> string \<Rightarrow> string \<Rightarrow> mounted \<Rightarrow> mounted" where
  "checkResolvedPath o' path label what m =
     (if path = [] then m
      else add_reach (dockerVolumesDirectoryReach path (vo_baseDirs o')) (what @ '' '' @ quoted label) m)"

definition strict_note :: string where
  "strict_note = '' (a variable in a host path, and the env file it comes from cannot be read)''"

definition followed_note :: string where
  "followed_note = '' (a variable whose value refers to a variable that cannot be followed)''"

definition climb_note :: string where
  "climb_note = '' (a '' @ quoted ''..'' @ '' in a path that depends on a variable)''"

definition refuseUnresolvedPath ::
  "volume_options \<Rightarrow> string \<Rightarrow> string \<Rightarrow> bool \<Rightarrow> mounted \<Rightarrow> mounted \<times> bool" where
  "refuseUnresolvedPath o' rawPath what mayBeName m =
     (let t = what @ '' '' @ quoted rawPath; fallback = soleDefaultReach rawPath (vo_baseDirs o')
      in if unresolvedSourceReachesDockerVolumes rawPath (vo_baseDirs o') then (add_forbidden t m, True)
         else if vs_strict (vo_source o') \<and> \<not> mayBeName \<and> firstVariableIndex rawPath \<noteq> None
         then (add_unresolved (t @ strict_note) m, True)
         else if referencesUnresolvedVariable (vo_source o') rawPath
         then (add_unresolved (t @ followed_note) m, True)
         else case fallback of
             Some (Some Inside) \<Rightarrow> (add_forbidden t m, True)
           | Some (Some Parent) \<Rightarrow> (add_parent t m, True)
           | Some None \<Rightarrow> (m, False)
           | None \<Rightarrow>
               if unresolvedSourceClimbs rawPath
                  \<or> ''..'' \<in> set (split_on slash (substituteVariables (vo_source o') rawPath))
               then (add_unresolved (t @ climb_note) m, True)
               else (m, False))"

definition checkPath :: "volume_options \<Rightarrow> string \<Rightarrow> string \<Rightarrow> mounted \<Rightarrow> mounted" where
  "checkPath o' rawPath what m = (case interpolated o' rawPath of
      None \<Rightarrow> fst (refuseUnresolvedPath o' rawPath what False m)
    | Some path \<Rightarrow> checkResolvedPath o' path rawPath what m)"

section \<open>The containers of a compose file\<close>

definition properties_of :: "json option \<Rightarrow> (string \<times> json) list" where
  "properties_of v = (case v of Some (J_Obj fs) \<Rightarrow> fs | _ \<Rightarrow> [])"

definition items :: "json option \<Rightarrow> json list" where
  "items v = (case v of Some (J_Arr xs) \<Rightarrow> xs | _ \<Rightarrow> [])"

definition is_record :: "json option \<Rightarrow> bool" where
  "is_record v \<longleftrightarrow> v \<noteq> None \<and> is_obj (the v)"

definition string_of :: "json option \<Rightarrow> string option" where
  "string_of v = (case v of Some (J_Str s) \<Rightarrow> Some s | _ \<Rightarrow> None)"

text \<open>\<open>if (value)\<close>.\<close>

definition is_truthy :: "json option \<Rightarrow> bool" where
  "is_truthy v = (case v of None \<Rightarrow> False | Some J_Null \<Rightarrow> False | Some (J_Bool b) \<Rightarrow> b
    | Some (J_Num n) \<Rightarrow> n \<noteq> 0 | Some (J_Str s) \<Rightarrow> s \<noteq> [] | Some _ \<Rightarrow> True)"

definition service_label :: "string \<Rightarrow> string" where
  "service_label name = ''service '' @ quoted name"

definition pre_start_specs :: "string \<Rightarrow> json \<Rightarrow> (string \<times> json) list" where
  "pre_start_specs name service =
     concat (map (\<lambda>(i, hook). if is_obj hook then [(service_label name @ '' pre_start['' @ show_nat i @ '']'', hook)] else [])
       (enumerate 0 (items (obj_get service ''pre_start''))))"

definition containerSpecs :: "json \<Rightarrow> (string \<times> json) list" where
  "containerSpecs spec =
     concat (map (\<lambda>(name, service).
         if is_obj service then (service_label name, service) # pre_start_specs name service else [])
       (properties_of (obj_get spec ''services'')))
     @ concat (map (\<lambda>(name, job). if is_obj job then [(''job '' @ quoted name, job)] else [])
       (properties_of (obj_get spec ''jobs'')))"

section \<open>Mounts\<close>

definition NON_VOLUME_TYPES :: "string list" where
  "NON_VOLUME_TYPES = [''tmpfs'', ''npipe'', ''cluster'', ''image'']"

text \<open>The first colon of a short-syntax volume that is not inside a \<open>${...}\<close>.\<close>

fun short_end :: "nat \<Rightarrow> nat \<Rightarrow> string \<Rightarrow> nat option" where
  "short_end i depth [] = None"
| "short_end i depth (c # cs) =
     (if c = CHR ''$'' \<and> starts_with (CHR ''$'') cs then short_end (i + 2) depth (tl cs)
      else if c = CHR ''$'' \<and> starts_with (CHR ''{'') cs then short_end (i + 2) (depth + 1) (tl cs)
      else if c = CHR ''}'' \<and> 0 < depth then short_end (i + 1) (depth - 1) cs
      else if c = CHR '':'' \<and> depth = 0 then Some i
      else short_end (i + 1) depth cs)"

definition shortVolumeSourceEnd :: "string \<Rightarrow> nat option" where
  "shortVolumeSourceEnd entry = short_end 0 0 entry"

definition addResolvedSource :: "volume_options \<Rightarrow> string \<Rightarrow> string \<Rightarrow> mounted \<Rightarrow> mounted" where
  "addResolvedSource o' source label m =
     (if source = [] then m
      else if isFilePathSource source then checkResolvedPath o' source label ''bind mount'' m
      else add_key source m)"

definition addSource :: "volume_options \<Rightarrow> string \<Rightarrow> bool \<Rightarrow> bool \<Rightarrow> mounted \<Rightarrow> mounted" where
  "addSource o' rawSource cutAtColon namesOnly m = (case interpolated o' rawSource of
      None \<Rightarrow> (let (m', refused) = refuseUnresolvedPath o' rawSource ''bind mount'' namesOnly m
        in if refused then m' else m'\<lparr>mt_anyKey := True\<rparr>)
    | Some source \<Rightarrow>
        addResolvedSource o' (if cutAtColon then before_first (CHR '':'') source else source) rawSource m)"

definition addShortEntry :: "volume_options \<Rightarrow> string \<Rightarrow> mounted \<Rightarrow> mounted" where
  "addShortEntry o' entry m =
     (let ending = shortVolumeSourceEnd entry;
          label = (case ending of None \<Rightarrow> entry | Some i \<Rightarrow> take i entry)
      in case interpolated o' entry of
          Some resolved \<Rightarrow>
            if CHR '':'' \<in> set resolved \<and> before_first (CHR '':'') resolved \<noteq> []
            then addResolvedSource o' (before_first (CHR '':'') resolved) label m
            else m
        | None \<Rightarrow> (case ending of
              None \<Rightarrow> add_unresolved (''volume '' @ quoted entry) m
            | Some i \<Rightarrow> if 0 < i then addSource o' (take i entry) True False m else m))"

definition add_volume_entry :: "volume_options \<Rightarrow> json \<Rightarrow> mounted \<Rightarrow> mounted" where
  "add_volume_entry o' entry m = (case entry of
      J_Str s \<Rightarrow> addShortEntry o' s m
    | J_Obj fs \<Rightarrow>
        let type = (case string_of (map_of fs ''type'') of None \<Rightarrow> [] | Some t \<Rightarrow> t)
        in if type \<in> set NON_VOLUME_TYPES then m
           else (case string_of (map_of fs ''source'') of
               None \<Rightarrow> m
             | Some source \<Rightarrow>
                 if source = [] then m
                 else if type = ''bind'' then checkPath o' source ''bind mount'' m
                 else addSource o' source False (type = ''volume'') m)
    | _ \<Rightarrow> m)"

definition add_volumes_from :: "string \<Rightarrow> json \<Rightarrow> mounted \<Rightarrow> mounted" where
  "add_volumes_from label entry m = (case entry of
      J_Str s \<Rightarrow> if prefix ''container:'' s then add_unresolved (label @ '' (volumes_from a container)'') m else m
    | _ \<Rightarrow> m)"

definition collect_container_mounts :: "volume_options \<Rightarrow> string \<times> json \<Rightarrow> mounted \<Rightarrow> mounted" where
  "collect_container_mounts o' c m =
     (let (label, service) = c;
          m1 = fold (add_volumes_from label) (items (obj_get service ''volumes_from'')) m;
          m2 = (if is_truthy (map_of (properties_of (obj_get service ''extends'')) ''file'')
                then add_unresolved (label @ '' (extends from another file)'') m1 else m1)
      in fold (add_volume_entry o') (items (obj_get service ''volumes'')) m2)"

definition collectMounts :: "volume_options \<Rightarrow> (string \<times> json) list \<Rightarrow> mounted \<Rightarrow> mounted" where
  "collectMounts o' containers m = fold (collect_container_mounts o') containers m"

section \<open>Host paths of other keys\<close>

definition REMOTE_BUILD_CONTEXT :: "string list" where
  "REMOTE_BUILD_CONTEXT = [''http://'', ''https://'', ''git://'', ''ssh://'', ''github.com/'', ''git@'']"

definition remote_context :: "string \<Rightarrow> bool" where
  "remote_context t \<longleftrightarrow> (\<exists>p\<in>set REMOTE_BUILD_CONTEXT. prefix p t)"

definition builder_reference :: "string \<Rightarrow> bool" where
  "builder_reference t \<longleftrightarrow> prefix ''service:'' t \<or> prefix ''docker-image://'' t"

definition OCI_LAYOUT :: string where "OCI_LAYOUT = ''oci-layout://''"
definition FILE_SCHEME :: string where "FILE_SCHEME = ''file://''"

definition after :: "string \<Rightarrow> string \<Rightarrow> string" where
  "after p s = drop (length p) s"

text \<open>\<open>/(?:^|[/\\])\.\.(?:[/\\]|$)/\<close>: a segment \<open>..\<close> between slashes of either kind.\<close>

definition has_climb :: "string \<Rightarrow> bool" where
  "has_climb s \<longleftrightarrow> ''..'' \<in> set (split_on slash (slashes s))"

definition mayClimb :: "string \<Rightarrow> bool" where
  "mayClimb s \<longleftrightarrow> has_climb s \<or> CHR ''$'' \<in> set s \<and> unresolvedSourceClimbs s"

fun cache_fields :: "bool \<Rightarrow> string \<Rightarrow> string \<Rightarrow> string list" where
  "cache_fields inside current [] = [current]"
| "cache_fields inside current (c # cs) =
     (if c = CHR 34
      then if inside \<and> starts_with (CHR 34) cs then cache_fields inside (current @ [c]) (tl cs)
           else cache_fields (\<not> inside) current cs
      else if c = CHR '','' \<and> \<not> inside then current # cache_fields inside [] cs
      else cache_fields inside (current @ [c]) cs)"

definition strip_quotes :: "string \<Rightarrow> string" where
  "strip_quotes s = rev (dropWhile (\<lambda>c. c = CHR 34) (rev (dropWhile (\<lambda>c. c = CHR 34) s)))"

definition parseCacheFields :: "string \<Rightarrow> (string \<times> string) list" where
  "parseCacheFields entry = map (\<lambda>f.
      if CHR ''='' \<notin> set f then (toLowerCase (trim f), [])
      else (toLowerCase (trim (before_first (CHR ''='') f)),
        strip_quotes (trim (tl (dropWhile (\<lambda>c. c \<noteq> CHR ''='') f)))))
    (cache_fields False [] entry)"

definition check_each_entry :: "volume_options \<Rightarrow> string \<Rightarrow> json option \<Rightarrow> mounted \<Rightarrow> mounted" where
  "check_each_entry o' what e m =
     (case string_of (case e of Some (J_Obj fs) \<Rightarrow> map_of fs ''path'' | _ \<Rightarrow> e) of
        None \<Rightarrow> m | Some path \<Rightarrow> if path = [] then m else checkPath o' path what m)"

definition checkEach :: "volume_options \<Rightarrow> json option \<Rightarrow> string \<Rightarrow> mounted \<Rightarrow> mounted" where
  "checkEach o' v what m =
     fold (check_each_entry o' what) (case v of Some (J_Arr xs) \<Rightarrow> map Some xs | _ \<Rightarrow> [v]) m"

definition checkCredentialSpec :: "volume_options \<Rightarrow> json option \<Rightarrow> mounted \<Rightarrow> mounted" where
  "checkCredentialSpec o' v m = (case string_of (map_of (properties_of v) ''file'') of
      None \<Rightarrow> m
    | Some file \<Rightarrow> checkPath o' (if prefix FILE_SCHEME file then after FILE_SCHEME file else file) ''credential_spec file'' m)"

text \<open>Without what follows the first \<open>c\<close> of the last segment.\<close>

definition cut_tail :: "char \<Rightarrow> string \<Rightarrow> string" where
  "cut_tail c s = (let base = rev (takeWhile (\<lambda>x. x \<noteq> slash) (rev s))
     in take (length s - length base) s @ before_first c base)"

text \<open>Also tells whether the context is a directory of the host.\<close>

definition checkContext :: "volume_options \<Rightarrow> string \<Rightarrow> string \<Rightarrow> bool \<Rightarrow> mounted \<Rightarrow> mounted \<times> bool" where
  "checkContext o' raw what allowReferences m =
     (let t = (case interpolated o' raw of None \<Rightarrow> raw | Some t \<Rightarrow> t)
      in if allowReferences \<and> builder_reference t then (m, False)
         else if prefix OCI_LAYOUT t
         then (checkPath o' (cut_tail (CHR '':'') (cut_tail (CHR ''@'') (after OCI_LAYOUT t))) what m, False)
         else if prefix FILE_SCHEME raw then (checkPath o' (after FILE_SCHEME raw) what m, True)
         else if prefix FILE_SCHEME t then (checkPath o' (after FILE_SCHEME t) what m, True)
         else if remote_context t
         then (if mayClimb t \<or> mayClimb raw \<or> vs_strict (vo_source o') \<and> firstVariableIndex raw \<noteq> None
               then checkPath o' raw what m else m, False)
         else (checkPath o' raw what m, True))"

definition checkCacheEntry :: "volume_options \<Rightarrow> string \<Rightarrow> json \<Rightarrow> mounted \<Rightarrow> mounted" where
  "checkCacheEntry o' what entry m = (case string_of (Some entry) of
      None \<Rightarrow> m
    | Some raw \<Rightarrow>
        let t = (case interpolated o' raw of None \<Rightarrow> raw | Some t \<Rightarrow> t);
            fs = parseCacheFields t;
            local = (\<exists>f\<in>set fs. fst f = ''type'' \<and> toLowerCase (snd f) = ''local'')
        in if \<not> local \<and> \<not> sublist ''local'' (toLowerCase t) \<and> CHR 34 \<notin> set t then m
           else fold (\<lambda>f m. if (fst f = ''src'' \<or> fst f = ''dest'') \<and> snd f \<noteq> [] then checkPath o' (snd f) what m else m) fs m)"

definition withSoleDefault :: "volume_options \<Rightarrow> string \<Rightarrow> string" where
  "withSoleDefault o' raw = (case interpolated o' raw of
      Some t \<Rightarrow> t | None \<Rightarrow> (case sole_default raw of None \<Rightarrow> raw | Some t \<Rightarrow> t))"

definition after_equals :: "string \<Rightarrow> string option" where
  "after_equals s = (if CHR ''='' \<in> set s then Some (tl (dropWhile (\<lambda>c. c \<noteq> CHR ''='') s)) else None)"

definition checkDockerfile :: "volume_options \<Rightarrow> string \<Rightarrow> bool \<Rightarrow> string \<Rightarrow> mounted \<Rightarrow> mounted" where
  "checkDockerfile o' context local dockerfile m =
     (if dockerfile = [] then m
      else let climbs = mayClimb dockerfile
             \<or> mayClimb (case interpolated o' dockerfile of None \<Rightarrow> dockerfile | Some t \<Rightarrow> t);
             m1 = (if \<not> starts_with slash dockerfile \<and> (local \<or> climbs)
                   then checkPath o' ((if local then withSoleDefault o' context else context) @ ''/'' @ dockerfile)
                     ''build dockerfile'' m
                   else m)
           in if starts_with slash dockerfile \<or> starts_with (CHR ''$'') dockerfile
              then checkPath o' dockerfile ''build dockerfile'' m1 else m1)"

definition checkAdditionalContext :: "volume_options \<Rightarrow> string option \<Rightarrow> mounted \<Rightarrow> mounted" where
  "checkAdditionalContext o' raw m =
     (case raw of None \<Rightarrow> m | Some t \<Rightarrow> fst (checkContext o' t ''additional build context'' True m))"

definition additional_contexts :: "json option \<Rightarrow> string option list" where
  "additional_contexts v = (case v of
      Some (J_Arr xs) \<Rightarrow> map (\<lambda>x. Option.bind (string_of (Some x)) after_equals) xs
    | Some (J_Obj fs) \<Rightarrow> map (\<lambda>f. string_of (Some (snd f))) fs
    | _ \<Rightarrow> [])"

definition ssh_values :: "json option \<Rightarrow> string list" where
  "ssh_values v = (case v of
      Some (J_Arr xs) \<Rightarrow> List.map_filter (\<lambda>x. Option.bind (string_of (Some x)) after_equals) xs
    | Some (J_Obj fs) \<Rightarrow> List.map_filter (\<lambda>f. string_of (Some (snd f))) fs
    | _ \<Rightarrow> [])"

definition checkSshValue :: "volume_options \<Rightarrow> string \<Rightarrow> mounted \<Rightarrow> mounted" where
  "checkSshValue o' v m = fold (\<lambda>key m.
      if trim key \<noteq> [] \<and> trim key \<noteq> ''default'' then checkPath o' (trim key) ''build ssh key'' m else m)
    (split_on (CHR '','') v) m"

definition checkBuild :: "volume_options \<Rightarrow> json option \<Rightarrow> mounted \<Rightarrow> mounted" where
  "checkBuild o' build m = (case build of
      Some (J_Str t) \<Rightarrow> fst (checkContext o' t ''build context'' False m)
    | Some (J_Obj fs) \<Rightarrow>
        let context = (case string_of (map_of fs ''context'') of None \<Rightarrow> ''.'' | Some t \<Rightarrow> t);
            (m1, local) = checkContext o' context ''build context'' False m;
            m2 = (case string_of (map_of fs ''dockerfile'') of
                None \<Rightarrow> m1 | Some d \<Rightarrow> checkDockerfile o' context local d m1);
            m3 = fold (checkAdditionalContext o') (additional_contexts (map_of fs ''additional_contexts'')) m2;
            m4 = fold (checkSshValue o') (ssh_values (map_of fs ''ssh'')) m3;
            m5 = fold (checkCacheEntry o' ''build cache_from directory'') (items (map_of fs ''cache_from'')) m4
        in fold (checkCacheEntry o' ''build cache_to directory'') (items (map_of fs ''cache_to'')) m5
    | _ \<Rightarrow> m)"

definition collect_container_paths :: "volume_options \<Rightarrow> string \<times> json \<Rightarrow> mounted \<Rightarrow> mounted" where
  "collect_container_paths o' c m =
     (let container = snd c;
          m1 = checkBuild o' (obj_get container ''build'') m;
          m2 = checkEach o' (obj_get container ''env_file'') ''env_file'' m1;
          m3 = checkEach o' (obj_get container ''label_file'') ''label_file'' m2;
          watch = map_of (properties_of (obj_get container ''develop'')) ''watch'';
          m4 = (case watch of Some (J_Arr xs) \<Rightarrow> checkEach o' watch ''develop watch path'' m3 | _ \<Rightarrow> m3)
      in checkCredentialSpec o' (obj_get container ''credential_spec'') m4)"

definition collect_section_files :: "volume_options \<Rightarrow> json \<Rightarrow> string \<times> string \<Rightarrow> mounted \<Rightarrow> mounted" where
  "collect_section_files o' spec s m = fold (\<lambda>(name, definition) m.
      case string_of (obj_get definition ''file'') of None \<Rightarrow> m
      | Some file \<Rightarrow> checkPath o' file (snd s @ '' of '' @ quoted name) m)
    (properties_of (obj_get spec (fst s))) m"

definition collectHostPaths :: "volume_options \<Rightarrow> json \<Rightarrow> mounted \<Rightarrow> mounted" where
  "collectHostPaths o' spec m =
     fold (collect_section_files o' spec) [(''secrets'', ''secret file''), (''configs'', ''config file'')]
       (fold (collect_container_paths o') (containerSpecs spec) m)"

section \<open>Providers and models\<close>

definition present :: "json option \<Rightarrow> bool" where
  "present v \<longleftrightarrow> v \<noteq> None \<and> v \<noteq> Some J_Null \<and> v \<noteq> Some (J_Arr []) \<and> v \<noteq> Some (J_Obj [])"

definition provider_text :: "string \<Rightarrow> json option \<Rightarrow> string" where
  "provider_text name provider =
     (case string_of (map_of (properties_of provider) ''type'') of
        Some type \<Rightarrow> if type \<noteq> [] then service_label name @ '' (provider type '' @ quoted type @ '')''
          else service_label name @ '' (provider)''
      | None \<Rightarrow> service_label name @ '' (provider)'')"

definition collectProviders :: "json \<Rightarrow> string list" where
  "collectProviders spec = concat (map (\<lambda>(name, service).
      let provider = obj_get service ''provider''
      in if provider = None \<or> provider = Some J_Null then [] else [provider_text name provider])
    (properties_of (obj_get spec ''services'')))"

definition collectModels :: "json \<Rightarrow> string list" where
  "collectModels spec =
     (if present (obj_get spec ''models'') then [''top-level models''] else [])
     @ concat (map (\<lambda>(label, container). if present (obj_get container ''models'') then [label @ '' (models)''] else [])
       (containerSpecs spec))"

end
