(* ===== verification/Compose_Resolution.thy ===== *)
theory Compose_Resolution
  imports Compose_Volumes
begin

text \<open>
  \<open>resolveComposeFilesMountedVolumes\<close> of
  \<open>packages/server/src/utils/volume-backups/compose-volumes.ts\<close>: the Docker volume names that a set of
  compose files uses, and what makes a deploy of them be refused.
\<close>

section \<open>The answer\<close>

record volume_use =
  vu_key :: string
  vu_volumeName :: string
  vu_derived :: bool
  vu_display :: "string option"

record resolution =
  rs_uses :: "volume_use list"
  rs_unresolved :: "string list"
  rs_forbidden :: "string list"
  rs_forbiddenParents :: "string list"
  rs_providers :: "string list"
  rs_models :: "string list"

definition use_id :: "volume_use \<Rightarrow> string" where
  "use_id u = vu_key u @ CHR 0x00 # vu_volumeName u"

text \<open>The set \<open>seen\<close> holds the ids of the uses collected so far.\<close>

definition addUse :: "volume_use \<Rightarrow> resolution \<Rightarrow> resolution" where
  "addUse u r = (if use_id u \<in> use_id ` set (rs_uses r) then r else r\<lparr>rs_uses := rs_uses r @ [u]\<rparr>)"

definition res_unresolved :: "string \<Rightarrow> resolution \<Rightarrow> resolution" where
  "res_unresolved t r = r\<lparr>rs_unresolved := rs_unresolved r @ [t]\<rparr>"

section \<open>Names\<close>

text \<open>What \<open>docker compose -p\<close> makes of a project name.\<close>

definition project_char :: "char \<Rightarrow> bool" where
  "project_char c \<longleftrightarrow> c = CHR ''-'' \<or> c = CHR ''_'' \<or> is_digit c \<or> 97 \<le> code c \<and> code c \<le> 122"

definition normalizeComposeProjectName :: "string \<Rightarrow> string" where
  "normalizeComposeProjectName name = filter project_char (toLowerCase name)"

definition project_prefixes :: "string \<Rightarrow> string list" where
  "project_prefixes appName = uniq [appName, normalizeComposeProjectName appName]"

definition FALSE_VALUES :: "string list" where
  "FALSE_VALUES = [''false'', ''0'', ''f'', ''n'', ''no'', ''off'']"

definition TRUE_VALUES :: "string list" where
  "TRUE_VALUES = [''true'', ''1'', ''t'', ''y'', ''yes'', ''on'']"

section \<open>One definition of a top-level volume\<close>

datatype externality = Not_External | External "json option" | External_Unknown

definition external_of :: "volume_options \<Rightarrow> json option \<Rightarrow> externality" where
  "external_of o' v =
     (let of_text = (\<lambda>t. case interpolated o' t of
          None \<Rightarrow> External_Unknown
        | Some t' \<Rightarrow> (let n = toLowerCase (trim t')
            in if n \<in> set TRUE_VALUES then External None
               else if n \<in> set FALSE_VALUES then Not_External else External_Unknown))
      in case v of
          Some (J_Obj fs) \<Rightarrow> External (map_of fs ''name'')
        | Some (J_Bool b) \<Rightarrow> if b then External None else Not_External
        | Some (J_Str t) \<Rightarrow> of_text t
        | Some (J_Num n) \<Rightarrow> of_text (show_int n)
        | _ \<Rightarrow> Not_External)"

definition volume_label :: "string \<Rightarrow> string" where
  "volume_label key = ''volume '' @ quoted key"

text \<open>The device of a mounted volume; True when the rest of the definition is still looked at.\<close>

definition check_device ::
  "volume_options \<Rightarrow> string \<Rightarrow> bool \<Rightarrow> (string \<times> json) list \<Rightarrow> resolution \<Rightarrow> resolution \<times> bool" where
  "check_device o' key isMounted definition r =
     (case (if isMounted then string_of (map_of (properties_of (map_of definition ''driver_opts'')) ''device'') else None) of
        None \<Rightarrow> (r, True)
      | Some device \<Rightarrow>
          if device = [] then (r, True)
          else (case interpolated o' device of
              None \<Rightarrow> (res_unresolved (volume_label key) r, False)
            | Some d \<Rightarrow>
                let t = volume_label key @ '' (device '' @ quoted device @ '')''
                in if \<not> isFilePathSource d then (r, True)
                   else (case dockerVolumesDirectoryReach d (vo_baseDirs o') of
                       Some Inside \<Rightarrow> (r\<lparr>rs_forbidden := rs_forbidden r @ [t]\<rparr>, False)
                     | Some Parent \<Rightarrow> (r\<lparr>rs_forbiddenParents := rs_forbiddenParents r @ [t]\<rparr>, False)
                     | None \<Rightarrow> (r, True))))"

definition is_set_name :: "json option \<Rightarrow> bool" where
  "is_set_name v \<longleftrightarrow> v \<noteq> None \<and> v \<noteq> Some J_Null \<and> v \<noteq> Some (J_Str [])"

definition name_uses ::
  "volume_options \<Rightarrow> string \<Rightarrow> json option \<Rightarrow> bool \<Rightarrow> resolution \<Rightarrow> resolution" where
  "name_uses o' key rawName isExternal r =
     (if is_set_name rawName
      then (case string_of rawName of
          None \<Rightarrow> res_unresolved (volume_label key) r
        | Some raw \<Rightarrow> (case interpolated o' raw of
              None \<Rightarrow> res_unresolved (volume_label key) r
            | Some name \<Rightarrow>
                if name = [] then res_unresolved (volume_label key) r
                else addUse \<lparr>vu_key = key, vu_volumeName = name, vu_derived = False,
                    vu_display = (if CHR ''$'' \<in> set raw then Some raw else None)\<rparr> r))
      else if isExternal
      then addUse \<lparr>vu_key = key, vu_volumeName = key, vu_derived = False, vu_display = None\<rparr> r
      else fold (\<lambda>p. addUse \<lparr>vu_key = key, vu_volumeName = p @ ''_'' @ key, vu_derived = True, vu_display = None\<rparr>)
             (project_prefixes (vo_appName o')) r)"

definition resolve_definition :: "volume_options \<Rightarrow> string \<Rightarrow> bool \<Rightarrow> json \<Rightarrow> resolution \<Rightarrow> resolution" where
  "resolve_definition o' key isMounted v r =
     (let definition = properties_of (Some v); (r1, going) = check_device o' key isMounted definition r
      in if \<not> going then r1
         else (case external_of o' (map_of definition ''external'') of
             External_Unknown \<Rightarrow> res_unresolved (volume_label key) r1
           | Not_External \<Rightarrow> name_uses o' key (map_of definition ''name'') False r1
           | External legacy \<Rightarrow>
               if \<not> isMounted then r1
               else name_uses o' key
                 (if is_truthy (map_of definition ''name'') then map_of definition ''name'' else legacy) True r1))"

section \<open>The whole of the files\<close>

definition collect_file :: "volume_options \<Rightarrow> json \<Rightarrow> mounted \<Rightarrow> mounted" where
  "collect_file o' spec m =
     (let m1 = (if is_truthy (obj_get spec ''include'')
                then add_unresolved ''include (volumes from another file)'' m else m)
      in if is_truthy (Some spec) then collectHostPaths o' spec (collectMounts o' (containerSpecs spec) m1) else m1)"

text \<open>\<open>/[$`*?[\]{}]/\<close>.\<close>

definition shell_char :: "char \<Rightarrow> bool" where
  "shell_char c \<longleftrightarrow> c \<in> set ''$`*?[]{}''"

definition declares :: "string \<Rightarrow> (string \<times> json) list \<Rightarrow> bool" where
  "declares key definitions \<longleftrightarrow> map_of definitions key \<noteq> None"

text \<open>A volume of a command line; the second component holds the names that no file declares.\<close>

definition add_command_volume ::
  "volume_options \<Rightarrow> (string \<times> json) list list \<Rightarrow> string \<Rightarrow> mounted \<times> string list \<Rightarrow> mounted \<times> string list" where
  "add_command_volume o' sets volume s =
     (let (m, names) = s; source = (if CHR '':'' \<in> set volume then before_first (CHR '':'') volume else [])
      in if \<exists>c\<in>set volume. shell_char c then (add_unresolved (''command volume '' @ quoted volume) m, names)
         else if source = [] then (m, names)
         else if isFilePathSource source
         then (add_reach (dockerVolumesDirectoryReach source (vo_baseDirs o'))
                 (''command bind mount '' @ quoted source) m, names)
         else if \<exists>d\<in>set sets. declares source d then (add_key source m, names)
         else (m, add_new source names))"

definition declared_keys :: "(string \<times> json) list list \<Rightarrow> string list" where
  "declared_keys sets = concat (map (map fst) sets)"

definition start_mounted :: mounted where
  "start_mounted = \<lparr>mt_keys = [], mt_unresolved = [], mt_forbidden = [], mt_forbiddenParents = [], mt_anyKey = False\<rparr>"

definition resolve_key :: "volume_options \<Rightarrow> (string \<times> json) list list \<Rightarrow> bool \<Rightarrow> string \<Rightarrow> resolution \<Rightarrow> resolution" where
  "resolve_key o' sets isMounted key r =
     fold (\<lambda>definitions. resolve_definition o' key isMounted (the (map_of definitions key))) (filter (declares key) sets) r"

definition resolveComposeFilesMountedVolumes :: "json list \<Rightarrow> volume_options \<Rightarrow> resolution" where
  "resolveComposeFilesMountedVolumes specs o' =
     (let read = filter (\<lambda>spec. is_truthy (Some spec)) specs;
          sets = map (\<lambda>spec. properties_of (obj_get spec ''volumes'')) specs;
          m1 = fold (collect_file o') specs start_mounted;
          (m2, names) = fold (add_command_volume o' sets) (vo_commandVolumes o') (m1, []);
          m3 = (if mt_anyKey m2 then fold add_key (declared_keys sets) m2 else m2);
          unmounted = (if vo_declared o' then filter (\<lambda>k. k \<notin> set (mt_keys m3)) (declared_keys sets) else []);
          start = \<lparr>rs_uses = [], rs_unresolved = mt_unresolved m3, rs_forbidden = mt_forbidden m3,
            rs_forbiddenParents = mt_forbiddenParents m3,
            rs_providers = concat (map collectProviders read), rs_models = concat (map collectModels read)\<rparr>;
          named = fold (\<lambda>n. addUse \<lparr>vu_key = n, vu_volumeName = n, vu_derived = False, vu_display = None\<rparr>) names start
      in fold (resolve_key o' sets False) (uniq unmounted) (fold (resolve_key o' sets True) (mt_keys m3) named))"

end
