(* ===== verification/Compose_Volumes_Props.thy ===== *)
theory Compose_Volumes_Props
  imports Compose_Resolution
begin

text \<open>
  What the check of a set of compose files is trusted with: a volume or a path that an accepted file
  mounts is one that was looked at. Everything the check collects only grows, so a refusal is never lost
  on the way.
\<close>

named_theorems grows_intros

section \<open>What is collected only grows\<close>

definition grows :: "mounted \<Rightarrow> mounted \<Rightarrow> bool" where
  "grows m m' \<longleftrightarrow> set (mt_keys m) \<subseteq> set (mt_keys m') \<and> set (mt_unresolved m) \<subseteq> set (mt_unresolved m')
     \<and> set (mt_forbidden m) \<subseteq> set (mt_forbidden m') \<and> set (mt_forbiddenParents m) \<subseteq> set (mt_forbiddenParents m')
     \<and> (mt_anyKey m \<longrightarrow> mt_anyKey m')"

lemma grows_refl [grows_intros, simp]: "grows m m"
  by (simp add: grows_def)

lemma grows_trans: "grows a b \<Longrightarrow> grows b c \<Longrightarrow> grows a c"
  by (auto simp: grows_def)

lemma grows_fold [grows_intros]: "(\<And>x m. grows m (f x m)) \<Longrightarrow> grows m (fold f xs m)"
  by (induction xs arbitrary: m) (auto intro: grows_trans)

lemma grows_fold_member:
  assumes "\<And>x m. grows m (f x m)" and "x \<in> set xs"
  obtains m0 where "grows (f x m0) (fold f xs m)"
proof -
  obtain as bs where "xs = as @ x # bs" using split_list [OF assms(2)] by blast
  then have "grows (f x (fold f as m)) (fold f xs m)" using grows_fold [OF assms(1)] by simp
  then show thesis by (rule that)
qed

lemma grows_adds [grows_intros]:
  "grows m (add_unresolved t m)" "grows m (add_forbidden t m)" "grows m (add_parent t m)"
  "grows m (add_key k m)" "grows m (m\<lparr>mt_anyKey := True\<rparr>)"
  by (auto simp: grows_def add_unresolved_def add_forbidden_def add_parent_def add_key_def add_new_def)

lemma grows_reach [grows_intros]: "grows m (add_reach r t m)"
  by (auto simp: add_reach_def intro: grows_intros split: option.splits storage_reach.splits)

lemma grows_resolved [grows_intros]: "grows m (checkResolvedPath o' p l w m)"
  by (auto simp: checkResolvedPath_def intro: grows_intros)

lemma grows_refuse [grows_intros]: "grows m (fst (refuseUnresolvedPath o' p w b m))"
  by (auto simp: refuseUnresolvedPath_def Let_def intro: grows_intros split: option.splits storage_reach.splits)

lemma grows_path [grows_intros]: "grows m (checkPath o' p w m)"
  by (auto simp: checkPath_def intro: grows_intros split: option.splits)

lemma grows_source [grows_intros]: "grows m (addResolvedSource o' s l m)"
  by (auto simp: addResolvedSource_def intro: grows_intros)

lemma grows_addSource [grows_intros]: "grows m (addSource o' s b c m)"
proof -
  have "grows m (fst (refuseUnresolvedPath o' s ''bind mount'' c m))" by (rule grows_refuse)
  then show ?thesis
    by (auto simp: addSource_def intro: grows_intros grows_trans split: option.splits prod.splits)
qed

lemma grows_short [grows_intros]: "grows m (addShortEntry o' e m)"
  by (auto simp: addShortEntry_def Let_def intro: grows_intros split: option.splits)

lemma grows_entry [grows_intros]: "grows m (add_volume_entry o' e m)"
  by (auto simp: add_volume_entry_def Let_def intro: grows_intros split: json.splits option.splits)

lemma grows_from [grows_intros]: "grows m (add_volumes_from l e m)"
  by (auto simp: add_volumes_from_def intro: grows_intros split: json.splits)

lemma grows_container [grows_intros]: "grows m (collect_container_mounts o' c m)"
  unfolding collect_container_mounts_def Let_def
  by (auto intro!: grows_trans [OF _ grows_fold [OF grows_entry]] grows_trans [OF _ grows_adds(1)]
      grows_fold [OF grows_from] split: prod.split)

lemma grows_mounts [grows_intros]: "grows m (collectMounts o' cs m)"
  unfolding collectMounts_def by (rule grows_fold [OF grows_container])

lemma grows_checkEach [grows_intros]: "grows m (checkEach o' v w m)"
  unfolding checkEach_def
  by (rule grows_fold) (auto simp: check_each_entry_def intro: grows_intros split: option.splits)

lemma grows_context [grows_intros]: "grows m (fst (checkContext o' t w b m))"
  by (auto simp: checkContext_def Let_def intro: grows_intros)

lemma grows_build [grows_intros]: "grows m (checkBuild o' v m)"
proof -
  have cache: "grows m (checkCacheEntry o' w e m)" for w e m
    unfolding checkCacheEntry_def Let_def by (auto intro!: grows_intros split: option.splits)
  have ssh: "grows m (checkSshValue o' s m)" for s m
    unfolding checkSshValue_def by (rule grows_fold) (auto intro: grows_intros)
  have additional: "grows m (checkAdditionalContext o' s m)" for s m
    by (auto simp: checkAdditionalContext_def intro: grows_intros split: option.splits)
  have dockerfile: "grows m (checkDockerfile o' c l d m)" for c l d m
    by (auto simp: checkDockerfile_def Let_def intro: grows_intros grows_trans [OF grows_path])
  have "grows m m1" if "checkContext o' t w False m = (m1, l)" for t w m1 l
    using grows_context [of m o' t w False] that by simp
  then show ?thesis
    unfolding checkBuild_def Let_def
    by (auto intro!: grows_trans [OF _ grows_fold [OF cache]] grows_trans [OF _ grows_fold [OF ssh]]
        grows_trans [OF _ grows_fold [OF additional]] grows_trans [OF _ dockerfile]
        intro: grows_intros split: option.split json.split prod.split)
qed

lemma grows_credential: "grows m (checkCredentialSpec o' v m)"
  by (auto simp: checkCredentialSpec_def intro: grows_intros split: option.splits)

lemma grows_container_paths: "grows m (collect_container_paths o' c m)"
proof -
  let ?m1 = "checkBuild o' (obj_get (snd c) ''build'') m"
  let ?m2 = "checkEach o' (obj_get (snd c) ''env_file'') ''env_file'' ?m1"
  let ?m3 = "checkEach o' (obj_get (snd c) ''label_file'') ''label_file'' ?m2"
  have "grows m ?m3" by (meson grows_build grows_checkEach grows_trans)
  then show ?thesis
    unfolding collect_container_paths_def Let_def
    by (auto intro: grows_trans [OF _ grows_credential] grows_trans [OF _ grows_checkEach] split: option.split json.split)
qed

lemma grows_host_paths [grows_intros]: "grows m (collectHostPaths o' spec m)"
proof -
  have part: "grows m (collect_section_files o' spec s m)" for s m
    unfolding collect_section_files_def
    by (rule grows_fold) (auto intro: grows_intros split: option.splits prod.splits)
  show ?thesis
    unfolding collectHostPaths_def by (rule grows_trans [OF grows_fold [OF grows_container_paths] grows_fold [OF part]])
qed

lemma grows_file: "grows m (collect_file o' spec m)"
  unfolding collect_file_def Let_def
  by (auto intro!: grows_trans [OF grows_mounts grows_host_paths] intro: grows_intros
      grows_trans [OF grows_adds(1) grows_trans [OF grows_mounts grows_host_paths]])

lemma grows_command: "grows (fst s) (fst (add_command_volume o' sets v s))"
  by (cases s) (auto simp: add_command_volume_def Let_def intro: grows_intros)

lemma grows_commands: "grows (fst s) (fst (fold (add_command_volume o' sets) vs s))"
proof (induction vs arbitrary: s)
  case (Cons v vs)
  then show ?case using grows_trans [OF grows_command Cons.IH] by simp
qed simp

section \<open>What the answer collects only grows\<close>

definition answers_more :: "resolution \<Rightarrow> resolution \<Rightarrow> bool" where
  "answers_more r r' \<longleftrightarrow> set (rs_uses r) \<subseteq> set (rs_uses r') \<and> set (rs_unresolved r) \<subseteq> set (rs_unresolved r')
     \<and> set (rs_forbidden r) \<subseteq> set (rs_forbidden r') \<and> set (rs_forbiddenParents r) \<subseteq> set (rs_forbiddenParents r')"

definition accepted :: "resolution \<Rightarrow> bool" where
  "accepted r \<longleftrightarrow> rs_unresolved r = [] \<and> rs_forbidden r = [] \<and> rs_forbiddenParents r = []"

lemma answers_refl [simp]: "answers_more r r"
  by (simp add: answers_more_def)

lemma answers_trans: "answers_more a b \<Longrightarrow> answers_more b c \<Longrightarrow> answers_more a c"
  by (auto simp: answers_more_def)

lemma accepted_before: "answers_more r r' \<Longrightarrow> accepted r' \<Longrightarrow> accepted r"
  by (auto simp: answers_more_def accepted_def)

lemma answers_fold: "(\<And>x r. answers_more r (f x r)) \<Longrightarrow> answers_more r (fold f xs r)"
  by (induction xs arbitrary: r) (auto intro: answers_trans)

lemma answers_fold_member:
  assumes "\<And>x r. answers_more r (f x r)" and "x \<in> set xs"
  obtains r0 where "answers_more (f x r0) (fold f xs r)"
proof -
  obtain as bs where "xs = as @ x # bs" using split_list [OF assms(2)] by blast
  then have "answers_more (f x (fold f as r)) (fold f xs r)" using answers_fold [OF assms(1)] by simp
  then show thesis by (rule that)
qed

lemma answers_use: "answers_more r (addUse u r)"
  by (auto simp: answers_more_def addUse_def)

lemma answers_unresolved: "answers_more r (res_unresolved t r)"
  by (auto simp: answers_more_def res_unresolved_def)

lemma answers_device: "answers_more r (fst (check_device o' key b d r))"
  by (auto simp: check_device_def Let_def answers_more_def res_unresolved_def split: option.split storage_reach.splits)

lemma answers_names: "answers_more r (name_uses o' key v b r)"
  by (auto simp: name_uses_def intro: answers_use answers_unresolved answers_fold split: option.split)

lemma answers_definition: "answers_more r (resolve_definition o' key b v r)"
proof (cases "check_device o' key b (properties_of (Some v)) r")
  case (Pair r1 going)
  then have "answers_more r r1" using answers_device [of r o' key b "properties_of (Some v)"] by simp
  then show ?thesis
    by (auto simp: resolve_definition_def Let_def Pair intro: answers_trans [OF _ answers_unresolved]
        answers_trans [OF _ answers_names] split: externality.split)
qed

lemma answers_key: "answers_more r (resolve_key o' sets b key r)"
  unfolding resolve_key_def by (rule answers_fold [OF answers_definition])

section \<open>What an entry mounts\<close>

text \<open>
  The meaning of an entry of \<open>volumes\<close> and of a definition of a volume, as far as the variables are
  known: what the compose specification says of them, with no regard to the check.
\<close>

datatype mount_source = Host_Path string | Volume_Key string

definition source_kind :: "string \<Rightarrow> mount_source option" where
  "source_kind s = (if s = [] then None else if isFilePathSource s then Some (Host_Path s) else Some (Volume_Key s))"

definition entry_mount :: "volume_options \<Rightarrow> json \<Rightarrow> mount_source option" where
  "entry_mount o' entry = (case entry of
      J_Str s \<Rightarrow> Option.bind (interpolated o' s)
        (\<lambda>t. if CHR '':'' \<in> set t then source_kind (before_first (CHR '':'') t) else None)
    | J_Obj fs \<Rightarrow>
        let type = (case string_of (map_of fs ''type'') of None \<Rightarrow> [] | Some t \<Rightarrow> t)
        in if type \<in> set NON_VOLUME_TYPES then None
           else Option.bind (string_of (map_of fs ''source'')) (\<lambda>s. Option.bind (interpolated o' s)
             (\<lambda>t. if type = ''bind'' then (if t = [] then None else Some (Host_Path t)) else source_kind t))
    | _ \<Rightarrow> None)"

definition definition_names :: "volume_options \<Rightarrow> string \<Rightarrow> json \<Rightarrow> string list option" where
  "definition_names o' key v =
     (let d = properties_of (Some v);
          named = (\<lambda>raw default. if is_set_name raw
            then Option.bind (string_of raw) (\<lambda>t. Option.bind (interpolated o' t) (\<lambda>n. if n = [] then None else Some [n]))
            else Some default)
      in case external_of o' (map_of d ''external'') of
          External_Unknown \<Rightarrow> None
        | Not_External \<Rightarrow> named (map_of d ''name'') (map (\<lambda>p. p @ ''_'' @ key) (project_prefixes (vo_appName o')))
        | External legacy \<Rightarrow>
            named (if is_truthy (map_of d ''name'') then map_of d ''name'' else legacy) [key])"

definition volumes_of :: "json \<Rightarrow> (string \<times> json) list" where
  "volumes_of spec = properties_of (obj_get spec ''volumes'')"

definition refused_mount :: "mounted \<Rightarrow> bool" where
  "refused_mount m \<longleftrightarrow> mt_unresolved m \<noteq> [] \<or> mt_forbidden m \<noteq> [] \<or> mt_forbiddenParents m \<noteq> []"

lemma refused_grows: "grows m m' \<Longrightarrow> refused_mount m \<Longrightarrow> refused_mount m'"
  by (auto simp: grows_def refused_mount_def)

lemma resolved_path_refused:
  "p \<noteq> [] \<Longrightarrow> dockerVolumesDirectoryReach p (vo_baseDirs o') \<noteq> None \<Longrightarrow> refused_mount (checkResolvedPath o' p l w m)"
  by (auto simp: checkResolvedPath_def add_reach_def refused_mount_def add_forbidden_def add_parent_def
      split: option.split storage_reach.splits)

definition looked_at :: "volume_options \<Rightarrow> mount_source \<Rightarrow> mounted \<Rightarrow> bool" where
  "looked_at o' s m \<longleftrightarrow> refused_mount m \<or> (case s of
      Host_Path p \<Rightarrow> dockerVolumesDirectoryReach p (vo_baseDirs o') = None
    | Volume_Key k \<Rightarrow> k \<in> set (mt_keys m))"

lemma looked_at_grows: "grows m m' \<Longrightarrow> looked_at o' s m \<Longrightarrow> looked_at o' s m'"
  using refused_grows by (auto simp: looked_at_def grows_def split: mount_source.splits)

lemma looked_at_path: "p \<noteq> [] \<Longrightarrow> looked_at o' (Host_Path p) (checkResolvedPath o' p l w m)"
  using resolved_path_refused by (auto simp: looked_at_def)

lemma looked_at_source: "source_kind s = Some k \<Longrightarrow> looked_at o' k (addResolvedSource o' s l m)"
proof -
  assume "source_kind s = Some k"
  then have s: "s \<noteq> []" and k: "k = (if isFilePathSource s then Host_Path s else Volume_Key s)"
    by (auto simp: source_kind_def split: if_splits)
  show ?thesis
  proof (cases "isFilePathSource s")
    case True
    then show ?thesis using looked_at_path [OF s] s k by (simp add: addResolvedSource_def)
  next
    case False
    then show ?thesis using s k by (simp add: addResolvedSource_def looked_at_def add_key_def add_new_def)
  qed
qed

lemma entry_looked_at: "entry_mount o' e = Some s \<Longrightarrow> looked_at o' s (add_volume_entry o' e m)"
proof (cases e)
  case (J_Str t)
  assume "entry_mount o' e = Some s"
  then obtain r where r: "interpolated o' t = Some r" "CHR '':'' \<in> set r" "source_kind (before_first (CHR '':'') r) = Some s"
    using J_Str by (auto simp: entry_mount_def bind_eq_Some_conv split: if_splits)
  then have "before_first (CHR '':'') r \<noteq> []" by (auto simp: source_kind_def)
  then show ?thesis using r looked_at_source [OF r(3)] J_Str by (simp add: add_volume_entry_def addShortEntry_def Let_def)
next
  case (J_Obj fs)
  let ?type = "case string_of (map_of fs ''type'') of None \<Rightarrow> [] | Some t \<Rightarrow> t"
  assume "entry_mount o' e = Some s"
  then obtain raw t where facts: "?type \<notin> set NON_VOLUME_TYPES" "string_of (map_of fs ''source'') = Some raw"
      "interpolated o' raw = Some t"
      "(if ?type = ''bind'' then (if t = [] then None else Some (Host_Path t)) else source_kind t) = Some s"
    using J_Obj by (auto simp: entry_mount_def Let_def bind_eq_Some_conv split: if_splits)
  have "raw \<noteq> []" using facts(3,4) by (auto simp: interpolated_def source_kind_def interpolateComposeValue.simps split: if_splits)
  then have "add_volume_entry o' e m = (if ?type = ''bind'' then checkResolvedPath o' t raw ''bind mount'' m
      else addResolvedSource o' t raw m)"
    using facts(1-3) J_Obj by (simp add: add_volume_entry_def Let_def checkPath_def addSource_def)
  then show ?thesis using facts(4) looked_at_path looked_at_source by (auto split: if_splits)
qed (simp_all add: entry_mount_def)

lemma container_looked_at:
  assumes "e \<in> set (items (obj_get (snd c) ''volumes''))" and "entry_mount o' e = Some s"
  shows "looked_at o' s (collect_container_mounts o' c m)"
proof -
  define m2 where "m2 = (let m1 = fold (add_volumes_from (fst c)) (items (obj_get (snd c) ''volumes_from'')) m
    in if is_truthy (map_of (properties_of (obj_get (snd c) ''extends'')) ''file'')
       then add_unresolved (fst c @ '' (extends from another file)'') m1 else m1)"
  have m2: "collect_container_mounts o' c m = fold (add_volume_entry o') (items (obj_get (snd c) ''volumes'')) m2"
    unfolding collect_container_mounts_def m2_def Let_def by (simp add: split_beta)
  obtain m0 where "grows (add_volume_entry o' e m0) (collect_container_mounts o' c m)"
    unfolding m2 by (rule grows_fold_member [OF grows_entry assms(1)])
  then show ?thesis using entry_looked_at [OF assms(2)] looked_at_grows by blast
qed

lemma files_look_at:
  assumes "spec \<in> set specs" "c \<in> set (containerSpecs spec)"
    and "e \<in> set (items (obj_get (snd c) ''volumes''))" "entry_mount o' e = Some s"
  shows "looked_at o' s (fold (collect_file o') specs m)"
proof -
  have "is_truthy (Some spec)"
    using assms(2) by (cases spec) (auto simp: containerSpecs_def properties_of_def is_truthy_def)
  obtain m0 where part: "grows (collect_file o' spec m0) (fold (collect_file o') specs m)"
    by (rule grows_fold_member [OF grows_file assms(1)])
  obtain m1 where m1: "collect_file o' spec m0 = collectHostPaths o' spec (collectMounts o' (containerSpecs spec) m1)"
    using \<open>is_truthy (Some spec)\<close> by (auto simp: collect_file_def Let_def intro: that)
  obtain m2 where "grows (collect_container_mounts o' c m2) (collectMounts o' (containerSpecs spec) m1)"
    unfolding collectMounts_def by (rule grows_fold_member [OF grows_container assms(2)])
  then have "grows (collect_container_mounts o' c m2) (fold (collect_file o') specs m)"
    by (rule grows_trans [OF _ grows_trans [OF grows_host_paths part [unfolded m1]]])
  then show ?thesis using container_looked_at [OF assms(3,4)] looked_at_grows by blast
qed

section \<open>What the answer holds of a definition\<close>

text \<open>A use of the volume; a key or a name with a NUL character, which no volume has, is not told apart.\<close>

definition named_use :: "resolution \<Rightarrow> string \<Rightarrow> string \<Rightarrow> bool" where
  "named_use r key n \<longleftrightarrow> (\<exists>u\<in>set (rs_uses r). use_id u = key @ CHR 0x00 # n)"

lemma named_use_more: "answers_more r r' \<Longrightarrow> named_use r key n \<Longrightarrow> named_use r' key n"
  by (auto simp: named_use_def answers_more_def)

lemma named_use_add: "named_use (addUse u r) (vu_key u) (vu_volumeName u)"
  by (auto simp: named_use_def addUse_def use_id_def)

lemma named_use_read:
  assumes "named_use r key n" "CHR 0x00 \<notin> set key" "CHR 0x00 \<notin> set n"
  shows "\<exists>u\<in>set (rs_uses r). vu_key u = key \<and> vu_volumeName u = n"
proof -
  obtain u where u: "u \<in> set (rs_uses r)" "vu_key u @ CHR 0x00 # vu_volumeName u = key @ CHR 0x00 # n"
    using assms(1) by (auto simp: named_use_def use_id_def)
  then have "vu_key u = key \<and> vu_volumeName u = n"
    using assms(2,3) by (auto simp: append_eq_append_conv2 append_eq_Cons_conv Cons_eq_append_conv)
  then show ?thesis using u(1) by blast
qed

definition names_in_use :: "resolution \<Rightarrow> string \<Rightarrow> string list option \<Rightarrow> bool" where
  "names_in_use r key ns \<longleftrightarrow> ns \<noteq> None \<and> (\<forall>n\<in>set (the ns). named_use r key n)"

lemma name_uses_names:
  assumes "accepted (name_uses o' key raw isExternal r)"
  shows "names_in_use (name_uses o' key raw isExternal r) key
    (if is_set_name raw
     then Option.bind (string_of raw) (\<lambda>t. Option.bind (interpolated o' t) (\<lambda>n. if n = [] then None else Some [n]))
     else Some (if isExternal then [key] else map (\<lambda>p. p @ ''_'' @ key) (project_prefixes (vo_appName o'))))"
proof (cases "is_set_name raw")
  case True
  then obtain t n where "string_of raw = Some t" "interpolated o' t = Some n" "n \<noteq> []"
    using assms by (auto simp: name_uses_def accepted_def res_unresolved_def split: option.splits if_splits)
  then show ?thesis
    using True named_use_add [of "\<lparr>vu_key = key, vu_volumeName = n, vu_derived = False,
        vu_display = (if CHR ''$'' \<in> set t then Some t else None)\<rparr>" r]
    by (simp add: names_in_use_def name_uses_def)
next
  case False
  show ?thesis
  proof (cases isExternal)
    case True
    then show ?thesis
      using False named_use_add [of "\<lparr>vu_key = key, vu_volumeName = key, vu_derived = False, vu_display = None\<rparr>" r]
      by (simp add: names_in_use_def name_uses_def)
  next
    case own: False
    let ?f = "\<lambda>p. addUse \<lparr>vu_key = key, vu_volumeName = p @ ''_'' @ key, vu_derived = True, vu_display = None\<rparr>"
    have "named_use (fold ?f ps r) key (p @ ''_'' @ key)" if p: "p \<in> set ps" for p ps
    proof -
      obtain r0 where "answers_more (?f p r0) (fold ?f ps r)"
        by (rule answers_fold_member [OF _ p]) (auto intro: answers_use)
      then show ?thesis using named_use_add named_use_more by fastforce
    qed
    then show ?thesis using False own by (simp add: names_in_use_def name_uses_def)
  qed
qed

lemma names_in_use_more: "answers_more r r' \<Longrightarrow> names_in_use r key ns \<Longrightarrow> names_in_use r' key ns"
  using named_use_more by (auto simp: names_in_use_def)

lemma resolve_definition_names:
  assumes "accepted (resolve_definition o' key True v r)"
  shows "names_in_use (resolve_definition o' key True v r) key (definition_names o' key v)"
proof -
  let ?d = "properties_of (Some v)"
  obtain r1 going where device: "check_device o' key True ?d r = (r1, going)" by fastforce
  have going: going
  proof (rule ccontr)
    assume "\<not> going"
    then have "accepted r1" using assms by (simp add: resolve_definition_def device Let_def)
    then show False using \<open>\<not> going\<close> device
      by (auto simp: check_device_def Let_def accepted_def res_unresolved_def split: option.splits storage_reach.splits if_splits)
  qed
  show ?thesis
  proof (cases "external_of o' (map_of ?d ''external'')")
    case Not_External
    then have "resolve_definition o' key True v r = name_uses o' key (map_of ?d ''name'') False r1"
      using going by (simp add: resolve_definition_def device Let_def)
    then show ?thesis using name_uses_names [of o' key "map_of ?d ''name''" False r1] assms Not_External
      unfolding definition_names_def Let_def by (simp only: externality.case if_False)
  next
    case (External legacy)
    let ?raw = "if is_truthy (map_of ?d ''name'') then map_of ?d ''name'' else legacy"
    have "resolve_definition o' key True v r = name_uses o' key ?raw True r1"
      using going External by (simp add: resolve_definition_def device Let_def)
    then show ?thesis using name_uses_names [of o' key ?raw True r1] assms External
      unfolding definition_names_def Let_def by (simp only: externality.case if_True)
  next
    case External_Unknown
    then show ?thesis using assms going by (simp add: resolve_definition_def device Let_def accepted_def res_unresolved_def)
  qed
qed

lemma key_names:
  assumes "definitions \<in> set sets" "map_of definitions key = Some v"
    and "answers_more (resolve_key o' sets True key r0) r" "accepted r"
  shows "names_in_use r key (definition_names o' key v)"
proof -
  have "definitions \<in> set (filter (declares key) sets)" using assms(1,2) by (simp add: declares_def)
  then obtain r1 where "answers_more (resolve_definition o' key True (the (map_of definitions key)) r1) (resolve_key o' sets True key r0)"
    unfolding resolve_key_def by (rule answers_fold_member [OF answers_definition])
  then have more: "answers_more (resolve_definition o' key True v r1) r" using assms(2,3) answers_trans by fastforce
  show ?thesis
    by (rule names_in_use_more [OF more resolve_definition_names [OF accepted_before [OF more assms(4)]]])
qed

section \<open>The mounts of accepted files\<close>

lemma resolve_steps:
  obtains m sets r0 where
    "sets = map volumes_of specs"
    "grows (fold (collect_file o') specs start_mounted) m"
    "answers_more r0 (resolveComposeFilesMountedVolumes specs o')"
    "rs_unresolved r0 = mt_unresolved m" "rs_forbidden r0 = mt_forbidden m" "rs_forbiddenParents r0 = mt_forbiddenParents m"
    "\<And>key. key \<in> set (mt_keys m) \<Longrightarrow>
       \<exists>r1. answers_more (resolve_key o' sets True key r1) (resolveComposeFilesMountedVolumes specs o')"
proof -
  define sets where "sets = map volumes_of specs"
  obtain m2 names where commands: "fold (add_command_volume o' sets) (vo_commandVolumes o')
      (fold (collect_file o') specs start_mounted, []) = (m2, names)" by fastforce
  define m where "m = (if mt_anyKey m2 then fold add_key (declared_keys sets) m2 else m2)"
  define read where "read = filter (\<lambda>spec. is_truthy (Some spec)) specs"
  define r0 where "r0 = \<lparr>rs_uses = [], rs_unresolved = mt_unresolved m, rs_forbidden = mt_forbidden m,
    rs_forbiddenParents = mt_forbiddenParents m,
    rs_providers = concat (map collectProviders read), rs_models = concat (map collectModels read)\<rparr>"
  define named where "named = fold (\<lambda>n. addUse \<lparr>vu_key = n, vu_volumeName = n, vu_derived = False, vu_display = None\<rparr>) names r0"
  define unmounted where "unmounted = (if vo_declared o' then filter (\<lambda>k. k \<notin> set (mt_keys m)) (declared_keys sets) else [])"
  let ?mounted = "fold (resolve_key o' sets True) (mt_keys m) named"
  have answer: "resolveComposeFilesMountedVolumes specs o' = fold (resolve_key o' sets False) (uniq unmounted) ?mounted"
    using commands unfolding resolveComposeFilesMountedVolumes_def Let_def unmounted_def named_def r0_def m_def read_def
    by (simp add: sets_def volumes_of_def [abs_def])
  have last: "answers_more ?mounted (resolveComposeFilesMountedVolumes specs o')"
    unfolding answer by (rule answers_fold [OF answers_key])
  show thesis
  proof
    show "sets = map volumes_of specs" by (rule sets_def)
    have "grows (fold (collect_file o') specs start_mounted) m2"
      using grows_commands [of "(fold (collect_file o') specs start_mounted, [])"] commands by (metis fst_conv)
    moreover have "grows m2 m" unfolding m_def by (auto intro: grows_fold grows_adds)
    ultimately show "grows (fold (collect_file o') specs start_mounted) m" by (rule grows_trans)
    have "answers_more r0 named" unfolding named_def by (rule answers_fold [OF answers_use])
    then show "answers_more r0 (resolveComposeFilesMountedVolumes specs o')"
      by (rule answers_trans [OF _ answers_trans [OF answers_fold [OF answers_key] last]])
    show "\<exists>r1. answers_more (resolve_key o' sets True key r1) (resolveComposeFilesMountedVolumes specs o')"
      if key: "key \<in> set (mt_keys m)" for key
    proof -
      obtain r1 where "answers_more (resolve_key o' sets True key r1) ?mounted"
        by (rule answers_fold_member [OF answers_key key])
      then show ?thesis using answers_trans last by blast
    qed
  qed (simp_all add: r0_def)
qed

lemma accepted_mount:
  assumes "accepted (resolveComposeFilesMountedVolumes specs o')"
    and "looked_at o' s (fold (collect_file o') specs start_mounted)"
  shows "case s of Host_Path p \<Rightarrow> dockerVolumesDirectoryReach p (vo_baseDirs o') = None
    | Volume_Key k \<Rightarrow> (\<forall>spec\<in>set specs. \<forall>v. map_of (volumes_of spec) k = Some v \<longrightarrow>
        names_in_use (resolveComposeFilesMountedVolumes specs o') k (definition_names o' k v))"
proof -
  obtain m sets r0 where sets: "sets = map volumes_of specs"
    and m: "grows (fold (collect_file o') specs start_mounted) m"
    and r0: "answers_more r0 (resolveComposeFilesMountedVolumes specs o')" "rs_unresolved r0 = mt_unresolved m"
      "rs_forbidden r0 = mt_forbidden m" "rs_forbiddenParents r0 = mt_forbiddenParents m"
    and key: "\<And>key. key \<in> set (mt_keys m) \<Longrightarrow>
       \<exists>r1. answers_more (resolve_key o' sets True key r1) (resolveComposeFilesMountedVolumes specs o')"
    by (rule resolve_steps [of specs o']) blast
  have "\<not> refused_mount m" using accepted_before [OF r0(1) assms(1)] r0(2-4) by (simp add: accepted_def refused_mount_def)
  moreover have "looked_at o' s m" by (rule looked_at_grows [OF m assms(2)])
  ultimately have s: "case s of Host_Path p \<Rightarrow> dockerVolumesDirectoryReach p (vo_baseDirs o') = None
      | Volume_Key k \<Rightarrow> k \<in> set (mt_keys m)" by (simp add: looked_at_def)
  show ?thesis
  proof (cases s)
    case (Volume_Key k)
    then obtain r1 where "answers_more (resolve_key o' sets True k r1) (resolveComposeFilesMountedVolumes specs o')"
      using key s by auto
    then have "names_in_use (resolveComposeFilesMountedVolumes specs o') k (definition_names o' k v)"
      if "spec \<in> set specs" "map_of (volumes_of spec) k = Some v" for spec v
      using key_names [of "volumes_of spec" sets k v o' r1] that sets assms(1) by simp
    then show ?thesis using Volume_Key by simp
  qed (use s in simp)
qed

definition sample_options :: volume_options where
  "sample_options = \<lparr>vo_source = \<lparr>vs_env = Some [(''ROOT'', ''/srv''), (''HOME'', [unknown_mark])], vs_strict = False\<rparr>,
     vo_appName = ''shop'', vo_baseDirs = [''/etc/dokploy/compose/shop/code''], vo_commandVolumes = [], vo_declared = True\<rparr>"

definition sample_service :: json where
  "sample_service = J_Obj [(''volumes'', J_Arr [J_Str ''data:/data'', J_Str ''${ROOT}/files:/files''])]"

definition sample_file :: json where
  "sample_file = J_Obj [(''services'', J_Obj [(''web'', sample_service)]),
     (''volumes'', J_Obj [(''data'', J_Obj [(''name'', J_Str ''shared'')])])]"

section \<open>What the deploy will see\<close>

definition with_env :: "vars \<Rightarrow> volume_options \<Rightarrow> volume_options" where
  "with_env env o' = o'\<lparr>vo_source := \<lparr>vs_env = Some env, vs_strict = False\<rparr>\<rparr>"

lemma interpolated_completed:
  "completes env full \<Longrightarrow> interpolated (with_env env o') t = Some r \<Longrightarrow> interpolated (with_env full o') t = Some r"
  using interpolate_completed by (simp add: interpolated_def with_env_def)

lemma external_completed:
  assumes "completes env full" "external_of (with_env env o') v \<noteq> External_Unknown"
  shows "external_of (with_env full o') v = external_of (with_env env o') v"
proof -
  have t: "interpolated (with_env full o') t = interpolated (with_env env o') t"
    if "interpolated (with_env env o') t \<noteq> None" for t
    using that interpolated_completed [OF assms(1)] by fastforce
  show ?thesis
  proof (cases "\<exists>t. (v = Some (J_Str t) \<or> (\<exists>n. v = Some (J_Num n) \<and> t = show_int n)) \<and> interpolated (with_env env o') t = None")
    case True
    then show ?thesis using assms(2) by (auto simp: external_of_def Let_def)
  next
    case False
    then show ?thesis using t by (cases v; cases "the v") (auto simp: external_of_def Let_def)
  qed
qed

text \<open>
  C8. What the check resolves is what the deploy uses. Let an environment hold marks for the variables of
  the deploy's shell, and let the shell set these to any text: an entry mounts then the source the check
  saw, and a definition of a volume has the names the check saw.
\<close>

theorem known_values_stand:
  assumes "completes env full"
  shows "(entry_mount (with_env env o') e = Some s \<longrightarrow> entry_mount (with_env full o') e = Some s)
    \<and> (definition_names (with_env env o') k v = Some ns \<longrightarrow> definition_names (with_env full o') k v = Some ns)"
proof (intro conjI impI)
  note known = interpolated_completed [OF assms]
  show "entry_mount (with_env full o') e = Some s" if "entry_mount (with_env env o') e = Some s"
    using that known by (cases e) (fastforce simp: entry_mount_def Let_def bind_eq_Some_conv split: if_splits)+
  show "definition_names (with_env full o') k v = Some ns" if names: "definition_names (with_env env o') k v = Some ns"
  proof -
    have "external_of (with_env env o') (map_of (properties_of (Some v)) ''external'') \<noteq> External_Unknown"
      using names by (auto simp: definition_names_def Let_def)
    then have "external_of (with_env full o') (map_of (properties_of (Some v)) ''external'')
        = external_of (with_env env o') (map_of (properties_of (Some v)) ''external'')"
      by (rule external_completed [OF assms])
    moreover have "vo_appName (with_env full o') = vo_appName (with_env env o')" by (simp add: with_env_def)
    ultimately show ?thesis using names known unfolding definition_names_def Let_def
      by (cases "external_of (with_env env o') (map_of (properties_of (Some v)) ''external'')")
        (auto simp: bind_eq_Some_conv split: if_splits)
  qed
qed

lemma known_values_stand_witness:
  "entry_mount (with_env [(''ROOT'', ''/srv''), (''HOME'', ''/root'')] sample_options) (J_Str ''${ROOT}/a:/a'')
     = Some (Host_Path ''/srv/a'')"
proof -
  have "completes [(''ROOT'', ''/srv''), (''HOME'', [unknown_mark])] [(''ROOT'', ''/srv''), (''HOME'', ''/root'')]"
    by (auto simp: completes_def marked_def unknown_mark_def unresolved_mark_def some_text_def)
  then have "entry_mount (with_env [(''ROOT'', ''/srv''), (''HOME'', [unknown_mark])] sample_options) (J_Str ''${ROOT}/a:/a'')
      = Some (Host_Path ''/srv/a'') \<longrightarrow>
      entry_mount (with_env [(''ROOT'', ''/srv''), (''HOME'', ''/root'')] sample_options) (J_Str ''${ROOT}/a:/a'')
      = Some (Host_Path ''/srv/a'')"
    using known_values_stand by blast
  moreover have "entry_mount (with_env [(''ROOT'', ''/srv''), (''HOME'', [unknown_mark])] sample_options) (J_Str ''${ROOT}/a:/a'')
      = Some (Host_Path ''/srv/a'')" by code_simp
  ultimately show ?thesis by blast
qed

section \<open>A variable that the check cannot hold\<close>

lemma no_proto_property: "map_of (fold (resolve_entry env un) es resolved) ''__proto__'' = map_of resolved ''__proto__''"
proof (induction es arbitrary: resolved)
  case (Cons e es)
  have "map_of (resolve_entry env un e resolved) ''__proto__'' = map_of resolved ''__proto__''"
    by (simp add: resolve_entry_def set_property_def update_conv' Let_def)
  then show ?case using Cons.IH by simp
qed simp

text \<open>
  C30. A variable named \<open>__proto__\<close> is never seen: whatever an env file sets it to, the resolved
  environment has no such variable, so the entry \<open>${__proto__}:/host\<close> counts as an anonymous volume and
  nothing is checked, while with the value \<open>/\<close> the deploy mounts the root of the host.
\<close>

theorem proto_variable_hides_mount:
  "map_of (resolveEnvironmentReferences env un) ''__proto__'' = None
   \<and> addShortEntry (with_env (resolveEnvironmentReferences env un) o') ''${__proto__}:/host'' m = m
   \<and> entry_mount (with_env [(''__proto__'', ''/'')] o') (J_Str ''${__proto__}:/host'') = Some (Host_Path ''/'')
   \<and> dockerVolumesDirectoryReach ''/'' dirs = Some Parent"
proof (intro conjI)
  let ?env = "resolveEnvironmentReferences env un"
  show absent: "map_of ?env ''__proto__'' = None"
    unfolding resolveEnvironmentReferences_def by (simp add: no_proto_property)
  have parts: "pieces ''${__proto__}:/host'' = Braced ''__proto__'' None # map Plain '':/host''" by code_simp
  have "interpolated (with_env ?env o') ''${__proto__}:/host'' = Some '':/host''"
    using absent by (simp add: interpolated_def with_env_def interpolate_pieces parts trusted_def known_def
        joined_value_def cannot_be_known_def escaped_dollar_def unknown_mark_def unresolved_mark_def del: pieces.simps)
  then show "addShortEntry (with_env ?env o') ''${__proto__}:/host'' m = m"
    by (simp add: addShortEntry_def before_first_def Let_def)
  have "interpolated (with_env [(''__proto__'', ''/'')] o') ''${__proto__}:/host'' = Some ''/:/host''"
    by (simp add: interpolated_def with_env_def interpolate_pieces parts trusted_def known_def
        joined_value_def cannot_be_known_def escaped_dollar_def unknown_mark_def unresolved_mark_def del: pieces.simps)
  then show "entry_mount (with_env [(''__proto__'', ''/'')] o') (J_Str ''${__proto__}:/host'') = Some (Host_Path ''/'')"
    by (simp add: entry_mount_def before_first_def source_kind_def isFilePathSource_def)
  show "dockerVolumesDirectoryReach ''/'' dirs = Some Parent"
    by (simp add: dockerVolumesDirectoryReach_def bindSourceInputs_def slashes_def starts_with_def reach_of_segments
        segments_of_def storage_def Let_def)
qed

end
