(* ===== verification/Compose_Command.thy ===== *)
theory Compose_Command
  imports Compose_Resolution
begin

text \<open>
  The custom command of a compose as its check reads it, from
  \<open>packages/server/src/services/compose-volume-binding.ts\<close>: the commands of the line, their options as
  the docker CLI would take them, and what they name. The tokens of the line come from \<open>shell-quote\<close>,
  a variable left as written. A loop over the index of the words is a recursion on the words that are
  left; a throw is a value of \<open>command_refusal\<close> with the words its message shows.
\<close>

section \<open>Tokens and segments\<close>

datatype token = Word_Token string | Glob_Token string | Operator_Token "string option"

datatype command_refusal =
    Unknown_Compose_Option string | Dash_Value string string | Not_Literal string string
  | Daemon_Option string | Not_Compose "string option" | Subcommand_Not_Allowed string
  | Watch_Option string | Output_Option string | Storage_Path string string | Outside_Own_Directory string string
  | Unsafe_Project_Name string | Foreign_Project_Name string | Unknown_Stack_Option string | Foreign_Stack string
  | Unnamed_Project string | Foreign_File_Name | No_Compose_File string | Opaque_Run | Unchecked_Mount string
  | Path_Not_Verified string string

datatype segment_kind = Compose_Segment | Stack_Segment | Other_Segment

record command_segment =
  cs_kind :: segment_kind
  cs_subcommand :: "string option"
  cs_files :: "string list"
  cs_projectDirectories :: "string list"
  cs_projectName :: "string option"
  cs_stackNames :: "string list"
  cs_stackUnknownOption :: "string option"
  cs_volumes :: "string list"
  cs_envFiles :: "string list"
  cs_envFromFiles :: "string list"
  cs_outputOption :: "string option"
  cs_watchOption :: "string option"
  cs_command :: "string option"
  cs_uncheckedMounts :: "string list"
  cs_daemonOption :: "string option"

definition empty_segment :: command_segment where
  "empty_segment = \<lparr>cs_kind = Other_Segment, cs_subcommand = None, cs_files = [], cs_projectDirectories = [],
     cs_projectName = None, cs_stackNames = [], cs_stackUnknownOption = None, cs_volumes = [], cs_envFiles = [],
     cs_envFromFiles = [], cs_outputOption = None, cs_watchOption = None, cs_command = None,
     cs_uncheckedMounts = [], cs_daemonOption = None\<rparr>"

section \<open>Options\<close>

definition DOCKER_OPTIONS_WITH_VALUE :: "string list" where
  "DOCKER_OPTIONS_WITH_VALUE = [''--config'', ''-H'', ''--host'', ''--context'', ''-c'', ''--log-level'', ''-l'',
     ''--tlscacert'', ''--tlscert'', ''--tlskey'']"

definition COMPOSE_OPTIONS_WITH_VALUE :: "string list" where
  "COMPOSE_OPTIONS_WITH_VALUE = [''-f'', ''--file'', ''-p'', ''--project-name'', ''--env-file'',
     ''--project-directory'', ''--workdir'', ''--profile'', ''--parallel'', ''--ansi'', ''--progress'',
     ''--insecure-registry'', ''--log-level'', ''--host'', ''--context'', ''--config'', ''--tlscacert'', ''--tlscert'',
     ''--tlskey'']"

definition COMPOSE_BOOLEAN_OPTIONS :: "string list" where
  "COMPOSE_BOOLEAN_OPTIONS = [''--compatibility'', ''--all-resources'', ''--dry-run'', ''--version'', ''--no-ansi'',
     ''--verbose'', ''--help'', ''--debug'', ''--tls'', ''--tlsverify'']"

definition RUN_SHORT_OPTIONS_WITH_VALUE :: "char list" where
  "RUN_SHORT_OPTIONS_WITH_VALUE = ''elpuvw''"

definition RUN_LONG_OPTIONS_WITH_VALUE :: "string list" where
  "RUN_LONG_OPTIONS_WITH_VALUE = [''cap-add'', ''cap-drop'', ''entrypoint'', ''env'', ''env-from-file'', ''label'',
     ''name'', ''publish'', ''pull'', ''user'', ''volume'', ''workdir'']"

definition RUN_AND_EXEC_LONG_OPTIONS_WITH_VALUE :: "string list" where
  "RUN_AND_EXEC_LONG_OPTIONS_WITH_VALUE = ''index'' # RUN_LONG_OPTIONS_WITH_VALUE"

definition STACK_LONG_OPTIONS_WITH_VALUE :: "string list" where
  "STACK_LONG_OPTIONS_WITH_VALUE = [''compose-file'', ''filter'', ''format'', ''resolve-image'', ''orchestrator'',
     ''namespace'', ''kubeconfig'']"

definition STACK_LONG_BOOLEAN_OPTIONS :: "string list" where
  "STACK_LONG_BOOLEAN_OPTIONS = [''prune'', ''with-registry-auth'', ''detach'', ''quiet'', ''no-resolve'', ''no-trunc'',
     ''all-namespaces'']"

abbreviation dash :: char where "dash \<equiv> CHR ''-''"

text \<open>\<open>word.startsWith("--")\<close>, \<open>/^-[^-]/\<close>, and the name and value around the first equals sign.\<close>

definition long_option :: "string \<Rightarrow> bool" where
  "long_option w \<longleftrightarrow> prefix ''--'' w"

definition short_option :: "string \<Rightarrow> bool" where
  "short_option w \<longleftrightarrow> starts_with dash w \<and> tl w \<noteq> [] \<and> hd (tl w) \<noteq> dash"

definition option_name :: "string \<Rightarrow> string" where
  "option_name w = before_first (CHR ''='') w"

definition option_value :: "string \<Rightarrow> string" where
  "option_value w = tl (dropWhile (\<lambda>c. c \<noteq> CHR ''='') w)"

definition has_value :: "string \<Rightarrow> bool" where
  "has_value w \<longleftrightarrow> CHR ''='' \<in> set w"

definition without_equals :: "string \<Rightarrow> string" where
  "without_equals s = (if starts_with (CHR ''='') s then tl s else s)"

definition head :: "string list \<Rightarrow> string option" where
  "head ws = (case ws of [] \<Rightarrow> None | w # _ \<Rightarrow> Some w)"

definition name_or_none :: "string \<Rightarrow> string option" where
  "name_or_none s = (if s = [] then None else Some s)"

section \<open>The options of docker compose\<close>

definition with_option :: "string \<Rightarrow> string \<Rightarrow> command_segment \<Rightarrow> command_segment" where
  "with_option name v s =
     (if name = ''-f'' \<or> name = ''--file'' then s\<lparr>cs_files := cs_files s @ [v]\<rparr>
      else if name = ''--project-directory'' \<or> name = ''--workdir''
      then s\<lparr>cs_projectDirectories := cs_projectDirectories s @ [v]\<rparr>
      else if name = ''--env-file'' then s\<lparr>cs_envFiles := cs_envFiles s @ [v]\<rparr>
      else if name = ''-p'' \<or> name = ''--project-name'' then s\<lparr>cs_projectName := name_or_none v\<rparr>
      else s)"

text \<open>A bundle of short flags; the number is how many words it takes.\<close>

fun flag_bundle :: "string \<Rightarrow> string list \<Rightarrow> string \<Rightarrow> command_segment \<Rightarrow> command_refusal + command_segment \<times> nat" where
  "flag_bundle word following [] s = Inr (s, 1)"
| "flag_bundle word following (letter # rest) s =
     (if letter \<in> set ''vhD'' then flag_bundle word following rest s
      else if letter \<in> set ''Hc'' then Inr (s, 1)
      else if letter \<notin> set ''fpl'' then Inl (Unknown_Compose_Option word)
      else let v = (if rest = [] then (case head following of None \<Rightarrow> [] | Some x \<Rightarrow> x) else without_equals rest);
               taken = (if rest = [] then 2 else 1)
           in if rest = [] \<and> starts_with dash v then Inl (Dash_Value word v)
              else Inr (if letter = CHR ''f'' then (if v = [] then s else with_option ''-f'' v s)
                  else if letter = CHR ''p'' then with_option ''-p'' v s else s, taken))"

text \<open>The segment so far, the index of the subcommand, and the subcommand.\<close>

function compose_options ::
  "nat \<Rightarrow> string list \<Rightarrow> command_segment \<Rightarrow> command_refusal + command_segment \<times> nat \<times> string option" where
  "compose_options i [] s = Inr (s, i, None)"
| "compose_options i (w # ws) s =
     (if long_option w \<and> has_value w
      then (if option_name w \<notin> set COMPOSE_OPTIONS_WITH_VALUE \<and> option_name w \<notin> set COMPOSE_BOOLEAN_OPTIONS
            then Inl (Unknown_Compose_Option w)
            else compose_options (i + 1) ws (with_option (option_name w) (option_value w) s))
      else if w \<in> set COMPOSE_OPTIONS_WITH_VALUE
      then (case head ws of
          None \<Rightarrow> compose_options (i + 2) (tl ws) s
        | Some v \<Rightarrow> if starts_with dash v then Inl (Dash_Value w v) else compose_options (i + 2) (tl ws) (with_option w v s))
      else if short_option w
      then (case flag_bundle w ws (tl w) s of
          Inl e \<Rightarrow> Inl e
        | Inr (s', taken) \<Rightarrow> compose_options (i + taken) (drop (taken - 1) ws) s')
      else if w \<in> set COMPOSE_BOOLEAN_OPTIONS then compose_options (i + 1) ws s
      else if starts_with dash w then Inl (Unknown_Compose_Option w)
      else Inr (s, i, Some w))"
  by pat_completeness auto
termination by (relation "measure (\<lambda>(i, ws, s). length ws)") auto

subsection \<open>The daemon\<close>

definition DAEMON_LONG_OPTIONS :: "string list" where
  "DAEMON_LONG_OPTIONS = [''--host'', ''--context'', ''--config'', ''--tls'', ''--tlsverify'', ''--tlscacert'',
     ''--tlscert'', ''--tlskey'']"

fun daemon_letters :: "bool \<Rightarrow> string \<Rightarrow> bool" where
  "daemon_letters allowShortC [] = False"
| "daemon_letters allowShortC (l # ls) \<longleftrightarrow>
     l = CHR ''H'' \<or> l = CHR ''c'' \<and> \<not> allowShortC \<or> l \<notin> set ''fpl'' \<and> daemon_letters allowShortC ls"

definition daemon_word :: "bool \<Rightarrow> string \<Rightarrow> bool" where
  "daemon_word allowShortC w \<longleftrightarrow>
     option_name w \<in> set DAEMON_LONG_OPTIONS \<or> short_option w \<and> daemon_letters allowShortC (tl w)"

definition findDaemonOption :: "bool \<Rightarrow> string list \<Rightarrow> string option" where
  "findDaemonOption allowShortC ws = find (daemon_word allowShortC) ws"

text \<open>Whether the last letter of a bundle is the first one that takes a value: then the next word is it.\<close>

fun takes_next :: "string \<Rightarrow> bool" where
  "takes_next [] = False"
| "takes_next (l # ls) = (if l \<in> set RUN_SHORT_OPTIONS_WITH_VALUE then ls = [] else takes_next ls)"

fun before_service :: "string list \<Rightarrow> string list" where
  "before_service [] = []"
| "before_service (w # ws) =
     (if long_option w
      then w # (if \<not> has_value w \<and> drop 2 w \<in> set RUN_AND_EXEC_LONG_OPTIONS_WITH_VALUE
        then before_service (tl ws) else before_service ws)
      else if short_option w then w # (if takes_next (tl w) then before_service (tl ws) else before_service ws)
      else [])"

definition findDaemonOptionBeforeService :: "string list \<Rightarrow> string option" where
  "findDaemonOptionBeforeService ws = findDaemonOption False (before_service ws)"

subsection \<open>The options of run, config and up\<close>

text \<open>What the first letter of a bundle that takes a value is, with the text attached to it.\<close>

fun value_letter :: "string \<Rightarrow> (char \<times> string) option" where
  "value_letter [] = None"
| "value_letter (l # ls) = (if l \<in> set RUN_SHORT_OPTIONS_WITH_VALUE then Some (l, without_equals ls) else value_letter ls)"

definition as_list :: "'a option \<Rightarrow> 'a list" where
  "as_list v = (case v of None \<Rightarrow> [] | Some x \<Rightarrow> [x])"

fun parseRunVolumes :: "string list \<Rightarrow> string list" where
  "parseRunVolumes [] = []"
| "parseRunVolumes (w # ws) =
     (if long_option w
      then let name = option_name (drop 2 w); inner = has_value (drop 2 w);
               v = (if inner then Some (option_value (drop 2 w)) else head ws)
           in if name \<notin> set RUN_LONG_OPTIONS_WITH_VALUE then parseRunVolumes ws
              else (if name = ''volume'' then as_list v else []) @ parseRunVolumes (if inner then ws else tl ws)
      else if short_option w
      then (case value_letter (tl w) of
          None \<Rightarrow> parseRunVolumes ws
        | Some (letter, attached) \<Rightarrow>
            (if letter = CHR ''v'' then (if attached \<noteq> [] then [attached] else as_list (head ws)) else [])
              @ parseRunVolumes (if attached = [] then tl ws else ws))
      else parseRunVolumes ws)"

definition unchecked_mount :: "string \<Rightarrow> bool" where
  "unchecked_mount w \<longleftrightarrow> option_name w = ''--mount'' \<or> option_name w = ''--volumes-from''"

fun parseRunEnvFromFiles :: "string list \<Rightarrow> string list" where
  "parseRunEnvFromFiles [] = []"
| "parseRunEnvFromFiles (w # ws) =
     (if w = ''--env-from-file'' then as_list (head ws) @ parseRunEnvFromFiles (tl ws)
      else if prefix ''--env-from-file='' w then option_value w # parseRunEnvFromFiles ws
      else parseRunEnvFromFiles ws)"

definition is_letter :: "char \<Rightarrow> bool" where
  "is_letter c \<longleftrightarrow> is_alnum c \<and> \<not> is_digit c"

text \<open>\<open>/^(?:--output(?:=|$)|-[A-Za-z]*o)/\<close> and the like.\<close>

definition letter_option :: "string \<Rightarrow> char \<Rightarrow> string \<Rightarrow> bool" where
  "letter_option name l w \<longleftrightarrow>
     option_name w = name \<or> starts_with dash w \<and> l \<in> set (takeWhile is_letter (tl w))"

section \<open>The options of docker stack\<close>

fun stack_bundle :: "string \<Rightarrow> bool \<times> bool" where
  "stack_bundle [] = (False, False)"
| "stack_bundle (l # ls) =
     (if l = CHR ''c'' \<or> l = CHR ''f'' then (ls = [], False)
      else if l \<noteq> CHR ''d'' \<and> l \<noteq> CHR ''q'' then (False, True)
      else stack_bundle ls)"

text \<open>The names and the first option that is not understood. A pair of flags of a bundle says whether it
  takes the next word and whether it is not understood.\<close>

fun parseStackNames :: "string list \<Rightarrow> string list \<times> string option" where
  "parseStackNames [] = ([], None)"
| "parseStackNames (w # ws) =
     (if w = ''--'' then (ws, None)
      else if long_option w
      then (if option_name (drop 2 w) \<in> set STACK_LONG_OPTIONS_WITH_VALUE
            then parseStackNames (if has_value w then ws else tl ws)
            else if option_name (drop 2 w) \<in> set STACK_LONG_BOOLEAN_OPTIONS then parseStackNames ws
            else (fst (parseStackNames ws), Some w))
      else if short_option w
      then (case stack_bundle (tl w) of (next, unknown) \<Rightarrow>
          let (names, option) = parseStackNames (if next then tl ws else ws)
          in (names, if unknown then Some w else option))
      else (w # fst (parseStackNames ws), snd (parseStackNames ws)))"

fun stack_files :: "string list \<Rightarrow> string list" where
  "stack_files [] = []"
| "stack_files (w # ws) =
     (if w = ''-c'' \<or> w = ''--compose-file'' then as_list (head ws)
      else if prefix ''--compose-file='' w then [option_value w]
      else if prefix ''-c'' w \<and> hd (drop 2 w) \<notin> {CHR 0x0A, CHR 0x0D} then [without_equals (drop 2 w)]
      else []) @ stack_files ws"

section \<open>The commands of the line\<close>

text \<open>An operator starts a command; a glob is kept as its pattern.\<close>

fun command_words :: "token list \<Rightarrow> string list list" where
  "command_words [] = [[]]"
| "command_words (t # ts) = (case command_words ts of
      [] \<Rightarrow> []
    | ws # wss \<Rightarrow> (case t of
          Word_Token w \<Rightarrow> (w # ws) # wss
        | Glob_Token w \<Rightarrow> (w # ws) # wss
        | Operator_Token _ \<Rightarrow> [] # ws # wss))"

definition opaque_token :: "token \<Rightarrow> bool" where
  "opaque_token t = (case t of Word_Token _ \<Rightarrow> False | Glob_Token _ \<Rightarrow> True | Operator_Token oper \<Rightarrow> oper \<noteq> Some ''&&'')"

definition literal :: "string \<Rightarrow> bool" where
  "literal w \<longleftrightarrow> (\<forall>c\<in>set w. \<not> shell_char c)"

definition not_literal :: "string \<Rightarrow> string list \<Rightarrow> command_refusal option" where
  "not_literal name values = map_option (Not_Literal name) (find (\<lambda>w. \<not> literal w) values)"

definition assertLiteralPathOptions :: "command_segment \<Rightarrow> command_refusal + unit" where
  "assertLiteralPathOptions s =
     (case List.map_filter (\<lambda>(name, values). not_literal name values)
        [(''compose file'', cs_files s), (''--project-directory'', cs_projectDirectories s),
         (''--env-file'', cs_envFiles s), (''--env-from-file'', cs_envFromFiles s)] of
        [] \<Rightarrow> Inr () | e # _ \<Rightarrow> Inl e)"

definition literal_segment :: "command_segment \<Rightarrow> command_refusal + command_segment" where
  "literal_segment s = (case assertLiteralPathOptions s of Inl e \<Rightarrow> Inl e | Inr _ \<Rightarrow> Inr s)"

text \<open>How many words the options of docker itself take.\<close>

fun docker_options :: "string list \<Rightarrow> nat" where
  "docker_options [] = 0"
| "docker_options (w # ws) =
     (if \<not> starts_with dash w then 0
      else if w \<in> set DOCKER_OPTIONS_WITH_VALUE then 2 + docker_options (tl ws)
      else 1 + docker_options ws)"

definition or_else :: "'a option \<Rightarrow> 'a option \<Rightarrow> 'a option" where
  "or_else a b = (case a of None \<Rightarrow> b | Some _ \<Rightarrow> a)"

text \<open>A \<open>docker compose\<close> of which the options have been read: \<open>i\<close> is the index of the subcommand.\<close>

definition with_subcommand :: "string list \<Rightarrow> nat \<Rightarrow> string option \<Rightarrow> command_segment \<Rightarrow> command_segment" where
  "with_subcommand ws i sub s =
     (let rest = drop (i + 1) ws; run = sub = Some ''run''
      in s\<lparr>cs_kind := Compose_Segment, cs_subcommand := sub,
        cs_outputOption := (if sub = Some ''config'' then find (letter_option ''--output'' (CHR ''o'')) rest else None),
        cs_watchOption := (if sub = Some ''up'' then find (letter_option ''--watch'' (CHR ''w'')) rest else None),
        cs_daemonOption := or_else (findDaemonOption False (take i ws))
          (if run \<or> sub = Some ''exec'' then findDaemonOptionBeforeService rest else findDaemonOption True rest),
        cs_volumes := (if run then parseRunVolumes rest else []),
        cs_uncheckedMounts := (if run then filter unchecked_mount rest else []),
        cs_envFromFiles := (if run then parseRunEnvFromFiles rest else [])\<rparr>)"

definition compose_segment :: "string list \<Rightarrow> nat \<Rightarrow> command_refusal + command_segment" where
  "compose_segment ws start = (case compose_options (start + 1) (drop (start + 1) ws) empty_segment of
      Inl e \<Rightarrow> Inl e
    | Inr (s, i, sub) \<Rightarrow> literal_segment (with_subcommand ws i sub s))"

definition stack_segment :: "string list \<Rightarrow> nat \<Rightarrow> command_refusal + command_segment" where
  "stack_segment ws start =
     (let rest = drop (start + 1) ws; cut = length (takeWhile (starts_with dash) rest);
          (names, unknown) = parseStackNames (drop (cut + 1) rest)
      in literal_segment (empty_segment\<lparr>cs_kind := Stack_Segment, cs_subcommand := head (drop cut rest),
        cs_stackNames := names, cs_stackUnknownOption := unknown, cs_files := stack_files rest,
        cs_daemonOption := or_else (findDaemonOption False (take (start + 1 + cut) ws))
          (findDaemonOption True (drop cut rest))\<rparr>))"

text \<open>The line starts after \<open>docker\<close>; a chained command is \<open>docker-compose\<close> or \<open>docker\<close> with its options.\<close>

definition parse_segment :: "bool \<Rightarrow> string list \<Rightarrow> command_refusal + command_segment" where
  "parse_segment first tokens =
     (let old = \<not> first \<and> head tokens = Some ''docker-compose'';
          ws = (if old then ''compose'' # tl tokens else tokens);
          skip = (if \<not> old \<and> \<not> first \<and> head tokens = Some ''docker'' then 1 else 0);
          start = (if old then 0 else skip + docker_options (drop skip ws));
          word = head (drop start ws)
      in if word = Some ''compose'' then compose_segment ws start
         else if word = Some ''stack'' then stack_segment ws start
         else Inr (empty_segment\<lparr>cs_command := word, cs_daemonOption := findDaemonOption False (take start ws)\<rparr>))"

fun parse_segments :: "bool \<Rightarrow> string list list \<Rightarrow> command_refusal + command_segment list" where
  "parse_segments first [] = Inr []"
| "parse_segments first (ws # wss) = (case parse_segment first ws of
      Inl e \<Rightarrow> Inl e
    | Inr s \<Rightarrow> (case parse_segments False wss of Inl e \<Rightarrow> Inl e | Inr ss \<Rightarrow> Inr (s # ss)))"

definition parseComposeCommand :: "token list \<Rightarrow> command_refusal + command_segment list" where
  "parseComposeCommand ts = parse_segments True (filter (\<lambda>ws. ws \<noteq> []) (command_words ts))"

definition opaque_line :: "token list \<Rightarrow> bool" where
  "opaque_line ts \<longleftrightarrow> (\<exists>t\<in>set ts. opaque_token t)"

section \<open>The compose and its directories\<close>

text \<open>
  \<open>cc_command\<close> holds the tokens of the custom command, None when it is not set; \<open>cc_root\<close> is COMPOSE_PATH,
  an absolute path; \<open>cc_composePath\<close> is the path of the compose file in the code of a compose that is not raw.
\<close>

record checked_compose =
  cc_composeId :: string
  cc_appName :: string
  cc_root :: string
  cc_raw :: bool
  cc_composePath :: string
  cc_stack :: bool
  cc_createEnvFile :: bool
  cc_command :: "token list option"

definition without_drive :: "string \<Rightarrow> string" where
  "without_drive p = (if p \<noteq> [] \<and> is_letter (hd p) \<and> starts_with (CHR '':'') (tl p) then tl (tl p) else p)"

definition getCodeDirectory :: "checked_compose \<Rightarrow> string" where
  "getCodeDirectory c = resolve_root (without_drive (slashes (cc_root c)) @ ''/'' @ cc_appName c @ ''/code'')"

text \<open>\<open>posix.normalize\<close> and \<open>posix.dirname\<close> of an absolute path; a trailing slash stays in the first.\<close>

definition posix_normalize :: "string \<Rightarrow> string" where
  "posix_normalize p = (if segments_of p \<noteq> [] \<and> last p = slash then resolve_root p @ ''/'' else resolve_root p)"

definition posix_dirname :: "string \<Rightarrow> string" where
  "posix_dirname p = resolve_root (join ''/'' (butlast (segments_of p)))"

definition isAbsolute :: "string \<Rightarrow> bool" where
  "isAbsolute p \<longleftrightarrow> starts_with slash p"

definition or_default :: "string \<Rightarrow> string" where
  "or_default p = (if p = [] then ''docker-compose.yml'' else p)"

definition deployed_file :: "checked_compose \<Rightarrow> string" where
  "deployed_file c = posix_resolve (getCodeDirectory c) (if cc_raw c then ''docker-compose.yml'' else or_default (cc_composePath c))"

definition segment_bases :: "checked_compose \<Rightarrow> command_segment \<Rightarrow> string list" where
  "segment_bases c s = getCodeDirectory c # map (posix_resolve (getCodeDirectory c)) (cs_projectDirectories s)"

definition file_readings :: "checked_compose \<Rightarrow> command_segment \<Rightarrow> string \<Rightarrow> string list" where
  "file_readings c s p = (if isAbsolute p then [posix_normalize p] else map (\<lambda>base. posix_resolve base p) (segment_bases c s))"

end
