(* ===== verification/Compose_Command_Check.thy ===== *)
theory Compose_Command_Check
  imports Compose_Command
begin

text \<open>
  What a custom command of a compose may do, from
  \<open>packages/server/src/services/compose-volume-binding.ts\<close>: the files it names, the projects and stacks it
  acts on, its subcommands, its run volumes and its paths. The logs of the refusals are left out.
\<close>

section \<open>The files and volumes a command names\<close>

definition PROJECT_FREE_SUBCOMMANDS :: "string list" where
  "PROJECT_FREE_SUBCOMMANDS = [''version'']"

definition LABEL_DRIVEN_SUBCOMMANDS :: "string list" where
  "LABEL_DRIVEN_SUBCOMMANDS = [''down'', ''exec'', ''images'', ''kill'', ''logs'', ''pause'', ''port'', ''ps'', ''restart'',
     ''rm'', ''start'', ''stop'', ''top'', ''unpause'', ''wait'']"

definition reads_files :: "command_segment \<Rightarrow> bool" where
  "reads_files s \<longleftrightarrow> (case cs_subcommand s of
      None \<Rightarrow> False
    | Some sub \<Rightarrow>
        cs_kind s = Compose_Segment \<and> sub \<notin> set PROJECT_FREE_SUBCOMMANDS
          \<and> \<not> (sub \<in> set LABEL_DRIVEN_SUBCOMMANDS \<and> cs_projectName s \<noteq> None)
        \<or> cs_kind s = Stack_Segment \<and> sub = ''deploy'')"

definition segment_overrides :: "checked_compose \<Rightarrow> command_segment \<Rightarrow> string list" where
  "segment_overrides c s = filter (\<lambda>p. p \<noteq> deployed_file c) (concat (map (file_readings c s) (cs_files s)))"

fun override_files :: "checked_compose \<Rightarrow> command_segment list \<Rightarrow> command_refusal + string list" where
  "override_files c [] = Inr []"
| "override_files c (s # ss) =
     (if reads_files s \<and> cs_files s = [] then Inl (No_Compose_File (the (cs_subcommand s)))
      else case override_files c ss of Inl e \<Rightarrow> Inl e | Inr ps \<Rightarrow> Inr (segment_overrides c s @ ps))"

text \<open>The segments of the command; none when there is no command.\<close>

definition command_segments :: "checked_compose \<Rightarrow> command_refusal + command_segment list" where
  "command_segments c = (case cc_command c of None \<Rightarrow> Inr [] | Some ts \<Rightarrow> parseComposeCommand ts)"

definition getCommandOverrideFiles :: "checked_compose \<Rightarrow> command_refusal + string list" where
  "getCommandOverrideFiles c = (case command_segments c of
      Inl e \<Rightarrow> Inl e
    | Inr ss \<Rightarrow> (case override_files c ss of Inl e \<Rightarrow> Inl e | Inr ps \<Rightarrow> Inr (uniq ps)))"

definition run_segments :: "command_segment list \<Rightarrow> command_segment list" where
  "run_segments ss = filter (\<lambda>s. cs_kind s = Compose_Segment \<and> cs_subcommand s = Some ''run'') ss"

definition getCommandRunVolumes :: "checked_compose \<Rightarrow> command_refusal + string list" where
  "getCommandRunVolumes c = (case command_segments c of
      Inl e \<Rightarrow> Inl e
    | Inr ss \<Rightarrow>
        if run_segments ss \<noteq> [] \<and> (case cc_command c of None \<Rightarrow> False | Some ts \<Rightarrow> opaque_line ts) then Inl Opaque_Run
        else (case concat (map cs_uncheckedMounts (run_segments ss)) of
            w # _ \<Rightarrow> Inl (Unchecked_Mount w)
          | [] \<Rightarrow> Inr (concat (map cs_volumes (run_segments ss)))))"

text \<open>The directories that relative paths of the compose files are read from.\<close>

definition segment_directories :: "checked_compose \<Rightarrow> command_segment \<Rightarrow> string list" where
  "segment_directories c s = map (posix_resolve (getCodeDirectory c)) (cs_projectDirectories s)
     @ concat (map (\<lambda>p. map posix_dirname (file_readings c s p)) (cs_files s))"

definition getCommandBaseDirectories :: "checked_compose \<Rightarrow> command_refusal + string list" where
  "getCommandBaseDirectories c = (case command_segments c of
      Inl e \<Rightarrow> Inl e | Inr ss \<Rightarrow> Inr (uniq (concat (map (segment_directories c) ss))))"

record command_kinds =
  ck_compose :: bool
  ck_stack :: bool
  ck_count :: nat

definition getCommandKinds :: "checked_compose \<Rightarrow> command_refusal + command_kinds" where
  "getCommandKinds c = (case command_segments c of
      Inl e \<Rightarrow> Inl e
    | Inr ss \<Rightarrow> Inr \<lparr>ck_compose = (\<exists>s\<in>set ss. cs_kind s = Compose_Segment),
        ck_stack = (\<exists>s\<in>set ss. cs_kind s = Stack_Segment), ck_count = length ss\<rparr>)"

definition commandUsesEnvFile :: "checked_compose \<Rightarrow> command_refusal + bool" where
  "commandUsesEnvFile c = (case command_segments c of
      Inl e \<Rightarrow> Inl e | Inr ss \<Rightarrow> Inr (\<exists>s\<in>set ss. cs_envFiles s \<noteq> []))"

section \<open>The project a command acts on\<close>

definition isOwnProjectName :: "checked_compose \<Rightarrow> string \<Rightarrow> bool" where
  "isOwnProjectName c name \<longleftrightarrow> name = cc_appName c"

text \<open>\<open>/[*?[\]{}/\\~$`]/\<close>.\<close>

definition unsafe_project_char :: "char \<Rightarrow> bool" where
  "unsafe_project_char x \<longleftrightarrow> x \<in> set ''*?[]{}/~$`'' \<or> x = CHR 92"

definition PROJECT_NAME_FREE_SUBCOMMANDS :: "string list" where
  "PROJECT_NAME_FREE_SUBCOMMANDS = [''version'', ''config'', ''pull'']"

definition unnamed_project :: "command_segment \<Rightarrow> bool" where
  "unnamed_project s \<longleftrightarrow> cs_kind s = Compose_Segment \<and> cs_projectName s = None
     \<and> (case cs_subcommand s of None \<Rightarrow> False | Some sub \<Rightarrow> sub \<notin> set PROJECT_NAME_FREE_SUBCOMMANDS)"

definition getUnnamedProjectSegments :: "command_segment list \<Rightarrow> command_segment list" where
  "getUnnamedProjectSegments ss = filter unnamed_project ss"

definition segment_names :: "checked_compose \<Rightarrow> command_segment \<Rightarrow> command_refusal option" where
  "segment_names c s =
     (case (cs_kind s, cs_projectName s) of
        (Compose_Segment, Some name) \<Rightarrow>
          if \<exists>x\<in>set name. unsafe_project_char x then Some (Unsafe_Project_Name name)
          else if \<not> isOwnProjectName c name then Some (Foreign_Project_Name name) else None
      | (Stack_Segment, _) \<Rightarrow>
          (case cs_stackUnknownOption s of
             Some w \<Rightarrow> Some (Unknown_Stack_Option w)
           | None \<Rightarrow> map_option Foreign_Stack (find (\<lambda>name. name \<noteq> cc_appName c) (cs_stackNames s)))
      | _ \<Rightarrow> None)"

definition env_directory :: "checked_compose \<Rightarrow> string" where
  "env_directory c = posix_dirname (posix_resolve (getCodeDirectory c) (or_default (cc_composePath c)))"

text \<open>The directories whose \<open>.env\<close> a command without a name may read.\<close>

definition project_directories :: "checked_compose \<Rightarrow> command_segment \<Rightarrow> string list" where
  "project_directories c s =
     (if cs_projectDirectories s \<noteq> [] \<and> last (cs_projectDirectories s) \<noteq> []
      then [posix_resolve (getCodeDirectory c) (last (cs_projectDirectories s))]
      else case cs_files s of
          [] \<Rightarrow> [getCodeDirectory c]
        | p # _ \<Rightarrow> map posix_dirname (file_readings c s p))"

definition name_not_vouched :: "checked_compose \<Rightarrow> command_segment \<Rightarrow> bool" where
  "name_not_vouched c s \<longleftrightarrow> cs_envFiles s \<noteq> [] \<or> \<not> cc_createEnvFile c
     \<or> (\<exists>d\<in>set (project_directories c s). d \<noteq> env_directory c)"

definition assertCommandProjectNames :: "checked_compose \<Rightarrow> command_segment list \<Rightarrow> command_refusal + unit" where
  "assertCommandProjectNames c ss =
     (case List.map_filter (segment_names c) ss of
        e # _ \<Rightarrow> Inl e
      | [] \<Rightarrow> (case find (name_not_vouched c) (getUnnamedProjectSegments ss) of
            Some s \<Rightarrow> Inl (Unnamed_Project (the (cs_subcommand s))) | None \<Rightarrow> Inr ()))"

definition foreign_file_name :: "checked_compose \<Rightarrow> json \<Rightarrow> bool" where
  "foreign_file_name c spec \<longleftrightarrow> (case obj_get spec ''name'' of
      None \<Rightarrow> False
    | Some J_Null \<Rightarrow> False
    | Some (J_Str name) \<Rightarrow> name \<noteq> [] \<and> \<not> isOwnProjectName c name
    | Some _ \<Rightarrow> True)"

definition assertCommandActsOnOwnProject :: "checked_compose \<Rightarrow> json list \<Rightarrow> command_refusal + unit" where
  "assertCommandActsOnOwnProject c specs = (case command_segments c of
      Inl e \<Rightarrow> Inl e
    | Inr ss \<Rightarrow> (case assertCommandProjectNames c ss of
          Inl e \<Rightarrow> Inl e
        | Inr _ \<Rightarrow>
            if getUnnamedProjectSegments ss \<noteq> [] \<and> (\<exists>spec\<in>set specs. foreign_file_name c spec)
            then Inl Foreign_File_Name else Inr ()))"

section \<open>The paths of a command\<close>

definition getOwnDirectory :: "string \<Rightarrow> string" where
  "getOwnDirectory codeDirectory = posix_dirname codeDirectory"

definition isInOwnDirectory :: "string \<Rightarrow> string \<Rightarrow> bool" where
  "isInOwnDirectory own p \<longleftrightarrow> p = own \<or> prefix (own @ ''/'') p"

record path_reading =
  pr_raw :: string
  pr_normal :: string

text \<open>\<open>path.replace(/\/[^/]*$/, "") || "/"\<close>.\<close>

definition rawDirname :: "string \<Rightarrow> string" where
  "rawDirname p = (if slash \<notin> set p then (if p = [] then ''/'' else p)
     else let d = rev (tl (dropWhile (\<lambda>x. x \<noteq> slash) (rev p))) in if d = [] then ''/'' else d)"

definition readings :: "string \<Rightarrow> path_reading list \<Rightarrow> path_reading list" where
  "readings p bases =
     (if isAbsolute p then [\<lparr>pr_raw = p, pr_normal = posix_normalize p\<rparr>]
      else map (\<lambda>b. \<lparr>pr_raw = pr_raw b @ ''/'' @ p, pr_normal = posix_resolve (pr_normal b) p\<rparr>) bases)"

definition reading_directory :: "path_reading \<Rightarrow> path_reading" where
  "reading_directory r = \<lparr>pr_raw = rawDirname (pr_raw r), pr_normal = posix_dirname (pr_normal r)\<rparr>"

record command_path =
  cp_name :: string
  cp_value :: string
  cp_readings :: "path_reading list"

definition segment_paths :: "string \<Rightarrow> command_segment \<Rightarrow> command_path list" where
  "segment_paths codeDirectory s =
     (let code = [\<lparr>pr_raw = codeDirectory, pr_normal = codeDirectory\<rparr>];
          fileBases = code @ concat (map (\<lambda>d. readings d code) (cs_projectDirectories s));
          envBases = fileBases @ concat (map (\<lambda>p. map reading_directory (readings p fileBases)) (cs_files s))
      in concat (map (\<lambda>(name, values, bases). map (\<lambda>v. \<lparr>cp_name = name, cp_value = v, cp_readings = readings v bases\<rparr>) values)
        [(''--project-directory / --workdir'', cs_projectDirectories s, code), (''compose file'', cs_files s, fileBases),
         (''--env-file'', cs_envFiles s, envBases), (''--env-from-file'', cs_envFromFiles s, envBases)]))"

definition collectCommandPaths :: "command_segment list \<Rightarrow> string \<Rightarrow> command_path list" where
  "collectCommandPaths ss codeDirectory = concat (map (segment_paths codeDirectory) ss)"

definition path_in_own_directory :: "string \<Rightarrow> command_path \<Rightarrow> bool" where
  "path_in_own_directory own p \<longleftrightarrow> \<not> starts_with (CHR ''~'') (cp_value p)
     \<and> (\<forall>r\<in>set (cp_readings p). isInOwnDirectory own (pr_normal r))"

definition assertCommandPathsInOwnDirectory :: "command_segment list \<Rightarrow> string \<Rightarrow> command_refusal + unit" where
  "assertCommandPathsInOwnDirectory ss codeDirectory =
     (case find (\<lambda>p. \<not> path_in_own_directory (getOwnDirectory codeDirectory) p) (collectCommandPaths ss codeDirectory) of
        Some p \<Rightarrow> Inl (Outside_Own_Directory (cp_name p) (cp_value p)) | None \<Rightarrow> Inr ())"

section \<open>What a command runs\<close>

definition COMPOSE_SUBCOMMANDS :: "string list" where
  "COMPOSE_SUBCOMMANDS = [''build'', ''config'', ''create'', ''down'', ''exec'', ''images'', ''kill'', ''logs'', ''pause'',
     ''port'', ''ps'', ''pull'', ''restart'', ''rm'', ''run'', ''start'', ''stop'', ''top'', ''unpause'', ''up'', ''version'', ''wait'']"

definition STACK_SUBCOMMANDS :: "string list" where
  "STACK_SUBCOMMANDS = [''deploy'', ''ps'', ''rm'', ''services'']"

definition segment_forbidden :: "command_segment \<Rightarrow> command_refusal option" where
  "segment_forbidden s =
     (let allowed = (if cs_kind s = Compose_Segment then COMPOSE_SUBCOMMANDS else STACK_SUBCOMMANDS)
      in case (cs_subcommand s, cs_watchOption s, cs_outputOption s) of
          (sub, watch, output) \<Rightarrow>
            if sub \<noteq> None \<and> the sub \<notin> set allowed then Some (Subcommand_Not_Allowed (the sub))
            else if watch \<noteq> None then Some (Watch_Option (the watch))
            else map_option Output_Option output)"

text \<open>A project directory may contain the storage, a file may not.\<close>

definition leads_to_storage :: "checked_compose \<Rightarrow> command_segment \<Rightarrow> string \<Rightarrow> string \<Rightarrow> bool" where
  "leads_to_storage c s name v \<longleftrightarrow>
     (let reach = dockerVolumesDirectoryReach v (segment_bases c s)
      in if name = ''--project-directory'' then reach = Some Inside else reach \<noteq> None)"

definition segment_storage :: "checked_compose \<Rightarrow> command_segment \<Rightarrow> command_refusal option" where
  "segment_storage c s =
     (case List.map_filter (\<lambda>(name, values). map_option (Storage_Path name) (find (leads_to_storage c s name) values))
        [(''--project-directory'', cs_projectDirectories s), (''--env-file'', cs_envFiles s),
         (''--env-from-file'', cs_envFromFiles s), (''compose file'', cs_files s)] of
        [] \<Rightarrow> None | e # _ \<Rightarrow> Some e)"

definition assertCommandRunsComposeOnly :: "checked_compose \<Rightarrow> command_refusal + unit" where
  "assertCommandRunsComposeOnly c = (case command_segments c of
      Inl e \<Rightarrow> Inl e
    | Inr ss \<Rightarrow> (case find (\<lambda>s. truthy (cs_daemonOption s)) ss of
          Some s \<Rightarrow> Inl (Daemon_Option (the (cs_daemonOption s)))
        | None \<Rightarrow> (case find (\<lambda>s. cs_kind s = Other_Segment) ss of
              Some s \<Rightarrow> Inl (Not_Compose (cs_command s))
            | None \<Rightarrow> (case List.map_filter segment_forbidden ss @ List.map_filter (segment_storage c) ss of
                  e # _ \<Rightarrow> Inl e
                | [] \<Rightarrow> assertCommandPathsInOwnDirectory ss (getCodeDirectory c)))))"

definition assertCommandSaveable :: "checked_compose \<Rightarrow> command_refusal + unit" where
  "assertCommandSaveable c = (case assertCommandRunsComposeOnly c of
      Inl e \<Rightarrow> Inl e
    | Inr _ \<Rightarrow> (case getCommandOverrideFiles c of
          Inl e \<Rightarrow> Inl e
        | Inr _ \<Rightarrow> (case getCommandRunVolumes c of
              Inl e \<Rightarrow> Inl e
            | Inr _ \<Rightarrow> assertCommandActsOnOwnProject c [])))"

end
