(* ===== verification/Own_Directory.thy ===== *)
theory Own_Directory
  imports Compose_Command_Check "HOL-Library.AList"
begin

text \<open>
  The check of the paths of a command on the host (\<open>packages/server/src/utils/compose-own-directory.ts\<close>) and
  its use by \<open>services/compose-volume-binding.ts\<close>. The file system is two arguments, \<open>realpath\<close> and
  whether \<open>lstat\<close> finds something; the answer of a remote host is its output, None when it could not be asked.
\<close>

section \<open>Verdicts\<close>

datatype own_verdict = V_In | V_Out | V_Moved | V_Unresolved

definition verdict_of_line :: "string \<Rightarrow> own_verdict" where
  "verdict_of_line l = (if l = ''in'' then V_In else if l = ''out'' then V_Out else if l = ''moved'' then V_Moved else V_Unresolved)"

definition parseOwnDirectoryVerdicts :: "string \<Rightarrow> nat \<Rightarrow> own_verdict list" where
  "parseOwnDirectoryVerdicts stdout k =
     (let ls = map trim (split_on (CHR 0x0A) stdout)
      in if hd ls \<noteq> ''own:ok'' \<and> hd ls \<noteq> ''own:unresolved'' then replicate k V_Unresolved
         else map (\<lambda>i. if i + 1 < length ls then verdict_of_line (ls ! (i + 1)) else V_Unresolved) [0..<k])"

section \<open>A path of this machine\<close>

text \<open>\<open>dirname\<close> and \<open>basename\<close> of node, of any path.\<close>

definition node_dirname :: "string \<Rightarrow> string" where
  "node_dirname p = (case p of
      [] \<Rightarrow> ''.''
    | x # xs \<Rightarrow> (case dropWhile (\<lambda>c. c \<noteq> slash) (dropWhile (\<lambda>c. c = slash) (rev xs)) of
          [] \<Rightarrow> if x = slash then ''/'' else ''.''
        | _ # r \<Rightarrow> if x = slash \<and> r = [] then ''//'' else x # rev r))"

definition node_basename :: "string \<Rightarrow> string" where
  "node_basename p = rev (takeWhile (\<lambda>c. c \<noteq> slash) (dropWhile (\<lambda>c. c = slash) (rev p)))"

datatype real_path = Real string | Not_There | Other_Error

definition bare :: "string \<Rightarrow> string" where
  "bare p = without_drive (slashes p)"

text \<open>\<open>replace(/\/+/g, "/")\<close>.\<close>

fun squeeze_slashes :: "string \<Rightarrow> string" where
  "squeeze_slashes (x # y # s) = (if x = slash \<and> y = slash then squeeze_slashes (y # s) else x # squeeze_slashes (y # s))"
| "squeeze_slashes s = s"

lemma node_dirname_shorter:
  assumes "node_dirname p \<noteq> p" "node_dirname p \<noteq> ''.''"
  shows "length (node_dirname p) < length p \<and> p \<noteq> ''.''"
proof (cases p)
  case Nil
  with assms show ?thesis by (simp add: node_dirname_def)
next
  case (Cons x xs)
  let ?r = "dropWhile (\<lambda>c. c \<noteq> slash) (dropWhile (\<lambda>c. c = slash) (rev xs))"
  have le: "length ?r \<le> length xs"
    by (metis length_dropWhile_le length_rev order_trans)
  show ?thesis
  proof (cases ?r)
    case Nil
    then have d: "node_dirname p = (if x = slash then ''/'' else ''.'')" by (simp only: Cons node_dirname_def list.case)
    have x: "x = slash" using assms(2) unfolding d by (rule contrapos_np) simp
    with d have d: "node_dirname p = ''/''" by simp
    with x assms(1) Cons have "xs \<noteq> []" by (cases xs) simp_all
    with d Cons show ?thesis by (cases xs) simp_all
  next
    case (Cons y r)
    then have d: "node_dirname p = (if x = slash \<and> r = [] then ''//'' else x # rev r)"
      by (simp only: \<open>p = x # xs\<close> node_dirname_def list.case)
    have r_hd: "hd (y # r) = slash" using Cons hd_dropWhile [of "\<lambda>c. c \<noteq> slash" "dropWhile (\<lambda>c. c = slash) (rev xs)"]
      unfolding Cons by blast
    have "y \<in> set ?r" unfolding Cons by simp
    then have "y \<in> set (rev xs)" by (blast dest: set_dropWhileD)
    then have r_in: "y \<in> set xs" by simp
    have less: "length r < length xs" using le unfolding Cons by simp
    then have "p \<noteq> ''.''" using \<open>p = x # xs\<close> by (cases xs) simp_all
    moreover have "length (node_dirname p) < length p"
    proof (cases "x = slash \<and> r = []")
      case True
      have "xs \<noteq> [y]"
      proof
        assume "xs = [y]"
        moreover have "y = slash" using r_hd by simp
        ultimately have "node_dirname p = p" using d True \<open>p = x # xs\<close> by simp
        with assms(1) show False by simp
      qed
      moreover have "y \<in> set xs" using r_in by simp
      ultimately have "2 \<le> length xs" by (cases xs; cases "tl xs") auto
      with d True \<open>p = x # xs\<close> show ?thesis by simp
    next
      case False
      with d less \<open>p = x # xs\<close> show ?thesis by simp
    qed
    ultimately show ?thesis by simp
  qed
qed

text \<open>Climbs to the first parent that is there; the parts below it are kept, in \<open>below\<close>.\<close>

function climb :: "(string \<Rightarrow> real_path) \<Rightarrow> (string \<Rightarrow> bool) \<Rightarrow> string \<Rightarrow> string list \<Rightarrow> string option" where
  "climb real there p below =
     (case real p of
        Real r \<Rightarrow> Some (squeeze_slashes (join ''/'' (bare r # below)))
      | Other_Error \<Rightarrow> None
      | Not_There \<Rightarrow>
          if there p \<or> node_dirname p = p then None
          else climb real there (node_dirname p) (node_basename p # below))"
  by pat_completeness auto
termination
  by (relation "measure (\<lambda>(real, there, p, below). if p = ''.'' then 0 else length p + 1)")
    (auto dest: node_dirname_shorter)

declare climb.simps [simp del]

definition resolveLocal :: "(string \<Rightarrow> real_path) \<Rightarrow> (string \<Rightarrow> bool) \<Rightarrow> string \<Rightarrow> string option" where
  "resolveLocal real there p = climb real there p []"

definition collapse :: "string \<Rightarrow> string" where
  "collapse p = resolve_root p"

definition line_break :: "string \<Rightarrow> bool" where
  "line_break s \<longleftrightarrow> (\<exists>c\<in>set s. c = CHR 0x0A \<or> c = CHR 0x0D)"

definition local_verdict :: "(string \<Rightarrow> real_path) \<Rightarrow> (string \<Rightarrow> bool) \<Rightarrow> string \<Rightarrow> path_reading \<Rightarrow> own_verdict" where
  "local_verdict real there own r =
     (case resolveLocal real there own of
        None \<Rightarrow> V_Unresolved
      | Some root \<Rightarrow>
          if line_break (own @ pr_raw r @ pr_normal r) then V_Unresolved
          else (case (resolveLocal real there (pr_raw r), resolveLocal real there (pr_normal r)) of
              (Some a, Some b) \<Rightarrow>
                if collapse a \<noteq> collapse root \<and> \<not> prefix (collapse root @ ''/'') (collapse a) then V_Out
                else if collapse a = collapse b then V_In else V_Moved
            | _ \<Rightarrow> V_Unresolved))"

definition checkReadingsInOwnDirectoryLocal ::
  "(string \<Rightarrow> real_path) \<Rightarrow> (string \<Rightarrow> bool) \<Rightarrow> string \<Rightarrow> path_reading list \<Rightarrow> own_verdict list" where
  "checkReadingsInOwnDirectoryLocal real there own rs = map (local_verdict real there own) rs"

section \<open>The host of a compose\<close>

text \<open>Where the compose runs: this machine, or a server by the output of the shell that checks the readings.\<close>

datatype compose_host =
    Local_Host "string \<Rightarrow> real_path" "string \<Rightarrow> bool"
  | Remote_Host "string \<Rightarrow> path_reading list \<Rightarrow> string option"

definition checkReadingsInOwnDirectory :: "compose_host \<Rightarrow> string \<Rightarrow> path_reading list \<Rightarrow> own_verdict list" where
  "checkReadingsInOwnDirectory host own rs =
     (if rs = [] then []
      else case host of
          Local_Host real there \<Rightarrow> checkReadingsInOwnDirectoryLocal real there own rs
        | Remote_Host ask \<Rightarrow> (case ask own rs of
              None \<Rightarrow> map (\<lambda>_. V_Unresolved) rs
            | Some stdout \<Rightarrow> parseOwnDirectoryVerdicts stdout (length rs)))"

definition readingKey :: "path_reading \<Rightarrow> string" where
  "readingKey r = pr_raw r @ CHR 0x00 # pr_normal r"

text \<open>The readings by their key, each once, and their verdicts.\<close>

definition unique_readings :: "command_path list \<Rightarrow> (string \<times> path_reading) list" where
  "unique_readings ps = fold (\<lambda>r. AList.update (readingKey r) r) (concat (map cp_readings ps)) []"

definition resolveReadings :: "compose_host \<Rightarrow> string \<Rightarrow> command_path list \<Rightarrow> (string \<times> own_verdict) list" where
  "resolveReadings host own ps =
     (let u = unique_readings ps in zip (map fst u) (checkReadingsInOwnDirectory host own (map snd u)))"

definition bad_verdicts :: "(string \<times> own_verdict) list \<Rightarrow> command_path \<Rightarrow> own_verdict option list" where
  "bad_verdicts vs p = filter (\<lambda>v. v \<noteq> Some V_In) (map (\<lambda>r. map_of vs (readingKey r)) (cp_readings p))"

text \<open>A reading without a verdict ends the search of a path as one that is fine would.\<close>

definition path_refused :: "(string \<times> own_verdict) list \<Rightarrow> command_path \<Rightarrow> command_refusal option" where
  "path_refused vs p = (case bad_verdicts vs p of
      Some v # _ \<Rightarrow> Some (if v = V_Out then Outside_Own_Directory (cp_name p) (cp_value p) else Path_Not_Verified (cp_name p) (cp_value p))
    | _ \<Rightarrow> None)"

definition assertCommandPathsResolveInOwnDirectory :: "compose_host \<Rightarrow> checked_compose \<Rightarrow> command_refusal + unit" where
  "assertCommandPathsResolveInOwnDirectory host c = (case command_segments c of
      Inl e \<Rightarrow> Inl e
    | Inr ss \<Rightarrow>
        let ps = collectCommandPaths ss (getCodeDirectory c);
            vs = resolveReadings host (getOwnDirectory (getCodeDirectory c)) ps
        in (case List.map_filter (path_refused vs) ps of [] \<Rightarrow> Inr () | e # _ \<Rightarrow> Inl e))"

text \<open>The override files the audit may read, and how many it skips.\<close>

definition compose_file_paths :: "string list \<Rightarrow> command_path list \<Rightarrow> command_path list" where
  "compose_file_paths lexical ps =
     map (\<lambda>p. p\<lparr>cp_readings := filter (\<lambda>r. pr_normal r \<in> set lexical) (cp_readings p)\<rparr>)
       (filter (\<lambda>p. cp_name p = ''compose file'') ps)"

definition readable_file :: "(string \<times> own_verdict) list \<Rightarrow> command_path list \<Rightarrow> string \<Rightarrow> bool" where
  "readable_file vs ps p \<longleftrightarrow>
     (let rs = concat (map (\<lambda>q. filter (\<lambda>r. pr_normal r = p) (cp_readings q)) ps)
      in rs \<noteq> [] \<and> (\<forall>r\<in>set rs. map_of vs (readingKey r) = Some V_In))"

definition getReadableCommandOverrideFiles ::
  "compose_host \<Rightarrow> checked_compose \<Rightarrow> nat option \<Rightarrow> command_refusal + (string list \<times> nat)" where
  "getReadableCommandOverrideFiles host c limit =
     (case (getCommandOverrideFiles c, command_segments c) of
        (Inr all, Inr ss) \<Rightarrow>
          let ps = (case limit of None \<Rightarrow> all | Some n \<Rightarrow> take n all);
              own = getOwnDirectory (getCodeDirectory c);
              lexical = filter (isInOwnDirectory own) ps;
              paths = compose_file_paths lexical (collectCommandPaths ss (getCodeDirectory c));
              vs = resolveReadings host own paths;
              readable = filter (readable_file vs paths) lexical
          in Inr (if ps = [] then ([], 0) else (readable, length ps - length readable))
      | (Inl e, _) \<Rightarrow> Inl e
      | (_, Inl e) \<Rightarrow> Inl e)"

end
