(* ===== verification/Compose_Env_Names.thy ===== *)
theory Compose_Env_Names
  imports Compose_Vars
begin

text \<open>
  The names of variables that may be written to an env file, from
  \<open>packages/server/src/utils/docker/env-file.ts\<close>, and the pairs of \<open>utils/docker/utils.ts\<close>.
\<close>

definition env_variable_name :: "string \<Rightarrow> bool" where
  "env_variable_name n \<longleftrightarrow> n \<noteq> [] \<and> \<not> is_digit (hd n) \<and> (\<forall>c\<in>set n. is_alnum c \<or> c = CHR ''_'')"

definition ENV_FILE_RESERVED_NAMES :: "string list" where
  "ENV_FILE_RESERVED_NAMES = [''BASHOPTS'', ''BASHPID'', ''BASH_ENV'', ''CDPATH'', ''CONTAINER_HOST'', ''EGID'', ''ENV'',
     ''EUID'', ''GID'', ''GIT_ALLOW_PROTOCOL'', ''GIT_ALTERNATE_OBJECT_DIRECTORIES'', ''GIT_ASKPASS'',
     ''GIT_CEILING_DIRECTORIES'', ''GIT_COMMON_DIR'', ''GIT_CONFIG'', ''GIT_CONFIG_COUNT'', ''GIT_CONFIG_GLOBAL'',
     ''GIT_CONFIG_NOSYSTEM'', ''GIT_CONFIG_PARAMETERS'', ''GIT_CONFIG_SYSTEM'', ''GIT_CURL_VERBOSE'', ''GIT_DIR'',
     ''GIT_DISCOVERY_ACROSS_FILESYSTEM'', ''GIT_EDITOR'', ''GIT_EXEC_PATH'', ''GIT_EXTERNAL_DIFF'', ''GIT_INDEX_FILE'',
     ''GIT_NAMESPACE'', ''GIT_NO_REPLACE_OBJECTS'', ''GIT_OBJECT_DIRECTORY'', ''GIT_OPTIONAL_LOCKS'', ''GIT_PAGER'',
     ''GIT_PROTOCOL_FROM_USER'', ''GIT_PROXY_COMMAND'', ''GIT_QUARANTINE_PATH'', ''GIT_REDACT_COOKIES'',
     ''GIT_REPLACE_REF_BASE'', ''GIT_SEQUENCE_EDITOR'', ''GIT_SSH'', ''GIT_SSH_COMMAND'', ''GIT_SSH_VARIANT'',
     ''GIT_TEMPLATE_DIR'', ''GIT_TERMINAL_PROMPT'', ''GIT_WORK_TREE'', ''GLIBC_TUNABLES'', ''GLOBIGNORE'', ''GODEBUG'',
     ''GOGC'', ''GOMAXPROCS'', ''GOMEMLIMIT'', ''GOTRACEBACK'', ''GROUPS'', ''HISTFILE'', ''HOME'', ''HOSTALIASES'', ''IFS'',
     ''LANG'', ''LOCPATH'', ''LOGNAME'', ''MALLOC_ARENA_MAX'', ''NLSPATH'', ''OLDPWD'', ''OPTARG'', ''OPTIND'', ''PACK_HOME'',
     ''PACK_VOLUME_KEY'', ''PATH'', ''PPID'', ''PS1'', ''PS2'', ''PS4'', ''PWD'', ''RANDOM'', ''REGISTRY_AUTH_FILE'',
     ''RES_OPTIONS'', ''SECONDS'', ''SHELL'', ''SHELLOPTS'', ''SHLVL'', ''SSH_ASKPASS'', ''SSH_AUTH_SOCK'', ''SSL_CERT_DIR'',
     ''SSL_CERT_FILE'', ''TERM'', ''TMPDIR'', ''TZ'', ''UID'', ''USER'', ''_'']"

definition ENV_FILE_RESERVED_PREFIXES :: "string list" where
  "ENV_FILE_RESERVED_PREFIXES = [''__dokploy'', ''BASH_'', ''BUILDKIT_'', ''BUILDX_'', ''DOCKER_'', ''GIT_CONFIG_KEY_'',
     ''GIT_CONFIG_VALUE_'', ''GIT_HTTP_'', ''GIT_SSL_'', ''GIT_TRACE'', ''LC_'', ''LD_'', ''XDG_'']"

text \<open>\<open>/^(?:http|https|ftp|all|no)_proxy$/i\<close>.\<close>

definition proxy_name :: "string \<Rightarrow> bool" where
  "proxy_name n \<longleftrightarrow> toLowerCase n \<in> {''http_proxy'', ''https_proxy'', ''ftp_proxy'', ''all_proxy'', ''no_proxy''}"

definition isEnvFileName :: "string \<Rightarrow> bool" where
  "isEnvFileName n \<longleftrightarrow> env_variable_name n \<and> n \<notin> set ENV_FILE_RESERVED_NAMES \<and> \<not> proxy_name n
     \<and> \<not> (\<exists>p\<in>set ENV_FILE_RESERVED_PREFIXES. prefix p n)"

definition STACK_ENV_INERT_NAMES :: "string list" where
  "STACK_ENV_INERT_NAMES = [''LANG'', ''LOGNAME'', ''TZ'', ''USER'']"

definition isStackEnvName :: "string \<Rightarrow> bool" where
  "isStackEnvName n \<longleftrightarrow> env_variable_name n \<and> \<not> prefix ''COMPOSE_'' n
     \<and> (isEnvFileName n \<or> n \<in> set STACK_ENV_INERT_NAMES \<or> prefix ''LC_'' n \<or> proxy_name n)"

definition COMPOSE_DOTENV_NAMES :: "string list" where
  "COMPOSE_DOTENV_NAMES = [''COMPOSE_ANSI'', ''COMPOSE_BAKE'', ''COMPOSE_IGNORE_ORPHANS'', ''COMPOSE_MENU'',
     ''COMPOSE_PARALLEL_LIMIT'', ''COMPOSE_PREFIX'', ''COMPOSE_PROFILES'', ''COMPOSE_PROGRESS'', ''COMPOSE_REMOVE_ORPHANS'',
     ''COMPOSE_STATUS_STDOUT'']"

definition NEUTRALISED_CLI_ENV_NAMES :: "string list" where
  "NEUTRALISED_CLI_ENV_NAMES = [''BASH_ENV'', ''DOCKER_API_VERSION'', ''DOCKER_CERT_PATH'', ''DOCKER_CONFIG'',
     ''DOCKER_CONTEXT'', ''DOCKER_HOST'', ''DOCKER_TLS'', ''DOCKER_TLS_VERIFY'', ''ENV'', ''GCONV_PATH'', ''LD_AUDIT'',
     ''LD_LIBRARY_PATH'', ''LD_PRELOAD'']"

definition isComposeDotenvName :: "string \<Rightarrow> bool" where
  "isComposeDotenvName n \<longleftrightarrow>
     (if prefix ''COMPOSE_'' n then n \<in> set COMPOSE_DOTENV_NAMES
      else if \<not> env_variable_name n then True
      else if prefix ''DOCKER_'' n \<or> n \<in> set NEUTRALISED_CLI_ENV_NAMES then True
      else isStackEnvName n)"

text \<open>The key and the value of a pair; None is the throw on a pair without a key or an equals sign.\<close>

definition parseEnvironmentKeyValuePair :: "string \<Rightarrow> (string \<times> string) option" where
  "parseEnvironmentKeyValuePair pair =
     (let key = before_first (CHR ''='') pair
      in if key = [] \<or> CHR ''='' \<notin> set pair then None else Some (key, drop (length key + 1) pair))"

definition environment_pairs :: "string list \<Rightarrow> (string \<times> string) list option" where
  "environment_pairs pairs =
     (let ps = map parseEnvironmentKeyValuePair pairs in if None \<in> set ps then None else Some (map the ps))"

text \<open>\<open>getEnvironmentVariablesObject\<close>: the pairs with a value, as an object.\<close>

definition environment_object :: "(string \<times> string) list \<Rightarrow> vars" where
  "environment_object ps = fold (\<lambda>(k, v). set_property k v) (filter (\<lambda>(k, v). k \<noteq> [] \<and> v \<noteq> []) ps) []"

end
