(* ===== verification/Volume_Binding.thy ===== *)
theory Volume_Binding
  imports Compose_Resolution
begin

text \<open>
  Whose volume a name is: the binding rules (\<open>packages/server/src/utils/volume-backups/binding.ts\<close>) and
  the records they are decided on (\<open>packages/server/src/services/volume-binding.ts\<close>). The tables are one
  state, read at once; a column of another table is the id of the service it names. \<open>parse\<close> is the YAML
  parser, None when it throws. Errors of the database itself are passed on by the source and not modelled.
\<close>

section \<open>Services and records\<close>

datatype owner_kind =
    Sv_Application | Sv_Compose | Sv_Libsql | Sv_Mariadb | Sv_Mongo | Sv_Mysql | Sv_Postgres | Sv_Redis

definition SERVICE_TYPES :: "owner_kind list" where
  "SERVICE_TYPES = [Sv_Application, Sv_Compose, Sv_Libsql, Sv_Mariadb, Sv_Mongo, Sv_Mysql, Sv_Postgres, Sv_Redis]"

record owning_service =
  ow_type :: owner_kind
  ow_id :: string
  ow_appName :: string
  ow_serverId :: "string option"
  ow_organizationId :: "string option"
  ow_composeFile :: string

text \<open>A row of \<open>mount\<close> (with its type) or of \<open>volume_backup\<close>, with the service columns that are set.\<close>

record volume_record =
  vr_id :: string
  vr_type :: string
  vr_volumeName :: "string option"
  vr_services :: "(owner_kind \<times> string) list"

record volume_tables =
  vt_services :: "owning_service list"
  vt_mounts :: "volume_record list"
  vt_backups :: "volume_record list"
  vt_done :: "string list"

definition loadService :: "volume_tables \<Rightarrow> owner_kind \<Rightarrow> string \<Rightarrow> owning_service option" where
  "loadService t kind i = find (\<lambda>s. ow_type s = kind \<and> ow_id s = i) (vt_services t)"

definition rowService :: "volume_tables \<Rightarrow> volume_record \<Rightarrow> owning_service option" where
  "rowService t row =
     (case List.map_filter (\<lambda>kind. Option.bind (map_of (vr_services row) kind) (loadService t kind)) SERVICE_TYPES of
        [] \<Rightarrow> None | s # _ \<Rightarrow> Some s)"

definition serverOf :: "owning_service option \<Rightarrow> string option" where
  "serverOf s = Option.bind s ow_serverId"

definition organizationOf :: "owning_service option \<Rightarrow> string option" where
  "organizationOf s = Option.bind s ow_organizationId"

section \<open>The rules\<close>

definition isInServiceVolumeNamespace :: "string \<Rightarrow> string \<Rightarrow> bool" where
  "isInServiceVolumeNamespace volumeName appName \<longleftrightarrow> appName \<noteq> [] \<and>
     (volumeName = appName \<or> prefix (appName @ ''-'') volumeName \<or> prefix (appName @ ''_'') volumeName)"

definition isDokployReservedVolumeName :: "string \<Rightarrow> bool" where
  "isDokployReservedVolumeName n \<longleftrightarrow> n = ''dokploy'' \<or> prefix ''dokploy-'' n \<or> prefix ''dokploy_'' n"

definition valid_volume_name :: "string \<Rightarrow> bool" where
  "valid_volume_name n \<longleftrightarrow> n \<noteq> [] \<and> is_alnum (hd n) \<and> (\<forall>c\<in>set n. is_alnum c \<or> c \<in> {CHR ''_'', CHR ''.'', CHR ''-''})"

definition isPrivilegedVolumeRole :: "string option \<Rightarrow> bool" where
  "isPrivilegedVolumeRole role \<longleftrightarrow> role = Some ''owner'' \<or> role = Some ''admin''"

text \<open>The first service that is there decides; an empty server id is the local host.\<close>

definition resolveVolumeBackupHost :: "(owner_kind \<Rightarrow> string option option) \<Rightarrow> string option" where
  "resolveVolumeBackupHost row =
     (case find (\<lambda>kind. row kind \<noteq> None)
         [Sv_Application, Sv_Compose, Sv_Postgres, Sv_Mysql, Sv_Mariadb, Sv_Mongo, Sv_Redis, Sv_Libsql] of
        None \<Rightarrow> None
      | Some kind \<Rightarrow> Option.bind (the (row kind)) (\<lambda>s. if s = [] then None else Some s))"

datatype claim_source = By_Namespace | By_Mount | By_Volume_Backup | By_Compose_File

record binding_facts =
  bf_volumeName :: string
  bf_appName :: string
  bf_serverId :: "string option"
  bf_recordedOnOwnMount :: bool
  bf_recordedOnOtherSameOrgMount :: bool
  bf_recordedOnOwnVolumeBackup :: bool
  bf_claimedByOtherSameOrgService :: bool
  bf_declaredByComposeFile :: bool
  bf_claimedByOtherOrganization :: bool
  bf_otherOrganizationClaims :: "(claim_source \<times> string) list"

definition refusal_text :: "string \<Rightarrow> string \<Rightarrow> string" where
  "refusal_text volumeName appName = ''Volume '' @ quoted volumeName
     @ '' is not one of this service's volumes. Name it '' @ quoted (appName @ ''-<name>'') @ '' or ''
     @ quoted (appName @ ''_<name>'')
     @ ''. Using a volume outside that name needs an organization owner or admin, and only works for a volume another service of the organization already mounts or the service's compose file declares.''"

text \<open>None is the verdict \<open>ok\<close>, a text the refusal.\<close>

definition evaluateVolumeBinding :: "binding_facts \<Rightarrow> bool \<Rightarrow> string option" where
  "evaluateVolumeBinding f privileged =
     (let refused = Some (refusal_text (bf_volumeName f) (bf_appName f))
      in if \<not> valid_volume_name (bf_volumeName f) then refused
         else if isDokployReservedVolumeName (bf_volumeName f) \<or> bf_claimedByOtherOrganization f then refused
         else if isInServiceVolumeNamespace (bf_volumeName f) (bf_appName f) then None
         else if bf_recordedOnOwnMount f then None
         else if privileged \<and> (bf_recordedOnOtherSameOrgMount f \<or> bf_declaredByComposeFile f) then None
         else refused)"

definition assertVolumeBindingAllowed :: "binding_facts \<Rightarrow> bool \<Rightarrow> string + unit" where
  "assertVolumeBindingAllowed f privileged =
     (case evaluateVolumeBinding f privileged of None \<Rightarrow> Inr () | Some message \<Rightarrow> Inl message)"

section \<open>The claims on a name\<close>

text \<open>The entries \<open>Object.entries\<close> gives; only objects count below.\<close>

definition declared_volume :: "string \<times> json \<Rightarrow> string option" where
  "declared_volume e = (case snd e of
      J_Obj fs \<Rightarrow>
        let name = string_of (map_of fs ''name''); outside = map_of fs ''external'';
            legacy = string_of (map_of (properties_of outside) ''name'')
        in if name \<noteq> None \<and> name \<noteq> Some [] then name
           else if legacy \<noteq> None then legacy
           else if is_truthy outside then Some (fst e) else None
    | _ \<Rightarrow> None)"

definition collectComposeDeclaredVolumeNames :: "(string \<Rightarrow> json option) \<Rightarrow> string \<Rightarrow> string list" where
  "collectComposeDeclaredVolumeNames parse composeFile =
     (if composeFile = [] then []
      else case parse composeFile of None \<Rightarrow> []
        | Some spec \<Rightarrow> (case obj_get spec ''volumes'' of
              Some (J_Obj fs) \<Rightarrow> List.map_filter declared_volume fs
            | Some (J_Arr xs) \<Rightarrow> List.map_filter declared_volume (map (\<lambda>(i, x). (show_nat i, x)) (enumerate 0 xs))
            | _ \<Rightarrow> []))"

record name_claim =
  nc_source :: claim_source
  nc_id :: string
  nc_organizationId :: "string option"
  nc_serverId :: "string option"
  nc_anyServer :: bool

definition namespaceClaim :: "string \<Rightarrow> string \<Rightarrow> bool" where
  "namespaceClaim appName name \<longleftrightarrow> appName = name \<or> prefix (appName @ ''-'') name \<or> prefix (appName @ ''_'') name"

definition service_claim :: "claim_source \<Rightarrow> owning_service \<Rightarrow> name_claim" where
  "service_claim source s = \<lparr>nc_source = source, nc_id = ow_appName s, nc_organizationId = ow_organizationId s,
     nc_serverId = ow_serverId s, nc_anyServer = \<not> truthy (ow_organizationId s)\<rparr>"

definition findOrganizationsClaimingNamespace :: "volume_tables \<Rightarrow> string \<Rightarrow> name_claim list" where
  "findOrganizationsClaimingNamespace t name =
     map (service_claim By_Namespace)
       (concat (map (\<lambda>kind. filter (\<lambda>s. ow_type s = kind \<and> namespaceClaim (ow_appName s) name) (vt_services t)) SERVICE_TYPES))"

definition rowClaim :: "volume_tables \<Rightarrow> claim_source \<Rightarrow> volume_record \<Rightarrow> name_claim" where
  "rowClaim t source row =
     (let s = rowService t row
      in \<lparr>nc_source = source, nc_id = vr_id row, nc_organizationId = organizationOf s, nc_serverId = serverOf s,
        nc_anyServer = s = None \<or> \<not> truthy (organizationOf s)\<rparr>)"

definition mount_rows :: "volume_tables \<Rightarrow> string \<Rightarrow> volume_record list" where
  "mount_rows t name = filter (\<lambda>r. vr_type r = ''volume'' \<and> vr_volumeName r = Some name) (vt_mounts t)"

definition backup_rows :: "volume_tables \<Rightarrow> string \<Rightarrow> volume_record list" where
  "backup_rows t name = filter (\<lambda>r. vr_volumeName r = Some name) (vt_backups t)"

definition own_row :: "owner_kind \<Rightarrow> string \<Rightarrow> volume_record \<Rightarrow> bool" where
  "own_row kind i row \<longleftrightarrow> map_of (vr_services row) kind = Some i"

definition same_org_row ::
  "volume_tables \<Rightarrow> owner_kind \<Rightarrow> string \<Rightarrow> string option \<Rightarrow> string option \<Rightarrow> volume_record \<Rightarrow> bool" where
  "same_org_row t kind i org server row \<longleftrightarrow>
     \<not> own_row kind i row \<and> organizationOf (rowService t row) = org \<and> serverOf (rowService t row) = server"

definition declaring_services ::
  "(string \<Rightarrow> json option) \<Rightarrow> volume_tables \<Rightarrow> owner_kind \<Rightarrow> string \<Rightarrow> string option \<Rightarrow> string \<Rightarrow> owning_service list" where
  "declaring_services parse t kind i server name =
     filter (\<lambda>s. name \<in> set (collectComposeDeclaredVolumeNames parse (ow_composeFile s)))
       (filter (\<lambda>s. ow_type s = Sv_Compose \<and> ow_serverId s = server \<and> (kind = Sv_Compose \<longrightarrow> ow_id s \<noteq> i)
         \<and> sublist name (ow_composeFile s)) (vt_services t))"

text \<open>
  \<open>onServerId\<close> None is undefined: the claims are read for the service's own host. None as the answer
  is \<open>NOT_FOUND\<close>.
\<close>

definition loadVolumeBindingFacts ::
  "(string \<Rightarrow> json option) \<Rightarrow> volume_tables \<Rightarrow> owner_kind \<Rightarrow> string \<Rightarrow> string \<Rightarrow> string option option \<Rightarrow> bool
    \<Rightarrow> binding_facts option" where
  "loadVolumeBindingFacts parse t kind i name onServerId includeComposeDeclarations =
     (case loadService t kind i of
        None \<Rightarrow> None
      | Some service \<Rightarrow>
          let org = ow_organizationId service;
              server = (case onServerId of None \<Rightarrow> ow_serverId service | Some x \<Rightarrow> x);
              mounts = mount_rows t name; backups = backup_rows t name;
              namespaces = findOrganizationsClaimingNamespace t name;
              ownMount = (\<exists>r\<in>set mounts. own_row kind i r);
              otherMount = (\<exists>r\<in>set mounts. same_org_row t kind i org server r);
              ownBackup = (\<exists>r\<in>set backups. own_row kind i r);
              otherBackup = (\<exists>r\<in>set backups. same_org_row t kind i org server r);
              otherNamespace = (\<exists>c\<in>set namespaces. nc_organizationId c = org \<and> nc_serverId c = server \<and> nc_id c \<noteq> ow_appName service);
              declaring = (if \<not> includeComposeDeclarations \<or> isInServiceVolumeNamespace name (ow_appName service) then []
                else declaring_services parse t kind i server name);
              deployed = (if ownMount \<or> ownBackup then [] else filter (\<lambda>s. ow_id s \<in> set (vt_done t)) declaring);
              declarations = map (service_claim By_Compose_File) deployed;
              others = map (\<lambda>c. (nc_source c, nc_id c))
                (filter (\<lambda>c. (nc_anyServer c \<or> nc_serverId c = server) \<and> nc_organizationId c \<noteq> org)
                  (namespaces @ map (rowClaim t By_Mount) mounts @ map (rowClaim t By_Volume_Backup) backups @ declarations))
          in if \<not> truthy org then None
             else Some \<lparr>bf_volumeName = name, bf_appName = ow_appName service, bf_serverId = server,
               bf_recordedOnOwnMount = ownMount, bf_recordedOnOtherSameOrgMount = otherMount,
               bf_recordedOnOwnVolumeBackup = ownBackup,
               bf_claimedByOtherSameOrgService =
                 (\<exists>c\<in>set declarations. nc_organizationId c = org) \<or> otherMount \<or> otherBackup \<or> otherNamespace,
               bf_declaredByComposeFile =
                 (kind = Sv_Compose \<and> name \<in> set (collectComposeDeclaredVolumeNames parse (ow_composeFile service))),
               bf_claimedByOtherOrganization = others \<noteq> [], bf_otherOrganizationClaims = others\<rparr>)"

section \<open>The checks of a deploy\<close>

fun first_some :: "('a \<Rightarrow> 'b option) \<Rightarrow> 'a list \<Rightarrow> 'b option" where
  "first_some f [] = None"
| "first_some f (x # xs) = (case f x of None \<Rightarrow> first_some f xs | Some y \<Rightarrow> Some y)"

definition only_backup_claims :: "binding_facts \<Rightarrow> bool" where
  "only_backup_claims f \<longleftrightarrow> bf_otherOrganizationClaims f \<noteq> []
     \<and> (\<forall>c\<in>set (bf_otherOrganizationClaims f). fst c = By_Volume_Backup)"

definition unresolved_service_text :: "string \<Rightarrow> string" where
  "unresolved_service_text n = ''Volume '' @ quoted n @ '' is refused: the service it belongs to could not be resolved.''"

text \<open>The refusal of one stored mount on one host.\<close>

definition refuse_stored_mount ::
  "(string \<Rightarrow> json option) \<Rightarrow> volume_tables \<Rightarrow> owner_kind \<Rightarrow> string \<Rightarrow> string \<Rightarrow> string option option \<Rightarrow> string option" where
  "refuse_stored_mount parse t kind i name onServerId =
     (case loadVolumeBindingFacts parse t kind i name onServerId True of
        None \<Rightarrow> Some (unresolved_service_text name)
      | Some f \<Rightarrow> evaluateVolumeBinding (f\<lparr>bf_recordedOnOwnMount := True,
          bf_claimedByOtherOrganization := bf_claimedByOtherOrganization f
            \<and> \<not> (only_backup_claims f \<and> isInServiceVolumeNamespace name (bf_appName f))\<rparr>) True)"

definition findRefusedVolumeMounts ::
  "(string \<Rightarrow> json option) \<Rightarrow> volume_tables \<Rightarrow> (string \<times> string option) list \<Rightarrow> owner_kind \<Rightarrow> string
    \<Rightarrow> string option list option \<Rightarrow> (string \<times> string) list" where
  "findRefusedVolumeMounts parse t mounts kind i serverIds =
     List.map_filter (\<lambda>name. map_option (Pair name)
         (first_some (refuse_stored_mount parse t kind i name)
           (case serverIds of None \<Rightarrow> [None] | Some ids \<Rightarrow> map Some ids)))
       (uniq (List.map_filter (\<lambda>m. if fst m = ''volume'' \<and> truthy (snd m) then snd m else None) mounts))"

definition assertVolumeMountsBound ::
  "(string \<Rightarrow> json option) \<Rightarrow> volume_tables \<Rightarrow> (string \<times> string option) list \<Rightarrow> owner_kind \<Rightarrow> string \<Rightarrow> string + unit" where
  "assertVolumeMountsBound parse t mounts kind i =
     (case findRefusedVolumeMounts parse t mounts kind i None of [] \<Rightarrow> Inr () | r # _ \<Rightarrow> Inl (snd r))"

definition composeVolumeRefusal :: "string \<Rightarrow> string \<Rightarrow> string" where
  "composeVolumeRefusal volumeName appName = ''Compose volume '' @ quoted volumeName
     @ '' is refused: it is not one of this compose's volumes. Use the default volume name (''
     @ quoted (appName @ ''_<name>'')
     @ '', which is what a plain volume gets) or a volume nothing else uses. A volume that another service or organization uses, or one Dokploy reserves, cannot be mounted from a compose file.''"

definition own_volume :: "string \<Rightarrow> binding_facts \<Rightarrow> bool" where
  "own_volume appName f \<longleftrightarrow> isInServiceVolumeNamespace (bf_volumeName f) appName
     \<or> isInServiceVolumeNamespace (bf_volumeName f) (bf_appName f)"

definition refuses_compose_volume ::
  "(string \<Rightarrow> json option) \<Rightarrow> volume_tables \<Rightarrow> string \<Rightarrow> string \<Rightarrow> string \<Rightarrow> string option option \<Rightarrow> bool" where
  "refuses_compose_volume parse t composeId appName name onServerId \<longleftrightarrow>
     (case loadVolumeBindingFacts parse t Sv_Compose composeId name onServerId True of
        None \<Rightarrow> True
      | Some f \<Rightarrow>
          evaluateVolumeBinding (f\<lparr>bf_recordedOnOwnMount := True,
            bf_claimedByOtherOrganization := bf_claimedByOtherOrganization f
              \<and> \<not> (own_volume appName f \<and> only_backup_claims f)\<rparr>) True \<noteq> None
          \<or> \<not> own_volume appName f \<and> \<not> bf_recordedOnOwnMount f \<and> \<not> bf_recordedOnOwnVolumeBackup f
             \<and> bf_claimedByOtherSameOrgService f)"

definition display_name :: "volume_use list \<Rightarrow> string \<Rightarrow> string" where
  "display_name uses n = (case first_some (\<lambda>u. if vu_volumeName u = n then vu_display u else None) uses of
      None \<Rightarrow> n | Some d \<Rightarrow> d)"

definition derived_name :: "volume_use list \<Rightarrow> string \<Rightarrow> bool" where
  "derived_name uses n \<longleftrightarrow> (\<exists>u\<in>set uses. vu_derived u \<and> vu_volumeName u = n)"

definition findRefusedComposeVolumes ::
  "(string \<Rightarrow> json option) \<Rightarrow> volume_tables \<Rightarrow> string \<Rightarrow> string \<Rightarrow> volume_use list \<Rightarrow> string option list option
    \<Rightarrow> (string \<times> string) list" where
  "findRefusedComposeVolumes parse t composeId appName uses serverIds =
     List.map_filter (\<lambda>name.
         if derived_name uses name then None
         else if \<exists>s\<in>set (case serverIds of None \<Rightarrow> [None] | Some ids \<Rightarrow> map Some ids).
           refuses_compose_volume parse t composeId appName name s
         then Some (name, composeVolumeRefusal (display_name uses name) appName) else None)
       (uniq (map vu_volumeName uses))"

end
