(* ===== verification/Compose_Check.thy ===== *)
theory Compose_Check
  imports Own_Directory Compose_Dotenv Compose_Env_Names Volume_Binding
begin

text \<open>
  The check of a compose before it is deployed, saved or started
  (\<open>packages/server/src/services/compose-volume-binding.ts\<close>): the files it reads, the variables it resolves
  them with, and the order of its refusals. The guard of the files is from \<open>utils/compose-file-guard.ts\<close>. A
  file is its bytes; what is on this machine, what a server prints, the YAML parser, the pairs of the
  environment and the tables are the arguments of \<open>check_world\<close>.
\<close>

section \<open>What is there\<close>

datatype opened = No_Entry | Open_Failed | Not_Regular_File | Regular string

datatype yaml_result = Yaml json | Multi_Documents | Not_Yaml

datatype file_refusal = Leaves_By_Link | Outside_Allowed | Not_A_Regular_File

text \<open>
  \<open>cw_ask\<close> is set for a compose of a server: what the guarded read of a path prints there, None when it fails.
  \<open>cw_pairs\<close> is the answer of \<open>prepareEnvironmentVariables\<close> for the environment of the compose.
\<close>

record check_world =
  cw_real :: "string \<Rightarrow> real_path"
  cw_open :: "string \<Rightarrow> opened"
  cw_ask :: "(string \<Rightarrow> string option) option"
  cw_host :: compose_host
  cw_parse :: "string \<Rightarrow> yaml_result"
  cw_pairs :: "string list option"
  cw_tables :: volume_tables

datatype volume_refusal =
    Bad_Command command_refusal | Bad_File file_refusal | Multiple_Documents string | Unreadable_Override string
  | Unreadable_Compose_File | Invalid_Yaml
  | Uses_Provider string | Uses_Models string | Storage_Mounted string | Storage_Parent_Mounted string
  | Not_Resolved string bool | Refused_Volume string

definition traverse :: "('a \<Rightarrow> 'e + 'b) \<Rightarrow> 'a list \<Rightarrow> 'e + 'b list" where
  "traverse f xs = foldr (\<lambda>x r. case f x of Inl e \<Rightarrow> Inl e | Inr y \<Rightarrow> (case r of Inl e \<Rightarrow> Inl e | Inr ys \<Rightarrow> Inr (y # ys))) xs (Inr [])"

section \<open>Reading a file\<close>

definition inside_real :: "check_world \<Rightarrow> string \<Rightarrow> string \<Rightarrow> bool" where
  "inside_real w resolved directory \<longleftrightarrow> directory \<noteq> [] \<and> (case cw_real w directory of
      Real root \<Rightarrow> (let r = trimTrailingSlashes root in resolved = r \<or> prefix (r @ ''/'') resolved)
    | _ \<Rightarrow> False)"

definition getComposeFileLinkError :: "check_world \<Rightarrow> string \<Rightarrow> string \<Rightarrow> string \<Rightarrow> file_refusal option" where
  "getComposeFileLinkError w codeDirectory p extraDirectory =
     (case cw_real w p of
        Not_There \<Rightarrow> None
      | Other_Error \<Rightarrow> Some Leaves_By_Link
      | Real resolved \<Rightarrow>
          if inside_real w resolved codeDirectory \<or> inside_real w resolved extraDirectory then None
          else Some (if without_drive resolved = without_drive (resolve_root p) then Outside_Allowed else Leaves_By_Link))"

definition COMPOSE_FILE_LINK_MARKER :: string where
  "COMPOSE_FILE_LINK_MARKER = ''__DOKPLOY_COMPOSE_FILE_LINK__''"

definition COMPOSE_FILE_OUTSIDE_MARKER :: string where
  "COMPOSE_FILE_OUTSIDE_MARKER = ''__DOKPLOY_COMPOSE_FILE_OUTSIDE__''"

definition COMPOSE_FILE_NOT_REGULAR_MARKER :: string where
  "COMPOSE_FILE_NOT_REGULAR_MARKER = ''__DOKPLOY_COMPOSE_FILE_NOT_REGULAR__''"

definition isComposeFileLinkMarker :: "string \<Rightarrow> bool" where
  "isComposeFileLinkMarker output \<longleftrightarrow>
     trim output \<in> {COMPOSE_FILE_LINK_MARKER, COMPOSE_FILE_OUTSIDE_MARKER, COMPOSE_FILE_NOT_REGULAR_MARKER}"

definition getComposeFileRefusal :: "string \<Rightarrow> file_refusal" where
  "getComposeFileRefusal output =
     (if trim output = COMPOSE_FILE_OUTSIDE_MARKER then Outside_Allowed
      else if trim output = COMPOSE_FILE_NOT_REGULAR_MARKER then Not_A_Regular_File else Leaves_By_Link)"

definition getFilesDirectory :: "checked_compose \<Rightarrow> string" where
  "getFilesDirectory c = resolve_root (posix_dirname (getCodeDirectory c) @ ''/files'')"

definition MAX_DOTENV_BYTES :: nat where
  "MAX_DOTENV_BYTES = 1024 * 1024"

text \<open>The text of a \<open>.env\<close>: empty when there is none, None when it cannot be told.\<close>

definition readDotenv :: "check_world \<Rightarrow> checked_compose \<Rightarrow> string \<Rightarrow> volume_refusal + string option" where
  "readDotenv w c p =
     (let short = (\<lambda>t. if MAX_DOTENV_BYTES < length t then None else Some t)
      in case cw_ask w of
          Some ask \<Rightarrow> (case ask p of
              None \<Rightarrow> Inr None
            | Some stdout \<Rightarrow> if isComposeFileLinkMarker stdout then Inl (Bad_File (getComposeFileRefusal stdout)) else Inr (short stdout))
        | None \<Rightarrow> (case getComposeFileLinkError w (getCodeDirectory c) p (getFilesDirectory c) of
              Some e \<Rightarrow> Inl (Bad_File e)
            | None \<Rightarrow> Inr (case cw_open w p of
                  No_Entry \<Rightarrow> Some [] | Open_Failed \<Rightarrow> None | Not_Regular_File \<Rightarrow> None | Regular t \<Rightarrow> short t)))"

definition override_text :: "check_world \<Rightarrow> checked_compose \<Rightarrow> string \<Rightarrow> volume_refusal + string" where
  "override_text w c p =
     (case cw_ask w of
        Some ask \<Rightarrow> (case ask p of
            None \<Rightarrow> Inl (Unreadable_Override p)
          | Some stdout \<Rightarrow> if isComposeFileLinkMarker stdout then Inl (Bad_File (getComposeFileRefusal stdout)) else Inr stdout)
      | None \<Rightarrow> (case getComposeFileLinkError w (getCodeDirectory c) p (getFilesDirectory c) of
            Some e \<Rightarrow> Inl (Bad_File e)
          | None \<Rightarrow> (case cw_open w p of
                Regular t \<Rightarrow> Inr t
              | Not_Regular_File \<Rightarrow> Inl (Bad_File Not_A_Regular_File)
              | _ \<Rightarrow> Inl (Unreadable_Override p))))"

definition loadOverrideFile :: "check_world \<Rightarrow> checked_compose \<Rightarrow> string \<Rightarrow> volume_refusal + json" where
  "loadOverrideFile w c p = (case override_text w c p of
      Inl e \<Rightarrow> Inl e
    | Inr t \<Rightarrow> (case cw_parse w t of
          Yaml spec \<Rightarrow> Inr spec | Multi_Documents \<Rightarrow> Inl (Multiple_Documents p) | Not_Yaml \<Rightarrow> Inl (Unreadable_Override p)))"

section \<open>The variables the files are resolved with\<close>

definition STRICT_VARIABLES :: var_source where
  "STRICT_VARIABLES = \<lparr>vs_env = Some [], vs_strict = True\<rparr>"

definition EMPTY_VARIABLES :: var_source where
  "EMPTY_VARIABLES = \<lparr>vs_env = Some [(''PATH'', [unknown_mark]), (''HOME'', [unknown_mark])], vs_strict = False\<rparr>"

definition unknown_names :: "string list \<Rightarrow> vars \<Rightarrow> vars" where
  "unknown_names names env = fold (\<lambda>n. set_property n [unknown_mark]) names env"

definition resolved_with :: "vars \<Rightarrow> string list \<Rightarrow> var_source" where
  "resolved_with env names = \<lparr>vs_env = Some (unknown_names names (resolveEnvironmentReferences env names)), vs_strict = False\<rparr>"

definition SHELL_NAMES :: "string list" where
  "SHELL_NAMES = [''PATH'', ''HOME'', ''PWD'', ''OLDPWD'', ''SHLVL'', ''_'']"

definition stack_environment :: "(string \<times> string) list \<Rightarrow> vars" where
  "stack_environment ps = filter (\<lambda>(k, _). isStackEnvName k) (environment_object ps)"

definition compose_environment :: "checked_compose \<Rightarrow> (string \<times> string) list \<Rightarrow> vars" where
  "compose_environment c ps = set_property ''COMPOSE_PROJECT_NAME'' (cc_appName c)
     (fold (\<lambda>(k, v). set_property k v)
       (filter (\<lambda>(k, _). k \<noteq> ''COMPOSE_PROJECT_NAME'' \<and> isComposeDotenvName k) ps) [])"

definition getInterpolationVariables :: "check_world \<Rightarrow> checked_compose \<Rightarrow> var_source" where
  "getInterpolationVariables w c =
     (case Option.bind (cw_pairs w) environment_pairs of
        None \<Rightarrow> \<lparr>vs_env = None, vs_strict = True\<rparr>
      | Some ps \<Rightarrow>
          if cc_stack c
          then (let env = stack_environment ps in resolved_with env (filter (\<lambda>n. map_of env n = None) SHELL_NAMES))
          else resolved_with (compose_environment c ps) [''PATH'', ''HOME''])"

definition getDotenvInterpolationVariables :: "check_world \<Rightarrow> checked_compose \<Rightarrow> string \<Rightarrow> volume_refusal + var_source" where
  "getDotenvInterpolationVariables w c directory =
     (case readDotenv w c (resolve_root (directory @ ''/.env'')) of
        Inl e \<Rightarrow> Inl e
      | Inr text \<Rightarrow> Inr (case Option.bind text parseDotenvVariables of
            None \<Rightarrow> STRICT_VARIABLES | Some env \<Rightarrow> resolved_with env [''PATH'', ''HOME'']))"

definition overlay :: "var_source \<Rightarrow> var_source \<Rightarrow> var_source" where
  "overlay base upper =
     (if vs_strict base \<or> vs_strict upper then STRICT_VARIABLES
      else \<lparr>vs_env = Some (fold (\<lambda>(k, v). AList.update k v)
          (case vs_env upper of None \<Rightarrow> [] | Some env \<Rightarrow> env) (case vs_env base of None \<Rightarrow> [] | Some env \<Rightarrow> env)),
        vs_strict = False\<rparr>)"

record bound_options =
  bo_commandVolumes :: "string list"
  bo_commandBaseDirs :: "string list"
  bo_customEnvFile :: bool
  bo_hasCommand :: bool
  bo_kinds :: command_kinds

definition no_command :: bound_options where
  "no_command = \<lparr>bo_commandVolumes = [], bo_commandBaseDirs = [], bo_customEnvFile = False, bo_hasCommand = False,
     bo_kinds = \<lparr>ck_compose = False, ck_stack = False, ck_count = 0\<rparr>\<rparr>"

text \<open>The variables a command sees that reads the \<open>.env\<close> of a directory.\<close>

definition directory_worlds ::
  "check_world \<Rightarrow> checked_compose \<Rightarrow> bound_options \<Rightarrow> string \<Rightarrow> string \<Rightarrow> volume_refusal + var_source list" where
  "directory_worlds w c b composeDirectory d =
     (case (if cc_createEnvFile c \<and> d = composeDirectory then Inr (getInterpolationVariables w c)
        else getDotenvInterpolationVariables w c d) of
        Inl e \<Rightarrow> Inl e
      | Inr file \<Rightarrow> Inr ((if cc_stack c then overlay file (getInterpolationVariables w c) else file)
          # (if cc_stack c \<and> 1 < ck_count (bo_kinds b) then [file] else [])))"

definition getInterpolationWorlds ::
  "check_world \<Rightarrow> checked_compose \<Rightarrow> bound_options \<Rightarrow> string list \<Rightarrow> string \<Rightarrow> volume_refusal + var_source list" where
  "getInterpolationWorlds w c b directories composeDirectory =
     (let written = getInterpolationVariables w c
      in if bo_customEnvFile b then Inr [STRICT_VARIABLES]
         else if \<not> bo_hasCommand b
         then (if cc_stack c \<or> cc_createEnvFile c then Inr [written]
               else traverse (getDotenvInterpolationVariables w c) (uniq directories))
         else (case (if ck_compose (bo_kinds b) \<or> \<not> ck_stack (bo_kinds b)
                 then traverse (directory_worlds w c b composeDirectory) (uniq directories) else Inr []) of
            Inl e \<Rightarrow> Inl e
          | Inr wss \<Rightarrow> Inr (concat wss
              @ (if ck_stack (bo_kinds b) then [if cc_stack c then written else EMPTY_VARIABLES, EMPTY_VARIABLES] else []))))"

section \<open>The check of the files\<close>

definition merged_uses :: "resolution list \<Rightarrow> volume_use list" where
  "merged_uses rs = map snd (fold (\<lambda>u. AList.update (use_id u) u) (concat (map rs_uses rs)) [])"

definition mergeResolutions :: "resolution list \<Rightarrow> resolution" where
  "mergeResolutions rs = \<lparr>rs_uses = merged_uses rs,
     rs_unresolved = uniq (concat (map rs_unresolved rs)), rs_forbidden = uniq (concat (map rs_forbidden rs)),
     rs_forbiddenParents = uniq (concat (map rs_forbiddenParents rs)),
     rs_providers = uniq (concat (map rs_providers rs)), rs_models = uniq (concat (map rs_models rs))\<rparr>"

definition compose_directory :: "checked_compose \<Rightarrow> string" where
  "compose_directory c = posix_dirname (posix_resolve (getCodeDirectory c)
     (let p = (if cc_raw c then ''docker-compose.yml'' else cc_composePath c) in if p = [] then ''.'' else p))"

definition base_directories :: "checked_compose \<Rightarrow> bound_options \<Rightarrow> string list" where
  "base_directories c b = getCodeDirectory c # compose_directory c # bo_commandBaseDirs b"

definition check_options :: "checked_compose \<Rightarrow> bound_options \<Rightarrow> var_source \<Rightarrow> volume_options" where
  "check_options c b src = \<lparr>vo_source = src, vo_appName = cc_appName c, vo_baseDirs = base_directories c b,
     vo_commandVolumes = bo_commandVolumes b, vo_declared = True\<rparr>"

definition yaml_value :: "check_world \<Rightarrow> string \<Rightarrow> json option" where
  "yaml_value w t = (case cw_parse w t of Yaml spec \<Rightarrow> Some spec | _ \<Rightarrow> None)"

definition refuse_resolution :: "check_world \<Rightarrow> checked_compose \<Rightarrow> bool \<Rightarrow> resolution \<Rightarrow> volume_refusal + unit" where
  "refuse_resolution w c strict r =
     (case rs_providers r of
        x # _ \<Rightarrow> Inl (Uses_Provider x)
      | [] \<Rightarrow> (case rs_models r of
          x # _ \<Rightarrow> Inl (Uses_Models x)
        | [] \<Rightarrow> (case rs_forbidden r of
            x # _ \<Rightarrow> Inl (Storage_Mounted x)
          | [] \<Rightarrow> (case rs_forbiddenParents r of
              x # _ \<Rightarrow> Inl (Storage_Parent_Mounted x)
            | [] \<Rightarrow> (case rs_unresolved r of
                x # _ \<Rightarrow> Inl (Not_Resolved x strict)
              | [] \<Rightarrow> (case findRefusedComposeVolumes (yaml_value w) (cw_tables w) (cc_composeId c) (cc_appName c) (rs_uses r) None of
                  x # _ \<Rightarrow> Inl (Refused_Volume (snd x))
                | [] \<Rightarrow> Inr ()))))))"

definition assertComposeSpecVolumesBound ::
  "check_world \<Rightarrow> checked_compose \<Rightarrow> json list \<Rightarrow> bound_options \<Rightarrow> volume_refusal + unit" where
  "assertComposeSpecVolumesBound w c specs b =
     (case getInterpolationWorlds w c b (base_directories c b) (compose_directory c) of
        Inl e \<Rightarrow> Inl e
      | Inr worlds \<Rightarrow> refuse_resolution w c (\<exists>x\<in>set worlds. vs_strict x)
          (mergeResolutions (map (\<lambda>x. resolveComposeFilesMountedVolumes specs (check_options c b x)) worlds)))"

section \<open>Deploy, start and save\<close>

text \<open>What \<open>addDomainToCompose\<close> renders: the file that is deployed, or why there is none.\<close>

datatype rendered = Rendered json | Nothing_Rendered | Render_Multiple | Render_Refused file_refusal | Render_Failed

definition command_result :: "command_refusal + 'a \<Rightarrow> volume_refusal + 'a" where
  "command_result r = (case r of Inl e \<Rightarrow> Inl (Bad_Command e) | Inr x \<Rightarrow> Inr x)"

definition command_options :: "checked_compose \<Rightarrow> string list \<Rightarrow> command_refusal + bound_options" where
  "command_options c volumes =
     (case (getCommandBaseDirectories c, commandUsesEnvFile c, getCommandKinds c) of
        (Inr dirs, Inr envFile, Inr kinds) \<Rightarrow> Inr \<lparr>bo_commandVolumes = volumes, bo_commandBaseDirs = dirs,
          bo_customEnvFile = envFile, bo_hasCommand = cc_command c \<noteq> None, bo_kinds = kinds\<rparr>
      | (Inl e, _, _) \<Rightarrow> Inl e | (_, Inl e, _) \<Rightarrow> Inl e | (_, _, Inl e) \<Rightarrow> Inl e)"

definition check_rendered ::
  "check_world \<Rightarrow> checked_compose \<Rightarrow> string list \<Rightarrow> string list \<Rightarrow> json \<Rightarrow> volume_refusal + unit" where
  "check_rendered w c overrideFiles commandVolumes spec =
     (case traverse (loadOverrideFile w c) overrideFiles of
        Inl e \<Rightarrow> Inl e
      | Inr overrides \<Rightarrow> (case command_result (assertCommandPathsResolveInOwnDirectory (cw_host w) c) of
          Inl e \<Rightarrow> Inl e
        | Inr _ \<Rightarrow> (case command_result (command_options c commandVolumes) of
            Inl e \<Rightarrow> Inl e
          | Inr b \<Rightarrow> (case assertComposeSpecVolumesBound w c (spec # overrides) b of
              Inl e \<Rightarrow> Inl e
            | Inr _ \<Rightarrow> command_result (assertCommandActsOnOwnProject c (spec # overrides))))))"

definition assertComposeVolumesBound :: "check_world \<Rightarrow> checked_compose \<Rightarrow> rendered \<Rightarrow> volume_refusal + unit" where
  "assertComposeVolumesBound w c file =
     (case command_result (assertCommandRunsComposeOnly c) of
        Inl e \<Rightarrow> Inl e
      | Inr _ \<Rightarrow> (case command_result (getCommandOverrideFiles c) of
          Inl e \<Rightarrow> Inl e
        | Inr overrideFiles \<Rightarrow> (case command_result (getCommandRunVolumes c) of
            Inl e \<Rightarrow> Inl e
          | Inr volumes \<Rightarrow> (case file of
              Render_Multiple \<Rightarrow> Inl (Multiple_Documents ''the compose file'')
            | Render_Refused e \<Rightarrow> Inl (Bad_File e)
            | Rendered spec \<Rightarrow> check_rendered w c overrideFiles volumes spec
            | _ \<Rightarrow> command_result (assertCommandPathsResolveInOwnDirectory (cw_host w) c)))))"

text \<open>The file on disk, as \<open>readComposeFileOnDisk\<close> answers; what is not an object or a list is not checked.\<close>

definition is_object :: "json \<Rightarrow> bool" where
  "is_object v = (case v of J_Obj _ \<Rightarrow> True | J_Arr _ \<Rightarrow> True | _ \<Rightarrow> False)"

definition assertComposeFileOnDiskVolumesBound ::
  "check_world \<Rightarrow> checked_compose \<Rightarrow> volume_refusal + string option \<Rightarrow> volume_refusal + unit" where
  "assertComposeFileOnDiskVolumesBound w c disk = (case disk of
      Inl e \<Rightarrow> Inl e
    | Inr None \<Rightarrow> Inr ()
    | Inr (Some text) \<Rightarrow> (case cw_parse w text of
        Multi_Documents \<Rightarrow> Inl (Multiple_Documents ''the compose file on disk'')
      | Not_Yaml \<Rightarrow> Inl Invalid_Yaml
      | Yaml spec \<Rightarrow> if is_object spec then assertComposeSpecVolumesBound w c [spec] no_command else Inr ()))"

text \<open>\<open>renamed\<close> is the renaming of an isolated or randomized compose.\<close>

definition assertComposeFileVolumesBound ::
  "check_world \<Rightarrow> checked_compose \<Rightarrow> (json \<Rightarrow> json) \<Rightarrow> string \<Rightarrow> volume_refusal + unit" where
  "assertComposeFileVolumesBound w c renamed composeFile = (case cw_parse w composeFile of
      Multi_Documents \<Rightarrow> Inl (Multiple_Documents ''the compose file'')
    | Not_Yaml \<Rightarrow> Inr ()
    | Yaml spec \<Rightarrow> if is_object spec then assertComposeSpecVolumesBound w c [renamed spec] no_command else Inr ())"

end
