(* ===== verification/Volume_Binding_Props.thy ===== *)
theory Volume_Binding_Props
  imports Volume_Binding
begin

text \<open>
  What an accepted volume is worth: no service of another organization on the same host owns the name,
  mounts it, or was deployed with a compose file that declares it.
\<close>

section \<open>What the claims of others are\<close>

text \<open>A service or row of another organization, on this host or on one that cannot be told.\<close>

definition foreign :: "string option \<Rightarrow> string option \<Rightarrow> owning_service option \<Rightarrow> bool" where
  "foreign org server s \<longleftrightarrow>
     organizationOf s \<noteq> org \<and> (\<not> truthy (organizationOf s) \<or> serverOf s = server)"

text \<open>The host whose claims are read.\<close>

definition read_host :: "owning_service \<Rightarrow> string option option \<Rightarrow> string option" where
  "read_host s onServerId = (case onServerId of None \<Rightarrow> ow_serverId s | Some x \<Rightarrow> x)"

definition claims_of_others ::
  "volume_tables \<Rightarrow> string option \<Rightarrow> string option \<Rightarrow> string \<Rightarrow> (claim_source \<times> owning_service option) set" where
  "claims_of_others t org server n =
     {(By_Namespace, Some s) | s. s \<in> set (vt_services t) \<and> namespaceClaim (ow_appName s) n \<and> foreign org server (Some s)}
     \<union> {(By_Mount, rowService t r) | r. r \<in> set (mount_rows t n) \<and> foreign org server (rowService t r)}
     \<union> {(By_Volume_Backup, rowService t r) | r. r \<in> set (backup_rows t n) \<and> foreign org server (rowService t r)}"

lemma every_service_type: "kind \<in> set SERVICE_TYPES"
  by (cases kind) (simp_all add: SERVICE_TYPES_def)

lemma namespace_claims:
  "set (findOrganizationsClaimingNamespace t n)
     = service_claim By_Namespace ` {s \<in> set (vt_services t). namespaceClaim (ow_appName s) n}"
  using every_service_type by (auto simp: findOrganizationsClaimingNamespace_def)

lemma foreign_claim:
  assumes "truthy org"
  shows "(nc_anyServer (service_claim src s) \<or> nc_serverId (service_claim src s) = server)
      \<and> nc_organizationId (service_claim src s) \<noteq> org \<longleftrightarrow> foreign org server (Some s)"
    and "(nc_anyServer (rowClaim t src r) \<or> nc_serverId (rowClaim t src r) = server)
      \<and> nc_organizationId (rowClaim t src r) \<noteq> org \<longleftrightarrow> foreign org server (rowService t r)"
  using assms by (auto simp: service_claim_def rowClaim_def foreign_def organizationOf_def serverOf_def Let_def truthy_def
      split: option.splits)

text \<open>The declaring composes that count.\<close>

definition deployed_declarations ::
  "(string \<Rightarrow> json option) \<Rightarrow> volume_tables \<Rightarrow> owner_kind \<Rightarrow> string \<Rightarrow> string option \<Rightarrow> string \<Rightarrow> owning_service set" where
  "deployed_declarations parse t kind i server n =
     {s \<in> set (declaring_services parse t kind i server n). ow_id s \<in> set (vt_done t)}"

lemma claims_read:
  assumes "loadVolumeBindingFacts parse t kind i n onServerId True = Some f"
  obtains s where "loadService t kind i = Some s" "truthy (ow_organizationId s)"
    "bf_volumeName f = n" "bf_appName f = ow_appName s"
    "bf_claimedByOtherOrganization f \<longleftrightarrow> bf_otherOrganizationClaims f \<noteq> []"
    "\<And>src. src \<in> fst ` claims_of_others t (ow_organizationId s) (read_host s onServerId) n
       \<Longrightarrow> src \<in> fst ` set (bf_otherOrganizationClaims f)"
    "\<And>d. \<lbrakk>d \<in> deployed_declarations parse t kind i (read_host s onServerId) n;
        foreign (ow_organizationId s) (read_host s onServerId) (Some d);
        \<not> isInServiceVolumeNamespace n (ow_appName s); \<not> bf_recordedOnOwnMount f; \<not> bf_recordedOnOwnVolumeBackup f\<rbrakk>
       \<Longrightarrow> By_Compose_File \<in> fst ` set (bf_otherOrganizationClaims f)"
proof -
  obtain s where s: "loadService t kind i = Some s" and org: "truthy (ow_organizationId s)"
    and f: "Some f = loadVolumeBindingFacts parse t kind i n onServerId True"
    using assms by (auto simp: loadVolumeBindingFacts_def Let_def split: option.splits if_splits)
  let ?org = "ow_organizationId s" and ?server = "read_host s onServerId"
  let ?counts = "\<lambda>c. (nc_anyServer c \<or> nc_serverId c = ?server) \<and> nc_organizationId c \<noteq> ?org"
  define ds where "ds = (if bf_recordedOnOwnMount f \<or> bf_recordedOnOwnVolumeBackup f
     \<or> isInServiceVolumeNamespace n (ow_appName s) then []
     else filter (\<lambda>d. ow_id d \<in> set (vt_done t)) (declaring_services parse t kind i ?server n))"
  define cs where "cs = findOrganizationsClaimingNamespace t n @ map (rowClaim t By_Mount) (mount_rows t n)
    @ map (rowClaim t By_Volume_Backup) (backup_rows t n) @ map (service_claim By_Compose_File) ds"
  have claims: "bf_otherOrganizationClaims f = map (\<lambda>c. (nc_source c, nc_id c)) (filter ?counts cs)"
    and rest: "bf_volumeName f = n" "bf_appName f = ow_appName s"
      "bf_claimedByOtherOrganization f \<longleftrightarrow> bf_otherOrganizationClaims f \<noteq> []"
    using f s org by (auto simp: loadVolumeBindingFacts_def Let_def ds_def cs_def read_host_def)
  have counted: "nc_source c \<in> fst ` set (bf_otherOrganizationClaims f)" if "?counts c" and "c \<in> set cs" for c
  proof -
    have "(nc_source c, nc_id c) \<in> set (bf_otherOrganizationClaims f)"
      unfolding claims set_map using that by (intro image_eqI [of _ _ c]) simp_all
    then show ?thesis by force
  qed
  have sources: "nc_source (service_claim src d) = src" "nc_source (rowClaim t src r) = src" for src d r
    by (simp_all add: service_claim_def rowClaim_def Let_def)
  show thesis
  proof (rule that [OF s org rest])
    fix src assume "src \<in> fst ` claims_of_others t ?org ?server n"
    then consider d where "src = By_Namespace" "d \<in> set (vt_services t)" "namespaceClaim (ow_appName d) n" "foreign ?org ?server (Some d)"
      | r where "src = By_Mount" "r \<in> set (mount_rows t n)" "foreign ?org ?server (rowService t r)"
      | r where "src = By_Volume_Backup" "r \<in> set (backup_rows t n)" "foreign ?org ?server (rowService t r)"
      unfolding claims_of_others_def by auto
    then show "src \<in> fst ` set (bf_otherOrganizationClaims f)"
    proof cases
      case 1
      then show ?thesis
        using foreign_claim(1) [OF org] counted [of "service_claim By_Namespace d"] by (simp add: sources namespace_claims cs_def)
    next
      case 2
      then show ?thesis
        using foreign_claim(2) [OF org] counted [of "rowClaim t By_Mount r"] by (simp add: sources cs_def)
    next
      case 3
      then show ?thesis
        using foreign_claim(2) [OF org] counted [of "rowClaim t By_Volume_Backup r"] by (simp add: sources cs_def)
    qed
  next
    fix d assume "d \<in> deployed_declarations parse t kind i ?server n" "foreign ?org ?server (Some d)"
      "\<not> isInServiceVolumeNamespace n (ow_appName s)" "\<not> bf_recordedOnOwnMount f" "\<not> bf_recordedOnOwnVolumeBackup f"
    then show "By_Compose_File \<in> fst ` set (bf_otherOrganizationClaims f)"
      using foreign_claim(1) [OF org] counted [of "service_claim By_Compose_File d"]
      by (simp add: sources cs_def ds_def deployed_declarations_def)
  qed
qed

section \<open>An accepted volume\<close>

lemma evaluated_ok:
  assumes "evaluateVolumeBinding f privileged = None"
  shows "valid_volume_name (bf_volumeName f)" "\<not> isDokployReservedVolumeName (bf_volumeName f)"
    "\<not> bf_claimedByOtherOrganization f"
  using assms by (auto simp: evaluateVolumeBinding_def Let_def split: if_splits)

lemma none_refused:
  assumes "findRefusedComposeVolumes parse t cid app uses None = []"
    and "u \<in> set uses" "\<not> derived_name uses (vu_volumeName u)"
  shows "\<not> refuses_compose_volume parse t cid app (vu_volumeName u) None"
proof -
  have "vu_volumeName u \<in> set (uniq (map vu_volumeName uses))" using assms(2) by simp
  then show ?thesis
    using assms(1,3) by (auto simp: findRefusedComposeVolumes_def List.map_filter_def filter_empty_conv split: if_splits)
qed

text \<open>
  A name that a compose may use as nobody else's. The compose and its organization are known; the name is a valid
  volume name and not one of Dokploy's own. No service of another organization on this host, or on a host that
  cannot be told, has the name in its namespace or mounts it, and such a backup of it exists only when the name is
  in the compose's own namespace. When no mount or backup of the compose itself records the name, no deployed
  compose of another organization on the host declares it either, outside of the compose's own namespace.
\<close>

definition unclaimed :: "(string \<Rightarrow> json option) \<Rightarrow> volume_tables \<Rightarrow> string \<Rightarrow> string \<Rightarrow> string \<Rightarrow> bool" where
  "unclaimed parse t cid app n \<longleftrightarrow> (\<exists>s. loadService t Sv_Compose cid = Some s \<and> truthy (ow_organizationId s)
    \<and> valid_volume_name n \<and> \<not> isDokployReservedVolumeName n
    \<and> (\<forall>(src, c) \<in> claims_of_others t (ow_organizationId s) (ow_serverId s) n.
        src = By_Volume_Backup \<and> (isInServiceVolumeNamespace n app \<or> isInServiceVolumeNamespace n (ow_appName s)))
    \<and> (\<forall>d \<in> deployed_declarations parse t Sv_Compose cid (ow_serverId s) n.
        foreign (ow_organizationId s) (ow_serverId s) (Some d) \<longrightarrow>
          isInServiceVolumeNamespace n (ow_appName s)
          \<or> (\<exists>r \<in> set (mount_rows t n) \<union> set (backup_rows t n). own_row Sv_Compose cid r)))"

lemma accepted_volume_unclaimed:
  assumes "findRefusedComposeVolumes parse t cid app uses None = []"
    and "u \<in> set uses" "\<not> derived_name uses (vu_volumeName u)"
  shows "unclaimed parse t cid app (vu_volumeName u)"
proof -
  let ?n = "vu_volumeName u"
  have "\<not> refuses_compose_volume parse t cid app ?n None" by (rule none_refused [OF assms])
  then obtain f where f: "loadVolumeBindingFacts parse t Sv_Compose cid ?n None True = Some f"
    and ok: "evaluateVolumeBinding (f\<lparr>bf_recordedOnOwnMount := True,
       bf_claimedByOtherOrganization := bf_claimedByOtherOrganization f \<and> \<not> (own_volume app f \<and> only_backup_claims f)\<rparr>)
       True = None"
    by (auto simp: refuses_compose_volume_def split: option.splits)
  obtain s where s: "loadService t Sv_Compose cid = Some s" "truthy (ow_organizationId s)"
    and names: "bf_volumeName f = ?n" "bf_appName f = ow_appName s"
    and claimed: "bf_claimedByOtherOrganization f \<longleftrightarrow> bf_otherOrganizationClaims f \<noteq> []"
    and others: "\<And>src. src \<in> fst ` claims_of_others t (ow_organizationId s) (read_host s None) ?n
       \<Longrightarrow> src \<in> fst ` set (bf_otherOrganizationClaims f)"
    and declared: "\<And>d. \<lbrakk>d \<in> deployed_declarations parse t Sv_Compose cid (read_host s None) ?n;
        foreign (ow_organizationId s) (read_host s None) (Some d);
        \<not> isInServiceVolumeNamespace ?n (ow_appName s); \<not> bf_recordedOnOwnMount f; \<not> bf_recordedOnOwnVolumeBackup f\<rbrakk>
       \<Longrightarrow> By_Compose_File \<in> fst ` set (bf_otherOrganizationClaims f)"
    by (rule claims_read [OF f]) blast
  have host: "read_host s None = ow_serverId s" by (simp add: read_host_def)
  have own: "bf_recordedOnOwnMount f \<or> bf_recordedOnOwnVolumeBackup f \<longleftrightarrow>
      (\<exists>r \<in> set (mount_rows t ?n) \<union> set (backup_rows t ?n). own_row Sv_Compose cid r)"
    using f by (auto simp: loadVolumeBindingFacts_def Let_def split: option.splits if_splits)
  have only: "own_volume app f \<and> src = By_Volume_Backup" if "src \<in> fst ` set (bf_otherOrganizationClaims f)" for src
    using evaluated_ok(3) [OF ok] claimed that by (auto simp: only_backup_claims_def)
  show ?thesis
    unfolding unclaimed_def
  proof (intro exI [of _ s] conjI s ballI impI)
    show "valid_volume_name ?n" "\<not> isDokployReservedVolumeName ?n"
      using evaluated_ok(1,2) [OF ok] names by simp_all
  next
    fix x assume "x \<in> claims_of_others t (ow_organizationId s) (ow_serverId s) ?n"
    then have "own_volume app f \<and> fst x = By_Volume_Backup" using others [of "fst x"] only host by simp
    then show "case x of (src, c) \<Rightarrow> src = By_Volume_Backup
        \<and> (isInServiceVolumeNamespace ?n app \<or> isInServiceVolumeNamespace ?n (ow_appName s))"
      by (cases x) (simp add: own_volume_def names)
  next
    fix d assume "d \<in> deployed_declarations parse t Sv_Compose cid (ow_serverId s) ?n"
      "foreign (ow_organizationId s) (ow_serverId s) (Some d)"
    then show "isInServiceVolumeNamespace ?n (ow_appName s)
        \<or> (\<exists>r \<in> set (mount_rows t ?n) \<union> set (backup_rows t ?n). own_row Sv_Compose cid r)"
      using declared [of d] only [of By_Compose_File] own host by auto
  qed
qed

text \<open>
  What the check of compose files relies on: when no use is refused, the name of every use is safe, unless it
  is one the project gives by itself.
\<close>

locale owner_check =
  fixes refused :: "volume_use list \<Rightarrow> 'r list" and safe :: "string \<Rightarrow> bool"
  assumes refused_none: "\<lbrakk>refused uses = []; u \<in> set uses; \<not> derived_name uses (vu_volumeName u)\<rbrakk> \<Longrightarrow> safe (vu_volumeName u)"

interpretation owned: owner_check "\<lambda>uses. findRefusedComposeVolumes parse t cid app uses None" "unclaimed parse t cid app"
  for parse t cid app
  by unfold_locales (rule accepted_volume_unclaimed)

definition sample_shop :: owning_service where
  "sample_shop = \<lparr>ow_type = Sv_Compose, ow_id = ''c1'', ow_appName = ''shop'', ow_serverId = None,
     ow_organizationId = Some ''acme'', ow_composeFile = []\<rparr>"

definition sample_other :: owning_service where
  "sample_other = \<lparr>ow_type = Sv_Postgres, ow_id = ''p1'', ow_appName = ''db'', ow_serverId = None,
     ow_organizationId = Some ''rival'', ow_composeFile = []\<rparr>"

definition sample_tables :: volume_tables where
  "sample_tables = \<lparr>vt_services = [sample_other, sample_shop], vt_mounts = [], vt_backups = [], vt_done = []\<rparr>"

end
