(* ===== verification/Compose_Command_Props.thy ===== *)
theory Compose_Command_Props
  imports Own_Directory
begin

text \<open>
  What an accepted command is worth: whatever way its options are spelled, it acts on the project of its own
  compose, and every path it gives Docker leads into the directory of that compose on the host.
\<close>

section \<open>The options in every spelling\<close>

text \<open>
  The spellings pflag reads: a value as the next word, after an equals sign, or attached to a bundle of short
  flags (with an equals sign when the flag says so), or as the word after the bundle.
\<close>

datatype spelling = Apart | Equals | Bundled string bool | Bundled_Apart string

datatype spelled = Valued string string spelling | Switch string | Switches string

fun spell :: "spelled \<Rightarrow> string list" where
  "spell (Valued n v Apart) = [n, v]"
| "spell (Valued n v Equals) = [n @ CHR ''='' # v]"
| "spell (Valued n v (Bundled fs eq)) = [dash # fs @ tl n @ (if eq then ''='' else []) @ v]"
| "spell (Valued n v (Bundled_Apart fs)) = [dash # fs @ tl n, v]"
| "spell (Switch n) = [n]"
| "spell (Switches fs) = [dash # fs]"

definition short_switches :: "string \<Rightarrow> bool" where
  "short_switches fs \<longleftrightarrow> set fs \<subseteq> set ''vhD''"

fun spelled_well :: "spelled \<Rightarrow> bool" where
  "spelled_well (Valued n v Apart) \<longleftrightarrow> n \<in> set COMPOSE_OPTIONS_WITH_VALUE \<and> \<not> starts_with dash v"
| "spelled_well (Valued n v Equals) \<longleftrightarrow> n \<in> set COMPOSE_OPTIONS_WITH_VALUE \<and> long_option n"
| "spelled_well (Valued n v (Bundled fs eq)) \<longleftrightarrow>
     n \<in> {''-f'', ''-p''} \<and> short_switches fs \<and> v \<noteq> [] \<and> (eq \<or> \<not> starts_with (CHR ''='') v)"
| "spelled_well (Valued n v (Bundled_Apart fs)) \<longleftrightarrow>
     n \<in> {''-f'', ''-p''} \<and> short_switches fs \<and> v \<noteq> [] \<and> \<not> starts_with dash v"
| "spelled_well (Switch n) \<longleftrightarrow> n \<in> set COMPOSE_BOOLEAN_OPTIONS"
| "spelled_well (Switches fs) \<longleftrightarrow> fs \<noteq> [] \<and> short_switches fs"

fun option_effect :: "spelled \<Rightarrow> command_segment \<Rightarrow> command_segment" where
  "option_effect (Valued n v _) s = with_option n v s"
| "option_effect _ s = s"

lemma option_words:
  "n \<in> set COMPOSE_OPTIONS_WITH_VALUE \<union> set COMPOSE_BOOLEAN_OPTIONS \<Longrightarrow> \<not> has_value n \<and> starts_with dash n"
  "n \<in> set COMPOSE_BOOLEAN_OPTIONS \<Longrightarrow> n \<notin> set COMPOSE_OPTIONS_WITH_VALUE \<and> long_option n"
  "n \<in> set COMPOSE_OPTIONS_WITH_VALUE \<Longrightarrow> long_option n \<or> n = ''-f'' \<or> n = ''-p''"
  by (auto simp: COMPOSE_OPTIONS_WITH_VALUE_def COMPOSE_BOOLEAN_OPTIONS_def has_value_def starts_with_def long_option_def)

lemma switches_read: "short_switches fs \<Longrightarrow> flag_bundle word ws (fs @ r) s = flag_bundle word ws r s"
  by (induction fs) (auto simp: short_switches_def)

lemma attached_value:
  "v \<noteq> [] \<Longrightarrow> eq \<or> \<not> starts_with (CHR ''='') v \<Longrightarrow> without_equals ((if eq then ''='' else []) @ v) = v"
  by (auto simp: without_equals_def starts_with_def)

lemma bundle_value:
  assumes "n \<in> {''-f'', ''-p''}" "v \<noteq> []"
  shows "(if eq then ''='' else []) @ v \<noteq> [] \<Longrightarrow> without_equals ((if eq then ''='' else []) @ v) = v \<Longrightarrow>
      flag_bundle word ws (tl n @ (if eq then ''='' else []) @ v) s = Inr (with_option n v s, 1)"
    and "\<not> starts_with dash v \<Longrightarrow> flag_bundle word (v # ws) (tl n) s = Inr (with_option n v s, 2)"
  using assms by (auto simp: head_def)

lemma flags_first: "n \<in> {''-f'', ''-p''} \<Longrightarrow> short_switches fs \<Longrightarrow> hd (fs @ tl n @ r) \<noteq> dash \<and> fs @ tl n @ r \<noteq> []"
  by (cases fs) (auto simp: short_switches_def)

lemma short_word:
  assumes "r \<noteq> []" "hd r \<noteq> dash" "dash # r \<noteq> ''-f''" "dash # r \<noteq> ''-p''"
  shows "\<not> long_option (dash # r)" "dash # r \<notin> set COMPOSE_OPTIONS_WITH_VALUE" "short_option (dash # r)"
proof -
  show long: "\<not> long_option (dash # r)" using assms by (cases r) (auto simp: long_option_def)
  show "dash # r \<notin> set COMPOSE_OPTIONS_WITH_VALUE" using option_words(3) [of "dash # r"] long assms by blast
  show "short_option (dash # r)" using assms by (simp add: short_option_def starts_with_def)
qed

lemma bundle_read:
  assumes "r \<noteq> []" "hd r \<noteq> dash" "dash # r \<noteq> ''-f''" "dash # r \<noteq> ''-p''" "flag_bundle (dash # r) ws r s = Inr (s', k)"
  shows "compose_options i ((dash # r) # ws) s = compose_options (i + k) (drop (k - 1) ws) s'"
  using short_word [OF assms(1-4)] assms(5) by simp

lemma option_read:
  assumes "spelled_well x"
  shows "compose_options i (spell x @ ws) s = compose_options (i + length (spell x)) ws (option_effect x s)"
proof (cases x)
  case (Valued n v sp)
  show ?thesis
  proof (cases sp)
    case Apart
    then show ?thesis using assms Valued option_words(1) [of n] by (simp add: head_def)
  next
    case Equals
    have "option_name (n @ CHR ''='' # v) = n" "option_value (n @ CHR ''='' # v) = v"
      using assms Valued Equals option_words(1) [of n]
      by (auto simp: option_name_def option_value_def before_first_def has_value_def takeWhile_append dropWhile_append)
    moreover have "long_option (n @ CHR ''='' # v)" "has_value (n @ CHR ''='' # v)"
      using assms Valued Equals by (auto simp: long_option_def has_value_def)
    ultimately show ?thesis using assms Valued Equals by simp
  next
    case (Bundled fs eq)
    let ?r = "fs @ tl n @ (if eq then ''='' else []) @ v"
    have n: "n \<in> {''-f'', ''-p''}" "short_switches fs" "v \<noteq> []" "eq \<or> \<not> starts_with (CHR ''='') v"
      using assms Valued Bundled by simp_all
    have "2 \<le> length ?r" using n(1,3) by (cases v) auto
    then have "dash # ?r \<noteq> ''-f''" "dash # ?r \<noteq> ''-p''" by force+
    moreover have "flag_bundle (dash # ?r) ws ?r s = Inr (with_option n v s, 1)"
      unfolding switches_read [OF n(2)] using bundle_value(1) [OF n(1,3)] attached_value [OF n(3,4)] n(3) by simp
    ultimately have "compose_options i ((dash # ?r) # ws) s = compose_options (i + 1) (drop (1 - 1) ws) (with_option n v s)"
      using flags_first [OF n(1,2), of "(if eq then ''='' else []) @ v"] by (intro bundle_read) simp_all
    then show ?thesis using Valued Bundled by simp
  next
    case (Bundled_Apart fs)
    have n: "n \<in> {''-f'', ''-p''}" "short_switches fs" "v \<noteq> []" "\<not> starts_with dash v"
      using assms Valued Bundled_Apart by simp_all
    show ?thesis
    proof (cases "fs = []")
      case True
      then have "spell x = [n, v]" using Valued Bundled_Apart n(1) by auto
      moreover have "n \<in> set COMPOSE_OPTIONS_WITH_VALUE" using n(1) by (auto simp: COMPOSE_OPTIONS_WITH_VALUE_def)
      ultimately show ?thesis using n(4) Valued option_words(1) [of n] by (simp add: head_def)
    next
      case False
      let ?r = "fs @ tl n"
      have "2 \<le> length ?r" using n(1) False by (cases fs) auto
      then have "dash # ?r \<noteq> ''-f''" "dash # ?r \<noteq> ''-p''" by force+
      moreover have "flag_bundle (dash # ?r) (v # ws) ?r s = Inr (with_option n v s, 2)"
        unfolding switches_read [OF n(2)] using bundle_value(2) [OF n(1,3,4)] by simp
      ultimately have "compose_options i ((dash # ?r) # v # ws) s = compose_options (i + 2) (drop (2 - 1) (v # ws)) (with_option n v s)"
        using flags_first [OF n(1,2), of "[]"] by (intro bundle_read) simp_all
      then show ?thesis using Valued Bundled_Apart by simp
    qed
  qed
next
  case (Switch n)
  then have "n \<in> set COMPOSE_BOOLEAN_OPTIONS" "\<not> has_value n" "n \<notin> set COMPOSE_OPTIONS_WITH_VALUE" "\<not> short_option n"
    using assms option_words(1,2) [of n] by (auto simp: short_option_def long_option_def prefix_def)
  then show ?thesis using Switch by simp
next
  case (Switches fs)
  then have fs: "fs \<noteq> []" "short_switches fs" using assms by simp_all
  then have "hd fs \<noteq> dash" "dash # fs \<noteq> ''-f''" "dash # fs \<noteq> ''-p''" by (cases fs; force simp: short_switches_def)+
  moreover have "flag_bundle (dash # fs) ws fs s = Inr (s, 1)" using switches_read [OF fs(2), of "dash # fs" ws "[]" s] by simp
  ultimately have "compose_options i ((dash # fs) # ws) s = compose_options (i + 1) (drop (1 - 1) ws) s"
    using fs(1) by (intro bundle_read) simp_all
  then show ?thesis using Switches by simp
qed

lemma options_read:
  "\<forall>x\<in>set xs. spelled_well x \<Longrightarrow>
    compose_options i (concat (map spell xs) @ ws) s
      = compose_options (i + length (concat (map spell xs))) ws (fold option_effect xs s)"
proof (induction xs arbitrary: i s)
  case (Cons x xs)
  have "compose_options i (spell x @ concat (map spell xs) @ ws) s
      = compose_options (i + length (spell x)) (concat (map spell xs) @ ws) (option_effect x s)"
    by (rule option_read) (use Cons.prems in simp)
  then show ?case using Cons.IH [of "i + length (spell x)" "option_effect x s"] Cons.prems by (simp add: add.assoc)
qed simp

lemma subcommand_read:
  assumes "\<not> starts_with dash sub"
  shows "compose_options i (sub # ws) s = Inr (s, i, Some sub)"
proof -
  have "\<not> long_option sub" "\<not> short_option sub"
    using assms by (auto simp: long_option_def short_option_def starts_with_def prefix_def)
  moreover have "sub \<notin> set COMPOSE_OPTIONS_WITH_VALUE" "sub \<notin> set COMPOSE_BOOLEAN_OPTIONS"
    using option_words(1) [of sub] assms by blast+
  ultimately show ?thesis using assms by simp
qed

text \<open>The values that options give, in order, and the project name: the last one, an empty one being none.\<close>

definition given :: "string list \<Rightarrow> spelled list \<Rightarrow> string list" where
  "given names xs = concat (map (\<lambda>x. case x of Valued n v _ \<Rightarrow> if n \<in> set names then [v] else [] | _ \<Rightarrow> []) xs)"

definition project_given :: "spelled list \<Rightarrow> string option" where
  "project_given xs = (case rev (given [''-p'', ''--project-name''] xs) of [] \<Rightarrow> None | v # _ \<Rightarrow> name_or_none v)"

lemma given_simps:
  "given names [] = []" "given names (x # xs) = given names [x] @ given names xs" "given names [Switch n] = []"
  "given names [Switches n] = []" "given names [Valued n v sp] = (if n \<in> set names then [v] else [])"
  by (simp_all add: given_def)

lemma effect_one:
  "cs_envFiles (option_effect x s) = cs_envFiles s @ given [''--env-file''] [x]"
  "cs_files (option_effect x s) = cs_files s @ given [''-f'', ''--file''] [x]"
  "cs_projectDirectories (option_effect x s) = cs_projectDirectories s @ given [''--project-directory'', ''--workdir''] [x]"
  "cs_projectName (option_effect x s)
     = (case given [''-p'', ''--project-name''] [x] of [] \<Rightarrow> cs_projectName s | v # _ \<Rightarrow> name_or_none v)"
  by (cases x; simp add: given_simps(3-5) with_option_def)+

lemma effects_paths:
  "cs_envFiles (fold option_effect xs s) = cs_envFiles s @ given [''--env-file''] xs"
  "cs_files (fold option_effect xs s) = cs_files s @ given [''-f'', ''--file''] xs"
  "cs_projectDirectories (fold option_effect xs s) = cs_projectDirectories s @ given [''--project-directory'', ''--workdir''] xs"
proof (induction xs arbitrary: s)
  case (Cons x xs)
  case 1 show ?case using Cons.IH(1) [of "option_effect x s"] by (simp add: effect_one given_simps(2) [of _ x xs])
  case 2 show ?case using Cons.IH(2) [of "option_effect x s"] by (simp add: effect_one given_simps(2) [of _ x xs])
  case 3 show ?case using Cons.IH(3) [of "option_effect x s"] by (simp add: effect_one given_simps(2) [of _ x xs])
qed (simp_all add: given_simps)

lemma effects_project:
  "cs_projectName (fold option_effect xs s)
     = (let vs = given [''-p'', ''--project-name''] xs in if vs = [] then cs_projectName s else name_or_none (last vs))"
proof (induction xs arbitrary: s)
  case (Cons x xs)
  have "length (given [''-p'', ''--project-name''] [x]) \<le> 1"
    by (cases x) (simp_all add: given_simps(3-5))
  then show ?case
    using Cons.IH [of "option_effect x s"]
    by (cases "given [''-p'', ''--project-name''] [x]") (simp_all add: effect_one given_simps(2) [of _ x xs] Let_def)
qed (simp add: given_simps)

lemma project_read: "cs_projectName (fold option_effect xs empty_segment) = project_given xs"
  unfolding effects_project project_given_def
  by (cases "given [''-p'', ''--project-name''] xs" rule: rev_cases) (simp_all add: Let_def empty_segment_def)

section \<open>Commands that were accepted\<close>

lemma segment_parsed:
  "parse_segments first wss = Inr ss \<Longrightarrow> ws \<in> set wss \<Longrightarrow> \<exists>b s. s \<in> set ss \<and> parse_segment b ws = Inr s"
proof (induction first wss arbitrary: ss rule: parse_segments.induct)
  case (2 first v vs)
  from 2(2) obtain s ts where s: "parse_segment first v = Inr s" "parse_segments False vs = Inr ts" "ss = s # ts"
    by (auto split: sum.splits)
  show ?case
  proof (cases "ws = v")
    case True
    then show ?thesis using s by auto
  next
    case False
    then show ?thesis using 2(1) [OF s(1,2)] 2(3) s(3) by auto
  qed
qed simp

text \<open>How a chained command starts; the first one starts after \<open>docker\<close>.\<close>

definition compose_starts :: "string list list" where
  "compose_starts = [[''compose''], [''docker-compose''], [''docker'', ''compose'']]"

lemma compose_parsed:
  assumes "parse_segment b (st @ concat (map spell xs) @ sub # rest) = Inr s" "st \<in> set compose_starts"
    and "\<forall>x\<in>set xs. spelled_well x" "\<not> starts_with dash sub"
  shows "cs_kind s = Other_Segment
    \<or> (\<exists>i ws. s = with_subcommand ws i (Some sub) (fold option_effect xs empty_segment))"
proof -
  let ?ws = "concat (map spell xs) @ sub # rest"
  have read: "compose_options i ?ws empty_segment
      = Inr (fold option_effect xs empty_segment, i + length (concat (map spell xs)), Some sub)" for i
    unfolding options_read [OF assms(3)] subcommand_read [OF assms(4)] by simp
  have done_with: "\<exists>i ws. s = with_subcommand ws i (Some sub) (fold option_effect xs empty_segment)"
    if "compose_segment ws k = Inr s" "drop (k + 1) ws = ?ws" for ws k
    using that read [of "k + 1"] by (auto simp: compose_segment_def literal_segment_def split: sum.splits)
  consider "st = [''compose'']" | "st = [''docker-compose'']" "\<not> b" | "st = [''docker'', ''compose'']" "\<not> b"
    | "st \<noteq> [''compose'']" b by (use assms(2) in \<open>auto simp: compose_starts_def\<close>)
  then show ?thesis
  proof cases
    case 1
    then have "compose_segment (''compose'' # ?ws) 0 = Inr s"
      using assms(1) by (simp add: parse_segment_def Let_def head_def starts_with_def)
    then show ?thesis using done_with by fastforce
  next
    case 2
    then have "compose_segment (''compose'' # ?ws) 0 = Inr s"
      using assms(1) by (simp add: parse_segment_def Let_def head_def)
    then show ?thesis using done_with by fastforce
  next
    case 3
    then have "compose_segment (''docker'' # ''compose'' # ?ws) 1 = Inr s"
      using assms(1) by (simp add: parse_segment_def Let_def head_def starts_with_def)
    then show ?thesis using done_with by fastforce
  next
    case 4
    then have "s = empty_segment\<lparr>cs_command := head st, cs_daemonOption := None\<rparr>"
      using assms(1,2)
      by (auto simp: parse_segment_def Let_def head_def starts_with_def compose_starts_def findDaemonOption_def)
    then show ?thesis by (simp add: empty_segment_def)
  qed
qed

lemma saveable:
  assumes "assertCommandSaveable c = Inr ()" "command_segments c = Inr ss"
  shows "s \<in> set ss \<Longrightarrow> cs_kind s \<noteq> Other_Segment \<and> segment_forbidden s = None"
    and "assertCommandPathsInOwnDirectory ss (getCodeDirectory c) = Inr ()"
    and "assertCommandProjectNames c ss = Inr ()"
proof -
  have "assertCommandRunsComposeOnly c = Inr ()" and own: "assertCommandActsOnOwnProject c [] = Inr ()"
    using assms(1) by (auto simp: assertCommandSaveable_def split: sum.splits)
  then have "find (\<lambda>s. cs_kind s = Other_Segment) ss = None \<and> List.map_filter segment_forbidden ss = []
      \<and> assertCommandPathsInOwnDirectory ss (getCodeDirectory c) = Inr ()"
    unfolding assertCommandRunsComposeOnly_def assms(2) by (auto split: option.splits list.splits)
  then show "s \<in> set ss \<Longrightarrow> cs_kind s \<noteq> Other_Segment \<and> segment_forbidden s = None"
    "assertCommandPathsInOwnDirectory ss (getCodeDirectory c) = Inr ()"
    by (auto simp: find_None_iff List.map_filter_def filter_empty_conv)
  show "assertCommandProjectNames c ss = Inr ()"
    using own unfolding assertCommandActsOnOwnProject_def assms(2) by (auto split: sum.splits)
qed

lemma with_subcommand_keeps:
  "cs_kind (with_subcommand ws i sub s) = Compose_Segment" "cs_subcommand (with_subcommand ws i sub s) = sub"
  "cs_projectName (with_subcommand ws i sub s) = cs_projectName s" "cs_envFiles (with_subcommand ws i sub s) = cs_envFiles s"
  "cs_files (with_subcommand ws i sub s) = cs_files s"
  "cs_projectDirectories (with_subcommand ws i sub s) = cs_projectDirectories s"
  by (simp_all add: with_subcommand_def Let_def)

lemma readings_kept: "file_readings c (with_subcommand ws i sub s) = file_readings c s"
  by (rule ext) (simp add: file_readings_def segment_bases_def with_subcommand_keeps)

lemma command_word_segment:
  assumes "command_segments c = Inr ss" "cc_command c = Some ts" "ws \<in> set (command_words ts)" "ws \<noteq> []"
  shows "\<exists>b s. s \<in> set ss \<and> parse_segment b ws = Inr s"
  using assms segment_parsed [of True "filter (\<lambda>ws. ws \<noteq> []) (command_words ts)" ss ws]
  by (simp add: command_segments_def parseComposeCommand_def)

lemma saveable_parsed: "assertCommandSaveable c = Inr () \<Longrightarrow> \<exists>ss. command_segments c = Inr ss"
  by (auto simp: assertCommandSaveable_def assertCommandRunsComposeOnly_def split: sum.splits)

text \<open>
  C6.
  Take a custom command that was accepted, and one of its commands: \<open>docker compose\<close>, with options in any of the
  spellings that pflag reads, and a subcommand. The subcommand is one of those that are allowed. The project name
  that Compose takes (the last one given, in whatever spelling) is the compose's own. When none is given, either
  the subcommand acts on no project, or Dokploy writes the \<open>.env\<close> that names the project, no \<open>--env-file\<close> replaces
  it, and it lies in every directory the command may take as that of the project.
\<close>

theorem accepted_command_own_project:
  assumes "assertCommandSaveable c = Inr ()" "cc_command c = Some ts"
    and "st @ concat (map spell xs) @ sub # rest \<in> set (command_words ts)" "st \<in> set compose_starts"
    and "\<forall>x\<in>set xs. spelled_well x" "\<not> starts_with dash sub"
  shows "sub \<in> set COMPOSE_SUBCOMMANDS \<and> (case project_given xs of
      Some name \<Rightarrow> name = cc_appName c
    | None \<Rightarrow> sub \<in> set PROJECT_NAME_FREE_SUBCOMMANDS
        \<or> cc_createEnvFile c \<and> given [''--env-file''] xs = []
          \<and> (\<forall>d\<in>set (project_directories c (fold option_effect xs empty_segment)). d = env_directory c))"
proof -
  obtain ss where ss: "command_segments c = Inr ss" using saveable_parsed [OF assms(1)] by blast
  obtain b s where s: "s \<in> set ss" "parse_segment b (st @ concat (map spell xs) @ sub # rest) = Inr s"
    using command_word_segment [OF ss assms(2,3)] by auto
  have allowed: "cs_kind s \<noteq> Other_Segment" "segment_forbidden s = None" using saveable(1) [OF assms(1) ss s(1)] by simp_all
  obtain i ws where i: "s = with_subcommand ws i (Some sub) (fold option_effect xs empty_segment)"
    using compose_parsed [OF s(2) assms(4-6)] allowed(1) by blast
  let ?e = "fold option_effect xs empty_segment"
  have kept: "cs_kind s = Compose_Segment" "cs_subcommand s = Some sub" "cs_projectName s = project_given xs"
    "cs_envFiles s = given [''--env-file''] xs" "project_directories c s = project_directories c ?e"
    using project_read [of xs] effects_paths(1) [of xs empty_segment]
    by (simp_all add: i with_subcommand_keeps project_directories_def readings_kept empty_segment_def [THEN arg_cong, of cs_envFiles]
        cong: list.case_cong)
  have "sub \<in> set COMPOSE_SUBCOMMANDS"
    using allowed(2) kept by (simp add: segment_forbidden_def Let_def split: if_splits)
  moreover have "segment_names c s = None" "unnamed_project s \<longrightarrow> \<not> name_not_vouched c s"
    using saveable(3) [OF assms(1) ss] s(1)
    by (auto simp: assertCommandProjectNames_def getUnnamedProjectSegments_def List.map_filter_def filter_empty_conv
        find_None_iff split: list.splits option.splits)
  ultimately show ?thesis
    using kept
    by (auto simp: segment_names_def isOwnProjectName_def unnamed_project_def name_not_vouched_def
        split: option.splits if_splits)
qed

definition sample_compose :: checked_compose where
  "sample_compose = \<lparr>cc_composeId = ''c1'', cc_appName = ''shop'', cc_root = ''/etc/dokploy/compose'', cc_raw = True,
     cc_composePath = [], cc_stack = False, cc_createEnvFile = True,
     cc_command = Some (map Word_Token [''compose'', ''-pother'', ''-vp=shop'', ''-f'', ''docker-compose.yml'', ''up'', ''-d''])\<rparr>"

lemma accepted_command_own_project_witness:
  "project_given [Valued ''-p'' ''other'' (Bundled [] False), Valued ''-p'' ''shop'' (Bundled ''v'' True),
     Valued ''-f'' ''docker-compose.yml'' Apart] = Some (cc_appName sample_compose)"
proof -
  let ?xs = "[Valued ''-p'' ''other'' (Bundled [] False), Valued ''-p'' ''shop'' (Bundled ''v'' True),
     Valued ''-f'' ''docker-compose.yml'' Apart]"
  have "assertCommandSaveable sample_compose = Inr ()" by code_simp
  moreover have "cc_command sample_compose
      = Some (map Word_Token [''compose'', ''-pother'', ''-vp=shop'', ''-f'', ''docker-compose.yml'', ''up'', ''-d''])"
    by (simp add: sample_compose_def)
  moreover have "[''compose''] @ concat (map spell ?xs) @ ''up'' # [''-d'']
      \<in> set (command_words (map Word_Token [''compose'', ''-pother'', ''-vp=shop'', ''-f'', ''docker-compose.yml'', ''up'', ''-d'']))"
    by code_simp
  moreover have "[''compose''] \<in> set compose_starts" by (simp add: compose_starts_def)
  moreover have "\<forall>x\<in>set ?xs. spelled_well x" by code_simp
  moreover have "\<not> starts_with dash ''up''" by code_simp
  ultimately have "case project_given ?xs of
      Some name \<Rightarrow> name = cc_appName sample_compose
    | None \<Rightarrow> ''up'' \<in> set PROJECT_NAME_FREE_SUBCOMMANDS
        \<or> cc_createEnvFile sample_compose \<and> given [''--env-file''] ?xs = []
          \<and> (\<forall>d\<in>set (project_directories sample_compose (fold option_effect ?xs empty_segment)). d = env_directory sample_compose)"
    using accepted_command_own_project by blast
  moreover have "project_given ?xs = Some ''shop''" by code_simp
  ultimately show ?thesis by simp
qed

section \<open>The paths of an accepted command\<close>

lemma within_segments:
  assumes "resolve_root a = resolve_root b \<or> prefix (resolve_root b @ ''/'') (resolve_root a)"
  shows "prefix (segments_of b) (segments_of a)"
proof (cases "segments_of b = []")
  case False
  have proper: "\<forall>s\<in>set (segments_of a). proper_segment s" "\<forall>s\<in>set (segments_of b). proper_segment s"
    using segments_proper by blast+
  have b: "resolve_root b = path_text (segments_of b)" unfolding resolve_root_def by (rule slash_join [OF False])
  obtain s ss where ss: "segments_of b = s # ss" using False by (cases "segments_of b") simp_all
  have "segments_of a \<noteq> []"
  proof
    assume "segments_of a = []"
    then have "resolve_root a = ''/''" by (simp add: resolve_root_def)
    then have "s = []" using assms b ss by (auto simp: prefix_def)
    then show False using proper(2) ss by (simp add: proper_segment_def)
  qed
  then have "resolve_root a = path_text (segments_of a)" unfolding resolve_root_def by (rule slash_join)
  then show ?thesis using assms b path_text_prefix [OF proper(2,1)] by auto
qed simp

lemma same_segments: "resolve_root a = resolve_root b \<Longrightarrow> segments_of a = segments_of b"
  using within_segments [of a b] within_segments [of b a] by (auto intro: prefix_order.antisym)

definition plain_segment :: "string \<Rightarrow> bool" where
  "plain_segment s \<longleftrightarrow> s \<noteq> [] \<and> s \<noteq> ''.'' \<and> s \<noteq> ''..''"

lemma walk_plain: "\<forall>s\<in>set st. plain_segment s \<Longrightarrow> s \<in> set (walk st ss) \<Longrightarrow> plain_segment s"
proof (induction st ss rule: walk.induct)
  case (2 st x ss)
  have "\<forall>s\<in>set (butlast st). plain_segment s" using 2(4) in_set_butlastD by fast
  then show ?case using 2 by (auto simp: plain_segment_def split: if_splits)
qed simp

lemma walk_of_plain: "\<forall>s\<in>set ss. plain_segment s \<Longrightarrow> walk st ss = st @ ss"
  by (induction ss arbitrary: st) (auto simp: plain_segment_def)

lemma split_path_text: "\<forall>s\<in>set ss. slash \<notin> set s \<Longrightarrow> split_on slash (path_text ss) = [] # ss"
proof (induction ss)
  case (Cons s ss)
  show ?case
  proof (cases ss)
    case Nil
    then show ?thesis using Cons.prems by (simp add: split_on_none)
  next
    case more: (Cons t ts)
    have "split_on slash (s @ slash # t @ path_text ts) = split_on slash s @ split_on slash (t @ path_text ts)"
      by (rule split_on_append)
    moreover have "split_on slash (slash # t @ path_text ts) = [] # t # ts" using Cons more by simp
    ultimately show ?thesis using Cons.prems more by (simp add: split_on_none)
  qed
qed simp

lemma segments_again: "segments_of (resolve_root p) = segments_of p"
proof (cases "segments_of p = []")
  case False
  have plain: "\<forall>s\<in>set (segments_of p). plain_segment s"
    unfolding segments_of_def using walk_plain [of "[]"] by auto
  have "\<forall>s\<in>set (segments_of p). slash \<notin> set s" using segments_proper by (auto simp: proper_segment_def)
  then have "split_on slash (resolve_root p) = [] # segments_of p"
    unfolding resolve_root_def slash_join [OF False] by (rule split_path_text)
  then show ?thesis using walk_of_plain [OF plain, of "[]"] by (simp add: segments_of_def)
qed (simp add: resolve_root_def segments_of_def)

lemma segments_trailing: "segments_of (p @ ''/'') = segments_of p"
proof -
  have end_slash: "walk st (ss @ [[]]) = walk st ss" for st ss by (induction st ss rule: walk.induct) simp_all
  have "split_on slash (p @ ''/'') = split_on slash p @ [[]]" using split_on_append [of slash p "[]"] by simp
  then show ?thesis by (simp add: segments_of_def end_slash)
qed

lemma normal_segments:
  "segments_of (posix_normalize p) = segments_of p"
  "segments_of (posix_resolve b p) = segments_of (if starts_with slash p then p else b @ ''/'' @ p)"
  by (simp_all add: posix_normalize_def posix_resolve_def segments_again segments_trailing)

lemma in_own_directory_segments:
  assumes "isInOwnDirectory (resolve_root own) n" "n = posix_normalize p \<or> n = posix_resolve b p"
  shows "prefix (segments_of own) (segments_of n)"
proof -
  obtain m where m: "n = resolve_root m \<or> n = resolve_root m @ ''/''" and same: "segments_of n = segments_of m"
  proof (cases "n = posix_normalize p")
    case True
    show thesis by (rule that [of p]) (auto simp: True posix_normalize_def segments_again segments_trailing)
  next
    case False
    let ?m = "if starts_with slash p then p else b @ ''/'' @ p"
    have "n = resolve_root ?m" using False assms(2) by (simp add: posix_resolve_def)
    then show thesis using that [of ?m] segments_again by simp
  qed
  have "resolve_root own \<noteq> resolve_root m @ ''/''" if "segments_of own \<noteq> []"
  proof
    assume eq: "resolve_root own = resolve_root m @ ''/''"
    have "\<forall>s\<in>set (segments_of own). slash \<notin> set s" using segments_proper by (auto simp: proper_segment_def)
    then have "split_on slash (resolve_root own) = [] # segments_of own"
      unfolding resolve_root_def slash_join [OF that] by (rule split_path_text)
    moreover have "split_on slash (resolve_root m @ ''/'') = split_on slash (resolve_root m) @ [[]]"
      using split_on_append [of slash "resolve_root m" "[]"] by simp
    ultimately have "last (segments_of own) = []" using eq that by (metis last_ConsR snoc_eq_iff_butlast)
    then show False using segments_proper [of "last (segments_of own)" own] last_in_set [OF that] by (simp add: proper_segment_def)
  qed
  moreover have "prefix (o' @ ''/'') (m' @ ''/'') \<longleftrightarrow> o' = m' \<or> prefix (o' @ ''/'') m'" for o' m' :: string
    by (simp add: prefix_snoc)
  ultimately have "resolve_root m = resolve_root own \<or> prefix (resolve_root own @ ''/'') (resolve_root m)"
    if "segments_of own \<noteq> []" using assms(1) m that by (auto simp: isInOwnDirectory_def)
  then show ?thesis using within_segments [of m own] same by (cases "segments_of own = []") simp_all
qed

text \<open>The verdict that a reading got is the one of the reading itself: its key tells it from the others.\<close>

lemma keys_distinct:
  assumes "CHR 0x00 \<notin> set (pr_raw r)" "CHR 0x00 \<notin> set (pr_raw q)" "readingKey r = readingKey q"
  shows "r = q"
proof -
  have raw: "takeWhile (\<lambda>c. c \<noteq> CHR 0x00) (readingKey x) = pr_raw x" if "CHR 0x00 \<notin> set (pr_raw x)" for x
    using that unfolding readingKey_def by (subst takeWhile_append2) auto
  have "pr_raw r = pr_raw q" using raw [OF assms(1)] raw [OF assms(2)] assms(3) by simp
  moreover from this have "pr_normal r = pr_normal q" using assms(3) by (simp add: readingKey_def)
  ultimately show ?thesis by simp
qed

lemma verdict_given:
  assumes "p \<in> set ps" "r \<in> set (cp_readings p)" "\<forall>p\<in>set ps. \<forall>r\<in>set (cp_readings p). CHR 0x00 \<notin> set (pr_raw r)"
  shows "map_of (resolveReadings (Local_Host real there) own ps) (readingKey r) = Some (local_verdict real there own r)"
proof -
  let ?u = "unique_readings ps"
  let ?rs = "concat (map cp_readings ps)"
  have clean: "CHR 0x00 \<notin> set (pr_raw q)" if "q \<in> set ?rs" for q using that assms(3) by auto
  have r: "r \<in> set ?rs" using assms(1,2) by auto
  obtain q where q: "map_of ?u (readingKey r) = Some q" "readingKey q = readingKey r"
    using updates_get [of r ?rs "[]" readingKey] r unfolding unique_readings_def by blast
  have "q \<in> set ?rs"
    using updates_values [of readingKey ?rs "[]"] map_of_SomeD [OF q(1)] by (force simp: unique_readings_def)
  then have "map_of ?u (readingKey r) = Some r" using keys_distinct [of q r] q clean r by simp
  moreover have "resolveReadings (Local_Host real there) own ps = map (\<lambda>(k, x). (k, local_verdict real there own x)) ?u"
    by (cases "?u = []")
      (simp_all add: resolveReadings_def checkReadingsInOwnDirectory_def checkReadingsInOwnDirectoryLocal_def
        zip_map1 zip_map2 zip_same_conv_map split_def Let_def)
  ultimately show ?thesis by (simp add: map_of_map)
qed

lemma reading_normal:
  assumes "p \<in> set (collectCommandPaths ss dir)" "r \<in> set (cp_readings p)"
  shows "\<exists>b. pr_normal r = posix_normalize (cp_value p) \<or> pr_normal r = posix_resolve b (cp_value p)"
proof -
  obtain bases where "cp_readings p = readings (cp_value p) bases"
    using assms(1) by (auto simp: collectCommandPaths_def segment_paths_def Let_def)
  then show ?thesis using assms(2) by (fastforce simp: readings_def split: if_splits)
qed

lemma reading_stays_own:
  assumes "assertCommandSaveable c = Inr ()" "assertCommandPathsResolveInOwnDirectory (Local_Host real there) c = Inr ()"
    and "command_segments c = Inr ss" "p \<in> set (collectCommandPaths ss (getCodeDirectory c))" "r \<in> set (cp_readings p)"
    and "\<forall>p\<in>set (collectCommandPaths ss (getCodeDirectory c)). \<forall>r\<in>set (cp_readings p). CHR 0x00 \<notin> set (pr_raw r)"
  shows "\<not> starts_with (CHR ''~'') (cp_value p)
    \<and> prefix (segments_of (getOwnDirectory (getCodeDirectory c))) (segments_of (pr_normal r))
    \<and> (\<exists>root a b. resolveLocal real there (getOwnDirectory (getCodeDirectory c)) = Some root
        \<and> resolveLocal real there (pr_raw r) = Some a \<and> resolveLocal real there (pr_normal r) = Some b
        \<and> segments_of a = segments_of b \<and> prefix (segments_of root) (segments_of a))"
proof (intro conjI)
  let ?code = "getCodeDirectory c" and ?own = "getOwnDirectory (getCodeDirectory c)"
  let ?ps = "collectCommandPaths ss ?code"
  have own_path: "path_in_own_directory ?own p"
    using saveable(2) [OF assms(1,3)] assms(4)
    by (auto simp: assertCommandPathsInOwnDirectory_def find_None_iff split: option.splits)
  then show "\<not> starts_with (CHR ''~'') (cp_value p)" by (simp add: path_in_own_directory_def)
  from own_path have inside: "isInOwnDirectory ?own (pr_normal r)" using assms(5) by (simp add: path_in_own_directory_def)
  obtain d where d: "?own = resolve_root d" by (simp add: getOwnDirectory_def posix_dirname_def)
  show "prefix (segments_of ?own) (segments_of (pr_normal r))"
    using in_own_directory_segments [of d "pr_normal r" "cp_value p"] reading_normal [OF assms(4,5)] inside
    unfolding d segments_again by blast
  let ?vs = "resolveReadings (Local_Host real there) ?own ?ps"
  have "path_refused ?vs p = None"
    using assms(2,4)
    by (auto simp: assertCommandPathsResolveInOwnDirectory_def assms(3) Let_def List.map_filter_def filter_empty_conv
        split: list.splits)
  moreover have known: "map_of ?vs (readingKey q) = Some (local_verdict real there ?own q)" if "q \<in> set (cp_readings p)" for q
    using verdict_given [OF assms(4) that assms(6)] .
  ultimately have "bad_verdicts ?vs p = []"
    by (auto simp: path_refused_def bad_verdicts_def split: list.splits option.splits
        dest!: arg_cong [of _ _ set])
  then have "local_verdict real there ?own r = V_In"
    using known [OF assms(5)] assms(5) by (auto simp: bad_verdicts_def filter_empty_conv)
  then obtain root a b where real: "resolveLocal real there ?own = Some root" "resolveLocal real there (pr_raw r) = Some a"
      "resolveLocal real there (pr_normal r) = Some b" "collapse a = collapse b"
      "collapse a = collapse root \<or> prefix (collapse root @ ''/'') (collapse a)"
    by (auto simp: local_verdict_def split: option.splits if_splits)
  then show "\<exists>root a b. resolveLocal real there ?own = Some root
        \<and> resolveLocal real there (pr_raw r) = Some a \<and> resolveLocal real there (pr_normal r) = Some b
        \<and> segments_of a = segments_of b \<and> prefix (segments_of root) (segments_of a)"
    using within_segments [of a root] same_segments [of a b] unfolding collapse_def by blast
qed

section \<open>Every path of a command\<close>

text \<open>
  What Docker may open for the paths of a command, as the kernel gets it and in its lexical form: a path is taken
  from a directory when it is relative; a project directory is taken from the code directory, a compose file from
  it or from a project directory, an env file from those or from the directory of a compose file.
\<close>

inductive opened_from :: "string \<Rightarrow> string \<Rightarrow> string \<Rightarrow> string \<Rightarrow> string \<Rightarrow> bool" where
  from_root: "hd v = CHR ''/'' \<Longrightarrow> v \<noteq> [] \<Longrightarrow> opened_from d e v v (posix_normalize v)"
| from_directory: "v = [] \<or> hd v \<noteq> CHR ''/'' \<Longrightarrow> opened_from d e v (d @ ''/'' @ v) (posix_resolve e v)"

inductive file_base :: "string \<Rightarrow> string list \<Rightarrow> string \<Rightarrow> string \<Rightarrow> bool" for codeDir dirs where
  in_code: "file_base codeDir dirs codeDir codeDir"
| in_project: "d \<in> set dirs \<Longrightarrow> opened_from codeDir codeDir d r n \<Longrightarrow> file_base codeDir dirs r n"

inductive env_base :: "string \<Rightarrow> string list \<Rightarrow> string list \<Rightarrow> string \<Rightarrow> string \<Rightarrow> bool" for codeDir dirs files where
  as_file: "file_base codeDir dirs r n \<Longrightarrow> env_base codeDir dirs files r n"
| beside_file: "f \<in> set files \<Longrightarrow> file_base codeDir dirs d e \<Longrightarrow> opened_from d e f r n \<Longrightarrow>
    env_base codeDir dirs files (rawDirname r) (posix_dirname n)"

inductive may_open :: "string \<Rightarrow> string list \<Rightarrow> string list \<Rightarrow> string list \<Rightarrow> string \<Rightarrow> string \<Rightarrow> string \<Rightarrow> bool"
  for codeDir dirs files envs where
  open_directory: "v \<in> set dirs \<Longrightarrow> opened_from codeDir codeDir v r n \<Longrightarrow> may_open codeDir dirs files envs v r n"
| open_file: "v \<in> set files \<Longrightarrow> file_base codeDir dirs d e \<Longrightarrow> opened_from d e v r n \<Longrightarrow> may_open codeDir dirs files envs v r n"
| open_env: "v \<in> set envs \<Longrightarrow> env_base codeDir dirs files d e \<Longrightarrow> opened_from d e v r n \<Longrightarrow> may_open codeDir dirs files envs v r n"

text \<open>A path that stays: not under a home, and in the own directory lexically and behind every link of this machine.\<close>

definition stays_own :: "(string \<Rightarrow> real_path) \<Rightarrow> (string \<Rightarrow> bool) \<Rightarrow> string \<Rightarrow> string \<Rightarrow> string \<Rightarrow> string \<Rightarrow> bool" where
  "stays_own real there own v r n \<longleftrightarrow> \<not> starts_with (CHR ''~'') v \<and> prefix (segments_of own) (segments_of n)
     \<and> (\<exists>root a b. resolveLocal real there own = Some root \<and> resolveLocal real there r = Some a
         \<and> resolveLocal real there n = Some b \<and> segments_of a = segments_of b \<and> prefix (segments_of root) (segments_of a))"

definition segment_values :: "command_segment \<Rightarrow> string list" where
  "segment_values s = cs_projectDirectories s @ cs_files s @ cs_envFiles s @ cs_envFromFiles s"

lemma opened_read:
  "opened_from (pr_raw b) (pr_normal b) v r n \<Longrightarrow> b \<in> set bs \<Longrightarrow> \<lparr>pr_raw = r, pr_normal = n\<rparr> \<in> set (readings v bs)"
  by (erule opened_from.cases) (auto simp: readings_def isAbsolute_def starts_with_def split: list.splits)

text \<open>The directories of the check, and those of the meaning above.\<close>

definition code_reading :: "string \<Rightarrow> path_reading" where
  "code_reading codeDir = \<lparr>pr_raw = codeDir, pr_normal = codeDir\<rparr>"

definition file_readings_of :: "string \<Rightarrow> command_segment \<Rightarrow> path_reading list" where
  "file_readings_of codeDir s = code_reading codeDir # concat (map (\<lambda>d. readings d [code_reading codeDir]) (cs_projectDirectories s))"

definition env_readings_of :: "string \<Rightarrow> command_segment \<Rightarrow> path_reading list" where
  "env_readings_of codeDir s = file_readings_of codeDir s
     @ concat (map (\<lambda>p. map reading_directory (readings p (file_readings_of codeDir s))) (cs_files s))"

lemma file_base_read: "file_base codeDir (cs_projectDirectories s) r n \<Longrightarrow> \<lparr>pr_raw = r, pr_normal = n\<rparr> \<in> set (file_readings_of codeDir s)"
  using opened_read [of "code_reading codeDir" _ r n "[code_reading codeDir]"]
  by (auto simp: file_readings_of_def code_reading_def elim!: file_base.cases)

lemma env_base_read:
  assumes "env_base codeDir (cs_projectDirectories s) (cs_files s) r n"
  shows "\<lparr>pr_raw = r, pr_normal = n\<rparr> \<in> set (env_readings_of codeDir s)"
  using assms
proof cases
  case as_file
  then show ?thesis using file_base_read by (simp add: env_readings_of_def)
next
  case (beside_file f d e r' n')
  have "\<lparr>pr_raw = r', pr_normal = n'\<rparr> \<in> set (readings f (file_readings_of codeDir s))"
    using opened_read [of "\<lparr>pr_raw = d, pr_normal = e\<rparr>"] file_base_read beside_file by simp
  then have "reading_directory \<lparr>pr_raw = r', pr_normal = n'\<rparr> \<in> reading_directory ` set (readings f (file_readings_of codeDir s))"
    by (rule imageI)
  then show ?thesis using beside_file(1-3) by (auto simp: env_readings_of_def reading_directory_def)
qed

definition option_paths :: "string \<Rightarrow> string list \<Rightarrow> path_reading list \<Rightarrow> command_path list" where
  "option_paths name vs bases = map (\<lambda>v. \<lparr>cp_name = name, cp_value = v, cp_readings = readings v bases\<rparr>) vs"

lemma segment_paths_options:
  "segment_paths codeDir s = option_paths ''--project-directory / --workdir'' (cs_projectDirectories s) [code_reading codeDir]
     @ option_paths ''compose file'' (cs_files s) (file_readings_of codeDir s)
     @ option_paths ''--env-file'' (cs_envFiles s) (env_readings_of codeDir s)
     @ option_paths ''--env-from-file'' (cs_envFromFiles s) (env_readings_of codeDir s)"
  by (simp add: segment_paths_def Let_def option_paths_def file_readings_of_def env_readings_of_def code_reading_def)

lemma option_paths_member: "v \<in> set vs \<Longrightarrow> \<exists>p\<in>set (option_paths name vs bases). cp_value p = v \<and> cp_readings p = readings v bases"
  by (simp add: option_paths_def)

lemma option_paths_readings: "p \<in> set (option_paths name vs bases) \<Longrightarrow> \<exists>v\<in>set vs. cp_readings p = readings v bases"
  by (auto simp: option_paths_def)

lemma segment_paths_readings:
  "v \<in> set (cs_projectDirectories s) \<Longrightarrow> \<exists>p\<in>set (segment_paths codeDir s). cp_value p = v \<and> cp_readings p = readings v [code_reading codeDir]"
  "v \<in> set (cs_files s) \<Longrightarrow> \<exists>p\<in>set (segment_paths codeDir s). cp_value p = v \<and> cp_readings p = readings v (file_readings_of codeDir s)"
  "v \<in> set (cs_envFiles s) \<union> set (cs_envFromFiles s) \<Longrightarrow>
     \<exists>p\<in>set (segment_paths codeDir s). cp_value p = v \<and> cp_readings p = readings v (env_readings_of codeDir s)"
  unfolding segment_paths_options set_append bex_Un Un_iff
  by (erule option_paths_member [THEN disjI1], rule disjI2, erule option_paths_member [THEN disjI1],
    rule disjI2, rule disjI2, erule disjE, (erule option_paths_member [THEN disjI1] option_paths_member [THEN disjI2])+)

lemma read_from:
  assumes "\<exists>p\<in>ps. cp_value p = v \<and> cp_readings p = readings v bs" "\<lparr>pr_raw = d, pr_normal = e\<rparr> \<in> set bs" "opened_from d e v r n"
  shows "\<exists>p\<in>ps. cp_value p = v \<and> \<lparr>pr_raw = r, pr_normal = n\<rparr> \<in> set (cp_readings p)"
proof -
  have "\<lparr>pr_raw = r, pr_normal = n\<rparr> \<in> set (readings v bs)"
    using opened_read [of "\<lparr>pr_raw = d, pr_normal = e\<rparr>" v r n bs] assms(2,3) by simp
  with assms(1) show ?thesis by metis
qed

lemma may_open_read:
  assumes "may_open codeDir (cs_projectDirectories s) (cs_files s) (cs_envFiles s @ cs_envFromFiles s) v r n"
  shows "\<exists>p\<in>set (segment_paths codeDir s). cp_value p = v \<and> \<lparr>pr_raw = r, pr_normal = n\<rparr> \<in> set (cp_readings p)"
  using assms
proof cases
  case open_directory
  then show ?thesis by (intro read_from [OF segment_paths_readings(1)]) (simp_all add: code_reading_def)
next
  case (open_file d e)
  then show ?thesis by (intro read_from [OF segment_paths_readings(2)] file_base_read)
next
  case (open_env d e)
  then show ?thesis by (intro read_from [OF segment_paths_readings(3)] env_base_read) simp_all
qed

lemma may_open_more: "may_open codeDir dirs files envs v r n \<Longrightarrow> set envs \<subseteq> set envs' \<Longrightarrow> may_open codeDir dirs files envs' v r n"
  by (induction rule: may_open.induct) (auto intro: may_open.intros)

lemma raw_readings:
  assumes "\<forall>b\<in>set bs. CHR 0x00 \<notin> set (pr_raw b)" "CHR 0x00 \<notin> set v"
  shows "\<forall>r\<in>set (readings v bs). CHR 0x00 \<notin> set (pr_raw r)"
  using assms by (auto simp: readings_def)

lemma raw_directory: "CHR 0x00 \<notin> set (pr_raw r) \<Longrightarrow> CHR 0x00 \<notin> set (pr_raw (reading_directory r))"
  by (auto simp: reading_directory_def rawDirname_def Let_def dest!: set_dropWhileD list.set_sel(2) [rotated])

lemma segment_readings_clean:
  assumes "CHR 0x00 \<notin> set codeDir" "\<forall>v\<in>set (segment_values s). CHR 0x00 \<notin> set v" "p \<in> set (segment_paths codeDir s)"
  shows "\<forall>r\<in>set (cp_readings p). CHR 0x00 \<notin> set (pr_raw r)"
proof -
  have vs: "\<And>v. v \<in> set (cs_projectDirectories s) \<union> set (cs_files s) \<union> set (cs_envFiles s @ cs_envFromFiles s) \<Longrightarrow> CHR 0x00 \<notin> set v"
    using assms(2) by (auto simp: segment_values_def)
  have here: "\<forall>b\<in>set [code_reading codeDir]. CHR 0x00 \<notin> set (pr_raw b)" using assms(1) by (simp add: code_reading_def)
  have files: "\<forall>b\<in>set (file_readings_of codeDir s). CHR 0x00 \<notin> set (pr_raw b)"
    using here raw_readings [OF here] vs by (auto simp: file_readings_of_def)
  have envs: "\<forall>b\<in>set (env_readings_of codeDir s). CHR 0x00 \<notin> set (pr_raw b)"
  proof -
    have "CHR 0x00 \<notin> set (pr_raw (reading_directory r))" if "f \<in> set (cs_files s)" "r \<in> set (readings f (file_readings_of codeDir s))" for f r
      using raw_directory raw_readings [OF files vs] that by blast
    then show ?thesis using files by (auto simp: env_readings_of_def)
  qed
  have "p \<in> set (segment_paths codeDir s) \<Longrightarrow> \<exists>v bs. cp_readings p = readings v bs
      \<and> v \<in> set (cs_projectDirectories s) \<union> set (cs_files s) \<union> set (cs_envFiles s @ cs_envFromFiles s)
      \<and> bs \<in> {[code_reading codeDir], file_readings_of codeDir s, env_readings_of codeDir s}"
    unfolding segment_paths_options set_append by (auto dest!: option_paths_readings)
  then show ?thesis using assms(3) vs here files envs raw_readings by (metis empty_iff insert_iff)
qed

text \<open>
  C7.
  Take a custom command that was accepted and whose paths were found to lie in the own directory on the local host
  (no path with a NUL byte in it, which no argument of a program has). Whatever Docker may open for a path that one
  of its commands gives (a project directory, a compose file, an env file, the env file of \<open>run\<close> or \<open>exec\<close>; read
  from the working directory, a project directory or the directory of a compose file), the path starts with no home,
  its lexical form lies in the compose's own directory, and following the links on the host leads to the same place
  as that form, inside of the real own directory. The same holds of the values of the options of a command as they
  are spelled.
\<close>

theorem accepted_paths_stay_own:
  assumes "assertCommandSaveable c = Inr ()" "assertCommandPathsResolveInOwnDirectory (Local_Host real there) c = Inr ()"
    and "cc_command c = Some ts" "command_segments c = Inr ss" "CHR 0x00 \<notin> set (getCodeDirectory c)"
    and "\<forall>s\<in>set ss. \<forall>v\<in>set (segment_values s). CHR 0x00 \<notin> set v"
  shows "(\<forall>s\<in>set ss. \<forall>v r n.
        may_open (getCodeDirectory c) (cs_projectDirectories s) (cs_files s) (cs_envFiles s @ cs_envFromFiles s) v r n \<longrightarrow>
        stays_own real there (getOwnDirectory (getCodeDirectory c)) v r n)
    \<and> (\<forall>st xs sub rest v r n. st @ concat (map spell xs) @ sub # rest \<in> set (command_words ts) \<longrightarrow> st \<in> set compose_starts \<longrightarrow>
        (\<forall>x\<in>set xs. spelled_well x) \<longrightarrow> \<not> starts_with dash sub \<longrightarrow>
        may_open (getCodeDirectory c) (given [''--project-directory'', ''--workdir''] xs) (given [''-f'', ''--file''] xs)
          (given [''--env-file''] xs) v r n \<longrightarrow>
        stays_own real there (getOwnDirectory (getCodeDirectory c)) v r n)"
proof -
  let ?code = "getCodeDirectory c" and ?own = "getOwnDirectory (getCodeDirectory c)"
  have collected: "p \<in> set (collectCommandPaths ss ?code)" if "s \<in> set ss" "p \<in> set (segment_paths ?code s)" for p s
    using that by (auto simp: collectCommandPaths_def)
  have clean: "\<forall>p\<in>set (collectCommandPaths ss ?code). \<forall>r\<in>set (cp_readings p). CHR 0x00 \<notin> set (pr_raw r)"
    using segment_readings_clean [OF assms(5)] assms(6) by (fastforce simp: collectCommandPaths_def)
  have own: "stays_own real there ?own v r n"
    if s: "s \<in> set ss" and opens: "may_open ?code (cs_projectDirectories s) (cs_files s) (cs_envFiles s @ cs_envFromFiles s) v r n"
    for s v r n
  proof -
    obtain p where p: "p \<in> set (segment_paths ?code s)" "cp_value p = v" "\<lparr>pr_raw = r, pr_normal = n\<rparr> \<in> set (cp_readings p)"
      using may_open_read [OF opens] by blast
    show ?thesis
      using reading_stays_own [OF assms(1,2,4) collected [OF s p(1)] p(3) clean] p(2) by (simp add: stays_own_def)
  qed
  have spelled: "stays_own real there ?own v r n"
    if words: "st @ concat (map spell xs) @ sub # rest \<in> set (command_words ts)" and xs: "st \<in> set compose_starts"
      "\<forall>x\<in>set xs. spelled_well x" "\<not> starts_with dash sub"
      and opens: "may_open ?code (given [''--project-directory'', ''--workdir''] xs) (given [''-f'', ''--file''] xs)
        (given [''--env-file''] xs) v r n" for st xs sub rest v r n
  proof -
    obtain b s where s: "s \<in> set ss" "parse_segment b (st @ concat (map spell xs) @ sub # rest) = Inr s"
      using command_word_segment [OF assms(4,3) words] by auto
    then obtain i ws where i: "s = with_subcommand ws i (Some sub) (fold option_effect xs empty_segment)"
      using compose_parsed [OF s(2) xs] saveable(1) [OF assms(1,4) s(1)] by blast
    have "cs_projectDirectories s = given [''--project-directory'', ''--workdir''] xs" "cs_files s = given [''-f'', ''--file''] xs"
      "cs_envFiles s = given [''--env-file''] xs"
      using effects_paths [of xs empty_segment] by (simp_all add: i with_subcommand_keeps) (simp_all add: empty_segment_def)
    then have "may_open ?code (cs_projectDirectories s) (cs_files s) (cs_envFiles s @ cs_envFromFiles s) v r n"
      using opens by (auto intro: may_open_more)
    then show ?thesis using own s(1) by blast
  qed
  show ?thesis using own spelled by blast
qed

definition sample_real :: "string \<Rightarrow> real_path" where
  "sample_real p = (if p = ''/etc/dokploy/compose/shop'' then Real ''/data/shop''
     else if p = ''/etc/dokploy/compose/shop/code'' then Real ''/data/shop/code'' else Not_There)"

definition sample_segments :: "command_segment list" where
  "sample_segments = (case command_segments sample_compose of Inl _ \<Rightarrow> [] | Inr ss \<Rightarrow> ss)"

definition sample_options :: "spelled list" where
  "sample_options = [Valued ''-p'' ''other'' (Bundled [] False), Valued ''-p'' ''shop'' (Bundled ''v'' True),
     Valued ''-f'' ''docker-compose.yml'' Apart]"

lemma sample_opens:
  "may_open ''/etc/dokploy/compose/shop/code'' [] [''docker-compose.yml''] []
     ''docker-compose.yml'' ''/etc/dokploy/compose/shop/code/docker-compose.yml'' ''/etc/dokploy/compose/shop/code/docker-compose.yml''"
proof -
  let ?dir = "''/etc/dokploy/compose/shop/code''" and ?v = "''docker-compose.yml''"
  have "opened_from ?dir ?dir ?v (?dir @ ''/'' @ ?v) (posix_resolve ?dir ?v)" by (rule from_directory) simp
  moreover have "posix_resolve ?dir ?v = ?dir @ ''/'' @ ?v" by code_simp
  ultimately have "opened_from ?dir ?dir ?v (?dir @ ''/'' @ ?v) (?dir @ ''/'' @ ?v)" by simp
  then have "may_open ?dir [] [?v] [] ?v (?dir @ ''/'' @ ?v) (?dir @ ''/'' @ ?v)"
    by (intro open_file [where d = ?dir and e = ?dir] in_code) simp_all
  then show ?thesis by simp
qed

text \<open>The file is not there yet: its directory is, behind a link.\<close>

lemma accepted_paths_stay_own_witness:
  "stays_own sample_real (\<lambda>_. False) ''/etc/dokploy/compose/shop'' ''docker-compose.yml''
     ''/etc/dokploy/compose/shop/code/docker-compose.yml'' ''/etc/dokploy/compose/shop/code/docker-compose.yml''"
proof -
  let ?ts = "map Word_Token [''compose'', ''-pother'', ''-vp=shop'', ''-f'', ''docker-compose.yml'', ''up'', ''-d'']"
  let ?dirs = "given [''--project-directory'', ''--workdir''] sample_options" and ?files = "given [''-f'', ''--file''] sample_options"
    and ?envs = "given [''--env-file''] sample_options"
  have accepted: "assertCommandSaveable sample_compose = Inr ()" by code_simp
  have verified: "assertCommandPathsResolveInOwnDirectory (Local_Host sample_real (\<lambda>_. False)) sample_compose = Inr ()"
    by code_simp
  have tokens: "cc_command sample_compose = Some ?ts" by (simp add: sample_compose_def)
  have segments: "command_segments sample_compose = Inr sample_segments" by code_simp
  have clean: "CHR 0x00 \<notin> set (getCodeDirectory sample_compose)"
    "\<forall>s\<in>set sample_segments. \<forall>v\<in>set (segment_values s). CHR 0x00 \<notin> set v" by code_simp+
  have words: "[''compose''] @ concat (map spell sample_options) @ ''up'' # [''-d''] \<in> set (command_words ?ts)" by code_simp
  have start: "[''compose''] \<in> set compose_starts" by (simp add: compose_starts_def)
  have well: "\<forall>x\<in>set sample_options. spelled_well x" "\<not> starts_with dash ''up''" by code_simp+
  have given: "?dirs = []" "?files = [''docker-compose.yml'']" "?envs = []"
    "getCodeDirectory sample_compose = ''/etc/dokploy/compose/shop/code''" by code_simp+
  have own: "getOwnDirectory (getCodeDirectory sample_compose) = ''/etc/dokploy/compose/shop''" by code_simp
  have opens: "may_open (getCodeDirectory sample_compose) ?dirs ?files ?envs ''docker-compose.yml''
      ''/etc/dokploy/compose/shop/code/docker-compose.yml'' ''/etc/dokploy/compose/shop/code/docker-compose.yml''"
    unfolding given by (rule sample_opens)
  show ?thesis
    using accepted_paths_stay_own [OF accepted verified tokens segments clean, THEN conjunct2, rule_format, OF words start _ well(2) opens]
      well(1) unfolding own by blast
qed

end
