(* ===== verification/Compose_Check_Props.thy ===== *)
theory Compose_Check_Props
  imports Compose_Check Compose_Volumes_Props Volume_Binding_Props Compose_Command_Props
begin

text \<open>
  What an accepted deploy is worth, over all the parts of its check: the command, the files it names, the
  variables they are resolved with, their mounts and the owners of their volumes.
\<close>

section \<open>Default names\<close>

text \<open>The names a project gives its volumes by itself.\<close>

definition default_name :: "string \<Rightarrow> string \<Rightarrow> bool" where
  "default_name app n \<longleftrightarrow> (\<exists>p\<in>set (project_prefixes app). prefix (p @ ''_'') n)"

definition derived_by_default :: "string \<Rightarrow> resolution \<Rightarrow> bool" where
  "derived_by_default app r \<longleftrightarrow> (\<forall>u\<in>set (rs_uses r). vu_derived u \<longrightarrow> default_name app (vu_volumeName u))"

lemma derived_add:
  "derived_by_default app r \<Longrightarrow> vu_derived u \<longrightarrow> default_name app (vu_volumeName u) \<Longrightarrow> derived_by_default app (addUse u r)"
  by (auto simp: derived_by_default_def addUse_def)

lemma derived_fold:
  "derived_by_default app r \<Longrightarrow> (\<And>x r. x \<in> set xs \<Longrightarrow> derived_by_default app r \<Longrightarrow> derived_by_default app (f x r))
    \<Longrightarrow> derived_by_default app (fold f xs r)"
  by (induction xs arbitrary: r) auto

lemma derived_same: "rs_uses r' = rs_uses r \<Longrightarrow> derived_by_default app r \<Longrightarrow> derived_by_default app r'"
  by (simp add: derived_by_default_def)

lemma device_uses: "rs_uses (fst (check_device o' key b d r)) = rs_uses r"
  by (auto simp: check_device_def Let_def res_unresolved_def split: option.split storage_reach.splits)

lemma unresolved_uses: "rs_uses (res_unresolved t r) = rs_uses r"
  by (simp add: res_unresolved_def)

lemma derived_names:
  assumes "derived_by_default (vo_appName o') r"
  shows "derived_by_default (vo_appName o') (name_uses o' key v b r)"
proof -
  have own: "default_name (vo_appName o') (p @ ''_'' @ key)" if "p \<in> set (project_prefixes (vo_appName o'))" for p
    unfolding default_name_def using that by (intro bexI [of _ p]) simp_all
  have "derived_by_default (vo_appName o')
      (fold (\<lambda>p. addUse \<lparr>vu_key = key, vu_volumeName = p @ ''_'' @ key, vu_derived = True, vu_display = None\<rparr>)
        (project_prefixes (vo_appName o')) r)"
    by (rule derived_fold [OF assms]) (simp add: derived_add own [simplified])
  then show ?thesis
    using assms by (auto simp: name_uses_def intro: derived_add derived_same [OF unresolved_uses] split: option.split)
qed

lemma derived_definition:
  assumes "derived_by_default (vo_appName o') r"
  shows "derived_by_default (vo_appName o') (resolve_definition o' key b v r)"
proof (cases "check_device o' key b (properties_of (Some v)) r")
  case (Pair r1 going)
  then have "derived_by_default (vo_appName o') r1"
    using derived_same [OF device_uses assms, of o' key b "properties_of (Some v)"] by (metis fst_conv)
  then show ?thesis
    by (auto simp: resolve_definition_def Let_def Pair intro: derived_names derived_same [OF unresolved_uses]
        split: externality.split)
qed

lemma derived_resolved: "derived_by_default (vo_appName o') (resolveComposeFilesMountedVolumes specs o')"
proof -
  obtain m2 names where commands: "fold (add_command_volume o' (map (\<lambda>spec. properties_of (obj_get spec ''volumes'')) specs))
      (vo_commandVolumes o') (fold (collect_file o') specs start_mounted, []) = (m2, names)" by fastforce
  have key: "derived_by_default (vo_appName o') r \<Longrightarrow> derived_by_default (vo_appName o') (resolve_key o' sets b k r)" for sets b k r
    unfolding resolve_key_def by (rule derived_fold [OF _ derived_definition])
  show ?thesis
    unfolding resolveComposeFilesMountedVolumes_def Let_def commands prod.case
    by (intro derived_fold key derived_add) (simp_all add: derived_by_default_def)
qed

section \<open>The uses of all the worlds\<close>

lemma id_name:
  assumes "use_id u = use_id u'" "CHR 0x00 \<notin> set (vu_key u)" "CHR 0x00 \<notin> set (vu_volumeName u)"
  shows "vu_volumeName u' = vu_volumeName u"
proof -
  let ?nul = "\<lambda>s. length (filter (\<lambda>c. c = CHR 0x00) s)"
  have none: "?nul s = 0 \<longleftrightarrow> CHR 0x00 \<notin> set s" for s by (auto simp: filter_empty_conv)
  have "?nul (use_id u) = 1" using assms(2,3) none by (simp add: use_id_def)
  then have "?nul (use_id u') = 1" using assms(1) by simp
  then have "?nul (vu_key u') = 0" by (simp add: use_id_def)
  then have "CHR 0x00 \<notin> set (vu_key u')" using none by blast
  moreover have after: "dropWhile (\<lambda>c. c \<noteq> CHR 0x00) (use_id x) = CHR 0x00 # vu_volumeName x"
    if "CHR 0x00 \<notin> set (vu_key x)" for x
    using that unfolding use_id_def by (subst dropWhile_append2) auto
  ultimately show ?thesis using after [of u] after [of u'] assms(1,2) by simp
qed

lemma merged_keeps:
  assumes "r \<in> set rs" "u \<in> set (rs_uses r)"
  obtains u' where "u' \<in> set (merged_uses rs)" "use_id u' = use_id u"
proof -
  have "u \<in> set (concat (map rs_uses rs))" using assms by auto
  then obtain u' where "map_of (fold (\<lambda>u. AList.update (use_id u) u) (concat (map rs_uses rs)) []) (use_id u) = Some u'"
    "use_id u' = use_id u" using updates_get [of u "concat (map rs_uses rs)" "[]" use_id] by blast
  moreover from this have "u' \<in> set (merged_uses rs)"
    unfolding merged_uses_def set_map by (auto dest!: map_of_SomeD intro: image_eqI [of _ _ "(use_id u, u')"])
  ultimately show thesis by (intro that [of u'])
qed

lemma merged_derived:
  assumes "\<forall>r\<in>set rs. derived_by_default app r" "derived_name (merged_uses rs) n"
  shows "default_name app n"
proof -
  obtain u where "u \<in> set (merged_uses rs)" "vu_derived u" "vu_volumeName u = n"
    using assms(2) by (auto simp: derived_name_def)
  moreover have "set (merged_uses rs) \<subseteq> \<Union> (set ` rs_uses ` set rs)"
    using updates_values [of use_id "concat (map rs_uses rs)" "[]"] by (simp add: merged_uses_def)
  ultimately show ?thesis using assms(1) by (auto simp: derived_by_default_def)
qed

context owner_check
begin

lemma merged_use_safe:
  assumes "refused (merged_uses rs) = []" "\<forall>r\<in>set rs. derived_by_default app r" "r \<in> set rs" "u \<in> set (rs_uses r)"
    and "CHR 0x00 \<notin> set (vu_key u)" "CHR 0x00 \<notin> set (vu_volumeName u)"
  shows "default_name app (vu_volumeName u) \<or> safe (vu_volumeName u)"
proof -
  obtain u' where u': "u' \<in> set (merged_uses rs)" "use_id u' = use_id u" by (rule merged_keeps [OF assms(3,4)])
  then have "vu_volumeName u' = vu_volumeName u" using id_name [of u u'] assms(5,6) by simp
  then show ?thesis using merged_derived [OF assms(2)] refused_none [OF assms(1) u'(1)] by auto
qed

end

section \<open>The claims of an accepted deploy\<close>

text \<open>What a mount must be: a path that stays out of Docker's storage, or a volume that is its own or nobody else's.\<close>

definition mount_allowed :: "check_world \<Rightarrow> checked_compose \<Rightarrow> volume_options \<Rightarrow> json list \<Rightarrow> mount_source \<Rightarrow> bool" where
  "mount_allowed w c o' specs s \<longleftrightarrow> (case s of
      Host_Path p \<Rightarrow> dockerVolumesDirectoryReach p (vo_baseDirs o') = None
    | Volume_Key k \<Rightarrow> (\<forall>spec\<in>set specs. \<forall>v. map_of (volumes_of spec) k = Some v \<longrightarrow>
        (\<exists>ns. definition_names o' k v = Some ns \<and> (\<forall>n\<in>set ns. CHR 0x00 \<notin> set k \<and> CHR 0x00 \<notin> set n \<longrightarrow>
          default_name (cc_appName c) n \<or> unclaimed (yaml_value w) (cw_tables w) (cc_composeId c) (cc_appName c) n))))"

lemma merged_accepted:
  assumes "refuse_resolution w c strict (mergeResolutions rs) = Inr ()"
  shows "r \<in> set rs \<Longrightarrow> accepted r"
    and "findRefusedComposeVolumes (yaml_value w) (cw_tables w) (cc_composeId c) (cc_appName c) (merged_uses rs) None = []"
proof -
  have "rs_forbidden (mergeResolutions rs) = []" "rs_forbiddenParents (mergeResolutions rs) = []"
    "rs_unresolved (mergeResolutions rs) = []"
    and found: "findRefusedComposeVolumes (yaml_value w) (cw_tables w) (cc_composeId c) (cc_appName c)
      (rs_uses (mergeResolutions rs)) None = []"
    using assms by (simp_all add: refuse_resolution_def split: list.splits)
  then show "accepted r" if "r \<in> set rs" using that by (auto simp: mergeResolutions_def accepted_def)
  show "findRefusedComposeVolumes (yaml_value w) (cw_tables w) (cc_composeId c) (cc_appName c) (merged_uses rs) None = []"
    using found by (simp add: mergeResolutions_def)
qed

lemma spec_accepted:
  assumes "assertComposeSpecVolumesBound w c specs b = Inr ()"
  obtains worlds where "getInterpolationWorlds w c b (base_directories c b) (compose_directory c) = Inr worlds"
    "\<And>x spec cs e s. \<lbrakk>x \<in> set worlds; spec \<in> set specs; cs \<in> set (containerSpecs spec);
        e \<in> set (items (obj_get (snd cs) ''volumes'')); entry_mount (check_options c b x) e = Some s\<rbrakk>
       \<Longrightarrow> mount_allowed w c (check_options c b x) specs s"
proof -
  let ?answer = "\<lambda>x. resolveComposeFilesMountedVolumes specs (check_options c b x)"
  obtain worlds where worlds: "getInterpolationWorlds w c b (base_directories c b) (compose_directory c) = Inr worlds"
    and ok: "refuse_resolution w c (\<exists>x\<in>set worlds. vs_strict x) (mergeResolutions (map ?answer worlds)) = Inr ()"
    using assms by (auto simp: assertComposeSpecVolumesBound_def split: sum.splits)
  have "\<forall>r\<in>set (map ?answer worlds). derived_by_default (cc_appName c) r"
    using derived_resolved [of "check_options c b x" specs for x] by (auto simp: check_options_def)
  from owned.merged_use_safe [OF merged_accepted(2) [OF ok] this]
  have own: "default_name (cc_appName c) n \<or> unclaimed (yaml_value w) (cw_tables w) (cc_composeId c) (cc_appName c) n"
    if "x \<in> set worlds" "u \<in> set (rs_uses (?answer x))" "vu_key u = k" "vu_volumeName u = n"
      "CHR 0x00 \<notin> set k" "CHR 0x00 \<notin> set n" for x u k n
    using that by auto
  show thesis
  proof (rule that [OF worlds])
    fix x spec cs e s
    assume x: "x \<in> set worlds" and entry: "spec \<in> set specs" "cs \<in> set (containerSpecs spec)"
      "e \<in> set (items (obj_get (snd cs) ''volumes''))" "entry_mount (check_options c b x) e = Some s"
    have "accepted (?answer x)" using merged_accepted(1) [OF ok] x by simp
    note seen = accepted_mount [OF this files_look_at [OF entry]]
    show "mount_allowed w c (check_options c b x) specs s"
    proof (cases s)
      case (Host_Path p)
      then show ?thesis using seen by (simp add: mount_allowed_def)
    next
      case (Volume_Key k)
      show ?thesis
        unfolding mount_allowed_def Volume_Key mount_source.case
      proof (intro ballI allI impI)
        fix spec' v assume "spec' \<in> set specs" "map_of (volumes_of spec') k = Some v"
        then have "names_in_use (?answer x) k (definition_names (check_options c b x) k v)"
          using seen Volume_Key by simp
        then show "\<exists>ns. definition_names (check_options c b x) k v = Some ns \<and>
            (\<forall>n\<in>set ns. CHR 0x00 \<notin> set k \<and> CHR 0x00 \<notin> set n \<longrightarrow>
              default_name (cc_appName c) n \<or> unclaimed (yaml_value w) (cw_tables w) (cc_composeId c) (cc_appName c) n)"
          using named_use_read own [OF x] by (fastforce simp: names_in_use_def)
      qed
    qed
  qed
qed

lemma traverse_length: "traverse f xs = Inr ys \<Longrightarrow> length ys = length xs"
  unfolding traverse_def by (induction xs arbitrary: ys) (auto split: sum.splits)

lemma traverse_nonempty:
  assumes "traverse f xs = Inr yss" "\<And>x ys. x \<in> set xs \<Longrightarrow> f x = Inr ys \<Longrightarrow> ys \<noteq> []" "xs \<noteq> []"
  shows "concat yss \<noteq> []"
proof (cases xs)
  case (Cons x xs')
  then obtain ys zss where "f x = Inr ys" "yss = ys # zss"
    using assms(1) by (auto simp: traverse_def split: sum.splits)
  then show ?thesis using assms(2) [of x ys] Cons by simp
qed (use assms in simp)

lemma some_world:
  assumes "getInterpolationWorlds w c b (d # ds) cd = Inr worlds"
  shows "worlds \<noteq> []"
proof -
  have one: "ys \<noteq> []" if "directory_worlds w c b cd x = Inr ys" for x ys
    using that by (auto simp: directory_worlds_def split: sum.splits if_splits)
  have dirs: "uniq (d # ds) \<noteq> []" by (simp del: uniq.simps)
  consider "bo_customEnvFile b" | "\<not> bo_customEnvFile b" "\<not> bo_hasCommand b"
    | "\<not> bo_customEnvFile b" "bo_hasCommand b" by blast
  then show ?thesis
  proof cases
    case 2
    then show ?thesis
      using assms traverse_length [of "getDotenvInterpolationVariables w c" "uniq (d # ds)" worlds] dirs
      by (auto simp: getInterpolationWorlds_def Let_def simp del: uniq.simps split: if_splits)
  next
    case 3
    have some: "concat yss \<noteq> []" if "traverse (directory_worlds w c b cd) (uniq (d # ds)) = Inr yss" for yss
      using traverse_nonempty [OF that _ dirs] one by blast
    show ?thesis
    proof (cases "ck_stack (bo_kinds b)")
      case True
      then show ?thesis
        using assms 3 by (auto simp: getInterpolationWorlds_def Let_def simp del: uniq.simps split: if_splits sum.splits)
    next
      case False
      then obtain yss where "traverse (directory_worlds w c b cd) (uniq (d # ds)) = Inr yss" "worlds = concat yss"
        using assms 3 by (auto simp: getInterpolationWorlds_def Let_def simp del: uniq.simps split: sum.splits)
      then show ?thesis using some by simp
    qed
  qed (use assms in \<open>auto simp: getInterpolationWorlds_def\<close>)
qed

text \<open>
  C5.
  When a deploy of a compose is accepted, the command was understood, and every file it names besides the deployed
  one was read and parsed. With every set of variables the deployed command may resolve the files with (there is
  at least one), every entry of \<open>volumes\<close> of every service of these files whose source is known is either a
  host path that stays out of Docker's volume storage, or a volume of which every definition in any of the files
  has known names, each of them one the project gives by itself, or a name that no service of another organization
  on the host owns, mounts or has deployed.
\<close>

theorem accepted_deploy_mounts:
  assumes "assertComposeVolumesBound w c (Rendered spec) = Inr ()"
  shows "\<exists>ps volumes overrides b worlds. getCommandOverrideFiles c = Inr ps \<and> getCommandRunVolumes c = Inr volumes
    \<and> traverse (loadOverrideFile w c) ps = Inr overrides \<and> command_options c volumes = Inr b
    \<and> getInterpolationWorlds w c b (base_directories c b) (compose_directory c) = Inr worlds \<and> worlds \<noteq> []
    \<and> (\<forall>x\<in>set worlds. \<forall>file\<in>set (spec # overrides). \<forall>cs\<in>set (containerSpecs file).
        \<forall>e\<in>set (items (obj_get (snd cs) ''volumes'')). \<forall>s. entry_mount (check_options c b x) e = Some s \<longrightarrow>
          mount_allowed w c (check_options c b x) (spec # overrides) s)"
proof -
  obtain ps volumes where command: "getCommandOverrideFiles c = Inr ps" "getCommandRunVolumes c = Inr volumes"
    and "check_rendered w c ps volumes spec = Inr ()"
    using assms by (auto simp: assertComposeVolumesBound_def command_result_def split: sum.splits)
  then obtain overrides b where parts: "traverse (loadOverrideFile w c) ps = Inr overrides" "command_options c volumes = Inr b"
    and ok: "assertComposeSpecVolumesBound w c (spec # overrides) b = Inr ()"
    by (auto simp: check_rendered_def command_result_def split: sum.splits)
  obtain worlds where worlds: "getInterpolationWorlds w c b (base_directories c b) (compose_directory c) = Inr worlds"
    and mounts: "\<And>x file cs e s. \<lbrakk>x \<in> set worlds; file \<in> set (spec # overrides); cs \<in> set (containerSpecs file);
        e \<in> set (items (obj_get (snd cs) ''volumes'')); entry_mount (check_options c b x) e = Some s\<rbrakk>
       \<Longrightarrow> mount_allowed w c (check_options c b x) (spec # overrides) s"
    by (rule spec_accepted [OF ok]) blast
  have "worlds \<noteq> []" using worlds unfolding base_directories_def by (rule some_world)
  then show ?thesis using command parts worlds mounts by blast
qed

definition sample_check :: check_world where
  "sample_check = \<lparr>cw_real = sample_real, cw_open = (\<lambda>_. No_Entry), cw_ask = None,
     cw_host = Local_Host sample_real (\<lambda>_. False), cw_parse = (\<lambda>_. Not_Yaml), cw_pairs = Some [''ROOT=/srv''],
     cw_tables = sample_tables\<rparr>"

text \<open>
  A file with a volume nothing records is accepted, and the same file is refused once another organization's
  database has the volume in its namespace.
\<close>

definition squatted_file :: json where
  "squatted_file = J_Obj [(''services'', J_Obj [(''web'', sample_service)]),
     (''volumes'', J_Obj [(''data'', J_Obj [(''name'', J_Str ''db-data'')])])]"

lemma accepted_deploy_mounts_witness:
  "assertComposeVolumesBound sample_check sample_compose (Rendered squatted_file)
     = Inl (Refused_Volume (composeVolumeRefusal ''db-data'' ''shop''))
   \<and> (\<exists>worlds b. worlds \<noteq> [] \<and> getInterpolationWorlds sample_check sample_compose b
       (base_directories sample_compose b) (compose_directory sample_compose) = Inr worlds)"
proof
  show "assertComposeVolumesBound sample_check sample_compose (Rendered squatted_file)
      = Inl (Refused_Volume (composeVolumeRefusal ''db-data'' ''shop''))" by code_simp
  have "assertComposeVolumesBound sample_check sample_compose (Rendered sample_file) = Inr ()" by code_simp
  from accepted_deploy_mounts [OF this] show "\<exists>worlds b. worlds \<noteq> [] \<and> getInterpolationWorlds sample_check sample_compose b
       (base_directories sample_compose b) (compose_directory sample_compose) = Inr worlds" by blast
qed

end
