(* ===== verification/Spec2Isabelle.thy ===== *)
theory Spec2Isabelle
  imports Queue_Journal Connection Image Deploy_Push Gate_Props Gha_Props Gate_Step Release_Props
    Deployment_Props Watchdog_Live Github_Poller_Props
    Compose_Dotenv Compose_Volumes_Props Compose_Check_Props
begin

text \<open>
  A verification development for dokploy-community: how the platform decides what to deploy, how it
  queues, runs, watches and ends deployments, and how it keeps a compose away from what is not its own.

  Below, \<open>queues/\<close> is \<open>apps/dokploy/server/queues/\<close>, \<open>bp/\<close> is
  \<open>packages/server/src/services/build-policy/\<close>, \<open>gha/\<close> is \<open>packages/server/src/services/gha-connect/\<close>,
  \<open>gd/\<close> is \<open>packages/server/src/services/github-deployments/\<close>, and \<open>sv/\<close> is \<open>packages/server/src/\<close>.

  \<^bold>\<open>The parts and how they interact.\<close> A deployment starts in one of three ways. A push or a deploy
  hook goes through the push gate (skip marker, watch paths, build policy, required checks) and joins
  the queue, where newer pushes replace older waiting ones. A GitHub Deployment is found by the poll of
  a watch. A release built on GitHub Actions is found by the poll of a connection, judged by the
  acceptance rules, held by the deploy gate, and started by digest. A push may also be announced by a
  GitHub workflow, which registers a live row: the run poller follows that run and a deploy takes the
  row over. The queue runs the jobs of a service one at a time; the watchdog stops deploys that hang.
  Every one of them ends a row of the deployment table, through guarded writes. Before a compose is
  deployed, saved or started its files and its custom command are checked: what they mount, whose the
  volumes are, which project and which paths the command is about.

  \<^bold>\<open>Shared theories.\<close>
  \<^item> \<open>Prelude\<close>: reachable states and the locale \<open>inductive_invariant\<close>, the JavaScript list operations,
    decimal numbers, \<open>Map\<close> as an association list.
  \<^item> \<open>Text\<close>: strings, characters, regular expression classes, JSON values.
  \<^item> \<open>Effect_Log\<close>: code that talks to the outside, as a function on the history of its effects; the
    predicates \<open>does\<close>, \<open>surely\<close>, \<open>sees\<close>, \<open>extends\<close> and \<open>backed_by\<close> with their composition rules.

  \<^bold>\<open>The deployment queue\<close> (\<open>queues/in-memory-queue.ts\<close>, \<open>queues/queue-types.ts\<close>).
  \<^item> \<open>Queue_Types\<close>: jobs, partitions and the queue as records; the journal's effects.
  \<^item> \<open>Queue_Schedule\<close>: \<open>pickNext\<close>, limits, the start of jobs. \<open>drainPartition\<close> is split at its await.
  \<^item> \<open>Queue_Ops\<close>, \<open>Queue_Locks\<close>, \<open>Queue_Coalesce\<close>, \<open>Queue_Waiting\<close>: the methods, in the groups their
    names say.
  \<^item> \<open>Queue_Invariant\<close>, \<open>Queue_Preserved\<close>: the step relation of all methods and the invariant.
  \<^item> \<open>Queue_Props\<close>, \<open>Queue_Journal\<close>: mutual exclusion, exact locks, order and work conservation of a
    drain, holds, and that no job disappears without a word to the journal.

  \<^bold>\<open>Policy and pushes\<close> (\<open>bp/\<close>).
  \<^item> \<open>Build_Policy\<close> (\<open>source.ts\<close>, \<open>watch-paths.ts\<close>, \<open>policy.ts\<close>): the decision where to build.
  \<^item> \<open>Policy_Store\<close> (\<open>settings.ts\<close>, \<open>exclusions.ts\<close>, \<open>audit.ts\<close>, \<open>resolve.ts\<close>): the stored part, every
    history of its writes, and the break-glass grants.
  \<^item> \<open>Image\<close> (\<open>image.ts\<close>, \<open>hook-body.ts\<close>): references, digests, deploy hook bodies.
  \<^item> \<open>Required_Checks\<close> (\<open>required-checks.ts\<close>): the rule and the waiting loop.
  \<^item> \<open>Deploy_Push\<close> (\<open>skip-deploy.ts\<close>, \<open>coalesce.ts\<close>, \<open>webhook.ts\<close>,
    \<open>sv/utils/watch-paths/should-deploy.ts\<close>, \<open>queues/queueSetup.ts\<close>): a push from the gate into the
    queue, and the refinement to one waiting build per service through the locale \<open>coalescing_queue\<close>,
    interpreted on the queue above.

  \<^bold>\<open>Releases\<close> (\<open>gha/\<close>).
  \<^item> \<open>Connection\<close> (\<open>state-machine.ts\<close>): the life of a connection.
  \<^item> \<open>Gha_Store\<close>, \<open>Gha_Steps\<close>, \<open>Gha_Props\<close> (\<open>store.ts\<close>, \<open>processed.ts\<close>, \<open>deploy-gate-store.ts\<close>,
    \<open>deploy-gate-settings.ts\<close>): the tables, every write, and what holds in every history of them.
  \<^item> \<open>Manifest\<close>, \<open>Log_Manifest\<close>, \<open>Zip\<close>, \<open>Release_Rules\<close> (\<open>manifest.ts\<close>, \<open>log-manifest.ts\<close>, \<open>zip.ts\<close>,
    \<open>namespace.ts\<close>, \<open>environment-policy.ts\<close>, \<open>ordering.ts\<close>, \<open>completeness.ts\<close>, \<open>stale.ts\<close>): what a release says
    of itself, its two sources, and the rules.
  \<^item> \<open>Acceptance\<close>, \<open>Acceptance_Props\<close> (\<open>acceptance.ts\<close>): the rules in order over one run attempt.
  \<^item> \<open>Deploy_Gate\<close>, \<open>Gate_Props\<close> (\<open>deploy-gate.ts\<close>): the pure gate over the newest trusted results, an
    instance of the locale \<open>latest_by_key\<close>.
  \<^item> \<open>Gate_Step\<close> (\<open>deploy-gate-step.ts\<close>, \<open>deploy-gate-github.ts\<close>): the gate between acceptance and
    deploy, over any store that meets the locale \<open>gate_store\<close>; \<open>Gha_Store\<close> does.
  \<^item> \<open>Payload\<close>, \<open>Poll_Core\<close>, \<open>Poll_Tick\<close>, \<open>Poll_Props\<close> (\<open>gd/payload.ts\<close>, \<open>gd/github-api.ts\<close>,
    \<open>gd/poll-core.ts\<close>, \<open>gha/wake-payload.ts\<close>): one tick of a watch.
  \<^item> \<open>Release_Poll\<close>, \<open>Release_Props\<close> (\<open>gha/poll.ts\<close>): one tick of a connection, over acceptance and gate.

  \<^bold>\<open>Deployment rows\<close>.
  \<^item> \<open>Deployment_Row\<close>, \<open>Deployment_Ends\<close> (\<open>sv/db/schema/deployment.ts\<close>, \<open>sv/services/deployment.ts\<close>,
    \<open>live-build-claim.ts\<close>, \<open>external-build.ts\<close>, \<open>github-run-poller-deps.ts\<close>,
    \<open>sv/utils/schedules/run-status.ts\<close> and the others they name): the rows and their guarded writes, one
    definition per statement, with its \<open>where\<close>.
  \<^item> \<open>Deployment_Life\<close>, \<open>Deployment_Props\<close>: all writers interleaved statement by statement.
  \<^item> \<open>Watchdog_Config\<close>, \<open>Watchdog\<close> (\<open>sv/utils/deployments/watchdog-config.ts\<close>, \<open>queues/deployment-stop.ts\<close>,
    \<open>queues/deployment-watchdog.ts\<close>): settings, limits, and one sweep with what it remembers.
    \<open>Watchdog_Steps\<close>, \<open>Watchdog_Props\<close>, \<open>Watchdog_Live\<close>: what every history of sweeps guarantees.
  \<^item> \<open>Github_Run\<close>, \<open>Github_Poller\<close> (\<open>sv/services/github-run-progress.ts\<close>, \<open>github-run-poller.ts\<close>): the
    follow-up of the run behind a registered row. \<open>Github_Poller_Steps\<close>, \<open>Github_Poller_Props\<close>: what
    every history of passes and restarts guarantees.

  \<^bold>\<open>Compose files and commands\<close>.
  \<^item> \<open>Compose_Vars\<close>, \<open>Compose_Dotenv\<close>, \<open>Compose_Paths\<close>, \<open>Compose_Volumes\<close>, \<open>Compose_Resolution\<close>
    (\<open>sv/utils/volume-backups/compose-volumes.ts\<close>): the variables of a compose file and of an env file, what a
    host path can reach, the mounts of every container, the names of every volume. \<open>Compose_Volumes_Props\<close>:
    no mount of accepted files is overlooked, and what was resolved is what the deploy sees.
  \<^item> \<open>Volume_Binding\<close> (\<open>binding.ts\<close> beside it, \<open>sv/services/volume-binding.ts\<close>): whose volume a name is, over the
    tables of services, mounts and backups. \<open>Volume_Binding_Props\<close>: an accepted name is nobody else's; the
    law is the locale \<open>owner_check\<close>, which the check of the files rests on.
  \<^item> \<open>Compose_Command\<close>, \<open>Compose_Command_Check\<close> (\<open>sv/services/compose-volume-binding.ts\<close>), \<open>Own_Directory\<close>
    (\<open>sv/utils/compose-own-directory.ts\<close>): the custom command as its words, what it may run, its project and
    its paths, as written and with links followed. \<open>Compose_Command_Props\<close>: options in every spelling of
    pflag, and what an accepted command can name.
  \<^item> \<open>Compose_Env_Names\<close>, \<open>Compose_Check\<close> (\<open>sv/utils/docker/env-file.ts\<close>, \<open>sv/utils/compose-file-guard.ts\<close>,
    \<open>sv/services/compose-volume-binding.ts\<close>): the files that are read, every set of variables the deployed
    command may use, the refusals in their order. \<open>Compose_Check_Props\<close>: the mounts of an accepted deploy,
    over all the parts above.

  \<^bold>\<open>State and effects.\<close> State kept in the process (queue, watchdog, pollers) is a record passed on. A
  table is a list of rows in insertion order and a statement is one function on it; a step relation
  runs the statements of all writers in any order, so an interleaving at every await is a history. A
  call whose answer the code cannot foresee (GitHub, the database of a tick, a host, the clock) reads an
  environment, a function of everything that happened before; an exception is its failure value.

  \<^bold>\<open>Bounds and fuel.\<close>
  \<^item> \<open>wait_loop\<close> takes fuel and returns None without it; \<open>waitForRequiredChecks_ends\<close> shows that the fuel
    it is given, one round per poll up to the timeout, is enough.
  \<^item> \<open>list_pages\<close> reads at most as many pages as it is given (5 by default), as the source's loop does; \<open>read_logs\<close> counts down the 10 log
    reads of a run; \<open>finish_tries\<close> the 2 tries of a run's end; a pass of the poller the 25 reads.
  \<^item> \<open>find_eocd\<close> counts down the positions of the search window of an archive; \<open>utf8_decode_upto\<close> gets
    the length of its input, of which each round consumes a byte.
  \<^item> \<open>climb\<close> goes up the parents of a path; node's \<open>dirname\<close> shortens every path but the last, so it ends.
  \<^item> Every other recursion is structural or has a measure.

  \<^bold>\<open>Arguments of the model\<close>: GitHub's answers, registries, the clock, \<open>JSON.parse\<close>, \<open>new URL\<close>, zlib, the
  lossy decoding of UTF-8, the text of an error, and the answers of the database where a tick of a poll
  or of the watchdog reads it; for a compose the YAML parser, the tokens of \<open>shell-quote\<close>, the pairs of its
  environment, the rendered file, the file system and the output of a server. The theorems hold for all of them, unless a hypothesis names what they rely on.

  \<^bold>\<open>Simplifications.\<close> Characters have codes below 256, except in the log manifest, which works on code
  points. Times and ids are unbounded integers. The rows of a watchdog sweep, checked concurrently in the
  source, are checked one after the other, each touching its own entries only. An object is a list of
  properties in the order they were set, a number of a compose file an integer, and COMPOSE_PATH an
  absolute path. The tables behind the check of a volume are read at one moment. The deploy hook is split
  where it awaits between the merge of a push and its \<open>add\<close>, and the spending of a break-glass grant between
  its two statements, with what others do there as an argument: two resolutions at the same time may find one
  grant (the queue runs the deploys of a service one by one), and two pushes at the same time may both be added.
  The reads of the deploy gate of a push are one step before its merge. An append to a log that fails wrote
  nothing, and a pinned check is not named like an inherited property of an object.

  \<^bold>\<open>Not modelled\<close>: the HTTP requests behind the GitHub and registry answers; the list queries of the
  user interface and the deletion and pruning of connections; the replay of the queue's journal at start;
  the shell commands of builders, docker and traefik, of backups and notifications (text handed to
  programs outside), among them the checks a server runs for a compose, of which the output is read; the
  rendering of a compose file with its domains and the renames of a randomized one; the API routers (authorisation and row access over the database); React pages; the
  declarations of tables beyond the ones named.
\<close>

end
